(* ===== verification/Prelude.thy ===== *)
theory Prelude
  imports Main "HOL-Library.Word"
begin

text \<open>
  The vocabulary the component theories share.

  Go strings are byte sequences, so a Go \<open>string\<close> is an Isabelle \<open>string\<close> (a list of
  8-bit characters). The functions of the packages \<open>strings\<close> and \<open>strconv\<close> that the code
  calls are written out here on byte strings. Case mapping and case folding act on ASCII
  letters and leave every other byte alone, which is what Go does on ASCII input; the strings
  the code folds are codec, container, protocol and field names. A Go \<open>int\<close> is a
  64-bit signed integer: it is modelled as \<open>int\<close> where the code only compares and copies it,
  with the range check of \<open>strconv\<close> written out where a string is parsed, and as
  a \<open>64 word\<close> or \<open>32 word\<close> where the code does arithmetic that can wrap.
\<close>

section \<open>Collections of facts\<close>

named_theorems go_defs \<open>definitions of the small Go library functions, for evaluation\<close>
named_theorems step_keeps \<open>an operation keeps the invariant of its component\<close>

section \<open>Bytes and case\<close>

type_synonym go_string = string

definition byte :: "char \<Rightarrow> int" where
  "byte c = int (of_char c)"

definition is_digit :: "char \<Rightarrow> bool" where
  "is_digit c \<longleftrightarrow> 48 \<le> byte c \<and> byte c \<le> 57"

definition is_upper :: "char \<Rightarrow> bool" where
  "is_upper c \<longleftrightarrow> 65 \<le> byte c \<and> byte c \<le> 90"

definition lower_char :: "char \<Rightarrow> char" where
  "lower_char c = (if is_upper c then char_of (of_char c + 32 :: nat) else c)"

text \<open>\<open>strings.ToLower\<close>.\<close>

definition to_lower :: "string \<Rightarrow> string" where
  "to_lower s = map lower_char s"

text \<open>\<open>strings.EqualFold\<close>.\<close>

definition equal_fold :: "string \<Rightarrow> string \<Rightarrow> bool" where
  "equal_fold s t \<longleftrightarrow> to_lower s = to_lower t"

text \<open>\<open>strings.HasPrefix\<close>.\<close>

fun has_prefix :: "string \<Rightarrow> string \<Rightarrow> bool" where
  "has_prefix s [] = True"
| "has_prefix [] (p # ps) = False"
| "has_prefix (c # cs) (p # ps) = (c = p \<and> has_prefix cs ps)"

declare byte_def [go_defs] is_digit_def [go_defs] is_upper_def [go_defs]
  lower_char_def [go_defs] to_lower_def [go_defs] equal_fold_def [go_defs]

lemma byte_bounds: "0 \<le> byte c" "byte c < 256"
  using nat_of_char_less_256 [of c] by (simp_all add: byte_def)

lemma byte_inject [simp]: "byte c = byte d \<longleftrightarrow> c = d"
  by (simp add: byte_def)

lemma is_upper_lower_char: "\<not> is_upper (lower_char c)"
  by (auto simp: lower_char_def is_upper_def byte_def of_char_of)

lemma lower_char_idem [simp]: "lower_char (lower_char c) = lower_char c"
  using is_upper_lower_char [of c] by (simp add: lower_char_def)

lemma to_lower_idem [simp]: "to_lower (to_lower s) = to_lower s"
  by (simp add: to_lower_def)

lemma to_lower_eq_Nil [simp]: "to_lower s = [] \<longleftrightarrow> s = []" "[] = to_lower s \<longleftrightarrow> s = []"
  by (auto simp: to_lower_def)

lemma to_lower_Nil [simp]: "to_lower [] = []"
  by (simp add: to_lower_def)

lemma equal_fold_refl [simp]: "equal_fold s s"
  by (simp add: equal_fold_def)

lemma equal_fold_sym: "equal_fold s t \<longleftrightarrow> equal_fold t s"
  by (auto simp: equal_fold_def)

lemma equal_fold_trans: "equal_fold s t \<Longrightarrow> equal_fold t u \<Longrightarrow> equal_fold s u"
  by (simp add: equal_fold_def)

lemma equal_fold_lower [simp]: "equal_fold (to_lower s) s" "equal_fold s (to_lower s)"
  by (simp_all add: equal_fold_def)

lemma has_prefix_append: "has_prefix s p \<longleftrightarrow> (\<exists>t. s = p @ t)"
  by (induction s p rule: has_prefix.induct) auto

section \<open>Valid UTF-8\<close>

text \<open>
  The length of the first rune of a byte string as \<open>unicode/utf8\<close> decodes it, 0 if it is malformed:
  overlong forms, surrogates and values beyond the last code point are.
\<close>

definition utf8_cont :: "char \<Rightarrow> bool" where
  "utf8_cont c \<longleftrightarrow> 0x80 \<le> byte c \<and> byte c < 0xC0"

definition utf8_conts :: "nat \<Rightarrow> string \<Rightarrow> bool" where
  "utf8_conts n s \<longleftrightarrow> n \<le> length s \<and> list_all utf8_cont (take n s)"

definition utf8_width :: "string \<Rightarrow> nat" where
  "utf8_width s =
     (case s of
        [] \<Rightarrow> 0
      | c # r \<Rightarrow>
          (let b = byte c
           in if b < 0x80 then 1
              else if 0xC2 \<le> b \<and> b \<le> 0xDF \<and> utf8_conts 1 r then 2
              else if 0xE0 \<le> b \<and> b \<le> 0xEF \<and> utf8_conts 2 r \<and> (b = 0xE0 \<longrightarrow> 0xA0 \<le> byte (hd r))
                \<and> (b = 0xED \<longrightarrow> byte (hd r) < 0xA0) then 3
              else if 0xF0 \<le> b \<and> b \<le> 0xF4 \<and> utf8_conts 3 r \<and> (b = 0xF0 \<longrightarrow> 0x90 \<le> byte (hd r))
                \<and> (b = 0xF4 \<longrightarrow> byte (hd r) < 0x90) then 4
              else 0))"

text \<open>\<open>utf8.ValidString\<close>.\<close>

function valid_utf8 :: "string \<Rightarrow> bool" where
  "valid_utf8 s =
     (if s = [] then True else if utf8_width s = 0 then False else valid_utf8 (drop (utf8_width s) s))"
  by pat_completeness auto
termination
  by (relation "measure length") auto

declare valid_utf8.simps [simp del]

lemma valid_utf8_ascii: "list_all (\<lambda>c. byte c < 0x80) s \<Longrightarrow> valid_utf8 s"
proof (induction s)
  case (Cons c s)
  then show ?case by (subst valid_utf8.simps) (simp add: utf8_width_def)
qed (simp add: valid_utf8.simps)

lemma valid_utf8_Nil [simp]: "valid_utf8 []"
  by (simp add: valid_utf8.simps)

section \<open>Numbers as text\<close>

text \<open>Digits of a number in base \<open>b\<close>, with lower-case letters above nine, as \<open>fmt\<close> prints them.\<close>

definition digit_char :: "nat \<Rightarrow> char" where
  "digit_char d = (if d < 10 then char_of (48 + d) else char_of (87 + d))"

definition digit_val :: "char \<Rightarrow> int option" where
  "digit_val c =
     (let n = byte c in
      if 48 \<le> n \<and> n \<le> 57 then Some (n - 48)
      else if 97 \<le> n \<and> n \<le> 122 then Some (n - 87)
      else if 65 \<le> n \<and> n \<le> 90 then Some (n - 55)
      else None)"

function show_base :: "nat \<Rightarrow> nat \<Rightarrow> string" where
  "show_base b n =
     (if b < 2 \<or> n < b then [digit_char n]
      else show_base b (n div b) @ [digit_char (n mod b)])"
  by pat_completeness auto
termination
  by (relation "measure snd") auto

declare show_base.simps [simp del]

text \<open>\<open>strconv.ParseUint\<close> without its range check: \<open>None\<close> is a syntax error.\<close>

fun read_digits :: "int \<Rightarrow> int \<Rightarrow> string \<Rightarrow> int option" where
  "read_digits b acc [] = Some acc"
| "read_digits b acc (c # cs) =
     (case digit_val c of
        None \<Rightarrow> None
      | Some d \<Rightarrow> if d < b then read_digits b (acc * b + d) cs else None)"

definition parse_nat :: "int \<Rightarrow> string \<Rightarrow> int option" where
  "parse_nat b s = (if s = [] then None else read_digits b 0 s)"

text \<open>
  \<open>strconv.ParseInt(s, b, 64)\<close> and, for base 10, \<open>strconv.Atoi\<close>: an optional sign, at
  least one digit, and a value of the range of \<open>int64\<close>.
\<close>

definition in_int64 :: "int \<Rightarrow> bool" where
  "in_int64 n \<longleftrightarrow> - (2 ^ 63) \<le> n \<and> n < 2 ^ 63"

definition parse_int64 :: "int \<Rightarrow> string \<Rightarrow> int option" where
  "parse_int64 b s =
     (let (neg, ds) =
        (case s of
           [] \<Rightarrow> (False, [])
         | c # cs \<Rightarrow> if c = CHR ''-'' then (True, cs)
                     else if c = CHR ''+'' then (False, cs) else (False, s))
      in case parse_nat b ds of
           None \<Rightarrow> None
         | Some n \<Rightarrow>
             (let v = (if neg then - n else n) in if in_int64 v then Some v else None))"

definition atoi :: "string \<Rightarrow> int option" where
  "atoi s = parse_int64 10 s"

definition show_int :: "nat \<Rightarrow> int \<Rightarrow> string" where
  "show_int b n = (if n < 0 then CHR ''-'' # show_base b (nat (- n)) else show_base b (nat n))"

text \<open>\<open>strconv.Itoa\<close> and \<open>fmt\<close>'s \<open>%d\<close>.\<close>

definition itoa :: "int \<Rightarrow> string" where
  "itoa n = show_int 10 n"

lemma digit_val_char: "d < 36 \<Longrightarrow> digit_val (digit_char d) = Some (int d)"
  by (auto simp: digit_val_def digit_char_def byte_def of_char_of Let_def)

lemma read_digits_append:
  "read_digits b acc (xs @ ys) =
     (case read_digits b acc xs of None \<Rightarrow> None | Some a \<Rightarrow> read_digits b a ys)"
  by (induction b acc xs rule: read_digits.induct) (auto split: option.splits)

lemma read_digits_show_base:
  assumes "2 \<le> b" "b \<le> 36"
  shows "read_digits (int b) 0 (show_base b n) = Some (int n)"
  using assms
proof (induction b n rule: show_base.induct)
  case (1 b n)
  show ?case
  proof (cases "n < b")
    case True
    with "1.prems" show ?thesis by (simp add: show_base.simps [of b n] digit_val_char)
  next
    case False
    with "1.prems" have "n mod b < b" "n mod b < 36"
      using mod_less_divisor [of b n] by linarith+
    moreover have "int (n div b) * int b + int (n mod b) = int n"
      by (metis div_mult_mod_eq of_nat_add of_nat_mult)
    ultimately show ?thesis using False "1"
      by (simp add: show_base.simps [of b n] read_digits_append digit_val_char)
  qed
qed

lemma show_base_neq_Nil [simp]: "show_base b n \<noteq> []"
  by (subst show_base.simps) simp

lemma digit_char_neq_sign: "d < 36 \<Longrightarrow> digit_char d \<noteq> CHR ''-'' \<and> digit_char d \<noteq> CHR ''+''"
  using digit_val_char [of d] by (auto simp: digit_val_def byte_def Let_def)

lemma show_base_set:
  assumes "2 \<le> b"
  shows "set (show_base b n) \<subseteq> digit_char ` {..<b}"
  using assms
proof (induction b n rule: show_base.induct)
  case (1 b n)
  show ?case
  proof (cases "n < b")
    case True
    with "1.prems" show ?thesis by (simp add: show_base.simps [of b n])
  next
    case False
    with "1.prems" have "n mod b < b" by simp
    with False "1" show ?thesis by (simp add: show_base.simps [of b n])
  qed
qed

lemma show_base_no_sign:
  assumes "2 \<le> b" "b \<le> 36"
  obtains c cs where "show_base b n = c # cs" "c \<noteq> CHR ''-''" "c \<noteq> CHR ''+''"
proof -
  obtain c cs where eq: "show_base b n = c # cs"
    by (cases "show_base b n") auto
  then have "c \<in> digit_char ` {..<b}"
    using show_base_set [of b n] assms by auto
  then have "c \<noteq> CHR ''-'' \<and> c \<noteq> CHR ''+''"
    using digit_char_neq_sign assms by fastforce
  with eq that show thesis by blast
qed

lemma parse_show_int:
  assumes "2 \<le> b" "b \<le> 36" "in_int64 n"
  shows "parse_int64 (int b) (show_int b n) = Some n"
proof (cases "n < 0")
  case True
  with assms show ?thesis
    by (simp add: parse_int64_def show_int_def parse_nat_def read_digits_show_base)
next
  case False
  obtain c cs where "show_base b (nat n) = c # cs" "c \<noteq> CHR ''-''" "c \<noteq> CHR ''+''"
    using show_base_no_sign assms by blast
  moreover from this(1) have "read_digits (int b) 0 (c # cs) = Some n"
    using read_digits_show_base [of b "nat n"] assms False by simp
  ultimately show ?thesis
    using False assms by (simp add: parse_int64_def show_int_def parse_nat_def del: read_digits.simps)
qed

lemma atoi_itoa: "in_int64 n \<Longrightarrow> atoi (itoa n) = Some n"
  using parse_show_int [of 10 n] by (simp add: atoi_def itoa_def)

section \<open>Splitting and joining\<close>

text \<open>\<open>strings.SplitN(s, sep, 2)\<close> for a one-byte separator: \<open>Inl\<close> when it does not occur.\<close>

fun cut :: "char \<Rightarrow> string \<Rightarrow> (string \<times> string) option" where
  "cut sep [] = None"
| "cut sep (c # cs) =
     (if c = sep then Some ([], cs)
      else case cut sep cs of None \<Rightarrow> None | Some (a, b) \<Rightarrow> Some (c # a, b))"

lemma cut_append: "sep \<notin> set a \<Longrightarrow> cut sep (a @ sep # b) = Some (a, b)"
  by (induction a) auto

lemma cut_None_iff: "cut sep s = None \<longleftrightarrow> sep \<notin> set s"
  by (induction s) (auto split: option.splits)

lemma cut_SomeD: "cut sep s = Some (a, b) \<Longrightarrow> s = a @ sep # b \<and> sep \<notin> set a"
  by (induction s arbitrary: a) (auto split: if_splits option.splits)

text \<open>\<open>strings.Join\<close>.\<close>

fun join :: "string \<Rightarrow> string list \<Rightarrow> string" where
  "join sep [] = []"
| "join sep [x] = x"
| "join sep (x # y # ys) = x @ sep @ join sep (y # ys)"

end
