(* ===== verification/MediaFile.thy ===== *)
theory MediaFile
  imports Complex_Main Prelude
begin

text \<open>
  The part of \<open>model.MediaFile\<close> (\<open>model/mediafile.go\<close>) that the streaming, playback and
  scrobbling components read, and its codec inference. A \<open>time.Time\<close> is its number of
  nanoseconds since the Unix epoch; the zero time of Go is January 1 of year 1, which is
  \<open>zero_time\<close> here. A \<open>float32\<close> that is only copied is a rational number.
\<close>

type_synonym go_time = int

definition zero_time :: go_time where
  "zero_time = - 62135596800 * 10 ^ 9"

text \<open>The conversion \<open>int(f)\<close> of a \<open>float64\<close> drops the fraction.\<close>

definition float_to_int :: "rat \<Rightarrow> int" where
  "float_to_int f = (if f \<ge> 0 then \<lfloor>f\<rfloor> else \<lceil>f\<rceil>)"

lemma float_to_int_of_int [simp]: "float_to_int (of_int n) = n"
  by (simp add: float_to_int_def)

record media_file =
  mf_id :: string
  mf_path :: string
  mf_title :: string
  mf_artist :: string
  mf_album_id :: string
  mf_album_artist_id :: string
  mf_artist_ids :: "string list"
  mf_suffix :: string
  mf_codec :: string
  mf_bit_rate :: int
  mf_sample_rate :: int
  mf_bit_depth :: int
  mf_channels :: int
  mf_probe_data :: string
  mf_size :: int
  mf_duration :: rat
  mf_updated_at :: go_time

section \<open>Codec inference\<close>

text \<open>\<open>MediaFile.inferCodecFromSuffix\<close>: the cases in the order of the \<open>switch\<close>.\<close>

definition infer_codec_from_suffix :: "media_file \<Rightarrow> string" where
  "infer_codec_from_suffix mf =
     (let s = to_lower (mf_suffix mf) in
      if s = ''mp3'' \<or> s = ''mpga'' then ''mp3''
      else if s = ''mp2'' then ''mp2''
      else if s = ''ogg'' \<or> s = ''oga'' then ''vorbis''
      else if s = ''opus'' then ''opus''
      else if s = ''mpc'' then ''mpc''
      else if s = ''wma'' then ''wma''
      else if s = ''flac'' then ''flac''
      else if s = ''wav'' then ''pcm''
      else if s = ''aif'' \<or> s = ''aiff'' \<or> s = ''aifc'' then ''pcm''
      else if s = ''ape'' then ''ape''
      else if s = ''wv'' \<or> s = ''wvp'' then ''wv''
      else if s = ''tta'' then ''tta''
      else if s = ''tak'' then ''tak''
      else if s = ''shn'' then ''shn''
      else if s = ''dsf'' \<or> s = ''dff'' then ''dsd''
      else if s = ''m4a'' then (if mf_bit_depth mf > 0 then ''alac'' else ''aac'')
      else if s = ''m4b'' \<or> s = ''m4p'' \<or> s = ''m4r'' then ''aac''
      else '''')"

definition audio_codec :: "media_file \<Rightarrow> string" where
  "audio_codec mf =
     (if mf_codec mf \<noteq> '''' then to_lower (mf_codec mf) else infer_codec_from_suffix mf)"

text \<open>A codec name that leaves the model is in lower case, whatever the file says.\<close>

lemma to_lower_infer_codec [simp]:
  "to_lower (infer_codec_from_suffix mf) = infer_codec_from_suffix mf"
  by (simp add: infer_codec_from_suffix_def Let_def go_defs)

lemma to_lower_audio_codec [simp]: "to_lower (audio_codec mf) = audio_codec mf"
  by (simp add: audio_codec_def)

end
