(* ===== verification/StreamTypes.thy ===== *)
theory StreamTypes
  imports MediaFile
begin

text \<open>
  The data of the transcoding package (\<open>core/stream/types.go\<close>, \<open>model/transcoding.go\<close>), the codec tables of
  \<open>core/stream/codec.go\<close> and the container and codec aliases of \<open>core/stream/aliases.go\<close>.
  The aliases are shown to be an equivalence of names: two names match exactly when they have
  the same canonical name.
\<close>

section \<open>Types\<close>

record stream_request =
  rq_format :: string
  rq_bit_rate :: int
  rq_sample_rate :: int
  rq_bit_depth :: int
  rq_channels :: int
  rq_offset :: int

definition empty_request :: stream_request where
  "empty_request =
     \<lparr>rq_format = [], rq_bit_rate = 0, rq_sample_rate = 0, rq_bit_depth = 0, rq_channels = 0,
      rq_offset = 0\<rparr>"

record direct_play_profile =
  dp_containers :: "string list"
  dp_audio_codecs :: "string list"
  dp_protocols :: "string list"
  dp_max_audio_channels :: int

record transcode_profile =
  tp_container :: string
  tp_audio_codec :: string
  tp_protocol :: string
  tp_max_audio_channels :: int

record limitation =
  lim_name :: string
  lim_comparison :: string
  lim_values :: "string list"
  lim_required :: bool

record codec_profile =
  cp_type :: string
  cp_name :: string
  cp_limitations :: "limitation list"

record client_info =
  ci_name :: string
  ci_platform :: string
  ci_max_audio_bitrate :: int
  ci_max_transcoding_audio_bitrate :: int
  ci_direct_play_profiles :: "direct_play_profile list"
  ci_transcoding_profiles :: "transcode_profile list"
  ci_codec_profiles :: "codec_profile list"

definition protocol_http :: string where "protocol_http = ''http''"

definition comparison_equals :: string where "comparison_equals = ''Equals''"

definition comparison_not_equals :: string where "comparison_not_equals = ''NotEquals''"

definition comparison_le :: string where "comparison_le = ''LessThanEqual''"

definition comparison_ge :: string where "comparison_ge = ''GreaterThanEqual''"

definition lim_audio_channels :: string where "lim_audio_channels = ''audioChannels''"

definition lim_audio_bitrate :: string where "lim_audio_bitrate = ''audioBitrate''"

definition lim_audio_profile :: string where "lim_audio_profile = ''audioProfile''"

definition lim_audio_samplerate :: string where "lim_audio_samplerate = ''audioSamplerate''"

definition lim_audio_bitdepth :: string where "lim_audio_bitdepth = ''audioBitdepth''"

definition codec_profile_type_audio :: string where "codec_profile_type_audio = ''AudioCodec''"

lemmas stream_consts [go_defs] =
  protocol_http_def comparison_equals_def comparison_not_equals_def comparison_le_def
  comparison_ge_def lim_audio_channels_def lim_audio_bitrate_def lim_audio_profile_def
  lim_audio_samplerate_def lim_audio_bitdepth_def codec_profile_type_audio_def

record stream_details =
  det_container :: string
  det_codec :: string
  det_profile :: string
  det_bitrate :: int
  det_sample_rate :: int
  det_bit_depth :: int
  det_channels :: int
  det_duration :: rat
  det_size :: int
  det_is_lossless :: bool

record transcode_decision =
  td_media_id :: string
  td_can_direct_play :: bool
  td_can_transcode :: bool
  td_transcode_reasons :: "string list"
  td_error_reason :: string
  td_target_format :: string
  td_target_bitrate :: int
  td_target_channels :: int
  td_target_sample_rate :: int
  td_target_bit_depth :: int
  td_source_stream :: stream_details
  td_source_updated_at :: go_time
  td_transcode_stream :: "stream_details option"

record transcoding =
  trc_target_format :: string
  trc_default_bit_rate :: int
  trc_command :: string

record audio_probe =
  ap_codec :: string
  ap_profile :: string
  ap_bit_rate :: int
  ap_sample_rate :: int
  ap_bit_depth :: int
  ap_channels :: int

section \<open>Codec tables\<close>

definition normalize_probe_codec :: "string \<Rightarrow> string" where
  "normalize_probe_codec codec =
     (let c = to_lower codec in
      if has_prefix c ''dsd'' then ''dsd''
      else if has_prefix c ''pcm_'' then ''pcm''
      else c)"

definition is_lossless_format :: "string \<Rightarrow> bool" where
  "is_lossless_format format \<longleftrightarrow>
     to_lower format \<in> set [''flac'', ''alac'', ''wav'', ''aiff'', ''ape'', ''wv'', ''wavpack'',
       ''tta'', ''tak'', ''shn'', ''dsd'', ''pcm'']"

definition normalize_source_sample_rate :: "int \<Rightarrow> string \<Rightarrow> int" where
  "normalize_source_sample_rate rate codec =
     (if equal_fold codec ''dsd'' \<and> rate > 0 then rate div 8 else rate)"

definition normalize_source_bit_depth :: "int \<Rightarrow> string \<Rightarrow> int" where
  "normalize_source_bit_depth depth codec =
     (if equal_fold codec ''dsd'' \<and> depth = 1 then 24 else depth)"

definition codec_fixed_output_sample_rate :: "string \<Rightarrow> int" where
  "codec_fixed_output_sample_rate codec = (if to_lower codec = ''opus'' then 48000 else 0)"

definition codec_max_sample_rate :: "string \<Rightarrow> int" where
  "codec_max_sample_rate codec =
     (if to_lower codec = ''mp3'' then 48000
      else if to_lower codec = ''aac'' then 96000 else 0)"

section \<open>Aliases\<close>

text \<open>
  The two tables are built by the same loop: every name of a group is stored under the first
  name of its group. A Go map read of an absent key gives the empty string.
\<close>

type_synonym alias_table = "(string \<times> string) list"

fun alias_entries :: "string list list \<Rightarrow> alias_table" where
  "alias_entries [] = []"
| "alias_entries (g # gs) = map (\<lambda>name. (name, hd g)) g @ alias_entries gs"

definition alias_lookup :: "alias_table \<Rightarrow> string \<Rightarrow> string" where
  "alias_lookup t name = (case map_of (rev t) name of None \<Rightarrow> '''' | Some c \<Rightarrow> c)"

definition container_alias_groups :: alias_table where
  "container_alias_groups = alias_entries
     [[''aac'', ''adts'', ''m4a'', ''mp4'', ''m4b'', ''m4p''],
      [''mpeg'', ''mp3'', ''mp2''],
      [''ogg'', ''oga'', ''opus''],
      [''aif'', ''aiff''],
      [''asf'', ''wma''],
      [''mpc'', ''mpp''],
      [''wv'']]"

definition codec_alias_groups :: alias_table where
  "codec_alias_groups = alias_entries
     [[''aac'', ''adts''],
      [''ac3'', ''ac-3''],
      [''eac3'', ''e-ac3'', ''e-ac-3'', ''eac-3''],
      [''mpc7'', ''musepack7''],
      [''mpc8'', ''musepack8''],
      [''wma1'', ''wmav1''],
      [''wma2'', ''wmav2''],
      [''wmalossless'', ''wma9lossless''],
      [''wmapro'', ''wma9pro''],
      [''shn'', ''shorten''],
      [''mp4als'', ''als'']]"

fun match_candidates :: "string \<Rightarrow> string \<Rightarrow> alias_table \<Rightarrow> string list \<Rightarrow> bool" where
  "match_candidates value canonical aliases [] = False"
| "match_candidates value canonical aliases (c # cs) =
     (let c' = to_lower c in
      if c' = value then True
      else if canonical \<noteq> '''' \<and> alias_lookup aliases c' = canonical then True
      else match_candidates value canonical aliases cs)"

definition matches_with_aliases :: "string \<Rightarrow> string list \<Rightarrow> alias_table \<Rightarrow> bool" where
  "matches_with_aliases value candidates aliases =
     (let v = to_lower value
      in match_candidates v (alias_lookup aliases v) aliases candidates)"

definition matches_container :: "string \<Rightarrow> string list \<Rightarrow> bool" where
  "matches_container suffix containers =
     matches_with_aliases suffix containers container_alias_groups"

definition matches_codec :: "string \<Rightarrow> string list \<Rightarrow> bool" where
  "matches_codec codec codecs = matches_with_aliases codec codecs codec_alias_groups"

definition is_aac_codec :: "string \<Rightarrow> bool" where
  "is_aac_codec name \<longleftrightarrow> matches_codec name [''aac''] \<or> matches_container name [''aac'']"

definition contains_ignore_case :: "string list \<Rightarrow> string \<Rightarrow> bool" where
  "contains_ignore_case xs s \<longleftrightarrow> (\<exists>item \<in> set xs. equal_fold item s)"

section \<open>Matching names is an equivalence\<close>

text \<open>
  The interface of an alias table: the name a group is stored under is itself a name of the
  group. Under this law matching is equality of canonical names.
\<close>

definition canonical_name :: "alias_table \<Rightarrow> string \<Rightarrow> string" where
  "canonical_name t name =
     (let v = to_lower name in if alias_lookup t v = '''' then v else alias_lookup t v)"

locale alias_names =
  fixes t :: alias_table
  assumes canonical_closed:
    "alias_lookup t n \<noteq> '''' \<Longrightarrow> alias_lookup t (alias_lookup t n) = alias_lookup t n"
begin

lemma same_canonical:
  "canonical_name t v = canonical_name t c \<longleftrightarrow>
     to_lower c = to_lower v
     \<or> alias_lookup t (to_lower v) \<noteq> '''' \<and> alias_lookup t (to_lower c) = alias_lookup t (to_lower v)"
  unfolding canonical_name_def Let_def
  using canonical_closed [of "to_lower v"] canonical_closed [of "to_lower c"]
  by (auto split: if_splits)

lemma match_iff:
  "matches_with_aliases v cs t \<longleftrightarrow> (\<exists>c \<in> set cs. canonical_name t v = canonical_name t c)"
proof -
  have "match_candidates (to_lower v) (alias_lookup t (to_lower v)) t cs \<longleftrightarrow>
      (\<exists>c \<in> set cs. canonical_name t v = canonical_name t c)"
    by (induction cs) (auto simp: Let_def same_canonical)
  then show ?thesis by (simp add: matches_with_aliases_def Let_def)
qed

lemma match_single: "matches_with_aliases v [c] t \<longleftrightarrow> canonical_name t v = canonical_name t c"
  by (simp add: match_iff)

end

interpretation container_names: alias_names container_alias_groups
  by unfold_locales
    (auto simp: container_alias_groups_def alias_lookup_def split: if_splits)

interpretation codec_names: alias_names codec_alias_groups
  by unfold_locales
    (auto simp: codec_alias_groups_def alias_lookup_def split: if_splits)

lemma matches_codec_iff:
  "matches_codec v cs \<longleftrightarrow>
     (\<exists>c \<in> set cs. canonical_name codec_alias_groups v = canonical_name codec_alias_groups c)"
  by (simp add: matches_codec_def codec_names.match_iff)

lemma matches_container_iff:
  "matches_container v cs \<longleftrightarrow>
     (\<exists>c \<in> set cs. canonical_name container_alias_groups v = canonical_name container_alias_groups c)"
  by (simp add: matches_container_def container_names.match_iff)

lemma matches_codec_fold: "equal_fold v w \<Longrightarrow> matches_codec v cs = matches_codec w cs"
  by (simp add: matches_codec_iff canonical_name_def equal_fold_def)

lemma contains_ignore_case_fold:
  "equal_fold s s' \<Longrightarrow> contains_ignore_case xs s \<longleftrightarrow> contains_ignore_case xs s'"
  by (auto simp: contains_ignore_case_def equal_fold_def)

section \<open>The request context and the services the decision reads\<close>

text \<open>
  What the package reads of its surroundings. \<open>ctx_*\<close> is the request context
  (\<open>model/request/request.go\<close>): the forced transcoding, the player and the user, when
  present. The fields of \<open>stream_env\<close> are configuration and the services outside this
  package: the lookup of a transcoding by format (\<open>None\<close> for any error, which the code treats
  alike), ffprobe on the file, and JSON encoding of a probe result.
\<close>

record player =
  pl_id :: string
  pl_name :: string
  pl_max_bit_rate :: int
  pl_scrobble_enabled :: bool

record request_ctx =
  ctx_transcoding :: "transcoding option"
  ctx_player :: "player option"
  ctx_user_id :: string
  ctx_user_name :: string

record stream_env =
  env_find_by_format :: "string \<Rightarrow> transcoding option"
  env_probe_enabled :: bool
  env_default_downsampling_format :: string
  env_ff_probe :: "media_file \<Rightarrow> string + audio_probe"
  env_marshal_probe :: "audio_probe \<Rightarrow> string + string"
  env_unmarshal_probe :: "string \<Rightarrow> string + audio_probe"

text \<open>\<open>consts.DefaultTranscodings\<close>.\<close>

definition default_transcodings :: "transcoding list" where
  "default_transcodings =
     [\<lparr>trc_target_format = ''mp3'', trc_default_bit_rate = 192,
       trc_command = ''ffmpeg -i %s -ss %t -map 0:a:0 -b:a %bk -v 0 -f mp3 -''\<rparr>,
      \<lparr>trc_target_format = ''opus'', trc_default_bit_rate = 128,
       trc_command = ''ffmpeg -i %s -ss %t -map 0:a:0 -b:a %bk -v 0 -c:a libopus -f opus -''\<rparr>,
      \<lparr>trc_target_format = ''aac'', trc_default_bit_rate = 256,
       trc_command = ''ffmpeg -i %s -ss %t -map 0:a:0 -b:a %bk -v 0 -c:a aac -f adts -''\<rparr>,
      \<lparr>trc_target_format = ''flac'', trc_default_bit_rate = 0,
       trc_command = ''ffmpeg -i %s -ss %t -map 0:a:0 -v 0 -c:a flac -f flac -''\<rparr>]"


end
