(* ===== verification/StreamLimits.thy ===== *)
theory StreamLimits
  imports StreamTypes
begin

text \<open>
  Codec limitations (\<open>core/stream/limitations.go\<close>): checking a source stream against them, and
  adjusting a transcoded stream to them. The setter closure of the code becomes the value
  passed to it: \<open>None\<close> when the code does not call it.
\<close>

section \<open>Operations\<close>

datatype adjust_result = AdjustNone | AdjustAdjusted | AdjustCannotFit

text \<open>\<open>parseInt\<close>: a non-negative decimal number of the range of \<open>int\<close>.\<close>

definition parse_int :: "string \<Rightarrow> int option" where
  "parse_int s = (case atoi s of None \<Rightarrow> None | Some v \<Rightarrow> if v < 0 then None else Some v)"

fun any_equal :: "string list \<Rightarrow> int \<Rightarrow> bool" where
  "any_equal [] current = False"
| "any_equal (v # vs) current = (parse_int v = Some current \<or> any_equal vs current)"

text \<open>The loop that looks for the closest allowed value below \<open>current\<close>; \<open>None\<close> is \<open>found = false\<close>.\<close>

fun closest_below :: "string list \<Rightarrow> int \<Rightarrow> int option \<Rightarrow> int option" where
  "closest_below [] current closest = closest"
| "closest_below (v # vs) current closest =
     (case parse_int v of
        None \<Rightarrow> closest_below vs current closest
      | Some limit \<Rightarrow>
          if limit < current \<and> (case closest of None \<Rightarrow> True | Some c \<Rightarrow> limit > c)
          then closest_below vs current (Some limit)
          else closest_below vs current closest)"

definition apply_int_limitation ::
  "string \<Rightarrow> string list \<Rightarrow> int \<Rightarrow> adjust_result \<times> int option" where
  "apply_int_limitation comparison values current =
     (if values = [] then (AdjustNone, None)
      else if comparison = comparison_le then
        (case parse_int (hd values) of
           None \<Rightarrow> (AdjustNone, None)
         | Some limit \<Rightarrow>
             if current \<le> limit then (AdjustNone, None) else (AdjustAdjusted, Some limit))
      else if comparison = comparison_ge then
        (case parse_int (hd values) of
           None \<Rightarrow> (AdjustNone, None)
         | Some limit \<Rightarrow>
             if current \<ge> limit then (AdjustNone, None) else (AdjustCannotFit, None))
      else if comparison = comparison_equals then
        (if any_equal values current then (AdjustNone, None)
         else case closest_below values current None of
                Some closest \<Rightarrow> (AdjustAdjusted, Some closest)
              | None \<Rightarrow> (AdjustCannotFit, None))
      else if comparison = comparison_not_equals then
        (if any_equal values current then (AdjustCannotFit, None) else (AdjustNone, None))
      else (AdjustNone, None))"

definition check_int_limitation :: "int \<Rightarrow> string \<Rightarrow> string list \<Rightarrow> bool" where
  "check_int_limitation value comparison values \<longleftrightarrow>
     fst (apply_int_limitation comparison values value) = AdjustNone"

definition check_string_limitation :: "string \<Rightarrow> string \<Rightarrow> string list \<Rightarrow> bool" where
  "check_string_limitation value comparison values \<longleftrightarrow>
     (if comparison = comparison_equals then (\<exists>v \<in> set values. equal_fold value v)
      else if comparison = comparison_not_equals then \<not> (\<exists>v \<in> set values. equal_fold value v)
      else True)"

text \<open>
  \<open>checkLimitations\<close>: the reason of the first required limitation that fails, or the empty
  string. \<open>limitation_status\<close> is the \<open>switch\<close> of the loop body: \<open>None\<close> is its \<open>continue\<close>.
\<close>

definition limitation_status :: "stream_details \<Rightarrow> limitation \<Rightarrow> (bool \<times> string) option" where
  "limitation_status src lm =
     (let name = lim_name lm; cmp = lim_comparison lm; vs = lim_values lm in
      if name = lim_audio_channels then
        Some (check_int_limitation (det_channels src) cmp vs, ''audio channels not supported'')
      else if name = lim_audio_samplerate then
        Some (check_int_limitation (det_sample_rate src) cmp vs, ''audio samplerate not supported'')
      else if name = lim_audio_bitrate then
        Some (check_int_limitation (det_bitrate src) cmp vs, ''audio bitrate not supported'')
      else if name = lim_audio_bitdepth then
        Some (check_int_limitation (det_bit_depth src) cmp vs, ''audio bitdepth not supported'')
      else if name = lim_audio_profile then
        Some (check_string_limitation (det_profile src) cmp vs, ''audio profile not supported'')
      else None)"

fun check_limitations :: "stream_details \<Rightarrow> limitation list \<Rightarrow> string" where
  "check_limitations src [] = ''''"
| "check_limitations src (lm # lms) =
     (case limitation_status src lm of
        None \<Rightarrow> check_limitations src lms
      | Some (ok, reason) \<Rightarrow>
          if \<not> ok \<and> lim_required lm then reason else check_limitations src lms)"

text \<open>\<open>applyLimitation\<close>: the result and the stream after the setter has run.\<close>

definition set_if ::
  "(int \<Rightarrow> stream_details \<Rightarrow> stream_details) \<Rightarrow> adjust_result \<times> int option \<Rightarrow> stream_details
   \<Rightarrow> adjust_result \<times> stream_details" where
  "set_if setter r ts =
     (fst r, case snd r of None \<Rightarrow> ts | Some v \<Rightarrow> setter v ts)"

definition apply_limitation ::
  "int \<Rightarrow> limitation \<Rightarrow> stream_details \<Rightarrow> adjust_result \<times> stream_details" where
  "apply_limitation source_bitrate lm ts =
     (let name = lim_name lm; cmp = lim_comparison lm; vs = lim_values lm in
      if name = lim_audio_channels then
        set_if (\<lambda>v d. d\<lparr>det_channels := v\<rparr>) (apply_int_limitation cmp vs (det_channels ts)) ts
      else if name = lim_audio_bitrate then
        (let current = (if det_bitrate ts = 0 then source_bitrate else det_bitrate ts)
         in set_if (\<lambda>v d. d\<lparr>det_bitrate := v\<rparr>) (apply_int_limitation cmp vs current) ts)
      else if name = lim_audio_samplerate then
        set_if (\<lambda>v d. d\<lparr>det_sample_rate := v\<rparr>) (apply_int_limitation cmp vs (det_sample_rate ts)) ts
      else if name = lim_audio_bitdepth then
        (if det_bit_depth ts > 0 then
           set_if (\<lambda>v d. d\<lparr>det_bit_depth := v\<rparr>) (apply_int_limitation cmp vs (det_bit_depth ts)) ts
         else (AdjustNone, ts))
      else (AdjustNone, ts))"

section \<open>What one limitation does to a value\<close>

lemma parse_int_nonneg: "parse_int s = Some v \<Longrightarrow> 0 \<le> v"
  by (auto simp: parse_int_def split: option.splits if_splits)

text \<open>The values of a limitation that parse, in their order.\<close>

definition allowed_values :: "string list \<Rightarrow> int set" where
  "allowed_values vs = {v. \<exists>s \<in> set vs. parse_int s = Some v}"

lemma any_equal_iff: "any_equal vs c \<longleftrightarrow> c \<in> allowed_values vs"
  by (induction vs) (auto simp: allowed_values_def)

lemma allowed_values_Nil [simp]: "allowed_values [] = {}"
  by (simp add: allowed_values_def)

lemma allowed_values_Cons:
  "allowed_values (v # vs) = (case parse_int v of None \<Rightarrow> {} | Some l \<Rightarrow> {l}) \<union> allowed_values vs"
  by (auto simp: allowed_values_def split: option.splits)

lemma closest_below_invariant:
  assumes "\<And>c. closest = Some c \<Longrightarrow> c < current"
  shows "case closest_below vs current closest of
           None \<Rightarrow> closest = None \<and> (\<forall>l \<in> allowed_values vs. current \<le> l)
         | Some r \<Rightarrow> r < current \<and> (closest = Some r \<or> r \<in> allowed_values vs)
             \<and> (\<forall>c. closest = Some c \<longrightarrow> c \<le> r)
             \<and> (\<forall>l \<in> allowed_values vs. l < current \<longrightarrow> l \<le> r)"
  using assms
proof (induction vs current closest rule: closest_below.induct)
  case (1 current closest)
  then show ?case by (cases closest) auto
next
  case (2 v vs current closest)
  show ?case
  proof (cases "parse_int v")
    case None
    with 2 show ?thesis by (auto simp: allowed_values_Cons split: option.splits)
  next
    case (Some limit)
    show ?thesis
    proof (cases "limit < current \<and> (case closest of None \<Rightarrow> True | Some c \<Rightarrow> limit > c)")
      case True
      with "2.IH"(2) [OF Some True] Some show ?thesis
        by (fastforce simp: allowed_values_Cons split: option.splits)
    next
      case False
      from "2.IH"(3) [OF Some False "2.prems"] Some False "2.prems" show ?thesis
        by (cases closest; cases "closest_below vs current closest")
          (force simp: allowed_values_Cons)+
    qed
  qed
qed

text \<open>The search returns the greatest allowed value below the current one, if there is one.\<close>

lemma closest_below_Some:
  "closest_below vs current None = Some r \<Longrightarrow>
     r \<in> allowed_values vs \<and> r < current \<and> (\<forall>l \<in> allowed_values vs. l < current \<longrightarrow> l \<le> r)"
  using closest_below_invariant [of None current vs] by auto

lemma closest_below_None:
  "closest_below vs current None = None \<longleftrightarrow> (\<forall>l \<in> allowed_values vs. current \<le> l)"
  using closest_below_invariant [of None current vs]
  by (cases "closest_below vs current None") (auto simp: not_le)

lemmas limit_comparisons = comparison_le_def comparison_ge_def comparison_equals_def
  comparison_not_equals_def

text \<open>A value is only ever lowered, and only by an adjustment.\<close>

lemma apply_int_limitation_lowers:
  "apply_int_limitation cmp vs cur = (r, Some v) \<Longrightarrow> r = AdjustAdjusted \<and> v < cur \<and> 0 \<le> v"
  by (auto simp: apply_int_limitation_def not_le dest!: closest_below_Some
      dest: parse_int_nonneg simp: allowed_values_def split: if_splits option.splits)

lemma apply_int_limitation_None:
  "apply_int_limitation cmp vs cur = (r, None) \<Longrightarrow> r \<noteq> AdjustAdjusted"
  by (auto simp: apply_int_limitation_def split: if_splits option.splits)

text \<open>The adjusted value satisfies the limitation.\<close>

lemma apply_int_limitation_fits:
  "apply_int_limitation cmp vs cur = (AdjustAdjusted, Some v) \<Longrightarrow> check_int_limitation v cmp vs"
  by (auto simp: apply_int_limitation_def check_int_limitation_def any_equal_iff limit_comparisons
      dest: closest_below_Some split: if_splits option.splits)

text \<open>A lower value still satisfies an upper bound.\<close>

lemma check_le_antimono:
  "check_int_limitation v comparison_le vs \<Longrightarrow> w \<le> v \<Longrightarrow> check_int_limitation w comparison_le vs"
  by (auto simp: check_int_limitation_def apply_int_limitation_def split: if_splits option.splits)

text \<open>A value a limitation sets is one of its own values.\<close>

lemma apply_int_limitation_allowed:
  "apply_int_limitation cmp vs cur = (r, Some v) \<Longrightarrow> v \<in> allowed_values vs"
  using hd_in_set [of vs]
  by (fastforce simp: apply_int_limitation_def allowed_values_def limit_comparisons
      dest: closest_below_Some split: if_splits option.splits)

end
