(* ===== verification/StreamDecider.thy ===== *)
theory StreamDecider
  imports StreamLimits
begin

text \<open>
  The transcoding decision (\<open>core/stream/decider.go\<close>) and the resolution of a legacy stream
  request (\<open>core/stream/legacy_client.go\<close>). A Go \<open>*Details\<close> that a function fills in is
  passed and returned; a function that returns \<open>nil\<close> or \<open>false\<close> to reject a profile
  returns \<open>None\<close>. Log calls are left out.
\<close>

section \<open>Looking up transcodings\<close>

definition fallback_bitrate :: int where "fallback_bitrate = 256"

definition lookup_default_bitrate :: "stream_env \<Rightarrow> string \<Rightarrow> int" where
  "lookup_default_bitrate env format =
     (let built_in =
        (case find (\<lambda>dt. trc_target_format dt = format \<and> trc_default_bit_rate dt > 0)
                default_transcodings of
           Some dt \<Rightarrow> trc_default_bit_rate dt
         | None \<Rightarrow> fallback_bitrate)
      in case env_find_by_format env format of
           Some t \<Rightarrow> if trc_default_bit_rate t > 0 then trc_default_bit_rate t else built_in
         | None \<Rightarrow> built_in)"

definition lookup_transcode_command :: "stream_env \<Rightarrow> string \<Rightarrow> string" where
  "lookup_transcode_command env format =
     (let built_in =
        (case find (\<lambda>dt. trc_target_format dt = format) default_transcodings of
           Some dt \<Rightarrow> trc_command dt
         | None \<Rightarrow> '''')
      in case env_find_by_format env format of
           Some t \<Rightarrow> if trc_command t \<noteq> '''' then trc_command t else built_in
         | None \<Rightarrow> built_in)"

section \<open>The source stream\<close>

definition parse_probe_data :: "stream_env \<Rightarrow> string \<Rightarrow> string + audio_probe option" where
  "parse_probe_data env data =
     (if data = '''' then Inr None
      else case env_unmarshal_probe env data of Inl e \<Rightarrow> Inl e | Inr p \<Rightarrow> Inr (Some p))"

text \<open>
  \<open>ensureProbed\<close>: the error or probe, the media file (whose probe data it may set) and the
  writes to the database, whose failure the code only logs.
\<close>

definition ensure_probed ::
  "stream_env \<Rightarrow> media_file
   \<Rightarrow> (string + audio_probe option) \<times> media_file \<times> (string \<times> string) list" where
  "ensure_probed env mf =
     (if mf_probe_data mf \<noteq> '''' then (Inr None, mf, [])
      else if \<not> env_probe_enabled env then (Inr None, mf, [])
      else case env_ff_probe env mf of
             Inl e \<Rightarrow> (Inl (''probing media file '' @ mf_id mf @ '': '' @ e), mf, [])
           | Inr result \<Rightarrow>
               (case env_marshal_probe env result of
                  Inl e \<Rightarrow> (Inl (''marshaling probe result for '' @ mf_id mf @ '': '' @ e), mf, [])
                | Inr data \<Rightarrow>
                    (Inr (Some result), mf\<lparr>mf_probe_data := data\<rparr>, [(mf_id mf, data)])))"

definition build_source_stream ::
  "stream_env \<Rightarrow> media_file \<Rightarrow> audio_probe option \<Rightarrow> stream_details" where
  "build_source_stream env mf probe0 =
     (let probe =
        (case probe0 of
           Some p \<Rightarrow> Some p
         | None \<Rightarrow> (case parse_probe_data env (mf_probe_data mf) of Inl e \<Rightarrow> None | Inr p \<Rightarrow> p));
          sd =
        (case probe of
           Some p \<Rightarrow>
             \<lparr>det_container = mf_suffix mf, det_codec = normalize_probe_codec (ap_codec p),
              det_profile = ap_profile p, det_bitrate = ap_bit_rate p,
              det_sample_rate = ap_sample_rate p, det_bit_depth = ap_bit_depth p,
              det_channels = ap_channels p, det_duration = mf_duration mf, det_size = mf_size mf,
              det_is_lossless = False\<rparr>
         | None \<Rightarrow>
             \<lparr>det_container = mf_suffix mf, det_codec = audio_codec mf,
              det_profile = '''', det_bitrate = mf_bit_rate mf,
              det_sample_rate = mf_sample_rate mf, det_bit_depth = mf_bit_depth mf,
              det_channels = mf_channels mf, det_duration = mf_duration mf, det_size = mf_size mf,
              det_is_lossless = False\<rparr>)
      in sd\<lparr>det_is_lossless := is_lossless_format (det_codec sd)\<rparr>)"

section \<open>Direct play\<close>

definition apply_server_override ::
  "request_ctx \<Rightarrow> client_info \<Rightarrow> transcoding \<Rightarrow> client_info" where
  "apply_server_override ctx original trc =
     (let max_bit_rate =
        (case ctx_player ctx of
           Some p \<Rightarrow> if pl_max_bit_rate p > 0 then pl_max_bit_rate p else trc_default_bit_rate trc
         | None \<Rightarrow> trc_default_bit_rate trc)
      in \<lparr>ci_name = ci_name original, ci_platform = ci_platform original,
          ci_max_audio_bitrate = max_bit_rate, ci_max_transcoding_audio_bitrate = max_bit_rate,
          ci_direct_play_profiles =
            [\<lparr>dp_containers = [trc_target_format trc], dp_audio_codecs = [trc_target_format trc],
              dp_protocols = [protocol_http], dp_max_audio_channels = 0\<rparr>],
          ci_transcoding_profiles =
            [\<lparr>tp_container = trc_target_format trc, tp_audio_codec = trc_target_format trc,
              tp_protocol = protocol_http, tp_max_audio_channels = 0\<rparr>],
          ci_codec_profiles = []\<rparr>)"

text \<open>The client information that \<open>MakeDecision\<close> goes on with.\<close>

definition effective_client :: "request_ctx \<Rightarrow> client_info \<Rightarrow> client_info" where
  "effective_client ctx ci =
     (let capped =
        (case ctx_player ctx of
           None \<Rightarrow> ci
         | Some p \<Rightarrow>
             if pl_max_bit_rate p > 0
                \<and> (ci_max_audio_bitrate ci = 0 \<or> pl_max_bit_rate p < ci_max_audio_bitrate ci)
             then ci\<lparr>ci_max_audio_bitrate := pl_max_bit_rate p\<rparr> else ci)
      in case ctx_transcoding ctx of
           Some trc \<Rightarrow>
             if trc_target_format trc \<noteq> '''' then apply_server_override ctx ci trc else capped
         | None \<Rightarrow> capped)"

fun check_codec_profiles :: "stream_details \<Rightarrow> codec_profile list \<Rightarrow> string" where
  "check_codec_profiles src [] = ''''"
| "check_codec_profiles src (cp # cps) =
     (if equal_fold (cp_type cp) codec_profile_type_audio
         \<and> matches_codec (det_codec src) [cp_name cp]
      then (let reason = check_limitations src (cp_limitations cp) in
            if reason \<noteq> '''' then reason else check_codec_profiles src cps)
      else check_codec_profiles src cps)"

definition check_direct_play_profile ::
  "stream_details \<Rightarrow> direct_play_profile \<Rightarrow> client_info \<Rightarrow> string" where
  "check_direct_play_profile src profile ci =
     (if dp_protocols profile \<noteq> [] \<and> \<not> contains_ignore_case (dp_protocols profile) protocol_http
      then ''protocol not supported''
      else if dp_containers profile \<noteq> []
         \<and> \<not> matches_container (det_container src) (dp_containers profile)
      then ''container not supported''
      else if dp_audio_codecs profile \<noteq> []
         \<and> \<not> matches_codec (det_codec src) (dp_audio_codecs profile)
      then ''audio codec not supported''
      else if dp_max_audio_channels profile > 0
         \<and> det_channels src > dp_max_audio_channels profile
      then ''audio channels not supported''
      else check_codec_profiles src (ci_codec_profiles ci))"

text \<open>The loop over the direct-play profiles, collecting reasons; a match clears them.\<close>

fun try_direct_play ::
  "stream_details \<Rightarrow> client_info \<Rightarrow> direct_play_profile list \<Rightarrow> string list \<Rightarrow> bool \<times> string list"
where
  "try_direct_play src ci [] reasons = (False, reasons)"
| "try_direct_play src ci (p # ps) reasons =
     (let reason = check_direct_play_profile src p ci in
      if reason = '''' then (True, [])
      else try_direct_play src ci ps (reasons @ [reason]))"

section \<open>Transcoding\<close>

definition resolve_target_format :: "transcode_profile \<Rightarrow> string \<times> string" where
  "resolve_target_format profile =
     (let container = to_lower (tp_container profile);
          target = (if tp_audio_codec profile \<noteq> '''' then to_lower (tp_audio_codec profile)
                    else container)
      in if target = '''' then ('''', '''')
         else (if container = '''' then target else container, target))"

definition compute_bitrate ::
  "stream_env \<Rightarrow> stream_details \<Rightarrow> string \<Rightarrow> bool \<Rightarrow> client_info \<Rightarrow> stream_details
   \<Rightarrow> stream_details option" where
  "compute_bitrate env src target_format target_is_lossless ci ts =
     (if det_is_lossless src \<and> target_is_lossless
         \<and> ci_max_audio_bitrate ci > 0 \<and> det_bitrate src > ci_max_audio_bitrate ci
      then None
      else
        (let b =
           (if det_is_lossless src then
              (if \<not> target_is_lossless then
                 (if ci_max_transcoding_audio_bitrate ci > 0
                  then ci_max_transcoding_audio_bitrate ci
                  else if ci_max_audio_bitrate ci > 0 then ci_max_audio_bitrate ci
                  else lookup_default_bitrate env target_format)
               else det_bitrate ts)
            else det_bitrate src);
             capped =
           (if ci_max_audio_bitrate ci > 0 \<and> b > 0 \<and> b > ci_max_audio_bitrate ci
            then ci_max_audio_bitrate ci else b)
         in Some (ts\<lparr>det_bitrate := capped\<rparr>)))"

fun apply_limitations ::
  "int \<Rightarrow> bool \<Rightarrow> limitation list \<Rightarrow> stream_details \<Rightarrow> stream_details option" where
  "apply_limitations source_bitrate target_is_lossless [] ts = Some ts"
| "apply_limitations source_bitrate target_is_lossless (lm # lms) ts =
     (let (result, ts') = apply_limitation source_bitrate lm ts in
      if equal_fold (lim_name lm) lim_audio_bitrate \<and> target_is_lossless \<and> result = AdjustAdjusted
      then None
      else if result = AdjustCannotFit then None
      else apply_limitations source_bitrate target_is_lossless lms ts')"

fun apply_codec_profiles ::
  "int \<Rightarrow> bool \<Rightarrow> string \<Rightarrow> codec_profile list \<Rightarrow> stream_details \<Rightarrow> stream_details option" where
  "apply_codec_profiles source_bitrate target_is_lossless target_codec [] ts = Some ts"
| "apply_codec_profiles source_bitrate target_is_lossless target_codec (cp # cps) ts =
     (if \<not> equal_fold (cp_type cp) codec_profile_type_audio then
        apply_codec_profiles source_bitrate target_is_lossless target_codec cps ts
      else if \<not> matches_codec target_codec [cp_name cp] then
        apply_codec_profiles source_bitrate target_is_lossless target_codec cps ts
      else case apply_limitations source_bitrate target_is_lossless (cp_limitations cp) ts of
             None \<Rightarrow> None
           | Some ts' \<Rightarrow>
               apply_codec_profiles source_bitrate target_is_lossless target_codec cps ts')"

definition apply_codec_limitations ::
  "int \<Rightarrow> bool \<Rightarrow> client_info \<Rightarrow> stream_details \<Rightarrow> stream_details option" where
  "apply_codec_limitations source_bitrate target_is_lossless ci ts =
     apply_codec_profiles source_bitrate target_is_lossless (det_codec ts) (ci_codec_profiles ci) ts"

text \<open>The stream before its bitrate is computed: the composite literal and the rate adjustments.\<close>

definition initial_transcoded_stream ::
  "stream_details \<Rightarrow> transcode_profile \<Rightarrow> string \<Rightarrow> string \<Rightarrow> stream_details" where
  "initial_transcoded_stream src profile container target =
     (let codec = (if to_lower (tp_audio_codec profile) = '''' then target
                   else to_lower (tp_audio_codec profile));
          r0 = normalize_source_sample_rate (det_sample_rate src) (det_codec src);
          fixed = codec_fixed_output_sample_rate codec;
          r1 = (if fixed > 0 then fixed else r0);
          max_rate = codec_max_sample_rate codec;
          r2 = (if max_rate > 0 \<and> r1 > max_rate then max_rate else r1)
      in \<lparr>det_container = container, det_codec = codec, det_profile = '''', det_bitrate = 0,
          det_sample_rate = r2,
          det_bit_depth = normalize_source_bit_depth (det_bit_depth src) (det_codec src),
          det_channels = det_channels src, det_duration = 0, det_size = 0,
          det_is_lossless = is_lossless_format target\<rparr>)"

definition compute_transcoded_stream ::
  "stream_env \<Rightarrow> stream_details \<Rightarrow> transcode_profile \<Rightarrow> client_info
   \<Rightarrow> (stream_details \<times> string) option" where
  "compute_transcoded_stream env src profile ci =
     (if tp_protocol profile \<noteq> '''' \<and> \<not> equal_fold (tp_protocol profile) protocol_http then None
      else
        (let (container, target) = resolve_target_format profile in
         if target = '''' then None
         else if lookup_transcode_command env target = '''' then None
         else if \<not> det_is_lossless src \<and> is_lossless_format target then None
         else
           case compute_bitrate env src target (is_lossless_format target) ci
                  (initial_transcoded_stream src profile container target) of
             None \<Rightarrow> None
           | Some ts \<Rightarrow>
               (let ts' = (if tp_max_audio_channels profile > 0
                              \<and> det_channels src > tp_max_audio_channels profile
                           then ts\<lparr>det_channels := tp_max_audio_channels profile\<rparr> else ts)
                in case apply_codec_limitations (det_bitrate src) (is_lossless_format target) ci ts' of
                     None \<Rightarrow> None
                   | Some ts'' \<Rightarrow> Some (ts'', target))))"

fun try_transcode ::
  "stream_env \<Rightarrow> stream_details \<Rightarrow> client_info \<Rightarrow> transcode_profile list
   \<Rightarrow> (stream_details \<times> string) option" where
  "try_transcode env src ci [] = None"
| "try_transcode env src ci (p # ps) =
     (case compute_transcoded_stream env src p ci of
        Some r \<Rightarrow> Some r
      | None \<Rightarrow> try_transcode env src ci ps)"

section \<open>The decision\<close>

definition no_profile_error :: string where
  "no_profile_error = ''no compatible playback profile found''"

definition decide ::
  "stream_env \<Rightarrow> media_file \<Rightarrow> stream_details \<Rightarrow> client_info \<Rightarrow> transcode_decision" where
  "decide env mf src ci =
     (let (direct, reasons) =
        (if ci_max_audio_bitrate ci > 0 \<and> det_bitrate src > ci_max_audio_bitrate ci
         then (False, [''audio bitrate not supported''])
         else try_direct_play src ci (ci_direct_play_profiles ci) []);
          d =
        \<lparr>td_media_id = mf_id mf, td_can_direct_play = direct, td_can_transcode = False,
         td_transcode_reasons = reasons, td_error_reason = '''', td_target_format = '''',
         td_target_bitrate = 0, td_target_channels = 0, td_target_sample_rate = 0,
         td_target_bit_depth = 0, td_source_stream = src, td_source_updated_at = mf_updated_at mf,
         td_transcode_stream = None\<rparr>
      in if direct then d
         else case try_transcode env src ci (ci_transcoding_profiles ci) of
                Some (ts, format) \<Rightarrow>
                  d\<lparr>td_can_transcode := True, td_target_format := format,
                    td_target_bitrate := det_bitrate ts, td_target_channels := det_channels ts,
                    td_target_sample_rate := det_sample_rate ts,
                    td_target_bit_depth := det_bit_depth ts, td_transcode_stream := Some ts\<rparr>
              | None \<Rightarrow> d\<lparr>td_error_reason := no_profile_error\<rparr>)"

text \<open>
  \<open>MakeDecision\<close>: the decision or the probe error, with the media file and the database
  writes that probing leaves behind.
\<close>

definition make_decision ::
  "stream_env \<Rightarrow> request_ctx \<Rightarrow> media_file \<Rightarrow> client_info \<Rightarrow> bool
   \<Rightarrow> (string + transcode_decision) \<times> media_file \<times> (string \<times> string) list" where
  "make_decision env ctx mf ci skip_probe =
     (let (probe, mf', writes) =
        (if skip_probe then (Inr None, mf, []) else ensure_probed env mf)
      in case probe of
           Inl e \<Rightarrow> (Inl e, mf', writes)
         | Inr p \<Rightarrow>
             (Inr (decide env mf' (build_source_stream env mf' p) (effective_client ctx ci)),
              mf', writes))"

section \<open>Legacy requests\<close>

definition build_legacy_client_info ::
  "stream_env \<Rightarrow> media_file \<Rightarrow> string \<Rightarrow> int \<Rightarrow> client_info" where
  "build_legacy_client_info env mf req_format req_bit_rate =
     (let ci = \<lparr>ci_name = ''legacy'', ci_platform = '''', ci_max_audio_bitrate = 0,
                ci_max_transcoding_audio_bitrate = 0, ci_direct_play_profiles = [],
                ci_transcoding_profiles = [], ci_codec_profiles = []\<rparr>;
          target =
            (if req_format \<noteq> '''' then req_format
             else if req_bit_rate > 0 \<and> req_bit_rate < mf_bit_rate mf
                     \<and> env_default_downsampling_format env \<noteq> ''''
             then env_default_downsampling_format env else '''')
      in if target \<noteq> '''' then
           (let ci1 =
              (if req_format = '''' \<or> equal_fold req_format (mf_suffix mf) then
                 ci\<lparr>ci_direct_play_profiles :=
                      [\<lparr>dp_containers = [mf_suffix mf], dp_audio_codecs = [audio_codec mf],
                        dp_protocols = [protocol_http], dp_max_audio_channels = 0\<rparr>]\<rparr>
               else ci);
                ci2 = ci1\<lparr>ci_transcoding_profiles :=
                      [\<lparr>tp_container = target, tp_audio_codec = target,
                        tp_protocol = protocol_http, tp_max_audio_channels = 0\<rparr>]\<rparr>
            in if req_bit_rate > 0 then
                 ci2\<lparr>ci_max_audio_bitrate := req_bit_rate,
                     ci_max_transcoding_audio_bitrate := req_bit_rate\<rparr>
               else ci2)
         else ci\<lparr>ci_direct_play_profiles :=
                   [\<lparr>dp_containers = [], dp_audio_codecs = [], dp_protocols = [protocol_http],
                     dp_max_audio_channels = 0\<rparr>]\<rparr>)"

text \<open>
  \<open>ResolveRequest\<close> calls itself once with the default downsampling format. The measure is
  whether the requested format still differs from it.
\<close>

definition raw_request :: "int \<Rightarrow> stream_request" where
  "raw_request offset = empty_request\<lparr>rq_offset := offset, rq_format := ''raw''\<rparr>"

definition request_of_decision :: "transcode_decision \<Rightarrow> int \<Rightarrow> stream_request" where
  "request_of_decision d offset =
     \<lparr>rq_format = td_target_format d, rq_bit_rate = td_target_bitrate d,
      rq_sample_rate = td_target_sample_rate d, rq_bit_depth = td_target_bit_depth d,
      rq_channels = td_target_channels d, rq_offset = offset\<rparr>"

function resolve_request ::
  "stream_env \<Rightarrow> request_ctx \<Rightarrow> media_file \<Rightarrow> string \<Rightarrow> int \<Rightarrow> int \<Rightarrow> stream_request" where
  "resolve_request env ctx mf req_format req_bit_rate offset =
     (if req_format = ''raw'' then raw_request offset
      else case fst (make_decision env ctx mf
                       (build_legacy_client_info env mf req_format req_bit_rate) True) of
             Inl e \<Rightarrow> raw_request offset
           | Inr d \<Rightarrow>
               if td_can_direct_play d then raw_request offset
               else if td_can_transcode d then request_of_decision d offset
               else if req_format \<noteq> '''' \<and> env_default_downsampling_format env \<noteq> ''''
                       \<and> \<not> equal_fold req_format (env_default_downsampling_format env)
               then resolve_request env ctx mf (env_default_downsampling_format env)
                      req_bit_rate offset
               else raw_request offset)"
  by pat_completeness auto
termination
  by (relation "measure (\<lambda>(env, ctx, mf, f, b, off).
        if equal_fold f (env_default_downsampling_format env) then 0 else 1)")
    (auto split: if_splits)

declare resolve_request.simps [simp del]

end
