(* ===== verification/StreamSafety.thy ===== *)
theory StreamSafety
  imports StreamDecider
begin

text \<open>
  What the transcoding decision guarantees: direct play is offered exactly when a profile
  accepts the source, a transcoded stream stays within every limit that applies to it, and
  a legacy request always resolves to something the server can produce.
\<close>

section \<open>Direct play against its specification\<close>

text \<open>
  The specification, without reason strings: what it means that a limitation holds of the
  source and that a profile accepts it.
\<close>

definition limitation_holds :: "stream_details \<Rightarrow> limitation \<Rightarrow> bool" where
  "limitation_holds src lm \<longleftrightarrow>
     (case limitation_status src lm of None \<Rightarrow> True | Some (ok, _) \<Rightarrow> ok)"

definition profile_accepts :: "stream_details \<Rightarrow> direct_play_profile \<Rightarrow> client_info \<Rightarrow> bool" where
  "profile_accepts src p ci \<longleftrightarrow>
     (dp_protocols p = [] \<or> contains_ignore_case (dp_protocols p) ''http'')
     \<and> (dp_containers p = [] \<or> matches_container (det_container src) (dp_containers p))
     \<and> (dp_audio_codecs p = [] \<or> matches_codec (det_codec src) (dp_audio_codecs p))
     \<and> (dp_max_audio_channels p \<le> 0 \<or> det_channels src \<le> dp_max_audio_channels p)
     \<and> (\<forall>cp \<in> set (ci_codec_profiles ci).
          equal_fold (cp_type cp) ''AudioCodec'' \<and> matches_codec (det_codec src) [cp_name cp]
          \<longrightarrow> (\<forall>lm \<in> set (cp_limitations cp). lim_required lm \<longrightarrow> limitation_holds src lm))"

lemma limitation_status_reason: "limitation_status src lm = Some (ok, reason) \<Longrightarrow> reason \<noteq> ''''"
  by (auto simp: limitation_status_def Let_def split: if_splits)

lemma check_limitations_empty_iff:
  "check_limitations src lms = '''' \<longleftrightarrow>
     (\<forall>lm \<in> set lms. lim_required lm \<longrightarrow> limitation_holds src lm)"
  by (induction lms)
    (auto simp: limitation_holds_def dest: limitation_status_reason split: option.splits prod.splits)

lemma check_codec_profiles_empty_iff:
  "check_codec_profiles src cps = '''' \<longleftrightarrow>
     (\<forall>cp \<in> set cps. equal_fold (cp_type cp) ''AudioCodec'' \<and> matches_codec (det_codec src) [cp_name cp]
        \<longrightarrow> (\<forall>lm \<in> set (cp_limitations cp). lim_required lm \<longrightarrow> limitation_holds src lm))"
  by (induction cps)
    (auto simp: Let_def codec_profile_type_audio_def check_limitations_empty_iff)

lemma check_direct_play_profile_iff:
  "check_direct_play_profile src p ci = '''' \<longleftrightarrow> profile_accepts src p ci"
  unfolding check_direct_play_profile_def profile_accepts_def protocol_http_def
  by (simp add: check_codec_profiles_empty_iff not_le not_less)

lemma try_direct_play_iff:
  "fst (try_direct_play src ci ps rs) \<longleftrightarrow> (\<exists>p \<in> set ps. profile_accepts src p ci)"
  by (induction ps arbitrary: rs) (auto simp: Let_def check_direct_play_profile_iff)

lemma try_direct_play_reasons:
  "try_direct_play src ci ps rs = (False, rs') \<Longrightarrow>
     rs' = rs @ map (\<lambda>p. check_direct_play_profile src p ci) ps"
  by (induction ps arbitrary: rs) (fastforce simp: Let_def split: if_splits)+

definition direct_play_allowed :: "stream_details \<Rightarrow> client_info \<Rightarrow> bool" where
  "direct_play_allowed src ci \<longleftrightarrow>
     (ci_max_audio_bitrate ci \<le> 0 \<or> det_bitrate src \<le> ci_max_audio_bitrate ci)
     \<and> (\<exists>p \<in> set (ci_direct_play_profiles ci). profile_accepts src p ci)"

lemma decide_direct_iff:
  "td_can_direct_play (decide env mf src ci) \<longleftrightarrow> direct_play_allowed src ci"
proof -
  have "td_can_direct_play (decide env mf src ci) \<longleftrightarrow>
      \<not> (ci_max_audio_bitrate ci > 0 \<and> det_bitrate src > ci_max_audio_bitrate ci)
      \<and> fst (try_direct_play src ci (ci_direct_play_profiles ci) [])"
    by (auto simp: decide_def Let_def split: prod.splits option.splits if_splits)
  then show ?thesis
    by (auto simp: direct_play_allowed_def try_direct_play_iff not_less not_le)
qed

lemma decide_source [simp]: "td_source_stream (decide env mf src ci) = src"
  by (auto simp: decide_def Let_def split: prod.splits option.splits if_splits)

lemma decide_transcode_iff:
  "td_can_transcode (decide env mf src ci) \<longleftrightarrow>
     \<not> direct_play_allowed src ci
     \<and> try_transcode env src ci (ci_transcoding_profiles ci) \<noteq> None"
  unfolding decide_direct_iff [symmetric, where env = env and mf = mf]
  by (auto simp: decide_def Let_def split: prod.splits option.splits if_splits)

lemma make_decision_decide:
  "make_decision env ctx mf ci skip = (Inr d, mf', w) \<Longrightarrow>
     d = decide env mf' (td_source_stream d) (effective_client ctx ci)"
  by (auto simp: make_decision_def Let_def split: prod.splits sum.splits)

section \<open>The limits of a transcoded stream\<close>

text \<open>
  One limitation lowers at most one field, and the bit rate only from a value that the code
  compared: the stream's own rate or, when that is unset, the source's.
\<close>

definition lowered :: "int \<Rightarrow> stream_details \<Rightarrow> stream_details \<Rightarrow> bool" where
  "lowered source_bitrate ts ts' \<longleftrightarrow>
     det_channels ts' \<le> det_channels ts \<and> det_sample_rate ts' \<le> det_sample_rate ts
     \<and> det_bit_depth ts' \<le> det_bit_depth ts
     \<and> (det_bitrate ts' = det_bitrate ts
         \<or> det_bitrate ts' < (if det_bitrate ts = 0 then source_bitrate else det_bitrate ts)
           \<and> 0 \<le> det_bitrate ts')
     \<and> det_codec ts' = det_codec ts \<and> det_container ts' = det_container ts
     \<and> det_is_lossless ts' = det_is_lossless ts"

lemma lowered_refl [simp]: "lowered b ts ts"
  by (simp add: lowered_def)

lemma set_if_cases:
  assumes "set_if setter (apply_int_limitation c vs cur) ts = (r, ts')"
  obtains "ts' = ts" "r \<noteq> AdjustAdjusted" "r \<noteq> AdjustCannotFit \<longrightarrow> check_int_limitation cur c vs"
  | v where "ts' = setter v ts" "r = AdjustAdjusted" "v < cur" "0 \<le> v"
      "check_int_limitation v c vs" "v \<in> allowed_values vs"
proof -
  obtain q w where q: "apply_int_limitation c vs cur = (q, w)" by fastforce
  note apply_int_limitation_lowers [of c vs cur q] apply_int_limitation_None [of c vs cur q]
    apply_int_limitation_fits [of c vs cur] apply_int_limitation_allowed [of c vs cur q]
  with q assms that show thesis
    by (cases w; cases q) (auto simp: set_if_def check_int_limitation_def)
qed

lemma apply_limitation_lowered:
  "apply_limitation b lm ts = (r, ts') \<Longrightarrow> lowered b ts ts'"
  by (auto simp: apply_limitation_def Let_def lowered_def elim!: set_if_cases split: if_splits)

lemma apply_limitation_bitrate:
  "apply_limitation b lm ts = (r, ts') \<Longrightarrow> det_bitrate ts' \<noteq> det_bitrate ts \<Longrightarrow>
     lim_name lm = lim_audio_bitrate \<and> r = AdjustAdjusted"
  by (auto simp: apply_limitation_def Let_def elim!: set_if_cases split: if_splits)

text \<open>The bit-rate bound carried through a chain of limitations.\<close>

definition rate_within :: "int \<Rightarrow> int \<Rightarrow> stream_details \<Rightarrow> bool" where
  "rate_within source_bitrate m ts \<longleftrightarrow>
     det_bitrate ts \<le> m \<and> (det_bitrate ts = 0 \<longrightarrow> source_bitrate \<le> m)"

text \<open>
  The contract between one limitation and the two loops over limitations and codec profiles:
  a predicate \<open>R\<close> on the stream that every accepted limitation with property \<open>P\<close> keeps. The
  loops then keep it too.
\<close>

locale limit_invariant =
  fixes b :: int and l :: bool and P :: "limitation \<Rightarrow> bool" and R :: "stream_details \<Rightarrow> bool"
  assumes keep: "P lm \<Longrightarrow> apply_limitation b lm t = (r, t') \<Longrightarrow>
      \<not> (equal_fold (lim_name lm) lim_audio_bitrate \<and> l \<and> r = AdjustAdjusted) \<Longrightarrow>
      r \<noteq> AdjustCannotFit \<Longrightarrow> R t \<Longrightarrow> R t'"
begin

lemma keep_list:
  "apply_limitations b l lms t = Some t' \<Longrightarrow> \<forall>lm \<in> set lms. P lm \<Longrightarrow> R t \<Longrightarrow> R t'"
proof (induction lms arbitrary: t)
  case Nil
  then show ?case by simp
next
  case (Cons lm lms)
  obtain r u where a: "apply_limitation b lm t = (r, u)" by (cases "apply_limitation b lm t")
  with Cons.prems have "R u" and "apply_limitations b l lms u = Some t'"
    by (auto intro: keep [OF _ a] split: if_splits)
  then show ?case using Cons.prems(2) by (auto intro: Cons.IH)
qed

lemma keep_profiles:
  "apply_codec_profiles b l c cps t = Some t' \<Longrightarrow>
     \<forall>cp \<in> set cps. \<forall>lm \<in> set (cp_limitations cp). P lm \<Longrightarrow> R t \<Longrightarrow> R t'"
  by (induction cps arbitrary: t) (auto split: if_splits option.splits dest: keep_list)

lemma keep_codec_limitations:
  "apply_codec_limitations b l ci t = Some t' \<Longrightarrow>
     \<forall>cp \<in> set (ci_codec_profiles ci). \<forall>lm \<in> set (cp_limitations cp). P lm \<Longrightarrow> R t \<Longrightarrow> R t'"
  unfolding apply_codec_limitations_def by (rule keep_profiles)

end

text \<open>
  A bit-rate limitation that allows the value zero would make the stream's rate look unset,
  so that the code compares the next limitation with the source rate again. The facts about
  the rate therefore ask for limitations without it.
\<close>

definition rate_positive :: "limitation \<Rightarrow> bool" where
  "rate_positive lm \<longleftrightarrow>
     (lim_name lm = lim_audio_bitrate \<longrightarrow> 0 \<notin> allowed_values (lim_values lm))"

interpretation bounded: limit_invariant b l "\<lambda>_. True"
  "\<lambda>t. det_channels t \<le> c \<and> det_sample_rate t \<le> s \<and> det_bit_depth t \<le> d"
  by unfold_locales (auto dest!: apply_limitation_lowered simp: lowered_def)

interpretation frame: limit_invariant b l "\<lambda>_. True"
  "\<lambda>t. det_codec t = c \<and> det_container t = k \<and> det_is_lossless t = i"
  by unfold_locales (auto dest!: apply_limitation_lowered simp: lowered_def)

interpretation rate: limit_invariant b l rate_positive "rate_within b m"
  by unfold_locales
    (auto simp: apply_limitation_def Let_def rate_within_def rate_positive_def
      elim!: set_if_cases split: if_splits)

interpretation lossless_rate: limit_invariant b True "\<lambda>_. True" "\<lambda>t. det_bitrate t = v"
  by unfold_locales (auto dest: apply_limitation_bitrate)

section \<open>Upper bounds are met\<close>

text \<open>
  The stream value that a limitation of a given name constrains; for an unset bit rate the
  code takes the source's. \<open>meets\<close> says that the limitation holds of it.
\<close>

definition limited_value :: "int \<Rightarrow> string \<Rightarrow> stream_details \<Rightarrow> int option" where
  "limited_value b name t =
     (if name = lim_audio_channels then Some (det_channels t)
      else if name = lim_audio_bitrate then
        Some (if det_bitrate t = 0 then b else det_bitrate t)
      else if name = lim_audio_samplerate then Some (det_sample_rate t)
      else if name = lim_audio_bitdepth then
        (if det_bit_depth t > 0 then Some (det_bit_depth t) else None)
      else None)"

definition meets :: "int \<Rightarrow> limitation \<Rightarrow> stream_details \<Rightarrow> bool" where
  "meets b lm t \<longleftrightarrow> (case limited_value b (lim_name lm) t of
     None \<Rightarrow> True | Some v \<Rightarrow> check_int_limitation v (lim_comparison lm) (lim_values lm))"

lemma apply_limitation_meets:
  assumes "apply_limitation b lm t = (r, t')" "r \<noteq> AdjustCannotFit" "rate_positive lm"
  shows "meets b lm t'"
  using assms
  by (auto simp: apply_limitation_def Let_def meets_def limited_value_def rate_positive_def
      elim!: set_if_cases split: if_splits)

interpretation upper: limit_invariant b l rate_positive
  "\<lambda>t. lim_comparison lm = comparison_le \<longrightarrow> meets b lm t"
  by unfold_locales
    (auto simp: apply_limitation_def Let_def meets_def limited_value_def rate_positive_def
      elim!: set_if_cases elim: check_le_antimono split: if_splits)

section \<open>One transcoding profile\<close>

text \<open>
  A successful profile, taken apart: the stream before the codec limitations, and the fact
  that the limitations accepted it.
\<close>

lemma compute_bitrate_frame:
  "compute_bitrate env src f l ci t = Some u \<Longrightarrow> u = t\<lparr>det_bitrate := det_bitrate u\<rparr>"
  by (auto simp: compute_bitrate_def Let_def split: if_splits)

lemma lookup_default_bitrate_pos: "0 < lookup_default_bitrate env f"
  by (auto simp: lookup_default_bitrate_def default_transcodings_def fallback_bitrate_def Let_def
      split: option.splits)

lemma compute_bitrate_rate:
  assumes "compute_bitrate env src f l ci t = Some u" "0 < ci_max_audio_bitrate ci"
    "det_bitrate t = 0"
  shows "rate_within (det_bitrate src) (ci_max_audio_bitrate ci) u"
  using assms lookup_default_bitrate_pos [of env f]
  by (auto simp: compute_bitrate_def rate_within_def Let_def split: if_splits)

lemma compute_bitrate_lossless:
  assumes "compute_bitrate env src f True ci t = Some u" "det_is_lossless src" "det_bitrate t = 0"
  shows "det_bitrate u = 0"
  using assms by (auto simp: compute_bitrate_def Let_def split: if_splits)

lemma compute_transcoded_streamE:
  assumes "compute_transcoded_stream env src p ci = Some (ts, f)"
  obtains t u where
    "resolve_target_format p = (det_container t, f)" "f \<noteq> ''''"
    "lookup_transcode_command env f \<noteq> ''''"
    "is_lossless_format f \<longrightarrow> det_is_lossless src"
    "t = initial_transcoded_stream src p (det_container t) f"
    "compute_bitrate env src f (is_lossless_format f) ci t = Some u"
    "apply_codec_limitations (det_bitrate src) (is_lossless_format f) ci
       (if tp_max_audio_channels p > 0 \<and> det_channels src > tp_max_audio_channels p
        then u\<lparr>det_channels := tp_max_audio_channels p\<rparr> else u) = Some ts"
proof -
  obtain k where k: "resolve_target_format p = (k, f)"
    using assms
    by (auto simp: compute_transcoded_stream_def Let_def split: if_splits prod.splits option.splits)
  let ?t = "initial_transcoded_stream src p k f"
  have c: "det_container ?t = k"
    by (simp add: initial_transcoded_stream_def Let_def)
  from assms k obtain u where
    "f \<noteq> ''''" "lookup_transcode_command env f \<noteq> ''''"
    "is_lossless_format f \<longrightarrow> det_is_lossless src"
    "compute_bitrate env src f (is_lossless_format f) ci ?t = Some u"
    "apply_codec_limitations (det_bitrate src) (is_lossless_format f) ci
       (if tp_max_audio_channels p > 0 \<and> det_channels src > tp_max_audio_channels p
        then u\<lparr>det_channels := tp_max_audio_channels p\<rparr> else u) = Some ts"
    by (auto simp: compute_transcoded_stream_def Let_def split: if_splits option.splits)
  with that [of ?t u] k c show thesis by auto
qed

text \<open>The limits of the stream a profile produces.\<close>

definition output_rate_bound :: "stream_details \<Rightarrow> string \<Rightarrow> int" where
  "output_rate_bound src codec =
     (if codec_fixed_output_sample_rate codec > 0 then codec_fixed_output_sample_rate codec
      else normalize_source_sample_rate (det_sample_rate src) (det_codec src))"

lemma initial_stream_fields:
  "det_channels (initial_transcoded_stream src p k f) = det_channels src"
  "det_bitrate (initial_transcoded_stream src p k f) = 0"
  "det_bit_depth (initial_transcoded_stream src p k f)
     = normalize_source_bit_depth (det_bit_depth src) (det_codec src)"
  "det_sample_rate (initial_transcoded_stream src p k f)
     \<le> output_rate_bound src (det_codec (initial_transcoded_stream src p k f))"
  "0 < codec_max_sample_rate (det_codec (initial_transcoded_stream src p k f)) \<Longrightarrow>
     det_sample_rate (initial_transcoded_stream src p k f)
     \<le> codec_max_sample_rate (det_codec (initial_transcoded_stream src p k f))"
  by (auto simp: initial_transcoded_stream_def output_rate_bound_def Let_def)

lemma compute_transcoded_stream_limits:
  assumes "compute_transcoded_stream env src p ci = Some (ts, f)"
  shows "lookup_transcode_command env f \<noteq> ''''"
    and "is_lossless_format f \<longrightarrow> det_is_lossless src"
    and "det_channels ts \<le> det_channels src"
    and "0 < tp_max_audio_channels p \<longrightarrow> det_channels ts \<le> tp_max_audio_channels p"
    and "det_sample_rate ts \<le> output_rate_bound src (det_codec ts)"
    and "0 < codec_max_sample_rate (det_codec ts)
           \<longrightarrow> det_sample_rate ts \<le> codec_max_sample_rate (det_codec ts)"
    and "det_bit_depth ts \<le> normalize_source_bit_depth (det_bit_depth src) (det_codec src)"
proof -
  from assms obtain t u where t: "t = initial_transcoded_stream src p (det_container t) f"
    and l: "lookup_transcode_command env f \<noteq> ''''" "is_lossless_format f \<longrightarrow> det_is_lossless src"
    and u: "compute_bitrate env src f (is_lossless_format f) ci t = Some u"
    and a: "apply_codec_limitations (det_bitrate src) (is_lossless_format f) ci
       (if tp_max_audio_channels p > 0 \<and> det_channels src > tp_max_audio_channels p
        then u\<lparr>det_channels := tp_max_audio_channels p\<rparr> else u) = Some ts"
      (is "apply_codec_limitations _ _ _ ?v = _")
    by (rule compute_transcoded_streamE)
  from u obtain br where br: "u = t\<lparr>det_bitrate := br\<rparr>" by (blast dest: compute_bitrate_frame)
  have v: "det_channels ?v \<le> det_channels src"
    "0 < tp_max_audio_channels p \<longrightarrow> det_channels ?v \<le> tp_max_audio_channels p"
    "det_sample_rate ?v = det_sample_rate t" "det_bit_depth ?v = det_bit_depth t"
    "det_codec ?v = det_codec t"
    using initial_stream_fields(1) [of src p "det_container t" f] t br by auto
  have codec: "det_codec ts = det_codec t"
    using frame.keep_codec_limitations [OF a, of "det_codec ?v" "det_container ?v" "det_is_lossless ?v"] v
    by simp
  have b: "det_channels ts \<le> det_channels ?v \<and> det_sample_rate ts \<le> det_sample_rate ?v
      \<and> det_bit_depth ts \<le> det_bit_depth ?v"
    by (rule bounded.keep_codec_limitations [OF a]) simp_all
  show "lookup_transcode_command env f \<noteq> ''''" "is_lossless_format f \<longrightarrow> det_is_lossless src"
    by (fact l)+
  show "det_channels ts \<le> det_channels src"
    "0 < tp_max_audio_channels p \<longrightarrow> det_channels ts \<le> tp_max_audio_channels p"
    using b v(1,2) by auto
  show "det_sample_rate ts \<le> output_rate_bound src (det_codec ts)"
    "0 < codec_max_sample_rate (det_codec ts)
       \<longrightarrow> det_sample_rate ts \<le> codec_max_sample_rate (det_codec ts)"
    "det_bit_depth ts \<le> normalize_source_bit_depth (det_bit_depth src) (det_codec src)"
    using b v(3,4) codec initial_stream_fields(3-5) [of src p "det_container t" f]
    unfolding t [symmetric] by auto
qed

lemma apply_limitations_meet:
  assumes "apply_limitations b l lms t = Some t'" "\<forall>lm \<in> set lms. rate_positive lm"
    "lm \<in> set lms" "lim_comparison lm = comparison_le"
  shows "meets b lm t'"
  using assms(1-3)
proof (induction lms arbitrary: t)
  case Nil
  then show ?case by simp
next
  case (Cons x lms)
  obtain r u where a: "apply_limitation b x t = (r, u)" by fastforce
  with Cons.prems have r: "r \<noteq> AdjustCannotFit" and u: "apply_limitations b l lms u = Some t'"
    by (auto split: if_splits)
  show ?case
  proof (cases "lm = x")
    case True
    with a r Cons.prems(2) have "meets b lm u" by (auto intro: apply_limitation_meets)
    then show ?thesis using upper.keep_list [OF u, of lm] Cons.prems(2) assms(4) by simp
  next
    case False
    with Cons.prems u show ?thesis by (auto intro: Cons.IH)
  qed
qed

lemma apply_codec_profiles_meet:
  assumes "apply_codec_profiles b l c cps t = Some t'"
    "\<forall>cp \<in> set cps. \<forall>lm \<in> set (cp_limitations cp). rate_positive lm"
    "cp \<in> set cps" "equal_fold (cp_type cp) codec_profile_type_audio" "matches_codec c [cp_name cp]"
    "lm \<in> set (cp_limitations cp)" "lim_comparison lm = comparison_le"
  shows "meets b lm t'"
  using assms(1-3)
proof (induction cps arbitrary: t)
  case Nil
  then show ?case by simp
next
  case (Cons x cps)
  show ?case
  proof (cases "cp = x")
    case True
    with Cons.prems assms(4,5) obtain u
      where u: "apply_limitations b l (cp_limitations cp) t = Some u"
        and v: "apply_codec_profiles b l c cps u = Some t'"
      by (auto split: option.splits)
    have "meets b lm u" using apply_limitations_meet [OF u] Cons.prems(2) assms(6,7) True by simp
    then show ?thesis using upper.keep_profiles [OF v, of lm] Cons.prems(2) assms(7) by simp
  next
    case False
    with Cons show ?thesis by (auto split: if_splits option.splits)
  qed
qed

definition rates_positive :: "client_info \<Rightarrow> bool" where
  "rates_positive ci \<longleftrightarrow>
     (\<forall>cp \<in> set (ci_codec_profiles ci). \<forall>lm \<in> set (cp_limitations cp). rate_positive lm)"

lemma compute_transcoded_stream_meets:
  assumes "compute_transcoded_stream env src p ci = Some (ts, f)" "rates_positive ci"
    "cp \<in> set (ci_codec_profiles ci)" "equal_fold (cp_type cp) ''AudioCodec''"
    "matches_codec (det_codec ts) [cp_name cp]"
    "lm \<in> set (cp_limitations cp)" "lim_comparison lm = ''LessThanEqual''"
  shows "meets (det_bitrate src) lm ts"
proof -
  from assms(1) obtain v where
    a: "apply_codec_limitations (det_bitrate src) (is_lossless_format f) ci v = Some ts"
    by (auto elim: compute_transcoded_streamE)
  have "det_codec ts = det_codec v"
    using frame.keep_codec_limitations [OF a, of "det_codec v" "det_container v" "det_is_lossless v"]
    by simp
  with a assms show ?thesis
    unfolding apply_codec_limitations_def rates_positive_def
    by (auto intro: apply_codec_profiles_meet simp: comparison_le_def codec_profile_type_audio_def)
qed

lemma compute_transcoded_stream_rate:
  assumes "compute_transcoded_stream env src p ci = Some (ts, f)" "0 < ci_max_audio_bitrate ci"
    "rates_positive ci \<or> is_lossless_format f"
  shows "det_bitrate ts \<le> ci_max_audio_bitrate ci"
proof -
  let ?m = "ci_max_audio_bitrate ci"
  from assms(1) obtain t u where t: "t = initial_transcoded_stream src p (det_container t) f"
    and l: "is_lossless_format f \<longrightarrow> det_is_lossless src"
    and u: "compute_bitrate env src f (is_lossless_format f) ci t = Some u"
    and a: "apply_codec_limitations (det_bitrate src) (is_lossless_format f) ci
       (if tp_max_audio_channels p > 0 \<and> det_channels src > tp_max_audio_channels p
        then u\<lparr>det_channels := tp_max_audio_channels p\<rparr> else u) = Some ts"
      (is "apply_codec_limitations _ _ _ ?v = _")
    by (rule compute_transcoded_streamE)
  have t0: "det_bitrate t = 0" by (subst t) (rule initial_stream_fields)
  have vu: "det_bitrate ?v = det_bitrate u" by simp
  show ?thesis
  proof (cases "is_lossless_format f")
    case True
    with u l t0 have "det_bitrate u = 0" by (auto intro: compute_bitrate_lossless)
    with a True vu have "det_bitrate ts = 0"
      using lossless_rate.keep_codec_limitations [of "det_bitrate src" ci ?v ts 0] by simp
    with assms(2) show ?thesis by simp
  next
    case False
    have "rate_within (det_bitrate src) ?m ?v"
      using compute_bitrate_rate [OF u assms(2) t0] by (simp add: rate_within_def)
    then have "rate_within (det_bitrate src) ?m ts"
      using rate.keep_codec_limitations [OF a] assms(3) False by (auto simp: rates_positive_def)
    then show ?thesis by (simp add: rate_within_def)
  qed
qed

section \<open>The profile that is chosen\<close>

lemma try_transcode_SomeE:
  assumes "try_transcode env src ci ps = Some r"
  obtains before p after where "ps = before @ p # after"
    "\<forall>q \<in> set before. compute_transcoded_stream env src q ci = None"
    "compute_transcoded_stream env src p ci = Some r"
  using assms
proof (induction ps arbitrary: thesis)
  case Nil
  then show ?case by simp
next
  case (Cons x ps)
  show ?case
  proof (cases "compute_transcoded_stream env src x ci")
    case None
    with Cons.prems(2) obtain before p after where "ps = before @ p # after"
      "\<forall>q \<in> set before. compute_transcoded_stream env src q ci = None"
      "compute_transcoded_stream env src p ci = Some r"
      by (auto intro: Cons.IH)
    with None show ?thesis by (intro Cons.prems(1) [of "x # before" p after]) auto
  next
    case (Some a)
    with Cons.prems(2) show ?thesis by (intro Cons.prems(1) [of "[]" x ps]) auto
  qed
qed

lemma try_transcode_None:
  "try_transcode env src ci ps = None \<longleftrightarrow>
     (\<forall>p \<in> set ps. compute_transcoded_stream env src p ci = None)"
  by (induction ps) (auto split: option.splits)

lemma decide_transcodeE:
  assumes "td_can_transcode (decide env mf src ci)"
  obtains p ts where "p \<in> set (ci_transcoding_profiles ci)"
    "compute_transcoded_stream env src p ci = Some (ts, td_target_format (decide env mf src ci))"
    "td_transcode_stream (decide env mf src ci) = Some ts"
    "td_target_bitrate (decide env mf src ci) = det_bitrate ts"
    "td_target_channels (decide env mf src ci) = det_channels ts"
    "td_target_sample_rate (decide env mf src ci) = det_sample_rate ts"
    "td_target_bit_depth (decide env mf src ci) = det_bit_depth ts"
proof -
  obtain ts f where r: "try_transcode env src ci (ci_transcoding_profiles ci) = Some (ts, f)"
    using assms by (auto simp: decide_transcode_iff)
  moreover have "\<not> td_can_direct_play (decide env mf src ci)"
    using assms by (auto simp: decide_transcode_iff decide_direct_iff)
  ultimately have "td_target_format (decide env mf src ci) = f"
    "td_transcode_stream (decide env mf src ci) = Some ts"
    "td_target_bitrate (decide env mf src ci) = det_bitrate ts"
    "td_target_channels (decide env mf src ci) = det_channels ts"
    "td_target_sample_rate (decide env mf src ci) = det_sample_rate ts"
    "td_target_bit_depth (decide env mf src ci) = det_bit_depth ts"
    by (auto simp: decide_def Let_def split: prod.splits if_splits)
  moreover obtain p where "p \<in> set (ci_transcoding_profiles ci)"
    "compute_transcoded_stream env src p ci = Some (ts, f)"
    by (rule try_transcode_SomeE [OF r]) auto
  ultimately show thesis using that by auto
qed

lemma try_direct_play_clears:
  "fst (try_direct_play src ci ps rs) \<Longrightarrow> snd (try_direct_play src ci ps rs) = []"
  by (induction ps arbitrary: rs) (auto simp: Let_def split: if_splits)

lemma decide_direct_fields:
  assumes "td_can_direct_play (decide env mf src ci)"
  shows "\<not> td_can_transcode (decide env mf src ci)"
    and "td_error_reason (decide env mf src ci) = ''''"
    and "td_transcode_reasons (decide env mf src ci) = []"
    and "td_transcode_stream (decide env mf src ci) = None"
  using assms try_direct_play_clears [of src ci "ci_direct_play_profiles ci" "[]"]
  by (auto simp: decide_def Let_def split: prod.splits option.splits if_splits)

lemma decide_no_error:
  "td_can_transcode (decide env mf src ci) \<Longrightarrow> td_error_reason (decide env mf src ci) = ''''"
  by (auto simp: decide_def Let_def split: prod.splits option.splits if_splits)

lemma decide_transcode_excl:
  "td_can_transcode (decide env mf src ci) \<Longrightarrow> \<not> td_can_direct_play (decide env mf src ci)"
  by (auto simp: decide_def Let_def split: prod.splits option.splits if_splits)

lemma decide_error_fields:
  assumes "\<not> td_can_transcode (decide env mf src ci)" "\<not> td_can_direct_play (decide env mf src ci)"
  shows "td_error_reason (decide env mf src ci) = ''no compatible playback profile found''"
    and "try_transcode env src ci (ci_transcoding_profiles ci) = None"
  using assms
  by (auto simp: decide_def no_profile_error_def Let_def split: prod.splits option.splits if_splits)

lemma decide_transcode_first:
  assumes "td_can_transcode (decide env mf src ci)"
  obtains ts where
    "try_transcode env src ci (ci_transcoding_profiles ci)
       = Some (ts, td_target_format (decide env mf src ci))"
    "td_transcode_stream (decide env mf src ci) = Some ts"
  using assms that
  by (auto simp: decide_def Let_def split: prod.splits option.splits if_splits)

lemma make_decision_transcodeE:
  assumes "make_decision env ctx mf ci skip = (Inr d, mf', w)" "td_can_transcode d"
  obtains p ts where "p \<in> set (ci_transcoding_profiles (effective_client ctx ci))"
    "compute_transcoded_stream env (td_source_stream d) p (effective_client ctx ci)
       = Some (ts, td_target_format d)"
    "td_transcode_stream d = Some ts" "td_target_bitrate d = det_bitrate ts"
    "td_target_channels d = det_channels ts" "td_target_sample_rate d = det_sample_rate ts"
    "td_target_bit_depth d = det_bit_depth ts"
proof -
  have d: "decide env mf' (td_source_stream d) (effective_client ctx ci) = d"
    by (rule make_decision_decide [OF assms(1), symmetric])
  have t: "td_can_transcode (decide env mf' (td_source_stream d) (effective_client ctx ci))"
    using assms(2) d by simp
  show thesis by (rule decide_transcodeE [OF t, unfolded d]) (rule that)
qed

section \<open>A concrete server, file and client\<close>

text \<open>
  Used by the witnesses: no customised transcoding in the database, a 900 kbps FLAC file, and
  a client that plays MP3 up to 320 kbps, or wants MP3 at 44.1 kHz or less.
\<close>

definition demo_env :: stream_env where
  "demo_env =
     \<lparr>env_find_by_format = (\<lambda>_. None), env_probe_enabled = False,
      env_default_downsampling_format = ''opus'', env_ff_probe = (\<lambda>_. Inl ''no ffprobe''),
      env_marshal_probe = (\<lambda>_. Inl ''''), env_unmarshal_probe = (\<lambda>_. Inl '''')\<rparr>"

definition demo_ctx :: request_ctx where
  "demo_ctx = \<lparr>ctx_transcoding = None, ctx_player = None, ctx_user_id = ''u'', ctx_user_name = ''u''\<rparr>"

definition demo_file :: "string \<Rightarrow> int \<Rightarrow> media_file" where
  "demo_file suffix rate =
     \<lparr>mf_id = ''id1'', mf_path = ''a/song.'' @ suffix, mf_title = ''t'', mf_artist = ''a'',
      mf_album_id = ''al1'', mf_album_artist_id = ''ar1'', mf_artist_ids = [''ar1''],
      mf_suffix = suffix, mf_codec = '''', mf_bit_rate = rate, mf_sample_rate = 96000,
      mf_bit_depth = 24, mf_channels = 2, mf_probe_data = '''', mf_size = 1000, mf_duration = 200,
      mf_updated_at = 1700000000000000000\<rparr>"

definition demo_client :: "limitation list \<Rightarrow> client_info" where
  "demo_client lms =
     \<lparr>ci_name = ''c'', ci_platform = '''', ci_max_audio_bitrate = 320,
      ci_max_transcoding_audio_bitrate = 256,
      ci_direct_play_profiles =
        [\<lparr>dp_containers = [''mp3''], dp_audio_codecs = [''mp3''], dp_protocols = [''http''],
          dp_max_audio_channels = 2\<rparr>],
      ci_transcoding_profiles =
        [\<lparr>tp_container = ''hls'', tp_audio_codec = '''', tp_protocol = ''hls'', tp_max_audio_channels = 0\<rparr>,
         \<lparr>tp_container = ''mp3'', tp_audio_codec = ''mp3'', tp_protocol = ''http'',
          tp_max_audio_channels = 2\<rparr>],
      ci_codec_profiles =
        [\<lparr>cp_type = ''AudioCodec'', cp_name = ''mp3'', cp_limitations = lms\<rparr>]\<rparr>"

definition demo_limit :: "string \<Rightarrow> string \<Rightarrow> limitation" where
  "demo_limit name v =
     \<lparr>lim_name = name, lim_comparison = ''LessThanEqual'', lim_values = [v], lim_required = True\<rparr>"

definition demo_decision :: "string \<Rightarrow> int \<Rightarrow> limitation list \<Rightarrow> transcode_decision" where
  "demo_decision suffix rate lms =
     (case fst (make_decision demo_env demo_ctx (demo_file suffix rate) (demo_client lms) True) of
        Inr d \<Rightarrow> d
      | Inl _ \<Rightarrow> decide demo_env (demo_file suffix rate)
            (build_source_stream demo_env (demo_file suffix rate) None) (demo_client lms))"

lemma demo_make_decision:
  "make_decision demo_env demo_ctx (demo_file suffix rate) (demo_client lms) True
     = (Inr (demo_decision suffix rate lms), demo_file suffix rate, [])"
  by (simp add: demo_decision_def make_decision_def)

lemma demo_effective [simp]: "effective_client demo_ctx (demo_client lms) = demo_client lms"
  by (simp add: effective_client_def demo_ctx_def)

lemma demo_cap [simp]: "ci_max_audio_bitrate (demo_client lms) = 320"
  by (simp add: demo_client_def)

lemma demo_transcodes: "td_can_transcode (demo_decision ''flac'' 900 [demo_limit ''audioSamplerate'' ''44100''])"
  by code_simp

lemma demo_plays: "td_can_direct_play (demo_decision ''mp3'' 320 [])"
  by code_simp

section \<open>The properties of the decision\<close>

text \<open>
  C1. Direct play is offered exactly when the source is within the client's bit-rate cap and
  some direct-play profile of the client in force accepts its protocol, container, codec,
  channels and every required codec limitation.
\<close>

theorem direct_play_exact:
  assumes "make_decision env ctx mf ci skip = (Inr d, mf', w)"
  shows "td_can_direct_play d \<longleftrightarrow>
     direct_play_allowed (td_source_stream d) (effective_client ctx ci)"
  using make_decision_decide [OF assms] decide_direct_iff by metis

theorem direct_play_exact_witness:
  "td_can_direct_play (demo_decision ''mp3'' 320 [])
   \<and> direct_play_allowed (td_source_stream (demo_decision ''mp3'' 320 [])) (demo_client [])"
  using direct_play_exact [OF demo_make_decision [of "''mp3''" 320 "[]"]] demo_plays by simp

text \<open>
  A decision is exactly one of three: direct play with no reasons left, a transcode by the
  first transcoding profile that can be met, or the error, when every profile is rejected.
\<close>

lemma decision_exhaustive:
  assumes "make_decision env ctx mf ci skip = (Inr d, mf', w)"
  shows "td_can_direct_play d \<and> \<not> td_can_transcode d \<and> td_error_reason d = '''' \<and> td_transcode_reasons d = []
       \<and> td_transcode_stream d = None
     \<or> \<not> td_can_direct_play d \<and> td_can_transcode d \<and> td_error_reason d = ''''
       \<and> (\<exists>before p after ts. ci_transcoding_profiles (effective_client ctx ci) = before @ p # after
            \<and> (\<forall>q \<in> set before. compute_transcoded_stream env (td_source_stream d) q (effective_client ctx ci) = None)
            \<and> compute_transcoded_stream env (td_source_stream d) p (effective_client ctx ci)
                = Some (ts, td_target_format d)
            \<and> td_transcode_stream d = Some ts)
     \<or> \<not> td_can_direct_play d \<and> \<not> td_can_transcode d
       \<and> td_error_reason d = ''no compatible playback profile found''
       \<and> (\<forall>p \<in> set (ci_transcoding_profiles (effective_client ctx ci)).
            compute_transcoded_stream env (td_source_stream d) p (effective_client ctx ci) = None)"
    (is "?direct \<or> ?transcode \<or> ?error")
proof -
  let ?ci = "effective_client ctx ci" and ?src = "td_source_stream d"
  have d: "decide env mf' ?src ?ci = d" by (rule make_decision_decide [OF assms, symmetric])
  consider "td_can_direct_play d" | "td_can_transcode d"
    | "\<not> td_can_direct_play d" "\<not> td_can_transcode d" by blast
  then show ?thesis
  proof cases
    case 1
    then have ?direct using decide_direct_fields [of env mf' ?src ?ci] d by simp
    then show ?thesis by simp
  next
    case 2
    then obtain ts where r: "try_transcode env ?src ?ci (ci_transcoding_profiles ?ci)
        = Some (ts, td_target_format d)" and t: "td_transcode_stream d = Some ts"
      using decide_transcode_first [of env mf' ?src ?ci] d by auto
    obtain before p after where "ci_transcoding_profiles ?ci = before @ p # after"
      "\<forall>q \<in> set before. compute_transcoded_stream env ?src q ?ci = None"
      "compute_transcoded_stream env ?src p ?ci = Some (ts, td_target_format d)"
      by (rule try_transcode_SomeE [OF r])
    with 2 t have ?transcode
      using decide_no_error [of env mf' ?src ?ci] decide_transcode_excl [of env mf' ?src ?ci] d
      by auto
    then show ?thesis by simp
  next
    case 3
    then have ?error
      using decide_error_fields [of env mf' ?src ?ci] d by (simp add: try_transcode_None)
    then show ?thesis by simp
  qed
qed

lemma decision_exhaustive_witness:
  "td_error_reason (demo_decision ''mp3'' 320 []) = ''''
   \<and> td_transcode_reasons (demo_decision ''mp3'' 320 []) = []"
  using decision_exhaustive [OF demo_make_decision [of "''mp3''" 320 "[]"]] demo_plays by simp

text \<open>
  C7. A transcode never asks for more than the source has: no more channels, no greater bit
  depth, no sampling rate above the source's (or the codec's fixed output rate) or above the
  codec's maximum; a lossy source never goes to a lossless format, and the format has a command.
\<close>

theorem transcode_within_limits:
  assumes "make_decision env ctx mf ci skip = (Inr d, mf', w)" "td_can_transcode d"
  shows "\<exists>ts. td_transcode_stream d = Some ts
     \<and> lookup_transcode_command env (td_target_format d) \<noteq> ''''
     \<and> (is_lossless_format (td_target_format d) \<longrightarrow> det_is_lossless (td_source_stream d))
     \<and> td_target_channels d \<le> det_channels (td_source_stream d)
     \<and> td_target_bit_depth d
         \<le> normalize_source_bit_depth (det_bit_depth (td_source_stream d)) (det_codec (td_source_stream d))
     \<and> td_target_sample_rate d \<le> output_rate_bound (td_source_stream d) (det_codec ts)
     \<and> (0 < codec_max_sample_rate (det_codec ts)
          \<longrightarrow> td_target_sample_rate d \<le> codec_max_sample_rate (det_codec ts))"
proof -
  let ?ci = "effective_client ctx ci" and ?src = "td_source_stream d"
  obtain p ts
    where c: "compute_transcoded_stream env ?src p ?ci = Some (ts, td_target_format d)"
      and f: "td_transcode_stream d = Some ts" "td_target_channels d = det_channels ts"
        "td_target_sample_rate d = det_sample_rate ts" "td_target_bit_depth d = det_bit_depth ts"
    by (rule make_decision_transcodeE [OF assms(1,2)])
  with compute_transcoded_stream_limits [OF c] show ?thesis by simp
qed

theorem transcode_within_limits_witness:
  "lookup_transcode_command demo_env
     (td_target_format (demo_decision ''flac'' 900 [demo_limit ''audioSamplerate'' ''44100''])) \<noteq> ''''"
  using transcode_within_limits [OF demo_make_decision demo_transcodes] by auto

text \<open>
  The bit-rate cap: a client (or player) limit on the bit rate bounds the bit rate of the
  transcode, as long as no codec limitation of the client allows the bit rate zero.
\<close>

lemma transcode_rate_cap:
  assumes "make_decision env ctx mf ci skip = (Inr d, mf', w)" "td_can_transcode d"
    "0 < ci_max_audio_bitrate (effective_client ctx ci)" "rates_positive (effective_client ctx ci)"
  shows "td_target_bitrate d \<le> ci_max_audio_bitrate (effective_client ctx ci)"
proof -
  let ?ci = "effective_client ctx ci" and ?src = "td_source_stream d"
  obtain p ts
    where c: "compute_transcoded_stream env ?src p ?ci = Some (ts, td_target_format d)"
      and f: "td_target_bitrate d = det_bitrate ts"
    by (rule make_decision_transcodeE [OF assms(1,2)])
  with compute_transcoded_stream_rate [OF c assms(3)] assms(4) show ?thesis by simp
qed

lemma demo_rates_positive: "rates_positive (demo_client [demo_limit ''audioSamplerate'' ''44100''])"
  by (simp add: rates_positive_def demo_client_def rate_positive_def demo_limit_def
      lim_audio_bitrate_def)

lemma transcode_rate_cap_witness:
  "td_target_bitrate (demo_decision ''flac'' 900 [demo_limit ''audioSamplerate'' ''44100'']) \<le> 320"
  using transcode_rate_cap [OF demo_make_decision demo_transcodes] demo_rates_positive by simp

text \<open>
  Where a codec limitation does allow the bit rate zero, the cap is lost: the value zero
  marks the rate as unset, the next limitation starts from the source rate again, and a client
  with a cap of 320 is sent 2000.
\<close>

lemma zero_limit_lifts_the_cap:
  "td_can_transcode (demo_decision ''flac'' 4000
       [demo_limit ''audioBitrate'' ''0'', demo_limit ''audioBitrate'' ''2000''])
   \<and> ci_max_audio_bitrate (demo_client
       [demo_limit ''audioBitrate'' ''0'', demo_limit ''audioBitrate'' ''2000'']) = 320
   \<and> td_target_bitrate (demo_decision ''flac'' 4000
       [demo_limit ''audioBitrate'' ''0'', demo_limit ''audioBitrate'' ''2000'']) = 2000"
  by code_simp

text \<open>
  Every upper limitation ("LessThanEqual") of a codec profile that applies to the target
  codec is met by the stream of the decision, whatever the order of profiles and limitations.
\<close>

lemma transcode_meets_upper_limits:
  assumes "make_decision env ctx mf ci skip = (Inr d, mf', w)" "td_can_transcode d"
    "td_transcode_stream d = Some ts" "rates_positive (effective_client ctx ci)"
    "cp \<in> set (ci_codec_profiles (effective_client ctx ci))" "equal_fold (cp_type cp) ''AudioCodec''"
    "matches_codec (det_codec ts) [cp_name cp]"
    "lm \<in> set (cp_limitations cp)" "lim_comparison lm = ''LessThanEqual''"
  shows "meets (det_bitrate (td_source_stream d)) lm ts"
proof -
  let ?ci = "effective_client ctx ci" and ?src = "td_source_stream d"
  obtain p where "compute_transcoded_stream env ?src p ?ci = Some (ts, td_target_format d)"
    using make_decision_transcodeE [OF assms(1,2)] assms(3) by auto
  then show ?thesis using assms(4-9) by (rule compute_transcoded_stream_meets)
qed


lemma demo_transcode_stream:
  "\<exists>ts. td_transcode_stream (demo_decision ''flac'' 900 [demo_limit ''audioSamplerate'' ''44100'']) = Some ts
     \<and> matches_codec (det_codec ts) [''mp3'']"
proof -
  have "(case td_transcode_stream (demo_decision ''flac'' 900 [demo_limit ''audioSamplerate'' ''44100'']) of
      None \<Rightarrow> False | Some ts \<Rightarrow> matches_codec (det_codec ts) [''mp3''])"
    by code_simp
  then show ?thesis by (auto split: option.splits)
qed

lemma transcode_meets_upper_limits_witness:
  "\<exists>ts. td_transcode_stream (demo_decision ''flac'' 900 [demo_limit ''audioSamplerate'' ''44100'']) = Some ts
     \<and> meets (det_bitrate (td_source_stream (demo_decision ''flac'' 900
               [demo_limit ''audioSamplerate'' ''44100'']))) (demo_limit ''audioSamplerate'' ''44100'') ts"
proof -
  obtain ts where t: "td_transcode_stream (demo_decision ''flac'' 900
      [demo_limit ''audioSamplerate'' ''44100'']) = Some ts" "matches_codec (det_codec ts) [''mp3'']"
    using demo_transcode_stream by blast
  let ?cp = "\<lparr>cp_type = ''AudioCodec'', cp_name = ''mp3'',
      cp_limitations = [demo_limit ''audioSamplerate'' ''44100'']\<rparr>"
  have "?cp \<in> set (ci_codec_profiles (effective_client demo_ctx
      (demo_client [demo_limit ''audioSamplerate'' ''44100''])))"
    by (simp, simp add: demo_client_def)
  with t transcode_meets_upper_limits [OF demo_make_decision demo_transcodes t(1), of ?cp]
  show ?thesis using demo_rates_positive by (simp add: demo_limit_def equal_fold_def)
qed

lemma compute_bitrate_lossy:
  "\<not> det_is_lossless src \<Longrightarrow>
     compute_bitrate env src f l (ci\<lparr>ci_max_transcoding_audio_bitrate := v\<rparr>) ts
     = compute_bitrate env src f l ci ts"
  by (simp add: compute_bitrate_def Let_def)

lemma apply_codec_limitations_update:
  "apply_codec_limitations b l (ci\<lparr>ci_max_transcoding_audio_bitrate := v\<rparr>) ts
     = apply_codec_limitations b l ci ts"
  by (simp add: apply_codec_limitations_def)

text \<open>
  For a lossy source the client's maximum transcoding bit rate plays no part: whatever its
  value, every profile gives the same stream, so only the overall cap bounds the rate.
\<close>

lemma lossy_ignores_transcoding_cap:
  assumes "\<not> det_is_lossless src"
  shows "compute_transcoded_stream env src p (ci\<lparr>ci_max_transcoding_audio_bitrate := v\<rparr>)
     = compute_transcoded_stream env src p ci"
  using assms
  by (simp add: compute_transcoded_stream_def compute_bitrate_lossy apply_codec_limitations_update
      Let_def cong: prod.case_cong option.case_cong if_cong)

definition demo_lossy :: stream_details where
  "demo_lossy = build_source_stream demo_env (demo_file ''ogg'' 500) None"

lemma demo_lossy: "\<not> det_is_lossless demo_lossy"
  by code_simp

lemma lossy_ignores_transcoding_cap_witness:
  "compute_transcoded_stream demo_env demo_lossy
       \<lparr>tp_container = ''mp3'', tp_audio_codec = ''mp3'', tp_protocol = ''http'', tp_max_audio_channels = 0\<rparr>
       (demo_client []\<lparr>ci_max_transcoding_audio_bitrate := 64\<rparr>)
   = compute_transcoded_stream demo_env demo_lossy
       \<lparr>tp_container = ''mp3'', tp_audio_codec = ''mp3'', tp_protocol = ''http'', tp_max_audio_channels = 0\<rparr>
       (demo_client [])"
  by (rule lossy_ignores_transcoding_cap [OF demo_lossy])

section \<open>Legacy requests\<close>

lemma legacy_codec_profiles [simp]:
  "ci_codec_profiles (build_legacy_client_info env mf f b) = []"
  by (simp add: build_legacy_client_info_def Let_def)

lemma legacy_cap:
  "ci_max_audio_bitrate (build_legacy_client_info env mf f b) =
     (if (f \<noteq> '''' \<or> b < mf_bit_rate mf \<and> env_default_downsampling_format env \<noteq> '''') \<and> 0 < b then b else 0)"
  by (auto simp: build_legacy_client_info_def Let_def)

lemma effective_codec_profiles:
  "ctx_transcoding ctx = None \<Longrightarrow> ci_codec_profiles (effective_client ctx ci) = ci_codec_profiles ci"
  by (auto simp: effective_client_def split: option.splits)

lemma effective_cap:
  "ctx_transcoding ctx = None \<Longrightarrow> 0 < ci_max_audio_bitrate ci \<Longrightarrow>
     0 < ci_max_audio_bitrate (effective_client ctx ci)
     \<and> ci_max_audio_bitrate (effective_client ctx ci) \<le> ci_max_audio_bitrate ci"
  by (auto simp: effective_client_def split: option.splits)

lemma effective_transcoding_profiles:
  "ctx_transcoding ctx = None \<Longrightarrow>
     ci_transcoding_profiles (effective_client ctx ci) = ci_transcoding_profiles ci"
  by (auto simp: effective_client_def split: option.splits)

lemma legacy_transcoding_profiles:
  "ci_transcoding_profiles (build_legacy_client_info env mf f b) = [] \<or>
   f \<noteq> '''' \<or> b < mf_bit_rate mf \<and> env_default_downsampling_format env \<noteq> '''' \<and> 0 < b"
  by (auto simp: build_legacy_client_info_def Let_def)

lemma make_decision_skip:
  "make_decision env ctx mf ci True =
     (Inr (decide env mf (build_source_stream env mf None) (effective_client ctx ci)), mf, [])"
  by (simp add: make_decision_def)

lemma legacy_decision_rate:
  assumes "ctx_transcoding ctx = None" "0 < b"
    "td_can_transcode (decide env mf src (effective_client ctx (build_legacy_client_info env mf f b)))"
  shows "td_target_bitrate (decide env mf src
      (effective_client ctx (build_legacy_client_info env mf f b))) \<le> b"
proof -
  let ?ci = "build_legacy_client_info env mf f b"
  obtain p ts where p: "p \<in> set (ci_transcoding_profiles (effective_client ctx ?ci))"
    and c: "compute_transcoded_stream env src p (effective_client ctx ?ci)
       = Some (ts, td_target_format (decide env mf src (effective_client ctx ?ci)))"
    and r: "td_target_bitrate (decide env mf src (effective_client ctx ?ci)) = det_bitrate ts"
    by (rule decide_transcodeE [OF assms(3)])
  have "ci_max_audio_bitrate ?ci = b"
    using p legacy_transcoding_profiles [of env mf f b] assms(1,2)
    by (auto simp: effective_transcoding_profiles legacy_cap)
  with effective_cap [OF assms(1), of ?ci] assms(2)
  have m: "0 < ci_max_audio_bitrate (effective_client ctx ?ci)"
    "ci_max_audio_bitrate (effective_client ctx ?ci) \<le> b" by auto
  have "rates_positive (effective_client ctx ?ci)"
    by (simp add: rates_positive_def effective_codec_profiles assms(1))
  with compute_transcoded_stream_rate [OF c m(1)] m(2) r show ?thesis by simp
qed

lemma resolve_request_cases:
  assumes "R (raw_request off)"
    and "\<And>f. td_can_transcode (decide env mf (build_source_stream env mf None)
              (effective_client ctx (build_legacy_client_info env mf f b))) \<Longrightarrow>
           R (request_of_decision (decide env mf (build_source_stream env mf None)
              (effective_client ctx (build_legacy_client_info env mf f b))) off)"
  shows "R (resolve_request env ctx mf f b off)"
  using assms
proof (induction env ctx mf f b off rule: resolve_request.induct)
  case (1 env ctx mf f b off)
  show ?case
    by (subst resolve_request.simps) (auto simp: make_decision_skip 1(2,3) intro: 1(1) [OF _ _ _ _ _ 1(2,3)])
qed

lemma decide_command:
  "td_can_transcode (decide env mf src ci) \<Longrightarrow>
     lookup_transcode_command env (td_target_format (decide env mf src ci)) \<noteq> ''''"
  by (erule decide_transcodeE) (erule compute_transcoded_streamE, simp)

text \<open>
  C9. A legacy request is always resolved to something the server can stream: the raw file, or a
  format with a transcoding command; the offset asked for is kept; and when no transcoding is
  forced on the player by the server, a requested bit rate bounds the rate to transcode to. The raw
  file is resolved without a rate and may have a higher one: when it is asked for, when nothing can
  be transcoded, and when neither a format nor one for downsampling is given.
\<close>

theorem resolve_request_playable:
  "rq_offset (resolve_request env ctx mf f b off) = off
   \<and> (rq_format (resolve_request env ctx mf f b off) = ''raw''
       \<or> lookup_transcode_command env (rq_format (resolve_request env ctx mf f b off)) \<noteq> '''')
   \<and> (ctx_transcoding ctx = None \<longrightarrow> 0 < b \<longrightarrow>
       rq_bit_rate (resolve_request env ctx mf f b off) \<le> b)"
proof (rule resolve_request_cases, goal_cases)
  case 1
  then show ?case by (simp add: raw_request_def empty_request_def)
next
  case (2 f)
  then show ?case
    using decide_command [OF 2] legacy_decision_rate [OF _ _ 2] by (simp add: request_of_decision_def)
qed

theorem resolve_request_playable_witness:
  "rq_bit_rate (resolve_request demo_env demo_ctx (demo_file ''flac'' 900) ''mp3'' 192 30) \<le> 192
   \<and> rq_offset (resolve_request demo_env demo_ctx (demo_file ''flac'' 900) ''mp3'' 192 30) = 30"
  using resolve_request_playable [of demo_env demo_ctx "demo_file ''flac'' 900" "''mp3''" 192 30]
  by (simp add: demo_ctx_def)

end
