(* ===== verification/Tokens.thy ===== *)
theory Tokens
  imports StreamSafety
begin

text \<open>
  The signed tokens: the claims of session and public tokens (\<open>core/auth/claims.go\<close>, and the
  encoding functions of \<open>core/auth/auth.go\<close>), and the transcode token that carries a decision
  from the decision request to the stream request (\<open>core/stream/token.go\<close>).

  The JWT library is a parameter: a record of its two functions over an opaque token type.
  What the code relies on is \<open>jwt_faithful\<close>: a signed map of the kind the code makes comes back, as
  JSON hands it back (numbers as floats, the registered dates as times), while its dates allow it.
\<close>

section \<open>Claims and the library\<close>

datatype claim =
    Claim_string string
  | Claim_bool bool
  | Claim_int int
  | Claim_int64 int
  | Claim_float rat
  | Claim_time go_time

type_synonym claims = "string \<rightharpoonup> claim"

record 'tok jwt_lib =
  jwt_encode :: "claims \<Rightarrow> string + 'tok"
  jwt_verify :: "go_time \<Rightarrow> 'tok \<Rightarrow> string + claims"

definition unix :: "go_time \<Rightarrow> int" where "unix t = t div 10 ^ 9"

definition from_unix :: "int \<Rightarrow> go_time" where "from_unix n = n * 10 ^ 9"

definition truncate_second :: "go_time \<Rightarrow> go_time" where "truncate_second t = t - t mod 10 ^ 9"

lemma from_unix_unix [simp]: "from_unix (unix t) = truncate_second t"
  by (simp add: from_unix_def unix_def truncate_second_def minus_mod_eq_div_mult)

lemma unix_from_unix [simp]: "unix (from_unix n) = n"
  by (simp add: from_unix_def unix_def)

lemma unix_truncate [simp]: "unix (truncate_second t) = unix t"
  by (simp add: truncate_second_def unix_def minus_mod_eq_div_mult)

lemma truncate_truncate [simp]: "truncate_second (truncate_second t) = truncate_second t"
  using unix_truncate [of t] from_unix_unix by metis

lemma from_unix_inject [simp]: "from_unix m = from_unix n \<longleftrightarrow> m = n"
  by (simp add: from_unix_def)

lemma from_unix_zero_time: "from_unix n = zero_time \<longleftrightarrow> n = - 62135596800"
  by (simp add: from_unix_def zero_time_def)

text \<open>The typed getters of a token: they fail when the claim is absent or has another type.\<close>

definition get_string :: "claims \<Rightarrow> string \<Rightarrow> string option" where
  "get_string m k = (case m k of Some (Claim_string s) \<Rightarrow> Some s | _ \<Rightarrow> None)"

definition get_bool :: "claims \<Rightarrow> string \<Rightarrow> bool option" where
  "get_bool m k = (case m k of Some (Claim_bool b) \<Rightarrow> Some b | _ \<Rightarrow> None)"

definition get_int :: "claims \<Rightarrow> string \<Rightarrow> int option" where
  "get_int m k = (case m k of Some (Claim_int n) \<Rightarrow> Some n | _ \<Rightarrow> None)"

definition get_int64 :: "claims \<Rightarrow> string \<Rightarrow> int option" where
  "get_int64 m k = (case m k of Some (Claim_int64 n) \<Rightarrow> Some n | _ \<Rightarrow> None)"

definition get_float :: "claims \<Rightarrow> string \<Rightarrow> rat option" where
  "get_float m k = (case m k of Some (Claim_float f) \<Rightarrow> Some f | _ \<Rightarrow> None)"

definition get_time :: "claims \<Rightarrow> string \<Rightarrow> go_time option" where
  "get_time m k = (case m k of Some (Claim_time t) \<Rightarrow> Some t | _ \<Rightarrow> None)"

lemmas getters = get_string_def get_bool_def get_int_def get_int64_def get_float_def get_time_def

text \<open>
  What JSON makes of a claim. A \<open>float64\<close> holds every integer of at most 53 bits.
\<close>

definition json_exact :: "int \<Rightarrow> bool" where
  "json_exact n \<longleftrightarrow> \<bar>n\<bar> \<le> 2 ^ 53"

definition date_claims :: "string set" where
  "date_claims = {''exp'', ''iat'', ''nbf''}"

definition json_claim :: "string \<Rightarrow> claim \<Rightarrow> claim" where
  "json_claim k c =
     (case c of
        Claim_int n \<Rightarrow> if k \<in> date_claims then Claim_time (from_unix n) else Claim_float (of_int n)
      | Claim_int64 n \<Rightarrow> if k \<in> date_claims then Claim_time (from_unix n) else Claim_float (of_int n)
      | _ \<Rightarrow> c)"

definition json_claims :: "claims \<Rightarrow> claims" where
  "json_claims m = (\<lambda>k. map_option (json_claim k) (m k))"

text \<open>
  The claims that the code signs: texts are valid UTF-8, numbers are exact as floats, and the registered
  claims have their types, with dates from 1970 to the end of the year 9999, which is the range of the
  library. For other maps nothing is supposed of the library.
\<close>

definition registered_claims :: "string set" where
  "registered_claims = date_claims \<union> {''iss'', ''sub'', ''aud'', ''jti''}"

definition max_date :: int where "max_date = 253402300799"

definition claim_exact :: "string \<Rightarrow> claim \<Rightarrow> bool" where
  "claim_exact k c \<longleftrightarrow>
     (case c of
        Claim_string s \<Rightarrow> k \<notin> date_claims \<and> k \<noteq> ''aud'' \<and> valid_utf8 s
      | Claim_bool b \<Rightarrow> k \<notin> registered_claims
      | Claim_int n \<Rightarrow> k \<notin> registered_claims \<and> json_exact n
      | Claim_int64 n \<Rightarrow>
          if k \<in> date_claims then 0 \<le> n \<and> n \<le> max_date else k \<notin> registered_claims \<and> json_exact n
      | _ \<Rightarrow> False)"

definition claims_exact :: "claims \<Rightarrow> bool" where
  "claims_exact m \<longleftrightarrow> finite (dom m) \<and> (\<forall>k c. m k = Some c \<longrightarrow> valid_utf8 k \<and> claim_exact k c)"

text \<open>
  The documented behaviour of the library that the code relies on: such a map is signed, and the token
  verifies, with the claims as JSON hands them back, exactly while it is not expired and its other
  dates are not in the future.
\<close>

definition date_of :: "claims \<Rightarrow> string \<Rightarrow> go_time option" where
  "date_of m k = (case m k of Some (Claim_int64 n) \<Rightarrow> Some (from_unix n) | _ \<Rightarrow> None)"

definition token_current :: "go_time \<Rightarrow> claims \<Rightarrow> bool" where
  "token_current now m \<longleftrightarrow>
     (case date_of m ''exp'' of None \<Rightarrow> True | Some t \<Rightarrow> now < t) \<and>
     (case date_of m ''iat'' of None \<Rightarrow> True | Some t \<Rightarrow> t \<le> now) \<and>
     (case date_of m ''nbf'' of None \<Rightarrow> True | Some t \<Rightarrow> t \<le> now)"

definition jwt_faithful :: "'tok jwt_lib \<Rightarrow> bool" where
  "jwt_faithful lib \<longleftrightarrow>
     (\<forall>m. claims_exact m \<longrightarrow>
        (\<exists>s. jwt_encode lib m = Inr s
           \<and> (\<forall>now. if token_current now m then jwt_verify lib now s = Inr (json_claims m)
                     else \<exists>err. jwt_verify lib now s = Inl err)))"

text \<open>A library that has it: the token is the map itself, the check is that of the dates.\<close>

definition plain_jwt :: "claims jwt_lib" where
  "plain_jwt =
     \<lparr>jwt_encode = (\<lambda>m. Inr m),
      jwt_verify = (\<lambda>now m. if token_current now m then Inr (json_claims m) else Inl ''token is not valid'')\<rparr>"

lemma plain_jwt_faithful: "jwt_faithful plain_jwt"
  by (simp add: jwt_faithful_def plain_jwt_def)

section \<open>Session and public claims\<close>

record auth_claims =
  cl_issuer :: string
  cl_subject :: string
  cl_issued_at :: go_time
  cl_expires_at :: go_time
  cl_user_id :: string
  cl_is_admin :: bool
  cl_id :: string
  cl_format :: string
  cl_bit_rate :: int

definition put_if :: "bool \<Rightarrow> string \<Rightarrow> claim \<Rightarrow> claims \<Rightarrow> claims" where
  "put_if b k c m = (if b then m(k \<mapsto> c) else m)"

lemma put_if_apply: "put_if b k c m k' = (if b \<and> k' = k then Some c else m k')"
  by (simp add: put_if_def)

definition to_map :: "auth_claims \<Rightarrow> claims" where
  "to_map c =
     (put_if (cl_bit_rate c \<noteq> 0) ''b'' (Claim_int (cl_bit_rate c))
     (put_if (cl_format c \<noteq> '''') ''f'' (Claim_string (cl_format c))
     (put_if (cl_id c \<noteq> '''') ''id'' (Claim_string (cl_id c))
     (put_if (cl_is_admin c) ''adm'' (Claim_bool (cl_is_admin c))
     (put_if (cl_user_id c \<noteq> '''') ''uid'' (Claim_string (cl_user_id c))
     (put_if (cl_expires_at c \<noteq> zero_time) ''exp'' (Claim_int64 (unix (cl_expires_at c)))
     (put_if (cl_issued_at c \<noteq> zero_time) ''iat'' (Claim_int64 (unix (cl_issued_at c)))
     (put_if (cl_subject c \<noteq> '''') ''sub'' (Claim_string (cl_subject c))
     (put_if (cl_issuer c \<noteq> '''') ''iss'' (Claim_string (cl_issuer c)) Map.empty)))))))))"

definition with_expires_at :: "auth_claims \<Rightarrow> go_time \<Rightarrow> auth_claims" where
  "with_expires_at c t = c\<lparr>cl_expires_at := t\<rparr>"

definition or_default :: "'a \<Rightarrow> 'a option \<Rightarrow> 'a" where
  "or_default d x = (case x of Some y \<Rightarrow> y | None \<Rightarrow> d)"

lemma or_default_simps [simp]: "or_default d (Some y) = y" "or_default d None = d"
  by (simp_all add: or_default_def)

definition claims_from_token :: "claims \<Rightarrow> auth_claims" where
  "claims_from_token tok =
     \<lparr>cl_issuer = or_default '''' (get_string tok ''iss''),
      cl_subject = or_default '''' (get_string tok ''sub''),
      cl_issued_at = or_default zero_time (get_time tok ''iat''),
      cl_expires_at = or_default zero_time (get_time tok ''exp''),
      cl_user_id = or_default '''' (get_string tok ''uid''),
      cl_is_admin = or_default False (get_bool tok ''adm''),
      cl_id = or_default '''' (get_string tok ''id''),
      cl_format = or_default '''' (get_string tok ''f''),
      cl_bit_rate =
        (case get_int tok ''b'' of
           Some n \<Rightarrow> n
         | None \<Rightarrow> (case get_float tok ''b'' of Some f \<Rightarrow> float_to_int f | None \<Rightarrow> 0))\<rparr>"

definition jwt_issuer :: string where "jwt_issuer = ''ND''"

record auth_user =
  au_id :: string
  au_user_name :: string
  au_is_admin :: bool

definition validate_token :: "'tok jwt_lib \<Rightarrow> go_time \<Rightarrow> 'tok \<Rightarrow> string + auth_claims" where
  "validate_token lib now tok =
     (case jwt_verify lib now tok of Inl e \<Rightarrow> Inl e | Inr m \<Rightarrow> Inr (claims_from_token m))"

text \<open>
  \<open>TouchToken\<close> works on the claims of a token. \<open>Encode\<close> also returns the token that it
  signed; a session has no number among its claims, only strings, a boolean and dates, so that
  token reads as its JSON does.
\<close>

definition touch_token ::
  "'tok jwt_lib \<Rightarrow> int \<Rightarrow> go_time \<Rightarrow> claims \<Rightarrow> string + 'tok" where
  "touch_token lib session_timeout now tok =
     jwt_encode lib (to_map (with_expires_at (claims_from_token tok) (now + session_timeout)))"

definition create_token ::
  "'tok jwt_lib \<Rightarrow> int \<Rightarrow> go_time \<Rightarrow> auth_user \<Rightarrow> string + 'tok" where
  "create_token lib session_timeout now u =
     (let c = \<lparr>cl_issuer = jwt_issuer, cl_subject = au_user_name u, cl_issued_at = now,
               cl_expires_at = zero_time, cl_user_id = au_id u, cl_is_admin = au_is_admin u,
               cl_id = '''', cl_format = '''', cl_bit_rate = 0\<rparr>
      in case jwt_encode lib (to_map c) of
           Inl e \<Rightarrow> Inl e
         | Inr _ \<Rightarrow> touch_token lib session_timeout now (json_claims (to_map c)))"

definition encode_token :: "'tok jwt_lib \<Rightarrow> claims \<Rightarrow> string + 'tok" where
  "encode_token lib m = jwt_encode lib (m(''iss'' \<mapsto> Claim_string jwt_issuer))"


section \<open>Transcode tokens\<close>

record token_params =
  tkp_media_id :: string
  tkp_direct_play :: bool
  tkp_target_format :: string
  tkp_target_bitrate :: int
  tkp_target_channels :: int
  tkp_target_sample_rate :: int
  tkp_target_bit_depth :: int
  tkp_source_updated_at :: go_time

text \<open>\<open>ErrTokenInvalid\<close> with what was wrapped into it, and \<open>ErrTokenStale\<close>.\<close>

datatype token_error = Token_invalid string | Token_stale

definition token_ttl :: int where "token_ttl = 48 * 3600 * 10 ^ 9"

definition to_claims_map :: "go_time \<Rightarrow> transcode_decision \<Rightarrow> claims" where
  "to_claims_map now d =
     (let m = Map.empty
         (''mid'' \<mapsto> Claim_string (td_media_id d),
          ''ua'' \<mapsto> Claim_int64 (unix (truncate_second (td_source_updated_at d))),
          ''exp'' \<mapsto> Claim_int64 (unix (now + token_ttl)));
          m1 = put_if (td_can_direct_play d) ''dp'' (Claim_bool True) m
      in if td_can_transcode d \<and> td_target_format d \<noteq> '''' then
           put_if (td_target_bit_depth d \<noteq> 0) ''bd'' (Claim_int (td_target_bit_depth d))
           (put_if (td_target_sample_rate d \<noteq> 0) ''sr'' (Claim_int (td_target_sample_rate d))
           (put_if (td_target_channels d \<noteq> 0) ''ch'' (Claim_int (td_target_channels d))
           (put_if (td_target_bitrate d \<noteq> 0) ''b'' (Claim_int (td_target_bitrate d))
           (m1(''f'' \<mapsto> Claim_string (td_target_format d))))))
         else m1)"

definition get_int_claim :: "claims \<Rightarrow> string \<Rightarrow> int" where
  "get_int_claim tok k =
     (case get_int tok k of
        Some v \<Rightarrow> v
      | None \<Rightarrow> (case get_int64 tok k of
          Some v64 \<Rightarrow> v64
        | None \<Rightarrow> (case get_float tok k of
            Some f \<Rightarrow> float_to_int f
          | None \<Rightarrow> 0)))"

definition params_from_token :: "claims \<Rightarrow> token_error + token_params" where
  "params_from_token tok =
     (let media_id = or_default '''' (get_string tok ''mid'');
          ua = get_int_claim tok ''ua'';
          updated = (if ua \<noteq> 0 then from_unix ua else zero_time)
      in if media_id = '''' then Inl (Token_invalid ''missing media ID'')
         else if updated = zero_time then Inl (Token_invalid ''missing source timestamp'')
         else Inr
           \<lparr>tkp_media_id = media_id, tkp_direct_play = or_default False (get_bool tok ''dp''),
            tkp_target_format = or_default '''' (get_string tok ''f''),
            tkp_target_bitrate = get_int_claim tok ''b'', tkp_target_channels = get_int_claim tok ''ch'',
            tkp_target_sample_rate = get_int_claim tok ''sr'',
            tkp_target_bit_depth = get_int_claim tok ''bd'', tkp_source_updated_at = updated\<rparr>)"

definition create_transcode_params ::
  "'tok jwt_lib \<Rightarrow> go_time \<Rightarrow> transcode_decision \<Rightarrow> string + 'tok" where
  "create_transcode_params lib now d = encode_token lib (to_claims_map now d)"

definition parse_transcode_params ::
  "'tok jwt_lib \<Rightarrow> go_time \<Rightarrow> 'tok \<Rightarrow> token_error + token_params" where
  "parse_transcode_params lib now tok =
     (case jwt_verify lib now tok of
        Inl e \<Rightarrow> Inl (Token_invalid e)
      | Inr m \<Rightarrow> params_from_token m)"

definition resolve_request_from_token ::
  "'tok jwt_lib \<Rightarrow> go_time \<Rightarrow> 'tok \<Rightarrow> media_file \<Rightarrow> int \<Rightarrow> token_error + stream_request" where
  "resolve_request_from_token lib now tok mf offset =
     (case parse_transcode_params lib now tok of
        Inl e \<Rightarrow> Inl e
      | Inr p \<Rightarrow>
          if tkp_media_id p \<noteq> mf_id mf then Inl (Token_invalid ''media ID does not match'')
          else if truncate_second (mf_updated_at mf) \<noteq> tkp_source_updated_at p then Inl Token_stale
          else if \<not> tkp_direct_play p \<and> tkp_target_format p \<noteq> '''' then
            Inr \<lparr>rq_format = tkp_target_format p, rq_bit_rate = tkp_target_bitrate p,
                 rq_sample_rate = tkp_target_sample_rate p, rq_bit_depth = tkp_target_bit_depth p,
                 rq_channels = tkp_target_channels p, rq_offset = offset\<rparr>
          else Inr (empty_request\<lparr>rq_offset := offset\<rparr>))"

section \<open>The claims that come back\<close>

lemma json_claims_apply: "json_claims m k = map_option (json_claim k) (m k)"
  by (simp add: json_claims_def)

lemma getters_json:
  "get_string (json_claims m) k = get_string m k"
  "get_bool (json_claims m) k = get_bool m k"
  by (auto simp: getters json_claims_apply json_claim_def split: option.splits claim.splits)

lemma get_int_claim_json:
  "k \<notin> date_claims \<Longrightarrow> get_int_claim (json_claims m) k = get_int_claim m k"
  by (auto simp: get_int_claim_def getters json_claims_apply json_claim_def
      split: option.splits claim.splits)

lemma get_time_json:
  "k \<in> date_claims \<Longrightarrow> m k = Some (Claim_int64 n) \<Longrightarrow> get_time (json_claims m) k = Some (from_unix n)"
  by (simp add: getters json_claims_apply json_claim_def)

text \<open>A second-precise time survives; the rest of the claims do whatever they are.\<close>

definition whole_second :: "go_time \<Rightarrow> bool" where
  "whole_second t \<longleftrightarrow> truncate_second t = t"

definition date_ok :: "go_time \<Rightarrow> bool" where
  "date_ok t \<longleftrightarrow> t = zero_time \<or> (0 \<le> unix t \<and> unix t \<le> max_date)"

definition auth_exact :: "auth_claims \<Rightarrow> bool" where
  "auth_exact c \<longleftrightarrow> date_ok (cl_issued_at c) \<and> date_ok (cl_expires_at c) \<and> json_exact (cl_bit_rate c)
     \<and> valid_utf8 (cl_issuer c) \<and> valid_utf8 (cl_subject c) \<and> valid_utf8 (cl_user_id c)
     \<and> valid_utf8 (cl_id c) \<and> valid_utf8 (cl_format c)"

lemma claim_keys_valid:
  "list_all valid_utf8 [''b'', ''f'', ''id'', ''adm'', ''uid'', ''exp'', ''iat'', ''sub'', ''iss'', ''mid'', ''ua'', ''dp'',
     ''bd'', ''sr'', ''ch'']"
  by code_simp

lemma put_if_claims_exact:
  "claims_exact m \<Longrightarrow> (b \<Longrightarrow> valid_utf8 k \<and> claim_exact k c) \<Longrightarrow> claims_exact (put_if b k c m)"
  by (auto simp: claims_exact_def put_if_def)

lemma upd_claims_exact:
  "claims_exact m \<Longrightarrow> valid_utf8 k \<Longrightarrow> claim_exact k c \<Longrightarrow> claims_exact (m(k \<mapsto> c))"
  by (auto simp: claims_exact_def)

lemma no_claims_exact: "claims_exact Map.empty"
  by (simp add: claims_exact_def)

lemma to_map_exact: "auth_exact c \<Longrightarrow> claims_exact (to_map c)"
  unfolding to_map_def using claim_keys_valid
  by (intro put_if_claims_exact no_claims_exact)
    (auto simp: auth_exact_def date_ok_def claim_exact_def registered_claims_def date_claims_def)

lemma claims_round_trip:
  "claims_from_token (json_claims (to_map c)) =
     c\<lparr>cl_issued_at := if cl_issued_at c = zero_time then zero_time else truncate_second (cl_issued_at c),
      cl_expires_at := if cl_expires_at c = zero_time then zero_time else truncate_second (cl_expires_at c)\<rparr>"
proof -
  have "get_int (json_claims (to_map c)) ''b'' = None"
    by (simp add: getters json_claims_apply to_map_def put_if_apply json_claim_def date_claims_def)
  moreover have "get_float (json_claims (to_map c)) ''b'' =
      (if cl_bit_rate c = 0 then None else Some (of_int (cl_bit_rate c)))"
    by (simp add: getters json_claims_apply to_map_def put_if_apply json_claim_def date_claims_def)
  moreover have "get_time (json_claims (to_map c)) ''exp'' =
      (if cl_expires_at c = zero_time then None else Some (truncate_second (cl_expires_at c)))"
    "get_time (json_claims (to_map c)) ''iat'' =
      (if cl_issued_at c = zero_time then None else Some (truncate_second (cl_issued_at c)))"
    by (simp_all add: getters json_claims_apply to_map_def put_if_apply json_claim_def date_claims_def)
  ultimately show ?thesis
    by (cases c) (simp add: claims_from_token_def getters_json,
        simp add: getters to_map_def put_if_apply)
qed


section \<open>Through the library\<close>

lemma jwt_faithfulE:
  assumes "jwt_faithful lib" "claims_exact m"
  obtains s where "jwt_encode lib m = Inr s"
    "\<And>now. token_current now m \<Longrightarrow> jwt_verify lib now s = Inr (json_claims m)"
    "\<And>now. \<not> token_current now m \<Longrightarrow> \<exists>err. jwt_verify lib now s = Inl err"
  using assms unfolding jwt_faithful_def by meson

definition session_claims :: "auth_user \<Rightarrow> go_time \<Rightarrow> go_time \<Rightarrow> auth_claims" where
  "session_claims u issued expires_at =
     \<lparr>cl_issuer = ''ND'', cl_subject = au_user_name u, cl_issued_at = truncate_second issued,
      cl_expires_at = expires_at, cl_user_id = au_id u, cl_is_admin = au_is_admin u,
      cl_id = '''', cl_format = '''', cl_bit_rate = 0\<rparr>"

definition user_exact :: "auth_user \<Rightarrow> bool" where
  "user_exact u \<longleftrightarrow> valid_utf8 (au_id u) \<and> valid_utf8 (au_user_name u)"

lemma issuer_valid: "valid_utf8 ''ND''"
  by code_simp

lemma create_token_encodes:
  assumes "jwt_faithful lib" "user_exact u" "0 \<le> unix now" "unix now \<le> max_date"
  shows "create_token lib timeout now u = jwt_encode lib (to_map (session_claims u now (now + timeout)))"
proof -
  let ?c = "\<lparr>cl_issuer = jwt_issuer, cl_subject = au_user_name u, cl_issued_at = now,
               cl_expires_at = zero_time, cl_user_id = au_id u, cl_is_admin = au_is_admin u,
               cl_id = '''', cl_format = '''', cl_bit_rate = 0\<rparr>"
  have nz: "now \<noteq> zero_time" using assms(3) by (auto simp: unix_def zero_time_def)
  have "claims_exact (to_map ?c)"
    using assms(2-4) issuer_valid
    by (intro to_map_exact) (simp add: auth_exact_def json_exact_def date_ok_def user_exact_def jwt_issuer_def)
  then obtain s where "jwt_encode lib (to_map ?c) = Inr s"
    using assms(1) unfolding jwt_faithful_def by blast
  then show ?thesis
    using nz
    by (simp add: create_token_def touch_token_def claims_round_trip with_expires_at_def
        session_claims_def jwt_issuer_def)
qed

definition decision_exact :: "go_time \<Rightarrow> transcode_decision \<Rightarrow> bool" where
  "decision_exact now d \<longleftrightarrow>
     0 \<le> unix (now + token_ttl) \<and> unix (now + token_ttl) \<le> max_date \<and> json_exact (unix (td_source_updated_at d))
     \<and> json_exact (td_target_bitrate d) \<and> json_exact (td_target_channels d)
     \<and> json_exact (td_target_sample_rate d) \<and> json_exact (td_target_bit_depth d)
     \<and> valid_utf8 (td_media_id d) \<and> valid_utf8 (td_target_format d)"

lemma to_claims_map_exact:
  "decision_exact now d \<Longrightarrow>
     claims_exact ((to_claims_map now d)(''iss'' \<mapsto> Claim_string jwt_issuer))"
  unfolding to_claims_map_def Let_def using claim_keys_valid issuer_valid
  by (cases "td_can_transcode d \<and> td_target_format d \<noteq> []")
    (simp_all add: put_if_claims_exact upd_claims_exact no_claims_exact decision_exact_def claim_exact_def
      registered_claims_def date_claims_def jwt_issuer_def)

lemma decision_current:
  "token_current now' ((to_claims_map now d)(''iss'' \<mapsto> c)) \<longleftrightarrow> now' < truncate_second (now + token_ttl)"
  by (simp add: token_current_def date_of_def to_claims_map_def put_if_apply Let_def)

text \<open>What a decision's claims say when they are read back.\<close>

definition params_of_decision :: "transcode_decision \<Rightarrow> token_error + token_params" where
  "params_of_decision d =
     (let transcode = td_can_transcode d \<and> td_target_format d \<noteq> '''';
          kept = (\<lambda>n. if transcode then n else 0)
      in if td_media_id d = '''' then Inl (Token_invalid ''missing media ID'')
         else if unix (td_source_updated_at d) \<in> {0, - 62135596800}
           then Inl (Token_invalid ''missing source timestamp'')
         else Inr
           \<lparr>tkp_media_id = td_media_id d, tkp_direct_play = td_can_direct_play d,
            tkp_target_format = (if transcode then td_target_format d else ''''),
            tkp_target_bitrate = kept (td_target_bitrate d),
            tkp_target_channels = kept (td_target_channels d),
            tkp_target_sample_rate = kept (td_target_sample_rate d),
            tkp_target_bit_depth = kept (td_target_bit_depth d),
            tkp_source_updated_at = truncate_second (td_source_updated_at d)\<rparr>)"

lemma params_of_claims:
  "params_from_token (json_claims ((to_claims_map now d)(''iss'' \<mapsto> c))) = params_of_decision d"
proof -
  let ?m = "(to_claims_map now d)(''iss'' \<mapsto> c)"
  let ?kept = "\<lambda>n. if td_can_transcode d \<and> td_target_format d \<noteq> '''' then n else 0"
  have ints: "get_int_claim ?m ''ua'' = unix (td_source_updated_at d)"
    "get_int_claim ?m ''b'' = ?kept (td_target_bitrate d)"
    "get_int_claim ?m ''ch'' = ?kept (td_target_channels d)"
    "get_int_claim ?m ''sr'' = ?kept (td_target_sample_rate d)"
    "get_int_claim ?m ''bd'' = ?kept (td_target_bit_depth d)"
    by (simp_all add: get_int_claim_def getters to_claims_map_def put_if_apply Let_def)
  have strs: "get_string ?m ''mid'' = Some (td_media_id d)"
    "or_default '''' (get_string ?m ''f'')
       = (if td_can_transcode d \<and> td_target_format d \<noteq> '''' then td_target_format d else '''')"
    "or_default False (get_bool ?m ''dp'') = td_can_direct_play d"
    by (simp_all add: getters to_claims_map_def put_if_apply Let_def)
  have json: "get_int_claim (json_claims ?m) k = get_int_claim ?m k" if "k \<notin> date_claims" for k
    using that by (rule get_int_claim_json)
  have z: "from_unix 0 \<noteq> zero_time" by (simp add: from_unix_zero_time)
  show ?thesis
    unfolding params_from_token_def params_of_decision_def getters_json json [of "''ua''", simplified date_claims_def, simplified]
      json [of "''b''", simplified date_claims_def, simplified]
      json [of "''ch''", simplified date_claims_def, simplified]
      json [of "''sr''", simplified date_claims_def, simplified]
      json [of "''bd''", simplified date_claims_def, simplified] strs ints Let_def
    by (auto simp: from_unix_zero_time simp flip: from_unix_unix)
qed

lemma transcode_tokenE:
  assumes "jwt_faithful lib" "decision_exact now d"
  obtains s where "create_transcode_params lib now d = Inr s"
    "\<And>now'. now' < truncate_second (now + token_ttl) \<Longrightarrow>
       parse_transcode_params lib now' s = params_of_decision d"
    "\<And>now'. truncate_second (now + token_ttl) \<le> now' \<Longrightarrow>
       \<exists>e. parse_transcode_params lib now' s = Inl (Token_invalid e)"
proof -
  obtain s where s: "jwt_encode lib ((to_claims_map now d)(''iss'' \<mapsto> Claim_string jwt_issuer)) = Inr s"
    "\<And>now'. now' < truncate_second (now + token_ttl) \<Longrightarrow> jwt_verify lib now' s
       = Inr (json_claims ((to_claims_map now d)(''iss'' \<mapsto> Claim_string jwt_issuer)))"
    "\<And>now'. truncate_second (now + token_ttl) \<le> now' \<Longrightarrow> \<exists>err. jwt_verify lib now' s = Inl err"
    by (rule jwt_faithfulE [OF assms(1) to_claims_map_exact [OF assms(2)], unfolded decision_current])
      (rule that, assumption, assumption, simp only: not_less)
  show thesis
  proof (rule that)
    show "create_transcode_params lib now d = Inr s"
      using s(1) by (simp only: create_transcode_params_def encode_token_def)
  next
    fix now' assume "now' < truncate_second (now + token_ttl)"
    then show "parse_transcode_params lib now' s = params_of_decision d"
      unfolding parse_transcode_params_def by (simp only: s(2) sum.case params_of_claims)
  next
    fix now' assume "truncate_second (now + token_ttl) \<le> now'"
    then show "\<exists>e. parse_transcode_params lib now' s = Inl (Token_invalid e)"
      using s(3) [of now'] by (auto simp: parse_transcode_params_def)
  qed
qed

text \<open>A session token is accepted from the second in which it was made until it expires.\<close>

definition session_current :: "go_time \<Rightarrow> int \<Rightarrow> go_time \<Rightarrow> bool" where
  "session_current now timeout now' \<longleftrightarrow> truncate_second now \<le> now' \<and> now' < truncate_second (now + timeout)"

lemma session_tokenE:
  assumes "jwt_faithful lib" "user_exact u" "0 \<le> unix now" "0 \<le> timeout" "unix (now + timeout) \<le> max_date"
  obtains s where "create_token lib timeout now u = Inr s"
    "\<And>now'. session_current now timeout now' \<Longrightarrow>
       jwt_verify lib now' s = Inr (json_claims (to_map (session_claims u now (now + timeout))))"
    "\<And>now'. \<not> session_current now timeout now' \<Longrightarrow> \<exists>err. jwt_verify lib now' s = Inl err"
proof -
  let ?c = "session_claims u now (now + timeout)"
  have u: "unix now \<le> unix (now + timeout)" using assms(4) by (simp add: unix_def zdiv_mono1)
  then have nz: "truncate_second now \<noteq> zero_time" "now + timeout \<noteq> zero_time"
    using assms(3) by (auto simp: unix_def zero_time_def truncate_second_def)
  have "claims_exact (to_map ?c)"
    using assms(2,3,5) u issuer_valid
    by (intro to_map_exact) (simp add: auth_exact_def session_claims_def json_exact_def date_ok_def user_exact_def)
  moreover have "token_current now' (to_map ?c) \<longleftrightarrow> session_current now timeout now'" for now'
    using nz by (auto simp: token_current_def date_of_def to_map_def put_if_apply session_claims_def session_current_def)
  ultimately obtain s where "jwt_encode lib (to_map ?c) = Inr s"
    "\<And>now'. session_current now timeout now' \<Longrightarrow> jwt_verify lib now' s = Inr (json_claims (to_map ?c))"
    "\<And>now'. \<not> session_current now timeout now' \<Longrightarrow> \<exists>err. jwt_verify lib now' s = Inl err"
    using jwt_faithfulE [OF assms(1), of "to_map ?c"] by metis
  then show thesis
    using create_token_encodes [OF assms(1,2,3), of timeout] u assms(5) by (intro that) simp_all
qed

section \<open>The properties of the tokens\<close>

text \<open>
  A session token carries the user: from the second in which it was made until it expires, validating
  what \<open>CreateToken\<close> returned gives the user's name, id and admin flag, the issuer, and the times to
  the second; at any other time it is rejected.
\<close>

lemma session_token_round_trip:
  assumes "jwt_faithful lib" "user_exact u" "0 \<le> unix now" "0 \<le> timeout" "unix (now + timeout) \<le> max_date"
  shows "\<exists>tok. create_token lib timeout now u = Inr tok
     \<and> (\<forall>now'. if session_current now timeout now'
          then validate_token lib now' tok
                 = Inr (session_claims u now (truncate_second (now + timeout)))
          else \<exists>e. validate_token lib now' tok = Inl e)"
proof -
  have "now \<noteq> zero_time" "truncate_second now \<noteq> zero_time" "now + timeout \<noteq> zero_time"
    using assms(3,4) by (auto simp: unix_def zero_time_def truncate_second_def)
  moreover obtain s where "create_token lib timeout now u = Inr s"
    "\<And>now'. session_current now timeout now' \<Longrightarrow>
       jwt_verify lib now' s = Inr (json_claims (to_map (session_claims u now (now + timeout))))"
    "\<And>now'. \<not> session_current now timeout now' \<Longrightarrow> \<exists>err. jwt_verify lib now' s = Inl err"
    by (rule session_tokenE [OF assms]) blast
  ultimately show ?thesis
    by (force simp: validate_token_def claims_round_trip session_claims_def split: sum.splits)
qed

definition demo_user :: auth_user where
  "demo_user = \<lparr>au_id = ''u1'', au_user_name = ''joe'', au_is_admin = True\<rparr>"

lemma session_token_round_trip_witness:
  "\<exists>tok. create_token plain_jwt (3600 * 10 ^ 9) 1700000000500000000 demo_user = Inr tok
     \<and> validate_token plain_jwt 1700000001000000000 tok
         = Inr (session_claims demo_user 1700000000500000000 1700003600000000000)"
proof -
  have "user_exact demo_user" by code_simp
  then show ?thesis
    using session_token_round_trip [OF plain_jwt_faithful, of demo_user 1700000000500000000 "3600 * 10 ^ 9"]
    by (auto simp: session_current_def max_date_def unix_def truncate_second_def
        dest!: spec [of _ "1700000001000000000 :: int"])
qed


definition demo_sent :: transcode_decision where
  "demo_sent =
     \<lparr>td_media_id = ''id1'', td_can_direct_play = False, td_can_transcode = True,
      td_transcode_reasons = [''audio bitrate not supported''], td_error_reason = '''',
      td_target_format = ''mp3'', td_target_bitrate = 256, td_target_channels = 2,
      td_target_sample_rate = 44100, td_target_bit_depth = 24,
      td_source_stream = build_source_stream demo_env (demo_file ''flac'' 900) None,
      td_source_updated_at = 1700000000000000000, td_transcode_stream = None\<rparr>"

lemma demo_sent_exact: "decision_exact 1700000000000000000 demo_sent"
proof -
  have "valid_utf8 ''id1''" "valid_utf8 ''mp3''" by code_simp+
  then show ?thesis by (simp add: decision_exact_def demo_sent_def json_exact_def unix_def token_ttl_def max_date_def)
qed


text \<open>
  A file whose modification time is in the first second of 1970, or is unset, can be decided
  upon but not streamed: every token made for it is rejected.
\<close>

lemma epoch_file_token_unusable:
  assumes "jwt_faithful lib" "decision_exact now d"
    "unix (td_source_updated_at d) \<in> {0, - 62135596800}"
  shows "\<exists>tok. create_transcode_params lib now d = Inr tok
     \<and> (\<forall>now' mf off. \<exists>e. resolve_request_from_token lib now' tok mf off = Inl (Token_invalid e))"
proof -
  obtain s where s: "create_transcode_params lib now d = Inr s"
    "\<And>now'. now' < truncate_second (now + token_ttl) \<Longrightarrow>
       parse_transcode_params lib now' s = params_of_decision d"
    "\<And>now'. truncate_second (now + token_ttl) \<le> now' \<Longrightarrow>
       \<exists>e. parse_transcode_params lib now' s = Inl (Token_invalid e)"
    by (rule transcode_tokenE [OF assms(1,2)]) (blast intro: that)
  have "\<exists>e. resolve_request_from_token lib now' s mf off = Inl (Token_invalid e)" for now' mf off
    using s(2) [of now'] s(3) [of now'] assms(3)
    by (cases "now' < truncate_second (now + token_ttl)")
      (auto simp: resolve_request_from_token_def params_of_decision_def Let_def not_less)
  with s(1) show ?thesis by blast
qed


definition demo_epoch :: transcode_decision where
  "demo_epoch = demo_sent\<lparr>td_source_updated_at := 500000000\<rparr>"

lemma epoch_file_token_unusable_witness:
  "\<exists>tok. create_transcode_params plain_jwt 1700000000000000000 demo_epoch = Inr tok
     \<and> (\<exists>e. resolve_request_from_token plain_jwt 1700000000000000000 tok
           (demo_file ''flac'' 900\<lparr>mf_updated_at := 500000000\<rparr>) 5 = Inl (Token_invalid e))"
proof -
  have "decision_exact 1700000000000000000 demo_epoch"
    using demo_sent_exact by (simp add: decision_exact_def demo_epoch_def unix_def json_exact_def)
  moreover have "unix (td_source_updated_at demo_epoch) \<in> {0, - 62135596800}"
    by (simp add: demo_epoch_def unix_def)
  ultimately show ?thesis
    using epoch_file_token_unusable [OF plain_jwt_faithful] by blast
qed

end
