(* ===== verification/PlayQueue.thy ===== *)
theory PlayQueue
  imports MediaFile "HOL-Library.Multiset"
begin

text \<open>
  The jukebox queue (\<open>core/playback/queue.go\<close>): a list of media files and the index of the
  current one, -1 when there is none. A slice expression or an index out of range, or a nil pointer, is a Go panic,
  here the value \<open>Inl\<close> of an operation. Log calls are left out. \<open>rand.Shuffle\<close> is the
  Fisher-Yates loop of the standard library, with its random numbers as a parameter.
\<close>

datatype go_panic = Index_out_of_range | Nil_pointer

record play_queue =
  pq_index :: int
  pq_items :: "media_file list"

definition new_queue :: play_queue where
  "new_queue = \<lparr>pq_index = -1, pq_items = []\<rparr>"

definition queue_size :: "play_queue \<Rightarrow> int" where
  "queue_size q = int (length (pq_items q))"

definition queue_is_empty :: "play_queue \<Rightarrow> bool" where
  "queue_is_empty q \<longleftrightarrow> queue_size q < 1"

definition current :: "play_queue \<Rightarrow> go_panic + media_file option" where
  "current q =
     (if pq_index q = -1 then Inr None
      else if pq_index q \<ge> queue_size q then Inr None
      else if pq_index q < 0 then Inl Index_out_of_range
      else Inr (Some (pq_items q ! nat (pq_index q))))"

definition queue_clear :: "play_queue \<Rightarrow> play_queue" where
  "queue_clear q = q\<lparr>pq_index := -1, pq_items := []\<rparr>"

definition queue_set :: "media_file list \<Rightarrow> play_queue \<Rightarrow> play_queue" where
  "queue_set items q = (let q' = queue_clear q in q'\<lparr>pq_items := pq_items q' @ items\<rparr>)"

definition queue_add :: "media_file list \<Rightarrow> play_queue \<Rightarrow> play_queue" where
  "queue_add items q =
     (let q' = q\<lparr>pq_items := pq_items q @ items\<rparr>
      in if pq_index q' = -1 \<and> queue_size q' > 0 then q'\<lparr>pq_index := 0\<rparr> else q')"

text \<open>\<open>getMediaFileIndexByID\<close>: the first position with the ID, \<open>None\<close> for the error.\<close>

fun index_by_id_from :: "int \<Rightarrow> string \<Rightarrow> media_file list \<Rightarrow> int option" where
  "index_by_id_from n i [] = None"
| "index_by_id_from n i (mf # mfs) = (if mf_id mf = i then Some n else index_by_id_from (n + 1) i mfs)"

definition get_media_file_index_by_id :: "string \<Rightarrow> play_queue \<Rightarrow> int option" where
  "get_media_file_index_by_id i q = index_by_id_from 0 i (pq_items q)"

definition backup_id :: "media_file option \<Rightarrow> string" where
  "backup_id cur = (case cur of Some mf \<Rightarrow> mf_id mf | None \<Rightarrow> '''')"

definition reindex :: "string \<Rightarrow> play_queue \<Rightarrow> play_queue" where
  "reindex i q =
     q\<lparr>pq_index := (case get_media_file_index_by_id i q of Some n \<Rightarrow> n | None \<Rightarrow> -1)\<rparr>"

definition queue_remove :: "int \<Rightarrow> play_queue \<Rightarrow> go_panic + play_queue" where
  "queue_remove idx q =
     (case current q of
        Inl e \<Rightarrow> Inl e
      | Inr cur \<Rightarrow>
          if idx < 0 \<or> idx \<ge> queue_size q then Inl Index_out_of_range
          else Inr (reindex (backup_id cur)
                 (q\<lparr>pq_items := take (nat idx) (pq_items q) @ drop (nat idx + 1) (pq_items q)\<rparr>)))"

definition swap_items :: "nat \<Rightarrow> nat \<Rightarrow> 'a list \<Rightarrow> 'a list" where
  "swap_items i j xs = xs[i := xs ! j, j := xs ! i]"

fun shuffle_from :: "(nat \<Rightarrow> nat) \<Rightarrow> nat \<Rightarrow> 'a list \<Rightarrow> 'a list" where
  "shuffle_from rand 0 xs = xs"
| "shuffle_from rand (Suc i) xs =
     shuffle_from rand i (swap_items (Suc i) (rand (Suc i) mod (Suc i + 1)) xs)"

definition rand_shuffle :: "(nat \<Rightarrow> nat) \<Rightarrow> 'a list \<Rightarrow> 'a list" where
  "rand_shuffle rand xs = shuffle_from rand (length xs - 1) xs"

definition queue_shuffle :: "(nat \<Rightarrow> nat) \<Rightarrow> play_queue \<Rightarrow> go_panic + play_queue" where
  "queue_shuffle rand q =
     (case current q of
        Inl e \<Rightarrow> Inl e
      | Inr cur \<Rightarrow> Inr (reindex (backup_id cur) (q\<lparr>pq_items := rand_shuffle rand (pq_items q)\<rparr>)))"

definition set_index :: "int \<Rightarrow> play_queue \<Rightarrow> play_queue" where
  "set_index idx q = q\<lparr>pq_index := max 0 (min idx (queue_size q - 1))\<rparr>"

definition is_at_last_element :: "play_queue \<Rightarrow> bool" where
  "is_at_last_element q \<longleftrightarrow> pq_index q + 1 \<ge> queue_size q"

definition increase_index :: "play_queue \<Rightarrow> play_queue" where
  "increase_index q = (if \<not> is_at_last_element q then set_index (pq_index q + 1) q else q)"

section \<open>The index\<close>

text \<open>
  The index is -1, a position of the list, or 0 on the empty list, which is what
  \<open>SetIndex\<close> makes of it.
\<close>

definition queue_ok :: "play_queue \<Rightarrow> bool" where
  "queue_ok q \<longleftrightarrow> pq_index q = -1 \<or> pq_index q = 0 \<or> 0 \<le> pq_index q \<and> pq_index q < queue_size q"

lemma queue_size_nonneg [simp]: "0 \<le> queue_size q"
  by (simp add: queue_size_def)

lemma current_ok: "queue_ok q \<Longrightarrow> \<exists>cur. current q = Inr cur"
  by (auto simp: queue_ok_def current_def)

lemma index_by_id_from_Some:
  "index_by_id_from n i mfs = Some k \<Longrightarrow>
     n \<le> k \<and> k < n + int (length mfs) \<and> mf_id (mfs ! nat (k - n)) = i
     \<and> (\<forall>j < nat (k - n). mf_id (mfs ! j) \<noteq> i)"
proof (induction mfs arbitrary: n)
  case Nil
  then show ?case by simp
next
  case (Cons mf mfs)
  show ?case
  proof (cases "mf_id mf = i")
    case True
    with Cons.prems show ?thesis by auto
  next
    case False
    with Cons.prems have r: "index_by_id_from (n + 1) i mfs = Some k" by simp
    from Cons.IH [OF r] have "n + 1 \<le> k" by simp
    then have k: "nat (k - n) = Suc (nat (k - (n + 1)))" by linarith
    from Cons.IH [OF r] False show ?thesis
      by (auto simp: k less_Suc_eq_0_disj)
  qed
qed

lemma index_by_id_from_None:
  "index_by_id_from n i mfs = None \<longleftrightarrow> i \<notin> mf_id ` set mfs"
  by (induction mfs arbitrary: n) auto

lemma reindex_items [simp]: "pq_items (reindex i q) = pq_items q"
  by (simp add: reindex_def)

lemma reindex_found:
  "i \<in> mf_id ` set (pq_items q) \<Longrightarrow>
     0 \<le> pq_index (reindex i q) \<and> pq_index (reindex i q) < queue_size q
     \<and> mf_id (pq_items q ! nat (pq_index (reindex i q))) = i"
  using index_by_id_from_None [of 0 i "pq_items q"] index_by_id_from_Some [of 0 i "pq_items q"]
  by (auto simp: reindex_def get_media_file_index_by_id_def queue_size_def split: option.splits)

lemma reindex_missing:
  "i \<notin> mf_id ` set (pq_items q) \<Longrightarrow> pq_index (reindex i q) = -1"
  using index_by_id_from_None [of 0 i "pq_items q"]
  by (simp add: reindex_def get_media_file_index_by_id_def)

lemma reindex_ok: "queue_ok (reindex i q)"
  using reindex_found [of i q] reindex_missing [of i q]
  by (cases "i \<in> mf_id ` set (pq_items q)") (auto simp: queue_ok_def queue_size_def)

lemma current_reindex:
  assumes "i \<in> mf_id ` set (pq_items q)"
  shows "\<exists>mf. current (reindex i q) = Inr (Some mf) \<and> mf_id mf = i \<and> mf \<in> set (pq_items q)"
  using reindex_found [OF assms] by (auto simp: current_def queue_size_def)

lemma current_SomeD:
  "current q = Inr (Some mf) \<Longrightarrow>
     mf \<in> set (pq_items q) \<and> 0 \<le> pq_index q \<and> pq_index q < queue_size q
     \<and> mf = pq_items q ! nat (pq_index q)"
  by (auto simp: current_def queue_size_def split: if_splits)

lemma swap_items_mset [simp]:
  "i < length xs \<Longrightarrow> j < length xs \<Longrightarrow> mset (swap_items i j xs) = mset xs"
  by (simp add: swap_items_def mset_swap)

lemma swap_items_length [simp]: "length (swap_items i j xs) = length xs"
  by (simp add: swap_items_def)

lemma shuffle_from_mset: "i < length xs \<Longrightarrow> mset (shuffle_from rand i xs) = mset xs"
proof (induction rand i xs rule: shuffle_from.induct)
  case (2 rand i xs)
  have "rand (Suc i) mod (Suc i + 1) < length xs"
    using 2(2) by (metis add.commute less_le_trans mod_less_divisor plus_1_eq_Suc Suc_leI zero_less_Suc)
  with 2 show ?case by simp
qed simp

lemma rand_shuffle_mset [simp]: "mset (rand_shuffle rand xs) = mset xs"
  using shuffle_from_mset [of "length xs - 1" xs rand] by (cases xs) (auto simp: rand_shuffle_def)

lemma rand_shuffle_set [simp]: "set (rand_shuffle rand xs) = set xs"
  by (metis rand_shuffle_mset set_mset_mset)

lemma rand_shuffle_length [simp]: "length (rand_shuffle rand xs) = length xs"
  by (metis rand_shuffle_mset size_mset)

lemma queue_remove_in_range:
  assumes "queue_ok q" "0 \<le> idx" "idx < queue_size q"
  obtains cur where "current q = Inr cur"
    "queue_remove idx q = Inr (reindex (backup_id cur)
       (q\<lparr>pq_items := take (nat idx) (pq_items q) @ drop (nat idx + 1) (pq_items q)\<rparr>))"
  using current_ok [OF assms(1)] assms(2,3) that by (auto simp: queue_remove_def)

section \<open>Commands on a queue\<close>

datatype queue_cmd =
    Q_set "media_file list"
  | Q_add "media_file list"
  | Q_clear
  | Q_remove int
  | Q_shuffle "nat \<Rightarrow> nat"
  | Q_set_index int
  | Q_increase

fun queue_exec :: "queue_cmd \<Rightarrow> play_queue \<Rightarrow> go_panic + play_queue" where
  "queue_exec (Q_set items) q = Inr (queue_set items q)"
| "queue_exec (Q_add items) q = Inr (queue_add items q)"
| "queue_exec Q_clear q = Inr (queue_clear q)"
| "queue_exec (Q_remove idx) q = queue_remove idx q"
| "queue_exec (Q_shuffle rand) q = queue_shuffle rand q"
| "queue_exec (Q_set_index idx) q = Inr (set_index idx q)"
| "queue_exec Q_increase q = Inr (increase_index q)"

fun queue_run :: "queue_cmd list \<Rightarrow> play_queue \<Rightarrow> go_panic + play_queue" where
  "queue_run [] q = Inr q"
| "queue_run (c # cs) q = (case queue_exec c q of Inl e \<Rightarrow> Inl e | Inr q' \<Rightarrow> queue_run cs q')"

lemma queue_set_ok [simp, step_keeps]: "queue_ok (queue_set items q)"
  and queue_clear_ok [simp, step_keeps]: "queue_ok (queue_clear q)"
  and set_index_ok [simp, step_keeps]: "queue_ok (set_index idx q)"
  by (auto simp: queue_ok_def queue_set_def queue_clear_def set_index_def queue_size_def)

lemma queue_add_ok [simp, step_keeps]: "queue_ok q \<Longrightarrow> queue_ok (queue_add items q)"
  by (auto simp: queue_ok_def queue_add_def queue_size_def Let_def)

lemma increase_index_ok [simp, step_keeps]: "queue_ok q \<Longrightarrow> queue_ok (increase_index q)"
  by (simp add: increase_index_def)

lemma queue_remove_ok [step_keeps]: "queue_remove idx q = Inr q' \<Longrightarrow> queue_ok q'"
  by (auto simp: queue_remove_def reindex_ok split: sum.splits if_splits)

lemma queue_shuffle_ok [step_keeps]: "queue_shuffle rand q = Inr q' \<Longrightarrow> queue_ok q'"
  by (auto simp: queue_shuffle_def reindex_ok split: sum.splits)

lemma new_queue_ok [simp]: "queue_ok new_queue"
  by (simp add: new_queue_def queue_ok_def)

lemma queue_exec_ok: "queue_ok q \<Longrightarrow> queue_exec c q = Inr q' \<Longrightarrow> queue_ok q'"
  by (cases c) (auto intro: step_keeps)

lemma queue_exec_panic:
  "queue_ok q \<Longrightarrow> queue_exec c q = Inl e \<Longrightarrow>
     \<exists>idx. c = Q_remove idx \<and> \<not> (0 \<le> idx \<and> idx < queue_size q)"
  by (cases c) (auto simp: queue_remove_def queue_shuffle_def dest!: current_ok split: if_splits)

section \<open>The properties of the queue\<close>

text \<open>
  Whatever commands are run on a new queue, the index stays -1 or a position of the queue
  (0 when the queue is empty), \<open>Current\<close> never panics, and the only panic there is is
  \<open>Remove\<close> with an index out of range, which the device never passes.
\<close>

lemma queue_run_ok:
  "case queue_run cs new_queue of
     Inr q \<Rightarrow> queue_ok q \<and> (\<exists>cur. current q = Inr cur)
   | Inl e \<Rightarrow> \<exists>done idx rest q. cs = done @ Q_remove idx # rest \<and> queue_run done new_queue = Inr q
       \<and> \<not> (0 \<le> idx \<and> idx < queue_size q)"
proof -
  have "case queue_run cs q of
     Inr q' \<Rightarrow> queue_ok q' \<and> (\<exists>cur. current q' = Inr cur)
   | Inl e \<Rightarrow> \<exists>done idx rest q'. cs = done @ Q_remove idx # rest \<and> queue_run done q = Inr q'
       \<and> \<not> (0 \<le> idx \<and> idx < queue_size q')" if "queue_ok q" for q
    using that
  proof (induction cs arbitrary: q)
    case Nil
    then show ?case using current_ok by simp
  next
    case (Cons c cs)
    show ?case
    proof (cases "queue_exec c q")
      case (Inl e)
      from queue_exec_panic [OF Cons.prems Inl] Inl show ?thesis
        by simp (metis append_Nil queue_run.simps(1))
    next
      case (Inr q')
      note ih = Cons.IH [OF queue_exec_ok [OF Cons.prems Inr]]
      show ?thesis
      proof (cases "queue_run cs q'")
        case (Inl e)
        with ih obtain d idx rest q'' where "cs = d @ Q_remove idx # rest"
          "queue_run d q' = Inr q''" "\<not> (0 \<le> idx \<and> idx < queue_size q'')" by auto
        then show ?thesis using Inr Inl
          by simp (metis (no_types, lifting) append_Cons queue_run.simps(2) sum.case(2))
      next
        case (Inr q'')
        with ih \<open>queue_exec c q = Inr q'\<close> show ?thesis by simp
      qed
    qed
  qed
  then show ?thesis by simp
qed

text \<open>
  Shuffling permutes the queue and the index follows the current track: the track at the new
  index has the ID of the one that was current, and is that very track when no two tracks of the
  queue share an ID.
\<close>

lemma queue_shuffle_follows:
  assumes "current q = Inr (Some mf)"
  shows "\<exists>q' mf'. queue_shuffle rand q = Inr q' \<and> mset (pq_items q') = mset (pq_items q)
     \<and> current q' = Inr (Some mf') \<and> mf_id mf' = mf_id mf
     \<and> (inj_on mf_id (set (pq_items q)) \<longrightarrow> mf' = mf)"
proof -
  let ?q = "q\<lparr>pq_items := rand_shuffle rand (pq_items q)\<rparr>"
  have m: "mf \<in> set (pq_items q)" using current_SomeD [OF assms] by blast
  then have "mf_id mf \<in> mf_id ` set (pq_items ?q)" by simp
  from current_reindex [OF this] obtain mf' where
    "current (reindex (mf_id mf) ?q) = Inr (Some mf')" "mf_id mf' = mf_id mf" "mf' \<in> set (pq_items q)"
    by auto
  with m assms show ?thesis
    by (auto simp: queue_shuffle_def backup_id_def inj_on_def)
qed

definition demo_track :: "string \<Rightarrow> media_file" where
  "demo_track i =
     \<lparr>mf_id = i, mf_path = i @ ''.mp3'', mf_title = i, mf_artist = ''a'', mf_album_id = ''al1'',
      mf_album_artist_id = ''ar1'', mf_artist_ids = [''ar1''], mf_suffix = ''mp3'', mf_codec = '''',
      mf_bit_rate = 320, mf_sample_rate = 44100, mf_bit_depth = 0, mf_channels = 2,
      mf_probe_data = '''', mf_size = 1000, mf_duration = 200, mf_updated_at = 1700000000000000000\<rparr>"

definition demo_queue :: play_queue where
  "demo_queue = \<lparr>pq_index = 1, pq_items = [demo_track ''a'', demo_track ''b'', demo_track ''c'']\<rparr>"

lemma demo_queue_current: "current demo_queue = Inr (Some (demo_track ''b''))"
  by (simp add: current_def demo_queue_def queue_size_def)

lemma queue_shuffle_follows_witness:
  "\<exists>q'. queue_shuffle (\<lambda>_. 0) demo_queue = Inr q' \<and> current q' = Inr (Some (demo_track ''b''))"
proof -
  have "inj_on mf_id (set (pq_items demo_queue))"
    by (simp add: demo_queue_def demo_track_def inj_on_def)
  then show ?thesis using queue_shuffle_follows [OF demo_queue_current] by blast
qed

lemma queue_remove_index:
  assumes "current q = Inr (Some mf)" "distinct (map mf_id (pq_items q))" "0 \<le> idx" "idx < queue_size q"
  shows "\<exists>q'. queue_remove idx q = Inr q'
     \<and> pq_items q' = take (nat idx) (pq_items q) @ drop (nat idx + 1) (pq_items q)
     \<and> (if idx = pq_index q then pq_index q' = -1 else current q' = Inr (Some mf))"
proof -
  let ?items = "pq_items q" and ?rest = "take (nat idx) (pq_items q) @ drop (nat idx + 1) (pq_items q)"
  have n: "nat idx < length ?items" using assms(3,4) by (simp add: queue_size_def)
  have cur: "0 \<le> pq_index q" "nat (pq_index q) < length ?items" "mf = ?items ! nat (pq_index q)"
    using current_SomeD [OF assms(1)] by (auto simp: queue_size_def)
  have split: "?items = take (nat idx) ?items @ ?items ! nat idx # drop (nat idx + 1) ?items"
    using id_take_nth_drop [OF n] by simp
  have d: "distinct (map mf_id (take (nat idx) ?items) @ mf_id (?items ! nat idx)
      # map mf_id (drop (nat idx + 1) ?items))"
    using assms(2) by (subst (asm) split) simp
  have r: "queue_remove idx q = Inr (reindex (mf_id mf) (q\<lparr>pq_items := ?rest\<rparr>))"
    using assms by (simp add: queue_remove_def backup_id_def)
  show ?thesis
  proof (cases "idx = pq_index q")
    case True
    then have "mf_id mf \<notin> mf_id ` set ?rest" using d cur by auto
    with True r show ?thesis by (simp add: reindex_missing)
  next
    case False
    have "mf \<noteq> ?items ! nat idx"
      using assms(2,3) cur n False by (metis distinct_map int_nat_eq nat_eq_iff2 nth_eq_iff_index_eq)
    moreover have "mf \<in> set ?items" using cur by simp
    ultimately have m: "mf \<in> set ?rest" by (subst (asm) split) auto
    then have "mf_id mf \<in> mf_id ` set (pq_items (q\<lparr>pq_items := ?rest\<rparr>))" by simp
    from current_reindex [OF this] obtain mf' where
      "current (reindex (mf_id mf) (q\<lparr>pq_items := ?rest\<rparr>)) = Inr (Some mf')"
      "mf_id mf' = mf_id mf" "mf' \<in> set ?rest" by auto
    moreover have "inj_on mf_id (set ?rest)" using d by (auto simp: distinct_map inj_on_Un)
    ultimately have "current (reindex (mf_id mf) (q\<lparr>pq_items := ?rest\<rparr>)) = Inr (Some mf)"
      using m by (simp add: inj_on_eq_iff)
    with False r show ?thesis by simp
  qed
qed

text \<open>
  Removing a track: with distinct IDs, the index still points at the current track if another
  one was removed, and is -1 if it was the current one itself; the other tracks keep their order.
\<close>

lemma queue_remove_follows:
  assumes "current q = Inr (Some mf)" "distinct (map mf_id (pq_items q))" "0 \<le> idx" "idx < queue_size q"
  shows "\<exists>q'. queue_remove idx q = Inr q'
     \<and> pq_items q' = take (nat idx) (pq_items q) @ drop (nat idx + 1) (pq_items q)
     \<and> (if idx = pq_index q then pq_index q' = -1 else current q' = Inr (Some mf))"
  by (rule queue_remove_index [OF assms])

lemma queue_remove_follows_witness:
  "\<exists>q'. queue_remove 0 demo_queue = Inr q' \<and> current q' = Inr (Some (demo_track ''b''))"
proof -
  have "distinct (map mf_id (pq_items demo_queue))"
    "0 < queue_size demo_queue" "pq_index demo_queue = 1"
    by (simp_all add: demo_queue_def demo_track_def queue_size_def)
  then show ?thesis using queue_remove_follows [OF demo_queue_current, of 0] by auto
qed

end
