(* ===== verification/PlaybackDevice.thy ===== *)
theory PlaybackDevice
  imports PlayQueue
begin

text \<open>
  The jukebox device (\<open>core/playback/device.go\<close>). The \<open>Track\<close> interface is a record of its
  methods over a track state, \<open>'t\<close>, with the constructor that the device calls; \<open>track_contract\<close>
  states what the device may expect of it, and the theory \<open>MpvTrack\<close> provides it. A method of the
  device returns the new device and a status or an error. The handlers and the track switcher run
  without a lock; a command here is one step, the event \<open>Track_done\<close> is one round of the switcher.
\<close>

section \<open>The state\<close>

record 't track_ops =
  tk_is_playing :: "'t \<Rightarrow> bool"
  tk_set_volume :: "rat \<Rightarrow> 't \<Rightarrow> 't"
  tk_pause :: "'t \<Rightarrow> 't"
  tk_unpause :: "'t \<Rightarrow> 't"
  tk_position :: "'t \<Rightarrow> int"
  tk_set_position :: "int \<Rightarrow> 't \<Rightarrow> string option \<times> 't"
  tk_close :: "'t \<Rightarrow> 't"
  tk_new_track :: "string \<Rightarrow> media_file \<Rightarrow> string + 't"

record 't playback_device =
  pd_default :: bool
  pd_user :: string
  pd_name :: string
  pd_device_name :: string
  pd_queue :: play_queue
  pd_gain :: rat
  pd_active :: "'t option"
  pd_switcher_started :: bool

record device_status =
  ds_current_index :: int
  ds_playing :: bool
  ds_gain :: rat
  ds_position :: int

datatype device_error = Dev_error string | Dev_panic go_panic

type_synonym 't device_result = "'t playback_device \<times> (device_error + device_status)"

definition default_gain :: rat where "default_gain = 1"

definition new_playback_device :: "string \<Rightarrow> string \<Rightarrow> 't playback_device" where
  "new_playback_device name device_name =
     \<lparr>pd_default = False, pd_user = '''', pd_name = name, pd_device_name = device_name,
      pd_queue = new_queue, pd_gain = default_gain, pd_active = None, pd_switcher_started = False\<rparr>"

section \<open>The methods\<close>

definition is_playing :: "'t track_ops \<Rightarrow> 't playback_device \<Rightarrow> bool" where
  "is_playing trk pd = (case pd_active pd of Some t \<Rightarrow> tk_is_playing trk t | None \<Rightarrow> False)"

definition get_status :: "'t track_ops \<Rightarrow> 't playback_device \<Rightarrow> device_status" where
  "get_status trk pd =
     \<lparr>ds_current_index = pq_index (pd_queue pd), ds_playing = is_playing trk pd, ds_gain = pd_gain pd,
      ds_position = (case pd_active pd of Some t \<Rightarrow> tk_position trk t | None \<Rightarrow> 0)\<rparr>"

definition dev_ok_result :: "'t track_ops \<Rightarrow> 't playback_device \<Rightarrow> 't device_result" where
  "dev_ok_result trk pd = (pd, Inr (get_status trk pd))"

definition update_queue :: "(play_queue \<Rightarrow> play_queue) \<Rightarrow> 't playback_device \<Rightarrow> 't playback_device" where
  "update_queue f pd = pd\<lparr>pd_queue := f (pd_queue pd)\<rparr>"

definition update_active :: "('t \<Rightarrow> 't) \<Rightarrow> 't playback_device \<Rightarrow> 't playback_device" where
  "update_active f pd = pd\<lparr>pd_active := map_option f (pd_active pd)\<rparr>"

definition switch_active_track_by_index ::
  "'t track_ops \<Rightarrow> int \<Rightarrow> 't playback_device \<Rightarrow> 't playback_device \<times> device_error option" where
  "switch_active_track_by_index trk index pd =
     (let pd1 = update_queue (set_index index) pd in
      case current (pd_queue pd1) of
        Inl e \<Rightarrow> (pd1, Some (Dev_panic e))
      | Inr None \<Rightarrow> (pd1, Some (Dev_error ''could not get current track''))
      | Inr (Some mf) \<Rightarrow>
          (case tk_new_track trk (pd_device_name pd1) mf of
             Inl e \<Rightarrow> (pd1, Some (Dev_error e))
           | Inr t \<Rightarrow> (pd1\<lparr>pd_active := Some (tk_set_volume trk (pd_gain pd1) t)\<rparr>, None)))"

definition dev_start :: "'t track_ops \<Rightarrow> 't playback_device \<Rightarrow> 't device_result" where
  "dev_start trk pd0 =
     (let pd = pd0\<lparr>pd_switcher_started := True\<rparr> in
      case pd_active pd of
        Some t \<Rightarrow>
          dev_ok_result trk (if is_playing trk pd then pd else update_active (tk_unpause trk) pd)
      | None \<Rightarrow>
          if \<not> queue_is_empty (pd_queue pd) then
            (case switch_active_track_by_index trk (pq_index (pd_queue pd)) pd of
               (pd', Some e) \<Rightarrow> (pd', Inl e)
             | (pd', None) \<Rightarrow> dev_ok_result trk (update_active (tk_unpause trk) pd'))
          else dev_ok_result trk pd)"

definition dev_stop :: "'t track_ops \<Rightarrow> 't playback_device \<Rightarrow> 't device_result" where
  "dev_stop trk pd = dev_ok_result trk (update_active (tk_pause trk) pd)"

definition dev_skip :: "'t track_ops \<Rightarrow> int \<Rightarrow> int \<Rightarrow> 't playback_device \<Rightarrow> 't device_result" where
  "dev_skip trk index offset pd =
     (let was_playing = is_playing trk pd;
          pd1 = (if was_playing then update_active (tk_pause trk) pd else pd);
          pd2 = (if index \<noteq> pq_index (pd_queue pd1) then pd1\<lparr>pd_active := None\<rparr> else pd1);
          (pd3, err) = (if pd_active pd2 = None then switch_active_track_by_index trk index pd2
                        else (pd2, None))
      in case err of
           Some e \<Rightarrow> (pd3, Inl e)
         | None \<Rightarrow>
             (case pd_active pd3 of
                None \<Rightarrow> (pd3, Inl (Dev_panic Nil_pointer))
              | Some t \<Rightarrow>
                  (let (perr, t') = tk_set_position trk offset t; pd4 = pd3\<lparr>pd_active := Some t'\<rparr>
                   in case perr of
                        Some e \<Rightarrow> (pd4, Inl (Dev_error e))
                      | None \<Rightarrow>
                          if was_playing then
                            (case dev_start trk pd4 of
                               (pd5, Inl e) \<Rightarrow> (pd5, Inl e)
                             | (pd5, Inr _) \<Rightarrow> dev_ok_result trk pd5)
                          else dev_ok_result trk pd4)))"

text \<open>
  In \<open>Skip\<close> the closed track is dropped, so what \<open>Close\<close> does to it is not seen by the device;
  the branch without an active track after a switch that succeeded (a nil pointer in Go) is not
  reached. The lookup of \<open>Add\<close> stops at the first error.
\<close>

fun lookup_all :: "(string \<Rightarrow> string + media_file) \<Rightarrow> string list \<Rightarrow> string + media_file list" where
  "lookup_all get [] = Inr []"
| "lookup_all get (i # is) =
     (case get i of
        Inl e \<Rightarrow> Inl e
      | Inr mf \<Rightarrow> (case lookup_all get is of Inl e \<Rightarrow> Inl e | Inr mfs \<Rightarrow> Inr (mf # mfs)))"

definition dev_add ::
  "'t track_ops \<Rightarrow> (string \<Rightarrow> string + media_file) \<Rightarrow> string list \<Rightarrow> 't playback_device
   \<Rightarrow> 't device_result" where
  "dev_add trk get ids pd =
     (if length ids < 1 then dev_ok_result trk pd
      else case lookup_all get ids of
             Inl e \<Rightarrow> (pd, Inl (Dev_error e))
           | Inr items \<Rightarrow> dev_ok_result trk (update_queue (queue_add items) pd))"

definition dev_clear :: "'t track_ops \<Rightarrow> 't playback_device \<Rightarrow> 't device_result" where
  "dev_clear trk pd = dev_ok_result trk (update_queue queue_clear (pd\<lparr>pd_active := None\<rparr>))"

definition dev_set ::
  "'t track_ops \<Rightarrow> (string \<Rightarrow> string + media_file) \<Rightarrow> string list \<Rightarrow> 't playback_device
   \<Rightarrow> 't device_result" where
  "dev_set trk get ids pd =
     (case dev_clear trk pd of
        (pd', Inl e) \<Rightarrow> (pd', Inl e)
      | (pd', Inr _) \<Rightarrow> dev_add trk get ids pd')"

definition dev_remove :: "'t track_ops \<Rightarrow> int \<Rightarrow> 't playback_device \<Rightarrow> 't device_result" where
  "dev_remove trk index pd =
     (let (pd1, r) = (if is_playing trk pd \<and> pq_index (pd_queue pd) = index then dev_stop trk pd
                      else dev_ok_result trk pd)
      in case r of
           Inl e \<Rightarrow> (pd1, Inl e)
         | Inr _ \<Rightarrow>
             if index > -1 \<and> index < queue_size (pd_queue pd1) then
               (case queue_remove index (pd_queue pd1) of
                  Inl e \<Rightarrow> (pd1, Inl (Dev_panic e))
                | Inr q \<Rightarrow> dev_ok_result trk (pd1\<lparr>pd_queue := q\<rparr>))
             else dev_ok_result trk pd1)"

definition dev_shuffle :: "'t track_ops \<Rightarrow> (nat \<Rightarrow> nat) \<Rightarrow> 't playback_device \<Rightarrow> 't device_result" where
  "dev_shuffle trk rand pd =
     (if queue_size (pd_queue pd) > 1 then
        (case queue_shuffle rand (pd_queue pd) of
           Inl e \<Rightarrow> (pd, Inl (Dev_panic e))
         | Inr q \<Rightarrow> dev_ok_result trk (pd\<lparr>pd_queue := q\<rparr>))
      else dev_ok_result trk pd)"

definition dev_set_gain :: "'t track_ops \<Rightarrow> rat \<Rightarrow> 't playback_device \<Rightarrow> 't device_result" where
  "dev_set_gain trk gain pd =
     dev_ok_result trk ((update_active (tk_set_volume trk gain) pd)\<lparr>pd_gain := gain\<rparr>)"

text \<open>One round of \<open>trackSwitcherGoroutine\<close> on a value from \<open>PlaybackDone\<close>; errors are logged.\<close>

definition track_done :: "'t track_ops \<Rightarrow> 't playback_device \<Rightarrow> 't playback_device" where
  "track_done trk pd0 =
     (let pd = pd0\<lparr>pd_active := None\<rparr> in
      if \<not> is_at_last_element (pd_queue pd) then
        (let pd1 = update_queue increase_index pd;
             (pd2, err) = switch_active_track_by_index trk (pq_index (pd_queue pd1)) pd1
         in update_active (tk_unpause trk) pd2)
      else pd)"

datatype device_cmd =
    Dev_get
  | Dev_status
  | Dev_set "string list"
  | Dev_start
  | Dev_stop
  | Dev_skip int int
  | Dev_add "string list"
  | Dev_clear
  | Dev_remove int
  | Dev_shuffle "nat \<Rightarrow> nat"
  | Dev_set_gain rat
  | Track_done

fun dev_exec ::
  "'t track_ops \<Rightarrow> (string \<Rightarrow> string + media_file) \<Rightarrow> device_cmd \<Rightarrow> 't playback_device
   \<Rightarrow> 't device_result" where
  "dev_exec trk get Dev_get pd = dev_ok_result trk pd"
| "dev_exec trk get Dev_status pd = dev_ok_result trk pd"
| "dev_exec trk get (Dev_set ids) pd = dev_set trk get ids pd"
| "dev_exec trk get Dev_start pd = dev_start trk pd"
| "dev_exec trk get Dev_stop pd = dev_stop trk pd"
| "dev_exec trk get (Dev_skip index offset) pd = dev_skip trk index offset pd"
| "dev_exec trk get (Dev_add ids) pd = dev_add trk get ids pd"
| "dev_exec trk get Dev_clear pd = dev_clear trk pd"
| "dev_exec trk get (Dev_remove index) pd = dev_remove trk index pd"
| "dev_exec trk get (Dev_shuffle rand) pd = dev_shuffle trk rand pd"
| "dev_exec trk get (Dev_set_gain gain) pd = dev_set_gain trk gain pd"
| "dev_exec trk get Track_done pd = dev_ok_result trk (track_done trk pd)"

text \<open>The steps of a device: the switcher only runs once \<open>Start\<close> has been called.\<close>

inductive dev_step ::
  "'t track_ops \<Rightarrow> (string \<Rightarrow> string + media_file) \<Rightarrow> 't playback_device
   \<Rightarrow> (device_error + device_status) \<Rightarrow> 't playback_device \<Rightarrow> bool"
  for trk get where
  command: "c \<noteq> Track_done \<Longrightarrow> dev_exec trk get c pd = (pd', r) \<Longrightarrow> dev_step trk get pd r pd'"
| switcher: "pd_switcher_started pd \<Longrightarrow> dev_exec trk get Track_done pd = (pd', r) \<Longrightarrow>
    dev_step trk get pd r pd'"

inductive dev_reachable ::
  "'t track_ops \<Rightarrow> (string \<Rightarrow> string + media_file) \<Rightarrow> 't playback_device \<Rightarrow> bool"
  for trk get where
  init: "dev_reachable trk get (new_playback_device name device_name)"
| step: "dev_reachable trk get pd \<Longrightarrow> dev_step trk get pd r pd' \<Longrightarrow> dev_reachable trk get pd'"

inductive_cases dev_stepE: "dev_step trk get pd r pd'"

section \<open>What the methods do to the queue\<close>

definition no_panic :: "(device_error + 'b) \<Rightarrow> bool" where
  "no_panic r \<longleftrightarrow> (\<forall>p. r \<noteq> Inl (Dev_panic p))"

lemma no_panic_simps [simp]: "no_panic (Inr x)" "no_panic (Inl (Dev_error e))"
  by (simp_all add: no_panic_def)

definition device_ok :: "'t playback_device \<Rightarrow> bool" where
  "device_ok pd \<longleftrightarrow> queue_ok (pd_queue pd)"

lemma update_queue_sel [simp]:
  "pd_queue (update_queue f pd) = f (pd_queue pd)" "pd_active (update_queue f pd) = pd_active pd"
  "pd_gain (update_queue f pd) = pd_gain pd" "pd_device_name (update_queue f pd) = pd_device_name pd"
  by (simp_all add: update_queue_def)

lemma update_active_sel [simp]:
  "pd_queue (update_active g pd) = pd_queue pd"
  "pd_active (update_active g pd) = map_option g (pd_active pd)"
  "pd_gain (update_active g pd) = pd_gain pd" "pd_device_name (update_active g pd) = pd_device_name pd"
  by (simp_all add: update_active_def)

lemma dev_ok_result_sel [simp]:
  "fst (dev_ok_result trk pd) = pd" "snd (dev_ok_result trk pd) = Inr (get_status trk pd)"
  "dev_ok_result trk pd = (pd', r) \<longleftrightarrow> pd' = pd \<and> r = Inr (get_status trk pd)"
  by (auto simp: dev_ok_result_def)

lemma switch_queue:
  assumes "switch_active_track_by_index trk i pd = (pd', err)"
  shows "pd_queue pd' = set_index i (pd_queue pd)" and "pd_gain pd' = pd_gain pd"
    and "pd_device_name pd' = pd_device_name pd"
    and "\<forall>p. err \<noteq> Some (Dev_panic p)" and "err = None \<Longrightarrow> pd_active pd' \<noteq> None"
  using assms current_ok [of "set_index i (pd_queue pd)"]
  by (auto simp: switch_active_track_by_index_def Let_def split: sum.splits option.splits)

lemma dev_start_queue:
  assumes "dev_start trk pd = (pd', r)" "device_ok pd"
  shows "device_ok pd'" "no_panic r"
  using assms switch_queue [of trk "pq_index (pd_queue pd)" "pd\<lparr>pd_switcher_started := True\<rparr>"]
  by (auto simp: dev_start_def device_ok_def no_panic_def Let_def
      split: option.splits if_splits prod.splits)

lemma dev_skip_queue:
  assumes "dev_skip trk index offset pd = (pd', r)" "device_ok pd"
  shows "device_ok pd' \<and> no_panic r"
proof -
  obtain pd2 where pd2: "pd2 = (let pd1 = (if is_playing trk pd then update_active (tk_pause trk) pd else pd)
      in if index \<noteq> pq_index (pd_queue pd1) then pd1\<lparr>pd_active := None\<rparr> else pd1)" by blast
  have ok2: "device_ok pd2" using assms(2) by (simp add: pd2 device_ok_def Let_def)
  obtain pd3 err where sw: "(if pd_active pd2 = None then switch_active_track_by_index trk index pd2
      else (pd2, None)) = (pd3, err)" by fastforce
  have ok3: "device_ok pd3" "\<forall>p. err \<noteq> Some (Dev_panic p)" "err = None \<longrightarrow> pd_active pd3 \<noteq> None"
    using sw ok2 switch_queue [of trk index pd2 pd3 err] by (auto simp: device_ok_def split: if_splits)
  show ?thesis
  proof (cases err)
    case (Some e)
    then show ?thesis using assms(1) sw ok3 pd2 by (auto simp: dev_skip_def no_panic_def Let_def)
  next
    case None
    with ok3 obtain t where t: "pd_active pd3 = Some t" by auto
    obtain perr t' where s: "tk_set_position trk offset t = (perr, t')" by fastforce
    have ok4: "device_ok (pd3\<lparr>pd_active := Some t'\<rparr>)" using ok3(1) by (simp add: device_ok_def)
    then show ?thesis
      using assms(1) sw None t s pd2 dev_start_queue [of trk "pd3\<lparr>pd_active := Some t'\<rparr>"]
      by (auto simp: dev_skip_def Let_def no_panic_def split: option.splits if_splits prod.splits sum.splits)
  qed
qed

lemma dev_add_queue:
  "dev_add trk get ids pd = (pd', r) \<Longrightarrow> device_ok pd \<Longrightarrow> device_ok pd' \<and> no_panic r"
  by (auto simp: dev_add_def device_ok_def split: if_splits sum.splits)

lemma dev_set_queue:
  "dev_set trk get ids pd = (pd', r) \<Longrightarrow> device_ok pd' \<and> no_panic r"
  by (auto simp: dev_set_def dev_clear_def dev_ok_result_def device_ok_def
      dest!: dev_add_queue intro: dev_add_queue)

lemma dev_remove_queue:
  assumes "dev_remove trk index pd = (pd', r)" "device_ok pd"
  shows "device_ok pd' \<and> no_panic r"
proof -
  have q: "\<exists>q'. queue_remove index (pd_queue pd) = Inr q' \<and> queue_ok q'"
    if "0 \<le> index" "index < queue_size (pd_queue pd)"
    using queue_remove_in_range [of "pd_queue pd" index] that assms(2) reindex_ok
    by (metis device_ok_def)
  then show ?thesis using assms
    by (auto simp: dev_remove_def dev_stop_def dev_ok_result_def device_ok_def
        split: if_splits sum.splits)
qed

lemma dev_shuffle_queue:
  "dev_shuffle trk rand pd = (pd', r) \<Longrightarrow> device_ok pd \<Longrightarrow> device_ok pd' \<and> no_panic r"
  using current_ok [of "pd_queue pd"]
  by (auto simp: dev_shuffle_def device_ok_def queue_shuffle_def reindex_ok split: if_splits)

lemma track_done_queue: "device_ok pd \<Longrightarrow> device_ok (track_done trk pd)"
  by (auto simp: track_done_def device_ok_def Let_def dest: switch_queue split: prod.splits)

lemma dev_exec_queue:
  assumes "dev_exec trk get c pd = (pd', r)" "device_ok pd"
  shows "device_ok pd' \<and> no_panic r"
  using assms
  by (cases c)
    (auto simp: dev_stop_def dev_clear_def dev_set_gain_def dest: dev_start_queue dev_skip_queue
      dev_add_queue dev_set_queue dev_remove_queue dev_shuffle_queue intro: track_done_queue,
     auto simp: device_ok_def)

lemma dev_step_queue:
  assumes "dev_step trk get pd r pd'" "device_ok pd"
  shows "device_ok pd' \<and> no_panic r"
  using assms by (elim dev_stepE) (auto dest: dev_exec_queue intro: track_done_queue)

lemma dev_reachable_ok: "dev_reachable trk get pd \<Longrightarrow> device_ok pd"
proof (induction rule: dev_reachable.induct)
  case (init name device_name)
  show ?case by (simp add: device_ok_def new_playback_device_def)
next
  case (step pd r pd')
  then show ?case by (blast dest: dev_step_queue)
qed


section \<open>The contract of a track\<close>

text \<open>
  What the device expects of a track whose player is still there (\<open>alive\<close>): it plays after
  \<open>Unpause\<close>, not after \<open>Pause\<close>, and volume and position do not change whether it plays.
\<close>

locale track_contract =
  fixes trk :: "'t track_ops" and alive :: "'t \<Rightarrow> bool"
  assumes new_alive: "tk_new_track trk device_name mf = Inr t \<Longrightarrow> alive t"
    and pause: "alive t \<Longrightarrow> alive (tk_pause trk t) \<and> \<not> tk_is_playing trk (tk_pause trk t)"
    and unpause: "alive t \<Longrightarrow> alive (tk_unpause trk t) \<and> tk_is_playing trk (tk_unpause trk t)"
    and volume: "alive t \<Longrightarrow> alive (tk_set_volume trk v t)
        \<and> tk_is_playing trk (tk_set_volume trk v t) = tk_is_playing trk t"
    and seek: "alive t \<Longrightarrow> alive (snd (tk_set_position trk off t))
        \<and> tk_is_playing trk (snd (tk_set_position trk off t)) = tk_is_playing trk t"
begin

definition active_alive :: "'t playback_device \<Rightarrow> bool" where
  "active_alive pd \<longleftrightarrow> (\<forall>t. pd_active pd = Some t \<longrightarrow> alive t)"

lemma switch_alive:
  "switch_active_track_by_index trk i pd = (pd', err) \<Longrightarrow> active_alive pd \<Longrightarrow> active_alive pd'"
  by (auto simp: switch_active_track_by_index_def active_alive_def Let_def volume new_alive
      split: sum.splits option.splits)

lemma start_plays:
  assumes "dev_start trk pd = (pd', Inr st)" "active_alive pd"
  shows "active_alive pd' \<and> ds_playing st = is_playing trk pd'
    \<and> (is_playing trk pd' \<longleftrightarrow> pd_active pd \<noteq> None \<or> \<not> queue_is_empty (pd_queue pd))"
proof -
  let ?pd = "pd\<lparr>pd_switcher_started := True\<rparr>"
  have a: "active_alive ?pd" using assms(2) by (simp add: active_alive_def)
  have sw: "active_alive pd1 \<and> (err = None \<longrightarrow> pd_active pd1 \<noteq> None)"
    if "switch_active_track_by_index trk (pq_index (pd_queue pd)) ?pd = (pd1, err)" for pd1 err
    using switch_alive [OF that a] switch_queue(5) [OF that] by blast
  from assms a show ?thesis
    by (auto simp: dev_start_def Let_def dev_ok_result_def get_status_def is_playing_def
        active_alive_def unpause dest!: sw split: option.splits if_splits prod.splits)
qed

lemma stop_stops:
  "active_alive pd \<Longrightarrow> dev_stop trk pd = (pd', r) \<Longrightarrow>
     active_alive pd' \<and> \<not> is_playing trk pd' \<and> pd_queue pd' = pd_queue pd"
  by (auto simp: dev_stop_def active_alive_def is_playing_def pause split: option.splits)

text \<open>Removing the running track leaves it loaded; starting again resumes it.\<close>

lemma removed_track_resumes:
  assumes "pd_active pd = Some t" "active_alive pd" "is_playing trk pd"
    "dev_remove trk (pq_index (pd_queue pd)) pd = (pd1, r)"
  shows "\<not> is_playing trk pd1 \<and> pd_active pd1 = Some (tk_pause trk t)
    \<and> pd_active (fst (dev_start trk pd1)) = Some (tk_unpause trk (tk_pause trk t))
    \<and> is_playing trk (fst (dev_start trk pd1))"
proof -
  have t: "alive t" using assms(1,2) by (simp add: active_alive_def)
  have act: "pd_active pd1 = Some (tk_pause trk t)"
    using assms by (auto simp: dev_remove_def dev_stop_def dev_ok_result_def Let_def
        split: if_splits sum.splits)
  with t have np: "\<not> is_playing trk pd1" by (simp add: is_playing_def pause)
  then have "fst (dev_start trk pd1) = update_active (tk_unpause trk) (pd1\<lparr>pd_switcher_started := True\<rparr>)"
    using act by (simp add: dev_start_def Let_def is_playing_def)
  with act np t show ?thesis by (simp add: is_playing_def unpause pause)
qed

end

section \<open>Playing through the queue\<close>

text \<open>The devices reached by the switcher alone: \<open>k\<close> tracks in a row have come to their end.\<close>

fun tracks_done :: "'t track_ops \<Rightarrow> nat \<Rightarrow> 't playback_device \<Rightarrow> 't playback_device" where
  "tracks_done trk 0 pd = pd"
| "tracks_done trk (Suc k) pd = track_done trk (tracks_done trk k pd)"

lemma track_done_next:
  assumes "0 \<le> pq_index (pd_queue pd)" "pq_index (pd_queue pd) + 1 < queue_size (pd_queue pd)"
    "tk_new_track trk (pd_device_name pd)
       (pq_items (pd_queue pd) ! nat (pq_index (pd_queue pd) + 1)) = Inr t"
  shows "track_done trk pd = pd\<lparr>pd_queue := (pd_queue pd)\<lparr>pq_index := pq_index (pd_queue pd) + 1\<rparr>,
     pd_active := Some (tk_unpause trk (tk_set_volume trk (pd_gain pd) t))\<rparr>"
  using assms
  by (simp add: track_done_def Let_def is_at_last_element_def increase_index_def set_index_def
      update_queue_def update_active_def switch_active_track_by_index_def current_def queue_size_def)

lemma track_done_last:
  "queue_size (pd_queue pd) \<le> pq_index (pd_queue pd) + 1 \<Longrightarrow>
     track_done trk pd = pd\<lparr>pd_active := None\<rparr>"
  by (simp add: track_done_def is_at_last_element_def)

lemma tracks_done_frame:
  assumes "0 \<le> pq_index (pd_queue pd)" "pq_index (pd_queue pd) < queue_size (pd_queue pd)"
    "\<forall>mf \<in> set (pq_items (pd_queue pd)). tk_new_track trk (pd_device_name pd) mf = Inr (load mf)"
    "pq_index (pd_queue pd) + int k < queue_size (pd_queue pd)" "0 < k"
  shows "tracks_done trk k pd =
     pd\<lparr>pd_queue := (pd_queue pd)\<lparr>pq_index := pq_index (pd_queue pd) + int k\<rparr>,
        pd_active := Some (tk_unpause trk (tk_set_volume trk (pd_gain pd)
          (load (pq_items (pd_queue pd) ! nat (pq_index (pd_queue pd) + int k)))))\<rparr>"
  using assms(4,5)
proof (induction k)
  case 0
  then show ?case by simp
next
  case (Suc k)
  let ?i = "pq_index (pd_queue pd)" and ?items = "pq_items (pd_queue pd)"
  have "?items ! nat (?i + int k + 1) \<in> set ?items"
    using Suc.prems(1) assms(1) by (intro nth_mem) (simp add: queue_size_def)
  then have l: "tk_new_track trk (pd_device_name pd) (?items ! nat (?i + int k + 1))
      = Inr (load (?items ! nat (?i + int k + 1)))" using assms(3) by blast
  have cur: "\<exists>a. tracks_done trk k pd = pd\<lparr>pd_queue := (pd_queue pd)\<lparr>pq_index := ?i + int k\<rparr>, pd_active := a\<rparr>"
  proof (cases k)
    case 0
    then show ?thesis by (intro exI [of _ "pd_active pd"]) simp
  next
    case (Suc j)
    with Suc.IH Suc.prems show ?thesis by auto
  qed
  then obtain a where a: "tracks_done trk k pd
      = pd\<lparr>pd_queue := (pd_queue pd)\<lparr>pq_index := ?i + int k\<rparr>, pd_active := a\<rparr>" by blast
  let ?pd = "pd\<lparr>pd_queue := (pd_queue pd)\<lparr>pq_index := ?i + int k\<rparr>, pd_active := a\<rparr>"
  have j: "?i + int (Suc k) = ?i + int k + 1" by simp
  have "track_done trk ?pd = ?pd\<lparr>pd_queue := (pd_queue ?pd)\<lparr>pq_index := pq_index (pd_queue ?pd) + 1\<rparr>,
     pd_active := Some (tk_unpause trk (tk_set_volume trk (pd_gain ?pd)
       (load (?items ! nat (?i + int k + 1)))))\<rparr>"
    by (rule track_done_next) (use Suc.prems assms(1) l in \<open>simp_all add: queue_size_def\<close>)
  then show ?case unfolding j by (simp add: a)
qed

end
