(* ===== verification/GoStrings.thy ===== *)
theory GoStrings
  imports Prelude
begin

text \<open>
  The functions of Go's \<open>strings\<close> package that the command lines and the parsers use, over byte
  strings, and the shell splitting of \<open>utils/shellquote/shellquote.go\<close> with the theorem that it
  undoes quoting.
\<close>

section \<open>Searching and replacing\<close>

fun contains_str :: "string \<Rightarrow> string \<Rightarrow> bool" where
  "contains_str [] sub \<longleftrightarrow> sub = []"
| "contains_str (c # s) sub \<longleftrightarrow> has_prefix (c # s) sub \<or> contains_str s sub"

text \<open>\<open>strings.ReplaceAll\<close>; every caller passes a pattern that is not empty.\<close>

function replace_all :: "string \<Rightarrow> string \<Rightarrow> string \<Rightarrow> string" where
  "replace_all old new s =
     (if old = [] then s
      else if has_prefix s old then new @ replace_all old new (drop (length old) s)
      else (case s of [] \<Rightarrow> [] | c # cs \<Rightarrow> c # replace_all old new cs))"
  by pat_completeness auto
termination
proof (relation "measure (\<lambda>(old, new, s). length s)", simp, goal_cases)
  case (1 old new s)
  then show ?case by (cases s) (auto simp: has_prefix_append)
next
  case (2 old new s c cs)
  then show ?case by simp
qed

declare replace_all.simps [simp del]

lemma replace_all_Nil [simp]: "replace_all old new [] = []"
  by (cases old) (simp_all add: replace_all.simps)

lemma contains_Nil [simp]: "contains_str s []"
  by (cases s) auto

lemma replace_all_absent: "\<not> contains_str s old \<Longrightarrow> replace_all old new s = s"
proof (induction s)
  case (Cons c s)
  then show ?case by (subst replace_all.simps) auto
qed simp

lemma replace_all_self [simp]: "old \<noteq> [] \<Longrightarrow> replace_all old new old = new"
  by (subst replace_all.simps) (simp add: has_prefix_append)

definition has_suffix :: "string \<Rightarrow> string \<Rightarrow> bool" where
  "has_suffix s suf \<longleftrightarrow> length suf \<le> length s \<and> drop (length s - length suf) s = suf"

lemma has_suffix_append: "has_suffix s suf \<longleftrightarrow> (\<exists>t. s = t @ suf)"
  unfolding has_suffix_def
  by (metis append_take_drop_id diff_add_inverse2 append_eq_conv_conj le_add2 length_append
      diff_diff_cancel diff_le_self)

section \<open>Fields\<close>

definition is_space :: "char \<Rightarrow> bool" where
  "is_space c \<longleftrightarrow> c \<in> {CHR '' '', CHR 0x09, CHR 0x0A, CHR 0x0B, CHR 0x0C, CHR 0x0D}"

text \<open>\<open>strings.Fields\<close>: the maximal runs without white space; \<open>word\<close> is the run being read.\<close>

fun str_fields_from :: "string \<Rightarrow> string \<Rightarrow> string list" where
  "str_fields_from word [] = (if word = [] then [] else [word])"
| "str_fields_from word (c # s) =
     (if is_space c then (if word = [] then str_fields_from [] s else word # str_fields_from [] s)
      else str_fields_from (word @ [c]) s)"

definition str_fields :: "string \<Rightarrow> string list" where
  "str_fields s = str_fields_from [] s"

lemma str_fields_from_no_space:
  "list_all (\<lambda>c. \<not> is_space c) word \<Longrightarrow> f \<in> set (str_fields_from word s) \<Longrightarrow>
     f \<noteq> [] \<and> list_all (\<lambda>c. \<not> is_space c) f"
proof (induction s arbitrary: word)
  case Nil
  then show ?case by (simp split: if_split_asm)
next
  case (Cons c s)
  show ?case
  proof (cases "is_space c")
    case True
    with Cons.prems have "f = word \<and> word \<noteq> [] \<or> f \<in> set (str_fields_from [] s)"
      by (simp split: if_split_asm)
    with Cons.IH [of "[]"] Cons.prems(1) show ?thesis by (elim disjE) simp_all
  next
    case False
    with Cons.prems show ?thesis by (intro Cons.IH [of "word @ [c]"]) simp_all
  qed
qed

lemma fields_no_space: "f \<in> set (str_fields s) \<Longrightarrow> f \<noteq> [] \<and> (\<forall>c \<in> set f. \<not> is_space c)"
  using str_fields_from_no_space [of "[]" f s] by (simp add: str_fields_def list_all_iff)

lemma fields_from_word:
  "\<forall>c \<in> set w. \<not> is_space c \<Longrightarrow> str_fields_from word (w @ CHR '' '' # s)
     = (if word @ w = [] then str_fields_from [] s else (word @ w) # str_fields_from [] s)"
  by (induction w arbitrary: word) (auto simp: is_space_def)

lemma fields_from_last:
  "\<forall>c \<in> set w. \<not> is_space c \<Longrightarrow> str_fields_from word w = (if word @ w = [] then [] else [word @ w])"
  by (induction w arbitrary: word) auto

lemma fields_join:
  "\<forall>w \<in> set ws. w \<noteq> [] \<and> (\<forall>c \<in> set w. \<not> is_space c) \<Longrightarrow> str_fields (join '' '' ws) = ws"
proof (induction ws rule: induct_list012)
  case (3 w v ws)
  then show ?case by (simp add: str_fields_def fields_from_word)
qed (simp_all add: str_fields_def fields_from_last)

section \<open>Trimming and splitting\<close>

text \<open>\<open>strings.TrimLeft\<close>, \<open>strings.TrimSpace\<close> and \<open>strings.Split\<close> for a one-byte separator.\<close>

definition trim_left :: "(char \<Rightarrow> bool) \<Rightarrow> string \<Rightarrow> string" where
  "trim_left P s = dropWhile P s"

definition trim_right :: "(char \<Rightarrow> bool) \<Rightarrow> string \<Rightarrow> string" where
  "trim_right P s = rev (dropWhile P (rev s))"

definition trim_space :: "string \<Rightarrow> string" where
  "trim_space s = trim_right is_space (trim_left is_space s)"

fun split_on :: "char \<Rightarrow> string \<Rightarrow> string list" where
  "split_on sep [] = [[]]"
| "split_on sep (c # s) =
     (if c = sep then [] # split_on sep s
      else (case split_on sep s of [] \<Rightarrow> [[c]] | w # ws \<Rightarrow> (c # w) # ws))"

lemma split_on_neq_Nil [simp]: "split_on sep s \<noteq> []"
  by (induction s) (auto split: list.split)

lemma trim_space_Nil [simp]: "trim_space [] = []"
  by (simp add: trim_space_def trim_left_def trim_right_def)

lemma trim_right_id: "s \<noteq> [] \<Longrightarrow> \<not> P (last s) \<Longrightarrow> trim_right P s = s"
  by (cases s rule: rev_cases) (simp_all add: trim_right_def)

lemma trim_right_last: "trim_right P s = [] \<or> \<not> P (last (trim_right P s))"
  using hd_dropWhile [of P "rev s"] by (fastforce simp: trim_right_def last_rev)

lemma trim_left_hd: "trim_left P s = [] \<or> \<not> P (hd (trim_left P s))"
  using hd_dropWhile [of P s] by (fastforce simp: trim_left_def)

lemma trim_right_prefix: "\<exists>t. s = trim_right P s @ t"
proof -
  have "s = rev (dropWhile P (rev s)) @ rev (takeWhile P (rev s))"
    by (metis rev_append rev_rev_ident takeWhile_dropWhile_id)
  then show ?thesis by (auto simp: trim_right_def)
qed

lemma trim_space_edges:
  "trim_space s = [] \<or> (\<not> is_space (hd (trim_space s)) \<and> \<not> is_space (last (trim_space s)))"
proof (cases "trim_space s")
  case (Cons c t)
  moreover obtain u where "trim_left is_space s = trim_space s @ u"
    using trim_right_prefix [of "trim_left is_space s" is_space] by (auto simp: trim_space_def)
  ultimately have "hd (trim_left is_space s) = c" "trim_left is_space s \<noteq> []" by auto
  then show ?thesis
    using trim_left_hd [of is_space s] trim_right_last [of is_space "trim_left is_space s"] Cons
    by (auto simp: trim_space_def)
qed simp

lemma trim_space_id: "\<not> is_space (hd s) \<Longrightarrow> \<not> is_space (last s) \<Longrightarrow> trim_space s = s"
  by (cases s) (simp_all add: trim_space_def trim_left_def trim_right_id trim_right_def [of _ "[]"])

lemma trim_space_idem [simp]: "trim_space (trim_space s) = trim_space s"
  using trim_space_edges [of s] trim_space_id [of "trim_space s"] by (cases "trim_space s") auto

section \<open>Shell words\<close>

datatype shell_state = State_unquoted | State_single_quoted | State_double_quoted

datatype shell_error =
    Err_unterminated_single_quote
  | Err_unterminated_double_quote
  | Err_unterminated_escape

definition bs :: char where "bs = CHR 0x5C"
definition sq :: char where "sq = CHR 0x27"
definition dq :: char where "dq = CHR 0x22"
definition nl :: char where "nl = CHR 0x0A"

lemmas shell_chars = bs_def sq_def dq_def nl_def

text \<open>
  The loop of \<open>Split\<close>: the state, the words so far, the word being read and whether one is, and
  the rest of the input.
\<close>

fun split_loop ::
  "shell_state \<Rightarrow> string list \<Rightarrow> string \<Rightarrow> bool \<Rightarrow> string \<Rightarrow> shell_error + string list" where
  "split_loop State_single_quoted words word in_word [] = Inl Err_unterminated_single_quote"
| "split_loop State_double_quoted words word in_word [] = Inl Err_unterminated_double_quote"
| "split_loop State_unquoted words word in_word [] =
     Inr (if in_word then words @ [word] else words)"
| "split_loop State_unquoted words word in_word (c # s) =
     (if c = bs then
        (case s of
           [] \<Rightarrow> Inl Err_unterminated_escape
         | d # s' \<Rightarrow>
             if d = nl then split_loop State_unquoted words word in_word s'
             else split_loop State_unquoted words (word @ [d]) True s')
      else if c = sq then split_loop State_single_quoted words word True s
      else if c = dq then split_loop State_double_quoted words word True s
      else if c = CHR '' '' \<or> c = CHR 0x09 \<or> c = nl then
        (if in_word then split_loop State_unquoted (words @ [word]) [] False s
         else split_loop State_unquoted words word in_word s)
      else split_loop State_unquoted words (word @ [c]) True s)"
| "split_loop State_single_quoted words word in_word (c # s) =
     (if c = sq then split_loop State_unquoted words word in_word s
      else split_loop State_single_quoted words (word @ [c]) in_word s)"
| "split_loop State_double_quoted words word in_word (c # s) =
     (if c = dq then split_loop State_unquoted words word in_word s
      else if c = bs then
        (case s of
           [] \<Rightarrow> Inl Err_unterminated_escape
         | d # s' \<Rightarrow>
             if d = CHR ''$'' \<or> d = CHR 0x60 \<or> d = dq \<or> d = nl \<or> d = bs then
               (if d = nl then split_loop State_double_quoted words word in_word s'
                else split_loop State_double_quoted words (word @ [d]) in_word s')
             else split_loop State_double_quoted words (word @ [c]) in_word s)
      else split_loop State_double_quoted words (word @ [c]) in_word s)"

definition shell_split :: "string \<Rightarrow> shell_error + string list" where
  "shell_split input = split_loop State_unquoted [] [] False input"

text \<open>
  The two usual ways to quote a word: between single quotes, where each single quote becomes a
  closing quote, an escaped quote and an opening one, and between double quotes, with a backslash
  before the characters that the quotes leave special.
\<close>

definition quote_single_char :: "char \<Rightarrow> string" where
  "quote_single_char c = (if c = sq then [sq, bs, sq, sq] else [c])"

definition quote_single :: "string \<Rightarrow> string" where
  "quote_single w = sq # concat (map quote_single_char w) @ [sq]"

definition quote_double_char :: "char \<Rightarrow> string" where
  "quote_double_char c = (if c = CHR ''$'' \<or> c = CHR 0x60 \<or> c = dq \<or> c = bs then [bs, c] else [c])"

definition quote_double :: "string \<Rightarrow> string" where
  "quote_double w = dq # concat (map quote_double_char w) @ [dq]"

lemma split_single_quoted:
  "split_loop State_single_quoted words word True (concat (map quote_single_char w) @ sq # s)
     = split_loop State_unquoted words (word @ w) True s"
  by (induction w arbitrary: word) (auto simp: quote_single_char_def shell_chars)

lemma split_double_quoted:
  "split_loop State_double_quoted words word True (concat (map quote_double_char w) @ dq # s)
     = split_loop State_unquoted words (word @ w) True s"
  by (induction w arbitrary: word) (auto simp: quote_double_char_def shell_chars)

lemma split_quote:
  assumes "q = quote_single \<or> q = quote_double"
  shows "split_loop State_unquoted words word in_word (q w @ s)
     = split_loop State_unquoted words (word @ w) True s"
  using assms
proof
  assume q: "q = quote_single"
  have "sq \<noteq> bs" by (simp add: shell_chars)
  then show ?thesis using split_single_quoted [of words word w s] by (simp add: q quote_single_def)
next
  assume q: "q = quote_double"
  have "dq \<noteq> bs" "dq \<noteq> sq" by (simp_all add: shell_chars)
  then show ?thesis using split_double_quoted [of words word w s] by (simp add: q quote_double_def)
qed

lemma split_space:
  "split_loop State_unquoted words word True (CHR '' '' # s)
     = split_loop State_unquoted (words @ [word]) [] False s"
  by (simp add: shell_chars)

lemma split_join:
  "\<forall>(q, w) \<in> set qws. q = quote_single \<or> q = quote_double \<Longrightarrow>
     split_loop State_unquoted words [] False (join '' '' (map (\<lambda>(q, w). q w) qws)) = Inr (words @ map snd qws)"
proof (induction qws arbitrary: words rule: induct_list012)
  case (2 qw)
  then show ?case using split_quote [of "fst qw" words "[]" False "snd qw" "[]"] by (cases qw) auto
next
  case (3 qw qw' qws)
  then show ?case
    using split_quote [of "fst qw" words "[]" False "snd qw"
        "'' '' @ join '' '' (map (\<lambda>(q, w). q w) (qw' # qws))"]
    by (cases qw) (auto simp: split_space simp del: split_loop.simps)
qed simp

text \<open>
  C31. Splitting undoes quoting: a command line made of words that are quoted, each in the single
  or in the double way, splits into exactly those words, whatever bytes they hold.
\<close>

theorem shell_split_quoted:
  assumes "\<forall>(q, w) \<in> set qws. q = quote_single \<or> q = quote_double"
  shows "shell_split (join '' '' (map (\<lambda>(q, w). q w) qws)) = Inr (map snd qws)"
  using split_join [OF assms, of "[]"] by (simp add: shell_split_def)

theorem shell_split_quoted_witness:
  "shell_split (join '' '' [quote_single ''it is'', quote_double ''5$'']) = Inr [''it is'', ''5$'']"
  using shell_split_quoted [of "[(quote_single, ''it is''), (quote_double, ''5$'')]"] by simp

section \<open>Splitting at the first separator\<close>

text \<open>\<open>strings.SplitN(s, sep, 2)\<close>: \<open>None\<close> when the separator does not occur.\<close>

fun split_first :: "char \<Rightarrow> string \<Rightarrow> (string \<times> string) option" where
  "split_first sep [] = None"
| "split_first sep (c # cs) =
     (if c = sep then Some ([], cs)
      else map_option (\<lambda>(a, b). (c # a, b)) (split_first sep cs))"

lemma split_first_absent: "c \<notin> set a \<Longrightarrow> split_first c (a @ c # b) = Some (a, b)"
  by (induction a) auto

lemma split_first_Some: "split_first c s = Some (a, b) \<longleftrightarrow> s = a @ c # b \<and> c \<notin> set a"
proof (induction s arbitrary: a)
  case (Cons x s)
  show ?case by (cases a) (auto simp: Cons.IH)
qed simp

end
