(* ===== verification/MpvTrack.thy ===== *)
theory MpvTrack
  imports PlaybackDevice GoStrings
begin

text \<open>
  The jukebox track on an mpv process (\<open>core/playback/mpv/track.go\<close>) and the command line that
  starts it (\<open>core/playback/mpv/mpv.go\<close>). The process and its IPC connection are parameters, the
  record \<open>mpv_lib\<close>: a reply may depend on the number of the attempt, since \<open>Position\<close> asks again
  when a property is unavailable. \<open>mpv_process\<close> states the documented behaviour of the
  \<open>pause\<close> property; with it the track fulfils the contract of the device.
\<close>

section \<open>The command line\<close>

definition fill_placeholders :: "string \<Rightarrow> string \<Rightarrow> string \<Rightarrow> string \<Rightarrow> string" where
  "fill_placeholders device_name filename socket_name arg =
     replace_all ''%s'' socket_name (replace_all ''%f'' filename (replace_all ''%d'' device_name arg))"

definition create_mpv_command ::
  "string \<Rightarrow> string + string \<Rightarrow> string \<Rightarrow> string \<Rightarrow> string \<Rightarrow> string list" where
  "create_mpv_command template cmd_path device_name filename socket_name =
     (case shell_split template of
        Inl e \<Rightarrow> []
      | Inr args0 \<Rightarrow>
          (let args = map (fill_placeholders device_name filename socket_name) args0
           in case args of
                [] \<Rightarrow> []
              | exe # rest \<Rightarrow>
                  (case cmd_path of
                     Inl e \<Rightarrow> args
                   | Inr path \<Rightarrow>
                       if exe = ''mpv'' \<or> exe = ''mpv.exe'' then path # rest else args)))"

section \<open>The track\<close>

datatype mpv_value = Mpv_bool bool | Mpv_int int | Mpv_float rat | Mpv_string string

record 'p mpv_lib =
  mpv_cmd_path :: "string + string"
  mpv_launch :: "string list \<Rightarrow> string + 'p"
  ipc_get :: "'p \<Rightarrow> string \<Rightarrow> nat \<Rightarrow> string + mpv_value"
  ipc_set :: "'p \<Rightarrow> string \<Rightarrow> mpv_value \<Rightarrow> string option \<times> 'p"
  ipc_quit :: "'p \<Rightarrow> string option \<times> 'p"
  exe_cancel :: "'p \<Rightarrow> 'p"
  socket_present :: "'p \<Rightarrow> bool"
  socket_remove :: "'p \<Rightarrow> 'p"
  float32_percent :: "rat \<Rightarrow> int"

record mpv_config =
  mpv_template :: string
  mpv_socket_name :: string
  mpv_absolute_path :: "media_file \<Rightarrow> string"

record 'p mpv_track =
  mt_file :: media_file
  mt_proc :: 'p
  mt_close_called :: bool

text \<open>
  \<open>mpv_launch\<close> is the start of the process up to the open connection: \<open>start\<close>,
  \<open>waitForSocket\<close> and \<open>conn.Open\<close>. \<open>float32_percent\<close> is the product of a \<open>float32\<close> with 100,
  cut to an integer.
\<close>

definition mpv_new_track ::
  "'p mpv_lib \<Rightarrow> mpv_config \<Rightarrow> string \<Rightarrow> media_file \<Rightarrow> string + 'p mpv_track" where
  "mpv_new_track lib cfg device_name mf =
     (case mpv_cmd_path lib of
        Inl e \<Rightarrow> Inl e
      | Inr _ \<Rightarrow>
          (let args = create_mpv_command (mpv_template cfg) (mpv_cmd_path lib) device_name
                        (mpv_absolute_path cfg mf) (mpv_socket_name cfg)
           in if length args = 0 then Inl ''no mpv command arguments provided''
              else case mpv_launch lib args of
                     Inl e \<Rightarrow> Inl e
                   | Inr p \<Rightarrow> Inr \<lparr>mt_file = mf, mt_proc = p, mt_close_called = False\<rparr>))"

definition mpv_set :: "'p mpv_lib \<Rightarrow> string \<Rightarrow> mpv_value \<Rightarrow> 'p mpv_track \<Rightarrow> 'p mpv_track" where
  "mpv_set lib k v t = t\<lparr>mt_proc := snd (ipc_set lib (mt_proc t) k v)\<rparr>"

definition mpv_set_volume :: "'p mpv_lib \<Rightarrow> rat \<Rightarrow> 'p mpv_track \<Rightarrow> 'p mpv_track" where
  "mpv_set_volume lib v t = mpv_set lib ''volume'' (Mpv_int (float32_percent lib v)) t"

definition mpv_unpause :: "'p mpv_lib \<Rightarrow> 'p mpv_track \<Rightarrow> 'p mpv_track" where
  "mpv_unpause lib t = mpv_set lib ''pause'' (Mpv_bool False) t"

definition mpv_pause :: "'p mpv_lib \<Rightarrow> 'p mpv_track \<Rightarrow> 'p mpv_track" where
  "mpv_pause lib t = mpv_set lib ''pause'' (Mpv_bool True) t"

definition mpv_close :: "'p mpv_lib \<Rightarrow> 'p mpv_track \<Rightarrow> 'p mpv_track" where
  "mpv_close lib t0 =
     (let t = t0\<lparr>mt_close_called := True\<rparr>;
          p1 = (if socket_present lib (mt_proc t) then
                  (case ipc_quit lib (mt_proc t) of
                     (Some e, p) \<Rightarrow> exe_cancel lib p
                   | (None, p) \<Rightarrow> p)
                else mt_proc t);
          p2 = (if socket_present lib p1 then socket_remove lib p1 else p1)
      in t\<lparr>mt_proc := p2\<rparr>)"

definition property_unavailable :: string where
  "property_unavailable = ''mpv error: property unavailable''"

function position_from :: "'p mpv_lib \<Rightarrow> 'p \<Rightarrow> nat \<Rightarrow> int" where
  "position_from lib p retry_count =
     (case ipc_get lib p ''time-pos'' retry_count of
        Inl e \<Rightarrow>
          if e = property_unavailable then
            (if retry_count + 1 > 5 then 0 else position_from lib p (retry_count + 1))
          else 0
      | Inr (Mpv_float pos) \<Rightarrow> float_to_int pos
      | Inr _ \<Rightarrow> 0)"
  by pat_completeness auto
termination
  by (relation "measure (\<lambda>(lib, p, n). 6 - n)") auto

declare position_from.simps [simp del]

definition mpv_position :: "'p mpv_lib \<Rightarrow> 'p mpv_track \<Rightarrow> int" where
  "mpv_position lib t = position_from lib (mt_proc t) 0"

definition mpv_set_position ::
  "'p mpv_lib \<Rightarrow> int \<Rightarrow> 'p mpv_track \<Rightarrow> string option \<times> 'p mpv_track" where
  "mpv_set_position lib offset t =
     (if mpv_position lib t = offset then (None, t)
      else case ipc_set lib (mt_proc t) ''time-pos'' (Mpv_float (of_int offset)) of
             (err, p) \<Rightarrow> (err, t\<lparr>mt_proc := p\<rparr>))"

definition mpv_is_playing :: "'p mpv_lib \<Rightarrow> 'p mpv_track \<Rightarrow> bool" where
  "mpv_is_playing lib t =
     (case ipc_get lib (mt_proc t) ''pause'' 0 of
        Inr (Mpv_bool pause) \<Rightarrow> \<not> pause
      | _ \<Rightarrow> False)"

definition mpv_ops :: "'p mpv_lib \<Rightarrow> mpv_config \<Rightarrow> 'p mpv_track track_ops" where
  "mpv_ops lib cfg =
     \<lparr>tk_is_playing = mpv_is_playing lib, tk_set_volume = mpv_set_volume lib,
      tk_pause = mpv_pause lib, tk_unpause = mpv_unpause lib, tk_position = mpv_position lib,
      tk_set_position = mpv_set_position lib, tk_close = mpv_close lib,
      tk_new_track = mpv_new_track lib cfg\<rparr>"

section \<open>The contract\<close>

text \<open>
  The documented behaviour of mpv, for a process that runs: a set \<open>pause\<close> is read back, and the
  other properties leave it alone.
\<close>

locale mpv_process =
  fixes lib :: "'p mpv_lib" and running :: "'p \<Rightarrow> bool"
  assumes launch: "mpv_launch lib args = Inr p \<Longrightarrow> running p"
    and set_pause: "running p \<Longrightarrow> running (snd (ipc_set lib p ''pause'' (Mpv_bool b)))
        \<and> ipc_get lib (snd (ipc_set lib p ''pause'' (Mpv_bool b))) ''pause'' n = Inr (Mpv_bool b)"
    and set_other: "running p \<Longrightarrow> k \<noteq> ''pause'' \<Longrightarrow> running (snd (ipc_set lib p k v))
        \<and> ipc_get lib (snd (ipc_set lib p k v)) ''pause'' n = ipc_get lib p ''pause'' n"
begin

lemma new_track_running: "mpv_new_track lib cfg d mf = Inr t \<Longrightarrow> running (mt_proc t)"
  by (auto simp: mpv_new_track_def Let_def launch split: sum.splits if_splits)

lemma playing_set_other:
  "running (mt_proc t) \<Longrightarrow> k \<noteq> ''pause'' \<Longrightarrow>
     running (mt_proc (mpv_set lib k v t)) \<and> mpv_is_playing lib (mpv_set lib k v t) = mpv_is_playing lib t"
  by (simp add: mpv_set_def mpv_is_playing_def set_other)

lemma playing_set_pause:
  "running (mt_proc t) \<Longrightarrow>
     running (mt_proc (mpv_set lib ''pause'' (Mpv_bool b) t))
     \<and> mpv_is_playing lib (mpv_set lib ''pause'' (Mpv_bool b) t) = (\<not> b)"
  by (simp add: mpv_set_def mpv_is_playing_def set_pause)

lemma set_position_frame:
  "snd (mpv_set_position lib off t) = t \<or>
   snd (mpv_set_position lib off t) = mpv_set lib ''time-pos'' (Mpv_float (of_int off)) t"
  by (auto simp: mpv_set_position_def mpv_set_def split: prod.splits)

end

sublocale mpv_process \<subseteq> track: track_contract "mpv_ops lib cfg" "\<lambda>t. running (mt_proc t)"
proof (unfold_locales, goal_cases)
  case (1 d mf t)
  then show ?case by (simp add: mpv_ops_def new_track_running)
next
  case (2 t)
  then show ?case by (simp add: mpv_ops_def mpv_pause_def playing_set_pause)
next
  case (3 t)
  then show ?case by (simp add: mpv_ops_def mpv_unpause_def playing_set_pause)
next
  case (4 t v)
  then show ?case by (simp add: mpv_ops_def mpv_set_volume_def playing_set_other)
next
  case (5 t off)
  then show ?case using set_position_frame [of off t]
    by (auto simp: mpv_ops_def playing_set_other)
qed

section \<open>A concrete player\<close>

text \<open>
  A process that is its \<open>pause\<close> flag and its position; it starts paused, as the shipped template
  asks of mpv.
\<close>

definition demo_mpv :: "(bool \<times> rat) mpv_lib" where
  "demo_mpv =
     \<lparr>mpv_cmd_path = Inr ''/usr/bin/mpv'',
      mpv_launch = (\<lambda>args. Inr (True, 0)),
      ipc_get = (\<lambda>(paused, pos) k n.
         if k = ''pause'' then Inr (Mpv_bool paused)
         else if k = ''time-pos'' then
           (if n = 0 then Inl property_unavailable else Inr (Mpv_float pos))
         else Inl ''property not found''),
      ipc_set = (\<lambda>(paused, pos) k v.
         (None, case v of Mpv_bool b \<Rightarrow> if k = ''pause'' then (b, pos) else (paused, pos)
                        | Mpv_float f \<Rightarrow> if k = ''time-pos'' then (paused, f) else (paused, pos)
                        | _ \<Rightarrow> (paused, pos))),
      ipc_quit = (\<lambda>p. (None, p)), exe_cancel = (\<lambda>p. p), socket_present = (\<lambda>p. False),
      socket_remove = (\<lambda>p. p), float32_percent = (\<lambda>v. float_to_int (v * 100))\<rparr>"

definition demo_mpv_config :: mpv_config where
  "demo_mpv_config =
     \<lparr>mpv_template = ''mpv --audio-device=%d --no-audio-display --pause %f --input-ipc-server=%s'',
      mpv_socket_name = ''/tmp/mpv-ctrl.socket'',
      mpv_absolute_path = (\<lambda>mf. ''/music/'' @ mf_path mf)\<rparr>"

interpretation demo_process: mpv_process demo_mpv "\<lambda>_. True"
  by unfold_locales (auto simp: demo_mpv_def split: mpv_value.splits)

lemma demo_track_contract: "track_contract (mpv_ops demo_mpv cfg) (\<lambda>_. True)"
  by (rule demo_process.track.track_contract_axioms)

lemma demo_command:
  "create_mpv_command (mpv_template demo_mpv_config) (Inr ''/usr/bin/mpv'') ''auto'' ''/music/a b.mp3''
      ''/tmp/mpv-ctrl.socket''
   = [''/usr/bin/mpv'', ''--audio-device=auto'', ''--no-audio-display'', ''--pause'', ''/music/a b.mp3'',
      ''--input-ipc-server=/tmp/mpv-ctrl.socket'']"
  by code_simp

definition demo_get :: "string \<Rightarrow> string + media_file" where
  "demo_get i = (if i = ''missing'' then Inl ''not found'' else Inr (demo_track i))"

definition demo_device :: "(bool \<times> rat) mpv_track playback_device" where
  "demo_device =
     fst (dev_start (mpv_ops demo_mpv demo_mpv_config)
       (fst (dev_set (mpv_ops demo_mpv demo_mpv_config) demo_get [''a'', ''b'', ''c'']
         (new_playback_device ''jukebox'' ''auto''))))"

section \<open>The properties of the jukebox\<close>

context mpv_process
begin

lemma contract: "track_contract (mpv_ops lib cfg) (\<lambda>t. running (mt_proc t))"
  by (rule track.track_contract_axioms)

end

text \<open>
  C29. However commands and rounds of the track switcher follow each other, as long as each ends
  before the next begins, on any kind of track, none of them panics, and the index of the queue is
  -1 or a position of the queue, or 0 when the queue is empty.
\<close>

theorem serial_commands_never_panic:
  assumes "dev_reachable trk get pd" "dev_step trk get pd r pd'"
  shows "(\<forall>p. r \<noteq> Inl (Dev_panic p)) \<and>
    (pq_index (pd_queue pd') = -1 \<or>
     0 \<le> pq_index (pd_queue pd') \<and> pq_index (pd_queue pd') < queue_size (pd_queue pd') \<or>
     pq_index (pd_queue pd') = 0 \<and> queue_is_empty (pd_queue pd'))"
  using dev_step_queue [OF assms(2) dev_reachable_ok [OF assms(1)]]
  by (auto simp: no_panic_def device_ok_def queue_ok_def queue_is_empty_def)

theorem serial_commands_never_panic_witness:
  "snd (dev_start (mpv_ops demo_mpv demo_mpv_config) (new_playback_device ''j'' ''auto''))
     \<noteq> Inl (Dev_panic Nil_pointer)"
proof -
  let ?ops = "mpv_ops demo_mpv demo_mpv_config" and ?pd = "new_playback_device ''j'' ''auto''"
  have "dev_step ?ops demo_get ?pd (snd (dev_start ?ops ?pd)) (fst (dev_start ?ops ?pd))"
    by (rule dev_step.command [where c = Dev_start]) simp_all
  then show ?thesis using serial_commands_never_panic [OF dev_reachable.init] by blast
qed

section \<open>When they overlap\<close>

text \<open>
  Handlers and the switcher share the active track without a lock. \<open>Start\<close> on a loaded track that
  does not play is a check of \<open>ActiveTrack\<close> and a call on it, which read the field twice.
\<close>

definition start_finds_paused :: "'t track_ops \<Rightarrow> 't playback_device \<Rightarrow> bool" where
  "start_finds_paused trk pd \<longleftrightarrow> pd_active pd \<noteq> None \<and> \<not> is_playing trk pd"

definition call_active :: "('t \<Rightarrow> 't) \<Rightarrow> 't playback_device \<Rightarrow> device_error + 't playback_device" where
  "call_active f pd =
     (case pd_active pd of
        None \<Rightarrow> Inl (Dev_panic Nil_pointer)
      | Some t \<Rightarrow> Inr (pd\<lparr>pd_active := Some (f t)\<rparr>))"

lemma start_in_two_steps:
  "start_finds_paused trk pd \<Longrightarrow>
     call_active (tk_unpause trk) (pd\<lparr>pd_switcher_started := True\<rparr>) = Inr (fst (dev_start trk pd))"
  by (auto simp: start_finds_paused_def call_active_def dev_start_def is_playing_def update_active_def
      dev_ok_result_def Let_def)

text \<open>
  When the last track of the queue has ended, it no longer plays but is still the active track until
  the switcher takes the event. A \<open>Start\<close> that has checked it by then calls a nil pointer.
\<close>

lemma overlapping_start_panics:
  assumes "is_at_last_element (pd_queue pd)"
  shows "call_active (tk_unpause trk) (track_done trk pd) = Inl (Dev_panic Nil_pointer)"
  using assms by (simp add: track_done_def call_active_def)

definition paused_device :: "(bool \<times> rat) mpv_track playback_device" where
  "paused_device =
     fst (dev_stop (mpv_ops demo_mpv demo_mpv_config)
       (fst (dev_start (mpv_ops demo_mpv demo_mpv_config)
         (fst (dev_set (mpv_ops demo_mpv demo_mpv_config) demo_get [''a'']
           (new_playback_device ''jukebox'' ''auto''))))))"

lemma overlapping_start_panics_demo:
  "start_finds_paused (mpv_ops demo_mpv demo_mpv_config) paused_device
   \<and> pd_switcher_started paused_device
   \<and> call_active (tk_unpause (mpv_ops demo_mpv demo_mpv_config))
       (track_done (mpv_ops demo_mpv demo_mpv_config) paused_device) = Inl (Dev_panic Nil_pointer)"
proof (intro conjI)
  have "is_at_last_element (pd_queue paused_device)" by code_simp
  then show "call_active (tk_unpause (mpv_ops demo_mpv demo_mpv_config))
       (track_done (mpv_ops demo_mpv demo_mpv_config) paused_device) = Inl (Dev_panic Nil_pointer)"
    by (rule overlapping_start_panics)
  have "pd_active paused_device \<noteq> None" "\<not> is_playing (mpv_ops demo_mpv demo_mpv_config) paused_device" by code_simp+
  then show "start_finds_paused (mpv_ops demo_mpv demo_mpv_config) paused_device"
    by (simp add: start_finds_paused_def)
  show "pd_switcher_started paused_device" by code_simp
qed

text \<open>
  On running mpv processes, \<open>Start\<close> leaves the device playing exactly when a track was
  loaded or the queue is not empty, and can fail only while it loads a track; \<open>Stop\<close> leaves it
  silent, with the queue as it was.
\<close>

lemma start_plays_stop_pauses:
  assumes "mpv_process lib running" "\<forall>t. pd_active pd = Some t \<longrightarrow> running (mt_proc t)"
  shows "(case dev_start (mpv_ops lib cfg) pd of
       (pd', Inr st) \<Rightarrow> ds_playing st = is_playing (mpv_ops lib cfg) pd'
         \<and> (ds_playing st \<longleftrightarrow> pd_active pd \<noteq> None \<or> pq_items (pd_queue pd) \<noteq> [])
     | (pd', Inl e) \<Rightarrow> pd_active pd = None \<and> pq_items (pd_queue pd) \<noteq> [] \<and> pd_active pd' = None)
   \<and> \<not> is_playing (mpv_ops lib cfg) (fst (dev_stop (mpv_ops lib cfg) pd))
   \<and> pd_queue (fst (dev_stop (mpv_ops lib cfg) pd)) = pd_queue pd"
proof -
  let ?ops = "mpv_ops lib cfg"
  note c = mpv_process.contract [OF assms(1), of cfg]
  have a: "track_contract.active_alive (\<lambda>t. running (mt_proc t)) pd"
    using assms(2) by (simp add: track_contract.active_alive_def [OF c])
  have empty: "queue_is_empty (pd_queue pd) \<longleftrightarrow> pq_items (pd_queue pd) = []"
    by (simp add: queue_is_empty_def queue_size_def)
  obtain pd1 r where s: "dev_start ?ops pd = (pd1, r)" by fastforce
  have "case r of Inr st \<Rightarrow> ds_playing st = is_playing ?ops pd1
         \<and> (ds_playing st \<longleftrightarrow> pd_active pd \<noteq> None \<or> pq_items (pd_queue pd) \<noteq> [])
     | Inl e \<Rightarrow> pd_active pd = None \<and> pq_items (pd_queue pd) \<noteq> [] \<and> pd_active pd1 = None"
  proof (cases r)
    case (Inl e)
    with s show ?thesis unfolding empty [symmetric]
      by (auto simp: dev_start_def Let_def dev_ok_result_def switch_active_track_by_index_def
          split: option.splits if_splits sum.splits prod.splits)
  next
    case (Inr st)
    with track_contract.start_plays [OF c _ a, of pd1 st] s show ?thesis by (simp add: empty)
  qed
  moreover obtain pd2 r2 where "dev_stop ?ops pd = (pd2, r2)" by fastforce
  ultimately show ?thesis using s track_contract.stop_stops [OF c a] by (auto split: sum.splits)
qed

lemma demo_device_active: "pd_active demo_device \<noteq> None" "is_playing (mpv_ops demo_mpv demo_mpv_config) demo_device"
  by code_simp+

lemma start_plays_stop_pauses_witness:
  "\<not> is_playing (mpv_ops demo_mpv demo_mpv_config)
      (fst (dev_stop (mpv_ops demo_mpv demo_mpv_config) demo_device))"
  using start_plays_stop_pauses [OF demo_process.mpv_process_axioms, of demo_device demo_mpv_config]
  by simp



text \<open>
  \<open>Set\<close> does not leave the current track alone: the active track is gone whatever the IDs
  are, and when one of them is unknown the old queue is lost too, with the error returned.
\<close>

lemma set_replaces_everything:
  "pd_active (fst (dev_set trk get ids pd)) = None
   \<and> (case lookup_all get ids of
        Inl e \<Rightarrow> snd (dev_set trk get ids pd) = Inl (Dev_error e)
          \<and> pd_queue (fst (dev_set trk get ids pd)) = new_queue
      | Inr items \<Rightarrow> snd (dev_set trk get ids pd) = Inr (get_status trk (fst (dev_set trk get ids pd)))
          \<and> pd_queue (fst (dev_set trk get ids pd))
              = \<lparr>pq_index = (if items = [] then -1 else 0), pq_items = items\<rparr>)"
  by (cases ids)
    (auto simp: dev_set_def dev_clear_def dev_add_def dev_ok_result_def queue_clear_def queue_add_def
      new_queue_def queue_size_def get_status_def is_playing_def split: sum.splits)

text \<open>
  Removing the running track pauses it but keeps it loaded: the queue no longer points at
  it, yet the next \<open>Start\<close> resumes the removed track.
\<close>

lemma removed_track_plays_on:
  assumes "mpv_process lib running" "pd_active pd = Some t" "running (mt_proc t)"
    "is_playing (mpv_ops lib cfg) pd" "0 \<le> pq_index (pd_queue pd)" "pq_index (pd_queue pd) < queue_size (pd_queue pd)"
    "distinct (map mf_id (pq_items (pd_queue pd)))"
  shows "\<exists>pd1 st t'. dev_remove (mpv_ops lib cfg) (pq_index (pd_queue pd)) pd = (pd1, Inr st)
     \<and> ds_current_index st = -1 \<and> \<not> ds_playing st
     \<and> pd_active (fst (dev_start (mpv_ops lib cfg) pd1)) = Some t' \<and> mt_file t' = mt_file t
     \<and> is_playing (mpv_ops lib cfg) (fst (dev_start (mpv_ops lib cfg) pd1))"
proof -
  let ?ops = "mpv_ops lib cfg" and ?q = "pd_queue pd" and ?i = "pq_index (pd_queue pd)"
  let ?stopped = "update_active (tk_pause ?ops) pd"
  note c = mpv_process.contract [OF assms(1), of cfg]
  have a: "track_contract.active_alive (\<lambda>t. running (mt_proc t)) pd"
    using assms(2,3) by (simp add: track_contract.active_alive_def [OF c])
  have cur: "current ?q = Inr (Some (pq_items ?q ! nat ?i))"
    using assms(5,6) by (simp add: current_def)
  obtain q' where q': "queue_remove ?i ?q = Inr q'" "pq_index q' = -1"
    using queue_remove_index [OF cur assms(7,5,6)] by auto
  have r: "dev_remove ?ops ?i pd = dev_ok_result ?ops (?stopped\<lparr>pd_queue := q'\<rparr>)"
    using assms(4-6) q' by (simp add: dev_remove_def dev_stop_def dev_ok_result_def)
  have "pd_active (fst (dev_start ?ops (?stopped\<lparr>pd_queue := q'\<rparr>)))
        = Some (tk_unpause ?ops (tk_pause ?ops t))
      \<and> \<not> is_playing ?ops (?stopped\<lparr>pd_queue := q'\<rparr>)
      \<and> is_playing ?ops (fst (dev_start ?ops (?stopped\<lparr>pd_queue := q'\<rparr>)))"
    using track_contract.removed_track_resumes [OF c assms(2) a assms(4)] r
    by (simp add: dev_ok_result_def)
  with r q'(2) show ?thesis
    by (simp add: dev_ok_result_def get_status_def mpv_ops_def mpv_unpause_def mpv_pause_def mpv_set_def)
qed

lemma removed_track_plays_on_witness:
  "\<exists>pd1 st. dev_remove (mpv_ops demo_mpv demo_mpv_config) 0 demo_device = (pd1, Inr st)
     \<and> ds_current_index st = -1
     \<and> is_playing (mpv_ops demo_mpv demo_mpv_config)
         (fst (dev_start (mpv_ops demo_mpv demo_mpv_config) pd1))"
proof -
  have d: "pq_index (pd_queue demo_device) = 0" "queue_size (pd_queue demo_device) = 3"
    "distinct (map mf_id (pq_items (pd_queue demo_device)))"
    by code_simp+
  obtain t where "pd_active demo_device = Some t" using demo_device_active by auto
  from removed_track_plays_on [OF demo_process.mpv_process_axioms this _ demo_device_active(2)] d
  show ?thesis by auto
qed

section \<open>The command line of the player\<close>

text \<open>
  A file name is one argument of the player's command line whatever bytes it holds, blanks
  and quotes included: the arguments are those of the template, one for one, and the placeholder
  of the file becomes exactly the path, unless the path itself contains the socket placeholder.
\<close>

lemma mpv_command_arguments:
  assumes "shell_split template = Inr args"
  shows "length (create_mpv_command template cmd dev path sock) = length args
     \<and> (\<forall>i. 0 < i \<and> i < length args \<and> args ! i = ''%f'' \<and> \<not> contains_str path ''%s''
          \<longrightarrow> create_mpv_command template cmd dev path sock ! i = path)"
proof -
  have f: "fill_placeholders dev path sock ''%f'' = path" if "\<not> contains_str path ''%s''"
  proof -
    have "replace_all ''%d'' dev ''%f'' = ''%f''" by (rule replace_all_absent) simp
    then show ?thesis using that by (simp add: fill_placeholders_def replace_all_absent)
  qed
  have "create_mpv_command template cmd dev path sock = map (fill_placeholders dev path sock) args
      \<or> (\<exists>p. args \<noteq> [] \<and> create_mpv_command template cmd dev path sock
            = p # tl (map (fill_placeholders dev path sock) args))"
    using assms by (auto simp: create_mpv_command_def Let_def split: list.splits sum.splits)
  then show ?thesis
  proof (elim disjE exE conjE)
    assume "create_mpv_command template cmd dev path sock = map (fill_placeholders dev path sock) args"
    then show ?thesis using f by auto
  next
    fix p assume "args \<noteq> []" and e: "create_mpv_command template cmd dev path sock
            = p # tl (map (fill_placeholders dev path sock) args)"
    then show ?thesis using f by (cases args) (auto simp: nth_Cons split: nat.splits)
  qed
qed

lemma mpv_command_arguments_witness:
  "length (create_mpv_command (mpv_template demo_mpv_config) (Inr ''/usr/bin/mpv'') ''auto''
      ''/music/it is.mp3'' ''/tmp/mpv.socket'') = 6"
proof -
  have "shell_split (mpv_template demo_mpv_config)
      = Inr [''mpv'', ''--audio-device=%d'', ''--no-audio-display'', ''--pause'', ''%f'', ''--input-ipc-server=%s'']"
    by code_simp
  from mpv_command_arguments [OF this] show ?thesis by auto
qed

text \<open>
  The placeholders are filled one after the other in the same string, so a path that contains
  the socket placeholder is changed: the player is asked for a file that does not exist.
\<close>

lemma mpv_path_with_percent_s:
  "create_mpv_command (mpv_template demo_mpv_config) (Inr ''/usr/bin/mpv'') ''auto''
      ''/music/100%sure.mp3'' ''/tmp/mpv.socket'' ! 4 = ''/music/100/tmp/mpv.socketure.mp3''"
  by code_simp

end
