(* ===== verification/FFmpeg.thy ===== *)
theory FFmpeg
  imports GoStrings StreamTypes
begin

text \<open>
  The ffmpeg command lines and the reading of ffprobe's output (\<open>core/ffmpeg/ffmpeg.go\<close>). The
  paths of the two programs, the file system and the JSON decoder are parameters; what is run and
  how its pipes are read is not modelled, but the buffer that keeps the end of a failure message is.
\<close>

record ff_paths =
  ff_cmd_path :: string
  ff_probe_path :: string

record transcode_options =
  to_command :: string
  to_format :: string
  to_file_path :: string
  to_bit_rate :: int
  to_sample_rate :: int
  to_channels :: int
  to_bit_depth :: int
  to_offset :: int

section \<open>Templates\<close>

definition fix_cmd :: "ff_paths \<Rightarrow> string \<Rightarrow> string list" where
  "fix_cmd ff cmd =
     map (\<lambda>s. if s = ''ffprobe'' \<or> s = ''ffprobe.exe'' then ff_probe_path ff
              else if s = ''ffmpeg'' \<or> s = ''ffmpeg.exe'' then ff_cmd_path ff else s) (str_fields cmd)"

definition command_argument :: "string \<Rightarrow> string \<Rightarrow> int \<Rightarrow> int \<Rightarrow> string \<Rightarrow> string list" where
  "command_argument cmd path max_bit_rate offset s =
     (if contains_str s ''%s'' then
        replace_all ''%s'' path s
        # (if offset > 0 \<and> \<not> contains_str cmd ''%t'' then [''-ss'', itoa offset] else [])
      else [replace_all ''%b'' (itoa max_bit_rate) (replace_all ''%t'' (itoa offset) s)])"

definition create_ffmpeg_command :: "ff_paths \<Rightarrow> string \<Rightarrow> string \<Rightarrow> int \<Rightarrow> int \<Rightarrow> string list" where
  "create_ffmpeg_command ff cmd path max_bit_rate offset =
     concat (map (command_argument cmd path max_bit_rate offset) (fix_cmd ff cmd))"

definition create_probe_command :: "ff_paths \<Rightarrow> string \<Rightarrow> string list \<Rightarrow> string list" where
  "create_probe_command ff cmd inputs =
     concat (map (\<lambda>s. if s = ''%s'' then concat (map (\<lambda>inp. [''-i'', inp]) inputs) else [s])
       (fix_cmd ff cmd))"

definition inject_before_output :: "string \<Rightarrow> string \<Rightarrow> string list \<Rightarrow> string list" where
  "inject_before_output flag value args =
     (if length args > 0 \<and> last args = ''-'' then butlast args @ [flag, value, ''-'']
      else args @ [flag, value])"

definition is_lossless_output_format :: "string \<Rightarrow> bool" where
  "is_lossless_output_format format \<longleftrightarrow>
     to_lower format = ''flac'' \<or> to_lower format = ''alac'' \<or> to_lower format = ''wav''
     \<or> to_lower format = ''aiff''"

definition bit_depth_to_sample_fmt :: "int \<Rightarrow> string" where
  "bit_depth_to_sample_fmt d = (if d = 16 then ''s16'' else ''s32'')"

definition build_template_args :: "ff_paths \<Rightarrow> transcode_options \<Rightarrow> string list" where
  "build_template_args ff opts =
     (let args = create_ffmpeg_command ff (to_command opts) (to_file_path opts) (to_bit_rate opts)
                   (to_offset opts);
          args1 = (if to_sample_rate opts > 0
                   then inject_before_output ''-ar'' (itoa (to_sample_rate opts)) args else args);
          args2 = (if to_channels opts > 0
                   then inject_before_output ''-ac'' (itoa (to_channels opts)) args1 else args1)
      in if to_bit_depth opts \<ge> 16 \<and> is_lossless_output_format (to_format opts)
         then inject_before_output ''-sample_fmt'' (bit_depth_to_sample_fmt (to_bit_depth opts)) args2
         else args2)"

section \<open>Built-in formats\<close>

definition format_codec_map :: "string \<rightharpoonup> string" where
  "format_codec_map =
     [''mp3'' \<mapsto> ''libmp3lame'', ''opus'' \<mapsto> ''libopus'', ''aac'' \<mapsto> ''aac'', ''flac'' \<mapsto> ''flac'']"

definition format_output_map :: "string \<rightharpoonup> string" where
  "format_output_map = [''mp3'' \<mapsto> ''mp3'', ''opus'' \<mapsto> ''opus'', ''aac'' \<mapsto> ''adts'', ''flac'' \<mapsto> ''flac'']"

definition default_commands :: "string \<rightharpoonup> string" where
  "default_commands = map_of (rev (map (\<lambda>t. (trc_target_format t, trc_command t)) default_transcodings))"

definition is_default_command :: "string \<Rightarrow> string \<Rightarrow> bool" where
  "is_default_command format command \<longleftrightarrow>
     (case default_commands format of Some c \<Rightarrow> c | None \<Rightarrow> '''') = command"

definition flag_if :: "bool \<Rightarrow> string \<Rightarrow> string \<Rightarrow> string list" where
  "flag_if b flag value = (if b then [flag, value] else [])"

definition flag_opt :: "string \<Rightarrow> string option \<Rightarrow> string list" where
  "flag_opt flag value = (case value of Some v \<Rightarrow> [flag, v] | None \<Rightarrow> [])"

definition build_dynamic_args :: "ff_paths \<Rightarrow> transcode_options \<Rightarrow> string list" where
  "build_dynamic_args ff opts =
     [ff_cmd_path ff, ''-i'', to_file_path opts]
     @ flag_if (to_offset opts > 0) ''-ss'' (itoa (to_offset opts))
     @ [''-map'', ''0:a:0'']
     @ flag_opt ''-c:a'' (format_codec_map (to_format opts))
     @ flag_if (to_bit_rate opts > 0) ''-b:a'' (itoa (to_bit_rate opts) @ ''k'')
     @ flag_if (to_sample_rate opts > 0) ''-ar'' (itoa (to_sample_rate opts))
     @ flag_if (to_channels opts > 0) ''-ac'' (itoa (to_channels opts))
     @ flag_if (to_bit_depth opts \<ge> 16 \<and> is_lossless_output_format (to_format opts))
         ''-sample_fmt'' (bit_depth_to_sample_fmt (to_bit_depth opts))
     @ [''-v'', ''0'']
     @ flag_opt ''-f'' (format_output_map (to_format opts))
     @ [''-'']"

text \<open>The arguments that \<open>Transcode\<close> starts, or the error of its two checks.\<close>

definition transcode_args ::
  "string option \<Rightarrow> (string \<Rightarrow> string option) \<Rightarrow> ff_paths \<Rightarrow> transcode_options \<Rightarrow> string + string list" where
  "transcode_args cmd_error file_error ff opts =
     (case cmd_error of
        Some e \<Rightarrow> Inl e
      | None \<Rightarrow>
          (case file_error (to_file_path opts) of
             Some e \<Rightarrow> Inl e
           | None \<Rightarrow>
               Inr (if is_default_command (to_format opts) (to_command opts)
                    then build_dynamic_args ff opts else build_template_args ff opts)))"

section \<open>Probing\<close>

record probe_stream =
  ps_codec_name :: string
  ps_codec_type :: string
  ps_profile :: string
  ps_sample_rate :: string
  ps_bit_rate :: string
  ps_channels :: int
  ps_bits_per_sample :: int
  ps_bits_per_raw_sample :: string

record probe_output =
  po_streams :: "probe_stream list"
  po_format_bit_rate :: string

text \<open>
  \<open>strconv.Atoi\<close> with its error dropped: a syntax error gives 0, a value out of range the nearest
  of the range. \<open>bps / 1000\<close> is Go's division, which cuts toward 0.
\<close>

definition atoi_value :: "string \<Rightarrow> int" where
  "atoi_value s =
     (let (neg, ds) =
        (case s of
           [] \<Rightarrow> (False, [])
         | c # cs \<Rightarrow> if c = CHR ''-'' then (True, cs)
                     else if c = CHR ''+'' then (False, cs) else (False, s))
      in case parse_nat 10 ds of
           None \<Rightarrow> 0
         | Some n \<Rightarrow> max (- (2 ^ 63)) (min (2 ^ 63 - 1) (if neg then - n else n)))"

definition to_kbps :: "int \<Rightarrow> int" where
  "to_kbps bps = (if bps \<ge> 0 then bps div 1000 else - ((- bps) div 1000))"

definition probe_of_stream :: "string \<Rightarrow> probe_stream \<Rightarrow> audio_probe" where
  "probe_of_stream format_bit_rate s =
     (let bit_depth = (if ps_bits_per_sample s = 0 \<and> ps_bits_per_raw_sample s \<noteq> ''''
                       then atoi_value (ps_bits_per_raw_sample s) else ps_bits_per_sample s);
          profile = (if ps_profile s \<noteq> '''' \<and> \<not> equal_fold (ps_profile s) ''unknown''
                     then ps_profile s else '''');
          sample_rate = (if ps_sample_rate s \<noteq> '''' then atoi_value (ps_sample_rate s) else 0);
          rate = (if ps_bit_rate s \<noteq> '''' then to_kbps (atoi_value (ps_bit_rate s)) else 0);
          bit_rate = (if rate = 0 \<and> format_bit_rate \<noteq> ''''
                      then to_kbps (atoi_value format_bit_rate) else rate)
      in \<lparr>ap_codec = ps_codec_name s, ap_profile = profile, ap_bit_rate = bit_rate,
          ap_sample_rate = sample_rate, ap_bit_depth = bit_depth, ap_channels = ps_channels s\<rparr>)"

fun first_audio :: "string \<Rightarrow> probe_stream list \<Rightarrow> string + audio_probe" where
  "first_audio format_bit_rate [] = Inl ''no audio stream found in ffprobe output''"
| "first_audio format_bit_rate (s # ss) =
     (if ps_codec_type s \<noteq> ''audio'' then first_audio format_bit_rate ss
      else Inr (probe_of_stream format_bit_rate s))"

definition parse_probe_output :: "(string \<Rightarrow> string + probe_output) \<Rightarrow> string \<Rightarrow> string + audio_probe" where
  "parse_probe_output unmarshal data =
     (case unmarshal data of
        Inl e \<Rightarrow> Inl e
      | Inr out \<Rightarrow> first_audio (po_format_bit_rate out) (po_streams out))"

definition strm_probe :: audio_probe where
  "strm_probe =
     \<lparr>ap_codec = ''mp3'', ap_profile = '''', ap_bit_rate = 320, ap_sample_rate = 44100,
      ap_bit_depth = 16, ap_channels = 2\<rparr>"

definition is_strm :: "string \<Rightarrow> bool" where
  "is_strm path \<longleftrightarrow> has_suffix (to_lower path) ''.strm''"

definition probe_audio_stream_cmd :: string where
  "probe_audio_stream_cmd =
     ''ffprobe -v quiet -select_streams a:0 -print_format json -show_streams -show_format %s''"

definition probe_audio_stream ::
  "string option \<Rightarrow> (string \<Rightarrow> string option) \<Rightarrow> (string list \<Rightarrow> string + string)
   \<Rightarrow> (string \<Rightarrow> string + probe_output) \<Rightarrow> ff_paths \<Rightarrow> string \<Rightarrow> string + audio_probe" where
  "probe_audio_stream cmd_error file_error run unmarshal ff path =
     (case cmd_error of
        Some e \<Rightarrow> Inl e
      | None \<Rightarrow>
          (case file_error path of
             Some e \<Rightarrow> Inl e
           | None \<Rightarrow>
               if is_strm path then Inr strm_probe
               else case run (create_ffmpeg_command ff probe_audio_stream_cmd path 0 0) of
                      Inl e \<Rightarrow> Inl e
                    | Inr output \<Rightarrow> parse_probe_output unmarshal output))"

definition probe_cmd :: string where "probe_cmd = ''ffmpeg %s -f ffmetadata''"

text \<open>The files that \<open>Probe\<close> hands to ffmpeg, and the arguments; \<open>None\<close> when none is left.\<close>

definition probe_args :: "ff_paths \<Rightarrow> string list \<Rightarrow> string list option" where
  "probe_args ff files =
     (let filtered = filter (\<lambda>f. \<not> is_strm f) files
      in if filtered = [] then None else Some (create_probe_command ff probe_cmd filtered))"

section \<open>The buffer of error messages\<close>

definition limited_write :: "nat \<Rightarrow> string \<Rightarrow> string \<Rightarrow> nat \<times> string" where
  "limited_write limit p buf =
     (let n = length p; remaining = int limit - int (length buf)
      in if remaining \<le> 0 then (n, buf)
         else if int (length p) > remaining then (n, buf @ take (nat remaining) p)
         else (n, buf @ p))"

fun limited_writes :: "nat \<Rightarrow> string list \<Rightarrow> string \<Rightarrow> string" where
  "limited_writes limit [] buf = buf"
| "limited_writes limit (p # ps) buf = limited_writes limit ps (snd (limited_write limit p buf))"

section \<open>Lemmas\<close>

lemma limited_writes_take:
  "length buf \<le> limit \<Longrightarrow> limited_writes limit ps buf = take limit (buf @ concat ps)"
proof (induction ps arbitrary: buf)
  case Nil
  then show ?case by simp
next
  case (Cons p ps)
  have w: "snd (limited_write limit p buf) = take limit (buf @ p)"
    using Cons.prems by (auto simp: limited_write_def Let_def nat_diff_distrib)
  then have "length (snd (limited_write limit p buf)) \<le> limit" by simp
  from Cons.IH [OF this] show ?case by (simp add: w take_append min_def)
qed

lemma inject_before_dash:
  "inject_before_output flag value (xs @ [''-'']) = xs @ [flag, value] @ [''-'']"
  by (simp add: inject_before_output_def)

lemma inject_flags:
  "(if b then inject_before_output flag value (xs @ [''-'']) else xs @ [''-''])
     = (xs @ flag_if b flag value) @ [''-'']"
  by (simp add: inject_before_dash flag_if_def)

lemma command_argument_plain:
  "\<not> contains_str s ''%s'' \<Longrightarrow> command_argument cmd path b off s = command_argument cmd path' b off s"
  by (simp add: command_argument_def)

lemma concat_plain:
  "\<forall>s \<in> set ss. \<not> contains_str s ''%s'' \<Longrightarrow>
     concat (map (command_argument cmd path b off) ss) = concat (map (command_argument cmd path' b off) ss)"
  using command_argument_plain [of _ cmd path b off path'] by (induction ss) auto

section \<open>The properties of the command lines\<close>

text \<open>
  The file is one argument of a transcoding command, with the path as it is: when the
  template has the placeholder \<open>%s\<close> as a word of its own and nowhere else, the arguments before
  and after it do not depend on the path.
\<close>

lemma ffmpeg_path_is_one_argument:
  assumes "fix_cmd ff cmd = pre @ ''%s'' # post"
    "\<forall>s \<in> set pre \<union> set post. \<not> contains_str s ''%s''"
  shows "\<exists>before after. \<forall>path. create_ffmpeg_command ff cmd path b off = before @ path # after"
proof (intro exI allI)
  fix path
  let ?args = "\<lambda>ss. concat (map (command_argument cmd '''' b off) ss)"
  have "create_ffmpeg_command ff cmd path b off
      = concat (map (command_argument cmd path b off) pre) @ command_argument cmd path b off ''%s''
        @ concat (map (command_argument cmd path b off) post)"
    by (simp add: create_ffmpeg_command_def assms(1))
  also have "\<dots> = ?args pre @ path # (if off > 0 \<and> \<not> contains_str cmd ''%t'' then [''-ss'', itoa off] else [])
        @ ?args post"
    using assms(2) concat_plain [of pre cmd path b off "''''"] concat_plain [of post cmd path b off "''''"]
    by (simp add: command_argument_def)
  finally show "create_ffmpeg_command ff cmd path b off = ?args pre
      @ path # (if off > 0 \<and> \<not> contains_str cmd ''%t'' then [''-ss'', itoa off] else []) @ ?args post" .
qed

definition demo_ff :: ff_paths where
  "demo_ff = \<lparr>ff_cmd_path = ''/usr/bin/ffmpeg'', ff_probe_path = ''/usr/bin/ffprobe''\<rparr>"

lemma ffmpeg_path_is_one_argument_witness:
  "\<exists>before after. \<forall>path.
     create_ffmpeg_command demo_ff ''ffmpeg -i %s -ss %t -map 0:a:0 -b:a %bk -v 0 -f mp3 -'' path 192 30
       = before @ path # after"
proof (rule ffmpeg_path_is_one_argument)
  show "fix_cmd demo_ff ''ffmpeg -i %s -ss %t -map 0:a:0 -b:a %bk -v 0 -f mp3 -''
      = [''/usr/bin/ffmpeg'', ''-i''] @ ''%s''
        # [''-ss'', ''%t'', ''-map'', ''0:a:0'', ''-b:a'', ''%bk'', ''-v'', ''0'', ''-f'', ''mp3'', ''-'']"
    by code_simp
qed code_simp

text \<open>
  Both builders send the audio to the standard output, with the same flags for the sampling
  rate, the channels and, for lossless outputs of 16 bits or more only, the sample format: a custom
  template gets them right before its final dash, a built-in format before its output format.
\<close>

lemma transcode_flags:
  assumes "create_ffmpeg_command ff (to_command opts) (to_file_path opts) (to_bit_rate opts)
       (to_offset opts) = xs @ [''-'']"
  shows "let flags = flag_if (to_sample_rate opts > 0) ''-ar'' (itoa (to_sample_rate opts))
           @ flag_if (to_channels opts > 0) ''-ac'' (itoa (to_channels opts))
           @ flag_if (to_bit_depth opts \<ge> 16
                 \<and> to_lower (to_format opts) \<in> {''flac'', ''alac'', ''wav'', ''aiff''})
               ''-sample_fmt'' (if to_bit_depth opts = 16 then ''s16'' else ''s32'')
     in build_template_args ff opts = xs @ flags @ [''-'']
        \<and> (\<exists>ys. build_dynamic_args ff opts
              = ff_cmd_path ff # ''-i'' # to_file_path opts # ys @ flags @ [''-v'', ''0'']
                @ flag_opt ''-f'' (format_output_map (to_format opts)) @ [''-''])"
proof -
  let ?flags = "flag_if (to_sample_rate opts > 0) ''-ar'' (itoa (to_sample_rate opts))
           @ flag_if (to_channels opts > 0) ''-ac'' (itoa (to_channels opts))
           @ flag_if (to_bit_depth opts \<ge> 16 \<and> is_lossless_output_format (to_format opts))
               ''-sample_fmt'' (bit_depth_to_sample_fmt (to_bit_depth opts))"
  let ?ys = "flag_if (to_offset opts > 0) ''-ss'' (itoa (to_offset opts)) @ [''-map'', ''0:a:0'']
     @ flag_opt ''-c:a'' (format_codec_map (to_format opts))
     @ flag_if (to_bit_rate opts > 0) ''-b:a'' (itoa (to_bit_rate opts) @ ''k'')"
  have "build_template_args ff opts = xs @ ?flags @ [''-'']"
    unfolding build_template_args_def Let_def assms inject_flags by (simp only: append_assoc)
  moreover have "build_dynamic_args ff opts
              = ff_cmd_path ff # ''-i'' # to_file_path opts # ?ys @ ?flags @ [''-v'', ''0'']
                @ flag_opt ''-f'' (format_output_map (to_format opts)) @ [''-'']"
    unfolding build_dynamic_args_def by (simp only: append_assoc append_Cons append_Nil)
  ultimately show ?thesis
    unfolding Let_def bit_depth_to_sample_fmt_def is_lossless_output_format_def by auto
qed

definition demo_options :: transcode_options where
  "demo_options =
     \<lparr>to_command = ''ffmpeg -i %s -f flac -'', to_format = ''flac'', to_file_path = ''/m/a b.wav'',
      to_bit_rate = 0, to_sample_rate = 48000, to_channels = 2, to_bit_depth = 24, to_offset = 0\<rparr>"

lemma transcode_flags_witness:
  "build_template_args demo_ff demo_options
     = [''/usr/bin/ffmpeg'', ''-i'', ''/m/a b.wav'', ''-f'', ''flac'', ''-ar'', itoa 48000, ''-ac'', itoa 2,
        ''-sample_fmt'', ''s32'', ''-'']"
proof -
  have "create_ffmpeg_command demo_ff (to_command demo_options) (to_file_path demo_options)
      (to_bit_rate demo_options) (to_offset demo_options)
      = [''/usr/bin/ffmpeg'', ''-i'', ''/m/a b.wav'', ''-f'', ''flac''] @ [''-'']"
    by code_simp
  from transcode_flags [OF this] have "build_template_args demo_ff demo_options
      = [''/usr/bin/ffmpeg'', ''-i'', ''/m/a b.wav'', ''-f'', ''flac'']
        @ (flag_if (to_sample_rate demo_options > 0) ''-ar'' (itoa (to_sample_rate demo_options))
           @ flag_if (to_channels demo_options > 0) ''-ac'' (itoa (to_channels demo_options))
           @ flag_if (to_bit_depth demo_options \<ge> 16
                 \<and> to_lower (to_format demo_options) \<in> {''flac'', ''alac'', ''wav'', ''aiff''})
               ''-sample_fmt'' (if to_bit_depth demo_options = 16 then ''s16'' else ''s32'')) @ [''-'']"
    by (simp only: Let_def)
  moreover have "to_lower ''flac'' = ''flac''" by code_simp
  ultimately show ?thesis by (simp add: demo_options_def flag_if_def)
qed

text \<open>
  A media file's probe result: the first audio stream, its bit rate in kbit/s with the
  container's as the fallback, and the raw bit depth when the stream has none; a \<open>.strm\<close> file
  is never handed to ffprobe.
\<close>

lemma probe_reads_first_audio:
  assumes "unmarshal data = Inr out" "po_streams out = before @ s # after"
    "\<forall>x \<in> set before. ps_codec_type x \<noteq> ''audio''" "ps_codec_type s = ''audio''"
    "ps_bit_rate s = '''' \<or> parse_int64 10 (ps_bit_rate s) = Some bps" "0 \<le> bps"
    "parse_int64 10 (po_format_bit_rate out) = Some total_bps" "0 \<le> total_bps"
  shows "\<exists>p. parse_probe_output unmarshal data = Inr p \<and> ap_codec p = ps_codec_name s
     \<and> ap_channels p = ps_channels s
     \<and> ap_bit_rate p = (if ps_bit_rate s \<noteq> '''' \<and> 1000 \<le> bps then bps div 1000 else total_bps div 1000)
     \<and> (ps_bits_per_sample s \<noteq> 0 \<longrightarrow> ap_bit_depth p = ps_bits_per_sample s)"
proof -
  have v: "atoi_value x = n" if "parse_int64 10 x = Some n" for x n
    using that by (auto simp: atoi_value_def parse_int64_def in_int64_def Let_def
        split: prod.splits option.splits if_splits)
  have nz: "po_format_bit_rate out \<noteq> ''''"
    using assms(7) by (auto simp: parse_int64_def parse_nat_def)
  have "first_audio r (before @ s # after) = Inr (probe_of_stream r s)" for r
    using assms(3,4) by (induction before) auto
  then have "parse_probe_output unmarshal data = Inr (probe_of_stream (po_format_bit_rate out) s)"
    by (simp add: parse_probe_output_def assms(1,2))
  moreover have "bps div 1000 = 0 \<longleftrightarrow> bps < 1000" using assms(6) by auto
  ultimately show ?thesis
    using assms(5-8) nz v [of "ps_bit_rate s" bps] v [OF assms(7)]
    by (auto simp: probe_of_stream_def to_kbps_def Let_def)
qed

definition demo_probe_stream :: "string \<Rightarrow> string \<Rightarrow> probe_stream" where
  "demo_probe_stream t rate =
     \<lparr>ps_codec_name = ''flac'', ps_codec_type = t, ps_profile = '''', ps_sample_rate = ''44100'',
      ps_bit_rate = rate, ps_channels = 2, ps_bits_per_sample = 0, ps_bits_per_raw_sample = ''16''\<rparr>"

lemma probe_reads_first_audio_witness:
  "\<exists>p. parse_probe_output
         (\<lambda>_. Inr \<lparr>po_streams = [demo_probe_stream ''video'' ''5'', demo_probe_stream ''audio'' ''''],
                   po_format_bit_rate = ''912345''\<rparr>) ''{}'' = Inr p
     \<and> ap_bit_rate p = 912"
proof -
  have v: "parse_int64 10 ''912345'' = Some 912345" by code_simp
  show ?thesis
    using probe_reads_first_audio [where before = "[demo_probe_stream ''video'' ''5'']"
        and s = "demo_probe_stream ''audio'' ''''" and after = "[]" and bps = 0 and total_bps = 912345
        and unmarshal = "\<lambda>_. Inr \<lparr>po_streams = [demo_probe_stream ''video'' ''5'', demo_probe_stream ''audio'' ''''],
                   po_format_bit_rate = ''912345''\<rparr>", OF refl] v
    by (auto simp: demo_probe_stream_def)
qed

text \<open>
  What is kept of a failing command's error output is its first bytes, up to the limit, in
  whatever pieces it is written.
\<close>

lemma limited_writer_keeps_prefix:
  "limited_writes limit ps '''' = take limit (concat ps)"
  by (simp add: limited_writes_take)

end
