(* ===== verification/Steps.thy ===== *)
theory Steps
  imports Main
begin

text \<open>
  Labelled transition systems: the states reached by steps with labels from a set, and the rule
  that an invariant of the start and of every step holds of all of them. The components with
  long-lived state interpret \<open>invariant\<close> on their own steps.
\<close>

inductive reached :: "('s \<Rightarrow> 'l \<Rightarrow> 's \<Rightarrow> bool) \<Rightarrow> ('s \<Rightarrow> bool) \<Rightarrow> 'l set \<Rightarrow> 's \<Rightarrow> bool"
  for step init ls where
  start: "init s \<Longrightarrow> reached step init ls s"
| step: "reached step init ls s \<Longrightarrow> l \<in> ls \<Longrightarrow> step s l s' \<Longrightarrow> reached step init ls s'"

locale invariant =
  fixes step :: "'s \<Rightarrow> 'l \<Rightarrow> 's \<Rightarrow> bool" and init :: "'s \<Rightarrow> bool" and ls :: "'l set"
    and inv :: "'s \<Rightarrow> bool"
  assumes init_inv: "init s \<Longrightarrow> inv s"
    and step_inv: "inv s \<Longrightarrow> l \<in> ls \<Longrightarrow> step s l s' \<Longrightarrow> inv s'"
begin

lemma reached_inv: "reached step init ls s \<Longrightarrow> inv s"
  by (induction rule: reached.induct) (auto intro: init_inv step_inv)

end

lemma reached_mono: "reached step init ls s \<Longrightarrow> ls \<subseteq> ls' \<Longrightarrow> reached step init ls' s"
  by (induction rule: reached.induct) (auto intro: reached.intros)

lemma reached_by:
  "step s l s' \<Longrightarrow> reached step init ls s \<Longrightarrow> l \<in> ls \<Longrightarrow> reached step init ls s'"
  by (rule reached.step)

lemma reached_init: "init s \<Longrightarrow> reached step init ls s"
  by (rule reached.start)

end
