(* ===== verification/TaskQueue.thy ===== *)
theory TaskQueue
  imports Prelude Steps "HOL-Library.Word"
begin

text \<open>
  The task queues of a plugin (\<open>plugins/host_taskqueue.go\<close>). The state is the table of tasks,
  which outlives the process, the rows of the queue table, and what the service keeps in memory:
  its queues and, for each worker that is busy, the task it took. A SQL statement may fail; whether
  it does is an argument of the operation. Times are milliseconds and are arguments too. The
  goroutines are steps: a worker takes a task in one step and finishes it in another.
\<close>

section \<open>The state\<close>

datatype task_status = Task_pending | Task_running | Task_completed | Task_failed | Task_cancelled

record queue_config =
  qc_concurrency :: int
  qc_max_retries :: int
  qc_backoff_ms :: int
  qc_delay_ms :: int
  qc_retention_ms :: int

record task =
  task_id :: string
  task_queue :: string
  task_payload :: string
  task_status :: task_status
  task_attempt :: int
  task_max_retries :: int
  task_next_run_at :: int
  task_created_at :: int
  task_updated_at :: int
  task_message :: string

text \<open>What a worker holds between taking a task and finishing it.\<close>

record job =
  job_queue :: string
  job_task :: string
  job_attempt :: int
  job_max_retries :: int

record task_service =
  ts_tasks :: "task list"
  ts_rows :: "string \<rightharpoonup> queue_config"
  ts_max_concurrency :: int
  ts_queues :: "(string \<times> queue_config) list"
  ts_jobs :: "job list"

definition default_concurrency :: int where "default_concurrency = 1"
definition default_backoff_ms :: int where "default_backoff_ms = 1000"
definition default_retention_ms :: int where "default_retention_ms = 3600000"
definition min_retention_ms :: int where "min_retention_ms = 60000"
definition max_retention_ms :: int where "max_retention_ms = 604800000"
definition max_queue_name_length :: nat where "max_queue_name_length = 128"
definition max_payload_size :: nat where "max_payload_size = 1024 * 1024"
definition max_backoff_ms :: int where "max_backoff_ms = 3600000"

lemmas task_consts = default_concurrency_def default_backoff_ms_def default_retention_ms_def
  min_retention_ms_def max_retention_ms_def max_queue_name_length_def max_payload_size_def
  max_backoff_ms_def

section \<open>Queues\<close>

definition apply_config_defaults :: "queue_config \<Rightarrow> queue_config" where
  "apply_config_defaults c0 =
     (let c1 = (if qc_concurrency c0 \<le> 0 then c0\<lparr>qc_concurrency := default_concurrency\<rparr> else c0);
          c2 = (if qc_backoff_ms c1 \<le> 0 then c1\<lparr>qc_backoff_ms := default_backoff_ms\<rparr> else c1);
          c3 = (if qc_retention_ms c2 \<le> 0 then c2\<lparr>qc_retention_ms := default_retention_ms\<rparr> else c2);
          c4 = (if qc_retention_ms c3 < min_retention_ms
                then c3\<lparr>qc_retention_ms := min_retention_ms\<rparr> else c3)
      in if qc_retention_ms c4 > max_retention_ms
         then c4\<lparr>qc_retention_ms := max_retention_ms\<rparr> else c4)"

definition allocated :: "(string \<times> queue_config) list \<Rightarrow> int" where
  "allocated qs = sum_list (map (\<lambda>(n, c). qc_concurrency c) qs)"

datatype task_error =
    Queue_name_empty
  | Queue_name_too_long
  | Budget_exhausted
  | Queue_exists
  | Queue_missing
  | Payload_too_large
  | Task_not_found
  | Not_cancellable task_status
  | Sql_error

definition clamp_concurrency :: "task_service \<Rightarrow> queue_config \<Rightarrow> task_error + queue_config" where
  "clamp_concurrency s c =
     (let available = ts_max_concurrency s - allocated (ts_queues s)
      in if available \<le> 0 then Inl Budget_exhausted
         else if qc_concurrency c > available then Inr (c\<lparr>qc_concurrency := available\<rparr>)
         else Inr c)"

definition reset_running :: "int \<Rightarrow> (task \<Rightarrow> bool) \<Rightarrow> task list \<Rightarrow> task list" where
  "reset_running now P ts =
     map (\<lambda>t. if P t \<and> task_status t = Task_running
              then t\<lparr>task_status := Task_pending, task_updated_at := now\<rparr> else t) ts"

definition create_queue ::
  "bool \<Rightarrow> bool \<Rightarrow> int \<Rightarrow> string \<Rightarrow> queue_config \<Rightarrow> task_service \<Rightarrow> task_service \<times> task_error option" where
  "create_queue upsert_ok reset_ok now name config0 s =
     (if length name = 0 then (s, Some Queue_name_empty)
      else if length name > max_queue_name_length then (s, Some Queue_name_too_long)
      else case clamp_concurrency s (apply_config_defaults config0) of
             Inl e \<Rightarrow> (s, Some e)
           | Inr config \<Rightarrow>
               if name \<in> fst ` set (ts_queues s) then (s, Some Queue_exists)
               else if \<not> upsert_ok then (s, Some Sql_error)
               else
                 (let s1 = s\<lparr>ts_rows := (ts_rows s)(name \<mapsto> config)\<rparr>
                  in if \<not> reset_ok then (s1, Some Sql_error)
                     else (s1\<lparr>ts_tasks := reset_running now (\<lambda>t. task_queue t = name) (ts_tasks s1),
                              ts_queues := ts_queues s1 @ [(name, config)]\<rparr>, None)))"

section \<open>Requests\<close>

text \<open>The insertion also fails when the random ID is already in the table (a primary key).\<close>

definition enqueue ::
  "bool \<Rightarrow> int \<Rightarrow> string \<Rightarrow> string \<Rightarrow> string \<Rightarrow> task_service \<Rightarrow> task_service \<times> (task_error + string)" where
  "enqueue insert_ok now new_id queue_name payload s =
     (case map_of (ts_queues s) queue_name of
        None \<Rightarrow> (s, Inl Queue_missing)
      | Some c \<Rightarrow>
          if length payload > max_payload_size then (s, Inl Payload_too_large)
          else if \<not> insert_ok \<or> new_id \<in> task_id ` set (ts_tasks s) then (s, Inl Sql_error)
          else (s\<lparr>ts_tasks := ts_tasks s @
                   [\<lparr>task_id = new_id, task_queue = queue_name, task_payload = payload,
                     task_status = Task_pending, task_attempt = 0, task_max_retries = qc_max_retries c,
                     task_next_run_at = now, task_created_at = now, task_updated_at = now,
                     task_message = ''''\<rparr>]\<rparr>, Inr new_id))"

definition find_task :: "string \<Rightarrow> task list \<Rightarrow> task option" where
  "find_task i ts = find (\<lambda>t. task_id t = i) ts"

definition get_task :: "string \<Rightarrow> task_service \<Rightarrow> task_error + task_status \<times> string \<times> int" where
  "get_task i s =
     (case find_task i (ts_tasks s) of
        None \<Rightarrow> Inl Task_not_found
      | Some t \<Rightarrow> Inr (task_status t, task_message t, task_attempt t))"

definition update_tasks :: "(task \<Rightarrow> bool) \<Rightarrow> (task \<Rightarrow> task) \<Rightarrow> task_service \<Rightarrow> task_service" where
  "update_tasks P f s = s\<lparr>ts_tasks := map (\<lambda>t. if P t then f t else t) (ts_tasks s)\<rparr>"

definition cancel_task :: "bool \<Rightarrow> int \<Rightarrow> string \<Rightarrow> task_service \<Rightarrow> task_service \<times> task_error option" where
  "cancel_task update_ok now i s =
     (if \<not> update_ok then (s, Some Sql_error)
      else if \<exists>t \<in> set (ts_tasks s). task_id t = i \<and> task_status t = Task_pending then
        (update_tasks (\<lambda>t. task_id t = i \<and> task_status t = Task_pending)
           (\<lambda>t. t\<lparr>task_status := Task_cancelled, task_updated_at := now\<rparr>) s, None)
      else case find_task i (ts_tasks s) of
             None \<Rightarrow> (s, Some Task_not_found)
           | Some t \<Rightarrow> (s, Some (Not_cancellable (task_status t))))"

definition clear_queue :: "bool \<Rightarrow> int \<Rightarrow> string \<Rightarrow> task_service \<Rightarrow> task_service \<times> (task_error + nat)" where
  "clear_queue update_ok now queue_name s =
     (case map_of (ts_queues s) queue_name of
        None \<Rightarrow> (s, Inl Queue_missing)
      | Some _ \<Rightarrow>
          if \<not> update_ok then (s, Inl Sql_error)
          else (update_tasks (\<lambda>t. task_queue t = queue_name \<and> task_status t = Task_pending)
                  (\<lambda>t. t\<lparr>task_status := Task_cancelled, task_updated_at := now\<rparr>) s,
                Inr (length (filter (\<lambda>t. task_queue t = queue_name \<and> task_status t = Task_pending)
                       (ts_tasks s)))))"

section \<open>Workers\<close>

text \<open>
  The order in which tasks run: \<open>next_run_at\<close>, then \<open>created_at\<close>. SQL leaves ties open, so
  any task with the least key may be taken.
\<close>

datatype run_key = Run_key int int

instantiation run_key :: linorder
begin

fun less_eq_run_key :: "run_key \<Rightarrow> run_key \<Rightarrow> bool" where
  "less_eq_run_key (Run_key n c) (Run_key n' c') \<longleftrightarrow> n < n' \<or> n = n' \<and> c \<le> c'"

definition less_run_key :: "run_key \<Rightarrow> run_key \<Rightarrow> bool" where
  "less_run_key k k' \<longleftrightarrow> k \<le> k' \<and> \<not> k' \<le> (k :: run_key)"

instance
proof
  fix x y z :: run_key
  show "x < y \<longleftrightarrow> x \<le> y \<and> \<not> y \<le> x" by (simp add: less_run_key_def)
  show "x \<le> x" by (cases x) simp
  show "x \<le> y \<Longrightarrow> y \<le> z \<Longrightarrow> x \<le> z" by (cases x; cases y; cases z) auto
  show "x \<le> y \<Longrightarrow> y \<le> x \<Longrightarrow> x = y" by (cases x; cases y) auto
  show "x \<le> y \<or> y \<le> x" by (cases x; cases y) auto
qed

end

definition run_key :: "task \<Rightarrow> run_key" where
  "run_key t = Run_key (task_next_run_at t) (task_created_at t)"

definition is_ready :: "int \<Rightarrow> string \<Rightarrow> task \<Rightarrow> bool" where
  "is_ready now queue_name t \<longleftrightarrow>
     task_queue t = queue_name \<and> task_status t = Task_pending \<and> task_next_run_at t \<le> now"

definition is_next :: "int \<Rightarrow> string \<Rightarrow> task_service \<Rightarrow> task \<Rightarrow> bool" where
  "is_next now queue_name s t \<longleftrightarrow>
     t \<in> set (ts_tasks s) \<and> is_ready now queue_name t
     \<and> (\<forall>u \<in> set (ts_tasks s). is_ready now queue_name u \<longrightarrow> run_key t \<le> run_key u)"

definition busy :: "string \<Rightarrow> task_service \<Rightarrow> nat" where
  "busy queue_name s = length (filter (\<lambda>j. job_queue j = queue_name) (ts_jobs s))"

text \<open>The \<open>UPDATE ... RETURNING\<close> of \<open>processTask\<close>, for the row it selected.\<close>

definition take_task :: "int \<Rightarrow> string \<Rightarrow> task \<Rightarrow> task_service \<Rightarrow> task_service" where
  "take_task now queue_name t s =
     (update_tasks (\<lambda>u. task_id u = task_id t)
        (\<lambda>u. u\<lparr>task_status := Task_running, task_attempt := task_attempt u + 1,
               task_updated_at := now\<rparr>) s)
     \<lparr>ts_jobs := ts_jobs s @
        [\<lparr>job_queue = queue_name, job_task = task_id t, job_attempt = task_attempt t + 1,
          job_max_retries = task_max_retries t\<rparr>]\<rparr>"

definition complete_task :: "int \<Rightarrow> string \<Rightarrow> string \<Rightarrow> task_service \<Rightarrow> task_service" where
  "complete_task now i message s =
     update_tasks (\<lambda>t. task_id t = i)
       (\<lambda>t. t\<lparr>task_status := Task_completed, task_message := message, task_updated_at := now\<rparr>) s"

text \<open>
  \<open>BackoffMs << (attempt - 1)\<close> on \<open>int64\<close>: bits shifted out are lost, and the sign bit is one
  of those that remain.
\<close>

definition retry_backoff :: "int \<Rightarrow> int \<Rightarrow> int" where
  "retry_backoff backoff_ms attempt =
     (let backoff = sint (push_bit (nat (attempt - 1)) (word_of_int backoff_ms :: 64 word))
      in if backoff \<le> 0 \<or> backoff > max_backoff_ms then max_backoff_ms else backoff)"

definition handle_task_failure ::
  "int \<Rightarrow> string \<Rightarrow> int \<Rightarrow> int \<Rightarrow> queue_config \<Rightarrow> string \<Rightarrow> string \<Rightarrow> task_service \<Rightarrow> task_service" where
  "handle_task_failure now i attempt max_retries c callback_err message0 s =
     (let message = (if message0 = '''' then callback_err else message0)
      in if attempt > max_retries then
           update_tasks (\<lambda>t. task_id t = i)
             (\<lambda>t. t\<lparr>task_status := Task_failed, task_message := message, task_updated_at := now\<rparr>) s
         else
           update_tasks (\<lambda>t. task_id t = i)
             (\<lambda>t. t\<lparr>task_status := Task_pending,
                    task_next_run_at := now + retry_backoff (qc_backoff_ms c) attempt,
                    task_updated_at := now\<rparr>) s)"

definition revert_task_to_pending :: "int \<Rightarrow> string \<Rightarrow> task_service \<Rightarrow> task_service" where
  "revert_task_to_pending now i s =
     update_tasks (\<lambda>t. task_id t = i \<and> task_status t = Task_running)
       (\<lambda>t. t\<lparr>task_status := Task_pending, task_attempt := max (task_attempt t - 1) 0,
              task_updated_at := now\<rparr>) s"

text \<open>
  The end of a job: the service was shut down while it waited for the rate limiter or in the
  callback, or the callback returned a message, or an error with a message.
\<close>

datatype outcome = Interrupted | Returned string | Raised string string

definition finish_job ::
  "bool \<Rightarrow> int \<Rightarrow> job \<Rightarrow> queue_config \<Rightarrow> outcome \<Rightarrow> task_service \<Rightarrow> task_service" where
  "finish_job update_ok now j c out s =
     (let s' = (if \<not> update_ok then s
                else case out of
                       Interrupted \<Rightarrow> revert_task_to_pending now (job_task j) s
                     | Returned message \<Rightarrow> complete_task now (job_task j) message s
                     | Raised err message \<Rightarrow>
                         handle_task_failure now (job_task j) (job_attempt j) (job_max_retries j) c
                           err message s)
      in s'\<lparr>ts_jobs := remove1 j (ts_jobs s')\<rparr>)"

section \<open>Cleanup, shutdown and crash\<close>

definition is_terminal :: "task_status \<Rightarrow> bool" where
  "is_terminal st \<longleftrightarrow> st = Task_completed \<or> st = Task_failed \<or> st = Task_cancelled"

definition is_expired :: "int \<Rightarrow> string \<Rightarrow> queue_config \<Rightarrow> task \<Rightarrow> bool" where
  "is_expired now name c t \<longleftrightarrow>
     task_queue t = name \<and> is_terminal (task_status t) \<and> task_updated_at t + qc_retention_ms c < now"

definition run_cleanup :: "(string \<Rightarrow> bool) \<Rightarrow> int \<Rightarrow> task_service \<Rightarrow> task_service" where
  "run_cleanup delete_ok now s =
     fold (\<lambda>(name, c) s. if delete_ok name
             then s\<lparr>ts_tasks := filter (\<lambda>t. \<not> is_expired now name c t) (ts_tasks s)\<rparr> else s)
       (ts_queues s) s"

text \<open>
  \<open>Close\<close> resets the tasks still running when the workers were given up on. After it, or after a
  crash, a new service starts with the table as it is and no queue.
\<close>

definition close_service :: "bool \<Rightarrow> int \<Rightarrow> task_service \<Rightarrow> task_service" where
  "close_service update_ok now s =
     (if update_ok then s\<lparr>ts_tasks := reset_running now (\<lambda>t. True) (ts_tasks s)\<rparr> else s)"

definition restart :: "int \<Rightarrow> task_service \<Rightarrow> task_service" where
  "restart max_concurrency s =
     s\<lparr>ts_max_concurrency := max_concurrency, ts_queues := [], ts_jobs := []\<rparr>"

definition new_service :: "int \<Rightarrow> task_service" where
  "new_service max_concurrency =
     \<lparr>ts_tasks = [], ts_rows = Map.empty, ts_max_concurrency = max_concurrency, ts_queues = [],
      ts_jobs = []\<rparr>"

section \<open>Steps\<close>

text \<open>
  The clock may go back. A worker takes a task only when it is free: a queue has as many workers
  as its concurrency. \<open>Shut_down\<close> is \<open>Close\<close> or a crash, and the next start.
\<close>

datatype task_event =
    Ev_create string | Ev_enqueue string string string | Ev_cancel string | Ev_clear string
  | Ev_take string string | Ev_finish job outcome | Ev_cleanup int | Ev_shut_down

inductive task_step :: "task_service \<Rightarrow> task_event \<Rightarrow> task_service \<Rightarrow> bool" where
  create: "create_queue ok1 ok2 now name config s = (s', e) \<Longrightarrow> task_step s (Ev_create name) s'"
| enqueue: "enqueue ok now i name payload s = (s', r) \<Longrightarrow> task_step s (Ev_enqueue name i payload) s'"
| cancel: "cancel_task ok now i s = (s', e) \<Longrightarrow> task_step s (Ev_cancel i) s'"
| clear: "clear_queue ok now name s = (s', r) \<Longrightarrow> task_step s (Ev_clear name) s'"
| take: "map_of (ts_queues s) name = Some c \<Longrightarrow> int (busy name s) < qc_concurrency c \<Longrightarrow>
    is_next now name s t \<Longrightarrow> task_step s (Ev_take name (task_id t)) (take_task now name t s)"
| finish: "j \<in> set (ts_jobs s) \<Longrightarrow> map_of (ts_queues s) (job_queue j) = Some c \<Longrightarrow>
    task_step s (Ev_finish j out) (finish_job ok now j c out s)"
| cleanup: "task_step s (Ev_cleanup now) (run_cleanup ok now s)"
| close: "0 \<le> n \<Longrightarrow> task_step s Ev_shut_down (restart n (close_service ok now s))"
| crash: "0 \<le> n \<Longrightarrow> task_step s Ev_shut_down (restart n s)"

inductive_cases task_stepE: "task_step s l s'"

definition is_new_service :: "task_service \<Rightarrow> bool" where
  "is_new_service s \<longleftrightarrow> (\<exists>n \<ge> 0. s = new_service n)"

section \<open>The invariant\<close>

definition queues_ok :: "task_service \<Rightarrow> bool" where
  "queues_ok s \<longleftrightarrow> distinct (map fst (ts_queues s))
     \<and> (\<forall>(n, c) \<in> set (ts_queues s). 1 \<le> qc_concurrency c)
     \<and> allocated (ts_queues s) \<le> ts_max_concurrency s"

definition job_task_ok :: "task_service \<Rightarrow> job \<Rightarrow> bool" where
  "job_task_ok s j \<longleftrightarrow>
     (\<exists>t \<in> set (ts_tasks s). task_id t = job_task j \<and> task_queue t = job_queue j
        \<and> task_status t = Task_running \<and> task_attempt t = job_attempt j
        \<and> task_max_retries t = job_max_retries j)"

definition jobs_ok :: "task_service \<Rightarrow> bool" where
  "jobs_ok s \<longleftrightarrow> distinct (map job_task (ts_jobs s))
     \<and> (\<forall>j \<in> set (ts_jobs s). job_queue j \<in> fst ` set (ts_queues s) \<and> job_task_ok s j)
     \<and> (\<forall>n c. map_of (ts_queues s) n = Some c \<longrightarrow> int (busy n s) \<le> qc_concurrency c)"

definition service_ok :: "task_service \<Rightarrow> bool" where
  "service_ok s \<longleftrightarrow> distinct (map task_id (ts_tasks s)) \<and> queues_ok s \<and> jobs_ok s"

lemma allocated_append [simp]: "allocated (qs @ [(n, c)]) = allocated qs + qc_concurrency c"
  by (simp add: allocated_def)

lemma ids_map: "(\<And>t. task_id (f t) = task_id t) \<Longrightarrow> map task_id (map f ts) = map task_id ts"
  by simp

lemma update_tasks_sel [simp]:
  "ts_queues (update_tasks P f s) = ts_queues s" "ts_jobs (update_tasks P f s) = ts_jobs s"
  "ts_max_concurrency (update_tasks P f s) = ts_max_concurrency s"
  "ts_tasks (update_tasks P f s) = map (\<lambda>t. if P t then f t else t) (ts_tasks s)"
  "busy n (update_tasks P f s) = busy n s"
  by (simp_all add: update_tasks_def busy_def)

text \<open>
  An update of the table that leaves the tasks of the jobs alone, and the IDs of all, keeps the
  invariant; the requests, the resets and the cleanup are of this kind.
\<close>

lemma service_ok_tasks:
  assumes "service_ok s" "ts_queues s' = ts_queues s" "ts_jobs s' = ts_jobs s"
    "ts_max_concurrency s' = ts_max_concurrency s" "distinct (map task_id (ts_tasks s'))"
    "\<And>t. t \<in> set (ts_tasks s) \<Longrightarrow> task_status t = Task_running \<Longrightarrow>
       task_id t \<in> job_task ` set (ts_jobs s) \<Longrightarrow> t \<in> set (ts_tasks s')"
  shows "service_ok s'"
proof -
  have "job_task_ok s' j" if "j \<in> set (ts_jobs s)" for j
    using that assms(1,6) unfolding service_ok_def jobs_ok_def job_task_ok_def by (metis image_eqI)
  then show ?thesis
    using assms by (auto simp: service_ok_def queues_ok_def jobs_ok_def busy_def)
qed

lemma update_tasks_ok:
  assumes "service_ok s" "\<And>t. task_id (f t) = task_id t"
    "\<And>t. P t \<Longrightarrow> task_status t = Task_running \<Longrightarrow> task_id t \<notin> job_task ` set (ts_jobs s)"
  shows "service_ok (update_tasks P f s)"
proof (rule service_ok_tasks [OF assms(1)])
  have "map task_id (ts_tasks (update_tasks P f s)) = map task_id (ts_tasks s)"
    using assms(2) by simp
  then show "distinct (map task_id (ts_tasks (update_tasks P f s)))"
    using assms(1) by (simp only: service_ok_def)
  show "t \<in> set (ts_tasks (update_tasks P f s))"
    if "t \<in> set (ts_tasks s)" "task_status t = Task_running" "task_id t \<in> job_task ` set (ts_jobs s)" for t
    using that assms(3) [of t] by (auto intro: rev_image_eqI)
qed simp_all

lemma reset_running_update:
  "s\<lparr>ts_tasks := reset_running now P (ts_tasks s)\<rparr>
     = update_tasks (\<lambda>t. P t \<and> task_status t = Task_running)
         (\<lambda>t. t\<lparr>task_status := Task_pending, task_updated_at := now\<rparr>) s"
  by (simp add: update_tasks_def reset_running_def)

lemma clamp_concurrency_SomeD:
  assumes "clamp_concurrency s (apply_config_defaults c) = Inr c'"
  shows "1 \<le> qc_concurrency c'" "allocated (ts_queues s) + qc_concurrency c' \<le> ts_max_concurrency s"
proof -
  have "1 \<le> qc_concurrency (apply_config_defaults c)"
    by (simp add: apply_config_defaults_def Let_def task_consts)
  then show "1 \<le> qc_concurrency c'" "allocated (ts_queues s) + qc_concurrency c' \<le> ts_max_concurrency s"
    using assms by (auto simp: clamp_concurrency_def Let_def split: if_splits)
qed

lemma busy_no_queue:
  "jobs_ok s \<Longrightarrow> n \<notin> fst ` set (ts_queues s) \<Longrightarrow> busy n s = 0"
  by (auto simp: jobs_ok_def busy_def filter_empty_conv)

lemma create_queue_ok [step_keeps]:
  assumes "create_queue ok1 ok2 now name config s = (s', e)" "service_ok s"
  shows "service_ok s'"
proof (cases "s' = s")
  case True
  then show ?thesis using assms(2) by simp
next
  case False
  with assms(1) obtain c where c: "clamp_concurrency s (apply_config_defaults config) = Inr c"
    and new: "name \<notin> fst ` set (ts_queues s)"
    and s': "s' = s\<lparr>ts_rows := (ts_rows s)(name \<mapsto> c)\<rparr> \<or>
      s' = (update_tasks (\<lambda>t. task_queue t = name \<and> task_status t = Task_running)
         (\<lambda>t. t\<lparr>task_status := Task_pending, task_updated_at := now\<rparr>)
         (s\<lparr>ts_rows := (ts_rows s)(name \<mapsto> c)\<rparr>))\<lparr>ts_queues := ts_queues s @ [(name, c)]\<rparr>"
    by (auto simp: create_queue_def Let_def reset_running_update [symmetric] split: if_splits sum.splits)
  let ?s1 = "s\<lparr>ts_rows := (ts_rows s)(name \<mapsto> c)\<rparr>"
  have ok1: "service_ok ?s1" by (rule service_ok_tasks [OF assms(2)]) (use assms(2) in \<open>auto simp: service_ok_def\<close>)
  have free: "task_id t \<notin> job_task ` set (ts_jobs s)"
    if "t \<in> set (ts_tasks s)" "task_queue t = name" for t
  proof
    assume "task_id t \<in> job_task ` set (ts_jobs s)"
    then obtain j where j: "j \<in> set (ts_jobs s)" "job_task j = task_id t" by auto
    then obtain u where "u \<in> set (ts_tasks s)" "task_id u = task_id t" "task_queue u = job_queue j"
      "job_queue j \<in> fst ` set (ts_queues s)"
      using assms(2) by (force simp: service_ok_def jobs_ok_def job_task_ok_def)
    moreover have "u = t" using assms(2) that(1) calculation(1,2)
      by (auto simp: service_ok_def distinct_map inj_on_def)
    ultimately show False using new that(2) by simp
  qed
  have ok2: "service_ok (update_tasks (\<lambda>t. task_queue t = name \<and> task_status t = Task_running)
         (\<lambda>t. t\<lparr>task_status := Task_pending, task_updated_at := now\<rparr>) ?s1)" (is "service_ok ?s2")
  proof (rule service_ok_tasks [OF ok1])
    show "distinct (map task_id (ts_tasks ?s2))"
      using assms(2) by (simp add: service_ok_def o_def if_distrib [of task_id] cong: if_cong)
    show "t \<in> set (ts_tasks ?s2)"
      if "t \<in> set (ts_tasks ?s1)" "task_status t = Task_running" "task_id t \<in> job_task ` set (ts_jobs ?s1)" for t
      using that free [of t] by (auto intro: rev_image_eqI)
  qed simp_all
  have "busy name s = 0" using assms(2) new by (simp add: service_ok_def busy_no_queue)
  then have "service_ok (?s2\<lparr>ts_queues := ts_queues s @ [(name, c)]\<rparr>)"
    using ok2 new clamp_concurrency_SomeD [OF c]
    by (auto simp: service_ok_def queues_ok_def jobs_ok_def job_task_ok_def busy_def map_add_def
        split: option.splits)
  with s' ok1 show ?thesis by auto
qed

lemma enqueue_ok [step_keeps]:
  assumes "enqueue ok now i name payload s = (s', r)" "service_ok s"
  shows "service_ok s'"
proof (rule service_ok_tasks [OF assms(2)])
  show "distinct (map task_id (ts_tasks s'))"
    using assms by (auto simp: enqueue_def service_ok_def split: option.splits if_splits)
qed (use assms(1) in \<open>auto simp: enqueue_def split: option.splits if_splits\<close>)

lemma cancel_task_ok [step_keeps]:
  "cancel_task ok now i s = (s', e) \<Longrightarrow> service_ok s \<Longrightarrow> service_ok s'"
  by (auto simp: cancel_task_def intro!: update_tasks_ok split: if_splits option.splits)

lemma clear_queue_ok [step_keeps]:
  "clear_queue ok now n s = (s', r) \<Longrightarrow> service_ok s \<Longrightarrow> service_ok s'"
  by (auto simp: clear_queue_def intro!: update_tasks_ok split: if_splits option.splits)

lemma run_cleanup_sel [simp]:
  "ts_queues (run_cleanup ok now s) = ts_queues s" "ts_jobs (run_cleanup ok now s) = ts_jobs s"
  "ts_max_concurrency (run_cleanup ok now s) = ts_max_concurrency s"
proof -
  let ?f = "\<lambda>(name, c) s. if ok name
             then s\<lparr>ts_tasks := filter (\<lambda>t. \<not> is_expired now name c t) (ts_tasks s)\<rparr> else s"
  have "ts_queues (fold ?f qs s) = ts_queues s \<and> ts_jobs (fold ?f qs s) = ts_jobs s
      \<and> ts_max_concurrency (fold ?f qs s) = ts_max_concurrency s" for qs
    by (induction qs arbitrary: s) auto
  then show "ts_queues (run_cleanup ok now s) = ts_queues s" "ts_jobs (run_cleanup ok now s) = ts_jobs s"
    "ts_max_concurrency (run_cleanup ok now s) = ts_max_concurrency s"
    by (simp_all add: run_cleanup_def)
qed

lemma run_cleanup_tasks:
  "ts_tasks (run_cleanup ok now s)
     = filter (\<lambda>t. \<not> (\<exists>(n, c) \<in> set (ts_queues s). ok n \<and> is_expired now n c t)) (ts_tasks s)"
proof -
  have "ts_tasks (fold (\<lambda>(name, c) s. if ok name
             then s\<lparr>ts_tasks := filter (\<lambda>t. \<not> is_expired now name c t) (ts_tasks s)\<rparr> else s) qs s)
      = filter (\<lambda>t. \<not> (\<exists>(n, c) \<in> set qs. ok n \<and> is_expired now n c t)) (ts_tasks s)" for qs
    by (induction qs arbitrary: s) (auto intro: filter_cong)
  then show ?thesis by (simp add: run_cleanup_def)
qed

lemma run_cleanup_ok [step_keeps]: "service_ok s \<Longrightarrow> service_ok (run_cleanup ok now s)"
proof (rule service_ok_tasks [where s = s])
  assume "service_ok s"
  then show "distinct (map task_id (ts_tasks (run_cleanup ok now s)))"
    by (auto simp: run_cleanup_tasks service_ok_def distinct_map inj_on_def)
  show "t \<in> set (ts_tasks (run_cleanup ok now s))"
    if "t \<in> set (ts_tasks s)" "task_status t = Task_running" for t
    using that by (auto simp: run_cleanup_tasks is_expired_def is_terminal_def)
qed simp_all

lemma add_job_ok:
  assumes "service_ok s" "job_task_ok s j" "job_task j \<notin> job_task ` set (ts_jobs s)"
    "map_of (ts_queues s) (job_queue j) = Some c" "int (busy (job_queue j) s) < qc_concurrency c"
  shows "service_ok (s\<lparr>ts_jobs := ts_jobs s @ [j]\<rparr>)"
proof -
  have "job_queue j \<in> fst ` set (ts_queues s)" using map_of_SomeD [OF assms(4)] by force
  moreover have "busy n (s\<lparr>ts_jobs := ts_jobs s @ [j]\<rparr>) = busy n s + (if job_queue j = n then 1 else 0)" for n
    by (simp add: busy_def)
  moreover have "job_task_ok (s\<lparr>ts_jobs := js\<rparr>) k = job_task_ok s k" for js k
    by (simp add: job_task_ok_def)
  ultimately show ?thesis
    using assms by (auto simp: service_ok_def queues_ok_def jobs_ok_def dest: eq_key_imp_eq_value)
qed

lemma distinct_map_remove1: "distinct (map f xs) \<Longrightarrow> distinct (map f (remove1 x xs))"
  by (induction xs) (auto dest: notin_set_remove1, meson image_eqI notin_set_remove1)

lemma remove_job_ok:
  assumes "service_ok s"
  shows "service_ok (s\<lparr>ts_jobs := remove1 j (ts_jobs s)\<rparr>)"
proof -
  let ?s = "s\<lparr>ts_jobs := remove1 j (ts_jobs s)\<rparr>"
  have "int (busy n ?s) \<le> int (busy n s)" for n
    by (simp add: busy_def filter_remove1 length_remove1)
  then have "int (busy n ?s) \<le> qc_concurrency c" if "map_of (ts_queues s) n = Some c" for n c
    using assms that unfolding service_ok_def jobs_ok_def by (meson order_trans)
  moreover have "job_task_ok ?s k = job_task_ok s k" for k
    by (simp add: job_task_ok_def)
  moreover have "set (remove1 j (ts_jobs s)) \<subseteq> set (ts_jobs s)" by (rule set_remove1_subset)
  ultimately show ?thesis
    using assms distinct_map_remove1 [of job_task "ts_jobs s" j]
    unfolding service_ok_def queues_ok_def jobs_ok_def by (simp add: subset_iff)
qed

lemma take_task_ok [step_keeps]:
  assumes "service_ok s" "map_of (ts_queues s) name = Some c" "int (busy name s) < qc_concurrency c"
    "is_next now name s t"
  shows "service_ok (take_task now name t s)"
proof -
  have t: "t \<in> set (ts_tasks s)" "task_queue t = name" "task_status t = Task_pending"
    using assms(4) by (auto simp: is_next_def is_ready_def)
  have free: "task_id t \<notin> job_task ` set (ts_jobs s)"
  proof
    assume "task_id t \<in> job_task ` set (ts_jobs s)"
    then obtain u where "u \<in> set (ts_tasks s)" "task_id u = task_id t" "task_status u = Task_running"
      using assms(1) by (force simp: service_ok_def jobs_ok_def job_task_ok_def)
    moreover have "u = t" using assms(1) t(1) calculation(1,2)
      by (auto simp: service_ok_def distinct_map inj_on_def)
    ultimately show False using t(3) by simp
  qed
  let ?f = "\<lambda>u. u\<lparr>task_status := Task_running, task_attempt := task_attempt u + 1, task_updated_at := now\<rparr>"
  let ?j = "\<lparr>job_queue = name, job_task = task_id t, job_attempt = task_attempt t + 1,
          job_max_retries = task_max_retries t\<rparr>"
  let ?s = "update_tasks (\<lambda>u. task_id u = task_id t) ?f s"
  have ok: "service_ok ?s"
    by (rule update_tasks_ok [OF assms(1)]) (use free in auto)
  have "?f t \<in> set (ts_tasks ?s)" using t(1) by (auto intro: rev_image_eqI)
  then have jt: "job_task_ok ?s ?j"
    unfolding job_task_ok_def by (intro bexI [of _ "?f t"]) (simp_all add: t)
  show ?thesis unfolding take_task_def
    using add_job_ok [OF ok jt, of c] free assms(2,3) by simp
qed

lemma finish_job_ok [step_keeps]:
  assumes "service_ok s" "j \<in> set (ts_jobs s)"
  shows "service_ok (finish_job ok now j c out s)"
proof -
  let ?s0 = "s\<lparr>ts_jobs := remove1 j (ts_jobs s)\<rparr>"
  have d: "distinct (ts_jobs s)" using assms(1) by (auto simp: service_ok_def jobs_ok_def distinct_map)
  have free: "job_task j \<notin> job_task ` set (ts_jobs ?s0)"
    using assms d by (auto simp: service_ok_def jobs_ok_def distinct_map inj_on_def)
  have ok0: "service_ok ?s0" by (rule remove_job_ok [OF assms(1)])
  have upd: "service_ok (update_tasks P f ?s0)"
    if "\<And>t. task_id (f t) = task_id t" "\<And>t. P t \<Longrightarrow> task_id t = job_task j" for P f
    by (rule update_tasks_ok [OF ok0]) (use that free in auto)
  have swap: "(update_tasks P f s)\<lparr>ts_jobs := remove1 j (ts_jobs s)\<rparr> = update_tasks P f ?s0" for P f
    by (simp add: update_tasks_def)
  have rev: "service_ok ((revert_task_to_pending now (job_task j) s)\<lparr>ts_jobs := remove1 j (ts_jobs s)\<rparr>)"
    unfolding revert_task_to_pending_def swap by (rule upd) auto
  have com: "service_ok ((complete_task now (job_task j) m s)\<lparr>ts_jobs := remove1 j (ts_jobs s)\<rparr>)" for m
    unfolding complete_task_def swap by (rule upd) auto
  have fail: "service_ok ((handle_task_failure now (job_task j) a r c e m s)
      \<lparr>ts_jobs := remove1 j (ts_jobs s)\<rparr>)" for a r e m
    unfolding handle_task_failure_def Let_def by (auto simp: swap intro!: upd)
  have "ts_jobs (revert_task_to_pending now (job_task j) s) = ts_jobs s"
    "\<And>m. ts_jobs (complete_task now (job_task j) m s) = ts_jobs s"
    "\<And>a r e m. ts_jobs (handle_task_failure now (job_task j) a r c e m s) = ts_jobs s"
    by (simp_all add: revert_task_to_pending_def complete_task_def handle_task_failure_def Let_def)
  then show ?thesis
    using ok0 rev com fail by (cases out) (simp_all add: finish_job_def)
qed

lemma shut_down_ok [step_keeps]:
  assumes "service_ok s" "0 \<le> n"
  shows "service_ok (restart n s)" "service_ok (restart n (close_service ok now s))"
proof -
  have "map task_id (reset_running now (\<lambda>t. True) (ts_tasks s)) = map task_id (ts_tasks s)"
    by (simp add: reset_running_def)
  then show "service_ok (restart n s)" "service_ok (restart n (close_service ok now s))"
    using assms unfolding service_ok_def close_service_def
    by (simp_all add: restart_def queues_ok_def jobs_ok_def allocated_def busy_def)
qed

lemma task_step_ok: "task_step s l s' \<Longrightarrow> service_ok s \<Longrightarrow> service_ok s'"
  by (elim task_stepE) (auto intro: step_keeps)

interpretation service: invariant task_step is_new_service ls service_ok
proof
  show "service_ok s" if "is_new_service s" for s
    using that by (auto simp: is_new_service_def new_service_def service_ok_def queues_ok_def
        jobs_ok_def allocated_def busy_def)
qed (rule task_step_ok)

section \<open>What a step does to a task\<close>

definition next_status :: "task_status \<Rightarrow> task_status \<Rightarrow> bool" where
  "next_status a b \<longleftrightarrow>
     a = b \<or> a = Task_pending \<and> b \<in> {Task_running, Task_cancelled}
     \<or> a = Task_running \<and> b \<in> {Task_pending, Task_completed, Task_failed}"

text \<open>\<open>moved t u\<close>: \<open>u\<close> is what a step may make of the row \<open>t\<close>.\<close>

definition moved :: "task \<Rightarrow> task \<Rightarrow> bool" where
  "moved t u \<longleftrightarrow> task_id u = task_id t \<and> task_queue u = task_queue t \<and> task_payload u = task_payload t
     \<and> task_max_retries u = task_max_retries t \<and> task_created_at u = task_created_at t
     \<and> next_status (task_status t) (task_status u) \<and> (is_terminal (task_status t) \<longrightarrow> u = t)"

lemma moved_refl [simp]: "moved t t"
  by (simp add: moved_def next_status_def)

lemma update_moved:
  "t \<in> set (ts_tasks s) \<Longrightarrow> (P t \<Longrightarrow> moved t (f t)) \<Longrightarrow>
     \<exists>u \<in> set (ts_tasks (update_tasks P f s)). moved t u"
  by (cases "P t") (auto intro!: bexI [where x = "if P t then f t else t"])

lemma reset_moved: "t \<in> set ts \<Longrightarrow> \<exists>u \<in> set (reset_running now P ts). moved t u"
  unfolding reset_running_def
  by (intro bexI [where x = "if P t \<and> task_status t = Task_running
      then t\<lparr>task_status := Task_pending, task_updated_at := now\<rparr> else t"])
    (auto simp: moved_def next_status_def is_terminal_def)

lemma job_row_running:
  assumes "service_ok s" "j \<in> set (ts_jobs s)" "t \<in> set (ts_tasks s)" "task_id t = job_task j"
  shows "task_status t = Task_running" "task_attempt t = job_attempt j"
    "task_max_retries t = job_max_retries j"
proof -
  obtain u where u: "u \<in> set (ts_tasks s)" "task_id u = job_task j" "task_status u = Task_running"
    "task_attempt u = job_attempt j" "task_max_retries u = job_max_retries j"
    using assms(1,2) by (auto simp: service_ok_def jobs_ok_def job_task_ok_def)
  have "u = t" using assms(1,3,4) u(1,2) by (auto simp: service_ok_def distinct_map inj_on_def)
  with u show "task_status t = Task_running" "task_attempt t = job_attempt j"
    "task_max_retries t = job_max_retries j" by simp_all
qed

lemma next_row_pending:
  assumes "service_ok s" "is_next now name s t" "u \<in> set (ts_tasks s)" "task_id u = task_id t"
  shows "task_status u = Task_pending" "u = t"
proof -
  show "u = t" using assms by (auto simp: service_ok_def distinct_map inj_on_def is_next_def)
  then show "task_status u = Task_pending" using assms(2) by (simp add: is_next_def is_ready_def)
qed

text \<open>The row updates of the operations, each a legal move of the row it touches.\<close>

lemma movedI:
  "task_id u = task_id t \<Longrightarrow> task_queue u = task_queue t \<Longrightarrow> task_payload u = task_payload t \<Longrightarrow>
     task_max_retries u = task_max_retries t \<Longrightarrow> task_created_at u = task_created_at t \<Longrightarrow>
     \<not> is_terminal (task_status t) \<Longrightarrow> next_status (task_status t) (task_status u) \<Longrightarrow> moved t u"
  by (simp add: moved_def)

lemmas status_simps = next_status_def is_terminal_def

lemma finish_moved:
  assumes "service_ok s" "j \<in> set (ts_jobs s)" "t \<in> set (ts_tasks s)"
  shows "\<exists>u \<in> set (ts_tasks (finish_job ok now j c out s)). moved t u"
proof -
  have run: "task_status t = Task_running" if "task_id t = job_task j"
    using job_row_running(1) [OF assms(1-3) that] .
  have revert: "\<exists>u \<in> set (ts_tasks (revert_task_to_pending now (job_task j) s)). moved t u"
    unfolding revert_task_to_pending_def
    by (rule update_moved [OF assms(3)], rule movedI) (auto simp: status_simps)
  have complete: "\<exists>u \<in> set (ts_tasks (complete_task now (job_task j) m s)). moved t u" for m
    unfolding complete_task_def
    by (rule update_moved [OF assms(3)], rule movedI) (auto simp: status_simps run)
  have fail: "\<exists>u \<in> set (ts_tasks (handle_task_failure now (job_task j) a r c e m s)). moved t u" for a r e m
  proof (cases "a > r")
    case True
    show ?thesis unfolding handle_task_failure_def Let_def if_P [OF True]
      by (rule update_moved [OF assms(3)], rule movedI) (auto simp: status_simps run)
  next
    case False
    show ?thesis unfolding handle_task_failure_def Let_def if_not_P [OF False]
      by (rule update_moved [OF assms(3)], rule movedI) (auto simp: status_simps run)
  qed
  have same: "\<exists>u \<in> set (ts_tasks s). moved t u" using assms(3) by (auto intro: bexI [where x = t])
  show ?thesis
    using revert complete fail same by (cases ok; cases out) (auto simp: finish_job_def Let_def)
qed

lemma create_moved:
  "create_queue ok1 ok2 now name config s = (s', e) \<Longrightarrow> t \<in> set (ts_tasks s) \<Longrightarrow>
     \<exists>u \<in> set (ts_tasks s'). moved t u"
  by (auto simp: create_queue_def Let_def intro: reset_moved bexI [where x = t]
      split: if_splits sum.splits)

lemma cancel_moved:
  "t \<in> set (ts_tasks s) \<Longrightarrow> \<exists>u \<in> set (ts_tasks (update_tasks (\<lambda>t. P t \<and> task_status t = Task_pending)
      (\<lambda>t. t\<lparr>task_status := Task_cancelled, task_updated_at := now\<rparr>) s)). moved t u"
  by (rule update_moved, assumption, rule movedI) (auto simp: status_simps)

lemma request_moved:
  assumes "t \<in> set (ts_tasks s)"
  shows "enqueue ok now i name payload s = (s', r) \<Longrightarrow> \<exists>u \<in> set (ts_tasks s'). moved t u"
    and "cancel_task ok now i s = (s', e) \<Longrightarrow> \<exists>u \<in> set (ts_tasks s'). moved t u"
    and "clear_queue ok now name s = (s', n) \<Longrightarrow> \<exists>u \<in> set (ts_tasks s'). moved t u"
proof -
  have same: "\<exists>u \<in> set (ts_tasks s). moved t u" using assms by (auto intro: bexI [where x = t])
  show "enqueue ok now i name payload s = (s', r) \<Longrightarrow> \<exists>u \<in> set (ts_tasks s'). moved t u"
    using same by (auto simp: enqueue_def split: option.splits if_splits)
  show "cancel_task ok now i s = (s', e) \<Longrightarrow> \<exists>u \<in> set (ts_tasks s'). moved t u"
    using same cancel_moved [OF assms, of "\<lambda>t. task_id t = i" now]
    by (auto simp: cancel_task_def simp del: update_tasks_sel split: option.splits if_splits)
  show "clear_queue ok now name s = (s', n) \<Longrightarrow> \<exists>u \<in> set (ts_tasks s'). moved t u"
    using same cancel_moved [OF assms, of "\<lambda>t. task_queue t = name" now]
    by (auto simp: clear_queue_def simp del: update_tasks_sel split: option.splits if_splits)
qed

lemma take_moved:
  assumes "service_ok s" "is_next now name s t" "u \<in> set (ts_tasks s)"
  shows "\<exists>v \<in> set (ts_tasks (take_task now name t s)). moved u v"
proof -
  have "\<exists>v \<in> set (ts_tasks (update_tasks (\<lambda>u. task_id u = task_id t)
        (\<lambda>u. u\<lparr>task_status := Task_running, task_attempt := task_attempt u + 1,
               task_updated_at := now\<rparr>) s)). moved u v"
    using next_row_pending(1) [OF assms]
    by (intro update_moved [OF assms(3)] movedI) (auto simp: status_simps)
  then show ?thesis by (simp add: take_task_def)
qed

lemma task_step_moved:
  assumes "service_ok s" "task_step s l s'" "t \<in> set (ts_tasks s)"
  shows "(\<exists>u \<in> set (ts_tasks s'). moved t u)
     \<or> (\<exists>now c. l = Ev_cleanup now \<and> map_of (ts_queues s) (task_queue t) = Some c
           \<and> is_expired now (task_queue t) c t)"
  using assms(2)
proof (cases rule: task_step.cases)
  case (create ok1 ok2 now name config e)
  then show ?thesis using create_moved assms(3) by blast
next
  case (enqueue ok now i name payload r)
  then show ?thesis using request_moved(1) [OF assms(3)] by blast
next
  case (cancel ok now i e)
  then show ?thesis using request_moved(2) [OF assms(3)] by blast
next
  case (clear ok now name r)
  then show ?thesis using request_moved(3) [OF assms(3)] by blast
next
  case (take name c now u)
  then show ?thesis using take_moved [OF assms(1) _ assms(3)] by blast
next
  case (finish j c out ok now)
  then show ?thesis using finish_moved [OF assms(1) _ assms(3)] by blast
next
  case (cleanup now ok)
  have d: "distinct (map fst (ts_queues s))" using assms(1) by (simp add: service_ok_def queues_ok_def)
  show ?thesis
  proof (cases "t \<in> set (ts_tasks s')")
    case True
    then show ?thesis using moved_refl by blast
  next
    case False
    then obtain n c where "(n, c) \<in> set (ts_queues s)" "is_expired now n c t"
      using cleanup assms(3) by (auto simp: run_cleanup_tasks)
    moreover have "task_queue t = n" using calculation(2) by (simp add: is_expired_def)
    ultimately show ?thesis using cleanup d by simp
  qed
next
  case (close n ok now)
  have "\<exists>u \<in> set (ts_tasks s). moved t u" using assms(3) moved_refl by blast
  with close show ?thesis using reset_moved [OF assms(3), of now "\<lambda>t. True"]
    by (cases ok) (simp_all add: restart_def close_service_def)
next
  case (crash n)
  then show ?thesis using assms(3) by (auto simp: restart_def intro: bexI [where x = t])
qed

section \<open>The number of attempts\<close>

definition attempts_ok :: "task_service \<Rightarrow> task \<Rightarrow> bool" where
  "attempts_ok s t \<longleftrightarrow> task_queue t \<in> fst ` set (ts_queues s) \<and> 0 \<le> task_attempt t
     \<and> task_attempt t \<le> max 0 (task_max_retries t) + (if task_status t = Task_pending then 0 else 1)"

definition counted :: "task_service \<Rightarrow> bool" where
  "counted s \<longleftrightarrow> service_ok s \<and> (\<forall>t \<in> set (ts_tasks s). attempts_ok s t)"

lemma counted_update:
  assumes "\<forall>t \<in> set (ts_tasks s). attempts_ok s t"
    "\<And>t. t \<in> set (ts_tasks s) \<Longrightarrow> P t \<Longrightarrow> attempts_ok s t \<Longrightarrow> attempts_ok s (f t)"
  shows "\<forall>t \<in> set (ts_tasks (update_tasks P f s)). attempts_ok s t"
  using assms by auto

lemma counted_finish:
  assumes "counted s" "j \<in> set (ts_jobs s)"
  shows "\<forall>t \<in> set (ts_tasks (finish_job ok now j c out s)). attempts_ok s t"
proof -
  have a: "\<forall>t \<in> set (ts_tasks s). attempts_ok s t" and ok: "service_ok s"
    using assms(1) by (auto simp: counted_def)
  note row = job_row_running [OF ok assms(2)]
  have "\<forall>t \<in> set (ts_tasks (revert_task_to_pending now (job_task j) s)). attempts_ok s t"
    unfolding revert_task_to_pending_def
    by (rule counted_update [OF a]) (auto simp: attempts_ok_def max_def split: if_splits)
  moreover have "\<forall>t \<in> set (ts_tasks (complete_task now (job_task j) m s)). attempts_ok s t" for m
    unfolding complete_task_def
    by (rule counted_update [OF a]) (auto simp: attempts_ok_def max_def split: if_splits)
  moreover have "\<forall>t \<in> set (ts_tasks (handle_task_failure now (job_task j) (job_attempt j)
      (job_max_retries j) c e m s)). attempts_ok s t" for e m
  proof (cases "job_attempt j > job_max_retries j")
    case True
    show ?thesis unfolding handle_task_failure_def Let_def if_P [OF True]
      by (rule counted_update [OF a]) (auto simp: attempts_ok_def max_def split: if_splits)
  next
    case False
    show ?thesis unfolding handle_task_failure_def Let_def if_not_P [OF False]
      by (rule counted_update [OF a]) (use False row in \<open>auto simp: attempts_ok_def max_def\<close>)
  qed
  ultimately show ?thesis using a by (cases ok; cases out) (auto simp: finish_job_def Let_def)
qed

lemma counted_step:
  assumes "counted s" "task_step s l s'" "l \<noteq> Ev_shut_down"
  shows "counted s'"
proof -
  have a: "\<forall>t \<in> set (ts_tasks s). attempts_ok s t" and ok: "service_ok s"
    using assms(1) by (auto simp: counted_def)
  have qs: "attempts_ok s' t = attempts_ok s t" if "ts_queues s' = ts_queues s" for t
    using that by (simp add: attempts_ok_def)
  have cancelled: "\<forall>t \<in> set (ts_tasks s1). attempts_ok s1 t"
    if "s1 = update_tasks (\<lambda>t. P t \<and> task_status t = Task_pending)
        (\<lambda>t. t\<lparr>task_status := Task_cancelled, task_updated_at := now\<rparr>) s" for P now s1
  proof -
    have "\<forall>t \<in> set (ts_tasks s1). attempts_ok s t"
      unfolding that by (rule counted_update [OF a]) (auto simp: attempts_ok_def)
    then show ?thesis using that by (simp add: attempts_ok_def)
  qed
  have "\<forall>t \<in> set (ts_tasks s'). attempts_ok s' t"
    using assms(2)
  proof (cases rule: task_step.cases)
    case (create ok1 ok2 now name config e)
    then show ?thesis using a
      by (auto simp: create_queue_def Let_def reset_running_def attempts_ok_def split: if_splits sum.splits)
  next
    case (enqueue ok now i name payload r)
    then show ?thesis using a
      by (auto simp: enqueue_def attempts_ok_def max_def image_iff
          split: option.splits if_splits dest!: map_of_SomeD) force+
  next
    case (cancel ok now i e)
    then have "s' = s \<or> s' = update_tasks (\<lambda>t. task_id t = i \<and> task_status t = Task_pending)
        (\<lambda>t. t\<lparr>task_status := Task_cancelled, task_updated_at := now\<rparr>) s"
      by (auto simp: cancel_task_def split: if_splits option.splits)
    then show ?thesis using a cancelled [where P = "\<lambda>t. task_id t = i" and now = now] by auto
  next
    case (clear ok now name r)
    then have "s' = s \<or> s' = update_tasks (\<lambda>t. task_queue t = name \<and> task_status t = Task_pending)
        (\<lambda>t. t\<lparr>task_status := Task_cancelled, task_updated_at := now\<rparr>) s"
      by (auto simp: clear_queue_def split: if_splits option.splits)
    then show ?thesis using a cancelled [where P = "\<lambda>t. task_queue t = name" and now = now] by auto
  next
    case (take name c now t)
    note p = next_row_pending [OF ok take(5)]
    have "\<forall>u \<in> set (ts_tasks (update_tasks (\<lambda>u. task_id u = task_id t)
        (\<lambda>u. u\<lparr>task_status := Task_running, task_attempt := task_attempt u + 1,
               task_updated_at := now\<rparr>) s)). attempts_ok s u"
      by (rule counted_update [OF a]) (use p in \<open>auto simp: attempts_ok_def\<close>)
    with take qs show ?thesis by (simp add: take_task_def del: update_tasks_sel(4))
  next
    case (finish j c out ok' now)
    have "ts_queues s' = ts_queues s" using finish
      by (cases out) (simp_all add: finish_job_def Let_def revert_task_to_pending_def
          complete_task_def handle_task_failure_def)
    with qs counted_finish [OF assms(1) finish(3)] finish show ?thesis by simp
  next
    case (cleanup now ok)
    then show ?thesis using a by (auto simp: run_cleanup_tasks attempts_ok_def)
  qed (use assms(3) in simp_all)
  with task_step_ok [OF assms(2) ok] show ?thesis by (simp add: counted_def)
qed

interpretation attempts: invariant task_step is_new_service "- {Ev_shut_down}" counted
proof
  show "counted s" if "is_new_service s" for s
    using that service.init_inv [OF that] by (auto simp: counted_def is_new_service_def new_service_def)
qed (use counted_step in auto)

section \<open>Backoff\<close>

lemma sint_shift:
  assumes "0 \<le> b" "b * 2 ^ n < 2 ^ 63"
  shows "sint (push_bit n (word_of_int b :: 64 word)) = b * 2 ^ n"
proof -
  have "push_bit n (word_of_int b :: 64 word) = word_of_int (b * 2 ^ n)"
    by (simp add: push_bit_eq_mult)
  moreover have "- (2 ^ 63) \<le> b * 2 ^ n" using assms(1) by (smt (verit) mult_nonneg_nonneg zero_le_power)
  ultimately show ?thesis using assms(2)
    by (simp only: signed_of_int) (simp add: signed_take_bit_int_eq_self)
qed

lemma retry_backoff_range: "0 < retry_backoff b a \<and> retry_backoff b a \<le> 3600000"
  by (simp add: retry_backoff_def max_backoff_ms_def Let_def)

section \<open>Workers and the budget\<close>

lemma sum_indicator:
  "distinct (map fst qs) \<Longrightarrow> x \<in> fst ` set qs \<Longrightarrow>
     sum_list (map (\<lambda>(n, c). if x = n then Suc 0 else 0) qs) = 1"
proof (induction qs)
  case Nil
  then show ?case by simp
next
  case (Cons q qs)
  show ?case
  proof (cases "x = fst q")
    case True
    then have "x \<notin> fst ` set qs" using Cons.prems(1) by simp
    then have "sum_list (map (\<lambda>(n, c). if x = n then Suc 0 else 0) qs) = 0"
      by (induction qs) auto
    with True show ?thesis by (cases q) simp
  next
    case False
    with Cons show ?thesis by (cases q) auto
  qed
qed

lemma jobs_by_queue:
  "distinct (map fst qs) \<Longrightarrow> \<forall>j \<in> set js. job_queue j \<in> fst ` set qs \<Longrightarrow>
     length js = sum_list (map (\<lambda>(n, c). length (filter (\<lambda>j. job_queue j = n) js)) qs)"
proof (induction js)
  case Nil
  then show ?case by (induction qs) auto
next
  case (Cons j js)
  have "sum_list (map (\<lambda>(n, c). length (filter (\<lambda>j. job_queue j = n) (j # js))) qs)
      = sum_list (map (\<lambda>(n, c). if job_queue j = n then Suc 0 else 0) qs)
        + sum_list (map (\<lambda>(n, c). length (filter (\<lambda>j. job_queue j = n) js)) qs)"
    by (induction qs) auto
  then show ?case using Cons sum_indicator [OF Cons.prems(1), of "job_queue j"] by simp
qed

lemma jobs_within_budget:
  assumes "service_ok s"
  shows "int (length (ts_jobs s)) \<le> ts_max_concurrency s"
proof -
  let ?qs = "ts_queues s"
  have d: "distinct (map fst ?qs)" using assms by (simp add: service_ok_def queues_ok_def)
  have "length (ts_jobs s) = sum_list (map (\<lambda>(n, c). busy n s) ?qs)"
    unfolding busy_def by (rule jobs_by_queue [OF d]) (use assms in \<open>auto simp: service_ok_def jobs_ok_def\<close>)
  moreover have "int (sum_list (map (\<lambda>(n, c). busy n s) qs)) = sum_list (map (\<lambda>(n, c). int (busy n s)) qs)"
    for qs :: "(string \<times> queue_config) list"
    by (induction qs) auto
  ultimately have "int (length (ts_jobs s)) = sum_list (map (\<lambda>(n, c). int (busy n s)) ?qs)" by simp
  also have "\<dots> \<le> allocated ?qs"
    unfolding allocated_def
  proof (rule sum_list_mono)
    show "(case q of (n, c) \<Rightarrow> int (busy n s)) \<le> (case q of (n, c) \<Rightarrow> qc_concurrency c)" if "q \<in> set ?qs" for q
      using assms d that by (cases q) (auto simp: service_ok_def jobs_ok_def)
  qed
  finally show ?thesis using assms by (simp add: service_ok_def queues_ok_def)
qed

section \<open>A concrete run\<close>

definition demo_config :: queue_config where
  "demo_config =
     \<lparr>qc_concurrency = 4, qc_max_retries = 0, qc_backoff_ms = 0, qc_delay_ms = 0, qc_retention_ms = 0\<rparr>"

text \<open>A queue is created on a budget of two workers, a task added and taken.\<close>

definition demo_waiting :: task_service where
  "demo_waiting =
     fst (enqueue True 100 ''t1'' ''q'' ''work'' (fst (create_queue True True 90 ''q'' demo_config (new_service 2))))"

definition demo_task :: task where
  "demo_task =
     \<lparr>task_id = ''t1'', task_queue = ''q'', task_payload = ''work'', task_status = Task_pending,
      task_attempt = 0, task_max_retries = 0, task_next_run_at = 100, task_created_at = 100,
      task_updated_at = 100, task_message = ''''\<rparr>"

definition demo_running :: task_service where
  "demo_running = take_task 110 ''q'' demo_task demo_waiting"

definition demo_queue_config :: queue_config where
  "demo_queue_config =
     \<lparr>qc_concurrency = 2, qc_max_retries = 0, qc_backoff_ms = 1000, qc_delay_ms = 0,
      qc_retention_ms = 3600000\<rparr>"

lemma demo_waiting_state:
  "ts_tasks demo_waiting = [demo_task]" "ts_queues demo_waiting = [(''q'', demo_queue_config)]"
  "ts_jobs demo_waiting = []"
  by (simp_all add: demo_waiting_def create_queue_def clamp_concurrency_def apply_config_defaults_def
      enqueue_def demo_config_def new_service_def task_consts allocated_def reset_running_def Let_def
      demo_task_def demo_queue_config_def)

lemma create_step: "task_step s (Ev_create name) (fst (create_queue ok1 ok2 now name config s))"
  by (rule task_step.create [OF prod.collapse [symmetric]])

lemma enqueue_step: "task_step s (Ev_enqueue name i payload) (fst (enqueue ok now i name payload s))"
  by (rule task_step.enqueue [OF prod.collapse [symmetric]])

lemma demo_waiting_reached: "ls \<supseteq> - {Ev_shut_down} \<Longrightarrow> reached task_step is_new_service ls demo_waiting"
proof -
  assume ls: "ls \<supseteq> - {Ev_shut_down}"
  have "reached task_step is_new_service (- {Ev_shut_down}) (new_service 2)"
    by (rule reached.start) (auto simp: is_new_service_def intro: exI [of _ 2])
  then have "reached task_step is_new_service (- {Ev_shut_down})
      (fst (create_queue True True 90 ''q'' demo_config (new_service 2)))"
    by (rule reached.step [where l = "Ev_create ''q''"]) (simp_all add: create_step)
  then have "reached task_step is_new_service (- {Ev_shut_down}) demo_waiting"
    unfolding demo_waiting_def
    by (rule reached.step [where l = "Ev_enqueue ''q'' ''t1'' ''work''"]) (simp_all add: enqueue_step)
  then show ?thesis using ls by (rule reached_mono)
qed

lemma demo_take: "task_step demo_waiting (Ev_take ''q'' ''t1'') demo_running"
proof -
  have "task_step demo_waiting (Ev_take ''q'' (task_id demo_task)) demo_running"
    unfolding demo_running_def
    by (rule task_step.take [where c = demo_queue_config])
      (auto simp: demo_waiting_state busy_def demo_queue_config_def is_next_def is_ready_def demo_task_def)
  then show ?thesis by (simp add: demo_task_def)
qed

lemma demo_running_reached:
  assumes "- {Ev_shut_down} \<subseteq> ls"
  shows "reached task_step is_new_service ls demo_running"
proof (rule reached.step)
  show "reached task_step is_new_service ls demo_waiting" using assms by (rule demo_waiting_reached)
  show "Ev_take ''q'' ''t1'' \<in> ls" using assms by blast
qed (rule demo_take)

section \<open>The properties of the task queues\<close>

text \<open>
  C3. The concurrency budget: in every reachable state no more tasks run than the plugin may run,
  each queue has at most as many as its concurrency, no task is run by two workers, and the row of
  a task that is being run says so.
\<close>

theorem task_budget:
  assumes "reached task_step is_new_service UNIV s"
  shows "int (length (ts_jobs s)) \<le> ts_max_concurrency s
     \<and> (\<forall>(n, c) \<in> set (ts_queues s). int (busy n s) \<le> qc_concurrency c)
     \<and> distinct (map job_task (ts_jobs s))
     \<and> (\<forall>j \<in> set (ts_jobs s). \<exists>t \<in> set (ts_tasks s). task_id t = job_task j
          \<and> task_status t = Task_running \<and> task_attempt t = job_attempt j)"
proof -
  have ok: "service_ok s" by (rule service.reached_inv [OF assms])
  then show ?thesis using jobs_within_budget [OF ok]
    by (auto simp: service_ok_def jobs_ok_def job_task_ok_def queues_ok_def)
qed

theorem task_budget_witness:
  "int (length (ts_jobs demo_running)) \<le> ts_max_concurrency demo_running
   \<and> distinct (map job_task (ts_jobs demo_running))"
  using task_budget [OF demo_running_reached] by simp

text \<open>
  C28. The life of a task: a step changes its row only along pending to running or cancelled and
  running to pending, completed or failed, keeps what was asked for, never touches a finished
  task, and never loses one, except that a cleanup deletes finished tasks past their retention.
\<close>

theorem task_life_cycle:
  assumes "reached task_step is_new_service UNIV s" "task_step s l s'" "t \<in> set (ts_tasks s)"
  shows "(\<exists>u \<in> set (ts_tasks s'). task_id u = task_id t \<and> task_queue u = task_queue t
        \<and> task_payload u = task_payload t \<and> task_max_retries u = task_max_retries t
        \<and> task_created_at u = task_created_at t
        \<and> (task_status t = task_status u
            \<or> task_status t = Task_pending \<and> task_status u \<in> {Task_running, Task_cancelled}
            \<or> task_status t = Task_running \<and> task_status u \<in> {Task_pending, Task_completed, Task_failed})
        \<and> (is_terminal (task_status t) \<longrightarrow> u = t))
     \<or> (\<exists>now c. l = Ev_cleanup now \<and> map_of (ts_queues s) (task_queue t) = Some c
          \<and> is_terminal (task_status t) \<and> task_updated_at t + qc_retention_ms c < now)"
  using task_step_moved [OF service.reached_inv [OF assms(1)] assms(2,3)]
  unfolding moved_def next_status_def is_expired_def by blast

theorem task_life_cycle_witness:
  "\<exists>u \<in> set (ts_tasks demo_running). task_id u = ''t1'' \<and> task_payload u = ''work''"
proof -
  have "demo_task \<in> set (ts_tasks demo_waiting)" by (simp add: demo_waiting_state)
  from task_life_cycle [OF demo_waiting_reached demo_take this] show ?thesis
    by (auto simp: demo_task_def)
qed

text \<open>
  Without a shutdown a task is started at most once more than its retries allow (a negative
  number counts as none), and while it waits it has started at most as often as they allow.
\<close>

lemma attempts_bounded:
  assumes "reached task_step is_new_service (- {Ev_shut_down}) s" "t \<in> set (ts_tasks s)"
  shows "0 \<le> task_attempt t \<and> task_attempt t \<le> max 0 (task_max_retries t) + 1
     \<and> (task_status t = Task_pending \<longrightarrow> task_attempt t \<le> max 0 (task_max_retries t))"
proof -
  have "attempts_ok s t" using attempts.reached_inv [OF assms(1)] assms(2) by (simp add: counted_def)
  then show ?thesis by (cases "task_status t = Task_pending") (simp_all add: attempts_ok_def)
qed

lemma attempts_bounded_witness:
  "\<exists>t \<in> set (ts_tasks demo_running). task_attempt t = 1 \<and> task_attempt t \<le> max 0 (task_max_retries t) + 1"
proof -
  have "demo_task\<lparr>task_attempt := 1, task_status := Task_running, task_updated_at := 110\<rparr> \<in> set (ts_tasks demo_running)"
    by (simp add: demo_running_def take_task_def update_tasks_def demo_waiting_state demo_task_def)
  from attempts_bounded [OF demo_running_reached this] this show ?thesis by (intro bexI conjI) auto
qed

text \<open>
  A shutdown breaks that bound: a task that was running when the service was closed is put
  back without its attempt being taken off, so a task without retries is started a second time.
\<close>

lemma closed_service_recounts:
  "\<exists>s t. reached task_step is_new_service UNIV s \<and> t \<in> set (ts_tasks s)
     \<and> task_max_retries t = 0 \<and> task_status t = Task_running \<and> task_attempt t = 2"
proof -
  let ?closed = "restart 2 (close_service True 120 demo_running)"
  let ?again = "fst (create_queue True True 130 ''q'' demo_config ?closed)"
  let ?t = "demo_task\<lparr>task_attempt := 1, task_updated_at := 120\<rparr>"
  have a: "reached task_step is_new_service UNIV ?closed"
    by (rule reached.step [OF demo_running_reached, of UNIV Ev_shut_down]) (simp_all add: task_step.close)
  have b: "reached task_step is_new_service UNIV ?again"
    by (rule reached.step [OF a, of "Ev_create ''q''"]) (simp_all add: create_step)
  have closed: "ts_tasks ?closed = [?t]" "ts_queues ?closed = []" "ts_jobs ?closed = []"
    "ts_max_concurrency ?closed = 2"
    by (simp_all add: restart_def close_service_def reset_running_def demo_running_def take_task_def
        demo_waiting_state demo_task_def)
  have again: "ts_tasks ?again = [?t]" "ts_queues ?again = [(''q'', demo_queue_config)]" "ts_jobs ?again = []"
    using closed by (simp_all add: create_queue_def clamp_concurrency_def apply_config_defaults_def
        demo_config_def task_consts allocated_def reset_running_def Let_def demo_queue_config_def demo_task_def)
  have "task_step ?again (Ev_take ''q'' (task_id ?t)) (take_task 140 ''q'' ?t ?again)"
    by (rule task_step.take [where c = demo_queue_config])
      (auto simp: again busy_def demo_queue_config_def is_next_def is_ready_def demo_task_def)
  then have "reached task_step is_new_service UNIV (take_task 140 ''q'' ?t ?again)"
    by (rule reached.step [OF b, rotated]) simp
  then show ?thesis
    by (intro exI [of _ "take_task 140 ''q'' ?t ?again"]) (simp add: take_task_def again demo_task_def)
qed

text \<open>
  The wait before a retry is always between 1 ms and one hour, and it is exactly
  \<open>backoff * 2^(attempt-1)\<close>, capped at one hour, as long as that product is an \<open>int64\<close>.
\<close>

lemma retry_backoff_exponential:
  assumes "0 < b" "1 \<le> a" "b * 2 ^ nat (a - 1) < 2 ^ 63"
  shows "retry_backoff b a = min (b * 2 ^ nat (a - 1)) 3600000
     \<and> 0 < retry_backoff b a \<and> retry_backoff b a \<le> 3600000"
proof -
  have "sint (push_bit (nat (a - 1)) (word_of_int b :: 64 word)) = b * 2 ^ nat (a - 1)"
    using assms by (intro sint_shift) simp_all
  moreover have "0 < b * 2 ^ nat (a - 1)" using assms(1) by simp
  ultimately show ?thesis
    using retry_backoff_range [of b a] by (simp add: retry_backoff_def max_backoff_ms_def Let_def min_def)
qed

lemma retry_backoff_exponential_witness:
  "retry_backoff 1000 3 = min (1000 * 2 ^ nat (3 - 1)) 3600000"
  using retry_backoff_exponential [of 1000 3] by simp

text \<open>
  Beyond \<open>int64\<close> the product wraps and can come out small: a backoff of about 146 million
  years becomes one of 4 ms at the third attempt, where the cap of one hour was meant.
\<close>

lemma retry_backoff_wraps: "retry_backoff (2 ^ 62 + 1) 3 = 4"
  by (simp add: retry_backoff_def max_backoff_ms_def Let_def push_bit_eq_mult signed_of_int
      signed_take_bit_eq_if_positive)

end
