(* ===== verification/Slices.thy ===== *)
theory Slices
  imports Prelude "HOL-Library.Multiset"
begin

text \<open>
  The generic helpers of \<open>utils/slice/slice.go\<close>. A map of Go is a function to options; where the
  order of a result depends on the walk over a map, the order is an argument. \<open>lines_from\<close> also
  has the limit that \<open>bufio.Scanner\<close> documents for a line.
\<close>

section \<open>Maps from slices\<close>

fun group_into :: "('a \<Rightarrow> 'k) \<Rightarrow> 'a list \<Rightarrow> ('k \<rightharpoonup> 'a list) \<Rightarrow> 'k \<rightharpoonup> 'a list" where
  "group_into key [] m = m"
| "group_into key (x # xs) m =
     group_into key xs (m(key x \<mapsto> (case m (key x) of None \<Rightarrow> [] | Some g \<Rightarrow> g) @ [x]))"

definition slice_group :: "('a \<Rightarrow> 'k) \<Rightarrow> 'a list \<Rightarrow> 'k \<rightharpoonup> 'a list" where
  "slice_group key xs = group_into key xs Map.empty"

fun to_map_from :: "('a \<Rightarrow> 'k \<times> 'v) \<Rightarrow> 'a list \<Rightarrow> ('k \<rightharpoonup> 'v) \<Rightarrow> 'k \<rightharpoonup> 'v" where
  "to_map_from f [] m = m"
| "to_map_from f (x # xs) m = to_map_from f xs (m(fst (f x) \<mapsto> snd (f x)))"

definition slice_to_map :: "('a \<Rightarrow> 'k \<times> 'v) \<Rightarrow> 'a list \<Rightarrow> 'k \<rightharpoonup> 'v" where
  "slice_to_map f xs = to_map_from f xs Map.empty"

lemma group_into_eq:
  "group_into key xs m k =
     (if filter (\<lambda>x. key x = k) xs = [] then m k
      else Some ((case m k of None \<Rightarrow> [] | Some g \<Rightarrow> g) @ filter (\<lambda>x. key x = k) xs))"
  by (induction xs arbitrary: m) (auto split: option.splits)

text \<open>A group has the elements of its key in their order, and no group is empty.\<close>

lemma slice_group_eq:
  "slice_group key xs k =
     (if filter (\<lambda>x. key x = k) xs = [] then None else Some (filter (\<lambda>x. key x = k) xs))"
  by (simp add: slice_group_def group_into_eq)

text \<open>Later elements win.\<close>

lemma to_map_from_eq: "to_map_from f xs m = m ++ map_of (rev (map f xs))"
  by (induction xs arbitrary: m) auto

lemma slice_to_map_eq: "slice_to_map f xs = map_of (rev (map f xs))"
  by (simp add: slice_to_map_def to_map_from_eq)

section \<open>Frequencies and repetitions\<close>

text \<open>\<open>slices.SortedFunc\<close> over the keys of the counters, which come in the order \<open>keys\<close>.\<close>

definition compact_by_frequency :: "'a list \<Rightarrow> 'a list \<Rightarrow> 'a list" where
  "compact_by_frequency keys xs = sort_key (\<lambda>x. - int (count_list xs x)) keys"

fun most_frequent_from ::
  "'a \<Rightarrow> ('a \<Rightarrow> nat) \<Rightarrow> 'a \<times> nat \<Rightarrow> 'a list \<Rightarrow> 'a" where
  "most_frequent_from zero cnt (best, n) [] = best"
| "most_frequent_from zero cnt (best, n) (x # xs) =
     (if x = zero then most_frequent_from zero cnt (best, n) xs
      else (let c = Suc (cnt x); cnt' = cnt(x := c)
            in most_frequent_from zero cnt' (if n < c then (x, c) else (best, n)) xs))"

definition most_frequent :: "'a \<Rightarrow> 'a list \<Rightarrow> 'a" where
  "most_frequent zero xs = most_frequent_from zero (\<lambda>_. 0) (zero, 0) xs"

fun unique_from :: "'a set \<Rightarrow> 'a list \<Rightarrow> 'a list" where
  "unique_from seen [] = []"
| "unique_from seen (x # xs) =
     (if x \<in> seen then unique_from seen xs else x # unique_from (insert x seen) xs)"

definition slice_unique :: "'a list \<Rightarrow> 'a list" where
  "slice_unique xs = unique_from {} xs"

lemma set_unique_from: "set (unique_from seen xs) = set xs - seen"
  by (induction xs arbitrary: seen) auto

lemma distinct_unique_from: "distinct (unique_from seen xs)"
  by (induction xs arbitrary: seen) (auto simp: set_unique_from)

lemma slice_unique_set [simp]: "set (slice_unique xs) = set xs" "distinct (slice_unique xs)"
  by (simp_all add: slice_unique_def set_unique_from distinct_unique_from)

lemma slice_unique_one: "slice_unique xs = [x] \<longleftrightarrow> xs \<noteq> [] \<and> set xs = {x}"
proof
  assume "slice_unique xs = [x]"
  then show "xs \<noteq> [] \<and> set xs = {x}" using slice_unique_set(1) [of xs] by auto
next
  assume "xs \<noteq> [] \<and> set xs = {x}"
  then have s: "set (slice_unique xs) = {x}" "distinct (slice_unique xs)" by simp_all
  from s show "slice_unique xs = [x]"
    by (cases "slice_unique xs"; cases "tl (slice_unique xs)") auto
qed

text \<open>The most frequent element: no other one that is not the zero value occurs more often.\<close>

definition tally :: "'a \<Rightarrow> ('a \<Rightarrow> nat) \<Rightarrow> 'a list \<Rightarrow> 'a \<Rightarrow> nat" where
  "tally zero cnt xs t = (if t = zero then 0 else cnt t + count_list xs t)"

lemma tally_Cons: "x \<noteq> zero \<Longrightarrow> tally zero cnt (x # xs) t = tally zero (cnt(x := Suc (cnt x))) xs t"
  by (simp add: tally_def)

lemma tally_skip: "tally zero cnt (zero # xs) t = tally zero cnt xs t"
  by (simp add: tally_def)

lemma most_frequent_from_max:
  assumes "\<And>y. tally zero cnt [] y \<le> n" "n = tally zero cnt [] best"
  shows "tally zero cnt xs y \<le> tally zero cnt xs (most_frequent_from zero cnt (best, n) xs)"
  using assms
proof (induction xs arbitrary: cnt best n)
  case (Cons x xs)
  show ?case
  proof (cases "x = zero")
    case True
    with Cons.IH [of cnt n best] Cons.prems show ?thesis by (simp add: tally_skip)
  next
    case False
    let ?c = "cnt(x := Suc (cnt x))"
    have le: "cnt y \<le> n" if "y \<noteq> zero" for y
      using Cons.prems(1) [of y] that by (simp add: tally_def)
    show ?thesis
    proof (cases "n < Suc (cnt x)")
      case True
      have "tally zero ?c [] z \<le> Suc (cnt x)" for z
        using True le [of z] by (cases "z = zero") (auto simp: tally_def)
      moreover have "Suc (cnt x) = tally zero ?c [] x" using False by (simp add: tally_def)
      ultimately have "tally zero ?c xs y \<le> tally zero ?c xs (most_frequent_from zero ?c (x, Suc (cnt x)) xs)"
        by (rule Cons.IH)
      with True False show ?thesis by (simp add: tally_Cons Let_def del: fun_upd_apply)
    next
      case nl: False
      have "tally zero ?c [] z \<le> n" for z
        using nl le [of z] by (simp add: tally_def)
      moreover have "n = tally zero ?c [] best"
        using Cons.prems(2) nl le [of x] False by (auto simp: tally_def split: if_splits)
      ultimately have "tally zero ?c xs y \<le> tally zero ?c xs (most_frequent_from zero ?c (best, n) xs)"
        by (rule Cons.IH)
      with nl False show ?thesis by (simp add: tally_Cons Let_def del: fun_upd_apply)
    qed
  qed
qed simp

lemma most_frequent_max:
  assumes "y \<in> set xs" "y \<noteq> zero"
  shows "most_frequent zero xs \<noteq> zero"
    and "count_list xs y \<le> count_list xs (most_frequent zero xs)"
proof -
  have "0 < count_list xs y" using assms(1) by (meson count_list_0_iff gr0I)
  moreover have "tally zero (\<lambda>_. 0) xs y \<le> tally zero (\<lambda>_. 0) xs (most_frequent zero xs)"
    unfolding most_frequent_def by (rule most_frequent_from_max) (simp_all add: tally_def)
  ultimately show "most_frequent zero xs \<noteq> zero" "count_list xs y \<le> count_list xs (most_frequent zero xs)"
    using assms(2) by (auto simp: tally_def split: if_splits)
qed

section \<open>Positions\<close>

text \<open>\<open>None\<close> is the panic of an index out of range.\<close>

definition slice_insert :: "'a list \<Rightarrow> 'a \<Rightarrow> int \<Rightarrow> 'a list option" where
  "slice_insert xs v i =
     (if 0 \<le> i \<and> i \<le> int (length xs) then Some (take (nat i) xs @ v # drop (nat i) xs) else None)"

definition slice_remove :: "'a list \<Rightarrow> int \<Rightarrow> 'a list option" where
  "slice_remove xs i =
     (if 0 \<le> i \<and> i < int (length xs) then Some (take (nat i) xs @ drop (nat i + 1) xs) else None)"

definition slice_move :: "'a list \<Rightarrow> int \<Rightarrow> int \<Rightarrow> 'a list option" where
  "slice_move xs src dst =
     (case slice_remove xs src of None \<Rightarrow> None | Some ys \<Rightarrow> slice_insert ys (xs ! nat src) dst)"

text \<open>Moving keeps the elements, and puts the one at the source to the destination.\<close>

lemma slice_move_Some:
  assumes "slice_move xs src dst = Some ys"
  shows "mset ys = mset xs" "ys ! nat dst = xs ! nat src" "length ys = length xs"
proof -
  from assms obtain zs where z: "slice_remove xs src = Some zs" "slice_insert zs (xs ! nat src) dst = Some ys"
    by (auto simp: slice_move_def split: option.splits)
  then have i: "nat src < length xs" "zs = take (nat src) xs @ drop (Suc (nat src)) xs"
    by (auto simp: slice_remove_def split: if_splits)
  from z(2) have d: "nat dst \<le> length zs" "ys = take (nat dst) zs @ xs ! nat src # drop (nat dst) zs"
    by (auto simp: slice_insert_def split: if_splits)
  have "mset xs = mset (take (nat src) xs @ xs ! nat src # drop (Suc (nat src)) xs)"
    using id_take_nth_drop [OF i(1)] by simp
  also have "\<dots> = add_mset (xs ! nat src) (mset zs)" by (simp add: i(2))
  also have "\<dots> = mset ys"
  proof -
    have "mset zs = mset (take (nat dst) zs) + mset (drop (nat dst) zs)"
      by (metis append_take_drop_id mset_append)
    then show ?thesis by (simp add: d(2))
  qed
  finally show m: "mset ys = mset xs" by simp
  show "length ys = length xs" using m by (metis size_mset)
  show "ys ! nat dst = xs ! nat src" using d by (simp add: nth_append)
qed

section \<open>Chunks\<close>

function collect_chunks :: "nat \<Rightarrow> 'a list \<Rightarrow> 'a list list" where
  "collect_chunks n xs =
     (if xs = [] then [] else take (max 1 n) xs # collect_chunks n (drop (max 1 n) xs))"
  by pat_completeness auto
termination
  by (relation "measure (\<lambda>(n, xs). length xs)") auto

declare collect_chunks.simps [simp del]

lemma concat_chunks: "concat (collect_chunks n xs) = xs"
proof (induction n xs rule: collect_chunks.induct)
  case (1 n xs)
  then show ?case by (subst collect_chunks.simps) simp
qed

section \<open>Lines\<close>

text \<open>
  \<open>LinesFrom\<close>: lines end with LF, CR LF or CR. A scanner stops at the first line that does not fit
  in its buffer of 64 KB, and its error is not looked at.
\<close>

definition cr :: char where "cr = CHR 0x0D"
definition lf :: char where "lf = CHR 0x0A"

function scan_lines :: "string \<Rightarrow> string list" where
  "scan_lines s =
     (if s = [] then []
      else (let l = takeWhile (\<lambda>c. c \<noteq> cr \<and> c \<noteq> lf) s
            in case drop (length l) s of
                 [] \<Rightarrow> [l]
               | c # r \<Rightarrow> l # scan_lines (if c = cr \<and> r \<noteq> [] \<and> hd r = lf then tl r else r)))"
  by pat_completeness auto
termination
proof (relation "measure length", simp, goal_cases)
  case (1 s x c r)
  then have "length (c # r) \<le> length s" by (metis diff_le_self length_drop)
  then show ?case by auto
qed

declare scan_lines.simps [simp del]

definition max_line :: nat where "max_line = 65536"

definition lines_from :: "string \<Rightarrow> string list" where
  "lines_from s = takeWhile (\<lambda>l. length l < max_line) (scan_lines s)"

lemma scan_lines_line:
  assumes "cr \<notin> set l" "lf \<notin> set l"
  shows "scan_lines (l @ [lf] @ s) = l # scan_lines s"
proof -
  have t: "takeWhile (\<lambda>c. c \<noteq> cr \<and> c \<noteq> lf) (l @ lf # s) = l"
    using assms by (subst takeWhile_append2) auto
  have "lf \<noteq> cr" by (simp add: lf_def cr_def)
  then show ?thesis by (subst scan_lines.simps) (simp add: t Let_def)
qed

lemma scan_lines_text:
  assumes "\<forall>l \<in> set ls. cr \<notin> set l \<and> lf \<notin> set l"
  shows "scan_lines (concat (map (\<lambda>l. l @ [lf]) ls)) = ls"
  using assms
proof (induction ls)
  case Nil
  show ?case by (simp add: scan_lines.simps)
next
  case (Cons l ls)
  with scan_lines_line [of l "concat (map (\<lambda>l. l @ [lf]) ls)"] show ?case by simp
qed

end
