(* ===== verification/KVStore.thy ===== *)
theory KVStore
  imports GoStrings Steps Slices "HOL-Library.List_Lexorder"
begin

text \<open>
  The key-value store of a plugin (\<open>plugins/host_kvstore.go\<close>) on its table. Times are the whole
  seconds of SQLite's \<open>datetime('now')\<close>. Two things of the database engine are parameters: \<open>LIKE\<close>
  with an escape character, and the addition of seconds to a date. A statement may fail; whether it
  does is an argument. \<open>Set\<close> is two reads and a write without a transaction, and each of the three
  statements asks for the time: it has three times, and it is also given as steps, which those of
  other callers may come between.
\<close>

section \<open>The table\<close>

record kv_row =
  kv_key :: string
  kv_value :: string
  kv_size :: int
  kv_created_at :: int
  kv_updated_at :: int
  kv_expires_at :: "int option"

record kv_engine =
  sql_like :: "string \<Rightarrow> string \<Rightarrow> bool"
  sql_add_seconds :: "int \<Rightarrow> int \<Rightarrow> int option"

record kv_store =
  kv_rows :: "kv_row list"
  kv_max_size :: int

datatype kv_error =
    Key_empty | Key_too_long | Ttl_not_positive | Limit_exceeded | Prefix_empty | Kv_sql_error

definition default_max_kvstore_size :: int where "default_max_kvstore_size = 1024 * 1024"
definition max_key_length :: nat where "max_key_length = 256"

text \<open>The sizes of a manifest are read by a library as a \<open>uint64\<close>, and cast to \<open>int64\<close>.\<close>

definition new_kvstore ::
  "(string \<Rightarrow> string + int) \<Rightarrow> string option \<Rightarrow> kv_row list \<Rightarrow> string + kv_store" where
  "new_kvstore parse_bytes max_size rows =
     (case max_size of
        Some t \<Rightarrow>
          if t \<noteq> '''' then
            (case parse_bytes t of
               Inl e \<Rightarrow> Inl e
             | Inr n \<Rightarrow> Inr \<lparr>kv_rows = rows, kv_max_size = (n + 2 ^ 63) mod 2 ^ 64 - 2 ^ 63\<rparr>)
          else Inr \<lparr>kv_rows = rows, kv_max_size = default_max_kvstore_size\<rparr>
      | None \<Rightarrow> Inr \<lparr>kv_rows = rows, kv_max_size = default_max_kvstore_size\<rparr>)"

definition not_expired :: "int \<Rightarrow> kv_row \<Rightarrow> bool" where
  "not_expired now r \<longleftrightarrow> (case kv_expires_at r of None \<Rightarrow> True | Some e \<Rightarrow> now \<le> e)"

definition live_rows :: "int \<Rightarrow> kv_store \<Rightarrow> kv_row list" where
  "live_rows now s = filter (not_expired now) (kv_rows s)"

definition storage_used :: "int \<Rightarrow> kv_store \<Rightarrow> int" where
  "storage_used now s = sum_list (map kv_size (live_rows now s))"

section \<open>Writing\<close>

definition check_storage_limit :: "bool \<Rightarrow> int \<Rightarrow> int \<Rightarrow> kv_store \<Rightarrow> kv_error option" where
  "check_storage_limit sum_ok now delta s =
     (if delta \<le> 0 then None
      else if \<not> sum_ok then Some Kv_sql_error
      else if storage_used now s + delta > kv_max_size s then Some Limit_exceeded else None)"

definition old_size :: "int \<Rightarrow> string \<Rightarrow> kv_store \<Rightarrow> int" where
  "old_size now key s =
     (case find (\<lambda>r. kv_key r = key \<and> not_expired now r) (kv_rows s) of
        Some r \<Rightarrow> kv_size r | None \<Rightarrow> 0)"

text \<open>The first half of \<open>setValue\<close>: the checks.\<close>

definition check_key :: "string \<Rightarrow> kv_error option" where
  "check_key key =
     (if length key = 0 then Some Key_empty
      else if length key > max_key_length then Some Key_too_long else None)"

definition check_set :: "bool \<Rightarrow> bool \<Rightarrow> int \<Rightarrow> int \<Rightarrow> string \<Rightarrow> string \<Rightarrow> kv_store \<Rightarrow> kv_error option" where
  "check_set read_ok sum_ok t1 t2 key value s =
     (case check_key key of
        Some e \<Rightarrow> Some e
      | None \<Rightarrow>
          if \<not> read_ok then Some Kv_sql_error
          else check_storage_limit sum_ok t2 (int (length value) - old_size t1 key s) s)"

text \<open>The second half: the upsert.\<close>

definition upsert :: "int \<Rightarrow> string \<Rightarrow> string \<Rightarrow> int option \<Rightarrow> kv_row list \<Rightarrow> kv_row list" where
  "upsert now key value expires rows =
     (if key \<in> kv_key ` set rows then
        map (\<lambda>r. if kv_key r = key then
                   r\<lparr>kv_value := value, kv_size := int (length value), kv_updated_at := now,
                     kv_expires_at := expires\<rparr> else r) rows
      else rows @ [\<lparr>kv_key = key, kv_value = value, kv_size = int (length value),
                    kv_created_at = now, kv_updated_at = now, kv_expires_at = expires\<rparr>])"

definition write_set ::
  "kv_engine \<Rightarrow> int \<Rightarrow> string \<Rightarrow> string \<Rightarrow> int \<Rightarrow> kv_store \<Rightarrow> kv_store" where
  "write_set eng now key value ttl s =
     s\<lparr>kv_rows := upsert now key value
         (if ttl > 0 then sql_add_seconds eng now ttl else None) (kv_rows s)\<rparr>"

definition set_value ::
  "kv_engine \<Rightarrow> bool \<times> bool \<times> bool \<Rightarrow> int \<times> int \<times> int \<Rightarrow> string \<Rightarrow> string \<Rightarrow> int \<Rightarrow> kv_store
   \<Rightarrow> kv_store \<times> kv_error option" where
  "set_value eng oks ts key value ttl s =
     (case oks of (read_ok, sum_ok, write_ok) \<Rightarrow>
        (case ts of (t1, t2, t3) \<Rightarrow>
           (case check_set read_ok sum_ok t1 t2 key value s of
              Some e \<Rightarrow> (s, Some e)
            | None \<Rightarrow> if \<not> write_ok then (s, Some Kv_sql_error)
                      else (write_set eng t3 key value ttl s, None))))"

definition kv_set ::
  "kv_engine \<Rightarrow> bool \<times> bool \<times> bool \<Rightarrow> int \<times> int \<times> int \<Rightarrow> string \<Rightarrow> string \<Rightarrow> kv_store
   \<Rightarrow> kv_store \<times> kv_error option"
where
  "kv_set eng oks ts key value s = set_value eng oks ts key value 0 s"

definition kv_set_with_ttl ::
  "kv_engine \<Rightarrow> bool \<times> bool \<times> bool \<Rightarrow> int \<times> int \<times> int \<Rightarrow> string \<Rightarrow> string \<Rightarrow> int \<Rightarrow> kv_store
   \<Rightarrow> kv_store \<times> kv_error option" where
  "kv_set_with_ttl eng oks ts key value ttl s =
     (if ttl \<le> 0 then (s, Some Ttl_not_positive) else set_value eng oks ts key value ttl s)"

definition kv_delete :: "bool \<Rightarrow> string \<Rightarrow> kv_store \<Rightarrow> kv_store \<times> kv_error option" where
  "kv_delete ok key s =
     (if \<not> ok then (s, Some Kv_sql_error)
      else (s\<lparr>kv_rows := filter (\<lambda>r. kv_key r \<noteq> key) (kv_rows s)\<rparr>, None))"

definition escape_prefix :: "string \<Rightarrow> string" where
  "escape_prefix prefix = replace_all ''_'' [bs, CHR ''_''] (replace_all ''%'' [bs, CHR ''%''] prefix)"

definition delete_by_prefix ::
  "kv_engine \<Rightarrow> bool \<Rightarrow> string \<Rightarrow> kv_store \<Rightarrow> kv_store \<times> (kv_error + int)" where
  "delete_by_prefix eng ok prefix s =
     (if prefix = '''' then (s, Inl Prefix_empty)
      else if \<not> ok then (s, Inl Kv_sql_error)
      else (let match = (\<lambda>r. sql_like eng (escape_prefix prefix @ ''%'') (kv_key r))
            in (s\<lparr>kv_rows := filter (\<lambda>r. \<not> match r) (kv_rows s)\<rparr>,
                Inr (int (length (filter match (kv_rows s)))))))"

definition cleanup_expired :: "bool \<Rightarrow> int \<Rightarrow> kv_store \<Rightarrow> kv_store" where
  "cleanup_expired ok now s =
     (if ok then s\<lparr>kv_rows := filter (not_expired now) (kv_rows s)\<rparr> else s)"

section \<open>Reading\<close>

definition kv_get :: "bool \<Rightarrow> int \<Rightarrow> string \<Rightarrow> kv_store \<Rightarrow> kv_error + string option" where
  "kv_get ok now key s =
     (if \<not> ok then Inl Kv_sql_error
      else Inr (map_option kv_value (find (\<lambda>r. kv_key r = key \<and> not_expired now r) (kv_rows s))))"

definition kv_has :: "bool \<Rightarrow> int \<Rightarrow> string \<Rightarrow> kv_store \<Rightarrow> kv_error + bool" where
  "kv_has ok now key s =
     (if \<not> ok then Inl Kv_sql_error
      else Inr (length (filter (\<lambda>r. kv_key r = key \<and> not_expired now r) (kv_rows s)) > 0))"

definition kv_list :: "kv_engine \<Rightarrow> bool \<Rightarrow> int \<Rightarrow> string \<Rightarrow> kv_store \<Rightarrow> kv_error + string list" where
  "kv_list eng ok now prefix s =
     (if \<not> ok then Inl Kv_sql_error
      else Inr (sort_key (map byte) (map kv_key (filter
             (\<lambda>r. (prefix = '''' \<or> sql_like eng (escape_prefix prefix @ ''%'') (kv_key r))
                  \<and> not_expired now r) (kv_rows s)))))"

text \<open>
  \<open>GetMany\<close> asks for the keys in chunks of 200 and puts the rows of each answer into one map.
\<close>

fun put_rows :: "kv_row list \<Rightarrow> (string \<rightharpoonup> string) \<Rightarrow> (string \<rightharpoonup> string)" where
  "put_rows [] m = m"
| "put_rows (r # rs) m = put_rows rs (m(kv_key r \<mapsto> kv_value r))"

fun get_chunks :: "bool list \<Rightarrow> int \<Rightarrow> string list list \<Rightarrow> kv_store \<Rightarrow> (string \<rightharpoonup> string)
    \<Rightarrow> kv_error + (string \<rightharpoonup> string)" where
  "get_chunks oks now [] s m = Inr m"
| "get_chunks oks now (ks # kss) s m =
     (if oks = [] \<or> \<not> hd oks then Inl Kv_sql_error
      else get_chunks (tl oks) now kss s
             (put_rows (filter (\<lambda>r. kv_key r \<in> set ks \<and> not_expired now r) (kv_rows s)) m))"

definition get_many :: "bool list \<Rightarrow> int \<Rightarrow> string list \<Rightarrow> kv_store \<Rightarrow> kv_error + (string \<rightharpoonup> string)" where
  "get_many oks now keys s =
     (if keys = [] then Inr Map.empty else get_chunks oks now (collect_chunks 200 keys) s Map.empty)"

section \<open>What the engine documents\<close>

text \<open>
  \<open>LIKE ... ESCAPE '\'\<close>: a percent sign matches any string, an underscore any character, an
  escaped one of these or an escaped backslash itself, and every other character itself or its
  other case, for the letters of ASCII. Any other escape is not documented.
\<close>

fun like_documented :: "string \<Rightarrow> bool" where
  "like_documented [] \<longleftrightarrow> True"
| "like_documented (c # p) \<longleftrightarrow>
     (if c = bs then (case p of d # q \<Rightarrow> d \<in> {CHR ''%'', CHR ''_'', bs} \<and> like_documented q | [] \<Rightarrow> False)
      else like_documented p)"

function like_doc :: "string \<Rightarrow> string \<Rightarrow> bool" where
  "like_doc [] s \<longleftrightarrow> s = []"
| "like_doc (c # p) s \<longleftrightarrow>
     (if c = CHR ''%'' then like_doc p s \<or> (case s of [] \<Rightarrow> False | x # t \<Rightarrow> like_doc (c # p) t)
      else if c = CHR ''_'' then (case s of [] \<Rightarrow> False | x # t \<Rightarrow> like_doc p t)
      else if c = bs then
        (case p of [] \<Rightarrow> False
                 | d # q \<Rightarrow> (case s of [] \<Rightarrow> False | x # t \<Rightarrow> x = d \<and> like_doc q t))
      else (case s of [] \<Rightarrow> False | x # t \<Rightarrow> lower_char x = lower_char c \<and> like_doc p t))"
  by pat_completeness auto
termination
  by (relation "measure (\<lambda>(p, s). length p + length s)") auto

text \<open>Dates end with the year 9999; a date beyond is \<open>NULL\<close>.\<close>

definition last_date :: int where "last_date = 253402300799"

definition engine_documented :: "kv_engine \<Rightarrow> bool" where
  "engine_documented eng \<longleftrightarrow>
     (\<forall>p s. like_documented p \<longrightarrow> sql_like eng p s = like_doc p s)
     \<and> (\<forall>now n. sql_add_seconds eng now n = (if now + n \<le> last_date then Some (now + n) else None))"

definition demo_engine :: kv_engine where
  "demo_engine =
     \<lparr>sql_like = like_doc,
      sql_add_seconds = (\<lambda>now n. if now + n \<le> last_date then Some (now + n) else None)\<rparr>"

lemma demo_engine_documented: "engine_documented demo_engine"
  by (simp add: engine_documented_def demo_engine_def)

section \<open>The store as a map\<close>

text \<open>What a reader can see: the value and the expiry of the keys that are live.\<close>

definition kv_view :: "int \<Rightarrow> kv_store \<Rightarrow> (string \<rightharpoonup> string \<times> int option)" where
  "kv_view now s k =
     map_option (\<lambda>r. (kv_value r, kv_expires_at r))
       (find (\<lambda>r. kv_key r = k \<and> not_expired now r) (kv_rows s))"

definition alive_at :: "int \<Rightarrow> int option \<Rightarrow> bool" where
  "alive_at now e \<longleftrightarrow> (case e of None \<Rightarrow> True | Some x \<Rightarrow> now \<le> x)"

lemma not_expired_alive: "not_expired now r \<longleftrightarrow> alive_at now (kv_expires_at r)"
  by (simp add: not_expired_def alive_at_def)

lemma not_expired_update [simp]:
  "not_expired now (r\<lparr>kv_value := v, kv_size := n, kv_updated_at := u, kv_expires_at := e\<rparr>)
     = alive_at now e"
  by (simp add: not_expired_alive)

lemma not_expired_new [simp]:
  "not_expired now \<lparr>kv_key = k, kv_value = v, kv_size = n, kv_created_at = c, kv_updated_at = u,
     kv_expires_at = e\<rparr> = alive_at now e"
  by (simp add: not_expired_alive)

lemma find_NoneI: "(\<And>x. x \<in> set xs \<Longrightarrow> \<not> P x) \<Longrightarrow> find P xs = None"
  by (simp add: find_None_iff)

lemma find_upsert:
  assumes "distinct (map kv_key rows)"
  shows "map_option (\<lambda>r. (kv_value r, kv_expires_at r))
       (find (\<lambda>r. kv_key r = k \<and> not_expired t r) (upsert now key value e rows))
     = (if k = key then (if alive_at t e then Some (value, e) else None)
        else map_option (\<lambda>r. (kv_value r, kv_expires_at r)) (find (\<lambda>r. kv_key r = k \<and> not_expired t r) rows))"
proof (cases "key \<in> kv_key ` set rows")
  case True
  let ?f = "\<lambda>r. if kv_key r = key then r\<lparr>kv_value := value, kv_size := int (length value),
      kv_updated_at := now, kv_expires_at := e\<rparr> else r"
  have "map_option (\<lambda>r. (kv_value r, kv_expires_at r)) (find (\<lambda>r. kv_key r = k \<and> not_expired t r) (map ?f rows))
     = (if k = key then (if alive_at t e then Some (value, e) else None)
        else map_option (\<lambda>r. (kv_value r, kv_expires_at r)) (find (\<lambda>r. kv_key r = k \<and> not_expired t r) rows))"
    using True assms
  proof (induction rows)
    case Nil
    then show ?case by simp
  next
    case (Cons r rows)
    show ?case
    proof (cases "kv_key r = key")
      case True
      with Cons.prems have new: "key \<notin> kv_key ` set rows" by auto
      then have "map ?f rows = rows" by (auto intro!: map_idI)
      moreover have "find (\<lambda>r. kv_key r = key \<and> not_expired t r) rows = None"
        using new by (auto intro: find_NoneI)
      ultimately show ?thesis using True by simp
    next
      case False
      with Cons show ?thesis by (cases "k = key") simp_all
    qed
  qed
  then show ?thesis using True by (simp add: upsert_def)
next
  case False
  then have "find (\<lambda>r. kv_key r = key \<and> not_expired t r) rows = None"
    by (auto intro: find_NoneI)
  moreover have "find P (xs @ ys) = (case find P xs of None \<Rightarrow> find P ys | Some x \<Rightarrow> Some x)"
    for P and xs ys :: "kv_row list"
    by (induction xs) auto
  ultimately show ?thesis using False
    by (auto simp: upsert_def split: option.splits)
qed

lemma view_write_set:
  "distinct (map kv_key (kv_rows s)) \<Longrightarrow>
     kv_view t (write_set eng now key value ttl s) =
       (let e = (if ttl > 0 then sql_add_seconds eng now ttl else None)
        in (kv_view t s)(key := if alive_at t e then Some (value, e) else None))"
  by (rule ext) (simp add: kv_view_def write_set_def find_upsert Let_def)

lemma find_filter: "find P (filter Q xs) = find (\<lambda>x. Q x \<and> P x) xs"
  by (induction xs) auto

lemma view_delete:
  "kv_view t (fst (kv_delete True key s)) = (kv_view t s)(key := None)"
proof
  fix k
  have "(\<lambda>r. kv_key r \<noteq> key \<and> kv_key r = k \<and> not_expired t r)
      = (if k = key then (\<lambda>r. False) else (\<lambda>r. kv_key r = k \<and> not_expired t r))" by auto
  then show "kv_view t (fst (kv_delete True key s)) k = ((kv_view t s)(key := None)) k"
    by (simp add: kv_view_def kv_delete_def find_filter find_NoneI)
qed

lemma not_expired_mono: "now \<le> t \<Longrightarrow> not_expired t r \<Longrightarrow> not_expired now r"
  by (auto simp: not_expired_def split: option.splits)

lemma view_cleanup: "now \<le> t \<Longrightarrow> kv_view t (cleanup_expired ok now s) = kv_view t s"
proof (rule ext)
  fix k assume "now \<le> t"
  then have "(\<lambda>r. not_expired now r \<and> kv_key r = k \<and> not_expired t r) = (\<lambda>r. kv_key r = k \<and> not_expired t r)"
    using not_expired_mono by blast
  then show "kv_view t (cleanup_expired ok now s) k = kv_view t s k"
    by (simp add: kv_view_def cleanup_expired_def find_filter)
qed

lemma upsert_keys:
  "distinct (map kv_key rows) \<Longrightarrow> distinct (map kv_key (upsert now key value e rows))"
  by (auto simp: upsert_def o_def if_distrib [of kv_key] cong: if_cong)

section \<open>The contract of a map with updates\<close>

text \<open>
  What a client of a store relies on, whatever the store: a put is seen under its key, a deletion
  empties it, and nothing else changes. The last operation on a key then decides.
\<close>

datatype ('k, 'v) map_op = Op_put 'k 'v | Op_delete 'k

fun op_key :: "('k, 'v) map_op \<Rightarrow> 'k" where
  "op_key (Op_put k v) = k"
| "op_key (Op_delete k) = k"

fun op_value :: "('k, 'v) map_op \<Rightarrow> 'v option" where
  "op_value (Op_put k v) = Some v"
| "op_value (Op_delete k) = None"

locale map_store =
  fixes look :: "'s \<Rightarrow> 'k \<Rightarrow> 'v option" and apply_op :: "('k, 'v) map_op \<Rightarrow> 's \<Rightarrow> 's"
    and ok :: "'s \<Rightarrow> bool"
  assumes look_op: "ok s \<Longrightarrow> look (apply_op p s) = (look s)(op_key p := op_value p)"
    and op_ok: "ok s \<Longrightarrow> ok (apply_op p s)"
begin

lemma last_op_decides:
  "ok s \<Longrightarrow> look (fold apply_op ps s) k =
     (case find (\<lambda>p. op_key p = k) (rev ps) of Some p \<Rightarrow> op_value p | None \<Rightarrow> look s k)"
proof (induction ps arbitrary: s)
  case Nil
  then show ?case by simp
next
  case (Cons p ps)
  have "find P (xs @ [y]) = (case find P xs of None \<Rightarrow> if P y then Some y else None | Some x \<Rightarrow> Some x)"
    for P xs and y :: "('k, 'v) map_op" by (induction xs) auto
  with Cons.IH [OF op_ok [OF Cons.prems]] Cons.prems show ?case
    by (auto simp: look_op split: option.splits)
qed

end

definition kv_apply :: "kv_engine \<Rightarrow> int \<Rightarrow> (string, string) map_op \<Rightarrow> kv_store \<Rightarrow> kv_store" where
  "kv_apply eng now p s =
     (case p of
        Op_put k v \<Rightarrow> write_set eng now k v 0 s
      | Op_delete k \<Rightarrow> fst (kv_delete True k s))"

interpretation kv: map_store "\<lambda>s k. map_option fst (kv_view t s k)" "kv_apply eng now"
  "\<lambda>s. distinct (map kv_key (kv_rows s))"
proof
  fix s :: kv_store and p assume d: "distinct (map kv_key (kv_rows s))"
  show "(\<lambda>k. map_option fst (kv_view t (kv_apply eng now p s) k))
      = (\<lambda>k. map_option fst (kv_view t s k))(op_key p := op_value p)"
  proof (cases p)
    case (Op_put k v)
    then show ?thesis using d by (auto simp: kv_apply_def kv_view_def write_set_def find_upsert alive_at_def fun_eq_iff)
  next
    case (Op_delete k)
    then show ?thesis by (auto simp: kv_apply_def view_delete fun_eq_iff)
  qed
  show "distinct (map kv_key (kv_rows (kv_apply eng now p s)))"
    using d upsert_keys [OF d] by (cases p) (simp_all add: kv_apply_def write_set_def kv_delete_def distinct_map_filter)
qed

section \<open>The storage limit\<close>

definition kv_ok :: "int \<Rightarrow> kv_store \<Rightarrow> bool" where
  "kv_ok now s \<longleftrightarrow> distinct (map kv_key (kv_rows s))
     \<and> (\<forall>r \<in> set (kv_rows s). kv_size r = int (length (kv_value r)))
     \<and> storage_used now s \<le> kv_max_size s"

lemma used_filter_le:
  "\<forall>r \<in> set rows. 0 \<le> kv_size r \<Longrightarrow> (\<And>r. Q r \<Longrightarrow> P r) \<Longrightarrow>
     sum_list (map kv_size (filter Q rows)) \<le> sum_list (map kv_size (filter P rows))"
  by (induction rows) auto

lemma kv_ok_later: "kv_ok now s \<Longrightarrow> now \<le> t \<Longrightarrow> kv_ok t s"
  using used_filter_le [of "kv_rows s" "not_expired t" "not_expired now"] not_expired_mono
  by (fastforce simp: kv_ok_def storage_used_def live_rows_def)

lemma kv_ok_filter:
  assumes "kv_ok now s"
  shows "kv_ok now (s\<lparr>kv_rows := filter P (kv_rows s)\<rparr>)"
proof -
  have "sum_list (map kv_size (filter (not_expired now) (filter P (kv_rows s))))
      \<le> sum_list (map kv_size (filter (not_expired now) (kv_rows s)))"
    unfolding filter_filter by (rule used_filter_le) (use assms in \<open>auto simp: kv_ok_def\<close>)
  then show ?thesis using assms
    by (auto simp: kv_ok_def storage_used_def live_rows_def distinct_map inj_on_def)
qed

text \<open>The bytes of the live values under other keys.\<close>

definition others_used :: "int \<Rightarrow> string \<Rightarrow> kv_store \<Rightarrow> int" where
  "others_used now key s = sum_list (map kv_size (filter (\<lambda>r. kv_key r \<noteq> key \<and> not_expired now r) (kv_rows s)))"

lemma used_others:
  assumes "distinct (map kv_key (kv_rows s))"
  shows "storage_used now s = others_used now key s + old_size now key s"
proof -
  have "sum_list (map kv_size (filter (not_expired now) rows)) =
      sum_list (map kv_size (filter (\<lambda>r. kv_key r \<noteq> key \<and> not_expired now r) rows)) +
      (case find (\<lambda>r. kv_key r = key \<and> not_expired now r) rows of Some r \<Rightarrow> kv_size r | None \<Rightarrow> 0)"
    if "distinct (map kv_key rows)" for rows
    using that
  proof (induction rows)
    case (Cons r rows)
    then have "kv_key r = key \<Longrightarrow> find (\<lambda>r. kv_key r = key \<and> not_expired now r) rows = None"
      by (fastforce simp: find_None_iff image_iff)
    with Cons show ?case by (auto split: option.splits)
  qed simp
  from this [OF assms] show ?thesis
    by (simp add: storage_used_def live_rows_def others_used_def old_size_def)
qed

lemma others_filter:
  assumes "\<forall>r \<in> set (kv_rows s). 0 \<le> kv_size r" "now \<le> t" "kv_rows s' = filter P (kv_rows s)"
  shows "others_used t key s' \<le> others_used now key s"
  unfolding others_used_def assms(3) filter_filter
  by (rule used_filter_le) (use assms(1,2) not_expired_mono in auto)

lemma others_upsert [simp]: "others_used now key (write_set eng t key value ttl s) = others_used now key s"
proof -
  have "filter (\<lambda>r. kv_key r \<noteq> key \<and> not_expired now r) (upsert t key value e rows) =
      filter (\<lambda>r. kv_key r \<noteq> key \<and> not_expired now r) rows" for e rows
  proof -
    have "filter (\<lambda>r. kv_key r \<noteq> key \<and> not_expired now r) (map (\<lambda>r. if kv_key r = key then f r else r) rows)
        = filter (\<lambda>r. kv_key r \<noteq> key \<and> not_expired now r) rows" if "\<And>r. kv_key (f r) = kv_key r" for f
      by (induction rows) (auto simp: that)
    then show ?thesis by (simp add: upsert_def)
  qed
  then show ?thesis by (simp add: others_used_def write_set_def)
qed

lemma old_upsert:
  assumes "distinct (map kv_key (kv_rows s))"
  shows "old_size now key (write_set eng t key value ttl s) \<le> int (length value)"
proof -
  let ?rows = "kv_rows (write_set eng t key value ttl s)" and ?P = "\<lambda>r. kv_key r = key \<and> not_expired now r"
  have "kv_size r = int (length value)" if "find ?P ?rows = Some r" for r
  proof -
    have "r \<in> set ?rows" "kv_key r = key" using that by (auto simp: find_Some_iff)
    moreover have "\<forall>r \<in> set (upsert t key value e rows). kv_key r = key \<longrightarrow> kv_size r = int (length value)" for e rows
      by (auto simp: upsert_def)
    ultimately show ?thesis by (simp add: write_set_def)
  qed
  then show ?thesis by (auto simp: old_size_def split: option.split)
qed

lemma write_set_ok:
  assumes "kv_ok now s" "others_used now key s + int (length value) \<le> kv_max_size s"
  shows "kv_ok now (write_set eng now key value ttl s)"
proof -
  let ?s = "write_set eng now key value ttl s"
  have d: "distinct (map kv_key (kv_rows s))" "distinct (map kv_key (kv_rows ?s))"
    using assms(1) by (simp_all add: kv_ok_def write_set_def upsert_keys)
  have "kv_max_size ?s = kv_max_size s" by (simp add: write_set_def)
  then have "storage_used now ?s \<le> kv_max_size ?s"
    using assms(2) old_upsert [OF d(1), of now key eng now "value" ttl] used_others [OF d(2), of now key] by simp
  moreover have "\<forall>r \<in> set (kv_rows ?s). kv_size r = int (length (kv_value r))"
    using assms(1) by (auto simp: write_set_def upsert_def kv_ok_def)
  ultimately show ?thesis using d(2) by (simp add: kv_ok_def)
qed

text \<open>
  The statements as steps: a set reads the size of the old value, then the sum, then writes, and the
  clock moves and values are deleted at any time in between. A step with the label \<open>False\<close> takes away
  the value whose size has been read, before the sum is: it expires, or is deleted.
\<close>

datatype pending_set =
    Size_read string string int int
  | Limit_checked string string int

record kv_run =
  kr_now :: int
  kr_store :: kv_store
  kr_set :: "pending_set option"

definition size_kept :: "kv_run \<Rightarrow> kv_run \<Rightarrow> bool" where
  "size_kept c c' \<longleftrightarrow>
     (case kr_set c of
        Some (Size_read key v ttl old) \<Rightarrow>
          kr_set c' \<noteq> kr_set c \<or> old_size (kr_now c') key (kr_store c') = old_size (kr_now c) key (kr_store c)
      | _ \<Rightarrow> True)"

inductive kv_change :: "kv_engine \<Rightarrow> kv_run \<Rightarrow> kv_run \<Rightarrow> bool" for eng where
  tick: "kr_now c \<le> t \<Longrightarrow> kv_change eng c (c\<lparr>kr_now := t\<rparr>)"
| read: "kr_set c = None \<Longrightarrow> check_key key = None \<Longrightarrow>
    kv_change eng c (c\<lparr>kr_set := Some (Size_read key v ttl (old_size (kr_now c) key (kr_store c)))\<rparr>)"
| check: "kr_set c = Some (Size_read key v ttl old) \<Longrightarrow>
    check_storage_limit True (kr_now c) (int (length v) - old) (kr_store c) = None \<Longrightarrow>
    kv_change eng c (c\<lparr>kr_set := Some (Limit_checked key v ttl)\<rparr>)"
| give_up: "kv_change eng c (c\<lparr>kr_set := None\<rparr>)"
| put: "kr_set c = Some (Limit_checked key v ttl) \<Longrightarrow>
    kv_change eng c (c\<lparr>kr_store := write_set eng (kr_now c) key v ttl (kr_store c), kr_set := None\<rparr>)"
| delete: "kv_change eng c (c\<lparr>kr_store := fst (kv_delete ok key (kr_store c))\<rparr>)"
| delete_prefix: "kv_change eng c (c\<lparr>kr_store := fst (delete_by_prefix eng ok prefix (kr_store c))\<rparr>)"
| cleanup: "kv_change eng c (c\<lparr>kr_store := cleanup_expired ok (kr_now c) (kr_store c)\<rparr>)"

definition kv_step :: "kv_engine \<Rightarrow> kv_run \<Rightarrow> bool \<Rightarrow> kv_run \<Rightarrow> bool" where
  "kv_step eng c l c' \<longleftrightarrow> kv_change eng c c' \<and> l = size_kept c c'"

text \<open>A store is opened within its limit, with one row for a key.\<close>

definition kv_opened :: "kv_run \<Rightarrow> bool" where
  "kv_opened c \<longleftrightarrow> kv_ok (kr_now c) (kr_store c) \<and> kr_set c = None"

definition pending_ok :: "kv_run \<Rightarrow> bool" where
  "pending_ok c \<longleftrightarrow>
     (case kr_set c of
        None \<Rightarrow> True
      | Some (Size_read key v ttl old) \<Rightarrow> old = old_size (kr_now c) key (kr_store c)
      | Some (Limit_checked key v ttl) \<Rightarrow>
          others_used (kr_now c) key (kr_store c) + int (length v) \<le> kv_max_size (kr_store c))"

text \<open>Time passes and rows go.\<close>

lemma fewer_rows_ok:
  assumes "kv_ok (kr_now c) (kr_store c) \<and> pending_ok c" "size_kept c c'" "kr_set c' = kr_set c"
    and "kr_now c \<le> kr_now c'" "kr_store c' = (kr_store c)\<lparr>kv_rows := filter P (kv_rows (kr_store c))\<rparr>"
  shows "kv_ok (kr_now c') (kr_store c') \<and> pending_ok c'"
proof
  show "kv_ok (kr_now c') (kr_store c')"
    using assms kv_ok_filter kv_ok_later by metis
  have "\<forall>r \<in> set (kv_rows (kr_store c)). 0 \<le> kv_size r" using assms(1) by (auto simp: kv_ok_def)
  from others_filter [OF this assms(4), of "kr_store c'" P]
  have others: "others_used (kr_now c') key (kr_store c') \<le> others_used (kr_now c) key (kr_store c)" for key
    by (simp add: assms(5))
  show "pending_ok c'"
  proof (cases "kr_set c")
    case None
    then show ?thesis by (simp add: pending_ok_def assms(3))
  next
    case (Some p)
    show ?thesis
    proof (cases p)
      case (Size_read key v ttl old)
      with Some assms(1-3) show ?thesis by (simp add: pending_ok_def size_kept_def)
    next
      case (Limit_checked key v ttl)
      with Some assms(1,3) others [of key] show ?thesis by (simp add: pending_ok_def assms(5))
    qed
  qed
qed

lemma kv_change_ok:
  assumes "kv_change eng c c'" "size_kept c c'" "kv_ok (kr_now c) (kr_store c) \<and> pending_ok c"
  shows "kv_ok (kr_now c') (kr_store c') \<and> pending_ok c'"
  using assms(1)
proof cases
  case (check key v ttl old)
  let ?s = "kr_store c"
  have d: "distinct (map kv_key (kv_rows ?s))" and old: "old = old_size (kr_now c) key ?s"
    using assms(3) check(2) by (simp_all add: kv_ok_def pending_ok_def)
  with check(3) assms(3) used_others [OF d, of "kr_now c" key]
  have "others_used (kr_now c) key ?s + int (length v) \<le> kv_max_size ?s"
    by (auto simp: check_storage_limit_def kv_ok_def split: if_splits)
  with check(1) assms(3) show ?thesis by (simp add: pending_ok_def)
next
  case (put key v ttl)
  with assms(3) write_set_ok [of "kr_now c" "kr_store c" key v eng ttl] show ?thesis
    by (simp add: pending_ok_def)
next
  case (tick t)
  with assms fewer_rows_ok [of c c' "\<lambda>_. True"] show ?thesis by simp
next
  case (delete ok key)
  with assms fewer_rows_ok [of c c' "\<lambda>r. ok \<longrightarrow> kv_key r \<noteq> key"] show ?thesis by (simp add: kv_delete_def)
next
  case (delete_prefix ok prefix)
  have "fst (delete_by_prefix eng ok prefix s) = s\<lparr>kv_rows := filter
      (\<lambda>r. prefix \<noteq> [] \<and> ok \<longrightarrow> \<not> sql_like eng (escape_prefix prefix @ ''%'') (kv_key r)) (kv_rows s)\<rparr>" for s
    by (auto simp: delete_by_prefix_def Let_def)
  with delete_prefix assms show ?thesis by (intro fewer_rows_ok [of c c']) auto
next
  case (cleanup ok)
  with assms fewer_rows_ok [of c c' "\<lambda>r. ok \<longrightarrow> not_expired (kr_now c) r"] show ?thesis
    by (simp add: cleanup_expired_def)
qed (use assms(3) in \<open>auto simp: pending_ok_def\<close>)

interpretation store: invariant "kv_step eng" kv_opened "{True}" "\<lambda>c. kv_ok (kr_now c) (kr_store c) \<and> pending_ok c"
proof
  show "kv_ok (kr_now c) (kr_store c) \<and> pending_ok c" if "kv_opened c" for c
    using that by (simp add: kv_opened_def pending_ok_def)
qed (auto simp: kv_step_def dest: kv_change_ok)

text \<open>A set that nothing comes between is its three statements in a row.\<close>

lemma set_value_steps:
  assumes "set_value eng (True, True, True) (t1, t2, t3) key v ttl s = (s', None)" "t1 \<le> t2" "t2 \<le> t3"
  shows "(kv_change eng)\<^sup>*\<^sup>* \<lparr>kr_now = t1, kr_store = s, kr_set = None\<rparr> \<lparr>kr_now = t3, kr_store = s', kr_set = None\<rparr>"
proof -
  let ?c = "\<lambda>t s p. \<lparr>kr_now = t, kr_store = s, kr_set = p\<rparr>"
  have ok: "check_key key = None" "check_storage_limit True t2 (int (length v) - old_size t1 key s) s = None"
    "s' = write_set eng t3 key v ttl s"
    using assms(1) by (auto simp: set_value_def check_set_def split: option.splits)
  have "kv_change eng (?c t1 s None) (?c t1 s (Some (Size_read key v ttl (old_size t1 key s))))"
    using kv_change.read [of "?c t1 s None" key eng v ttl] ok(1) by simp
  moreover have "kv_change eng (?c t1 s p) (?c t2 s p)" "kv_change eng (?c t2 s p) (?c t3 s p)" for p
    using kv_change.tick [of "?c t1 s p" t2 eng] kv_change.tick [of "?c t2 s p" t3 eng] assms(2,3) by simp_all
  moreover have "kv_change eng (?c t2 s (Some (Size_read key v ttl (old_size t1 key s)))) (?c t2 s (Some (Limit_checked key v ttl)))"
    using kv_change.check [of "?c t2 s (Some (Size_read key v ttl (old_size t1 key s)))" key v ttl "old_size t1 key s" eng] ok(2)
    by simp
  moreover have "kv_change eng (?c t3 s (Some (Limit_checked key v ttl))) (?c t3 s' None)"
    using kv_change.put [of "?c t3 s (Some (Limit_checked key v ttl))" key v ttl eng] ok(3) by simp
  ultimately show ?thesis by (meson converse_rtranclp_into_rtranclp rtranclp.rtrancl_refl)
qed

section \<open>Many keys at once\<close>

lemma length_chunks: "length (collect_chunks n xs) \<le> length xs"
proof (induction n xs rule: collect_chunks.induct)
  case (1 n xs)
  show ?case
  proof (cases "xs = []")
    case True
    then show ?thesis by (simp add: collect_chunks.simps)
  next
    case False
    then have "length (collect_chunks n (drop (max 1 n) xs)) \<le> length xs - max 1 n" using 1 by simp
    moreover have "Suc (length xs - max 1 n) \<le> length xs" using False by (cases xs) auto
    moreover have "collect_chunks n xs = take (max 1 n) xs # collect_chunks n (drop (max 1 n) xs)"
      using False by (subst collect_chunks.simps) simp
    ultimately show ?thesis by simp
  qed
qed

lemma put_rows_find:
  "distinct (map kv_key rs) \<Longrightarrow>
     put_rows rs m k = (case find (\<lambda>r. kv_key r = k) rs of Some r \<Rightarrow> Some (kv_value r) | None \<Rightarrow> m k)"
proof (induction rs arbitrary: m)
  case Nil
  then show ?case by simp
next
  case (Cons r rs)
  then have "kv_key r = k \<Longrightarrow> find (\<lambda>r. kv_key r = k) rs = None" by (auto simp: find_None_iff image_iff)
  with Cons show ?case by (auto split: option.splits)
qed

lemma view_none: "kv_view now s k = None \<Longrightarrow> map_option fst (kv_view now s k) = None"
  by simp

lemma get_chunks_view:
  assumes "distinct (map kv_key (kv_rows s))"
  shows "list_all id oks \<Longrightarrow> length kss \<le> length oks \<Longrightarrow>
     get_chunks oks now kss s m
       = Inr (\<lambda>k. if k \<in> set (concat kss) \<and> kv_view now s k \<noteq> None then map_option fst (kv_view now s k) else m k)"
proof (induction kss arbitrary: oks m)
  case Nil
  then show ?case by simp
next
  case (Cons ks kss)
  then obtain oks' where oks: "oks = True # oks'" by (cases oks) auto
  let ?rows = "filter (\<lambda>r. kv_key r \<in> set ks \<and> not_expired now r) (kv_rows s)"
  have "(\<lambda>r. (kv_key r \<in> set ks \<and> not_expired now r) \<and> kv_key r = k)
      = (if k \<in> set ks then (\<lambda>r. kv_key r = k \<and> not_expired now r) else (\<lambda>r. False))" for k by auto
  then have "put_rows ?rows m
      = (\<lambda>k. if k \<in> set ks \<and> kv_view now s k \<noteq> None then map_option fst (kv_view now s k) else m k)"
    using assms by (intro ext, subst put_rows_find)
      (auto simp: distinct_map_filter find_filter kv_view_def find_NoneI split: option.splits)
  then show ?case using Cons.IH [of oks'] Cons.prems oks by (auto simp: fun_eq_iff)
qed

section \<open>Prefixes\<close>

text \<open>A key has the prefix up to the case of the letters of ASCII.\<close>

definition fold_prefix :: "string \<Rightarrow> string \<Rightarrow> bool" where
  "fold_prefix p k \<longleftrightarrow> length p \<le> length k \<and> to_lower (take (length p) k) = to_lower p"

lemma replace_all_char:
  "replace_all [c] new s = concat (map (\<lambda>x. if x = c then new else [x]) s)"
  by (induction s) (simp, subst replace_all.simps, simp)

definition escaped :: "char \<Rightarrow> string" where
  "escaped c = (if c = CHR ''%'' \<or> c = CHR ''_'' then [bs, c] else [c])"

lemma escape_prefix_concat: "escape_prefix p = concat (map escaped p)"
  by (induction p) (auto simp: escape_prefix_def replace_all_char escaped_def bs_def)

lemma like_any [simp]: "like_doc ''%'' s"
proof (induction s)
  case Nil
  then show ?case by simp
next
  case (Cons c s)
  show ?case by (subst like_doc.simps(2)) (simp add: Cons.IH del: like_doc.simps)
qed

lemma byte_lower: "is_upper x \<Longrightarrow> byte (lower_char x) = byte x + 32"
  by (simp add: byte_def lower_char_def is_upper_def)

lemma lower_special:
  assumes "c = CHR ''%'' \<or> c = CHR ''_''"
  shows "lower_char x = lower_char c \<longleftrightarrow> x = c"
proof (cases "is_upper x")
  case True
  have "byte c = 37 \<or> byte c = 95" using assms by (auto simp: byte_def)
  moreover from this have "lower_char c = c" by (auto simp: lower_char_def is_upper_def)
  moreover have "97 \<le> byte (lower_char x)" "byte x \<le> 90" using True byte_lower [of x] by (auto simp: is_upper_def)
  ultimately show ?thesis using True by (auto simp: is_upper_def byte_lower)
next
  case False
  have "byte c = 37 \<or> byte c = 95" using assms by (auto simp: byte_def)
  then have "lower_char c = c" by (auto simp: lower_char_def is_upper_def)
  with False show ?thesis by (simp add: lower_char_def)
qed

lemma like_escaped:
  "bs \<notin> set p \<Longrightarrow> like_documented (concat (map escaped p) @ ''%'')
     \<and> like_doc (concat (map escaped p) @ ''%'') s = fold_prefix p s"
proof (induction p arbitrary: s)
  case Nil
  then show ?case by (simp add: fold_prefix_def bs_def to_lower_def del: like_doc.simps)
next
  case (Cons c p)
  then have ih: "like_documented (concat (map escaped p) @ ''%'')"
    "\<And>s. like_doc (concat (map escaped p) @ ''%'') s = fold_prefix p s" and c: "c \<noteq> bs" by auto
  have step: "fold_prefix (c # p) s = (case s of [] \<Rightarrow> False | x # t \<Rightarrow> lower_char x = lower_char c \<and> fold_prefix p t)" for s
    by (cases s) (auto simp: fold_prefix_def to_lower_def)
  show ?case
  proof (cases "c = CHR ''%'' \<or> c = CHR ''_''")
    case True
    have special: "bs \<noteq> CHR ''%''" "bs \<noteq> CHR ''_''" by (simp_all add: bs_def)
    have esc: "concat (map escaped (c # p)) @ ''%'' = bs # c # (concat (map escaped p) @ ''%'')"
      using True by (simp add: escaped_def)
    have "like_documented (bs # c # (concat (map escaped p) @ ''%''))" using ih(1) True by auto
    moreover have "like_doc (bs # c # (concat (map escaped p) @ ''%'')) s
        = (case s of [] \<Rightarrow> False | x # t \<Rightarrow> x = c \<and> like_doc (concat (map escaped p) @ ''%'') t)"
      using special by (subst like_doc.simps(2)) simp
    ultimately show ?thesis
      unfolding esc step lower_special [OF True] ih(2) by blast
  next
    case False
    have esc: "concat (map escaped (c # p)) @ ''%'' = c # (concat (map escaped p) @ ''%'')"
      using False by (simp add: escaped_def)
    have "like_documented (c # (concat (map escaped p) @ ''%''))" using ih(1) c by simp
    moreover have "like_doc (c # (concat (map escaped p) @ ''%'')) s
        = (case s of [] \<Rightarrow> False | x # t \<Rightarrow> lower_char x = lower_char c \<and> like_doc (concat (map escaped p) @ ''%'') t)"
      using False c by (subst like_doc.simps(2)) simp
    ultimately show ?thesis unfolding esc step ih(2) by blast
  qed
qed

lemma engine_like_prefix:
  "engine_documented eng \<Longrightarrow> bs \<notin> set p \<Longrightarrow>
     sql_like eng (escape_prefix p @ ''%'') k = fold_prefix p k"
  using like_escaped [of p k] by (simp add: engine_documented_def escape_prefix_concat)

lemma view_keys:
  assumes "distinct (map kv_key (kv_rows s))"
  shows "kv_key ` {r \<in> set (kv_rows s). not_expired now r} = {k. kv_view now s k \<noteq> None}"
  by (auto simp: kv_view_def find_None_iff)

section \<open>The properties of the store\<close>

text \<open>
  C26. The storage limit: sets read the size of the old value, sum up the store and write in three
  statements, while the clock moves, values expire and are deleted and rows are cleaned up. As long
  as no two sets overlap, and the value whose size a set has read is still there when it sums up,
  the live values of a store that was opened within its limit never take more bytes than the plugin
  is allowed.
\<close>

theorem storage_limit:
  assumes "reached (kv_step eng) kv_opened {True} c" "kr_now c \<le> t"
  shows "storage_used t (kr_store c) \<le> kv_max_size (kr_store c)
     \<and> storage_used t (kr_store c) = sum_list (map (\<lambda>r. int (length (kv_value r))) (live_rows t (kr_store c)))"
proof -
  let ?s = "kr_store c"
  have ok: "kv_ok t ?s" using kv_ok_later [OF _ assms(2), of ?s] store.reached_inv [OF assms(1)] by simp
  then have "\<forall>r \<in> set (live_rows t ?s). kv_size r = int (length (kv_value r))"
    by (auto simp: kv_ok_def live_rows_def)
  then have "map kv_size (live_rows t ?s) = map (\<lambda>r. int (length (kv_value r))) (live_rows t ?s)" by simp
  then have "storage_used t ?s = sum_list (map (\<lambda>r. int (length (kv_value r))) (live_rows t ?s))"
    unfolding storage_used_def by (rule arg_cong)
  with ok show ?thesis unfolding kv_ok_def by blast
qed

definition demo_store :: kv_store where
  "demo_store = \<lparr>kv_rows = [], kv_max_size = 10\<rparr>"

definition demo_store1 :: kv_store where
  "demo_store1 = fst (kv_set demo_engine (True, True, True) (100, 100, 100) ''k1'' ''12345678'' demo_store)"

text \<open>The set of the first key, statement by statement.\<close>

definition demo_run :: "int \<Rightarrow> pending_set option \<Rightarrow> kv_store \<Rightarrow> kv_run" where
  "demo_run now p s = \<lparr>kr_now = now, kr_store = s, kr_set = p\<rparr>"

lemma demo_run_reached: "reached (kv_step demo_engine) kv_opened {True} (demo_run 100 None demo_store1)"
proof -
  let ?read = "demo_run 100 (Some (Size_read ''k1'' ''12345678'' 0 0)) demo_store"
  let ?checked = "demo_run 100 (Some (Limit_checked ''k1'' ''12345678'' 0)) demo_store"
  have a: "reached (kv_step demo_engine) kv_opened {True} (demo_run 100 None demo_store)"
    by (rule reached.start)
      (simp add: kv_opened_def demo_run_def demo_store_def kv_ok_def storage_used_def live_rows_def)
  have b: "kv_step demo_engine (demo_run 100 None demo_store) True ?read"
    using kv_change.read [of "demo_run 100 None demo_store" "''k1''" demo_engine "''12345678''" 0]
    by (simp add: kv_step_def size_kept_def demo_run_def demo_store_def check_key_def max_key_length_def old_size_def)
  have c: "kv_step demo_engine ?read True ?checked"
    using kv_change.check [of ?read "''k1''" "''12345678''" 0 0 demo_engine]
    by (simp add: kv_step_def size_kept_def demo_run_def demo_store_def check_storage_limit_def storage_used_def live_rows_def)
  have "demo_store1 = write_set demo_engine 100 ''k1'' ''12345678'' 0 demo_store" by code_simp
  with kv_change.put [of ?checked "''k1''" "''12345678''" 0 demo_engine]
  have d: "kv_step demo_engine ?checked True (demo_run 100 None demo_store1)"
    by (simp add: kv_step_def size_kept_def demo_run_def)
  show ?thesis
    by (rule reached_by [OF d reached_by [OF c reached_by [OF b a]]]) simp_all
qed

theorem storage_limit_witness: "storage_used 200 demo_store1 \<le> kv_max_size demo_store1"
  using storage_limit [OF demo_run_reached, of 200] by (simp add: demo_run_def)

text \<open>
  The size of the old value and the sum are read at two times. When the old value expires between
  the two, its bytes are subtracted although the sum no longer has them: with 8 bytes of another
  key in a store of 10, a set that takes a key from 2 bytes to 4 is let through, and 12 are kept.
\<close>

definition lapse_store :: kv_store where
  "lapse_store = \<lparr>kv_rows =
     [\<lparr>kv_key = ''a'', kv_value = ''12345678'', kv_size = 8, kv_created_at = 0, kv_updated_at = 0, kv_expires_at = None\<rparr>,
      \<lparr>kv_key = ''b'', kv_value = ''12'', kv_size = 2, kv_created_at = 0, kv_updated_at = 0, kv_expires_at = Some 99\<rparr>],
     kv_max_size = 10\<rparr>"

lemma lapse_exceeds_limit:
  "storage_used 99 lapse_store = 10
   \<and> snd (kv_set demo_engine (True, True, True) (100, 100, 100) ''b'' ''1234'' lapse_store) = Some Limit_exceeded
   \<and> snd (kv_set demo_engine (True, True, True) (99, 100, 100) ''b'' ''1234'' lapse_store) = None
   \<and> storage_used 100 (fst (kv_set demo_engine (True, True, True) (99, 100, 100) ''b'' ''1234'' lapse_store)) = 12"
  by code_simp

text \<open>
  Two sets that run at the same time break the limit: both pass the check before either
  writes, and 16 bytes end up in a store of 10.
\<close>

lemma concurrent_sets_exceed_limit:
  "check_set True True 100 100 ''k1'' ''12345678'' demo_store = None
   \<and> check_set True True 100 100 ''k2'' ''87654321'' demo_store = None
   \<and> storage_used 100 (write_set demo_engine 100 ''k2'' ''87654321'' 0
        (write_set demo_engine 100 ''k1'' ''12345678'' 0 demo_store)) = 16
   \<and> kv_max_size demo_store = 10"
  by code_simp

text \<open>
  Reads follow writes: after any sequence of writes and deletions \<open>Get\<close> returns what the last
  one on the key left, or what was there before when there was none; \<open>Has\<close> agrees, and a
  cleanup at an earlier time is not seen.
\<close>

lemma read_your_writes:
  assumes "distinct (map kv_key (kv_rows s))" "now \<le> t"
  shows "kv_get True t k (cleanup_expired ok now (fold (kv_apply eng now) ops s))
       = Inr (case find (\<lambda>p. op_key p = k) (rev ops) of
                Some p \<Rightarrow> op_value p
              | None \<Rightarrow> (case kv_get True t k s of Inr v \<Rightarrow> v | Inl e \<Rightarrow> None))
     \<and> kv_has True t k (fold (kv_apply eng now) ops s)
       = Inr (kv_get True t k (fold (kv_apply eng now) ops s) \<noteq> Inr None)"
proof -
  have get: "kv_get True t k s = Inr (map_option fst (kv_view t s k))" for s
    by (simp add: kv_get_def kv_view_def option.map_comp o_def)
  have has: "kv_has True t k s = Inr (map_option fst (kv_view t s k) \<noteq> None)" for s
    by (auto simp: kv_has_def kv_view_def find_None_iff filter_empty_conv)
  show ?thesis
    using kv.last_op_decides [OF assms(1), of t eng now ops k] assms(2)
    by (simp add: get has view_cleanup split: option.splits)
qed

lemma read_your_writes_witness:
  "kv_get True 100 ''a'' (cleanup_expired True 90
      (fold (kv_apply demo_engine 90) [Op_put ''a'' ''1'', Op_put ''b'' ''2'', Op_put ''a'' ''3''] demo_store)) = Inr (Some ''3'')"
  using read_your_writes [of demo_store 90 100 "''a''" True demo_engine "[Op_put ''a'' ''1'', Op_put ''b'' ''2'', Op_put ''a'' ''3'']"]
  by (simp add: demo_store_def)

text \<open>
  A value set with a time to live is there up to and including its last second and gone after
  it, unless that second is beyond the dates of the engine: then it never expires.
\<close>

lemma ttl_is_exact:
  assumes "engine_documented eng" "distinct (map kv_key (kv_rows s))"
    "kv_set_with_ttl eng oks (t1, t2, now) key v ttl s = (s', None)"
  shows "0 < ttl \<and> kv_get True t key s'
     = Inr (if now + ttl \<le> 253402300799 \<and> now + ttl < t then None else Some v)"
proof -
  have ttl: "0 < ttl" and s': "s' = write_set eng now key v ttl s"
    using assms(3) by (auto simp: kv_set_with_ttl_def set_value_def split: prod.splits option.splits if_splits)
  have "map_option fst (kv_view t s' key)
      = (if alive_at t (sql_add_seconds eng now ttl) then Some v else None)"
    using ttl by (simp add: s' view_write_set [OF assms(2)] Let_def)
  also have "\<dots> = (if now + ttl \<le> 253402300799 \<and> now + ttl < t then None else Some v)"
    using assms(1) by (auto simp: engine_documented_def alive_at_def last_date_def)
  finally show ?thesis using ttl by (simp add: kv_get_def kv_view_def option.map_comp o_def)
qed

lemma ttl_is_exact_witness:
  "kv_get True 161 ''k'' (fst (kv_set_with_ttl demo_engine (True, True, True) (100, 100, 100) ''k'' ''v'' 60 demo_store)) = Inr None"
proof -
  have set_ok: "kv_set_with_ttl demo_engine (True, True, True) (100, 100, 100) ''k'' ''v'' 60 demo_store
      = (fst (kv_set_with_ttl demo_engine (True, True, True) (100, 100, 100) ''k'' ''v'' 60 demo_store), None)"
    by (simp add: kv_set_with_ttl_def set_value_def check_set_def check_key_def check_storage_limit_def old_size_def
        storage_used_def live_rows_def demo_store_def max_key_length_def)
  show ?thesis using ttl_is_exact [OF demo_engine_documented _ set_ok, of 161] by (simp add: demo_store_def)
qed

text \<open>
  \<open>GetMany\<close> is \<open>Get\<close> on each of the keys: the chunks of 200 neither lose nor add any.
\<close>

lemma get_many_is_get:
  assumes "distinct (map kv_key (kv_rows s))"
  shows "get_many (replicate (length keys) True) now keys s
     = Inr (\<lambda>k. if k \<in> set keys then (case kv_get True now k s of Inr v \<Rightarrow> v | Inl e \<Rightarrow> None) else None)"
proof -
  have get: "kv_get True now k s = Inr (map_option fst (kv_view now s k))" for k
    by (simp add: kv_get_def kv_view_def option.map_comp o_def)
  show ?thesis
    using get_chunks_view [OF assms, of "replicate (length keys) True" "collect_chunks 200 keys" now Map.empty]
      length_chunks [of 200 keys] concat_chunks [of 200 keys]
    by (simp add: get_many_def get list_all_iff fun_eq_iff view_none del: not_None_eq split_paired_Ex)
qed

lemma get_many_is_get_witness:
  "get_many (replicate (length [''k1'', ''k2'']) True) 100 [''k1'', ''k2''] demo_store
     = Inr (\<lambda>k. if k \<in> set [''k1'', ''k2''] then (case kv_get True 100 k demo_store of Inr v \<Rightarrow> v | Inl e \<Rightarrow> None) else None)"
  by (rule get_many_is_get) (simp add: demo_store_def)

text \<open>
  \<open>List\<close> returns the live keys with the prefix, each once and in byte order, and
  \<open>DeleteByPrefix\<close> removes exactly the keys with it; but a prefix is compared without the case of
  its letters, so keys that merely look like it are listed and deleted as well.
\<close>

lemma prefix_ignores_case:
  assumes "engine_documented eng" "distinct (map kv_key (kv_rows s))" "bs \<notin> set prefix" "prefix \<noteq> ''''"
  shows "\<exists>ks s' n. kv_list eng True now prefix s = Inr ks
     \<and> set ks = {k. kv_get True now k s \<noteq> Inr None \<and> fold_prefix prefix k}
     \<and> distinct ks \<and> sorted (map (map byte) ks)
     \<and> delete_by_prefix eng True prefix s = (s', Inr n)
     \<and> (\<forall>k. kv_get True now k s' = (if fold_prefix prefix k then Inr None else kv_get True now k s))"
proof -
  note like = engine_like_prefix [OF assms(1,3)]
  let ?ks = "map kv_key (filter (\<lambda>r. fold_prefix prefix (kv_key r) \<and> not_expired now r) (kv_rows s))"
  have get: "kv_get True now k s = Inr (map_option fst (kv_view now s k))" for k s
    by (simp add: kv_get_def kv_view_def option.map_comp o_def)
  have "kv_list eng True now prefix s = Inr (sort_key (map byte) ?ks)"
    using assms(4) by (simp add: kv_list_def like)
  moreover have "set ?ks = {k. kv_get True now k s \<noteq> Inr None \<and> fold_prefix prefix k}"
    by (auto simp: kv_get_def find_None_iff)
  moreover have "distinct ?ks" using assms(2) by (rule distinct_map_filter)
  moreover have "kv_get True now k (s\<lparr>kv_rows := filter (\<lambda>r. \<not> fold_prefix prefix (kv_key r)) (kv_rows s)\<rparr>)
      = (if fold_prefix prefix k then Inr None else kv_get True now k s)" for k
  proof -
    have "(\<lambda>r. \<not> fold_prefix prefix (kv_key r) \<and> kv_key r = k \<and> not_expired now r)
        = (if fold_prefix prefix k then (\<lambda>r. False) else (\<lambda>r. kv_key r = k \<and> not_expired now r))" by auto
    then show ?thesis by (simp add: kv_get_def find_filter find_NoneI)
  qed
  ultimately show ?thesis using assms(4) by (simp add: delete_by_prefix_def like Let_def)
qed

lemma prefix_ignores_case_witness:
  "\<exists>s' n. delete_by_prefix demo_engine True ''K'' demo_store1 = (s', Inr n) \<and> kv_get True 100 ''k1'' s' = Inr None"
proof -
  have "distinct (map kv_key (kv_rows demo_store1))" "bs \<notin> set ''K''" "fold_prefix ''K'' ''k1''" by code_simp+
  then show ?thesis using prefix_ignores_case [OF demo_engine_documented, of demo_store1 "''K''" 100] by fastforce
qed

end
