(* ===== verification/ScrobbleBuffer.thy ===== *)
theory ScrobbleBuffer
  imports Prelude Steps
begin

text \<open>
  The buffer between the server and an external scrobbling service
  (\<open>core/scrobbler/buffered_scrobbler.go\<close> on \<open>persistence/scrobble_buffer_repository.go\<close>). The
  table is a list in the order of its \<open>rowid\<close>; the time of a play is a number in the order the
  database gives that column. Every statement and every call of the service may fail: what they
  answer is an argument. The goroutine of \<open>run\<close> takes one step per statement, and requests,
  timers, other services and deletions of users and tracks come in between.
\<close>

section \<open>The table\<close>

record scrobble_entry =
  se_id :: string
  se_service :: string
  se_user :: string
  se_track :: string
  se_play_time :: int
  se_enqueue_time :: int

type_synonym scrobble_table = "scrobble_entry list"

definition own :: "string \<Rightarrow> scrobble_entry \<Rightarrow> bool" where
  "own service e \<longleftrightarrow> se_service e = service"

text \<open>\<open>UserIDs\<close>: each user once, by the number of entries; ties come in any order.\<close>

definition entries_of :: "string \<Rightarrow> string \<Rightarrow> scrobble_table \<Rightarrow> nat" where
  "entries_of service user b = length (filter (\<lambda>e. own service e \<and> se_user e = user) b)"

definition user_ids :: "string \<Rightarrow> scrobble_table \<Rightarrow> string list \<Rightarrow> bool" where
  "user_ids service b us \<longleftrightarrow>
     distinct us \<and> set us = se_user ` set (filter (own service) b)
     \<and> sorted (map (\<lambda>u. entries_of service u b) us)"

text \<open>
  \<open>Enqueue\<close>. The table has two unique indexes: the ID, and user, service, track and time of play.
\<close>

definition buffer_enqueue ::
  "bool \<Rightarrow> string \<Rightarrow> int \<Rightarrow> string \<Rightarrow> string \<Rightarrow> string \<Rightarrow> int \<Rightarrow> scrobble_table \<Rightarrow> scrobble_table option" where
  "buffer_enqueue insert_ok new_id now service user track play_time b =
     (if \<not> insert_ok \<or> (\<exists>e \<in> set b. se_id e = new_id
          \<or> se_user e = user \<and> se_service e = service \<and> se_track e = track \<and> se_play_time e = play_time)
      then None
      else Some (b @ [\<lparr>se_id = new_id, se_service = service, se_user = user, se_track = track,
                       se_play_time = play_time, se_enqueue_time = now\<rparr>]))"

text \<open>\<open>Next\<close>: the entry of the user with the earliest play, and the lowest row among those.\<close>

definition user_queue :: "string \<Rightarrow> string \<Rightarrow> scrobble_table \<Rightarrow> scrobble_entry list" where
  "user_queue service user b = sort_key se_play_time (filter (\<lambda>e. own service e \<and> se_user e = user) b)"

definition buffer_next :: "string \<Rightarrow> string \<Rightarrow> scrobble_table \<Rightarrow> scrobble_entry option" where
  "buffer_next service user b =
     (case user_queue service user b of [] \<Rightarrow> None | e # es \<Rightarrow> Some e)"

definition buffer_dequeue :: "scrobble_entry \<Rightarrow> scrobble_table \<Rightarrow> scrobble_table" where
  "buffer_dequeue e b = filter (\<lambda>x. se_id x \<noteq> se_id e) b"

lemma buffer_next_in: "buffer_next service user b = Some e \<Longrightarrow> e \<in> set b \<and> own service e \<and> se_user e = user"
proof -
  assume "buffer_next service user b = Some e"
  then have "e \<in> set (user_queue service user b)"
    by (auto simp: buffer_next_def split: list.splits)
  then show ?thesis by (auto simp: user_queue_def)
qed

lemma length_dequeue: "e \<in> set b \<Longrightarrow> length (buffer_dequeue e b) < length b"
  unfolding buffer_dequeue_def by (rule length_filter_less) simp_all

section \<open>Sending\<close>

datatype answer = Accepted_by_service | Retry_later | Refused

text \<open>
  The scrobbler is a parameter: what it answers to \<open>IsAuthorized\<close> and \<open>NowPlaying\<close>. It is loaded
  again for each call, and the loader may not find it.
\<close>

record scrobbler =
  sc_authorized :: "string \<Rightarrow> bool"
  sc_now_playing :: "string \<Rightarrow> string \<Rightarrow> int \<Rightarrow> string option"

definition is_authorized :: "scrobbler option \<Rightarrow> string \<Rightarrow> bool" where
  "is_authorized loader user = (case loader of None \<Rightarrow> False | Some s \<Rightarrow> sc_authorized s user)"

definition now_playing :: "scrobbler option \<Rightarrow> string \<Rightarrow> string \<Rightarrow> int \<Rightarrow> string option" where
  "now_playing loader user track position =
     (case loader of
        None \<Rightarrow> Some ''scrobbler not available''
      | Some s \<Rightarrow> sc_now_playing s user track position)"

text \<open>What one round of the loop in \<open>processUserQueue\<close> meets.\<close>

record turn =
  read_ok :: bool
  loaded :: bool
  answered :: answer
  delete_ok :: bool

text \<open>
  \<open>processUserQueue\<close> without anything in between: its result, the table it leaves and the entries it
  sent, in order. The loop ends because each round removes an entry.
\<close>

function process_user_queue ::
  "(nat \<Rightarrow> turn) \<Rightarrow> nat \<Rightarrow> string \<Rightarrow> string \<Rightarrow> scrobble_table
   \<Rightarrow> bool \<times> scrobble_table \<times> scrobble_entry list" where
  "process_user_queue env i service user b =
     (if \<not> read_ok (env i) then (False, b, [])
      else (case buffer_next service user b of
              None \<Rightarrow> (True, b, [])
            | Some e \<Rightarrow>
                if \<not> loaded (env i) then (False, b, [])
                else if answered (env i) = Retry_later then (False, b, [e])
                else if \<not> delete_ok (env i) then (False, b, [e])
                else (case process_user_queue env (Suc i) service user (buffer_dequeue e b) of
                        (r, b', sent) \<Rightarrow> (r, b', e # sent))))"
  by pat_completeness auto

termination
  by (relation "measure (\<lambda>(env, i, service, user, b). length b)")
    (auto intro!: length_dequeue dest: buffer_next_in)

declare process_user_queue.simps [simp del]

section \<open>The goroutine\<close>

text \<open>
  Where \<open>run\<close> is: before \<open>UserIDs\<close>; in \<open>processQueue\<close>, with the users that are left and the result
  so far; in \<open>processUserQueue\<close> for the first of them, with an entry that is being sent; in the
  \<open>select\<close>; or returned. What went through is kept beside it: the entries that were ever in the
  table, those that the service answered other than "retry later", those that went with a deleted
  user or track, and the number of deletions that failed.
\<close>

datatype worker =
    Listing
  | Draining "string list" bool
  | Sending scrobble_entry "string list" bool
  | Waiting
  | Stopped

record buffered =
  bs_service :: string
  bs_table :: scrobble_table
  bs_worker :: worker
  bs_wake :: bool
  bs_timers :: nat
  bs_inserting :: nat
  bs_accepted :: "scrobble_entry list"
  bs_answered :: "scrobble_entry list"
  bs_purged :: "scrobble_entry list"
  bs_failed_deletes :: nat

text \<open>
  \<open>Scrobble\<close> inserts, and then wakes the worker; others may come between the two. IDs are random and
  taken never to repeat.
\<close>

definition scrobble_insert ::
  "bool \<Rightarrow> string \<Rightarrow> int \<Rightarrow> string \<Rightarrow> string \<Rightarrow> int \<Rightarrow> buffered \<Rightarrow> buffered" where
  "scrobble_insert insert_ok new_id now user track play_time s =
     (case buffer_enqueue insert_ok new_id now (bs_service s) user track play_time (bs_table s) of
        None \<Rightarrow> s
      | Some b \<Rightarrow> s\<lparr>bs_table := b, bs_accepted := bs_accepted s @ [last b], bs_inserting := Suc (bs_inserting s)\<rparr>)"

definition send_wake_signal :: "buffered \<Rightarrow> buffered" where
  "send_wake_signal s = s\<lparr>bs_wake := True\<rparr>"

text \<open>The end of \<open>processQueue\<close> in \<open>run\<close>: after a failure a timer wakes it again.\<close>

definition end_of_queue :: "bool \<Rightarrow> buffered \<Rightarrow> buffered" where
  "end_of_queue ok s =
     s\<lparr>bs_worker := Waiting, bs_timers := (if ok then bs_timers s else Suc (bs_timers s))\<rparr>"

definition drain_next :: "bool \<Rightarrow> bool \<Rightarrow> buffered \<Rightarrow> buffered" where
  "drain_next read_done load_done s =
     (case bs_worker s of
        Draining (u # us) ok \<Rightarrow>
          if \<not> read_done then s\<lparr>bs_worker := Draining us False\<rparr>
          else (case buffer_next (bs_service s) u (bs_table s) of
                  None \<Rightarrow> s\<lparr>bs_worker := Draining us ok\<rparr>
                | Some e \<Rightarrow>
                    if \<not> load_done then s\<lparr>bs_worker := Draining us False\<rparr>
                    else s\<lparr>bs_worker := Sending e (u # us) ok\<rparr>)
      | _ \<Rightarrow> s)"

definition drain_sent :: "answer \<Rightarrow> bool \<Rightarrow> buffered \<Rightarrow> buffered" where
  "drain_sent a delete_done s =
     (case bs_worker s of
        Sending e us ok \<Rightarrow>
          if a = Retry_later then s\<lparr>bs_worker := Draining (tl us) False\<rparr>
          else if \<not> delete_done then
            s\<lparr>bs_worker := Draining (tl us) False, bs_answered := bs_answered s @ [e],
              bs_failed_deletes := Suc (bs_failed_deletes s)\<rparr>
          else
            s\<lparr>bs_worker := Draining us ok, bs_answered := bs_answered s @ [e],
              bs_table := buffer_dequeue e (bs_table s)\<rparr>
      | _ \<Rightarrow> s)"

definition purge :: "(scrobble_entry \<Rightarrow> bool) \<Rightarrow> buffered \<Rightarrow> buffered" where
  "purge P s = s\<lparr>bs_table := filter (\<lambda>e. \<not> P e) (bs_table s),
                 bs_purged := bs_purged s @ filter (\<lambda>e. own (bs_service s) e \<and> P e) (bs_table s)\<rparr>"

datatype scrobble_event =
    Ev_insert string | Ev_signal | Ev_list | Ev_next | Ev_sent answer | Ev_end | Ev_wake | Ev_timer
  | Ev_purge | Ev_other | Ev_stop

inductive scrobble_step :: "buffered \<Rightarrow> scrobble_event \<Rightarrow> buffered \<Rightarrow> bool" where
  insert: "i \<notin> se_id ` set (bs_accepted s) \<Longrightarrow>
    scrobble_step s (Ev_insert i) (scrobble_insert ok i now user track play_time s)"
| signal: "bs_inserting s = Suc n \<Longrightarrow>
    scrobble_step s Ev_signal (send_wake_signal (s\<lparr>bs_inserting := n\<rparr>))"
| list: "bs_worker s = Listing \<Longrightarrow> user_ids (bs_service s) (bs_table s) us \<Longrightarrow>
    scrobble_step s Ev_list (s\<lparr>bs_worker := Draining us True\<rparr>)"
| list_failed: "bs_worker s = Listing \<Longrightarrow> scrobble_step s Ev_list (end_of_queue False s)"
| next_entry: "scrobble_step s Ev_next (drain_next read_done load_done s)"
| sent: "scrobble_step s (Ev_sent a) (drain_sent a delete_done s)"
| end_queue: "bs_worker s = Draining [] ok \<Longrightarrow> scrobble_step s Ev_end (end_of_queue ok s)"
| wake: "bs_worker s = Waiting \<Longrightarrow> bs_wake s \<Longrightarrow>
    scrobble_step s Ev_wake (s\<lparr>bs_worker := Listing, bs_wake := False\<rparr>)"
| timer: "bs_timers s = Suc n \<Longrightarrow>
    scrobble_step s Ev_timer (send_wake_signal (s\<lparr>bs_timers := n\<rparr>))"
| purge: "scrobble_step s Ev_purge (purge P s)"
| other: "filter (own (bs_service s)) b = filter (own (bs_service s)) (bs_table s) \<Longrightarrow>
    distinct (map se_id b) \<Longrightarrow>
    \<forall>e \<in> set b. \<not> own (bs_service s) e \<longrightarrow> se_id e \<notin> se_id ` set (bs_accepted s) \<Longrightarrow>
    scrobble_step s Ev_other (s\<lparr>bs_table := b\<rparr>)"
| stop: "bs_worker s = Waiting \<Longrightarrow> scrobble_step s Ev_stop (s\<lparr>bs_worker := Stopped\<rparr>)"

inductive_cases scrobble_stepE: "scrobble_step s l s'"

text \<open>At the start the table holds what earlier runs of the server left.\<close>

definition starts_buffered :: "buffered \<Rightarrow> bool" where
  "starts_buffered s \<longleftrightarrow>
     distinct (map se_id (bs_table s)) \<and> bs_worker s = Listing \<and> \<not> bs_wake s \<and> bs_timers s = 0
     \<and> bs_inserting s = 0 \<and> bs_accepted s = filter (own (bs_service s)) (bs_table s)
     \<and> bs_answered s = [] \<and> bs_purged s = [] \<and> bs_failed_deletes s = 0"

section \<open>Sending in order\<close>

definition turn_ok :: "turn \<Rightarrow> bool" where
  "turn_ok t \<longleftrightarrow> read_ok t \<and> loaded t \<and> answered t \<noteq> Retry_later \<and> delete_ok t"

lemma user_queue_set: "set (user_queue service user b) = {e \<in> set b. own service e \<and> se_user e = user}"
  by (auto simp: user_queue_def)

lemma distinct_user_queue:
  "distinct (map se_id b) \<Longrightarrow> distinct (map se_id (user_queue service user b))"
  by (simp add: user_queue_def distinct_map inj_on_def)

lemma user_queue_dequeue:
  assumes "distinct (map se_id b)" "user_queue service user b = e # es"
  shows "user_queue service user (buffer_dequeue e b) = es"
proof -
  have "user_queue service user (buffer_dequeue e b) = filter (\<lambda>x. se_id x \<noteq> se_id e) (user_queue service user b)"
    by (simp add: user_queue_def buffer_dequeue_def filter_sort conj_commute)
  also have "\<dots> = filter (\<lambda>x. se_id x \<noteq> se_id e) es" using assms(2) by simp
  also have "\<dots> = es"
    using distinct_user_queue [OF assms(1), of service user] assms(2) by (auto simp: filter_id_conv image_iff)
  finally show ?thesis .
qed

lemma dequeue_filter:
  assumes "distinct (map se_id b)" "e \<in> set b"
  shows "buffer_dequeue e b = filter (\<lambda>x. x \<noteq> e) b"
  unfolding buffer_dequeue_def by (rule filter_cong) (use assms in \<open>auto simp: distinct_map inj_on_def\<close>)

lemma distinct_dequeue: "distinct (map se_id b) \<Longrightarrow> distinct (map se_id (buffer_dequeue e b))"
  by (simp add: buffer_dequeue_def distinct_map_filter)

lemma process_user_queue_spec:
  "distinct (map se_id b) \<Longrightarrow> process_user_queue env i service user b = (r, b', sent) \<Longrightarrow>
     \<exists>n \<le> length (user_queue service user b).
       (\<forall>k < n. turn_ok (env (i + k)))
       \<and> (n = length (user_queue service user b) \<or> \<not> turn_ok (env (i + n)))
       \<and> (r \<longleftrightarrow> n = length (user_queue service user b) \<and> read_ok (env (i + n)))
       \<and> b' = filter (\<lambda>e. e \<notin> set (take n (user_queue service user b))) b
       \<and> (sent = take n (user_queue service user b)
          \<or> sent = take (Suc n) (user_queue service user b) \<and> n < length (user_queue service user b))"
proof (induction env i service user b arbitrary: r b' sent rule: process_user_queue.induct)
  case (1 env i service user b)
  let ?q = "user_queue service user b"
  note res = 1(3) [unfolded process_user_queue.simps [of env i]]
  show ?case
  proof (cases "?q = [] \<or> \<not> turn_ok (env i)")
    case True
    then have "b' = b \<and> (r \<longleftrightarrow> ?q = [] \<and> read_ok (env i)) \<and> (sent = [] \<or> (\<exists>e es. ?q = e # es \<and> sent = [e]))"
      using res by (auto simp: turn_ok_def buffer_next_def split: if_splits list.splits prod.splits)
    then show ?thesis using True by (intro exI [of _ 0]) auto
  next
    case False
    then obtain e es where q: "?q = e # es" and ok: "turn_ok (env i)" by (cases ?q) auto
    have next_e: "buffer_next service user b = Some e" using q by (simp add: buffer_next_def)
    obtain sent' where rest: "process_user_queue env (Suc i) service user (buffer_dequeue e b) = (r, b', sent')"
      and sent: "sent = e # sent'"
      using res ok next_e by (auto simp: turn_ok_def split: prod.splits)
    have q': "user_queue service user (buffer_dequeue e b) = es" by (rule user_queue_dequeue [OF 1(2) q])
    have e: "e \<in> set b" using q user_queue_set [of service user b] by auto
    from 1(1) [OF _ next_e _ _ _ distinct_dequeue [OF 1(2)] rest] ok obtain n where
      n: "n \<le> length es" "\<forall>k < n. turn_ok (env (Suc i + k))"
        "n = length es \<or> \<not> turn_ok (env (Suc i + n))" "r \<longleftrightarrow> n = length es \<and> read_ok (env (Suc i + n))"
        "b' = filter (\<lambda>x. x \<notin> set (take n es)) (buffer_dequeue e b)"
        "sent' = take n es \<or> sent' = take (Suc n) es \<and> n < length es"
      by (auto simp: turn_ok_def q')
    have "\<forall>k < Suc n. turn_ok (env (i + k))" using n(2) ok by (auto simp: less_Suc_eq_0_disj)
    moreover have "b' = filter (\<lambda>x. x \<notin> set (take (Suc n) ?q)) b"
      by (simp add: n(5) dequeue_filter [OF 1(2) e] q)
    ultimately show ?thesis using n(1,3,4,6)
      by (intro exI [of _ "Suc n"]) (auto simp: q sent)
  qed
qed

lemma user_queue_drop:
  assumes "distinct (map se_id b)"
  shows "user_queue service user (filter (\<lambda>e. e \<notin> set (take n (user_queue service user b))) b)
    = drop n (user_queue service user b)"
proof -
  let ?q = "user_queue service user b"
  have "user_queue service user (filter (\<lambda>e. e \<notin> set (take n ?q)) b) = filter (\<lambda>e. e \<notin> set (take n ?q)) ?q"
    by (simp add: user_queue_def filter_sort conj_commute)
  also have "\<dots> = filter (\<lambda>e. e \<notin> set (take n ?q)) (take n ?q @ drop n ?q)" by simp
  also have "\<dots> = filter (\<lambda>e. e \<notin> set (take n ?q)) (drop n ?q)" by (simp only: filter_append) simp
  also have "\<dots> = drop n ?q"
    using distinct_user_queue [OF assms, of service user] set_take_disj_set_drop_if_distinct [of ?q n n]
    by (auto simp: distinct_map filter_id_conv)
  finally show ?thesis .
qed

section \<open>Nothing is lost and nothing is stuck\<close>

definition own_table :: "buffered \<Rightarrow> scrobble_entry set" where
  "own_table s = {e \<in> set (bs_table s). own (bs_service s) e}"

definition will_wake :: "buffered \<Rightarrow> bool" where
  "will_wake s \<longleftrightarrow> bs_wake s \<or> 0 < bs_timers s \<or> 0 < bs_inserting s"

text \<open>What the position of the worker says of the entries that are left.\<close>

fun worker_ok :: "worker \<Rightarrow> buffered \<Rightarrow> bool" where
  "worker_ok Listing s \<longleftrightarrow> True"
| "worker_ok (Draining us ok) s \<longleftrightarrow>
     (\<forall>e \<in> own_table s. se_user e \<in> set us \<or> \<not> ok \<or> will_wake s)"
| "worker_ok (Sending e us ok) s \<longleftrightarrow>
     us \<noteq> [] \<and> e \<in> set (bs_accepted s) \<and> (e \<in> own_table s \<or> e \<in> set (bs_purged s))
     \<and> (bs_failed_deletes s = 0 \<longrightarrow> e \<notin> set (bs_answered s))
     \<and> (\<forall>e \<in> own_table s. se_user e \<in> set us \<or> \<not> ok \<or> will_wake s)"
| "worker_ok Waiting s \<longleftrightarrow> (own_table s = {} \<or> will_wake s)"
| "worker_ok Stopped s \<longleftrightarrow> True"

definition table_ok :: "buffered \<Rightarrow> bool" where
  "table_ok s \<longleftrightarrow>
     distinct (map se_id (bs_table s)) \<and> own_table s \<subseteq> set (bs_accepted s)
     \<and> distinct (map se_id (bs_accepted s))
     \<and> (\<forall>e \<in> set (bs_table s). \<not> own (bs_service s) e \<longrightarrow> se_id e \<notin> se_id ` set (bs_accepted s))
     \<and> set (bs_answered s) \<subseteq> set (bs_accepted s)"

definition kept_or_sent :: "buffered \<Rightarrow> bool" where
  "kept_or_sent s \<longleftrightarrow>
     (\<forall>e \<in> set (bs_accepted s). e \<in> own_table s \<or> e \<in> set (bs_purged s) \<or> e \<in> set (bs_answered s))
     \<and> (bs_failed_deletes s = 0 \<longrightarrow> distinct (bs_answered s) \<and> set (bs_answered s) \<inter> own_table s = {})"

definition buffered_ok :: "buffered \<Rightarrow> bool" where
  "buffered_ok s \<longleftrightarrow> table_ok s \<and> worker_ok (bs_worker s) s \<and> kept_or_sent s"



lemma worker_ok_flags:
  "worker_ok w s \<Longrightarrow> own_table s' = own_table s \<Longrightarrow> bs_accepted s' = bs_accepted s \<Longrightarrow>
     bs_purged s' = bs_purged s \<Longrightarrow> bs_answered s' = bs_answered s \<Longrightarrow>
     bs_failed_deletes s' = bs_failed_deletes s \<Longrightarrow> (will_wake s \<Longrightarrow> will_wake s') \<Longrightarrow> worker_ok w s'"
  by (cases w) auto

lemma insert_ok:
  assumes "buffered_ok s" "i \<notin> se_id ` set (bs_accepted s)"
  shows "buffered_ok (scrobble_insert ok i now user track play_time s)"
proof (cases "buffer_enqueue ok i now (bs_service s) user track play_time (bs_table s)")
  case None
  then show ?thesis using assms(1) by (simp add: scrobble_insert_def)
next
  case (Some b)
  define e where "e = \<lparr>se_id = i, se_service = bs_service s, se_user = user, se_track = track,
    se_play_time = play_time, se_enqueue_time = now\<rparr>"
  define s' where "s' = scrobble_insert ok i now user track play_time s"
  have b: "b = bs_table s @ [e]" and fresh: "i \<notin> se_id ` set (bs_table s)"
    using Some by (auto simp: buffer_enqueue_def e_def split: if_splits)
  have s': "s' = s\<lparr>bs_table := bs_table s @ [e], bs_accepted := bs_accepted s @ [e], bs_inserting := Suc (bs_inserting s)\<rparr>"
    by (simp add: s'_def scrobble_insert_def Some b)
  have own_e: "own (bs_service s) e" "se_id e = i" by (simp_all add: e_def own_def)
  have own': "own_table s' = insert e (own_table s)" using own_e by (auto simp: own_table_def s')
  have "e \<notin> set (bs_accepted s)" using assms(2) own_e by (auto simp: image_iff)
  then have new: "e \<notin> set (bs_answered s)" using assms(1) by (auto simp: buffered_ok_def table_ok_def)
  have "table_ok s'" unfolding table_ok_def own'
    using assms fresh own_e by (auto simp: buffered_ok_def table_ok_def s' image_iff)
  moreover have "kept_or_sent s'" unfolding kept_or_sent_def own'
    using assms(1) new by (auto simp: buffered_ok_def kept_or_sent_def s')
  moreover have "worker_ok (bs_worker s') s'"
    using assms(1) own' by (cases "bs_worker s") (auto simp: buffered_ok_def s' will_wake_def)
  ultimately show ?thesis by (simp add: buffered_ok_def s'_def)
qed

lemma buffered_ok_flags:
  assumes "buffered_ok s" "bs_table s' = bs_table s" "bs_service s' = bs_service s" "bs_accepted s' = bs_accepted s"
    "bs_purged s' = bs_purged s" "bs_answered s' = bs_answered s"
    "bs_failed_deletes s' = bs_failed_deletes s" "worker_ok (bs_worker s') s'"
  shows "buffered_ok s'"
  using assms by (simp add: buffered_ok_def table_ok_def kept_or_sent_def own_table_def)

lemma woken_ok:
  assumes "buffered_ok s"
  shows "buffered_ok (send_wake_signal (s\<lparr>bs_inserting := n\<rparr>))"
    "buffered_ok (send_wake_signal (s\<lparr>bs_timers := n\<rparr>))"
proof -
  have w: "worker_ok (bs_worker s) s" using assms by (simp add: buffered_ok_def)
  show "buffered_ok (send_wake_signal (s\<lparr>bs_inserting := n\<rparr>))"
    by (rule buffered_ok_flags [OF assms]; (simp add: send_wake_signal_def)?)
      (rule worker_ok_flags [OF w]; simp add: own_table_def will_wake_def)
  show "buffered_ok (send_wake_signal (s\<lparr>bs_timers := n\<rparr>))"
    by (rule buffered_ok_flags [OF assms]; (simp add: send_wake_signal_def)?)
      (rule worker_ok_flags [OF w]; simp add: own_table_def will_wake_def)
qed

lemma list_ok:
  assumes "buffered_ok s" "user_ids (bs_service s) (bs_table s) us"
  shows "buffered_ok (s\<lparr>bs_worker := Draining us True\<rparr>)"
  using assms(2) by (intro buffered_ok_flags [OF assms(1)]) (auto simp: user_ids_def own_table_def)

lemma end_of_queue_ok:
  assumes "buffered_ok s" "bs_worker s = Draining [] ok \<or> \<not> ok"
  shows "buffered_ok (end_of_queue ok s)"
  using assms(1) by (rule buffered_ok_flags)
    (use assms in \<open>auto simp: end_of_queue_def buffered_ok_def will_wake_def own_table_def\<close>)

lemma drain_next_ok:
  assumes "buffered_ok s"
  shows "buffered_ok (drain_next r l s)"
proof (cases "bs_worker s")
  case (Draining us ok)
  have left: "\<forall>e \<in> own_table s. se_user e \<in> set us \<or> \<not> ok \<or> will_wake s"
    using assms Draining by (simp add: buffered_ok_def)
  show ?thesis
  proof (cases us)
    case Nil
    then show ?thesis using assms Draining by (simp add: drain_next_def)
  next
    case (Cons u vs)
    have failed: "buffered_ok (s\<lparr>bs_worker := Draining vs False\<rparr>)"
      by (rule buffered_ok_flags [OF assms]) (simp_all add: own_table_def)
    show ?thesis
    proof (cases "buffer_next (bs_service s) u (bs_table s)")
      case None
      then have "user_queue (bs_service s) u (bs_table s) = []"
        by (simp add: buffer_next_def split: list.splits)
      then have "\<forall>e \<in> own_table s. se_user e \<noteq> u"
        using user_queue_set [of "bs_service s" u "bs_table s"] by (auto simp: own_table_def)
      then have "buffered_ok (s\<lparr>bs_worker := Draining vs ok\<rparr>)" using left Cons
        by (intro buffered_ok_flags [OF assms]) (auto simp: own_table_def will_wake_def)
      then show ?thesis using failed Draining Cons None by (simp add: drain_next_def)
    next
      case (Some e)
      have e: "e \<in> own_table s" using buffer_next_in [OF Some] by (simp add: own_table_def)
      have "e \<in> set (bs_accepted s)" "bs_failed_deletes s = 0 \<longrightarrow> e \<notin> set (bs_answered s)"
        using assms e by (auto simp: buffered_ok_def table_ok_def kept_or_sent_def)
      then have "buffered_ok (s\<lparr>bs_worker := Sending e (u # vs) ok\<rparr>)" using left Cons e
        by (intro buffered_ok_flags [OF assms]) (auto simp: own_table_def will_wake_def)
      then show ?thesis using failed Draining Cons Some by (simp add: drain_next_def)
    qed
  qed
qed (use assms in \<open>simp_all add: drain_next_def\<close>)

lemma drain_sent_ok:
  assumes "buffered_ok s"
  shows "buffered_ok (drain_sent a d s)"
proof (cases "bs_worker s")
  case (Sending e us ok)
  have e: "e \<in> set (bs_accepted s)" "e \<in> own_table s \<or> e \<in> set (bs_purged s)"
    "bs_failed_deletes s = 0 \<longrightarrow> e \<notin> set (bs_answered s)"
    and left: "\<forall>e \<in> own_table s. se_user e \<in> set us \<or> \<not> ok \<or> will_wake s"
    using assms Sending by (simp_all add: buffered_ok_def)
  have ok: "table_ok s" "kept_or_sent s" using assms by (simp_all add: buffered_ok_def)
  have retry: "buffered_ok (s\<lparr>bs_worker := Draining (tl us) False\<rparr>)"
    by (rule buffered_ok_flags [OF assms]) (simp_all add: own_table_def)
  let ?f = "s\<lparr>bs_worker := Draining (tl us) False, bs_answered := bs_answered s @ [e],
              bs_failed_deletes := Suc (bs_failed_deletes s)\<rparr>"
  have failed: "buffered_ok ?f"
    using ok e(1) by (auto simp: buffered_ok_def table_ok_def kept_or_sent_def own_table_def)
  let ?s = "s\<lparr>bs_worker := Draining us ok, bs_answered := bs_answered s @ [e],
              bs_table := buffer_dequeue e (bs_table s)\<rparr>"
  have same: "x \<in> set (bs_table s) \<and> se_id x = se_id e \<longleftrightarrow> x = e \<and> e \<in> set (bs_table s)" for x
  proof -
    have "x \<in> set (bs_table s) \<Longrightarrow> se_id x = se_id e \<Longrightarrow> x \<in> set (bs_accepted s)"
      using ok(1) e(1) by (auto simp: table_ok_def own_table_def)
    then show ?thesis using ok(1) e(1) by (auto simp: table_ok_def distinct_map dest: inj_onD)
  qed
  have tab: "own_table ?s = own_table s - {e}"
    using same by (auto simp: own_table_def buffer_dequeue_def)
  have "table_ok ?s" unfolding table_ok_def tab
    using ok(1) e(1) by (auto simp: table_ok_def distinct_dequeue buffer_dequeue_def distinct_map_filter)
  moreover have "kept_or_sent ?s" unfolding kept_or_sent_def tab
    using ok(2) e(3) by (auto simp: kept_or_sent_def)
  moreover have "worker_ok (bs_worker ?s) ?s" using left by (auto simp: tab will_wake_def)
  ultimately have "buffered_ok ?s" by (simp add: buffered_ok_def)
  then show ?thesis using failed retry Sending by (simp add: drain_sent_def)
qed (use assms in \<open>simp_all add: drain_sent_def\<close>)


lemma purge_ok:
  assumes "buffered_ok s"
  shows "buffered_ok (purge P s)"
proof -
  define s' where "s' = purge P s"
  have tab: "own_table s' = {e \<in> own_table s. \<not> P e}" by (auto simp: s'_def purge_def own_table_def)
  have gone: "set (bs_purged s') = set (bs_purged s) \<union> {e \<in> own_table s. P e}"
    by (auto simp: s'_def purge_def own_table_def)
  have "table_ok s'" unfolding table_ok_def tab
    using assms by (auto simp: s'_def purge_def buffered_ok_def table_ok_def distinct_map_filter)
  moreover have "kept_or_sent s'" unfolding kept_or_sent_def tab gone
    using assms by (auto simp: s'_def purge_def buffered_ok_def kept_or_sent_def)
  moreover have "worker_ok (bs_worker s) s'"
    using assms tab gone by (cases "bs_worker s") (auto simp: s'_def purge_def buffered_ok_def will_wake_def)
  ultimately show ?thesis by (simp add: buffered_ok_def s'_def purge_def)
qed

lemma other_ok:
  assumes "buffered_ok s" "filter (own (bs_service s)) b = filter (own (bs_service s)) (bs_table s)"
    "distinct (map se_id b)"
    "\<forall>e \<in> set b. \<not> own (bs_service s) e \<longrightarrow> se_id e \<notin> se_id ` set (bs_accepted s)"
  shows "buffered_ok (s\<lparr>bs_table := b\<rparr>)"
proof -
  have "set (filter (own (bs_service s)) b) = set (filter (own (bs_service s)) (bs_table s))"
    by (simp only: assms(2))
  then have tab: "own_table (s\<lparr>bs_table := b\<rparr>) = own_table s" by (simp add: own_table_def)
  have "worker_ok (bs_worker s) (s\<lparr>bs_table := b\<rparr>)"
    by (rule worker_ok_flags [of _ s]) (use assms(1) tab in \<open>simp_all add: buffered_ok_def will_wake_def\<close>)
  then show ?thesis using assms tab
    by (simp add: buffered_ok_def table_ok_def kept_or_sent_def)
qed

lemma scrobble_step_ok: "scrobble_step s l s' \<Longrightarrow> buffered_ok s \<Longrightarrow> buffered_ok s'"
proof (induction rule: scrobble_step.induct)
  case (wake s)
  show ?case by (rule buffered_ok_flags [OF wake(3)]) simp_all
next
  case (stop s)
  show ?case by (rule buffered_ok_flags [OF stop(2)]) simp_all
qed (blast intro: insert_ok woken_ok list_ok end_of_queue_ok drain_next_ok drain_sent_ok purge_ok other_ok)+

interpretation buffer: invariant scrobble_step starts_buffered ls buffered_ok
proof
  show "buffered_ok s" if "starts_buffered s" for s
    using that by (auto simp: starts_buffered_def buffered_ok_def table_ok_def kept_or_sent_def own_table_def
        distinct_map_filter distinct_map inj_on_def)
qed (rule scrobble_step_ok)

section \<open>The properties of the buffer\<close>

text \<open>
  Scrobbles are sent in the order of the plays: one run over the queue of a user sends its
  entries in order up to the first statement, loading or sending that fails, deletes exactly those
  before it, touches no other entry, and reports success only when nothing is left.
\<close>

lemma scrobbles_sent_in_order:
  assumes "distinct (map se_id b)" "process_user_queue env 0 service user b = (r, b', sent)"
  shows "\<exists>n. (\<forall>k < n. turn_ok (env k))
     \<and> (n = length (user_queue service user b) \<or> n < length (user_queue service user b) \<and> \<not> turn_ok (env n))
     \<and> (r \<longleftrightarrow> n = length (user_queue service user b) \<and> read_ok (env n))
     \<and> b' = filter (\<lambda>e. e \<notin> set (take n (user_queue service user b))) b
     \<and> user_queue service user b' = drop n (user_queue service user b)
     \<and> (sent = take n (user_queue service user b) \<or> sent = take (Suc n) (user_queue service user b))
     \<and> sorted (map se_play_time sent)"
proof -
  have sorted: "sorted (map se_play_time (take n (user_queue service user b)))" for n
    by (simp add: user_queue_def take_map [symmetric] sorted_wrt_take)
  from process_user_queue_spec [OF assms] obtain n where n: "n \<le> length (user_queue service user b)"
    "\<forall>k < n. turn_ok (env k)" "n = length (user_queue service user b) \<or> \<not> turn_ok (env n)"
    "r \<longleftrightarrow> n = length (user_queue service user b) \<and> read_ok (env n)"
    "b' = filter (\<lambda>e. e \<notin> set (take n (user_queue service user b))) b"
    "sent = take n (user_queue service user b) \<or> sent = take (Suc n) (user_queue service user b)"
    unfolding add_0 by blast
  have "user_queue service user b' = drop n (user_queue service user b)"
    unfolding n(5) by (rule user_queue_drop [OF assms(1)])
  moreover have "sorted (map se_play_time sent)" using n(6) sorted by (elim disjE) simp_all
  moreover have "n = length (user_queue service user b) \<or> n < length (user_queue service user b) \<and> \<not> turn_ok (env n)"
    using n(1,3) by (simp add: le_less) blast
  ultimately show ?thesis using n(2,4,5,6) by blast
qed

definition demo_entry :: "string \<Rightarrow> int \<Rightarrow> scrobble_entry" where
  "demo_entry i t = \<lparr>se_id = i, se_service = ''lastfm'', se_user = ''u'', se_track = ''song'',
     se_play_time = t, se_enqueue_time = 50\<rparr>"

definition demo_turns :: "nat \<Rightarrow> turn" where
  "demo_turns i = \<lparr>read_ok = True, loaded = True,
     answered = (if i = 0 then Accepted_by_service else Retry_later), delete_ok = True\<rparr>"

lemma scrobbles_sent_in_order_witness:
  "process_user_queue demo_turns 0 ''lastfm'' ''u'' [demo_entry ''a'' 20, demo_entry ''b'' 10]
     = (False, [demo_entry ''a'' 20], [demo_entry ''b'' 10, demo_entry ''a'' 20])
   \<and> sorted (map se_play_time [demo_entry ''b'' 10, demo_entry ''a'' 20])"
proof -
  have run: "process_user_queue demo_turns 0 ''lastfm'' ''u'' [demo_entry ''a'' 20, demo_entry ''b'' 10]
     = (False, [demo_entry ''a'' 20], [demo_entry ''b'' 10, demo_entry ''a'' 20])"
    by (simp add: process_user_queue.simps demo_turns_def buffer_next_def user_queue_def demo_entry_def
        own_def buffer_dequeue_def)
  show ?thesis using scrobbles_sent_in_order [OF _ run] run by (auto simp: demo_entry_def)
qed

text \<open>
  C22. No scrobble is lost: whatever fails, an entry that was accepted is in the table until the
  service has answered it with something other than "retry later", or its user or track is
  deleted; and as long as no deletion of a sent entry fails, none is answered twice.
\<close>

theorem scrobbles_kept_or_sent:
  assumes "reached scrobble_step starts_buffered UNIV s"
  shows "(\<forall>e \<in> set (bs_accepted s). e \<in> set (bs_table s) \<or> e \<in> set (bs_purged s) \<or> e \<in> set (bs_answered s))
     \<and> set (bs_answered s) \<subseteq> set (bs_accepted s)
     \<and> (bs_failed_deletes s = 0 \<longrightarrow> distinct (bs_answered s)
          \<and> (\<forall>e \<in> set (bs_answered s). e \<in> set (bs_table s) \<longrightarrow> se_service e \<noteq> bs_service s))"
  using buffer.reached_inv [OF assms]
  by (auto simp: buffered_ok_def kept_or_sent_def table_ok_def own_table_def own_def)

definition demo_buffered :: buffered where
  "demo_buffered = \<lparr>bs_service = ''lastfm'', bs_table = [demo_entry ''a'' 20], bs_worker = Listing, bs_wake = False,
     bs_timers = 0, bs_inserting = 0, bs_accepted = [demo_entry ''a'' 20], bs_answered = [], bs_purged = [],
     bs_failed_deletes = 0\<rparr>"

lemma demo_buffered_start: "reached scrobble_step starts_buffered UNIV demo_buffered"
  by (rule reached.start) (simp add: starts_buffered_def demo_buffered_def own_def demo_entry_def)

lemma demo_buffered_waits:
  "reached scrobble_step starts_buffered UNIV (end_of_queue False demo_buffered)"
  by (rule reached.step [OF demo_buffered_start UNIV_I scrobble_step.list_failed]) (simp add: demo_buffered_def)

theorem scrobbles_kept_or_sent_witness:
  "demo_entry ''a'' 20 \<in> set (bs_accepted (end_of_queue False demo_buffered))
   \<and> distinct (bs_answered (end_of_queue False demo_buffered))"
  using scrobbles_kept_or_sent [OF demo_buffered_waits] by (simp add: end_of_queue_def demo_buffered_def)

text \<open>
  C24. No scrobble is stuck: while the worker waits and an entry of the service is in the table,
  the wake signal is set, a timer is running that will set it, or a request is about to set it.
\<close>

theorem no_scrobble_is_stuck:
  assumes "reached scrobble_step starts_buffered UNIV s" "bs_worker s = Waiting"
    "e \<in> set (bs_table s)" "se_service e = bs_service s"
  shows "bs_wake s \<or> 0 < bs_timers s \<or> 0 < bs_inserting s"
  using buffer.reached_inv [OF assms(1)] assms(2-4)
  by (auto simp: buffered_ok_def own_table_def own_def will_wake_def)

theorem no_scrobble_is_stuck_witness:
  "bs_wake (end_of_queue False demo_buffered) \<or> 0 < bs_timers (end_of_queue False demo_buffered)
   \<or> 0 < bs_inserting (end_of_queue False demo_buffered)"
  by (rule no_scrobble_is_stuck [OF demo_buffered_waits, of "demo_entry ''a'' 20"])
    (simp_all add: end_of_queue_def demo_buffered_def demo_entry_def)

end
