(* ===== verification/PlayTracker.thy ===== *)
theory PlayTracker
  imports MediaFile ScrobbleBuffer "HOL-Library.Sublist"
begin

text \<open>
  What the server does when a player reports what it plays (\<open>core/scrobbler/play_tracker.go\<close>): the
  list of what is playing now, the counting of plays in one transaction
  (\<open>persistence/sql_annotations.go\<close>, \<open>persistence/scrobble_repository.go\<close>), and the hand-over to the
  buffers of the scrobbling services. Statements may fail, which is an argument; the order in which
  Go goes through a map is the order of a list.
\<close>

section \<open>Play counts\<close>

datatype item_type = Track_item | Album_item | Artist_item

record annotation =
  an_play_count :: int
  an_play_date :: "go_time option"

type_synonym annotations = "string \<times> item_type \<times> string \<rightharpoonup> annotation"

text \<open>
  \<open>IncPlayCount\<close>: an update, and an insertion when the update changed no row or failed; the table
  has one row per user, type and item.
\<close>

definition inc_play_count ::
  "bool \<times> bool \<Rightarrow> string \<Rightarrow> item_type \<Rightarrow> string \<Rightarrow> go_time \<Rightarrow> annotations \<Rightarrow> annotations option" where
  "inc_play_count oks user ty item ts m =
     (case (if fst oks then m (user, ty, item) else None) of
        Some a \<Rightarrow>
          Some (m((user, ty, item) \<mapsto>
            a\<lparr>an_play_count := an_play_count a + 1,
              an_play_date := Some (case an_play_date a of None \<Rightarrow> ts | Some d \<Rightarrow> max d ts)\<rparr>))
      | None \<Rightarrow>
          if snd oks \<and> m (user, ty, item) = None
          then Some (m((user, ty, item) \<mapsto> \<lparr>an_play_count = 1, an_play_date = Some ts\<rparr>))
          else None)"

record library =
  lib_tracks :: "string \<rightharpoonup> media_file"
  lib_annotations :: annotations
  lib_scrobbles :: "(string \<times> string \<times> int) list"
  lib_buffer :: scrobble_table

text \<open>\<open>RecordScrobble\<close> keeps the second of the play.\<close>

definition record_scrobble :: "string \<Rightarrow> string \<Rightarrow> go_time \<Rightarrow> library \<Rightarrow> library" where
  "record_scrobble user track ts lib =
     lib\<lparr>lib_scrobbles := lib_scrobbles lib @ [(user, track, ts div 10 ^ 9)]\<rparr>"

text \<open>What one submission meets: reading the track, each statement of the transaction, its end.\<close>

record play_env =
  pe_read_ok :: bool
  pe_stmts :: "nat \<Rightarrow> bool \<times> bool"
  pe_history_ok :: bool
  pe_commit_ok :: bool
  pe_plugins :: "string list option"
  pe_load :: "string \<Rightarrow> scrobbler option"
  pe_enqueue :: "string \<Rightarrow> bool \<times> string \<times> int"

fun inc_artists ::
  "(nat \<Rightarrow> bool \<times> bool) \<Rightarrow> nat \<Rightarrow> string \<Rightarrow> go_time \<Rightarrow> string list \<Rightarrow> annotations \<Rightarrow> annotations option" where
  "inc_artists stmts n user ts [] m = Some m"
| "inc_artists stmts n user ts (a # as) m =
     (case inc_play_count (stmts n) user Artist_item a ts m of
        None \<Rightarrow> None
      | Some m' \<Rightarrow> inc_artists stmts (Suc n) user ts as m')"

text \<open>\<open>incPlay\<close>: \<open>None\<close> is an error, after which the transaction leaves nothing behind.\<close>

definition inc_play ::
  "bool \<Rightarrow> play_env \<Rightarrow> string \<Rightarrow> media_file \<Rightarrow> go_time \<Rightarrow> library \<Rightarrow> library option" where
  "inc_play enable_history env user mf ts lib =
     (case inc_play_count (pe_stmts env 0) user Track_item (mf_id mf) ts (lib_annotations lib) of
        None \<Rightarrow> None
      | Some m1 \<Rightarrow>
          (case inc_play_count (pe_stmts env 1) user Album_item (mf_album_id mf) ts m1 of
             None \<Rightarrow> None
           | Some m2 \<Rightarrow>
               (case inc_artists (pe_stmts env) 2 user ts (mf_artist_ids mf) m2 of
                  None \<Rightarrow> None
                | Some m3 \<Rightarrow>
                    if enable_history \<and> \<not> pe_history_ok env then None
                    else if \<not> pe_commit_ok env then None
                    else (let lib' = lib\<lparr>lib_annotations := m3\<rparr>
                          in Some (if enable_history then record_scrobble user (mf_id mf) ts lib' else lib')))))"

section \<open>The scrobblers\<close>

record np_entry =
  np_user :: string
  np_track :: media_file
  np_position :: int

record now_playing_info =
  pi_track :: media_file
  pi_start :: go_time
  pi_position :: int
  pi_username :: string
  pi_player_id :: string
  pi_player_name :: string

record tracker =
  pt_builtin :: "(string \<times> scrobbler) list"
  pt_plugins :: "string list"
  pt_playing :: "(string \<times> now_playing_info \<times> go_time) list"
  pt_np_queue :: "(string \<times> np_entry) list"
  pt_np_signal :: bool

definition plugin_names_match :: "string list \<Rightarrow> string list \<Rightarrow> bool" where
  "plugin_names_match names ps \<longleftrightarrow> length names = length ps \<and> set names \<subseteq> set ps"

definition refresh_plugin_scrobblers :: "string list option \<Rightarrow> tracker \<Rightarrow> tracker" where
  "refresh_plugin_scrobblers loader p =
     (case loader of
        None \<Rightarrow> p
      | Some names \<Rightarrow>
          if plugin_names_match names (pt_plugins p) then p
          else p\<lparr>pt_plugins :=
                  filter (\<lambda>n. n \<in> set names)
                    (pt_plugins p @ filter (\<lambda>n. n \<notin> set (pt_plugins p)) (remdups names))\<rparr>)"

text \<open>A plugin hides a builtin scrobbler of the same name.\<close>

definition get_active_scrobblers ::
  "play_env \<Rightarrow> tracker \<Rightarrow> tracker \<times> (string \<times> scrobbler option) list" where
  "get_active_scrobblers env p =
     (let p' = refresh_plugin_scrobblers (pe_plugins env) p
      in (p', map (\<lambda>(n, s). (n, Some s)) (filter (\<lambda>(n, s). n \<notin> set (pt_plugins p')) (pt_builtin p'))
              @ map (\<lambda>n. (n, pe_load env n)) (pt_plugins p')))"

definition unknown_artist :: string where "unknown_artist = ''[Unknown Artist]''"

text \<open>\<open>dispatchScrobble\<close> hands the play to the buffer of each service that knows the user.\<close>

fun scrobble_to ::
  "play_env \<Rightarrow> string \<Rightarrow> media_file \<Rightarrow> go_time \<Rightarrow> (string \<times> scrobbler option) list \<Rightarrow> scrobble_table
   \<Rightarrow> scrobble_table" where
  "scrobble_to env user mf ts [] b = b"
| "scrobble_to env user mf ts ((name, s) # ss) b =
     (if \<not> is_authorized s user then scrobble_to env user mf ts ss b
      else (case pe_enqueue env name of
              (ok, new_id, now) \<Rightarrow>
                (case buffer_enqueue ok new_id now name user (mf_id mf) ts b of
                   None \<Rightarrow> scrobble_to env user mf ts ss b
                 | Some b' \<Rightarrow> scrobble_to env user mf ts ss b')))"

definition dispatch_scrobble ::
  "play_env \<Rightarrow> string \<Rightarrow> media_file \<Rightarrow> go_time \<Rightarrow> tracker \<times> library \<Rightarrow> tracker \<times> library" where
  "dispatch_scrobble env user mf ts st =
     (case st of (p, lib) \<Rightarrow>
        if mf_artist mf = unknown_artist then (p, lib)
        else (case get_active_scrobblers env p of
                (p', active) \<Rightarrow> (p', lib\<lparr>lib_buffer := scrobble_to env user mf ts active (lib_buffer lib)\<rparr>)))"

section \<open>Submissions\<close>

text \<open>
  \<open>Submit\<close>: the submissions are counted one after the other; one that fails is passed over. The
  result says which were counted; the clients of the user are told of them in one event.
\<close>

fun submit_all ::
  "bool \<Rightarrow> bool \<Rightarrow> string \<Rightarrow> (play_env \<times> string \<times> go_time) list \<Rightarrow> tracker \<times> library
   \<Rightarrow> (tracker \<times> library) \<times> (media_file \<times> go_time) list" where
  "submit_all enable_history scrobble_enabled user [] st = (st, [])"
| "submit_all enable_history scrobble_enabled user ((env, track, ts) # subs) st =
     (case (if pe_read_ok env then lib_tracks (snd st) track else None) of
        None \<Rightarrow> submit_all enable_history scrobble_enabled user subs st
      | Some mf \<Rightarrow>
          (case inc_play enable_history env user mf ts (snd st) of
             None \<Rightarrow> submit_all enable_history scrobble_enabled user subs st
           | Some lib \<Rightarrow>
               (let st' = (if scrobble_enabled then dispatch_scrobble env user mf ts (fst st, lib)
                           else (fst st, lib));
                    (st'', counted) = submit_all enable_history scrobble_enabled user subs st'
                in (st'', (mf, ts) # counted))))"

type_synonym refresh_event = "(string \<times> string list) list"

definition submit ::
  "bool \<Rightarrow> bool \<Rightarrow> string \<Rightarrow> (play_env \<times> string \<times> go_time) list \<Rightarrow> tracker \<times> library
   \<Rightarrow> (tracker \<times> library) \<times> refresh_event option" where
  "submit enable_history scrobble_enabled user subs st =
     (case submit_all enable_history scrobble_enabled user subs st of
        (st', counted) \<Rightarrow>
          (st', if counted = [] then None
                else Some [(''song'', map (\<lambda>(mf, ts). mf_id mf) counted),
                           (''album'', map (\<lambda>(mf, ts). mf_album_id mf) counted),
                           (''artist'', map (\<lambda>(mf, ts). mf_album_artist_id mf) counted)]))"

section \<open>Now playing\<close>

text \<open>
  The cache of third-party code keeps an item until its time to live has passed. An item is there
  with the moment it expires; writing one replaces the one of the player.
\<close>

definition now_playing_ttl :: "media_file \<Rightarrow> int \<Rightarrow> int" where
  "now_playing_ttl mf position =
     (max (float_to_int (mf_duration mf) - position) 0 + 5) * 10 ^ 9"

definition put_entry :: "string \<Rightarrow> 'a \<Rightarrow> (string \<times> 'a) list \<Rightarrow> (string \<times> 'a) list" where
  "put_entry k v kvs = filter (\<lambda>(k', v'). k' \<noteq> k) kvs @ [(k, v)]"

definition enqueue_now_playing :: "string \<Rightarrow> string \<Rightarrow> media_file \<Rightarrow> int \<Rightarrow> tracker \<Rightarrow> tracker" where
  "enqueue_now_playing player_id user mf position p =
     p\<lparr>pt_np_queue := put_entry player_id \<lparr>np_user = user, np_track = mf, np_position = position\<rparr> (pt_np_queue p),
       pt_np_signal := True\<rparr>"

definition report_now_playing ::
  "bool \<Rightarrow> bool \<Rightarrow> go_time \<Rightarrow> string \<times> string \<Rightarrow> string \<Rightarrow> string \<Rightarrow> string \<Rightarrow> int
   \<Rightarrow> tracker \<times> library \<Rightarrow> tracker option" where
  "report_now_playing db_ok scrobble_enabled now user player_id player_name track position st =
     (case (if db_ok then lib_tracks (snd st) track else None) of
        None \<Rightarrow> None
      | Some mf \<Rightarrow>
          (let info = \<lparr>pi_track = mf, pi_start = now, pi_position = position, pi_username = snd user,
                       pi_player_id = player_id, pi_player_name = player_name\<rparr>;
               p = (fst st)\<lparr>pt_playing :=
                     put_entry player_id (info, now + now_playing_ttl mf position) (pt_playing (fst st))\<rparr>
           in Some (if scrobble_enabled then enqueue_now_playing player_id (fst user) mf position p else p)))"

definition get_now_playing :: "go_time \<Rightarrow> tracker \<Rightarrow> now_playing_info list" where
  "get_now_playing now p =
     sort_key (\<lambda>i. - pi_start i)
       (map (\<lambda>(k, i, e). i) (filter (\<lambda>(k, i, e). now < e) (pt_playing p)))"

text \<open>\<open>dispatchNowPlaying\<close>: the services that were told, with what they answered.\<close>

definition dispatch_now_playing ::
  "play_env \<Rightarrow> np_entry \<Rightarrow> tracker \<Rightarrow> tracker \<times> (string \<times> string option) list" where
  "dispatch_now_playing env entry p =
     (if mf_artist (np_track entry) = unknown_artist then (p, [])
      else (case get_active_scrobblers env p of
              (p', active) \<Rightarrow>
                (p', map (\<lambda>(name, s). (name, now_playing s (np_user entry) (mf_id (np_track entry)) (np_position entry)))
                       (filter (\<lambda>(name, s). is_authorized s (np_user entry)) active))))"

fun dispatch_entries ::
  "play_env \<Rightarrow> (string \<times> np_entry) list \<Rightarrow> tracker \<Rightarrow> tracker \<times> (string \<times> string option) list" where
  "dispatch_entries env [] p = (p, [])"
| "dispatch_entries env ((player, entry) # es) p =
     (let (p1, told) = dispatch_now_playing env entry p; (p2, told') = dispatch_entries env es p1
      in (p2, told @ told'))"

text \<open>
  One round of \<open>nowPlayingWorker\<close>, which a signal or the tick of a second starts: the queue is
  emptied first.
\<close>

definition now_playing_round ::
  "bool \<Rightarrow> play_env \<Rightarrow> tracker \<Rightarrow> tracker \<times> (string \<times> string option) list" where
  "now_playing_round by_signal env p0 =
     (let p = (if by_signal then p0\<lparr>pt_np_signal := False\<rparr> else p0)
      in if pt_np_queue p = [] then (p, [])
         else dispatch_entries env (pt_np_queue p) (p\<lparr>pt_np_queue := []\<rparr>))"

section \<open>What a submission counts\<close>

definition plays :: "string \<times> item_type \<times> string \<Rightarrow> annotations \<Rightarrow> int" where
  "plays k m = (case m k of None \<Rightarrow> 0 | Some a \<Rightarrow> an_play_count a)"

text \<open>How often a play of a track counts for an item: once for each time the item is one of its artists.\<close>

fun counts_for :: "string \<Rightarrow> media_file \<Rightarrow> string \<times> item_type \<times> string \<Rightarrow> int" where
  "counts_for user mf (u, Track_item, i) = (if u = user \<and> i = mf_id mf then 1 else 0)"
| "counts_for user mf (u, Album_item, i) = (if u = user \<and> i = mf_album_id mf then 1 else 0)"
| "counts_for user mf (u, Artist_item, i) = (if u = user then int (count_list (mf_artist_ids mf) i) else 0)"

lemma inc_play_count_plays:
  "inc_play_count oks user ty item ts m = Some m' \<Longrightarrow>
     plays k m' = plays k m + (if k = (user, ty, item) then 1 else 0)"
  by (auto simp: inc_play_count_def plays_def Let_def split: option.splits if_splits)

lemma inc_artists_plays:
  "inc_artists stmts n user ts as m = Some m' \<Longrightarrow>
     plays (u, ty, i) m' = plays (u, ty, i) m
       + (if u = user \<and> ty = Artist_item then int (count_list as i) else 0)"
  by (induction stmts n user ts as m rule: inc_artists.induct)
    (auto simp: inc_play_count_plays split: option.splits)

lemma inc_play_spec:
  assumes "inc_play enable_history env user mf ts lib = Some lib'"
  shows "plays k (lib_annotations lib') = plays k (lib_annotations lib) + counts_for user mf k"
    "lib_scrobbles lib' = lib_scrobbles lib @ (if enable_history then [(user, mf_id mf, ts div 10 ^ 9)] else [])"
    "lib_tracks lib' = lib_tracks lib" "lib_buffer lib' = lib_buffer lib"
proof -
  from assms obtain m1 m2 m3 where
    m: "inc_play_count (pe_stmts env 0) user Track_item (mf_id mf) ts (lib_annotations lib) = Some m1"
      "inc_play_count (pe_stmts env 1) user Album_item (mf_album_id mf) ts m1 = Some m2"
      "inc_artists (pe_stmts env) 2 user ts (mf_artist_ids mf) m2 = Some m3"
    and lib': "lib' = (if enable_history then record_scrobble user (mf_id mf) ts (lib\<lparr>lib_annotations := m3\<rparr>)
                       else lib\<lparr>lib_annotations := m3\<rparr>)"
    by (auto simp: inc_play_def Let_def split: option.splits if_splits)
  show "plays k (lib_annotations lib') = plays k (lib_annotations lib) + counts_for user mf k"
    using inc_play_count_plays [OF m(1), of k] inc_play_count_plays [OF m(2), of k]
      inc_artists_plays [OF m(3), of "fst k" "fst (snd k)" "snd (snd k)"]
    by (cases k; cases "fst (snd k)") (auto simp: lib' record_scrobble_def)
  show "lib_scrobbles lib' = lib_scrobbles lib @ (if enable_history then [(user, mf_id mf, ts div 10 ^ 9)] else [])"
    "lib_tracks lib' = lib_tracks lib" "lib_buffer lib' = lib_buffer lib"
    by (simp_all add: lib' record_scrobble_def)
qed

text \<open>With every statement answered there is nothing a submission can fail on but a missing track.\<close>

definition env_ok :: "play_env \<Rightarrow> bool" where
  "env_ok env \<longleftrightarrow> pe_read_ok env \<and> (\<forall>n. pe_stmts env n = (True, True)) \<and> pe_history_ok env \<and> pe_commit_ok env"

lemma inc_play_count_ok: "\<exists>m'. inc_play_count (True, True) user ty item ts m = Some m'"
  by (auto simp: inc_play_count_def Let_def split: option.splits)

lemma inc_artists_ok: "\<forall>n. stmts n = (True, True) \<Longrightarrow> \<exists>m'. inc_artists stmts n user ts as m = Some m'"
proof (induction as arbitrary: n m)
  case Nil
  then show ?case by simp
next
  case (Cons a as)
  obtain m' where "inc_play_count (True, True) user Artist_item a ts m = Some m'"
    using inc_play_count_ok by blast
  with Cons show ?case by simp
qed

lemma inc_play_ok: "env_ok env \<Longrightarrow> \<exists>lib'. inc_play enable_history env user mf ts lib = Some lib'"
proof -
  assume ok: "env_ok env"
  obtain m1 where 1: "inc_play_count (True, True) user Track_item (mf_id mf) ts (lib_annotations lib) = Some m1"
    using inc_play_count_ok by blast
  obtain m2 where 2: "inc_play_count (True, True) user Album_item (mf_album_id mf) ts m1 = Some m2"
    using inc_play_count_ok by blast
  obtain m3 where 3: "inc_artists (pe_stmts env) 2 user ts (mf_artist_ids mf) m2 = Some m3"
    using inc_artists_ok [of "pe_stmts env"] ok unfolding env_ok_def by blast
  show ?thesis using ok 1 2 3 by (simp add: inc_play_def env_ok_def Let_def)
qed


definition found :: "library \<Rightarrow> (play_env \<times> string \<times> go_time) list \<Rightarrow> (media_file option \<times> go_time) list" where
  "found lib subs = map (\<lambda>(env, i, ts). (lib_tracks lib i, ts)) subs"

definition as_found :: "(media_file \<times> go_time) list \<Rightarrow> (media_file option \<times> go_time) list" where
  "as_found counted = map (\<lambda>(mf, ts). (Some mf, ts)) counted"

lemma dispatch_scrobble_library:
  "lib_annotations (snd (dispatch_scrobble env user mf ts (p, lib))) = lib_annotations lib"
  "lib_scrobbles (snd (dispatch_scrobble env user mf ts (p, lib))) = lib_scrobbles lib"
  "lib_tracks (snd (dispatch_scrobble env user mf ts (p, lib))) = lib_tracks lib"
  by (simp_all add: dispatch_scrobble_def split: prod.splits)

lemma submit_all_spec:
  "submit_all h e user subs st = (st', counted) \<Longrightarrow>
     subseq (as_found counted) (found (snd st) subs)
     \<and> plays k (lib_annotations (snd st')) = plays k (lib_annotations (snd st))
         + (\<Sum>(mf, ts) \<leftarrow> counted. counts_for user mf k)
     \<and> lib_scrobbles (snd st') = lib_scrobbles (snd st)
         @ (if h then map (\<lambda>(mf, ts). (user, mf_id mf, ts div 10 ^ 9)) counted else [])
     \<and> ((\<forall>(env, i, ts) \<in> set subs. env_ok env) \<longrightarrow>
          as_found counted = filter (\<lambda>(m, ts). m \<noteq> None) (found (snd st) subs))"
proof (induction subs arbitrary: st st' counted)
  case Nil
  then show ?case by (simp add: found_def as_found_def)
next
  case (Cons sub subs)
  obtain env i ts where sub: "sub = (env, i, ts)" by (cases sub)
  show ?case
  proof (cases "if pe_read_ok env then lib_tracks (snd st) i else None")
    case None
    then have rest: "submit_all h e user subs st = (st', counted)" using Cons.prems by (simp add: sub)
    have "pe_read_ok env \<Longrightarrow> lib_tracks (snd st) i = None" using None by (simp split: if_splits)
    then show ?thesis using Cons.IH [OF rest]
      by (auto simp: sub found_def env_ok_def)
  next
    case (Some mf)
    then have mf: "lib_tracks (snd st) i = Some mf" by (simp split: if_splits)
    show ?thesis
    proof (cases "inc_play h env user mf ts (snd st)")
      case None
      then have rest: "submit_all h e user subs st = (st', counted)" using Cons.prems Some by (simp add: sub)
      have "\<not> env_ok env" using None inc_play_ok [of env h user mf ts "snd st"] by auto
      then show ?thesis using Cons.IH [OF rest] by (auto simp: sub found_def)
    next
      case (Some lib)
      define st1 where "st1 = (if e then dispatch_scrobble env user mf ts (fst st, lib) else (fst st, lib))"
      obtain counted' where rest: "submit_all h e user subs st1 = (st', counted')" and c: "counted = (mf, ts) # counted'"
        using Cons.prems Some mf \<open>(if pe_read_ok env then lib_tracks (snd st) i else None) = Some mf\<close>
        by (auto simp: sub st1_def Let_def split: prod.splits)
      have same: "lib_annotations (snd st1) = lib_annotations lib" "lib_scrobbles (snd st1) = lib_scrobbles lib"
        "lib_tracks (snd st1) = lib_tracks (snd st)"
        using inc_play_spec(3) [OF Some] by (simp_all add: st1_def dispatch_scrobble_library)
      then have f: "found (snd st1) subs = found (snd st) subs" by (simp add: found_def)
      note ih = Cons.IH [OF rest, unfolded f same(1,2)]
      have "found (snd st) (sub # subs) = (Some mf, ts) # found (snd st) subs" "as_found counted = (Some mf, ts) # as_found counted'"
        by (simp_all add: found_def as_found_def sub mf c)
      then show ?thesis
        using ih inc_play_spec(1) [OF Some, of k] inc_play_spec(2) [OF Some] by (auto simp: c sub)
    qed
  qed
qed

section \<open>The hand-over\<close>

definition buffered_for :: "string \<Rightarrow> string \<Rightarrow> string \<Rightarrow> int \<Rightarrow> scrobble_table \<Rightarrow> bool" where
  "buffered_for service user track t b \<longleftrightarrow>
     (\<exists>e \<in> set b. se_service e = service \<and> se_user e = user \<and> se_track e = track \<and> se_play_time e = t)"

lemma buffered_for_enqueue:
  assumes "buffer_enqueue ok i now name user track t b = Some b'"
  shows "buffered_for service user track t b' \<longleftrightarrow> service = name \<or> buffered_for service user track t b"
    "se_id ` set b' = insert i (se_id ` set b)"
proof -
  obtain e where b': "b' = b @ [e]" "se_id e = i" "se_service e = name" "se_user e = user" "se_track e = track"
    "se_play_time e = t"
    using assms by (auto simp: buffer_enqueue_def split: if_splits)
  show "buffered_for service user track t b' \<longleftrightarrow> service = name \<or> buffered_for service user track t b"
    unfolding buffered_for_def b'(1) using b'(2-) by auto
  show "se_id ` set b' = insert i (se_id ` set b)" by (simp add: b')
qed

lemma scrobble_to_spec:
  assumes "\<forall>n \<in> fst ` set ss. \<exists>now. pe_enqueue env n = (True, ids n, now)" "inj_on ids (fst ` set ss)"
    "ids ` fst ` set ss \<inter> se_id ` set b = {}" "distinct (map fst ss)"
  shows "buffered_for service user (mf_id mf) ts (scrobble_to env user mf ts ss b) \<longleftrightarrow>
     (\<exists>s. (service, s) \<in> set ss \<and> is_authorized s user) \<or> buffered_for service user (mf_id mf) ts b"
  using assms
proof (induction ss arbitrary: b)
  case Nil
  then show ?case by simp
next
  case (Cons x ss)
  obtain name s where x: "x = (name, s)" by (cases x)
  obtain now where env: "pe_enqueue env name = (True, ids name, now)" using Cons.prems(1) x by auto
  have rest: "\<forall>n \<in> fst ` set ss. \<exists>now. pe_enqueue env n = (True, ids n, now)" "inj_on ids (fst ` set ss)"
    "ids ` fst ` set ss \<inter> se_id ` set b = {}" "distinct (map fst ss)"
    "ids name \<notin> ids ` fst ` set ss" "ids name \<notin> se_id ` set b"
    using Cons.prems by (auto simp: x inj_on_def)
  show ?case
  proof (cases "is_authorized s user")
    case False
    then show ?thesis using Cons.IH [OF rest(1-4)] False by (auto simp: x)
  next
    case True
    show ?thesis
    proof (cases "buffer_enqueue True (ids name) now name user (mf_id mf) ts b")
      case None
      then have "buffered_for name user (mf_id mf) ts b"
        using rest(6) by (fastforce simp: buffer_enqueue_def buffered_for_def image_iff split: if_splits)
      then show ?thesis using Cons.IH [OF rest(1-4)] True env None by (auto simp: x)
    next
      case (Some b')
      note in_b' = buffered_for_enqueue [OF Some]
      have "ids ` fst ` set ss \<inter> se_id ` set b' = {}" using rest(3,5) by (auto simp: in_b'(2))
      then show ?thesis
        using Cons.IH [OF rest(1,2) _ rest(4), of b'] True env Some in_b'(1) by (auto simp: x)
    qed
  qed
qed

lemma refresh_plugins:
  assumes "distinct names" "distinct (pt_plugins p)"
  shows "set (pt_plugins (refresh_plugin_scrobblers (Some names) p)) = set names"
    "distinct (pt_plugins (refresh_plugin_scrobblers (Some names) p))"
proof -
  have "plugin_names_match names (pt_plugins p) \<Longrightarrow> set names = set (pt_plugins p)"
    using assms by (intro card_subset_eq) (auto simp: plugin_names_match_def distinct_card)
  then show "set (pt_plugins (refresh_plugin_scrobblers (Some names) p)) = set names"
    by (auto simp: refresh_plugin_scrobblers_def)
  show "distinct (pt_plugins (refresh_plugin_scrobblers (Some names) p))"
    using assms by (auto simp: refresh_plugin_scrobblers_def)
qed


section \<open>The properties of the tracker\<close>

text \<open>
  C4. A play is counted as a whole or not at all: of the submissions, in their order, some are
  counted; each of these adds one to its track, to its album and to each of its artists, and a row to
  the history when that is kept, the others leave nothing, and the client is told of exactly the
  counted ones. When no statement fails, those are all whose track exists.
\<close>

theorem plays_counted_as_a_whole:
  assumes "submit h e user subs (p, lib) = ((p', lib'), event)"
  shows "\<exists>counted. subseq (map (\<lambda>(mf, ts). (Some mf, ts)) counted)
        (map (\<lambda>(env, i, ts). (lib_tracks lib i, ts)) subs)
     \<and> (\<forall>k. plays k (lib_annotations lib') = plays k (lib_annotations lib)
           + (\<Sum>(mf, ts) \<leftarrow> counted. counts_for user mf k))
     \<and> lib_scrobbles lib' = lib_scrobbles lib
         @ (if h then map (\<lambda>(mf, ts). (user, mf_id mf, ts div 10 ^ 9)) counted else [])
     \<and> event = (if counted = [] then None
                else Some [(''song'', map (\<lambda>(mf, ts). mf_id mf) counted),
                           (''album'', map (\<lambda>(mf, ts). mf_album_id mf) counted),
                           (''artist'', map (\<lambda>(mf, ts). mf_album_artist_id mf) counted)])
     \<and> ((\<forall>(env, i, ts) \<in> set subs. env_ok env) \<longrightarrow>
          map (\<lambda>(mf, ts). (Some mf, ts)) counted
          = filter (\<lambda>(m, ts). m \<noteq> None) (map (\<lambda>(env, i, ts). (lib_tracks lib i, ts)) subs))"
proof -
  from assms obtain counted where run: "submit_all h e user subs (p, lib) = ((p', lib'), counted)"
    and ev: "event = (if counted = [] then None
                else Some [(''song'', map (\<lambda>(mf, ts). mf_id mf) counted),
                           (''album'', map (\<lambda>(mf, ts). mf_album_id mf) counted),
                           (''artist'', map (\<lambda>(mf, ts). mf_album_artist_id mf) counted)])"
    by (auto simp: submit_def split: prod.splits)
  show ?thesis
    using submit_all_spec [OF run, unfolded found_def as_found_def snd_conv] ev
    by (intro exI [of _ counted] conjI allI) simp_all
qed

definition demo_play_env :: play_env where
  "demo_play_env = \<lparr>pe_read_ok = True, pe_stmts = (\<lambda>n. (True, True)), pe_history_ok = True, pe_commit_ok = True,
     pe_plugins = Some [''plug''], pe_load = (\<lambda>n. None), pe_enqueue = (\<lambda>n. (True, n, 60))\<rparr>"

definition demo_track :: media_file where
  "demo_track = \<lparr>mf_id = ''t1'', mf_path = ''a.mp3'', mf_title = ''song'', mf_artist = ''singer'',
     mf_album_id = ''al1'', mf_album_artist_id = ''ar1'', mf_artist_ids = [''ar1'', ''ar2''], mf_suffix = ''mp3'',
     mf_codec = '''', mf_bit_rate = 320, mf_sample_rate = 44100, mf_bit_depth = 0, mf_channels = 2,
     mf_probe_data = '''', mf_size = 1000, mf_duration = 180, mf_updated_at = 0\<rparr>"

definition demo_library :: library where
  "demo_library = \<lparr>lib_tracks = [''t1'' \<mapsto> demo_track], lib_annotations = Map.empty, lib_scrobbles = [], lib_buffer = []\<rparr>"

definition demo_tracker :: tracker where
  "demo_tracker = \<lparr>pt_builtin = [(''lastfm'', \<lparr>sc_authorized = (\<lambda>u. True), sc_now_playing = (\<lambda>u t p. None)\<rparr>)],
     pt_plugins = [], pt_playing = [], pt_np_queue = [], pt_np_signal = False\<rparr>"

theorem plays_counted_as_a_whole_witness:
  "\<exists>p' lib' event. submit True True ''u'' [(demo_play_env, ''t1'', 5 * 10 ^ 9), (demo_play_env, ''gone'', 6 * 10 ^ 9)]
       (demo_tracker, demo_library) = ((p', lib'), event)
     \<and> plays (''u'', Artist_item, ''ar2'') (lib_annotations lib') = 1
     \<and> lib_scrobbles lib' = [(''u'', ''t1'', 5)]"
proof -
  let ?subs = "[(demo_play_env, ''t1'', 5 * 10 ^ 9 :: go_time), (demo_play_env, ''gone'', 6 * 10 ^ 9)]"
  obtain p' lib' event where run: "submit True True ''u'' ?subs (demo_tracker, demo_library) = ((p', lib'), event)"
    by (metis prod.collapse)
  have "env_ok demo_play_env" by (simp add: env_ok_def demo_play_env_def)
  then have all_ok: "\<forall>(env, i, ts) \<in> set ?subs. env_ok env" by simp
  obtain counted where c: "\<forall>k. plays k (lib_annotations lib') = plays k (lib_annotations demo_library)
        + (\<Sum>(mf, ts) \<leftarrow> counted. counts_for ''u'' mf k)"
      "lib_scrobbles lib' = lib_scrobbles demo_library
        @ (if True then map (\<lambda>(mf, ts). (''u'', mf_id mf, ts div 10 ^ 9)) counted else [])"
      "(\<forall>(env, i, ts) \<in> set ?subs. env_ok env) \<longrightarrow>
          map (\<lambda>(mf, ts). (Some mf, ts)) counted
          = filter (\<lambda>(m, ts). m \<noteq> None) (map (\<lambda>(env, i, ts). (lib_tracks demo_library i, ts)) ?subs)"
    using plays_counted_as_a_whole [OF run] by (elim exE conjE) (rule that, assumption+)
  from c(3) all_ok have "map (\<lambda>(mf, ts). (Some mf, ts)) counted = [(Some demo_track, 5 * 10 ^ 9)]"
    by (simp add: demo_library_def)
  then have "counted = [(demo_track, 5 * 10 ^ 9)]" by auto
  with run c show ?thesis by (auto simp: demo_library_def demo_track_def plays_def)
qed

text \<open>
  A counted play reaches the services: it is put in the buffer of every plugin that is there
  now and of every builtin service no plugin hides, if the service knows the user, and in no
  other; a plugin that is gone gets nothing.
\<close>

lemma scrobble_reaches_services:
  assumes "mf_artist mf \<noteq> ''[Unknown Artist]''" "pe_plugins env = Some names" "distinct names"
    "distinct (map fst (pt_builtin p))" "distinct (pt_plugins p)"
    "\<forall>n. \<exists>now. pe_enqueue env n = (True, ids n, now)" "inj ids" "range ids \<inter> se_id ` set (lib_buffer lib) = {}"
    "dispatch_scrobble env user mf ts (p, lib) = (p', lib')"
  shows "set (pt_plugins p') = set names
     \<and> (buffered_for service user (mf_id mf) ts (lib_buffer lib') \<longleftrightarrow>
          buffered_for service user (mf_id mf) ts (lib_buffer lib)
          \<or> (if service \<in> set names then is_authorized (pe_load env service) user
             else \<exists>s. (service, s) \<in> set (pt_builtin p) \<and> sc_authorized s user))"
proof -
  define q where "q = refresh_plugin_scrobblers (Some names) p"
  have plugins: "set (pt_plugins q) = set names" "distinct (pt_plugins q)" "pt_builtin q = pt_builtin p"
    using refresh_plugins [OF assms(3,5)] by (simp_all add: q_def refresh_plugin_scrobblers_def)
  define ss where "ss = map (\<lambda>(n, s). (n, Some s)) (filter (\<lambda>(n, s). n \<notin> set names) (pt_builtin p))
      @ map (\<lambda>n. (n, pe_load env n)) (pt_plugins q)"
  have res: "p' = q" "lib_buffer lib' = scrobble_to env user mf ts ss (lib_buffer lib)"
    using assms(1,2,9) plugins
    by (auto simp: dispatch_scrobble_def get_active_scrobblers_def unknown_artist_def ss_def q_def [symmetric] Let_def)
  have fsts: "map fst (map (\<lambda>(n, s). (n, Some s)) (filter (\<lambda>(n, s). n \<notin> A) xs)) = filter (\<lambda>n. n \<notin> A) (map fst xs)"
    for A and xs :: "(string \<times> scrobbler) list" by (induction xs) auto
  have "map fst ss = filter (\<lambda>n. n \<notin> set names) (map fst (pt_builtin p)) @ pt_plugins q"
    unfolding ss_def map_append fsts by (simp add: o_def)
  then have "distinct (map fst ss)" using assms(4) plugins(1,2) by auto
  then have "buffered_for service user (mf_id mf) ts (lib_buffer lib') \<longleftrightarrow>
      (\<exists>s. (service, s) \<in> set ss \<and> is_authorized s user) \<or> buffered_for service user (mf_id mf) ts (lib_buffer lib)"
    unfolding res using assms(6-8) by (intro scrobble_to_spec [where ids = ids]) (auto intro: inj_on_subset)
  moreover have "(\<exists>s. (service, s) \<in> set ss \<and> is_authorized s user) \<longleftrightarrow>
      (if service \<in> set names then is_authorized (pe_load env service) user
       else \<exists>s. (service, s) \<in> set (pt_builtin p) \<and> sc_authorized s user)"
    using plugins(1) by (auto simp: ss_def is_authorized_def)
  ultimately show ?thesis using plugins(1) res(1) by auto
qed

lemma scrobble_reaches_services_witness:
  "\<exists>p' lib'. dispatch_scrobble demo_play_env ''u'' demo_track 5 (demo_tracker, demo_library) = (p', lib')
     \<and> set (pt_plugins p') = {''plug''} \<and> buffered_for ''lastfm'' ''u'' ''t1'' 5 (lib_buffer lib')"
proof -
  obtain p' lib' where run: "dispatch_scrobble demo_play_env ''u'' demo_track 5 (demo_tracker, demo_library) = (p', lib')"
    by (metis prod.collapse)
  have "set (pt_plugins p') = set [''plug'']
     \<and> (buffered_for ''lastfm'' ''u'' (mf_id demo_track) 5 (lib_buffer lib') \<longleftrightarrow>
          buffered_for ''lastfm'' ''u'' (mf_id demo_track) 5 (lib_buffer demo_library)
          \<or> (if ''lastfm'' \<in> set [''plug''] then is_authorized (pe_load demo_play_env ''lastfm'') ''u''
             else \<exists>s. (''lastfm'', s) \<in> set (pt_builtin demo_tracker) \<and> sc_authorized s ''u''))"
    by (rule scrobble_reaches_services [OF _ _ _ _ _ _ _ _ run, where ids = id])
      (simp_all add: demo_track_def demo_play_env_def demo_tracker_def demo_library_def)
  with run show ?thesis by (simp add: demo_tracker_def demo_track_def)
qed

end
