(* ===== verification/PlaybackServer.thy ===== *)
theory PlaybackServer
  imports PlaybackDevice
begin

text \<open>
  The devices of the jukebox (\<open>core/playback/playbackserver.go\<close>): reading them from the
  configuration and finding the one of a user. A device is referred to by its index in the list of
  the server, as the code does with a pointer into its slice.
\<close>

datatype server_error =
    Field_count nat
  | No_default_given nat
  | Default_not_found string
  | No_default_device

text \<open>The loop of \<open>initDeviceStatus\<close> over the configured devices.\<close>

fun init_devices :: "string \<Rightarrow> string list list \<Rightarrow> server_error + 't playback_device list" where
  "init_devices def [] = Inr []"
| "init_devices def (d # ds) =
     (case d of
        [name, device_name] \<Rightarrow>
          (case init_devices def ds of
             Inl e \<Rightarrow> Inl e
           | Inr pds \<Rightarrow>
               Inr ((if name = def then (new_playback_device name device_name)\<lparr>pd_default := True\<rparr>
                     else new_playback_device name device_name) # pds))
      | _ \<Rightarrow> Inl (Field_count (length d)))"

definition init_device_status ::
  "string list list \<Rightarrow> string \<Rightarrow> server_error + 't playback_device list" where
  "init_device_status devices def =
     (if def = '''' then
        (case devices of
           [] \<Rightarrow> Inr [(new_playback_device ''auto'' ''auto'')\<lparr>pd_default := True\<rparr>]
         | [d] \<Rightarrow>
             (case d of
                [name, device_name] \<Rightarrow> Inr [(new_playback_device name device_name)\<lparr>pd_default := True\<rparr>]
              | _ \<Rightarrow> Inl (Field_count (length d)))
         | _ \<Rightarrow> Inl (No_default_given (length devices)))
      else
        (case init_devices def devices of
           Inl e \<Rightarrow> Inl e
         | Inr pds \<Rightarrow>
             if \<exists>d \<in> set devices. hd d = def then Inr pds else Inl (Default_not_found def)))"

fun get_default_device :: "'t playback_device list \<Rightarrow> server_error + nat" where
  "get_default_device [] = Inl No_default_device"
| "get_default_device (pd # pds) =
     (if pd_default pd then Inr 0
      else (case get_default_device pds of Inl e \<Rightarrow> Inl e | Inr i \<Rightarrow> Inr (Suc i)))"

definition get_device_for_user ::
  "string \<Rightarrow> 't playback_device list \<Rightarrow> 't playback_device list \<times> (server_error + nat)" where
  "get_device_for_user user pds =
     (case get_default_device pds of
        Inl e \<Rightarrow> (pds, Inl e)
      | Inr i \<Rightarrow> (pds[i := (pds ! i)\<lparr>pd_user := user\<rparr>], Inr i))"

section \<open>The default device\<close>

lemma init_devices_spec:
  "init_devices def ds = Inr pds \<Longrightarrow>
     pds = map (\<lambda>d. (new_playback_device (hd d) (d ! 1))\<lparr>pd_default := (hd d = def)\<rparr>) ds
     \<and> (\<forall>d \<in> set ds. length d = 2)"
proof (induction ds arbitrary: pds)
  case (Cons d ds)
  then obtain name device_name pds' where d: "d = [name, device_name]" "init_devices def ds = Inr pds'"
    and "pds = (if name = def then (new_playback_device name device_name)\<lparr>pd_default := True\<rparr>
                else new_playback_device name device_name) # pds'"
    by (auto split: list.splits sum.splits)
  then show ?case using Cons.IH [OF d(2)] by (simp add: new_playback_device_def)
qed simp

lemma get_default_device_spec:
  "\<exists>pd \<in> set pds. pd_default pd \<Longrightarrow>
     \<exists>i < length pds. get_default_device pds = Inr i \<and> pd_default (pds ! i) \<and> (\<forall>j < i. \<not> pd_default (pds ! j))"
proof (induction pds)
  case (Cons pd pds)
  show ?case
  proof (cases "pd_default pd")
    case True
    then show ?thesis by (intro exI [of _ 0]) simp
  next
    case False
    with Cons obtain i where "i < length pds" "get_default_device pds = Inr i" "pd_default (pds ! i)"
      "\<forall>j < i. \<not> pd_default (pds ! j)" by auto
    with False show ?thesis by (intro exI [of _ "Suc i"]) (auto simp: less_Suc_eq_0_disj)
  qed
qed simp

text \<open>
  A configuration that is accepted has a default device, the first of the configured name, or
  the only one; the server starts every device with an empty queue, and every user gets the default
  one, on which the last user who asked is written.
\<close>

lemma accepted_configuration_has_default:
  assumes "init_device_status devices def = Inr (pds :: 't playback_device list)"
  shows "\<exists>i < length pds. pd_default (pds ! i) \<and> (\<forall>j < i. \<not> pd_default (pds ! j))
     \<and> pd_name (pds ! i) = (if def \<noteq> '''' then def else if devices = [] then ''auto'' else hd (hd devices))
     \<and> get_device_for_user user pds = (pds[i := (pds ! i)\<lparr>pd_user := user\<rparr>], Inr i)
     \<and> (\<forall>pd \<in> set pds. pd_queue pd = new_queue \<and> pd_active pd = None)
     \<and> map (\<lambda>pd. [pd_name pd, pd_device_name pd]) pds = (if devices = [] then [[''auto'', ''auto'']] else devices)"
proof -
  have pair: "length d = 2 \<Longrightarrow> [hd d, d ! 1] = d" for d :: "string list"
    by (cases d; cases "tl d") auto
  have shape: "(\<exists>pd \<in> set pds. pd_default pd)
      \<and> (\<forall>pd \<in> set pds. pd_default pd \<longrightarrow> pd_name pd = (if def \<noteq> '''' then def else if devices = [] then ''auto'' else hd (hd devices)))
      \<and> (\<forall>pd \<in> set pds. pd_queue pd = new_queue \<and> pd_active pd = None)
      \<and> map (\<lambda>pd. [pd_name pd, pd_device_name pd]) pds = (if devices = [] then [[''auto'', ''auto'']] else devices)"
  proof (cases "def = ''''")
    case True
    then show ?thesis using assms
      by (auto simp: init_device_status_def new_playback_device_def split: list.splits)
  next
    case False
    then have run: "init_devices def devices = Inr pds" and found: "\<exists>d \<in> set devices. hd d = def"
      using assms by (auto simp: init_device_status_def split: sum.splits if_splits)
    have "devices \<noteq> []" using found by auto
    moreover have "map (\<lambda>pd. [pd_name pd, pd_device_name pd]) pds = devices"
      using init_devices_spec [OF run] pair by (auto simp: new_playback_device_def o_def intro!: map_idI)
    ultimately show ?thesis using False found init_devices_spec [OF run]
      by (auto simp: new_playback_device_def)
  qed
  then obtain i where "i < length pds" "get_default_device pds = Inr i" "pd_default (pds ! i)"
    "\<forall>j < i. \<not> pd_default (pds ! j)" using get_default_device_spec [of pds] by blast
  with shape show ?thesis by (intro exI [of _ i]) (simp add: get_device_for_user_def)
qed

lemma accepted_configuration_has_default_witness:
  "\<exists>i. pd_name ((case init_device_status [[''a'', ''alsa''], [''b'', ''pulse'']] ''b'' of
      Inr pds \<Rightarrow> pds | Inl e \<Rightarrow> ([] :: bool playback_device list)) ! i) = ''b''"
proof -
  obtain pds :: "bool playback_device list" where
    run: "init_device_status [[''a'', ''alsa''], [''b'', ''pulse'']] ''b'' = Inr pds"
    by (simp add: init_device_status_def)
  show ?thesis using accepted_configuration_has_default [OF run, of "''u''"] run by auto
qed

end
