(* ===== verification/Natural.thy ===== *)
theory Natural
  imports Prelude
begin

text \<open>
  The natural order of file names (\<open>utils/natural/natural.go\<close>), by which the images of an album are
  sorted. The two indexes of \<open>Compare\<close> are the suffixes of the strings they point at.
\<close>

section \<open>The comparison\<close>

fun strip_zeros :: "string \<Rightarrow> string" where
  "strip_zeros [] = []"
| "strip_zeros [c] = [c]"
| "strip_zeros (c # d # s) = (if c = CHR ''0'' then strip_zeros (d # s) else c # d # s)"

fun first_difference :: "string \<Rightarrow> string \<Rightarrow> int" where
  "first_difference (c # s) (d # t) = (if c \<noteq> d then byte c - byte d else first_difference s t)"
| "first_difference s t = 0"

definition compare_numbers :: "string \<Rightarrow> string \<Rightarrow> int" where
  "compare_numbers a b =
     (let sa = strip_zeros a; sb = strip_zeros b
      in if length sa \<noteq> length sb then int (length sa) - int (length sb)
         else first_difference sa sb)"

text \<open>\<open>strings.Compare\<close>.\<close>

fun strings_compare :: "string \<Rightarrow> string \<Rightarrow> int" where
  "strings_compare [] [] = 0"
| "strings_compare [] (d # t) = -1"
| "strings_compare (c # s) [] = 1"
| "strings_compare (c # s) (d # t) =
     (if c = d then strings_compare s t else if byte c < byte d then -1 else 1)"

lemma dropWhile_shorter: "P x \<Longrightarrow> length (dropWhile P (x # xs)) < Suc (length xs)"
  using length_dropWhile_le [of P xs] by simp

function compare_natural :: "string \<Rightarrow> string \<Rightarrow> int" where
  "compare_natural a b =
     (case a of
        [] \<Rightarrow> int (length a) - int (length b)
      | ca # as \<Rightarrow>
          (case b of
             [] \<Rightarrow> int (length a) - int (length b)
           | cb # bs \<Rightarrow>
               if is_digit ca \<and> is_digit cb then
                 (let c = compare_numbers (takeWhile is_digit a) (takeWhile is_digit b)
                  in if c \<noteq> 0 then c
                     else if dropWhile is_digit a \<noteq> [] \<and> dropWhile is_digit b \<noteq> []
                     then compare_natural (dropWhile is_digit a) (dropWhile is_digit b)
                     else strings_compare a b)
               else if is_digit ca \<noteq> is_digit cb then byte ca - byte cb
               else if ca \<noteq> cb then byte ca - byte cb
               else compare_natural as bs))"
  by pat_completeness auto
termination
  by (relation "measure (\<lambda>(a, b). length a)") (auto intro: le_less_trans [OF length_dropWhile_le])

declare compare_natural.simps [simp del]

section \<open>Numbers\<close>

text \<open>The number a sequence of digits stands for.\<close>

definition number_of :: "string \<Rightarrow> int" where
  "number_of s = foldl (\<lambda>n c. 10 * n + (byte c - 48)) 0 s"

lemma foldl_number: "foldl (\<lambda>n c. 10 * n + (byte c - 48)) m s = m * 10 ^ length s + number_of s"
proof (induction s arbitrary: m)
  case Nil
  then show ?case by (simp add: number_of_def)
next
  case (Cons c s)
  have "number_of (c # s) = (byte c - 48) * 10 ^ length s + number_of s"
    using Cons [of "byte c - 48"] by (simp add: number_of_def)
  then show ?case using Cons [of "10 * m + (byte c - 48)"] by (simp add: algebra_simps)
qed

lemma number_of_simps [simp]:
  "number_of [] = 0" "number_of (c # s) = (byte c - 48) * 10 ^ length s + number_of s"
  using foldl_number [of "byte c - 48" s] by (simp_all add: number_of_def)

lemma number_of_bounds: "list_all is_digit s \<Longrightarrow> 0 \<le> number_of s \<and> number_of s < 10 ^ length s"
proof (induction s)
  case Nil
  then show ?case by simp
next
  case (Cons c s)
  then have c: "0 \<le> byte c - 48" "byte c - 48 \<le> 9" by (simp_all add: is_digit_def)
  have "0 \<le> (byte c - 48) * 10 ^ length s" using c(1) by simp
  moreover have "(byte c - 48) * 10 ^ length s \<le> 9 * 10 ^ length s" using c(2) by (intro mult_right_mono) simp_all
  moreover have "0 \<le> number_of s \<and> number_of s < 10 ^ length s" using Cons by simp
  ultimately show ?case unfolding number_of_simps list.size(4) add_Suc_right add_0_right power_Suc by linarith
qed

lemma strip_zeros_digits:
  "list_all is_digit s \<Longrightarrow> list_all is_digit (strip_zeros s) \<and> number_of (strip_zeros s) = number_of s"
  by (induction s rule: strip_zeros.induct) (auto simp: byte_def)

lemma strip_zeros_long:
  "list_all is_digit s \<Longrightarrow> 1 < length (strip_zeros s) \<Longrightarrow> 10 ^ (length (strip_zeros s) - 1) \<le> number_of s"
proof (induction s rule: strip_zeros.induct)
  case (3 c d s)
  show ?case
  proof (cases "c = CHR ''0''")
    case True
    then show ?thesis using 3 by (simp add: byte_def)
  next
    case False
    then have "byte c \<noteq> byte (CHR ''0'')" by simp
    then have "byte c \<noteq> 48" by (simp add: byte_def)
    with 3(2) have c: "1 \<le> byte c - 48" by (simp add: is_digit_def)
    have "1 * 10 ^ length (d # s) \<le> (byte c - 48) * 10 ^ length (d # s)"
      using c by (intro mult_right_mono) simp_all
    moreover have "0 \<le> number_of (d # s)" using number_of_bounds [of "d # s"] 3(2) by simp
    moreover have "number_of (c # d # s) = (byte c - 48) * 10 ^ length (d # s) + number_of (d # s)"
      by (rule number_of_simps)
    ultimately have "10 ^ length (d # s) \<le> number_of (c # d # s)" by linarith
    then show ?thesis using False by (simp del: number_of_simps)
  qed
qed simp_all

lemma strip_zeros_Nil [simp]: "strip_zeros s = [] \<longleftrightarrow> s = []"
  by (induction s rule: strip_zeros.induct) auto

lemma first_difference_number:
  "list_all is_digit s \<Longrightarrow> list_all is_digit t \<Longrightarrow> length s = length t \<Longrightarrow>
     sgn (first_difference s t) = sgn (number_of s - number_of t)"
proof (induction s t rule: first_difference.induct)
  case (1 c s d t)
  have b: "0 \<le> number_of s" "number_of s < 10 ^ length s" "0 \<le> number_of t" "number_of t < 10 ^ length s"
    using number_of_bounds [of s] number_of_bounds [of t] 1(2-4) by simp_all
  show ?case
  proof (cases "c = d")
    case True
    then show ?thesis using 1 by simp
  next
    case False
    then have "byte c \<noteq> byte d" by simp
    then consider "byte c + 1 \<le> byte d" | "byte d + 1 \<le> byte c" by linarith
    then show ?thesis
    proof cases
      case 1
      then have "(byte c - 48) * 10 ^ length s + 10 ^ length s \<le> (byte d - 48) * 10 ^ length s"
        using mult_right_mono [of "byte c - 48 + 1" "byte d - 48" "10 ^ length s"] by (simp add: algebra_simps)
      with b 1 False \<open>length (c # s) = length (d # t)\<close> show ?thesis by (simp add: sgn_if)
    next
      case 2
      then have "(byte d - 48) * 10 ^ length s + 10 ^ length s \<le> (byte c - 48) * 10 ^ length s"
        using mult_right_mono [of "byte d - 48 + 1" "byte c - 48" "10 ^ length s"] by (simp add: algebra_simps)
      with b 2 False \<open>length (c # s) = length (d # t)\<close> show ?thesis by (simp add: sgn_if)
    qed
  qed
qed simp_all

lemma shorter_number:
  assumes "list_all is_digit a" "list_all is_digit b" "length (strip_zeros a) < length (strip_zeros b)" "a \<noteq> []"
  shows "number_of a < number_of b"
proof -
  have "number_of a < 10 ^ length (strip_zeros a)"
    using strip_zeros_digits [OF assms(1)] number_of_bounds [of "strip_zeros a"] by simp
  also have "\<dots> \<le> 10 ^ (length (strip_zeros b) - 1)" using assms(3) by (intro power_increasing) simp_all
  also have "\<dots> \<le> number_of b"
  proof (rule strip_zeros_long [OF assms(2)])
    have "0 < length (strip_zeros a)" using assms(4) by simp
    with assms(3) show "1 < length (strip_zeros b)" by linarith
  qed
  finally show ?thesis .
qed

lemma compare_numbers_value:
  assumes "list_all is_digit a" "list_all is_digit b" "a \<noteq> []" "b \<noteq> []"
  shows "sgn (compare_numbers a b) = sgn (number_of a - number_of b)"
proof (cases "length (strip_zeros a) = length (strip_zeros b)")
  case True
  then show ?thesis
    using first_difference_number [of "strip_zeros a" "strip_zeros b"] strip_zeros_digits assms(1,2)
    by (simp add: compare_numbers_def Let_def)
next
  case False
  then consider "length (strip_zeros a) < length (strip_zeros b)" | "length (strip_zeros b) < length (strip_zeros a)"
    by linarith
  then show ?thesis
    using shorter_number [OF assms(1,2) _ assms(3)] shorter_number [OF assms(2,1) _ assms(4)]
    by cases (simp_all add: compare_numbers_def Let_def sgn_if)
qed

section \<open>The order\<close>

lemma first_difference_swap: "first_difference t s = - first_difference s t"
  by (induction s t rule: first_difference.induct) auto

lemma compare_numbers_swap: "compare_numbers b a = - compare_numbers a b"
  by (simp add: compare_numbers_def Let_def first_difference_swap [of "strip_zeros b" "strip_zeros a"])

lemma strings_compare_swap: "strings_compare t s = - strings_compare s t"
proof (induction s t rule: strings_compare.induct)
  case (4 c s d t)
  show ?case
  proof (cases "c = d")
    case False
    then have "byte c \<noteq> byte d" by simp
    then have "byte c < byte d \<or> byte d < byte c" by linarith
    then show ?thesis using False by auto
  qed (use 4 in simp)
qed simp_all

lemma compare_natural_swap: "compare_natural b a = - compare_natural a b"
proof (induction a b rule: compare_natural.induct)
  case (1 a b)
  show ?case
  proof (cases a)
    case Nil
    then show ?thesis by (cases b) (simp_all add: compare_natural.simps)
  next
    case (Cons ca as)
    note a = Cons
    show ?thesis
    proof (cases b)
      case Nil
      then show ?thesis using a by (simp add: compare_natural.simps)
    next
      case (Cons cb bs)
      note b = Cons
      let ?da = "takeWhile is_digit a" and ?db = "takeWhile is_digit b"
      let ?ra = "dropWhile is_digit a" and ?rb = "dropWhile is_digit b"
      note step = compare_natural.simps [of a b, unfolded a b list.case, folded a b]
        compare_natural.simps [of b a, unfolded a b list.case, folded a b]
      consider "is_digit ca" "is_digit cb" | "is_digit ca \<noteq> is_digit cb" | "\<not> is_digit ca" "\<not> is_digit cb" by blast
      then show ?thesis
      proof cases
        case 1
        have "compare_natural ?rb ?ra = - compare_natural ?ra ?rb"
          if "compare_numbers ?da ?db = 0" "?ra \<noteq> []" "?rb \<noteq> []"
          using "1.IH"(1) [OF a b _ refl] 1 that by simp
        then show ?thesis using 1 compare_numbers_swap [of ?db ?da] strings_compare_swap [of b a]
          by (simp add: step Let_def)
      next
        case 2
        then show ?thesis by (auto simp: step)
      next
        case 3
        then show ?thesis using "1.IH"(2) [OF a b] by (cases "ca = cb") (simp_all add: step)
      qed
    qed
  qed
qed

section \<open>The properties of the order\<close>

lemma takeWhile_digits:
  "list_all is_digit x \<Longrightarrow> r = [] \<or> \<not> is_digit (hd r) \<Longrightarrow>
     takeWhile is_digit (x @ r) = x \<and> dropWhile is_digit (x @ r) = r"
  by (cases r) (auto simp: list_all_iff takeWhile_append dropWhile_append)

lemma common_text:
  "list_all (\<lambda>c. \<not> is_digit c) p \<Longrightarrow> compare_natural (p @ a) (p @ b) = compare_natural a b"
proof (induction p)
  case (Cons c p)
  then show ?case by (subst compare_natural.simps) simp
qed simp

text \<open>
  Names that agree up to a number are ordered by the value of that number, whatever its leading
  zeros and whatever follows; and the order does not depend on which of the names comes first.
\<close>

lemma numbers_compare_by_value:
  assumes "list_all (\<lambda>c. \<not> is_digit c) p" "list_all is_digit x" "list_all is_digit y" "x \<noteq> []" "y \<noteq> []"
    "r = [] \<or> \<not> is_digit (hd r)" "s = [] \<or> \<not> is_digit (hd s)" "number_of x \<noteq> number_of y"
  shows "sgn (compare_natural (p @ x @ r) (p @ y @ s)) = sgn (number_of x - number_of y)
     \<and> compare_natural (p @ y @ s) (p @ x @ r) = - compare_natural (p @ x @ r) (p @ y @ s)"
proof -
  obtain c x' where x: "x = c # x'" "is_digit c" using assms(2,4) by (cases x) auto
  obtain d y' where y: "y = d # y'" "is_digit d" using assms(3,5) by (cases y) auto
  have v: "sgn (compare_numbers x y) = sgn (number_of x - number_of y)"
    by (rule compare_numbers_value [OF assms(2-5)])
  then have "compare_numbers x y \<noteq> 0" using assms(8) by (auto simp: sgn_eq_0_iff)
  then have "compare_natural (x @ r) (y @ s) = compare_numbers x y"
    using takeWhile_digits [OF assms(2,6)] takeWhile_digits [OF assms(3,7)] x y
    by (subst compare_natural.simps) (simp add: Let_def)
  with v show ?thesis using common_text [OF assms(1), of "x @ r" "y @ s"]
    compare_natural_swap [of "p @ y @ s" "p @ x @ r"] by simp
qed

lemma numbers_compare_by_value_witness:
  "sgn (compare_natural (''cover'' @ ''10'' @ ''.jpg'') (''cover'' @ ''9'' @ ''.jpg'')) = sgn (number_of ''10'' - number_of ''9'')"
proof -
  have "list_all (\<lambda>c. \<not> is_digit c) ''cover''" "list_all is_digit ''10''" "list_all is_digit ''9''"
    "\<not> is_digit (hd ''.jpg'')" "number_of ''10'' \<noteq> number_of ''9''"
    by code_simp+
  then show ?thesis using numbers_compare_by_value [of "''cover''" "''10''" "''9''" "''.jpg''" "''.jpg''"] by blast
qed

text \<open>
  The order has cycles: leading zeros decide between two names when one of them ends with its
  digits, and are passed over when both go on.
\<close>

lemma compare_natural_cycle:
  "compare_natural ''1'' ''1a'' < 0 \<and> compare_natural ''1a'' ''01b'' < 0 \<and> compare_natural ''01b'' ''1'' < 0"
  by code_simp

end
