(* ===== verification/JsonComments.thy ===== *)
theory JsonComments
  imports Prelude
begin

text \<open>
  The reader that takes comments out of a JSON text (\<open>utils/jsoncommentstrip/jsoncommentstrip.go\<close>).
  The reader it wraps is the text that is left and ends with EOF. A call of \<open>Read\<close> has room for a
  number of bytes; what it leaves for the next call is its state and the text.
\<close>

section \<open>The reader\<close>

datatype comment_state =
    State_normal
  | State_in_string
  | State_in_string_escape
  | State_maybe_comment
  | State_line_comment
  | State_block_comment
  | State_maybe_block_end

text \<open>The two \<open>switch\<close>es on the state and the byte: what is emitted, and the next state.\<close>

definition comment_step :: "comment_state \<Rightarrow> char \<Rightarrow> string \<times> comment_state" where
  "comment_step st b =
     (case st of
        State_normal \<Rightarrow>
          if b = CHR 0x22 then ([b], State_in_string)
          else if b = CHR ''/'' then ([], State_maybe_comment)
          else ([b], State_normal)
      | State_in_string \<Rightarrow>
          ([b], if b = CHR 0x5C then State_in_string_escape
                else if b = CHR 0x22 then State_normal else State_in_string)
      | State_in_string_escape \<Rightarrow> ([b], State_in_string)
      | State_maybe_comment \<Rightarrow>
          if b = CHR ''/'' then ([], State_line_comment)
          else if b = CHR ''*'' then ([], State_block_comment)
          else ([CHR ''/'', b], State_normal)
      | State_line_comment \<Rightarrow>
          if b = CHR 0x0A \<or> b = CHR 0x0D then ([b], State_normal) else ([], State_line_comment)
      | State_block_comment \<Rightarrow>
          ([], if b = CHR ''*'' then State_maybe_block_end else State_block_comment)
      | State_maybe_block_end \<Rightarrow>
          ([], if b = CHR ''/'' then State_normal
               else if b = CHR ''*'' then State_maybe_block_end else State_block_comment))"

text \<open>
  The loop of \<open>Read\<close>: the bytes, the state, the text that is left and whether EOF was returned.
  When only the slash fits, the byte after it is unread.
\<close>

fun read_loop :: "nat \<Rightarrow> comment_state \<Rightarrow> string \<Rightarrow> string \<times> comment_state \<times> string \<times> bool" where
  "read_loop room st [] =
     (if room = 0 then ([], st, [], False)
      else if st = State_maybe_comment then (''/'', State_normal, [], True)
      else ([], st, [], True))"
| "read_loop room st (b # bs) =
     (if room = 0 then ([], st, b # bs, False)
      else (case comment_step st b of
              (out, st') \<Rightarrow>
                if length out > room then (take room out, State_normal, b # bs, False)
                else (case read_loop (room - length out) st' bs of
                        (out', r) \<Rightarrow> (out @ out', r))))"

text \<open>A caller that reads until EOF, with the room of each call.\<close>

fun read_until_eof :: "nat list \<Rightarrow> comment_state \<Rightarrow> string \<Rightarrow> string option" where
  "read_until_eof [] st rest = None"
| "read_until_eof (n # ns) st rest =
     (case read_loop n st rest of
        (out, st', rest', eof) \<Rightarrow>
          if eof then Some out else map_option (\<lambda>o'. out @ o') (read_until_eof ns st' rest'))"

definition strip_comments :: "nat list \<Rightarrow> string \<Rightarrow> string option" where
  "strip_comments rooms text = read_until_eof rooms State_normal text"

section \<open>The size of the buffer\<close>

text \<open>What would come out of one unlimited call, and the inputs for which the rooms do not matter.\<close>

fun strip_from :: "comment_state \<Rightarrow> string \<Rightarrow> string" where
  "strip_from st [] = (if st = State_maybe_comment then ''/'' else [])"
| "strip_from st (b # bs) = (case comment_step st b of (out, st') \<Rightarrow> out @ strip_from st' bs)"

fun no_slash_quote :: "comment_state \<Rightarrow> string \<Rightarrow> bool" where
  "no_slash_quote st [] \<longleftrightarrow> True"
| "no_slash_quote st (b # bs) \<longleftrightarrow>
     \<not> (st = State_maybe_comment \<and> b = CHR 0x22) \<and> no_slash_quote (snd (comment_step st b)) bs"

lemma length_step: "length (fst (comment_step st b)) \<le> 2"
  by (simp add: comment_step_def split: comment_state.split)

text \<open>A step with two bytes is the slash that was no comment, and the byte after it.\<close>

lemma step_two:
  "Suc 0 < length (fst (comment_step st b)) \<Longrightarrow>
     st = State_maybe_comment \<and> b \<noteq> CHR ''/'' \<and> b \<noteq> CHR ''*''
     \<and> comment_step st b = ([CHR ''/'', b], State_normal)"
  by (cases st) (auto simp: comment_step_def split: if_splits)

lemma step_plain: "b \<noteq> CHR 0x22 \<Longrightarrow> b \<noteq> CHR ''/'' \<Longrightarrow> comment_step State_normal b = ([b], State_normal)"
  by (simp add: comment_step_def)

definition weight :: "comment_state \<Rightarrow> string \<Rightarrow> nat" where
  "weight st rest = 2 * length rest + (if st = State_maybe_comment then 1 else 0)"

lemma read_loop_spec:
  "read_loop room st rest = (out, st', rest', eof) \<Longrightarrow> no_slash_quote st rest \<Longrightarrow>
     strip_from st rest = out @ (if eof then [] else strip_from st' rest')
     \<and> no_slash_quote st' rest' \<and> length out \<le> room
     \<and> (\<not> eof \<longrightarrow> 0 < room \<longrightarrow> weight st' rest' < weight st rest)"
proof (induction room st rest arbitrary: out rule: read_loop.induct)
  case (1 room st)
  then show ?case by (auto split: if_splits)
next
  case (2 room st b bs)
  obtain o1 st1 where step: "comment_step st b = (o1, st1)" by (cases "comment_step st b")
  show ?case
  proof (cases "room = 0")
    case True
    then show ?thesis using 2 by auto
  next
    case False
    show ?thesis
    proof (cases "length o1 > room")
      case True
      then have "Suc 0 < length (fst (comment_step st b))" using False step by simp
      from step_two [OF this] have o1: "st = State_maybe_comment" "b \<noteq> CHR ''/''" "b \<noteq> CHR ''*''"
        "o1 = [CHR ''/'', b]" "st1 = State_normal" using step by auto
      with True False have "room = 1" by simp
      then have res: "out = ''/''" "st' = State_normal" "rest' = b # bs" "\<not> eof"
        using 2(2) step o1 by (simp_all split: if_splits)
      have "b \<noteq> CHR 0x22" using 2(3) o1(1) by simp
      then have n: "comment_step State_normal b = ([b], State_normal)" using step_plain o1(2) by simp
      moreover have "no_slash_quote State_normal bs" using 2(3) step o1(5) by simp
      ultimately show ?thesis using step o1 res \<open>room = 1\<close> by (simp add: weight_def)
    next
      case fits: False
      obtain o2 where rest: "read_loop (room - length o1) st1 bs = (o2, st', rest', eof)" and out: "out = o1 @ o2"
        using 2(2) False step fits by (auto split: prod.splits)
      have nsq: "no_slash_quote st1 bs" using 2(3) step by simp
      note ih = 2(1) [OF False step [symmetric] fits rest nsq]
      have "weight st' rest' < weight st (b # bs)" if "\<not> eof"
      proof (cases "room - length o1 = 0")
        case True
        then have "st' = st1" "rest' = bs" using rest by (cases bs; simp)+
        then show ?thesis by (simp add: weight_def)
      next
        case False
        then have "weight st' rest' < weight st1 bs" using ih that by simp
        then show ?thesis by (simp add: weight_def split: if_splits)
      qed
      then show ?thesis using ih step out fits by auto
    qed
  qed
qed

lemma read_until_eof_spec:
  "no_slash_quote st rest \<Longrightarrow> \<forall>n \<in> set ns. 0 < n \<Longrightarrow> weight st rest < length ns \<Longrightarrow>
     read_until_eof ns st rest = Some (strip_from st rest)"
proof (induction ns arbitrary: st rest)
  case Nil
  then show ?case by simp
next
  case (Cons n ns)
  obtain out st' rest' eof where r: "read_loop n st rest = (out, st', rest', eof)" by (metis prod_cases4)
  note s = read_loop_spec [OF r Cons.prems(1)]
  show ?case
  proof (cases eof)
    case True
    then show ?thesis using s r by simp
  next
    case False
    then have "weight st' rest' < length ns" using s Cons.prems(2,3) by simp
    then show ?thesis using Cons.IH [of st' rest'] Cons.prems(2) s r False by simp
  qed
qed

section \<open>What a text with comments is\<close>

text \<open>
  The pieces a JSON text with comments consists of: a byte outside strings and comments, a string of
  plain bytes and escapes, a comment to the end of the line, and one between the two marks.
\<close>

datatype string_item = Plain_byte char | Escaped_byte char

datatype json_piece =
    Piece_byte char
  | Piece_string "string_item list"
  | Piece_line string
  | Piece_block string

fun render_item :: "string_item \<Rightarrow> string" where
  "render_item (Plain_byte c) = [c]"
| "render_item (Escaped_byte c) = [CHR 0x5C, c]"

fun render_piece :: "json_piece \<Rightarrow> string" where
  "render_piece (Piece_byte c) = [c]"
| "render_piece (Piece_string items) = CHR 0x22 # concat (map render_item items) @ [CHR 0x22]"
| "render_piece (Piece_line s) = ''//'' @ s"
| "render_piece (Piece_block s) = ''/*'' @ s @ ''*/''"

definition render_pieces :: "json_piece list \<Rightarrow> string" where
  "render_pieces ps = concat (map render_piece ps)"

fun is_comment :: "json_piece \<Rightarrow> bool" where
  "is_comment (Piece_line s) \<longleftrightarrow> True"
| "is_comment (Piece_block s) \<longleftrightarrow> True"
| "is_comment _ \<longleftrightarrow> False"

definition newline :: "char \<Rightarrow> bool" where
  "newline c \<longleftrightarrow> c = CHR 0x0A \<or> c = CHR 0x0D"

fun item_ok :: "string_item \<Rightarrow> bool" where
  "item_ok (Plain_byte c) \<longleftrightarrow> c \<noteq> CHR 0x22 \<and> c \<noteq> CHR 0x5C"
| "item_ok (Escaped_byte c) \<longleftrightarrow> True"

fun no_block_end :: "string \<Rightarrow> bool" where
  "no_block_end (c # d # s) \<longleftrightarrow> \<not> (c = CHR ''*'' \<and> d = CHR ''/'') \<and> no_block_end (d # s)"
| "no_block_end s \<longleftrightarrow> True"

fun piece_ok :: "json_piece \<Rightarrow> bool" where
  "piece_ok (Piece_byte c) \<longleftrightarrow> c \<noteq> CHR 0x22 \<and> c \<noteq> CHR ''/''"
| "piece_ok (Piece_string items) \<longleftrightarrow> list_all item_ok items"
| "piece_ok (Piece_line s) \<longleftrightarrow> list_all (\<lambda>c. \<not> newline c) s"
| "piece_ok (Piece_block s) \<longleftrightarrow> no_block_end s"

text \<open>A comment to the end of the line is followed by that end.\<close>

fun pieces_ok :: "json_piece list \<Rightarrow> bool" where
  "pieces_ok [] \<longleftrightarrow> True"
| "pieces_ok (p # ps) \<longleftrightarrow> piece_ok p \<and> pieces_ok ps
     \<and> (case p of
          Piece_line s \<Rightarrow> (case ps of [] \<Rightarrow> True | Piece_byte c # qs \<Rightarrow> newline c | _ \<Rightarrow> False)
        | _ \<Rightarrow> True)"

section \<open>Comments are removed, and only they\<close>

lemma strip_string:
  "list_all item_ok items \<Longrightarrow>
     strip_from State_in_string (concat (map render_item items) @ CHR 0x22 # rest)
       = concat (map render_item items) @ CHR 0x22 # strip_from State_normal rest
     \<and> no_slash_quote State_in_string (concat (map render_item items) @ CHR 0x22 # rest)
         = no_slash_quote State_normal rest"
proof (induction items)
  case Nil
  then show ?case by (simp add: comment_step_def)
next
  case (Cons i items)
  then show ?case by (cases i) (simp_all add: comment_step_def)
qed

lemma strip_line:
  "list_all (\<lambda>c. \<not> newline c) s \<Longrightarrow> (case rest of [] \<Rightarrow> True | c # cs \<Rightarrow> newline c) \<Longrightarrow>
     strip_from State_line_comment (s @ rest) = strip_from State_normal rest
     \<and> no_slash_quote State_line_comment (s @ rest) = no_slash_quote State_normal rest"
proof (induction s)
  case Nil
  then show ?case by (cases rest) (auto simp: comment_step_def newline_def)
qed (simp add: comment_step_def newline_def)

lemma strip_block:
  "no_block_end s \<Longrightarrow> strip_from State_block_comment (s @ ''*/'' @ rest) = strip_from State_normal rest
     \<and> no_slash_quote State_block_comment (s @ ''*/'' @ rest) = no_slash_quote State_normal rest"
  "no_block_end (CHR ''*'' # s) \<Longrightarrow>
     strip_from State_maybe_block_end (s @ ''*/'' @ rest) = strip_from State_normal rest
     \<and> no_slash_quote State_maybe_block_end (s @ ''*/'' @ rest) = no_slash_quote State_normal rest"
proof (induction s)
  case (Cons c s)
  { case 1
    then have "no_block_end s" by (cases s) simp_all
    then show ?case using Cons.IH 1 by (cases "c = CHR ''*''") (simp_all add: comment_step_def)
  next
    case 2
    then have "no_block_end s" by (cases s) simp_all
    then show ?case using Cons.IH 2 by (cases "c = CHR ''*''") (auto simp: comment_step_def) }
qed (simp_all add: comment_step_def)

lemma strip_pieces:
  "pieces_ok ps \<Longrightarrow>
     strip_from State_normal (render_pieces ps) = render_pieces (filter (\<lambda>p. \<not> is_comment p) ps)
     \<and> no_slash_quote State_normal (render_pieces ps)"
proof (induction ps)
  case Nil
  then show ?case by (simp add: render_pieces_def)
next
  case (Cons p ps)
  then have ih: "strip_from State_normal (render_pieces ps) = render_pieces (filter (\<lambda>p. \<not> is_comment p) ps)"
    "no_slash_quote State_normal (render_pieces ps)" by (auto split: json_piece.splits)
  have cons: "render_pieces (q # qs) = render_piece q @ render_pieces qs" for q qs
    by (simp add: render_pieces_def)
  show ?case
  proof (cases p)
    case (Piece_byte c)
    then show ?thesis using Cons.prems ih step_plain [of c] by (simp add: cons)
  next
    case (Piece_string items)
    then show ?thesis using Cons.prems ih strip_string [of items "render_pieces ps"]
      by (simp add: cons comment_step_def [of State_normal])
  next
    case (Piece_line s)
    have "case render_pieces ps of [] \<Rightarrow> True | c # cs \<Rightarrow> newline c"
    proof (cases ps)
      case (Cons q qs)
      then obtain c where "q = Piece_byte c" "newline c"
        using Cons.prems Piece_line by (cases q) simp_all
      then show ?thesis using Cons by (simp add: cons)
    qed (simp add: render_pieces_def)
    then show ?thesis using Cons.prems Piece_line ih strip_line [of s "render_pieces ps"]
      by (simp add: cons comment_step_def [of State_normal] comment_step_def [of State_maybe_comment])
  next
    case (Piece_block s)
    then show ?thesis using Cons.prems ih strip_block(1) [of s "render_pieces ps"]
      by (simp add: cons comment_step_def [of State_normal] comment_step_def [of State_maybe_comment])
  qed
qed

text \<open>C32. However the caller chunks its reads, the reader returns the JSON text without its comments:
  strings, with whatever looks like a comment inside them, and all the bytes outside comments come out as
  they are, and EOF is reached within two reads for each byte.\<close>

theorem comments_removed:
  assumes "pieces_ok ps" "\<forall>n \<in> set rooms. 0 < n" "2 * length (render_pieces ps) < length rooms"
  shows "strip_comments rooms (render_pieces ps) = Some (render_pieces (filter (\<lambda>p. \<not> is_comment p) ps))"
  using read_until_eof_spec [of State_normal "render_pieces ps" rooms] strip_pieces [OF assms(1)] assms(2,3)
  by (simp add: strip_comments_def weight_def)

definition sample_pieces :: "json_piece list" where
  "sample_pieces = [Piece_byte CHR ''{'', Piece_block ''a/**'', Piece_string [Plain_byte CHR ''/'', Plain_byte CHR ''/'',
     Escaped_byte CHR 0x22, Plain_byte CHR ''/''], Piece_byte CHR ''}'', Piece_line ''xy'']"

lemma comments_removed_witness:
  "strip_comments (replicate 60 1) (render_pieces sample_pieces)
     = Some (render_pieces (filter (\<lambda>p. \<not> is_comment p) sample_pieces))"
proof (rule comments_removed)
  show "pieces_ok sample_pieces" by (simp add: sample_pieces_def newline_def)
  show "\<forall>n \<in> set (replicate 60 1). 0 < (n::nat)" by simp
  have "length (render_pieces sample_pieces) = 21" by (simp add: sample_pieces_def render_pieces_def)
  then show "2 * length (render_pieces sample_pieces) < length (replicate 60 (1::nat))" by simp
qed

text \<open>Outside JSON the chunks matter: a lone slash before a quote starts a string only when they are
  read by different calls.\<close>

lemma chunks_matter:
  "strip_comments [1, 1, 1, 1, 1, 1, 1, 1] (''/'' @ [CHR 0x22] @ ''//x'') = Some (''/'' @ [CHR 0x22] @ ''//x'')"
  "strip_comments [9, 9] (''/'' @ [CHR 0x22] @ ''//x'') = Some (''/'' @ [CHR 0x22])"
  by (simp_all add: strip_comments_def comment_step_def)

end
