(* ===== verification/Criteria.thy ===== *)
theory Criteria
  imports GoStrings "HOL-Library.AList" "HOL-Library.Char_ord" "HOL-Library.List_Lexorder"
begin

unbundle bit_operations_syntax

text \<open>
  The rules of smart playlists (\<open>model/criteria/criteria.go\<close>, \<open>operators.go\<close>, \<open>fields.go\<close>):
  the table of fields, with the cells the Go map points to so that the sharing of an alias is kept,
  the expressions, the query each becomes, the joins it needs, its order and its limit.

  What the third-party query builder prints for a comparison, a conjunction or a sub-query is a
  parameter (\<open>squirrel\<close>); everything the code builds around it is written out. The values of a
  rule are what \<open>encoding/json\<close> decodes into \<open>any\<close>: a number is a whole one below \<open>10 ^ 21\<close>, or
  any other, by the text \<open>fmt\<close> prints for it. A Go map is the list of its entries in the order a
  loop over it takes them, and \<open>now\<close>, the time zone behind \<open>format_date\<close>, is the server's.
\<close>

section \<open>Values\<close>

datatype json_value =
    J_null
  | J_bool bool
  | J_num int
  | J_frac string
  | J_str string
  | J_arr "json_value list"
  | J_obj "(string \<times> json_value) list"

type_synonym rule_map = "(string \<times> json_value) list"

text \<open>\<open>fmt.Sprintf\<close> of such a value with \<open>%v\<close>, and with \<open>%s\<close>, which reports what is no string.\<close>

fun sprint_v :: "json_value \<Rightarrow> string" where
  "sprint_v J_null = ''<nil>''"
| "sprint_v (J_bool b) = (if b then ''true'' else ''false'')"
| "sprint_v (J_num n) = itoa n"
| "sprint_v (J_frac t) = t"
| "sprint_v (J_str s) = s"
| "sprint_v (J_arr vs) = ''['' @ join '' '' (map sprint_v vs) @ '']''"
| "sprint_v (J_obj kvs) =
     ''map['' @ join '' '' (map (\<lambda>(k, t). k @ '':'' @ t)
       (sort_key fst (map (\<lambda>(k, v). (k, sprint_v v)) kvs))) @ '']''"

fun sprint_s :: "bool \<Rightarrow> json_value \<Rightarrow> string" where
  "sprint_s nested J_null = (if nested then ''<nil>'' else ''%!s(<nil>)'')"
| "sprint_s nested (J_bool b) = ''%!s(bool='' @ (if b then ''true'' else ''false'') @ '')''"
| "sprint_s nested (J_num n) = ''%!s(float64='' @ itoa n @ '')''"
| "sprint_s nested (J_frac t) = ''%!s(float64='' @ t @ '')''"
| "sprint_s nested (J_str s) = s"
| "sprint_s nested (J_arr vs) = ''['' @ join '' '' (map (sprint_s True) vs) @ '']''"
| "sprint_s nested (J_obj kvs) =
     ''map['' @ join '' '' (map (\<lambda>(k, t). k @ '':'' @ t)
       (sort_key fst (map (\<lambda>(k, v). (k, sprint_s True v)) kvs))) @ '']''"

section \<open>The fields\<close>

type_synonym join_type = int

definition join_none :: join_type where "join_none = 0"
definition join_album_annotation :: join_type where "join_album_annotation = push_bit 1 1"
definition join_artist_annotation :: join_type where "join_artist_annotation = push_bit 2 1"

definition join_has :: "join_type \<Rightarrow> join_type \<Rightarrow> bool" where
  "join_has j other \<longleftrightarrow> j AND other \<noteq> 0"

lemmas join_defs = join_none_def join_album_annotation_def join_artist_annotation_def

record mapped_field =
  mf_field :: string
  mf_order :: string
  mf_is_role :: bool
  mf_is_tag :: bool
  mf_alias :: string
  mf_numeric :: bool
  mf_join :: join_type

definition column :: "string \<Rightarrow> mapped_field" where
  "column f = \<lparr>mf_field = f, mf_order = [], mf_is_role = False, mf_is_tag = False, mf_alias = [],
     mf_numeric = False, mf_join = join_none\<rparr>"

definition field_table :: "(string \<times> mapped_field) list" where
  "field_table =
    [(''title'', column ''media_file.title''),
     (''album'', column ''media_file.album''),
     (''hascoverart'', column ''media_file.has_cover_art''),
     (''tracknumber'', column ''media_file.track_number''),
     (''discnumber'', column ''media_file.disc_number''),
     (''year'', column ''media_file.year''),
     (''date'', (column ''media_file.date'')\<lparr>mf_alias := ''recordingdate''\<rparr>),
     (''originalyear'', column ''media_file.original_year''),
     (''originaldate'', column ''media_file.original_date''),
     (''releaseyear'', column ''media_file.release_year''),
     (''releasedate'', column ''media_file.release_date''),
     (''size'', column ''media_file.size''),
     (''compilation'', column ''media_file.compilation''),
     (''explicitstatus'', column ''media_file.explicit_status''),
     (''dateadded'', column ''media_file.created_at''),
     (''datemodified'', column ''media_file.updated_at''),
     (''discsubtitle'', column ''media_file.disc_subtitle''),
     (''comment'', column ''media_file.comment''),
     (''lyrics'', column ''media_file.lyrics''),
     (''sorttitle'', column ''media_file.sort_title''),
     (''sortalbum'', column ''media_file.sort_album_name''),
     (''sortartist'', column ''media_file.sort_artist_name''),
     (''sortalbumartist'', column ''media_file.sort_album_artist_name''),
     (''albumcomment'', column ''media_file.mbz_album_comment''),
     (''catalognumber'', column ''media_file.catalog_num''),
     (''filepath'', column ''media_file.path''),
     (''filetype'', column ''media_file.suffix''),
     (''duration'', column ''media_file.duration''),
     (''bitrate'', column ''media_file.bit_rate''),
     (''bitdepth'', column ''media_file.bit_depth''),
     (''bpm'', column ''media_file.bpm''),
     (''channels'', column ''media_file.channels''),
     (''loved'', column ''COALESCE(annotation.starred, false)''),
     (''dateloved'', column ''annotation.starred_at''),
     (''lastplayed'', column ''annotation.play_date''),
     (''daterated'', column ''annotation.rated_at''),
     (''playcount'', column ''COALESCE(annotation.play_count, 0)''),
     (''rating'', column ''COALESCE(annotation.rating, 0)''),
     (''averagerating'', (column ''media_file.average_rating'')\<lparr>mf_numeric := True\<rparr>),
     (''albumrating'', (column ''COALESCE(album_annotation.rating, 0)'')\<lparr>mf_join := join_album_annotation\<rparr>),
     (''albumloved'', (column ''COALESCE(album_annotation.starred, false)'')\<lparr>mf_join := join_album_annotation\<rparr>),
     (''albumplaycount'', (column ''COALESCE(album_annotation.play_count, 0)'')\<lparr>mf_join := join_album_annotation\<rparr>),
     (''albumlastplayed'', (column ''album_annotation.play_date'')\<lparr>mf_join := join_album_annotation\<rparr>),
     (''albumdateloved'', (column ''album_annotation.starred_at'')\<lparr>mf_join := join_album_annotation\<rparr>),
     (''albumdaterated'', (column ''album_annotation.rated_at'')\<lparr>mf_join := join_album_annotation\<rparr>),
     (''artistrating'', (column ''COALESCE(artist_annotation.rating, 0)'')\<lparr>mf_join := join_artist_annotation\<rparr>),
     (''artistloved'', (column ''COALESCE(artist_annotation.starred, false)'')\<lparr>mf_join := join_artist_annotation\<rparr>),
     (''artistplaycount'', (column ''COALESCE(artist_annotation.play_count, 0)'')\<lparr>mf_join := join_artist_annotation\<rparr>),
     (''artistlastplayed'', (column ''artist_annotation.play_date'')\<lparr>mf_join := join_artist_annotation\<rparr>),
     (''artistdateloved'', (column ''artist_annotation.starred_at'')\<lparr>mf_join := join_artist_annotation\<rparr>),
     (''artistdaterated'', (column ''artist_annotation.rated_at'')\<lparr>mf_join := join_artist_annotation\<rparr>),
     (''mbz_album_id'', column ''media_file.mbz_album_id''),
     (''mbz_album_artist_id'', column ''media_file.mbz_album_artist_id''),
     (''mbz_artist_id'', column ''media_file.mbz_artist_id''),
     (''mbz_recording_id'', column ''media_file.mbz_recording_id''),
     (''mbz_release_track_id'', column ''media_file.mbz_release_track_id''),
     (''mbz_release_group_id'', column ''media_file.mbz_release_group_id''),
     (''library_id'', (column ''media_file.library_id'')\<lparr>mf_numeric := True\<rparr>),
     (''albumtype'', (column ''releasetype'')\<lparr>mf_is_tag := True\<rparr>),
     (''random'', (column '''')\<lparr>mf_order := ''random()''\<rparr>),
     (''value'', column ''value'')]"

text \<open>The Go map holds pointers: two names may share a cell, and a write through one is seen by both.\<close>

record field_map =
  fm_names :: "(string \<times> nat) list"
  fm_cells :: "mapped_field list"

definition field_map_init :: field_map where
  "field_map_init = \<lparr>fm_names = zip (map fst field_table) [0..<length field_table],
     fm_cells = map snd field_table\<rparr>"

definition fm_lookup :: "field_map \<Rightarrow> string \<Rightarrow> mapped_field option" where
  "fm_lookup fm name = map_option ((!) (fm_cells fm)) (map_of (fm_names fm) name)"

definition fm_new :: "string \<Rightarrow> mapped_field \<Rightarrow> field_map \<Rightarrow> field_map" where
  "fm_new name mf fm = \<lparr>fm_names = fm_names fm @ [(name, length (fm_cells fm))], fm_cells = fm_cells fm @ [mf]\<rparr>"

definition add_role :: "string \<Rightarrow> field_map \<Rightarrow> field_map" where
  "add_role role fm =
     (let name = to_lower role in
      if fm_lookup fm name \<noteq> None then fm
      else fm_new name ((column name)\<lparr>mf_is_role := True\<rparr>) fm)"

definition add_roles :: "string list \<Rightarrow> field_map \<Rightarrow> field_map" where
  "add_roles roles fm = fold add_role roles fm"

definition add_tag_name :: "string \<Rightarrow> field_map \<Rightarrow> field_map" where
  "add_tag_name tag fm =
     (let name = to_lower tag in
      if fm_lookup fm name \<noteq> None then fm
      else (case find (\<lambda>(n, i). mf_alias (fm_cells fm ! i) = name) (fm_names fm) of
              Some (n, i) \<Rightarrow> fm\<lparr>fm_names := fm_names fm @ [(name, i)]\<rparr>
            | None \<Rightarrow> fm_new name ((column name)\<lparr>mf_is_tag := True\<rparr>) fm))"

definition add_tag_names :: "string list \<Rightarrow> field_map \<Rightarrow> field_map" where
  "add_tag_names tags fm = fold add_tag_name tags fm"

definition add_numeric_tag :: "string \<Rightarrow> field_map \<Rightarrow> field_map" where
  "add_numeric_tag tag fm =
     (let name = to_lower tag in
      case map_of (fm_names fm) name of
        Some i \<Rightarrow> fm\<lparr>fm_cells := (fm_cells fm)[i := (fm_cells fm ! i)\<lparr>mf_numeric := True\<rparr>]\<rparr>
      | None \<Rightarrow> fm_new name ((column name)\<lparr>mf_is_tag := True, mf_numeric := True\<rparr>) fm)"

definition add_numeric_tags :: "string list \<Rightarrow> field_map \<Rightarrow> field_map" where
  "add_numeric_tags tags fm = fold add_numeric_tag tags fm"

text \<open>The hook of \<open>model/tag_mappings.go\<close> that fills the table when the configuration is loaded.\<close>

definition field_map_of :: "string list \<Rightarrow> string list \<Rightarrow> string list \<Rightarrow> field_map" where
  "field_map_of roles tags numeric =
     add_numeric_tags numeric (add_tag_names tags (add_roles roles field_map_init))"

definition map_fields :: "field_map \<Rightarrow> rule_map \<Rightarrow> rule_map" where
  "map_fields fm expr =
     fold (\<lambda>(f, v) m.
       case fm_lookup fm (to_lower f) of
         Some dbf \<Rightarrow> if mf_field dbf \<noteq> [] then AList.update (mf_field dbf) v m else m
       | None \<Rightarrow> m) expr []"

definition is_tag_expr :: "field_map \<Rightarrow> rule_map \<Rightarrow> bool" where
  "is_tag_expr fm expr \<longleftrightarrow>
     list_ex (\<lambda>(f, v). case fm_lookup fm (to_lower f) of Some f2 \<Rightarrow> mf_is_tag f2 | None \<Rightarrow> False) expr"

definition is_role_expr :: "field_map \<Rightarrow> rule_map \<Rightarrow> bool" where
  "is_role_expr fm expr \<longleftrightarrow>
     list_ex (\<lambda>(f, v). case fm_lookup fm (to_lower f) of Some f2 \<Rightarrow> mf_is_role f2 | None \<Rightarrow> False) expr"

definition field_join_type :: "field_map \<Rightarrow> string \<Rightarrow> join_type" where
  "field_join_type fm name =
     (case fm_lookup fm (to_lower name) of Some f \<Rightarrow> mf_join f | None \<Rightarrow> join_none)"

section \<open>The expressions\<close>

datatype rule_op =
    Op_is | Op_is_not | Op_gt | Op_lt | Op_before | Op_after
  | Op_contains | Op_not_contains | Op_starts_with | Op_ends_with
  | Op_in_the_range | Op_in_the_last | Op_not_in_the_last
  | Op_in_playlist | Op_not_in_playlist

datatype expression =
    All "expression list"
  | Any "expression list"
  | Rule rule_op rule_map

datatype criteria_error =
    Err_invalid_range json_value
  | Err_invalid_number string
  | Err_no_playlist_id
  | Err_database string

text \<open>The values of the query builder the code makes, and what \<open>ToSql\<close> returns.\<close>

datatype sql_op = Sql_eq | Sql_not_eq | Sql_gt | Sql_lt | Sql_gt_or_eq | Sql_lt_or_eq | Sql_like | Sql_not_like

datatype sqlizer =
    Sql_compare sql_op rule_map
  | Sql_and "sqlizer list"
  | Sql_or "sqlizer list"
  | Sql_tag string sqlizer bool
  | Sql_role string sqlizer bool
  | Sql_playlist string bool
  | Sql_failed criteria_error

type_synonym sql_result = "string \<times> json_value list \<times> criteria_error option"

record squirrel =
  sql_compare :: "sql_op \<Rightarrow> rule_map \<Rightarrow> sql_result"
  sql_conj :: "bool \<Rightarrow> sql_result list \<Rightarrow> sql_result"
  sql_public_playlist :: "string \<Rightarrow> sql_result"

text \<open>\<open>mapExpr\<close>: the first entry, with the key \<open>value\<close>; setting a nil value with \<open>reflect\<close> deletes the key.\<close>

definition inner_map :: "json_value \<Rightarrow> rule_map" where
  "inner_map v = (if v = J_null then [] else [(''value'', v)])"

definition map_expr :: "(string \<Rightarrow> sqlizer \<Rightarrow> bool \<Rightarrow> sqlizer) \<Rightarrow> (rule_map \<Rightarrow> sqlizer) \<Rightarrow> rule_map \<Rightarrow> bool \<Rightarrow> sqlizer" where
  "map_expr cond mk expr negate =
     (case expr of
        [] \<Rightarrow> cond [] (mk []) negate
      | (k, v) # rest \<Rightarrow> cond k (mk (inner_map v)) negate)"

text \<open>The four operators that match text differ in the pattern; their keys are mapped first.\<close>

definition like_map :: "field_map \<Rightarrow> (string \<Rightarrow> string) \<Rightarrow> rule_map \<Rightarrow> rule_map" where
  "like_map fm pattern expr = map (\<lambda>(f, v). (f, J_str (pattern (sprint_s False v)))) (map_fields fm expr)"

definition like_sqlizer :: "field_map \<Rightarrow> (string \<Rightarrow> string) \<Rightarrow> bool \<Rightarrow> rule_map \<Rightarrow> sqlizer" where
  "like_sqlizer fm pattern negate expr =
     (let lk = like_map fm pattern expr in
      if is_role_expr fm expr then map_expr Sql_role (Sql_compare Sql_like) lk negate
      else if is_tag_expr fm expr then map_expr Sql_tag (Sql_compare Sql_like) lk negate
      else Sql_compare (if negate then Sql_not_like else Sql_like) lk)"

text \<open>
  \<open>Is\<close> and \<open>IsNot\<close>, \<open>Gt\<close> and \<open>Lt\<close>. \<open>Is\<close> and \<open>Gt\<close> are copied into the inner condition as they
  are, so their inner key \<open>value\<close> is mapped once more.
\<close>

definition is_sqlizer :: "field_map \<Rightarrow> rule_map \<Rightarrow> sqlizer" where
  "is_sqlizer fm expr =
     (let inner = (\<lambda>m. Sql_compare Sql_eq (map_fields fm m)) in
      if is_role_expr fm expr then map_expr Sql_role inner expr False
      else if is_tag_expr fm expr then map_expr Sql_tag inner expr False
      else Sql_compare Sql_eq (map_fields fm expr))"

definition is_not_sqlizer :: "field_map \<Rightarrow> rule_map \<Rightarrow> sqlizer" where
  "is_not_sqlizer fm expr =
     (if is_role_expr fm expr then map_expr Sql_role (Sql_compare Sql_eq) expr True
      else if is_tag_expr fm expr then map_expr Sql_tag (Sql_compare Sql_eq) expr True
      else Sql_compare Sql_not_eq (map_fields fm expr))"

definition gt_sqlizer :: "field_map \<Rightarrow> rule_map \<Rightarrow> sqlizer" where
  "gt_sqlizer fm expr =
     (if is_tag_expr fm expr then map_expr Sql_tag (\<lambda>m. Sql_compare Sql_gt (map_fields fm m)) expr False
      else Sql_compare Sql_gt (map_fields fm expr))"

definition lt_sqlizer :: "field_map \<Rightarrow> rule_map \<Rightarrow> sqlizer" where
  "lt_sqlizer fm expr =
     (if is_tag_expr fm expr then map_expr Sql_tag (Sql_compare Sql_lt) expr False
      else Sql_compare Sql_lt (map_fields fm expr))"

fun range_parts :: "rule_map \<Rightarrow> criteria_error + sqlizer list" where
  "range_parts [] = Inr []"
| "range_parts ((f, v) # rest) =
     (case v of
        J_arr [a, b] \<Rightarrow>
          (case range_parts rest of
             Inl e \<Rightarrow> Inl e
           | Inr parts \<Rightarrow> Inr (Sql_compare Sql_gt_or_eq [(f, a)] # Sql_compare Sql_lt_or_eq [(f, b)] # parts))
      | _ \<Rightarrow> Inl (Err_invalid_range v))"

definition range_sqlizer :: "field_map \<Rightarrow> rule_map \<Rightarrow> sqlizer" where
  "range_sqlizer fm expr =
     (case range_parts (map_fields fm expr) of Inl e \<Rightarrow> Sql_failed e | Inr parts \<Rightarrow> Sql_and parts)"

text \<open>The time of day in nanoseconds; a duration is an \<open>int64\<close> and both multiplications wrap.\<close>

definition signed64 :: "int \<Rightarrow> int" where
  "signed64 n = sint (word_of_int n :: 64 word)"

definition start_of_period :: "(int \<Rightarrow> string) \<Rightarrow> int \<Rightarrow> int \<Rightarrow> string" where
  "start_of_period format_date num_days now =
     format_date (now + signed64 (signed64 (- 24 * num_days) * 3600000000000))"

definition in_period :: "field_map \<Rightarrow> (int \<Rightarrow> string) \<Rightarrow> int \<Rightarrow> rule_map \<Rightarrow> bool \<Rightarrow> sqlizer" where
  "in_period fm format_date now m negate =
     (let (field, val) = (case map_fields fm m of [] \<Rightarrow> ([], J_null) | fv # rest \<Rightarrow> fv) in
      case parse_int64 10 (sprint_v val) of
        None \<Rightarrow> Sql_failed (Err_invalid_number (sprint_v val))
      | Some v \<Rightarrow>
          (let first_date = J_str (start_of_period format_date v now) in
           if negate then Sql_or [Sql_compare Sql_lt [(field, first_date)], Sql_compare Sql_eq [(field, J_null)]]
           else Sql_compare Sql_gt [(field, first_date)]))"

definition in_list :: "rule_map \<Rightarrow> bool \<Rightarrow> sqlizer" where
  "in_list m negate =
     (case map_of m ''id'' of Some (J_str playlist) \<Rightarrow> Sql_playlist playlist negate | _ \<Rightarrow> Sql_failed Err_no_playlist_id)"

definition rule_sqlizer :: "field_map \<Rightarrow> (int \<Rightarrow> string) \<Rightarrow> int \<Rightarrow> rule_op \<Rightarrow> rule_map \<Rightarrow> sqlizer" where
  "rule_sqlizer fm format_date now op m =
     (case op of
        Op_is \<Rightarrow> is_sqlizer fm m
      | Op_is_not \<Rightarrow> is_not_sqlizer fm m
      | Op_gt \<Rightarrow> gt_sqlizer fm m
      | Op_lt \<Rightarrow> lt_sqlizer fm m
      | Op_before \<Rightarrow> lt_sqlizer fm m
      | Op_after \<Rightarrow> gt_sqlizer fm m
      | Op_contains \<Rightarrow> like_sqlizer fm (\<lambda>s. ''%'' @ s @ ''%'') False m
      | Op_not_contains \<Rightarrow> like_sqlizer fm (\<lambda>s. ''%'' @ s @ ''%'') True m
      | Op_starts_with \<Rightarrow> like_sqlizer fm (\<lambda>s. s @ ''%'') False m
      | Op_ends_with \<Rightarrow> like_sqlizer fm (\<lambda>s. ''%'' @ s) False m
      | Op_in_the_range \<Rightarrow> range_sqlizer fm m
      | Op_in_the_last \<Rightarrow> in_period fm format_date now m False
      | Op_not_in_the_last \<Rightarrow> in_period fm format_date now m True
      | Op_in_playlist \<Rightarrow> in_list m False
      | Op_not_in_playlist \<Rightarrow> in_list m True)"

fun to_sqlizer :: "field_map \<Rightarrow> (int \<Rightarrow> string) \<Rightarrow> int \<Rightarrow> expression \<Rightarrow> sqlizer" where
  "to_sqlizer fm fd now (All es) = Sql_and (map (to_sqlizer fm fd now) es)"
| "to_sqlizer fm fd now (Any es) = Sql_or (map (to_sqlizer fm fd now) es)"
| "to_sqlizer fm fd now (Rule op m) = rule_sqlizer fm fd now op m"

text \<open>\<open>tagCond.ToSql\<close> and \<open>roleCond.ToSql\<close>: the name is looked up as it is written.\<close>

definition tag_sql :: "field_map \<Rightarrow> string \<Rightarrow> sql_result \<Rightarrow> bool \<Rightarrow> sql_result" where
  "tag_sql fm tag r negate =
     (case r of (cond, args, err) \<Rightarrow>
        let tag_name = (case fm_lookup fm tag of
              Some mf \<Rightarrow> if mf_field mf \<noteq> [] then mf_field mf else tag | None \<Rightarrow> tag);
            cond = (case fm_lookup fm tag of
              Some mf \<Rightarrow> if mf_numeric mf then replace_all ''value'' ''CAST(value AS REAL)'' cond else cond | None \<Rightarrow> cond);
            text = ''exists (select 1 from json_tree(media_file.tags, '' @ [CHR 0x27] @ ''$.'' @ tag_name
              @ [CHR 0x27] @ '') where key='' @ [CHR 0x27] @ ''value'' @ [CHR 0x27] @ '' and '' @ cond @ '')''
        in ((if negate then ''not '' @ text else text), args, err))"

definition role_sql :: "string \<Rightarrow> sql_result \<Rightarrow> bool \<Rightarrow> sql_result" where
  "role_sql role r negate =
     (case r of (cond, args, err) \<Rightarrow>
        let text = ''exists (select 1 from json_tree(media_file.participants, '' @ [CHR 0x27] @ ''$.'' @ role
              @ [CHR 0x27] @ '') where key='' @ [CHR 0x27] @ ''name'' @ [CHR 0x27] @ '' and '' @ cond @ '')''
        in ((if negate then ''not '' @ text else text), args, err))"

definition playlist_sql :: "sql_result \<Rightarrow> bool \<Rightarrow> sql_result" where
  "playlist_sql r negate =
     (case r of (text, args, err) \<Rightarrow>
        if err \<noteq> None then ([], [], err)
        else (''media_file.id '' @ (if negate then ''NOT IN ('' else ''IN ('') @ text @ '')'', args, None))"

fun print_sql :: "squirrel \<Rightarrow> field_map \<Rightarrow> sqlizer \<Rightarrow> sql_result" where
  "print_sql sqp fm (Sql_compare op m) = sql_compare sqp op m"
| "print_sql sqp fm (Sql_and es) = sql_conj sqp True (map (print_sql sqp fm) es)"
| "print_sql sqp fm (Sql_or es) = sql_conj sqp False (map (print_sql sqp fm) es)"
| "print_sql sqp fm (Sql_tag tag e negate) = tag_sql fm tag (print_sql sqp fm e) negate"
| "print_sql sqp fm (Sql_role role e negate) = role_sql role (print_sql sqp fm e) negate"
| "print_sql sqp fm (Sql_playlist p negate) = playlist_sql (sql_public_playlist sqp p) negate"
| "print_sql sqp fm (Sql_failed e) = ([], [], Some e)"

definition expression_sql :: "squirrel \<Rightarrow> field_map \<Rightarrow> (int \<Rightarrow> string) \<Rightarrow> int \<Rightarrow> expression \<Rightarrow> sql_result" where
  "expression_sql sqp fm fd now e = print_sql sqp fm (to_sqlizer fm fd now e)"
section \<open>The criteria\<close>

record criteria =
  c_expression :: "expression option"
  c_sort :: string
  c_order :: string
  c_limit :: int
  c_limit_percent :: int
  c_offset :: int

text \<open>\<open>EffectiveLimit\<close>: the product is of 64-bit integers and the quotient truncates.\<close>

definition effective_limit :: "criteria \<Rightarrow> int \<Rightarrow> int" where
  "effective_limit c total_count =
     (if 0 < c_limit c then c_limit c
      else if 0 < c_limit_percent c \<and> c_limit_percent c \<le> 100 then
        (if total_count \<le> 0 then 0
         else (let result = (let p = signed64 (total_count * c_limit_percent c) in
                 if p < 0 then - ((- p) div 100) else p div 100) in
               if result < 1 then 1 else result))
      else 0)"

definition is_percentage_limit :: "criteria \<Rightarrow> bool" where
  "is_percentage_limit c \<longleftrightarrow> c_limit c = 0 \<and> 0 < c_limit_percent c \<and> c_limit_percent c \<le> 100"

definition order_of :: "criteria \<Rightarrow> string" where
  "order_of c =
     (let order = to_lower (trim_space (c_order c)) in
      if order \<noteq> [] \<and> order \<noteq> ''asc'' \<and> order \<noteq> ''desc'' then [] else order)"

definition sort_column :: "string \<Rightarrow> mapped_field \<Rightarrow> string" where
  "sort_column sort_field f =
     (let mapped =
        (if mf_order f \<noteq> [] then mf_order f
         else if mf_is_tag f then
           ''COALESCE(json_extract(media_file.tags, '' @ [CHR 0x27] @ ''$.''
             @ (if mf_field f \<noteq> [] then mf_field f else sort_field)
             @ ''[0].value'' @ [CHR 0x27] @ ''), '' @ [CHR 0x27, CHR 0x27] @ '')''
         else if mf_is_role f then
           ''COALESCE(json_extract(media_file.participants, '' @ [CHR 0x27] @ ''$.'' @ sort_field
             @ ''[0].name'' @ [CHR 0x27] @ ''), '' @ [CHR 0x27, CHR 0x27] @ '')''
         else mf_field f)
      in if mf_numeric f then ''CAST('' @ mapped @ '' AS REAL)'' else mapped)"

text \<open>A part of the sort list: its field and whether it is descending; \<open>None\<close> when it is skipped.\<close>

definition parse_sort_part :: "string \<Rightarrow> (string \<times> bool) option" where
  "parse_sort_part part =
     (let p = trim_space part in
      if p = [] then None
      else if has_prefix p ''+'' \<or> has_prefix p ''-'' then
        Some (to_lower (trim_space (tl p)), has_prefix p ''-'')
      else Some (to_lower p, False))"

definition sort_part :: "field_map \<Rightarrow> string \<Rightarrow> string \<Rightarrow> string list" where
  "sort_part fm order part =
     (case parse_sort_part part of
        None \<Rightarrow> []
      | Some (sort_field, desc) \<Rightarrow>
          (case fm_lookup fm sort_field of
             None \<Rightarrow> []
           | Some f \<Rightarrow>
               [sort_column sort_field f @ '' ''
                @ (if (if order = ''desc'' then \<not> desc else desc) then ''desc'' else ''asc'')]))"

definition order_by :: "field_map \<Rightarrow> criteria \<Rightarrow> string" where
  "order_by fm c =
     (let parts = split_on CHR '','' (if c_sort c = [] then ''title'' else c_sort c) in
      join '', '' (concat (map (sort_part fm (order_of c)) parts)))"

fun extract_join_types :: "field_map \<Rightarrow> expression \<Rightarrow> join_type" where
  "extract_join_types fm (All es) = foldl (\<lambda>r e. r OR e) join_none (map (extract_join_types fm) es)"
| "extract_join_types fm (Any es) = foldl (\<lambda>r e. r OR e) join_none (map (extract_join_types fm) es)"
| "extract_join_types fm (Rule op m) = foldl (\<lambda>r (k, v). r OR field_join_type fm k) join_none m"

definition expression_joins :: "field_map \<Rightarrow> criteria \<Rightarrow> join_type" where
  "expression_joins fm c =
     (case c_expression c of None \<Rightarrow> join_none | Some e \<Rightarrow> extract_join_types fm e)"

definition sort_join_type :: "field_map \<Rightarrow> string \<Rightarrow> join_type" where
  "sort_join_type fm part =
     field_join_type fm (trim_space (trim_left (\<lambda>ch. ch = CHR ''+'' \<or> ch = CHR ''-'') (trim_space part)))"

definition required_joins :: "field_map \<Rightarrow> criteria \<Rightarrow> join_type" where
  "required_joins fm c =
     (let result = expression_joins fm c in
      if c_sort c = [] then result
      else foldl (\<lambda>r p. r OR sort_join_type fm p) result (split_on CHR '','' (c_sort c)))"

text \<open>
  \<open>extractPlaylistIds\<close>, and \<open>ChildPlaylistIds\<close>: its type assertion panics (\<open>None\<close>) on an
  expression that is neither \<open>All\<close> nor \<open>Any\<close>.
\<close>

fun extract_playlist_ids :: "expression \<Rightarrow> string list" where
  "extract_playlist_ids (Any es) = concat (map extract_playlist_ids es)"
| "extract_playlist_ids (All es) = concat (map extract_playlist_ids es)"
| "extract_playlist_ids (Rule op m) =
     (if op = Op_in_playlist \<or> op = Op_not_in_playlist then
        (case map_of m ''id'' of Some (J_str i) \<Rightarrow> [i] | _ \<Rightarrow> [])
      else [])"

definition child_playlist_ids :: "criteria \<Rightarrow> string list option" where
  "child_playlist_ids c =
     (case c_expression c of
        None \<Rightarrow> Some []
      | Some (Rule op m) \<Rightarrow> None
      | Some e \<Rightarrow> Some (extract_playlist_ids e))"

end
