(* ===== verification/CriteriaRules.thy ===== *)
theory CriteriaRules
  imports Criteria
begin

text \<open>
  What the rules of smart playlists guarantee: the table of fields keeps its entries while roles and
  tags are added, every annotation table a query reads is joined, a negated rule is the negation of the
  plain one, and the limit that is in effect.
\<close>

section \<open>Masks and substrings\<close>

lemma join_has_none [simp]: "\<not> join_has join_none b"
  by (simp add: join_has_def join_none_def)

lemma join_has_or [simp]: "join_has (a OR b) c \<longleftrightarrow> join_has a c \<or> join_has b c"
  by (simp add: join_has_def and.commute [of _ c] bit.conj_disj_distrib or_eq_0_iff)

lemma join_has_foldl: "join_has (foldl (\<lambda>r x. r OR f x) r xs) c \<longleftrightarrow> join_has r c \<or> (\<exists>x \<in> set xs. join_has (f x) c)"
  by (induction xs arbitrary: r) auto

lemma has_prefix_cut: "c \<notin> set t \<Longrightarrow> has_prefix (a @ c # b) t \<longleftrightarrow> has_prefix a t"
  by (induction a t rule: has_prefix.induct) auto

lemma contains_cut:
  "c \<notin> set t \<Longrightarrow> t \<noteq> [] \<Longrightarrow> contains_str (a @ c # b) t \<longleftrightarrow> contains_str a t \<or> contains_str b t"
proof (induction a)
  case Nil
  then show ?case by (cases t) auto
next
  case (Cons x a)
  then show ?case using has_prefix_cut [of c t "x # a" b] by auto
qed

section \<open>The table of fields\<close>

text \<open>Every name has its cell, and a cell that reads a joined table asks for the join.\<close>

definition album_table :: string where "album_table = ''album_annotation''"
definition artist_table :: string where "artist_table = ''artist_annotation''"

definition cell_ok :: "mapped_field \<Rightarrow> bool" where
  "cell_ok mf \<longleftrightarrow>
     (contains_str (mf_field mf) album_table \<or> contains_str (mf_order mf) album_table
        \<longrightarrow> join_has (mf_join mf) join_album_annotation)
     \<and> (contains_str (mf_field mf) artist_table \<or> contains_str (mf_order mf) artist_table
        \<longrightarrow> join_has (mf_join mf) join_artist_annotation)"

definition fm_inv :: "(string \<Rightarrow> mapped_field \<Rightarrow> bool) \<Rightarrow> field_map \<Rightarrow> bool" where
  "fm_inv P fm \<longleftrightarrow> (\<forall>(n, i) \<in> set (fm_names fm). i < length (fm_cells fm) \<and> P n (fm_cells fm ! i))"

definition no_table :: "string \<Rightarrow> bool" where
  "no_table s \<longleftrightarrow> \<not> contains_str (to_lower s) album_table \<and> \<not> contains_str (to_lower s) artist_table"

text \<open>A property of entries that a new entry for \<open>s\<close> has and the numeric flag does not touch.\<close>

definition cell_prop :: "(string \<Rightarrow> mapped_field \<Rightarrow> bool) \<Rightarrow> string \<Rightarrow> bool" where
  "cell_prop P s \<longleftrightarrow>
     (\<forall>n mf. P n mf \<longrightarrow> (mf_alias mf = to_lower s \<longrightarrow> P (to_lower s) mf) \<and> (\<forall>b. P n (mf\<lparr>mf_numeric := b\<rparr>)))
     \<and> (\<forall>r t b. P (to_lower s) ((column (to_lower s))\<lparr>mf_is_role := r, mf_is_tag := t, mf_numeric := b\<rparr>))"

lemma cell_propD:
  "cell_prop P s \<Longrightarrow> P n mf \<Longrightarrow> P n (mf\<lparr>mf_numeric := b\<rparr>)"
  "cell_prop P s \<Longrightarrow> P n mf \<Longrightarrow> mf_alias mf = to_lower s \<Longrightarrow> P (to_lower s) mf"
  "cell_prop P s \<Longrightarrow> P (to_lower s) ((column (to_lower s))\<lparr>mf_is_role := r, mf_is_tag := t, mf_numeric := b\<rparr>)"
  by (simp_all add: cell_prop_def)

lemma cell_prop_new:
  "cell_prop P s \<Longrightarrow> P (to_lower s) ((column (to_lower s))\<lparr>mf_is_role := True\<rparr>)"
  "cell_prop P s \<Longrightarrow> P (to_lower s) ((column (to_lower s))\<lparr>mf_is_tag := True\<rparr>)"
  "cell_prop P s \<Longrightarrow> P (to_lower s) ((column (to_lower s))\<lparr>mf_is_tag := True, mf_numeric := True\<rparr>)"
  using cell_propD(3) [of P s False False True] cell_propD(3) [of P s False True False]
    cell_propD(3) [of P s True True False]
  by (simp_all add: column_def)

lemma fm_inv_new: "fm_inv P fm \<Longrightarrow> P name mf \<Longrightarrow> fm_inv P (fm_new name mf fm)"
  by (auto simp: fm_inv_def fm_new_def less_SucI nth_append)

lemma fm_invD: "fm_inv P fm \<Longrightarrow> (n, i) \<in> set (fm_names fm) \<Longrightarrow> i < length (fm_cells fm) \<and> P n (fm_cells fm ! i)"
  by (auto simp: fm_inv_def)

lemma fm_inv_index:
  "fm_inv P fm \<Longrightarrow> map_of (fm_names fm) name = Some i \<Longrightarrow> i < length (fm_cells fm) \<and> P name (fm_cells fm ! i)"
  by (auto dest!: map_of_SomeD fm_invD)

lemma fm_inv_add_role: "fm_inv P fm \<Longrightarrow> cell_prop P s \<Longrightarrow> fm_inv P (add_role s fm)"
  by (simp add: add_role_def Let_def fm_inv_new cell_prop_new)

lemma fm_inv_add_tag_name: "fm_inv P fm \<Longrightarrow> cell_prop P s \<Longrightarrow> fm_inv P (add_tag_name s fm)"
proof (cases "find (\<lambda>(n, i). mf_alias (fm_cells fm ! i) = to_lower s) (fm_names fm)")
  case None
  assume "fm_inv P fm" "cell_prop P s"
  then show ?thesis using None by (simp add: add_tag_name_def Let_def fm_inv_new cell_prop_new)
next
  case (Some ni)
  assume inv: "fm_inv P fm" and p: "cell_prop P s"
  obtain n i where ni: "ni = (n, i)" by fastforce
  have al: "mf_alias (fm_cells fm ! i) = to_lower s" using Some ni unfolding find_Some_iff by (metis (lifting) case_prod_conv)
  have "(n, i) \<in> set (fm_names fm)" using Some ni unfolding find_Some_iff by (metis nth_mem)
  with inv have "i < length (fm_cells fm) \<and> P n (fm_cells fm ! i)" by (rule fm_invD)
  then have "i < length (fm_cells fm) \<and> P (to_lower s) (fm_cells fm ! i)" using cell_propD(2) [OF p] al by blast
  then show ?thesis using Some inv ni by (simp add: add_tag_name_def Let_def fm_inv_def)
qed

lemma fm_inv_add_numeric_tag: "fm_inv P fm \<Longrightarrow> cell_prop P s \<Longrightarrow> fm_inv P (add_numeric_tag s fm)"
proof (cases "map_of (fm_names fm) (to_lower s)")
  case None
  assume "fm_inv P fm" "cell_prop P s"
  then show ?thesis using None by (simp add: add_numeric_tag_def Let_def fm_inv_new cell_prop_new)
next
  case (Some i)
  assume ok: "fm_inv P fm" "cell_prop P s"
  have "b < length (fm_cells fm) \<and> P a ((fm_cells fm)[i := (fm_cells fm ! i)\<lparr>mf_numeric := True\<rparr>] ! b)"
    if "(a, b) \<in> set (fm_names fm)" for a b
    using fm_invD [OF ok(1) that] cell_propD(1) [OF ok(2)] by (cases "b = i") auto
  then show ?thesis using Some by (auto simp: add_numeric_tag_def Let_def fm_inv_def)
qed

lemma fold_keeps: "P s \<Longrightarrow> (\<And>x s. x \<in> set xs \<Longrightarrow> P s \<Longrightarrow> P (f x s)) \<Longrightarrow> P (fold f xs s)"
  by (induction xs arbitrary: s) auto

lemma fm_inv_field_map_of:
  "fm_inv P field_map_init \<Longrightarrow> \<forall>s \<in> set (roles @ tags @ numeric). cell_prop P s \<Longrightarrow>
     fm_inv P (field_map_of roles tags numeric)"
  unfolding field_map_of_def add_roles_def add_tag_names_def add_numeric_tags_def
  by (intro fold_keeps [of "fm_inv P"]) (auto intro: fm_inv_add_role fm_inv_add_tag_name fm_inv_add_numeric_tag)

lemma fm_inv_init:
  assumes "list_all (\<lambda>(n, mf). P n mf) field_table"
  shows "fm_inv P field_map_init"
proof -
  have "P (fst (field_table ! i)) (snd (field_table ! i))" if "i < length field_table" for i
    using assms that by (simp add: list_all_length case_prod_beta)
  then show ?thesis by (auto simp: fm_inv_def field_map_init_def set_zip)
qed

definition is_sign :: "char \<Rightarrow> bool" where
  "is_sign ch \<longleftrightarrow> ch = CHR ''+'' \<or> ch = CHR ''-''"

definition entry_ok :: "string \<Rightarrow> mapped_field \<Rightarrow> bool" where
  "entry_ok n mf \<longleftrightarrow> cell_ok mf \<and> \<not> contains_str n album_table \<and> \<not> contains_str n artist_table
     \<and> (mf_join mf \<noteq> join_none \<longrightarrow> mf_alias mf = [] \<and> (n = [] \<or> \<not> is_sign (hd n)))"

lemma entry_ok_field_map_of:
  assumes "\<forall>s \<in> set (roles @ tags @ numeric). no_table s"
  shows "fm_inv entry_ok (field_map_of roles tags numeric)"
proof (rule fm_inv_field_map_of)
  have "list_all (\<lambda>(n, mf). entry_ok n mf) field_table" by code_simp
  then show "fm_inv entry_ok field_map_init" by (rule fm_inv_init)
  show "\<forall>s \<in> set (roles @ tags @ numeric). cell_prop entry_ok s"
    using assms by (auto simp: cell_prop_def entry_ok_def cell_ok_def column_def no_table_def album_table_def artist_table_def)
qed

lemma lookup_inv: "fm_inv P fm \<Longrightarrow> fm_lookup fm name = Some mf \<Longrightarrow> P name mf"
  by (auto simp: fm_lookup_def dest: fm_inv_index)

text \<open>An entry of the table stays what it is; only the numeric flag may be set.\<close>

definition keeps_names :: "field_map \<Rightarrow> field_map \<Rightarrow> bool" where
  "keeps_names fm fm' \<longleftrightarrow> (\<forall>name mf. fm_lookup fm name = Some mf \<longrightarrow>
     (\<exists>mf'. fm_lookup fm' name = Some mf' \<and> mf'\<lparr>mf_numeric := True\<rparr> = mf\<lparr>mf_numeric := True\<rparr>))"

abbreviation fm_closed :: "field_map \<Rightarrow> bool" where
  "fm_closed \<equiv> fm_inv (\<lambda>n mf. True)"

lemma keeps_names_refl: "keeps_names fm fm"
  by (simp add: keeps_names_def)

lemma keeps_names_trans: "keeps_names a b \<Longrightarrow> keeps_names b c \<Longrightarrow> keeps_names a c"
  unfolding keeps_names_def by metis

lemma keeps_names_append:
  "fm_closed fm \<Longrightarrow> fm_lookup fm name = Some mf \<Longrightarrow>
     fm_lookup \<lparr>fm_names = fm_names fm @ ns, fm_cells = fm_cells fm @ cs\<rparr> name = Some mf"
  by (auto simp: fm_lookup_def nth_append dest: fm_inv_index split: option.split)

lemma keeps_names_new: "fm_closed fm \<Longrightarrow> keeps_names fm (fm_new name mf fm)"
  using keeps_names_refl [of fm] keeps_names_append [of fm] unfolding keeps_names_def fm_new_def by metis

lemma keeps_names_role: "fm_closed fm \<Longrightarrow> keeps_names fm (add_role s fm)"
  by (simp add: add_role_def Let_def keeps_names_new keeps_names_refl)

lemma keeps_names_tag: "fm_closed fm \<Longrightarrow> keeps_names fm (add_tag_name s fm)"
proof -
  assume c: "fm_closed fm"
  have "keeps_names fm (fm\<lparr>fm_names := fm_names fm @ [ni]\<rparr>)" for ni
    using keeps_names_refl [of fm] keeps_names_append [OF c, of _ _ "[ni]" "[]"]
    unfolding keeps_names_def by (simp add: fm_lookup_def) metis
  then show ?thesis using c by (auto simp: add_tag_name_def Let_def keeps_names_new keeps_names_refl split: option.split)
qed

lemma keeps_names_numeric: "fm_closed fm \<Longrightarrow> keeps_names fm (add_numeric_tag s fm)"
proof (cases "map_of (fm_names fm) (to_lower s)")
  case None
  assume "fm_closed fm"
  then show ?thesis using None by (simp add: add_numeric_tag_def Let_def keeps_names_new)
next
  case (Some i)
  assume c: "fm_closed fm"
  have "\<exists>mf'. fm_lookup (add_numeric_tag s fm) name = Some mf' \<and> mf'\<lparr>mf_numeric := True\<rparr> = mf\<lparr>mf_numeric := True\<rparr>"
    if l: "fm_lookup fm name = Some mf" for name mf
  proof -
    obtain j where j: "map_of (fm_names fm) name = Some j" "mf = fm_cells fm ! j"
      using l by (auto simp: fm_lookup_def)
    show ?thesis using Some j fm_inv_index [OF c j(1)]
      by (cases "i = j") (auto simp: add_numeric_tag_def fm_lookup_def)
  qed
  then show ?thesis by (simp add: keeps_names_def)
qed

lemma fold_keeps_names:
  assumes "fm_closed fm" "\<And>s fm. fm_closed fm \<Longrightarrow> fm_closed (f s fm) \<and> keeps_names fm (f s fm)"
  shows "fm_closed (fold f ss fm) \<and> keeps_names fm (fold f ss fm)"
  using assms(1)
proof (induction ss arbitrary: fm)
  case (Cons s ss)
  then have "fm_closed (f s fm)" "keeps_names fm (f s fm)" using assms(2) by blast+
  then show ?case using Cons.IH [of "f s fm"] keeps_names_trans by fastforce
qed (simp add: keeps_names_refl)

lemma keeps_names_field_map_of: "keeps_names field_map_init (field_map_of roles tags numeric)"
proof -
  have p: "cell_prop (\<lambda>n mf. True) s" for s by (simp add: cell_prop_def)
  have r: "fm_closed (add_role s fm) \<and> keeps_names fm (add_role s fm)" if "fm_closed fm" for s fm
    using that p fm_inv_add_role keeps_names_role by blast
  have t: "fm_closed (add_tag_name s fm) \<and> keeps_names fm (add_tag_name s fm)" if "fm_closed fm" for s fm
    using that p fm_inv_add_tag_name keeps_names_tag by blast
  have n: "fm_closed (add_numeric_tag s fm) \<and> keeps_names fm (add_numeric_tag s fm)" if "fm_closed fm" for s fm
    using that p fm_inv_add_numeric_tag keeps_names_numeric by blast
  have i: "fm_closed field_map_init" by (rule fm_inv_init) (simp add: list_all_iff case_prod_beta)
  note a = fold_keeps_names [of field_map_init add_role roles, OF i r]
  note b = fold_keeps_names [of "add_roles roles field_map_init" add_tag_name tags, OF _ t]
  note c = fold_keeps_names [of "add_tag_names tags (add_roles roles field_map_init)" add_numeric_tag numeric, OF _ n]
  show ?thesis using a b c keeps_names_trans
    unfolding field_map_of_def add_roles_def add_tag_names_def add_numeric_tags_def by meson
qed

section \<open>Every table a query reads is joined\<close>

text \<open>The columns a condition hands to the query builder.\<close>

fun sql_columns :: "sqlizer \<Rightarrow> string list" where
  "sql_columns (Sql_compare op m) = map fst m"
| "sql_columns (Sql_and es) = concat (map sql_columns es)"
| "sql_columns (Sql_or es) = concat (map sql_columns es)"
| "sql_columns (Sql_tag tag e negate) = sql_columns e"
| "sql_columns (Sql_role role e negate) = sql_columns e"
| "sql_columns (Sql_playlist p negate) = []"
| "sql_columns (Sql_failed e) = []"

lemma map_fields_keys:
  "col \<in> set (map fst (map_fields fm m)) \<Longrightarrow>
     \<exists>f mf. f \<in> set (map fst m) \<and> fm_lookup fm (to_lower f) = Some mf \<and> mf_field mf = col"
proof -
  have "col \<in> set (map fst (fold (\<lambda>(f, v) m. case fm_lookup fm (to_lower f) of
         Some dbf \<Rightarrow> if mf_field dbf \<noteq> [] then AList.update (mf_field dbf) v m else m
       | None \<Rightarrow> m) m acc)) \<Longrightarrow> col \<in> set (map fst acc) \<or>
     (\<exists>f mf. f \<in> set (map fst m) \<and> fm_lookup fm (to_lower f) = Some mf \<and> mf_field mf = col)" for acc
  proof (induction m arbitrary: acc)
    case (Cons fv m)
    obtain f v where fv: "fv = (f, v)" by fastforce
    show ?case
    proof (cases "fm_lookup fm (to_lower f)")
      case (Some mf)
      show ?thesis
      proof (cases "mf_field mf = []")
        case False
        then have "col \<in> insert (mf_field mf) (set (map fst acc)) \<or>
            (\<exists>f mf. f \<in> set (map fst m) \<and> fm_lookup fm (to_lower f) = Some mf \<and> mf_field mf = col)"
          using Cons.IH [of "AList.update (mf_field mf) v acc"] Cons.prems Some fv
          by (simp add: update_keys del: set_map) (auto split: if_splits)
        then show ?thesis using Some fv by auto
      qed (use Cons.IH [of acc] Cons.prems fv Some in auto)
    qed (use Cons.IH [of acc] Cons.prems fv in auto)
  qed simp
  then show "col \<in> set (map fst (map_fields fm m)) \<Longrightarrow> ?thesis" by (fastforce simp: map_fields_def)
qed

definition value_column :: "field_map \<Rightarrow> bool" where
  "value_column fm \<longleftrightarrow> (\<exists>mf. fm_lookup fm ''value'' = Some mf \<and> mf_field mf = ''value'')"

lemma value_column_field_map_of: "value_column (field_map_of roles tags numeric)"
proof -
  have "fm_lookup field_map_init ''value'' = Some (column ''value'')" by code_simp
  then obtain mf where "fm_lookup (field_map_of roles tags numeric) ''value'' = Some mf"
    "mf\<lparr>mf_numeric := True\<rparr> = (column ''value'')\<lparr>mf_numeric := True\<rparr>"
    using keeps_names_field_map_of unfolding keeps_names_def by blast
  then show ?thesis unfolding value_column_def column_def by (cases mf) simp
qed

lemma to_lower_value [simp]: "to_lower ''value'' = ''value''"
  by code_simp

lemma map_fields_inner: "value_column fm \<Longrightarrow> map_fields fm (inner_map v) = inner_map v"
  by (auto simp: map_fields_def inner_map_def value_column_def)

lemma like_map_keys [simp]: "map fst (like_map fm pat m) = map fst (map_fields fm m)"
  by (simp add: like_map_def case_prod_beta comp_def)

lemma map_fields_Nil [simp]: "map_fields fm [] = []"
  by (simp add: map_fields_def)

lemma range_parts_columns: "range_parts m = Inr parts \<Longrightarrow> set (concat (map sql_columns parts)) \<subseteq> set (map fst m)"
proof (induction m arbitrary: parts)
  case (Cons fv m)
  obtain f v where fv: "fv = (f, v)" by fastforce
  obtain a b ps where "v = J_arr [a, b]" "range_parts m = Inr ps"
    "parts = Sql_compare Sql_gt_or_eq [(f, a)] # Sql_compare Sql_lt_or_eq [(f, b)] # ps"
    using Cons.prems fv by (auto split: json_value.splits list.splits sum.splits)
  then show ?case using Cons.IH [of ps] fv by auto
qed simp

lemma inner_map_columns: "set (map fst (inner_map v)) \<subseteq> {''value''}"
  by (simp add: inner_map_def)

text \<open>The keys a condition may use: \<open>value\<close>, the empty one of an empty map, and the mapped ones.\<close>

definition allowed :: "field_map \<Rightarrow> rule_map \<Rightarrow> string set" where
  "allowed fm m = insert ''value'' (insert [] (set (map fst (map_fields fm m))))"

lemma map_expr_columns:
  assumes "\<And>k e n. sql_columns (cond k e n) = sql_columns e"
  shows "set (sql_columns (map_expr cond (Sql_compare op) m' negate)) \<subseteq> allowed fm m"
    and "value_column fm \<Longrightarrow>
      set (sql_columns (map_expr cond (\<lambda>m. Sql_compare op (map_fields fm m)) m' negate)) \<subseteq> allowed fm m"
proof -
  have i: "set (map fst (inner_map v)) \<subseteq> allowed fm m" for v by (simp add: inner_map_def allowed_def)
  show "set (sql_columns (map_expr cond (Sql_compare op) m' negate)) \<subseteq> allowed fm m"
    using i assms by (auto simp: map_expr_def simp del: set_map split: list.splits)
  show "set (sql_columns (map_expr cond (\<lambda>m. Sql_compare op (map_fields fm m)) m' negate)) \<subseteq> allowed fm m"
    if "value_column fm"
    using i assms that by (auto simp: map_expr_def map_fields_inner simp del: set_map split: list.splits)
qed

lemma keys_allowed: "set (map fst (map_fields fm m)) \<subseteq> allowed fm m"
  by (auto simp: allowed_def)

lemma condition_columns:
  "value_column fm \<Longrightarrow> set (sql_columns (is_sqlizer fm m)) \<subseteq> allowed fm m"
  "set (sql_columns (is_not_sqlizer fm m)) \<subseteq> allowed fm m"
  "value_column fm \<Longrightarrow> set (sql_columns (gt_sqlizer fm m)) \<subseteq> allowed fm m"
  "set (sql_columns (lt_sqlizer fm m)) \<subseteq> allowed fm m"
  "set (sql_columns (like_sqlizer fm pat negate m)) \<subseteq> allowed fm m"
  unfolding is_sqlizer_def is_not_sqlizer_def gt_sqlizer_def lt_sqlizer_def like_sqlizer_def Let_def
  by (simp_all add: map_expr_columns keys_allowed del: set_map)

lemma range_columns: "set (sql_columns (range_sqlizer fm m)) \<subseteq> allowed fm m"
  using range_parts_columns [of "map_fields fm m"] by (auto simp: range_sqlizer_def allowed_def split: sum.split)

lemma list_columns: "set (sql_columns (in_list m negate)) \<subseteq> allowed fm m"
  by (simp add: in_list_def split: option.split json_value.split)

lemma period_columns: "set (sql_columns (in_period fm fd now m negate)) \<subseteq> allowed fm m"
  by (cases "map_fields fm m") (auto simp: in_period_def Let_def allowed_def split: option.splits if_splits)

lemma rule_columns: "value_column fm \<Longrightarrow> set (sql_columns (rule_sqlizer fm fd now op m)) \<subseteq> allowed fm m"
  by (cases op) (simp_all add: rule_sqlizer_def condition_columns range_columns list_columns period_columns)

text \<open>What a column says about the joins.\<close>

definition tables_joined :: "join_type \<Rightarrow> string \<Rightarrow> bool" where
  "tables_joined j col \<longleftrightarrow>
     (contains_str col album_table \<longrightarrow> join_has j join_album_annotation)
     \<and> (contains_str col artist_table \<longrightarrow> join_has j join_artist_annotation)"

lemma tables_joined_mono: "tables_joined j col \<Longrightarrow> (\<And>b. join_has j b \<Longrightarrow> join_has k b) \<Longrightarrow> tables_joined k col"
  by (auto simp: tables_joined_def)

lemma extract_join_has:
  "join_has (extract_join_types fm (All es)) b \<longleftrightarrow> (\<exists>e \<in> set es. join_has (extract_join_types fm e) b)"
  "join_has (extract_join_types fm (Any es)) b \<longleftrightarrow> (\<exists>e \<in> set es. join_has (extract_join_types fm e) b)"
  "join_has (extract_join_types fm (Rule op m)) b \<longleftrightarrow> (\<exists>f \<in> set (map fst m). join_has (field_join_type fm f) b)"
  by (simp_all add: join_has_foldl [of "\<lambda>x. x"] join_has_foldl [of "\<lambda>kv. field_join_type fm (fst kv)"] case_prod_beta')

lemma expression_tables:
  assumes "fm_inv entry_ok fm" "value_column fm"
  shows "col \<in> set (sql_columns (to_sqlizer fm fd now e)) \<Longrightarrow> tables_joined (extract_join_types fm e) col"
proof (induction e)
  case (All es)
  then obtain e where "e \<in> set es" "tables_joined (extract_join_types fm e) col" by auto
  then show ?case by (auto simp: tables_joined_def extract_join_has simp del: extract_join_types.simps)
next
  case (Any es)
  then obtain e where "e \<in> set es" "tables_joined (extract_join_types fm e) col" by auto
  then show ?case by (auto simp: tables_joined_def extract_join_has simp del: extract_join_types.simps)
next
  case (Rule op m)
  then have "col \<in> allowed fm m" using rule_columns [OF assms(2), of fd now op m] by (simp del: set_map add: subsetD)
  then consider "col = ''value''" | "col = []" | "col \<in> set (map fst (map_fields fm m))"
    by (auto simp: allowed_def simp del: set_map)
  then show ?case
  proof cases
    case 3
    from map_fields_keys [OF 3] obtain f mf where f: "f \<in> set (map fst m)"
      "fm_lookup fm (to_lower f) = Some mf" "mf_field mf = col" by blast
    then have "tables_joined (field_join_type fm f) col"
      using lookup_inv [OF assms(1) f(2)] by (auto simp: tables_joined_def field_join_type_def entry_ok_def cell_ok_def)
    then show ?thesis using f(1) by (auto simp: tables_joined_def extract_join_has simp del: set_map extract_join_types.simps)
  qed (simp_all add: tables_joined_def album_table_def artist_table_def)
qed


lemma sort_column_tables:
  assumes "entry_ok n mf"
  shows "tables_joined (mf_join mf) (sort_column n mf)"
proof -
  have "contains_str (sort_column n mf) album_table \<Longrightarrow>
      contains_str (mf_order mf) album_table \<or> contains_str (mf_field mf) album_table \<or> contains_str n album_table"
    by (auto simp: sort_column_def Let_def album_table_def contains_cut split: if_splits)
  moreover have "contains_str (sort_column n mf) artist_table \<Longrightarrow>
      contains_str (mf_order mf) artist_table \<or> contains_str (mf_field mf) artist_table \<or> contains_str n artist_table"
    by (auto simp: sort_column_def Let_def artist_table_def contains_cut split: if_splits)
  ultimately show ?thesis using assms by (auto simp: tables_joined_def entry_ok_def cell_ok_def)
qed

lemma trim_space_hd: "s \<noteq> [] \<Longrightarrow> \<not> is_space (hd s) \<Longrightarrow> trim_space s \<noteq> [] \<and> hd (trim_space s) = hd s"
  by (cases s) (auto simp: trim_space_def trim_left_def trim_right_def dropWhile_append)

lemma trim_sign_id: "s = [] \<or> \<not> is_sign (hd s) \<Longrightarrow> trim_left is_sign s = s"
  by (cases s) (simp_all add: trim_left_def)

lemma is_sign_lower: "is_sign (lower_char ch) \<longleftrightarrow> is_sign ch"
proof (cases "is_upper ch")
  case True
  then have "\<not> is_sign ch" by (auto simp: is_sign_def is_upper_def byte_def)
  moreover have "\<not> is_sign (lower_char ch)"
  proof
    assume "is_sign (lower_char ch)"
    then have "byte (lower_char ch) < 50" by (auto simp: is_sign_def byte_def)
    moreover have "byte (lower_char ch) = byte ch + 32" using True by (auto simp: lower_char_def is_upper_def byte_def of_char_of)
    ultimately show False using True by (simp add: is_upper_def)
  qed
  ultimately show ?thesis by simp
qed (simp add: lower_char_def)

text \<open>The name \<open>RequiredJoins\<close> finds in a part of the sort list is the one \<open>OrderBy\<close> sorts by.\<close>

lemma sort_name:
  assumes "parse_sort_part part = Some (f, d)" "f = [] \<or> \<not> is_sign (hd f)"
  shows "to_lower (trim_space (trim_left is_sign (trim_space part))) = f"
proof -
  define p where "p = trim_space part"
  have pp: "trim_space p = p" by (simp add: p_def)
  show ?thesis
  proof (cases "p \<noteq> [] \<and> is_sign (hd p)")
    case True
    then obtain ch rest where p: "p = ch # rest" "is_sign ch" by (cases p) auto
    then have f: "f = to_lower (trim_space rest)"
      using assms(1) by (auto simp: parse_sort_part_def Let_def is_sign_def simp flip: p_def split: if_splits)
    have "rest = [] \<or> \<not> is_sign (hd rest)"
    proof (rule ccontr)
      assume "\<not> ?thesis"
      then have r: "rest \<noteq> []" "is_sign (hd rest)" by simp_all
      then have "\<not> is_space (hd rest)" by (auto simp: is_sign_def is_space_def)
      with r have "trim_space rest \<noteq> []" "hd (trim_space rest) = hd rest" using trim_space_hd by blast+
      then show False using assms(2) f r(2) is_sign_lower by (cases "trim_space rest") (auto simp: to_lower_def)
    qed
    then have "trim_left is_sign p = rest" using p trim_sign_id [of rest] by (simp add: trim_left_def)
    then show ?thesis using f by (simp add: p_def)
  next
    case False
    then have "f = to_lower p"
      using assms(1) by (cases p) (auto simp: parse_sort_part_def Let_def is_sign_def simp flip: p_def split: if_splits)
    moreover have "trim_left is_sign p = p" using False trim_sign_id by blast
    ultimately show ?thesis using pp by (simp add: p_def)
  qed
qed

lemma sort_part_tables:
  assumes "fm_inv entry_ok fm" "tm \<in> set (sort_part fm order part)"
  shows "tables_joined (sort_join_type fm part) tm"
proof -
  obtain f d where fd: "parse_sort_part part = Some (f, d)"
    using assms(2) by (cases "parse_sort_part part") (auto simp: sort_part_def)
  obtain mf where mf: "fm_lookup fm f = Some mf"
    using assms(2) fd by (cases "fm_lookup fm f") (simp_all add: sort_part_def)
  have "tm = sort_column f mf @ '' '' @ (if (if order = ''desc'' then \<not> d else d) then ''desc'' else ''asc'')"
    using assms(2) fd mf by (simp add: sort_part_def)
  note p = fd mf this
  have ok: "entry_ok f mf" using lookup_inv assms(1) p(2) by blast
  have "contains_str tm t \<Longrightarrow> contains_str (sort_column f mf) t" if "t = album_table \<or> t = artist_table" for t
    using that p(3) by (auto simp: album_table_def artist_table_def contains_cut split: if_splits)
  then have j: "tables_joined (mf_join mf) tm" using sort_column_tables [OF ok] by (auto simp: tables_joined_def)
  show ?thesis
  proof (cases "mf_join mf = join_none")
    case True
    then show ?thesis using j by (auto simp: tables_joined_def)
  next
    case False
    then have "f = [] \<or> \<not> is_sign (hd f)" using ok by (simp add: entry_ok_def)
    from sort_name [OF p(1) this] have "sort_join_type fm part = mf_join mf"
      using p(2) by (simp add: sort_join_type_def field_join_type_def is_sign_def [abs_def])
    then show ?thesis using j by simp
  qed
qed

lemma contains_join:
  "t \<noteq> [] \<Longrightarrow> CHR '','' \<notin> set t \<Longrightarrow> CHR '' '' \<notin> set t \<Longrightarrow> contains_str (join '', '' ts) t \<Longrightarrow> \<exists>x \<in> set ts. contains_str x t"
proof (induction "'', ''" ts rule: join.induct)
  case 1
  then show ?case by (cases t) auto
next
  case (3 x y ys)
  then have "contains_str x t \<or> contains_str (CHR '' '' # join '', '' (y # ys)) t" by (simp add: contains_cut)
  then show ?case using 3 contains_cut [of "CHR '' ''" t "[]" "join '', '' (y # ys)"] by (cases t) auto
qed simp

lemma default_sort_tables: "tables_joined j (join '', '' (sort_part (field_map_of roles tags numeric) order ''title''))"
proof -
  have "fm_lookup field_map_init ''title'' = Some (column ''media_file.title'')" by code_simp
  then obtain mf where mf: "fm_lookup (field_map_of roles tags numeric) ''title'' = Some mf"
    "mf\<lparr>mf_numeric := True\<rparr> = (column ''media_file.title'')\<lparr>mf_numeric := True\<rparr>"
    using keeps_names_field_map_of unfolding keeps_names_def by blast
  have "parse_sort_part ''title'' = Some (''title'', False)" by code_simp
  moreover have "mf = (column ''media_file.title'')\<lparr>mf_numeric := mf_numeric mf\<rparr>"
    using mf(2) by (cases mf) (simp add: column_def)
  then have "sort_column ''title'' mf = ''media_file.title'' \<or> sort_column ''title'' mf = ''CAST(media_file.title AS REAL)''"
    by (cases mf) (auto simp: sort_column_def column_def Let_def)
  ultimately show ?thesis using mf(1)
    by (auto simp: sort_part_def tables_joined_def album_table_def artist_table_def)
qed

text \<open>Every annotation table that a column of the rules or the sort order of a smart playlist reads is
  among the joins the query gets, whatever roles and tags the configuration adds to the table of fields.\<close>

lemma joins_cover:
  assumes "\<forall>s \<in> set (roles @ tags @ numeric). no_table s" "c_expression c = Some e"
  defines "fm \<equiv> field_map_of roles tags numeric"
  shows "tables_joined (required_joins fm c) (order_by fm c)
     \<and> list_all (tables_joined (expression_joins fm c)) (sql_columns (to_sqlizer fm fd now e))
     \<and> list_all (tables_joined (required_joins fm c)) (sql_columns (to_sqlizer fm fd now e))"
proof -
  have inv: "fm_inv entry_ok fm" unfolding fm_def by (rule entry_ok_field_map_of [OF assms(1)])
  have e: "list_all (tables_joined (expression_joins fm c)) (sql_columns (to_sqlizer fm fd now e))"
    using expression_tables [OF inv] value_column_field_map_of assms(2)
    by (auto simp: list_all_iff expression_joins_def fm_def)
  have has: "join_has (required_joins fm c) b \<longleftrightarrow> join_has (expression_joins fm c) b
      \<or> (c_sort c \<noteq> [] \<and> (\<exists>p \<in> set (split_on CHR '','' (c_sort c)). join_has (sort_join_type fm p) b))" for b
    by (simp add: required_joins_def Let_def join_has_foldl)
  have o: "tables_joined (required_joins fm c) (order_by fm c)"
  proof (cases "c_sort c = []")
    case True
    have "split_on CHR '','' ''title'' = [''title'']" by simp
    then show ?thesis using default_sort_tables True by (simp add: order_by_def Let_def fm_def)
  next
    case False
    have "join_has (required_joins fm c) b" if t: "contains_str (order_by fm c) t"
      and tb: "(t = album_table \<and> b = join_album_annotation) \<or> (t = artist_table \<and> b = join_artist_annotation)" for t b
    proof -
      have "\<exists>x \<in> set (concat (map (sort_part fm (order_of c)) (split_on CHR '','' (c_sort c)))). contains_str x t"
        by (rule contains_join) (use t tb False in \<open>auto simp: order_by_def album_table_def artist_table_def\<close>)
      then obtain p x where "p \<in> set (split_on CHR '','' (c_sort c))" "x \<in> set (sort_part fm (order_of c) p)" "contains_str x t"
        by auto
      then show ?thesis using sort_part_tables [OF inv] has tb False unfolding tables_joined_def by blast
    qed
    then show ?thesis by (simp add: tables_joined_def)
  qed
  show ?thesis using e o has by (auto simp: list_all_iff tables_joined_def)
qed

definition sample_criteria :: criteria where
  "sample_criteria = \<lparr>c_expression = Some (All [Rule Op_gt [(''albumRating'', J_num 3)],
       Any [Rule Op_is [(''genre'', J_str ''Rock'')], Rule Op_contains [(''composer'', J_str ''Bach'')]]]),
     c_sort = ''-artistrating, + title'', c_order = ''desc'', c_limit = 0, c_limit_percent = 10, c_offset = 0\<rparr>"

lemma joins_cover_witness:
  "tables_joined (required_joins (field_map_of [''Composer''] [''genre''] [''genre'']) sample_criteria)
     (order_by (field_map_of [''Composer''] [''genre''] [''genre'']) sample_criteria)"
  using joins_cover [of "[''Composer'']" "[''genre'']" "[''genre'']" sample_criteria]
  by (simp add: sample_criteria_def no_table_def to_lower_def lower_char_def is_upper_def byte_def album_table_def artist_table_def)

section \<open>Negated rules\<close>

lemma tag_sql_negate:
  "tag_sql fm tag r True = (case tag_sql fm tag r False of (text, args, err) \<Rightarrow> (''not '' @ text, args, err))"
  by (simp add: tag_sql_def Let_def split: prod.split)

lemma role_sql_negate:
  "role_sql role r True = (case role_sql role r False of (text, args, err) \<Rightarrow> (''not '' @ text, args, err))"
  by (simp add: role_sql_def Let_def split: prod.split)

lemma map_expr_negate:
  "print_sql sqp fm (map_expr Sql_tag mk m True)
     = (case print_sql sqp fm (map_expr Sql_tag mk m False) of (text, args, err) \<Rightarrow> (''not '' @ text, args, err))"
  "print_sql sqp fm (map_expr Sql_role mk m True)
     = (case print_sql sqp fm (map_expr Sql_role mk m False) of (text, args, err) \<Rightarrow> (''not '' @ text, args, err))"
  by (cases m; simp add: map_expr_def tag_sql_negate role_sql_negate split: prod.split)+

lemma map_expr_is:
  "value_column fm \<Longrightarrow> map_expr cond (\<lambda>m. Sql_compare op (map_fields fm m)) m negate = map_expr cond (Sql_compare op) m negate"
  by (simp add: map_expr_def map_fields_inner split: list.split)

text \<open>C33. On a tag or a role, \<open>isNot\<close> and \<open>notContains\<close> are exactly the negation of \<open>is\<close> and \<open>contains\<close>:
  the same condition with the same arguments and errors under \<open>not\<close>.\<close>

theorem negated_rule:
  assumes "is_tag_expr (field_map_of roles tags numeric) m \<or> is_role_expr (field_map_of roles tags numeric) m"
    and "(op, nop) = (Op_is, Op_is_not) \<or> (op, nop) = (Op_contains, Op_not_contains)"
  shows "expression_sql sqp (field_map_of roles tags numeric) fd now (Rule nop m)
     = (case expression_sql sqp (field_map_of roles tags numeric) fd now (Rule op m) of
          (text, args, err) \<Rightarrow> (''not '' @ text, args, err))"
proof -
  note v = value_column_field_map_of [of roles tags numeric]
  show ?thesis
    using assms by (auto simp: expression_sql_def rule_sqlizer_def is_sqlizer_def is_not_sqlizer_def like_sqlizer_def
        Let_def map_expr_is [OF v] map_expr_negate)
qed

definition plain_squirrel :: squirrel where
  "plain_squirrel = \<lparr>sql_compare = (\<lambda>op m. (join '' '' (map (\<lambda>(k, v). k @ '' = ?'') m), map snd m, None)),
     sql_conj = (\<lambda>c rs. (join '' AND '' (map fst rs), concat (map (fst \<circ> snd) rs), None)),
     sql_public_playlist = (\<lambda>p. (''select'', [J_str p], None))\<rparr>"

theorem negated_rule_witness:
  "expression_sql plain_squirrel (field_map_of [] [''genre''] []) (\<lambda>n. []) 0 (Rule Op_not_contains [(''Genre'', J_str ''Rock'')])
     = (case expression_sql plain_squirrel (field_map_of [] [''genre''] []) (\<lambda>n. []) 0 (Rule Op_contains [(''Genre'', J_str ''Rock'')]) of
          (text, args, err) \<Rightarrow> (''not '' @ text, args, err))"
proof (rule negated_rule)
  have "is_tag_expr (field_map_of [] [''genre''] []) [(''Genre'', J_str ''Rock'')]" by code_simp
  then show "is_tag_expr (field_map_of [] [''genre''] []) [(''Genre'', J_str ''Rock'')]
     \<or> is_role_expr (field_map_of [] [''genre''] []) [(''Genre'', J_str ''Rock'')]" by (rule disjI1)
qed simp

text \<open>
  The condition of \<open>is\<close> keeps the case of the key while \<open>contains\<close> has the mapped name: the JSON path
  \<open>$.Genre\<close> names no tag. And \<open>is\<close> with a null value asks for the tag to be there.
\<close>

lemma is_keeps_case:
  "to_sqlizer (field_map_of [] [''genre''] []) fd now (Rule Op_contains [(''Genre'', J_str ''Rock'')])
     = Sql_tag ''genre'' (Sql_compare Sql_like [(''value'', J_str ''%Rock%'')]) False"
  "to_sqlizer (field_map_of [] [''genre''] []) fd now (Rule Op_is [(''Genre'', J_str ''Rock'')])
     = Sql_tag ''Genre'' (Sql_compare Sql_eq [(''value'', J_str ''Rock'')]) False"
  by code_simp+

lemma is_null_tag:
  "to_sqlizer (field_map_of [] [''genre''] []) fd now (Rule Op_is [(''genre'', J_null)])
     = Sql_tag ''genre'' (Sql_compare Sql_eq []) False"
  "to_sqlizer (field_map_of [] [''genre''] []) fd now (Rule Op_is [(''comment'', J_null)])
     = Sql_compare Sql_eq [(''media_file.comment'', J_null)]"
  by code_simp+

text \<open>A period in days that is longer than an \<open>int64\<close> of nanoseconds wraps to a day in the future.\<close>

lemma long_period_wraps: "start_of_period f 110000 0 = f 8942744073709551616"
  by (simp add: start_of_period_def signed64_def)

section \<open>The limit\<close>

lemma signed64_id: "- (2 ^ 63) \<le> n \<Longrightarrow> n < 2 ^ 63 \<Longrightarrow> signed64 n = n"
  by (simp add: signed64_def sint_sbintrunc' signed_take_bit_int_eq_self)

text \<open>A percentage limit is the share of the matching tracks rounded down, but one track at least and
  never more than there are; a fixed limit wins over it.\<close>

lemma limit_in_effect:
  assumes "0 \<le> count" "count < 2 ^ 56"
  shows "effective_limit c count
      = (if 0 < c_limit c then c_limit c
         else if c_limit_percent c \<in> {1..100} \<and> 0 < count then max 1 (count * c_limit_percent c div 100) else 0)
     \<and> (is_percentage_limit c \<longrightarrow> effective_limit c count \<le> count \<and> (0 < count \<longrightarrow> 0 < effective_limit c count))"
proof -
  have eq: "effective_limit c count
      = (if 0 < c_limit c then c_limit c
         else if c_limit_percent c \<in> {1..100} \<and> 0 < count then max 1 (count * c_limit_percent c div 100) else 0)"
  proof (cases "c_limit_percent c \<in> {1..100}")
    case True
    have "count * c_limit_percent c \<le> 2 ^ 56 * 100" using assms True by (intro mult_mono) auto
    moreover have "0 \<le> count * c_limit_percent c" using assms True by simp
    ultimately have "signed64 (count * c_limit_percent c) = count * c_limit_percent c"
      by (intro signed64_id) auto
    then show ?thesis using True assms \<open>0 \<le> count * c_limit_percent c\<close> by (auto simp: effective_limit_def Let_def max_def)
  qed (auto simp: effective_limit_def)
  have "count * p div 100 \<le> count" if "p \<le> 100" "0 \<le> p" for p
  proof -
    have "count * p \<le> count * 100" using that assms by (intro mult_left_mono) auto
    then show ?thesis using zdiv_mono1 [of "count * p" "count * 100" 100] by simp
  qed
  then show ?thesis unfolding eq using assms by (auto simp: is_percentage_limit_def max_def)
qed

lemma limit_in_effect_witness: "effective_limit sample_criteria 57 = 5"
  using limit_in_effect [of 57 sample_criteria] by (simp add: sample_criteria_def)

end
