(* ===== verification/CriteriaJson.thy ===== *)
theory CriteriaJson
  imports Criteria
begin

text \<open>
  Smart playlist rules as JSON (\<open>model/criteria/json.go\<close> and the two methods of \<open>Criteria\<close>), over
  parsed documents whose objects have distinct keys. A key is written between quotes as it is, so
  \<open>Err_raw_key\<close> stands for whatever a key with a quote, a backslash or a control character makes of
  the document. In a text that is not valid UTF-8, \<open>encoding/json\<close> puts the replacement character in
  the place of each byte that is not part of one, in values when it writes and in keys when it reads.
\<close>

datatype json_error =
    Err_rule_length rule_op nat
  | Err_raw_key string
  | Err_json_type
  | Err_invalid_key string
  | Err_missing_rules

fun sum_map :: "('a \<Rightarrow> json_error + 'b) \<Rightarrow> 'a list \<Rightarrow> json_error + 'b list" where
  "sum_map f [] = Inr []"
| "sum_map f (x # xs) =
     (case f x of Inl e \<Rightarrow> Inl e
      | Inr y \<Rightarrow> (case sum_map f xs of Inl e \<Rightarrow> Inl e | Inr ys \<Rightarrow> Inr (y # ys)))"

lemma sum_map_cong [fundef_cong]:
  "xs = ys \<Longrightarrow> (\<And>x. x \<in> set ys \<Longrightarrow> f x = g x) \<Longrightarrow> sum_map f xs = sum_map g ys"
  by (induction ys arbitrary: xs) (auto split: sum.split)

section \<open>Writing\<close>

definition op_name :: "rule_op \<Rightarrow> string" where
  "op_name op =
     (case op of
        Op_is \<Rightarrow> ''is'' | Op_is_not \<Rightarrow> ''isNot'' | Op_gt \<Rightarrow> ''gt'' | Op_lt \<Rightarrow> ''lt''
      | Op_before \<Rightarrow> ''before'' | Op_after \<Rightarrow> ''after''
      | Op_contains \<Rightarrow> ''contains'' | Op_not_contains \<Rightarrow> ''notContains''
      | Op_starts_with \<Rightarrow> ''startsWith'' | Op_ends_with \<Rightarrow> ''endsWith''
      | Op_in_the_range \<Rightarrow> ''inTheRange'' | Op_in_the_last \<Rightarrow> ''inTheLast'' | Op_not_in_the_last \<Rightarrow> ''notInTheLast''
      | Op_in_playlist \<Rightarrow> ''inPlaylist'' | Op_not_in_playlist \<Rightarrow> ''notInPlaylist'')"

definition plain_key :: "string \<Rightarrow> bool" where
  "plain_key s \<longleftrightarrow> list_all (\<lambda>ch. ch \<noteq> CHR 0x22 \<and> ch \<noteq> CHR 0x5C \<and> 32 \<le> byte ch) s"

function fix_utf8 :: "string \<Rightarrow> string" where
  "fix_utf8 s =
     (if s = [] then []
      else if utf8_width s = 0 then [CHR 0xEF, CHR 0xBF, CHR 0xBD] @ fix_utf8 (tl s)
      else take (utf8_width s) s @ fix_utf8 (drop (utf8_width s) s))"
  by pat_completeness auto
termination
  by (relation "measure length") auto

declare fix_utf8.simps [simp del]

primrec json_text :: "json_value \<Rightarrow> json_value" where
  "json_text J_null = J_null"
| "json_text (J_bool b) = J_bool b"
| "json_text (J_num n) = J_num n"
| "json_text (J_frac t) = J_frac t"
| "json_text (J_str s) = J_str (fix_utf8 s)"
| "json_text (J_arr vs) = J_arr (map json_text vs)"
| "json_text (J_obj kvs) = J_obj (map (map_prod fix_utf8 json_text) kvs)"

definition marshal_expression :: "rule_op \<Rightarrow> rule_map \<Rightarrow> json_error + json_value" where
  "marshal_expression op m =
     (case m of
        [(f, v)] \<Rightarrow>
          if plain_key f then Inr (J_obj [(op_name op, J_obj [(fix_utf8 f, json_text v)])]) else Inl (Err_raw_key f)
      | _ \<Rightarrow> Inl (Err_rule_length op (length m)))"

definition conjunction_json :: "string \<Rightarrow> json_value list \<Rightarrow> (string \<times> json_value) list" where
  "conjunction_json name vs = (if vs = [] then [] else [(name, J_arr vs)])"

fun marshal_rule :: "expression \<Rightarrow> json_error + json_value" where
  "marshal_rule (All es) =
     (case sum_map marshal_rule es of Inl e \<Rightarrow> Inl e | Inr vs \<Rightarrow> Inr (J_obj (conjunction_json ''all'' vs)))"
| "marshal_rule (Any es) =
     (case sum_map marshal_rule es of Inl e \<Rightarrow> Inl e | Inr vs \<Rightarrow> Inr (J_obj (conjunction_json ''any'' vs)))"
| "marshal_rule (Rule op m) = marshal_expression op m"

definition omit_empty :: "string \<Rightarrow> string \<Rightarrow> (string \<times> json_value) list" where
  "omit_empty name s = (if s = [] then [] else [(name, J_str (fix_utf8 s))])"

definition omit_zero :: "string \<Rightarrow> int \<Rightarrow> (string \<times> json_value) list" where
  "omit_zero name n = (if n = 0 then [] else [(name, J_num n)])"

definition marshal_criteria :: "criteria \<Rightarrow> json_error + json_value" where
  "marshal_criteria c =
     (case (case c_expression c of
              None \<Rightarrow> Inr (conjunction_json ''all'' [J_null])
            | Some (Any es) \<Rightarrow> map_sum id (conjunction_json ''any'') (sum_map marshal_rule es)
            | Some (All es) \<Rightarrow> map_sum id (conjunction_json ''all'') (sum_map marshal_rule es)
            | Some (Rule op m) \<Rightarrow> map_sum id (conjunction_json ''all'') (sum_map marshal_rule [Rule op m])) of
        Inl e \<Rightarrow> Inl e
      | Inr rules \<Rightarrow> Inr (J_obj (rules @ omit_empty ''sort'' (c_sort c) @ omit_empty ''order'' (c_order c)
          @ omit_zero ''limit'' (c_limit c) @ omit_zero ''limitPercent'' (c_limit_percent c)
          @ omit_zero ''offset'' (c_offset c))))"

section \<open>Reading\<close>

definition rule_op_of :: "string \<Rightarrow> rule_op option" where
  "rule_op_of name =
     (if name = ''is'' then Some Op_is
      else if name = ''isnot'' then Some Op_is_not
      else if name = ''gt'' then Some Op_gt
      else if name = ''lt'' then Some Op_lt
      else if name = ''contains'' then Some Op_contains
      else if name = ''notcontains'' then Some Op_not_contains
      else if name = ''startswith'' then Some Op_starts_with
      else if name = ''endswith'' then Some Op_ends_with
      else if name = ''intherange'' then Some Op_in_the_range
      else if name = ''before'' then Some Op_before
      else if name = ''after'' then Some Op_after
      else if name = ''inthelast'' then Some Op_in_the_last
      else if name = ''notinthelast'' then Some Op_not_in_the_last
      else if name = ''inplaylist'' then Some Op_in_playlist
      else if name = ''notinplaylist'' then Some Op_not_in_playlist
      else None)"

text \<open>A null object is a map without entries.\<close>

definition unmarshal_expression :: "string \<Rightarrow> json_value \<Rightarrow> expression option" where
  "unmarshal_expression name v =
     (case v of
        J_obj m \<Rightarrow> map_option (\<lambda>op. Rule op m) (rule_op_of name)
      | J_null \<Rightarrow> map_option (\<lambda>op. Rule op []) (rule_op_of name)
      | _ \<Rightarrow> None)"

definition conjunction_of :: "string \<Rightarrow> json_error + expression list \<Rightarrow> expression option" where
  "conjunction_of name items =
     (case items of
        Inl e \<Rightarrow> None
      | Inr es \<Rightarrow> if name = ''any'' then Some (Any es) else if name = ''all'' then Some (All es) else None)"

definition rule_or_conjunction :: "string \<Rightarrow> json_value \<Rightarrow> json_error + expression list \<Rightarrow> expression option" where
  "rule_or_conjunction name v items =
     (case unmarshal_expression name v of Some e \<Rightarrow> Some e | None \<Rightarrow> conjunction_of name items)"

fun unmarshal_items :: "json_value \<Rightarrow> json_error + expression list"
  and unmarshal_elems :: "json_value list \<Rightarrow> json_error + expression list"
  and unmarshal_entries :: "(string \<times> json_value) list \<Rightarrow> json_error + expression list" where
  "unmarshal_items (J_arr raw) = unmarshal_elems raw"
| "unmarshal_items J_null = Inr []"
| "unmarshal_items _ = Inl Err_json_type"
| "unmarshal_elems [] = Inr []"
| "unmarshal_elems (J_obj kvs # raw) =
     (case unmarshal_entries kvs of
        Inl e \<Rightarrow> Inl e
      | Inr es \<Rightarrow> (case unmarshal_elems raw of Inl e \<Rightarrow> Inl e | Inr es' \<Rightarrow> Inr (es @ es')))"
| "unmarshal_elems (J_null # raw) = unmarshal_elems raw"
| "unmarshal_elems (_ # raw) = Inl Err_json_type"
| "unmarshal_entries [] = Inr []"
| "unmarshal_entries ((k, v) # kvs) =
     (case rule_or_conjunction (to_lower k) v (unmarshal_items v) of
        None \<Rightarrow> Inl (Err_invalid_key (to_lower k))
      | Some e \<Rightarrow> (case unmarshal_entries kvs of Inl err \<Rightarrow> Inl err | Inr es \<Rightarrow> Inr (e # es)))"

record criteria_aux =
  aux_all :: "expression list"
  aux_any :: "expression list"
  aux_sort :: string
  aux_order :: string
  aux_limit :: int
  aux_limit_percent :: int
  aux_offset :: int

definition aux_init :: criteria_aux where
  "aux_init = \<lparr>aux_all = [], aux_any = [], aux_sort = [], aux_order = [], aux_limit = 0,
     aux_limit_percent = 0, aux_offset = 0\<rparr>"

text \<open>\<open>encoding/json\<close> finds the field of a key without regard to case, and null leaves it alone.\<close>

definition set_str :: "json_value \<Rightarrow> (string \<Rightarrow> criteria_aux) \<Rightarrow> criteria_aux \<Rightarrow> json_error + criteria_aux" where
  "set_str v f aux = (case v of J_str s \<Rightarrow> Inr (f s) | J_null \<Rightarrow> Inr aux | _ \<Rightarrow> Inl Err_json_type)"

definition set_int :: "json_value \<Rightarrow> (int \<Rightarrow> criteria_aux) \<Rightarrow> criteria_aux \<Rightarrow> json_error + criteria_aux" where
  "set_int v f aux =
     (case v of J_num n \<Rightarrow> if in_int64 n then Inr (f n) else Inl Err_json_type | J_null \<Rightarrow> Inr aux | _ \<Rightarrow> Inl Err_json_type)"

definition decode_field :: "string \<times> json_value \<Rightarrow> criteria_aux \<Rightarrow> json_error + criteria_aux" where
  "decode_field kv aux =
     (case kv of (k, v) \<Rightarrow>
        if equal_fold k ''all'' then map_sum id (\<lambda>es. aux\<lparr>aux_all := es\<rparr>) (unmarshal_items v)
        else if equal_fold k ''any'' then map_sum id (\<lambda>es. aux\<lparr>aux_any := es\<rparr>) (unmarshal_items v)
        else if equal_fold k ''sort'' then set_str v (\<lambda>s. aux\<lparr>aux_sort := s\<rparr>) aux
        else if equal_fold k ''order'' then set_str v (\<lambda>s. aux\<lparr>aux_order := s\<rparr>) aux
        else if equal_fold k ''limit'' then set_int v (\<lambda>n. aux\<lparr>aux_limit := n\<rparr>) aux
        else if equal_fold k ''limitPercent'' then set_int v (\<lambda>n. aux\<lparr>aux_limit_percent := n\<rparr>) aux
        else if equal_fold k ''offset'' then set_int v (\<lambda>n. aux\<lparr>aux_offset := n\<rparr>) aux
        else Inr aux)"

fun decode_fields :: "(string \<times> json_value) list \<Rightarrow> criteria_aux \<Rightarrow> json_error + criteria_aux" where
  "decode_fields [] aux = Inr aux"
| "decode_fields (kv # kvs) aux =
     (case decode_field kv aux of Inl e \<Rightarrow> Inl e | Inr aux' \<Rightarrow> decode_fields kvs aux')"

definition clamp_percent :: "int \<Rightarrow> int" where
  "clamp_percent n = (if n < 0 then 0 else if n > 100 then 100 else n)"

definition decode_document :: "json_value \<Rightarrow> json_error + criteria_aux" where
  "decode_document v =
     (case v of J_obj kvs \<Rightarrow> decode_fields kvs aux_init | J_null \<Rightarrow> Inr aux_init | _ \<Rightarrow> Inl Err_json_type)"

definition unmarshal_criteria :: "json_value \<Rightarrow> json_error + criteria" where
  "unmarshal_criteria v =
     (case decode_document v of
        Inl e \<Rightarrow> Inl e
      | Inr aux \<Rightarrow>
          if aux_any aux = [] \<and> aux_all aux = [] then Inl Err_missing_rules
          else Inr \<lparr>c_expression = Some (if aux_any aux \<noteq> [] then Any (aux_any aux) else All (aux_all aux)),
            c_sort = aux_sort aux, c_order = aux_order aux, c_limit = aux_limit aux,
            c_limit_percent = clamp_percent (aux_limit_percent aux), c_offset = aux_offset aux\<rparr>)"

section \<open>Round trip\<close>

text \<open>
  What comes back as it was: each rule has one field, all texts are valid UTF-8, whole numbers are
  exact as floats, no conjunction is empty and the percentage is in its range.
\<close>

primrec json_valid :: "json_value \<Rightarrow> bool" where
  "json_valid J_null \<longleftrightarrow> True"
| "json_valid (J_bool b) \<longleftrightarrow> True"
| "json_valid (J_num n) \<longleftrightarrow> \<bar>n\<bar> \<le> 2 ^ 53"
| "json_valid (J_frac t) \<longleftrightarrow> True"
| "json_valid (J_str s) \<longleftrightarrow> valid_utf8 s"
| "json_valid (J_arr vs) \<longleftrightarrow> list_all id (map json_valid vs)"
| "json_valid (J_obj kvs) \<longleftrightarrow> list_all (\<lambda>(k, ok). valid_utf8 k \<and> ok) (map (map_prod id json_valid) kvs)"

fun rule_ok :: "expression \<Rightarrow> bool" where
  "rule_ok (All es) \<longleftrightarrow> es \<noteq> [] \<and> list_all rule_ok es"
| "rule_ok (Any es) \<longleftrightarrow> es \<noteq> [] \<and> list_all rule_ok es"
| "rule_ok (Rule op m) \<longleftrightarrow> (case m of [(f, v)] \<Rightarrow> plain_key f \<and> valid_utf8 f \<and> json_valid v | _ \<Rightarrow> False)"

definition criteria_ok :: "criteria \<Rightarrow> bool" where
  "criteria_ok c \<longleftrightarrow> (case c_expression c of Some e \<Rightarrow> rule_ok e | None \<Rightarrow> False)
     \<and> valid_utf8 (c_sort c) \<and> valid_utf8 (c_order c)
     \<and> in_int64 (c_limit c) \<and> 0 \<le> c_limit_percent c \<and> c_limit_percent c \<le> 100 \<and> in_int64 (c_offset c)"

lemma fix_utf8_valid: "valid_utf8 s \<Longrightarrow> fix_utf8 s = s"
proof (induction s rule: valid_utf8.induct)
  case (1 s)
  then show ?case
    by (subst fix_utf8.simps) (auto simp: valid_utf8.simps [of s] split: if_splits)
qed

lemma json_text_valid: "json_valid v \<Longrightarrow> json_text v = v"
proof (induction v)
  case (J_arr vs)
  then show ?case by (simp add: list_all_iff map_idI)
next
  case (J_obj kvs)
  then have "map_prod fix_utf8 json_text kv = kv" if "kv \<in> set kvs" for kv
    using that by (cases kv) (fastforce simp: list_all_iff fix_utf8_valid)
  then show ?case by (simp add: map_idI)
qed (simp_all add: fix_utf8_valid)

definition as_conjunction :: "expression \<Rightarrow> expression" where
  "as_conjunction e = (case e of Rule op m \<Rightarrow> All [Rule op m] | _ \<Rightarrow> e)"

lemma rule_op_of_name: "rule_op_of (to_lower (op_name op)) = Some op"
  by (cases op) (simp_all only: op_name_def rule_op.case, code_simp+)

lemma conjunction_names [simp]:
  "to_lower ''all'' = ''all''" "to_lower ''any'' = ''any''" "rule_op_of ''all'' = None" "rule_op_of ''any'' = None"
  by code_simp+

lemma unmarshal_elems_Cons:
  "unmarshal_elems (v # vs) =
     (case unmarshal_elems [v] of Inl e \<Rightarrow> Inl e
      | Inr es \<Rightarrow> (case unmarshal_elems vs of Inl e \<Rightarrow> Inl e | Inr es' \<Rightarrow> Inr (es @ es')))"
  by (cases v) (auto split: sum.split)

lemma sum_map_elems:
  assumes "\<And>e. e \<in> set es \<Longrightarrow> \<exists>v. marshal_rule e = Inr v \<and> unmarshal_elems [v] = Inr [e]"
  shows "\<exists>vs. sum_map marshal_rule es = Inr vs \<and> length vs = length es \<and> unmarshal_elems vs = Inr es"
  using assms
proof (induction es)
  case (Cons e es)
  then obtain v where v: "marshal_rule e = Inr v" "unmarshal_elems [v] = Inr [e]" by auto
  obtain vs where "sum_map marshal_rule es = Inr vs" "length vs = length es" "unmarshal_elems vs = Inr es"
    using Cons by auto
  then show ?case using v by (simp add: unmarshal_elems_Cons [of v vs])
qed simp

lemma marshal_rule_elem: "rule_ok e \<Longrightarrow> \<exists>v. marshal_rule e = Inr v \<and> unmarshal_elems [v] = Inr [e]"
proof (induction e)
  case (All es)
  then obtain vs where vs: "sum_map marshal_rule es = Inr vs" "length vs = length es" "unmarshal_elems vs = Inr es"
    using sum_map_elems [of es] by (auto simp: list_all_iff)
  then have "vs \<noteq> []" using All.prems by auto
  then show ?case using vs
    by (simp add: conjunction_json_def rule_or_conjunction_def unmarshal_expression_def conjunction_of_def)
next
  case (Any es)
  then obtain vs where vs: "sum_map marshal_rule es = Inr vs" "length vs = length es" "unmarshal_elems vs = Inr es"
    using sum_map_elems [of es] by (auto simp: list_all_iff)
  then have "vs \<noteq> []" using Any.prems by auto
  then show ?case using vs
    by (simp add: conjunction_json_def rule_or_conjunction_def unmarshal_expression_def conjunction_of_def)
next
  case (Rule op m)
  then show ?case
    by (auto simp: marshal_expression_def rule_or_conjunction_def unmarshal_expression_def rule_op_of_name
        fix_utf8_valid json_text_valid split: list.splits)
qed

lemma decode_fields_append:
  "decode_fields (xs @ ys) aux = (case decode_fields xs aux of Inl e \<Rightarrow> Inl e | Inr aux' \<Rightarrow> decode_fields ys aux')"
  by (induction xs arbitrary: aux) (auto split: sum.split)

lemma field_names:
  "equal_fold ''all'' ''all''" "\<not> equal_fold ''any'' ''all''" "equal_fold ''any'' ''any''"
  "\<not> equal_fold ''sort'' ''all''" "\<not> equal_fold ''sort'' ''any''"
  "\<not> equal_fold ''order'' ''all''" "\<not> equal_fold ''order'' ''any''" "\<not> equal_fold ''order'' ''sort''"
  "\<not> equal_fold ''limit'' ''all''" "\<not> equal_fold ''limit'' ''any''" "\<not> equal_fold ''limit'' ''sort''" "\<not> equal_fold ''limit'' ''order''"
  "\<not> equal_fold ''limitPercent'' ''all''" "\<not> equal_fold ''limitPercent'' ''any''" "\<not> equal_fold ''limitPercent'' ''sort''"
  "\<not> equal_fold ''limitPercent'' ''order''" "\<not> equal_fold ''limitPercent'' ''limit''"
  "\<not> equal_fold ''offset'' ''all''" "\<not> equal_fold ''offset'' ''any''" "\<not> equal_fold ''offset'' ''sort''"
  "\<not> equal_fold ''offset'' ''order''" "\<not> equal_fold ''offset'' ''limit''" "\<not> equal_fold ''offset'' ''limitPercent''"
  by code_simp+

lemma decode_plain_fields:
  assumes "in_int64 l" "in_int64 p" "in_int64 f" "valid_utf8 s" "valid_utf8 ord"
  shows "decode_fields (omit_empty ''sort'' s @ omit_empty ''order'' ord @ omit_zero ''limit'' l
      @ omit_zero ''limitPercent'' p @ omit_zero ''offset'' f) (aux_init\<lparr>aux_all := xs, aux_any := ys\<rparr>)
    = Inr \<lparr>aux_all = xs, aux_any = ys, aux_sort = s, aux_order = ord, aux_limit = l, aux_limit_percent = p, aux_offset = f\<rparr>"
  using assms
  by (simp add: omit_empty_def fix_utf8_valid omit_zero_def decode_field_def set_str_def set_int_def field_names aux_init_def)

lemma decode_conjunction:
  "vs \<noteq> [] \<Longrightarrow> unmarshal_elems vs = Inr es \<Longrightarrow>
     decode_fields (conjunction_json ''all'' vs @ rest) aux_init = decode_fields rest (aux_init\<lparr>aux_all := es, aux_any := []\<rparr>)"
  "vs \<noteq> [] \<Longrightarrow> unmarshal_elems vs = Inr es \<Longrightarrow>
     decode_fields (conjunction_json ''any'' vs @ rest) aux_init = decode_fields rest (aux_init\<lparr>aux_all := [], aux_any := es\<rparr>)"
  by (simp_all add: conjunction_json_def decode_field_def field_names aux_init_def)

text \<open>
  C34. Rules with one field each under a plain key, in conjunctions that are not empty, with texts in
  UTF-8, numbers that floats hold and a percentage from 0 to 100, are written without an error and read back as they were: the
  same tree of rules, sort, order, limits and offset; a single rule at the top comes back as the
  conjunction of itself.
\<close>

theorem criteria_round_trip:
  assumes "criteria_ok c"
  shows "\<exists>v. marshal_criteria c = Inr v
     \<and> unmarshal_criteria v = Inr (c\<lparr>c_expression := map_option as_conjunction (c_expression c)\<rparr>)"
proof -
  obtain e where e: "c_expression c = Some e" "rule_ok e" using assms by (auto simp: criteria_ok_def split: option.splits)
  have ints: "in_int64 (c_limit c)" "in_int64 (c_limit_percent c)" "in_int64 (c_offset c)"
    using assms by (auto simp: criteria_ok_def in_int64_def)
  have clamp: "clamp_percent (c_limit_percent c) = c_limit_percent c"
    using assms by (simp add: criteria_ok_def clamp_percent_def)
  have texts: "valid_utf8 (c_sort c)" "valid_utf8 (c_order c)" using assms by (simp_all add: criteria_ok_def)
  note plain = decode_plain_fields [OF ints texts]
  have conj: "\<exists>vs. sum_map marshal_rule es = Inr vs \<and> vs \<noteq> [] \<and> unmarshal_elems vs = Inr es"
    if "es \<noteq> []" "list_all rule_ok es" for es
    using sum_map_elems [of es] marshal_rule_elem that by (fastforce simp: list_all_iff)
  show ?thesis
  proof (cases e)
    case (Any es)
    then obtain vs where "sum_map marshal_rule es = Inr vs" "vs \<noteq> []" "unmarshal_elems vs = Inr es"
      using conj [of es] e(2) by auto
    then show ?thesis using e Any clamp
      by (simp add: marshal_criteria_def unmarshal_criteria_def decode_document_def decode_conjunction plain as_conjunction_def)
  next
    case (All es)
    then obtain vs where "sum_map marshal_rule es = Inr vs" "vs \<noteq> []" "unmarshal_elems vs = Inr es"
      using conj [of es] e(2) by auto
    then show ?thesis using e All clamp
      by (simp add: marshal_criteria_def unmarshal_criteria_def decode_document_def decode_conjunction plain as_conjunction_def)
  next
    case (Rule op m)
    then obtain vs where "sum_map marshal_rule [Rule op m] = Inr vs" "vs \<noteq> []" "unmarshal_elems vs = Inr [Rule op m]"
      using conj [of "[Rule op m]"] e(2) by auto
    then show ?thesis using e Rule clamp
      by (simp add: marshal_criteria_def unmarshal_criteria_def decode_document_def decode_conjunction plain as_conjunction_def
          del: sum_map.simps)
  qed
qed

definition sample_rules :: criteria where
  "sample_rules = \<lparr>c_expression = Some (Any [Rule Op_in_the_last [(''lastPlayed'', J_num 30)],
       All [Rule Op_is_not [(''loved'', J_bool True)], Rule Op_not_in_playlist [(''id'', J_str ''p1'')],
         Rule Op_in_the_range [(''year'', J_arr [J_num 1980, J_num 1989])]]]),
     c_sort = ''year,-rating'', c_order = [], c_limit = 0, c_limit_percent = 25, c_offset = -1\<rparr>"

theorem criteria_round_trip_witness:
  "\<exists>v. marshal_criteria sample_rules = Inr v \<and> unmarshal_criteria v = Inr sample_rules"
proof -
  have "valid_utf8 s" if "s \<in> set [''lastPlayed'', ''loved'', ''id'', ''p1'', ''year'', ''year,-rating'', []]" for s
    using that by (auto intro!: valid_utf8_ascii simp: byte_def)
  then have ok: "criteria_ok sample_rules"
    by (simp add: criteria_ok_def sample_rules_def plain_key_def in_int64_def byte_def)
  show ?thesis using criteria_round_trip [OF ok] by (simp add: sample_rules_def as_conjunction_def)
qed

text \<open>
  Outside of that, what is written without an error is not what is read: an empty conjunction inside
  another is written as an object without a key and lost, a percentage beyond 100 is cut, and a byte
  that is not UTF-8 is replaced.
\<close>

definition reread :: "criteria \<Rightarrow> json_error + criteria" where
  "reread c = (case marshal_criteria c of Inl e \<Rightarrow> Inl e | Inr v \<Rightarrow> unmarshal_criteria v)"

lemma lost_in_writing:
  assumes "c = \<lparr>c_expression = Some (All [All [], Rule Op_is [(''title'', J_str [CHR 0xE9])]]),
     c_sort = [], c_order = [], c_limit = 0, c_limit_percent = 150, c_offset = 0\<rparr>"
  shows "reread c = Inr (c\<lparr>c_limit_percent := 100,
     c_expression := Some (All [Rule Op_is [(''title'', J_str [CHR 0xEF, CHR 0xBF, CHR 0xBD])]])\<rparr>)"
  unfolding assms by code_simp

section \<open>What reading gives\<close>

text \<open>The playlists a condition reads.\<close>

fun sql_playlists :: "sqlizer \<Rightarrow> string list" where
  "sql_playlists (Sql_compare op m) = []"
| "sql_playlists (Sql_and es) = concat (map sql_playlists es)"
| "sql_playlists (Sql_or es) = concat (map sql_playlists es)"
| "sql_playlists (Sql_tag tag e negate) = sql_playlists e"
| "sql_playlists (Sql_role role e negate) = sql_playlists e"
| "sql_playlists (Sql_playlist p negate) = [p]"
| "sql_playlists (Sql_failed e) = []"

lemma range_parts_playlists: "range_parts m = Inr parts \<Longrightarrow> concat (map sql_playlists parts) = []"
proof (induction m arbitrary: parts)
  case (Cons fv m)
  obtain f v where fv: "fv = (f, v)" by fastforce
  obtain a b ps where "range_parts m = Inr ps"
    "parts = Sql_compare Sql_gt_or_eq [(f, a)] # Sql_compare Sql_lt_or_eq [(f, b)] # ps"
    using Cons.prems fv by (auto split: json_value.splits list.splits sum.splits)
  then show ?case using Cons.IH [of ps] by simp
qed simp

lemma condition_playlists:
  "sql_playlists (is_sqlizer fm m) = []" "sql_playlists (is_not_sqlizer fm m) = []"
  "sql_playlists (gt_sqlizer fm m) = []" "sql_playlists (lt_sqlizer fm m) = []"
  "sql_playlists (like_sqlizer fm pat negate m) = []"
  "sql_playlists (range_sqlizer fm m) = []" "sql_playlists (in_period fm fd now m negate) = []"
  using range_parts_playlists [of "map_fields fm m"]
  by (auto simp: is_sqlizer_def is_not_sqlizer_def gt_sqlizer_def lt_sqlizer_def like_sqlizer_def Let_def
      map_expr_def range_sqlizer_def in_period_def split: list.split sum.split option.split)

lemma sqlizer_playlists: "sql_playlists (to_sqlizer fm fd now e) = extract_playlist_ids e"
proof (induction e)
  case (Rule op m)
  show ?case
    by (cases op) (simp_all add: rule_sqlizer_def condition_playlists in_list_def split: option.split json_value.split)
qed (simp_all add: comp_def cong: map_cong)

lemma decode_field_ints:
  "decode_field kv aux = Inr aux' \<Longrightarrow> in_int64 (aux_limit aux) \<and> in_int64 (aux_offset aux) \<Longrightarrow>
     in_int64 (aux_limit aux') \<and> in_int64 (aux_offset aux')"
  by (cases kv) (auto simp: decode_field_def set_str_def set_int_def map_sum_def
      split: if_splits sum.splits json_value.splits)

lemma decode_fields_ints:
  "decode_fields kvs aux = Inr aux' \<Longrightarrow> in_int64 (aux_limit aux) \<and> in_int64 (aux_offset aux) \<Longrightarrow>
     in_int64 (aux_limit aux') \<and> in_int64 (aux_offset aux')"
proof (induction kvs arbitrary: aux)
  case (Cons kv kvs)
  then show ?case using decode_field_ints by (auto split: sum.splits)
qed simp

text \<open>C35. Rules that were read are a conjunction or a disjunction that is not empty, with a percentage of
  0 to 100, so the assertion of \<open>ChildPlaylistIds\<close> holds; the children it gives, which are refreshed
  first, are exactly the playlists the query reads, in the order of the rules.\<close>

theorem unmarshalled_criteria_typed:
  assumes "unmarshal_criteria v = Inr c"
  shows "\<exists>e es. c_expression c = Some e \<and> (e = All es \<or> e = Any es) \<and> es \<noteq> []
     \<and> c_limit_percent c \<in> {0..100} \<and> in_int64 (c_limit c) \<and> in_int64 (c_offset c)
     \<and> child_playlist_ids c = Some (sql_playlists (to_sqlizer fm fd now e))"
proof -
  obtain aux :: criteria_aux where aux: "in_int64 (aux_limit aux) \<and> in_int64 (aux_offset aux)"
    "aux_any aux \<noteq> [] \<or> aux_all aux \<noteq> []"
    "c = \<lparr>c_expression = Some (if aux_any aux \<noteq> [] then Any (aux_any aux) else All (aux_all aux)),
       c_sort = aux_sort aux, c_order = aux_order aux, c_limit = aux_limit aux,
       c_limit_percent = clamp_percent (aux_limit_percent aux), c_offset = aux_offset aux\<rparr>"
  proof -
    have i: "in_int64 (aux_limit aux_init) \<and> in_int64 (aux_offset aux_init)" by (simp add: aux_init_def in_int64_def)
    obtain aux where r: "decode_document v = Inr aux"
      using assms by (cases "decode_document v") (simp_all add: unmarshal_criteria_def)
    then have "in_int64 (aux_limit aux) \<and> in_int64 (aux_offset aux)"
      using decode_fields_ints [OF _ i] i by (auto simp: decode_document_def split: json_value.splits)
    moreover have "(if aux_any aux = [] \<and> aux_all aux = [] then Inl Err_missing_rules
          else Inr \<lparr>c_expression = Some (if aux_any aux \<noteq> [] then Any (aux_any aux) else All (aux_all aux)),
            c_sort = aux_sort aux, c_order = aux_order aux, c_limit = aux_limit aux,
            c_limit_percent = clamp_percent (aux_limit_percent aux), c_offset = aux_offset aux\<rparr>) = Inr c"
      using assms r by (simp add: unmarshal_criteria_def)
    ultimately show ?thesis using that [of aux] by (simp split: if_splits)
  qed
  then show ?thesis
    by (cases "aux_any aux = []")
      (auto simp: sqlizer_playlists child_playlist_ids_def clamp_percent_def comp_def)
qed

theorem unmarshalled_criteria_typed_witness:
  "\<exists>e es. c_expression (sample_rules\<lparr>c_limit_percent := 100\<rparr>) = Some e \<and> (e = All es \<or> e = Any es) \<and> es \<noteq> []
     \<and> child_playlist_ids (sample_rules\<lparr>c_limit_percent := 100\<rparr>) = Some [''p1'']"
proof -
  have "unmarshal_criteria (J_obj [(''limitPercent'', J_num 250), (''offset'', J_num (-1)), (''Sort'', J_str ''year,-rating''),
      (''any'', J_arr [J_obj [(''inTheLast'', J_obj [(''lastPlayed'', J_num 30)])],
         J_obj [(''all'', J_arr [J_obj [(''ISNOT'', J_obj [(''loved'', J_bool True)]),
           (''notInPlaylist'', J_obj [(''id'', J_str ''p1'')])],
           J_obj [(''inTheRange'', J_obj [(''year'', J_arr [J_num 1980, J_num 1989])])]])]])])
    = Inr (sample_rules\<lparr>c_limit_percent := 100\<rparr>)" by code_simp
  from unmarshalled_criteria_typed [OF this, of field_map_init "\<lambda>n. []" 0] show ?thesis
    by (auto simp: sample_rules_def sqlizer_playlists)
qed

text \<open>Built by hand, a criteria of one rule makes \<open>ChildPlaylistIds\<close> panic.\<close>

lemma child_ids_panic: "child_playlist_ids (sample_rules\<lparr>c_expression := Some (Rule Op_is m)\<rparr>) = None"
  by (simp add: child_playlist_ids_def)

end
