(* ===== verification/PlaylistRefresh.thy ===== *)
theory PlaylistRefresh
  imports CriteriaJson
begin

text \<open>
  The refresh of a smart playlist (\<open>refreshSmartPlaylist\<close> of \<open>persistence/playlist_repository.go\<close>): it
  empties the playlist, refreshes the playlists its rules read, fills it with the tracks its rules match
  and stamps it. The tables are maps; a statement can fail, which the list of faults decides in the
  order the statements run; the query builder and what SQLite selects for a query are parameters. A query
  that cannot be built runs no statement. The recursion of the code has no bound, so the model takes fuel
  and says when it has run out.
\<close>

section \<open>The tables\<close>

record playlist_row =
  pl_owner :: string
  pl_public :: bool
  pl_rules :: "criteria option"
  pl_evaluated_at :: "int option"
  pl_song_count :: nat

record playlist_db =
  db_rows :: "string \<rightharpoonup> playlist_row"
  db_tracks :: "string \<Rightarrow> string list"
  db_faults :: "bool list"

text \<open>The query the code builds for the tracks of a smart playlist.\<close>

record track_query =
  q_where :: sqlizer
  q_joins :: join_type
  q_limit :: "(int \<times> int) option"
  q_order :: string

record refresh_env =
  env_user :: string
  env_admin :: bool
  env_now :: int
  env_delay :: int
  env_fields :: field_map
  env_date :: "int \<Rightarrow> string"
  env_squirrel :: squirrel
  env_select :: "(string \<Rightarrow> string list) \<Rightarrow> track_query \<Rightarrow> string list"

datatype refresh_result =
    Out_of_fuel
  | Panicked
  | Refreshed bool playlist_db

definition is_smart_playlist :: "playlist_row \<Rightarrow> bool" where
  "is_smart_playlist pls \<longleftrightarrow> (case pl_rules pls of None \<Rightarrow> False | Some c \<Rightarrow> c_expression c \<noteq> None)"

definition statement :: "playlist_db \<Rightarrow> bool \<times> playlist_db" where
  "statement db = (case db_faults db of [] \<Rightarrow> (True, db) | f # fs \<Rightarrow> (\<not> f, db\<lparr>db_faults := fs\<rparr>))"

text \<open>\<open>Get\<close>: the row, when the user may see it.\<close>

definition visible :: "refresh_env \<Rightarrow> playlist_row \<Rightarrow> bool" where
  "visible env pls \<longleftrightarrow> env_admin env \<or> pl_public pls \<or> pl_owner pls = env_user env"

definition get_playlist :: "refresh_env \<Rightarrow> string \<Rightarrow> playlist_db \<Rightarrow> playlist_row option \<times> playlist_db" where
  "get_playlist env i db =
     (case statement db of (ok, db) \<Rightarrow>
        ((if ok then (case db_rows db i of Some pls \<Rightarrow> if visible env pls then Some pls else None | None \<Rightarrow> None)
          else None), db))"

definition needs_refresh :: "refresh_env \<Rightarrow> playlist_row \<Rightarrow> bool" where
  "needs_refresh env pls \<longleftrightarrow> is_smart_playlist pls
     \<and> \<not> (case pl_evaluated_at pls of None \<Rightarrow> False | Some t \<Rightarrow> env_now env - t < env_delay env)
     \<and> pl_owner pls = env_user env"

text \<open>\<open>addCriteria\<close>; the offset is converted to an unsigned number.\<close>

definition unsigned64 :: "int \<Rightarrow> int" where
  "unsigned64 n = uint (word_of_int n :: 64 word)"

definition criteria_where :: "refresh_env \<Rightarrow> criteria \<Rightarrow> sqlizer" where
  "criteria_where env c =
     (case c_expression c of Some e \<Rightarrow> to_sqlizer (env_fields env) (env_date env) (env_now env) e | None \<Rightarrow> Sql_and [])"

text \<open>\<open>ToSql\<close> of the rules within a query gives no error.\<close>

definition builds :: "refresh_env \<Rightarrow> criteria \<Rightarrow> bool" where
  "builds env c \<longleftrightarrow> (case print_sql (env_squirrel env) (env_fields env) (criteria_where env c) of (text, args, err) \<Rightarrow> err = None)"

definition add_criteria :: "refresh_env \<Rightarrow> join_type \<Rightarrow> criteria \<Rightarrow> track_query" where
  "add_criteria env joins c =
     \<lparr>q_where = criteria_where env c, q_joins = joins,
      q_limit = (if 0 < c_limit c then Some (unsigned64 (c_limit c), unsigned64 (c_offset c)) else None),
      q_order = order_by (env_fields env) c\<rparr>"

definition count_query :: "refresh_env \<Rightarrow> criteria \<Rightarrow> track_query" where
  "count_query env c =
     \<lparr>q_where = criteria_where env c, q_joins = expression_joins (env_fields env) c, q_limit = None, q_order = []\<rparr>"

text \<open>The percentage becomes a number of tracks; \<open>None\<close> when counting fails.\<close>

definition resolve_limit :: "refresh_env \<Rightarrow> criteria \<Rightarrow> playlist_db \<Rightarrow> criteria option \<times> playlist_db" where
  "resolve_limit env c db =
     (if is_percentage_limit c \<and> \<not> builds env c then (None, db)
      else if is_percentage_limit c then
        (case statement db of (ok, db) \<Rightarrow>
           ((if ok then
               Some (c\<lparr>c_limit := effective_limit c (int (length (env_select env (db_tracks db) (count_query env c)))),
                       c_limit_percent := 0\<rparr>)
             else None), db))
      else (Some c, db))"

text \<open>From the insertion on: the tracks, the counters and the stamp, each of which may fail.\<close>

definition set_row :: "string \<Rightarrow> (playlist_row \<Rightarrow> playlist_row) \<Rightarrow> playlist_db \<Rightarrow> playlist_db" where
  "set_row i f db = db\<lparr>db_rows := (db_rows db)(i := map_option f (db_rows db i))\<rparr>"

definition fill_playlist :: "refresh_env \<Rightarrow> string \<Rightarrow> criteria \<Rightarrow> playlist_db \<Rightarrow> refresh_result" where
  "fill_playlist env i rules db =
     (let joins = required_joins (env_fields env) rules in
      case resolve_limit env rules db of
        (None, db) \<Rightarrow> Refreshed False db
      | (Some rules', db) \<Rightarrow>
          if \<not> builds env rules' then Refreshed False db
          else (case statement db of (ok, db) \<Rightarrow>
             if \<not> ok then Refreshed False db
             else let db = db\<lparr>db_tracks := (db_tracks db)(i := db_tracks db i
                        @ env_select env (db_tracks db) (add_criteria env joins rules'))\<rparr>
             in case statement db of (ok, db) \<Rightarrow>
             if \<not> ok then Refreshed False db
             else let count = length (db_tracks db i) in
             case statement db of (ok, db) \<Rightarrow>
             if \<not> ok then Refreshed False db
             else let db = set_row i (\<lambda>r. r\<lparr>pl_song_count := count\<rparr>) db
             in case statement db of (ok, db) \<Rightarrow>
             if \<not> ok then Refreshed False db
             else Refreshed True (set_row i (\<lambda>r. r\<lparr>pl_evaluated_at := Some (env_now env)\<rparr>) db)))"

fun refresh :: "refresh_env \<Rightarrow> nat \<Rightarrow> string \<Rightarrow> playlist_row \<Rightarrow> playlist_db \<Rightarrow> refresh_result"
  and refresh_children :: "refresh_env \<Rightarrow> nat \<Rightarrow> string list \<Rightarrow> playlist_db \<Rightarrow> refresh_result" where
  "refresh env 0 i pls db = Out_of_fuel"
| "refresh env (Suc n) i pls db =
     (if \<not> needs_refresh env pls then Refreshed False db
      else case statement db of (ok, db) \<Rightarrow>
        if \<not> ok then Refreshed False db
        else let db = db\<lparr>db_tracks := (db_tracks db)(i := [])\<rparr>; rules = the (pl_rules pls) in
        case child_playlist_ids rules of
          None \<Rightarrow> Panicked
        | Some ids \<Rightarrow>
            (case refresh_children env n ids db of
               Refreshed True db \<Rightarrow> fill_playlist env i rules db
             | r \<Rightarrow> r))"
| "refresh_children env n [] db = Refreshed True db"
| "refresh_children env n (i # ids) db =
     (case get_playlist env i db of
        (None, db) \<Rightarrow> Refreshed False db
      | (Some child, db) \<Rightarrow>
          (case refresh env n i child db of
             Refreshed done db \<Rightarrow> refresh_children env n ids db
           | r \<Rightarrow> r))"

section \<open>What a refresh leaves alone\<close>

text \<open>The rules, the owner and the visibility of every playlist.\<close>

definition static_row :: "playlist_row \<Rightarrow> string \<times> bool \<times> criteria option" where
  "static_row r = (pl_owner r, pl_public r, pl_rules r)"

definition same_rules :: "playlist_db \<Rightarrow> playlist_db \<Rightarrow> bool" where
  "same_rules db db' \<longleftrightarrow> (\<forall>i. map_option static_row (db_rows db' i) = map_option static_row (db_rows db i))"

text \<open>Only the playlists of \<open>K\<close> have other tracks or another row.\<close>

definition only_touches :: "string set \<Rightarrow> playlist_db \<Rightarrow> playlist_db \<Rightarrow> bool" where
  "only_touches K db db' \<longleftrightarrow> (\<forall>k. k \<notin> K \<longrightarrow> db_tracks db' k = db_tracks db k \<and> db_rows db' k = db_rows db k)"

definition steps_ok :: "string set \<Rightarrow> playlist_db \<Rightarrow> playlist_db \<Rightarrow> bool" where
  "steps_ok K db db' \<longleftrightarrow> same_rules db db' \<and> only_touches K db db'"

lemma steps_refl [simp]: "steps_ok K db db"
  by (simp add: steps_ok_def same_rules_def only_touches_def)

lemma steps_trans: "steps_ok K a b \<Longrightarrow> steps_ok K b c \<Longrightarrow> steps_ok K a c"
  by (simp add: steps_ok_def same_rules_def only_touches_def)

lemma steps_mono: "steps_ok K a b \<Longrightarrow> K \<subseteq> L \<Longrightarrow> steps_ok L a b"
  by (auto simp: steps_ok_def only_touches_def)

lemma statement_parts: "statement db = (ok, db') \<Longrightarrow> db_rows db' = db_rows db \<and> db_tracks db' = db_tracks db"
  by (auto simp: statement_def split: list.splits)

lemma statement_steps: "statement db = (ok, db') \<Longrightarrow> steps_ok K db db'"
  using statement_parts by (simp add: steps_ok_def same_rules_def only_touches_def)

lemma tracks_steps: "i \<in> K \<Longrightarrow> steps_ok K db (db\<lparr>db_tracks := (db_tracks db)(i := ts)\<rparr>)"
  by (auto simp: steps_ok_def same_rules_def only_touches_def)

lemma row_steps: "i \<in> K \<Longrightarrow> (\<And>r. static_row (f r) = static_row r) \<Longrightarrow> steps_ok K db (set_row i f db)"
  by (auto simp: steps_ok_def same_rules_def only_touches_def set_row_def option.map_comp comp_def)

lemma row_steps_refresh:
  "i \<in> K \<Longrightarrow> steps_ok K db (set_row i (\<lambda>r. r\<lparr>pl_song_count := n\<rparr>) db)"
  "i \<in> K \<Longrightarrow> steps_ok K db (set_row i (\<lambda>r. r\<lparr>pl_evaluated_at := t\<rparr>) db)"
  by (auto intro!: row_steps simp: static_row_def)

section \<open>Filling\<close>

text \<open>The rules with a percentage turned into a number, for the tables the query reads.\<close>

definition resolved_rules :: "refresh_env \<Rightarrow> (string \<Rightarrow> string list) \<Rightarrow> criteria \<Rightarrow> criteria" where
  "resolved_rules env tracks c =
     (if is_percentage_limit c
      then c\<lparr>c_limit := effective_limit c (int (length (env_select env tracks (count_query env c)))), c_limit_percent := 0\<rparr>
      else c)"

lemma resolve_limit_cases:
  "resolve_limit env c db = (r, db') \<Longrightarrow>
     db_rows db' = db_rows db \<and> db_tracks db' = db_tracks db \<and> (r = None \<or> r = Some (resolved_rules env (db_tracks db) c))"
  using statement_parts
  by (fastforce simp: resolve_limit_def resolved_rules_def split: if_splits prod.splits)

definition filled :: "refresh_env \<Rightarrow> string \<Rightarrow> criteria \<Rightarrow> playlist_db \<Rightarrow> bool" where
  "filled env i rules db \<longleftrightarrow>
     (let tracks = (db_tracks db)(i := []) in
      db_tracks db i = env_select env tracks
        (add_criteria env (required_joins (env_fields env) rules) (resolved_rules env tracks rules)))
     \<and> (case db_rows db i of
          Some r \<Rightarrow> pl_evaluated_at r = Some (env_now env) \<and> pl_song_count r = length (db_tracks db i)
        | None \<Rightarrow> True)"

lemma fill_playlist_spec:
  obtains b db' where "fill_playlist env i rules db = Refreshed b db'" "steps_ok {i} db db'"
    "b \<and> db_tracks db i = [] \<longrightarrow> filled env i rules db'"
proof -
  obtain r db1 where r: "resolve_limit env rules db = (r, db1)" by fastforce
  note r' = resolve_limit_cases [OF r]
  have s1: "steps_ok {i} db db1" using r' by (simp add: steps_ok_def same_rules_def only_touches_def)
  show thesis
  proof (cases r)
    case None
    then show ?thesis using that [of False db1] r s1 by (simp add: fill_playlist_def Let_def)
  next
    case (Some rules')
    show ?thesis
    proof (cases "builds env rules'")
      case False
      then show ?thesis using that [of False db1] r s1 Some by (simp add: fill_playlist_def Let_def)
    next
      case True
      obtain ok2 db2 where t2: "statement db1 = (ok2, db2)" by fastforce
      have s2: "steps_ok {i} db db2" using s1 statement_steps [OF t2] steps_trans by blast
      define db3 where "db3 = db2\<lparr>db_tracks := (db_tracks db2)(i := db_tracks db2 i
          @ env_select env (db_tracks db2) (add_criteria env (required_joins (env_fields env) rules) rules'))\<rparr>"
      have s3: "steps_ok {i} db db3" unfolding db3_def using s2 tracks_steps steps_trans by blast
      obtain ok4 db4 where t4: "statement db3 = (ok4, db4)" by fastforce
      have s4: "steps_ok {i} db db4" using s3 statement_steps [OF t4] steps_trans by blast
      obtain ok5 db5 where t5: "statement db4 = (ok5, db5)" by fastforce
      have s5: "steps_ok {i} db db5" using s4 statement_steps [OF t5] steps_trans by blast
      define db6 where "db6 = set_row i (\<lambda>r. r\<lparr>pl_song_count := length (db_tracks db4 i)\<rparr>) db5"
      have s6: "steps_ok {i} db db6" unfolding db6_def using s5 row_steps_refresh(1) steps_trans by blast
      obtain ok7 db7 where t7: "statement db6 = (ok7, db7)" by fastforce
      have s7: "steps_ok {i} db db7" using s6 statement_steps [OF t7] steps_trans by blast
      define db8 where "db8 = set_row i (\<lambda>r. r\<lparr>pl_evaluated_at := Some (env_now env)\<rparr>) db7"
      have s8: "steps_ok {i} db db8" unfolding db8_def using s7 row_steps_refresh(2) steps_trans by blast
      have f: "filled env i rules db8" if e: "db_tracks db i = []"
      proof -
        have t: "db_tracks db2 = db_tracks db" using statement_parts [OF t2] r' by simp
        have t8: "db_tracks db8 = db_tracks db3"
          using statement_parts [OF t4] statement_parts [OF t5] statement_parts [OF t7]
          by (simp add: db8_def db6_def set_row_def)
        then have bk: "(db_tracks db8)(i := []) = db_tracks db" using t e by (auto simp: db3_def)
        have r8: "db_rows db8 = (db_rows db5)(i := map_option (\<lambda>r. r\<lparr>pl_song_count := length (db_tracks db3 i),
            pl_evaluated_at := Some (env_now env)\<rparr>) (db_rows db5 i))"
          using statement_parts [OF t4] statement_parts [OF t7]
          by (simp add: db8_def db6_def set_row_def option.map_comp comp_def)
        show ?thesis using t t8 bk r8 e Some r'
          by (simp add: filled_def Let_def db3_def split: option.split)
      qed
      have "fill_playlist env i rules db =
          (if \<not> ok2 then Refreshed False db2 else if \<not> ok4 then Refreshed False db4
           else if \<not> ok5 then Refreshed False db5 else if \<not> ok7 then Refreshed False db7 else Refreshed True db8)"
        using r Some True t2 t4 t5 t7 by (simp add: fill_playlist_def Let_def db3_def db6_def db8_def)
      then show ?thesis using that [of _ db2] that [of _ db4] that [of _ db5] that [of _ db7] that [of _ db8] s2 s4 s5 s7 s8 f
        by (simp split: if_splits)
    qed
  qed
qed

text \<open>Rules that no query can be built from never fill a playlist.\<close>

lemma unbuildable_rules_fail:
  assumes "\<not> builds env rules"
  shows "\<exists>db'. fill_playlist env i rules db = Refreshed False db' \<and> db_tracks db' = db_tracks db"
  using assms by (auto simp: fill_playlist_def resolve_limit_def Let_def builds_def)

section \<open>Playlists that do not depend on themselves\<close>

text \<open>A rank of the smart playlists that goes down from a playlist to the ones its rules read.\<close>

definition rank_ok :: "(string \<Rightarrow> nat) \<Rightarrow> playlist_db \<Rightarrow> bool" where
  "rank_ok rank db \<longleftrightarrow>
     (\<forall>i r. db_rows db i = Some r \<longrightarrow> is_smart_playlist r \<longrightarrow>
        (\<exists>ids. child_playlist_ids (the (pl_rules r)) = Some ids
           \<and> (\<forall>j \<in> set ids. \<forall>rj. db_rows db j = Some rj \<longrightarrow> is_smart_playlist rj \<longrightarrow> rank j < rank i)))"

lemma same_rules_row:
  "same_rules db db' \<Longrightarrow> db_rows db' i = Some r' \<Longrightarrow> \<exists>r. db_rows db i = Some r \<and> static_row r = static_row r'"
  unfolding same_rules_def by (metis option.map_disc_iff option.map_sel option.sel option.distinct(1) option.exhaust_sel)

lemma is_smart_static: "static_row r = static_row r' \<Longrightarrow> is_smart_playlist r = is_smart_playlist r' \<and> pl_rules r = pl_rules r'"
  by (simp add: static_row_def is_smart_playlist_def)

lemma rank_ok_same:
  assumes "rank_ok rank db" "same_rules db db'"
  shows "rank_ok rank db'"
  unfolding rank_ok_def
proof (intro allI impI)
  fix i r
  assume i: "db_rows db' i = Some r" "is_smart_playlist r"
  obtain r0 where r0: "db_rows db i = Some r0" "static_row r0 = static_row r" using same_rules_row [OF assms(2) i(1)] by blast
  then obtain ids where ids: "child_playlist_ids (the (pl_rules r)) = Some ids"
    "\<forall>j \<in> set ids. \<forall>rj. db_rows db j = Some rj \<longrightarrow> is_smart_playlist rj \<longrightarrow> rank j < rank i"
    using assms(1) i is_smart_static [OF r0(2)] unfolding rank_ok_def by metis
  have "rank j < rank i" if "j \<in> set ids" "db_rows db' j = Some rj" "is_smart_playlist rj" for j rj
    using ids(2) that same_rules_row [OF assms(2) that(2)] is_smart_static by metis
  then show "\<exists>ids. child_playlist_ids (the (pl_rules r)) = Some ids
      \<and> (\<forall>j \<in> set ids. \<forall>rj. db_rows db' j = Some rj \<longrightarrow> is_smart_playlist rj \<longrightarrow> rank j < rank i)"
    using ids(1) by blast
qed

text \<open>The playlists a refresh of rank \<open>m\<close> may touch.\<close>

definition below :: "(string \<Rightarrow> nat) \<Rightarrow> nat \<Rightarrow> string set" where
  "below rank m = {k. rank k < m}"

lemma get_playlist_cases:
  assumes "get_playlist env i db = (r, db')"
  shows "db_rows db' = db_rows db \<and> db_tracks db' = db_tracks db \<and> (r = None \<or> r = db_rows db i)"
proof -
  obtain ok d where s: "statement db = (ok, d)" by fastforce
  then show ?thesis using assms statement_parts [OF s]
    by (cases "db_rows db i") (auto simp: get_playlist_def split: if_splits)
qed

lemma children_spec:
  assumes "\<And>i pls db. rank_ok rank db \<Longrightarrow> db_rows db i = Some pls \<Longrightarrow> is_smart_playlist pls \<Longrightarrow> rank i < m \<Longrightarrow>
      \<exists>b db'. refresh env n i pls db = Refreshed b db' \<and> steps_ok (below rank m) db db'"
    and "0 < n"
  shows "rank_ok rank db \<Longrightarrow> \<forall>j \<in> set ids. \<forall>rj. db_rows db j = Some rj \<longrightarrow> is_smart_playlist rj \<longrightarrow> rank j < m \<Longrightarrow>
      \<exists>b db'. refresh_children env n ids db = Refreshed b db' \<and> steps_ok (below rank m) db db'"
proof (induction ids arbitrary: db)
  case (Cons i ids)
  obtain r d where g: "get_playlist env i db = (r, d)" by fastforce
  note g' = get_playlist_cases [OF g]
  have sd: "steps_ok (below rank m) db d" using g' by (simp add: steps_ok_def same_rules_def only_touches_def)
  show ?case
  proof (cases r)
    case None
    then show ?thesis using g sd by auto
  next
    case (Some child)
    then have row: "db_rows d i = Some child" using g' by simp
    have rk: "rank_ok rank d" using rank_ok_same Cons.prems(1) sd by (simp add: steps_ok_def)
    have "\<exists>b d'. refresh env n i child d = Refreshed b d' \<and> steps_ok (below rank m) d d'"
    proof (cases "is_smart_playlist child")
      case True
      then show ?thesis using assms(1) [OF rk row] Cons.prems(2) row g' by auto
    next
      case False
      then show ?thesis using assms(2) by (cases n) (auto simp: needs_refresh_def)
    qed
    then obtain b d' where d': "refresh env n i child d = Refreshed b d'" "steps_ok (below rank m) d d'" by blast
    have sd': "steps_ok (below rank m) db d'" using sd d'(2) steps_trans by blast
    have "\<forall>j \<in> set ids. \<forall>rj. db_rows d' j = Some rj \<longrightarrow> is_smart_playlist rj \<longrightarrow> rank j < m"
      using Cons.prems(2) sd' same_rules_row [of db d'] is_smart_static unfolding steps_ok_def
      by (metis list.set_intros(2))
    moreover have "rank_ok rank d'" using rank_ok_same Cons.prems(1) sd' by (simp add: steps_ok_def)
    ultimately obtain b2 d2 where "refresh_children env n ids d' = Refreshed b2 d2" "steps_ok (below rank m) d' d2"
      using Cons.IH by blast
    then show ?thesis using g Some d' sd' steps_trans by auto
  qed
qed auto

lemma refresh_spec:
  "rank_ok rank db \<Longrightarrow> db_rows db i = Some pls \<Longrightarrow> Suc (rank i) < n \<Longrightarrow>
     \<exists>b db'. refresh env n i pls db = Refreshed b db' \<and> steps_ok (insert i (below rank (rank i))) db db'
       \<and> (b \<longrightarrow> filled env i (the (pl_rules pls)) db')"
proof (induction n arbitrary: i pls db)
  case (Suc n)
  let ?K = "insert i (below rank (rank i))"
  show ?case
  proof (cases "needs_refresh env pls")
    case False
    then show ?thesis by auto
  next
    case True
    then have smart: "is_smart_playlist pls" by (simp add: needs_refresh_def)
    obtain ids where ids: "child_playlist_ids (the (pl_rules pls)) = Some ids"
      "\<forall>j \<in> set ids. \<forall>rj. db_rows db j = Some rj \<longrightarrow> is_smart_playlist rj \<longrightarrow> rank j < rank i"
      using Suc.prems(1,2) smart unfolding rank_ok_def by blast
    obtain ok d where st: "statement db = (ok, d)" by fastforce
    have sd: "steps_ok ?K db d" by (rule statement_steps [OF st])
    show ?thesis
    proof (cases ok)
      case False
      then show ?thesis using True st sd by auto
    next
      case ok: True
      define d1 where "d1 = d\<lparr>db_tracks := (db_tracks d)(i := [])\<rparr>"
      have sd1: "steps_ok ?K db d1" unfolding d1_def using sd tracks_steps steps_trans by blast
      have rk: "rank_ok rank d1" using rank_ok_same Suc.prems(1) sd1 by (simp add: steps_ok_def)
      have row: "db_rows d1 = db_rows db" using statement_parts [OF st] by (simp add: d1_def)
      have "\<exists>b d2. refresh_children env n ids d1 = Refreshed b d2 \<and> steps_ok (below rank (rank i)) d1 d2"
      proof (rule children_spec [OF _ _ rk])
        show "\<exists>b db'. refresh env n j pls' db0 = Refreshed b db' \<and> steps_ok (below rank (rank i)) db0 db'"
          if "rank_ok rank db0" "db_rows db0 j = Some pls'" "is_smart_playlist pls'" "rank j < rank i" for j pls' db0
        proof -
          note h = that
          have "insert j (below rank (rank j)) \<subseteq> below rank (rank i)" using h(4) by (auto simp: below_def)
          moreover obtain b db' where "refresh env n j pls' db0 = Refreshed b db'" "steps_ok (insert j (below rank (rank j))) db0 db'"
            using Suc.IH [OF h(1,2)] h(4) Suc.prems(3) by auto
          ultimately show ?thesis using steps_mono by blast
        qed
        show "0 < n" using Suc.prems(3) by simp
        show "\<forall>j \<in> set ids. \<forall>rj. db_rows d1 j = Some rj \<longrightarrow> is_smart_playlist rj \<longrightarrow> rank j < rank i"
          using ids(2) row by simp
      qed
      then obtain b2 d2 where d2: "refresh_children env n ids d1 = Refreshed b2 d2" "steps_ok (below rank (rank i)) d1 d2" by blast
      have sd2: "steps_ok ?K db d2" using sd1 d2(2) steps_mono [of _ d1 d2 ?K] steps_trans by blast
      have empty: "db_tracks d2 i = []" using d2(2) by (simp add: steps_ok_def only_touches_def below_def d1_def)
      obtain b db' where f: "fill_playlist env i (the (pl_rules pls)) d2 = Refreshed b db'" "steps_ok {i} d2 db'"
        "b \<and> db_tracks d2 i = [] \<longrightarrow> filled env i (the (pl_rules pls)) db'"
        using fill_playlist_spec by metis
      have sd': "steps_ok ?K db db'" using sd2 f(2) steps_mono [of "{i}" d2 db' ?K] steps_trans by blast
      have run: "refresh env (Suc n) i pls db = (if b2 then Refreshed b db' else Refreshed False d2)"
        using True st ok ids(1) d2(1) f(1) by (simp add: d1_def)
      show ?thesis using run sd2 sd' f(3) empty by (cases b2) (auto simp del: refresh.simps)
    qed
  qed
qed simp

text \<open>C36. When no smart playlist depends on itself, through however many others, a refresh ends, whatever
  statements fail, within one call for each step of the longest chain; it changes no rules, owner or
  visibility, and touches only the playlist and ones below it. When it succeeds, the playlist is stamped,
  and holds exactly what its query selects from the playlists as they then are.\<close>

theorem refresh_ends:
  assumes "rank_ok rank db" "db_rows db i = Some pls" "Suc (rank i) < fuel"
  shows "\<exists>b db'. refresh env fuel i pls db = Refreshed b db' \<and> same_rules db db'
     \<and> only_touches (insert i (below rank (rank i))) db db'
     \<and> (b \<longrightarrow> filled env i (the (pl_rules pls)) db')"
  using refresh_spec [OF assms, of env] by (auto simp: steps_ok_def)

definition playlist_rules :: "string list \<Rightarrow> criteria" where
  "playlist_rules ids = \<lparr>c_expression = Some (All (map (\<lambda>i. Rule Op_in_playlist [(''id'', J_str i)]) ids)),
     c_sort = [], c_order = [], c_limit = 0, c_limit_percent = 50, c_offset = 0\<rparr>"

definition smart_row :: "string list \<Rightarrow> playlist_row" where
  "smart_row ids = \<lparr>pl_owner = ''u'', pl_public = True, pl_rules = Some (playlist_rules ids),
     pl_evaluated_at = None, pl_song_count = 0\<rparr>"

definition sample_env :: refresh_env where
  "sample_env = \<lparr>env_user = ''u'', env_admin = False, env_now = 100, env_delay = 5, env_fields = field_map_init,
     env_date = (\<lambda>n. []), env_squirrel = \<lparr>sql_compare = (\<lambda>op m. ([], [], None)), sql_conj = (\<lambda>all rs. ([], [], None)),
       sql_public_playlist = (\<lambda>p. ([], [], None))\<rparr>, env_select = (\<lambda>tracks q. tracks ''b'')\<rparr>"

definition sample_db :: playlist_db where
  "sample_db = \<lparr>db_rows = [''a'' \<mapsto> smart_row [''b''], ''b'' \<mapsto> smart_row []], db_tracks = (\<lambda>i. [''t1'']),
     db_faults = [False, False, False, True]\<rparr>"

theorem refresh_ends_witness:
  "\<exists>b db'. refresh sample_env 3 ''a'' (smart_row [''b'']) sample_db = Refreshed b db' \<and> same_rules sample_db db'"
proof -
  have "rank_ok (\<lambda>i. if i = ''a'' then 1 else 0) sample_db"
    by (auto simp: rank_ok_def sample_db_def smart_row_def playlist_rules_def child_playlist_ids_def)
  from refresh_ends [OF this, of "''a''" "smart_row [''b'']" 3 sample_env] show ?thesis
    by (auto simp: sample_db_def)
qed

section \<open>Playlists that do\<close>

text \<open>Every playlist of \<open>S\<close> is due, and the first due playlist its rules read is in \<open>S\<close>.\<close>

definition cycle_of :: "refresh_env \<Rightarrow> string set \<Rightarrow> playlist_db \<Rightarrow> bool" where
  "cycle_of env S db \<longleftrightarrow>
     (\<forall>i \<in> S. \<exists>r before j after. db_rows db i = Some r \<and> needs_refresh env r
        \<and> child_playlist_ids (the (pl_rules r)) = Some (before @ j # after) \<and> j \<in> S
        \<and> (\<forall>k \<in> set before. \<exists>rk. db_rows db k = Some rk \<and> visible env rk \<and> \<not> needs_refresh env rk))"

lemma statement_no_faults: "db_faults db = [] \<Longrightarrow> statement db = (True, db)"
  by (simp add: statement_def)

lemma children_before:
  assumes "db_faults db = []" "\<forall>k \<in> set before. \<exists>rk. db_rows db k = Some rk \<and> visible env rk \<and> \<not> needs_refresh env rk"
  shows "refresh_children env (Suc n) (before @ ids) db = refresh_children env (Suc n) ids db"
  using assms(2)
proof (induction before)
  case (Cons k before)
  then obtain rk where "db_rows db k = Some rk" "visible env rk" "\<not> needs_refresh env rk" by auto
  then show ?case using Cons assms(1) by (simp add: get_playlist_def statement_no_faults)
qed simp

text \<open>A smart playlist whose rules lead back to itself is never refreshed: whatever the number of nested
  calls, they do not suffice, so the code recurses until the stack ends.\<close>

lemma refresh_of_cycle_diverges:
  assumes "cycle_of env S db" "db_faults db = []" "i \<in> S" "db_rows db i = Some pls"
  shows "refresh env fuel i pls db = Out_of_fuel"
  using assms
proof (induction fuel arbitrary: i pls db)
  case (Suc n)
  then obtain before j after where i: "needs_refresh env pls"
    "child_playlist_ids (the (pl_rules pls)) = Some (before @ j # after)" "j \<in> S"
    "\<forall>k \<in> set before. \<exists>rk. db_rows db k = Some rk \<and> visible env rk \<and> \<not> needs_refresh env rk"
    unfolding cycle_of_def by (metis option.inject)
  define d where "d = db\<lparr>db_tracks := (db_tracks db)(i := [])\<rparr>"
  have d: "db_rows d = db_rows db" "db_faults d = []" using Suc.prems(2) by (simp_all add: d_def)
  have c: "cycle_of env S d" using Suc.prems(1) d by (simp add: cycle_of_def)
  obtain rj where rj: "db_rows d j = Some rj" "needs_refresh env rj" using c i(3) unfolding cycle_of_def by blast
  then have v: "visible env rj" by (simp add: visible_def needs_refresh_def)
  have "refresh_children env n (before @ j # after) d = Out_of_fuel"
  proof (cases n)
    case 0
    have g: "get_playlist env k d = (Some rk, d)" if "db_rows d k = Some rk" "visible env rk" for k rk
      using that d by (simp add: get_playlist_def statement_no_faults)
    show ?thesis
    proof (cases before)
      case Nil
      then show ?thesis using 0 g [OF rj(1) v] by simp
    next
      case (Cons k ks)
      then obtain rk where "db_rows d k = Some rk" "visible env rk" using i(4) d by auto
      then show ?thesis using 0 Cons g [of k rk] by simp
    qed
  next
    case (Suc m)
    have "refresh_children env n (before @ j # after) d = refresh_children env n (j # after) d"
      using children_before [of d before env m] i(4) d Suc by simp
    also have "\<dots> = Out_of_fuel"
      using Suc.IH [OF c d(2) i(3) rj(1)] rj v d by (simp add: get_playlist_def statement_no_faults)
    finally show ?thesis .
  qed
  then show ?case using i Suc.prems(2) by (simp add: statement_no_faults d_def)
qed simp

definition cycle_db :: playlist_db where
  "cycle_db = \<lparr>db_rows = [''a'' \<mapsto> smart_row [''c'', ''b''], ''b'' \<mapsto> smart_row [''a''],
       ''c'' \<mapsto> (smart_row [])\<lparr>pl_rules := None\<rparr>], db_tracks = (\<lambda>i. []), db_faults = []\<rparr>"

lemma refresh_of_cycle_diverges_witness:
  "refresh sample_env 1000 ''a'' (smart_row [''c'', ''b'']) cycle_db = Out_of_fuel"
proof (rule refresh_of_cycle_diverges [of _ "{''a'', ''b''}"])
  have a: "child_playlist_ids (the (pl_rules (smart_row [''c'', ''b'']))) = Some ([''c''] @ ''b'' # [])"
    "child_playlist_ids (the (pl_rules (smart_row [''a'']))) = Some ([] @ ''a'' # [])"
    by (simp_all add: smart_row_def playlist_rules_def child_playlist_ids_def)
  have n: "needs_refresh sample_env (smart_row ids)" for ids
    by (simp add: needs_refresh_def smart_row_def is_smart_playlist_def playlist_rules_def sample_env_def)
  have c: "\<forall>k \<in> set [''c'']. \<exists>rk. db_rows cycle_db k = Some rk \<and> visible sample_env rk \<and> \<not> needs_refresh sample_env rk"
    by (simp add: cycle_db_def smart_row_def visible_def needs_refresh_def is_smart_playlist_def)
  have "db_rows cycle_db ''a'' = Some (smart_row [''c'', ''b''])" "db_rows cycle_db ''b'' = Some (smart_row [''a''])"
    by (simp_all add: cycle_db_def)
  then show "cycle_of sample_env {''a'', ''b''} cycle_db"
    unfolding cycle_of_def using a n c by (metis empty_iff empty_set insertCI insertE)
qed (simp_all add: cycle_db_def)

text \<open>The deletion comes first: when a playlist the rules name is gone, the refresh leaves nothing.\<close>

lemma missing_child_empties:
  assumes "needs_refresh env pls" "db_faults db = []" "db_rows db j = None"
    "child_playlist_ids (the (pl_rules pls)) = Some (j # ids)"
  shows "refresh env (Suc n) i pls db = Refreshed False (db\<lparr>db_tracks := (db_tracks db)(i := [])\<rparr>)"
  using assms by (simp add: statement_no_faults get_playlist_def)

end
