(* ===== verification/PlaylistTracks.thy ===== *)
theory PlaylistTracks
  imports Prelude
begin

text \<open>
  The positions of the tracks of one playlist (\<open>persistence/playlist_track_repository.go\<close> and the end of
  \<open>playlist_repository.go\<close>). The rows of \<open>playlist_tracks\<close> with the playlist's id are a list of
  positions (the column \<open>id\<close>) and media file ids, in the order a statement visits them; the index on
  the playlist and the position is unique, and SQLite checks it row by row while a statement runs. A
  failed statement (\<open>None\<close>) makes the operation fail, and its transaction is rolled back.
\<close>

section \<open>The statements\<close>

type_synonym track_rows = "(int \<times> string) list"

fun update_from :: "(int \<Rightarrow> bool) \<Rightarrow> (int \<Rightarrow> int) \<Rightarrow> track_rows \<Rightarrow> track_rows \<Rightarrow> track_rows option" where
  "update_from cond f done [] = Some done"
| "update_from cond f done ((i, m) # rest) =
     (if cond i then
        (if f i \<in> set (map fst (done @ rest)) then None else update_from cond f (done @ [(f i, m)]) rest)
      else update_from cond f (done @ [(i, m)]) rest)"

definition update_where :: "(int \<Rightarrow> bool) \<Rightarrow> (int \<Rightarrow> int) \<Rightarrow> track_rows \<Rightarrow> track_rows option" where
  "update_where cond f rows = update_from cond f [] rows"

definition insert_rows :: "track_rows \<Rightarrow> track_rows \<Rightarrow> track_rows option" where
  "insert_rows new rows =
     (if distinct (map fst (rows @ new)) then Some (rows @ new) else None)"

section \<open>The operations\<close>

text \<open>\<open>addTracks\<close>, in chunks of 200; each inserted chunk stays when a later one fails.\<close>

function add_chunks :: "int \<Rightarrow> string list \<Rightarrow> track_rows \<Rightarrow> track_rows option" where
  "add_chunks pos ids rows =
     (if ids = [] then Some rows
      else case insert_rows (zip (map (\<lambda>k. pos + int k) [0..<length (take 200 ids)]) (take 200 ids)) rows of
             None \<Rightarrow> None
           | Some rows' \<Rightarrow> add_chunks (pos + int (length (take 200 ids))) (drop 200 ids) rows')"
  by pat_completeness auto
termination
  by (relation "measure (\<lambda>(pos, ids, rows). length ids)") auto

declare add_chunks.simps [simp del]

definition add_tracks :: "string list \<Rightarrow> track_rows \<Rightarrow> track_rows option" where
  "add_tracks ids rows =
     (if ids = [] then Some rows
      else add_chunks ((if rows = [] then 0 else Max (set (map fst rows))) + 1) ids rows)"

text \<open>\<open>updatePlaylist\<close> replaces the tracks.\<close>

definition replace_tracks :: "string list \<Rightarrow> track_rows option" where
  "replace_tracks ids = add_chunks 1 ids []"

text \<open>\<open>renumber\<close>: negate the positions, then number the rows by descending position.\<close>

definition row_number :: "track_rows \<Rightarrow> int \<Rightarrow> int" where
  "row_number rows i = 1 + int (length (filter (\<lambda>r. i < fst r) rows))"

definition renumber :: "track_rows \<Rightarrow> track_rows option" where
  "renumber rows =
     (case update_where (\<lambda>i. 0 < i) (\<lambda>i. - i) rows of
        None \<Rightarrow> None
      | Some rows' \<Rightarrow> update_where (\<lambda>i. True) (row_number rows') rows')"

definition delete_tracks :: "int list \<Rightarrow> track_rows \<Rightarrow> track_rows option" where
  "delete_tracks ps rows = renumber (filter (\<lambda>r. fst r \<notin> set ps) rows)"

definition sentinel :: int where "sentinel = - 999999"

definition reorder :: "int \<Rightarrow> int \<Rightarrow> track_rows \<Rightarrow> track_rows option" where
  "reorder pos new_pos rows =
     (if pos = new_pos then Some rows
      else Option.bind (update_where (\<lambda>i. i = pos) (\<lambda>i. sentinel) rows) (\<lambda>rows.
        Option.bind
          (if pos < new_pos then update_where (\<lambda>i. pos < i \<and> i \<le> new_pos) (\<lambda>i. - (i - 1)) rows
           else update_where (\<lambda>i. new_pos \<le> i \<and> i < pos) (\<lambda>i. - (i + 1)) rows) (\<lambda>rows.
        Option.bind (update_where (\<lambda>i. i < 0 \<and> i \<noteq> sentinel) (\<lambda>i. - i) rows) (\<lambda>rows.
        update_where (\<lambda>i. i = sentinel) (\<lambda>i. new_pos) rows))))"

section \<open>Updates that meet no other row\<close>

lemma update_from_ok:
  assumes "\<And>i. i \<in> set (map fst rows) \<Longrightarrow> cond i \<Longrightarrow> f i \<notin> set (map fst (before @ rows))"
    and "inj_on f {i \<in> set (map fst rows). cond i}" "distinct (map fst rows)"
  shows "update_from cond f before rows = Some (before @ map (\<lambda>(i, m). (if cond i then f i else i, m)) rows)"
  using assms
proof (induction rows arbitrary: before)
  case (Cons r rows)
  obtain i m where r: "r = (i, m)" by fastforce
  let ?b = "before @ [(if cond i then f i else i, m)]"
  have "f j \<notin> set (map fst (?b @ rows))" if j: "j \<in> set (map fst rows)" "cond j" for j
  proof -
    have "f j \<notin> set (map fst (before @ r # rows))" using Cons.prems(1) [of j] j by simp
    moreover have "f j \<noteq> f i" if c: "cond i"
    proof
      assume e: "f j = f i"
      have "j = i" by (rule inj_onD [OF Cons.prems(2) e]) (use j c r in simp_all)
      then show False using j Cons.prems(3) r by simp
    qed
    ultimately show ?thesis using r by (simp split: if_splits)
  qed
  moreover have "inj_on f {i \<in> set (map fst rows). cond i}" using Cons.prems(2) by (rule inj_on_subset) auto
  ultimately have "update_from cond f ?b rows = Some (?b @ map (\<lambda>(i, m). (if cond i then f i else i, m)) rows)"
    using Cons.IH [of ?b] Cons.prems(3) by simp
  moreover have "f i \<notin> set (map fst (before @ rows))" if "cond i"
    using Cons.prems(1) [of i] that r by simp
  ultimately show ?case using r by (cases "cond i") simp_all
qed simp

lemma update_where_ok:
  assumes "\<And>i. i \<in> set (map fst rows) \<Longrightarrow> cond i \<Longrightarrow> f i \<notin> set (map fst rows)"
    and "inj_on f {i \<in> set (map fst rows). cond i}" "distinct (map fst rows)"
  shows "update_where cond f rows = Some (map (\<lambda>(i, m). (if cond i then f i else i, m)) rows)"
  using update_from_ok [of rows cond f "[]"] assms by (simp add: update_where_def)

lemma map_positions: "map fst (map (\<lambda>(i, m). (g i, m)) rows) = map g (map fst rows)"
  by (induction rows) auto

section \<open>The tracks in order\<close>

definition tracks_in_order :: "track_rows \<Rightarrow> string list" where
  "tracks_in_order rows = map snd (sort_key fst rows)"

text \<open>The positions are 1 up to the number of tracks.\<close>

definition positions_ok :: "track_rows \<Rightarrow> bool" where
  "positions_ok rows \<longleftrightarrow> distinct (map fst rows) \<and> set (map fst rows) = {1..int (length rows)}"

lemma sort_key_map_mono:
  "(\<And>r s. r \<in> set rows \<Longrightarrow> s \<in> set rows \<Longrightarrow> fst r < fst s \<Longrightarrow> g (fst r) < g (fst s)) \<Longrightarrow> distinct (map fst rows) \<Longrightarrow>
     sort_key fst (map (\<lambda>(i, m). (g i, m)) rows) = map (\<lambda>(i, m). (g i, m)) (sort_key fst rows)"
  for g :: "int \<Rightarrow> int"
proof -
  assume mono: "\<And>r s. r \<in> set rows \<Longrightarrow> s \<in> set rows \<Longrightarrow> fst r < fst s \<Longrightarrow> g (fst r) < g (fst s)"
    and d: "distinct (map fst rows)"
  let ?h = "\<lambda>(i, m). (g i, m)"
  have inj: "inj_on g (set (map fst rows))"
    by (rule linorder_inj_onI') (use mono in fastforce)
  have s: "sorted (map fst (map ?h (sort_key fst rows)))"
  proof -
    have "sorted_wrt (<) (map fst (sort_key fst rows))"
      using d by (simp add: strict_sorted_iff distinct_map inj_on_def)
    then have "sorted_wrt (\<lambda>r s. fst r < fst s) (sort_key fst rows)" by (simp add: sorted_wrt_map)
    then have "sorted_wrt (\<lambda>r s. g (fst r) \<le> g (fst s)) (sort_key fst rows)"
      by (rule sorted_wrt_mono_rel [rotated]) (use mono in \<open>auto simp: less_imp_le\<close>)
    then show ?thesis by (simp add: sorted_wrt_map case_prod_beta comp_def)
  qed
  have dd: "distinct (map fst (map ?h rows))"
    unfolding map_positions using d inj by (simp only: distinct_map [of g] set_map)
  show ?thesis
  proof (rule map_sorted_distinct_set_unique [where f = fst])
    show "inj_on fst (set (sort_key fst (map ?h rows)) \<union> set (map ?h (sort_key fst rows)))"
    proof -
      have "inj_on fst (set (map ?h rows))" using dd by (simp only: distinct_map)
      then show ?thesis by simp
    qed
    show "sorted (map fst (sort_key fst (map ?h rows)))" by simp
    show "distinct (map fst (sort_key fst (map ?h rows)))"
      using dd by (simp only: distinct_map set_sort distinct_sort)
    show "sorted (map fst (map ?h (sort_key fst rows)))" by (rule s)
    show "distinct (map fst (map ?h (sort_key fst rows)))"
      unfolding map_positions using d inj by (simp only: distinct_map set_map set_sort distinct_sort)
    show "set (sort_key fst (map ?h rows)) = set (map ?h (sort_key fst rows))" by simp
  qed
qed

lemma tracks_in_order_mono:
  "(\<And>r s. r \<in> set rows \<Longrightarrow> s \<in> set rows \<Longrightarrow> fst r < fst s \<Longrightarrow> g (fst r) < g (fst s)) \<Longrightarrow> distinct (map fst rows) \<Longrightarrow>
     tracks_in_order (map (\<lambda>(i, m). (g i, m)) rows) = tracks_in_order rows"
  for g :: "int \<Rightarrow> int"
proof -
  assume m: "\<And>r s. r \<in> set rows \<Longrightarrow> s \<in> set rows \<Longrightarrow> fst r < fst s \<Longrightarrow> g (fst r) < g (fst s)"
    and d: "distinct (map fst rows)"
  have "sort_key fst (map (\<lambda>(i, m). (g i, m)) rows) = map (\<lambda>(i, m). (g i, m)) (sort_key fst rows)"
    by (rule sort_key_map_mono) (rule m, assumption+, rule d)
  then show ?thesis by (simp add: tracks_in_order_def case_prod_beta comp_def)
qed

lemma length_tracks_in_order [simp]: "length (tracks_in_order rows) = length rows"
  by (simp add: tracks_in_order_def)

section \<open>Renumbering\<close>

definition place :: "track_rows \<Rightarrow> int \<Rightarrow> int" where
  "place rows i = 1 + int (length (filter (\<lambda>r. fst r < i) rows))"

lemma filter_shrinks:
  assumes "\<And>r. r \<in> set rows \<Longrightarrow> P r \<Longrightarrow> Q r" "r \<in> set rows" "Q r" "\<not> P r"
  shows "length (filter P rows) < length (filter Q rows)"
proof -
  have "filter P rows = filter P (filter Q rows)" using assms(1) by (auto simp: filter_filter intro: filter_cong)
  moreover have "r \<in> set (filter Q rows)" using assms by simp
  ultimately show ?thesis using assms(4) length_filter_less [of r "filter Q rows" P] by simp
qed

lemma place_mono: "r \<in> set rows \<Longrightarrow> fst r < i \<Longrightarrow> place rows (fst r) < place rows i"
  unfolding place_def using filter_shrinks [of rows "\<lambda>s. fst s < fst r" "\<lambda>s. fst s < i" r] by simp

lemma place_bounds: "r \<in> set rows \<Longrightarrow> place rows (fst r) \<in> {1..int (length rows)}"
  using length_filter_less [of r rows "\<lambda>s. fst s < fst r"] by (simp add: place_def)

lemma place_inj: "inj_on (place rows) (set (map fst rows))"
proof (rule linorder_inj_onI')
  fix i j assume "i \<in> set (map fst rows)" "j \<in> set (map fst rows)" "i < j"
  then show "place rows i \<noteq> place rows j" using place_mono [of _ rows j] by fastforce
qed

lemma positions_ok_place:
  assumes "distinct (map fst rows)"
  shows "positions_ok (map (\<lambda>(i, m). (place rows i, m)) rows)"
proof -
  have d: "distinct (map (place rows) (map fst rows))"
    using assms place_inj by (simp only: distinct_map [of "place rows"] set_map)
  have "set (map (place rows) (map fst rows)) \<subseteq> {1..int (length rows)}" using place_bounds by fastforce
  moreover have "card (set (map (place rows) (map fst rows))) = length rows" using distinct_card [OF d] by simp
  ultimately have "set (map (place rows) (map fst rows)) = {1..int (length rows)}"
    by (intro card_subset_eq) simp_all
  then show ?thesis using d unfolding positions_ok_def map_positions by simp
qed

lemma renumber_spec:
  assumes "distinct (map fst rows)" "\<forall>i \<in> set (map fst rows). 0 < i"
  shows "renumber rows = Some (map (\<lambda>(i, m). (place rows i, m)) rows)"
proof -
  let ?neg = "map (\<lambda>(i, m). (- i, m)) rows"
  have "update_where (\<lambda>i. 0 < i) (\<lambda>i. - i) rows = Some (map (\<lambda>(i, m). (if 0 < i then - i else i, m)) rows)"
  proof (rule update_where_ok)
    show "- i \<notin> set (map fst rows)" if "i \<in> set (map fst rows)" "0 < i" for i
      using assms(2) that by (metis neg_0_less_iff_less order_less_asym)
  qed (simp_all add: inj_on_def assms(1))
  also have "map (\<lambda>(i, m). (if 0 < i then - i else i, m)) rows = ?neg" using assms(2) by auto
  finally have s1: "update_where (\<lambda>i. 0 < i) (\<lambda>i. - i) rows = Some ?neg" .
  have rn: "row_number ?neg i = place rows (- i)" for i
  proof -
    have "length (filter (\<lambda>r. i < fst r) (map (\<lambda>(i, m). (- i, m)) xs)) = length (filter (\<lambda>r. fst r < - i) xs)" for xs :: track_rows
      by (induction xs) auto
    then show ?thesis by (simp add: row_number_def place_def)
  qed
  have "update_where (\<lambda>i. True) (row_number ?neg) ?neg
      = Some (map (\<lambda>(i, m). (if True then row_number ?neg i else i, m)) ?neg)"
  proof (rule update_where_ok)
    show "row_number ?neg i \<notin> set (map fst ?neg)" for i
      using assms(2) by (auto simp: row_number_def)
    have "inj_on (\<lambda>i. place rows (- i)) (uminus ` set (map fst rows))"
      using place_inj by (auto simp: inj_on_def)
    moreover have "{i \<in> set (map fst ?neg). True} = uminus ` set (map fst rows)"
      unfolding map_positions by (simp add: image_image)
    moreover have "row_number ?neg = (\<lambda>i. place rows (- i))" using rn by blast
    ultimately show "inj_on (row_number ?neg) {i \<in> set (map fst ?neg). True}" by simp
    show "distinct (map fst ?neg)" unfolding map_positions
      using assms(1) by (simp only: distinct_map [of uminus]) simp
  qed
  also have "map (\<lambda>(i, m). (if True then row_number ?neg i else i, m)) ?neg = map (\<lambda>(i, m). (place rows i, m)) rows"
    by (auto simp: rn)
  finally show ?thesis using s1 by (simp add: renumber_def)
qed

lemma renumber_order:
  assumes "distinct (map fst rows)" "\<forall>i \<in> set (map fst rows). 0 < i"
  obtains rows' where "renumber rows = Some rows'" "positions_ok rows'" "tracks_in_order rows' = tracks_in_order rows"
    "length rows' = length rows"
proof -
  have "tracks_in_order (map (\<lambda>(i, m). (place rows i, m)) rows) = tracks_in_order rows"
    by (rule tracks_in_order_mono) (use place_mono assms in auto)
  then show ?thesis using that renumber_spec [OF assms] positions_ok_place [OF assms(1)] by simp
qed
section \<open>Adding and deleting\<close>

lemma sort_key_append_above:
  fixes xs ys :: track_rows
  assumes "\<forall>r \<in> set xs. \<forall>s \<in> set ys. fst r \<le> fst s" "sorted (map fst ys)" "distinct (map fst (xs @ ys))"
  shows "sort_key fst (xs @ ys) = sort_key fst xs @ ys"
proof (rule map_sorted_distinct_set_unique [where f = fst])
  have "inj_on fst (set (xs @ ys))" using assms(3) by (simp only: distinct_map)
  then show "inj_on fst (set (sort_key fst (xs @ ys)) \<union> set (sort_key fst xs @ ys))" by simp
  show "sorted (map fst (sort_key fst xs @ ys))" using assms by (simp add: sorted_append)
  show "distinct (map fst (sort_key fst (xs @ ys)))"
    using assms(3) by (simp only: distinct_map set_sort distinct_sort)
  show "distinct (map fst (sort_key fst xs @ ys))" using assms(3) by (auto simp: distinct_map inj_on_def)
qed simp_all

definition numbered :: "int \<Rightarrow> string list \<Rightarrow> track_rows" where
  "numbered pos ids = zip (map (\<lambda>k. pos + int k) [0..<length ids]) ids"

lemma numbered_simps [simp]:
  "map fst (numbered pos ids) = map (\<lambda>k. pos + int k) [0..<length ids]" "map snd (numbered pos ids) = ids"
  "length (numbered pos ids) = length ids"
  by (simp_all add: numbered_def)

lemma numbered_append: "numbered pos (xs @ ys) = numbered pos xs @ numbered (pos + int (length xs)) ys"
  by (rule nth_equalityI) (auto simp: numbered_def nth_append)

lemma add_chunks_spec:
  "distinct (map fst rows) \<Longrightarrow> \<forall>i \<in> set (map fst rows). i < pos \<Longrightarrow> add_chunks pos ids rows = Some (rows @ numbered pos ids)"
proof (induction pos ids rows rule: add_chunks.induct)
  case (1 pos ids rows)
  show ?case
  proof (cases "ids = []")
    case True
    then show ?thesis by (simp add: add_chunks.simps numbered_def)
  next
    case False
    let ?c = "take 200 ids"
    have d: "distinct (map fst (rows @ numbered pos ?c))"
    proof -
      have "distinct (map fst (numbered pos ?c))" by (simp add: distinct_map inj_on_def)
      moreover have "\<forall>i \<in> set (map fst (numbered pos ?c)). pos \<le> i" by (simp del: length_take)
      ultimately show ?thesis using 1(2,3) unfolding map_append distinct_append by fastforce
    qed
    then have ins: "insert_rows (numbered pos ?c) rows = Some (rows @ numbered pos ?c)" by (simp only: insert_rows_def if_True)
    have lt: "\<forall>i \<in> set (map fst (rows @ numbered pos ?c)). i < pos + int (length ?c)"
    proof -
      have "\<forall>i \<in> set (map fst (numbered pos ?c)). i < pos + int (length ?c)" unfolding numbered_simps by auto
      then show ?thesis using 1(3) unfolding map_append set_append by fastforce
    qed
    have "add_chunks (pos + int (length ?c)) (drop 200 ids) (rows @ numbered pos ?c)
        = Some ((rows @ numbered pos ?c) @ numbered (pos + int (length ?c)) (drop 200 ids))"
      by (rule 1(1) [OF False _ d lt]) (use ins in \<open>simp add: numbered_def\<close>)
    also have "(rows @ numbered pos ?c) @ numbered (pos + int (length ?c)) (drop 200 ids) = rows @ numbered pos ids"
      using numbered_append [of pos ?c "drop 200 ids"] by simp
    finally show ?thesis using False ins by (subst add_chunks.simps) (simp add: numbered_def)
  qed
qed

lemma positions_ok_append:
  assumes "positions_ok rows"
  shows "positions_ok (rows @ numbered (int (length rows) + 1) ids)"
proof -
  let ?n = "int (length rows)"
  have "set (map (\<lambda>k. ?n + 1 + int k) [0..<length ids]) = {?n + 1..?n + int (length ids)}"
  proof -
    have "x \<in> (\<lambda>k. ?n + 1 + int k) ` {0..<length ids}" if "?n + 1 \<le> x" "x \<le> ?n + int (length ids)" for x
      by (rule image_eqI [where x = "nat (x - ?n - 1)"]) (use that in auto)
    then show ?thesis by auto
  qed
  moreover have "distinct (map (\<lambda>k. ?n + 1 + int k) [0..<length ids])" by (simp add: distinct_map inj_on_def)
  ultimately show ?thesis using assms unfolding positions_ok_def map_append numbered_simps distinct_append set_append
    by auto
qed

lemma numbered_order: "tracks_in_order (numbered pos ids) = ids"
proof -
  have "sorted (map fst (numbered pos ids))" by (simp add: sorted_iff_nth_mono)
  then have "sort_key fst (numbered pos ids) = numbered pos ids" by (rule sort_key_id_if_sorted)
  then show ?thesis by (simp add: tracks_in_order_def)
qed

lemma add_tracks_spec:
  assumes "positions_ok rows"
  shows "\<exists>added. add_tracks ids rows = Some added \<and> positions_ok added \<and> tracks_in_order added = tracks_in_order rows @ ids"
proof -
  have d: "distinct (map fst rows)" and ids: "set (map fst rows) = {1..int (length rows)}"
    using assms by (auto simp: positions_ok_def)
  have mx: "(if rows = [] then 0 else Max (set (map fst rows))) = int (length rows)"
  proof (cases "rows = []")
    case False
    then have "Max {1..int (length rows)} = int (length rows)" by (intro Max_eqI) (auto simp: Suc_le_eq)
    then show ?thesis using False ids by simp
  qed simp
  have lt: "\<forall>i \<in> set (map fst rows). i < int (length rows) + 1" using ids by simp
  let ?added = "rows @ numbered (int (length rows) + 1) ids"
  have add: "add_tracks ids rows = Some ?added"
    using add_chunks_spec [OF d lt, of ids] mx by (simp add: add_tracks_def numbered_def)
  have srt: "sort_key fst ?added = sort_key fst rows @ numbered (int (length rows) + 1) ids"
  proof (rule sort_key_append_above)
    have "\<forall>j \<in> set (map fst (numbered (int (length rows) + 1) ids)). int (length rows) < j" by auto
    then show "\<forall>r \<in> set rows. \<forall>s \<in> set (numbered (int (length rows) + 1) ids). fst r \<le> fst s"
      using lt by (metis image_eqI order_less_imp_le set_map zless_add1_eq order_le_less_trans)
    show "sorted (map fst (numbered (int (length rows) + 1) ids))" by (simp add: sorted_iff_nth_mono)
    show "distinct (map fst ?added)" using positions_ok_append [OF assms] by (simp only: positions_ok_def)
  qed
  have ord: "tracks_in_order ?added = tracks_in_order rows @ ids"
    unfolding tracks_in_order_def srt map_append by simp
  show ?thesis using add positions_ok_append [OF assms] ord by auto
qed

lemma sorted_positions:
  assumes "positions_ok rows"
  shows "sort_key fst rows = zip [1..int (length rows)] (tracks_in_order rows)"
proof -
  have "map fst (sort_key fst rows) = [1..int (length rows)]"
    by (rule sorted_distinct_set_unique) (use assms in \<open>simp_all add: positions_ok_def distinct_map\<close>)
  then show ?thesis unfolding tracks_in_order_def by (metis zip_map_fst_snd)
qed

lemma delete_tracks_spec:
  assumes "positions_ok rows"
  shows "\<exists>kept. delete_tracks ps rows = Some kept \<and> positions_ok kept
    \<and> tracks_in_order kept = map snd (filter (\<lambda>(p, m). p \<notin> set ps) (zip [1..int (length rows)] (tracks_in_order rows)))"
proof -
  have d: "distinct (map fst rows)" and ids: "set (map fst rows) = {1..int (length rows)}"
    using assms by (auto simp: positions_ok_def)
  let ?rest = "filter (\<lambda>r. fst r \<notin> set ps) rows"
  have "distinct (map fst ?rest)" using d by (simp add: distinct_map_filter)
  moreover have "\<forall>i \<in> set (map fst ?rest). 0 < i"
  proof -
    have "set (map fst ?rest) \<subseteq> {1..int (length rows)}" unfolding ids [symmetric] by auto
    then show ?thesis by (meson atLeastAtMost_iff less_le_trans subsetD zero_less_one)
  qed
  ultimately obtain kept where kept: "renumber ?rest = Some kept" "positions_ok kept"
    "tracks_in_order kept = tracks_in_order ?rest" using renumber_order by metis
  have "tracks_in_order ?rest = map snd (filter (\<lambda>r. fst r \<notin> set ps) (sort_key fst rows))"
    by (simp add: tracks_in_order_def filter_sort)
  also have "\<dots> = map snd (filter (\<lambda>(p, m). p \<notin> set ps) (zip [1..int (length rows)] (tracks_in_order rows)))"
    unfolding sorted_positions [OF assms] by (simp add: case_prod_beta' split_def)
  finally show ?thesis using kept by (auto simp: delete_tracks_def)
qed

text \<open>The same with indices from 0.\<close>

lemma positions_shift:
  "map snd (filter (\<lambda>(p, m). p \<notin> set (map (\<lambda>k. k + 1) ks)) (zip [1..int n] xs))
     = map snd (filter (\<lambda>(p, m). p \<notin> set ks) (zip [0..int n - 1] xs))"
proof -
  have "[1..int n] = map (\<lambda>k. k + 1) [0..int n - 1]"
    by (rule nth_equalityI) (simp_all add: nth_upto)
  then have "zip [1..int n] xs = map (\<lambda>(p, m). (p + 1, m)) (zip [0..int n - 1] xs)"
    by (simp add: zip_map1)
  moreover have "k + 1 \<in> (\<lambda>k. k + 1) ` set ks \<longleftrightarrow> k \<in> set ks" for k by auto
  ultimately show ?thesis by (simp add: filter_map comp_def case_prod_unfold)
qed

text \<open>Adding tracks appends them in order, and deleting positions leaves the other tracks in their order;
  no statement meets the unique index, and the positions are 1 up to the number of tracks again.\<close>

lemma add_delete_tracks:
  assumes "positions_ok rows"
  shows "\<exists>added kept. add_tracks ids rows = Some added \<and> positions_ok added
       \<and> tracks_in_order added = tracks_in_order rows @ ids
     \<and> delete_tracks ps rows = Some kept \<and> positions_ok kept
       \<and> tracks_in_order kept = map snd (filter (\<lambda>(p, m). p \<notin> set ps) (zip [1..int (length rows)] (tracks_in_order rows)))"
  using add_tracks_spec [OF assms] delete_tracks_spec [OF assms] by blast

lemma add_delete_tracks_witness:
  "\<exists>kept. delete_tracks [1] [(2, ''b''), (1, ''a''), (3, ''c'')] = Some kept \<and> tracks_in_order kept = [''b'', ''c'']"
proof -
  have "positions_ok [(2, ''b''), (1, ''a''), (3, ''c'')]" by (auto simp: positions_ok_def)
  from add_delete_tracks [OF this, of "[]" "[1]"] show ?thesis
    by (auto simp: tracks_in_order_def upto.simps)
qed
section \<open>Moving a track\<close>

text \<open>The list operation: the element leaves its place and is put back at the other.\<close>

definition move_to :: "nat \<Rightarrow> nat \<Rightarrow> 'a list \<Rightarrow> 'a list" where
  "move_to i j xs = (let rest = take i xs @ drop (Suc i) xs in take j rest @ xs ! i # drop j rest)"

lemma move_to_nth:
  assumes "i < length xs" "j < length xs" "k < length xs"
  shows "move_to i j xs ! k =
    (if k = j then xs ! i else if i \<le> k \<and> k < j then xs ! Suc k else if j < k \<and> k \<le> i then xs ! (k - 1) else xs ! k)"
proof -
  define rest where "rest = take i xs @ drop (Suc i) xs"
  have r: "rest ! m = (if m < i then xs ! m else xs ! Suc m)" if "m < length xs - 1" for m
    using assms that by (simp add: nth_append rest_def)
  have l: "length rest = length xs - 1" using assms by (simp add: rest_def)
  have "move_to i j xs ! k = (take j rest @ xs ! i # drop j rest) ! k" by (simp add: move_to_def rest_def)
  also have "\<dots> = (if k < j then rest ! k else if k = j then xs ! i else rest ! (k - 1))"
    using assms l by (auto simp: nth_append nth_Cons' min_def)
  finally show ?thesis using assms r by auto
qed

lemma length_move_to [simp]: "i < length xs \<Longrightarrow> j < length xs \<Longrightarrow> length (move_to i j xs) = length xs"
  by (simp add: move_to_def Let_def)

lemma update_map:
  assumes "distinct (map fst rows)" "inj_on g (set (map fst rows))" "inj_on h (set (map fst rows))"
    and "\<And>i. i \<in> set (map fst rows) \<Longrightarrow> h i = (if cond (g i) then f (g i) else g i)"
    and "\<And>i. i \<in> set (map fst rows) \<Longrightarrow> cond (g i) \<Longrightarrow> h i \<notin> g ` set (map fst rows)"
  shows "update_where cond f (map (\<lambda>(i, m). (g i, m)) rows) = Some (map (\<lambda>(i, m). (h i, m)) rows)"
proof -
  let ?rows = "map (\<lambda>(i, m). (g i, m)) rows"
  have "update_where cond f ?rows = Some (map (\<lambda>(i, m). (if cond i then f i else i, m)) ?rows)"
  proof (rule update_where_ok)
    fix i assume "i \<in> set (map fst ?rows)" "cond i"
    then obtain k where "k \<in> set (map fst rows)" "i = g k" unfolding map_positions by auto
    then have "f i = h k" "h k \<notin> g ` set (map fst rows)" using assms(4,5) [of k] \<open>cond i\<close> by simp_all
    then show "f i \<notin> set (map fst ?rows)" unfolding map_positions set_map [of g] by metis
  next
    show "inj_on f {i \<in> set (map fst ?rows). cond i}"
    proof (rule inj_onI)
      fix x y assume "x \<in> {i \<in> set (map fst ?rows). cond i}" "y \<in> {i \<in> set (map fst ?rows). cond i}" "f x = f y"
      then obtain a b where "a \<in> set (map fst rows)" "x = g a" "b \<in> set (map fst rows)" "y = g b" "cond x" "cond y"
        unfolding map_positions by auto
      moreover from this have "h a = h b" using assms(4) [of a] assms(4) [of b] \<open>f x = f y\<close> by simp
      ultimately show "x = y" using inj_onD [OF assms(3)] by blast
    qed
    show "distinct (map fst ?rows)" unfolding map_positions using assms(1,2) by (simp only: distinct_map [of g])
  qed
  also have "map (\<lambda>(i, m). (if cond i then f i else i, m)) ?rows = map (\<lambda>(i, m). (h i, m)) rows"
    using assms(4) by force
  finally show ?thesis .
qed

text \<open>Where a position goes, and the positions after each of the first three statements.\<close>

definition moved :: "int \<Rightarrow> int \<Rightarrow> int \<Rightarrow> int" where
  "moved pos new_pos i =
     (if i = pos then new_pos else if pos < i \<and> i \<le> new_pos then i - 1
      else if new_pos \<le> i \<and> i < pos then i + 1 else i)"

definition parked :: "int \<Rightarrow> int \<Rightarrow> int" where
  "parked pos i = (if i = pos then sentinel else i)"

definition shifted :: "int \<Rightarrow> int \<Rightarrow> int \<Rightarrow> int" where
  "shifted pos new_pos i =
     (if i = pos then sentinel else if moved pos new_pos i = i then i else - moved pos new_pos i)"

definition flipped :: "int \<Rightarrow> int \<Rightarrow> int \<Rightarrow> int" where
  "flipped pos new_pos i = (if i = pos then sentinel else moved pos new_pos i)"

lemma moved_range:
  "pos \<in> {1..n} \<Longrightarrow> new_pos \<in> {1..n} \<Longrightarrow> i \<in> {1..n} \<Longrightarrow> moved pos new_pos i \<in> {1..n}"
  by (auto simp: moved_def)

lemma moved_inj: "pos \<in> {1..n} \<Longrightarrow> new_pos \<in> {1..n} \<Longrightarrow> inj_on (moved pos new_pos) {1..n}"
  by (auto simp: inj_on_def moved_def split: if_splits)

lemma moved_not_new: "i \<noteq> pos \<Longrightarrow> moved pos new_pos i \<noteq> new_pos"
  by (auto simp: moved_def)

lemma steps_inj:
  assumes "pos \<in> {1..n}" "new_pos \<in> {1..n}"
  shows "inj_on (parked pos) {1..n}" "n \<le> 999998 \<Longrightarrow> inj_on (shifted pos new_pos) {1..n}" "inj_on (flipped pos new_pos) {1..n}"
  using assms by (auto simp: inj_on_def parked_def shifted_def flipped_def moved_def sentinel_def split: if_splits)

lemma reorder_map:
  assumes "positions_ok rows" "length rows \<le> 999998" "pos \<in> {1..int (length rows)}" "new_pos \<in> {1..int (length rows)}"
  shows "reorder pos new_pos rows = Some (map (\<lambda>(i, m). (moved pos new_pos i, m)) rows)"
proof (cases "pos = new_pos")
  case True
  have "moved pos new_pos = (\<lambda>i. i)" using True by (auto simp: moved_def)
  then show ?thesis using True by (simp add: reorder_def)
next
  case False
  let ?n = "int (length rows)"
  have d: "distinct (map fst rows)" and ids: "set (map fst rows) = {1..?n}" using assms(1) by (auto simp: positions_ok_def)
  have n: "?n \<le> 999998" using assms(2) by simp
  note inj = steps_inj(1) [OF assms(3,4)] steps_inj(2) [OF assms(3,4) n] steps_inj(3) [OF assms(3,4)] moved_inj [OF assms(3,4)]
  note inj' = inj [folded ids]
  have s1: "update_where (\<lambda>i. i = pos) (\<lambda>i. sentinel) (map (\<lambda>(i, m). (i, m)) rows) = Some (map (\<lambda>(i, m). (parked pos i, m)) rows)"
  proof (rule update_map [OF d _ inj'(1)])
    show "parked pos i \<notin> (\<lambda>i. i) ` set (map fst rows)" if "i = pos" for i
      unfolding ids using that by (simp add: parked_def sentinel_def)
  qed (simp_all add: parked_def)
  have s2: "(if pos < new_pos then update_where (\<lambda>i. pos < i \<and> i \<le> new_pos) (\<lambda>i. - (i - 1)) (map (\<lambda>(i, m). (parked pos i, m)) rows)
        else update_where (\<lambda>i. new_pos \<le> i \<and> i < pos) (\<lambda>i. - (i + 1)) (map (\<lambda>(i, m). (parked pos i, m)) rows))
      = Some (map (\<lambda>(i, m). (shifted pos new_pos i, m)) rows)"
  proof (cases "pos < new_pos")
    case True
    have "update_where (\<lambda>i. pos < i \<and> i \<le> new_pos) (\<lambda>i. - (i - 1)) (map (\<lambda>(i, m). (parked pos i, m)) rows)
        = Some (map (\<lambda>(i, m). (shifted pos new_pos i, m)) rows)"
      by (rule update_map [OF d inj'(1,2)], unfold ids)
        (use True assms(3,4) n in \<open>auto simp: parked_def shifted_def moved_def sentinel_def split: if_splits\<close>)
    then show ?thesis using True by simp
  next
    case f: False
    have "update_where (\<lambda>i. new_pos \<le> i \<and> i < pos) (\<lambda>i. - (i + 1)) (map (\<lambda>(i, m). (parked pos i, m)) rows)
        = Some (map (\<lambda>(i, m). (shifted pos new_pos i, m)) rows)"
      by (rule update_map [OF d inj'(1,2)], unfold ids)
        (use f False assms(3,4) n in \<open>auto simp: parked_def shifted_def moved_def sentinel_def split: if_splits\<close>)
    then show ?thesis using f by simp
  qed
  have s3: "update_where (\<lambda>i. i < 0 \<and> i \<noteq> sentinel) (\<lambda>i. - i) (map (\<lambda>(i, m). (shifted pos new_pos i, m)) rows)
      = Some (map (\<lambda>(i, m). (flipped pos new_pos i, m)) rows)"
    by (rule update_map [OF d inj'(2,3)], unfold ids)
      (use False assms(3,4) n in \<open>auto simp: shifted_def flipped_def moved_def sentinel_def split: if_splits\<close>)
  have s4: "update_where (\<lambda>i. i = sentinel) (\<lambda>i. new_pos) (map (\<lambda>(i, m). (flipped pos new_pos i, m)) rows)
      = Some (map (\<lambda>(i, m). (moved pos new_pos i, m)) rows)"
    by (rule update_map [OF d inj'(3,4)], unfold ids)
      (use False assms(3,4) n in \<open>auto simp: flipped_def moved_def sentinel_def split: if_splits\<close>)
  show ?thesis using False s1 s2 s3 s4 by (simp add: reorder_def)
qed

lemma reorder_spec:
  assumes "positions_ok rows" "length rows \<le> 999998" "pos \<in> {1..int (length rows)}" "new_pos \<in> {1..int (length rows)}"
  shows "\<exists>rows'. reorder pos new_pos rows = Some rows' \<and> rows' = map (\<lambda>(p, m). (moved pos new_pos p, m)) rows \<and> positions_ok rows'"
proof -
  let ?n = "int (length rows)" and ?mv = "moved pos new_pos"
  have d: "distinct (map fst rows)" and ids: "set (map fst rows) = {1..?n}" using assms(1) by (auto simp: positions_ok_def)
  have inj: "inj_on ?mv {1..?n}" by (rule moved_inj [OF assms(3,4)])
  have "?mv ` {1..?n} = {1..?n}"
    by (rule card_subset_eq) (use moved_range [OF assms(3,4)] inj in \<open>auto simp: card_image\<close>)
  then have "positions_ok (map (\<lambda>(p, m). (?mv p, m)) rows)"
    unfolding positions_ok_def map_positions using d ids inj by (simp only: distinct_map [of ?mv] set_map length_map)
  then show ?thesis using reorder_map [OF assms] by blast
qed

lemma tracks_in_order_nth:
  assumes "positions_ok rows" "(i, m) \<in> set rows"
  shows "tracks_in_order rows ! nat (i - 1) = m"
proof -
  have "map fst (sort_key fst rows) = [1..int (length rows)]"
    by (rule sorted_distinct_set_unique) (use assms(1) in \<open>simp_all add: positions_ok_def distinct_map\<close>)
  moreover obtain k where k: "k < length rows" "sort_key fst rows ! k = (i, m)"
    using assms(2) by (metis in_set_conv_nth length_sort set_sort)
  ultimately have "[1..int (length rows)] ! k = i" by (metis fst_conv length_sort nth_map)
  then have "i = 1 + int k" using k(1) by (simp add: nth_upto)
  then show ?thesis using k by (simp add: tracks_in_order_def)
qed

text \<open>C37. Moving a track of a playlist, in four statements under the unique index, is moving an element of the
  list of its tracks, and the positions stay 1 up to the number of tracks.\<close>

theorem reorder_moves:
  assumes "positions_ok rows" "length rows \<le> 999998" "i < length rows" "j < length rows"
  shows "\<exists>rows'. reorder (int i + 1) (int j + 1) rows = Some rows' \<and> positions_ok rows'
     \<and> tracks_in_order rows' = move_to i j (tracks_in_order rows)"
proof -
  let ?n = "int (length rows)" and ?mv = "moved (int i + 1) (int j + 1)"
  let ?rows = "map (\<lambda>(p, m). (?mv p, m)) rows"
  have range: "int i + 1 \<in> {1..?n}" "int j + 1 \<in> {1..?n}" using assms(3,4) by auto
  have run: "reorder (int i + 1) (int j + 1) rows = Some ?rows" and ok: "positions_ok ?rows"
    using reorder_spec [OF assms(1,2) range] by auto
  have ids: "set (map fst rows) = {1..?n}" using assms(1) by (auto simp: positions_ok_def)
  have "tracks_in_order ?rows ! k = move_to i j (tracks_in_order rows) ! k" if k: "k < length rows" for k
  proof -
    define s where "s = (if k = j then i else if i \<le> k \<and> k < j then Suc k else if j < k \<and> k \<le> i then k - 1 else k)"
    have s: "s < length rows" using assms(3,4) k by (auto simp: s_def)
    then have "int s + 1 \<in> set (map fst rows)" unfolding ids by auto
    then obtain m where m: "(int s + 1, m) \<in> set rows" by auto
    have "?mv (int s + 1) = int k + 1" using k assms(3,4) by (auto simp: s_def moved_def)
    then have "(int k + 1, m) \<in> set ?rows" using m by force
    then have "tracks_in_order ?rows ! k = m" using tracks_in_order_nth [OF ok] by fastforce
    moreover have "tracks_in_order rows ! s = m" using tracks_in_order_nth [OF assms(1) m] by simp
    moreover have "move_to i j (tracks_in_order rows) ! k = tracks_in_order rows ! s"
      using k assms(3,4) by (simp add: move_to_nth s_def)
    ultimately show ?thesis by simp
  qed
  then have "tracks_in_order ?rows = move_to i j (tracks_in_order rows)"
    by (intro nth_equalityI) (use assms(3,4) in auto)
  then show ?thesis using run ok by blast
qed

theorem reorder_moves_witness:
  "\<exists>rows'. reorder 1 3 [(2, ''b''), (1, ''a''), (3, ''c'')] = Some rows' \<and> tracks_in_order rows' = [''b'', ''c'', ''a'']"
proof -
  have "positions_ok [(2, ''b''), (1, ''a''), (3, ''c'')]" by (auto simp: positions_ok_def)
  from reorder_moves [OF this, of 0 2] show ?thesis
    by (auto simp: tracks_in_order_def move_to_def)
qed

text \<open>The position is not checked: moved before the first one by a negative number, a track stays where the next
  deletion meets it, and from then on no track can be deleted.\<close>

lemma negative_position_blocks_delete:
  "reorder 1 (- 2) [(1, ''a''), (2, ''b''), (3, ''c'')] = Some [(- 2, ''a''), (2, ''b''), (3, ''c'')]"
  "delete_tracks [3] [(- 2, ''a''), (2, ''b''), (3, ''c'')] = None"
  by code_simp+

end
