(* ===== verification/PlaylistService.thy ===== *)
theory PlaylistService
  imports PlaylistTracks CriteriaJson
begin

text \<open>
  The playlist service (\<open>core/playlists/playlists.go\<close>, \<open>rest_adapter.go\<close> and the update of
  \<open>import.go\<close>) over the tables of playlists and of their tracks (\<open>persistence/playlist_repository.go\<close>). A
  user acts in each operation. An operation that fails leaves the tables as they were: it fails before it
  writes, or its transaction is rolled back. The random id of a new playlist, the tracks an album,
  an artist or a disc stands for, and the name an uploaded image gets are arguments; statements fail
  here only on the unique indexes.
\<close>

section \<open>State\<close>

record actor =
  u_id :: string
  u_admin :: bool

record playlist =
  p_name :: string
  p_comment :: string
  p_owner :: string
  p_public :: bool
  p_path :: string
  p_sync :: bool
  p_uploaded_image :: string
  p_external_image :: string
  p_rules :: "criteria option"
  p_evaluated_at :: "int option"

record playlist_store =
  ps_rows :: "string \<rightharpoonup> playlist"
  ps_tracks :: "string \<Rightarrow> track_rows"

datatype playlist_error =
    Not_found
  | Not_authorized
  | Rest_not_found
  | Rest_permission_denied
  | Constraint_failed
  | Upload_failed

type_synonym 'a playlist_result = "playlist_error + 'a \<times> playlist_store"

definition is_smart :: "playlist \<Rightarrow> bool" where
  "is_smart p \<longleftrightarrow> (case p_rules p of None \<Rightarrow> False | Some c \<Rightarrow> c_expression c \<noteq> None)"

section \<open>The repository\<close>

definition repo_get :: "actor \<Rightarrow> string \<Rightarrow> playlist_store \<Rightarrow> playlist_error + playlist" where
  "repo_get u i st =
     (case ps_rows st i of
        Some p \<Rightarrow> if u_admin u \<or> p_public p \<or> p_owner p = u_id u then Inr p else Inl Not_found
      | None \<Rightarrow> Inl Not_found)"

text \<open>
  \<open>Put\<close>: without an id, or when no row has it, a row is inserted. \<open>PostMapArgs\<close> leaves the column of
  the rules out unless the playlist is smart. Tracks are replaced only when some were given.
\<close>

definition merge_row :: "playlist \<Rightarrow> playlist option \<Rightarrow> playlist" where
  "merge_row p old =
     (if is_smart p then p else p\<lparr>p_rules := (case old of Some q \<Rightarrow> p_rules q | None \<Rightarrow> None)\<rparr>)"

definition repo_put :: "string \<Rightarrow> playlist \<Rightarrow> string list \<Rightarrow> playlist_store \<Rightarrow> unit playlist_result" where
  "repo_put i p tracks st =
     (let st = st\<lparr>ps_rows := (ps_rows st)(i \<mapsto> merge_row p (ps_rows st i))\<rparr> in
      if is_smart p \<or> tracks = [] then Inr ((), st)
      else (case replace_tracks tracks of
              None \<Rightarrow> Inl Constraint_failed
            | Some rows \<Rightarrow> Inr ((), st\<lparr>ps_tracks := (ps_tracks st)(i := rows)\<rparr>)))"

definition repo_insert :: "string \<Rightarrow> playlist \<Rightarrow> string list \<Rightarrow> playlist_store \<Rightarrow> unit playlist_result" where
  "repo_insert new_id p tracks st =
     (if ps_rows st new_id \<noteq> None then Inl Constraint_failed else repo_put new_id p tracks st)"

definition repo_delete :: "string \<Rightarrow> playlist_store \<Rightarrow> playlist_store" where
  "repo_delete i st = \<lparr>ps_rows = (ps_rows st)(i := None), ps_tracks = (ps_tracks st)(i := [])\<rparr>"

text \<open>An operation on the tracks of a playlist the user sees.\<close>

definition on_tracks :: "string \<Rightarrow> (track_rows \<Rightarrow> track_rows option) \<Rightarrow> playlist_store \<Rightarrow> unit playlist_result" where
  "on_tracks i f st =
     (case f (ps_tracks st i) of
        None \<Rightarrow> Inl Constraint_failed
      | Some rows \<Rightarrow> Inr ((), st\<lparr>ps_tracks := (ps_tracks st)(i := rows)\<rparr>))"

section \<open>Permissions\<close>

definition check_writable :: "actor \<Rightarrow> string \<Rightarrow> playlist_store \<Rightarrow> playlist_error + playlist" where
  "check_writable u i st =
     (case repo_get u i st of
        Inl e \<Rightarrow> Inl e
      | Inr p \<Rightarrow> if \<not> u_admin u \<and> p_owner p \<noteq> u_id u then Inl Not_authorized else Inr p)"

definition check_tracks_editable :: "actor \<Rightarrow> string \<Rightarrow> playlist_store \<Rightarrow> playlist_error + playlist" where
  "check_tracks_editable u i st =
     (case check_writable u i st of
        Inl e \<Rightarrow> Inl e
      | Inr p \<Rightarrow> if is_smart p then Inl Not_authorized else Inr p)"

section \<open>The operations\<close>

definition new_playlist :: playlist where
  "new_playlist = \<lparr>p_name = [], p_comment = [], p_owner = [], p_public = False, p_path = [], p_sync = False,
     p_uploaded_image = [], p_external_image = [], p_rules = None, p_evaluated_at = None\<rparr>"

definition create_playlist :: "actor \<Rightarrow> string \<Rightarrow> string \<Rightarrow> string list \<Rightarrow> string \<Rightarrow> playlist_store \<Rightarrow> string playlist_result" where
  "create_playlist u playlist_id name ids new_id st =
     (if playlist_id \<noteq> [] then
        (case repo_get u playlist_id st of
           Inl e \<Rightarrow> Inl e
         | Inr p \<Rightarrow>
             if is_smart p then Inl Not_authorized
             else if \<not> u_admin u \<and> p_owner p \<noteq> u_id u then Inl Not_authorized
             else map_sum id (\<lambda>(x, st). (playlist_id, st)) (repo_put playlist_id p ids st))
      else map_sum id (\<lambda>(x, st). (new_id, st))
        (repo_insert new_id (new_playlist\<lparr>p_name := name, p_owner := u_id u\<rparr>) ids st))"

definition delete_playlist :: "actor \<Rightarrow> string \<Rightarrow> playlist_store \<Rightarrow> unit playlist_result" where
  "delete_playlist u i st =
     (case check_writable u i st of Inl e \<Rightarrow> Inl e | Inr p \<Rightarrow> Inr ((), repo_delete i st))"

definition update_metadata ::
  "string \<Rightarrow> playlist \<Rightarrow> string option \<Rightarrow> string option \<Rightarrow> bool option \<Rightarrow> playlist_store \<Rightarrow> unit playlist_result" where
  "update_metadata i p name comment public st =
     repo_put i (p\<lparr>p_name := (case name of Some n \<Rightarrow> n | None \<Rightarrow> p_name p),
                   p_comment := (case comment of Some c \<Rightarrow> c | None \<Rightarrow> p_comment p),
                   p_public := (case public of Some b \<Rightarrow> b | None \<Rightarrow> p_public p)\<rparr>) [] st"

definition and_then :: "unit playlist_result \<Rightarrow> (playlist_store \<Rightarrow> unit playlist_result) \<Rightarrow> unit playlist_result" where
  "and_then r f = (case r of Inl e \<Rightarrow> Inl e | Inr (x, st) \<Rightarrow> f st)"

definition update_playlist :: "actor \<Rightarrow> string \<Rightarrow> string option \<Rightarrow> string option \<Rightarrow> bool option \<Rightarrow> string list \<Rightarrow> int list
    \<Rightarrow> playlist_store \<Rightarrow> unit playlist_result" where
  "update_playlist u i name comment public to_add to_remove st =
     (case (if to_add \<noteq> [] \<or> to_remove \<noteq> [] then check_tracks_editable u i st else check_writable u i st) of
        Inl e \<Rightarrow> Inl e
      | Inr p \<Rightarrow>
          if to_remove \<noteq> [] then
            and_then (on_tracks i (delete_tracks (map (\<lambda>k. k + 1) to_remove)) st) (\<lambda>st.
            and_then (if to_add \<noteq> [] then on_tracks i (add_tracks to_add) st else Inr ((), st)) (\<lambda>st.
            update_metadata i p name comment public st))
          else
            and_then (if to_add \<noteq> [] then on_tracks i (add_tracks to_add) st else Inr ((), st)) (\<lambda>st.
            if name = None \<and> comment = None \<and> public = None then Inr ((), st)
            else update_metadata i p name comment public st))"

text \<open>\<open>AddTracks\<close>, and \<open>AddAlbums\<close>, \<open>AddArtists\<close> and \<open>AddDiscs\<close> with the ids their query gives.\<close>

definition edit_tracks :: "actor \<Rightarrow> string \<Rightarrow> (track_rows \<Rightarrow> track_rows option) \<Rightarrow> playlist_store \<Rightarrow> unit playlist_result" where
  "edit_tracks u i f st =
     (case check_tracks_editable u i st of Inl e \<Rightarrow> Inl e | Inr p \<Rightarrow> on_tracks i f st)"

definition set_image :: "actor \<Rightarrow> string \<Rightarrow> string option \<Rightarrow> playlist_store \<Rightarrow> unit playlist_result" where
  "set_image u i uploaded st =
     (case check_writable u i st of
        Inl e \<Rightarrow> Inl e
      | Inr p \<Rightarrow> (case uploaded of None \<Rightarrow> Inl Upload_failed | Some f \<Rightarrow> repo_put i (p\<lparr>p_uploaded_image := f\<rparr>) [] st))"

definition save_playlist :: "actor \<Rightarrow> playlist \<Rightarrow> string list \<Rightarrow> string \<Rightarrow> playlist_store \<Rightarrow> unit playlist_result" where
  "save_playlist u p tracks new_id st =
     repo_insert new_id (p\<lparr>p_owner := u_id u, p_path := [], p_sync := False, p_uploaded_image := [],
       p_external_image := [], p_evaluated_at := None\<rparr>) tracks st"

definition rest_error :: "playlist_error \<Rightarrow> playlist_error" where
  "rest_error e = (if e = Not_found then Rest_not_found else if e = Not_authorized then Rest_permission_denied else e)"

definition rest_delete :: "actor \<Rightarrow> string \<Rightarrow> playlist_store \<Rightarrow> unit playlist_result" where
  "rest_delete u i st = map_sum rest_error id (delete_playlist u i st)"

definition update_entity :: "actor \<Rightarrow> string \<Rightarrow> playlist \<Rightarrow> playlist_store \<Rightarrow> unit playlist_result" where
  "update_entity u i entity st =
     (case check_writable u i st of
        Inl e \<Rightarrow> Inl (rest_error e)
      | Inr current \<Rightarrow>
          if \<not> u_admin u \<and> p_owner entity \<noteq> [] \<and> p_owner entity \<noteq> p_owner current then Inl Rest_permission_denied
          else update_metadata i
            (current\<lparr>p_owner := (if p_owner entity \<noteq> [] then p_owner entity else p_owner current),
                     p_rules := p_rules entity\<rparr>)
            (Some (p_name entity)) (Some (p_comment entity)) (Some (p_public entity)) st)"

text \<open>
  \<open>updatePlaylist\<close> of the import: the playlist of the same path, in either Unicode form, is \<open>found\<close>. The
  zero time makes the next read refresh it.
\<close>

definition import_playlist ::
  "actor \<Rightarrow> bool \<Rightarrow> string option \<Rightarrow> playlist \<Rightarrow> string list \<Rightarrow> string \<Rightarrow> playlist_store \<Rightarrow> unit playlist_result" where
  "import_playlist u default_public found new tracks new_id st =
     (case found of
        Some i \<Rightarrow>
          (case ps_rows st i of
             None \<Rightarrow> Inl Not_found
           | Some p \<Rightarrow>
               if \<not> p_sync p then Inr ((), st)
               else repo_put i (new\<lparr>p_name := p_name p, p_comment := p_comment p, p_owner := p_owner p,
                      p_public := p_public p, p_uploaded_image := p_uploaded_image p, p_evaluated_at := Some 0\<rparr>) tracks st)
      | None \<Rightarrow>
          repo_insert new_id (new\<lparr>p_owner := u_id u, p_public := (if is_smart new then p_public new else default_public)\<rparr>)
            tracks st)"

section \<open>A user's operations\<close>

datatype playlist_op =
    Op_create string string "string list" string
  | Op_delete string
  | Op_update string "string option" "string option" "bool option" "string list" "int list"
  | Op_add string "string list"
  | Op_remove string "int list"
  | Op_reorder string int int
  | Op_set_image string "string option"
  | Op_remove_image string bool
  | Op_save playlist "string list" string
  | Op_rest_delete string
  | Op_update_entity string playlist

definition run_op :: "actor \<Rightarrow> playlist_op \<Rightarrow> playlist_store \<Rightarrow> unit playlist_result" where
  "run_op u op st =
     (case op of
        Op_create i name ids new_id \<Rightarrow> map_sum id (\<lambda>(x, st). ((), st)) (create_playlist u i name ids new_id st)
      | Op_delete i \<Rightarrow> delete_playlist u i st
      | Op_update i name comment public to_add to_remove \<Rightarrow> update_playlist u i name comment public to_add to_remove st
      | Op_add i ids \<Rightarrow> edit_tracks u i (add_tracks ids) st
      | Op_remove i ps \<Rightarrow> edit_tracks u i (delete_tracks ps) st
      | Op_reorder i pos new_pos \<Rightarrow> edit_tracks u i (reorder pos new_pos) st
      | Op_set_image i uploaded \<Rightarrow> set_image u i uploaded st
      | Op_remove_image i removed \<Rightarrow> set_image u i (if removed then Some [] else None) st
      | Op_save p tracks new_id \<Rightarrow> save_playlist u p tracks new_id st
      | Op_rest_delete i \<Rightarrow> rest_delete u i st
      | Op_update_entity i entity \<Rightarrow> update_entity u i entity st)"

definition op_after :: "actor \<Rightarrow> playlist_op \<Rightarrow> playlist_store \<Rightarrow> playlist_store" where
  "op_after u op st = (case run_op u op st of Inl e \<Rightarrow> st | Inr (x, st') \<Rightarrow> st')"

definition run_ops :: "(actor \<times> playlist_op) list \<Rightarrow> playlist_store \<Rightarrow> playlist_store" where
  "run_ops ops st = fold (\<lambda>(u, op) st. op_after u op st) ops st"

section \<open>What an operation may touch\<close>

text \<open>Everything an operation changes belongs to one playlist: one the user may write, or a new one.\<close>

definition touches_only :: "string \<Rightarrow> playlist_store \<Rightarrow> playlist_store \<Rightarrow> bool" where
  "touches_only i st st' \<longleftrightarrow>
     (\<forall>k. k \<noteq> i \<longrightarrow> ps_rows st' k = ps_rows st k \<and> ps_tracks st' k = ps_tracks st k)"

lemma touches_refl [simp]: "touches_only i st st"
  by (simp add: touches_only_def)

lemma touches_trans: "touches_only i a b \<Longrightarrow> touches_only i b c \<Longrightarrow> touches_only i a c"
  by (simp add: touches_only_def)

lemma touches_put: "repo_put i p tracks st = Inr (x, st') \<Longrightarrow> touches_only i st st'"
  by (auto simp: repo_put_def Let_def touches_only_def split: if_splits option.splits)

lemma touches_insert: "repo_insert i p tracks st = Inr (x, st') \<Longrightarrow> touches_only i st st' \<and> ps_rows st i = None"
  by (auto simp: repo_insert_def split: if_splits dest: touches_put)

lemma touches_delete: "touches_only i st (repo_delete i st)"
  by (simp add: repo_delete_def touches_only_def)

lemma touches_tracks: "on_tracks i f st = Inr (x, st') \<Longrightarrow> touches_only i st st' \<and> ps_rows st' = ps_rows st"
  by (auto simp: on_tracks_def touches_only_def split: option.splits)

lemma and_then_Inr: "and_then r f = Inr y \<longleftrightarrow> (\<exists>x st. r = Inr (x, st) \<and> f st = Inr y)"
  by (auto simp: and_then_def split: sum.splits prod.splits)

lemma check_writable_Inr:
  "check_writable u i st = Inr p \<longleftrightarrow> ps_rows st i = Some p \<and> (u_admin u \<or> p_owner p = u_id u)"
  by (auto simp: check_writable_def repo_get_def split: sum.splits option.splits if_splits)

lemma check_tracks_editable_Inr:
  "check_tracks_editable u i st = Inr p \<longleftrightarrow>
     ps_rows st i = Some p \<and> (u_admin u \<or> p_owner p = u_id u) \<and> \<not> is_smart p"
proof (cases "check_writable u i st")
  case (Inl e)
  then have "\<not> (ps_rows st i = Some p \<and> (u_admin u \<or> p_owner p = u_id u))" by (metis check_writable_Inr sum.distinct(1))
  then show ?thesis using Inl by (auto simp: check_tracks_editable_def)
next
  case (Inr q)
  then show ?thesis using check_writable_Inr [of u i st q] by (auto simp: check_tracks_editable_def)
qed

text \<open>Which playlist an operation is about; a new one has the id it gets.\<close>

fun op_target :: "playlist_op \<Rightarrow> string" where
  "op_target (Op_create i name ids new_id) = (if i \<noteq> [] then i else new_id)"
| "op_target (Op_delete i) = i"
| "op_target (Op_update i name comment public to_add to_remove) = i"
| "op_target (Op_add i ids) = i"
| "op_target (Op_remove i ps) = i"
| "op_target (Op_reorder i pos new_pos) = i"
| "op_target (Op_set_image i uploaded) = i"
| "op_target (Op_remove_image i removed) = i"
| "op_target (Op_save p tracks new_id) = new_id"
| "op_target (Op_rest_delete i) = i"
| "op_target (Op_update_entity i entity) = i"

definition may_write :: "actor \<Rightarrow> string \<Rightarrow> playlist_store \<Rightarrow> bool" where
  "may_write u i st \<longleftrightarrow> (case ps_rows st i of None \<Rightarrow> True | Some p \<Rightarrow> u_admin u \<or> p_owner p = u_id u)"

lemma may_writeI: "check_writable u i st = Inr p \<Longrightarrow> may_write u i st"
  by (simp add: check_writable_Inr may_write_def)

lemma check_tracks_writable: "check_tracks_editable u i st = Inr p \<Longrightarrow> check_writable u i st = Inr p \<and> \<not> is_smart p"
  by (simp add: check_tracks_editable_Inr check_writable_Inr)

lemma touches_metadata: "update_metadata i p name comment public st = Inr (x, st') \<Longrightarrow> touches_only i st st'"
  unfolding update_metadata_def by (rule touches_put)

lemma touches_create:
  assumes "create_playlist u i name ids new_id st = Inr (r, st')"
  defines "k \<equiv> if i \<noteq> [] then i else new_id"
  shows "touches_only k st st' \<and> may_write u k st"
proof (cases "i = []")
  case True
  then obtain x where "repo_insert new_id (new_playlist\<lparr>p_name := name, p_owner := u_id u\<rparr>) ids st = Inr (x, st')"
    using assms(1) by (auto simp: create_playlist_def map_sum_def split: sum.splits)
  from touches_insert [OF this] show ?thesis using True by (simp add: k_def may_write_def)
next
  case False
  then obtain p where g: "repo_get u i st = Inr p" using assms(1) by (auto simp: create_playlist_def split: sum.splits)
  then have p: "u_admin u \<or> p_owner p = u_id u" "\<not> is_smart p"
    using assms(1) False by (auto simp: create_playlist_def split: if_splits)
  obtain x where "repo_put i p ids st = Inr (x, st')"
    using assms(1) False g p by (auto simp: create_playlist_def map_sum_def split: sum.splits if_splits)
  moreover have "ps_rows st i = Some p" using g by (auto simp: repo_get_def split: option.splits if_splits)
  ultimately show ?thesis using touches_put p False by (auto simp: k_def may_write_def)
qed

lemma touches_update:
  assumes "update_playlist u i name comment public to_add to_remove st = Inr (r, st')"
  shows "touches_only i st st' \<and> may_write u i st"
proof -
  obtain p where p: "(if to_add \<noteq> [] \<or> to_remove \<noteq> [] then check_tracks_editable u i st else check_writable u i st) = Inr p"
    using assms by (auto simp: update_playlist_def split: sum.splits)
  then have w: "check_writable u i st = Inr p" using check_tracks_writable by (auto split: if_splits)
  have add: "touches_only i a b" if "(if to_add \<noteq> [] then on_tracks i (add_tracks to_add) a else Inr ((), a)) = Inr (x, b)" for a b x
    using that touches_tracks by (auto split: if_splits)
  have meta: "touches_only i a b"
    if "(if name = None \<and> comment = None \<and> public = None then Inr ((), a) else update_metadata i p name comment public a) = Inr (x, b)" for a b x
    using that touches_metadata by (auto split: if_splits)
  show ?thesis
  proof (cases "to_remove \<noteq> []")
    case True
    then obtain a b x y where "on_tracks i (delete_tracks (map (\<lambda>k. k + 1) to_remove)) st = Inr (x, a)"
      "(if to_add \<noteq> [] then on_tracks i (add_tracks to_add) a else Inr ((), a)) = Inr (y, b)"
      "update_metadata i p name comment public b = Inr (r, st')"
      using assms p unfolding update_playlist_def p sum.case if_P [OF True] and_then_Inr by blast
    then show ?thesis using touches_tracks add touches_metadata touches_trans may_writeI [OF w] by meson
  next
    case False
    then obtain b y where "(if to_add \<noteq> [] then on_tracks i (add_tracks to_add) st else Inr ((), st)) = Inr (y, b)"
      "(if name = None \<and> comment = None \<and> public = None then Inr ((), b) else update_metadata i p name comment public b) = Inr (r, st')"
      using assms unfolding update_playlist_def p sum.case if_not_P [OF False] and_then_Inr by blast
    then show ?thesis using add meta touches_trans may_writeI [OF w] by meson
  qed
qed

lemma touches_edit: "edit_tracks u i f st = Inr (r, st') \<Longrightarrow> touches_only i st st' \<and> may_write u i st"
  using touches_tracks check_tracks_writable may_writeI by (fastforce simp: edit_tracks_def split: sum.splits)

lemma touches_delete_op: "delete_playlist u i st = Inr (r, st') \<Longrightarrow> touches_only i st st' \<and> may_write u i st"
  using touches_delete may_writeI by (fastforce simp: delete_playlist_def split: sum.splits)

lemma touches_image: "set_image u i uploaded st = Inr (r, st') \<Longrightarrow> touches_only i st st' \<and> may_write u i st"
  using touches_put may_writeI by (fastforce simp: set_image_def split: sum.splits option.splits)

lemma touches_entity: "update_entity u i entity st = Inr (r, st') \<Longrightarrow> touches_only i st st' \<and> may_write u i st"
  using touches_metadata may_writeI by (fastforce simp: update_entity_def split: sum.splits if_splits)

lemma touches_save: "save_playlist u p tracks new_id st = Inr (r, st') \<Longrightarrow> touches_only new_id st st' \<and> may_write u new_id st"
  using touches_insert by (fastforce simp: save_playlist_def may_write_def)

lemma op_touches:
  assumes "run_op u op st = Inr (r, st')"
  shows "touches_only (op_target op) st st' \<and> may_write u (op_target op) st"
proof (cases op)
  case (Op_create i name ids new_id)
  then obtain x where "create_playlist u i name ids new_id st = Inr (x, st')"
    using assms by (auto simp: run_op_def map_sum_def split: sum.splits)
  from touches_create [OF this] show ?thesis using Op_create by simp
next
  case (Op_rest_delete i)
  then have "delete_playlist u i st = Inr (r, st')"
    using assms by (auto simp: run_op_def rest_delete_def map_sum_def split: sum.splits)
  then show ?thesis using Op_rest_delete touches_delete_op by simp
qed (use assms touches_delete_op touches_update touches_edit touches_image touches_save touches_entity
    in \<open>auto simp: run_op_def\<close>)

text \<open>C38. Whatever the operations users other than its owner try, in any order and on whichever playlists,
  none of them an administrator, a playlist and its tracks stay as they are.\<close>

theorem others_cannot_change:
  assumes "ps_rows st i = Some p" "\<forall>(u, op) \<in> set ops. \<not> u_admin u \<and> u_id u \<noteq> p_owner p"
  shows "ps_rows (run_ops ops st) i = Some p \<and> ps_tracks (run_ops ops st) i = ps_tracks st i"
  using assms
proof (induction ops arbitrary: st)
  case (Cons uo ops)
  obtain u op where uo: "uo = (u, op)" by fastforce
  have same: "ps_rows (op_after u op st) i = ps_rows st i \<and> ps_tracks (op_after u op st) i = ps_tracks st i"
  proof (cases "run_op u op st")
    case (Inr y)
    then obtain r st' where r: "run_op u op st = Inr (r, st')" by (cases y) simp
    from op_touches [OF r] have "touches_only (op_target op) st st'" "may_write u (op_target op) st" by blast+
    moreover have "\<not> may_write u i st" using Cons.prems uo by (auto simp: may_write_def)
    ultimately show ?thesis using r by (metis op_after_def sum.case(2) prod.case touches_only_def)
  qed (simp add: op_after_def)
  have "ps_rows (run_ops ops (op_after u op st)) i = Some p
      \<and> ps_tracks (run_ops ops (op_after u op st)) i = ps_tracks (op_after u op st) i"
    using Cons.IH [of "op_after u op st"] Cons.prems same by auto
  then show ?case using same uo by (simp add: run_ops_def)
qed (simp add: run_ops_def)

definition sample_store :: playlist_store where
  "sample_store = \<lparr>ps_rows = [''p'' \<mapsto> new_playlist\<lparr>p_owner := ''alice'', p_public := True\<rparr>],
     ps_tracks = (\<lambda>i. [(1, ''t1'')])\<rparr>"

theorem others_cannot_change_witness:
  "ps_tracks (run_ops [(\<lparr>u_id = ''bob'', u_admin = False\<rparr>, Op_remove ''p'' [1]),
      (\<lparr>u_id = ''eve'', u_admin = False\<rparr>, Op_create ''p'' [] [''t2''] ''x'')] sample_store) ''p'' = [(1, ''t1'')]"
  using others_cannot_change [of sample_store "''p''" "new_playlist\<lparr>p_owner := ''alice'', p_public := True\<rparr>"
      "[(\<lparr>u_id = ''bob'', u_admin = False\<rparr>, Op_remove ''p'' [1]),
      (\<lparr>u_id = ''eve'', u_admin = False\<rparr>, Op_create ''p'' [] [''t2''] ''x'')]"]
  by (simp add: sample_store_def)
section \<open>The tracks of a playlist\<close>

lemma put_rows: "repo_put i p tracks st = Inr (x, st') \<Longrightarrow> ps_rows st' i = Some (merge_row p (ps_rows st i))"
  by (auto simp: repo_put_def Let_def split: if_splits option.splits)

lemma put_no_tracks: "repo_put i p [] st = Inr ((), st\<lparr>ps_rows := (ps_rows st)(i \<mapsto> merge_row p (ps_rows st i))\<rparr>)"
  by (simp add: repo_put_def Let_def)

lemma merge_row_smart: "is_smart q \<Longrightarrow> is_smart (merge_row p (Some q))"
  by (simp add: merge_row_def is_smart_def)

text \<open>Nobody edits the tracks of a smart playlist: an operation that succeeds on it leaves its tracks alone
  and keeps it smart, or deletes it.\<close>

lemma smart_tracks_not_edited:
  assumes "run_op u op st = Inr (r, st')" "ps_rows st i = Some p" "is_smart p"
  shows "(\<exists>q. ps_rows st' i = Some q \<and> is_smart q \<and> ps_tracks st' i = ps_tracks st i)
     \<or> ((op = Op_delete i \<or> op = Op_rest_delete i) \<and> ps_rows st' i = None)"
proof (cases "op_target op = i")
  case False
  then show ?thesis using op_touches [OF assms(1)] assms(2,3) by (auto simp: touches_only_def)
next
  case True
  have no_edit: "check_tracks_editable u i st \<noteq> Inr q" for q using assms(2,3) by (auto simp: check_tracks_editable_Inr)
  have put: "\<exists>q. ps_rows b i = Some q \<and> is_smart q \<and> ps_tracks b i = ps_tracks st i"
    if "repo_put i q [] st = Inr (x, b)" for q x b
    using that assms(2) merge_row_smart [OF assms(3)] by (auto simp: put_no_tracks)
  show ?thesis
  proof (cases op)
    case (Op_create j name ids new_id)
    then have "j \<noteq> [] \<Longrightarrow> j = i" "j = [] \<Longrightarrow> new_id = i" using True by auto
    then show ?thesis using assms Op_create
      by (auto simp: run_op_def create_playlist_def repo_get_def repo_insert_def map_sum_def split: sum.splits if_splits)
  next
    case (Op_update j name comment public to_add to_remove)
    then have j: "j = i" using True by simp
    have "to_add = [] \<and> to_remove = []"
      using assms(1) no_edit Op_update j by (auto simp: run_op_def update_playlist_def split: if_splits sum.splits)
    then show ?thesis using assms Op_update j put
      by (auto simp: run_op_def update_playlist_def and_then_Inr update_metadata_def split: sum.splits if_splits)
  next
    case (Op_save q tracks new_id)
    then show ?thesis using assms True by (simp add: run_op_def save_playlist_def repo_insert_def)
  next
    case (Op_update_entity j entity)
    then show ?thesis using assms(1) True put
      by (auto simp: run_op_def update_entity_def update_metadata_def split: sum.splits if_splits)
  next
    case (Op_delete j)
    then show ?thesis using assms(1) True by (auto simp: run_op_def delete_playlist_def repo_delete_def split: sum.splits)
  next
    case (Op_rest_delete j)
    then show ?thesis using assms(1) True
      by (auto simp: run_op_def rest_delete_def delete_playlist_def repo_delete_def map_sum_def split: sum.splits)
  qed (use assms(1) True no_edit put in
      \<open>auto simp: run_op_def edit_tracks_def set_image_def split: sum.splits option.splits if_splits\<close>)
qed

definition smart_store :: playlist_store where
  "smart_store = \<lparr>ps_rows = [''s'' \<mapsto> new_playlist\<lparr>p_owner := ''alice'', p_rules := Some sample_rules\<rparr>],
     ps_tracks = (\<lambda>i. [(1, ''t1'')])\<rparr>"

lemma smart_tracks_not_edited_witness:
  "\<exists>r st' q. run_op \<lparr>u_id = ''alice'', u_admin = False\<rparr> (Op_update_entity ''s'' new_playlist) smart_store = Inr (r, st')
     \<and> ps_rows st' ''s'' = Some q \<and> is_smart q \<and> ps_tracks st' ''s'' = [(1, ''t1'')]"
proof -
  let ?p = "new_playlist\<lparr>p_owner := ''alice'', p_rules := Some sample_rules\<rparr>"
  have "check_writable \<lparr>u_id = ''alice'', u_admin = False\<rparr> ''s'' smart_store = Inr ?p"
    by (simp add: check_writable_Inr smart_store_def)
  then obtain st' where "run_op \<lparr>u_id = ''alice'', u_admin = False\<rparr> (Op_update_entity ''s'' new_playlist) smart_store = Inr ((), st')"
    by (simp add: run_op_def update_entity_def update_metadata_def put_no_tracks new_playlist_def)
  from this smart_tracks_not_edited [OF this, of "''s''" ?p] show ?thesis
    by (auto simp: smart_store_def is_smart_def sample_rules_def)
qed

text \<open>The positions stay 1 up to the number of tracks as long as no track is moved outside of them.\<close>

definition all_positions_ok :: "playlist_store \<Rightarrow> bool" where
  "all_positions_ok st \<longleftrightarrow> (\<forall>i. positions_ok (ps_tracks st i))"

definition op_in_range :: "playlist_op \<Rightarrow> playlist_store \<Rightarrow> bool" where
  "op_in_range op st \<longleftrightarrow>
     (case op of
        Op_reorder i pos new_pos \<Rightarrow>
          (let n = int (length (ps_tracks st i)) in n \<le> 999998 \<and> 1 \<le> pos \<and> pos \<le> n \<and> 1 \<le> new_pos \<and> new_pos \<le> n)
      | _ \<Rightarrow> True)"

lemma positions_ok_Nil [simp]: "positions_ok []"
  by (simp add: positions_ok_def)

lemma replace_positions: "\<exists>rows. replace_tracks ids = Some rows \<and> positions_ok rows \<and> tracks_in_order rows = ids"
  using add_chunks_spec [of "[]" 1 ids] positions_ok_append [of "[]" ids]
  by (auto simp: replace_tracks_def numbered_order)

lemma tracks_keep:
  "all_positions_ok st \<Longrightarrow> on_tracks i f st = Inr (x, st') \<Longrightarrow>
     (\<And>rows. f (ps_tracks st i) = Some rows \<Longrightarrow> positions_ok rows) \<Longrightarrow> all_positions_ok st'"
  by (auto simp: on_tracks_def all_positions_ok_def split: option.splits)

lemma put_keeps: "all_positions_ok st \<Longrightarrow> repo_put i p tracks st = Inr (x, st') \<Longrightarrow> all_positions_ok st'"
  using replace_positions [of tracks] by (auto simp: repo_put_def Let_def all_positions_ok_def split: if_splits)

lemma add_keeps: "positions_ok rows \<Longrightarrow> add_tracks ids rows = Some rows' \<Longrightarrow> positions_ok rows'"
  using add_tracks_spec [of rows ids] by auto

lemma delete_keeps: "positions_ok rows \<Longrightarrow> delete_tracks ps rows = Some rows' \<Longrightarrow> positions_ok rows'"
  using delete_tracks_spec [of rows ps] by auto

lemma update_keeps:
  assumes "all_positions_ok st" "update_playlist u i name comment public to_add to_remove st = Inr (r, st')"
  shows "all_positions_ok st'"
proof -
  have add: "all_positions_ok a \<Longrightarrow> (if to_add \<noteq> [] then on_tracks i (add_tracks to_add) a else Inr ((), a)) = Inr (x, b)
      \<Longrightarrow> all_positions_ok b" for a b x
    using tracks_keep [of a i "add_tracks to_add" x b] add_keeps by (auto simp: all_positions_ok_def split: if_splits)
  have del: "on_tracks i (delete_tracks ps) st = Inr (x, b) \<Longrightarrow> all_positions_ok b" for ps b x
    using tracks_keep [of st i "delete_tracks ps" x b] delete_keeps assms(1) by (auto simp: all_positions_ok_def)
  have meta: "all_positions_ok a \<Longrightarrow> update_metadata i p name comment public a = Inr (x, b) \<Longrightarrow> all_positions_ok b" for p a b x
    unfolding update_metadata_def by (rule put_keeps)
  obtain p where p: "(if to_add \<noteq> [] \<or> to_remove \<noteq> [] then check_tracks_editable u i st else check_writable u i st) = Inr p"
    using assms(2) by (auto simp: update_playlist_def split: sum.splits)
  show ?thesis
  proof (cases "to_remove \<noteq> []")
    case True
    then obtain a b x y where "on_tracks i (delete_tracks (map (\<lambda>k. k + 1) to_remove)) st = Inr (x, a)"
      "(if to_add \<noteq> [] then on_tracks i (add_tracks to_add) a else Inr ((), a)) = Inr (y, b)"
      "update_metadata i p name comment public b = Inr (r, st')"
      using assms(2) unfolding update_playlist_def p sum.case if_P [OF True] and_then_Inr by blast
    then show ?thesis using del add meta by blast
  next
    case False
    then obtain b y where b: "(if to_add \<noteq> [] then on_tracks i (add_tracks to_add) st else Inr ((), st)) = Inr (y, b)"
      "(if name = None \<and> comment = None \<and> public = None then Inr ((), b) else update_metadata i p name comment public b) = Inr (r, st')"
      using assms(2) unfolding update_playlist_def p sum.case if_not_P [OF False] and_then_Inr by blast
    then have "all_positions_ok b" using add assms(1) by blast
    then show ?thesis using b(2) meta by (auto split: if_splits)
  qed
qed

text \<open>The positions of the tracks of every playlist stay 1 up to the number of tracks, whatever the users
  do, except for moving a track to a position outside of them.\<close>

lemma positions_kept:
  assumes "all_positions_ok st" "op_in_range op st"
  shows "all_positions_ok (op_after u op st)"
proof (cases "run_op u op st")
  case (Inr y)
  then obtain r st' where r: "run_op u op st = Inr (r, st')" by (cases y) simp
  have edit: "all_positions_ok st'" if "edit_tracks u i f st = Inr (r, st')"
    "\<And>rows. f (ps_tracks st i) = Some rows \<Longrightarrow> positions_ok rows" for i f
    using that tracks_keep [OF assms(1), of i f] by (auto simp: edit_tracks_def split: sum.splits)
  have ok: "positions_ok (ps_tracks st i)" for i using assms(1) by (simp add: all_positions_ok_def)
  have del: "all_positions_ok (repo_delete i st)" for i using ok by (simp add: all_positions_ok_def repo_delete_def)
  have "all_positions_ok st'"
  proof (cases op)
    case (Op_create i name ids new_id)
    then show ?thesis using r put_keeps [OF assms(1)]
      by (auto simp: run_op_def create_playlist_def repo_insert_def map_sum_def split: sum.splits if_splits)
  next
    case (Op_update i name comment public to_add to_remove)
    then show ?thesis using r update_keeps [OF assms(1)] by (auto simp: run_op_def)
  next
    case (Op_add i ids)
    then show ?thesis using r edit add_keeps [OF ok] by (auto simp: run_op_def)
  next
    case (Op_remove i ps)
    then show ?thesis using r edit delete_keeps [OF ok] by (auto simp: run_op_def)
  next
    case (Op_reorder i pos new_pos)
    then have range: "length (ps_tracks st i) \<le> 999998" "pos \<in> {1..int (length (ps_tracks st i))}"
      "new_pos \<in> {1..int (length (ps_tracks st i))}" using assms(2) by (auto simp: op_in_range_def Let_def)
    have "edit_tracks u i (reorder pos new_pos) st = Inr (r, st')" using r Op_reorder by (simp add: run_op_def)
    then show ?thesis by (rule edit) (use reorder_spec [OF ok range] in auto)
  next
    case (Op_delete i)
    then show ?thesis using r del by (auto simp: run_op_def delete_playlist_def split: sum.splits)
  next
    case (Op_rest_delete i)
    then show ?thesis using r del
      by (auto simp: run_op_def rest_delete_def delete_playlist_def map_sum_def split: sum.splits)
  next
    case (Op_save p tracks new_id)
    then show ?thesis using r put_keeps [OF assms(1)] by (auto simp: run_op_def save_playlist_def repo_insert_def split: if_splits)
  next
    case (Op_update_entity i entity)
    then show ?thesis using r put_keeps [OF assms(1)]
      by (auto simp: run_op_def update_entity_def update_metadata_def split: sum.splits if_splits)
  qed (use r put_keeps [OF assms(1)] in \<open>auto simp: run_op_def set_image_def split: sum.splits option.splits\<close>)
  then show ?thesis using r by (simp add: op_after_def)
qed (simp add: op_after_def assms)

lemma positions_kept_witness:
  "all_positions_ok (op_after \<lparr>u_id = ''alice'', u_admin = False\<rparr> (Op_create ''p'' [] [''a'', ''b'', ''a''] ''x'') sample_store)"
  by (rule positions_kept) (simp_all add: all_positions_ok_def sample_store_def positions_ok_def op_in_range_def)

text \<open>Updating a playlist its owner may edit removes the tracks at the given indices, appends the new ones,
  and sets the given metadata, all at once.\<close>

lemma update_edits:
  assumes "ps_rows st i = Some p" "u_admin u \<or> p_owner p = u_id u" "\<not> is_smart p" "positions_ok (ps_tracks st i)"
  shows "\<exists>st' q. update_playlist u i name comment public to_add to_remove st = Inr ((), st')
     \<and> tracks_in_order (ps_tracks st' i)
         = map snd (filter (\<lambda>(k, m). k \<notin> set to_remove)
             (zip [0..int (length (ps_tracks st i)) - 1] (tracks_in_order (ps_tracks st i)))) @ to_add
     \<and> positions_ok (ps_tracks st' i) \<and> ps_rows st' i = Some q
     \<and> p_name q = (case name of Some n \<Rightarrow> n | None \<Rightarrow> p_name p)
     \<and> p_comment q = (case comment of Some c \<Rightarrow> c | None \<Rightarrow> p_comment p)
     \<and> p_public q = (case public of Some b \<Rightarrow> b | None \<Rightarrow> p_public p) \<and> p_owner q = p_owner p"
proof -
  let ?rows = "ps_tracks st i" and ?n = "int (length (ps_tracks st i))"
  let ?kept = "map snd (filter (\<lambda>(k, m). k \<notin> set to_remove) (zip [0..?n - 1] (tracks_in_order ?rows)))"
  have chk: "(if to_add \<noteq> [] \<or> to_remove \<noteq> [] then check_tracks_editable u i st else check_writable u i st) = Inr p"
    using assms(1-3) by (simp add: check_tracks_editable_Inr check_writable_Inr)
  obtain rows1 where r1: "(if to_remove \<noteq> [] then delete_tracks (map (\<lambda>k. k + 1) to_remove) ?rows else Some ?rows) = Some rows1"
    "positions_ok rows1" "tracks_in_order rows1 = ?kept"
  proof (cases "to_remove = []")
    case True
    have "length [0..?n - 1] = length (tracks_in_order ?rows)" by simp
    then show ?thesis using that [of ?rows] True assms(4) by (simp add: case_prod_unfold)
  next
    case False
    obtain kept where "delete_tracks (map (\<lambda>k. k + 1) to_remove) ?rows = Some kept" "positions_ok kept"
      "tracks_in_order kept = ?kept"
      using delete_tracks_spec [OF assms(4), of "map (\<lambda>k. k + 1) to_remove"] unfolding positions_shift by blast
    then show ?thesis using that [of kept] False by simp
  qed
  obtain rows2 where r2: "(if to_add \<noteq> [] then add_tracks to_add rows1 else Some rows1) = Some rows2"
    "positions_ok rows2" "tracks_in_order rows2 = ?kept @ to_add"
    using add_tracks_spec [OF r1(2), of to_add] r1(2,3) by (cases "to_add = []") auto
  let ?q = "merge_row (p\<lparr>p_name := (case name of Some n \<Rightarrow> n | None \<Rightarrow> p_name p),
      p_comment := (case comment of Some c \<Rightarrow> c | None \<Rightarrow> p_comment p),
      p_public := (case public of Some b \<Rightarrow> b | None \<Rightarrow> p_public p)\<rparr>) (Some p)"
  have same: "(ps_tracks st)(i := rows1, i := rows2) = (ps_tracks st)(i := rows2)" by simp
  have add: "(if to_add \<noteq> [] then on_tracks i (add_tracks to_add) (st\<lparr>ps_tracks := (ps_tracks st)(i := rows1)\<rparr>)
      else Inr ((), st\<lparr>ps_tracks := (ps_tracks st)(i := rows1)\<rparr>)) = Inr ((), st\<lparr>ps_tracks := (ps_tracks st)(i := rows2)\<rparr>)"
    using r2(1) by (auto simp: on_tracks_def split: if_splits)
  have st1: "st\<lparr>ps_tracks := (ps_tracks st)(i := ?rows)\<rparr> = st" by simp
  show ?thesis
  proof (cases "to_remove = []")
    case False
    then have "on_tracks i (delete_tracks (map (\<lambda>k. k + 1) to_remove)) st = Inr ((), st\<lparr>ps_tracks := (ps_tracks st)(i := rows1)\<rparr>)"
      using r1(1) by (simp add: on_tracks_def)
    then have "update_playlist u i name comment public to_add to_remove st
        = update_metadata i p name comment public (st\<lparr>ps_tracks := (ps_tracks st)(i := rows2)\<rparr>)"
      unfolding update_playlist_def chk using False add by (simp add: and_then_def)
    then show ?thesis using r2 assms(1) by (simp add: update_metadata_def put_no_tracks merge_row_def)
  next
    case True
    then have "rows1 = ?rows" using r1(1) by simp
    then have a: "(if to_add \<noteq> [] then on_tracks i (add_tracks to_add) st else Inr ((), st))
        = Inr ((), st\<lparr>ps_tracks := (ps_tracks st)(i := rows2)\<rparr>)"
      using r2(1) by (auto simp: on_tracks_def split: if_splits)
    have "\<not> to_remove \<noteq> []" using True by simp
    then have "update_playlist u i name comment public to_add to_remove st
        = (if name = None \<and> comment = None \<and> public = None then Inr ((), st\<lparr>ps_tracks := (ps_tracks st)(i := rows2)\<rparr>)
           else update_metadata i p name comment public (st\<lparr>ps_tracks := (ps_tracks st)(i := rows2)\<rparr>))"
      unfolding update_playlist_def chk sum.case a and_then_def by (simp only: if_False sum.case prod.case simp_thms)
    then show ?thesis using r2 assms(1) by (simp add: update_metadata_def put_no_tracks merge_row_def)
  qed
qed

lemma update_edits_witness:
  "\<exists>st'. update_playlist \<lparr>u_id = ''alice'', u_admin = False\<rparr> ''p'' None None (Some False) [''x'', ''y''] [0, 7] sample_store = Inr ((), st')
     \<and> tracks_in_order (ps_tracks st' ''p'') = [''x'', ''y'']"
  using update_edits [of sample_store "''p''" "new_playlist\<lparr>p_owner := ''alice'', p_public := True\<rparr>" "\<lparr>u_id = ''alice'', u_admin = False\<rparr>"
      None None "Some False" "[''x'', ''y'']" "[0, 7]"]
  by (auto simp: sample_store_def new_playlist_def is_smart_def positions_ok_def tracks_in_order_def upto.simps)

text \<open>Importing keeps what the user set on a synchronised playlist and leaves any other alone.\<close>

lemma import_keeps:
  assumes "ps_rows st i = Some p" "import_playlist u d (Some i) new tracks new_id st = Inr (x, st')"
  shows "\<exists>q. ps_rows st' i = Some q \<and> p_name q = p_name p \<and> p_comment q = p_comment p \<and> p_owner q = p_owner p
    \<and> p_public q = p_public p \<and> p_uploaded_image q = p_uploaded_image p \<and> (\<not> p_sync p \<longrightarrow> st' = st)"
  using assms put_rows by (fastforce simp: import_playlist_def merge_row_def split: if_splits)

text \<open>Creating over a playlist with no tracks is meant to replace them, but leaves them.\<close>

lemma create_empty_keeps:
  "ps_rows st i = Some p \<Longrightarrow> p_owner p = u_id u \<Longrightarrow> \<not> is_smart p \<Longrightarrow> i \<noteq> [] \<Longrightarrow>
     \<exists>st'. create_playlist u i name [] new_id st = Inr (i, st') \<and> ps_tracks st' = ps_tracks st"
  by (simp add: create_playlist_def repo_get_def put_no_tracks)

end
