(* ===== verification/Paths.thy ===== *)
theory Paths
  imports GoStrings
begin

text \<open>
  File paths with slashes: what the packages \<open>path\<close> and \<open>path/filepath\<close> document of \<open>Base\<close>,
  \<open>Ext\<close>, \<open>Clean\<close>, \<open>Dir\<close>, \<open>Join\<close> and \<open>Rel\<close>, and \<open>utils/files.go\<close>. A cleaned path has no empty
  element and no single dot, and double dots only at the start of a relative path.
\<close>

section \<open>Names\<close>

text \<open>\<open>path.Base\<close>, \<open>path.Ext\<close> and \<open>BaseName\<close> of \<open>utils/files.go\<close>.\<close>

definition path_base :: "string \<Rightarrow> string" where
  "path_base s =
     (if s = [] then ''.''
      else let t = dropWhile (\<lambda>ch. ch = CHR ''/'') (rev s) in
        if t = [] then ''/'' else rev (takeWhile (\<lambda>ch. ch \<noteq> CHR ''/'') t))"

definition path_ext :: "string \<Rightarrow> string" where
  "path_ext s =
     (let last_part = takeWhile (\<lambda>ch. ch \<noteq> CHR ''/'') (rev s) in
      if CHR ''.'' \<in> set last_part then CHR ''.'' # rev (takeWhile (\<lambda>ch. ch \<noteq> CHR ''.'') last_part) else [])"

definition base_name :: "string \<Rightarrow> string" where
  "base_name s = (let p = path_base s in take (length p - length (path_ext p)) p)"

section \<open>Cleaning\<close>

text \<open>\<open>filepath.Clean\<close> and \<open>filepath.Dir\<close> with slashes.\<close>

fun clean_elements :: "bool \<Rightarrow> string list \<Rightarrow> string list \<Rightarrow> string list" where
  "clean_elements rooted acc [] = rev acc"
| "clean_elements rooted acc (e # es) =
     (if e = [] \<or> e = ''.'' then clean_elements rooted acc es
      else if e = ''..'' then
        (case acc of
           x # xs \<Rightarrow> if x \<noteq> ''..'' then clean_elements rooted xs es
                    else clean_elements rooted (e # acc) es
         | [] \<Rightarrow> if rooted then clean_elements rooted acc es
                 else clean_elements rooted (e # acc) es)
      else clean_elements rooted (e # acc) es)"

definition path_clean :: "string \<Rightarrow> string" where
  "path_clean p =
     (if p = [] then ''.''
      else (let rooted = (hd p = CHR ''/'');
                s = join ''/'' (clean_elements rooted [] (split_on (CHR ''/'') p))
            in if rooted then CHR ''/'' # s else if s = [] then ''.'' else s))"

definition path_dir :: "string \<Rightarrow> string" where
  "path_dir p = path_clean (rev (dropWhile (\<lambda>c. c \<noteq> CHR ''/'') (rev p)))"

text \<open>\<open>filepath.Join\<close>: empty elements are left out. \<open>filepath.IsAbs\<close>.\<close>

definition path_join :: "string list \<Rightarrow> string" where
  "path_join ps =
     (let qs = filter (\<lambda>p. p \<noteq> []) ps in if qs = [] then [] else path_clean (join ''/'' qs))"

definition is_abs :: "string \<Rightarrow> bool" where
  "is_abs p \<longleftrightarrow> p \<noteq> [] \<and> hd p = CHR ''/''"

text \<open>\<open>CleanFileName\<close>: a name for a file made from any text.\<close>

definition file_name_char :: "char \<Rightarrow> bool" where
  "file_name_char c \<longleftrightarrow> (97 \<le> byte c \<and> byte c \<le> 122) \<or> is_digit c \<or> c = CHR ''_'' \<or> c = CHR ''-''"

definition clean_file_name :: "string \<Rightarrow> string" where
  "clean_file_name name =
     trim_right (\<lambda>c. c = CHR ''_'' \<or> c = CHR ''-'')
       (take 50 (filter file_name_char
          (map (\<lambda>c. if c = CHR '' '' then CHR ''_'' else c) (to_lower (trim_space name)))))"

lemma clean_file_name_safe:
  "length (clean_file_name name) \<le> 50" "c \<in> set (clean_file_name name) \<Longrightarrow> file_name_char c"
proof -
  let ?s = "take 50 (filter file_name_char
          (map (\<lambda>c. if c = CHR '' '' then CHR ''_'' else c) (to_lower (trim_space name))))"
  have "length (trim_right P s) \<le> length s" for P s
    by (metis length_dropWhile_le length_rev trim_right_def)
  from le_trans [OF this [of _ ?s]] show "length (clean_file_name name) \<le> 50"
    by (simp add: clean_file_name_def)
  show "file_name_char c" if "c \<in> set (clean_file_name name)"
    using that by (auto simp: clean_file_name_def trim_right_def dest!: set_dropWhileD in_set_takeD)
qed

section \<open>Splitting and joining\<close>

lemma split_on_no_sep: "w \<in> set (split_on sep s) \<Longrightarrow> sep \<notin> set w"
proof (induction s arbitrary: w)
  case (Cons c s)
  then show ?case by (auto split: if_splits list.splits)
qed simp

lemma split_on_append:
  "sep \<notin> set w \<Longrightarrow> split_on sep (w @ sep # s) = w # split_on sep s"
  by (induction w) auto

lemma split_on_word: "sep \<notin> set w \<Longrightarrow> split_on sep w = [w]"
  by (induction w) auto

lemma split_on_join:
  "ws \<noteq> [] \<Longrightarrow> \<forall>w \<in> set ws. sep \<notin> set w \<Longrightarrow> split_on sep (join [sep] ws) = ws"
  by (induction "[sep]" ws rule: join.induct) (simp_all add: split_on_append split_on_word)

section \<open>Cleaned paths\<close>

text \<open>The elements of a cleaned path.\<close>

definition clean_element :: "string \<Rightarrow> bool" where
  "clean_element e \<longleftrightarrow> e \<noteq> [] \<and> e \<noteq> ''.'' \<and> CHR ''/'' \<notin> set e"

definition element_ok :: "bool \<Rightarrow> string \<Rightarrow> bool" where
  "element_ok rooted e \<longleftrightarrow> clean_element e \<and> (rooted \<longrightarrow> e \<noteq> ''..'')"

definition clean_step :: "bool \<Rightarrow> string list \<Rightarrow> string \<Rightarrow> string list" where
  "clean_step rooted acc e =
     (if e = [] \<or> e = ''.'' then acc
      else if e = ''..'' then
        (case acc of x # xs \<Rightarrow> if x \<noteq> ''..'' then xs else e # acc
         | [] \<Rightarrow> if rooted then acc else e # acc)
      else e # acc)"

lemma clean_elements_fold: "clean_elements rooted acc es = rev (foldl (clean_step rooted) acc es)"
proof (induction es arbitrary: acc)
  case (Cons e es)
  have "clean_elements rooted acc (e # es) = clean_elements rooted (clean_step rooted acc e) es"
    unfolding clean_elements.simps clean_step_def by (cases acc) simp_all
  with Cons show ?case by simp
qed simp

lemma clean_step_ok:
  assumes "CHR ''/'' \<notin> set e" "\<forall>x \<in> set acc. element_ok rooted x"
  shows "\<forall>x \<in> set (clean_step rooted acc e). element_ok rooted x"
  using assms by (cases acc) (auto simp: clean_step_def element_ok_def clean_element_def)

lemma clean_elements_ok:
  assumes "\<forall>e \<in> set es. CHR ''/'' \<notin> set e" "\<forall>e \<in> set acc. element_ok rooted e"
  shows "\<forall>e \<in> set (clean_elements rooted acc es). element_ok rooted e"
  using assms unfolding clean_elements_fold
proof (induction es arbitrary: acc)
  case (Cons x es)
  then have es: "\<forall>e \<in> set es. CHR ''/'' \<notin> set e" and x: "CHR ''/'' \<notin> set x" by simp_all
  from Cons.IH [OF es clean_step_ok [OF x Cons.prems(2)]] show ?case by simp
qed simp

lemma clean_elements_plain:
  assumes "\<forall>e \<in> set es. clean_element e \<and> e \<noteq> ''..''"
  shows "clean_elements rooted acc es = rev acc @ es"
  using assms
proof (induction es arbitrary: acc)
  case (Cons e es)
  then have "e \<noteq> []" "e \<noteq> ''.''" "e \<noteq> ''..''" by (auto simp: clean_element_def)
  with Cons show ?case by simp
qed simp

text \<open>An absolute path is cleaned to its elements, none of which is a double dot.\<close>

definition abs_path :: "string list \<Rightarrow> string" where
  "abs_path es = CHR ''/'' # join ''/'' es"

lemma path_clean_abs:
  assumes "is_abs p"
  obtains es where "path_clean p = abs_path es" "\<forall>e \<in> set es. clean_element e \<and> e \<noteq> ''..''"
proof -
  let ?es = "clean_elements True [] (split_on (CHR ''/'') p)"
  have "path_clean p = abs_path ?es"
    using assms by (simp add: path_clean_def is_abs_def abs_path_def Let_def)
  moreover have ok: "\<forall>e \<in> set ?es. element_ok True e"
    by (rule clean_elements_ok) (auto dest: split_on_no_sep)
  have "clean_element e \<and> e \<noteq> ''..''" if "e \<in> set ?es" for e
    using ok that by (simp add: element_ok_def)
  ultimately show thesis using that by blast
qed

lemma path_clean_abs_path:
  assumes "\<forall>e \<in> set es. clean_element e \<and> e \<noteq> ''..''"
  shows "path_clean (abs_path es) = abs_path es"
proof -
  have "split_on (CHR ''/'') (abs_path es) = [] # (if es = [] then [[]] else es)"
    using assms split_on_join [of es "CHR ''/''"] by (auto simp: abs_path_def clean_element_def)
  moreover have "clean_elements True [] ([] # (if es = [] then [[]] else es)) = es"
    using clean_elements_plain [OF assms, of True "[]"] by auto
  ultimately show ?thesis by (simp add: path_clean_def Let_def) (simp add: abs_path_def)
qed


section \<open>Cleaning twice\<close>

definition plain_element :: "string \<Rightarrow> bool" where
  "plain_element e \<longleftrightarrow> clean_element e \<and> e \<noteq> ''..''"

text \<open>The elements of a cleaned path in reverse: plain ones above double dots.\<close>

definition clean_stack :: "bool \<Rightarrow> string list \<Rightarrow> bool" where
  "clean_stack rooted acc \<longleftrightarrow>
     (\<exists>ps n. acc = ps @ replicate n ''..'' \<and> (\<forall>p \<in> set ps. plain_element p) \<and> (rooted \<longrightarrow> n = 0))"

lemma clean_stack_step:
  assumes "clean_stack rooted acc" "CHR ''/'' \<notin> set e"
  shows "clean_stack rooted (clean_step rooted acc e)"
proof -
  from assms(1) obtain ps n where a: "acc = ps @ replicate n ''..''" "\<forall>p \<in> set ps. plain_element p" "rooted \<longrightarrow> n = 0"
    unfolding clean_stack_def by blast
  show ?thesis
  proof (cases "e = [] \<or> e = ''.'' \<or> e \<noteq> ''..''")
    case True
    then consider "e = [] \<or> e = ''.''" | "plain_element e"
      using assms(2) by (auto simp: plain_element_def clean_element_def)
    then show ?thesis
    proof cases
      case 1
      with assms(1) show ?thesis by (auto simp: clean_step_def)
    next
      case 2
      with a have "clean_step rooted acc e = (e # ps) @ replicate n ''..''"
        by (simp add: clean_step_def plain_element_def clean_element_def)
      with a 2 show ?thesis unfolding clean_stack_def by (metis set_ConsD)
    qed
  next
    case False
    show ?thesis
    proof (cases ps)
      case Nil
      then show ?thesis
      proof (cases n)
        case 0
        with Nil a False have "clean_step rooted acc e = [] @ replicate (if rooted then 0 else 1) ''..''"
          by (simp add: clean_step_def)
        then show ?thesis unfolding clean_stack_def by (metis empty_iff empty_set)
      next
        case (Suc m)
        with Nil a False have "clean_step rooted acc e = [] @ replicate (Suc n) ''..''" "\<not> rooted"
          by (auto simp: clean_step_def)
        then show ?thesis unfolding clean_stack_def by (metis empty_iff empty_set)
      qed
    next
      case (Cons p qs)
      with a False have "clean_step rooted acc e = qs @ replicate n ''..''"
        by (auto simp: clean_step_def plain_element_def)
      with a Cons show ?thesis unfolding clean_stack_def by (metis list.set_intros(2))
    qed
  qed
qed

lemma clean_elements_stack:
  assumes "\<forall>e \<in> set es. CHR ''/'' \<notin> set e" "clean_stack rooted acc"
  shows "clean_stack rooted (rev (clean_elements rooted acc es))"
  using assms unfolding clean_elements_fold
  by (induction es arbitrary: acc) (auto intro: clean_stack_step)

lemma clean_elements_dots:
  "clean_elements False (replicate k ''..'') (replicate n ''..'' @ ps) =
     clean_elements False (replicate (n + k) ''..'') ps"
proof (induction n arbitrary: k)
  case (Suc n)
  have "clean_elements False (replicate k ''..'') (''..'' # es) =
      clean_elements False (replicate (Suc k) ''..'') es" for es by (cases k) simp_all
  with Suc [of "Suc k"] show ?case by simp
qed simp

lemma clean_elements_again:
  assumes "clean_stack rooted (rev es)"
  shows "clean_elements rooted [] es = es"
proof -
  from assms obtain ps n where a: "es = replicate n ''..'' @ rev ps" "\<forall>p \<in> set ps. plain_element p"
      "rooted \<longrightarrow> n = 0"
    unfolding clean_stack_def by (metis rev_append rev_replicate rev_rev_ident)
  have plain: "clean_elements rooted acc (rev ps) = rev acc @ rev ps" for acc
    using a(2) by (intro clean_elements_plain) (simp add: plain_element_def)
  show ?thesis
  proof (cases rooted)
    case True
    with a plain [of "[]"] show ?thesis by simp
  next
    case False
    with a(1) plain clean_elements_dots [of 0 n "rev ps"] show ?thesis by simp
  qed
qed

lemma path_clean_idem [simp]: "path_clean (path_clean p) = path_clean p"
proof (cases "is_abs p")
  case True
  then obtain es where "path_clean p = abs_path es" "\<forall>e \<in> set es. clean_element e \<and> e \<noteq> ''..''"
    by (rule path_clean_abs)
  then show ?thesis using path_clean_abs_path by simp
next
  case False
  let ?es = "clean_elements False [] (split_on (CHR ''/'') p)"
  have st: "clean_stack False (rev ?es)"
    by (rule clean_elements_stack) (auto dest: split_on_no_sep simp: clean_stack_def)
  have ok: "\<forall>e \<in> set ?es. element_ok False e"
    by (rule clean_elements_ok) (auto dest: split_on_no_sep)
  show ?thesis
  proof (cases "p = [] \<or> ?es = []")
    case True
    with False have "path_clean p = ''.''"
      by (auto simp: path_clean_def is_abs_def Let_def)
    then show ?thesis by (simp add: path_clean_def Let_def)
  next
    case ne: False
    then obtain e es' where e: "?es = e # es'" by (cases ?es) auto
    with ok have "e \<noteq> []" "CHR ''/'' \<notin> set e" by (auto simp: element_ok_def clean_element_def)
    then have hd: "join ''/'' ?es \<noteq> []" "hd (join ''/'' ?es) \<noteq> CHR ''/''"
      unfolding e by (cases e; cases es'; auto)+
    have c: "path_clean p = join ''/'' ?es"
      using ne False hd(1) by (auto simp: path_clean_def is_abs_def Let_def)
    have "split_on (CHR ''/'') (join ''/'' ?es) = ?es"
      using ne ok by (intro split_on_join) (auto simp: element_ok_def clean_element_def)
    with hd clean_elements_again [OF st] show ?thesis unfolding c by (simp add: path_clean_def Let_def)
  qed
qed

lemma path_join_clean: "path_join ps \<noteq> [] \<Longrightarrow> path_clean (path_join ps) = path_join ps"
  by (auto simp: path_join_def Let_def split: if_splits)


end
