(* ===== verification/MissingTracks.thy ===== *)
theory MissingTracks
  imports Paths "HOL-Library.Multiset" "HOL-Library.Char_ord" "HOL-Library.List_Lexorder"
begin

text \<open>
  The second phase of a scan (\<open>scanner/phase_2_missing_tracks.go\<close>): tracks whose file is gone are matched
  with new ones, in their library and then in others, and a matched track keeps its identity at the new
  place. The table of tracks is the list of its rows; of \<open>MediaFile\<close> there are the fields the phase reads,
  and the value of its hash, which leaves out the identity and the place of a track. A statement can
  fail, in the order of the list of faults; a transaction with a failed statement is rolled back.
\<close>

section \<open>Tracks and tables\<close>

record track =
  t_id :: string
  t_pid :: string
  t_library :: int
  t_path :: string
  t_hash :: string
  t_missing :: bool
  t_created :: int
  t_birth :: int
  t_album :: string
  t_mbz_track :: string
  t_suffix :: string
  t_title :: string
  t_size :: int
  t_disc :: int
  t_number :: int
  t_album_name :: string

record annotation =
  an_user :: string
  an_album :: string
  an_value :: int

record scan_db =
  sc_tracks :: "track list"
  sc_annotations :: "annotation list"
  sc_albums :: "string \<rightharpoonup> int"
  sc_processed :: "string list"
  sc_matched :: nat
  sc_changes :: bool
  sc_faults :: "bool list"

definition run_statement :: "scan_db \<Rightarrow> bool \<times> scan_db" where
  "run_statement st = (case sc_faults st of [] \<Rightarrow> (True, st) | f # fs \<Rightarrow> (\<not> f, st\<lparr>sc_faults := fs\<rparr>))"

definition equal_tracks :: "track \<Rightarrow> track \<Rightarrow> bool" where
  "equal_tracks a b \<longleftrightarrow> t_hash a = t_hash b"

definition is_equivalent :: "track \<Rightarrow> track \<Rightarrow> bool" where
  "is_equivalent a b \<longleftrightarrow> base_name (t_path a) = base_name (t_path b)"

text \<open>\<open>Put\<close> of a track with an id: the row is updated, except for its creation and birth times, or added.\<close>

definition put_track :: "track \<Rightarrow> track list \<Rightarrow> track list" where
  "put_track t rows =
     (if t_id t \<in> set (map t_id rows)
      then map (\<lambda>r. if t_id r = t_id t then t\<lparr>t_created := t_created r, t_birth := t_birth r\<rparr> else r) rows
      else rows @ [t])"

definition delete_track :: "string \<Rightarrow> track list \<Rightarrow> track list" where
  "delete_track i rows = filter (\<lambda>r. t_id r \<noteq> i) rows"

text \<open>\<open>ReassignAnnotation\<close>: one statement, which fails when a user has annotated both albums.\<close>

definition reassign_annotation :: "string \<Rightarrow> string \<Rightarrow> annotation list \<Rightarrow> annotation list" where
  "reassign_annotation prev new anns =
     (if prev = new \<or> prev = [] \<or> new = [] then anns
      else if \<exists>a \<in> set anns. \<exists>b \<in> set anns. an_album a = prev \<and> an_album b = new \<and> an_user a = an_user b then anns
      else map (\<lambda>a. if an_album a = prev then a\<lparr>an_album := new\<rparr> else a) anns)"

definition copy_created_at :: "string \<Rightarrow> string \<Rightarrow> (string \<rightharpoonup> int) \<Rightarrow> (string \<rightharpoonup> int)" where
  "copy_created_at from_id to_id albums =
     (case albums from_id of
        None \<Rightarrow> albums
      | Some t \<Rightarrow> if albums to_id = None then albums else albums(to_id \<mapsto> t))"

section \<open>Moving\<close>

text \<open>The reassignment of the album's annotations; an error is only logged.\<close>

definition reassign_album :: "string \<Rightarrow> string \<Rightarrow> scan_db \<Rightarrow> scan_db" where
  "reassign_album old_album new_album st =
     (if old_album = new_album \<or> new_album \<in> set (sc_processed st) then st
      else
        (case run_statement st of (ok1, st) \<Rightarrow>
         let st = (if ok1 then st\<lparr>sc_annotations := reassign_annotation old_album new_album (sc_annotations st)\<rparr> else st) in
         case run_statement st of (ok2, st) \<Rightarrow>
         let st = (if ok2 then st\<lparr>sc_albums := copy_created_at old_album new_album (sc_albums st)\<rparr> else st) in
         st\<lparr>sc_processed := new_album # sc_processed st\<rparr>))"

definition move_matched :: "track \<Rightarrow> track \<Rightarrow> scan_db \<Rightarrow> bool \<times> scan_db" where
  "move_matched target missing st =
     (case run_statement st of (ok1, st1) \<Rightarrow>
        if \<not> ok1 then (False, st1)
        else case run_statement st1 of (ok2, st2) \<Rightarrow>
        if \<not> ok2 then (False, st2)
        else
          let st3 = st2\<lparr>sc_tracks := delete_track (t_id target)
                (put_track (target\<lparr>t_id := t_id missing, t_created := t_created missing\<rparr>) (sc_tracks st2))\<rparr>;
              st4 = reassign_album (t_album missing) (t_album target) st3
          in (True, st4\<lparr>sc_changes := True\<rparr>))"

section \<open>Moves within a library\<close>

record missing_group =
  mg_library :: int
  mg_pid :: string
  mg_missing :: "track list"
  mg_matched :: "track list"

text \<open>The inner loop: the first unused exact match, and the last equivalent one before it.\<close>

fun find_matches :: "track \<Rightarrow> string list \<Rightarrow> track list \<Rightarrow> track option \<Rightarrow> track option \<times> track option" where
  "find_matches ms used [] equivalent = (None, equivalent)"
| "find_matches ms used (mt # rest) equivalent =
     (if t_id mt \<in> set used then find_matches ms used rest equivalent
      else if equal_tracks ms mt then (Some mt, equivalent)
      else if is_equivalent ms mt then find_matches ms used rest (Some mt)
      else find_matches ms used rest equivalent)"

definition with_id :: "track option \<Rightarrow> track option" where
  "with_id m = (case m of Some t \<Rightarrow> if t_id t \<noteq> [] then Some t else None | None \<Rightarrow> None)"

definition choose_match :: "missing_group \<Rightarrow> string list \<Rightarrow> track \<Rightarrow> track option" where
  "choose_match g used ms =
     (case find_matches ms used (mg_matched g) None of (exact, equivalent) \<Rightarrow>
        case with_id exact of
          Some t \<Rightarrow> Some t
        | None \<Rightarrow>
            if length (mg_missing g) = 1 \<and> length (mg_matched g) = 1 \<and> t_id (hd (mg_matched g)) \<notin> set used
            then Some (hd (mg_matched g))
            else with_id equivalent)"

text \<open>
  The loop over the missing tracks: \<open>None\<close> for an error, otherwise the ids of the missing tracks that
  were moved with the ids of their matches, last first.
\<close>

fun process_missing :: "missing_group \<Rightarrow> (string \<times> string) list \<Rightarrow> track list \<Rightarrow> scan_db
    \<Rightarrow> (string \<times> string) list option \<times> scan_db" where
  "process_missing g moves [] st = (Some moves, st)"
| "process_missing g moves (ms # rest) st =
     (case choose_match g (map snd moves) ms of
        None \<Rightarrow> process_missing g moves rest st
      | Some target \<Rightarrow>
          (case move_matched target ms st of
             (False, st) \<Rightarrow> (None, st)
           | (True, st) \<Rightarrow>
               process_missing g ((t_id ms, t_id target) # moves) rest (st\<lparr>sc_matched := Suc (sc_matched st)\<rparr>)))"

section \<open>Moves to another library\<close>

text \<open>The two queries, newest first.\<close>

definition recent_by_mbz :: "track \<Rightarrow> track list \<Rightarrow> track list" where
  "recent_by_mbz ms rows =
     sort_key (\<lambda>t. - t_created t) (filter (\<lambda>t. t_library t \<noteq> t_library ms \<and> t_mbz_track t = t_mbz_track ms
       \<and> t_mbz_track t \<noteq> [] \<and> t_suffix t = t_suffix ms \<and> t_created t > t_created ms \<and> \<not> t_missing t) rows)"

definition recent_by_properties :: "track \<Rightarrow> track list \<Rightarrow> track list" where
  "recent_by_properties ms rows =
     sort_key (\<lambda>t. - t_created t) (filter (\<lambda>t. t_library t \<noteq> t_library ms \<and> t_title t = t_title ms
       \<and> t_size t = t_size ms \<and> t_suffix t = t_suffix ms \<and> t_disc t = t_disc ms \<and> t_number t = t_number ms
       \<and> t_album_name t = t_album_name ms \<and> t_mbz_track t = [] \<and> t_created t > t_created ms \<and> \<not> t_missing t) rows)"

definition pick_match :: "track \<Rightarrow> track list \<Rightarrow> track option" where
  "pick_match ms matches =
     (case find (equal_tracks ms) matches of
        Some t \<Rightarrow> Some t
      | None \<Rightarrow> (case matches of [t] \<Rightarrow> if is_equivalent ms t then Some t else None | _ \<Rightarrow> None))"

definition find_cross_library_match :: "track \<Rightarrow> scan_db \<Rightarrow> track option \<times> scan_db" where
  "find_cross_library_match ms st =
     (case (if t_mbz_track ms \<noteq> []
            then (case run_statement st of (ok, st) \<Rightarrow>
                    ((if ok then pick_match ms (recent_by_mbz ms (sc_tracks st)) else None), st))
            else (None, st)) of
        (Some t, st) \<Rightarrow> (Some t, st)
      | (None, st) \<Rightarrow>
          (case run_statement st of (ok, st) \<Rightarrow>
             ((if ok then pick_match ms (recent_by_properties ms (sc_tracks st)) else None), st)))"

fun process_cross_library :: "track list \<Rightarrow> scan_db \<Rightarrow> scan_db" where
  "process_cross_library [] st = st"
| "process_cross_library (ms # rest) st =
     (case find_cross_library_match ms st of (found, st) \<Rightarrow>
        case with_id found of
          None \<Rightarrow> process_cross_library rest st
        | Some target \<Rightarrow>
            (case move_matched target ms st of
               (ok, st) \<Rightarrow> process_cross_library rest (if ok then st\<lparr>sc_matched := Suc (sc_matched st)\<rparr> else st)))"

text \<open>The two stages on a group; an error in the first ends the phase.\<close>

definition process_group :: "nat \<Rightarrow> missing_group \<Rightarrow> scan_db \<Rightarrow> bool \<times> scan_db" where
  "process_group library_count g st =
     (case process_missing g [] (mg_missing g) st of
        (None, st) \<Rightarrow> (False, st)
      | (Some moves, st) \<Rightarrow>
          (True, if moves \<noteq> [] \<or> library_count = 1 then st else process_cross_library (mg_missing g) st))"

section \<open>The groups\<close>

text \<open>\<open>GetMissingAndMatching\<close>: the rows that share the PID of a missing one of the library, by PID.\<close>

definition missing_and_matching :: "int \<Rightarrow> (int \<Rightarrow> int) \<Rightarrow> track list \<Rightarrow> track list" where
  "missing_and_matching lib last_scan rows =
     sort_key t_pid (filter (\<lambda>t. t_pid t \<in> set (map t_pid (filter (\<lambda>r. t_missing r \<and> t_library r = lib) rows))
       \<and> (t_missing t \<or> t_created t > last_scan (t_library t))) rows)"

fun produce_groups :: "missing_group \<Rightarrow> track list \<Rightarrow> missing_group list" where
  "produce_groups g [] = (if mg_pid g \<noteq> [] \<and> mg_missing g \<noteq> [] then [g] else [])"
| "produce_groups g (t # ts) =
     (let done = (if mg_pid g \<noteq> t_pid t then (if mg_pid g \<noteq> [] \<and> mg_missing g \<noteq> [] then [g] else []) else []);
          g1 = (if mg_pid g \<noteq> t_pid t then g\<lparr>mg_pid := t_pid t, mg_missing := [], mg_matched := []\<rparr> else g);
          g2 = (if t_missing t then g1\<lparr>mg_missing := mg_missing g1 @ [t]\<rparr> else g1\<lparr>mg_matched := mg_matched g1 @ [t]\<rparr>)
      in done @ produce_groups g2 ts)"

definition groups_of :: "int \<Rightarrow> (int \<Rightarrow> int) \<Rightarrow> track list \<Rightarrow> missing_group list" where
  "groups_of lib last_scan rows =
     produce_groups \<lparr>mg_library = lib, mg_pid = [], mg_missing = [], mg_matched = []\<rparr>
       (missing_and_matching lib last_scan rows)"

text \<open>The phase on the groups of the scanned libraries, in their order: the first error ends it.\<close>

fun run_groups :: "nat \<Rightarrow> missing_group list \<Rightarrow> scan_db \<Rightarrow> bool \<times> scan_db" where
  "run_groups library_count [] st = (True, st)"
| "run_groups library_count (g # gs) st =
     (case process_group library_count g st of (ok, st) \<Rightarrow>
        if ok then run_groups library_count gs st else (False, st))"

text \<open>\<open>finalize\<close>, with the value of \<open>Scanner.PurgeMissing\<close>.\<close>

definition purge_missing :: "scan_db \<Rightarrow> scan_db" where
  "purge_missing st =
     (case run_statement st of (ok, st) \<Rightarrow>
        if ok \<and> (\<exists>t \<in> set (sc_tracks st). t_missing t)
        then st\<lparr>sc_tracks := filter (\<lambda>t. \<not> t_missing t) (sc_tracks st), sc_changes := True\<rparr>
        else st)"

definition finalize_moves :: "string \<Rightarrow> bool \<Rightarrow> bool \<Rightarrow> scan_db \<Rightarrow> scan_db" where
  "finalize_moves purge full_scan ok st =
     (if \<not> ok then st
      else if purge = ''always'' \<or> (purge = ''full'' \<and> full_scan) then purge_missing st else st)"

section \<open>One move\<close>

definition place :: "track \<Rightarrow> int \<times> string" where
  "place t = (t_library t, t_path t)"

definition live_places :: "track list \<Rightarrow> (int \<times> string) multiset" where
  "live_places rows = mset (map place (filter (\<lambda>t. \<not> t_missing t) rows))"

definition missing_count :: "track list \<Rightarrow> nat" where
  "missing_count rows = length (filter t_missing rows)"

definition moved_rows :: "track \<Rightarrow> track \<Rightarrow> track list \<Rightarrow> track list" where
  "moved_rows target ms rows = delete_track (t_id target) (put_track (target\<lparr>t_id := t_id ms, t_created := t_created ms\<rparr>) rows)"

definition moved_track :: "track \<Rightarrow> track \<Rightarrow> track" where
  "moved_track target ms = target\<lparr>t_id := t_id ms, t_created := t_created ms, t_birth := t_birth ms\<rparr>"

lemma same_row: "distinct (map t_id rows) \<Longrightarrow> a \<in> set rows \<Longrightarrow> b \<in> set rows \<Longrightarrow> t_id a = t_id b \<Longrightarrow> a = b"
  by (meson distinct_map inj_onD)

lemma moved_rows_eq:
  assumes "distinct (map t_id rows)" "ms \<in> set rows"
  shows "moved_rows target ms rows =
     filter (\<lambda>r. t_id r \<noteq> t_id target) (map (\<lambda>r. if t_id r = t_id ms then moved_track target ms else r) rows)"
proof -
  have pointwise: "(if t_id r = t_id ms
       then target\<lparr>t_id := t_id ms, t_created := t_created ms, t_created := t_created r, t_birth := t_birth r\<rparr> else r)
      = (if t_id r = t_id ms then moved_track target ms else r)" if "r \<in> set rows" for r
    using same_row [OF assms(1) that assms(2)] by (auto simp: moved_track_def)
  have "t_id ms \<in> set (map t_id rows)"
    using assms(2) by simp
  then show ?thesis
    using pointwise by (simp add: moved_rows_def delete_track_def put_track_def cong: map_cong)
qed

lemma set_moved_rows:
  assumes "distinct (map t_id rows)" "ms \<in> set rows" "target \<in> set rows" "t_id ms \<noteq> t_id target"
  shows "set (moved_rows target ms rows) = insert (moved_track target ms) (set rows - {ms, target})"
proof -
  have "t_id (moved_track target ms) = t_id ms"
    by (simp add: moved_track_def)
  then show ?thesis
    using assms same_row [OF assms(1)] by (fastforce simp: moved_rows_eq [OF assms(1,2)] image_iff)
qed

lemma distinct_moved_rows:
  assumes "distinct (map t_id rows)" "ms \<in> set rows"
  shows "distinct (map t_id (moved_rows target ms rows))"
proof -
  let ?rows = "map (\<lambda>r. if t_id r = t_id ms then moved_track target ms else r) rows"
  have "map t_id ?rows = map t_id rows"
    by (simp add: moved_track_def)
  then have "distinct (map t_id ?rows)"
    using assms(1) by metis
  then show ?thesis
    unfolding moved_rows_eq [OF assms] by (rule distinct_map_filter)
qed

lemma mset_of_rows: "distinct (map t_id rows) \<Longrightarrow> mset rows = mset_set (set rows)"
  by (simp add: distinct_map mset_set_set)

lemma mset_moved_rows:
  assumes "distinct (map t_id rows)" "ms \<in> set rows" "target \<in> set rows" "t_id ms \<noteq> t_id target"
  shows "mset (moved_rows target ms rows) + {#ms, target#} = mset rows + {#moved_track target ms#}"
proof -
  obtain R where R: "R = set rows - {ms, target}"
    by blast
  have rows: "set rows = insert ms (insert target R)" "ms \<notin> insert target R" "target \<notin> R" "finite R"
    using assms by (auto simp: R)
  have new: "moved_track target ms \<notin> R"
    using same_row [OF assms(1) _ assms(2)] by (auto simp: moved_track_def R)
  have "mset_set (insert ms (insert target R)) = add_mset ms (add_mset target (mset_set R))"
    using rows(2-4) by simp
  moreover have "mset_set (insert (moved_track target ms) R) = add_mset (moved_track target ms) (mset_set R)"
    using new rows(4) by simp
  ultimately show ?thesis
    by (simp add: mset_of_rows [OF assms(1)] mset_of_rows [OF distinct_moved_rows [OF assms(1,2)]]
        set_moved_rows [OF assms, folded R] rows(1))
qed

lemma live_places_mset: "live_places rows = image_mset place (filter_mset (\<lambda>t. \<not> t_missing t) (mset rows))"
  by (simp add: live_places_def)

lemma missing_count_mset: "missing_count rows = size (filter_mset t_missing (mset rows))"
  by (simp add: missing_count_def flip: mset_filter)

lemma moved_rows_counts:
  assumes "distinct (map t_id rows)" "ms \<in> set rows" "target \<in> set rows" "t_missing ms" "\<not> t_missing target"
  shows "live_places (moved_rows target ms rows) = live_places rows"
    "missing_count rows = Suc (missing_count (moved_rows target ms rows))"
proof -
  have "t_id ms \<noteq> t_id target"
    using assms same_row by metis
  note m = mset_moved_rows [OF assms(1-3) this]
  have *: "place (moved_track target ms) = place target" "\<not> t_missing (moved_track target ms)"
    using assms(5) by (simp_all add: moved_track_def place_def)
  show "live_places (moved_rows target ms rows) = live_places rows"
    using arg_cong [OF m, of "\<lambda>M. image_mset place (filter_mset (\<lambda>t. \<not> t_missing t) M)"] assms(4,5) *
    by (simp add: live_places_mset)
  show "missing_count rows = Suc (missing_count (moved_rows target ms rows))"
    using arg_cong [OF m, of "\<lambda>M. size (filter_mset t_missing M)"] assms(4,5) *
    by (simp add: missing_count_mset)
qed

lemma run_statement_tracks: "run_statement st = (ok, st') \<Longrightarrow> sc_tracks st' = sc_tracks st \<and> sc_matched st' = sc_matched st"
  by (auto simp: run_statement_def split: list.splits)

lemma reassign_album_tracks:
  "sc_tracks (reassign_album a b st) = sc_tracks st" "sc_matched (reassign_album a b st) = sc_matched st"
  by (auto simp: reassign_album_def Let_def split: prod.splits dest!: run_statement_tracks)

lemma move_matched_tracks:
  assumes "move_matched target ms st = (ok, st')"
  shows "sc_tracks st' = (if ok then moved_rows target ms (sc_tracks st) else sc_tracks st)" "sc_matched st' = sc_matched st"
  using assms
  by (auto simp: move_matched_def moved_rows_def reassign_album_tracks Let_def split: prod.splits if_splits
      dest!: run_statement_tracks)

section \<open>The moves of a group\<close>

lemma find_matches_members:
  assumes "find_matches ms used mts eq0 = (exact, equivalent)"
  shows "(exact = Some t \<longrightarrow> t \<in> set mts \<and> t_id t \<notin> set used \<and> equal_tracks ms t)
    \<and> (equivalent = Some t \<longrightarrow> eq0 = Some t \<or> t \<in> set mts \<and> t_id t \<notin> set used \<and> is_equivalent ms t)"
  using assms by (induction ms used mts eq0 rule: find_matches.induct) (auto split: if_splits)

lemma with_id_Some: "with_id m = Some t \<longleftrightarrow> m = Some t \<and> t_id t \<noteq> []"
  by (auto simp: with_id_def split: option.splits)

lemma choose_match_member:
  assumes "choose_match g used ms = Some t"
  shows "t \<in> set (mg_matched g) \<and> t_id t \<notin> set used"
proof -
  obtain exact equivalent where f: "find_matches ms used (mg_matched g) None = (exact, equivalent)"
    by fastforce
  have "length (mg_matched g) = 1 \<Longrightarrow> hd (mg_matched g) \<in> set (mg_matched g)"
    by (cases "mg_matched g") auto
  moreover have "with_id exact = Some t \<or> with_id equivalent = Some t
      \<or> length (mg_matched g) = 1 \<and> t_id (hd (mg_matched g)) \<notin> set used \<and> t = hd (mg_matched g)"
    using assms unfolding choose_match_def f by (auto split: option.splits if_splits)
  ultimately show ?thesis
    using find_matches_members [OF f, of t] by (auto simp: with_id_Some)
qed

text \<open>
  A group with missing tracks \<open>todo\<close> left and matches \<open>used\<close> taken fits a table when its missing tracks
  and its free matches are rows of it, marked as such.
\<close>

definition group_fits :: "track list \<Rightarrow> string list \<Rightarrow> track list \<Rightarrow> track list \<Rightarrow> bool" where
  "group_fits matched used todo rows \<longleftrightarrow>
     distinct (map t_id rows) \<and> distinct (map t_id todo) \<and> set todo \<subseteq> {r \<in> set rows. t_missing r}
     \<and> {r \<in> set matched. t_id r \<notin> set used} \<subseteq> {r \<in> set rows. \<not> t_missing r}"

text \<open>What moving keeps, of the tables before and after \<open>n\<close> moves to places of \<open>free\<close>.\<close>

definition moves_kept :: "string set \<Rightarrow> string set \<Rightarrow> nat \<Rightarrow> track list \<Rightarrow> track list \<Rightarrow> bool" where
  "moves_kept touched free n rows rows' \<longleftrightarrow>
     distinct (map t_id rows') \<and> live_places rows' = live_places rows
     \<and> missing_count rows = missing_count rows' + n
     \<and> t_id ` set rows' \<subseteq> t_id ` set rows \<and> t_id ` set rows - free \<subseteq> t_id ` set rows'
     \<and> {r \<in> set rows. t_id r \<notin> touched} \<subseteq> set rows'"

lemma moves_kept_refl: "distinct (map t_id rows) \<Longrightarrow> moves_kept a b 0 rows rows"
  by (auto simp: moves_kept_def)

lemma moves_kept_trans:
  assumes "moves_kept a b m r1 r2" "moves_kept c d n r2 r3"
  shows "moves_kept (a \<union> c) (b \<union> d) (n + m) r1 r3"
proof -
  have minus: "\<And>A B C :: string set. A - b \<subseteq> B \<Longrightarrow> B - d \<subseteq> C \<Longrightarrow> A - (b \<union> d) \<subseteq> C"
    by blast
  have "t_id ` set r1 - (b \<union> d) \<subseteq> t_id ` set r3"
    by (rule minus [of _ "t_id ` set r2"]) (use assms in \<open>simp_all add: moves_kept_def\<close>)
  moreover have untouched: "{r \<in> set r1. t_id r \<notin> a} \<subseteq> set r2" "{r \<in> set r2. t_id r \<notin> c} \<subseteq> set r3"
    using assms by (simp_all add: moves_kept_def)
  have "{r \<in> set r1. t_id r \<notin> a \<union> c} \<subseteq> set r3"
    using untouched by blast
  moreover have "t_id ` set r3 \<subseteq> t_id ` set r1"
    by (rule subset_trans [of _ "t_id ` set r2"]) (use assms in \<open>simp_all add: moves_kept_def\<close>)
  moreover have "distinct (map t_id r3)" "live_places r3 = live_places r1"
      "missing_count r1 = missing_count r3 + (n + m)"
    using assms by (simp_all add: moves_kept_def)
  ultimately show ?thesis
    by (simp add: moves_kept_def)
qed

lemma moves_kept_mono: "moves_kept a b n r r' \<Longrightarrow> a \<subseteq> c \<Longrightarrow> b \<subseteq> d \<Longrightarrow> moves_kept c d n r r'"
  by (auto simp: moves_kept_def)

lemma moved_rows_kept:
  assumes "distinct (map t_id rows)" "ms \<in> set rows" "target \<in> set rows" "t_missing ms" "\<not> t_missing target"
  shows "moves_kept {t_id ms, t_id target} {t_id target} 1 rows (moved_rows target ms rows)"
proof -
  have ids: "t_id ms \<noteq> t_id target"
    using assms same_row by metis
  have "t_id (moved_track target ms) = t_id ms"
    by (simp add: moved_track_def)
  then show ?thesis
    using moved_rows_counts [OF assms] assms(2,3)
    by (auto simp: moves_kept_def distinct_moved_rows [OF assms(1,2)] set_moved_rows [OF assms(1-3) ids])
qed


lemma group_fits_move:
  assumes fits: "group_fits matched used (ms # rest) rows"
    and target: "target \<in> set matched" "t_id target \<notin> set used"
  shows "group_fits matched (t_id target # used) rest (moved_rows target ms rows)"
    "moves_kept {t_id ms, t_id target} {t_id target} 1 rows (moved_rows target ms rows)"
proof -
  have rows: "distinct (map t_id rows)" "ms \<in> set rows" "target \<in> set rows" "t_missing ms" "\<not> t_missing target"
    using assms by (auto simp: group_fits_def)
  have ids: "t_id ms \<noteq> t_id target"
    using rows same_row by metis
  show "group_fits matched (t_id target # used) rest (moved_rows target ms rows)"
    using fits distinct_moved_rows [OF rows(1,2)] rows(4,5)
    by (auto simp: group_fits_def set_moved_rows [OF rows(1-3) ids])
  show "moves_kept {t_id ms, t_id target} {t_id target} 1 rows (moved_rows target ms rows)"
    by (rule moved_rows_kept [OF rows])
qed

lemma process_missing_keeps:
  assumes "group_fits (mg_matched g) (map snd moves) todo (sc_tracks st)"
    and "process_missing g moves todo st = (r, st')"
  shows "\<exists>n. sc_matched st' = sc_matched st + n
    \<and> moves_kept (t_id ` (set todo \<union> set (mg_matched g))) (t_id ` set (mg_matched g)) n (sc_tracks st) (sc_tracks st')"
  using assms
proof (induction g moves todo st arbitrary: r st' rule: process_missing.induct)
  case (1 g moves st)
  then show ?case
    by (auto simp: group_fits_def intro: moves_kept_refl)
next
  case (2 g moves ms rest st)
  have distinct: "distinct (map t_id (sc_tracks st))"
    using "2.prems"(1) by (simp add: group_fits_def)
  show ?case
  proof (cases "choose_match g (map snd moves) ms")
    case None
    have "group_fits (mg_matched g) (map snd moves) rest (sc_tracks st)"
      using "2.prems"(1) by (auto simp: group_fits_def)
    from "2.IH"(1) [OF None this] "2.prems"(2) None show ?thesis
      by (auto intro: moves_kept_mono)
  next
    case (Some target)
    obtain ok st1 where m: "move_matched target ms st = (ok, st1)"
      by fastforce
    note tracks = move_matched_tracks [OF m]
    show ?thesis
    proof (cases ok)
      case False
      then show ?thesis
        using "2.prems"(2) Some m tracks distinct by (auto intro: moves_kept_refl)
    next
      case True
      note member = choose_match_member [OF Some]
      note step = group_fits_move [OF "2.prems"(1) member [THEN conjunct1] member [THEN conjunct2]]
      let ?st = "st1\<lparr>sc_matched := Suc (sc_matched st1)\<rparr>"
      have "process_missing g ((t_id ms, t_id target) # moves) rest ?st = (r, st')"
        using "2.prems"(2) Some m True by simp
      from "2.IH"(2) [OF Some, of ok st1, simplified True m, simplified, OF _ this] step(1) tracks True
      obtain n where n: "sc_matched st' = sc_matched ?st + n"
        "moves_kept (t_id ` (set rest \<union> set (mg_matched g))) (t_id ` set (mg_matched g)) n
           (moved_rows target ms (sc_tracks st)) (sc_tracks st')"
        by auto
      have "sc_matched st' = sc_matched st + (n + 1)"
        using n(1) tracks(2) by simp
      moreover have "moves_kept (t_id ` (set (ms # rest) \<union> set (mg_matched g))) (t_id ` set (mg_matched g)) (n + 1)
          (sc_tracks st) (sc_tracks st')"
        by (rule moves_kept_mono [OF moves_kept_trans [OF step(2) n(2)]]) (use member in auto)
      ultimately show ?thesis
        by blast
    qed
  qed
qed


section \<open>The groups of a table, and the phase\<close>

lemma distinct_sub_mset: "mset xs \<subseteq># mset ys \<Longrightarrow> distinct ys \<Longrightarrow> distinct xs"
  by (metis distinct_append ex_mset mset_append mset_eq_imp_distinct_iff mset_subset_eq_exists_conv)

lemma ids_apart: "inj_on f R \<Longrightarrow> A \<subseteq> {r \<in> R. \<not> P r} \<Longrightarrow> f ` {r \<in> R. P r} \<subseteq> f ` R - f ` A"
  by (auto dest: inj_onD)

lemma untouched_subset: "A \<subseteq> R \<Longrightarrow> f ` B \<inter> f ` A = {} \<Longrightarrow> A \<subseteq> {r \<in> R. f r \<notin> f ` B}"
  by blast

definition group_rows :: "missing_group \<Rightarrow> track list" where
  "group_rows g = mg_missing g @ mg_matched g"

definition group_marked :: "missing_group \<Rightarrow> bool" where
  "group_marked g \<longleftrightarrow> list_all t_missing (mg_missing g) \<and> list_all (\<lambda>t. \<not> t_missing t) (mg_matched g)"

lemma produce_groups_rows:
  "mset (concat (map group_rows (produce_groups g ts))) \<subseteq># mset (group_rows g) + mset ts"
proof (induction g ts rule: produce_groups.induct)
  case (1 g)
  then show ?case
    by simp
next
  case (2 g t ts)
  let ?g1 = "if mg_pid g \<noteq> t_pid t then g\<lparr>mg_pid := t_pid t, mg_missing := [], mg_matched := []\<rparr> else g"
  let ?g2 = "if t_missing t then ?g1\<lparr>mg_missing := mg_missing ?g1 @ [t]\<rparr> else ?g1\<lparr>mg_matched := mg_matched ?g1 @ [t]\<rparr>"
  let ?done = "if mg_pid g \<noteq> t_pid t then (if mg_pid g \<noteq> [] \<and> mg_missing g \<noteq> [] then [g] else []) else []"
  have split: "mset (concat (map group_rows ?done)) + mset (group_rows ?g2) \<subseteq># add_mset t (mset (group_rows g))"
    by (simp add: group_rows_def)
  have "mset (concat (map group_rows (produce_groups ?g2 ts))) \<subseteq># mset (group_rows ?g2) + mset ts"
    using 2 by (simp only: Let_def)
  then have "mset (concat (map group_rows ?done)) + mset (concat (map group_rows (produce_groups ?g2 ts)))
      \<subseteq># mset (concat (map group_rows ?done)) + (mset (group_rows ?g2) + mset ts)"
    by (rule subset_mset.add_left_mono)
  also have "\<dots> \<subseteq># add_mset t (mset (group_rows g)) + mset ts"
    unfolding add.assoc [symmetric] by (rule subset_mset.add_right_mono [OF split])
  finally show ?case
    by (simp only: produce_groups.simps Let_def map_append concat_append mset_append mset.simps
        union_mset_add_mset_left union_mset_add_mset_right)
qed

lemma produce_groups_marked: "group_marked g \<Longrightarrow> list_all group_marked (produce_groups g ts)"
  by (induction g ts rule: produce_groups.induct) (auto simp: group_marked_def Let_def)

lemma groups_of_rows:
  "mset (concat (map group_rows (groups_of lib last_scan rows))) \<subseteq># mset rows"
  "list_all group_marked (groups_of lib last_scan rows)"
proof -
  let ?g = "\<lparr>mg_library = lib, mg_pid = [], mg_missing = [], mg_matched = []\<rparr>"
  have "mset (concat (map group_rows (groups_of lib last_scan rows))) \<subseteq># mset (missing_and_matching lib last_scan rows)"
    using produce_groups_rows [of ?g "missing_and_matching lib last_scan rows"]
    by (simp add: groups_of_def group_rows_def)
  also have "\<dots> \<subseteq># mset rows"
    by (simp add: missing_and_matching_def)
  finally show "mset (concat (map group_rows (groups_of lib last_scan rows))) \<subseteq># mset rows" .
  show "list_all group_marked (groups_of lib last_scan rows)"
    unfolding groups_of_def by (rule produce_groups_marked) (simp add: group_marked_def)
qed

lemma process_group_keeps:
  assumes "distinct (map t_id (sc_tracks st))" "distinct (map t_id (group_rows g))"
    and "set (group_rows g) \<subseteq> set (sc_tracks st)" "group_marked g"
    and "process_group 1 g st = (ok, st')"
  shows "\<exists>n. sc_matched st' = sc_matched st + n
    \<and> moves_kept (t_id ` set (group_rows g)) (t_id ` set (mg_matched g)) n (sc_tracks st) (sc_tracks st')"
proof -
  obtain r st1 where r: "process_missing g [] (mg_missing g) st = (r, st1)"
    by fastforce
  have "st' = st1"
    using assms(5) by (simp add: process_group_def r split: option.splits)
  moreover have "group_fits (mg_matched g) [] (mg_missing g) (sc_tracks st)"
    using assms(1-4) by (auto simp: group_fits_def group_rows_def group_marked_def list_all_iff)
  ultimately show ?thesis
    using process_missing_keeps [of g "[]" "mg_missing g" st r st1] r by (simp add: group_rows_def)
qed

lemma run_groups_keeps:
  assumes "distinct (map t_id (sc_tracks st))" "distinct (map t_id (concat (map group_rows gs)))"
    and "set (concat (map group_rows gs)) \<subseteq> set (sc_tracks st)" "list_all group_marked gs"
    and "run_groups 1 gs st = (ok, st')"
  shows "\<exists>n. sc_matched st' = sc_matched st + n
    \<and> moves_kept (t_id ` set (concat (map group_rows gs))) (t_id ` set (concat (map mg_matched gs))) n
        (sc_tracks st) (sc_tracks st')"
  using assms
proof (induction gs arbitrary: st)
  case Nil
  then show ?case
    by (auto intro: moves_kept_refl)
next
  case (Cons g gs)
  obtain ok1 st1 where p: "process_group 1 g st = (ok1, st1)"
    by fastforce
  have "distinct (map t_id (group_rows g))" "set (group_rows g) \<subseteq> set (sc_tracks st)" "group_marked g"
    using Cons.prems by auto
  from process_group_keeps [OF Cons.prems(1) this p] obtain m where m: "sc_matched st1 = sc_matched st + m"
    "moves_kept (t_id ` set (group_rows g)) (t_id ` set (mg_matched g)) m (sc_tracks st) (sc_tracks st1)"
    by blast
  show ?case
  proof (cases ok1)
    case False
    then have "st' = st1"
      using Cons.prems(5) p by simp
    moreover have "moves_kept (t_id ` set (concat (map group_rows (g # gs)))) (t_id ` set (concat (map mg_matched (g # gs)))) m
        (sc_tracks st) (sc_tracks st1)"
      by (rule moves_kept_mono [OF m(2)]) auto
    ultimately show ?thesis
      using m(1) by blast
  next
    case True
    have run: "run_groups 1 gs st1 = (ok, st')"
      using Cons.prems(5) p True by simp
    have "t_id ` set (group_rows g) \<inter> t_id ` set (concat (map group_rows gs)) = {}"
      using Cons.prems(2) by simp
    then have "set (concat (map group_rows gs)) \<subseteq> {r \<in> set (sc_tracks st). t_id r \<notin> t_id ` set (group_rows g)}"
      by (rule untouched_subset [rotated]) (use Cons.prems(3) in simp)
    then have "set (concat (map group_rows gs)) \<subseteq> set (sc_tracks st1)"
      using m(2) unfolding moves_kept_def by (meson subset_trans)
    moreover have "distinct (map t_id (sc_tracks st1))"
      using m(2) by (simp add: moves_kept_def)
    ultimately obtain n where n: "sc_matched st' = sc_matched st1 + n"
      "moves_kept (t_id ` set (concat (map group_rows gs))) (t_id ` set (concat (map mg_matched gs))) n
        (sc_tracks st1) (sc_tracks st')"
      using Cons.IH [of st1] Cons.prems(2,4) run by auto
    have "moves_kept (t_id ` set (concat (map group_rows (g # gs)))) (t_id ` set (concat (map mg_matched (g # gs)))) (n + m)
        (sc_tracks st) (sc_tracks st')"
      by (rule moves_kept_mono [OF moves_kept_trans [OF m(2) n(2)]]) auto
    moreover have "sc_matched st' = sc_matched st + (n + m)"
      using m(1) n(1) by simp
    ultimately show ?thesis
      by blast
  qed
qed

text \<open>
  C39. A scan of one library loses and duplicates no file: after the missing tracks have been matched with
  the new ones, whatever statements failed and whether or not the phase ended with an error, the places
  of the live tracks are the ones there were before, each as many times; ids stay distinct; the id of
  every track that was missing is still the id of a track, so what refers to it stays valid; and the
  missing tracks are fewer by exactly the number of moves that are counted.
\<close>

theorem moves_keep_files:
  assumes "distinct (map t_id (sc_tracks st))"
    and "run_groups 1 (groups_of lib last_scan (sc_tracks st)) st = (ok, st')"
  shows "live_places (sc_tracks st') = live_places (sc_tracks st) \<and> distinct (map t_id (sc_tracks st'))
    \<and> t_id ` {r \<in> set (sc_tracks st). t_missing r} \<subseteq> t_id ` set (sc_tracks st')
    \<and> missing_count (sc_tracks st) + sc_matched st = missing_count (sc_tracks st') + sc_matched st'"
proof -
  let ?gs = "groups_of lib last_scan (sc_tracks st)"
  note rows = groups_of_rows [of lib last_scan "sc_tracks st"]
  have "image_mset t_id (mset (concat (map group_rows ?gs))) \<subseteq># mset (map t_id (sc_tracks st))"
    using image_mset_subseteq_mono [OF rows(1), of t_id] by simp
  then have "distinct (map t_id (concat (map group_rows ?gs)))"
    using distinct_sub_mset [OF _ assms(1)] by (simp only: mset_map)
  moreover have sub: "set (concat (map group_rows ?gs)) \<subseteq> set (sc_tracks st)"
    using set_mset_mono [OF rows(1)] by simp
  ultimately obtain n where n: "sc_matched st' = sc_matched st + n"
    "moves_kept (t_id ` set (concat (map group_rows ?gs))) (t_id ` set (concat (map mg_matched ?gs))) n
       (sc_tracks st) (sc_tracks st')"
    using run_groups_keeps [OF assms(1) _ _ rows(2) assms(2)] by blast
  have "set (concat (map mg_matched ?gs)) \<subseteq> {r \<in> set (sc_tracks st). \<not> t_missing r}"
    using sub rows(2) by (fastforce simp: group_rows_def group_marked_def list_all_iff)
  then have "t_id ` {r \<in> set (sc_tracks st). t_missing r} \<subseteq> t_id ` set (sc_tracks st) - t_id ` set (concat (map mg_matched ?gs))"
    using assms(1) by (intro ids_apart) (simp_all add: distinct_map)
  moreover have "t_id ` set (sc_tracks st) - t_id ` set (concat (map mg_matched ?gs)) \<subseteq> t_id ` set (sc_tracks st')"
    using n(2) by (simp only: moves_kept_def)
  ultimately have "t_id ` {r \<in> set (sc_tracks st). t_missing r} \<subseteq> t_id ` set (sc_tracks st')"
    by (rule subset_trans)
  then show ?thesis
    using n by (simp add: moves_kept_def)
qed


text \<open>
  A table of three tracks: one file has moved and one is gone for good.
\<close>

definition sample_track :: "string \<Rightarrow> string \<Rightarrow> int \<Rightarrow> string \<Rightarrow> bool \<Rightarrow> int \<Rightarrow> track" where
  "sample_track i p lib f gone made = \<lparr>t_id = i, t_pid = p, t_library = lib, t_path = f, t_hash = p, t_missing = gone,
     t_created = made, t_birth = made, t_album = ''al'', t_mbz_track = [], t_suffix = ''mp3'', t_title = p,
     t_size = 1, t_disc = 1, t_number = 1, t_album_name = ''Album''\<rparr>"

definition sample_scan :: "track list \<Rightarrow> scan_db" where
  "sample_scan rows = \<lparr>sc_tracks = rows, sc_annotations = [], sc_albums = Map.empty, sc_processed = [],
     sc_matched = 0, sc_changes = False, sc_faults = []\<rparr>"

definition moved_files :: "track list" where
  "moved_files = [sample_track ''1'' ''p'' 1 ''a/x.mp3'' True 10, sample_track ''2'' ''q'' 1 ''a/y.mp3'' True 10,
     sample_track ''3'' ''p'' 1 ''b/x.mp3'' False 50]"

lemmas scan_defs = missing_and_matching_def groups_of_def process_group_def choose_match_def
  move_matched_def run_statement_def reassign_album_def put_track_def delete_track_def with_id_def equal_tracks_def

lemma moved_files_run:
  "sc_tracks (snd (run_groups 1 (groups_of 1 (\<lambda>_. 20) moved_files) (sample_scan moved_files))) =
     [(sample_track ''1'' ''p'' 1 ''b/x.mp3'' False 10), sample_track ''2'' ''q'' 1 ''a/y.mp3'' True 10]"
  by (simp add: scan_defs moved_files_def sample_track_def sample_scan_def)

theorem moves_keep_files_witness:
  "live_places (sc_tracks (snd (run_groups 1 (groups_of 1 (\<lambda>_. 20) moved_files) (sample_scan moved_files))))
     = {#(1, ''b/x.mp3'')#}"
proof -
  let ?st = "sample_scan moved_files"
  have rows: "sc_tracks ?st = moved_files" "distinct (map t_id moved_files)" "live_places moved_files = {#(1, ''b/x.mp3'')#}"
    by (simp_all add: sample_scan_def moved_files_def sample_track_def live_places_def place_def)
  show ?thesis
    using moves_keep_files [of ?st 1 "\<lambda>_. 20"] rows by (metis prod.collapse)
qed

section \<open>Moves to other libraries\<close>

lemma recent_rows:
  "set (recent_by_mbz ms rows) \<subseteq> {r \<in> set rows. \<not> t_missing r}"
  "set (recent_by_properties ms rows) \<subseteq> {r \<in> set rows. \<not> t_missing r}"
  by (auto simp: recent_by_mbz_def recent_by_properties_def)

lemma pick_match_member: "pick_match ms matches = Some t \<Longrightarrow> t \<in> set matches"
  by (auto simp: pick_match_def find_Some_iff split: option.splits list.splits if_splits)

lemma find_cross_library_member:
  assumes "find_cross_library_match ms st = (found, st')"
  shows "sc_tracks st' = sc_tracks st" "sc_matched st' = sc_matched st"
    "found = Some t \<Longrightarrow> t \<in> set (sc_tracks st) \<and> \<not> t_missing t"
proof -
  have *: "pick_match ms (recent_by_mbz ms rows) = Some t \<Longrightarrow> t \<in> set rows \<and> \<not> t_missing t"
    "pick_match ms (recent_by_properties ms rows) = Some t \<Longrightarrow> t \<in> set rows \<and> \<not> t_missing t" for rows
    using recent_rows [of ms rows] by (auto dest!: pick_match_member)
  show "sc_tracks st' = sc_tracks st" "sc_matched st' = sc_matched st"
    using assms by (auto simp: find_cross_library_match_def split: prod.splits if_splits option.splits dest!: run_statement_tracks)
  show "t \<in> set (sc_tracks st) \<and> \<not> t_missing t" if "found = Some t"
    using assms that
    by (auto simp: find_cross_library_match_def split: prod.splits if_splits option.splits
        dest!: run_statement_tracks dest: *)
qed

lemma process_cross_library_keeps:
  assumes "group_fits [] [] todo (sc_tracks st)"
  shows "live_places (sc_tracks (process_cross_library todo st)) = live_places (sc_tracks st)
    \<and> missing_count (sc_tracks st) + sc_matched st
      = missing_count (sc_tracks (process_cross_library todo st)) + sc_matched (process_cross_library todo st)"
  using assms
proof (induction todo st rule: process_cross_library.induct)
  case (1 st)
  then show ?case
    by simp
next
  case (2 ms rest st)
  obtain found st1 where f: "find_cross_library_match ms st = (found, st1)"
    by fastforce
  note member = find_cross_library_member [OF f]
  show ?case
  proof (cases "with_id found")
    case None
    have "group_fits [] [] rest (sc_tracks st1)"
      using "2.prems" member(1) by (simp add: group_fits_def)
    with "2.IH"(1) [OF f [symmetric] None] show ?thesis
      by (simp add: f None member)
  next
    case (Some target)
    then have target: "target \<in> set (sc_tracks st)" "\<not> t_missing target"
      using member(3) by (simp_all add: with_id_Some)
    obtain ok st2 where m: "move_matched target ms st1 = (ok, st2)"
      by fastforce
    note tracks = move_matched_tracks [OF m]
    let ?st = "if ok then st2\<lparr>sc_matched := Suc (sc_matched st2)\<rparr> else st2"
    have run: "process_cross_library (ms # rest) st = process_cross_library rest ?st"
      by (simp add: f Some m)
    have fits: "group_fits [target] [] (ms # rest) (sc_tracks st)"
      using "2.prems" target by (simp add: group_fits_def)
    note step = group_fits_move [OF fits, of target, simplified]
    have "group_fits [] [] rest (sc_tracks ?st)"
      using "2.prems" step(1) tracks(1) member(1) by (auto simp: group_fits_def)
    moreover have "live_places (sc_tracks ?st) = live_places (sc_tracks st)
        \<and> missing_count (sc_tracks st) + sc_matched st = missing_count (sc_tracks ?st) + sc_matched ?st"
      using step(2) tracks member(1,2) by (auto simp: moves_kept_def)
    ultimately show ?thesis
      using "2.IH"(2) [OF f [symmetric] Some m [symmetric]] unfolding run by simp
  qed
qed

text \<open>
  An identity can get lost there, as the matches are not marked as used: of two missing copies of a file
  that has moved to another library, the first gets the new place, and the second, created before it,
  finds the row of the first and takes its place; the id of the first is no longer that of a track.
\<close>

definition moved_copies :: "track list" where
  "moved_copies = [sample_track ''1'' ''p'' 1 ''a/x.mp3'' True 20, sample_track ''2'' ''p'' 1 ''b/x.mp3'' True 10,
     sample_track ''3'' ''p'' 2 ''c/x.mp3'' False 50]"

lemma cross_library_move_steals:
  "map (\<lambda>t. (t_id t, t_path t, t_missing t))
      (sc_tracks (snd (run_groups 2 (groups_of 1 (\<lambda>_. 60) moved_copies) (sample_scan moved_copies))))
    = [(''2'', ''c/x.mp3'', False)]
   \<and> sc_matched (snd (run_groups 2 (groups_of 1 (\<lambda>_. 60) moved_copies) (sample_scan moved_copies))) = 2"
  by (simp add: scan_defs moved_copies_def sample_track_def sample_scan_def find_cross_library_match_def
      pick_match_def recent_by_properties_def)


end
