(* ===== verification/Accounts.thy ===== *)
theory Accounts
  imports Prelude
begin

text \<open>
  The users and what they may change (\<open>persistence/user_repository.go\<close>, \<open>core/user.go\<close>), and which
  libraries they see (\<open>core/library.go\<close>, \<open>persistence/library_repository.go\<close>,
  \<open>server/nativeapi/library.go\<close>). The tables are lists of rows; a statement can fail, in the order of
  the list of faults. The cipher of the stored passwords is a parameter, with its random nonce.
\<close>

section \<open>Users and tables\<close>

record user =
  usr_id :: string
  usr_user_name :: string
  usr_name :: string
  usr_email :: string
  usr_is_admin :: bool
  usr_last_login :: "int option"
  usr_created :: int
  usr_password :: string
  usr_new_password :: string
  usr_current_password :: string

record account_library =
  lb_id :: int
  lb_name :: string
  lb_path :: string
  lb_default_new_users :: bool

record account_db =
  ac_users :: "user list"
  ac_libraries :: "account_library list"
  ac_user_library :: "(string \<times> int) list"
  ac_faults :: "bool list"

record account_env =
  ae_encrypt :: "string \<Rightarrow> string option"
  ae_decrypt :: "string \<Rightarrow> string option"
  ae_user_editing :: bool
  ae_new_id :: string
  ae_now :: int

datatype account_error =
    Permission_denied
  | Not_authorized
  | Not_found
  | Invalid "(string \<times> string) list"
  | Failed

definition run_sql :: "account_db \<Rightarrow> bool \<times> account_db" where
  "run_sql db = (case ac_faults db of [] \<Rightarrow> (True, db) | f # fs \<Rightarrow> (\<not> f, db\<lparr>ac_faults := fs\<rparr>))"

definition autogen_prefix :: string where
  "autogen_prefix = ''__NAVIDROME_AUTOGEN__''"

section \<open>Reading\<close>

definition get_user :: "string \<Rightarrow> account_db \<Rightarrow> (account_error + user) \<times> account_db" where
  "get_user i db =
     (case run_sql db of (ok, db) \<Rightarrow>
        (if \<not> ok then Inl Failed
         else (case find (\<lambda>u. usr_id u = i) (ac_users db) of None \<Rightarrow> Inl Not_found | Some u \<Rightarrow> Inr u), db))"

text \<open>The names are compared with the collation \<open>NOCASE\<close>.\<close>

definition find_by_username :: "string \<Rightarrow> account_db \<Rightarrow> (account_error + user) \<times> account_db" where
  "find_by_username name db =
     (case run_sql db of (ok, db) \<Rightarrow>
        (if \<not> ok then Inl Failed
         else (case find (\<lambda>u. equal_fold (usr_user_name u) name) (ac_users db) of
                 None \<Rightarrow> Inl Not_found | Some u \<Rightarrow> Inr u), db))"

definition decrypt_password :: "account_env \<Rightarrow> user \<Rightarrow> user option" where
  "decrypt_password env u = map_option (\<lambda>p. u\<lparr>usr_password := p\<rparr>) (ae_decrypt env (usr_password u))"

text \<open>An error of the decryption is ignored here: the user keeps the encrypted password.\<close>

definition find_with_password :: "account_env \<Rightarrow> string \<Rightarrow> account_db \<Rightarrow> (account_error + user) \<times> account_db" where
  "find_with_password env name db =
     (case find_by_username name db of
        (Inl e, db) \<Rightarrow> (Inl e, db)
      | (Inr u, db) \<Rightarrow> (Inr (case decrypt_password env u of Some d \<Rightarrow> d | None \<Rightarrow> u), db))"

section \<open>Writing\<close>

text \<open>The columns that \<open>Put\<close> sets in a row; a password that is empty is not among them.\<close>

definition user_row :: "user \<Rightarrow> user \<Rightarrow> user" where
  "user_row u r = r\<lparr>usr_user_name := usr_user_name u, usr_name := usr_name u, usr_email := usr_email u,
     usr_is_admin := usr_is_admin u, usr_last_login := usr_last_login u, usr_created := usr_created u,
     usr_password := (if usr_new_password u = [] then usr_password r else usr_new_password u)\<rparr>"

definition blank_row :: "string \<Rightarrow> user" where
  "blank_row i = \<lparr>usr_id = i, usr_user_name = [], usr_name = [], usr_email = [], usr_is_admin = False,
     usr_last_login = None, usr_created = 0, usr_password = [], usr_new_password = [], usr_current_password = []\<rparr>"

definition encrypt_password :: "account_env \<Rightarrow> user \<Rightarrow> user" where
  "encrypt_password env u =
     (if usr_new_password u = [] then u
      else case ae_encrypt env (usr_new_password u) of None \<Rightarrow> u | Some c \<Rightarrow> u\<lparr>usr_new_password := c\<rparr>)"

text \<open>The update, or the insertion when it has met no row; user names are unique in the table.\<close>

definition write_user :: "account_env \<Rightarrow> user \<Rightarrow> account_db \<Rightarrow> bool \<times> account_db" where
  "write_user env u db =
     (case run_sql db of (ok, db) \<Rightarrow>
        if \<not> ok then (False, db)
        else
          let taken = (\<exists>r \<in> set (ac_users db). usr_id r \<noteq> usr_id u \<and> usr_user_name r = usr_user_name u) in
          if usr_id u \<in> usr_id ` set (ac_users db)
          then (if taken then (False, db)
                else (True, db\<lparr>ac_users := map (\<lambda>r. if usr_id r = usr_id u then user_row u r else r) (ac_users db)\<rparr>))
          else (case run_sql db of (ok, db) \<Rightarrow>
            if \<not> ok \<or> taken then (False, db)
            else (True, db\<lparr>ac_users := ac_users db @ [user_row (u\<lparr>usr_created := ae_now env\<rparr>) (blank_row (usr_id u))]\<rparr>)))"

definition assign :: "string \<Rightarrow> int list \<Rightarrow> (string \<times> int) list \<Rightarrow> (string \<times> int) list" where
  "assign i libs rows = rows @ filter (\<lambda>p. p \<notin> set rows) (map (Pair i) libs)"

definition assign_libraries :: "bool \<Rightarrow> user \<Rightarrow> account_db \<Rightarrow> bool \<times> account_db" where
  "assign_libraries is_new u db =
     (if usr_is_admin u then
        (case run_sql db of (ok, db) \<Rightarrow>
           if ok then (True, db\<lparr>ac_user_library := assign (usr_id u) (map lb_id (ac_libraries db)) (ac_user_library db)\<rparr>)
           else (False, db))
      else if is_new then
        (case run_sql db of (ok, db) \<Rightarrow>
           if ok then (True, db\<lparr>ac_user_library :=
             assign (usr_id u) (map lb_id (filter lb_default_new_users (ac_libraries db))) (ac_user_library db)\<rparr>)
           else (False, db))
      else (True, db))"

definition put_user :: "account_env \<Rightarrow> user \<Rightarrow> account_db \<Rightarrow> bool \<times> account_db" where
  "put_user env u db =
     (let u = (if usr_id u = [] then u\<lparr>usr_id := ae_new_id env\<rparr> else u);
          u = encrypt_password env u;
          is_new = usr_id u \<notin> usr_id ` set (ac_users db)
      in case write_user env u db of
           (False, db) \<Rightarrow> (False, db)
         | (True, db) \<Rightarrow> assign_libraries is_new u db)"

section \<open>The REST operations\<close>

definition validate_password_change :: "user \<Rightarrow> user \<Rightarrow> (string \<times> string) list" where
  "validate_password_change new logged =
     (if usr_is_admin logged \<and> usr_id new \<noteq> usr_id logged then []
      else if usr_new_password new = [] \<and> usr_current_password new = [] then []
      else
        (if usr_new_password new = [] then [(''password'', ''ra.validation.required'')] else [])
        @ (if has_prefix (usr_password logged) autogen_prefix then []
           else if usr_current_password new \<noteq> usr_password logged
           then [(''currentPassword'', ''ra.validation.passwordDoesNotMatch'')]
           else if usr_current_password new = [] then [(''currentPassword'', ''ra.validation.required'')] else []))"

definition validate_username_unique :: "user \<Rightarrow> account_db \<Rightarrow> account_error option \<times> account_db" where
  "validate_username_unique u db =
     (case find_by_username (usr_user_name u) db of
        (Inl Not_found, db) \<Rightarrow> (None, db)
      | (Inl e, db) \<Rightarrow> (Some e, db)
      | (Inr r, db) \<Rightarrow> (if usr_id r \<noteq> usr_id u then Some (Invalid [(''userName'', ''ra.validation.unique'')]) else None, db))"

definition save_user :: "account_env \<Rightarrow> user \<Rightarrow> user \<Rightarrow> account_db \<Rightarrow> account_error option \<times> account_db" where
  "save_user env logged u db =
     (if \<not> usr_is_admin logged then (Some Permission_denied, db)
      else case validate_username_unique u db of
        (Some e, db) \<Rightarrow> (Some e, db)
      | (None, db) \<Rightarrow> (case put_user env u db of (ok, db) \<Rightarrow> (if ok then None else Some Failed, db)))"

definition update_user :: "account_env \<Rightarrow> user \<Rightarrow> string \<Rightarrow> user \<Rightarrow> account_db \<Rightarrow> account_error option \<times> account_db" where
  "update_user env logged i u db =
     (let u = u\<lparr>usr_id := i\<rparr> in
      if \<not> usr_is_admin logged \<and> usr_id logged \<noteq> i then (Some Permission_denied, db)
      else if \<not> usr_is_admin logged \<and> \<not> ae_user_editing env then (Some Permission_denied, db)
      else
        let u = (if usr_is_admin logged then u else u\<lparr>usr_is_admin := False, usr_user_name := usr_user_name logged\<rparr>) in
        case decrypt_password env logged of
          None \<Rightarrow> (Some Failed, db)
        | Some logged \<Rightarrow>
            if validate_password_change u logged \<noteq> [] then (Some (Invalid (validate_password_change u logged)), db)
            else (case validate_username_unique u db of
                (Some e, db) \<Rightarrow> (Some e, db)
              | (None, db) \<Rightarrow> (case put_user env u db of (ok, db) \<Rightarrow> (if ok then None else Some Failed, db))))"

text \<open>The rows that refer to the user go with it.\<close>

definition delete_user :: "user \<Rightarrow> string \<Rightarrow> account_db \<Rightarrow> account_error option \<times> account_db" where
  "delete_user logged i db =
     (if \<not> usr_is_admin logged then (Some Permission_denied, db)
      else case run_sql db of (ok, db) \<Rightarrow>
        if \<not> ok then (Some Failed, db)
        else (None, db\<lparr>ac_users := filter (\<lambda>u. usr_id u \<noteq> i) (ac_users db),
               ac_user_library := filter (\<lambda>p. fst p \<noteq> i) (ac_user_library db)\<rparr>))"

definition read_user :: "user \<Rightarrow> string \<Rightarrow> account_db \<Rightarrow> (account_error + user) \<times> account_db" where
  "read_user logged i db =
     (if \<not> usr_is_admin logged \<and> usr_id logged \<noteq> i then (Inl Permission_denied, db) else get_user i db)"

definition read_all_users :: "user \<Rightarrow> account_db \<Rightarrow> (account_error + user list) \<times> account_db" where
  "read_all_users logged db =
     (if \<not> usr_is_admin logged then (Inl Permission_denied, db)
      else case run_sql db of (ok, db) \<Rightarrow> (if ok then Inr (ac_users db) else Inl Failed, db))"

section \<open>Libraries and who sees them\<close>

definition set_user_libraries :: "string \<Rightarrow> int list \<Rightarrow> account_db \<Rightarrow> account_error option \<times> account_db" where
  "set_user_libraries i libs db =
     (case get_user i db of
        (Inl e, db) \<Rightarrow> (Some e, db)
      | (Inr u, db) \<Rightarrow>
          if usr_is_admin u then (Some (Invalid [(''user'', ''admin'')]), db)
          else if libs = [] then (Some (Invalid [(''libraries'', ''empty'')]), db)
          else (case run_sql db of (ok, db) \<Rightarrow>
            if \<not> ok then (Some Failed, db)
            else if length (filter (\<lambda>l. lb_id l \<in> set libs) (ac_libraries db)) \<noteq> length libs
            then (Some (Invalid [(''libraries'', ''unknown'')]), db)
            else (case run_sql db of (ok, db) \<Rightarrow>
              if \<not> ok then (Some Failed, db)
              else
                let db = db\<lparr>ac_user_library := filter (\<lambda>p. fst p \<noteq> i) (ac_user_library db)\<rparr> in
                case run_sql db of (ok, db) \<Rightarrow>
                  if \<not> ok then (Some Failed, db)
                  else (None, db\<lparr>ac_user_library := assign i libs (ac_user_library db)\<rparr>))))"

definition user_libraries :: "string \<Rightarrow> account_db \<Rightarrow> int list" where
  "user_libraries i db = filter (\<lambda>l. (i, l) \<in> set (ac_user_library db)) (map lb_id (ac_libraries db))"

definition validate_library_access :: "user option \<Rightarrow> string \<Rightarrow> int \<Rightarrow> account_db \<Rightarrow> account_error option" where
  "validate_library_access logged i lib db =
     (case logged of
        None \<Rightarrow> Some Failed
      | Some u \<Rightarrow> if usr_is_admin u then None
          else if lib \<in> set (user_libraries i db) then None else Some Not_authorized)"

text \<open>\<open>applyLibraryFilter\<close>: whether a row of a library is among what a query returns.\<close>

definition library_filter :: "user option \<Rightarrow> int \<Rightarrow> account_db \<Rightarrow> bool" where
  "library_filter logged lib db \<longleftrightarrow>
     (case logged of
        None \<Rightarrow> True
      | Some u \<Rightarrow> usr_is_admin u \<or> usr_id u = ''-1'' \<or> (usr_id u, lib) \<in> set (ac_user_library db))"

definition new_library_id :: "account_library list \<Rightarrow> int" where
  "new_library_id libs = foldr (\<lambda>l n. max (lb_id l) n) libs 0 + 1"

definition write_library :: "account_library \<Rightarrow> account_db \<Rightarrow> bool \<times> account_db" where
  "write_library l db =
     (let taken = (\<exists>r \<in> set (ac_libraries db). lb_id r \<noteq> lb_id l \<and> (lb_name r = lb_name l \<or> lb_path r = lb_path l)) in
      case run_sql db of (ok, db) \<Rightarrow>
        if \<not> ok \<or> taken then (False, db)
        else if lb_id l = 0 then
          (True, db\<lparr>ac_libraries := ac_libraries db @ [l\<lparr>lb_id := new_library_id (ac_libraries db)\<rparr>]\<rparr>)
        else if lb_id l \<in> lb_id ` set (ac_libraries db) then
          (True, db\<lparr>ac_libraries := map (\<lambda>r. if lb_id r = lb_id l then l else r) (ac_libraries db)\<rparr>)
        else (case run_sql db of (ok, db) \<Rightarrow>
          if ok then (True, db\<lparr>ac_libraries := ac_libraries db @ [l]\<rparr>) else (False, db)))"

definition put_library :: "account_library \<Rightarrow> account_db \<Rightarrow> account_error option \<times> account_db" where
  "put_library l db =
     (case (if lb_id l = 1 then run_sql db else (False, db)) of (ok, db) \<Rightarrow>
        if ok \<and> (case find (\<lambda>r. lb_id r = 1) (ac_libraries db) of None \<Rightarrow> False | Some r \<Rightarrow> lb_path r \<noteq> lb_path l)
        then (Some (Invalid [(''path'', ''default'')]), db)
        else case write_library l db of
          (False, db) \<Rightarrow> (Some Failed, db)
        | (True, db) \<Rightarrow> (case run_sql db of (ok, db) \<Rightarrow>
            if ok then
              (None, db\<lparr>ac_user_library := fold (\<lambda>u. assign (usr_id u) (map lb_id (ac_libraries db)))
                 (filter usr_is_admin (ac_users db)) (ac_user_library db)\<rparr>)
            else (Some Failed, db)))"

definition delete_library :: "user \<Rightarrow> int \<Rightarrow> account_db \<Rightarrow> account_error option \<times> account_db" where
  "delete_library logged i db =
     (if \<not> usr_is_admin logged then (Some Not_authorized, db)
      else if i = 1 then (Some (Invalid [(''id'', ''default'')]), db)
      else case run_sql db of (ok, db) \<Rightarrow>
        if \<not> ok then (Some Failed, db)
        else (None, db\<lparr>ac_libraries := filter (\<lambda>l. lb_id l \<noteq> i) (ac_libraries db),
               ac_user_library := filter (\<lambda>p. snd p \<noteq> i) (ac_user_library db)\<rparr>))"

section \<open>Histories\<close>

text \<open>
  The requests of the REST interface. The routes of libraries, and of the libraries of a user, are for
  administrators (\<open>adminOnlyMiddleware\<close>); the user of a request is read from the table when it arrives.
\<close>

datatype account_op =
    Save user
  | Update string user
  | Delete string
  | Set_libraries string "int list"
  | Put_library account_library
  | Delete_library int

fun run_account_op :: "account_env \<Rightarrow> user \<Rightarrow> account_op \<Rightarrow> account_db \<Rightarrow> account_error option \<times> account_db" where
  "run_account_op env logged (Save u) db = save_user env logged u db"
| "run_account_op env logged (Update i u) db = update_user env logged i u db"
| "run_account_op env logged (Delete i) db = delete_user logged i db"
| "run_account_op env logged (Set_libraries i libs) db =
     (if usr_is_admin logged then set_user_libraries i libs db else (Some Permission_denied, db))"
| "run_account_op env logged (Put_library l) db =
     (if usr_is_admin logged then put_library l db else (Some Permission_denied, db))"
| "run_account_op env logged (Delete_library i) db =
     (if usr_is_admin logged then delete_library logged i db else (Some Permission_denied, db))"

definition request :: "account_env \<times> string \<times> account_op \<Rightarrow> account_db \<Rightarrow> account_db" where
  "request r db =
     (case r of (env, name, op) \<Rightarrow>
        case find_by_username name db of
          (Inl _, db) \<Rightarrow> db
        | (Inr logged, db) \<Rightarrow> snd (run_account_op env logged op db))"

definition requests :: "(account_env \<times> string \<times> account_op) list \<Rightarrow> account_db \<Rightarrow> account_db" where
  "requests rs db = fold request rs db"


section \<open>What the statements keep\<close>

definition users_ok :: "account_db \<Rightarrow> bool" where
  "users_ok db \<longleftrightarrow> distinct (map usr_id (ac_users db)) \<and> [] \<notin> usr_id ` set (ac_users db)"

definition same_tables :: "account_db \<Rightarrow> account_db \<Rightarrow> bool" where
  "same_tables db db' \<longleftrightarrow> ac_users db' = ac_users db \<and> ac_libraries db' = ac_libraries db
     \<and> ac_user_library db' = ac_user_library db \<and> (ac_faults db = [] \<longrightarrow> ac_faults db' = [])"

lemma same_tables_refl [simp]: "same_tables db db"
  by (simp add: same_tables_def)

lemma same_tables_trans: "same_tables a b \<Longrightarrow> same_tables b c \<Longrightarrow> same_tables a c"
  by (simp add: same_tables_def)

lemma run_sql_tables: "run_sql db = (ok, db') \<Longrightarrow> same_tables db db'"
  by (auto simp: run_sql_def same_tables_def split: list.splits)

lemma find_by_username_tables: "find_by_username name db = (r, db') \<Longrightarrow> same_tables db db'"
  by (auto simp: find_by_username_def split: prod.splits dest: run_sql_tables)

lemma get_user_tables: "get_user i db = (r, db') \<Longrightarrow> same_tables db db'"
  by (auto simp: get_user_def split: prod.splits dest: run_sql_tables)

lemma find_by_username_found:
  assumes "find_by_username name db = (Inr u, db')"
  shows "u \<in> set (ac_users db) \<and> equal_fold (usr_user_name u) name"
  using assms
  by (auto simp: find_by_username_def find_Some_iff same_tables_def split: prod.splits if_splits option.splits
      dest!: run_sql_tables)

lemma find_by_username_none:
  assumes "find_by_username name db = (Inl Not_found, db')" "u \<in> set (ac_users db)"
  shows "\<not> equal_fold (usr_user_name u) name"
  using assms
  by (auto simp: find_by_username_def find_None_iff same_tables_def split: prod.splits if_splits option.splits
      dest!: run_sql_tables)

lemma unique_tables: "validate_username_unique u db = (r, db') \<Longrightarrow> same_tables db db'"
  by (auto simp: validate_username_unique_def split: prod.splits sum.splits account_error.splits
      dest!: find_by_username_tables)

lemma same_user: "users_ok db \<Longrightarrow> a \<in> set (ac_users db) \<Longrightarrow> b \<in> set (ac_users db) \<Longrightarrow> usr_id a = usr_id b \<Longrightarrow> a = b"
  unfolding users_ok_def by (meson distinct_map inj_onD)

lemma user_id_neq: "users_ok db \<Longrightarrow> u \<in> set (ac_users db) \<Longrightarrow> usr_id u \<noteq> []"
  unfolding users_ok_def by (metis imageI)

text \<open>What is written: nothing, the row of the user, or a new row at the end.\<close>

lemma write_user_users:
  assumes "write_user env u db = (ok, db')"
  shows "ac_libraries db' = ac_libraries db \<and> ac_user_library db' = ac_user_library db
    \<and> ac_users db' = (if \<not> ok then ac_users db
        else if usr_id u \<in> usr_id ` set (ac_users db)
        then map (\<lambda>r. if usr_id r = usr_id u then user_row u r else r) (ac_users db)
        else ac_users db @ [user_row (u\<lparr>usr_created := ae_now env\<rparr>) (blank_row (usr_id u))])"
  using assms
  by (auto simp: write_user_def same_tables_def Let_def split: prod.splits if_splits dest!: run_sql_tables)

lemma assign_libraries_tables:
  assumes "assign_libraries is_new u db = (ok, db')"
  shows "ac_users db' = ac_users db \<and> ac_libraries db' = ac_libraries db"
  using assms
  by (auto simp: assign_libraries_def same_tables_def split: prod.splits if_splits dest!: run_sql_tables)

definition saved_user :: "account_env \<Rightarrow> user \<Rightarrow> user" where
  "saved_user env u = encrypt_password env (if usr_id u = [] then u\<lparr>usr_id := ae_new_id env\<rparr> else u)"

lemma encrypt_password_fields [simp]:
  "usr_id (encrypt_password env u) = usr_id u"
  "usr_user_name (encrypt_password env u) = usr_user_name u"
  "usr_is_admin (encrypt_password env u) = usr_is_admin u"
  "usr_new_password (encrypt_password env u) = [] \<longleftrightarrow> ae_encrypt env (usr_new_password u) = Some [] \<and> usr_new_password u \<noteq> [] \<or> usr_new_password u = []"
  by (auto simp: encrypt_password_def split: option.splits)

lemma saved_user_fields [simp]:
  "usr_id (saved_user env u) = (if usr_id u = [] then ae_new_id env else usr_id u)"
  "usr_user_name (saved_user env u) = usr_user_name u"
  "usr_is_admin (saved_user env u) = usr_is_admin u"
  by (simp_all add: saved_user_def)

lemma user_row_fields [simp]:
  "usr_id (user_row u r) = usr_id r" "usr_user_name (user_row u r) = usr_user_name u"
  "usr_is_admin (user_row u r) = usr_is_admin u"
  by (simp_all add: user_row_def)

lemma blank_row_id [simp]: "usr_id (blank_row i) = i"
  by (simp add: blank_row_def)

definition user_written :: "account_env \<Rightarrow> user \<Rightarrow> user list \<Rightarrow> user list" where
  "user_written env u rows =
     (if usr_id u \<in> usr_id ` set rows then map (\<lambda>r. if usr_id r = usr_id u then user_row u r else r) rows
      else rows @ [user_row (u\<lparr>usr_created := ae_now env\<rparr>) (blank_row (usr_id u))])"

lemma put_user_users:
  assumes "put_user env u db = (ok, db')"
  shows "ac_libraries db' = ac_libraries db
    \<and> (ac_users db' = ac_users db \<and> \<not> ok \<or> ac_users db' = user_written env (saved_user env u) (ac_users db))"
proof -
  let ?u = "saved_user env u"
  obtain ok1 db1 where w: "write_user env ?u db = (ok1, db1)"
    by fastforce
  have "(if ok1 then assign_libraries (usr_id ?u \<notin> usr_id ` set (ac_users db)) ?u db1 else (False, db1)) = (ok, db')"
    using assms w by (cases ok1) (simp_all add: put_user_def saved_user_def Let_def)
  then show ?thesis
    using write_user_users [OF w] by (cases ok1) (auto simp: user_written_def dest!: assign_libraries_tables)
qed


section \<open>What other users cannot do\<close>

definition entity_to_put :: "user \<Rightarrow> string \<Rightarrow> user \<Rightarrow> user" where
  "entity_to_put logged i u =
     (if usr_is_admin logged then u\<lparr>usr_id := i\<rparr>
      else u\<lparr>usr_id := i, usr_is_admin := False, usr_user_name := usr_user_name logged\<rparr>)"

lemma update_user_cases:
  assumes "update_user env logged i u db = (r, db')"
  obtains "same_tables db db'" "r \<noteq> None"
  | db1 ok lg where "usr_is_admin logged \<or> usr_id logged = i \<and> ae_user_editing env"
      "decrypt_password env logged = Some lg" "validate_password_change (entity_to_put logged i u) lg = []"
      "validate_username_unique (entity_to_put logged i u) db = (None, db1)"
      "put_user env (entity_to_put logged i u) db1 = (ok, db')" "r = (if ok then None else Some Failed)"
proof (cases "(usr_is_admin logged \<or> usr_id logged = i \<and> ae_user_editing env) \<and> decrypt_password env logged \<noteq> None")
  case False
  then have "same_tables db db' \<and> r \<noteq> None"
    using assms by (auto simp: update_user_def Let_def split: if_splits option.splits)
  then show thesis
    using that(1) by blast
next
  case True
  then obtain lg where lg: "decrypt_password env logged = Some lg"
    by blast
  obtain v db1 where u: "validate_username_unique (entity_to_put logged i u) db = (v, db1)"
    by fastforce
  obtain ok db2 where p: "put_user env (entity_to_put logged i u) db1 = (ok, db2)"
    by fastforce
  have "update_user env logged i u db =
      (if validate_password_change (entity_to_put logged i u) lg \<noteq> []
       then (Some (Invalid (validate_password_change (entity_to_put logged i u) lg)), db)
       else case v of Some e \<Rightarrow> (Some e, db1) | None \<Rightarrow> (if ok then None else Some Failed, db2))"
    using True lg u p by (auto simp: update_user_def entity_to_put_def Let_def split: option.splits)
  then show thesis
    using assms that lg True u p unique_tables [OF u] by (auto split: if_splits option.splits)
qed

lemma regular_update:
  assumes "users_ok db" "logged \<in> set (ac_users db)" "\<not> usr_is_admin logged"
    and "update_user env logged i u db = (r, db')"
  shows "ac_libraries db' = ac_libraries db \<and> ac_user_library db' = ac_user_library db
    \<and> (ac_users db' = ac_users db \<or> (\<exists>v. usr_user_name v = usr_user_name logged \<and> \<not> usr_is_admin v
        \<and> ac_users db' = map (\<lambda>r. if usr_id r = usr_id logged then user_row v r else r) (ac_users db)))"
  using assms(4)
proof (cases rule: update_user_cases)
  case 1
  then show ?thesis
    by (simp add: same_tables_def)
next
  case (2 db1 ok lg)
  let ?u = "entity_to_put logged i u"
  let ?v = "saved_user env ?u"
  obtain ok1 db2 where w: "write_user env ?v db1 = (ok1, db2)"
    by fastforce
  have tables: "ac_users db1 = ac_users db" "ac_libraries db1 = ac_libraries db" "ac_user_library db1 = ac_user_library db"
    using unique_tables [OF 2(4)] by (simp_all add: same_tables_def)
  have own: "usr_id logged = i"
    using 2(1) assms(3) by blast
  have id: "usr_id logged \<noteq> []" "usr_id logged \<in> usr_id ` set (ac_users db)"
    using user_id_neq [OF assms(1,2)] assms(2) by simp_all
  have v: "usr_id ?v = usr_id logged" "\<not> usr_is_admin ?v" "usr_user_name ?v = usr_user_name logged"
    using assms(3) own id by (simp_all add: entity_to_put_def)
  have "assign_libraries False ?v db2 = (True, db2)"
    using v by (simp add: assign_libraries_def)
  moreover have "put_user env ?u db1 = (if ok1 then assign_libraries False ?v db2 else (False, db2))"
    using w id v tables by (simp add: put_user_def Let_def flip: saved_user_def)
  ultimately have "db' = db2"
    using 2(5) by (simp split: if_splits)
  then show ?thesis
    using write_user_users [OF w] tables v id by (auto intro!: exI [of _ ?v])
qed

lemma regular_op:
  assumes "users_ok db" "logged \<in> set (ac_users db)" "\<not> usr_is_admin logged" "run_account_op env logged op db = (r, db')"
  shows "ac_libraries db' = ac_libraries db \<and> ac_user_library db' = ac_user_library db
    \<and> (ac_users db' = ac_users db \<or> (\<exists>v. usr_user_name v = usr_user_name logged \<and> \<not> usr_is_admin v
        \<and> ac_users db' = map (\<lambda>r. if usr_id r = usr_id logged then user_row v r else r) (ac_users db)))"
  using assms regular_update [OF assms(1-3)]
  by (cases op) (auto simp: save_user_def delete_user_def)

text \<open>Who is who: the part of the users that only an administrator may change.\<close>

definition roles :: "account_db \<Rightarrow> (string \<times> string \<times> bool) list" where
  "roles db = map (\<lambda>u. (usr_id u, usr_user_name u, usr_is_admin u)) (ac_users db)"

definition admin_named :: "account_db \<Rightarrow> string \<Rightarrow> bool" where
  "admin_named db name \<longleftrightarrow> (\<exists>u \<in> set (ac_users db). usr_is_admin u \<and> equal_fold (usr_user_name u) name)"

definition named_in :: "string list \<Rightarrow> user \<Rightarrow> bool" where
  "named_in names u \<longleftrightarrow> (\<exists>n \<in> set names. equal_fold (usr_user_name u) n)"

lemma users_ok_ids: "map usr_id (ac_users db') = map usr_id (ac_users db) \<Longrightarrow> users_ok db \<Longrightarrow> users_ok db'"
  unfolding users_ok_def by (metis set_map)

lemma roles_users_ok: "roles db' = roles db \<Longrightarrow> users_ok db \<Longrightarrow> users_ok db'"
proof -
  assume r: "roles db' = roles db" "users_ok db"
  then have "map fst (roles db') = map fst (roles db)"
    by simp
  then have "map usr_id (ac_users db') = map usr_id (ac_users db)"
    by (simp add: roles_def comp_def)
  then show ?thesis
    using r(2) by (rule users_ok_ids)
qed

lemma roles_admin_named: "roles db' = roles db \<Longrightarrow> admin_named db' name = admin_named db name"
proof -
  have *: "admin_named d name \<longleftrightarrow> (\<exists>(i, n, a) \<in> set (roles d). a \<and> equal_fold n name)" for d
    by (auto simp: admin_named_def roles_def)
  assume "roles db' = roles db"
  then show ?thesis
    by (simp only: *)
qed

lemma regular_request:
  assumes ok: "users_ok db" and "\<not> admin_named db name" and "name \<in> set names"
  shows "let db' = request (env, name, op) db in
     roles db' = roles db \<and> ac_libraries db' = ac_libraries db \<and> ac_user_library db' = ac_user_library db
     \<and> filter (\<lambda>u. \<not> named_in names u) (ac_users db') = filter (\<lambda>u. \<not> named_in names u) (ac_users db)"
proof -
  obtain r db1 where f: "find_by_username name db = (r, db1)"
    by fastforce
  have t: "ac_users db1 = ac_users db" "ac_libraries db1 = ac_libraries db" "ac_user_library db1 = ac_user_library db"
    using find_by_username_tables [OF f] by (simp_all add: same_tables_def)
  show ?thesis
  proof (cases r)
    case (Inl e)
    then show ?thesis
      by (simp add: request_def f t roles_def)
  next
    case (Inr logged)
    note found = find_by_username_found [OF f [unfolded Inr]]
    then have regular: "\<not> usr_is_admin logged"
      using assms(2) by (auto simp: admin_named_def)
    obtain e db' where op: "run_account_op env logged op db1 = (e, db')"
      by fastforce
    have req: "request (env, name, op) db = db'"
      by (simp add: request_def f Inr op)
    have "users_ok db1" "logged \<in> set (ac_users db1)"
      using ok found t by (simp_all add: users_ok_def)
    note res = regular_op [OF this regular op]
    show ?thesis
    proof (cases "ac_users db' = ac_users db")
      case True
      then show ?thesis
        using res by (simp add: req t roles_def)
    next
      case False
      then obtain v where v: "usr_user_name v = usr_user_name logged" "\<not> usr_is_admin v"
        "ac_users db' = map (\<lambda>r. if usr_id r = usr_id logged then user_row v r else r) (ac_users db)"
        using res t by auto
      have own: "u = logged" if "u \<in> set (ac_users db)" "usr_id u = usr_id logged" for u
        using same_user [OF ok that(1)] found that(2) by blast
      have "roles db' = roles db"
        unfolding roles_def v(3) map_map comp_def using own v(1,2) regular by (intro map_cong) auto
      moreover have "named_in names logged"
        using found assms(3) by (auto simp: named_in_def)
      then have "filter (\<lambda>u. \<not> named_in names u) (map (\<lambda>r. if usr_id r = usr_id logged then user_row v r else r) us)
          = filter (\<lambda>u. \<not> named_in names u) us" if "set us \<subseteq> set (ac_users db)" for us
        using that own v(1) by (induction us) (auto simp: named_in_def)
      ultimately show ?thesis
        using res by (simp add: req t v(3))
    qed
  qed
qed

text \<open>
  C15. Users who are no administrators have no power over others: whatever requests they send, with any
  entities in them, no user appears or goes away, nobody's role or user name changes (so nobody becomes an
  administrator), the rows of all other users stay exactly as they are, and so do the libraries
  and who sees them.
\<close>

theorem no_privilege_escalation:
  assumes "users_ok db" "list_all (\<lambda>(env, name, op). \<not> admin_named db name) rs"
  shows "roles (requests rs db) = roles db
    \<and> filter (\<lambda>u. \<not> named_in (map (\<lambda>(env, name, op). name) rs) u) (ac_users (requests rs db))
        = filter (\<lambda>u. \<not> named_in (map (\<lambda>(env, name, op). name) rs) u) (ac_users db)
    \<and> ac_libraries (requests rs db) = ac_libraries db \<and> ac_user_library (requests rs db) = ac_user_library db"
proof -
  let ?names = "map (\<lambda>(env, name, op). name) rs"
  have "roles (fold request qs d) = roles d
    \<and> filter (\<lambda>u. \<not> named_in ?names u) (ac_users (fold request qs d)) = filter (\<lambda>u. \<not> named_in ?names u) (ac_users d)
    \<and> ac_libraries (fold request qs d) = ac_libraries d \<and> ac_user_library (fold request qs d) = ac_user_library d"
    if "set qs \<subseteq> set rs" "users_ok d" "list_all (\<lambda>(env, name, op). \<not> admin_named d name) qs" for qs d
    using that
  proof (induction qs arbitrary: d)
    case (Cons q qs)
    obtain env name op where q: "q = (env, name, op)"
      by (metis prod_cases3)
    have "name \<in> set ?names" "\<not> admin_named d name"
      using Cons.prems(1,3) q by force+
    note step = regular_request [OF Cons.prems(2) this(2,1), of env op, unfolded Let_def, folded q]
    have "list_all (\<lambda>(env, name, op). \<not> admin_named (request q d) name) qs"
      using Cons.prems(3) roles_admin_named [OF step [THEN conjunct1]] by simp
    from Cons.IH [OF _ roles_users_ok [OF step [THEN conjunct1] Cons.prems(2)] this] Cons.prems(1) step
    show ?case
      by simp
  qed simp
  from this [of rs db] show ?thesis
    using assms by (simp add: requests_def)
qed


section \<open>Passwords and names\<close>

lemma unchanged_passwords:
  "usr_new_password u = [] \<Longrightarrow> map usr_password (map (\<lambda>r. if usr_id r = i then user_row u r else r) rows) = map usr_password rows"
  by (simp add: user_row_def)

text \<open>
  Nobody's own password changes without the current one: an update of a user by himself, or of a
  regular user by anyone he could be, that changes any stored password gave a new password and the current
  one, as the stored one decrypts; only a password that the server has made up is changed without it.
\<close>

lemma password_change_needs_password:
  assumes "users_ok db" "logged \<in> set (ac_users db)" "usr_is_admin logged \<longrightarrow> i = usr_id logged"
    and "update_user env logged i u db = (r, db')"
    and "map usr_password (ac_users db') \<noteq> map usr_password (ac_users db)"
  shows "usr_new_password u \<noteq> [] \<and> i = usr_id logged
    \<and> (\<exists>p. ae_decrypt env (usr_password logged) = Some p
        \<and> (has_prefix p autogen_prefix \<or> usr_current_password u = p \<and> p \<noteq> []))"
  using assms(4)
proof (cases rule: update_user_cases)
  case 1
  then show ?thesis
    using assms(5) by (simp add: same_tables_def)
next
  case (2 db1 ok lg)
  let ?u = "entity_to_put logged i u"
  have own: "i = usr_id logged"
    using 2(1) assms(3) by blast
  have rows: "ac_users db1 = ac_users db"
    using unique_tables [OF 2(4)] by (simp add: same_tables_def)
  have "usr_id (saved_user env ?u) = usr_id logged" "usr_id logged \<in> usr_id ` set (ac_users db)"
    using own user_id_neq [OF assms(1,2)] assms(2) by (simp_all add: entity_to_put_def)
  then have "ac_users db' = map (\<lambda>r. if usr_id r = usr_id logged then user_row (saved_user env ?u) r else r) (ac_users db)"
    using put_user_users [OF 2(5)] assms(5) rows by (auto simp: user_written_def)
  then have "usr_new_password (saved_user env ?u) \<noteq> []"
    using assms(5) unchanged_passwords [of "saved_user env ?u" "usr_id logged" "ac_users db"] by auto
  then have new: "usr_new_password u \<noteq> []"
    by (auto simp: saved_user_def encrypt_password_def entity_to_put_def split: if_splits)
  obtain p where p: "ae_decrypt env (usr_password logged) = Some p" "lg = logged\<lparr>usr_password := p\<rparr>"
    using 2(2) by (auto simp: decrypt_password_def)
  have "has_prefix p autogen_prefix \<or> usr_current_password u = p \<and> p \<noteq> []"
    using 2(3) new own p(2) by (auto simp: validate_password_change_def entity_to_put_def split: if_splits)
  then show ?thesis
    using new own p(1) by blast
qed

definition names_unique :: "account_db \<Rightarrow> bool" where
  "names_unique db \<longleftrightarrow> distinct (map (\<lambda>u. to_lower (usr_user_name u)) (ac_users db))"

lemma equal_fold_iff: "equal_fold a b \<longleftrightarrow> to_lower a = to_lower b"
  by (simp add: equal_fold_def)

lemma names_inj: "names_unique db \<Longrightarrow> a \<in> set (ac_users db) \<Longrightarrow> b \<in> set (ac_users db) \<Longrightarrow>
    to_lower (usr_user_name a) = to_lower (usr_user_name b) \<Longrightarrow> a = b"
  unfolding names_unique_def distinct_map
  by (drule conjunct2) (drule inj_onD [where x = a and y = b], simp_all)

lemma unique_name:
  assumes "names_unique db" "validate_username_unique u db = (None, db')" "r \<in> set (ac_users db)"
    and "equal_fold (usr_user_name r) (usr_user_name u)"
  shows "usr_id r = usr_id u"
proof -
  obtain res db1 where f: "find_by_username (usr_user_name u) db = (res, db1)"
    by fastforce
  show ?thesis
  proof (cases res)
    case (Inl e)
    then have "e = Not_found"
      using assms(2) f by (cases e) (simp_all add: validate_username_unique_def)
    then show ?thesis
      using find_by_username_none f Inl assms(3,4) by blast
  next
    case (Inr v)
    have "usr_id v = usr_id u"
      using assms(2) f Inr by (simp add: validate_username_unique_def split: if_splits)
    moreover have "v \<in> set (ac_users db)" "equal_fold (usr_user_name v) (usr_user_name u)"
      using find_by_username_found [OF f [unfolded Inr]] by simp_all
    then have "v = r"
      using names_inj [OF assms(1)] assms(3,4) by (simp add: equal_fold_iff)
    ultimately show ?thesis
      by simp
  qed
qed

lemma user_written_ok:
  assumes "users_ok db" "names_unique db" "ae_new_id env \<noteq> []"
    and "validate_username_unique u db = (None, db1)"
    and rows: "ac_users db' = user_written env (saved_user env u) (ac_users db)"
  shows "users_ok db' \<and> names_unique db'"
proof -
  let ?u = "saved_user env u"
  let ?f = "\<lambda>r. if usr_id r = usr_id ?u then user_row ?u r else r"
  have id: "usr_id ?u \<noteq> []"
    using assms(3) by simp
  have other: "to_lower (usr_user_name r) \<noteq> to_lower (usr_user_name u)"
    if "r \<in> set (ac_users db)" "usr_id r \<noteq> usr_id ?u" for r
    using unique_name [OF assms(2,4) that(1)] that user_id_neq [OF assms(1) that(1)]
    by (auto simp: equal_fold_iff split: if_splits)
  show ?thesis
  proof (cases "usr_id ?u \<in> usr_id ` set (ac_users db)")
    case True
    have ids: "map usr_id (map ?f (ac_users db)) = map usr_id (ac_users db)"
      by simp
    have "inj_on (\<lambda>r. to_lower (usr_user_name (?f r))) (set (ac_users db))"
    proof (rule inj_onI)
      fix x y
      assume xy: "x \<in> set (ac_users db)" "y \<in> set (ac_users db)"
        "to_lower (usr_user_name (?f x)) = to_lower (usr_user_name (?f y))"
      consider "usr_id x = usr_id ?u" "usr_id y = usr_id ?u" | "usr_id x \<noteq> usr_id ?u" "usr_id y \<noteq> usr_id ?u"
        | "usr_id x \<noteq> usr_id ?u" "usr_id y = usr_id ?u" | "usr_id x = usr_id ?u" "usr_id y \<noteq> usr_id ?u"
        by blast
      then show "x = y"
      proof cases
        case 1
        then show ?thesis
          using same_user [OF assms(1) xy(1,2)] by simp
      next
        case 2
        then show ?thesis
          using xy names_inj [OF assms(2)] by simp
      next
        case 3
        then show ?thesis
          using xy other [OF xy(1)] by simp
      next
        case 4
        then show ?thesis
          using xy other [OF xy(2)] by simp
      qed
    qed
    then have "distinct (map (\<lambda>r. to_lower (usr_user_name (?f r))) (ac_users db))"
      using assms(1) by (simp add: distinct_map users_ok_def)
    then have "names_unique db'"
      using True by (simp add: names_unique_def rows user_written_def comp_def)
    moreover have "map usr_id (ac_users db') = map usr_id (ac_users db)"
      using True ids by (simp add: rows user_written_def)
    then have "users_ok db'"
      using assms(1) by (rule users_ok_ids)
    ultimately show ?thesis
      by simp
  next
    case False
    have fresh: "to_lower (usr_user_name u) \<notin> (\<lambda>r. to_lower (usr_user_name r)) ` set (ac_users db)"
    proof
      assume "to_lower (usr_user_name u) \<in> (\<lambda>r. to_lower (usr_user_name r)) ` set (ac_users db)"
      then obtain r where r: "r \<in> set (ac_users db)" "to_lower (usr_user_name r) = to_lower (usr_user_name u)"
        by force
      have "usr_id r \<noteq> usr_id ?u"
        using False r(1) by (metis imageI)
      then show False
        using other [OF r(1)] r(2) by simp
    qed
    have "ac_users db' = ac_users db @ [user_row (?u\<lparr>usr_created := ae_now env\<rparr>) (blank_row (usr_id ?u))]"
      using False by (simp add: rows user_written_def)
    then show ?thesis
      using assms(1,2) False id fresh by (simp add: users_ok_def names_unique_def del: saved_user_fields(1))
  qed
qed


lemma users_filter_ok:
  assumes "users_ok db" "names_unique db" "ac_users db' = filter P (ac_users db)"
  shows "users_ok db' \<and> names_unique db'"
proof -
  have "[] \<notin> usr_id ` set (ac_users db')"
    using assms(1,3) by (metis imageE imageI filter_is_subset subsetD users_ok_def)
  then show ?thesis
    using assms by (simp add: users_ok_def names_unique_def distinct_map_filter)
qed

lemma set_user_libraries_users:
  assumes "set_user_libraries i libs db = (r, db')"
  shows "ac_users db' = ac_users db \<and> ac_libraries db' = ac_libraries db"
  using assms
  by (auto simp: set_user_libraries_def Let_def same_tables_def split: prod.splits sum.splits if_splits
      dest!: run_sql_tables get_user_tables)

lemma put_library_users: "put_library l db = (r, db') \<Longrightarrow> ac_users db' = ac_users db"
  by (auto simp: put_library_def write_library_def Let_def same_tables_def split: prod.splits if_splits bool.splits
      dest!: run_sql_tables)

lemma delete_library_users: "delete_library u l db = (r, db') \<Longrightarrow> ac_users db' = ac_users db"
  by (auto simp: delete_library_def same_tables_def split: prod.splits if_splits dest!: run_sql_tables)

lemma delete_user_users:
  "delete_user u i db = (r, db') \<Longrightarrow> ac_users db' = ac_users db \<or> ac_users db' = filter (\<lambda>u. usr_id u \<noteq> i) (ac_users db)"
  by (auto simp: delete_user_def same_tables_def split: prod.splits if_splits dest!: run_sql_tables)

lemma put_unique:
  assumes "users_ok db" "names_unique db" "ae_new_id env \<noteq> []"
    and "validate_username_unique u db = (None, db1)" "put_user env u db1 = (ok, db')"
  shows "users_ok db' \<and> names_unique db'"
proof -
  have "ac_users db1 = ac_users db"
    using unique_tables [OF assms(4)] by (simp add: same_tables_def)
  then consider "ac_users db' = ac_users db" | "ac_users db' = user_written env (saved_user env u) (ac_users db)"
    using put_user_users [OF assms(5)] by auto
  then show ?thesis
  proof cases
    case 1
    then show ?thesis
      using assms(1,2) by (simp add: users_ok_def names_unique_def)
  next
    case 2
    then show ?thesis
      by (rule user_written_ok [OF assms(1-4)])
  qed
qed

lemma same_users_ok: "users_ok db \<and> names_unique db \<Longrightarrow> ac_users db' = ac_users db \<Longrightarrow> users_ok db' \<and> names_unique db'"
  by (simp add: users_ok_def names_unique_def)

lemma run_account_op_unique:
  assumes "users_ok db" "names_unique db" "ae_new_id env \<noteq> []" and run: "run_account_op env logged op db = (r, db')"
  shows "users_ok db' \<and> names_unique db'"
proof (cases op)
  case (Save u)
  obtain v db1 where v: "validate_username_unique u db = (v, db1)"
    by fastforce
  obtain ok db2 where p: "put_user env u db1 = (ok, db2)"
    by fastforce
  have "same_tables db db' \<or> v = None \<and> db' = db2"
    using run Save v p unique_tables [OF v] by (auto simp: save_user_def split: if_splits option.splits)
  then show ?thesis
    using put_unique [OF assms(1-3) _ p] v assms(1,2) same_users_ok [of db db'] by (auto simp: same_tables_def)
next
  case (Update i u)
  then have "update_user env logged i u db = (r, db')"
    using run by simp
  then show ?thesis
  proof (cases rule: update_user_cases)
    case 1
    then show ?thesis
      using assms(1,2) same_users_ok [of db db'] by (simp add: same_tables_def)
  next
    case (2 db1 ok lg)
    then show ?thesis
      using put_unique [OF assms(1-3)] by blast
  qed
next
  case (Delete i)
  then show ?thesis
    using run delete_user_users [of logged i db r db'] users_filter_ok [OF assms(1,2)] same_users_ok [of db db'] assms(1,2)
    by auto
next
  case (Set_libraries i libs)
  then show ?thesis
    using run set_user_libraries_users [of i libs db r db'] same_users_ok [of db db'] assms(1,2) by (auto split: if_splits)
next
  case (Put_library l)
  then show ?thesis
    using run put_library_users [of l db r db'] same_users_ok [of db db'] assms(1,2) by (auto split: if_splits)
next
  case (Delete_library l)
  then show ?thesis
    using run delete_library_users [of logged l db r db'] same_users_ok [of db db'] assms(1,2) by (auto split: if_splits)
qed

text \<open>
  User names stay unique, letters of either case being the same: whatever requests users and
  administrators send, and whatever statements fail, no two users have names that log in as each other
  (the table itself only keeps names apart that are equal in every letter).
\<close>

lemma usernames_stay_unique:
  assumes "users_ok db" "names_unique db" "list_all (\<lambda>(env, name, op). ae_new_id env \<noteq> []) rs"
  shows "names_unique (requests rs db) \<and> users_ok (requests rs db)"
  using assms unfolding requests_def
proof (induction rs arbitrary: db)
  case (Cons q rs)
  obtain env name op where q: "q = (env, name, op)"
    by (metis prod_cases3)
  obtain r db1 where f: "find_by_username name db = (r, db1)"
    by fastforce
  have ok: "users_ok db1 \<and> names_unique db1"
    using find_by_username_tables [OF f] same_users_ok [of db db1] Cons.prems by (simp add: same_tables_def)
  have "users_ok (request q db) \<and> names_unique (request q db)"
  proof (cases r)
    case (Inl e)
    then show ?thesis
      using ok by (simp add: request_def q f)
  next
    case (Inr logged)
    then show ?thesis
      using run_account_op_unique [of db1 env logged op] ok Cons.prems(3) q
      by (simp add: request_def f) (metis prod.collapse)
  qed
  then show ?case
    using Cons.IH Cons.prems(3) by simp
qed simp


section \<open>Administrators see every library\<close>

definition admins_see_all :: "account_db \<Rightarrow> bool" where
  "admins_see_all db \<longleftrightarrow>
     (\<forall>u \<in> set (ac_users db). \<forall>l \<in> set (ac_libraries db). usr_is_admin u \<longrightarrow> (usr_id u, lb_id l) \<in> set (ac_user_library db))"

lemma run_sql_ok: "ac_faults db = [] \<Longrightarrow> run_sql db = (True, db)"
  by (simp add: run_sql_def)

lemma set_assign: "set (assign i libs rows) = set rows \<union> Pair i ` set libs"
  by (auto simp: assign_def)

lemma fold_assign:
  "set (fold (\<lambda>u. assign (usr_id u) libs) us rows) = set rows \<union> (\<Union>u \<in> set us. Pair (usr_id u) ` set libs)"
  by (induction us arbitrary: rows) (auto simp: set_assign)

lemma find_by_username_ok: "ac_faults db = [] \<Longrightarrow> snd (find_by_username name db) = db"
  by (simp add: find_by_username_def run_sql_ok)

lemma validate_username_ok: "ac_faults db = [] \<Longrightarrow> validate_username_unique u db = (r, db') \<Longrightarrow> db' = db"
  using find_by_username_ok [of db "usr_user_name u"]
  by (auto simp: validate_username_unique_def split: prod.splits sum.splits account_error.splits)

lemma put_user_access:
  assumes "ac_faults db = []" "admins_see_all db" "put_user env u db = (ok, db')"
  shows "ac_faults db' = [] \<and> admins_see_all db'"
proof -
  let ?u = "saved_user env u"
  obtain ok1 db1 where w: "write_user env ?u db = (ok1, db1)"
    by fastforce
  have f: "ac_faults db1 = []" and f': "\<not> ok1 \<Longrightarrow> db1 = db"
    using w assms(1) unfolding write_user_def run_sql_ok [OF assms(1)] prod.case Let_def
    by (simp_all split: if_splits) (elim conjE, hypsubst, simp)+
  note users = write_user_users [OF w]
  have put: "put_user env u db =
      (if ok1 then assign_libraries (usr_id ?u \<notin> usr_id ` set (ac_users db)) ?u db1 else (False, db1))"
    using w by (cases ok1) (simp_all add: put_user_def saved_user_def Let_def)
  show ?thesis
  proof (cases ok1)
    case False
    then show ?thesis
      using put assms f' by simp
  next
    case True
    have old: "usr_id r = usr_id ?u \<and> (usr_is_admin r \<longrightarrow> usr_is_admin ?u) \<or> r \<in> set (ac_users db)" if "r \<in> set (ac_users db1)" for r
      using that users True by (auto split: if_splits)
    have covered: "(usr_id r, lb_id l) \<in> set (ac_user_library db)"
      if "r \<in> set (ac_users db)" "l \<in> set (ac_libraries db)" "usr_is_admin r" for r l
      using assms(2) that by (simp add: admins_see_all_def)
    have rest: "r \<in> set (ac_users db) \<or> usr_is_admin ?u \<and> usr_id r = usr_id ?u"
      if "r \<in> set (ac_users db1)" "usr_is_admin r" for r
      using old [OF that(1)] that(2) by blast
    show ?thesis
    proof (cases "usr_is_admin ?u")
      case True
      then have "db' = db1\<lparr>ac_user_library := assign (usr_id ?u) (map lb_id (ac_libraries db1)) (ac_user_library db1)\<rparr>"
        using put assms(3) \<open>ok1\<close> f by (simp add: assign_libraries_def run_sql_ok)
      then show ?thesis
        using rest covered users f by (fastforce simp: admins_see_all_def set_assign)
    next
      case False
      then have "ac_faults db' = [] \<and> ac_users db' = ac_users db1 \<and> ac_libraries db' = ac_libraries db1
          \<and> set (ac_user_library db1) \<subseteq> set (ac_user_library db')"
        using put assms(3) \<open>ok1\<close> f by (auto simp: assign_libraries_def run_sql_ok set_assign split: if_splits)
      moreover have "(usr_id r, lb_id l) \<in> set (ac_user_library db1)"
        if "r \<in> set (ac_users db1)" "l \<in> set (ac_libraries db1)" "usr_is_admin r" for r l
        using rest [OF that(1,3)] covered that users False by simp
      ultimately show ?thesis
        by (simp add: admins_see_all_def subset_iff)
    qed
  qed
qed

lemma set_user_libraries_access:
  assumes "ac_faults db = []" "users_ok db" "admins_see_all db" "set_user_libraries i libs db = (r, db')"
  shows "ac_faults db' = [] \<and> admins_see_all db'"
proof (cases "db' = db")
  case False
  then obtain u where u: "find (\<lambda>u. usr_id u = i) (ac_users db) = Some u" "\<not> usr_is_admin u"
    "db' = db\<lparr>ac_user_library := assign i libs (filter (\<lambda>p. fst p \<noteq> i) (ac_user_library db))\<rparr>"
    using assms(1,4)
    by (auto simp: set_user_libraries_def get_user_def run_sql_ok split: option.splits if_splits)
  then have "u \<in> set (ac_users db)" "usr_id u = i"
    by (auto simp: find_Some_iff)
  then have "usr_id v \<noteq> i" if "v \<in> set (ac_users db)" "usr_is_admin v" for v
    using same_user [OF assms(2) that(1)] that(2) u(2) by metis
  then show ?thesis
    using assms(1,3) u(3) by (auto simp: admins_see_all_def set_assign)
qed (use assms in simp)

lemma write_library_ok:
  assumes "ac_faults db = []" "write_library l db = (ok, db1)"
  shows "ac_faults db1 = [] \<and> ac_users db1 = ac_users db \<and> (\<not> ok \<longrightarrow> db1 = db)"
  using assms unfolding write_library_def run_sql_ok [OF assms(1)] prod.case Let_def
  by (simp split: if_splits) (elim conjE, hypsubst, simp)+

lemma put_library_cases:
  assumes "ac_faults db = []" "put_library l db = (r, db')"
  obtains "db' = db"
  | db1 where "write_library l db = (True, db1)"
      "db' = db1\<lparr>ac_user_library := fold (\<lambda>u. assign (usr_id u) (map lb_id (ac_libraries db1)))
        (filter usr_is_admin (ac_users db1)) (ac_user_library db1)\<rparr>"
proof -
  have get: "(if lb_id l = 1 then run_sql db else (False, db)) = (lb_id l = 1, db)"
    using assms(1) by (simp add: run_sql_ok)
  obtain ok1 db1 where w: "write_library l db = (ok1, db1)"
    by fastforce
  note f = write_library_ok [OF assms(1) w]
  show thesis
  proof (cases ok1)
    case True
    then have "run_sql db1 = (True, db1)"
      using f by (simp add: run_sql_ok)
    then show thesis
      using assms(2) w True that unfolding put_library_def get by (simp split: if_splits)
  next
    case False
    then show thesis
      using assms(2) w f that(1) unfolding put_library_def get by (simp split: if_splits)
  qed
qed

lemma put_library_access:
  assumes "ac_faults db = []" "admins_see_all db" "put_library l db = (r, db')"
  shows "ac_faults db' = [] \<and> admins_see_all db'"
  using assms(1,3)
proof (cases rule: put_library_cases)
  case 1
  then show ?thesis
    using assms by simp
next
  case (2 db1)
  then show ?thesis
    using write_library_ok [OF assms(1) 2(1)] by (auto simp: admins_see_all_def fold_assign)
qed

lemma run_account_op_access:
  assumes "ac_faults db = []" "users_ok db" "admins_see_all db" and run: "run_account_op env logged op db = (r, db')"
  shows "ac_faults db' = [] \<and> admins_see_all db'"
proof (cases op)
  case (Save u)
  obtain v db1 where v: "validate_username_unique u db = (v, db1)"
    by fastforce
  then have "db1 = db"
    using validate_username_ok [OF assms(1)] by blast
  then show ?thesis
    using run Save v put_user_access [OF assms(1,3), of env u] assms(1,3)
    by (cases "put_user env u db") (auto simp: save_user_def split: if_splits option.splits)
next
  case (Update i u)
  then have "update_user env logged i u db = (r, db')"
    using run by simp
  then show ?thesis
  proof (cases rule: update_user_cases)
    case 1
    then show ?thesis
      using assms(1,3) by (simp add: same_tables_def admins_see_all_def)
  next
    case (2 db1 ok lg)
    then show ?thesis
      using put_user_access [OF assms(1,3)] validate_username_ok [OF assms(1)] by blast
  qed
next
  case (Delete i)
  then show ?thesis
    using run assms(1,3) by (auto simp: delete_user_def run_sql_ok admins_see_all_def split: if_splits)
next
  case (Set_libraries i libs)
  then show ?thesis
    using run set_user_libraries_access [OF assms(1-3)] assms(1,3) by (auto split: if_splits)
next
  case (Put_library l)
  then show ?thesis
    using run put_library_access [OF assms(1,3)] assms(1,3) by (auto split: if_splits)
next
  case (Delete_library l)
  then show ?thesis
    using run assms(1,3) by (auto simp: delete_library_def run_sql_ok admins_see_all_def split: if_splits)
qed

text \<open>
  Administrators are assigned every library at any time, as long as no statement fails: a
  user who is made one gets all libraries, a new library is given to every administrator, and the
  libraries of an administrator cannot be set.
\<close>

lemma admins_keep_libraries:
  assumes "ac_faults db = []" "users_ok db" "names_unique db" "admins_see_all db"
    and "list_all (\<lambda>(env, name, op). ae_new_id env \<noteq> []) rs"
  shows "admins_see_all (requests rs db)"
  using assms unfolding requests_def
proof (induction rs arbitrary: db)
  case (Cons q rs)
  obtain env name op where q: "q = (env, name, op)"
    by (metis prod_cases3)
  obtain r where f: "find_by_username name db = (r, db)"
    using find_by_username_ok [OF Cons.prems(1)] by (metis prod.collapse)
  have "ac_faults (request q db) = [] \<and> users_ok (request q db) \<and> names_unique (request q db) \<and> admins_see_all (request q db)"
  proof (cases r)
    case (Inl e)
    then show ?thesis
      using Cons.prems by (simp add: request_def q f)
  next
    case (Inr logged)
    obtain e db' where run: "run_account_op env logged op db = (e, db')"
      by fastforce
    have "ae_new_id env \<noteq> []"
      using Cons.prems(5) q by simp
    then show ?thesis
      using run_account_op_unique [OF Cons.prems(2,3) _ run] run_account_op_access [OF Cons.prems(1,2,4) run]
      by (simp add: request_def q f Inr run)
  qed
  then show ?case
    using Cons.IH Cons.prems(5) by simp
qed simp


section \<open>Sample accounts\<close>

definition sample_user :: "string \<Rightarrow> string \<Rightarrow> bool \<Rightarrow> string \<Rightarrow> user" where
  "sample_user i name admin password = \<lparr>usr_id = i, usr_user_name = name, usr_name = name, usr_email = [],
     usr_is_admin = admin, usr_last_login = None, usr_created = 5, usr_password = password,
     usr_new_password = [], usr_current_password = []\<rparr>"

definition sample_env :: account_env where
  "sample_env = \<lparr>ae_encrypt = (\<lambda>p. Some (CHR ''*'' # p)),
     ae_decrypt = (\<lambda>c. case c of [] \<Rightarrow> None | x # p \<Rightarrow> if x = CHR ''*'' then Some p else None),
     ae_user_editing = True, ae_new_id = ''n'', ae_now = 9\<rparr>"

definition sample_accounts :: account_db where
  "sample_accounts = \<lparr>ac_users = [sample_user ''1'' ''root'' True ''*adm'', sample_user ''2'' ''bob'' False ''*pw''],
     ac_libraries = [\<lparr>lb_id = 1, lb_name = ''Music'', lb_path = ''/m'', lb_default_new_users = True\<rparr>],
     ac_user_library = [(''1'', 1), (''2'', 1)], ac_faults = []\<rparr>"

definition bob_entity :: user where
  "bob_entity = (sample_user ''1'' ''root'' True [])\<lparr>usr_new_password := ''new'', usr_current_password := ''pw''\<rparr>"

definition bobs_requests :: "(account_env \<times> string \<times> account_op) list" where
  "bobs_requests = [(sample_env, ''BOB'', Update ''1'' bob_entity), (sample_env, ''bob'', Delete ''1''),
     (sample_env, ''bob'', Update ''2'' bob_entity), (sample_env, ''bob'', Put_library \<lparr>lb_id = 0, lb_name = ''x'',
       lb_path = ''x'', lb_default_new_users = True\<rparr>)]"

lemmas account_samples = sample_user_def sample_env_def sample_accounts_def bob_entity_def bobs_requests_def

lemmas account_run = find_by_username_def run_sql_def equal_fold_def to_lower_def lower_char_def is_upper_def byte_def
  update_user_def delete_user_def save_user_def validate_username_unique_def put_user_def write_user_def
  assign_libraries_def assign_def encrypt_password_def decrypt_password_def validate_password_change_def
  user_row_def autogen_prefix_def

lemma sample_accounts_ok: "users_ok sample_accounts" "names_unique sample_accounts" "admins_see_all sample_accounts"
  "ac_faults sample_accounts = []"
  by (simp_all add: account_samples users_ok_def names_unique_def admins_see_all_def to_lower_def lower_char_def is_upper_def byte_def)

lemma bobs_requests_regular: "list_all (\<lambda>(env, name, op). \<not> admin_named sample_accounts name) bobs_requests"
  by (simp add: account_samples admin_named_def equal_fold_def to_lower_def lower_char_def is_upper_def byte_def)

lemma bobs_requests_run: "map (\<lambda>u. (usr_id u, usr_user_name u, usr_password u)) (ac_users (requests bobs_requests sample_accounts))
    = [(''1'', ''root'', ''*adm''), (''2'', ''bob'', ''*new'')]"
  by (simp add: account_samples requests_def request_def account_run)

theorem no_privilege_escalation_witness:
  "roles (requests bobs_requests sample_accounts) = [(''1'', ''root'', True), (''2'', ''bob'', False)]"
proof -
  have "roles sample_accounts = [(''1'', ''root'', True), (''2'', ''bob'', False)]"
    by (simp add: roles_def account_samples)
  then show ?thesis
    using no_privilege_escalation [OF sample_accounts_ok(1) bobs_requests_regular] by simp
qed

lemma usernames_stay_unique_witness: "names_unique (requests bobs_requests sample_accounts)"
  using usernames_stay_unique [OF sample_accounts_ok(1,2), of bobs_requests]
  by (simp add: bobs_requests_def sample_env_def)

lemma admins_keep_libraries_witness: "admins_see_all (requests bobs_requests sample_accounts)"
  using admins_keep_libraries [OF sample_accounts_ok(4,1,2,3), of bobs_requests]
  by (simp add: bobs_requests_def sample_env_def)

definition bob :: user where
  "bob = sample_user ''2'' ''bob'' False ''*pw''"

lemma bob_update:
  "map usr_password (ac_users (snd (update_user sample_env bob ''2'' bob_entity sample_accounts))) = [''*adm'', ''*new'']"
  by (simp add: account_samples bob_def account_run)

lemma password_change_needs_password_witness: "usr_current_password bob_entity = ''pw''"
proof -
  have "bob \<in> set (ac_users sample_accounts)" "usr_is_admin bob \<longrightarrow> ''2'' = usr_id bob"
    by (simp_all add: bob_def account_samples)
  moreover have "map usr_password (ac_users (snd (update_user sample_env bob ''2'' bob_entity sample_accounts)))
      \<noteq> map usr_password (ac_users sample_accounts)"
    unfolding bob_update by (simp add: account_samples)
  ultimately show ?thesis
    using password_change_needs_password [OF sample_accounts_ok(1), of bob "''2''" sample_env bob_entity]
    by (cases "update_user sample_env bob ''2'' bob_entity sample_accounts")
      (simp add: bob_def autogen_prefix_def, simp add: account_samples)
qed

text \<open>
  The check is for updates: an administrator who saves a user with his own id as a new one changes his own
  password without the current one, although the interface asks for it.
\<close>

lemma save_skips_password_check:
  "map usr_password (ac_users (snd (save_user sample_env (sample_user ''1'' ''root'' True ''*adm'')
      ((sample_user ''1'' ''root'' True [])\<lparr>usr_new_password := ''x''\<rparr>) sample_accounts))) = [''*x'', ''*pw'']"
  by (simp add: account_samples account_run)

text \<open>\<open>Put\<close> overwrites the date of creation of a user with what the client sends, or with none.\<close>

lemma update_overwrites_created:
  "map usr_created (ac_users (snd (update_user sample_env bob ''2'' (bob_entity\<lparr>usr_created := 0\<rparr>) sample_accounts))) = [5, 0]"
  by (simp add: account_samples bob_def account_run)

text \<open>A password that could not be encrypted is stored as it is.\<close>

lemma failed_encryption_stores_password:
  "map usr_password (ac_users (snd (update_user (sample_env\<lparr>ae_encrypt := \<lambda>_. None\<rparr>) bob ''2'' bob_entity sample_accounts)))
     = [''*adm'', ''new'']"
  by (simp add: account_samples bob_def account_run)


end
