(* ===== verification/NetAddr.thy ===== *)
theory NetAddr
  imports Prelude
begin

text \<open>
  What the authentication uses of Go's \<open>net\<close>: reading addresses of both versions, networks in CIDR
  notation and host-port pairs, and whether an address is in a network. An address is its list of bytes,
  sixteen of them as \<open>ParseIP\<close> returns it.
\<close>

section \<open>Addresses\<close>

text \<open>\<open>parseIPv4Fields\<close>: the fields read so far, the value and the number of digits of the current one.\<close>

fun ipv4_fields :: "nat list \<Rightarrow> nat \<Rightarrow> nat \<Rightarrow> string \<Rightarrow> nat list option" where
  "ipv4_fields done v n [] = (if n = 0 \<or> length done \<noteq> 3 then None else Some (done @ [v]))"
| "ipv4_fields done v n (ch # s) =
     (if is_digit ch then
        (if n = 1 \<and> v = 0 then None
         else let v = v * 10 + nat (byte ch - 48) in if v > 255 then None else ipv4_fields done v (Suc n) s)
      else if ch = CHR ''.'' \<and> n \<noteq> 0 \<and> length done < 3 then ipv4_fields (done @ [v]) 0 0 s
      else None)"

definition mapped_prefix :: "nat list" where
  "mapped_prefix = replicate 10 0 @ [255, 255]"

fun hex_run :: "nat \<Rightarrow> nat \<Rightarrow> string \<Rightarrow> (nat \<times> nat \<times> string) option" where
  "hex_run v n [] = Some (v, n, [])"
| "hex_run v n (ch # s) =
     (case digit_val ch of
        None \<Rightarrow> Some (v, n, ch # s)
      | Some d \<Rightarrow> if d \<ge> 16 then Some (v, n, ch # s)
          else if n > 3 then None else hex_run (v * 16 + nat d) (Suc n) s)"

text \<open>The loop of \<open>parseIPv6\<close>: the bytes so far, where the ellipsis is, and what is left; each round adds two.\<close>

fun ipv6_loop :: "nat \<Rightarrow> nat list \<Rightarrow> nat option \<Rightarrow> string \<Rightarrow> (nat list \<times> nat option \<times> string) option" where
  "ipv6_loop 0 done ell s = Some (done, ell, s)"
| "ipv6_loop (Suc k) done ell s =
     (if length done \<ge> 16 then Some (done, ell, s)
      else case hex_run 0 0 s of
        None \<Rightarrow> None
      | Some (v, n, rest) \<Rightarrow>
          if n = 0 then None
          else if rest \<noteq> [] \<and> hd rest = CHR ''.'' then
            (if (ell = None \<and> length done \<noteq> 12) \<or> length done > 12 then None
             else map_option (\<lambda>f. (done @ f, ell, [])) (ipv4_fields [] 0 0 s))
          else
            let done = done @ [v div 256, v mod 256] in
            case rest of
              [] \<Rightarrow> Some (done, ell, [])
            | ch # rest \<Rightarrow>
                if ch \<noteq> CHR '':'' \<or> rest = [] then None
                else if hd rest = CHR '':'' then
                  (if ell \<noteq> None then None
                   else if tl rest = [] then Some (done, Some (length done), [])
                   else ipv6_loop k done (Some (length done)) (tl rest))
                else ipv6_loop k done ell rest)"

definition parse_ipv6 :: "string \<Rightarrow> nat list option" where
  "parse_ipv6 s =
     (if s = ''::'' then Some (replicate 16 0)
      else case (if has_prefix s ''::'' then ipv6_loop 8 [] (Some 0) (drop 2 s) else ipv6_loop 8 [] None s) of
        None \<Rightarrow> None
      | Some (done, ell, rest) \<Rightarrow>
          if rest \<noteq> [] then None
          else (case ell of
              None \<Rightarrow> if length done < 16 then None else Some done
            | Some e \<Rightarrow> if length done < 16
                then Some (take e done @ replicate (16 - length done) 0 @ drop e done) else None))"

text \<open>\<open>netip.ParseAddr\<close> of an address without a zone: its bytes and whether it is of version 4.\<close>

definition parse_addr :: "string \<Rightarrow> (nat list \<times> bool) option" where
  "parse_addr s =
     (if CHR ''%'' \<in> set s then None
      else case find (\<lambda>ch. ch = CHR ''.'' \<or> ch = CHR '':'') s of
        None \<Rightarrow> None
      | Some ch \<Rightarrow> if ch = CHR ''.'' then map_option (\<lambda>f. (mapped_prefix @ f, True)) (ipv4_fields [] 0 0 s)
          else map_option (\<lambda>a. (a, False)) (parse_ipv6 s))"

definition to4 :: "nat list \<Rightarrow> nat list option" where
  "to4 a = (if length a = 4 then Some a else if length a = 16 \<and> take 12 a = mapped_prefix then Some (drop 12 a) else None)"

section \<open>Networks\<close>

text \<open>\<open>ParseCIDR\<close>: the address, and the network as its bytes and the length of its prefix.\<close>

definition parse_cidr :: "string \<Rightarrow> (nat list \<times> nat list \<times> nat) option" where
  "parse_cidr s =
     (case cut CHR ''/'' s of
        None \<Rightarrow> None
      | Some (addr, width) \<Rightarrow>
          case parse_addr addr of
            None \<Rightarrow> None
          | Some (a, v4) \<Rightarrow>
              if width = [] \<or> \<not> list_all is_digit width then None
              else let n = nat (case read_digits 10 0 width of None \<Rightarrow> 0 | Some n \<Rightarrow> n) in
                if n > (if v4 then 32 else 128) then None
                else Some (a, if v4 then drop 12 a else a, n))"

fun mask_bytes :: "nat \<Rightarrow> nat list \<Rightarrow> nat list" where
  "mask_bytes n [] = []"
| "mask_bytes n (b # bytes) = (let z = 2 ^ (8 - min 8 n) in b div z * z) # mask_bytes (n - 8) bytes"

definition network :: "nat list \<times> nat \<Rightarrow> nat list \<times> nat" where
  "network net =
     (case net of (b, n) \<Rightarrow>
        let m = mask_bytes n b in
        if length b = 4 then (m, n)
        else case to4 m of Some m4 \<Rightarrow> (m4, n - 96) | None \<Rightarrow> (m, n))"

definition net_contains :: "nat list \<times> nat \<Rightarrow> nat list \<Rightarrow> bool" where
  "net_contains net ip =
     (case network net of (nn, n) \<Rightarrow>
        let x = (case to4 ip of Some x \<Rightarrow> x | None \<Rightarrow> ip) in
        length x = length nn \<and> mask_bytes n x = mask_bytes n nn)"

text \<open>\<open>ParseIP\<close> and the host of \<open>SplitHostPort\<close>, empty on an error.\<close>

definition parse_ip :: "string \<Rightarrow> nat list option" where
  "parse_ip s = map_option fst (parse_addr s)"

definition split_host_port :: "string \<Rightarrow> string" where
  "split_host_port s =
     (if CHR '':'' \<notin> set s then []
      else let port = rev (takeWhile (\<lambda>ch. ch \<noteq> CHR '':'') (rev s));
               front = take (length s - length port - 1) s in
        if CHR ''['' \<in> set port \<or> CHR '']'' \<in> set port then []
        else if front \<noteq> [] \<and> hd front = CHR ''['' then
          (case cut CHR '']'' (tl front) of
             Some (host, []) \<Rightarrow> if CHR ''['' \<in> set host then [] else host
           | _ \<Rightarrow> [])
        else if CHR '':'' \<in> set front \<or> CHR ''['' \<in> set front \<or> CHR '']'' \<in> set front then []
        else front)"

lemma mask_bytes_id: "list_all (\<lambda>b. b < 256) bytes \<Longrightarrow> mask_bytes (8 * length bytes) bytes = bytes"
  by (induction bytes) (simp_all add: Let_def)

lemma address_samples:
  "parse_ip ''192.168.1.10'' = Some (mapped_prefix @ [192, 168, 1, 10])" "parse_ip ''192.168.01.10'' = None"
  "parse_ip ''::1'' = Some (replicate 15 0 @ [1])"
  "split_host_port ''[::1]:4533'' = ''::1''" "split_host_port ''10.0.0.7:80'' = ''10.0.0.7''" "split_host_port ''@'' = []"
  "map_option (\<lambda>(a, net). net_contains net (mapped_prefix @ [10, 1, 255, 7])) (parse_cidr ''10.1.0.0/16'') = Some True"
  "map_option (\<lambda>(a, net). net_contains net (mapped_prefix @ [10, 2, 0, 7])) (parse_cidr ''10.1.0.0/16'') = Some False"
  by code_simp+

end
