(* ===== verification/Authentication.thy ===== *)
theory Authentication
  imports Accounts NetAddr Tokens GoStrings
begin

text \<open>
  Who a request is from: the native interface and the login (\<open>server/auth.go\<close>), the checks of the Subsonic
  interface (\<open>server/subsonic/middlewares.go\<close>) and the public tokens (\<open>core/auth/auth.go\<close>), over the
  tables of \<open>Accounts\<close> and the tokens of \<open>Tokens\<close>. The hash MD5 and the random salt are parameters.
\<close>

section \<open>Requests\<close>

record auth_config =
  ca_trusted_sources :: string
  ca_user_header :: string
  ca_auto_login :: string
  ca_address :: string

text \<open>
  A request: the user name of an internal call, the address of the reverse proxy, its headers, its query
  parameters (empty when missing; \<open>jwt\<close> apart, whose value is an opaque token), and what the verifier of the
  native interface found, or its error.
\<close>

record 'tok auth_request =
  hq_internal :: "string option"
  hq_proxy_ip :: "string option"
  hq_header :: "string \<Rightarrow> string"
  hq_query :: "string \<Rightarrow> string"
  hq_jwt :: "'tok option"
  hq_token :: "string + claims"

text \<open>\<open>validateIPAgainstList\<close>.\<close>

definition validate_ip_against_list :: "auth_config \<Rightarrow> string \<Rightarrow> string \<Rightarrow> bool" where
  "validate_ip_against_list cfg ip ranges =
     (if ranges = [] \<or> ip = [] then False
      else
        let cidrs = split_on CHR '','' ranges in
        if ip = ''@'' \<and> has_prefix (ca_address cfg) ''unix:'' then ''@'' \<in> set cidrs
        else
          let ip = (if parse_ip ip = None then split_host_port ip else ip) in
          if ip = [] then False
          else case parse_cidr (ip @ ''/32'') of
            None \<Rightarrow> False
          | Some (tested, _) \<Rightarrow>
              (\<exists>cidr \<in> set cidrs. case parse_cidr cidr of None \<Rightarrow> False | Some (_, net) \<Rightarrow> net_contains net tested))"

definition username_from_token :: "'tok auth_request \<Rightarrow> string" where
  "username_from_token r =
     (case hq_token r of Inl _ \<Rightarrow> [] | Inr tok \<Rightarrow> (case get_string tok ''sub'' of None \<Rightarrow> [] | Some s \<Rightarrow> s))"

definition username_from_ext_auth_header :: "auth_config \<Rightarrow> 'tok auth_request \<Rightarrow> string" where
  "username_from_ext_auth_header cfg r =
     (if ca_trusted_sources cfg = [] then []
      else case hq_proxy_ip r of
        None \<Rightarrow> []
      | Some ip \<Rightarrow>
          if \<not> validate_ip_against_list cfg ip (ca_trusted_sources cfg) then []
          else hq_header r (ca_user_header cfg))"

definition internal_auth :: "'tok auth_request \<Rightarrow> string" where
  "internal_auth r = (case hq_internal r of None \<Rightarrow> [] | Some u \<Rightarrow> u)"

section \<open>The native interface\<close>

datatype auth_error = Unauthenticated | Account_error account_error

text \<open>\<open>authenticateRequest\<close> with the sources of \<open>Authenticator\<close>: the first that has a name counts.\<close>

definition authenticate_request ::
  "('tok auth_request \<Rightarrow> string) list \<Rightarrow> 'tok auth_request \<Rightarrow> account_db \<Rightarrow> (auth_error + user) \<times> account_db" where
  "authenticate_request sources r db =
     (case find (\<lambda>f. f r \<noteq> []) sources of
        None \<Rightarrow> (Inl Unauthenticated, db)
      | Some f \<Rightarrow> (case find_by_username (f r) db of
            (Inl e, db) \<Rightarrow> (Inl (Account_error e), db) | (Inr u, db) \<Rightarrow> (Inr u, db)))"

definition authenticator :: "auth_config \<Rightarrow> 'tok auth_request \<Rightarrow> account_db \<Rightarrow> (auth_error + user) \<times> account_db" where
  "authenticator cfg =
     authenticate_request [\<lambda>_. ca_auto_login cfg, username_from_token, username_from_ext_auth_header cfg]"

section \<open>The Subsonic interface\<close>

definition from_internal_or_proxy_auth :: "auth_config \<Rightarrow> 'tok auth_request \<Rightarrow> string" where
  "from_internal_or_proxy_auth cfg r =
     (if internal_auth r \<noteq> [] then internal_auth r else username_from_ext_auth_header cfg r)"

text \<open>The missing parameter, or the user, the client and the version.\<close>

definition check_required_parameters :: "auth_config \<Rightarrow> 'tok auth_request \<Rightarrow> string + string \<times> string \<times> string" where
  "check_required_parameters cfg r =
     (let name = from_internal_or_proxy_auth cfg r;
          required = (if name \<noteq> [] then [''v'', ''c''] else [''u'', ''v'', ''c'']) in
      case find (\<lambda>p. hq_query r p = []) required of
        Some p \<Rightarrow> Inl p
      | None \<Rightarrow> Inr (if name = [] then hq_query r ''u'' else name, hq_query r ''c'', hq_query r ''v''))"

fun hex_decode :: "string \<Rightarrow> string option" where
  "hex_decode [] = Some []"
| "hex_decode [_] = None"
| "hex_decode (a # b # s) =
     (case digit_val a of None \<Rightarrow> None
      | Some x \<Rightarrow> (case digit_val b of None \<Rightarrow> None
          | Some y \<Rightarrow> if x < 16 \<and> y < 16 then map_option (Cons (char_of (nat (x * 16 + y)))) (hex_decode s) else None))"

definition decode_password :: "string \<Rightarrow> string" where
  "decode_password p =
     (if has_prefix p ''enc:'' then (case hex_decode (drop 4 p) of Some d \<Rightarrow> d | None \<Rightarrow> p) else p)"

definition validate_credentials ::
  "'tok jwt_lib \<Rightarrow> (string \<Rightarrow> string) \<Rightarrow> go_time \<Rightarrow> user \<Rightarrow> string \<Rightarrow> string \<Rightarrow> string \<Rightarrow> 'tok option \<Rightarrow> bool" where
  "validate_credentials lib md5 now u pass token salt jwt =
     (if jwt \<noteq> None then
        (case validate_token lib now (the jwt) of Inl _ \<Rightarrow> False | Inr c \<Rightarrow> cl_subject c = usr_user_name u)
      else if pass \<noteq> [] then decode_password pass = usr_password u
      else if token \<noteq> [] then md5 (usr_password u @ salt) = token
      else False)"

definition authenticate ::
  "auth_config \<Rightarrow> account_env \<Rightarrow> 'tok jwt_lib \<Rightarrow> (string \<Rightarrow> string) \<Rightarrow> go_time \<Rightarrow> 'tok auth_request
     \<Rightarrow> account_db \<Rightarrow> user option \<times> account_db" where
  "authenticate cfg env lib md5 now r db =
     (let name = from_internal_or_proxy_auth cfg r in
      if name \<noteq> [] then
        (case find_by_username name db of (Inl _, db) \<Rightarrow> (None, db) | (Inr u, db) \<Rightarrow> (Some u, db))
      else
        (case find_with_password env (hq_query r ''u'') db of
           (Inl _, db) \<Rightarrow> (None, db)
         | (Inr u, db) \<Rightarrow>
             (if validate_credentials lib md5 now u (hq_query r ''p'') (hq_query r ''t'') (hq_query r ''s'') (hq_jwt r)
              then Some u else None, db)))"

text \<open>The chain of the two middlewares, up to the user that the handlers see.\<close>

definition subsonic_user ::
  "auth_config \<Rightarrow> account_env \<Rightarrow> 'tok jwt_lib \<Rightarrow> (string \<Rightarrow> string) \<Rightarrow> go_time \<Rightarrow> 'tok auth_request
     \<Rightarrow> account_db \<Rightarrow> user option \<times> account_db" where
  "subsonic_user cfg env lib md5 now r db =
     (case check_required_parameters cfg r of
        Inl _ \<Rightarrow> (None, db)
      | Inr _ \<Rightarrow> authenticate cfg env lib md5 now r db)"

section \<open>Logging in\<close>

definition touch_login :: "account_env \<Rightarrow> string \<Rightarrow> account_db \<Rightarrow> bool \<times> account_db" where
  "touch_login env i db =
     (case run_sql db of (ok, db) \<Rightarrow>
        if ok then (True, db\<lparr>ac_users := map (\<lambda>r. if usr_id r = i then r\<lparr>usr_last_login := Some (ae_now env)\<rparr> else r) (ac_users db)\<rparr>)
        else (False, db))"

definition validate_login :: "account_env \<Rightarrow> string \<Rightarrow> string \<Rightarrow> account_db \<Rightarrow> (account_error + user option) \<times> account_db" where
  "validate_login env name password db =
     (case find_with_password env name db of
        (Inl Not_found, db) \<Rightarrow> (Inr None, db)
      | (Inl e, db) \<Rightarrow> (Inl e, db)
      | (Inr u, db) \<Rightarrow>
          if usr_password u \<noteq> password then (Inr None, db)
          else (Inr (Some u), snd (touch_login env (usr_id u) db)))"

text \<open>The answers: a status, or the payload; the salt is missing when no random bytes could be read.\<close>

record 'tok login_payload =
  lp_id :: string
  lp_username :: string
  lp_is_admin :: bool
  lp_subsonic :: "(string \<times> string) option"
  lp_token :: "'tok option"

datatype 'tok login_answer = Status nat | Payload "'tok login_payload"

definition build_auth_payload :: "(string \<Rightarrow> string) \<Rightarrow> string option \<Rightarrow> user \<Rightarrow> 'tok login_payload" where
  "build_auth_payload md5 salt u =
     \<lparr>lp_id = usr_id u, lp_username = usr_user_name u, lp_is_admin = usr_is_admin u,
      lp_subsonic = map_option (\<lambda>s. (s, md5 (usr_password u @ s))) salt, lp_token = None\<rparr>"

definition token_user :: "user \<Rightarrow> auth_user" where
  "token_user u = \<lparr>au_id = usr_id u, au_user_name = usr_user_name u, au_is_admin = usr_is_admin u\<rparr>"

definition do_login ::
  "account_env \<Rightarrow> 'tok jwt_lib \<Rightarrow> int \<Rightarrow> go_time \<Rightarrow> (string \<Rightarrow> string) \<Rightarrow> string option \<Rightarrow> string \<Rightarrow> string
     \<Rightarrow> account_db \<Rightarrow> 'tok login_answer \<times> account_db" where
  "do_login env lib timeout now md5 salt name password db =
     (case validate_login env name password db of
        (Inl _, db) \<Rightarrow> (Status 500, db)
      | (Inr None, db) \<Rightarrow> (Status 401, db)
      | (Inr (Some u), db) \<Rightarrow>
          (case create_token lib timeout now (token_user u) of
             Inl _ \<Rightarrow> (Status 500, db)
           | Inr tok \<Rightarrow> (Payload ((build_auth_payload md5 salt u)\<lparr>lp_token := Some tok\<rparr>), db)))"

definition blank_user :: "account_env \<Rightarrow> string \<Rightarrow> user" where
  "blank_user env name = (blank_row (ae_new_id env))\<lparr>usr_user_name := name\<rparr>"

text \<open>\<open>createAdminUser\<close>, whose error is only logged; \<open>title\<close> makes the full name from the user name.\<close>

definition create_admin_user :: "account_env \<Rightarrow> (string \<Rightarrow> string) \<Rightarrow> string \<Rightarrow> string \<Rightarrow> account_db \<Rightarrow> account_db" where
  "create_admin_user env title name password db =
     snd (put_user env ((blank_user env name)\<lparr>usr_name := title name, usr_new_password := password,
       usr_is_admin := True, usr_last_login := Some (ae_now env)\<rparr>) db)"

definition create_admin ::
  "account_env \<Rightarrow> 'tok jwt_lib \<Rightarrow> int \<Rightarrow> go_time \<Rightarrow> (string \<Rightarrow> string) \<Rightarrow> string option \<Rightarrow> (string \<Rightarrow> string)
     \<Rightarrow> string \<Rightarrow> string \<Rightarrow> account_db \<Rightarrow> 'tok login_answer \<times> account_db" where
  "create_admin env lib timeout now md5 salt title name password db =
     (case run_sql db of (ok, db) \<Rightarrow>
        if \<not> ok then (Status 500, db)
        else if ac_users db \<noteq> [] then (Status 403, db)
        else do_login env lib timeout now md5 salt name password (create_admin_user env title name password db))"

text \<open>
  \<open>handleLoginFromHeaders\<close>: a name that is not found gets a user. The count of the users is zero when
  it could not be read, and any error of the search counts as not found.
\<close>

definition create_header_user :: "account_env \<Rightarrow> string \<Rightarrow> string \<Rightarrow> account_db \<Rightarrow> bool \<times> account_db" where
  "create_header_user env random name db =
     (case run_sql db of (ok, db) \<Rightarrow>
        put_user env ((blank_user env name)\<lparr>usr_name := name, usr_new_password := autogen_prefix @ random,
          usr_is_admin := (\<not> ok \<or> ac_users db = [])\<rparr>) db)"

definition finish_header_login ::
  "account_env \<Rightarrow> (string \<Rightarrow> string) \<Rightarrow> string option \<Rightarrow> user \<Rightarrow> account_db \<Rightarrow> 'tok login_payload option \<times> account_db" where
  "finish_header_login env md5 salt u db =
     (case touch_login env (usr_id u) db of
        (ok, db) \<Rightarrow> (if ok then Some (build_auth_payload md5 salt u) else None, db))"

definition handle_login_from_headers ::
  "auth_config \<Rightarrow> account_env \<Rightarrow> string \<Rightarrow> (string \<Rightarrow> string) \<Rightarrow> string option \<Rightarrow> 'tok auth_request
     \<Rightarrow> account_db \<Rightarrow> 'tok login_payload option \<times> account_db" where
  "handle_login_from_headers cfg env random md5 salt r db =
     (let name = (if ca_auto_login cfg \<noteq> [] then ca_auto_login cfg else username_from_ext_auth_header cfg r) in
      if name = [] then (None, db)
      else case find_with_password env name db of
        (Inr u, db) \<Rightarrow> finish_header_login env md5 salt u db
      | (Inl _, db) \<Rightarrow>
          (case create_header_user env random name db of
             (False, db) \<Rightarrow> (None, db)
           | (True, db) \<Rightarrow>
               (case find_with_password env name db of
                  (Inl _, db) \<Rightarrow> (None, db)
                | (Inr u, db) \<Rightarrow> finish_header_login env md5 salt u db)))"

section \<open>Public tokens\<close>

definition create_public_token :: "'tok jwt_lib \<Rightarrow> auth_claims \<Rightarrow> string + 'tok" where
  "create_public_token lib c = jwt_encode lib (to_map (c\<lparr>cl_issuer := jwt_issuer\<rparr>))"

definition create_expiring_public_token :: "'tok jwt_lib \<Rightarrow> go_time \<Rightarrow> auth_claims \<Rightarrow> string + 'tok" where
  "create_expiring_public_token lib expiry c =
     jwt_encode lib (to_map (if expiry = zero_time then c\<lparr>cl_issuer := jwt_issuer\<rparr>
       else c\<lparr>cl_issuer := jwt_issuer, cl_expires_at := expiry\<rparr>))"

text \<open>The claims of the tokens for images and for the tracks of a share.\<close>

definition public_claims :: "string \<Rightarrow> string \<Rightarrow> int \<Rightarrow> auth_claims" where
  "public_claims i fmt bit_rate = \<lparr>cl_issuer = [], cl_subject = [], cl_issued_at = zero_time, cl_expires_at = zero_time,
     cl_user_id = [], cl_is_admin = False, cl_id = i, cl_format = fmt, cl_bit_rate = bit_rate\<rparr>"

section \<open>Proof of identity\<close>

lemma find_with_password_found:
  assumes "find_with_password env name db = (Inr u, db')"
  shows "same_tables db db' \<and> (\<exists>row \<in> set (ac_users db). equal_fold (usr_user_name row) name
    \<and> u = (case ae_decrypt env (usr_password row) of Some p \<Rightarrow> row\<lparr>usr_password := p\<rparr> | None \<Rightarrow> row))"
proof -
  obtain r db1 where f: "find_by_username name db = (r, db1)"
    by fastforce
  then obtain row where row: "r = Inr row" "db' = db1"
    "u = (case decrypt_password env row of Some d \<Rightarrow> d | None \<Rightarrow> row)"
    using assms by (auto simp: find_with_password_def split: sum.splits)
  then have "row \<in> set (ac_users db) \<and> equal_fold (usr_user_name row) name"
    using find_by_username_found f by blast
  moreover have "u = (case ae_decrypt env (usr_password row) of Some p \<Rightarrow> row\<lparr>usr_password := p\<rparr> | None \<Rightarrow> row)"
    by (simp add: row(3) decrypt_password_def split: option.splits)
  ultimately show ?thesis
    using find_by_username_tables [OF f] row(2) by blast
qed

text \<open>What shows that a request is from a user of the table.\<close>

definition plain_password :: "account_env \<Rightarrow> user \<Rightarrow> string" where
  "plain_password env row = (case ae_decrypt env (usr_password row) of Some p \<Rightarrow> p | None \<Rightarrow> usr_password row)"





section \<open>Tokens that are no sessions\<close>

text \<open>The tokens that the server gives to anybody: for images, for the tracks of a share, for a decision.\<close>

definition public_exact :: "string \<Rightarrow> string \<Rightarrow> int \<Rightarrow> bool" where
  "public_exact i fmt b \<longleftrightarrow> valid_utf8 i \<and> valid_utf8 fmt \<and> json_exact b"

definition public_token :: "'tok jwt_lib \<Rightarrow> 'tok \<Rightarrow> bool" where
  "public_token lib tok \<longleftrightarrow>
     (\<exists>i fmt b. public_exact i fmt b \<and> create_public_token lib (public_claims i fmt b) = Inr tok)
     \<or> (\<exists>i fmt b t. public_exact i fmt b \<and> date_ok t \<and> create_expiring_public_token lib t (public_claims i fmt b) = Inr tok)
     \<or> (\<exists>t d. decision_exact t d \<and> create_transcode_params lib t d = Inr tok)"

lemma public_claims_exact:
  "public_exact i fmt b \<Longrightarrow> claims_exact (to_map ((public_claims i fmt b)\<lparr>cl_issuer := jwt_issuer\<rparr>))"
  using issuer_valid
  by (intro to_map_exact) (simp add: auth_exact_def public_claims_def public_exact_def date_ok_def jwt_issuer_def)

lemma expiring_claims_exact:
  "public_exact i fmt b \<Longrightarrow> date_ok t \<Longrightarrow>
     claims_exact (to_map ((public_claims i fmt b)\<lparr>cl_issuer := jwt_issuer, cl_expires_at := t\<rparr>))"
  using issuer_valid
  by (intro to_map_exact) (simp add: auth_exact_def public_claims_def public_exact_def date_ok_def jwt_issuer_def)

lemma no_subject: "to_map ((public_claims i fmt b)\<lparr>cl_issuer := s\<rparr>) ''sub'' = None"
  "to_map ((public_claims i fmt b)\<lparr>cl_issuer := s, cl_expires_at := t\<rparr>) ''sub'' = None"
  by (simp_all add: to_map_def put_if_apply public_claims_def)

lemma faithful_verify:
  assumes "jwt_faithful lib" "claims_exact m" "jwt_encode lib m = Inr tok" "jwt_verify lib now tok = Inr c"
  shows "c = json_claims m"
proof -
  obtain s where s: "jwt_encode lib m = Inr s"
    "\<And>now. token_current now m \<Longrightarrow> jwt_verify lib now s = Inr (json_claims m)"
    "\<And>now. \<not> token_current now m \<Longrightarrow> \<exists>err. jwt_verify lib now s = Inl err"
    by (rule jwt_faithfulE [OF assms(1,2)]) blast
  then show ?thesis
    using assms(3,4) by (cases "token_current now m") fastforce+
qed

lemma public_token_claims:
  assumes "public_token lib tok"
  obtains m where "claims_exact m" "jwt_encode lib m = Inr tok" "m ''sub'' = None"
  using assms unfolding public_token_def
proof (elim disjE exE conjE)
  fix i fmt b
  assume "public_exact i fmt b" "create_public_token lib (public_claims i fmt b) = Inr tok"
  then show thesis
    by (intro that [OF public_claims_exact _ no_subject(1)]) (simp_all add: create_public_token_def)
next
  fix i fmt b t
  assume b: "public_exact i fmt b" "date_ok t" "create_expiring_public_token lib t (public_claims i fmt b) = Inr tok"
  show thesis
  proof (cases "t = zero_time")
    case True
    have "jwt_encode lib (to_map ((public_claims i fmt b)\<lparr>cl_issuer := jwt_issuer\<rparr>)) = Inr tok"
      using b(3) unfolding create_expiring_public_token_def if_P [OF True] .
    from that [OF public_claims_exact [OF b(1)] this no_subject(1)] show thesis .
  next
    case False
    have "jwt_encode lib (to_map ((public_claims i fmt b)\<lparr>cl_issuer := jwt_issuer, cl_expires_at := t\<rparr>)) = Inr tok"
      using b(3) unfolding create_expiring_public_token_def if_not_P [OF False] .
    from that [OF expiring_claims_exact [OF b(1,2)] this no_subject(2)] show thesis .
  qed
next
  fix t d
  assume d: "decision_exact t d" "create_transcode_params lib t d = Inr tok"
  let ?m = "(to_claims_map t d)(''iss'' \<mapsto> Claim_string jwt_issuer)"
  have "?m ''sub'' = None"
    by (simp add: to_claims_map_def put_if_apply Let_def)
  moreover have "jwt_encode lib ?m = Inr tok"
    using d(2) by (simp add: create_transcode_params_def encode_token_def)
  ultimately show thesis
    using that to_claims_map_exact [OF d(1)] by blast
qed

lemma public_token_no_subject:
  assumes "jwt_faithful lib" "public_token lib tok" "jwt_verify lib now tok = Inr c"
  shows "get_string c ''sub'' = None"
proof -
  obtain m where m: "claims_exact m" "jwt_encode lib m = Inr tok" "m ''sub'' = None"
    using public_token_claims [OF assms(2)] .
  have "c = json_claims m"
    by (rule faithful_verify [OF assms(1) m(1,2) assms(3)])
  then show ?thesis
    using m(3) by (simp add: getters_json) (simp add: get_string_def)
qed

text \<open>
  The tokens that the server hands out in links, to images, to the tracks of a share, and for a
  transcoding decision, are no sessions: although they are signed with the same key, none of them ever passes as
  a user in the Subsonic interface, and the native interface reads no user name from them.
\<close>

lemma public_tokens_are_no_sessions:
  assumes "jwt_faithful lib" "public_token lib tok" "usr_user_name u \<noteq> []"
  shows "\<not> validate_credentials lib md5 now u pass token salt (Some tok)
    \<and> username_from_token (r\<lparr>hq_token := jwt_verify lib now tok\<rparr>) = []"
proof (cases "jwt_verify lib now tok")
  case (Inl e)
  then show ?thesis
    by (simp add: validate_credentials_def validate_token_def username_from_token_def)
next
  case (Inr c)
  then have "get_string c ''sub'' = None"
    using public_token_no_subject [OF assms(1,2)] by blast
  then show ?thesis
    using Inr assms(3)
    by (simp add: validate_credentials_def validate_token_def username_from_token_def claims_from_token_def)
qed

section \<open>Logging in and coming back\<close>

lemma touch_login_tables:
  assumes "touch_login env i db = (ok, db')"
  shows "ac_users db' = ac_users db \<or>
    ac_users db' = map (\<lambda>r. if usr_id r = i then r\<lparr>usr_last_login := Some (ae_now env)\<rparr> else r) (ac_users db)"
  using assms by (auto simp: touch_login_def same_tables_def split: prod.splits if_splits dest!: run_sql_tables)

lemma find_map:
  "(\<And>x. P (f x) = P x) \<Longrightarrow> find P (map f xs) = map_option f (find P xs)"
  by (induction xs) auto

lemma find_fold_names:
  "equal_fold a b \<Longrightarrow> find (\<lambda>u. equal_fold (usr_user_name u) a) rows = find (\<lambda>u. equal_fold (usr_user_name u) b) rows"
  by (induction rows) (auto simp: equal_fold_def)

text \<open>A successful login: the user that was found, with the password, and the table after it.\<close>

lemma do_loginE:
  assumes "do_login env lib timeout now md5 salt name password db = (Payload p, db')"
  obtains row u tok where "find (\<lambda>u. equal_fold (usr_user_name u) name) (ac_users db) = Some row"
    "u = row\<lparr>usr_password := plain_password env row\<rparr>" "usr_password u = password"
    "create_token lib timeout now (token_user u) = Inr tok"
    "p = (build_auth_payload md5 salt u)\<lparr>lp_token := Some tok\<rparr>"
    "ac_users db' = ac_users db \<or>
      ac_users db' = map (\<lambda>r. if usr_id r = usr_id u then r\<lparr>usr_last_login := Some (ae_now env)\<rparr> else r) (ac_users db)"
proof -
  obtain u where v: "validate_login env name password db = (Inr (Some u), db')"
    and tok: "\<exists>tok. create_token lib timeout now (token_user u) = Inr tok
      \<and> p = (build_auth_payload md5 salt u)\<lparr>lp_token := Some tok\<rparr>"
    using assms by (auto simp: do_login_def split: prod.splits sum.splits option.splits)
  obtain db1 where f: "find_with_password env name db = (Inr u, db1)" "usr_password u = password"
    "db' = snd (touch_login env (usr_id u) db1)"
    using v by (auto simp: validate_login_def split: prod.splits sum.splits account_error.splits if_splits)
  obtain row db2 where row: "find_by_username name db = (Inr row, db2)" "db1 = db2"
    "u = (case decrypt_password env row of Some d \<Rightarrow> d | None \<Rightarrow> row)"
    using f(1) by (auto simp: find_with_password_def split: prod.splits sum.splits)
  have same: "ac_users db1 = ac_users db"
    using find_with_password_found [OF f(1)] by (simp add: same_tables_def)
  have "find (\<lambda>u. equal_fold (usr_user_name u) name) (ac_users db) = Some row"
    using row(1)
    by (auto simp: find_by_username_def same_tables_def split: prod.splits if_splits option.splits dest!: run_sql_tables)
  moreover have "u = row\<lparr>usr_password := plain_password env row\<rparr>"
    by (simp add: row(3) decrypt_password_def plain_password_def split: option.splits)
  moreover have "ac_users db' = ac_users db \<or>
      ac_users db' = map (\<lambda>r. if usr_id r = usr_id u then r\<lparr>usr_last_login := Some (ae_now env)\<rparr> else r) (ac_users db)"
    using touch_login_tables [of env "usr_id u" db1] f(3) same by (cases "touch_login env (usr_id u) db1") auto
  ultimately show thesis
    using that tok f(2) by blast
qed

lemma find_after_login:
  assumes "find (\<lambda>u. equal_fold (usr_user_name u) name) rows = Some row"
    and "rows' = rows \<or> rows' = map (\<lambda>r. if usr_id r = i then r\<lparr>usr_last_login := t\<rparr> else r) rows"
  obtains row' where "find (\<lambda>u. equal_fold (usr_user_name u) (usr_user_name row)) rows' = Some row'"
    "usr_id row' = usr_id row" "usr_user_name row' = usr_user_name row" "usr_password row' = usr_password row"
proof -
  have "equal_fold (usr_user_name row) name"
    using assms(1) by (auto simp: find_Some_iff)
  then have f: "find (\<lambda>u. equal_fold (usr_user_name u) (usr_user_name row)) rows = Some row"
    using assms(1) find_fold_names by metis
  show thesis
    using assms(2)
  proof
    assume "rows' = rows"
    then show thesis
      using that f by blast
  next
    let ?f = "\<lambda>r. if usr_id r = i then r\<lparr>usr_last_login := t\<rparr> else r"
    assume "rows' = map ?f rows"
    then have "find (\<lambda>u. equal_fold (usr_user_name u) (usr_user_name row)) rows' = Some (?f row)"
      using f by (simp add: find_map)
    then show thesis
      by (rule that) simp_all
  qed
qed

text \<open>
  What a login hands out works: the hash and salt in its payload pass the Subsonic interface, and from its
  second until it expires its session token passes the native one, both as the user who logged in;
  at other times the token is refused.
\<close>

lemma login_credentials_work:
  assumes "jwt_faithful lib" "\<forall>row \<in> set (ac_users db). user_exact (token_user row)" "0 \<le> unix now" "0 \<le> timeout"
      "unix (now + timeout) \<le> max_date"
    and login: "do_login env lib timeout now md5 (Some salt) name password db = (Payload p, db')"
    and "ac_faults db' = []" "lp_username p \<noteq> []" "\<And>x. md5 x \<noteq> []"
    and "lp_subsonic p = Some (s, t)" "lp_token p = Some tok"
    and subsonic: "from_internal_or_proxy_auth cfg r = []" "hq_query r ''u'' = lp_username p" "hq_query r ''v'' \<noteq> []"
      "hq_query r ''c'' \<noteq> []" "hq_query r ''t'' = t" "hq_query r ''s'' = s" "hq_query r ''p'' = []" "hq_jwt r = None"
    and native: "ca_auto_login cfg = []" "ca_trusted_sources cfg = []" "hq_token r' = jwt_verify lib later tok"
  shows "(\<exists>u db''. subsonic_user cfg env lib md5 later r db' = (Some u, db'') \<and> usr_id u = lp_id p)
    \<and> (if session_current now timeout later
       then \<exists>u db''. authenticator cfg r' db' = (Inr u, db'') \<and> usr_id u = lp_id p
       else authenticator cfg r' db' = (Inl Unauthenticated, db'))"
proof -
  obtain row u tok' where found: "find (\<lambda>u. equal_fold (usr_user_name u) name) (ac_users db) = Some row"
    "u = row\<lparr>usr_password := plain_password env row\<rparr>" "usr_password u = password"
    "create_token lib timeout now (token_user u) = Inr tok'"
    "p = (build_auth_payload md5 (Some salt) u)\<lparr>lp_token := Some tok'\<rparr>"
    "ac_users db' = ac_users db \<or>
      ac_users db' = map (\<lambda>r. if usr_id r = usr_id u then r\<lparr>usr_last_login := Some (ae_now env)\<rparr> else r) (ac_users db)"
    by (rule do_loginE [OF login])
  obtain row' where row': "find (\<lambda>u. equal_fold (usr_user_name u) (usr_user_name row)) (ac_users db') = Some row'"
    "usr_id row' = usr_id row" "usr_user_name row' = usr_user_name row" "usr_password row' = usr_password row"
    by (rule find_after_login [OF found(1,6)])
  have p: "lp_username p = usr_user_name row" "lp_id p = usr_id row" "tok = tok'"
    "s = salt" "t = md5 (plain_password env row @ salt)"
    using found(2,5) assms(10,11) by (auto simp: build_auth_payload_def)
  have by_name: "find_by_username (usr_user_name row) db' = (Inr row', db')"
    using assms(7) row'(1) by (simp add: find_by_username_def run_sql_ok)
  let ?v = "case decrypt_password env row' of Some d \<Rightarrow> d | None \<Rightarrow> row'"
  have v: "find_with_password env (usr_user_name row) db' = (Inr ?v, db')" "usr_id ?v = usr_id row"
    "usr_password ?v = plain_password env row"
    using row' by (simp_all add: find_with_password_def by_name decrypt_password_def plain_password_def split: option.splits)
  have "subsonic_user cfg env lib md5 later r db' = (Some ?v, db')"
    using subsonic assms(8,9) p v
    by (simp add: subsonic_user_def check_required_parameters_def authenticate_def validate_credentials_def)
  moreover have "row \<in> set (ac_users db)" "token_user u = token_user row"
    using found(1,2) by (auto simp: find_Some_iff token_user_def)
  then have user: "user_exact (token_user u)" using assms(2) by simp
  have "if session_current now timeout later
       then \<exists>u db''. authenticator cfg r' db' = (Inr u, db'') \<and> usr_id u = lp_id p
       else authenticator cfg r' db' = (Inl Unauthenticated, db')"
  proof (rule session_tokenE [OF assms(1) user assms(3-5)])
    fix x
    assume x: "create_token lib timeout now (token_user u) = Inr x"
      "\<And>now'. session_current now timeout now' \<Longrightarrow>
         jwt_verify lib now' x = Inr (json_claims (to_map (session_claims (token_user u) now (now + timeout))))"
      "\<And>now'. \<not> session_current now timeout now' \<Longrightarrow> \<exists>err. jwt_verify lib now' x = Inl err"
    have "x = tok"
      using x(1) found(4) p(3) by simp
    have "get_string (json_claims (to_map (session_claims (token_user u) now (now + timeout)))) ''sub'' = Some (usr_user_name row)"
      using assms(8) p(1) found(2)
      by (simp add: getters_json) (simp add: get_string_def to_map_def put_if_apply session_claims_def token_user_def)
    then have "session_current now timeout later \<Longrightarrow> username_from_token r' = usr_user_name row"
      using x(2) native(3) \<open>x = tok\<close> by (simp add: username_from_token_def)
    moreover have "\<not> session_current now timeout later \<Longrightarrow> username_from_token r' = []"
      using x(3) native(3) \<open>x = tok\<close> by (fastforce simp: username_from_token_def)
    ultimately show ?thesis
      using native(1,2) assms(8) p by_name row'(2)
      by (auto simp: authenticator_def authenticate_request_def username_from_ext_auth_header_def)
  qed
  ultimately show ?thesis
    using v(2) p(2) by (intro conjI exI [of _ ?v] exI [of _ db']) simp_all
qed


text \<open>
  Every login is answered as its credentials deserve: with an error 500 when the user cannot be read, 401 and
  no change when there is no such user or the password is another, 500 when the token cannot be signed, and
  otherwise with the id and role of the user; that the time of the login could not be stored is no error.
\<close>

lemma login_answers:
  "case do_login env lib timeout now md5 salt name password db of (answer, db') \<Rightarrow>
     if ac_faults db \<noteq> [] \<and> hd (ac_faults db) then answer = Status 500 \<and> same_tables db db'
     else case find (\<lambda>u. equal_fold (usr_user_name u) name) (ac_users db) of
       None \<Rightarrow> answer = Status 401 \<and> same_tables db db'
     | Some row \<Rightarrow>
         if plain_password env row \<noteq> password then answer = Status 401 \<and> same_tables db db'
         else case create_token lib timeout now (token_user row) of
           Inl e \<Rightarrow> answer = Status 500
         | Inr tok \<Rightarrow> \<exists>p. answer = Payload p \<and> lp_id p = usr_id row \<and> lp_is_admin p = usr_is_admin row \<and> lp_token p = Some tok"
proof -
  obtain ok db1 where s: "run_sql db = (ok, db1)" "ok \<longleftrightarrow> \<not> (ac_faults db \<noteq> [] \<and> hd (ac_faults db))"
    by (cases "ac_faults db") (simp_all add: run_sql_def)
  have t: "ac_users db1 = ac_users db" "same_tables db db1"
    using run_sql_tables [OF s(1)] by (simp_all add: same_tables_def)
  have user: "token_user (row\<lparr>usr_password := w\<rparr>) = token_user row" for row w
    by (simp add: token_user_def)
  show ?thesis
  proof (cases "ok \<and> (\<exists>row. find (\<lambda>u. equal_fold (usr_user_name u) name) (ac_users db) = Some row)")
    case False
    then show ?thesis
      using s t by (auto simp: do_login_def validate_login_def find_with_password_def find_by_username_def)
  next
    case True
    then obtain row where row: "find (\<lambda>u. equal_fold (usr_user_name u) name) (ac_users db) = Some row"
      by blast
    have f: "find_with_password env name db = (Inr (row\<lparr>usr_password := plain_password env row\<rparr>), db1)"
      using True s(1) t(1) row
      by (simp add: find_with_password_def find_by_username_def decrypt_password_def plain_password_def split: option.splits)
    have "(ac_faults db \<noteq> [] \<and> hd (ac_faults db)) = False"
      using True s(2) by simp
    then show ?thesis
      using t(2) row f
      by (auto simp: do_login_def validate_login_def user build_auth_payload_def split: sum.splits)
  qed
qed

section \<open>The first administrator\<close>

lemma no_second_first_admin:
  assumes "ac_users db \<noteq> []"
  shows "fst (create_admin env lib timeout now md5 salt title name password db) \<in> {Status 500, Status 403}
    \<and> same_tables db (snd (create_admin env lib timeout now md5 salt title name password db))"
proof -
  obtain ok db1 where s: "run_sql db = (ok, db1)"
    by fastforce
  then show ?thesis
    using assms run_sql_tables [OF s] by (auto simp: create_admin_def same_tables_def)
qed

section \<open>Sample requests\<close>

definition plain_md5 :: "string \<Rightarrow> string" where
  "plain_md5 s = CHR ''#'' # s"

definition sample_config :: auth_config where
  "sample_config = \<lparr>ca_trusted_sources = [], ca_user_header = ''Remote-User'', ca_auto_login = [], ca_address = ''0.0.0.0''\<rparr>"

definition sample_query :: "(string \<times> string) list \<Rightarrow> 'tok auth_request" where
  "sample_query q = \<lparr>hq_internal = None, hq_proxy_ip = None, hq_header = (\<lambda>_. []),
     hq_query = (\<lambda>k. case map_of q k of Some v \<Rightarrow> v | None \<Rightarrow> []), hq_jwt = None, hq_token = Inl ''no token''\<rparr>"

lemmas auth_run = sample_config_def sample_query_def subsonic_user_def check_required_parameters_def authenticate_def
  from_internal_or_proxy_auth_def internal_auth_def username_from_ext_auth_header_def find_with_password_def
  validate_credentials_def plain_md5_def account_samples account_run

definition bob_query :: "claims auth_request" where
  "bob_query = sample_query [(''u'', ''bob''), (''c'', ''app''), (''v'', ''1.16''), (''t'', ''#pwxy''), (''s'', ''xy'')]"



definition image_token :: claims where
  "image_token = (case create_public_token plain_jwt (public_claims ''al-1'' [] 0) of Inr tok \<Rightarrow> tok | Inl _ \<Rightarrow> Map.empty)"

lemma image_token_public: "public_token plain_jwt image_token"
proof -
  have "create_public_token plain_jwt (public_claims ''al-1'' [] 0) = Inr image_token"
    by (simp add: image_token_def create_public_token_def plain_jwt_def)
  moreover have "public_exact ''al-1'' [] 0" by code_simp
  ultimately show ?thesis
    unfolding public_token_def by blast
qed

lemma public_tokens_are_no_sessions_witness:
  "\<not> validate_credentials plain_jwt plain_md5 0 (sample_user ''2'' ''bob'' False ''pw'') ''pw'' [] [] (Some image_token)"
proof -
  let ?u = "sample_user ''2'' ''bob'' False ''pw''"
  have "usr_user_name ?u \<noteq> []"
    by (simp add: sample_user_def)
  from public_tokens_are_no_sessions [OF plain_jwt_faithful image_token_public this, THEN conjunct1] show ?thesis .
qed

text \<open>
  A user whose stored password does not decrypt, as after a change of the key, is still let in: with the
  stored ciphertext itself as the password.
\<close>

lemma ciphertext_logs_in:
  "map_option usr_id (fst (subsonic_user sample_config (sample_env\<lparr>ae_decrypt := \<lambda>_. None\<rparr>) plain_jwt plain_md5 0
     (sample_query [(''u'', ''bob''), (''c'', ''app''), (''v'', ''1.16''), (''p'', ''*pw'')]) sample_accounts)) = Some ''2''"
  by (simp add: auth_run decode_password_def)

text \<open>
  A new user from the header of the reverse proxy becomes an administrator when the count of the users
  could not be read.
\<close>

lemma failed_count_makes_admin:
  "map (\<lambda>u. (usr_user_name u, usr_is_admin u)) (ac_users (snd (handle_login_from_headers
     (sample_config\<lparr>ca_auto_login := ''eve''\<rparr>) sample_env ''r'' plain_md5 None (sample_query [])
     (sample_accounts\<lparr>ac_faults := [False, True]\<rparr>))))
   = [(''root'', True), (''bob'', False), (''eve'', True)]"
  by (simp add: auth_run handle_login_from_headers_def create_header_user_def blank_user_def blank_row_def
      finish_header_login_def touch_login_def Let_def)


lemma login_credentials_work_witness:
  "\<exists>tok. fst (authenticator sample_config ((sample_query [] :: claims auth_request)\<lparr>hq_token := jwt_verify plain_jwt 1700000001000000000 tok\<rparr>)
     (snd (do_login sample_env plain_jwt (3600 * 10 ^ 9) 1700000000500000000 plain_md5 (Some ''xy'') ''bob'' ''pw'' sample_accounts)))
       \<in> Inr ` {u. usr_id u = ''2''}"
proof -
  let ?now = "1700000000500000000 :: int"
  let ?ttl = "3600 * 10 ^ 9 :: int"
  let ?u = "sample_user ''2'' ''bob'' False ''pw''"
  have times: "0 \<le> unix ?now" "0 \<le> ?ttl" "unix (?now + ?ttl) \<le> max_date"
    by (simp_all add: max_date_def unix_def)
  have users: "\<forall>row \<in> set (ac_users sample_accounts). user_exact (token_user row)" by code_simp
  have user: "user_exact (token_user ?u)" by code_simp
  obtain tok where tok: "create_token plain_jwt ?ttl ?now (token_user ?u) = Inr tok"
    by (rule session_tokenE [OF plain_jwt_faithful user times])
  obtain p db' where login: "do_login sample_env plain_jwt ?ttl ?now plain_md5 (Some ''xy'') ''bob'' ''pw'' sample_accounts = (Payload p, db')"
    "ac_faults db' = []" "p = (build_auth_payload plain_md5 (Some ''xy'') ?u)\<lparr>lp_token := Some tok\<rparr>"
    using tok by (simp add: do_login_def validate_login_def touch_login_def auth_run)
  have p: "lp_username p \<noteq> []" "lp_subsonic p = Some (''xy'', ''#pwxy'')" "lp_token p = Some tok" "lp_id p = ''2''"
    by (simp_all add: login(3) build_auth_payload_def sample_user_def plain_md5_def)
  have "from_internal_or_proxy_auth sample_config bob_query = []" "hq_query bob_query ''u'' = lp_username p"
    "hq_query bob_query ''v'' \<noteq> []" "hq_query bob_query ''c'' \<noteq> []" "hq_query bob_query ''t'' = ''#pwxy''"
    "hq_query bob_query ''s'' = ''xy''" "hq_query bob_query ''p'' = []" "hq_jwt bob_query = None"
    "ca_auto_login sample_config = []" "ca_trusted_sources sample_config = []"
    by (simp_all add: login(3) build_auth_payload_def bob_query_def auth_run)
  from login_credentials_work [OF plain_jwt_faithful users times login(1,2) p(1) _ p(2,3) this(1-10),
      of "(sample_query [] :: claims auth_request)\<lparr>hq_token := jwt_verify plain_jwt 1700000001000000000 tok\<rparr>" 1700000001000000000]
  obtain u db'' where "authenticator sample_config ((sample_query [] :: claims auth_request)\<lparr>hq_token := jwt_verify plain_jwt 1700000001000000000 tok\<rparr>) db'
      = (Inr u, db'')" "usr_id u = ''2''"
    using p(4) by (auto simp: plain_md5_def truncate_second_def session_current_def)
  then show ?thesis
    unfolding login(1) by (intro exI [of _ tok]) (simp add: image_iff)
qed


end
