(* ===== verification/Agents.thy ===== *)
theory Agents
  imports GoStrings MediaFile
begin

text \<open>
  The meta-agent of \<open>core/agents/agents.go\<close>: which metadata agents are enabled, how each is
  obtained, and how a request is passed along the enabled agents until one has an answer. The
  agents themselves talk to remote services or run in plugins: an agent is a record of the
  requests it supports, each an arbitrary function. \<open>first_answer\<close> is the contract of a chain of
  sources that are asked in turn; the matching of songs (theory \<open>SongMatching\<close>) meets it as well.
\<close>

section \<open>Asking sources in turn\<close>

text \<open>
  The contract of a walk along sources that stops at the first one with an answer: what it
  does at the end and at a source, and nothing else.
\<close>

locale first_answer =
  fixes ask :: "'s \<Rightarrow> 'r option" and walk :: "'s list \<Rightarrow> 'r option"
  assumes walk_Nil: "walk [] = None"
    and walk_Cons: "walk (s # ss) = (case ask s of Some r \<Rightarrow> Some r | None \<Rightarrow> walk ss)"
begin

lemma walk_append: "walk (xs @ ys) = (case walk xs of Some r \<Rightarrow> Some r | None \<Rightarrow> walk ys)"
  by (induction xs) (auto simp: walk_Nil walk_Cons split: option.splits)

lemma walk_None: "walk ss = None \<longleftrightarrow> (\<forall>s \<in> set ss. ask s = None)"
  by (induction ss) (auto simp: walk_Nil walk_Cons split: option.splits)

lemma walk_Some:
  "walk ss = Some r \<longleftrightarrow>
     (\<exists>xs s ys. ss = xs @ s # ys \<and> ask s = Some r \<and> (\<forall>x \<in> set xs. ask x = None))"
proof (induction ss)
  case Nil
  then show ?case by (simp add: walk_Nil)
next
  case (Cons s ss)
  show ?case
  proof (cases "ask s")
    case None
    have "(\<exists>xs t ys. s # ss = xs @ t # ys \<and> ask t = Some r \<and> (\<forall>x \<in> set xs. ask x = None))
        \<longleftrightarrow> (\<exists>xs t ys. ss = xs @ t # ys \<and> ask t = Some r \<and> (\<forall>x \<in> set xs. ask x = None))"
      (is "?L \<longleftrightarrow> ?R")
    proof
      assume ?L
      then obtain xs t ys where
        *: "s # ss = xs @ t # ys" "ask t = Some r" "\<forall>x \<in> set xs. ask x = None" by blast
      with None obtain zs where "xs = s # zs" by (cases xs) auto
      with * show ?R by auto
    next
      assume ?R
      then obtain xs t ys where
        *: "ss = xs @ t # ys" "ask t = Some r" "\<forall>x \<in> set xs. ask x = None" by blast
      with None show ?L by (intro exI [of _ "s # xs"] exI [of _ t] exI [of _ ys]) auto
    qed
    with None Cons.IH show ?thesis by (simp add: walk_Cons)
  next
    case (Some r')
    have "(\<exists>xs t ys. s # ss = xs @ t # ys \<and> ask t = Some r \<and> (\<forall>x \<in> set xs. ask x = None))
        \<longleftrightarrow> r' = r"
    proof
      assume "\<exists>xs t ys. s # ss = xs @ t # ys \<and> ask t = Some r \<and> (\<forall>x \<in> set xs. ask x = None)"
      then obtain xs t ys where
        *: "s # ss = xs @ t # ys" "ask t = Some r" "\<forall>x \<in> set xs. ask x = None" by blast
      with Some have "xs = []" by (cases xs) auto
      with * Some show "r' = r" by simp
    next
      assume "r' = r"
      with Some show
        "\<exists>xs t ys. s # ss = xs @ t # ys \<and> ask t = Some r \<and> (\<forall>x \<in> set xs. ask x = None)"
        by (intro exI [of _ "[]"] exI [of _ s] exI [of _ ss]) simp
    qed
    with Some show ?thesis by (simp add: walk_Cons)
  qed
qed

lemma walk_in: "walk ss = Some r \<Longrightarrow> \<exists>s \<in> set ss. ask s = Some r"
  by (auto simp: walk_Some)

lemma walk_filter: "walk (filter (\<lambda>s. ask s \<noteq> None) ss) = walk ss"
  by (induction ss) (auto simp: walk_Nil walk_Cons split: option.splits)

end

section \<open>The enabled agents\<close>

datatype agent_error = Not_found_agent | Agent_error string

record enabled_agent =
  ea_name :: string
  is_plugin :: bool

definition LocalAgentName :: string where
  "LocalAgentName = ''local''"

text \<open>
  The surroundings of the meta-agent: \<open>conf.Server.Agents\<close>, the registered constructors
  (\<open>agents.Map\<close>; a constructor may return no agent when its configuration is incomplete) and
  the plugin loader, which may be absent.
\<close>

record 'ag agents_env =
  conf_agents :: string
  agent_map :: "string \<Rightarrow> 'ag option option"
  plugin_loader :: "(string list \<times> (string \<Rightarrow> 'ag option)) option"

definition available_plugins :: "'ag agents_env \<Rightarrow> string list" where
  "available_plugins env = (case plugin_loader env of None \<Rightarrow> [] | Some (names, _) \<Rightarrow> names)"

definition configured_agents :: "string \<Rightarrow> string list" where
  "configured_agents conf =
     (let names = split_on (CHR '','') conf
      in if LocalAgentName \<in> set names then names else names @ [LocalAgentName])"

fun valid_agents :: "'ag agents_env \<Rightarrow> string list \<Rightarrow> enabled_agent list" where
  "valid_agents env [] = []"
| "valid_agents env (n # ns) =
     (if agent_map env n \<noteq> None then \<lparr>ea_name = n, is_plugin = False\<rparr> # valid_agents env ns
      else if n \<in> set (available_plugins env)
      then \<lparr>ea_name = n, is_plugin = True\<rparr> # valid_agents env ns
      else valid_agents env ns)"

definition get_enabled_agent_names :: "'ag agents_env \<Rightarrow> enabled_agent list" where
  "get_enabled_agent_names env =
     (if conf_agents env = [] then [\<lparr>ea_name = LocalAgentName, is_plugin = False\<rparr>]
      else valid_agents env (configured_agents (conf_agents env)))"

definition get_agent :: "'ag agents_env \<Rightarrow> enabled_agent \<Rightarrow> 'ag option" where
  "get_agent env ea =
     (if is_plugin ea
      then (case plugin_loader env of None \<Rightarrow> None | Some (_, load) \<Rightarrow> load (ea_name ea))
      else (case agent_map env (ea_name ea) of None \<Rightarrow> None | Some ag \<Rightarrow> ag))"

lemma valid_agents_names:
  "map ea_name (valid_agents env ns)
     = filter (\<lambda>n. agent_map env n \<noteq> None \<or> n \<in> set (available_plugins env)) ns"
  by (induction ns) auto

lemma valid_agents_kind:
  "ea \<in> set (valid_agents env ns) \<Longrightarrow> is_plugin ea \<longleftrightarrow> agent_map env (ea_name ea) = None"
  by (induction ns) (auto split: if_splits)

lemma local_agent_configured: "LocalAgentName \<in> set (configured_agents conf)"
  by (simp add: configured_agents_def Let_def)

lemma local_agent_enabled:
  assumes "agent_map env LocalAgentName = Some (Some ag)"
  shows "\<lparr>ea_name = LocalAgentName, is_plugin = False\<rparr> \<in> set (get_enabled_agent_names env)"
proof -
  have "\<lparr>ea_name = LocalAgentName, is_plugin = False\<rparr> \<in> set (valid_agents env ns)"
    if "LocalAgentName \<in> set ns" for ns
    using that assms by (induction ns) auto
  then show ?thesis
    by (simp add: get_enabled_agent_names_def local_agent_configured)
qed

section \<open>Passing a request along\<close>

text \<open>
  \<open>callAgentMethod\<close> and \<open>callAgentSliceMethod\<close>. The context may be cancelled while the loop
  runs: \<open>ctx_done i\<close> says whether it is when the loop is at the \<open>i\<close>-th enabled agent. An agent
  that cannot be obtained is passed over before that test.
\<close>

fun call_loop ::
  "(nat \<Rightarrow> bool) \<Rightarrow> ('r \<Rightarrow> bool) \<Rightarrow> ('ag \<Rightarrow> agent_error + 'r) \<Rightarrow> nat \<Rightarrow> 'ag option list \<Rightarrow> 'r option"
where
  "call_loop ctx_done blank f i [] = None"
| "call_loop ctx_done blank f i (None # ags) = call_loop ctx_done blank f (Suc i) ags"
| "call_loop ctx_done blank f i (Some ag # ags) =
     (if ctx_done i then None
      else (case f ag of
              Inl _ \<Rightarrow> call_loop ctx_done blank f (Suc i) ags
            | Inr r \<Rightarrow> if blank r then call_loop ctx_done blank f (Suc i) ags else Some r))"

definition enabled_agents :: "'ag agents_env \<Rightarrow> 'ag option list" where
  "enabled_agents env = map (get_agent env) (get_enabled_agent_names env)"

definition call_agent_method ::
  "'ag agents_env \<Rightarrow> (nat \<Rightarrow> bool) \<Rightarrow> 'r \<Rightarrow> ('ag \<Rightarrow> agent_error + 'r) \<Rightarrow> agent_error + 'r" where
  "call_agent_method env ctx_done zero f =
     (case call_loop ctx_done (\<lambda>r. r = zero) f 0 (enabled_agents env) of
        Some r \<Rightarrow> Inr r
      | None \<Rightarrow> Inl Not_found_agent)"

definition call_agent_slice_method ::
  "'ag agents_env \<Rightarrow> (nat \<Rightarrow> bool) \<Rightarrow> ('ag \<Rightarrow> agent_error + 'r list) \<Rightarrow> agent_error + 'r list" where
  "call_agent_slice_method env ctx_done f =
     (case call_loop ctx_done (\<lambda>rs. rs = []) f 0 (enabled_agents env) of
        Some rs \<Rightarrow> Inr rs
      | None \<Rightarrow> Inl Not_found_agent)"

text \<open>A context that is done stays done.\<close>

definition ctx_monotone :: "(nat \<Rightarrow> bool) \<Rightarrow> bool" where
  "ctx_monotone ctx_done \<longleftrightarrow> (\<forall>i j. i \<le> j \<longrightarrow> ctx_done i \<longrightarrow> ctx_done j)"

lemma ctx_monotoneD: "ctx_monotone ctx_done \<Longrightarrow> ctx_done i \<Longrightarrow> i \<le> j \<Longrightarrow> ctx_done j"
  unfolding ctx_monotone_def by blast

text \<open>What one position of the list of enabled agents contributes.\<close>

definition agent_answer ::
  "(nat \<Rightarrow> bool) \<Rightarrow> ('r \<Rightarrow> bool) \<Rightarrow> ('ag \<Rightarrow> agent_error + 'r) \<Rightarrow> nat \<times> 'ag option \<Rightarrow> 'r option" where
  "agent_answer ctx_done blank f p =
     (case p of
        (i, None) \<Rightarrow> None
      | (i, Some ag) \<Rightarrow>
          if ctx_done i then None
          else (case f ag of Inl _ \<Rightarrow> None | Inr r \<Rightarrow> if blank r then None else Some r))"

lemma agent_answer_simps [simp]:
  "agent_answer ctx_done blank f (i, None) = None"
  "agent_answer ctx_done blank f (i, Some ag) =
     (if ctx_done i then None
      else (case f ag of Inl _ \<Rightarrow> None | Inr r \<Rightarrow> if blank r then None else Some r))"
  by (simp_all add: agent_answer_def)

text \<open>The reference walk: a fold over the numbered agents, with no early exit.\<close>

fun first_some :: "('s \<Rightarrow> 'r option) \<Rightarrow> 's list \<Rightarrow> 'r option" where
  "first_some ask [] = None"
| "first_some ask (s # ss) = (case ask s of Some r \<Rightarrow> Some r | None \<Rightarrow> first_some ask ss)"

interpretation agents: first_answer
  "agent_answer ctx_done blank f" "first_some (agent_answer ctx_done blank f)"
  for ctx_done blank f
  by unfold_locales (auto split: option.splits)

lemma done_no_answer:
  assumes "ctx_monotone ctx_done" "ctx_done i"
  shows "first_some (agent_answer ctx_done blank f) (enumerate i ags) = None"
  using assms(2)
proof (induction ags arbitrary: i)
  case (Cons ag ags)
  have "ctx_done (Suc i)" using ctx_monotoneD [OF assms(1) Cons.prems] by simp
  with Cons show ?case by (cases ag) (auto split: option.splits)
qed simp

lemma call_loop_first_some:
  assumes "ctx_monotone ctx_done"
  shows "call_loop ctx_done blank f i ags = first_some (agent_answer ctx_done blank f) (enumerate i ags)"
proof (induction ags arbitrary: i)
  case (Cons ag ags)
  show ?case
  proof (cases ag)
    case (Some a)
    have "first_some (agent_answer ctx_done blank f) (enumerate (Suc i) ags) = None" if "ctx_done i"
      using ctx_monotoneD [OF assms that] assms by (intro done_no_answer) simp_all
    with Some Cons show ?thesis by (cases "f a") auto
  qed (use Cons in simp)
qed simp

section \<open>The requests\<close>

record album_info =
  ai_name :: string
  ai_mbid :: string
  ai_description :: string
  ai_url :: string

record agent_artist =
  aa_id :: string
  aa_name :: string
  aa_mbid :: string

record external_image =
  img_url :: string
  img_size :: int

record agent_song =
  as_id :: string
  as_name :: string
  as_mbid :: string
  as_isrc :: string
  as_artist :: string
  as_artist_mbid :: string
  as_album :: string
  as_album_mbid :: string
  as_duration :: "32 word"

text \<open>
  An agent: for each retriever interface either nothing (the agent does not implement it) or
  the function. The arguments are those of the Go interfaces: id, name, (artist,) mbid, count.
\<close>

type_synonym 'r by_artist = "string \<Rightarrow> string \<Rightarrow> string \<Rightarrow> agent_error + 'r"
type_synonym 'r by_artist_count = "string \<Rightarrow> string \<Rightarrow> string \<Rightarrow> int \<Rightarrow> agent_error + 'r"
type_synonym 'r by_song_count =
  "string \<Rightarrow> string \<Rightarrow> string \<Rightarrow> string \<Rightarrow> int \<Rightarrow> agent_error + 'r"

record agent =
  artist_mbid_of :: "(string \<Rightarrow> string \<Rightarrow> agent_error + string) option"
  artist_url_of :: "string by_artist option"
  artist_biography_of :: "string by_artist option"
  similar_artists_of :: "agent_artist list by_artist_count option"
  artist_images_of :: "external_image list by_artist option"
  top_songs_of :: "agent_song list by_artist_count option"
  album_info_of :: "album_info option by_artist option"
  album_images_of :: "external_image list by_artist option"
  similar_by_track_of :: "agent_song list by_song_count option"
  similar_by_album_of :: "agent_song list by_song_count option"
  similar_by_artist_of :: "agent_song list by_artist_count option"

type_synonym env = "agent agents_env"

text \<open>
  The identifiers the code treats specially. \<open>UnknownArtistID\<close> is a hash computed when the
  program starts, so it is an argument.
\<close>

definition VariousArtistsID :: string where
  "VariousArtistsID = ''63sqASlAfjbGMuLP4JhnZU''"

definition UnknownAlbum :: string where
  "UnknownAlbum = ''[Unknown Album]''"

definition artist_guard :: "string \<Rightarrow> string \<Rightarrow> 'r \<Rightarrow> agent_error + 'r \<Rightarrow> agent_error + 'r" where
  "artist_guard unknown aid zero rest =
     (if aid = unknown then Inl Not_found_agent
      else if aid = VariousArtistsID then Inr zero
      else rest)"

definition album_guard :: "string \<Rightarrow> agent_error + 'r \<Rightarrow> agent_error + 'r" where
  "album_guard name rest = (if name = UnknownAlbum then Inl Not_found_agent else rest)"

text \<open>The type assertion on the agent: one that lacks the interface answers \<open>ErrNotFound\<close>.\<close>

definition ask_agent :: "('ag \<Rightarrow> 'f option) \<Rightarrow> ('f \<Rightarrow> agent_error + 'r) \<Rightarrow> 'ag \<Rightarrow> agent_error + 'r" where
  "ask_agent sel call ag = (case sel ag of None \<Rightarrow> Inl Not_found_agent | Some f \<Rightarrow> call f)"

text \<open>
  \<open>int(float64(limit) * multiplier)\<close>: the product is exact here, the conversion truncates
  toward zero.
\<close>

definition over_limit :: "rat \<Rightarrow> int \<Rightarrow> int" where
  "over_limit mult n = float_to_int (of_int n * mult)"

definition agents_artist_mbid ::
  "env \<Rightarrow> string \<Rightarrow> (nat \<Rightarrow> bool) \<Rightarrow> string \<Rightarrow> string \<Rightarrow> agent_error + string" where
  "agents_artist_mbid env unknown dn aid name =
     artist_guard unknown aid []
       (call_agent_method env dn [] (ask_agent artist_mbid_of (\<lambda>f. f aid name)))"

definition agents_artist_url ::
  "env \<Rightarrow> string \<Rightarrow> (nat \<Rightarrow> bool) \<Rightarrow> string \<Rightarrow> string \<Rightarrow> string \<Rightarrow> agent_error + string" where
  "agents_artist_url env unknown dn aid name mbid =
     artist_guard unknown aid []
       (call_agent_method env dn [] (ask_agent artist_url_of (\<lambda>f. f aid name mbid)))"

definition agents_artist_biography ::
  "env \<Rightarrow> string \<Rightarrow> (nat \<Rightarrow> bool) \<Rightarrow> string \<Rightarrow> string \<Rightarrow> string \<Rightarrow> agent_error + string" where
  "agents_artist_biography env unknown dn aid name mbid =
     artist_guard unknown aid []
       (call_agent_method env dn [] (ask_agent artist_biography_of (\<lambda>f. f aid name mbid)))"

text \<open>
  \<open>GetSimilarArtists\<close> has a loop of its own; an agent that does not implement the interface is
  passed over after the test of the context, as an agent that answers with an error is.
\<close>

fun similar_artists_loop ::
  "(nat \<Rightarrow> bool) \<Rightarrow> string \<Rightarrow> string \<Rightarrow> string \<Rightarrow> int \<Rightarrow> nat \<Rightarrow> agent option list
     \<Rightarrow> agent_error + agent_artist list"
where
  "similar_artists_loop dn aid name mbid n i [] = Inl Not_found_agent"
| "similar_artists_loop dn aid name mbid n i (None # ags) =
     similar_artists_loop dn aid name mbid n (Suc i) ags"
| "similar_artists_loop dn aid name mbid n i (Some ag # ags) =
     (if dn i then Inl Not_found_agent
      else (case similar_artists_of ag of
              None \<Rightarrow> similar_artists_loop dn aid name mbid n (Suc i) ags
            | Some f \<Rightarrow>
                (case f aid name mbid n of
                   Inl _ \<Rightarrow> similar_artists_loop dn aid name mbid n (Suc i) ags
                 | Inr rs \<Rightarrow> if rs \<noteq> [] then Inr rs
                             else similar_artists_loop dn aid name mbid n (Suc i) ags)))"

definition agents_similar_artists ::
  "env \<Rightarrow> string \<Rightarrow> rat \<Rightarrow> (nat \<Rightarrow> bool) \<Rightarrow> string \<Rightarrow> string \<Rightarrow> string \<Rightarrow> int
     \<Rightarrow> agent_error + agent_artist list" where
  "agents_similar_artists env unknown mult dn aid name mbid n =
     artist_guard unknown aid []
       (similar_artists_loop dn aid name mbid (over_limit mult n) 0 (enabled_agents env))"

definition agents_artist_images ::
  "env \<Rightarrow> string \<Rightarrow> (nat \<Rightarrow> bool) \<Rightarrow> string \<Rightarrow> string \<Rightarrow> string
     \<Rightarrow> agent_error + external_image list" where
  "agents_artist_images env unknown dn aid name mbid =
     artist_guard unknown aid []
       (call_agent_slice_method env dn (ask_agent artist_images_of (\<lambda>f. f aid name mbid)))"

definition agents_top_songs ::
  "env \<Rightarrow> string \<Rightarrow> rat \<Rightarrow> (nat \<Rightarrow> bool) \<Rightarrow> string \<Rightarrow> string \<Rightarrow> string \<Rightarrow> int
     \<Rightarrow> agent_error + agent_song list" where
  "agents_top_songs env unknown mult dn aid name mbid n =
     artist_guard unknown aid []
       (call_agent_slice_method env dn
          (ask_agent top_songs_of (\<lambda>f. f aid name mbid (over_limit mult n))))"

definition agents_album_info ::
  "env \<Rightarrow> (nat \<Rightarrow> bool) \<Rightarrow> string \<Rightarrow> string \<Rightarrow> string \<Rightarrow> agent_error + album_info option" where
  "agents_album_info env dn name artist mbid =
     album_guard name
       (call_agent_method env dn None (ask_agent album_info_of (\<lambda>f. f name artist mbid)))"

definition agents_album_images ::
  "env \<Rightarrow> (nat \<Rightarrow> bool) \<Rightarrow> string \<Rightarrow> string \<Rightarrow> string \<Rightarrow> agent_error + external_image list" where
  "agents_album_images env dn name artist mbid =
     album_guard name
       (call_agent_slice_method env dn (ask_agent album_images_of (\<lambda>f. f name artist mbid)))"

definition agents_similar_by_track ::
  "env \<Rightarrow> (nat \<Rightarrow> bool) \<Rightarrow> string \<Rightarrow> string \<Rightarrow> string \<Rightarrow> string \<Rightarrow> int
     \<Rightarrow> agent_error + agent_song list" where
  "agents_similar_by_track env dn sid name artist mbid n =
     call_agent_slice_method env dn (ask_agent similar_by_track_of (\<lambda>f. f sid name artist mbid n))"

definition agents_similar_by_album ::
  "env \<Rightarrow> (nat \<Rightarrow> bool) \<Rightarrow> string \<Rightarrow> string \<Rightarrow> string \<Rightarrow> string \<Rightarrow> int
     \<Rightarrow> agent_error + agent_song list" where
  "agents_similar_by_album env dn sid name artist mbid n =
     call_agent_slice_method env dn (ask_agent similar_by_album_of (\<lambda>f. f sid name artist mbid n))"

definition agents_similar_by_artist ::
  "env \<Rightarrow> string \<Rightarrow> (nat \<Rightarrow> bool) \<Rightarrow> string \<Rightarrow> string \<Rightarrow> string \<Rightarrow> int
     \<Rightarrow> agent_error + agent_song list" where
  "agents_similar_by_artist env unknown dn aid name mbid n =
     artist_guard unknown aid []
       (call_agent_slice_method env dn
          (ask_agent similar_by_artist_of (\<lambda>f. f aid name mbid n)))"

text \<open>The one loop and the other agree.\<close>

lemma similar_artists_loop_call:
  "similar_artists_loop dn aid name mbid n i ags =
     (case call_loop dn (\<lambda>rs. rs = [])
             (ask_agent similar_artists_of (\<lambda>f. f aid name mbid n)) i ags of
        Some rs \<Rightarrow> Inr rs
      | None \<Rightarrow> Inl Not_found_agent)"
proof (induction ags arbitrary: i)
  case (Cons ag ags)
  then show ?case by (cases ag) (auto simp: ask_agent_def split: option.split sum.split)
qed simp

section \<open>The first agent with an answer\<close>

lemma first_some_enumerate:
  "first_some (agent_answer ctx_done blank f) (enumerate k ags) = Some r \<longleftrightarrow>
     (\<exists>i < length ags. agent_answer ctx_done blank f (k + i, ags ! i) = Some r \<and>
        (\<forall>j < i. agent_answer ctx_done blank f (k + j, ags ! j) = None))"
proof (induction ags arbitrary: k)
  case (Cons a ags)
  have ex: "(\<exists>i < Suc n. P i) \<longleftrightarrow> P 0 \<or> (\<exists>i < n. P (Suc i))" for n and P :: "nat \<Rightarrow> bool"
    using less_Suc_eq_0_disj by auto
  have all: "(\<forall>j < Suc n. P j) \<longleftrightarrow> P 0 \<and> (\<forall>j < n. P (Suc j))" for n and P :: "nat \<Rightarrow> bool"
    using less_Suc_eq_0_disj by auto
  show ?case
    by (auto simp: ex all Cons.IH split: option.split)
qed simp

text \<open>The agent at a position of the enabled agents answers a list request.\<close>

definition answers_at ::
  "'ag option list \<Rightarrow> (nat \<Rightarrow> bool) \<Rightarrow> ('ag \<Rightarrow> agent_error + 'r list) \<Rightarrow> nat \<Rightarrow> 'r list \<Rightarrow> bool" where
  "answers_at ags ctx_done f i rs \<longleftrightarrow>
     i < length ags \<and> \<not> ctx_done i \<and> rs \<noteq> [] \<and>
     (case ags ! i of None \<Rightarrow> False | Some ag \<Rightarrow> f ag = Inr rs)"

lemma answers_at_iff:
  "i < length ags \<Longrightarrow>
   agent_answer ctx_done (\<lambda>rs. rs = []) f (i, ags ! i) = Some rs \<longleftrightarrow> answers_at ags ctx_done f i rs"
  by (auto simp: answers_at_def agent_answer_def split: option.split sum.split)

lemma slice_method_first:
  assumes "ctx_monotone ctx_done"
  shows "call_agent_slice_method env ctx_done f = Inr rs \<longleftrightarrow>
     (\<exists>i. answers_at (enabled_agents env) ctx_done f i rs \<and>
        (\<forall>j < i. \<forall>rs'. \<not> answers_at (enabled_agents env) ctx_done f j rs'))"
proof -
  let ?ags = "enabled_agents env"
  let ?a = "agent_answer ctx_done (\<lambda>rs. rs = []) f"
  have none: "?a (j, ?ags ! j) = None \<longleftrightarrow> (\<forall>rs'. \<not> answers_at ?ags ctx_done f j rs')"
    if "j < length ?ags" for j
    using answers_at_iff [OF that, of ctx_done f] by (metis not_None_eq)
  have "call_agent_slice_method env ctx_done f = Inr rs \<longleftrightarrow>
      first_some ?a (enumerate 0 ?ags) = Some rs"
    by (simp add: call_agent_slice_method_def call_loop_first_some [OF assms] split: option.split)
  also have "\<dots> \<longleftrightarrow> (\<exists>i < length ?ags. ?a (i, ?ags ! i) = Some rs \<and>
      (\<forall>j < i. ?a (j, ?ags ! j) = None))"
    using first_some_enumerate [of ctx_done "\<lambda>rs. rs = []" f 0 ?ags rs] by simp
  also have "\<dots> \<longleftrightarrow> (\<exists>i. answers_at ?ags ctx_done f i rs \<and>
      (\<forall>j < i. \<forall>rs'. \<not> answers_at ?ags ctx_done f j rs'))"
  proof -
    have "i < length ?ags \<and> ?a (i, ?ags ! i) = Some rs \<and> (\<forall>j < i. ?a (j, ?ags ! j) = None) \<longleftrightarrow>
        answers_at ?ags ctx_done f i rs \<and> (\<forall>j < i. \<forall>rs'. \<not> answers_at ?ags ctx_done f j rs')" for i
    proof (cases "i < length ?ags")
      case True
      then have "j < length ?ags" if "j < i" for j using that by simp
      with True none show ?thesis by (simp add: answers_at_iff)
    qed (simp add: answers_at_def)
    then show ?thesis by blast
  qed
  finally show ?thesis .
qed

definition ask_top_songs ::
  "string \<Rightarrow> string \<Rightarrow> string \<Rightarrow> int \<Rightarrow> agent \<Rightarrow> agent_error + agent_song list" where
  "ask_top_songs aid name mbid n = ask_agent top_songs_of (\<lambda>g. g aid name mbid n)"

text \<open>
  Top songs of an artist that is neither the unknown nor the various artist come from the
  first enabled agent that answers: the result is a list of songs exactly when some agent, in
  the configured order and before the context was done, answers the enlarged limit with that
  list, which is not empty, while every agent before it is unavailable, does not support the
  request, fails or answers with nothing; and when there is no such agent the request is
  answered \<open>not found\<close>.
\<close>

lemma top_songs_from_first_agent:
  assumes "ctx_monotone ctx_done" "aid \<noteq> unknown" "aid \<noteq> VariousArtistsID"
  shows "(agents_top_songs env unknown mult ctx_done aid name mbid n = Inr rs \<longleftrightarrow>
      (\<exists>i. answers_at (enabled_agents env) ctx_done (ask_top_songs aid name mbid (over_limit mult n)) i rs \<and>
         (\<forall>j < i. \<forall>rs'. \<not> answers_at (enabled_agents env) ctx_done (ask_top_songs aid name mbid (over_limit mult n)) j rs'))) \<and>
    (agents_top_songs env unknown mult ctx_done aid name mbid n = Inl Not_found_agent \<longleftrightarrow>
      (\<nexists>i rs'. answers_at (enabled_agents env) ctx_done (ask_top_songs aid name mbid (over_limit mult n)) i rs'))"
proof -
  let ?f = "ask_top_songs aid name mbid (over_limit mult n)"
  let ?ans = "\<lambda>i rs. answers_at (enabled_agents env) ctx_done ?f i rs"
  have top: "agents_top_songs env unknown mult ctx_done aid name mbid n
      = call_agent_slice_method env ctx_done ?f"
    using assms(2,3) by (simp add: agents_top_songs_def artist_guard_def ask_top_songs_def)
  have cases: "call_agent_slice_method env ctx_done ?f = Inl Not_found_agent \<longleftrightarrow>
      (\<nexists>rs'. call_agent_slice_method env ctx_done ?f = Inr rs')"
    by (auto simp: call_agent_slice_method_def split: option.split)
  have "(\<exists>rs' i. ?ans i rs' \<and> (\<forall>j < i. \<forall>rs'. \<not> ?ans j rs')) \<longleftrightarrow> (\<exists>i rs'. ?ans i rs')"
  proof
    assume "\<exists>i rs'. ?ans i rs'"
    then have "\<exists>rs'. ?ans (LEAST i. \<exists>rs'. ?ans i rs') rs'" by (rule LeastI_ex)
    moreover have "\<forall>j < (LEAST i. \<exists>rs'. ?ans i rs'). \<forall>rs'. \<not> ?ans j rs'"
      using not_less_Least by blast
    ultimately show "\<exists>rs' i. ?ans i rs' \<and> (\<forall>j < i. \<forall>rs'. \<not> ?ans j rs')" by blast
  qed blast
  then show ?thesis
    unfolding top cases slice_method_first [OF assms(1)] by blast
qed

definition silent_agent :: agent where
  "silent_agent =
     \<lparr>artist_mbid_of = None, artist_url_of = None, artist_biography_of = None,
      similar_artists_of = None, artist_images_of = None, top_songs_of = None,
      album_info_of = None, album_images_of = None, similar_by_track_of = None,
      similar_by_album_of = None, similar_by_artist_of = None\<rparr>"

definition one_song :: agent_song where
  "one_song = \<lparr>as_id = [], as_name = ''Song'', as_mbid = [], as_isrc = [], as_artist = [],
     as_artist_mbid = [], as_album = [], as_album_mbid = [], as_duration = 0\<rparr>"

definition demo_env :: env where
  "demo_env =
     \<lparr>conf_agents = ''lastfm,spotify'',
      agent_map = [''lastfm'' \<mapsto> Some (silent_agent\<lparr>top_songs_of := Some (\<lambda>_ _ _ _. Inl (Agent_error ''timeout''))\<rparr>),
                   ''spotify'' \<mapsto> None,
                   LocalAgentName \<mapsto> Some (silent_agent\<lparr>top_songs_of := Some (\<lambda>_ _ _ _. Inr [one_song])\<rparr>)],
      plugin_loader = None\<rparr>"

lemma top_songs_from_first_agent_witness:
  "agents_top_songs demo_env ''u'' 2 (\<lambda>_. False) ''a'' ''A'' [] 5 = Inr [one_song]"
proof -
  have e: "enabled_agents demo_env =
      [Some (silent_agent\<lparr>top_songs_of := Some (\<lambda>_ _ _ _. Inl (Agent_error ''timeout''))\<rparr>), None,
       Some (silent_agent\<lparr>top_songs_of := Some (\<lambda>_ _ _ _. Inr [one_song])\<rparr>)]"
    by (simp add: enabled_agents_def get_enabled_agent_names_def demo_env_def configured_agents_def
        LocalAgentName_def available_plugins_def get_agent_def)
  let ?f = "ask_top_songs ''a'' ''A'' [] (over_limit 2 5)"
  have "answers_at (enabled_agents demo_env) (\<lambda>_. False) ?f 2 [one_song]"
    by (simp add: e answers_at_def ask_agent_def ask_top_songs_def)
  moreover have "\<not> answers_at (enabled_agents demo_env) (\<lambda>_. False) ?f j rs'" if "j < 2" for j rs'
    using that by (auto simp: e answers_at_def ask_agent_def ask_top_songs_def less_2_cases_iff)
  ultimately have "\<exists>i. answers_at (enabled_agents demo_env) (\<lambda>_. False) ?f i [one_song] \<and>
      (\<forall>j < i. \<forall>rs'. \<not> answers_at (enabled_agents demo_env) (\<lambda>_. False) ?f j rs')"
    by blast
  with top_songs_from_first_agent [of "\<lambda>_. False" "''a''" "''u''" demo_env 2 "''A''" "[]" 5 "[one_song]"]
  show ?thesis by (simp add: ctx_monotone_def VariousArtistsID_def)
qed

end
