(* ===== verification/StrUtils.thy ===== *)
theory StrUtils
  imports GoStrings "HOL-Library.Sublist"
begin

text \<open>
  The string helpers of \<open>utils/str/str.go\<close> and \<open>utils/str/sanitize_strings.go\<close>: replacing
  typographic quotes and dashes, the normalised forms used for sorting and matching, and the longest
  common prefix. Strings are UTF-8 byte lists. The
  removal of accents is done by a third-party package and is the argument \<open>accents\<close>.
\<close>

section \<open>Clear\<close>

text \<open>The UTF-8 bytes of the runes that \<open>Clear\<close> replaces, each with its ASCII stand-in.\<close>

definition utf8_bytes :: "nat list \<Rightarrow> string" where
  "utf8_bytes ns = map char_of ns"

definition utf8_to_ascii :: "(string \<times> string) list" where
  "utf8_to_ascii =
     map (\<lambda>b. (utf8_bytes b, [sq]))
       [[0xE2, 0x80, 0x98], [0xE2, 0x80, 0x99], [0xE2, 0x80, 0x9B], [0xE2, 0x80, 0xB2]]
     @ map (\<lambda>b. (utf8_bytes b, [dq]))
       [[0xEF, 0xBC, 0x82], [0xE3, 0x80, 0x83], [0xCB, 0xAE], [0xD7, 0xB2], [0xE1, 0xB3, 0x93],
        [0xE2, 0x80, 0xB3], [0xE2, 0x80, 0xB6], [0xCB, 0xB6], [0xCA, 0xBA], [0xE2, 0x80, 0x9C],
        [0xE2, 0x80, 0x9D], [0xCB, 0x9D], [0xE2, 0x80, 0x9F]]
     @ map (\<lambda>b. (utf8_bytes b, ''-''))
       [[0xE2, 0x80, 0x90], [0xE2, 0x80, 0x93], [0xE2, 0x80, 0x94], [0xE2, 0x88, 0x92],
        [0xE2, 0x80, 0x95]]"

text \<open>\<open>strings.NewReplacer\<close>: at each position the first pattern that matches is replaced.\<close>

fun match_at :: "(string \<times> string) list \<Rightarrow> string \<Rightarrow> (string \<times> string) option" where
  "match_at [] s = None"
| "match_at ((old, new) # t) s = (if has_prefix s old then Some (old, new) else match_at t s)"

function replacer :: "(string \<times> string) list \<Rightarrow> string \<Rightarrow> string" where
  "replacer t [] = []"
| "replacer t (c # cs) =
     (case match_at t (c # cs) of
        Some (old, new) \<Rightarrow>
          if old = [] then c # replacer t cs else new @ replacer t (drop (length old) (c # cs))
      | None \<Rightarrow> c # replacer t cs)"
  by pat_completeness auto
termination
  by (relation "measure (\<lambda>(t, s). length s)") (auto simp: neq_Nil_conv)

definition clear_str :: "string \<Rightarrow> string" where
  "clear_str s = replacer utf8_to_ascii s"

lemma match_at_prefix: "match_at t s = Some (old, new) \<Longrightarrow> (old, new) \<in> set t \<and> has_prefix s old"
  by (induction t s rule: match_at.induct) (auto split: if_splits)

lemma utf8_to_ascii_head:
  assumes "(old, new) \<in> set utf8_to_ascii"
  shows "old \<noteq> []" "127 < byte (hd old)"
  using assms by (auto simp: utf8_to_ascii_def utf8_bytes_def byte_def of_char_of)

text \<open>An ASCII string is left as it is.\<close>

lemma clear_ascii: "\<forall>c \<in> set s. byte c \<le> 127 \<Longrightarrow> clear_str s = s"
  unfolding clear_str_def
proof (induction s)
  case (Cons c s)
  have "match_at utf8_to_ascii (c # s) = None"
  proof (rule ccontr)
    assume "match_at utf8_to_ascii (c # s) \<noteq> None"
    then obtain old new where "match_at utf8_to_ascii (c # s) = Some (old, new)" by auto
    from match_at_prefix [OF this] utf8_to_ascii_head [of old new] Cons.prems
    show False by (cases old) auto
  qed
  with Cons show ?case by simp
qed simp

section \<open>Normalised fields\<close>

definition trim_prefix :: "string \<Rightarrow> string \<Rightarrow> string" where
  "trim_prefix s p = (if has_prefix s p then drop (length p) s else s)"

text \<open>\<open>RemoveArticle\<close>: the ignored articles are words separated by single spaces.\<close>

fun remove_first_article :: "string list \<Rightarrow> string \<Rightarrow> string" where
  "remove_first_article [] name = name"
| "remove_first_article (a # as) name =
     (let n = trim_prefix name (a @ '' '') in
      if n \<noteq> name then n else remove_first_article as name)"

definition remove_article :: "string \<Rightarrow> string \<Rightarrow> string" where
  "remove_article ignored name = remove_first_article (split_on (CHR '' '') ignored) name"

definition sanitize_field_for_sorting :: "(string \<Rightarrow> string) \<Rightarrow> string \<Rightarrow> string" where
  "sanitize_field_for_sorting accents v = clear_str (to_lower (trim_space (accents v)))"

definition sanitize_field_no_article :: "(string \<Rightarrow> string) \<Rightarrow> string \<Rightarrow> string \<Rightarrow> string" where
  "sanitize_field_no_article accents ignored v =
     clear_str (to_lower (trim_space (remove_article ignored (trim_space (accents v)))))"

lemma remove_first_article_suffix: "\<exists>p. name = p @ remove_first_article as name"
proof (induction as)
  case (Cons a as)
  have "\<exists>p. name = p @ trim_prefix name (a @ '' '')"
    by (auto simp: trim_prefix_def has_prefix_append)
  with Cons show ?case by (auto simp: Let_def)
qed simp

section \<open>The longest common prefix\<close>

definition mismatch :: "nat \<Rightarrow> char \<Rightarrow> string \<Rightarrow> bool" where
  "mismatch l c s \<longleftrightarrow> length s \<le> l \<or> s ! l \<noteq> c"

function lcp_from :: "nat \<Rightarrow> string \<Rightarrow> string list \<Rightarrow> string" where
  "lcp_from l first others =
     (if l < length first
      then (case find (mismatch l (first ! l)) others of
              Some s \<Rightarrow> take l s
            | None \<Rightarrow> lcp_from (Suc l) first others)
      else first)"
  by pat_completeness auto
termination
  by (relation "measure (\<lambda>(l, first, others). length first - l)") auto

declare lcp_from.simps [simp del]

fun longest_common_prefix_of :: "string list \<Rightarrow> string" where
  "longest_common_prefix_of [] = []"
| "longest_common_prefix_of (s # ss) = lcp_from 0 s ss"

lemma prefix_iff_take: "prefix p s \<longleftrightarrow> take (length p) s = p"
  by (auto simp: prefix_def) (metis append_take_drop_id)

lemma mismatch_not_prefix:
  assumes "mismatch l (first ! l) s" "l < length first" "prefix q first" "prefix q s"
  shows "length q \<le> l"
proof (rule ccontr)
  assume "\<not> length q \<le> l"
  then have l: "l < length q" by simp
  with assms(3,4) have "first ! l = q ! l" "s ! l = q ! l" "l < length s"
    by (auto simp: prefix_def nth_append)
  with assms(1) show False by (simp add: mismatch_def)
qed

lemma lcp_from_spec:
  assumes "l \<le> length first" "\<forall>s \<in> set others. prefix (take l first) s"
  shows "(\<forall>s \<in> insert first (set others). prefix (lcp_from l first others) s)
         \<and> (\<forall>q. (\<forall>s \<in> insert first (set others). prefix q s)
                \<longrightarrow> length q \<le> length (lcp_from l first others))"
  using assms
proof (induction l first others rule: lcp_from.induct)
  case (1 l first others)
  show ?case
  proof (cases "l < length first")
    case False
    then have "lcp_from l first others = first" by (simp add: lcp_from.simps)
    with 1 False show ?thesis by (auto simp: prefix_length_le)
  next
    case True
    show ?thesis
    proof (cases "find (mismatch l (first ! l)) others")
      case None
      have "prefix (take (Suc l) first) s" if "s \<in> set others" for s
      proof -
        from that 1(3) have p: "prefix (take l first) s" by blast
        from None that have "\<not> mismatch l (first ! l) s" by (auto simp: find_None_iff)
        with p True show ?thesis
          by (auto simp: mismatch_def prefix_iff_take take_Suc_conv_app_nth min_def)
      qed
      with 1(1) [OF True None] True show ?thesis
        using None by (subst (1 2) lcp_from.simps) simp
    next
      case (Some s)
      then have s: "s \<in> set others" "mismatch l (first ! l) s"
        by (auto simp: find_Some_iff)
      from s(1) 1(3) True have t: "take l s = take l first"
        by (auto simp: prefix_iff_take min_def)
      with Some True have eq: "lcp_from l first others = take l first"
        by (simp add: lcp_from.simps)
      moreover have "length (take l first) = l" using True by simp
      ultimately show ?thesis
        using 1(3) mismatch_not_prefix [OF s(2) True] s(1) by (auto simp: take_is_prefix)
    qed
  qed
qed

lemma longest_common_prefix_reference:
  assumes "ss \<noteq> []"
  shows "longest_common_prefix_of ss = Longest_common_prefix (set ss)"
proof -
  from assms obtain s rest where ss: "ss = s # rest" by (cases ss) auto
  have spec: "(\<forall>x \<in> insert s (set rest). prefix (lcp_from 0 s rest) x)
      \<and> (\<forall>q. (\<forall>x \<in> insert s (set rest). prefix q x) \<longrightarrow> length q \<le> length (lcp_from 0 s rest))"
    by (rule lcp_from_spec) simp_all
  show ?thesis
    unfolding ss longest_common_prefix_of.simps
    by (rule Longest_common_prefix_eq [symmetric]) (use spec in auto)
qed

end
