(* ===== verification/SongMatching.thy ===== *)
theory SongMatching
  imports Agents StrUtils "HOL-Library.Product_Lexorder"
begin

text \<open>
  Matching the songs an external agent names to the tracks of the library:
  \<open>core/external/provider_matching.go\<close>. A song is matched by identifier (id, MusicBrainz
  recording id, ISRC) or, failing that, by title and artist, where the best of the artist's
  tracks is chosen by a score. Scores are rational numbers here; the Jaro-Winkler similarity is
  a function of a third-party package and is an argument, and so is the repository that runs
  the queries.
\<close>

section \<open>Tracks and queries\<close>

text \<open>The columns of a media file that the matching reads.\<close>

record lib_track =
  lt_id :: string
  lt_title :: string
  lt_artist :: string
  lt_order_artist :: string
  lt_album :: string
  lt_artist_mbid :: string
  lt_album_mbid :: string
  lt_recording_mbid :: string
  lt_isrcs :: "string list"
  lt_duration :: rat
  lt_missing :: bool

type_synonym match_map = "string \<rightharpoonup> lib_track"

text \<open>The four queries; every one of them also asks for \<open>missing = false\<close>.\<close>

datatype lib_query =
    By_ids "string list"
  | By_recordings "string list"
  | By_isrcs "string list"
  | By_order_artist string

definition query_meets :: "lib_query \<Rightarrow> lib_track \<Rightarrow> bool" where
  "query_meets q t \<longleftrightarrow> \<not> lt_missing t \<and>
     (case q of
        By_ids ids \<Rightarrow> lt_id t \<in> set ids
      | By_recordings ids \<Rightarrow> lt_recording_mbid t \<in> set ids
      | By_isrcs cs \<Rightarrow> (\<exists>c \<in> set (lt_isrcs t). c \<in> set cs)
      | By_order_artist a \<Rightarrow> lt_order_artist t = a)"

record matcher =
  accents :: "string \<Rightarrow> string"
  ignored_articles :: string
  jaro_winkler :: "string \<Rightarrow> string \<Rightarrow> rat"
  match_threshold :: int
  find_tracks :: "lib_query \<Rightarrow> string + lib_track list"
  artist_order :: "string list \<Rightarrow> string list"

definition sort_field :: "matcher \<Rightarrow> string \<Rightarrow> string" where
  "sort_field m = sanitize_field_for_sorting (accents m)"

definition sort_artist :: "matcher \<Rightarrow> string \<Rightarrow> string" where
  "sort_artist m = sanitize_field_no_article (accents m) (ignored_articles m)"

section \<open>Lookup by identifier\<close>

definition map_hit :: "match_map \<Rightarrow> string \<Rightarrow> lib_track option" where
  "map_hit mp key =
     (if key = [] then None
      else (case mp key of None \<Rightarrow> None | Some t \<Rightarrow> if lt_id t \<noteq> [] then Some t else None))"

fun hit_any_key :: "match_map \<Rightarrow> string list \<Rightarrow> lib_track option" where
  "hit_any_key mp [] = None"
| "hit_any_key mp (k # ks) =
     (case map_hit mp k of Some t \<Rightarrow> Some t | None \<Rightarrow> hit_any_key mp ks)"

fun hit_any_map :: "match_map list \<Rightarrow> string list \<Rightarrow> lib_track option" where
  "hit_any_map [] ks = None"
| "hit_any_map (mp # mps) ks =
     (case hit_any_key mp ks of Some t \<Rightarrow> Some t | None \<Rightarrow> hit_any_map mps ks)"

definition lookup_by_identifiers :: "agent_song \<Rightarrow> match_map list \<Rightarrow> lib_track option" where
  "lookup_by_identifiers s mps = hit_any_map mps [as_id s, as_mbid s, as_isrc s]"

definition song_matched_in :: "agent_song \<Rightarrow> match_map list \<Rightarrow> bool" where
  "song_matched_in s mps \<longleftrightarrow> lookup_by_identifiers s mps \<noteq> None"

interpretation keys: first_answer "map_hit mp" "hit_any_key mp" for mp
  by unfold_locales simp_all

interpretation maps: first_answer "\<lambda>mp. hit_any_key mp ks" "\<lambda>mps. hit_any_map mps ks" for ks
  by unfold_locales simp_all

section \<open>Loading the candidates\<close>

definition put_new :: "string \<Rightarrow> lib_track \<Rightarrow> match_map \<Rightarrow> match_map" where
  "put_new k t mp = (if mp k = None then mp(k \<mapsto> t) else mp)"

definition index_tracks :: "(lib_track \<Rightarrow> string list) \<Rightarrow> lib_track list \<Rightarrow> match_map" where
  "index_tracks keys ts = fold (\<lambda>t mp. fold (\<lambda>k. put_new k t) (keys t) mp) ts Map.empty"

definition load_tracks :: "matcher \<Rightarrow> (string list \<Rightarrow> lib_query) \<Rightarrow> (lib_track \<Rightarrow> string list) \<Rightarrow>
    string list \<Rightarrow> string + match_map" where
  "load_tracks m q keys ids =
     (if ids = [] then Inr Map.empty
      else (case find_tracks m (q ids) of
              Inl e \<Rightarrow> Inl e
            | Inr ts \<Rightarrow> Inr (index_tracks keys ts)))"

definition load_by_id :: "matcher \<Rightarrow> agent_song list \<Rightarrow> string + match_map" where
  "load_by_id m songs =
     load_tracks m By_ids (\<lambda>t. [lt_id t]) (filter (\<lambda>i. i \<noteq> []) (map as_id songs))"

definition load_by_mbid ::
  "matcher \<Rightarrow> agent_song list \<Rightarrow> match_map list \<Rightarrow> string + match_map" where
  "load_by_mbid m songs prior =
     load_tracks m By_recordings
       (\<lambda>t. if lt_recording_mbid t \<noteq> [] then [lt_recording_mbid t] else [])
       (map as_mbid (filter (\<lambda>s. as_mbid s \<noteq> [] \<and> \<not> song_matched_in s prior) songs))"

definition load_by_isrc ::
  "matcher \<Rightarrow> agent_song list \<Rightarrow> match_map list \<Rightarrow> string + match_map" where
  "load_by_isrc m songs prior =
     load_tracks m By_isrcs lt_isrcs
       (map as_isrc (filter (\<lambda>s. as_isrc s \<noteq> [] \<and> \<not> song_matched_in s prior) songs))"

section \<open>The score of a track\<close>

record song_query =
  sq_title :: string
  sq_artist :: string
  sq_artist_mbid :: string
  sq_album :: string
  sq_album_mbid :: string
  sq_duration_ms :: "32 word"

record match_score =
  title_similarity :: rat
  duration_proximity :: rat
  album_similarity :: rat
  specificity_level :: int

definition better_than :: "match_score \<Rightarrow> match_score \<Rightarrow> bool" where
  "better_than s other \<longleftrightarrow>
     (if title_similarity s \<noteq> title_similarity other
      then title_similarity s > title_similarity other
      else if duration_proximity s \<noteq> duration_proximity other
      then duration_proximity s > duration_proximity other
      else if specificity_level s \<noteq> specificity_level other
      then specificity_level s > specificity_level other
      else album_similarity s > album_similarity other)"

definition similarity_ratio :: "matcher \<Rightarrow> string \<Rightarrow> string \<Rightarrow> rat" where
  "similarity_ratio m a b =
     (if a = b then 1 else if a = [] \<or> b = [] then 0 else jaro_winkler m a b)"

definition compute_specificity_level :: "matcher \<Rightarrow> song_query \<Rightarrow> lib_track \<Rightarrow> rat \<Rightarrow> int" where
  "compute_specificity_level m q t threshold =
     (let title = sort_field m (lt_title t);
          artist = sort_artist m (lt_artist t);
          album = sort_field m (lt_album t)
      in if sq_artist_mbid q \<noteq> [] \<and> sq_album_mbid q \<noteq> [] \<and>
            lt_artist_mbid t = sq_artist_mbid q \<and> lt_album_mbid t = sq_album_mbid q then 5
         else if sq_artist_mbid q \<noteq> [] \<and> sq_album q \<noteq> [] \<and>
            lt_artist_mbid t = sq_artist_mbid q \<and>
            similarity_ratio m album (sq_album q) \<ge> threshold then 4
         else if sq_artist q \<noteq> [] \<and> sq_album q \<noteq> [] \<and> artist = sq_artist q \<and>
            similarity_ratio m album (sq_album q) \<ge> threshold then 3
         else if sq_artist_mbid q \<noteq> [] \<and> lt_artist_mbid t = sq_artist_mbid q then 2
         else if sq_artist q \<noteq> [] \<and> artist = sq_artist q then 1
         else if title = sq_title q then 0
         else - 1)"

definition proximity :: "32 word \<Rightarrow> rat \<Rightarrow> rat" where
  "proximity ms secs =
     (if ms = 0 then 1
      else 1 / (1 + \<bar>of_int (uint ms) / 1000 - secs\<bar>))"

definition track_score :: "matcher \<Rightarrow> song_query \<Rightarrow> rat \<Rightarrow> lib_track \<Rightarrow> match_score" where
  "track_score m q threshold t =
     \<lparr>title_similarity = similarity_ratio m (sq_title q) (sort_field m (lt_title t)),
      duration_proximity = proximity (sq_duration_ms q) (lt_duration t),
      album_similarity =
        (if sq_album q \<noteq> [] then similarity_ratio m (sq_album q) (sort_field m (lt_album t)) else 0),
      specificity_level = compute_specificity_level m q t threshold\<rparr>"

fun best_loop ::
  "matcher \<Rightarrow> song_query \<Rightarrow> rat \<Rightarrow> match_score \<Rightarrow> lib_track option \<Rightarrow> lib_track list
     \<Rightarrow> lib_track option"
where
  "best_loop m q threshold best found [] = found"
| "best_loop m q threshold best found (t # ts) =
     (let score = track_score m q threshold t
      in if title_similarity score < threshold then best_loop m q threshold best found ts
         else if better_than score best then best_loop m q threshold score (Some t) ts
         else best_loop m q threshold best found ts)"

definition find_best_match :: "matcher \<Rightarrow> song_query \<Rightarrow> lib_track list \<Rightarrow> rat \<Rightarrow> lib_track option" where
  "find_best_match m q ts threshold =
     best_loop m q threshold
       \<lparr>title_similarity = - 1, duration_proximity = 0, album_similarity = 0, specificity_level = 0\<rparr>
       None ts"

text \<open>\<open>betterThan\<close> is the lexicographic order on the four components.\<close>

definition score_key :: "match_score \<Rightarrow> rat \<times> rat \<times> int \<times> rat" where
  "score_key s =
     (title_similarity s, duration_proximity s, specificity_level s, album_similarity s)"

lemma better_than_key: "better_than s t \<longleftrightarrow> score_key t < score_key s"
  by (auto simp: better_than_def score_key_def less_prod_def less_le)

definition candidate :: "matcher \<Rightarrow> song_query \<Rightarrow> rat \<Rightarrow> lib_track \<Rightarrow> bool" where
  "candidate m q threshold t \<longleftrightarrow> title_similarity (track_score m q threshold t) \<ge> threshold"

definition track_rank :: "matcher \<Rightarrow> song_query \<Rightarrow> rat \<Rightarrow> lib_track \<Rightarrow> rat \<times> rat \<times> int \<times> rat" where
  "track_rank m q threshold t = score_key (track_score m q threshold t)"

text \<open>What the loop has found after a prefix of the tracks: the first of the best candidates.\<close>

definition first_best ::
  "matcher \<Rightarrow> song_query \<Rightarrow> rat \<Rightarrow> lib_track list \<Rightarrow> lib_track \<Rightarrow> bool" where
  "first_best m q threshold ts t \<longleftrightarrow>
     (\<exists>xs ys. ts = xs @ t # ys \<and> candidate m q threshold t \<and>
        (\<forall>x \<in> set xs. candidate m q threshold x \<longrightarrow> track_rank m q threshold x < track_rank m q threshold t) \<and>
        (\<forall>y \<in> set ys. candidate m q threshold y \<longrightarrow> track_rank m q threshold y \<le> track_rank m q threshold t))"

lemma first_best_snoc:
  "first_best m q th ts t \<Longrightarrow> (candidate m q th u \<longrightarrow> track_rank m q th u \<le> track_rank m q th t) \<Longrightarrow>
   first_best m q th (ts @ [u]) t"
  unfolding first_best_def by (elim exE conjE) (rule exI, rule exI, rule conjI, simp, auto)

lemma first_best_bound:
  "first_best m q th ts t \<Longrightarrow> u \<in> set ts \<Longrightarrow> candidate m q th u \<Longrightarrow> track_rank m q th u \<le> track_rank m q th t"
  unfolding first_best_def using order.strict_implies_order
  by (elim exE conjE) (simp, blast)

lemma best_loop_first_best:
  assumes "first_best m q th ts t" "best = track_score m q th t"
  shows "\<exists>t'. best_loop m q th best (Some t) us = Some t' \<and> first_best m q th (ts @ us) t'"
  using assms
proof (induction us arbitrary: ts t best)
  case (Cons u us)
  let ?s = "track_score m q th u"
  consider "\<not> candidate m q th u" | "candidate m q th u" "better_than ?s best"
    | "candidate m q th u" "\<not> better_than ?s best" by blast
  then show ?case
  proof cases
    case 2
    have "first_best m q th (ts @ [u]) u"
      unfolding first_best_def
      using 2 Cons.prems first_best_bound [OF Cons.prems(1)]
      by (intro exI [of _ ts] exI [of _ "[]"])
        (auto simp: better_than_key track_rank_def [symmetric] intro: le_less_trans)
    from Cons.IH [OF this refl] 2 show ?thesis
      by (simp add: Let_def candidate_def)
  qed (use Cons.IH [OF first_best_snoc [OF Cons.prems(1), of u]] Cons.prems(2) in
      \<open>auto simp: Let_def candidate_def better_than_key track_rank_def not_less\<close>)
qed auto

lemma find_best_match_None:
  assumes "0 \<le> th"
  shows "(\<forall>t \<in> set ts. \<not> candidate m q th t) \<Longrightarrow> find_best_match m q ts th = None"
    and "t \<in> set ts \<Longrightarrow> candidate m q th t \<Longrightarrow>
      \<exists>t'. find_best_match m q ts th = Some t' \<and> first_best m q th ts t'"
proof -
  let ?b = "\<lparr>title_similarity = - 1, duration_proximity = 0, album_similarity = 0,
             specificity_level = 0\<rparr>"
  show "find_best_match m q ts th = None" if "\<forall>t \<in> set ts. \<not> candidate m q th t"
    using that by (induction ts) (auto simp: find_best_match_def Let_def candidate_def)
  assume t: "t \<in> set ts" "candidate m q th t"
  then obtain xs u ys where ts: "ts = xs @ u # ys" "candidate m q th u"
    "\<forall>x \<in> set xs. \<not> candidate m q th x"
    by (metis split_list_first_prop)
  have skip: "best_loop m q th ?b None (xs @ zs) = best_loop m q th ?b None zs" for zs
    using ts(3) by (induction xs) (auto simp: Let_def candidate_def)
  have "better_than (track_score m q th u) ?b"
    using ts(2) assms by (auto simp: better_than_def candidate_def)
  with ts(2) have step: "find_best_match m q ts th
      = best_loop m q th (track_score m q th u) (Some u) ys"
    by (simp add: find_best_match_def ts(1) skip Let_def candidate_def)
  have "first_best m q th (xs @ [u]) u"
    unfolding first_best_def using ts by (intro exI [of _ xs] exI [of _ "[]"]) auto
  from best_loop_first_best [OF this refl, of ys] step
  show "\<exists>t'. find_best_match m q ts th = Some t' \<and> first_best m q th ts t'"
    by (simp add: ts(1))
qed

section \<open>Title and artist\<close>

definition build_title_queries ::
  "matcher \<Rightarrow> agent_song list \<Rightarrow> match_map list \<Rightarrow> song_query list" where
  "build_title_queries m songs prior =
     map (\<lambda>s. \<lparr>sq_title = sort_field m (as_name s), sq_artist = sort_artist m (as_artist s),
               sq_artist_mbid = as_artist_mbid s, sq_album = sort_field m (as_album s),
               sq_album_mbid = as_album_mbid s, sq_duration_ms = as_duration s\<rparr>)
       (filter (\<lambda>s. \<not> song_matched_in s prior) songs)"

definition title_key :: "string \<Rightarrow> string \<Rightarrow> string" where
  "title_key title artist = title @ ''|'' @ artist"

fun match_queries ::
  "matcher \<Rightarrow> rat \<Rightarrow> lib_track list \<Rightarrow> song_query list \<Rightarrow> match_map \<Rightarrow> match_map" where
  "match_queries m threshold ts [] mp = mp"
| "match_queries m threshold ts (q # qs) mp =
     match_queries m threshold ts qs
       (case find_best_match m q ts threshold of
          None \<Rightarrow> mp
        | Some t \<Rightarrow> put_new (title_key (sq_title q) (sq_artist q)) t mp)"

text \<open>
  The queries are grouped by artist in a Go map, which is walked in an order of its own
  choosing (\<open>artist_order\<close>); the queries of one artist keep their order. An artist whose query
  fails is skipped.
\<close>

fun match_artists ::
  "matcher \<Rightarrow> rat \<Rightarrow> song_query list \<Rightarrow> string list \<Rightarrow> match_map \<Rightarrow> match_map" where
  "match_artists m threshold qs [] mp = mp"
| "match_artists m threshold qs (a # as) mp =
     match_artists m threshold qs as
       (case find_tracks m (By_order_artist a) of
          Inl e \<Rightarrow> mp
        | Inr ts \<Rightarrow> match_queries m threshold ts (filter (\<lambda>q. sq_artist q = a) qs) mp)"

definition title_threshold :: "matcher \<Rightarrow> rat" where
  "title_threshold m = of_int (match_threshold m) / 100"

definition load_by_title_and_artist ::
  "matcher \<Rightarrow> agent_song list \<Rightarrow> match_map list \<Rightarrow> match_map" where
  "load_by_title_and_artist m songs prior =
     (let qs = build_title_queries m songs prior
      in match_artists m (title_threshold m) qs
           (artist_order m (remdups (filter (\<lambda>a. a \<noteq> []) (map sq_artist qs)))) Map.empty)"

section \<open>The result\<close>

definition find_matching_track ::
  "matcher \<Rightarrow> match_map list \<Rightarrow> match_map \<Rightarrow> agent_song \<Rightarrow> lib_track option" where
  "find_matching_track m identified titled s =
     (case lookup_by_identifiers s identified of
        Some t \<Rightarrow> Some t
      | None \<Rightarrow> titled (title_key (sort_field m (as_name s)) (sort_artist m (as_artist s))))"

fun select_loop ::
  "(agent_song \<Rightarrow> lib_track option) \<Rightarrow> int \<Rightarrow> lib_track list \<Rightarrow> (string \<rightharpoonup> agent_song)
     \<Rightarrow> agent_song list \<Rightarrow> lib_track list"
where
  "select_loop find_match n mfs added_by [] = mfs"
| "select_loop find_match n mfs added_by (s # ss) =
     (if int (length mfs) = n then mfs
      else (case find_match s of
              None \<Rightarrow> select_loop find_match n mfs added_by ss
            | Some t \<Rightarrow>
                (case added_by (lt_id t) of
                   Some prev \<Rightarrow>
                     if s \<noteq> prev then select_loop find_match n mfs added_by ss
                     else select_loop find_match n (mfs @ [t]) added_by ss
                 | None \<Rightarrow>
                     select_loop find_match n (mfs @ [t]) (added_by(lt_id t \<mapsto> s)) ss)))"

definition select_best_matching_songs ::
  "matcher \<Rightarrow> agent_song list \<Rightarrow> match_map list \<Rightarrow> match_map \<Rightarrow> int \<Rightarrow> lib_track list" where
  "select_best_matching_songs m songs identified titled n =
     select_loop (find_matching_track m identified titled) n [] Map.empty songs"

definition match_songs_to_library ::
  "matcher \<Rightarrow> agent_song list \<Rightarrow> int \<Rightarrow> string + lib_track list" where
  "match_songs_to_library m songs n =
     (case load_by_id m songs of
        Inl e \<Rightarrow> Inl (''failed to load tracks by ID: '' @ e)
      | Inr by_id \<Rightarrow>
     (case load_by_mbid m songs [by_id] of
        Inl e \<Rightarrow> Inl (''failed to load tracks by MBID: '' @ e)
      | Inr by_mbid \<Rightarrow>
     (case load_by_isrc m songs [by_id, by_mbid] of
        Inl e \<Rightarrow> Inl (''failed to load tracks by ISRC: '' @ e)
      | Inr by_isrc \<Rightarrow>
          (let titled = load_by_title_and_artist m songs [by_id, by_mbid, by_isrc]
           in Inr (select_best_matching_songs m songs [by_id, by_mbid, by_isrc] titled n)))))"

section \<open>What is selected\<close>

text \<open>
  The relation between the songs that were given and the tracks that come out: the tracks
  belong, in order, to songs of the list, and a library track comes out twice only for one and
  the same song.
\<close>

definition selected_for ::
  "(agent_song \<Rightarrow> lib_track option) \<Rightarrow> agent_song list \<Rightarrow> lib_track list \<Rightarrow> bool" where
  "selected_for f ss ts \<longleftrightarrow>
     map f ss = map Some ts \<and>
     (\<forall>i j. i < length ts \<and> j < length ts \<and> lt_id (ts ! i) = lt_id (ts ! j) \<longrightarrow> ss ! i = ss ! j)"

definition added_ok :: "agent_song list \<Rightarrow> lib_track list \<Rightarrow> (string \<rightharpoonup> agent_song) \<Rightarrow> bool" where
  "added_ok ss ts added \<longleftrightarrow>
     dom added = lt_id ` set ts \<and>
     (\<forall>i. i < length ts \<longrightarrow> added (lt_id (ts ! i)) = Some (ss ! i))"

lemma added_ok_selected:
  "added_ok ss ts added \<Longrightarrow> map f ss = map Some ts \<Longrightarrow> selected_for f ss ts"
  unfolding added_ok_def selected_for_def by (metis option.inject)

lemma added_ok_snoc:
  assumes "added_ok ss ts added" "length ss = length ts"
    and "added (lt_id t) = None \<or> added (lt_id t) = Some s"
  shows "added_ok (ss @ [s]) (ts @ [t]) (added(lt_id t \<mapsto> s))"
  using assms unfolding added_ok_def by (auto simp: nth_append less_Suc_eq domIff)

lemma select_loop_spec:
  assumes "map f ss0 = map Some ts0" "added_ok ss0 ts0 added" "subseq ss0 pre"
  shows "\<exists>ss. subseq ss (pre @ songs) \<and> selected_for f ss (select_loop f n ts0 added songs)"
  using assms
proof (induction songs arbitrary: ss0 ts0 added pre)
  case Nil
  then show ?case using added_ok_selected by auto
next
  case (Cons s songs)
  have len: "length ss0 = length ts0" using map_eq_imp_length_eq [OF Cons.prems(1)] .
  have skip: "subseq ss0 (pre @ [s])" using Cons.prems(3) by auto
  have take: "subseq (ss0 @ [s]) (pre @ [s])" using Cons.prems(3) by auto
  show ?case
  proof (cases "int (length ts0) = n")
    case True
    with Cons.prems show ?thesis by (auto intro!: exI [of _ ss0] added_ok_selected)
  next
    case False
    note go = False
    show ?thesis
    proof (cases "f s")
      case None
      with Cons.IH [OF Cons.prems(1,2) skip] go show ?thesis by simp
    next
      case (Some t)
      have m: "map f (ss0 @ [s]) = map Some (ts0 @ [t])" using Cons.prems(1) Some by simp
      show ?thesis
      proof (cases "added (lt_id t)")
        case None
        with Cons.IH [OF m added_ok_snoc [OF Cons.prems(2) len] take] Some go
        show ?thesis by (simp add: fun_upd_def)
      next
        case (Some prev)
        show ?thesis
        proof (cases "s = prev")
          case True
          with Some have a: "added(lt_id t \<mapsto> s) = added" by auto
          have "added_ok (ss0 @ [s]) (ts0 @ [t]) added"
            using added_ok_snoc [OF Cons.prems(2) len, of t s] a Some True by simp
          from Cons.IH [OF m this take] True Some \<open>f s = Some t\<close> go
          show ?thesis by simp
        qed (use Cons.IH [OF Cons.prems(1,2) skip] Some \<open>f s = Some t\<close> go in simp)
      qed
    qed
  qed
qed

lemma select_loop_count:
  "0 \<le> n \<Longrightarrow> int (length ts) \<le> n \<Longrightarrow> int (length (select_loop f n ts added songs)) \<le> n"
  by (induction songs arbitrary: ts added) (auto split: option.splits)

lemma select_best_spec:
  obtains ss where "subseq ss songs"
    "selected_for (find_matching_track m identified titled) ss
       (select_best_matching_songs m songs identified titled n)"
  using select_loop_spec [of "find_matching_track m identified titled" "[]" "[]" Map.empty "[]"]
  by (auto simp: select_best_matching_songs_def added_ok_def)

lemma first_best_unique:
  assumes "first_best m q th ts t" "first_best m q th ts u"
  shows "t = u"
proof -
  from assms(1) obtain xs ys where t: "ts = xs @ t # ys" "candidate m q th t"
    "\<forall>x \<in> set xs. candidate m q th x \<longrightarrow> track_rank m q th x < track_rank m q th t"
    "\<forall>y \<in> set ys. candidate m q th y \<longrightarrow> track_rank m q th y \<le> track_rank m q th t"
    unfolding first_best_def by blast
  from assms(2) obtain xs' ys' where u: "ts = xs' @ u # ys'" "candidate m q th u"
    "\<forall>x \<in> set xs'. candidate m q th x \<longrightarrow> track_rank m q th x < track_rank m q th u"
    "\<forall>y \<in> set ys'. candidate m q th y \<longrightarrow> track_rank m q th y \<le> track_rank m q th u"
    unfolding first_best_def by blast
  from t(1) u(1) have "xs @ t # ys = xs' @ u # ys'" by simp
  then consider "xs = xs'" "t = u"
    | "t \<in> set xs'" "u \<in> set ys" | "u \<in> set xs" "t \<in> set ys'"
    by (auto simp: append_eq_append_conv2 Cons_eq_append_conv append_eq_Cons_conv)
  then show ?thesis
  proof cases
    case 2
    with t u have "track_rank m q th t < track_rank m q th u" "track_rank m q th u \<le> track_rank m q th t"
      by blast+
    then show ?thesis by (simp add: leD)
  next
    case 3
    with t u have "track_rank m q th u < track_rank m q th t" "track_rank m q th t \<le> track_rank m q th u"
      by blast+
    then show ?thesis by (simp add: leD)
  qed simp
qed

lemma find_best_match_first_best:
  assumes "0 \<le> th"
  shows "find_best_match m q ts th = Some t \<longleftrightarrow> first_best m q th ts t"
proof
  assume *: "find_best_match m q ts th = Some t"
  then obtain u where "u \<in> set ts" "candidate m q th u"
    using find_best_match_None(1) [OF assms, of ts m q] by fastforce
  from find_best_match_None(2) [OF assms this] * show "first_best m q th ts t" by auto
next
  assume *: "first_best m q th ts t"
  then have "t \<in> set ts" "candidate m q th t" by (auto simp: first_best_def)
  from find_best_match_None(2) [OF assms this] first_best_unique [OF *]
  show "find_best_match m q ts th = Some t" by auto
qed

lemma best_loop_in:
  "best_loop m q th best found ts = Some t \<Longrightarrow>
     found = Some t \<or> (t \<in> set ts \<and> candidate m q th t)"
proof (induction ts arbitrary: best found)
  case (Cons u us)
  from Cons.prems consider "best_loop m q th best found us = Some t"
    | "candidate m q th u" "best_loop m q th (track_score m q th u) (Some u) us = Some t"
    by (auto simp: Let_def candidate_def not_less split: if_splits)
  then show ?case by cases (use Cons.IH in force)+
qed simp

lemma find_best_match_in: "find_best_match m q ts th = Some t \<Longrightarrow> t \<in> set ts \<and> candidate m q th t"
  by (auto simp: find_best_match_def dest: best_loop_in)

section \<open>Every selected track fits its song\<close>

text \<open>
  What is assumed of the repository: a query returns tracks of the library that meet it. For
  the priority of identifiers it also has to return all of them.
\<close>

definition db_faithful :: "matcher \<Rightarrow> lib_track set \<Rightarrow> bool" where
  "db_faithful m lib \<longleftrightarrow>
     (\<forall>q ts. find_tracks m q = Inr ts \<longrightarrow> (\<forall>t \<in> set ts. t \<in> lib \<and> query_meets q t))"

definition db_complete :: "matcher \<Rightarrow> lib_track set \<Rightarrow> bool" where
  "db_complete m lib \<longleftrightarrow>
     (\<forall>q ts t. find_tracks m q = Inr ts \<longrightarrow> t \<in> lib \<longrightarrow> query_meets q t \<longrightarrow> t \<in> set ts)"

definition shares_identifier :: "agent_song \<Rightarrow> lib_track \<Rightarrow> bool" where
  "shares_identifier s t \<longleftrightarrow>
     (\<exists>k \<in> {as_id s, as_mbid s, as_isrc s} - {[]}.
        k = lt_id t \<or> k = lt_recording_mbid t \<or> k \<in> set (lt_isrcs t))"

definition song_key :: "matcher \<Rightarrow> agent_song \<Rightarrow> string" where
  "song_key m s = title_key (sort_field m (as_name s)) (sort_artist m (as_artist s))"

definition fits_title :: "matcher \<Rightarrow> agent_song \<Rightarrow> lib_track \<Rightarrow> bool" where
  "fits_title m s t \<longleftrightarrow>
     lt_order_artist t = sort_artist m (as_artist s) \<and> sort_artist m (as_artist s) \<noteq> [] \<and>
     similarity_ratio m (sort_field m (as_name s)) (sort_field m (lt_title t)) \<ge> title_threshold m"

definition good_match :: "matcher \<Rightarrow> agent_song list \<Rightarrow> agent_song \<Rightarrow> lib_track \<Rightarrow> bool" where
  "good_match m songs s t \<longleftrightarrow>
     shares_identifier s t \<or> (\<exists>s' \<in> set songs. song_key m s' = song_key m s \<and> fits_title m s' t)"

text \<open>An index maps a key to a track that has it.\<close>

definition index_ok :: "(lib_track \<Rightarrow> bool) \<Rightarrow> (string \<Rightarrow> lib_track \<Rightarrow> bool) \<Rightarrow> match_map \<Rightarrow> bool" where
  "index_ok P K mp \<longleftrightarrow> (\<forall>k t. mp k = Some t \<longrightarrow> P t \<and> K k t)"

lemma index_ok_empty [simp]: "index_ok P K Map.empty"
  by (simp add: index_ok_def)

lemma index_ok_put: "index_ok P K mp \<Longrightarrow> P t \<Longrightarrow> K k t \<Longrightarrow> index_ok P K (put_new k t mp)"
  by (auto simp: index_ok_def put_new_def)

lemma put_new_grows: "mp k = Some t \<Longrightarrow> put_new k' t' mp k = Some t"
  by (auto simp: put_new_def)

lemma index_ok_keys:
  "index_ok P K mp \<Longrightarrow> P t \<Longrightarrow> (\<And>k. k \<in> set ks \<Longrightarrow> K k t) \<Longrightarrow>
   index_ok P K (fold (\<lambda>k. put_new k t) ks mp)"
  by (induction ks arbitrary: mp) (auto intro: index_ok_put)

lemma index_ok_fold:
  assumes "index_ok P K mp" "\<And>t. t \<in> set ts \<Longrightarrow> P t" "\<And>t k. t \<in> set ts \<Longrightarrow> k \<in> set (keys t) \<Longrightarrow> K k t"
  shows "index_ok P K (fold (\<lambda>t mp. fold (\<lambda>k. put_new k t) (keys t) mp) ts mp)"
  using assms
proof (induction ts arbitrary: mp)
  case (Cons t ts)
  have "index_ok P K (fold (\<lambda>k. put_new k t) (keys t) mp)"
    by (rule index_ok_keys) (use Cons.prems in simp_all)
  from Cons.IH [OF this] Cons.prems show ?case by simp
qed simp

lemma index_ok_tracks:
  "(\<And>t. t \<in> set ts \<Longrightarrow> P t) \<Longrightarrow> index_ok P (\<lambda>k t. k \<in> set (keys t)) (index_tracks keys ts)"
  unfolding index_tracks_def by (rule index_ok_fold) auto

lemma fold_put_grows:
  "mp k = Some t \<Longrightarrow> fold (\<lambda>k. put_new k u) ks mp k = Some t"
  by (induction ks arbitrary: mp) (auto simp: put_new_grows)

lemma fold_put_key: "k \<in> set ks \<Longrightarrow> fold (\<lambda>k. put_new k u) ks mp k \<noteq> None"
proof (induction ks arbitrary: mp)
  case (Cons k' ks)
  show ?case
  proof (cases "k = k'")
    case True
    obtain t where "put_new k' u mp k' = Some t" by (cases "mp k'") (auto simp: put_new_def)
    from fold_put_grows [where mp = "put_new k' u mp" and k = k', OF this] True show ?thesis by simp
  qed (use Cons in simp)
qed simp

lemma fold_index_grows:
  "mp k = Some t \<Longrightarrow> fold (\<lambda>t mp. fold (\<lambda>k. put_new k t) (keys t) mp) ts mp k = Some t"
  by (induction ts arbitrary: mp) (auto simp: fold_put_grows)

lemma index_tracks_key:
  assumes "t \<in> set ts" "k \<in> set (keys t)"
  shows "index_tracks keys ts k \<noteq> None"
proof -
  have "fold (\<lambda>t mp. fold (\<lambda>k. put_new k t) (keys t) mp) ts mp k \<noteq> None" for mp
    using assms(1)
  proof (induction ts arbitrary: mp)
    case (Cons u us)
    show ?case
    proof (cases "t = u")
      case True
      with fold_put_key [OF assms(2), of u mp] obtain v where
        "fold (\<lambda>k. put_new k u) (keys u) mp k = Some v" by auto
      from fold_index_grows [where mp = "fold (\<lambda>k. put_new k u) (keys u) mp" and k = k, OF this]
      show ?thesis using True by simp
    qed (use Cons in simp)
  qed simp
  then show ?thesis by (simp add: index_tracks_def)
qed

definition in_library :: "lib_track set \<Rightarrow> lib_track \<Rightarrow> bool" where
  "in_library lib t \<longleftrightarrow> t \<in> lib \<and> \<not> lt_missing t"

lemma faithful_in_library:
  "db_faithful m lib \<Longrightarrow> find_tracks m q = Inr ts \<Longrightarrow> t \<in> set ts \<Longrightarrow> in_library lib t"
  unfolding db_faithful_def in_library_def query_meets_def by blast

lemma load_tracks_ok:
  assumes "db_faithful m lib" "load_tracks m q keys ids = Inr mp"
  shows "index_ok (in_library lib) (\<lambda>k t. k \<in> set (keys t)) mp"
  using assms(2) faithful_in_library [OF assms(1)]
  by (auto simp: load_tracks_def split: if_splits sum.splits intro!: index_ok_tracks)

text \<open>The three indexes of identifiers have one thing in common: the key identifies the track.\<close>

definition id_key :: "string \<Rightarrow> lib_track \<Rightarrow> bool" where
  "id_key k t \<longleftrightarrow> k = lt_id t \<or> k = lt_recording_mbid t \<or> k \<in> set (lt_isrcs t)"

lemma index_ok_mono:
  "index_ok P K mp \<Longrightarrow> (\<And>k t. K k t \<Longrightarrow> K' k t) \<Longrightarrow> index_ok P K' mp"
  by (auto simp: index_ok_def)

lemma load_ids_ok:
  assumes "db_faithful m lib"
  shows "load_by_id m songs = Inr mp \<Longrightarrow> index_ok (in_library lib) id_key mp"
    and "load_by_mbid m songs prior = Inr mp \<Longrightarrow> index_ok (in_library lib) id_key mp"
    and "load_by_isrc m songs prior = Inr mp \<Longrightarrow> index_ok (in_library lib) id_key mp"
  unfolding load_by_id_def load_by_mbid_def load_by_isrc_def
  by (auto dest!: load_tracks_ok [OF assms] elim!: index_ok_mono simp: id_key_def split: if_splits)

lemma lookup_ok:
  assumes "\<And>mp. mp \<in> set mps \<Longrightarrow> index_ok P id_key mp" "lookup_by_identifiers s mps = Some t"
  shows "P t \<and> shares_identifier s t"
proof -
  from maps.walk_in [OF assms(2) [unfolded lookup_by_identifiers_def]] obtain mp where
    mp: "mp \<in> set mps" "hit_any_key mp [as_id s, as_mbid s, as_isrc s] = Some t" by blast
  from keys.walk_in [OF mp(2)] obtain k where
    k: "k \<in> {as_id s, as_mbid s, as_isrc s}" "map_hit mp k = Some t" by auto
  then have "k \<noteq> []" "mp k = Some t"
    by (auto simp: map_hit_def split: if_splits option.splits)
  with assms(1) [OF mp(1)] k(1) show ?thesis
    unfolding index_ok_def id_key_def shares_identifier_def by blast
qed

lemma query_candidate:
  "candidate m q th t \<longleftrightarrow> similarity_ratio m (sq_title q) (sort_field m (lt_title t)) \<ge> th"
  by (simp add: candidate_def track_score_def)

definition title_entry :: "matcher \<Rightarrow> song_query list \<Rightarrow> string \<Rightarrow> lib_track \<Rightarrow> bool" where
  "title_entry m qs k t \<longleftrightarrow>
     (\<exists>q \<in> set qs. k = title_key (sq_title q) (sq_artist q) \<and> sq_artist q \<noteq> [] \<and>
        lt_order_artist t = sq_artist q \<and> candidate m q (title_threshold m) t)"

lemma match_queries_ok:
  assumes "index_ok P K mp" "\<And>t. t \<in> set ts \<Longrightarrow> P t"
    and "\<And>q t. q \<in> set qs \<Longrightarrow> t \<in> set ts \<Longrightarrow> candidate m q th t \<Longrightarrow>
      K (title_key (sq_title q) (sq_artist q)) t"
  shows "index_ok P K (match_queries m th ts qs mp)"
  using assms
proof (induction qs arbitrary: mp)
  case (Cons q qs)
  have "index_ok P K (case find_best_match m q ts th of None \<Rightarrow> mp
          | Some t \<Rightarrow> put_new (title_key (sq_title q) (sq_artist q)) t mp)"
    using Cons.prems
    by (auto split: option.split intro!: index_ok_put dest!: find_best_match_in)
  from Cons.IH [OF this] Cons.prems show ?case by simp
qed simp

lemma match_artists_ok:
  assumes "db_faithful m lib" "index_ok (in_library lib) (title_entry m qs) mp" "[] \<notin> set as"
  shows "index_ok (in_library lib) (title_entry m qs) (match_artists m (title_threshold m) qs as mp)"
  using assms(2,3)
proof (induction as arbitrary: mp)
  case (Cons a as)
  show ?case
  proof (cases "find_tracks m (By_order_artist a)")
    case (Inr ts)
    have "index_ok (in_library lib) (title_entry m qs)
       (match_queries m (title_threshold m) ts (filter (\<lambda>q. sq_artist q = a) qs) mp)"
    proof (rule match_queries_ok [OF Cons.prems(1) faithful_in_library [OF assms(1) Inr]])
      fix q t
      assume q: "q \<in> set (filter (\<lambda>q. sq_artist q = a) qs)" and t: "t \<in> set ts"
        and c: "candidate m q (title_threshold m) t"
      from assms(1) Inr t have "query_meets (By_order_artist a) t"
        unfolding db_faithful_def by blast
      then have "lt_order_artist t = a" by (simp add: query_meets_def)
      with q c Cons.prems(2) show "title_entry m qs (title_key (sq_title q) (sq_artist q)) t"
        unfolding title_entry_def \<open>lt_order_artist t = a\<close> by (intro bexI [of _ q]) auto
    qed
    from Cons.IH [OF this] Cons.prems(2) Inr show ?thesis by simp
  qed (use Cons in simp)
qed simp

text \<open>The order in which Go walks the map of artists is a permutation of its keys.\<close>

definition order_of_keys :: "matcher \<Rightarrow> bool" where
  "order_of_keys m \<longleftrightarrow> (\<forall>as. set (artist_order m as) = set as)"

lemma titles_ok:
  assumes "db_faithful m lib" "order_of_keys m"
  shows "index_ok (in_library lib) (title_entry m (build_title_queries m songs prior))
           (load_by_title_and_artist m songs prior)"
  unfolding load_by_title_and_artist_def Let_def
  by (rule match_artists_ok) (use assms in \<open>auto simp: order_of_keys_def\<close>)

lemma title_entry_song:
  assumes "title_entry m (build_title_queries m songs prior) (song_key m s) t"
  shows "\<exists>s' \<in> set songs. song_key m s' = song_key m s \<and> fits_title m s' t"
  using assms
  by (auto simp: title_entry_def build_title_queries_def query_candidate fits_title_def song_key_def)

lemma find_matching_ok:
  assumes "db_faithful m lib" "order_of_keys m"
    and "\<And>mp. mp \<in> set mps \<Longrightarrow> index_ok (in_library lib) id_key mp"
    and "find_matching_track m mps (load_by_title_and_artist m songs prior) s = Some t"
  shows "in_library lib t \<and> good_match m songs s t"
proof (cases "lookup_by_identifiers s mps")
  case (Some u)
  with assms(4) have "u = t" by (simp add: find_matching_track_def)
  with lookup_ok [OF assms(3) Some] show ?thesis by (simp add: good_match_def)
next
  case None
  with assms(4) have "load_by_title_and_artist m songs prior (song_key m s) = Some t"
    by (simp add: find_matching_track_def song_key_def)
  with titles_ok [OF assms(1,2), of songs prior]
  have "in_library lib t" "title_entry m (build_title_queries m songs prior) (song_key m s) t"
    unfolding index_ok_def by blast+
  with title_entry_song show ?thesis unfolding good_match_def by blast
qed

lemma match_songs_cases:
  assumes "match_songs_to_library m songs n = Inr ts"
  obtains a b c where "load_by_id m songs = Inr a" "load_by_mbid m songs [a] = Inr b"
    "load_by_isrc m songs [a, b] = Inr c"
    "ts = select_best_matching_songs m songs [a, b, c]
            (load_by_title_and_artist m songs [a, b, c]) n"
  using assms by (auto simp: match_songs_to_library_def Let_def split: sum.splits)

lemma select_best_count:
  "0 \<le> n \<Longrightarrow> int (length (select_best_matching_songs m songs mps titled n)) \<le> n"
  unfolding select_best_matching_songs_def by (rule select_loop_count) simp_all

lemma matched_tracks_count:
  "match_songs_to_library m songs n = Inr ts \<Longrightarrow> 0 \<le> n \<Longrightarrow> int (length ts) \<le> n"
  by (auto elim!: match_songs_cases simp: select_best_count)

lemma matched_songs:
  assumes "db_faithful m lib" "order_of_keys m" "match_songs_to_library m songs n = Inr ts"
  obtains f ss where "subseq ss songs" "selected_for f ss ts" "length ss = length ts"
    "\<And>i. i < length ts \<Longrightarrow> in_library lib (ts ! i) \<and> good_match m songs (ss ! i) (ts ! i)"
proof -
  from match_songs_cases [OF assms(3)] obtain a b c where
    abc: "load_by_id m songs = Inr a" "load_by_mbid m songs [a] = Inr b"
      "load_by_isrc m songs [a, b] = Inr c"
    and ts: "ts = select_best_matching_songs m songs [a, b, c]
                   (load_by_title_and_artist m songs [a, b, c]) n" by blast
  let ?f = "find_matching_track m [a, b, c] (load_by_title_and_artist m songs [a, b, c])"
  from select_best_spec obtain ss where ss: "subseq ss songs" "selected_for ?f ss ts"
    unfolding ts by blast
  then have len: "length ss = length ts" and "map ?f ss = map Some ts"
    by (auto simp: selected_for_def dest: map_eq_imp_length_eq)
  then have f: "?f (ss ! i) = Some (ts ! i)" if "i < length ts" for i
    using that by (metis nth_map)
  have idx: "index_ok (in_library lib) id_key mp" if "mp \<in> set [a, b, c]" for mp
    using that load_ids_ok [OF assms(1)] abc by auto
  have ok: "in_library lib (ts ! i) \<and> good_match m songs (ss ! i) (ts ! i)" if "i < length ts" for i
    using find_matching_ok [OF assms(1,2) idx f [OF that]] .
  from that [OF ss len ok] show thesis .
qed

lemma matched_tracks_library:
  assumes "db_faithful m lib" "order_of_keys m" "match_songs_to_library m songs n = Inr ts"
  shows "set ts \<subseteq> {t \<in> lib. \<not> lt_missing t}"
  using matched_songs [OF assms] by (auto simp: in_library_def set_conv_nth)

text \<open>
  C5. The tracks that \<open>matchSongsToLibrary\<close> returns, under a repository that returns library
  tracks meeting the query: they are tracks of the library that are not missing; there are at
  most \<open>count\<close> of them; they come in the order of the songs, each fitting its song (it shares an
  identifier with it, or it is by the artist of a song with the same normalised title and artist
  and its title is similar enough); and one library track comes out twice only for identical
  songs.
\<close>

theorem matched_tracks_fit:
  assumes "db_faithful m lib" "order_of_keys m" "match_songs_to_library m songs n = Inr ts"
  shows "set ts \<subseteq> {t \<in> lib. \<not> lt_missing t} \<and> (0 \<le> n \<longrightarrow> int (length ts) \<le> n) \<and>
    (\<exists>ss. subseq ss songs \<and> length ss = length ts \<and>
       (\<forall>i < length ts. good_match m songs (ss ! i) (ts ! i)) \<and>
       (\<forall>i j. i < length ts \<and> j < length ts \<and> lt_id (ts ! i) = lt_id (ts ! j) \<longrightarrow> ss ! i = ss ! j))"
proof -
  from matched_songs [OF assms] obtain f ss where ss: "subseq ss songs" "selected_for f ss ts"
    "length ss = length ts"
    "\<And>i. i < length ts \<Longrightarrow> in_library lib (ts ! i) \<and> good_match m songs (ss ! i) (ts ! i)"
    by metis
  with matched_tracks_library [OF assms] matched_tracks_count [OF assms(3)] show ?thesis
    unfolding selected_for_def by blast
qed

section \<open>Identifiers come first\<close>

lemma select_loop_keeps: "set ts \<subseteq> set (select_loop f n ts added songs)"
  by (induction songs arbitrary: ts added) (auto split: option.split, (force)+)

lemma select_loop_covers:
  assumes "dom added = lt_id ` set ts" "n < 0 \<or> int (length ts + length songs) \<le> n"
    and "s \<in> set songs" "f s = Some t"
  shows "lt_id t \<in> lt_id ` set (select_loop f n ts added songs)"
  using assms(1-3)
proof (induction songs arbitrary: ts added)
  case (Cons u us)
  from Cons.prems(2) have go: "int (length ts) \<noteq> n" by auto
  show ?case
  proof (cases "s = u")
    case True
    have "set ts \<subseteq> set (select_loop f n ts added us)" by (rule select_loop_keeps)
    moreover have "lt_id t \<in> lt_id ` set ts" if "added (lt_id t) = Some p" for p
      using that Cons.prems(1) by auto
    ultimately have "lt_id t \<in> lt_id ` set (select_loop f n ts added us)"
      if "added (lt_id t) = Some p" for p
      using that by blast
    moreover have "lt_id t \<in> lt_id ` set (select_loop f n (ts @ [t]) a us)" for a
      using select_loop_keeps [of "ts @ [t]" f n a us] by auto
    ultimately show ?thesis
      using True go assms(4) by (auto split: option.split)
  next
    case False
    with Cons.prems(3) have s: "s \<in> set us" by simp
    show ?thesis
    proof (cases "f u")
      case None
      with Cons.IH [OF Cons.prems(1) _ s] Cons.prems(2) go show ?thesis by auto
    next
      case (Some v)
      have d: "dom (added(lt_id v \<mapsto> u)) = lt_id ` set (ts @ [v])"
        using Cons.prems(1) by auto
      have e: "dom added = lt_id ` set (ts @ [v])" if "added (lt_id v) = Some p" for p
        using Cons.prems(1) that by auto
      have l: "n < 0 \<or> int (length (ts @ [v]) + length us) \<le> n" using Cons.prems(2) by auto
      have l': "n < 0 \<or> int (length ts + length us) \<le> n" using Cons.prems(2) by auto
      from Some go Cons.IH [OF d l s] Cons.IH [OF e l s] Cons.IH [OF Cons.prems(1) l' s]
      show ?thesis by (auto simp: fun_upd_def split: option.split)
    qed
  qed
qed simp

lemma load_by_id_hit:
  assumes "db_faithful m lib" "db_complete m lib" "load_by_id m songs = Inr mp"
    and "s \<in> set songs" "as_id s \<noteq> []" "t \<in> lib" "\<not> lt_missing t" "lt_id t = as_id s"
  shows "\<exists>t'. mp (as_id s) = Some t' \<and> lt_id t' = as_id s"
proof -
  let ?ids = "filter (\<lambda>i. i \<noteq> []) (map as_id songs)"
  have i: "as_id s \<in> set ?ids" using assms(4,5) by auto
  then have "?ids \<noteq> []" by (metis empty_iff empty_set)
  with assms(3) obtain ts where q: "find_tracks m (By_ids ?ids) = Inr ts"
    and mp: "mp = index_tracks (\<lambda>t. [lt_id t]) ts"
    by (auto simp: load_by_id_def load_tracks_def simp del: filter_map split: if_splits sum.splits)
  have "query_meets (By_ids ?ids) t" using i assms(7,8) by (simp add: query_meets_def)
  with assms(2,6) q have "t \<in> set ts" unfolding db_complete_def by blast
  then have "mp (as_id s) \<noteq> None" unfolding mp by (rule index_tracks_key) (simp add: assms(8))
  moreover have "index_ok (\<lambda>_. True) (\<lambda>k t. k \<in> set [lt_id t]) mp"
    unfolding mp by (rule index_ok_tracks) simp
  ultimately show ?thesis by (auto simp: index_ok_def)
qed

text \<open>
  A song that names a track of the library by its id comes out as that track, whatever
  else it says: when no error stops the matching and the limit leaves room, the result contains
  the track with the song's id.
\<close>

lemma song_with_id_is_returned:
  assumes "db_faithful m lib" "db_complete m lib" "match_songs_to_library m songs n = Inr ts"
    and "n < 0 \<or> int (length songs) \<le> n"
    and "s \<in> set songs" "as_id s \<noteq> []" "t \<in> lib" "\<not> lt_missing t" "lt_id t = as_id s"
  shows "as_id s \<in> lt_id ` set ts"
proof -
  from match_songs_cases [OF assms(3)] obtain a b c where a: "load_by_id m songs = Inr a"
    and ts: "ts = select_best_matching_songs m songs [a, b, c]
                   (load_by_title_and_artist m songs [a, b, c]) n" by blast
  from load_by_id_hit [OF assms(1,2) a assms(5-9)] obtain t' where
    t': "a (as_id s) = Some t'" "lt_id t' = as_id s" by blast
  then have "find_matching_track m [a, b, c] (load_by_title_and_artist m songs [a, b, c]) s = Some t'"
    using assms(6) by (simp add: find_matching_track_def lookup_by_identifiers_def map_hit_def)
  from select_loop_covers [where added = Map.empty and ts = "[]" and n = n and s = s and songs = songs
      and t = t' and f = "find_matching_track m [a, b, c] (load_by_title_and_artist m songs [a, b, c])"]
    this assms(4,5) t'(2)
  show ?thesis by (simp add: ts select_best_matching_songs_def)
qed

text \<open>
  Among an artist's tracks \<open>findBestMatch\<close> returns, for a threshold that is not negative,
  the first of the best: a track whose title is similar enough, that no other such track beats
  in (title similarity, duration proximity, specificity, album similarity), compared in that
  order, and that beats all such tracks before it; and nothing exactly when no title is similar
  enough.
\<close>

lemma best_match_is_first_best:
  assumes "0 \<le> th"
  shows "(find_best_match m q ts th = Some t \<longleftrightarrow> first_best m q th ts t) \<and>
    (find_best_match m q ts th = None \<longleftrightarrow>
       (\<forall>u \<in> set ts. similarity_ratio m (sq_title q) (sort_field m (lt_title u)) < th))"
proof -
  have "find_best_match m q ts th = None \<longleftrightarrow> (\<forall>u \<in> set ts. \<not> candidate m q th u)"
    using find_best_match_None(1) [OF assms] find_best_match_None(2) [OF assms]
    by (metis option.distinct(1))
  with find_best_match_first_best [OF assms] show ?thesis
    by (simp add: query_candidate not_le)
qed

section \<open>On a small library\<close>

definition two_versions :: "lib_track list" where
  "two_versions =
     [\<lparr>lt_id = ''t1'', lt_title = ''Song'', lt_artist = ''The Band'', lt_order_artist = ''band'',
       lt_album = ''One'', lt_artist_mbid = [], lt_album_mbid = [], lt_recording_mbid = [],
       lt_isrcs = [], lt_duration = 180, lt_missing = False\<rparr>,
      \<lparr>lt_id = ''t2'', lt_title = ''Song'', lt_artist = ''The Band'', lt_order_artist = ''band'',
       lt_album = ''Two'', lt_artist_mbid = [], lt_album_mbid = [], lt_recording_mbid = [],
       lt_isrcs = [], lt_duration = 240, lt_missing = False\<rparr>]"

definition list_matcher :: "lib_track list \<Rightarrow> matcher" where
  "list_matcher L =
     \<lparr>accents = (\<lambda>s. s), ignored_articles = ''The'', jaro_winkler = (\<lambda>a b. 0), match_threshold = 85,
      find_tracks = (\<lambda>q. Inr (filter (query_meets q) L)), artist_order = (\<lambda>as. as)\<rparr>"

definition song_of :: "string \<Rightarrow> string \<Rightarrow> agent_song" where
  "song_of i album =
     \<lparr>as_id = i, as_name = ''Song'', as_mbid = [], as_isrc = [], as_artist = ''The Band'',
      as_artist_mbid = [], as_album = album, as_album_mbid = [], as_duration = 0\<rparr>"

lemma list_matcher_ok:
  "db_faithful (list_matcher L) (set L)" "db_complete (list_matcher L) (set L)"
  "order_of_keys (list_matcher L)"
  by (auto simp: db_faithful_def db_complete_def order_of_keys_def list_matcher_def)

text \<open>
  The matches by title are kept under the key title and artist alone. Two songs of one list
  that differ in the album (or the duration) share the match of the first, and the second song
  is then dropped as a duplicate, although its own album is in the library.
\<close>

lemma demo_fields:
  "sort_field (list_matcher L) ''Song'' = ''song''" "sort_field (list_matcher L) ''One'' = ''one''"
  "sort_field (list_matcher L) ''Two'' = ''two''" "sort_artist (list_matcher L) ''The Band'' = ''band''"
  by (simp_all add: sort_field_def sort_artist_def sanitize_field_for_sorting_def list_matcher_def
      sanitize_field_no_article_def remove_article_def trim_prefix_def clear_ascii go_defs
      trim_space_def trim_left_def trim_right_def is_space_def Let_def
      char_of_def bit_0)

lemmas demo_eval = demo_fields song_of_def two_versions_def match_songs_to_library_def
  load_by_id_def load_by_mbid_def load_by_isrc_def load_tracks_def song_matched_in_def
  lookup_by_identifiers_def map_hit_def query_meets_def index_tracks_def put_new_def
  load_by_title_and_artist_def build_title_queries_def title_threshold_def title_key_def
  find_best_match_def track_score_def better_than_def similarity_ratio_def proximity_def
  compute_specificity_level_def select_best_matching_songs_def find_matching_track_def

lemma list_matcher_fields [simp]:
  "find_tracks (list_matcher L) q = Inr (filter (query_meets q) L)"
  "artist_order (list_matcher L) as = as" "match_threshold (list_matcher L) = 85"
  "jaro_winkler (list_matcher L) a b = 0"
  by (simp_all add: list_matcher_def)

lemma second_version_dropped:
  "match_songs_to_library (list_matcher two_versions) [song_of [] ''One'', song_of [] ''Two''] 2
     = Inr [two_versions ! 0]"
  "match_songs_to_library (list_matcher two_versions) [song_of [] ''Two''] 2
     = Inr [two_versions ! 1]"
  by (simp_all add: demo_eval)

lemma matched_tracks_fit_witness:
  "set [two_versions ! 0] \<subseteq> {t \<in> set two_versions. \<not> lt_missing t} \<and> int (length [two_versions ! 0]) \<le> 2"
  using matched_tracks_fit [OF list_matcher_ok(1,3) second_version_dropped(1)] by auto

lemma song_with_id_is_returned_witness: "''t2'' \<in> lt_id ` set [two_versions ! 1, two_versions ! 0]"
proof -
  have "match_songs_to_library (list_matcher two_versions) [song_of ''t2'' ''One'', song_of [] ''One''] (- 1)
      = Inr [two_versions ! 1, two_versions ! 0]"
    by (simp add: demo_eval)
  from song_with_id_is_returned [OF list_matcher_ok(1,2) this, of "song_of ''t2'' ''One''" "two_versions ! 1"]
  show ?thesis by (simp add: song_of_def two_versions_def)
qed

lemma best_match_is_first_best_witness:
  "find_best_match (list_matcher two_versions)
     \<lparr>sq_title = ''song'', sq_artist = ''band'', sq_artist_mbid = [], sq_album = [],
      sq_album_mbid = [], sq_duration_ms = 240000\<rparr> two_versions (85 / 100) = Some (two_versions ! 1)
   \<and> first_best (list_matcher two_versions)
     \<lparr>sq_title = ''song'', sq_artist = ''band'', sq_artist_mbid = [], sq_album = [],
      sq_album_mbid = [], sq_duration_ms = 240000\<rparr> (85 / 100) two_versions (two_versions ! 1)"
proof -
  let ?m = "list_matcher two_versions"
  let ?q = "\<lparr>sq_title = ''song'', sq_artist = ''band'', sq_artist_mbid = [], sq_album = [],
      sq_album_mbid = [], sq_duration_ms = 240000\<rparr>"
  have "find_best_match ?m ?q two_versions (85 / 100) = Some (two_versions ! 1)"
    by (simp add: demo_eval)
  with best_match_is_first_best [of "85 / 100" ?m ?q two_versions "two_versions ! 1"]
  show ?thesis by simp
qed

end
