(* ===== verification/WeightedChooser.thy ===== *)
theory WeightedChooser
  imports Main
begin

text \<open>
  The weighted random choice of \<open>utils/random/weighted_random_chooser.go\<close>. The random number
  that \<open>Int64N\<close> draws from \<open>0 \<le> r < total\<close> is an argument, so that the distribution can be
  stated: each entry is chosen for as many numbers as its weight.
\<close>

text \<open>Arithmetic of \<open>int64\<close> and, on the platforms the server is built for, of \<open>int\<close>.\<close>

definition wrap64 :: "int \<Rightarrow> int" where
  "wrap64 n = (n + 2 ^ 63) mod 2 ^ 64 - 2 ^ 63"

lemma wrap64_id: "- (2 ^ 63) \<le> n \<Longrightarrow> n < 2 ^ 63 \<Longrightarrow> wrap64 n = n"
  by (simp add: wrap64_def)

record 'a chooser =
  entries :: "'a list"
  weights :: "int list"
  total_weight :: int

datatype choose_error =
    Zero_weight | Empty_list | Unreachable_code | Index_out_of_bounds | Draw_panics

definition new_chooser :: "'a chooser" where
  "new_chooser = \<lparr>entries = [], weights = [], total_weight = 0\<rparr>"

definition add_choice :: "'a \<Rightarrow> int \<Rightarrow> 'a chooser \<Rightarrow> 'a chooser" where
  "add_choice v w c =
     c\<lparr>entries := entries c @ [v], weights := weights c @ [w], total_weight := wrap64 (total_weight c + w)\<rparr>"

fun choose_index :: "int \<Rightarrow> nat \<Rightarrow> int list \<Rightarrow> nat option" where
  "choose_index r i [] = None"
| "choose_index r i (w # ws) = (if wrap64 (r - w) < 0 then Some i else choose_index (wrap64 (r - w)) (Suc i) ws)"

text \<open>\<open>Int64N(n)\<close> panics when \<open>n \<le> 0\<close> (\<open>crypto/rand.Int\<close> does).\<close>

definition weighted_choice :: "int \<Rightarrow> 'a chooser \<Rightarrow> choose_error + nat" where
  "weighted_choice r c =
     (if entries c = [] then Inl Empty_list
      else if total_weight c \<le> 0 then Inl Draw_panics
      else (case choose_index r 0 (weights c) of
              Some i \<Rightarrow> Inr i
            | None \<Rightarrow> Inl Unreachable_code))"

definition delete_at :: "nat \<Rightarrow> 'a list \<Rightarrow> 'a list" where
  "delete_at i xs = take i xs @ drop (Suc i) xs"

definition remove_choice :: "nat \<Rightarrow> 'a chooser \<Rightarrow> choose_error + 'a chooser" where
  "remove_choice i c =
     (if length (entries c) \<le> i then Inl Index_out_of_bounds
      else Inr (c\<lparr>total_weight := wrap64 (total_weight c - weights c ! i),
                  weights := delete_at i (weights c), entries := delete_at i (entries c)\<rparr>))"

definition pick_choice :: "int \<Rightarrow> 'a chooser \<Rightarrow> choose_error + 'a \<times> 'a chooser" where
  "pick_choice r c =
     (if total_weight c = 0 then Inl Zero_weight
      else (case weighted_choice r c of
              Inl e \<Rightarrow> Inl e
            | Inr i \<Rightarrow>
                (case remove_choice i c of
                   Inl _ \<Rightarrow> Inr (entries c ! i, c)
                 | Inr c' \<Rightarrow> Inr (entries c ! i, c'))))"

text \<open>
  The invariant: the total is the sum of the weights, which are positive, and it has not
  wrapped around.
\<close>

definition chooser_ok :: "'a chooser \<Rightarrow> bool" where
  "chooser_ok c \<longleftrightarrow>
     length (entries c) = length (weights c) \<and> total_weight c = sum_list (weights c) \<and>
     total_weight c < 2 ^ 63 \<and> (\<forall>w \<in> set (weights c). 0 < w)"

lemma chooser_ok_new [simp]: "chooser_ok new_chooser"
  by (simp add: chooser_ok_def new_chooser_def)

lemma chooser_total_nonneg: "chooser_ok c \<Longrightarrow> 0 \<le> total_weight c"
proof -
  assume "chooser_ok c"
  moreover from this have "0 \<le> sum_list (weights c)"
    by (intro sum_list_nonneg) (auto simp: chooser_ok_def intro: less_imp_le)
  ultimately show ?thesis by (simp add: chooser_ok_def)
qed

lemma add_choice_total:
  assumes "chooser_ok c" "0 < w" "total_weight c + w < 2 ^ 63"
  shows "total_weight (add_choice v w c) = total_weight c + w"
  using assms chooser_total_nonneg [OF assms(1)] by (simp add: add_choice_def wrap64_id)

lemma chooser_ok_add:
  assumes "chooser_ok c" "0 < w" "total_weight c + w < 2 ^ 63"
  shows "chooser_ok (add_choice v w c)"
  using assms add_choice_total [OF assms] by (auto simp: chooser_ok_def) (auto simp: add_choice_def)

text \<open>On weights in range the choice is the plain subtraction method.\<close>

fun plain_index :: "int \<Rightarrow> nat \<Rightarrow> int list \<Rightarrow> nat option" where
  "plain_index r i [] = None"
| "plain_index r i (w # ws) = (if r - w < 0 then Some i else plain_index (r - w) (Suc i) ws)"

lemma choose_index_plain:
  assumes "0 \<le> r" "r < 2 ^ 63" "\<forall>w \<in> set ws. 0 < w \<and> w < 2 ^ 63"
  shows "choose_index r i ws = plain_index r i ws"
  using assms
proof (induction ws arbitrary: r i)
  case (Cons w ws)
  then have "wrap64 (r - w) = r - w" by (intro wrap64_id) auto
  with Cons show ?case by auto
qed simp

lemma member_le_total:
  assumes "\<forall>w \<in> set ws. 0 < (w :: int)" "x \<in> set ws"
  shows "x \<le> sum_list ws"
  using assms(2,1) by (intro member_le_sum_list) (auto intro: less_imp_le)

lemma chooser_index_plain:
  assumes "chooser_ok c" "0 \<le> r" "r < total_weight c"
  shows "choose_index r i (weights c) = plain_index r i (weights c)"
  by (rule choose_index_plain)
    (use assms member_le_total [of "weights c"] in \<open>force simp: chooser_ok_def\<close>)+

lemma plain_index_Some:
  "plain_index r i ws = Some k \<longleftrightarrow>
     i \<le> k \<and> k < i + length ws \<and> r < sum_list (take (Suc (k - i)) ws) \<and>
     (\<forall>j \<le> k - i. sum_list (take j ws) \<le> r \<or> j = 0)"
proof (induction r i ws rule: plain_index.induct)
  case (2 r i w ws)
  show ?case
  proof (cases "r - w < 0")
    case True
    have "\<not> (i < k \<and> (\<forall>j \<le> k - i. sum_list (take j (w # ws)) \<le> r \<or> j = 0))"
      using True by (auto intro!: exI [of _ 1])
    with True show ?thesis by (auto simp: le_less)
  next
    case False
    have *: "(\<forall>j \<le> k - i. sum_list (take j (w # ws)) \<le> r \<or> j = 0) \<longleftrightarrow>
        (\<forall>j \<le> k - Suc i. sum_list (take j ws) \<le> r - w \<or> j = 0)" if "i < k"
    proof
      assume A: "\<forall>j \<le> k - i. sum_list (take j (w # ws)) \<le> r \<or> j = 0"
      show "\<forall>j \<le> k - Suc i. sum_list (take j ws) \<le> r - w \<or> j = 0"
      proof (intro allI impI)
        fix j assume "j \<le> k - Suc i"
        then have "Suc j \<le> k - i" using that by simp
        with A [rule_format, of "Suc j"] that show "sum_list (take j ws) \<le> r - w \<or> j = 0" by auto
      qed
    next
      assume A: "\<forall>j \<le> k - Suc i. sum_list (take j ws) \<le> r - w \<or> j = 0"
      show "\<forall>j \<le> k - i. sum_list (take j (w # ws)) \<le> r \<or> j = 0"
      proof (intro allI impI)
        fix j assume j: "j \<le> k - i"
        show "sum_list (take j (w # ws)) \<le> r \<or> j = 0"
        proof (cases j)
          case (Suc j')
          with j have "j' \<le> k - Suc i" by simp
          with A [rule_format, of j'] Suc False show ?thesis by (cases j') auto
        qed simp
      qed
    qed
    show ?thesis
    proof (cases "i < k")
      case True
      then have "Suc (k - i) = Suc (Suc (k - Suc i))" by simp
      with False 2 [OF False] * [OF True] True show ?thesis by auto
    qed (use False 2 [OF False] in \<open>auto simp: not_less\<close>)
  qed
qed simp

lemma plain_index_total:
  assumes "\<forall>w \<in> set ws. 0 < w" "0 \<le> r" "r < sum_list ws"
  shows "\<exists>k < length ws. plain_index r i ws = Some (i + k)"
  using assms
proof (induction ws arbitrary: r i)
  case (Cons w ws)
  show ?case
  proof (cases "r - w < 0")
    case False
    with Cons.IH [of "r - w" "Suc i"] Cons.prems obtain k where
      "k < length ws" "plain_index (r - w) (Suc i) ws = Some (Suc i + k)" by auto
    with False show ?thesis by (intro exI [of _ "Suc k"]) simp
  qed (intro exI [of _ 0], simp)
qed simp

lemma sum_list_delete_at:
  "i < length (ws :: int list) \<Longrightarrow> sum_list (delete_at i ws) = sum_list ws - ws ! i"
  by (subst (2) id_take_nth_drop [of i ws]) (auto simp: delete_at_def)

lemma set_delete_at: "set (delete_at i xs) \<subseteq> set xs"
  by (auto simp: delete_at_def dest: in_set_takeD in_set_dropD)

lemma length_delete_at: "i < length xs \<Longrightarrow> length (delete_at i xs) = length xs - 1"
  by (simp add: delete_at_def)

text \<open>
  With the invariant and something to choose from, a draw in range always picks an entry, takes
  it out, and keeps the invariant.
\<close>

lemma pick_choice_ok:
  assumes "chooser_ok c" "entries c \<noteq> []" "0 \<le> r" "r < total_weight c"
  shows "\<exists>i < length (entries c). plain_index r 0 (weights c) = Some i \<and>
    pick_choice r c =
      Inr (entries c ! i, \<lparr>entries = delete_at i (entries c), weights = delete_at i (weights c),
                            total_weight = total_weight c - weights c ! i\<rparr>) \<and>
    chooser_ok \<lparr>entries = delete_at i (entries c), weights = delete_at i (weights c),
                 total_weight = total_weight c - weights c ! i\<rparr>"
proof -
  from plain_index_total [of "weights c" r 0] assms obtain i where
    i: "i < length (weights c)" "plain_index r 0 (weights c) = Some i"
    by (auto simp: chooser_ok_def)
  have "0 < weights c ! i" "weights c ! i \<le> total_weight c"
    using assms(1) i(1) member_le_total [of "weights c"] by (auto simp: chooser_ok_def)
  with assms(1) have wrap: "wrap64 (total_weight c - weights c ! i) = total_weight c - weights c ! i"
    by (intro wrap64_id) (auto simp: chooser_ok_def)
  from i assms have "i < length (entries c)" by (simp add: chooser_ok_def)
  moreover have "pick_choice r c =
      Inr (entries c ! i, \<lparr>entries = delete_at i (entries c), weights = delete_at i (weights c),
                            total_weight = total_weight c - weights c ! i\<rparr>)"
    using assms(2-4) i(2) calculation chooser_index_plain [OF assms(1,3,4)] wrap
    by (cases c) (simp add: pick_choice_def weighted_choice_def remove_choice_def)
  moreover have "chooser_ok \<lparr>entries = delete_at i (entries c), weights = delete_at i (weights c),
                 total_weight = total_weight c - weights c ! i\<rparr>"
    using assms(1) i(1) set_delete_at [of i "weights c"] \<open>0 < weights c ! i\<close>
    by (auto simp: chooser_ok_def length_delete_at sum_list_delete_at)
      (use \<open>0 < weights c ! i\<close> in linarith)
  ultimately show ?thesis using i(2) by blast
qed

lemma total_positive:
  assumes "chooser_ok c" "entries c \<noteq> []"
  shows "0 < total_weight c"
proof -
  from assms obtain w ws where w: "weights c = w # ws" by (cases "weights c") (auto simp: chooser_ok_def)
  with assms have "0 < w" "\<forall>x \<in> set ws. 0 < x" by (auto simp: chooser_ok_def)
  then have "0 \<le> sum_list ws" by (intro sum_list_nonneg) auto
  with \<open>0 < w\<close> w assms(1) show ?thesis by (simp add: chooser_ok_def)
qed

text \<open>
  The choice is fair to the weights: of the numbers that can be drawn, exactly as many
  pick the \<open>i\<close>-th entry as its weight says.
\<close>

lemma weighted_choice_fair:
  assumes "chooser_ok c" "i < length (entries c)"
  shows "card {r. 0 \<le> r \<and> r < total_weight c \<and> weighted_choice r c = Inr i} = nat (weights c ! i)"
proof -
  let ?ws = "weights c"
  have ne: "entries c \<noteq> []" and len: "i < length ?ws"
    using assms by (auto simp: chooser_ok_def)
  have pos: "0 \<le> sum_list (take j ?ws)" for j
    using assms(1) by (intro sum_list_nonneg) (auto simp: chooser_ok_def dest!: in_set_takeD intro: less_imp_le)
  have mono: "sum_list (take j ?ws) \<le> sum_list (take k ?ws)" if "j \<le> k" for j k
  proof -
    have "0 \<le> sum_list (take (k - j) (drop j ?ws))"
      using assms(1) by (intro sum_list_nonneg)
        (auto simp: chooser_ok_def dest!: in_set_takeD in_set_dropD intro: less_imp_le)
    moreover have "take k ?ws = take j ?ws @ take (k - j) (drop j ?ws)"
      using that by (metis le_add_diff_inverse take_add)
    ultimately show ?thesis by simp
  qed
  have tot: "total_weight c = sum_list (take (length ?ws) ?ws)"
    using assms(1) by (simp add: chooser_ok_def)
  have suc: "sum_list (take (Suc i) ?ws) = sum_list (take i ?ws) + ?ws ! i"
    using len by (simp add: take_Suc_conv_app_nth)
  have "weighted_choice r c = Inr i \<longleftrightarrow> sum_list (take i ?ws) \<le> r \<and> r < sum_list (take (Suc i) ?ws)"
    if "0 \<le> r" "r < total_weight c" for r
  proof -
    have "weighted_choice r c = Inr i \<longleftrightarrow> plain_index r 0 ?ws = Some i"
      using ne total_positive [OF assms(1) ne] chooser_index_plain [OF assms(1) that] by (auto simp: weighted_choice_def split: option.split)
    also have "\<dots> \<longleftrightarrow> r < sum_list (take (Suc i) ?ws) \<and> (\<forall>j \<le> i. sum_list (take j ?ws) \<le> r \<or> j = 0)"
      using len by (simp add: plain_index_Some)
    also have "\<dots> \<longleftrightarrow> sum_list (take i ?ws) \<le> r \<and> r < sum_list (take (Suc i) ?ws)"
      using mono that(1) by (metis le_refl order_trans sum_list.Nil take_0)
    finally show ?thesis .
  qed
  then have "{r. 0 \<le> r \<and> r < total_weight c \<and> weighted_choice r c = Inr i}
      = {sum_list (take i ?ws) ..< sum_list (take i ?ws) + ?ws ! i}"
    using pos [of i] mono [of "Suc i" "length ?ws"] len by (auto simp: tot suc)
  then show ?thesis by simp
qed

lemma weighted_choice_fair_witness:
  "card {r. 0 \<le> r \<and> r < (4 :: int) \<and>
      weighted_choice r \<lparr>entries = [''a'', ''b''], weights = [1, 3], total_weight = 4\<rparr> = Inr (Suc 0)} = 3"
  using weighted_choice_fair
    [of "\<lparr>entries = [''a'', ''b''], weights = [1, 3], total_weight = 4\<rparr>" "Suc 0"]
  by (simp add: chooser_ok_def)

end
