(* ===== verification/ExternalSongs.thy ===== *)
theory ExternalSongs
  imports SongMatching WeightedChooser
begin

text \<open>
  Top songs and similar songs of the external metadata provider (\<open>core/external/provider.go\<close>),
  composed of the meta-agent (theory \<open>Agents\<close>), the matching with the library (theory
  \<open>SongMatching\<close>) and the weighted choice (theory \<open>WeightedChooser\<close>). The provider asks its
  agents through an interface, a record of functions here; \<open>agents_api\<close> builds it from the
  meta-agent. The loops that are not structural are partial functions with \<open>None\<close> for a call
  that does not come back with a result, so that returning is something to prove.
\<close>

section \<open>Entities\<close>

record artist_ref =
  ar_id :: string
  ar_name :: string
  ar_mbid :: string

record ext_artist = artist_ref +
  ar_biography :: string
  ar_small_image :: string
  ar_medium_image :: string
  ar_large_image :: string
  ar_external_url :: string
  ar_similar :: "artist_ref list"
  ar_info_updated :: "go_time option"

record ext_album =
  al_id :: string
  al_name :: string
  al_album_artist :: string
  al_album_artist_id :: string
  al_mbid :: string
  al_description :: string
  al_small_image :: string
  al_medium_image :: string
  al_large_image :: string
  al_external_url :: string
  al_info_updated :: "go_time option"

record ext_track =
  tr_id :: string
  tr_title :: string
  tr_artist :: string
  tr_artist_id :: string
  tr_album_id :: string
  tr_recording_mbid :: string

datatype entity =
    Artist_entity ext_artist
  | Album_entity ext_album
  | Playlist_entity
  | Track_entity ext_track
  | Radio_entity

record entity_db =
  artist_row :: "string \<Rightarrow> ext_artist option"
  album_row :: "string \<Rightarrow> ext_album option"
  is_playlist :: "string \<Rightarrow> bool"
  track_row :: "string \<Rightarrow> ext_track option"
  is_radio :: "string \<Rightarrow> bool"

definition get_entity_by_id :: "entity_db \<Rightarrow> string \<Rightarrow> entity option" where
  "get_entity_by_id db i =
     (case artist_row db i of Some a \<Rightarrow> Some (Artist_entity a) | None \<Rightarrow>
     (case album_row db i of Some a \<Rightarrow> Some (Album_entity a) | None \<Rightarrow>
      if is_playlist db i then Some Playlist_entity else
     (case track_row db i of Some t \<Rightarrow> Some (Track_entity t) | None \<Rightarrow>
      if is_radio db i then Some Radio_entity else None)))"

datatype provider_error =
    Not_found_error
  | Top_songs_failed string agent_error
  | Agent_failed agent_error
  | Match_failed string
  | Query_failed string
  | Canceled_error
  | Nil_dereference

text \<open>\<open>getArtist\<close> and \<open>getAlbum\<close> follow the references of tracks and albums.\<close>

partial_function (option) get_artist :: "entity_db \<Rightarrow> string \<Rightarrow> (provider_error + ext_artist) option"
where
  "get_artist db i =
     (case get_entity_by_id db i of
        None \<Rightarrow> Some (Inl Not_found_error)
      | Some (Artist_entity a) \<Rightarrow> Some (Inr a)
      | Some (Track_entity t) \<Rightarrow> get_artist db (tr_artist_id t)
      | Some (Album_entity a) \<Rightarrow> get_artist db (al_album_artist_id a)
      | Some _ \<Rightarrow> Some (Inl Not_found_error))"

partial_function (option) get_album :: "entity_db \<Rightarrow> string \<Rightarrow> (provider_error + ext_album) option"
where
  "get_album db i =
     (case get_entity_by_id db i of
        None \<Rightarrow> Some (Inl Not_found_error)
      | Some (Album_entity a) \<Rightarrow> Some (Inr a)
      | Some (Track_entity t) \<Rightarrow> get_album db (tr_album_id t)
      | Some _ \<Rightarrow> Some (Inl Not_found_error))"

text \<open>
  The references of the database end: the artist of an album and of a track is not a track or
  an album, and the album of a track is not a track.
\<close>

definition db_refs_end :: "entity_db \<Rightarrow> bool" where
  "db_refs_end db \<longleftrightarrow>
     (\<forall>i t. track_row db i = Some t \<longrightarrow>
        (\<forall>e. get_entity_by_id db (tr_artist_id t) = Some e \<longrightarrow> \<not> (\<exists>u. e = Track_entity u)) \<and>
        (\<forall>e. get_entity_by_id db (tr_album_id t) = Some e \<longrightarrow> \<not> (\<exists>u. e = Track_entity u))) \<and>
     (\<forall>i a e. album_row db i = Some a \<longrightarrow> get_entity_by_id db (al_album_artist_id a) = Some e \<longrightarrow>
        \<not> (\<exists>u. e = Track_entity u) \<and> \<not> (\<exists>u. e = Album_entity u))"

lemma entity_track: "get_entity_by_id db i = Some (Track_entity t) \<Longrightarrow> track_row db i = Some t"
  by (auto simp: get_entity_by_id_def split: option.splits if_splits)

lemma entity_album: "get_entity_by_id db i = Some (Album_entity a) \<Longrightarrow> album_row db i = Some a"
  by (auto simp: get_entity_by_id_def split: option.splits if_splits)

lemma get_artist_of_album:
  assumes "db_refs_end db" "album_row db i = Some a"
  shows "get_artist db (al_album_artist_id a) \<noteq> None"
proof -
  have "\<not> (\<exists>u. e = Track_entity u) \<and> \<not> (\<exists>u. e = Album_entity u)"
    if "get_entity_by_id db (al_album_artist_id a) = Some e" for e
    using assms that unfolding db_refs_end_def by blast
  then show ?thesis by (subst get_artist.simps) (auto split: option.split entity.split)
qed

lemma get_artist_returns:
  assumes "db_refs_end db"
  shows "get_artist db i \<noteq> None"
proof (cases "get_entity_by_id db i")
  case (Some e)
  show ?thesis
  proof (cases e)
    case (Album_entity a)
    with get_artist_of_album [OF assms entity_album] Some show ?thesis
      by (subst get_artist.simps) simp
  next
    case (Track_entity t)
    have no_track: "\<not> (\<exists>u. e' = Track_entity u)"
      if "get_entity_by_id db (tr_artist_id t) = Some e'" for e'
      using assms entity_track [OF Some [unfolded Track_entity]] that
      unfolding db_refs_end_def by blast
    have "get_artist db (tr_artist_id t) \<noteq> None"
    proof (cases "get_entity_by_id db (tr_artist_id t)")
      case (Some e')
      with no_track get_artist_of_album [OF assms entity_album] show ?thesis
        by (subst get_artist.simps) (auto split: entity.split)
    qed (subst get_artist.simps, simp)
    with Some Track_entity show ?thesis by (subst get_artist.simps) simp
  qed (use Some in \<open>subst get_artist.simps, simp\<close>)+
qed (subst get_artist.simps, simp)

lemma get_album_returns:
  assumes "db_refs_end db"
  shows "get_album db i \<noteq> None"
proof (cases "get_entity_by_id db i")
  case (Some e)
  show ?thesis
  proof (cases e)
    case (Track_entity t)
    have "\<not> (\<exists>u. e' = Track_entity u)" if "get_entity_by_id db (tr_album_id t) = Some e'" for e'
      using assms entity_track [OF Some [unfolded Track_entity]] that
      unfolding db_refs_end_def by blast
    then have "get_album db (tr_album_id t) \<noteq> None"
      by (subst get_album.simps) (auto split: option.split entity.split)
    with Some Track_entity show ?thesis by (subst get_album.simps) simp
  qed (use Some in \<open>subst get_album.simps, simp\<close>)+
qed (subst get_album.simps, simp)

section \<open>The agents and the repositories the provider uses\<close>

datatype artist_query =
    Artists_by_id "string list"
  | Artists_by_mbid "string list"
  | Artists_like "string list"

record provider_env =
  entities :: entity_db
  song_matcher :: matcher
  preserve_unicode :: bool
  find_artists :: "artist_query \<Rightarrow> string + artist_ref list"
  api_top_songs :: "agent_song list by_artist_count"
  api_similar_artists :: "agent_artist list by_artist_count"
  api_similar_by_track :: "agent_song list by_song_count"
  api_similar_by_album :: "agent_song list by_song_count"
  api_similar_by_artist :: "agent_song list by_artist_count"

text \<open>The provider on top of the meta-agent of theory \<open>Agents\<close>, for a context that is not done.\<close>

definition agents_api :: "env \<Rightarrow> string \<Rightarrow> rat \<Rightarrow> provider_env \<Rightarrow> provider_env" where
  "agents_api ag unknown mult p =
     p\<lparr>api_top_songs := agents_top_songs ag unknown mult (\<lambda>_. False),
       api_similar_artists := agents_similar_artists ag unknown mult (\<lambda>_. False),
       api_similar_by_track := agents_similar_by_track ag (\<lambda>_. False),
       api_similar_by_album := agents_similar_by_album ag (\<lambda>_. False),
       api_similar_by_artist := agents_similar_by_artist ag unknown (\<lambda>_. False)\<rparr>"

text \<open>\<open>auxArtist.Name\<close> and \<open>auxAlbum.Name\<close>.\<close>

definition aux_name :: "provider_env \<Rightarrow> string \<Rightarrow> string" where
  "aux_name p name = (if preserve_unicode p then name else clear_str name)"

section \<open>Top songs\<close>

definition enrich_song :: "string \<Rightarrow> string \<Rightarrow> agent_song \<Rightarrow> agent_song" where
  "enrich_song name mbid s =
     (let s1 = (if as_artist s = [] then s\<lparr>as_artist := name\<rparr> else s)
      in if as_artist_mbid s1 = [] then s1\<lparr>as_artist_mbid := mbid\<rparr> else s1)"

definition get_matching_top_songs ::
  "provider_env \<Rightarrow> artist_ref \<Rightarrow> int \<Rightarrow> provider_error + lib_track list" where
  "get_matching_top_songs p a n =
     (let name = aux_name p (ar_name a)
      in case api_top_songs p (ar_id a) name (ar_mbid a) n of
           Inl e \<Rightarrow> Inl (Top_songs_failed name e)
         | Inr songs \<Rightarrow>
             (case match_songs_to_library (song_matcher p) (map (enrich_song name (ar_mbid a)) songs) n of
                Inl e \<Rightarrow> Inl (Match_failed e)
              | Inr ts \<Rightarrow> Inr ts))"

text \<open>\<open>TopSongs\<close>: an artist that is not found is an empty answer, not an error.\<close>

definition top_songs :: "provider_env \<Rightarrow> string \<Rightarrow> int \<Rightarrow> provider_error + lib_track list" where
  "top_songs p name n =
     (case find_artists p (Artists_like [name]) of
        Inl e \<Rightarrow> Inr []
      | Inr [] \<Rightarrow> Inr []
      | Inr (a # _) \<Rightarrow>
          (case get_matching_top_songs p a n of
             Inl (Top_songs_failed name' Not_found_agent) \<Rightarrow> Inl Not_found_error
           | r \<Rightarrow> r))"

section \<open>Similar artists\<close>

type_synonym artist_map = "string \<rightharpoonup> artist_ref"

definition put_new_artist :: "string \<Rightarrow> artist_ref \<Rightarrow> artist_map \<Rightarrow> artist_map" where
  "put_new_artist k a mp = (if mp k = None then mp(k \<mapsto> a) else mp)"

definition index_artists ::
  "(artist_ref \<Rightarrow> string) \<Rightarrow> artist_ref list \<Rightarrow> artist_map" where
  "index_artists key as = fold (\<lambda>a. put_new_artist (key a) a) as Map.empty"

definition load_artists ::
  "provider_env \<Rightarrow> (string list \<Rightarrow> artist_query) \<Rightarrow> (artist_ref \<Rightarrow> string) \<Rightarrow> (string \<Rightarrow> bool) \<Rightarrow>
     string list \<Rightarrow> string + artist_map" where
  "load_artists p q key keep ks =
     (if ks = [] then Inr Map.empty
      else (case find_artists p (q ks) of
              Inl e \<Rightarrow> Inl e
            | Inr as \<Rightarrow> Inr (index_artists key (filter (\<lambda>a. keep (key a)) as))))"

text \<open>\<open>m[k].ID != ""\<close> on a Go map: a missing key has the zero artist.\<close>

definition artist_hit :: "artist_map \<Rightarrow> string \<Rightarrow> bool" where
  "artist_hit mp k \<longleftrightarrow> (case mp k of None \<Rightarrow> False | Some a \<Rightarrow> ar_id a \<noteq> [])"

definition load_artists_by_id :: "provider_env \<Rightarrow> agent_artist list \<Rightarrow> string + artist_map" where
  "load_artists_by_id p sim =
     load_artists p Artists_by_id ar_id (\<lambda>_. True) (filter (\<lambda>i. i \<noteq> []) (map aa_id sim))"

definition load_artists_by_mbid ::
  "provider_env \<Rightarrow> agent_artist list \<Rightarrow> artist_map \<Rightarrow> string + artist_map" where
  "load_artists_by_mbid p sim ids =
     load_artists p Artists_by_mbid ar_mbid (\<lambda>k. k \<noteq> [])
       (map aa_mbid (filter (\<lambda>s. \<not> (aa_id s \<noteq> [] \<and> artist_hit ids (aa_id s)) \<and> aa_mbid s \<noteq> []) sim))"

definition load_artists_by_name ::
  "provider_env \<Rightarrow> agent_artist list \<Rightarrow> artist_map \<Rightarrow> artist_map \<Rightarrow> string + artist_map" where
  "load_artists_by_name p sim ids mbids =
     load_artists p Artists_like ar_name (\<lambda>_. True)
       (map aa_name
          (filter (\<lambda>s. \<not> (aa_id s \<noteq> [] \<and> artist_hit ids (aa_id s)) \<and>
                        \<not> (aa_mbid s \<noteq> [] \<and> artist_hit mbids (aa_mbid s))) sim))"

definition present_artist ::
  "artist_map \<Rightarrow> artist_map \<Rightarrow> artist_map \<Rightarrow> agent_artist \<Rightarrow> artist_ref option" where
  "present_artist ids mbids names s =
     (case (if aa_id s \<noteq> [] then ids (aa_id s) else None) of
        Some a \<Rightarrow> Some a
      | None \<Rightarrow>
          (case (if aa_mbid s \<noteq> [] then mbids (aa_mbid s) else None) of
             Some a \<Rightarrow> Some a
           | None \<Rightarrow> names (aa_name s)))"

fun present_loop ::
  "(agent_artist \<Rightarrow> artist_ref option) \<Rightarrow> int \<Rightarrow> artist_ref list \<Rightarrow> string list \<Rightarrow> agent_artist list
     \<Rightarrow> artist_ref list \<times> string list" where
  "present_loop f limit result absent [] = (result, absent)"
| "present_loop f limit result absent (s # ss) =
     (if limit \<le> int (length result) then (result, absent)
      else (case f s of
              Some a \<Rightarrow> present_loop f limit (result @ [a]) absent ss
            | None \<Rightarrow> present_loop f limit result (absent @ [aa_name s]) ss))"

fun fill_absent :: "int \<Rightarrow> artist_ref list \<Rightarrow> string list \<Rightarrow> artist_ref list" where
  "fill_absent limit result [] = result"
| "fill_absent limit result (n # ns) =
     (let result' = result @ [\<lparr>ar_id = [], ar_name = n, ar_mbid = []\<rparr>]
      in if limit \<le> int (length result') then result' else fill_absent limit result' ns)"

definition map_similar_artists ::
  "provider_env \<Rightarrow> agent_artist list \<Rightarrow> int \<Rightarrow> bool \<Rightarrow> string + artist_ref list" where
  "map_similar_artists p sim limit include_absent =
     (case load_artists_by_id p sim of Inl e \<Rightarrow> Inl e | Inr ids \<Rightarrow>
     (case load_artists_by_mbid p sim ids of Inl e \<Rightarrow> Inl e | Inr mbids \<Rightarrow>
     (case load_artists_by_name p sim ids mbids of Inl e \<Rightarrow> Inl e | Inr names \<Rightarrow>
       (let (result, absent) = present_loop (present_artist ids mbids names) limit [] [] sim
        in Inr (if include_absent \<and> int (length result) < limit
                then fill_absent limit result absent else result)))))"

definition call_get_similar_artists ::
  "provider_env \<Rightarrow> ext_artist \<Rightarrow> int \<Rightarrow> bool \<Rightarrow> ext_artist" where
  "call_get_similar_artists p a limit include_absent =
     (case api_similar_artists p (ar_id a) (aux_name p (ar_name a)) (ar_mbid a) limit of
        Inl _ \<Rightarrow> a
      | Inr [] \<Rightarrow> a
      | Inr sim \<Rightarrow>
          (case map_similar_artists p sim limit include_absent of
             Inl _ \<Rightarrow> a
           | Inr as \<Rightarrow> a\<lparr>ar_similar := as\<rparr>))"

lemma present_loop_length:
  "present_loop f limit result absent ss = (r, ns) \<Longrightarrow> int (length result) \<le> limit \<Longrightarrow>
     int (length r) \<le> limit"
  by (induction f limit result absent ss rule: present_loop.induct)
    (auto split: if_splits option.splits)

lemma fill_absent_length:
  "int (length result) < limit \<Longrightarrow> int (length (fill_absent limit result ns)) \<le> limit"
  by (induction limit result ns rule: fill_absent.induct) (auto simp: Let_def)

lemma map_similar_artists_length:
  "map_similar_artists p sim limit inc = Inr as \<Longrightarrow> 0 \<le> limit \<Longrightarrow> int (length as) \<le> limit"
  by (auto simp: map_similar_artists_def fill_absent_length
      split: sum.splits prod.splits if_splits dest: present_loop_length)

section \<open>Similar songs\<close>

definition top_count :: "int \<Rightarrow> int" where
  "top_count n = max n 20"

fun add_weighted :: "int \<Rightarrow> lib_track list \<Rightarrow> lib_track chooser \<Rightarrow> lib_track chooser" where
  "add_weighted w [] c = c"
| "add_weighted w (t # ts) c = add_weighted (wrap64 (w - 4)) ts (add_choice t w c)"

definition add_artist ::
  "provider_env \<Rightarrow> artist_ref \<Rightarrow> int \<Rightarrow> int \<Rightarrow> lib_track chooser \<Rightarrow> lib_track chooser" where
  "add_artist p a n artist_weight c =
     (case get_matching_top_songs p a (top_count n) of
        Inl _ \<Rightarrow> c
      | Inr ts \<Rightarrow> add_weighted (wrap64 (top_count n * (4 + artist_weight))) ts c)"

text \<open>\<open>ctx_done k\<close>: the context is done at the \<open>k\<close>-th test of it.\<close>

fun add_artists ::
  "provider_env \<Rightarrow> (nat \<Rightarrow> bool) \<Rightarrow> nat \<Rightarrow> int \<Rightarrow> artist_ref list \<Rightarrow> lib_track chooser
     \<Rightarrow> provider_error + lib_track chooser" where
  "add_artists p ctx_done k n [] c = Inr c"
| "add_artists p ctx_done k n (a # as) c =
     (if ctx_done k then Inl Canceled_error
      else add_artists p ctx_done (Suc k) n as (add_artist p a n 0 c))"

text \<open>
  The loop that picks: an error of \<open>Pick\<close> is logged and the loop goes on. A panic of the random
  draw is no result.
\<close>

partial_function (option) pick_songs ::
  "(nat \<Rightarrow> int \<Rightarrow> int) \<Rightarrow> int \<Rightarrow> nat \<Rightarrow> lib_track chooser \<Rightarrow> lib_track list \<Rightarrow> lib_track list option"
where
  "pick_songs draw n k c acc =
     (if int (length acc) < n \<and> 0 < length (entries c)
      then (case pick_choice (draw k (total_weight c)) c of
              Inl Draw_panics \<Rightarrow> None
            | Inl _ \<Rightarrow> pick_songs draw n (Suc k) c acc
            | Inr (t, c') \<Rightarrow> pick_songs draw n (Suc k) c' (acc @ [t]))
      else Some acc)"

definition similar_songs_fallback ::
  "provider_env \<Rightarrow> (nat \<Rightarrow> bool) \<Rightarrow> (nat \<Rightarrow> int \<Rightarrow> int) \<Rightarrow> string \<Rightarrow> int
     \<Rightarrow> (provider_error + lib_track list) option" where
  "similar_songs_fallback p ctx_done draw i n =
     (case get_artist (entities p) i of
        None \<Rightarrow> None
      | Some (Inl e) \<Rightarrow> Some (Inl e)
      | Some (Inr a0) \<Rightarrow>
          (let a = call_get_similar_artists p a0 15 False
           in if ctx_done 0 \<or> ctx_done 1 then Some (Inl Canceled_error)
              else (case add_artists p ctx_done 2 n (ar_similar a)
                           (add_artist p (artist_ref.truncate a) n 10 new_chooser) of
                      Inl e \<Rightarrow> Some (Inl e)
                    | Inr c \<Rightarrow> map_option Inr (pick_songs draw n 0 c []))))"

definition similar_songs ::
  "provider_env \<Rightarrow> (nat \<Rightarrow> bool) \<Rightarrow> (nat \<Rightarrow> int \<Rightarrow> int) \<Rightarrow> string \<Rightarrow> int
     \<Rightarrow> (provider_error + lib_track list) option" where
  "similar_songs p ctx_done draw i n =
     (case get_entity_by_id (entities p) i of
        None \<Rightarrow> Some (Inl Not_found_error)
      | Some e \<Rightarrow>
          (case (case e of
                   Track_entity t \<Rightarrow>
                     Some (api_similar_by_track p (tr_id t) (tr_title t) (tr_artist t)
                             (tr_recording_mbid t) n)
                 | Album_entity a \<Rightarrow>
                     Some (api_similar_by_album p (al_id a) (al_name a) (al_album_artist a) (al_mbid a) n)
                 | Artist_entity a \<Rightarrow>
                     Some (api_similar_by_artist p (ar_id a) (ar_name a) (ar_mbid a) n)
                 | _ \<Rightarrow> None) of
             None \<Rightarrow> Some (Inl Not_found_error)
           | Some (Inr (s # ss)) \<Rightarrow>
               (case match_songs_to_library (song_matcher p) (s # ss) n of
                  Inl err \<Rightarrow> Some (Inl (Match_failed err))
                | Inr ts \<Rightarrow> Some (Inr ts))
           | Some _ \<Rightarrow> similar_songs_fallback p ctx_done draw i n))"

section \<open>Similar songs come back\<close>

lemma add_weighted_ok:
  assumes "chooser_ok c" "4 * int (length ts) < w + 4" "w < 2 ^ 62"
    and "total_weight c + int (length ts) * w < 2 ^ 63"
  shows "chooser_ok (add_weighted w ts c) \<and>
    total_weight (add_weighted w ts c) \<le> total_weight c + int (length ts) * w \<and>
    set (entries (add_weighted w ts c)) = set ts \<union> set (entries c)"
  using assms
proof (induction ts arbitrary: w c)
  case (Cons t ts)
  then have w: "0 < w" by simp
  have lw: "0 \<le> int (length ts) * w" using w by simp
  have len: "int (length (t # ts)) * w = w + int (length ts) * w" by (simp add: algebra_simps)
  have tot: "total_weight c + w < 2 ^ 63" using Cons.prems(4) lw unfolding len by linarith
  note add = chooser_ok_add [OF Cons.prems(1) w tot] add_choice_total [OF Cons.prems(1) w tot]
  show ?case
  proof (cases ts)
    case Nil
    with add show ?thesis by (auto simp: add_choice_def)
  next
    case (Cons u us)
    have w4: "wrap64 (w - 4) = w - 4" using w Cons.prems(3) by (intro wrap64_id) auto
    have le: "int (length ts) * (w - 4) \<le> int (length ts) * w" by (simp add: mult_left_mono)
    have c1: "4 * int (length ts) < w - 4 + 4" using Cons.prems(2) by simp
    have c2: "w - 4 < 2 ^ 62" using Cons.prems(3) by simp
    have c3: "total_weight (add_choice t w c) + int (length ts) * (w - 4) < 2 ^ 63"
      using Cons.prems(4) le unfolding len add(2) by linarith
    from Cons.IH [OF add(1) c1 c2 c3] le add(2) w4 show ?thesis
      unfolding len by (auto simp: add_choice_def)
  qed
qed simp

lemma matching_top_songs:
  assumes "db_faithful (song_matcher p) lib" "order_of_keys (song_matcher p)"
    and "get_matching_top_songs p a n = Inr ts" "0 \<le> n"
  shows "int (length ts) \<le> n" "set ts \<subseteq> {t \<in> lib. \<not> lt_missing t}"
proof -
  from assms(3) obtain songs where "match_songs_to_library (song_matcher p) songs n = Inr ts"
    by (auto simp: get_matching_top_songs_def Let_def split: sum.splits)
  from matched_tracks_library [OF assms(1,2) this] matched_tracks_count [OF this assms(4)]
  show "int (length ts) \<le> n" "set ts \<subseteq> {t \<in> lib. \<not> lt_missing t}" by auto
qed

text \<open>How much one artist adds to the total, for counts up to \<open>2^20\<close>.\<close>

definition artist_share :: "int \<Rightarrow> int" where
  "artist_share n = 14 * (top_count n * top_count n)"

lemma top_count_bounds: "n \<le> 2 ^ 20 \<Longrightarrow> 20 \<le> top_count n \<and> top_count n \<le> 2 ^ 20"
  by (simp add: top_count_def)

lemma artist_share_bounds:
  assumes "n \<le> 2 ^ 20"
  shows "0 \<le> artist_share n" "artist_share n \<le> 14 * 2 ^ 40"
proof -
  have "top_count n * top_count n \<le> 2 ^ 20 * 2 ^ 20"
    using top_count_bounds [OF assms] by (intro mult_mono) auto
  then show "artist_share n \<le> 14 * 2 ^ 40" by (simp add: artist_share_def)
  show "0 \<le> artist_share n" using top_count_bounds [OF assms] by (simp add: artist_share_def)
qed

definition songs_of_library :: "lib_track set \<Rightarrow> lib_track chooser \<Rightarrow> bool" where
  "songs_of_library lib c \<longleftrightarrow> chooser_ok c \<and> set (entries c) \<subseteq> {t \<in> lib. \<not> lt_missing t}"

lemma add_artist_ok:
  assumes "db_faithful (song_matcher p) lib" "order_of_keys (song_matcher p)" "n \<le> 2 ^ 20"
    and "songs_of_library lib c" "total_weight c + artist_share n < 2 ^ 63" "aw = 0 \<or> aw = 10"
  shows "songs_of_library lib (add_artist p a n aw c) \<and>
    total_weight (add_artist p a n aw c) \<le> total_weight c + artist_share n"
proof (cases "get_matching_top_songs p a (top_count n)")
  case (Inl e)
  with assms(4) artist_share_bounds [OF assms(3)] show ?thesis by (simp add: add_artist_def)
next
  case (Inr ts)
  let ?tc = "top_count n" and ?w = "top_count n * (4 + aw)"
  have tc: "20 \<le> ?tc" "?tc \<le> 2 ^ 20" using top_count_bounds [OF assms(3)] by auto
  have w: "4 * ?tc \<le> ?w" "?w \<le> 14 * ?tc" "?w < 2 ^ 62" "wrap64 ?w = ?w"
    using assms(6) tc by (auto intro: wrap64_id)
  from matching_top_songs [OF assms(1,2) Inr] tc(1) have
    ts: "int (length ts) \<le> ?tc" "set ts \<subseteq> {t \<in> lib. \<not> lt_missing t}" by auto
  have w0: "0 \<le> ?w" using w(1) tc(1) by linarith
  have share: "int (length ts) * ?w \<le> artist_share n"
    using mult_mono [OF ts(1) w(2) _ w0] tc(1) by (simp add: artist_share_def mult.left_commute)
  have c: "chooser_ok c" "set (entries c) \<subseteq> {t \<in> lib. \<not> lt_missing t}"
    using assms(4) by (auto simp: songs_of_library_def)
  have l: "4 * int (length ts) < ?w + 4" using w(1) ts(1) by linarith
  have b: "total_weight c + int (length ts) * ?w < 2 ^ 63" using share assms(5) by linarith
  from add_weighted_ok [OF c(1) l w(3) b] share c(2) ts(2) w(4) Inr
  show ?thesis by (auto simp: add_artist_def songs_of_library_def)
qed

lemma add_artists_ok:
  assumes "db_faithful (song_matcher p) lib" "order_of_keys (song_matcher p)" "n \<le> 2 ^ 20"
    and "songs_of_library lib c" "total_weight c + int (length as) * artist_share n < 2 ^ 63"
    and "add_artists p ctx_done k n as c = Inr c'"
  shows "songs_of_library lib c'"
  using assms(4-6)
proof (induction as arbitrary: k c)
  case (Cons a as)
  let ?s = "artist_share n"
  have len: "int (length (a # as)) * ?s = ?s + int (length as) * ?s" by (simp add: algebra_simps)
  have ls: "0 \<le> int (length as) * ?s" using artist_share_bounds [OF assms(3)] by simp
  have t: "total_weight c + ?s < 2 ^ 63" using Cons.prems(2) ls unfolding len by linarith
  note add = add_artist_ok [OF assms(1-3) Cons.prems(1) t, of 0 a]
  have "total_weight (add_artist p a n 0 c) + int (length as) * ?s < 2 ^ 63"
    using add Cons.prems(2) unfolding len by linarith
  with Cons.IH [of "add_artist p a n 0 c" "Suc k"] add Cons.prems(3) show ?case
    by (auto split: if_splits)
qed simp

definition draws_in_range :: "(nat \<Rightarrow> int \<Rightarrow> int) \<Rightarrow> bool" where
  "draws_in_range draw \<longleftrightarrow> (\<forall>k n. 0 < n \<longrightarrow> 0 \<le> draw k n \<and> draw k n < n)"

lemma pick_songs_ok:
  assumes "draws_in_range draw" "songs_of_library lib c"
  shows "\<exists>ts. pick_songs draw n k c acc = Some (acc @ ts) \<and> set ts \<subseteq> {t \<in> lib. \<not> lt_missing t} \<and>
    length ts = min (nat (n - int (length acc))) (length (entries c))"
  using assms(2)
proof (induction "length (entries c)" arbitrary: c k acc)
  case 0
  then show ?case by (subst pick_songs.simps) simp
next
  case (Suc m)
  show ?case
  proof (cases "int (length acc) < n")
    case False
    then show ?thesis by (subst pick_songs.simps) simp
  next
    case True
    have ok: "chooser_ok c" and ne: "entries c \<noteq> []"
      using Suc.prems Suc.hyps(2) by (auto simp: songs_of_library_def)
    have draw: "0 \<le> draw k (total_weight c)" "draw k (total_weight c) < total_weight c"
      using assms(1) total_positive [OF ok ne] by (auto simp: draws_in_range_def)
    from pick_choice_ok [OF ok ne draw] obtain i c' where
      i: "i < length (entries c)" "pick_choice (draw k (total_weight c)) c = Inr (entries c ! i, c')"
      and c': "chooser_ok c'" "entries c' = delete_at i (entries c)" by fastforce
    have "songs_of_library lib c'"
      using c' Suc.prems set_delete_at [of i "entries c"] by (auto simp: songs_of_library_def)
    moreover have m: "m = length (entries c')"
      using Suc.hyps(2) c'(2) length_delete_at [OF i(1)] by simp
    ultimately obtain ts where
      ts: "pick_songs draw n (Suc k) c' (acc @ [entries c ! i]) = Some ((acc @ [entries c ! i]) @ ts)"
        "set ts \<subseteq> {t \<in> lib. \<not> lt_missing t}"
        "length ts = min (nat (n - int (length (acc @ [entries c ! i])))) (length (entries c'))"
      using Suc.hyps(1) by blast
    have "pick_songs draw n k c acc = Some (acc @ entries c ! i # ts)"
      using True ne i(2) ts(1) by (subst pick_songs.simps) simp
    moreover have "entries c ! i \<in> {t \<in> lib. \<not> lt_missing t}"
      using nth_mem [OF i(1)] Suc.prems by (auto simp: songs_of_library_def)
    ultimately show ?thesis
      using ts(2,3) m Suc.hyps(2) True by (intro exI [of _ "entries c ! i # ts"]) auto
  qed
qed

lemma get_artist_row:
  "get_artist db i = Some (Inr a) \<Longrightarrow> \<exists>j. artist_row db j = Some a"
proof -
  have "\<forall>a. r = Inr a \<longrightarrow> (\<exists>j. artist_row db j = Some a)" if "get_artist db i = Some r" for r
    using that
  proof (rule get_artist.raw_induct [rotated])
    fix ga db i r
    assume IH: "\<And>db i r. ga db i = Some r \<Longrightarrow> \<forall>a. r = Inr a \<longrightarrow> (\<exists>j. artist_row db j = Some a)"
      and "(case get_entity_by_id db i of
          None \<Rightarrow> Some (Inl Not_found_error)
        | Some (Artist_entity a) \<Rightarrow> Some (Inr a)
        | Some (Track_entity t) \<Rightarrow> ga db (tr_artist_id t)
        | Some (Album_entity a) \<Rightarrow> ga db (al_album_artist_id a)
        | Some _ \<Rightarrow> Some (Inl Not_found_error)) = Some r"
    then show "\<forall>a. r = Inr a \<longrightarrow> (\<exists>j. artist_row db j = Some a)"
      by (auto simp: get_entity_by_id_def split: option.splits entity.splits if_splits dest: IH)
  qed
  then show "get_artist db i = Some (Inr a) \<Longrightarrow> \<exists>j. artist_row db j = Some a" by blast
qed

text \<open>No artist of the database has more stored similar artists than \<open>m\<close>.\<close>

definition similar_stored :: "entity_db \<Rightarrow> int \<Rightarrow> bool" where
  "similar_stored db m \<longleftrightarrow> (\<forall>i a. artist_row db i = Some a \<longrightarrow> int (length (ar_similar a)) \<le> m)"

lemma call_get_similar_length:
  assumes "int (length (ar_similar a)) \<le> 1000"
  shows "int (length (ar_similar (call_get_similar_artists p a 15 inc))) \<le> 1000"
  using assms map_similar_artists_length [of p _ 15 inc]
  by (fastforce simp: call_get_similar_artists_def split: sum.split list.split)

lemma songs_of_library_new: "songs_of_library lib new_chooser"
  by (simp add: songs_of_library_def) (simp add: new_chooser_def)

lemma fallback_returns:
  assumes "db_refs_end (entities p)" "similar_stored (entities p) 1000"
    and "db_faithful (song_matcher p) lib" "order_of_keys (song_matcher p)"
    and "draws_in_range draw" "n \<le> 2 ^ 20"
  shows "\<exists>r. similar_songs_fallback p ctx_done draw i n = Some r \<and>
    (\<forall>ts. r = Inr ts \<longrightarrow> int (length ts) \<le> max n 0 \<and> set ts \<subseteq> {t \<in> lib. \<not> lt_missing t})"
proof -
  obtain ra where ra: "get_artist (entities p) i = Some ra"
    using get_artist_returns [OF assms(1)] by blast
  show ?thesis
  proof (cases ra)
    case (Inr a0)
    define a where "a = call_get_similar_artists p a0 15 False"
    have "int (length (ar_similar a0)) \<le> 1000"
      using get_artist_row ra Inr assms(2) unfolding similar_stored_def by blast
    then have sim: "int (length (ar_similar a)) \<le> 1000"
      unfolding a_def by (rule call_get_similar_length)
    let ?s = "artist_share n"
    have s: "0 \<le> ?s" "?s \<le> 14 * 2 ^ 40" using artist_share_bounds [OF assms(6)] by auto
    have ls: "int (length (ar_similar a)) * ?s \<le> 1000 * (14 * 2 ^ 40)"
      using sim s by (intro mult_mono) auto
    define c where "c = add_artist p (artist_ref.truncate a) n 10 new_chooser"
    have t0: "total_weight (new_chooser :: lib_track chooser) = 0" by (simp add: new_chooser_def)
    have c: "songs_of_library lib c \<and> total_weight c \<le> ?s"
      using add_artist_ok [OF assms(3,4,6) songs_of_library_new, of 10] s t0 unfolding c_def by auto
    have "(14 :: int) * 2 ^ 40 + 1000 * (14 * 2 ^ 40) < 2 ^ 63" by simp
    with c ls s have b: "total_weight c + int (length (ar_similar a)) * ?s < 2 ^ 63"
      by (elim conjE) linarith
    have c': "songs_of_library lib c'" if "add_artists p ctx_done 2 n (ar_similar a) c = Inr c'" for c'
      using add_artists_ok [OF assms(3,4,6) _ b that] c by blast
    show ?thesis
    proof (cases "add_artists p ctx_done 2 n (ar_similar a) c")
      case (Inr c')
      from pick_songs_ok [OF assms(5) c' [OF this], of n 0 "[]"] obtain ts where
        "pick_songs draw n 0 c' [] = Some ts" "set ts \<subseteq> {t \<in> lib. \<not> lt_missing t}"
        "length ts = min (nat n) (length (entries c'))" by auto
      with Inr ra \<open>ra = Inr a0\<close> show ?thesis
        by (auto simp: similar_songs_fallback_def Let_def a_def c_def)
    qed (use ra Inr in \<open>auto simp: similar_songs_fallback_def Let_def a_def c_def\<close>)
  qed (use ra in \<open>simp add: similar_songs_fallback_def\<close>)
qed

text \<open>
  C6. \<open>SimilarSongs\<close> comes back, whatever the agents answer and whatever is drawn, for a
  count up to \<open>2 ^ 20\<close> (the references between entities end, and no artist has more than a
  thousand stored similar artists): in particular the loop that picks weighted songs ends, since
  every weight is positive and the total does not overflow. A list it returns has at most
  \<open>count\<close> tracks, all of the library and none missing.
\<close>

theorem similar_songs_returns:
  assumes "db_refs_end (entities p)" "similar_stored (entities p) 1000"
    and "db_faithful (song_matcher p) lib" "order_of_keys (song_matcher p)"
    and "draws_in_range draw" "0 \<le> n" "n \<le> 2 ^ 20"
  shows "\<exists>r. similar_songs p ctx_done draw i n = Some r \<and>
    (\<forall>ts. r = Inr ts \<longrightarrow> int (length ts) \<le> n \<and> set ts \<subseteq> {t \<in> lib. \<not> lt_missing t})"
proof -
  have m: "int (length ts) \<le> n \<and> set ts \<subseteq> {t \<in> lib. \<not> lt_missing t}"
    if "match_songs_to_library (song_matcher p) songs n = Inr ts" for songs ts
    using matched_tracks_library [OF assms(3,4) that] matched_tracks_count [OF that assms(6)] by blast
  from fallback_returns [OF assms(1-5,7), of ctx_done i] assms(6) have fb:
    "\<exists>r. similar_songs_fallback p ctx_done draw i n = Some r \<and>
      (\<forall>ts. r = Inr ts \<longrightarrow> int (length ts) \<le> n \<and> set ts \<subseteq> {t \<in> lib. \<not> lt_missing t})"
    by simp
  show ?thesis
    using m fb unfolding similar_songs_def
    by (auto split: option.splits entity.splits sum.splits list.splits)
qed

text \<open>
  The bound on the count is needed. \<open>pick\<close> refuses a total of zero, and the loop then goes on
  without taking anything out: a chooser whose weights sum to zero, which a count from the
  request can bring about when \<open>count * 14\<close> wraps around, is never done with.
\<close>

lemma zero_total_never_returns:
  assumes "total_weight c = 0" "entries c \<noteq> []" "int (length acc) < n"
  shows "pick_songs draw n k c acc = None"
proof (rule ccontr)
  assume "pick_songs draw n k c acc \<noteq> None"
  then obtain y where y: "pick_songs draw n k c acc = Some y" by blast
  have "total_weight c = 0 \<and> entries c \<noteq> [] \<and> int (length acc) < n \<longrightarrow> False"
    by (rule pick_songs.raw_induct [OF _ y]) (simp add: pick_choice_def split: if_splits, blast+)
  with assms show False by blast
qed

definition looping_count :: int where
  "looping_count = 3294061441733848503"

lemma huge_count_never_returns:
  assumes "get_artist (entities p) i = Some (Inr a)"
    and "ar_similar (call_get_similar_artists p a 15 False) = []"
    and "get_matching_top_songs p (artist_ref.truncate (call_get_similar_artists p a 15 False))
           looping_count = Inr [t, u]"
  shows "similar_songs_fallback p (\<lambda>_. False) draw i looping_count = None"
proof -
  let ?c = "add_weighted (wrap64 (top_count looping_count * 14)) [t, u] new_chooser"
  have c: "total_weight ?c = 0" "entries ?c = [t, u]"
    by (simp_all add: top_count_def looping_count_def wrap64_def add_choice_def new_chooser_def)
  have tc: "top_count looping_count = looping_count"
    by (simp add: top_count_def looping_count_def)
  have "pick_songs draw looping_count 0 ?c [] = None"
    by (rule zero_total_never_returns) (use c in \<open>simp_all add: looping_count_def\<close>)
  with assms tc show ?thesis
    by (simp add: similar_songs_fallback_def Let_def add_artist_def)
qed

section \<open>One artist with two versions of a song\<close>

definition demo_artist :: ext_artist where
  "demo_artist =
     \<lparr>ar_id = ''a1'', ar_name = ''The Band'', ar_mbid = [], ar_biography = [], ar_small_image = [],
      ar_medium_image = [], ar_large_image = [], ar_external_url = [], ar_similar = [],
      ar_info_updated = None\<rparr>"

definition demo_provider :: provider_env where
  "demo_provider =
     \<lparr>entities = \<lparr>artist_row = [''a1'' \<mapsto> demo_artist], album_row = Map.empty,
                  is_playlist = (\<lambda>_. False), track_row = Map.empty, is_radio = (\<lambda>_. False)\<rparr>,
      song_matcher = list_matcher two_versions, preserve_unicode = True,
      find_artists = (\<lambda>_. Inr []),
      api_top_songs = (\<lambda>_ _ _ _. Inr [song_of ''t1'' [], song_of ''t2'' []]),
      api_similar_artists = (\<lambda>_ _ _ _. Inl Not_found_agent),
      api_similar_by_track = (\<lambda>_ _ _ _ _. Inl Not_found_agent),
      api_similar_by_album = (\<lambda>_ _ _ _ _. Inl Not_found_agent),
      api_similar_by_artist = (\<lambda>_ _ _ _. Inl Not_found_agent)\<rparr>"

lemma demo_provider_fields [simp]:
  "song_matcher demo_provider = list_matcher two_versions"
  "artist_row (entities demo_provider) = [''a1'' \<mapsto> demo_artist]"
  "album_row (entities demo_provider) = Map.empty" "track_row (entities demo_provider) = Map.empty"
  by (simp_all add: demo_provider_def)

lemma similar_songs_returns_witness:
  "\<exists>r. similar_songs demo_provider (\<lambda>_. False) (\<lambda>_ _. 0) ''a1'' 1 = Some r"
proof -
  have "db_refs_end (entities demo_provider)" by (simp add: db_refs_end_def)
  moreover have "similar_stored (entities demo_provider) 1000"
    by (simp add: similar_stored_def demo_artist_def)
  moreover have "db_faithful (song_matcher demo_provider) (set two_versions)"
    "order_of_keys (song_matcher demo_provider)"
    by (simp_all add: list_matcher_ok)
  moreover have "draws_in_range (\<lambda>_ _. 0)" by (simp add: draws_in_range_def)
  ultimately show ?thesis
    using similar_songs_returns [of demo_provider "set two_versions" "\<lambda>_ _. 0" 1 "\<lambda>_. False" "''a1''"]
    by auto
qed

text \<open>The same call evaluated: the artist itself has no similar songs, so the top songs are drawn.\<close>

lemma demo_similar_songs:
  "similar_songs demo_provider (\<lambda>_. False) (\<lambda>_ _. 0) ''a1'' 1 = Some (Inr [two_versions ! 0])"
proof -
  have m: "match_songs_to_library (list_matcher two_versions)
      (map (enrich_song ''The Band'' []) [song_of ''t1'' [], song_of ''t2'' []]) 20
      = Inr [two_versions ! 0, two_versions ! 1]"
    by (simp add: demo_eval enrich_song_def)
  have g: "get_matching_top_songs demo_provider (artist_ref.truncate demo_artist) 20
      = Inr [two_versions ! 0, two_versions ! 1]"
    using m by (simp add: get_matching_top_songs_def demo_provider_def demo_artist_def aux_name_def
        artist_ref.defs)
  have "call_get_similar_artists demo_provider demo_artist 15 False = demo_artist"
    by (simp add: call_get_similar_artists_def demo_provider_def demo_artist_def)
  moreover have "get_artist (entities demo_provider) ''a1'' = Some (Inr demo_artist)"
    by (subst get_artist.simps) (simp add: get_entity_by_id_def)
  moreover have "get_entity_by_id (entities demo_provider) ''a1'' = Some (Artist_entity demo_artist)"
    by (simp add: get_entity_by_id_def)
  moreover have "api_similar_by_artist demo_provider i a b n = Inl Not_found_agent" for i a b n
    by (simp add: demo_provider_def)
  moreover have "ar_similar demo_artist = []" by (simp add: demo_artist_def)
  ultimately show ?thesis
    using g by (simp add: similar_songs_def similar_songs_fallback_def add_artist_def top_count_def
        wrap64_def add_choice_def new_chooser_def pick_songs.simps pick_choice_def
        weighted_choice_def remove_choice_def delete_at_def)
qed

end
