(* ===== verification/ExternalInfo.thy ===== *)
theory ExternalInfo
  imports ExternalSongs
begin

text \<open>
  External information of albums and artists (\<open>core/external/provider.go\<close>): when it is fetched
  and when a refresh is queued, how the answers of the agents are merged, and the images. The
  fetches that Go runs in parallel for an artist write different fields and read none of those,
  so their order does not matter. Sorting is \<open>sort.Slice\<close>, which is not stable: it is a function
  of which only the order of sizes is assumed. A queue holds at most \<open>refreshQueueLength\<close> items
  and drops what does not fit.
\<close>

section \<open>Surroundings and state\<close>

record info_env =
  info_provider :: provider_env
  api_album_info :: "album_info option by_artist"
  api_album_images :: "external_image list by_artist"
  api_artist_mbid :: "string \<Rightarrow> string \<Rightarrow> agent_error + string"
  api_artist_images :: "external_image list by_artist"
  api_artist_biography :: "string by_artist"
  api_artist_url :: "string by_artist"
  sort_images :: "external_image list \<Rightarrow> external_image list"
  sanitize_html :: "string \<Rightarrow> string"
  album_info_ttl :: int
  artist_info_ttl :: int

record info_state =
  album_queue :: "ext_album list"
  artist_queue :: "ext_artist list"
  saved_albums :: "ext_album list"
  saved_artists :: "ext_artist list"

definition refresh_queue_length :: nat where
  "refresh_queue_length = 2000"

definition enqueue_item :: "'a \<Rightarrow> 'a list \<Rightarrow> 'a list" where
  "enqueue_item x q = (if length q < refresh_queue_length then q @ [x] else q)"

text \<open>\<open>time.Since\<close> saturates at the range of a \<open>time.Duration\<close>; a nil pointer is the zero time.\<close>

definition since :: "go_time \<Rightarrow> go_time option \<Rightarrow> int" where
  "since now upd =
     (let t = (case upd of None \<Rightarrow> zero_time | Some t \<Rightarrow> t)
      in max (- (2 ^ 63)) (min (2 ^ 63 - 1) (now - t)))"

definition never_updated :: "go_time option \<Rightarrow> bool" where
  "never_updated upd \<longleftrightarrow> (case upd of None \<Rightarrow> True | Some t \<Rightarrow> t = zero_time)"

section \<open>Albums\<close>

definition album_images_set :: "external_image list \<Rightarrow> ext_album \<Rightarrow> ext_album" where
  "album_images_set imgs a =
     (case imgs of
        [] \<Rightarrow> a
      | [l] \<Rightarrow> a\<lparr>al_large_image := img_url l\<rparr>
      | [l, m] \<Rightarrow> a\<lparr>al_large_image := img_url l, al_medium_image := img_url m\<rparr>
      | l # m # s # _ \<Rightarrow>
          a\<lparr>al_large_image := img_url l, al_medium_image := img_url m, al_small_image := img_url s\<rparr>)"

definition populate_album_info ::
  "info_env \<Rightarrow> go_time \<Rightarrow> ext_album \<Rightarrow> info_state \<Rightarrow> (provider_error + ext_album) \<times> info_state" where
  "populate_album_info e now a st =
     (let name = aux_name (info_provider e) (al_name a)
      in case api_album_info e name (al_album_artist a) (al_mbid a) of
           Inl Not_found_agent \<Rightarrow> (Inr a, st)
         | Inl err \<Rightarrow> (Inl (Agent_failed err), st)
         | Inr None \<Rightarrow> (Inl Nil_dereference, st)
         | Inr (Some info) \<Rightarrow>
             (let a1 = a\<lparr>al_info_updated := Some now, al_external_url := ai_url info\<rparr>;
                  a2 = (if ai_description info \<noteq> [] then a1\<lparr>al_description := ai_description info\<rparr>
                        else a1);
                  a3 = (case api_album_images e name (al_album_artist a) (al_mbid a) of
                          Inl _ \<Rightarrow> a2
                        | Inr imgs \<Rightarrow> album_images_set (sort_images e imgs) a2)
              in (Inr a3, st\<lparr>saved_albums := saved_albums st @ [a3]\<rparr>)))"

definition update_album_info ::
  "info_env \<Rightarrow> go_time \<Rightarrow> string \<Rightarrow> info_state \<Rightarrow> ((provider_error + ext_album) \<times> info_state) option" where
  "update_album_info e now i st =
     (case get_album (entities (info_provider e)) i of
        None \<Rightarrow> None
      | Some (Inl err) \<Rightarrow> Some (Inl err, st)
      | Some (Inr a) \<Rightarrow>
          (let upd = al_info_updated a;
               (r, st1) = (if never_updated upd then populate_album_info e now a st else (Inr a, st))
           in case r of
                Inl err \<Rightarrow> Some (Inl err, st1)
              | Inr a1 \<Rightarrow>
                  Some (Inr a1,
                    if since now upd > album_info_ttl e
                    then st1\<lparr>album_queue := enqueue_item a1 (album_queue st1)\<rparr> else st1)))"

text \<open>The worker of the queue takes the oldest item and refreshes it; its result is not used.\<close>

definition refresh_next_album :: "info_env \<Rightarrow> go_time \<Rightarrow> info_state \<Rightarrow> info_state" where
  "refresh_next_album e now st =
     (case album_queue st of
        [] \<Rightarrow> st
      | a # q \<Rightarrow> snd (populate_album_info e now a (st\<lparr>album_queue := q\<rparr>)))"

section \<open>Artists\<close>

definition artist_images_set :: "external_image list \<Rightarrow> ext_artist \<Rightarrow> ext_artist" where
  "artist_images_set imgs a =
     (case imgs of
        [] \<Rightarrow> a
      | [l] \<Rightarrow> a\<lparr>ar_large_image := img_url l\<rparr>
      | [l, m] \<Rightarrow> a\<lparr>ar_large_image := img_url l, ar_medium_image := img_url m\<rparr>
      | l # m # s # _ \<Rightarrow>
          a\<lparr>ar_large_image := img_url l, ar_medium_image := img_url m, ar_small_image := img_url s\<rparr>)"

definition call_get_image :: "info_env \<Rightarrow> ext_artist \<Rightarrow> ext_artist" where
  "call_get_image e a =
     (case api_artist_images e (ar_id a) (aux_name (info_provider e) (ar_name a)) (ar_mbid a) of
        Inl _ \<Rightarrow> a
      | Inr imgs \<Rightarrow> artist_images_set (sort_images e imgs) a)"

definition call_get_biography :: "info_env \<Rightarrow> ext_artist \<Rightarrow> ext_artist" where
  "call_get_biography e a =
     (case api_artist_biography e (ar_id a) (aux_name (info_provider e) (ar_name a)) (ar_mbid a) of
        Inl _ \<Rightarrow> a
      | Inr bio \<Rightarrow>
          a\<lparr>ar_biography :=
              replace_all ''<a '' (''<a target='' @ [sq] @ ''_blank'' @ [sq] @ '' '')
                (replace_all [nl] '' '' (sanitize_html e bio))\<rparr>)"

definition call_get_url :: "info_env \<Rightarrow> ext_artist \<Rightarrow> ext_artist" where
  "call_get_url e a =
     (case api_artist_url e (ar_id a) (aux_name (info_provider e) (ar_name a)) (ar_mbid a) of
        Inl _ \<Rightarrow> a
      | Inr u \<Rightarrow> a\<lparr>ar_external_url := u\<rparr>)"

definition max_similar_artists :: int where
  "max_similar_artists = 100"

definition populate_artist_info ::
  "info_env \<Rightarrow> bool \<Rightarrow> go_time \<Rightarrow> ext_artist \<Rightarrow> info_state
     \<Rightarrow> (provider_error + ext_artist) \<times> info_state" where
  "populate_artist_info e ctx_done now a st =
     (let name = aux_name (info_provider e) (ar_name a);
          a0 = (if ar_mbid a = []
                then (case api_artist_mbid e (ar_id a) name of
                        Inr mbid \<Rightarrow> if mbid \<noteq> [] then a\<lparr>ar_mbid := mbid\<rparr> else a
                      | Inl _ \<Rightarrow> a)
                else a);
          a1 = call_get_similar_artists (info_provider e)
                 (call_get_url e (call_get_biography e (call_get_image e a0)))
                 max_similar_artists True
      in if ctx_done then (Inl Canceled_error, st)
         else (let a2 = a1\<lparr>ar_info_updated := Some now\<rparr>
               in (Inr a2, st\<lparr>saved_artists := saved_artists st @ [a2]\<rparr>)))"

definition refresh_artist_info ::
  "info_env \<Rightarrow> bool \<Rightarrow> go_time \<Rightarrow> string \<Rightarrow> info_state
     \<Rightarrow> ((provider_error + ext_artist) \<times> info_state) option" where
  "refresh_artist_info e ctx_done now i st =
     (case get_artist (entities (info_provider e)) i of
        None \<Rightarrow> None
      | Some (Inl err) \<Rightarrow> Some (Inl err, st)
      | Some (Inr a) \<Rightarrow>
          (let upd = ar_info_updated a;
               (r, st1) = (if never_updated upd then populate_artist_info e ctx_done now a st
                           else (Inr a, st))
           in case r of
                Inl err \<Rightarrow> Some (Inl err, st1)
              | Inr a1 \<Rightarrow>
                  Some (Inr a1,
                    if since now upd > artist_info_ttl e
                    then st1\<lparr>artist_queue := enqueue_item a1 (artist_queue st1)\<rparr> else st1)))"

fun load_similar_loop ::
  "(string \<Rightarrow> artist_ref option) \<Rightarrow> bool \<Rightarrow> int \<Rightarrow> artist_ref list \<Rightarrow> artist_ref list
     \<Rightarrow> artist_ref list" where
  "load_similar_loop f include_absent n loaded [] = loaded"
| "load_similar_loop f include_absent n loaded (s # ss) =
     (if n \<le> int (length loaded) then loaded
      else (case f (ar_id s) of
              Some a \<Rightarrow> load_similar_loop f include_absent n (loaded @ [a]) ss
            | None \<Rightarrow>
                if include_absent
                then load_similar_loop f include_absent n (loaded @ [s\<lparr>ar_id := []\<rparr>]) ss
                else load_similar_loop f include_absent n loaded ss))"

definition load_similar ::
  "provider_env \<Rightarrow> ext_artist \<Rightarrow> int \<Rightarrow> bool \<Rightarrow> string + ext_artist" where
  "load_similar p a n include_absent =
     (let ids = filter (\<lambda>i. i \<noteq> []) (map ar_id (ar_similar a))
      in case find_artists p (Artists_by_id ids) of
           Inl err \<Rightarrow> Inl err
         | Inr rows \<Rightarrow>
             Inr (a\<lparr>ar_similar :=
                      load_similar_loop (map_of (rev (map (\<lambda>r. (ar_id r, r)) rows)))
                        include_absent n [] (ar_similar a)\<rparr>))"

definition update_artist_info ::
  "info_env \<Rightarrow> bool \<Rightarrow> go_time \<Rightarrow> string \<Rightarrow> int \<Rightarrow> bool \<Rightarrow> info_state
     \<Rightarrow> ((provider_error + ext_artist) \<times> info_state) option" where
  "update_artist_info e ctx_done now i n include_absent st =
     (case refresh_artist_info e ctx_done now i st of
        None \<Rightarrow> None
      | Some (Inl err, st1) \<Rightarrow> Some (Inl err, st1)
      | Some (Inr a, st1) \<Rightarrow>
          (case load_similar (info_provider e) a n include_absent of
             Inl err \<Rightarrow> Some (Inl (Query_failed err), st1)
           | Inr a1 \<Rightarrow> Some (Inr a1, st1)))"

section \<open>Images\<close>

definition artist_image_url :: "ext_artist \<Rightarrow> string" where
  "artist_image_url a =
     (if ar_large_image a \<noteq> [] then ar_large_image a
      else if ar_medium_image a \<noteq> [] then ar_medium_image a
      else ar_small_image a)"

text \<open>The URL that \<open>url.Parse\<close> is given.\<close>

definition artist_image :: "info_env \<Rightarrow> bool \<Rightarrow> string \<Rightarrow> (provider_error + string) option" where
  "artist_image e ctx_done i =
     (case get_artist (entities (info_provider e)) i of
        None \<Rightarrow> None
      | Some (Inl err) \<Rightarrow> Some (Inl err)
      | Some (Inr a) \<Rightarrow>
          if artist_image_url a \<noteq> [] then Some (Inr (artist_image_url a))
          else if ctx_done then Some (Inl Canceled_error)
          else (let u = artist_image_url (call_get_image e a)
                in if u = [] then Some (Inl Not_found_error) else Some (Inr u)))"

definition biggest_image :: "external_image list \<Rightarrow> external_image" where
  "biggest_image imgs =
     fold (\<lambda>i img. if img_size img \<le> img_size i then i else img) imgs \<lparr>img_url = [], img_size = 0\<rparr>"

definition album_image :: "info_env \<Rightarrow> string \<Rightarrow> (provider_error + string) option" where
  "album_image e i =
     (case get_album (entities (info_provider e)) i of
        None \<Rightarrow> None
      | Some (Inl err) \<Rightarrow> Some (Inl err)
      | Some (Inr a) \<Rightarrow>
          (case api_album_images e (aux_name (info_provider e) (al_name a)) (al_album_artist a) (al_mbid a) of
             Inl Not_found_agent \<Rightarrow> Some (Inl Not_found_error)
           | Inl err \<Rightarrow> Some (Inl (Agent_failed err))
           | Inr [] \<Rightarrow> Some (Inl Not_found_error)
           | Inr imgs \<Rightarrow>
               (let img = biggest_image imgs
                in if img_url img = [] then Some (Inl Not_found_error) else Some (Inr (img_url img)))))"

section \<open>When information is fetched\<close>

lemma cached_album_info:
  assumes "get_album (entities (info_provider e)) i = Some (Inr a)"
    and "al_info_updated a = Some t" "t \<noteq> zero_time" "since now (Some t) \<le> album_info_ttl e"
  shows "update_album_info e now i st = Some (Inr a, st)"
  using assms by (simp add: update_album_info_def never_updated_def)

lemma expired_album_info:
  assumes "get_album (entities (info_provider e)) i = Some (Inr a)"
    and "al_info_updated a = Some t" "t \<noteq> zero_time" "album_info_ttl e < since now (Some t)"
  shows "update_album_info e now i st =
    Some (Inr a, st\<lparr>album_queue := enqueue_item a (album_queue st)\<rparr>)"
  using assms by (simp add: update_album_info_def never_updated_def)

lemma since_never: "0 \<le> now \<Longrightarrow> since now None = 2 ^ 63 - 1"
  by (simp add: since_def zero_time_def)

text \<open>
  Information that has just been fetched for the first time counts as expired, because the age
  is taken from the time of the update before it: the album is queued to be fetched again.
\<close>

lemma fresh_album_info_queued_again:
  assumes "get_album (entities (info_provider e)) i = Some (Inr a)" "al_info_updated a = None"
    and "api_album_info e (aux_name (info_provider e) (al_name a)) (al_album_artist a) (al_mbid a)
           = Inr (Some info)"
    and "album_info_ttl e < 2 ^ 63 - 1" "0 \<le> now" "length (album_queue st) < refresh_queue_length"
  shows "\<exists>a' st'. update_album_info e now i st = Some (Inr a', st') \<and>
    al_info_updated a' = Some now \<and> album_queue st' = album_queue st @ [a'] \<and>
    saved_albums st' = saved_albums st @ [a']"
proof -
  have upd: "al_info_updated (album_images_set imgs b) = al_info_updated b" for imgs b
    by (auto simp: album_images_set_def split: list.split)
  show ?thesis
    using assms since_never [OF assms(5)]
    by (auto simp: update_album_info_def never_updated_def populate_album_info_def Let_def
        enqueue_item_def upd split: sum.split)
qed

lemma never_found_album_asked_again:
  assumes "get_album (entities (info_provider e)) i = Some (Inr a)" "al_info_updated a = None"
    and "api_album_info e (aux_name (info_provider e) (al_name a)) (al_album_artist a) (al_mbid a)
           = Inl Not_found_agent"
    and "album_info_ttl e < 2 ^ 63 - 1" "0 \<le> now"
  shows "update_album_info e now i st =
    Some (Inr a, st\<lparr>album_queue := enqueue_item a (album_queue st)\<rparr>)"
  using assms since_never [OF assms(5)]
  by (simp add: update_album_info_def never_updated_def populate_album_info_def Let_def)

lemma queue_bounded:
  "length (album_queue st) \<le> refresh_queue_length \<Longrightarrow>
   update_album_info e now i st = Some (r, st') \<Longrightarrow> length (album_queue st') \<le> refresh_queue_length"
proof -
  have pop: "album_queue (snd (populate_album_info e now a st)) = album_queue st" for a
    by (auto simp: populate_album_info_def Let_def split: sum.split option.split agent_error.split)
  have "album_queue st1 = album_queue st" if "populate_album_info e now a st = (r, st1)" for a r st1
    using pop [of a] that by simp
  then show "length (album_queue st) \<le> refresh_queue_length \<Longrightarrow>
   update_album_info e now i st = Some (r, st') \<Longrightarrow> length (album_queue st') \<le> refresh_queue_length"
    by (auto simp: update_album_info_def Let_def enqueue_item_def
        split: option.splits sum.splits prod.splits if_splits)
qed

section \<open>Similar artists and images\<close>

lemma load_similar_loop_spec:
  assumes "int (length loaded) \<le> n"
  shows "int (length (load_similar_loop f inc n loaded ss)) \<le> n \<and>
    (\<not> inc \<longrightarrow> set (load_similar_loop f inc n loaded ss) \<subseteq> set loaded \<union> ran f)"
  using assms
proof (induction ss arbitrary: loaded)
  case (Cons s ss)
  show ?case
  proof (cases "n \<le> int (length loaded)")
    case False
    then have l: "int (length (loaded @ [x])) \<le> n" for x by simp
    show ?thesis
    proof (cases "f (ar_id s)")
      case None
      with False Cons.IH [OF Cons.prems] Cons.IH [OF l] show ?thesis by auto
    next
      case (Some a)
      then have "a \<in> ran f" by (rule ranI)
      with False Some Cons.IH [OF l [of a]] show ?thesis by auto
    qed
  qed (use Cons.prems in simp)
qed simp

text \<open>
  The similar artists that come with an artist are at most \<open>count\<close>, and without artists that are
  not present each of them is a row of the database.
\<close>

lemma load_similar_present:
  assumes "load_similar p a n False = Inr a'" "0 \<le> n"
  shows "int (length (ar_similar a')) \<le> n \<and>
    (\<exists>rows ids. find_artists p (Artists_by_id ids) = Inr rows \<and> set (ar_similar a') \<subseteq> set rows)"
proof -
  let ?ids = "filter (\<lambda>i. i \<noteq> []) (map ar_id (ar_similar a))"
  from assms(1) obtain rows where rows: "find_artists p (Artists_by_id ?ids) = Inr rows"
    and a': "ar_similar a' = load_similar_loop (map_of (rev (map (\<lambda>r. (ar_id r, r)) rows))) False n []
        (ar_similar a)"
    by (auto simp: load_similar_def Let_def simp del: filter_map split: sum.splits)
  have "ran (map_of (rev (map (\<lambda>r. (ar_id r, r)) rows))) \<subseteq> set rows"
    by (auto simp: ran_def dest!: map_of_SomeD)
  with load_similar_loop_spec [of "[]" n "map_of (rev (map (\<lambda>r. (ar_id r, r)) rows))" False "ar_similar a"]
    assms(2) rows a' show ?thesis by auto
qed

lemma biggest_image_fold:
  "let r = fold (\<lambda>i img. if img_size img \<le> img_size i then i else img) imgs z
   in r \<in> insert z (set imgs) \<and> (\<forall>i \<in> insert z (set imgs). img_size i \<le> img_size r)"
proof (induction imgs arbitrary: z)
  case (Cons i imgs)
  have "(if img_size z \<le> img_size i then i else z) \<in> {i, z}"
    "img_size i \<le> img_size (if img_size z \<le> img_size i then i else z)"
    "img_size z \<le> img_size (if img_size z \<le> img_size i then i else z)" by auto
  with Cons.IH [of "if img_size z \<le> img_size i then i else z"]
  show ?case unfolding Let_def fold_simps by fastforce
qed simp

lemma biggest_image_largest:
  assumes "imgs \<noteq> []" "\<forall>i \<in> set imgs. 0 < img_size i"
  shows "biggest_image imgs \<in> set imgs \<and> (\<forall>i \<in> set imgs. img_size i \<le> img_size (biggest_image imgs))"
proof -
  have "biggest_image imgs \<in> insert \<lparr>img_url = [], img_size = 0\<rparr> (set imgs)"
    "\<forall>i \<in> insert \<lparr>img_url = [], img_size = 0\<rparr> (set imgs). img_size i \<le> img_size (biggest_image imgs)"
    using biggest_image_fold [of imgs "\<lparr>img_url = [], img_size = 0\<rparr>"]
    by (simp_all add: biggest_image_def Let_def)
  moreover from assms obtain i where "i \<in> set imgs" "0 < img_size i" by (cases imgs) auto
  ultimately have "0 < img_size (biggest_image imgs)" by fastforce
  with \<open>biggest_image imgs \<in> insert _ _\<close> \<open>\<forall>i \<in> insert _ _. _\<close> show ?thesis by auto
qed

end
