(* ===== verification/ScheduleService.thy ===== *)
theory ScheduleService
  imports Steps
begin

text \<open>
  The scheduler that the host offers to a plugin: \<open>plugins/host_scheduler.go\<close>. The table of
  schedules is guarded by a mutex, but timers fire, callbacks run in the plugin, and cancelled
  timers are stopped outside it, so these are separate steps. A timer and a cron job only carry
  the schedule id they captured; the callback looks the entry up by that id when it runs.
\<close>

section \<open>State\<close>

record schedule_entry =
  sch_payload :: string
  sch_recurring :: bool
  sch_cron :: nat
  sch_timer :: "nat option"

datatype run_source = From_timer nat | From_cron nat

text \<open>\<open>Found\<close> carries what was read of the entry before the lock was given back.\<close>

datatype run_phase = Looking | Found string bool | In_plugin | Cleaning

record callback_run =
  run_source :: run_source
  run_schedule :: string
  run_phase :: run_phase

record schedule_state =
  schedules :: "string \<rightharpoonup> schedule_entry"
  armed :: "nat \<rightharpoonup> string"
  cron_jobs :: "nat \<rightharpoonup> string"
  runs :: "nat \<rightharpoonup> callback_run"
  to_stop :: "schedule_entry set"
  next_timer :: nat
  next_cron :: nat
  next_run :: nat
  plugin_loaded :: bool
  calls :: "(string \<times> string \<times> bool) list"

datatype schedule_error = Already_exists string | Bad_cron string | Not_scheduled string

definition new_scheduler :: "bool \<Rightarrow> schedule_state" where
  "new_scheduler ld =
     \<lparr>schedules = Map.empty, armed = Map.empty, cron_jobs = Map.empty, runs = Map.empty,
      to_stop = {}, next_timer = 0, next_cron = 0, next_run = 0, plugin_loaded = ld, calls = []\<rparr>"

section \<open>Operations\<close>

text \<open>
  An empty id is replaced by a random one (\<open>fresh\<close>). The timer starts before the entry is
  stored, under the same lock.
\<close>

definition chosen_id :: "string \<Rightarrow> string \<Rightarrow> string" where
  "chosen_id fresh sid = (if sid = [] then fresh else sid)"

definition schedule_one_time ::
  "string \<Rightarrow> string \<Rightarrow> string \<Rightarrow> schedule_state \<Rightarrow> (schedule_error + string) \<times> schedule_state" where
  "schedule_one_time fresh payload sid0 st =
     (let sid = chosen_id fresh sid0
      in if schedules st sid \<noteq> None then (Inl (Already_exists sid), st)
         else (Inr sid,
           st\<lparr>armed := (armed st)(next_timer st \<mapsto> sid), next_timer := Suc (next_timer st),
              schedules := (schedules st)(sid \<mapsto>
                \<lparr>sch_payload = payload, sch_recurring = False, sch_cron = 0,
                 sch_timer = Some (next_timer st)\<rparr>)\<rparr>))"

definition schedule_recurring ::
  "string \<Rightarrow> bool \<Rightarrow> string \<Rightarrow> string \<Rightarrow> schedule_state
     \<Rightarrow> (schedule_error + string) \<times> schedule_state" where
  "schedule_recurring fresh cron_ok payload sid0 st =
     (let sid = chosen_id fresh sid0
      in if schedules st sid \<noteq> None then (Inl (Already_exists sid), st)
         else if \<not> cron_ok then (Inl (Bad_cron sid), st)
         else (Inr sid,
           st\<lparr>cron_jobs := (cron_jobs st)(next_cron st \<mapsto> sid), next_cron := Suc (next_cron st),
              schedules := (schedules st)(sid \<mapsto>
                \<lparr>sch_payload = payload, sch_recurring = True, sch_cron = next_cron st,
                 sch_timer = None\<rparr>)\<rparr>))"

text \<open>The locked part of \<open>CancelSchedule\<close>; stopping the timer or the job follows outside the lock.\<close>

definition cancel_schedule :: "string \<Rightarrow> schedule_state \<Rightarrow> (schedule_error + unit) \<times> schedule_state" where
  "cancel_schedule sid st =
     (case schedules st sid of
        None \<Rightarrow> (Inl (Not_scheduled sid), st)
      | Some e \<Rightarrow>
          (Inr (), st\<lparr>schedules := (schedules st)(sid := None), to_stop := insert e (to_stop st)\<rparr>))"

definition close_scheduler :: "schedule_state \<Rightarrow> schedule_state" where
  "close_scheduler st =
     st\<lparr>schedules := Map.empty, to_stop := to_stop st \<union> ran (schedules st)\<rparr>"

definition stop_entry :: "schedule_entry \<Rightarrow> schedule_state \<Rightarrow> schedule_state" where
  "stop_entry e st =
     (let st1 = st\<lparr>to_stop := to_stop st - {e}\<rparr>
      in case sch_timer e of
           Some t \<Rightarrow> st1\<lparr>armed := (armed st1)(t := None)\<rparr>
         | None \<Rightarrow> st1\<lparr>cron_jobs := (cron_jobs st1)(sch_cron e := None)\<rparr>)"

text \<open>
  A run of a callback: \<open>invokeCallback\<close> looks the entry up under the lock and later, without it, calls
  the plugin if it is loaded; a run of a timer afterwards deletes the entry of its id, whatever it
  finds there.
\<close>

definition start_run :: "run_source \<Rightarrow> string \<Rightarrow> schedule_state \<Rightarrow> schedule_state" where
  "start_run src sid st =
     st\<lparr>runs := (runs st)(next_run st \<mapsto>
          \<lparr>run_source = src, run_schedule = sid, run_phase = Looking\<rparr>),
        next_run := Suc (next_run st)\<rparr>"

definition leave_invoke :: "nat \<Rightarrow> callback_run \<Rightarrow> schedule_state \<Rightarrow> schedule_state" where
  "leave_invoke r c st =
     (case run_source c of
        From_timer t \<Rightarrow> st\<lparr>runs := (runs st)(r \<mapsto> c\<lparr>run_phase := Cleaning\<rparr>)\<rparr>
      | From_cron j \<Rightarrow> st\<lparr>runs := (runs st)(r := None)\<rparr>)"

definition look_up_entry :: "nat \<Rightarrow> callback_run \<Rightarrow> schedule_state \<Rightarrow> schedule_state" where
  "look_up_entry r c st =
     (case schedules st (run_schedule c) of
        None \<Rightarrow> leave_invoke r c st
      | Some e \<Rightarrow>
          st\<lparr>runs := (runs st)(r \<mapsto> c\<lparr>run_phase := Found (sch_payload e) (sch_recurring e)\<rparr>)\<rparr>)"

definition call_plugin :: "nat \<Rightarrow> callback_run \<Rightarrow> string \<Rightarrow> bool \<Rightarrow> schedule_state \<Rightarrow> schedule_state" where
  "call_plugin r c payload recurring st =
     (if \<not> plugin_loaded st then leave_invoke r c st
      else st\<lparr>runs := (runs st)(r \<mapsto> c\<lparr>run_phase := In_plugin\<rparr>),
              calls := calls st @ [(run_schedule c, payload, recurring)]\<rparr>)"

definition clean_up :: "nat \<Rightarrow> callback_run \<Rightarrow> schedule_state \<Rightarrow> schedule_state" where
  "clean_up r c st =
     st\<lparr>schedules := (schedules st)(run_schedule c := None), runs := (runs st)(r := None)\<rparr>"

section \<open>Steps\<close>

datatype schedule_event =
    Ask_once string string string
  | Ask_recurring string bool string string
  | Ask_cancel string
  | Ask_close
  | Stop_entry schedule_entry
  | Timer_fires nat
  | Cron_ticks nat
  | Run_looks nat
  | Run_calls nat
  | Run_returns nat
  | Run_cleans nat
  | Plugin_loaded bool

inductive schedule_step :: "schedule_state \<Rightarrow> schedule_event \<Rightarrow> schedule_state \<Rightarrow> bool" where
  once: "schedule_step st (Ask_once fresh payload sid) (snd (schedule_one_time fresh payload sid st))"
| recurring: "schedule_step st (Ask_recurring fresh ok payload sid)
    (snd (schedule_recurring fresh ok payload sid st))"
| cancel: "schedule_step st (Ask_cancel sid) (snd (cancel_schedule sid st))"
| close: "schedule_step st Ask_close (close_scheduler st)"
| stop: "e \<in> to_stop st \<Longrightarrow> schedule_step st (Stop_entry e) (stop_entry e st)"
| fire: "armed st t = Some sid \<Longrightarrow>
    schedule_step st (Timer_fires t)
      (start_run (From_timer t) sid (st\<lparr>armed := (armed st)(t := None)\<rparr>))"
| tick: "cron_jobs st j = Some sid \<Longrightarrow>
    schedule_step st (Cron_ticks j) (start_run (From_cron j) sid st)"
| look: "runs st r = Some c \<Longrightarrow> run_phase c = Looking \<Longrightarrow>
    schedule_step st (Run_looks r) (look_up_entry r c st)"
| call: "runs st r = Some c \<Longrightarrow> run_phase c = Found p b \<Longrightarrow>
    schedule_step st (Run_calls r) (call_plugin r c p b st)"
| return: "runs st r = Some c \<Longrightarrow> run_phase c = In_plugin \<Longrightarrow>
    schedule_step st (Run_returns r) (leave_invoke r c st)"
| clean: "runs st r = Some c \<Longrightarrow> run_phase c = Cleaning \<Longrightarrow>
    schedule_step st (Run_cleans r) (clean_up r c st)"
| load: "schedule_step st (Plugin_loaded b) (st\<lparr>plugin_loaded := b\<rparr>)"

inductive_cases schedule_stepE: "schedule_step st ev st'"

section \<open>What keeps a schedule alive\<close>

definition handle :: "schedule_entry \<Rightarrow> run_source" where
  "handle e = (case sch_timer e of Some t \<Rightarrow> From_timer t | None \<Rightarrow> From_cron (sch_cron e))"

definition timer_pending :: "schedule_state \<Rightarrow> string \<Rightarrow> nat \<Rightarrow> bool" where
  "timer_pending st sid t \<longleftrightarrow>
     armed st t = Some sid \<or>
     (\<exists>r c. runs st r = Some c \<and> run_source c = From_timer t \<and> run_schedule c = sid)"

definition entry_pending :: "schedule_state \<Rightarrow> string \<Rightarrow> schedule_entry \<Rightarrow> bool" where
  "entry_pending st sid e \<longleftrightarrow>
     (case sch_timer e of
        Some t \<Rightarrow> \<not> sch_recurring e \<and> timer_pending st sid t
      | None \<Rightarrow> sch_recurring e \<and> cron_jobs st (sch_cron e) = Some sid)"

definition handle_used :: "schedule_state \<Rightarrow> run_source \<Rightarrow> bool" where
  "handle_used st h \<longleftrightarrow> (case h of From_timer t \<Rightarrow> t < next_timer st | From_cron j \<Rightarrow> j < next_cron st)"

definition handles_ok :: "schedule_state \<Rightarrow> bool" where
  "handles_ok st \<longleftrightarrow>
     (\<forall>i e. schedules st i = Some e \<longrightarrow> handle_used st (handle e) \<and>
        (\<forall>j e'. schedules st j = Some e' \<longrightarrow> handle e = handle e' \<longrightarrow> i = j) \<and>
        (\<forall>e' \<in> to_stop st. handle e' \<noteq> handle e)) \<and>
     (\<forall>e \<in> to_stop st. handle_used st (handle e)) \<and>
     (\<forall>r c. runs st r = Some c \<longrightarrow> r < next_run st)"

definition schedules_ok :: "schedule_state \<Rightarrow> bool" where
  "schedules_ok st \<longleftrightarrow>
     handles_ok st \<and> (\<forall>i e. schedules st i = Some e \<longrightarrow> entry_pending st i e)"

lemma schedules_okI:
  "handles_ok st \<Longrightarrow> (\<And>i e. schedules st i = Some e \<Longrightarrow> entry_pending st i e) \<Longrightarrow> schedules_ok st"
  by (simp add: schedules_ok_def)

lemma schedules_okD: "schedules_ok st \<Longrightarrow> schedules st i = Some e \<Longrightarrow> entry_pending st i e"
  by (simp add: schedules_ok_def)

lemma schedules_ok_new: "schedules_ok (new_scheduler ld)"
  by (simp add: schedules_ok_def handles_ok_def new_scheduler_def)

text \<open>Taking entries out of the table and giving their handles to the list to stop.\<close>

lemma schedules_ok_fewer:
  assumes "schedules_ok st" "\<And>i e. schedules st' i = Some e \<Longrightarrow> schedules st i = Some e"
    and "armed st' = armed st" "cron_jobs st' = cron_jobs st" "runs st' = runs st"
    and "next_timer st' = next_timer st" "next_cron st' = next_cron st" "next_run st' = next_run st"
    and "\<And>e. e \<in> to_stop st' \<Longrightarrow> e \<in> to_stop st \<or> (\<exists>i. schedules st i = Some e \<and> schedules st' i = None)"
  shows "schedules_ok st'"
proof (rule schedules_okI)
  have used: "handle_used st' h = handle_used st h" for h
    by (auto simp: handle_used_def assms split: run_source.split)
  have old: "handle e' \<noteq> handle e" if "schedules st' i = Some e" "e' \<in> to_stop st'" for i e e'
  proof -
    from assms(2) [OF that(1)] have i: "schedules st i = Some e" .
    from assms(9) [OF that(2)] show ?thesis
    proof
      assume "e' \<in> to_stop st"
      with assms(1) i show ?thesis unfolding schedules_ok_def handles_ok_def by blast
    next
      assume "\<exists>i. schedules st i = Some e' \<and> schedules st' i = None"
      then obtain j where "schedules st j = Some e'" "schedules st' j = None" by blast
      with assms(1) i that(1) show ?thesis
        unfolding schedules_ok_def handles_ok_def by (metis option.distinct(1))
    qed
  qed
  have stop: "handle_used st (handle e)" if "e \<in> to_stop st'" for e
    using assms(9) [OF that] assms(1) unfolding schedules_ok_def handles_ok_def by blast
  show "handles_ok st'"
    using assms(1) old stop unfolding schedules_ok_def handles_ok_def used assms(5,8)
    by (meson assms(2))
  show "entry_pending st' i e" if "schedules st' i = Some e" for i e
    using schedules_okD [OF assms(1) assms(2) [OF that]]
    by (simp add: entry_pending_def timer_pending_def assms(3-5) split: option.splits)
qed

text \<open>Steps that leave the table and the list to stop alone and only move runs, timers and jobs.\<close>

lemma schedules_ok_same:
  assumes "schedules_ok st" "schedules st' = schedules st" "to_stop st' = to_stop st"
    and "next_timer st' = next_timer st" "next_cron st' = next_cron st"
    and "\<And>r c. runs st' r = Some c \<Longrightarrow> r < next_run st'"
    and "\<And>i e t. schedules st i = Some e \<Longrightarrow> sch_timer e = Some t \<Longrightarrow> timer_pending st i t \<Longrightarrow>
      timer_pending st' i t"
    and "\<And>i e. schedules st i = Some e \<Longrightarrow> sch_timer e = None \<Longrightarrow>
      cron_jobs st (sch_cron e) = Some i \<Longrightarrow> cron_jobs st' (sch_cron e) = Some i"
  shows "schedules_ok st'"
proof (rule schedules_okI)
  have used: "handle_used st' h = handle_used st h" for h
    by (auto simp: handle_used_def assms split: run_source.split)
  show "handles_ok st'"
    using assms(1,6) unfolding schedules_ok_def handles_ok_def used assms(2,3) by blast
  show "entry_pending st' i e" if "schedules st' i = Some e" for i e
  proof -
    from that assms(2) have i: "schedules st i = Some e" by simp
    from schedules_okD [OF assms(1) i] assms(7,8) [OF i] show ?thesis
      by (auto simp: entry_pending_def split: option.splits)
  qed
qed

text \<open>A new entry with a new handle.\<close>

lemma schedules_ok_more:
  assumes "schedules_ok st" "schedules st sid = None" "schedules st' = (schedules st)(sid \<mapsto> e)"
    and "to_stop st' = to_stop st" "runs st' = runs st" "next_run st' = next_run st"
    and "next_timer st \<le> next_timer st'" "next_cron st \<le> next_cron st'"
    and "\<not> handle_used st (handle e)" "handle_used st' (handle e)" "entry_pending st' sid e"
    and "\<And>t. t < next_timer st \<Longrightarrow> armed st' t = armed st t"
    and "\<And>j. j < next_cron st \<Longrightarrow> cron_jobs st' j = cron_jobs st j"
  shows "schedules_ok st'"
proof (rule schedules_okI)
  have used: "handle_used st h \<Longrightarrow> handle_used st' h" for h
    using assms(7,8) by (auto simp: handle_used_def split: run_source.splits)
  have h: "handle_used st (handle e')" if "schedules st i = Some e'" for i e'
    using assms(1) that unfolding schedules_ok_def handles_ok_def by blast
  have hs: "handle_used st (handle e')" if "e' \<in> to_stop st" for e'
    using assms(1) that unfolding schedules_ok_def handles_ok_def by blast
  show "handles_ok st'"
    unfolding handles_ok_def assms(3-6)
  proof (intro conjI allI impI ballI)
    fix i e1 j e2
    assume "((schedules st)(sid \<mapsto> e)) i = Some e1" "((schedules st)(sid \<mapsto> e)) j = Some e2"
      "handle e1 = handle e2"
    then show "i = j"
      using h assms(1,9) unfolding schedules_ok_def handles_ok_def
      by (auto split: if_splits) metis
  next
    fix i e1 e2
    assume "((schedules st)(sid \<mapsto> e)) i = Some e1" "e2 \<in> to_stop st"
    then show "handle e2 \<noteq> handle e1"
      using hs assms(1,9) unfolding schedules_ok_def handles_ok_def
      by (auto split: if_splits)
  next
    fix r c assume "runs st r = Some c"
    then show "r < next_run st" using assms(1) unfolding schedules_ok_def handles_ok_def by blast
  qed (use h hs used assms(10) in \<open>auto split: if_splits\<close>)
  show "entry_pending st' i e'" if "schedules st' i = Some e'" for i e'
  proof (cases "i = sid")
    case False
    with that assms(3) have i: "schedules st i = Some e'" by simp
    with assms(1) have "entry_pending st i e'" by (simp add: schedules_ok_def)
    with h [OF i] assms(12,13) show ?thesis
      by (auto simp: entry_pending_def timer_pending_def handle_used_def handle_def assms(5)
          split: option.splits)
  qed (use that assms(3,11) in simp)
qed

lemma schedule_one_time_ok:
  assumes "schedules_ok st"
  shows "schedules_ok (snd (schedule_one_time fresh payload sid st))"
proof (cases "schedules st (chosen_id fresh sid)")
  case None
  show ?thesis
    by (rule schedules_ok_more [OF assms None, where e = "\<lparr>sch_payload = payload, sch_recurring = False,
          sch_cron = 0, sch_timer = Some (next_timer st)\<rparr>"])
      (use None in \<open>simp_all add: schedule_one_time_def Let_def handle_used_def handle_def
        entry_pending_def timer_pending_def\<close>)
qed (use assms in \<open>simp add: schedule_one_time_def Let_def\<close>)

lemma schedule_recurring_ok:
  assumes "schedules_ok st"
  shows "schedules_ok (snd (schedule_recurring fresh ok payload sid st))"
proof (cases "schedules st (chosen_id fresh sid) = None \<and> ok")
  case True
  show ?thesis
    by (rule schedules_ok_more [OF assms conjunct1 [OF True], where e = "\<lparr>sch_payload = payload,
          sch_recurring = True, sch_cron = next_cron st, sch_timer = None\<rparr>"])
      (use True in \<open>simp_all add: schedule_recurring_def Let_def handle_used_def handle_def
        entry_pending_def\<close>)
qed (use assms in \<open>auto simp: schedule_recurring_def Let_def\<close>)

lemma cancel_schedule_ok:
  assumes "schedules_ok st"
  shows "schedules_ok (snd (cancel_schedule sid st))"
proof (cases "schedules st sid")
  case (Some e)
  show ?thesis
    by (rule schedules_ok_fewer [OF assms])
      (use Some in \<open>auto simp: cancel_schedule_def split: if_splits\<close>)
qed (use assms in \<open>simp add: cancel_schedule_def\<close>)

lemma close_scheduler_ok:
  assumes "schedules_ok st"
  shows "schedules_ok (close_scheduler st)"
  by (rule schedules_ok_fewer [OF assms]) (auto simp: close_scheduler_def ran_def)

lemma stop_entry_ok:
  assumes "schedules_ok st" "e \<in> to_stop st"
  shows "schedules_ok (stop_entry e st)"
proof -
  have other: "handle e \<noteq> handle e'" if "schedules st i = Some e'" for i e'
    using assms that unfolding schedules_ok_def handles_ok_def by blast
  let ?s = "st\<lparr>armed := armed (stop_entry e st), cron_jobs := cron_jobs (stop_entry e st)\<rparr>"
  have "schedules_ok ?s"
  proof (rule schedules_ok_same [OF assms(1)])
    fix i e' t assume "schedules st i = Some e'" "sch_timer e' = Some t" "timer_pending st i t"
    with other [of i e'] show "timer_pending ?s i t"
      by (auto simp: timer_pending_def stop_entry_def handle_def Let_def split: option.splits)
  next
    fix i e' assume "schedules st i = Some e'" "sch_timer e' = None"
      "cron_jobs st (sch_cron e') = Some i"
    with other [of i e'] show "cron_jobs ?s (sch_cron e') = Some i"
      by (auto simp: stop_entry_def handle_def Let_def split: option.splits)
  next
    fix r c assume "runs ?s r = Some c"
    then show "r < next_run ?s" using assms(1) by (auto simp: schedules_ok_def handles_ok_def)
  qed simp_all
  then show ?thesis
    by (rule schedules_ok_fewer) (auto simp: stop_entry_def Let_def split: option.splits)
qed

lemma timer_pending_mono:
  assumes "timer_pending st i t" "armed st t = Some i \<Longrightarrow> timer_pending st' i t"
    and "\<And>r c. runs st r = Some c \<Longrightarrow> run_source c = From_timer t \<Longrightarrow> run_schedule c = i \<Longrightarrow>
      \<exists>c'. runs st' r = Some c' \<and> run_source c' = From_timer t \<and> run_schedule c' = i"
  shows "timer_pending st' i t"
  using assms unfolding timer_pending_def by blast

lemma armed_pending: "armed st t = Some i \<Longrightarrow> timer_pending st i t"
  by (simp add: timer_pending_def)

lemma start_run_ok:
  assumes "schedules_ok st"
  shows "armed st t = Some sid \<Longrightarrow>
      schedules_ok (start_run (From_timer t) sid (st\<lparr>armed := (armed st)(t := None)\<rparr>))"
    and "schedules_ok (start_run (From_cron j) sid st)"
proof -
  have run: "r < next_run st" if "runs st r = Some c" for r c
    using assms that by (auto simp: schedules_ok_def handles_ok_def)
  then have fresh: "runs st (next_run st) = None" by (metis less_irrefl not_None_eq)
  show "schedules_ok (start_run (From_cron j) sid st)"
  proof (rule schedules_ok_same [OF assms])
    fix i e t' assume "timer_pending st i t'"
    then show "timer_pending (start_run (From_cron j) sid st) i t'"
      by (rule timer_pending_mono) (use fresh in \<open>auto simp: start_run_def intro: armed_pending\<close>)
  qed (use run in \<open>auto simp: start_run_def less_SucI split: if_splits\<close>)
  assume a: "armed st t = Some sid"
  let ?s = "start_run (From_timer t) sid (st\<lparr>armed := (armed st)(t := None)\<rparr>)"
  have t: "timer_pending ?s sid t" by (auto simp: timer_pending_def start_run_def)
  show "schedules_ok ?s"
  proof (rule schedules_ok_same [OF assms])
    fix i e t' assume "timer_pending st i t'"
    then show "timer_pending ?s i t'"
    proof (rule timer_pending_mono)
      assume "armed st t' = Some i"
      with a t show "timer_pending ?s i t'"
        by (cases "t' = t") (auto simp: start_run_def intro: armed_pending)
    qed (use fresh in \<open>auto simp: start_run_def\<close>)
  qed (use run in \<open>auto simp: start_run_def less_SucI split: if_splits\<close>)
qed

lemma run_phase_ok:
  assumes "schedules_ok st" "runs st r = Some c"
  shows "schedules_ok (st\<lparr>runs := (runs st)(r \<mapsto> c\<lparr>run_phase := p\<rparr>)\<rparr>)"
proof (rule schedules_ok_same [OF assms(1)])
  fix i e t assume "timer_pending st i t"
  then show "timer_pending (st\<lparr>runs := (runs st)(r \<mapsto> c\<lparr>run_phase := p\<rparr>)\<rparr>) i t"
    by (rule timer_pending_mono) (use assms(2) in \<open>auto intro: armed_pending\<close>)
qed (use assms in \<open>auto simp: schedules_ok_def handles_ok_def split: if_splits\<close>)

lemma schedules_ok_calls: "schedules_ok (st\<lparr>calls := cs\<rparr>) = schedules_ok st" for st
  by (simp add: schedules_ok_def handles_ok_def entry_pending_def timer_pending_def handle_used_def
      cong: option.case_cong run_source.case_cong)

lemma leave_invoke_ok:
  assumes "schedules_ok st" "runs st r = Some c"
  shows "schedules_ok (leave_invoke r c st)"
proof (cases "run_source c")
  case (From_timer t)
  with run_phase_ok [OF assms] show ?thesis by (simp add: leave_invoke_def)
next
  case (From_cron j)
  have "schedules_ok (st\<lparr>runs := (runs st)(r := None)\<rparr>)"
  proof (rule schedules_ok_same [OF assms(1)])
    fix i e t assume "timer_pending st i t"
    then show "timer_pending (st\<lparr>runs := (runs st)(r := None)\<rparr>) i t"
      by (rule timer_pending_mono) (use assms(2) From_cron in \<open>auto intro: armed_pending\<close>)
  qed (use assms in \<open>auto simp: schedules_ok_def handles_ok_def split: if_splits\<close>)
  with From_cron show ?thesis by (simp add: leave_invoke_def)
qed

lemma look_up_entry_ok:
  assumes "schedules_ok st" "runs st r = Some c"
  shows "schedules_ok (look_up_entry r c st)"
  using leave_invoke_ok [OF assms] run_phase_ok [OF assms]
  by (auto simp: look_up_entry_def split: option.split)

lemma call_plugin_ok:
  assumes "schedules_ok st" "runs st r = Some c"
  shows "schedules_ok (call_plugin r c p b st)"
  using leave_invoke_ok [OF assms] run_phase_ok [OF assms, of In_plugin]
    schedules_ok_calls [where st = "st\<lparr>runs := (runs st)(r \<mapsto> c\<lparr>run_phase := In_plugin\<rparr>)\<rparr>"]
  by (auto simp: call_plugin_def)

lemma clean_up_ok:
  assumes "schedules_ok st" "runs st r = Some c"
  shows "schedules_ok (clean_up r c st)"
proof -
  let ?s = "st\<lparr>schedules := (schedules st)(run_schedule c := None)\<rparr>"
  have s: "schedules_ok ?s"
    by (rule schedules_ok_fewer [OF assms(1)]) (auto split: if_splits)
  have run: "q < next_run st" if "runs st q = Some d" for q d
    using assms(1) that by (auto simp: schedules_ok_def handles_ok_def)
  have "schedules_ok (?s\<lparr>runs := (runs st)(r := None)\<rparr>)"
  proof (rule schedules_ok_same [OF s])
    fix i e t assume "schedules ?s i = Some e" "timer_pending ?s i t"
    from this(2) show "timer_pending (?s\<lparr>runs := (runs st)(r := None)\<rparr>) i t"
      by (rule timer_pending_mono)
        (use assms(2) \<open>schedules ?s i = Some e\<close> in \<open>auto intro: armed_pending split: if_splits\<close>)
  qed (use run in \<open>simp_all split: if_splits\<close>)
  then show ?thesis by (simp add: clean_up_def)
qed

lemma schedule_step_ok:
  assumes "schedule_step st ev st'" "schedules_ok st"
  shows "schedules_ok st'"
  using assms(1)
proof cases
  case (load b)
  then show ?thesis
    using assms(2) by (simp add: schedules_ok_def handles_ok_def entry_pending_def timer_pending_def
        handle_used_def cong: option.case_cong run_source.case_cong)
qed (use assms(2) in \<open>simp_all add: schedule_one_time_ok schedule_recurring_ok cancel_schedule_ok
    close_scheduler_ok stop_entry_ok start_run_ok leave_invoke_ok look_up_entry_ok call_plugin_ok clean_up_ok\<close>)

definition is_new_scheduler :: "schedule_state \<Rightarrow> bool" where
  "is_new_scheduler st \<longleftrightarrow> (\<exists>ld. st = new_scheduler ld)"

interpretation sched: invariant schedule_step is_new_scheduler UNIV schedules_ok
  by unfold_locales (auto simp: is_new_scheduler_def schedules_ok_new intro: schedule_step_ok)

section \<open>A cancelled schedule\<close>

fun schedules_id :: "string \<Rightarrow> schedule_event \<Rightarrow> bool" where
  "schedules_id sid (Ask_once fresh payload s) \<longleftrightarrow> chosen_id fresh s = sid"
| "schedules_id sid (Ask_recurring fresh ok payload s) \<longleftrightarrow> chosen_id fresh s = sid"
| "schedules_id sid _ \<longleftrightarrow> False"

definition calls_of :: "string \<Rightarrow> schedule_state \<Rightarrow> (string \<times> string \<times> bool) list" where
  "calls_of sid st = filter (\<lambda>c. fst c = sid) (calls st)"

lemma leave_invoke_sel [simp]:
  "schedules (leave_invoke r c st) = schedules st" "calls (leave_invoke r c st) = calls st"
  by (auto simp: leave_invoke_def split: run_source.split)

text \<open>The runs that have read the entry of an id and are about to call the plugin, and with what.\<close>

definition found_runs :: "string \<Rightarrow> schedule_state \<Rightarrow> nat set" where
  "found_runs sid st = {r. \<exists>c p b. runs st r = Some c \<and> run_schedule c = sid \<and> run_phase c = Found p b}"

definition found_calls :: "string \<Rightarrow> schedule_state \<Rightarrow> (string \<times> string \<times> bool) set" where
  "found_calls sid st =
     {(sid, p, b) | r c p b. runs st r = Some c \<and> run_schedule c = sid \<and> run_phase c = Found p b}"

text \<open>Without an entry, a step adds at most the call of one of these runs, which is then no longer one.\<close>

lemma silent_step:
  assumes "schedule_step st ev st'" "schedules st sid = None" "\<not> schedules_id sid ev"
  shows "schedules st' sid = None \<and> found_runs sid st' \<subseteq> found_runs sid st \<and> found_calls sid st' \<subseteq> found_calls sid st \<and>
    (calls_of sid st' = calls_of sid st \<or>
     (\<exists>r \<in> found_runs sid st. \<exists>k \<in> found_calls sid st. r \<notin> found_runs sid st' \<and> calls_of sid st' = calls_of sid st @ [k]))"
  using assms(1)
proof cases
  case (look r c)
  with assms(2) show ?thesis
    by (auto simp: look_up_entry_def leave_invoke_def calls_of_def found_runs_def found_calls_def
        split: option.split run_source.split if_splits)
next
  case (call r c p b)
  show ?thesis
  proof (cases "run_schedule c = sid \<and> plugin_loaded st")
    case True
    with call have "r \<in> found_runs sid st" "(sid, p, b) \<in> found_calls sid st" "r \<notin> found_runs sid st'"
      "calls_of sid st' = calls_of sid st @ [(sid, p, b)]"
      by (auto simp: call_plugin_def calls_of_def found_runs_def found_calls_def)
    moreover have "schedules st' sid = None \<and> found_runs sid st' \<subseteq> found_runs sid st \<and> found_calls sid st' \<subseteq> found_calls sid st"
      using True call assms(2) by (auto simp: call_plugin_def found_runs_def found_calls_def split: if_splits)
    ultimately show ?thesis by blast
  next
    case False
    with call assms(2) show ?thesis
      by (auto simp: call_plugin_def leave_invoke_def calls_of_def found_runs_def found_calls_def
          split: run_source.split if_splits)
  qed
qed (use assms(2,3) in \<open>auto simp: schedule_one_time_def schedule_recurring_def cancel_schedule_def
    close_scheduler_def stop_entry_def start_run_def clean_up_def leave_invoke_def calls_of_def
    found_runs_def found_calls_def Let_def split: option.splits run_source.splits if_splits\<close>)

definition silent_since :: "string \<Rightarrow> schedule_state \<Rightarrow> schedule_state \<Rightarrow> bool" where
  "silent_since sid st0 st \<longleftrightarrow>
     schedules st sid = None \<and> found_runs sid st \<subseteq> found_runs sid st0 \<and> found_calls sid st \<subseteq> found_calls sid st0 \<and>
     (\<exists>ks. calls_of sid st = calls_of sid st0 @ ks \<and> set ks \<subseteq> found_calls sid st0 \<and>
           length ks + card (found_runs sid st) \<le> card (found_runs sid st0))"

lemma silent_since_step:
  assumes "schedule_step st ev st'" "\<not> schedules_id sid ev" "finite (found_runs sid st0)" "silent_since sid st0 st"
  shows "silent_since sid st0 st'"
proof -
  from assms(4) obtain ks where ks: "schedules st sid = None" "found_runs sid st \<subseteq> found_runs sid st0"
    "found_calls sid st \<subseteq> found_calls sid st0" "calls_of sid st = calls_of sid st0 @ ks"
    "set ks \<subseteq> found_calls sid st0" "length ks + card (found_runs sid st) \<le> card (found_runs sid st0)"
    unfolding silent_since_def by blast
  note step = silent_step [OF assms(1) ks(1) assms(2)]
  have fin: "finite (found_runs sid st)" using ks(2) assms(3) by (rule finite_subset)
  from step consider "calls_of sid st' = calls_of sid st"
    | r k where "r \<in> found_runs sid st" "k \<in> found_calls sid st" "r \<notin> found_runs sid st'"
      "calls_of sid st' = calls_of sid st @ [k]"
    by blast
  then show ?thesis
  proof cases
    case 1
    from step fin have "card (found_runs sid st') \<le> card (found_runs sid st)" by (simp add: card_mono)
    with 1 ks step show ?thesis unfolding silent_since_def by (intro conjI exI [of _ ks]) auto
  next
    case 2
    from 2 step fin have "card (found_runs sid st') < card (found_runs sid st)" by (intro psubset_card_mono) auto
    with 2 ks step show ?thesis unfolding silent_since_def by (intro conjI exI [of _ "ks @ [k]"]) auto
  qed
qed

interpretation silent: invariant schedule_step "\<lambda>s. s = st0" "{ev. \<not> schedules_id sid ev}"
  "\<lambda>st. schedules st0 sid = None \<and> finite (found_runs sid st0) \<longrightarrow> silent_since sid st0 st"
  for st0 sid
  by unfold_locales (auto simp: silent_since_def [of sid st0 st0] intro: silent_since_step)

lemma reached_found_finite:
  assumes "reached schedule_step is_new_scheduler UNIV st"
  shows "finite (found_runs sid st)"
proof -
  have "found_runs sid st \<subseteq> {..<next_run st}"
    using sched.reached_inv [OF assms] by (auto simp: found_runs_def schedules_ok_def handles_ok_def)
  then show ?thesis by (rule finite_subset) simp
qed

text \<open>
  No schedule is forgotten while it is in the table: in every state the service can reach,
  a one-time schedule has its timer armed for its id or a run of that timer under way, and a
  recurring one has its job in the cron scheduler; whatever other schedules are created,
  cancelled, fired or stopped meanwhile.
\<close>

lemma schedules_stay_pending:
  assumes "reached schedule_step is_new_scheduler UNIV st" "schedules st sid = Some e"
  shows "entry_pending st sid e"
  using schedules_okD [OF sched.reached_inv [OF assms(1)] assms(2)] .

text \<open>
  C20. After \<open>CancelSchedule\<close>, as long as no schedule is created under the same id, the plugin receives no
  callback for it, except from runs that had already read the entry when it was cancelled: each of
  these makes at most one call, with what it had read. Timers and jobs that fire before they are
  stopped make none.
\<close>

theorem cancelled_stays_silent:
  assumes "reached schedule_step is_new_scheduler UNIV st" "fst (cancel_schedule sid st) = Inr ()"
    and "reached schedule_step (\<lambda>s. s = snd (cancel_schedule sid st))
           {ev. \<not> schedules_id sid ev} st'"
  shows "\<exists>ks. calls_of sid st' = calls_of sid st @ ks \<and> length ks \<le> card (found_runs sid st) \<and>
    set ks \<subseteq> found_calls sid st"
proof -
  let ?st = "snd (cancel_schedule sid st)"
  have "schedules ?st sid = None" and same: "calls_of sid ?st = calls_of sid st" "found_runs sid ?st = found_runs sid st"
    "found_calls sid ?st = found_calls sid st"
    using assms(2) by (auto simp: cancel_schedule_def calls_of_def found_runs_def found_calls_def split: option.splits)
  with silent.reached_inv [OF assms(3)] reached_found_finite [OF assms(1), of sid]
  have "silent_since sid ?st st'" by simp
  then show ?thesis unfolding silent_since_def same by fastforce
qed

section \<open>Scheduling from within the callback\<close>

definition once_found :: schedule_state where
  "once_found =
     look_up_entry 0 \<lparr>run_source = From_timer 0, run_schedule = ''job'', run_phase = Looking\<rparr>
       (start_run (From_timer 0) ''job''
         ((snd (schedule_one_time '''' ''first'' ''job'' (new_scheduler True)))\<lparr>armed := Map.empty\<rparr>))"

definition once_fired :: schedule_state where
  "once_fired =
     call_plugin 0 \<lparr>run_source = From_timer 0, run_schedule = ''job'', run_phase = Found ''first'' False\<rparr>
       ''first'' False once_found"

lemmas schedule_eval = once_fired_def once_found_def call_plugin_def schedule_one_time_def new_scheduler_def chosen_id_def
  start_run_def look_up_entry_def cancel_schedule_def stop_entry_def leave_invoke_def clean_up_def

lemma next_reached:
  "reached schedule_step is_new_scheduler UNIV st \<Longrightarrow> schedule_step st ev st' \<Longrightarrow>
   reached schedule_step is_new_scheduler UNIV st'"
  by (rule reached.step) simp_all

lemma once_found_reached: "reached schedule_step is_new_scheduler UNIV once_found"
proof -
  let ?s0 = "new_scheduler True"
  let ?s1 = "snd (schedule_one_time '''' ''first'' ''job'' ?s0)"
  let ?s2 = "start_run (From_timer 0) ''job'' (?s1\<lparr>armed := Map.empty\<rparr>)"
  have "reached schedule_step is_new_scheduler UNIV ?s1"
    by (rule next_reached [OF reached.start], simp add: is_new_scheduler_def, blast,
        rule schedule_step.once)
  then have "reached schedule_step is_new_scheduler UNIV
      (start_run (From_timer 0) ''job'' (?s1\<lparr>armed := (armed ?s1)(0 := None)\<rparr>))"
    by (rule next_reached) (rule schedule_step.fire, simp_all add: schedule_eval Let_def)
  moreover have "(armed ?s1)(0 := None) = Map.empty"
    by (auto simp: schedule_eval Let_def)
  ultimately have "reached schedule_step is_new_scheduler UNIV ?s2" by simp
  then show ?thesis
    unfolding once_found_def
    by (rule next_reached) (rule schedule_step.look, simp_all add: schedule_eval Let_def)
qed

lemma once_fired_reached: "reached schedule_step is_new_scheduler UNIV once_fired"
  unfolding once_fired_def
  by (rule next_reached [OF once_found_reached])
    (rule schedule_step.call, simp_all add: schedule_eval Let_def)

lemma once_fired_state:
  "schedules once_fired = [''job'' \<mapsto> \<lparr>sch_payload = ''first'', sch_recurring = False, sch_cron = 0,
     sch_timer = Some 0\<rparr>]" "armed once_fired = Map.empty" "to_stop once_fired = {}"
  "runs once_fired = [0 \<mapsto> \<lparr>run_source = From_timer 0, run_schedule = ''job'', run_phase = In_plugin\<rparr>]"
  "calls once_fired = [(''job'', ''first'', False)]" "next_timer once_fired = 1" "next_run once_fired = 1"
  by (simp_all add: schedule_eval Let_def)

lemma schedules_stay_pending_witness:
  "entry_pending once_fired ''job''
     \<lparr>sch_payload = ''first'', sch_recurring = False, sch_cron = 0, sch_timer = Some 0\<rparr>"
  using schedules_stay_pending [OF once_fired_reached] by (simp add: once_fired_state)

text \<open>
  A run that has read its entry calls the plugin even if the schedule was cancelled in between.
\<close>

lemma cancel_races_call:
  "\<exists>st st'. reached schedule_step is_new_scheduler UNIV st \<and> fst (cancel_schedule ''job'' st) = Inr () \<and> calls st = [] \<and>
     schedule_step (snd (cancel_schedule ''job'' st)) (Run_calls 0) st' \<and> calls st' = [(''job'', ''first'', False)]"
proof (intro exI conjI)
  let ?c = "\<lparr>run_source = From_timer 0, run_schedule = ''job'', run_phase = Found ''first'' False\<rparr>"
  show "reached schedule_step is_new_scheduler UNIV once_found" by (rule once_found_reached)
  show "fst (cancel_schedule ''job'' once_found) = Inr ()" "calls once_found = []"
    by (simp_all add: schedule_eval Let_def)
  show "schedule_step (snd (cancel_schedule ''job'' once_found)) (Run_calls 0)
      (call_plugin 0 ?c ''first'' False (snd (cancel_schedule ''job'' once_found)))"
    by (rule schedule_step.call) (simp_all add: schedule_eval Let_def)
  show "calls (call_plugin 0 ?c ''first'' False (snd (cancel_schedule ''job'' once_found))) = [(''job'', ''first'', False)]"
    by (simp add: schedule_eval Let_def)
qed

theorem cancelled_stays_silent_witness:
  "\<exists>ks. calls_of ''job'' (snd (cancel_schedule ''job'' once_found)) = calls_of ''job'' once_found @ ks
     \<and> length ks \<le> card (found_runs ''job'' once_found) \<and> set ks \<subseteq> found_calls ''job'' once_found"
proof -
  have "fst (cancel_schedule ''job'' once_found) = Inr ()"
    by (simp add: schedule_eval Let_def)
  from cancelled_stays_silent [OF once_found_reached this reached.start] show ?thesis by simp
qed

text \<open>
  While a one-time callback runs, its entry is still in the table: a callback that schedules its
  own id again, as the retry of an example plugin does, is refused.
\<close>

lemma reschedule_refused:
  "fst (schedule_one_time '''' ''again'' ''job'' once_fired) = Inl (Already_exists ''job'')"
  by (simp add: schedule_one_time_def chosen_id_def once_fired_state)

text \<open>
  A callback that cancels its own id first may schedule it again, but the entry is deleted when
  the callback returns: the new timer is armed and will find nothing to call.
\<close>

lemma rescheduled_task_lost:
  "\<exists>st. reached schedule_step is_new_scheduler UNIV st \<and> armed st 1 = Some ''job'' \<and>
     schedules st ''job'' = None \<and> to_stop st = {} \<and> runs st = Map.empty"
proof -
  let ?s1 = "snd (cancel_schedule ''job'' once_fired)"
  let ?s2 = "snd (schedule_one_time '''' ''again'' ''job'' ?s1)"
  let ?e = "\<lparr>sch_payload = ''first'', sch_recurring = False, sch_cron = 0, sch_timer = Some 0\<rparr>"
  let ?c = "\<lparr>run_source = From_timer 0, run_schedule = ''job'', run_phase = In_plugin\<rparr>"
  let ?s3 = "stop_entry ?e ?s2"
  let ?s4 = "leave_invoke 0 ?c ?s3"
  let ?s5 = "clean_up 0 (?c\<lparr>run_phase := Cleaning\<rparr>) ?s4"
  have 1: "schedules ?s1 = Map.empty" "armed ?s1 = Map.empty" "to_stop ?s1 = {?e}"
    "runs ?s1 = runs once_fired" "next_timer ?s1 = 1"
    by (auto simp: cancel_schedule_def once_fired_state)
  have 2: "armed ?s2 = [1 \<mapsto> ''job'']" "to_stop ?s2 = {?e}" "runs ?s2 = runs once_fired"
    by (auto simp: schedule_one_time_def Let_def chosen_id_def 1)
  have 3: "armed ?s3 = [1 \<mapsto> ''job'']" "to_stop ?s3 = {}" "runs ?s3 = runs once_fired"
    by (auto simp: stop_entry_def 2)
  have 4: "armed ?s4 = [1 \<mapsto> ''job'']" "to_stop ?s4 = {}" "runs ?s4 = [0 \<mapsto> ?c\<lparr>run_phase := Cleaning\<rparr>]"
    by (auto simp: leave_invoke_def 3 once_fired_state)
  have "reached schedule_step is_new_scheduler UNIV ?s1"
    by (rule next_reached [OF once_fired_reached], rule schedule_step.cancel)
  then have "reached schedule_step is_new_scheduler UNIV ?s2"
    by (rule next_reached) (rule schedule_step.once)
  then have "reached schedule_step is_new_scheduler UNIV ?s3"
    by (rule next_reached) (rule schedule_step.stop, simp_all add: 2)
  then have "reached schedule_step is_new_scheduler UNIV ?s4"
    by (rule next_reached) (rule schedule_step.return, simp_all add: 3 once_fired_state)
  then have "reached schedule_step is_new_scheduler UNIV ?s5"
    by (rule next_reached) (rule schedule_step.clean, simp_all add: 4)
  then show ?thesis by (intro exI [of _ ?s5]) (auto simp: clean_up_def 4)
qed

end
