(* ===== verification/EventBroker.thy ===== *)
theory EventBroker
  imports Steps GoStrings
begin

text \<open>
  The broker of server-sent events: \<open>server/events/sse.go\<close> and \<open>server/events/events.go\<close>. One
  goroutine (\<open>listen\<close>) owns the set of clients and receives from three channels; every client has
  a channel of its own with room for one message, and its handler writes what it reads there to
  the connection. The channels are bounded queues, a step that would block is not possible, and
  \<open>select\<close> may take from any channel that is ready. Event numbers are natural numbers here.
\<close>

section \<open>Messages and clients\<close>

text \<open>The values the code reads from the context of a sender.\<close>

record sender_ctx =
  ctx_broadcast :: bool
  ctx_client_id :: "string option"
  ctx_username :: "string option"

definition background :: sender_ctx where
  "background = \<lparr>ctx_broadcast = False, ctx_client_id = None, ctx_username = None\<rparr>"

definition broadcast_to_all :: "sender_ctx \<Rightarrow> sender_ctx" where
  "broadcast_to_all c = c\<lparr>ctx_broadcast := True\<rparr>"

record sse_message =
  msg_id :: nat
  msg_event :: string
  msg_data :: string
  msg_sender :: sender_ctx

record sse_client =
  cl_id :: string
  cl_username :: string
  cl_unique_id :: string

definition should_send :: "sse_message \<Rightarrow> sse_client \<Rightarrow> bool" where
  "should_send m c =
     (if ctx_broadcast (msg_sender m) then True
      else (case ctx_client_id (msg_sender m) of
              None \<Rightarrow> True
            | Some i \<Rightarrow>
                if cl_unique_id c = i then False
                else (case ctx_username (msg_sender m) of
                        Some u \<Rightarrow> u = cl_username c
                      | None \<Rightarrow> True)))"

text \<open>What \<open>writeEvent\<close> prints.\<close>

definition format_event :: "sse_message \<Rightarrow> string" where
  "format_event m =
     ''id: '' @ show_base 10 (msg_id m) @ [nl] @ ''event: '' @ msg_event m @ [nl] @
     ''data: '' @ msg_data m @ [nl, nl]"

section \<open>Resource refresh events\<close>

text \<open>\<open>RefreshResource\<close>: a map from resources to ids; \<open>None\<close> is the nil map.\<close>

definition Any_id :: string where
  "Any_id = ''*''"

definition refresh_with ::
  "string \<Rightarrow> string list \<Rightarrow> (string \<rightharpoonup> string list) option \<Rightarrow> (string \<rightharpoonup> string list) option" where
  "refresh_with resource ids rr =
     (let rs = (case rr of None \<Rightarrow> Map.empty | Some rs \<Rightarrow> rs);
          cur = (case rs resource of None \<Rightarrow> [] | Some l \<Rightarrow> l);
          cur1 = (if ids = [] then cur @ [Any_id] else cur)
      in Some (rs(resource \<mapsto> cur1 @ ids)))"

definition refresh_data ::
  "((string \<rightharpoonup> string list) \<Rightarrow> string) \<Rightarrow> (string \<rightharpoonup> string list) option \<Rightarrow> string" where
  "refresh_data to_json rr =
     (case rr of
        None \<Rightarrow> [CHR ''{'', dq, CHR ''*'', dq, CHR '':'', dq, CHR ''*'', dq, CHR ''}'']
      | Some rs \<Rightarrow> to_json rs)"

section \<open>The broker\<close>

text \<open>
  The state: the channels \<open>publish\<close> (room for two), \<open>subscribing\<close> and \<open>unsubscribing\<close> (room for
  one each), the clients of the listener and its counter, the channel of each client and whether
  it is closed, the handlers that are serving, what each wrote to its connection, and whether
  the listener has panicked.
\<close>

record broker =
  publish :: "sse_message list"
  subscribing :: "sse_client list"
  unsubscribing :: "sse_client list"
  clients :: "sse_client set"
  event_id :: nat
  client_chan :: "sse_client \<Rightarrow> sse_message list"
  chan_closed :: "sse_client set"
  known :: "sse_client set"
  serving :: "sse_client set"
  written :: "sse_client \<Rightarrow> sse_message list"
  panicked :: bool

definition new_broker :: broker where
  "new_broker =
     \<lparr>publish = [], subscribing = [], unsubscribing = [], clients = {}, event_id = 0,
      client_chan = (\<lambda>_. []), chan_closed = {}, known = {}, serving = {}, written = (\<lambda>_. []),
      panicked = False\<rparr>"

definition buffer_size :: nat where
  "buffer_size = 1"

text \<open>
  \<open>sendOrDrop\<close>: a \<open>select\<close> with a default does not block, but sending on a closed channel panics.
\<close>

definition send_or_drop :: "sse_client \<Rightarrow> sse_message \<Rightarrow> broker \<Rightarrow> broker" where
  "send_or_drop c m b =
     (if c \<in> chan_closed b then b\<lparr>panicked := True\<rparr>
      else if length (client_chan b c) < buffer_size
      then b\<lparr>client_chan := (client_chan b)(c := client_chan b c @ [m])\<rparr>
      else b)"

text \<open>Sending to every client of a set for which the message is meant, in one go.\<close>

definition send_to :: "sse_client set \<Rightarrow> sse_message \<Rightarrow> broker \<Rightarrow> broker" where
  "send_to cs m b =
     b\<lparr>client_chan := (\<lambda>c. if c \<in> cs \<and> c \<notin> chan_closed b \<and> length (client_chan b c) < buffer_size
                          then client_chan b c @ [m] else client_chan b c),
       panicked := (panicked b \<or> cs \<inter> chan_closed b \<noteq> {})\<rparr>"

definition server_start :: "string \<Rightarrow> sse_message" where
  "server_start d = \<lparr>msg_id = 0, msg_event = ''serverStart'', msg_data = d, msg_sender = background\<rparr>"

definition keep_alive :: "string \<Rightarrow> nat \<Rightarrow> sse_message" where
  "keep_alive d n = \<lparr>msg_id = n, msg_event = ''keepAlive'', msg_data = d, msg_sender = background\<rparr>"

definition take_subscription :: "string \<Rightarrow> sse_client \<Rightarrow> broker \<Rightarrow> broker" where
  "take_subscription d c b =
     send_or_drop c (server_start d) (b\<lparr>clients := insert c (clients b)\<rparr>)"

definition take_unsubscription :: "sse_client \<Rightarrow> broker \<Rightarrow> broker" where
  "take_unsubscription c b =
     b\<lparr>chan_closed := insert c (chan_closed b), clients := clients b - {c}\<rparr>"

definition take_publication :: "sse_message \<Rightarrow> broker \<Rightarrow> broker" where
  "take_publication m b =
     (let m' = m\<lparr>msg_id := Suc (event_id b)\<rparr>
      in send_to {c \<in> clients b. should_send m' c} m' (b\<lparr>event_id := Suc (event_id b)\<rparr>))"

definition send_keep_alive :: "string \<Rightarrow> broker \<Rightarrow> broker" where
  "send_keep_alive d b =
     (if clients b = {} then b
      else send_to (clients b) (keep_alive d (Suc (event_id b))) (b\<lparr>event_id := Suc (event_id b)\<rparr>))"

section \<open>Steps\<close>

text \<open>
  A connection registers itself, its handler reads (a message it has read is lost when the
  connection ends before it is written), and it leaves once; the listener takes from
  its channels. \<open>Take_leave True\<close> is the unsubscription of a client the listener knows,
  \<open>Take_leave False\<close> that of one whose subscription it has not taken yet.
\<close>

datatype broker_event =
    Connect sse_client
  | Send string string sender_ctx
  | Read sse_client
  | Leave sse_client
  | Take_join
  | Take_leave bool
  | Take_message
  | Tick

inductive broker_step :: "broker \<Rightarrow> broker_event \<Rightarrow> broker \<Rightarrow> bool" where
  connect: "c \<notin> known b \<Longrightarrow> subscribing b = [] \<Longrightarrow>
    broker_step b (Connect c)
      (b\<lparr>subscribing := [c], known := insert c (known b), serving := insert c (serving b)\<rparr>)"
| send: "length (publish b) < 2 \<Longrightarrow>
    broker_step b (Send ev d ctx)
      (b\<lparr>publish := publish b @ [\<lparr>msg_id = 0, msg_event = ev, msg_data = d, msg_sender = ctx\<rparr>]\<rparr>)"
| read: "c \<in> serving b \<Longrightarrow> client_chan b c = m # ms \<Longrightarrow>
    broker_step b (Read c)
      (b\<lparr>client_chan := (client_chan b)(c := ms), written := (written b)(c := written b c @ [m])\<rparr>)"
| read_lost: "c \<in> serving b \<Longrightarrow> client_chan b c = m # ms \<Longrightarrow>
    broker_step b (Read c) (b\<lparr>client_chan := (client_chan b)(c := ms)\<rparr>)"
| leave: "c \<in> serving b \<Longrightarrow> unsubscribing b = [] \<Longrightarrow>
    broker_step b (Leave c) (b\<lparr>unsubscribing := [c], serving := serving b - {c}\<rparr>)"
| take_join: "\<not> panicked b \<Longrightarrow> subscribing b = c # cs \<Longrightarrow>
    broker_step b Take_join (take_subscription d c (b\<lparr>subscribing := cs\<rparr>))"
| take_leave: "\<not> panicked b \<Longrightarrow> unsubscribing b = c # cs \<Longrightarrow>
    broker_step b (Take_leave (c \<in> clients b)) (take_unsubscription c (b\<lparr>unsubscribing := cs\<rparr>))"
| take_message: "\<not> panicked b \<Longrightarrow> publish b = m # ms \<Longrightarrow>
    broker_step b Take_message (take_publication m (b\<lparr>publish := ms\<rparr>))"
| tick: "\<not> panicked b \<Longrightarrow> broker_step b Tick (send_keep_alive d b)"

inductive_cases broker_stepE: "broker_step b ev b'"

section \<open>What a connection sees\<close>

definition seen :: "broker \<Rightarrow> sse_client \<Rightarrow> sse_message list" where
  "seen b c = written b c @ client_chan b c"

definition stream_ok :: "nat \<Rightarrow> sse_client \<Rightarrow> sse_message list \<Rightarrow> bool" where
  "stream_ok n c ms \<longleftrightarrow>
     sorted_wrt (<) (map msg_id ms) \<and> (\<forall>m \<in> set ms. msg_id m \<le> n \<and> should_send m c)"

definition not_joined :: "broker \<Rightarrow> sse_client \<Rightarrow> bool" where
  "not_joined b c \<longleftrightarrow> seen b c = [] \<and> c \<notin> clients b"

definition broker_ok :: "broker \<Rightarrow> bool" where
  "broker_ok b \<longleftrightarrow>
     (\<forall>c. stream_ok (event_id b) c (seen b c)) \<and>
     (\<forall>c \<in> set (subscribing b). not_joined b c \<and> c \<in> known b) \<and>
     (\<forall>c. c \<notin> known b \<longrightarrow> not_joined b c)"

lemma broker_okI:
  assumes "\<And>c. stream_ok (event_id b) c (seen b c)"
    and "\<And>c. c \<in> set (subscribing b) \<Longrightarrow> not_joined b c \<and> c \<in> known b"
    and "\<And>c. c \<notin> known b \<Longrightarrow> not_joined b c"
  shows "broker_ok b"
  using assms by (simp add: broker_ok_def)

lemma broker_okD:
  assumes "broker_ok b"
  shows "stream_ok (event_id b) c (seen b c)"
    and "c \<in> set (subscribing b) \<Longrightarrow> not_joined b c \<and> c \<in> known b"
    and "c \<notin> known b \<Longrightarrow> not_joined b c"
  using assms by (simp_all add: broker_ok_def)

lemma stream_ok_snoc:
  "stream_ok n c ms \<Longrightarrow> n < msg_id m \<Longrightarrow> should_send m c \<Longrightarrow> stream_ok (msg_id m) c (ms @ [m])"
  by (auto simp: stream_ok_def sorted_wrt_append)

lemma stream_ok_mono: "stream_ok n c ms \<Longrightarrow> n \<le> n' \<Longrightarrow> stream_ok n' c ms"
  by (auto simp: stream_ok_def)

lemma stream_ok_remove: "stream_ok n c (xs @ m # ys) \<Longrightarrow> stream_ok n c (xs @ ys)"
  by (auto simp: stream_ok_def sorted_wrt_append)

lemma background_for_all [simp]:
  "msg_sender m = background \<Longrightarrow> should_send m c"
  by (simp add: should_send_def background_def)

lemma broker_ok_new: "broker_ok new_broker"
  by (simp add: broker_ok_def new_broker_def seen_def stream_ok_def not_joined_def)

text \<open>Sending a message with a new number to some of the clients that it is meant for.\<close>

lemma send_to_ok:
  assumes "broker_ok b" "cs \<subseteq> clients b" "msg_id m = Suc (event_id b)"
    and "\<And>c. c \<in> cs \<Longrightarrow> should_send m c"
  shows "broker_ok (send_to cs m (b\<lparr>event_id := Suc (event_id b)\<rparr>))"
proof (rule broker_okI)
  let ?b = "send_to cs m (b\<lparr>event_id := Suc (event_id b)\<rparr>)"
  fix c
  note old = broker_okD(1) [OF assms(1), of c]
  consider "seen ?b c = seen b c" | "c \<in> cs" "seen ?b c = seen b c @ [m]"
    by (cases "c \<in> cs \<and> c \<notin> chan_closed b \<and> length (client_chan b c) < buffer_size")
      (auto simp: seen_def send_to_def)
  then show "stream_ok (event_id ?b) c (seen ?b c)"
  proof cases
    case 1
    with stream_ok_mono [OF old] show ?thesis by (simp add: send_to_def)
  next
    case 2
    have "event_id ?b = msg_id m" by (simp add: send_to_def assms(3))
    with stream_ok_snoc [OF old, of m] assms(3) assms(4) [OF 2(1)] 2(2) show ?thesis
      by (metis lessI)
  qed
next
  let ?b = "send_to cs m (b\<lparr>event_id := Suc (event_id b)\<rparr>)"
  have keep: "not_joined ?b c" if "not_joined b c" for c
    using that assms(2) by (auto simp: not_joined_def seen_def send_to_def)
  show "not_joined ?b c \<and> c \<in> known ?b" if "c \<in> set (subscribing ?b)" for c
    using that keep broker_okD(2) [OF assms(1)] by (simp add: send_to_def)
  show "not_joined ?b c" if "c \<notin> known ?b" for c
    using that keep broker_okD(3) [OF assms(1)] by (simp add: send_to_def)
qed

lemma take_publication_ok: "broker_ok b \<Longrightarrow> broker_ok (take_publication m b)"
  unfolding take_publication_def Let_def by (rule send_to_ok) auto

lemma send_keep_alive_ok: "broker_ok b \<Longrightarrow> broker_ok (send_keep_alive d b)"
  by (simp add: send_keep_alive_def send_to_ok keep_alive_def)

lemma broker_ok_cong:
  assumes "broker_ok b" "event_id b' = event_id b" "written b' = written b"
    "client_chan b' = client_chan b" "clients b' \<subseteq> clients b" "known b' = known b"
    "set (subscribing b') \<subseteq> set (subscribing b)"
  shows "broker_ok b'"
proof (rule broker_okI)
  have s: "seen b' c = seen b c" for c by (simp add: seen_def assms(3,4))
  have n: "not_joined b' c" if "not_joined b c" for c
    using that assms(5) by (auto simp: not_joined_def s)
  show "stream_ok (event_id b') c (seen b' c)" for c
    unfolding s assms(2) by (rule broker_okD(1) [OF assms(1)])
  show "not_joined b' c \<and> c \<in> known b'" if "c \<in> set (subscribing b')" for c
    using that broker_okD(2) [OF assms(1)] n assms(6,7) by (metis subsetD)
  show "not_joined b' c" if "c \<notin> known b'" for c
    using that broker_okD(3) [OF assms(1)] n assms(6) by metis
qed

lemma take_subscription_ok:
  assumes "broker_ok b" "subscribing b = c # cs" "distinct (subscribing b)"
  shows "broker_ok (take_subscription d c (b\<lparr>subscribing := cs\<rparr>))"
proof -
  let ?b = "take_subscription d c (b\<lparr>subscribing := cs\<rparr>)"
  from broker_okD(2) [OF assms(1), of c] assms(2) have c: "seen b c = []" "c \<in> known b"
    by (auto simp: not_joined_def)
  have sel: "event_id ?b = event_id b" "known ?b = known b" "clients ?b = insert c (clients b)"
    "subscribing ?b = cs" by (auto simp: take_subscription_def send_or_drop_def)
  have seen: "seen ?b x = (if x = c \<and> c \<notin> chan_closed b then [server_start d] else seen b x)" for x
    using c(1) by (auto simp: seen_def take_subscription_def send_or_drop_def buffer_size_def)
  show ?thesis
  proof (rule broker_okI)
    show "stream_ok (event_id ?b) x (seen ?b x)" for x
      using broker_okD(1) [OF assms(1)]
      by (auto simp: sel seen) (simp add: stream_ok_def server_start_def)
    show "not_joined ?b x \<and> x \<in> known ?b" if "x \<in> set (subscribing ?b)" for x
      using that broker_okD(2) [OF assms(1), of x] assms(2,3)
      by (auto simp: not_joined_def sel seen)
    show "not_joined ?b x" if "x \<notin> known ?b" for x
      using that broker_okD(3) [OF assms(1), of x] c(2) by (auto simp: not_joined_def sel seen)
  qed
qed

definition channels_ok :: "broker \<Rightarrow> bool" where
  "channels_ok b \<longleftrightarrow> broker_ok b \<and> length (subscribing b) \<le> 1"

lemma send_to_sel [simp]:
  "subscribing (send_to cs m b) = subscribing b" "subscribing (send_or_drop c m b) = subscribing b"
  by (simp_all add: send_to_def send_or_drop_def)

lemma broker_step_ok:
  assumes "broker_step b ev b'" "channels_ok b"
  shows "channels_ok b'"
proof -
  from assms(2) have ok: "broker_ok b" and len: "length (subscribing b) \<le> 1"
    by (auto simp: channels_ok_def)
  show ?thesis
    using assms(1)
  proof cases
    case (connect c)
    have "not_joined b c" using broker_okD(3) [OF ok connect(3)] .
    then have "broker_ok b'"
      using ok connect by (auto simp: broker_ok_def seen_def not_joined_def)
    with connect show ?thesis by (simp add: channels_ok_def)
  next
    case (read c m ms)
    have s: "seen b' x = seen b x" for x using read by (simp add: seen_def)
    have "event_id b' = event_id b" "subscribing b' = subscribing b" "known b' = known b"
      "clients b' = clients b" using read by simp_all
    then have "broker_ok b'" using ok by (simp add: broker_ok_def s not_joined_def)
    with read len show ?thesis by (simp add: channels_ok_def)
  next
    case (read_lost c m ms)
    have s: "seen b' x = (if x = c then written b c @ ms else seen b x)" for x
      using read_lost by (simp add: seen_def)
    have "seen b c \<noteq> []" using read_lost by (simp add: seen_def)
    moreover have "stream_ok (event_id b) c (written b c @ ms)"
      using broker_okD(1) [OF ok, of c] read_lost by (auto simp: seen_def dest: stream_ok_remove)
    moreover have "event_id b' = event_id b" "subscribing b' = subscribing b" "known b' = known b"
      "clients b' = clients b" using read_lost by simp_all
    ultimately have "broker_ok b'"
      using ok by (auto simp: broker_ok_def s not_joined_def)
    with read_lost len show ?thesis by (simp add: channels_ok_def)
  next
    case (take_join c cs d)
    with len have "distinct (subscribing b)" by (cases cs) auto
    from take_subscription_ok [OF ok take_join(4) this] take_join len show ?thesis
      by (simp add: channels_ok_def take_subscription_def)
  next
    case (take_message m ms)
    have "broker_ok (b\<lparr>publish := ms\<rparr>)" by (rule broker_ok_cong [OF ok]) simp_all
    then have "broker_ok b'" unfolding take_message(2) by (rule take_publication_ok)
    moreover have "subscribing b' = subscribing b"
      unfolding take_message(2) by (simp add: take_publication_def Let_def)
    ultimately show ?thesis using len by (simp add: channels_ok_def)
  next
    case (tick d)
    have "broker_ok b'" "subscribing b' = subscribing b"
      unfolding tick(2) using ok by (simp_all add: send_keep_alive_ok) (simp add: send_keep_alive_def)
    with len show ?thesis by (simp add: channels_ok_def)
  qed (use ok len in \<open>auto simp: channels_ok_def take_unsubscription_def intro: broker_ok_cong\<close>)
qed

interpretation broker: invariant broker_step "\<lambda>b. b = new_broker" UNIV channels_ok
  by unfold_locales
    (simp add: channels_ok_def broker_ok_new, simp add: new_broker_def, rule broker_step_ok)


section \<open>Closed channels\<close>

definition closed_ok :: "broker \<Rightarrow> bool" where
  "closed_ok b \<longleftrightarrow>
     \<not> panicked b \<and> channels_ok b \<and> chan_closed b \<subseteq> known b \<and>
     clients b \<inter> chan_closed b = {} \<and> set (subscribing b) \<inter> chan_closed b = {} \<and>
     serving b \<subseteq> known b \<and> set (unsubscribing b) \<subseteq> known b"

lemma closed_ok_step:
  assumes "broker_step b ev b'" "closed_ok b" "ev \<noteq> Take_leave False"
  shows "closed_ok b'"
proof -
  have c': "channels_ok b'"
    using broker_step_ok [OF assms(1)] assms(2) by (simp add: closed_ok_def)
  have ok: "closed_ok b" by (rule assms(2))
  have nj: "not_joined b c" if "c \<in> set (subscribing b)" for c
    using ok that broker_okD(2) unfolding closed_ok_def channels_ok_def by blast
  show ?thesis
    using assms(1)
  proof cases
    case (take_join c cs d)
    then show ?thesis
      using ok c' by (auto simp: closed_ok_def take_subscription_def send_or_drop_def)
  next
    case (take_leave c cs)
    with assms(3) have "c \<in> clients b" by simp
    with nj have "c \<notin> set (subscribing b)" by (auto simp: not_joined_def)
    with take_leave ok c' show ?thesis by (auto simp: closed_ok_def take_unsubscription_def)
  next
    case (take_message m ms)
    then show ?thesis
      using ok c' by (auto simp: closed_ok_def take_publication_def send_to_def Let_def)
  next
    case (tick d)
    then show ?thesis
      using ok c' by (auto simp: closed_ok_def send_keep_alive_def send_to_def)
  qed (use ok c' in \<open>auto simp: closed_ok_def\<close>)
qed

lemma closed_ok_new: "closed_ok new_broker"
  by (simp add: closed_ok_def channels_ok_def broker_ok_new) (simp add: new_broker_def)

interpretation in_order: invariant broker_step "\<lambda>b. b = new_broker" "UNIV - {Take_leave False}" closed_ok
  using closed_ok_new closed_ok_step by unfold_locales blast+

text \<open>
  The listener never sends on a closed channel, which would stop the whole server, as long
  as it takes every client's subscription before the unsubscription of the same client.
\<close>

lemma listener_survives:
  assumes "reached broker_step (\<lambda>b. b = new_broker) (UNIV - {Take_leave False}) b"
  shows "\<not> panicked b \<and> clients b \<inter> chan_closed b = {}"
  using in_order.reached_inv [OF assms] by (simp add: closed_ok_def)

section \<open>One client\<close>

definition some_client :: sse_client where
  "some_client = \<lparr>cl_id = ''c1'', cl_username = ''ann'', cl_unique_id = ''tab''\<rparr>"

definition connected_broker :: broker where
  "connected_broker =
     new_broker\<lparr>subscribing := [some_client], known := {some_client}, serving := {some_client}\<rparr>"

definition joined_broker :: broker where
  "joined_broker = take_subscription ''{}'' some_client (connected_broker\<lparr>subscribing := []\<rparr>)"

definition reading_broker :: broker where
  "reading_broker =
     joined_broker\<lparr>client_chan := (client_chan joined_broker)(some_client := []),
       written := (written joined_broker)(some_client := [server_start ''{}''])\<rparr>"

lemma connected_step:
  "broker_step new_broker (Connect some_client) connected_broker"
  using broker_step.connect [of some_client new_broker]
  by (simp add: connected_broker_def new_broker_def)

lemma broker_reached_by:
  "broker_step b ev b' \<Longrightarrow> reached broker_step (\<lambda>b. b = new_broker) evs b \<Longrightarrow> ev \<in> evs \<Longrightarrow>
   reached broker_step (\<lambda>b. b = new_broker) evs b'"
  by (rule reached_by)

lemma connected_reached:
  "Connect some_client \<in> evs \<Longrightarrow> reached broker_step (\<lambda>b. b = new_broker) evs connected_broker"
  by (rule broker_reached_by [OF connected_step]) (simp_all add: reached_init)

lemma joined_step: "broker_step connected_broker Take_join joined_broker"
  unfolding joined_broker_def
  by (rule broker_step.take_join) (simp_all add: connected_broker_def new_broker_def)

lemma joined_chan: "client_chan joined_broker some_client = [server_start ''{}'']"
  "written joined_broker some_client = []" "some_client \<in> serving joined_broker"
  by (simp_all add: joined_broker_def connected_broker_def new_broker_def take_subscription_def
      send_or_drop_def buffer_size_def)

lemma reading_reached:
  assumes "{Connect some_client, Take_join, Read some_client} \<subseteq> evs"
  shows "reached broker_step (\<lambda>b. b = new_broker) evs reading_broker"
proof -
  have "broker_step joined_broker (Read some_client) reading_broker"
    using broker_step.read [of some_client joined_broker "server_start ''{}''" "[]"] joined_chan
    by (simp add: reading_broker_def)
  moreover have "reached broker_step (\<lambda>b. b = new_broker) evs joined_broker"
    by (rule broker_reached_by [OF joined_step connected_reached]) (use assms in auto)
  ultimately show ?thesis
    by (rule broker_reached_by) (use assms in auto)
qed


lemma listener_survives_witness:
  "\<not> panicked reading_broker \<and> clients reading_broker \<inter> chan_closed reading_broker = {}"
  by (rule listener_survives [OF reading_reached]) auto

text \<open>
  The order is not guaranteed: subscriptions and unsubscriptions come through different channels,
  and \<open>select\<close> takes from either when both are ready. A client that disconnects before the
  listener has taken its subscription can bring the listener to a panic.
\<close>

lemma early_leave_panics:
  "\<exists>b. reached broker_step (\<lambda>b. b = new_broker) UNIV b \<and> panicked b"
proof -
  let ?b2 = "connected_broker\<lparr>unsubscribing := [some_client], serving := {}\<rparr>"
  let ?b3 = "take_unsubscription some_client (?b2\<lparr>unsubscribing := []\<rparr>)"
  let ?b4 = "take_subscription ''{}'' some_client (?b3\<lparr>subscribing := []\<rparr>)"
  have "reached broker_step (\<lambda>b. b = new_broker) UNIV connected_broker"
    by (rule connected_reached) simp
  moreover have "broker_step connected_broker (Leave some_client) ?b2"
    using broker_step.leave [of some_client connected_broker]
    by (simp add: connected_broker_def new_broker_def)
  moreover have "broker_step ?b2 (Take_leave (some_client \<in> clients ?b2)) ?b3"
    by (rule broker_step.take_leave) (simp_all add: connected_broker_def new_broker_def)
  moreover have "broker_step ?b3 Take_join ?b4"
    by (rule broker_step.take_join)
      (simp_all add: connected_broker_def new_broker_def take_unsubscription_def)
  ultimately have "reached broker_step (\<lambda>b. b = new_broker) UNIV ?b4"
    by (blast intro: broker_reached_by)
  moreover have "panicked ?b4"
    by (simp add: take_subscription_def send_or_drop_def take_unsubscription_def)
  ultimately show ?thesis by blast
qed

end
