(* ===== verification/Ids.thy ===== *)
theory Ids
  imports MediaFile GoStrings
begin

unbundle bit_operations_syntax

text \<open>
  Identifiers: the random ids of \<open>utils/nanoid/nanoid.go\<close> (with \<open>model/id/id.go\<close>) and the
  artwork ids of \<open>model/artwork_id.go\<close>, which are printed into URLs and parsed back. The random
  bytes are arguments, in the blocks in which they are read.
\<close>

section \<open>Random ids\<close>

definition get_mask :: "nat \<Rightarrow> nat" where
  "get_mask n =
     (case find (\<lambda>i. n - 1 \<le> 2 * 2 ^ i - 1) [1, 2, 3, 4, 5, 6, 7, 8] of
        Some i \<Rightarrow> 2 * 2 ^ i - 1
      | None \<Rightarrow> 0)"

definition nano_step :: "nat \<Rightarrow> nat \<Rightarrow> nat" where
  "nano_step sz n = nat \<lceil>(8 / 5 :: rat) * of_nat (get_mask n) * of_nat sz / of_nat n\<rceil>"

text \<open>One block of bytes: an index past the alphabet is rejected; the loop stops at \<open>size\<close>.\<close>

fun nano_block :: "string \<Rightarrow> nat \<Rightarrow> nat \<Rightarrow> string \<Rightarrow> nat list \<Rightarrow> string" where
  "nano_block alphabet m sz acc [] = acc"
| "nano_block alphabet m sz acc (b # blk) =
     (if length acc = sz then acc
      else if (b AND m) < length alphabet
      then nano_block alphabet m sz (acc @ [alphabet ! (b AND m)]) blk
      else nano_block alphabet m sz acc blk)"

datatype nano_error = Bad_alphabet | Bad_size | Random_failed

text \<open>
  The loop over the blocks that the random source delivers; \<open>None\<close> is a block that could not be
  read. The result is \<open>None\<close> when the blocks given here run out first.
\<close>

fun nano_blocks ::
  "string \<Rightarrow> nat \<Rightarrow> nat \<Rightarrow> string \<Rightarrow> nat list option list \<Rightarrow> (nano_error + string) option" where
  "nano_blocks alphabet m sz acc [] = None"
| "nano_blocks alphabet m sz acc (None # rs) = Some (Inl Random_failed)"
| "nano_blocks alphabet m sz acc (Some blk # rs) =
     (let acc' = nano_block alphabet m sz acc blk
      in if length acc' = sz then Some (Inr acc') else nano_blocks alphabet m sz acc' rs)"

definition nano_generate ::
  "string \<Rightarrow> int \<Rightarrow> nat list option list \<Rightarrow> (nano_error + string) option" where
  "nano_generate alphabet sz blocks =
     (if alphabet = [] \<or> 255 < length alphabet then Some (Inl Bad_alphabet)
      else if sz \<le> 0 then Some (Inl Bad_size)
      else nano_blocks alphabet (get_mask (length alphabet)) (nat sz) [] blocks)"

definition id_alphabet :: string where
  "id_alphabet = ''0123456789ABCDEFGHIJKLMNOPQRSTUVWXYZabcdefghijklmnopqrstuvwxyz''"

text \<open>\<open>id.NewRandom\<close>: on an error the id is empty.\<close>

definition new_random :: "nat list option list \<Rightarrow> string option" where
  "new_random blocks =
     map_option (\<lambda>r. case r of Inl _ \<Rightarrow> [] | Inr s \<Rightarrow> s) (nano_generate id_alphabet 22 blocks)"

lemma get_mask_cases:
  assumes "n \<le> 256"
  shows "\<exists>i. 2 \<le> i \<and> i \<le> 8 \<and> get_mask n = 2 ^ i - 1 \<and> n \<le> 2 ^ i"
proof -
  have "(n \<le> 4 \<and> get_mask n = 2 ^ 2 - 1) \<or> (4 < n \<and> n \<le> 8 \<and> get_mask n = 2 ^ 3 - 1) \<or>
     (8 < n \<and> n \<le> 16 \<and> get_mask n = 2 ^ 4 - 1) \<or> (16 < n \<and> n \<le> 32 \<and> get_mask n = 2 ^ 5 - 1) \<or>
     (32 < n \<and> n \<le> 64 \<and> get_mask n = 2 ^ 6 - 1) \<or> (64 < n \<and> n \<le> 128 \<and> get_mask n = 2 ^ 7 - 1) \<or>
     (128 < n \<and> n \<le> 256 \<and> get_mask n = 2 ^ 8 - 1)"
    using assms by (auto simp: get_mask_def)
  then show ?thesis
  proof (elim disjE conjE)
    assume "n \<le> 4" "get_mask n = 2 ^ 2 - 1" then show ?thesis by (intro exI [of _ 2]) simp
  next
    assume "n \<le> 8" "get_mask n = 2 ^ 3 - 1" then show ?thesis by (intro exI [of _ 3]) simp
  next
    assume "n \<le> 16" "get_mask n = 2 ^ 4 - 1" then show ?thesis by (intro exI [of _ 4]) simp
  next
    assume "n \<le> 32" "get_mask n = 2 ^ 5 - 1" then show ?thesis by (intro exI [of _ 5]) simp
  next
    assume "n \<le> 64" "get_mask n = 2 ^ 6 - 1" then show ?thesis by (intro exI [of _ 6]) simp
  next
    assume "n \<le> 128" "get_mask n = 2 ^ 7 - 1" then show ?thesis by (intro exI [of _ 7]) simp
  next
    assume "n \<le> 256" "get_mask n = 2 ^ 8 - 1" then show ?thesis by (intro exI [of _ 8]) simp
  qed
qed

lemma and_mask_mod: "b AND (2 ^ i - 1) = (b :: nat) mod 2 ^ i"
  by (metis mask_eq_exp_minus_1 take_bit_eq_mask take_bit_eq_mod)

lemma nano_block_ok:
  "set acc \<subseteq> set alphabet \<Longrightarrow> length acc \<le> sz \<Longrightarrow>
   set (nano_block alphabet m sz acc blk) \<subseteq> set alphabet \<and>
   length (nano_block alphabet m sz acc blk) \<le> sz"
  by (induction alphabet m sz acc blk rule: nano_block.induct) auto

lemma nano_blocks_ok:
  "set acc \<subseteq> set alphabet \<Longrightarrow> length acc \<le> sz \<Longrightarrow>
   nano_blocks alphabet m sz acc rs = Some (Inr s) \<Longrightarrow> length s = sz \<and> set s \<subseteq> set alphabet"
proof (induction alphabet m sz acc rs rule: nano_blocks.induct)
  case (3 alphabet m sz acc blk rs)
  from nano_block_ok [OF 3(2,3), of m blk] 3 show ?case by (auto simp: Let_def split: if_splits)
qed auto

text \<open>A block with enough acceptable bytes ends the loop.\<close>

lemma nano_block_length:
  "length acc \<le> sz \<Longrightarrow>
   length (nano_block alphabet m sz acc blk)
     = min sz (length acc + length (filter (\<lambda>b. (b AND m) < length alphabet) blk))"
  by (induction alphabet m sz acc blk rule: nano_block.induct) auto

lemma nano_generate_ends:
  assumes "alphabet \<noteq> []" "length alphabet \<le> 255" "0 < sz"
    and "sz \<le> int (length (filter (\<lambda>b. (b AND get_mask (length alphabet)) < length alphabet) blk))"
  shows "\<exists>s. nano_generate alphabet sz (Some blk # rs) = Some (Inr s)"
  using assms by (auto simp: nano_generate_def nano_block_length Let_def min_def)

text \<open>
  The ids of \<open>nanoid\<close> are well-formed and unbiased: a generated id has the length asked
  for and only characters of the alphabet, and of the 256 values a random byte can take, equally
  many select each position of the alphabet, whatever its length.
\<close>

lemma nano_ids_unbiased:
  assumes "nano_generate alphabet sz blocks = Some (Inr s)"
  shows "int (length s) = sz \<and> set s \<subseteq> set alphabet \<and>
    (\<exists>k > 0. \<forall>j < length alphabet.
       card {b. b < 256 \<and> (b AND get_mask (length alphabet)) = j} = k)"
proof -
  from assms have a: "length alphabet \<le> 255" "0 < sz" and
    b: "nano_blocks alphabet (get_mask (length alphabet)) (nat sz) [] blocks = Some (Inr s)"
    by (auto simp: nano_generate_def split: if_splits)
  have "int (length s) = sz" "set s \<subseteq> set alphabet"
    using nano_blocks_ok [OF _ _ b] a(2) by auto
  moreover
  from get_mask_cases [of "length alphabet"] a(1) obtain i where
    i: "i \<le> 8" "get_mask (length alphabet) = 2 ^ i - 1" "length alphabet \<le> 2 ^ i" by auto
  have "card {b. b < 256 \<and> (b AND get_mask (length alphabet)) = j} = 2 ^ (8 - i)"
    if "j < length alphabet" for j
  proof -
    have j: "j < 2 ^ i" using that i(3) by simp
    have two: "(256 :: nat) = 2 ^ (8 - i) * 2 ^ i" using i(1) by (simp flip: power_add)
    have "{b. b < 256 \<and> b mod 2 ^ i = j} = (\<lambda>q. q * 2 ^ i + j) ` {..< 2 ^ (8 - i)}"
    proof (intro equalityI subsetI)
      fix b assume "b \<in> {b. b < 256 \<and> b mod 2 ^ i = j}"
      then have "b = (b div 2 ^ i) * 2 ^ i + j" "b div 2 ^ i < 2 ^ (8 - i)"
        using div_mult_mod_eq [of b "2 ^ i"] by (auto simp: two less_mult_imp_div_less)
      then show "b \<in> (\<lambda>q. q * 2 ^ i + j) ` {..< 2 ^ (8 - i)}" by blast
    next
      fix b assume "b \<in> (\<lambda>q. q * 2 ^ i + j) ` {..< 2 ^ (8 - i)}"
      then obtain q where q: "b = q * 2 ^ i + j" "q < 2 ^ (8 - i)" by auto
      then have "b < (q + 1) * 2 ^ i" using j by simp
      also have "\<dots> \<le> 256" using q(2) by (subst two) (intro mult_right_mono, auto)
      finally show "b \<in> {b. b < 256 \<and> b mod 2 ^ i = j}" using q(1) j by simp
    qed
    moreover have "inj_on (\<lambda>q. q * 2 ^ i + j) {..< 2 ^ (8 - i)}" by (auto intro: inj_onI)
    ultimately show ?thesis unfolding i(2) and_mask_mod by (simp add: card_image)
  qed
  ultimately show ?thesis by (metis zero_less_numeral zero_less_power)
qed

lemma nano_ids_unbiased_witness:
  "int (length ''bca'') = 3 \<and> set ''bca'' \<subseteq> set ''abc''"
proof -
  have "nano_generate ''abc'' 3 [Some [3, 1], Some [2, 255, 4]] = Some (Inr ''bca'')"
    by (simp add: nano_generate_def get_mask_def)
  from nano_ids_unbiased [OF this] show ?thesis by blast
qed

text \<open>The mask for one or two characters is 3, not the smallest possible.\<close>

lemma get_mask_small: "get_mask 1 = 3" "get_mask 2 = 3"
  by (simp_all add: get_mask_def)

section \<open>Artwork ids\<close>

datatype art_kind =
    Media_file_artwork | Artist_artwork | Album_artwork | Playlist_artwork | Disc_artwork
  | Radio_artwork

fun kind_prefix :: "art_kind \<Rightarrow> string" where
  "kind_prefix Media_file_artwork = ''mf''"
| "kind_prefix Artist_artwork = ''ar''"
| "kind_prefix Album_artwork = ''al''"
| "kind_prefix Playlist_artwork = ''pl''"
| "kind_prefix Disc_artwork = ''dc''"
| "kind_prefix Radio_artwork = ''ra''"

fun kind_name :: "art_kind \<Rightarrow> string" where
  "kind_name Media_file_artwork = ''media_file''"
| "kind_name Artist_artwork = ''artist''"
| "kind_name Album_artwork = ''album''"
| "kind_name Playlist_artwork = ''playlist''"
| "kind_name Disc_artwork = ''disc''"
| "kind_name Radio_artwork = ''radio''"

definition artwork_kind_map :: "string \<rightharpoonup> art_kind" where
  "artwork_kind_map =
     map_of (map (\<lambda>k. (kind_prefix k, k))
       [Media_file_artwork, Artist_artwork, Album_artwork, Playlist_artwork, Disc_artwork,
        Radio_artwork])"

record artwork_id =
  art_kind :: art_kind
  art_id :: string
  art_updated :: go_time

text \<open>\<open>time.Time.Unix\<close> rounds down to a second.\<close>

definition unix_seconds :: "go_time \<Rightarrow> int" where
  "unix_seconds t = t div 10 ^ 9"

definition artwork_string :: "artwork_id \<Rightarrow> string" where
  "artwork_string a =
     (if art_id a = [] then []
      else (let s = kind_prefix (art_kind a) @ ''-'' @ art_id a;
                lu = unix_seconds (art_updated a)
            in if lu > 0 then s @ ''_'' @ show_int 16 lu else s @ ''_0''))"

definition new_artwork_id :: "art_kind \<Rightarrow> string \<Rightarrow> go_time option \<Rightarrow> artwork_id" where
  "new_artwork_id k i upd =
     \<lparr>art_kind = k, art_id = i, art_updated = (case upd of None \<Rightarrow> zero_time | Some t \<Rightarrow> t)\<rparr>"

datatype artwork_error = Invalid_artwork_id | Invalid_artwork_kind | Invalid_update_time

definition parse_artwork_id :: "string \<Rightarrow> artwork_error + artwork_id" where
  "parse_artwork_id s =
     (case split_first (CHR ''-'') s of
        None \<Rightarrow> Inl Invalid_artwork_id
      | Some (prefix, rest) \<Rightarrow>
          (case artwork_kind_map prefix of
             None \<Rightarrow> Inl Invalid_artwork_kind
           | Some k \<Rightarrow>
               (case split_first (CHR ''_'') rest of
                  None \<Rightarrow> Inr \<lparr>art_kind = k, art_id = rest, art_updated = zero_time\<rparr>
                | Some (i, u) \<Rightarrow>
                    if u = ''0'' then Inr \<lparr>art_kind = k, art_id = i, art_updated = zero_time\<rparr>
                    else (case parse_int64 16 u of
                            None \<Rightarrow> Inl Invalid_update_time
                          | Some n \<Rightarrow> Inr \<lparr>art_kind = k, art_id = i, art_updated = n * 10 ^ 9\<rparr>))))"

text \<open>The ids of discs: the album and the number of the disc.\<close>

definition disc_artwork_id :: "string \<Rightarrow> int \<Rightarrow> string" where
  "disc_artwork_id album n = album @ '':'' @ itoa n"

definition parse_disc_artwork_id :: "string \<Rightarrow> (string \<times> int) option" where
  "parse_disc_artwork_id s =
     (case split_first (CHR '':'') s of
        None \<Rightarrow> None
      | Some (album, d) \<Rightarrow>
          if d = [] then None else (case atoi d of None \<Rightarrow> None | Some n \<Rightarrow> Some (album, n)))"

lemma kind_prefix_ok:
  "CHR ''-'' \<notin> set (kind_prefix k)" "artwork_kind_map (kind_prefix k) = Some k"
  by (cases k; simp add: artwork_kind_map_def)+

lemma disc_round_trip:
  "CHR '':'' \<notin> set album \<Longrightarrow> in_int64 n \<Longrightarrow>
   parse_disc_artwork_id (disc_artwork_id album n) = Some (album, n)"
  using atoi_itoa [of n]
  by (cases "itoa n") (auto simp: parse_disc_artwork_id_def disc_artwork_id_def split_first_absent
      atoi_def parse_int64_def parse_nat_def)

text \<open>What is left of an update time: whole seconds after 1970, or nothing.\<close>

definition stored_time :: "go_time \<Rightarrow> go_time" where
  "stored_time t = (if unix_seconds t > 0 then unix_seconds t * 10 ^ 9 else zero_time)"

lemma show_int_hex_pos: "0 < n \<Longrightarrow> show_int 16 n \<noteq> ''0''"
proof
  assume "0 < n" "show_int 16 n = ''0''"
  moreover have "read_digits 16 0 (show_base 16 (nat n)) = Some (int (nat n))"
    using read_digits_show_base [of 16 "nat n"] by simp
  ultimately show False by (simp add: show_int_def digit_val_def byte_def Let_def)
qed

lemma in_int64_seconds: "in_int64 t \<Longrightarrow> in_int64 (unix_seconds t)"
  by (auto simp: in_int64_def unix_seconds_def)

text \<open>
  Artwork ids round-trip through their text: for an id that is not empty and has no
  underscore (the ids the server generates have letters and digits only), parsing the printed id
  gives back its kind and its id, with the update time cut to whole seconds, and a disc's id
  gives back its album and number.
\<close>

lemma artwork_id_round_trip:
  assumes "art_id a \<noteq> []" "CHR ''_'' \<notin> set (art_id a)" "in_int64 (art_updated a)"
  shows "parse_artwork_id (artwork_string a) = Inr (a\<lparr>art_updated := stored_time (art_updated a)\<rparr>) \<and>
    (\<forall>album n. art_id a = disc_artwork_id album n \<longrightarrow> CHR '':'' \<notin> set album \<longrightarrow> in_int64 n \<longrightarrow>
       parse_disc_artwork_id (art_id a) = Some (album, n))"
proof -
  let ?lu = "unix_seconds (art_updated a)"
  let ?u = "if ?lu > 0 then show_int 16 ?lu else ''0''"
  have s: "artwork_string a = kind_prefix (art_kind a) @ CHR ''-'' # (art_id a @ CHR ''_'' # ?u)"
    using assms(1) by (simp add: artwork_string_def Let_def)
  have p: "split_first (CHR ''-'') (artwork_string a) = Some (kind_prefix (art_kind a), art_id a @ CHR ''_'' # ?u)"
    unfolding s by (rule split_first_absent [OF kind_prefix_ok(1)])
  have q: "split_first (CHR ''_'') (art_id a @ CHR ''_'' # ?u) = Some (art_id a, ?u)"
    by (rule split_first_absent [OF assms(2)])
  have "parse_int64 16 (show_int 16 ?lu) = Some ?lu"
    using parse_show_int [of 16 ?lu] in_int64_seconds [OF assms(3)] by simp
  with p q kind_prefix_ok(2) show_int_hex_pos
  have "parse_artwork_id (artwork_string a) = Inr (a\<lparr>art_updated := stored_time (art_updated a)\<rparr>)"
    by (simp add: parse_artwork_id_def stored_time_def)
  with disc_round_trip show ?thesis by simp
qed

lemma artwork_id_round_trip_witness:
  "parse_artwork_id (artwork_string
      \<lparr>art_kind = Disc_artwork, art_id = ''a1:2'', art_updated = 1700000000 * 10 ^ 9 + 5\<rparr>)
   = Inr \<lparr>art_kind = Disc_artwork, art_id = ''a1:2'', art_updated = 1700000000 * 10 ^ 9\<rparr>"
  using artwork_id_round_trip [of "\<lparr>art_kind = Disc_artwork, art_id = ''a1:2'',
      art_updated = 1700000000 * 10 ^ 9 + 5\<rparr>"]
  by (simp add: in_int64_def stored_time_def unix_seconds_def)

text \<open>An underscore in an id is taken for the separator of the update time.\<close>

lemma underscore_id:
  "parse_artwork_id (artwork_string \<lparr>art_kind = Radio_artwork, art_id = ''my_radio'', art_updated = 0\<rparr>)
   = Inl Invalid_update_time"
  by (simp add: artwork_string_def unix_seconds_def parse_artwork_id_def artwork_kind_map_def
      parse_int64_def parse_nat_def digit_val_def byte_def Let_def)

end
