(* ===== verification/Crontab.thy ===== *)
theory Crontab
  imports GoStrings
begin

text \<open>
  Cron expressions with random fields: \<open>scheduler/crontab_schedule.go\<close>. The parser of the cron
  package, the test for a Go duration and the random numbers are arguments: \<open>draw i n\<close> is the
  number that \<open>rand.IntN(n)\<close> gives for the \<open>i\<close>-th field.
\<close>

datatype cron_error =
    Empty_spec
  | Missing_spec
  | Random_descriptor
  | Wrong_field_count nat
  | Random_combined string
  | Bad_range_start string
  | Bad_range_end string
  | Start_below int
  | End_above int
  | Start_beyond_end int int
  | Parser_error string

definition field_bounds :: "(int \<times> int) list" where
  "field_bounds = [(0, 59), (0, 59), (0, 23), (1, 31), (1, 12), (0, 6)]"

text \<open>\<open>strconv.ParseUint(s, 10, 0)\<close>.\<close>

definition parse_uint :: "string \<Rightarrow> int option" where
  "parse_uint s =
     (case parse_nat 10 s of None \<Rightarrow> None | Some n \<Rightarrow> if n < 2 ^ 64 then Some n else None)"

definition range_part :: "(string \<Rightarrow> cron_error) \<Rightarrow> string \<Rightarrow> int \<Rightarrow> cron_error + int" where
  "range_part err s dflt =
     (if s = [] then Inr dflt
      else (case parse_uint s of None \<Rightarrow> Inl (err s) | Some n \<Rightarrow> Inr n))"

definition resolve_random_field :: "(int \<Rightarrow> int) \<Rightarrow> string \<Rightarrow> int \<times> int \<Rightarrow> cron_error + int" where
  "resolve_random_field draw field b =
     (let (p0, p1) = (case split_first (CHR ''~'') field of Some p \<Rightarrow> p | None \<Rightarrow> (field, []))
      in case range_part Bad_range_start p0 (fst b) of
           Inl e \<Rightarrow> Inl e
         | Inr lo \<Rightarrow>
             (case range_part Bad_range_end p1 (snd b) of
                Inl e \<Rightarrow> Inl e
              | Inr hi \<Rightarrow>
                  if lo < fst b then Inl (Start_below lo)
                  else if hi > snd b then Inl (End_above hi)
                  else if lo > hi then Inl (Start_beyond_end lo hi)
                  else Inr (lo + draw (hi - lo + 1))))"

definition normalize_fields :: "string list \<Rightarrow> cron_error + string list" where
  "normalize_fields fs =
     (if length fs = 5 then Inr (''0'' # fs)
      else if length fs = 6 then Inr fs
      else Inl (Wrong_field_count (length fs)))"

fun resolve_fields ::
  "(nat \<Rightarrow> int \<Rightarrow> int) \<Rightarrow> nat \<Rightarrow> string list \<Rightarrow> (int \<times> int) list \<Rightarrow> cron_error + string list" where
  "resolve_fields draw i [] bnds = Inr []"
| "resolve_fields draw i (f # fs) [] = Inr (f # fs)"
| "resolve_fields draw i (f # fs) (b # bnds) =
     (if CHR ''~'' \<notin> set f
      then map_sum id ((#) f) (resolve_fields draw (Suc i) fs bnds)
      else if CHR '','' \<in> set f \<or> CHR ''/'' \<in> set f then Inl (Random_combined f)
      else (case resolve_random_field (draw i) f b of
              Inl e \<Rightarrow> Inl e
            | Inr v \<Rightarrow> map_sum id ((#) (itoa v)) (resolve_fields draw (Suc i) fs bnds)))"

fun join_spaces :: "string list \<Rightarrow> string" where
  "join_spaces [] = []"
| "join_spaces [f] = f"
| "join_spaces (f # fs) = f @ CHR '' '' # join_spaces fs"

text \<open>The time zone prefix, when there is one, and the rest of the expression.\<close>

definition split_tz :: "string \<Rightarrow> (string \<times> string) option" where
  "split_tz spec =
     (if has_prefix spec ''TZ='' \<or> has_prefix spec ''CRON_TZ=''
      then (case split_first (CHR '' '') spec of
              None \<Rightarrow> None
            | Some (tz, rest) \<Rightarrow> Some (tz @ '' '', trim_space (CHR '' '' # rest)))
      else Some ([], spec))"

definition parse_crontab ::
  "(string \<Rightarrow> bool) \<Rightarrow> (string \<Rightarrow> string + 's) \<Rightarrow> (nat \<Rightarrow> int \<Rightarrow> int) \<Rightarrow> string
     \<Rightarrow> cron_error + 's" where
  "parse_crontab is_duration parser draw spec0 =
     (if spec0 = [] then Inl Empty_spec
      else (let spec = (if is_duration spec0 then ''@every '' @ spec0 else spec0)
            in if CHR ''~'' \<notin> set spec then map_sum Parser_error id (parser spec)
               else (case split_tz spec of
                       None \<Rightarrow> Inl Missing_spec
                     | Some (tz, rest) \<Rightarrow>
                         if has_prefix rest ''@'' then Inl Random_descriptor
                         else (case normalize_fields (str_fields rest) of
                                 Inl e \<Rightarrow> Inl e
                               | Inr fs \<Rightarrow>
                                   (case resolve_fields draw 0 fs field_bounds of
                                      Inl e \<Rightarrow> Inl e
                                    | Inr fs' \<Rightarrow>
                                        map_sum Parser_error id (parser (tz @ join_spaces fs')))))))"

definition draw_in_range :: "(nat \<Rightarrow> int \<Rightarrow> int) \<Rightarrow> bool" where
  "draw_in_range draw \<longleftrightarrow> (\<forall>i n. 0 < n \<longrightarrow> 0 \<le> draw i n \<and> draw i n < n)"

lemma resolve_random_field_bounds:
  assumes "resolve_random_field d f b = Inr v" "\<And>n. 0 < n \<Longrightarrow> 0 \<le> d n \<and> d n < n"
  shows "fst b \<le> v \<and> v \<le> snd b"
proof -
  from assms(1) obtain lo hi where
    "fst b \<le> lo" "hi \<le> snd b" "lo \<le> hi" "v = lo + d (hi - lo + 1)"
    by (auto simp: resolve_random_field_def Let_def not_less split: prod.splits sum.splits if_splits)
  with assms(2) [of "hi - lo + 1"] show ?thesis by auto
qed

text \<open>How a field of the expression and the field given to the parser are related.\<close>

definition field_resolved :: "string \<Rightarrow> int \<times> int \<Rightarrow> string \<Rightarrow> bool" where
  "field_resolved f b f' \<longleftrightarrow>
     (if CHR ''~'' \<in> set f then \<exists>v. f' = itoa v \<and> fst b \<le> v \<and> v \<le> snd b else f' = f)"

lemma resolve_fields_ok:
  assumes "resolve_fields draw i fs bnds = Inr fs'" "draw_in_range draw" "length fs = length bnds"
  shows "length fs' = length fs \<and> (\<forall>k < length fs. field_resolved (fs ! k) (bnds ! k) (fs' ! k))"
  using assms
proof (induction draw i fs bnds arbitrary: fs' rule: resolve_fields.induct)
  case (3 draw i f fs b bnds)
  show ?case
  proof (cases "CHR ''~'' \<in> set f")
    case False
    with 3 obtain gs where "fs' = f # gs" "resolve_fields draw (Suc i) fs bnds = Inr gs"
      by (cases "resolve_fields draw (Suc i) fs bnds") auto
    with 3 False show ?thesis by (auto simp: field_resolved_def nth_Cons split: nat.split)
  next
    case True
    with 3(3) obtain v gs where v: "resolve_random_field (draw i) f b = Inr v"
      and g: "fs' = itoa v # gs" "resolve_fields draw (Suc i) fs bnds = Inr gs"
      by (cases "resolve_fields draw (Suc i) fs bnds") (auto split: if_splits sum.splits)
    with True 3(3) have "\<not> (CHR '','' \<in> set f \<or> CHR ''/'' \<in> set f)" by (auto split: if_splits)
    with 3(2) [OF _ _ v g(2) 3(4)] 3(5) True have
      IH: "length gs = length fs \<and> (\<forall>k < length fs. field_resolved (fs ! k) (bnds ! k) (gs ! k))"
      by simp
    have "fst b \<le> v \<and> v \<le> snd b"
      by (rule resolve_random_field_bounds [OF v]) (use 3(4) in \<open>simp add: draw_in_range_def\<close>)
    with IH g(1) True show ?thesis by (auto simp: field_resolved_def nth_Cons split: nat.split)
  qed
qed auto

text \<open>
  A cron expression with random fields that parses reaches the cron parser with exactly six
  fields, every random one replaced by one number within the bounds of its position (second,
  minute, hour, day of month, month, day of week) and every other one unchanged.
\<close>

lemma crontab_resolved:
  assumes "parse_crontab is_duration parser draw spec = Inr s" "draw_in_range draw"
    and "CHR ''~'' \<in> set spec" "\<not> is_duration spec"
  shows "\<exists>tz rest fs fs'. split_tz spec = Some (tz, rest) \<and>
    normalize_fields (str_fields rest) = Inr fs \<and> length fs = 6 \<and> length fs' = 6 \<and>
    (\<forall>k < 6. field_resolved (fs ! k) (field_bounds ! k) (fs' ! k)) \<and>
    parser (tz @ join_spaces fs') = Inr s"
proof -
  from assms(1,3,4) obtain tz rest fs fs' where
    1: "split_tz spec = Some (tz, rest)" "normalize_fields (str_fields rest) = Inr fs"
    and 2: "resolve_fields draw 0 fs field_bounds = Inr fs'"
    and 3: "map_sum Parser_error id (parser (tz @ join_spaces fs')) = Inr s"
    by (auto simp: parse_crontab_def split: if_splits option.splits sum.splits prod.splits)
  have 4: "length fs = 6"
    using 1(2) by (auto simp: normalize_fields_def split: if_splits)
  have 5: "length field_bounds = 6" by (simp add: field_bounds_def)
  from resolve_fields_ok [OF 2 assms(2)] 4 5
  have "length fs' = 6 \<and> (\<forall>k < 6. field_resolved (fs ! k) (field_bounds ! k) (fs' ! k))" by simp
  moreover from 3 have "parser (tz @ join_spaces fs') = Inr s"
    by (cases "parser (tz @ join_spaces fs')") auto
  ultimately show ?thesis using 1 4 by blast
qed

lemma crontab_resolved_witness:
  "\<exists>fs'. length fs' = 6 \<and> field_resolved ''~30'' (0, 59) (fs' ! 1) \<and>
     join_spaces fs' = ''0 7 3 * * *''"
proof -
  let ?spec = "''~30 3 * * *''"
  have "parse_crontab (\<lambda>_. False) Inr (\<lambda>i n. if n = 31 then 7 else 0) ?spec = Inr ''0 7 3 * * *''"
    by (simp add: parse_crontab_def split_tz_def normalize_fields_def str_fields_def is_space_def
        byte_def field_bounds_def resolve_random_field_def range_part_def parse_uint_def parse_nat_def
        digit_val_def itoa_def show_int_def show_base.simps digit_char_def char_of_def bit_0 Let_def)
  from crontab_resolved [OF this] have "\<exists>tz rest fs fs'. split_tz ?spec = Some (tz, rest) \<and>
    normalize_fields (str_fields rest) = Inr fs \<and> length fs = 6 \<and> length fs' = 6 \<and>
    (\<forall>k < 6. field_resolved (fs ! k) (field_bounds ! k) (fs' ! k)) \<and>
    tz @ join_spaces fs' = ''0 7 3 * * *''"
    by (auto simp: draw_in_range_def)
  then obtain fs' where "length fs' = 6" "field_resolved ''~30'' (0, 59) (fs' ! 1)"
    "join_spaces fs' = ''0 7 3 * * *''"
    by (auto simp: split_tz_def normalize_fields_def str_fields_def is_space_def byte_def
        field_bounds_def dest!: spec [of _ 1])
  then show ?thesis by blast
qed

end
