(* ===== verification/HashIds.thy ===== *)
theory HashIds
  imports StrUtils
begin

text \<open>
  The hashed ids of \<open>model/id/id.go\<close>: the MD5 sum of the parts of a key, as 22 digits in base 62.
  MD5 is an argument, of which only its 16 bytes are assumed.
\<close>

section \<open>Base 62\<close>

text \<open>The digits of \<open>big.Int.Text\<close>: figures, then small, then capital letters.\<close>

definition digit62 :: "nat \<Rightarrow> char" where
  "digit62 d = char_of (if d < 10 then 48 + d else if d < 36 then 87 + d else 29 + d)"

definition value62 :: "char \<Rightarrow> nat" where
  "value62 c =
     (let n = of_char c in if n < 58 then n - 48 else if n < 91 then n - 29 else n - 87)"

function base62 :: "nat \<Rightarrow> string" where
  "base62 n = (if n < 62 then [digit62 n] else base62 (n div 62) @ [digit62 (n mod 62)])"
  by pat_completeness auto
termination
  by (relation "measure id") auto

declare base62.simps [simp del]

definition read62 :: "string \<Rightarrow> nat" where
  "read62 s = foldl (\<lambda>a c. a * 62 + value62 c) 0 s"

lemma value62_digit62 [simp]: "d < 62 \<Longrightarrow> value62 (digit62 d) = d"
  by (auto simp: value62_def digit62_def of_char_of Let_def)

lemma read62_snoc [simp]: "read62 (s @ [c]) = read62 s * 62 + value62 c"
  by (simp add: read62_def)

lemma read62_base62 [simp]: "read62 (base62 n) = n"
proof (induction n rule: base62.induct)
  case (1 n)
  show ?case
  proof (cases "n < 62")
    case True
    then show ?thesis by (simp add: base62.simps [of n] read62_def)
  next
    case False
    with 1 show ?thesis by (simp add: base62.simps [of n])
  qed
qed

lemma base62_digits: "set (base62 n) \<subseteq> digit62 ` {..<62}"
proof (induction n rule: base62.induct)
  case (1 n)
  then show ?case by (cases "n < 62") (simp_all add: base62.simps [of n])
qed

lemma base62_length: "n < 62 ^ Suc k \<Longrightarrow> length (base62 n) \<le> Suc k"
proof (induction k arbitrary: n)
  case 0
  then show ?case by (simp add: base62.simps [of n])
next
  case (Suc k)
  show ?case
  proof (cases "n < 62")
    case True
    then show ?thesis by (simp add: base62.simps [of n])
  next
    case False
    from Suc.prems have "n div 62 < 62 ^ Suc k" by (simp add: less_mult_imp_div_less mult.commute)
    from Suc.IH [OF this] False show ?thesis by (simp add: base62.simps [of n])
  qed
qed

section \<open>The hash of a key\<close>

text \<open>\<open>%022s\<close> fills with zeros on the left.\<close>

definition zero_padded :: "nat \<Rightarrow> string \<Rightarrow> string" where
  "zero_padded n s = replicate (n - length s) (CHR ''0'') @ s"

definition bytes_value :: "nat list \<Rightarrow> nat" where
  "bytes_value bytes = foldl (\<lambda>a b. a * 256 + b) 0 bytes"

text \<open>\<open>consts.Zwsp\<close>, the zero-width space in UTF-8, ends every part of a key.\<close>

definition zwsp :: string where
  "zwsp = utf8_bytes [0xE2, 0x80, 0x8B]"

definition hashed_text :: "string list \<Rightarrow> string" where
  "hashed_text parts = concat (map (\<lambda>d. d @ zwsp) parts)"

definition new_hash :: "(string \<Rightarrow> nat list) \<Rightarrow> string list \<Rightarrow> string" where
  "new_hash md5 parts = zero_padded 22 (base62 (bytes_value (md5 (hashed_text parts))))"

definition new_tag_id :: "(string \<Rightarrow> nat list) \<Rightarrow> string \<Rightarrow> string \<Rightarrow> string" where
  "new_tag_id md5 name v = new_hash md5 [to_lower name, to_lower v]"

text \<open>An MD5 sum has 16 bytes.\<close>

definition md5_bytes :: "(string \<Rightarrow> nat list) \<Rightarrow> bool" where
  "md5_bytes md5 \<longleftrightarrow> (\<forall>s. length (md5 s) = 16 \<and> (\<forall>b \<in> set (md5 s). b < 256))"

lemma bytes_value_snoc [simp]: "bytes_value (ys @ [b]) = bytes_value ys * 256 + b"
  by (simp add: bytes_value_def)

lemma bytes_value_bound: "\<forall>b \<in> set ys. b < 256 \<Longrightarrow> bytes_value ys < 256 ^ length ys"
proof (induction ys rule: rev_induct)
  case (snoc b ys)
  then have "bytes_value ys + 1 \<le> 256 ^ length ys" by simp
  then have "(bytes_value ys + 1) * 256 \<le> 256 ^ length ys * 256" by (rule mult_le_mono1)
  with snoc.prems show ?case by simp
qed (simp add: bytes_value_def)

lemma last_byte:
  fixes x y :: nat
  assumes "x * 256 + a = y * 256 + b" "a < 256" "b < 256"
  shows "x = y \<and> a = b"
proof -
  have "x = (x * 256 + a) div 256" "y = (y * 256 + b) div 256" using assms(2,3) by simp_all
  with assms(1) show ?thesis by simp
qed

lemma bytes_value_inject:
  assumes "length as = length ys" "\<forall>b \<in> set as. b < 256" "\<forall>b \<in> set ys. b < 256"
    and "bytes_value as = bytes_value ys"
  shows "as = ys"
  using assms
proof (induction as arbitrary: ys rule: rev_induct)
  case (snoc a as)
  from snoc.prems(1) obtain b zs where ys: "ys = zs @ [b]" by (cases ys rule: rev_cases) auto
  from snoc.prems(4) have "bytes_value as * 256 + a = bytes_value zs * 256 + b" by (simp add: ys)
  moreover have "a < 256" "b < 256" using snoc.prems(2,3) by (auto simp: ys)
  ultimately have "bytes_value as = bytes_value zs" "a = b" using last_byte by blast+
  with snoc show ?case by (simp add: ys)
qed simp

lemma read62_zeros: "read62 (replicate k (CHR ''0'') @ s) = read62 s"
  by (induction k) (simp_all add: read62_def value62_def)

lemma hash_value: "read62 (new_hash md5 parts) = bytes_value (md5 (hashed_text parts))"
  by (simp add: new_hash_def zero_padded_def read62_zeros)

lemma hash_shape:
  assumes "md5_bytes md5"
  shows "length (new_hash md5 parts) = 22" "set (new_hash md5 parts) \<subseteq> digit62 ` {..<62}"
proof -
  let ?n = "bytes_value (md5 (hashed_text parts))"
  have "?n < 256 ^ 16"
    using bytes_value_bound [of "md5 (hashed_text parts)"] assms by (simp add: md5_bytes_def)
  also have "\<dots> < 62 ^ Suc 21" by simp
  finally have "length (base62 ?n) \<le> 22" using base62_length [of ?n 21] by simp
  then show "length (new_hash md5 parts) = 22" by (simp add: new_hash_def zero_padded_def)
  have "CHR ''0'' = digit62 0" by code_simp
  then show "set (new_hash md5 parts) \<subseteq> digit62 ` {..<62}"
    using base62_digits [of ?n] by (auto simp: new_hash_def zero_padded_def)
qed

lemma hash_inject:
  assumes "md5_bytes md5"
  shows "new_hash md5 ps = new_hash md5 qs \<longleftrightarrow> md5 (hashed_text ps) = md5 (hashed_text qs)"
proof
  assume "new_hash md5 ps = new_hash md5 qs"
  then have "bytes_value (md5 (hashed_text ps)) = bytes_value (md5 (hashed_text qs))"
    by (metis hash_value)
  with assms show "md5 (hashed_text ps) = md5 (hashed_text qs)"
    by (intro bytes_value_inject) (auto simp: md5_bytes_def)
qed (simp add: new_hash_def)

text \<open>The parts of a key can be told apart as long as none of them contains the separator.\<close>

lemma zwsp_chars: "zwsp = [CHR 0xE2, CHR 0x80, CHR 0x8B]"
  by code_simp

lemma contains_str_append: "contains_str (a @ x @ b) x"
proof (induction a)
  case Nil
  show ?case
  proof (cases "x @ b")
    case (Cons c cs)
    then show ?thesis by (simp add: has_prefix_append) (metis append_Nil)
  qed simp
next
  case (Cons c a)
  then show ?case by simp
qed

lemma zwsp_first:
  assumes "a @ zwsp @ x = b @ zwsp @ y" "\<not> contains_str b zwsp" "length a \<le> length b"
  shows "a = b"
proof -
  from assms(1,3) obtain u where b: "b = a @ u"
    by (metis append_eq_append_conv_if append_take_drop_id)
  with assms(1) have e: "zwsp @ x = u @ zwsp @ y" by simp
  have "u = []"
  proof (rule ccontr)
    assume "u \<noteq> []"
    then consider c where "u = [c]" | c d where "u = [c, d]" | c d e' u' where "u = c # d # e' # u'"
      by (cases u; cases "tl u"; cases "tl (tl u)") auto
    then show False
    proof cases
      case 3
      with e have "u = zwsp @ u'" by (simp add: zwsp_chars)
      with b contains_str_append [of a zwsp u'] assms(2) show False by simp
    qed (use e in \<open>simp_all add: zwsp_chars\<close>)
  qed
  with b show ?thesis by simp
qed

lemma hashed_text_inject:
  assumes "hashed_text ps = hashed_text qs" "length ps = length qs"
    and "\<forall>p \<in> set ps. \<not> contains_str p zwsp" "\<forall>q \<in> set qs. \<not> contains_str q zwsp"
  shows "ps = qs"
  using assms
proof (induction ps arbitrary: qs)
  case (Cons p ps)
  then obtain q qs' where qs: "qs = q # qs'" by (cases qs) auto
  from Cons.prems(1) have e: "p @ zwsp @ hashed_text ps = q @ zwsp @ hashed_text qs'"
    by (simp add: qs hashed_text_def)
  have "p = q"
  proof (cases "length p \<le> length q")
    case True
    with zwsp_first [OF e] Cons.prems(4) show ?thesis by (simp add: qs)
  next
    case False
    with zwsp_first [OF e [symmetric]] Cons.prems(3) show ?thesis by simp
  qed
  with e Cons.IH [of qs'] Cons.prems show ?case by (simp add: qs)
qed simp

text \<open>
  Hashed ids are 22 base-62 digits, and two of them are the same exactly when the MD5 sums
  of the keys are: none of the 128 bits is lost. Keys with as many parts, none with a zero-width
  space in it, are hashed as different texts unless they are the same.
\<close>

lemma hashed_ids_exact:
  assumes "md5_bytes md5"
  shows "length (new_hash md5 ps) = 22 \<and> set (new_hash md5 ps) \<subseteq> digit62 ` {..<62} \<and>
    (new_hash md5 ps = new_hash md5 qs \<longleftrightarrow> md5 (hashed_text ps) = md5 (hashed_text qs)) \<and>
    (length ps = length qs \<and> (\<forall>p \<in> set ps \<union> set qs. \<not> contains_str p zwsp) \<longrightarrow>
       (hashed_text ps = hashed_text qs \<longleftrightarrow> ps = qs))"
  using hash_shape [OF assms] hash_inject [OF assms] hashed_text_inject [of ps qs] by blast

text \<open>A hash that keeps the first 16 bytes stands in for MD5.\<close>

definition sample_md5 :: "string \<Rightarrow> nat list" where
  "sample_md5 s = take 16 (map of_char s @ replicate 16 0)"

lemma sample_md5_bytes: "md5_bytes sample_md5"
  unfolding md5_bytes_def sample_md5_def by (auto dest!: in_set_takeD)

lemma hashed_ids_exact_witness:
  "length (new_hash sample_md5 [''rock'']) = 22 \<and>
   new_hash sample_md5 [''rock''] \<noteq> new_hash sample_md5 [''pop'']"
  using hashed_ids_exact [OF sample_md5_bytes, of "[''rock'']" "[''pop'']"]
  by (simp add: hashed_text_def sample_md5_def zwsp_chars of_char_def)

end
