(* ===== verification/Tags.thy ===== *)
theory Tags
  imports HashIds "HOL-Library.Char_ord" "HOL-Library.List_Lexorder" "HOL-Library.Product_Lexorder"
begin

text \<open>
  Tags and their configuration: \<open>model/tag_mappings.go\<close> and \<open>model/tag.go\<close>. A mapping names the
  aliases under which a tag is found in a file, its type, its maximum length and the separators
  at which a single value is split. The separators of one tag are compiled into one regular
  expression that matches any of them, case-insensitively: it is the list of separators here,
  tried in their order at each position. Lengths in the configuration are not negative. The tags
  of a file are a map from names to values; a loop over such a map takes the names in any order,
  which is an argument.
\<close>

section \<open>Splitting by a string\<close>

text \<open>\<open>strings.Split\<close> with a separator that is not empty.\<close>

function split_str :: "string \<Rightarrow> string \<Rightarrow> string \<Rightarrow> string list" where
  "split_str sep acc s =
     (if sep = [] then [acc @ s]
      else if has_prefix s sep then acc # split_str sep [] (drop (length sep) s)
      else (case s of [] \<Rightarrow> [acc] | c # cs \<Rightarrow> split_str sep (acc @ [c]) cs))"
  by pat_completeness auto
termination
proof (relation "measure (\<lambda>(sep, acc, s). length s)", simp, goal_cases)
  case (1 sep acc s)
  then show ?case by (cases s) (auto simp: has_prefix_append)
qed simp

declare split_str.simps [simp del]

text \<open>The compiled separators.\<close>

fun match_sep :: "string list \<Rightarrow> string \<Rightarrow> nat option" where
  "match_sep [] s = None"
| "match_sep (p # ps) s =
     (if has_prefix (to_lower s) (to_lower p) then Some (length p) else match_sep ps s)"

function replace_seps :: "string list \<Rightarrow> string \<Rightarrow> string \<Rightarrow> string" where
  "replace_seps seps new [] = []"
| "replace_seps seps new (c # cs) =
     (case match_sep seps (c # cs) of
        Some (Suc n) \<Rightarrow> new @ replace_seps seps new (drop n cs)
      | _ \<Rightarrow> c # replace_seps seps new cs)"
  by pat_completeness auto
termination
  by (relation "measure (\<lambda>(seps, new, s). length s)") auto

section \<open>Tag configuration\<close>

datatype tag_type =
    Tag_type_string | Tag_type_integer | Tag_type_float | Tag_type_date | Tag_type_uuid
  | Tag_type_pair | Tag_type_other string

text \<open>The zero value of \<open>TagType\<close> is the empty string.\<close>

definition tag_type_unset :: tag_type where
  "tag_type_unset = Tag_type_other []"

record tag_conf =
  tc_aliases :: "string list"
  tc_type :: tag_type
  tc_max_length :: nat
  tc_split :: "string list option"
  tc_album :: bool
  tc_split_rx :: "string list option"

definition no_tag_conf :: tag_conf where
  "no_tag_conf = \<lparr>tc_aliases = [], tc_type = tag_type_unset, tc_max_length = 0, tc_split = None,
     tc_album = False, tc_split_rx = None\<rparr>"

type_synonym tag_mappings = "string \<rightharpoonup> tag_conf"

record mappings_conf =
  mc_main :: tag_mappings
  mc_additional :: tag_mappings
  mc_roles :: tag_conf
  mc_artists :: tag_conf

definition compile_split_regex :: "string list option \<Rightarrow> string list option" where
  "compile_split_regex split =
     (let escaped = filter (\<lambda>s. s \<noteq> []) (case split of None \<Rightarrow> [] | Some ss \<Rightarrow> ss)
      in if escaped = [] then None else Some escaped)"

definition split_tag_value :: "tag_conf \<Rightarrow> string list \<Rightarrow> string list" where
  "split_tag_value c values =
     (case (values, tc_split_rx c) of
        ([tag], Some seps) \<Rightarrow> map trim_space (split_str zwsp [] (replace_seps seps zwsp tag))
      | _ \<Rightarrow> values)"

text \<open>
  One entry of \<open>collectTags\<close>: a split list on a tag that is no string is reported and cleared;
  a compiled expression that is already there stays.
\<close>

definition normalize_tag :: "tag_conf \<Rightarrow> tag_conf" where
  "normalize_tag c =
     (let c1 = (case tc_split c of
                  None \<Rightarrow> c
                | Some _ \<Rightarrow>
                    if tc_type c \<noteq> tag_type_unset \<and> tc_type c \<noteq> Tag_type_string
                    then c\<lparr>tc_split := None\<rparr>
                    else c\<lparr>tc_split_rx := compile_split_regex (tc_split c)\<rparr>)
      in c1\<lparr>tc_aliases := map to_lower (tc_aliases c)\<rparr>)"

text \<open>Mappings are collected in the order in which Go walks the map.\<close>

definition collect_tags :: "(string \<times> tag_conf) list \<Rightarrow> tag_mappings" where
  "collect_tags ms = fold (\<lambda>(k, c) m. m(to_lower k \<mapsto> normalize_tag c)) ms Map.empty"

definition parse_mappings ::
  "(string \<times> tag_conf) list \<Rightarrow> (string \<times> tag_conf) list \<Rightarrow> tag_conf \<Rightarrow> tag_conf
     \<Rightarrow> tag_mappings \<times> mappings_conf"
where
  "parse_mappings main additional roles artists =
     (let m = collect_tags main; a = collect_tags additional ++ m
      in (a, \<lparr>mc_main = m, mc_additional = a,
              mc_roles = roles\<lparr>tc_split_rx := compile_split_regex (tc_split roles)\<rparr>,
              mc_artists = artists\<lparr>tc_split_rx := compile_split_regex (tc_split artists)\<rparr>\<rparr>))"

section \<open>The settings of the server\<close>

text \<open>An entry of \<open>conf.Server.Tags\<close>.\<close>

record tag_setting =
  ts_ignore :: bool
  ts_aliases :: "string list"
  ts_type :: tag_type
  ts_max_length :: nat
  ts_split :: "string list option"
  ts_album :: bool

text \<open>\<open>strings.Split(s, "")\<close>: the characters of a text, each as its UTF-8 bytes.\<close>

definition is_continuation :: "char \<Rightarrow> bool" where
  "is_continuation c \<longleftrightarrow> 0x80 \<le> byte c \<and> byte c < 0xC0"

function explode_chars :: "string \<Rightarrow> string list" where
  "explode_chars [] = []"
| "explode_chars (c # cs) =
     (c # takeWhile is_continuation cs) # explode_chars (dropWhile is_continuation cs)"
  by pat_completeness auto
termination
  by (relation "measure length") (auto simp: length_dropWhile_le le_imp_less_Suc)

definition genre_separators ::
  "string \<Rightarrow> tag_setting option \<Rightarrow> tag_mappings \<Rightarrow> tag_mappings" where
  "genre_separators seps setting m =
     (if seps \<noteq> [] \<and> (case setting of None \<Rightarrow> True | Some s \<Rightarrow> ts_aliases s = [])
      then (let g = (case m ''genre'' of None \<Rightarrow> no_tag_conf | Some g \<Rightarrow> g);
                sp = Some (explode_chars seps)
            in m(''genre'' \<mapsto> g\<lparr>tc_split := sp, tc_split_rx := compile_split_regex sp\<rparr>))
      else m)"

definition merge_setting :: "tag_setting \<Rightarrow> tag_conf \<Rightarrow> tag_conf" where
  "merge_setting s old =
     (let split = (case ts_split s of None \<Rightarrow> tc_split old | Some ss \<Rightarrow> Some ss)
      in \<lparr>tc_aliases = (if ts_aliases s = [] then tc_aliases old else ts_aliases s),
          tc_type = (if ts_type s \<noteq> tag_type_unset then ts_type s else tc_type old),
          tc_max_length = (if ts_max_length s \<noteq> 0 then ts_max_length s else tc_max_length old),
          tc_split = split,
          tc_album = (ts_album s \<or> tc_album old),
          tc_split_rx = compile_split_regex split\<rparr>)"

definition apply_setting ::
  "string \<times> tag_setting \<Rightarrow> tag_mappings \<times> tag_mappings \<Rightarrow> tag_mappings \<times> tag_mappings" where
  "apply_setting ts ms =
     (case (ts, ms) of ((tag, s), (main, additional)) \<Rightarrow>
        if ts_ignore s then (main(tag := None), additional(tag := None))
        else (let old = (case main tag of
                           Some c \<Rightarrow> c
                         | None \<Rightarrow> (case additional tag of Some c \<Rightarrow> c | None \<Rightarrow> no_tag_conf));
                  c = merge_setting s old
              in if main tag \<noteq> None then (main(tag \<mapsto> c), additional)
                 else (main, additional(tag \<mapsto> c))))"

text \<open>
  \<open>loadTagMappings\<close> after the file was decoded: the deprecated genre separators, then the
  settings in the order in which Go walks them.
\<close>

definition load_tag_mappings ::
  "string \<Rightarrow> (string \<times> tag_setting) list \<Rightarrow> tag_mappings \<times> tag_mappings
     \<Rightarrow> tag_mappings \<times> tag_mappings"
where
  "load_tag_mappings seps settings ms =
     (case ms of (main, additional) \<Rightarrow>
        fold apply_setting settings
          (genre_separators seps (map_of settings ''genre'') main, additional))"

section \<open>Lemmas on splitting\<close>

lemma to_lower_drop: "to_lower (drop n s) = drop n (to_lower s)"
  by (simp add: to_lower_def drop_map)

lemma split_str_neq_Nil [simp]: "split_str sep acc s \<noteq> []"
  by (induction sep acc s rule: split_str.induct) (subst split_str.simps, auto split: list.splits)

lemma length_to_lower [simp]: "length (to_lower s) = length s"
  by (simp add: to_lower_def)

lemma compile_split_regex_ok: "compile_split_regex sp = Some seps \<Longrightarrow> seps \<noteq> [] \<and> [] \<notin> set seps"
  by (auto simp: compile_split_regex_def Let_def split: if_splits option.splits)

section \<open>Tags\<close>

type_synonym tags = "string \<rightharpoonup> string list"

record tag =
  tag_id :: string
  tag_name :: string
  tag_value :: string

definition new_tag :: "(string \<Rightarrow> nat list) \<Rightarrow> string \<Rightarrow> string \<Rightarrow> tag" where
  "new_tag md5 name v =
     \<lparr>tag_id = new_tag_id md5 (to_lower name) v, tag_name = to_lower name, tag_value = v\<rparr>"

definition tags_values :: "tags \<Rightarrow> string \<Rightarrow> string list" where
  "tags_values t name = (case t name of None \<Rightarrow> [] | Some vs \<Rightarrow> vs)"

definition tags_add :: "string \<Rightarrow> string \<Rightarrow> tags \<Rightarrow> tags" where
  "tags_add name v t =
     (if v \<in> set (tags_values t name) then t else t(name \<mapsto> tags_values t name @ [v]))"

definition tags_merge :: "string list \<Rightarrow> tags \<Rightarrow> tags \<Rightarrow> tags" where
  "tags_merge names other t =
     fold (\<lambda>name t. fold (tags_add name) (tags_values other name) t) names t"

definition tags_ids :: "(string \<Rightarrow> nat list) \<Rightarrow> string list \<Rightarrow> tags \<Rightarrow> string list" where
  "tags_ids md5 names t =
     concat (map (\<lambda>name. map (new_tag_id md5 (to_lower name)) (tags_values t name)) names)"

definition flatten_tag :: "(string \<Rightarrow> nat list) \<Rightarrow> tags \<Rightarrow> string \<Rightarrow> tag list" where
  "flatten_tag md5 t name = map (new_tag md5 name) (tags_values t name)"

definition flatten_all :: "(string \<Rightarrow> nat list) \<Rightarrow> string list \<Rightarrow> tags \<Rightarrow> tag list" where
  "flatten_all md5 names t = concat (map (flatten_tag md5 t) names)"

definition tags_hash :: "(string \<Rightarrow> nat list) \<Rightarrow> string list \<Rightarrow> tags \<Rightarrow> nat list" where
  "tags_hash md5 names t =
     (if names = [] then [] else md5 (join ''|'' (sort (tags_ids md5 names t))))"

text \<open>\<open>ToGenres\<close>: the first genre and all of them with their ids.\<close>

definition to_genres :: "(string \<Rightarrow> nat list) \<Rightarrow> tags \<Rightarrow> string \<times> (string \<times> string) list" where
  "to_genres md5 t =
     (case tags_values t ''genre'' of
        [] \<Rightarrow> ([], [])
      | g # gs \<Rightarrow> (g, map (\<lambda>v. (tag_id (new_tag md5 ''genre'' v), v)) (g # gs)))"

text \<open>
  \<open>GroupByFrequency\<close>: the values of each name, the most frequent first and equally frequent ones
  in the order of their texts. The same id may come with several spellings; the last one wins.
\<close>

definition id_count :: "tag list \<Rightarrow> string \<Rightarrow> string \<Rightarrow> nat" where
  "id_count l name i = length (filter (\<lambda>t. tag_name t = name \<and> tag_id t = i) l)"

definition last_value :: "tag list \<Rightarrow> string \<Rightarrow> string" where
  "last_value l i = tag_value (last (filter (\<lambda>t. tag_id t = i) l))"

definition ids_by_frequency :: "tag list \<Rightarrow> string \<Rightarrow> string list" where
  "ids_by_frequency l name =
     sort_key (\<lambda>i. (- int (id_count l name i), last_value l i))
       (remdups (map tag_id (filter (\<lambda>t. tag_name t = name) l)))"

definition group_by_frequency :: "tag list \<Rightarrow> tags" where
  "group_by_frequency l name =
     (if name \<in> tag_name ` set l then Some (map (last_value l) (ids_by_frequency l name)) else None)"

lemma tags_values_simps [simp]:
  "tags_values (t(name \<mapsto> vs)) name = vs"
  "name \<noteq> n \<Longrightarrow> tags_values (t(name \<mapsto> vs)) n = tags_values t n"
  "tags_values Map.empty n = []"
  by (simp_all add: tags_values_def)

lemma tags_add_values:
  "set (tags_values (tags_add name v t) n) =
     set (tags_values t n) \<union> (if n = name then {v} else {})"
  by (cases "n = name") (auto simp: tags_add_def)

lemma fold_tags_add_values:
  "set (tags_values (fold (tags_add name) vs t) n) =
     set (tags_values t n) \<union> (if n = name then set vs else {})"
  by (induction vs arbitrary: t) (auto simp: tags_add_values)

text \<open>Merging is the union of the values of every name, and keeps values distinct.\<close>

lemma tags_merge_values:
  "set (tags_values (tags_merge names other t) n) =
     set (tags_values t n) \<union> (if n \<in> set names then set (tags_values other n) else {})"
  unfolding tags_merge_def by (induction names arbitrary: t) (auto simp: fold_tags_add_values)

lemma tags_add_distinct:
  "distinct (tags_values t n) \<Longrightarrow> distinct (tags_values (tags_add name v t) n)"
  by (cases "n = name") (auto simp: tags_add_def)

lemma tags_merge_distinct:
  assumes "distinct (tags_values t n)"
  shows "distinct (tags_values (tags_merge names other t) n)"
proof -
  have "distinct (tags_values (fold (tags_add name) vs t) n)" if "distinct (tags_values t n)" for name vs t
    using that by (induction vs arbitrary: t) (auto simp: tags_add_distinct)
  with assms show ?thesis unfolding tags_merge_def by (induction names arbitrary: t) auto
qed

text \<open>The grouped values are the values of the list, one for each id, the frequent ones first.\<close>

lemma ids_by_frequency_set:
  "set (ids_by_frequency l name) = {tag_id t | t. t \<in> set l \<and> tag_name t = name}"
  "distinct (ids_by_frequency l name)"
  by (auto simp: ids_by_frequency_def)

lemma ids_by_frequency_sorted:
  "sorted_wrt (\<lambda>i j. id_count l name j \<le> id_count l name i) (ids_by_frequency l name)"
proof -
  have "sorted (map (\<lambda>i. (- int (id_count l name i), last_value l i)) (ids_by_frequency l name))"
    by (simp add: ids_by_frequency_def)
  then have "sorted_wrt (\<lambda>i j. (- int (id_count l name i), last_value l i)
      \<le> (- int (id_count l name j), last_value l j)) (ids_by_frequency l name)"
    by (simp add: sorted_map)
  then show ?thesis by (rule sorted_wrt_mono_rel [rotated]) (auto simp: less_eq_prod_def)
qed

section \<open>A split list on a tag that is no text\<close>

text \<open>
  For a tag of another type a split list from the settings is reported as an error and cleared,
  but the expression that \<open>loadTagMappings\<close> compiled for it stays, and splits the values.
\<close>

definition date_setting :: tag_setting where
  "date_setting = \<lparr>ts_ignore = False, ts_aliases = [], ts_type = tag_type_unset, ts_max_length = 0,
     ts_split = Some [''/''], ts_album = False\<rparr>"

definition date_mapping :: tag_conf where
  "date_mapping = no_tag_conf\<lparr>tc_aliases := [''date''], tc_type := Tag_type_date\<rparr>"

definition split_dates :: tag_conf where
  "split_dates = normalize_tag (the (fst (load_tag_mappings [] [(''recordingdate'', date_setting)]
     ([''recordingdate'' \<mapsto> date_mapping], Map.empty)) ''recordingdate''))"

lemma split_despite_error:
  "tc_type split_dates = Tag_type_date" "tc_split split_dates = None"
  "split_tag_value split_dates [''01/02/2003''] = [''01'', ''02'', ''2003'']"
  by code_simp+

end
