(* ===== verification/Metadata.thy ===== *)
theory Metadata
  imports Tags MediaFile Paths
begin

text \<open>
  Reading the tags of a file: \<open>model/metadata/metadata.go\<close>. The raw tags are lowered, collected
  under the names of the mappings, split, freed of empty and repeated values, cut to their
  maximum length and checked against their type; the getters then read them as numbers, pairs
  and dates. The UUID parser of a third-party package and the reading of floats are arguments.
  A walk over the map of lowered tags takes their keys in any order (\<open>walk\<close>).
\<close>

text \<open>What \<open>strconv.ParseFloat\<close> gives without an error; infinities and NaN are written as words.\<close>

datatype float_value = Finite_float rat | Infinite_or_nan

record meta_env =
  me_mappings :: tag_mappings
  me_conf :: mappings_conf
  me_uuid_ok :: "string \<Rightarrow> bool"
  me_float :: "string \<Rightarrow> float_value option"
  me_walk :: "string list \<Rightarrow> string list"

text \<open>A walk over the keys of a map takes every key once.\<close>

definition walks_all :: "(string list \<Rightarrow> string list) \<Rightarrow> bool" where
  "walks_all w \<longleftrightarrow> (\<forall>ks. distinct ks \<longrightarrow> distinct (w ks) \<and> set (w ks) = set ks)"

section \<open>Dates\<close>

definition all_digits :: "string \<Rightarrow> bool" where
  "all_digits s \<longleftrightarrow> (\<forall>c \<in> set s. is_digit c)"

text \<open>The year \<open>[12]\d\d\d\<close> that starts a text, and the first one in it.\<close>

definition year_at :: "string \<Rightarrow> bool" where
  "year_at s \<longleftrightarrow> 4 \<le> length s \<and> (hd s = CHR ''1'' \<or> hd s = CHR ''2'') \<and> all_digits (take 4 s)"

fun find_year :: "string \<Rightarrow> string option" where
  "find_year [] = None"
| "find_year (c # cs) = (if year_at (c # cs) then Some (take 4 (c # cs)) else find_year cs)"

text \<open>The value of decimal digits.\<close>

definition num_of :: "string \<Rightarrow> int" where
  "num_of s = (case read_digits 10 0 s of None \<Rightarrow> 0 | Some n \<Rightarrow> n)"

definition leap_year :: "int \<Rightarrow> bool" where
  "leap_year y \<longleftrightarrow> y mod 4 = 0 \<and> (y mod 100 \<noteq> 0 \<or> y mod 400 = 0)"

definition days_in :: "int \<Rightarrow> int \<Rightarrow> int" where
  "days_in y m =
     (if m = 2 then (if leap_year y then 29 else 28)
      else if m = 4 \<or> m = 6 \<or> m = 9 \<or> m = 11 then 30 else 31)"

text \<open>\<open>time.Parse\<close> with the layouts \<open>2006-01\<close> and \<open>2006-01-02\<close>: does it accept the text?\<close>

definition is_month_date :: "string \<Rightarrow> bool" where
  "is_month_date s \<longleftrightarrow> length s = 7 \<and> all_digits (take 4 s) \<and> s ! 4 = CHR ''-'' \<and>
     all_digits (drop 5 s) \<and> 1 \<le> num_of (drop 5 s) \<and> num_of (drop 5 s) \<le> 12"

definition is_day_date :: "string \<Rightarrow> bool" where
  "is_day_date s \<longleftrightarrow> length s = 10 \<and> is_month_date (take 7 s) \<and> s ! 7 = CHR ''-'' \<and>
     all_digits (drop 8 s) \<and> 1 \<le> num_of (drop 8 s) \<and>
     num_of (drop 8 s) \<le> days_in (num_of (take 4 s)) (num_of (take 2 (drop 5 s)))"

definition parse_date :: "string \<Rightarrow> string" where
  "parse_date v =
     (if length v < 4 then []
      else (case find_year v of
              None \<Rightarrow> []
            | Some y \<Rightarrow>
                if length v < 5 then y
                else (let t = take 10 v in if is_day_date t \<or> is_month_date t then t else y)))"

text \<open>\<open>Date.Year\<close> slices the first four bytes, which panics on a shorter text: \<open>None\<close>.\<close>

definition date_year :: "string \<Rightarrow> int option" where
  "date_year d =
     (if d = [] then Some 0
      else if length d < 4 then None
      else Some (case atoi (take 4 d) of None \<Rightarrow> 0 | Some y \<Rightarrow> y))"

section \<open>Pairs\<close>

definition new_pair :: "string \<Rightarrow> string \<Rightarrow> string" where
  "new_pair k v = k @ zwsp @ v"

text \<open>\<open>strings.SplitN(s, sep, 2)\<close> for a longer separator: the parts around its first occurrence.\<close>

fun cut_str :: "string \<Rightarrow> string \<Rightarrow> (string \<times> string) option" where
  "cut_str sep [] = (if sep = [] then Some ([], []) else None)"
| "cut_str sep (c # cs) =
     (if has_prefix (c # cs) sep then Some ([], drop (length sep) (c # cs))
      else map_option (\<lambda>(a, b). (c # a, b)) (cut_str sep cs))"

definition pair_key :: "string \<Rightarrow> string" where
  "pair_key p = (case cut_str zwsp p of None \<Rightarrow> p | Some (k, _) \<Rightarrow> k)"

definition pair_value :: "string \<Rightarrow> string" where
  "pair_value p = (case cut_str zwsp p of None \<Rightarrow> [] | Some (_, v) \<Rightarrow> v)"

text \<open>
  The expression for performers, \<open>\(([^()]+(?:\([^()]*\)[^()]*)*)\)\<close>: a group in parentheses that
  does not start with one and contains groups of one more level. \<open>group_rest\<close> reads what follows
  the first part; no choice is left open, since the parts are separated by parentheses.
\<close>

definition no_paren :: "char \<Rightarrow> bool" where
  "no_paren c \<longleftrightarrow> c \<noteq> CHR ''('' \<and> c \<noteq> CHR '')''"

function group_rest :: "string \<Rightarrow> string \<Rightarrow> string option" where
  "group_rest acc s =
     (case s of
        [] \<Rightarrow> None
      | c # r \<Rightarrow>
          if c = CHR '')'' then Some acc
          else if c = CHR ''('' then
            (let b = takeWhile no_paren r
             in case dropWhile no_paren r of
                  [] \<Rightarrow> None
                | d # r2 \<Rightarrow>
                    if d = CHR '')''
                    then group_rest (acc @ ''('' @ b @ '')'' @ takeWhile no_paren r2) (dropWhile no_paren r2)
                    else None)
          else None)"
  by pat_completeness auto
termination
proof (relation "measure (\<lambda>(acc, s). length s)", simp, goal_cases)
  case (1 acc s c r b d r2)
  have "length (dropWhile no_paren r2) \<le> length r2" by (rule length_dropWhile_le)
  moreover have "length (d # r2) \<le> length r"
    using length_dropWhile_le [of no_paren r] 1(5) by simp
  ultimately show ?case using 1(1) by simp
qed

declare group_rest.simps [simp del]

fun first_group :: "string \<Rightarrow> string option" where
  "first_group [] = None"
| "first_group (c # cs) =
     (let a = takeWhile no_paren cs
      in if c = CHR ''('' \<and> a \<noteq> []
         then (case group_rest a (dropWhile no_paren cs) of
                 Some g \<Rightarrow> Some g
               | None \<Rightarrow> first_group cs)
         else first_group cs)"

text \<open>\<open>strings.Replace(s, old, "", 1)\<close>.\<close>

definition remove_first :: "string \<Rightarrow> string \<Rightarrow> string" where
  "remove_first old s = (case cut_str old s of None \<Rightarrow> s | Some (a, b) \<Rightarrow> a @ b)"

definition parse_vorbis_pair :: "string \<Rightarrow> string" where
  "parse_vorbis_pair v =
     (case first_group v of
        None \<Rightarrow> new_pair [] v
      | Some g \<Rightarrow>
          new_pair (to_lower (trim_space g)) (trim_space (remove_first (''('' @ g @ '')'') v)))"

section \<open>Cleaning\<close>

type_synonym raw_tags = "(string \<times> string list) list"

text \<open>
  The raw tags in the order in which Go walks them: of two keys that differ only in case the
  later one stays.
\<close>

definition lower_tags :: "raw_tags \<Rightarrow> tags" where
  "lower_tags raw = fold (\<lambda>(k, vs) m. m(to_lower k \<mapsto> vs)) raw Map.empty"

definition lowered_keys :: "raw_tags \<Rightarrow> string list" where
  "lowered_keys raw = remdups (map (to_lower \<circ> fst) raw)"

definition process_regular_mapping :: "tag_conf \<Rightarrow> tags \<Rightarrow> string list" where
  "process_regular_mapping c lowered =
     concat (map (\<lambda>a. case lowered a of None \<Rightarrow> [] | Some vs \<Rightarrow> split_tag_value c vs) (tc_aliases c))"

definition parse_id3_pairs :: "string \<Rightarrow> string list \<Rightarrow> tags \<Rightarrow> string list" where
  "parse_id3_pairs name keys lowered =
     concat (map (\<lambda>k.
       if has_prefix k (name @ '':'')
       then (let after = drop (length name + 1) k; part = (if after = name then [] else after)
             in map (new_pair part) (tags_values lowered k))
       else []) keys)"

definition process_pair_mapping :: "string \<Rightarrow> tag_conf \<Rightarrow> string list \<Rightarrow> tags \<Rightarrow> string list" where
  "process_pair_mapping name c keys lowered =
     (let vs = concat (map (tags_values lowered) (tc_aliases c));
          base = parse_id3_pairs name keys lowered
      in if vs = [] then base
         else if name = ''lyrics'' then base @ map (new_pair ''xxx'') vs
         else base @ map parse_vorbis_pair vs)"

text \<open>Empty values and values seen before are dropped, in one pass.\<close>

fun filter_values :: "string set \<Rightarrow> string list \<Rightarrow> string list" where
  "filter_values seen [] = []"
| "filter_values seen (v # vs) =
     (if v = [] \<or> v \<in> seen then filter_values seen vs else v # filter_values (insert v seen) vs)"

definition filter_duplicated_or_empty :: "string list \<Rightarrow> string list" where
  "filter_duplicated_or_empty vs = filter_values {} vs"

definition some_values :: "string list \<Rightarrow> string list option" where
  "some_values vs = (if vs = [] then None else Some vs)"

definition filter_empty_tags :: "tags \<Rightarrow> tags" where
  "filter_empty_tags t name =
     (case t name of None \<Rightarrow> None | Some vs \<Rightarrow> some_values (filter_duplicated_or_empty vs))"

definition max_tag_length :: "tag_conf \<Rightarrow> nat" where
  "max_tag_length c = (if tc_max_length c \<noteq> 0 then tc_max_length c else 1024)"

definition sanitize_value :: "meta_env \<Rightarrow> tag_conf \<Rightarrow> string \<Rightarrow> string" where
  "sanitize_value e c v =
     (let v1 = (if max_tag_length c < length v then take (max_tag_length c) v else v)
      in case tc_type c of
           Tag_type_date \<Rightarrow> parse_date v1
         | Tag_type_integer \<Rightarrow> (if atoi v1 = None then [] else v1)
         | Tag_type_float \<Rightarrow> (if me_float e v1 = None then [] else v1)
         | Tag_type_uuid \<Rightarrow> (if me_uuid_ok e v1 then v1 else [])
         | _ \<Rightarrow> v1)"

definition sanitize_all :: "meta_env \<Rightarrow> tags \<Rightarrow> tags" where
  "sanitize_all e t name =
     (case (t name, me_mappings e name) of
        (Some vs, Some c) \<Rightarrow> some_values (filter (\<lambda>v. v \<noteq> []) (map (sanitize_value e c) vs))
      | _ \<Rightarrow> None)"

definition clean_tags :: "meta_env \<Rightarrow> raw_tags \<Rightarrow> tags" where
  "clean_tags e raw =
     (let lowered = lower_tags raw; keys = me_walk e (lowered_keys raw);
          cleaned = (\<lambda>name. case me_mappings e name of
                       None \<Rightarrow> None
                     | Some c \<Rightarrow> Some (if tc_type c = Tag_type_pair
                                       then process_pair_mapping name c keys lowered
                                       else process_regular_mapping c lowered))
      in sanitize_all e (filter_empty_tags cleaned))"

section \<open>The metadata of a file\<close>

record audio_properties =
  ap_duration_ms :: int
  ap_bit_rate :: int
  ap_bit_depth :: int
  ap_sample_rate :: int
  ap_channels :: int
  ap_codec :: string

record metadata =
  md_file_path :: string
  md_mod_time :: go_time
  md_birth_time :: go_time
  md_size :: int
  md_tags :: tags
  md_audio_props :: audio_properties
  md_has_picture :: bool

definition new_metadata ::
  "meta_env \<Rightarrow> string \<Rightarrow> go_time \<times> go_time \<times> int \<Rightarrow> raw_tags \<Rightarrow> audio_properties \<Rightarrow> bool \<Rightarrow> metadata"
where
  "new_metadata e path info raw props pic =
     \<lparr>md_file_path = path, md_mod_time = fst info, md_birth_time = fst (snd info),
      md_size = snd (snd info), md_tags = clean_tags e raw, md_audio_props = props,
      md_has_picture = pic\<rparr>"

definition md_suffix :: "metadata \<Rightarrow> string" where
  "md_suffix md = to_lower (trim_prefix (path_ext (md_file_path md)) ''.'')"

definition md_strings :: "metadata \<Rightarrow> string \<Rightarrow> string list" where
  "md_strings md k = tags_values (md_tags md) k"

definition md_string :: "metadata \<Rightarrow> string \<Rightarrow> string" where
  "md_string md k = (case md_tags md k of Some (v # _) \<Rightarrow> v | _ \<Rightarrow> [])"

text \<open>\<open>strconv.Atoi\<close> with its error ignored gives the nearest \<open>int64\<close> when the number is too large.\<close>

definition atoi_or_nearest :: "string \<Rightarrow> int" where
  "atoi_or_nearest s =
     (let (neg, ds) = (case s of
          [] \<Rightarrow> (False, [])
        | c # cs \<Rightarrow> if c = CHR ''-'' then (True, cs) else if c = CHR ''+'' then (False, cs) else (False, s))
      in case parse_nat 10 ds of
           None \<Rightarrow> 0
         | Some n \<Rightarrow> if neg then max (- (2 ^ 63)) (- n) else min (2 ^ 63 - 1) n)"

text \<open>\<open>strconv.ParseBool\<close> with its error ignored.\<close>

definition md_bool :: "metadata \<Rightarrow> string \<Rightarrow> bool" where
  "md_bool md k \<longleftrightarrow> md_string md k \<in> {''1'', ''t'', ''T'', ''true'', ''TRUE'', ''True''}"

definition nullable_float :: "'a meta_env_scheme \<Rightarrow> string \<Rightarrow> rat option" where
  "nullable_float e s = (case me_float e s of Some (Finite_float v) \<Rightarrow> Some v | _ \<Rightarrow> None)"

definition md_nullable_float :: "meta_env \<Rightarrow> metadata \<Rightarrow> string \<Rightarrow> rat option" where
  "md_nullable_float e md k = nullable_float e (md_string md k)"

definition md_float :: "meta_env \<Rightarrow> metadata \<Rightarrow> string \<Rightarrow> rat" where
  "md_float e md k = (case md_nullable_float e md k of None \<Rightarrow> 0 | Some v \<Rightarrow> v)"

definition md_gain :: "meta_env \<Rightarrow> metadata \<Rightarrow> string \<Rightarrow> rat option" where
  "md_gain e md k = nullable_float e (trim_space (remove_first ''dB'' (md_string md k)))"

definition md_num_and_total :: "metadata \<Rightarrow> string \<Rightarrow> int \<times> int" where
  "md_num_and_total md k =
     (let v = md_string md k
      in if v = [] then (0, 0)
         else (case split_on (CHR ''/'') v of
                 [] \<Rightarrow> (0, 0)
               | [a] \<Rightarrow> (atoi_or_nearest a, atoi_or_nearest (md_string md (k @ ''total'')))
               | a # b # _ \<Rightarrow> (atoi_or_nearest a, atoi_or_nearest b)))"

text \<open>\<open>Length\<close>: seconds, in thousandths.\<close>

definition md_length :: "metadata \<Rightarrow> rat" where
  "md_length md = of_int (ap_duration_ms (md_audio_props md)) / 1000"

section \<open>What cleaning promises\<close>

lemma filter_values_ok:
  "set (filter_values seen vs) = set vs - seen - {[]}" "distinct (filter_values seen vs)"
  by (induction seen vs rule: filter_values.induct) auto

lemma filter_duplicated_or_empty_ok [simp]:
  "set (filter_duplicated_or_empty vs) = set vs - {[]}" "distinct (filter_duplicated_or_empty vs)"
  by (auto simp: filter_duplicated_or_empty_def filter_values_ok)

lemma year_at_take: "year_at s \<Longrightarrow> year_at (take 4 s)"
  by (cases s) (auto simp: year_at_def)

lemma find_year_Some: "find_year s = Some y \<Longrightarrow> length y = 4 \<and> all_digits y"
  by (induction s) (auto split: if_splits simp: year_at_def)

text \<open>What the date of a tag looks like: a year, a month of a year or a day.\<close>

definition is_date :: "string \<Rightarrow> bool" where
  "is_date d \<longleftrightarrow> (length d = 4 \<and> all_digits d) \<or> is_month_date d \<or> is_day_date d"

lemma parse_date_ok: "parse_date v = [] \<or> is_date (parse_date v)"
proof (cases "find_year v")
  case (Some y)
  with find_year_Some [OF this] show ?thesis
    unfolding parse_date_def is_date_def Let_def by simp
qed (simp add: parse_date_def)

lemma parse_date_length: "length (parse_date v) \<le> length v"
proof (cases "find_year v")
  case (Some y)
  with find_year_Some [OF this] show ?thesis by (simp add: parse_date_def Let_def)
qed (simp add: parse_date_def)

definition well_typed_value :: "meta_env \<Rightarrow> tag_conf \<Rightarrow> string \<Rightarrow> bool" where
  "well_typed_value e c v \<longleftrightarrow>
     (case tc_type c of
        Tag_type_date \<Rightarrow> is_date v
      | Tag_type_integer \<Rightarrow> atoi v \<noteq> None
      | Tag_type_float \<Rightarrow> me_float e v \<noteq> None
      | Tag_type_uuid \<Rightarrow> me_uuid_ok e v
      | _ \<Rightarrow> True)"

lemma sanitize_value_ok:
  assumes "sanitize_value e c v \<noteq> []"
  shows "well_typed_value e c (sanitize_value e c v)"
    "length (sanitize_value e c v) \<le> max_tag_length c"
proof -
  let ?w = "if max_tag_length c < length v then take (max_tag_length c) v else v"
  show "well_typed_value e c (sanitize_value e c v)"
    using assms parse_date_ok [of ?w]
    unfolding sanitize_value_def well_typed_value_def Let_def
    by (cases "tc_type c") (simp_all split: if_splits)
  have "length ?w \<le> max_tag_length c" by simp
  moreover have "length (sanitize_value e c v) \<le> length ?w"
    using parse_date_length [of ?w] unfolding sanitize_value_def Let_def
    by (cases "tc_type c") (simp_all del: length_take)
  ultimately show "length (sanitize_value e c v) \<le> max_tag_length c" by (rule le_trans [rotated])
qed

lemma clean_tags_ok:
  assumes "clean_tags e raw name = Some vs"
  obtains c where "me_mappings e name = Some c" "vs \<noteq> []"
    "\<And>v. v \<in> set vs \<Longrightarrow> v \<noteq> [] \<and> well_typed_value e c v \<and> length v \<le> max_tag_length c"
proof -
  from assms obtain c ws where c: "me_mappings e name = Some c" and
    vs: "vs = filter (\<lambda>v. v \<noteq> []) (map (sanitize_value e c) ws)" "vs \<noteq> []"
    by (auto simp: clean_tags_def sanitize_all_def some_values_def Let_def
        split: option.splits if_splits)
  have "v \<noteq> [] \<and> well_typed_value e c v \<and> length v \<le> max_tag_length c" if "v \<in> set vs" for v
    using that sanitize_value_ok [of e c] by (auto simp: vs)
  with c vs(2) that show thesis by blast
qed

lemma is_date_length: "is_date d \<Longrightarrow> 4 \<le> length d"
  by (auto simp: is_date_def is_month_date_def is_day_date_def)

lemma md_string_set: "md_string md k = [] \<or> (\<exists>vs. md_tags md k = Some vs \<and> md_string md k \<in> set vs)"
  by (auto simp: md_string_def split: option.splits list.splits)

lemma cleaned_tags_ok:
  assumes "md = new_metadata e path info raw props pic"
  shows "(\<forall>name vs. md_tags md name = Some vs \<longrightarrow>
      (\<exists>c. me_mappings e name = Some c \<and> vs \<noteq> [] \<and>
         (\<forall>v \<in> set vs. v \<noteq> [] \<and> well_typed_value e c v \<and> length v \<le> max_tag_length c))) \<and>
    (\<forall>name c. me_mappings e name = Some c \<and> tc_type c = Tag_type_date \<longrightarrow>
      date_year (md_string md name) \<noteq> None)"
proof (intro conjI allI impI; (elim conjE)?)
  fix name vs
  assume "md_tags md name = Some vs"
  with assms have "clean_tags e raw name = Some vs" by (simp add: new_metadata_def)
  then show "\<exists>c. me_mappings e name = Some c \<and> vs \<noteq> [] \<and>
         (\<forall>v \<in> set vs. v \<noteq> [] \<and> well_typed_value e c v \<and> length v \<le> max_tag_length c)"
    by (rule clean_tags_ok) blast
next
  fix name c
  assume c: "me_mappings e name = Some c" "tc_type c = Tag_type_date"
  show "date_year (md_string md name) \<noteq> None"
  proof (cases "md_string md name = []")
    case False
    with md_string_set [of md name] assms obtain vs where
      vs: "clean_tags e raw name = Some vs" "md_string md name \<in> set vs"
      by (auto simp: new_metadata_def)
    from clean_tags_ok [OF vs(1)] c(1) have "well_typed_value e c (md_string md name)"
      using vs(2) by (metis option.inject)
    with c(2) have "is_date (md_string md name)" by (simp add: well_typed_value_def)
    then have "4 \<le> length (md_string md name)" by (rule is_date_length)
    with False show ?thesis by (simp add: date_year_def)
  qed (simp add: date_year_def)
qed


text \<open>
  C23. The tags that are kept of a file: each is a tag of the mappings and has at least one
  value; no value is empty, longer than its maximum or of another type than its mapping says;
  so the year of a tag that is mapped as a date can always be taken (it is the year of a valid
  day or month, or four digits), where \<open>Date.Year\<close> panics on a text of one to three bytes.
\<close>

theorem cleaned_tags_typed:
  assumes "md = new_metadata e path info raw props pic"
  shows "(\<forall>name vs. md_tags md name = Some vs \<longrightarrow>
      (\<exists>c. me_mappings e name = Some c \<and> vs \<noteq> [] \<and>
         (\<forall>v \<in> set vs. v \<noteq> [] \<and> well_typed_value e c v \<and> length v \<le> max_tag_length c))) \<and>
    (\<forall>name c. me_mappings e name = Some c \<and> tc_type c = Tag_type_date \<longrightarrow>
      date_year (md_string md name) \<noteq> None)"
  using cleaned_tags_ok [OF assms] .

section \<open>Examples\<close>

definition sample_env :: meta_env where
  "sample_env =
     \<lparr>me_mappings =
        [''recordingdate'' \<mapsto> no_tag_conf\<lparr>tc_aliases := [''date''], tc_type := Tag_type_date\<rparr>,
         ''genre'' \<mapsto> no_tag_conf\<lparr>tc_aliases := [''genre''], tc_max_length := 8, tc_split_rx := Some ['';'']\<rparr>,
         ''performer'' \<mapsto> no_tag_conf\<lparr>tc_aliases := [''performer''], tc_type := Tag_type_pair\<rparr>],
      me_conf = \<lparr>mc_main = Map.empty, mc_additional = Map.empty, mc_roles = no_tag_conf, mc_artists = no_tag_conf\<rparr>,
      me_uuid_ok = (\<lambda>_. False), me_float = (\<lambda>_. None), me_walk = (\<lambda>ks. ks)\<rparr>"

definition sample_metadata :: metadata where
  "sample_metadata = new_metadata sample_env ''a.mp3'' (0, 0, 0)
     [(''DATE'', [''2001-13'', ''2001'']), (''GENRE'', [''Rock; Pop '']),
      (''performer'', [''Ann (Drums (kit) and Organ)''])]
     \<lparr>ap_duration_ms = 0, ap_bit_rate = 0, ap_bit_depth = 0, ap_sample_rate = 0, ap_channels = 0,
      ap_codec = []\<rparr> False"

lemma sample_metadata_values:
  "md_strings sample_metadata ''genre'' = [''Rock'', ''Pop'']"
  "md_strings sample_metadata ''performer'' = [new_pair ''drums (kit) and organ'' ''Ann'']"
  by code_simp+

theorem cleaned_tags_typed_witness:
  "\<exists>c. me_mappings sample_env ''recordingdate'' = Some c \<and> length ''2001'' \<le> max_tag_length c"
proof -
  have "md_tags sample_metadata ''recordingdate'' = Some [''2001'', ''2001'']" by code_simp
  with cleaned_tags_typed [OF sample_metadata_def] show ?thesis by (metis list.set_intros(1))
qed

text \<open>
  Values are compared before they are cut and their dates normalised, so equal values can be left;
  an empty value is dropped, so the values of two tags that belong together by their position
  (the artists and their MusicBrainz ids) no longer line up.
\<close>

lemma duplicates_left: "md_strings sample_metadata ''recordingdate'' = [''2001'', ''2001'']"
  by code_simp

lemma value_positions_shift:
  "filter_duplicated_or_empty ['''', ''id of the second''] = [''id of the second'']"
  by code_simp

text \<open>A cut in the middle of a character leaves bytes that are no text.\<close>

lemma cut_inside_character:
  "sanitize_value sample_env (no_tag_conf\<lparr>tc_max_length := 2\<rparr>) (CHR ''a'' # utf8_bytes [0xC3, 0xA9])
   = CHR ''a'' # utf8_bytes [0xC3]"
  by code_simp

text \<open>A date that is mapped as plain text makes \<open>Year\<close> panic.\<close>

lemma short_date_panics: "date_year ''99'' = None"
  by code_simp


end
