(* ===== verification/PersistentIds.thy ===== *)
theory PersistentIds
  imports Metadata
begin

text \<open>
  Persistent ids: \<open>model/metadata/persistent_ids.go\<close> and \<open>legacy_ids.go\<close>. The id of a track or an
  album is the hash of the first field of a specification that has a value; a field is a list of
  attributes, which are tags or values derived from the file. The specification of tracks may
  refer to the id of the album. The hash is an argument (the code passes \<open>id.NewHash\<close>).
\<close>

section \<open>What an id is made of\<close>

text \<open>The fields of a media file that are set before its ids are computed and that they read.\<close>

record file_base =
  mr_library_id :: int
  mr_path :: string
  mr_title :: string
  mr_album_artist :: string

record pid_conf =
  pid_track :: string
  pid_album :: string
  group_album_releases :: bool

type_synonym hash_fun = "string list \<Rightarrow> string"

text \<open>\<open>getAttr\<close>: \<open>album\<close> is the value of the attribute \<open>albumid\<close>.\<close>

definition get_attr :: "hash_fun \<Rightarrow> string \<Rightarrow> 'a file_base_scheme \<Rightarrow> metadata \<Rightarrow> string \<Rightarrow> string" where
  "get_attr hash album mf md attr0 =
     (let attr = trim_space (to_lower attr0)
      in if attr = ''albumid'' then album
         else if attr = ''folder'' then path_dir (mr_path mf)
         else if attr = ''albumartistid'' then hash [clear_str (to_lower (mr_album_artist mf))]
         else if attr = ''title'' then mr_title mf
         else if attr = ''album'' then clear_str (to_lower (md_string md ''album''))
         else md_string md attr)"

fun first_field :: "(string \<Rightarrow> string) \<Rightarrow> string list \<Rightarrow> string" where
  "first_field value [] = []"
| "first_field value (f # fs) =
     (let vs = map value (split_on (CHR '','') f)
      in if \<exists>v \<in> set vs. v \<noteq> [] then join [bs] vs else first_field value fs)"

definition pid_text :: "bool \<Rightarrow> 'a file_base_scheme \<Rightarrow> (string \<Rightarrow> string) \<Rightarrow> string \<Rightarrow> string" where
  "pid_text prepend_lib mf value spec =
     (if prepend_lib then itoa (mr_library_id mf) @ [bs] else []) @
     first_field value (split_on (CHR ''|'') spec)"

text \<open>
  \<open>getPID\<close> and its recursion through the attribute \<open>albumid\<close>, which the specification of albums
  itself may not use.
\<close>

function get_pid ::
  "hash_fun \<Rightarrow> string \<Rightarrow> 'a file_base_scheme \<Rightarrow> metadata \<Rightarrow> string \<Rightarrow> bool \<Rightarrow> string"
where
  "get_pid hash album_spec mf md spec prepend_lib =
     (let album = (if spec = album_spec then [] else get_pid hash album_spec mf md album_spec prepend_lib)
      in hash [pid_text prepend_lib mf (get_attr hash album mf md) spec])"
  by pat_completeness auto
termination
  by (relation "measure (\<lambda>(hash, album_spec, mf, md, spec, prepend_lib).
        if spec = album_spec then 0 else 1)") auto

declare get_pid.simps [simp del]

section \<open>Legacy ids\<close>

definition map_dates :: "metadata \<Rightarrow> string \<times> string \<times> string" where
  "map_dates md =
     (let date = md_string md ''recordingdate''; original = md_string md ''originaldate'';
          release = md_string md ''releasedate''
      in if original \<noteq> [] \<and> release = [] \<and> original \<le> date then (original, original, date)
         else (if date \<noteq> [] then date else if original \<noteq> [] then original else release,
               original, release))"

definition hex_bytes :: "nat list \<Rightarrow> string" where
  "hex_bytes b = concat (map (\<lambda>n. [digit_char (n div 16), digit_char (n mod 16)]) b)"

definition unknown_artist :: string where "unknown_artist = ''[Unknown Artist]''"
definition unknown_album :: string where "unknown_album = ''[Unknown Album]''"
definition various_artists :: string where "various_artists = ''Various Artists''"

definition default_library_id :: int where "default_library_id = 1"

definition legacy_track_id :: "(string \<Rightarrow> nat list) \<Rightarrow> 'a file_base_scheme \<Rightarrow> bool \<Rightarrow> string" where
  "legacy_track_id md5 mf prepend_lib =
     hex_bytes (md5 (if prepend_lib \<and> mr_library_id mf \<noteq> default_library_id
                     then itoa (mr_library_id mf) @ [bs] @ mr_path mf else mr_path mf))"

definition legacy_album_artist_name :: "metadata \<Rightarrow> string" where
  "legacy_album_artist_name md =
     (if md_string md ''albumartist'' \<noteq> [] then md_string md ''albumartist''
      else if md_bool md ''compilation'' then various_artists
      else if md_string md ''artist'' \<noteq> [] then md_string md ''artist''
      else unknown_artist)"

definition legacy_album_name :: "metadata \<Rightarrow> string" where
  "legacy_album_name md = (if md_string md ''album'' \<noteq> [] then md_string md ''album'' else unknown_album)"

definition legacy_album_id ::
  "(string \<Rightarrow> nat list) \<Rightarrow> pid_conf \<Rightarrow> 'a file_base_scheme \<Rightarrow> metadata \<Rightarrow> bool \<Rightarrow> string"
where
  "legacy_album_id md5 c mf md prepend_lib =
     (let release = snd (snd (map_dates md));
          p1 = to_lower (legacy_album_artist_name md @ [bs] @ legacy_album_name md);
          p2 = (if \<not> group_album_releases c \<and> release \<noteq> [] then p1 @ [bs] @ release else p1);
          p3 = (if prepend_lib \<and> mr_library_id mf \<noteq> default_library_id
                then itoa (mr_library_id mf) @ [bs] @ p2 else p2)
      in hex_bytes (md5 p3))"

section \<open>The ids of tracks, albums and artists\<close>

text \<open>The function that \<open>createGetPID\<close> returns: the two legacy names stand only at the top.\<close>

definition pid_of_spec ::
  "(string \<Rightarrow> nat list) \<Rightarrow> pid_conf \<Rightarrow> 'a file_base_scheme \<Rightarrow> metadata \<Rightarrow> string \<Rightarrow> bool \<Rightarrow> string"
where
  "pid_of_spec md5 c mf md spec prepend_lib =
     (if spec = ''track_legacy'' then legacy_track_id md5 mf prepend_lib
      else if spec = ''album_legacy'' then legacy_album_id md5 c mf md prepend_lib
      else get_pid (new_hash md5) (pid_album c) mf md spec prepend_lib)"

definition track_pid ::
  "(string \<Rightarrow> nat list) \<Rightarrow> pid_conf \<Rightarrow> 'a file_base_scheme \<Rightarrow> metadata \<Rightarrow> string" where
  "track_pid md5 c mf md = pid_of_spec md5 c mf md (pid_track c) True"

definition album_pid ::
  "(string \<Rightarrow> nat list) \<Rightarrow> pid_conf \<Rightarrow> 'a file_base_scheme \<Rightarrow> metadata \<Rightarrow> string \<Rightarrow> string" where
  "album_pid md5 c mf md spec = pid_of_spec md5 c mf md spec True"

definition artist_pid :: "(string \<Rightarrow> nat list) \<Rightarrow> pid_conf \<Rightarrow> metadata \<Rightarrow> string \<Rightarrow> string" where
  "artist_pid md5 c md name =
     pid_of_spec md5 c \<lparr>mr_library_id = 0, mr_path = [], mr_title = [], mr_album_artist = name\<rparr> md
       ''albumartistid'' False"

definition map_track_title :: "metadata \<Rightarrow> string" where
  "map_track_title md =
     (if md_string md ''title'' \<noteq> [] then md_string md ''title'' else base_name (md_file_path md))"

definition map_album_name :: "metadata \<Rightarrow> string" where
  "map_album_name md = (if md_string md ''album'' \<noteq> [] then md_string md ''album'' else unknown_album)"

definition default_track_pid :: string where
  "default_track_pid = ''musicbrainz_trackid|albumid,discnumber,tracknumber,title''"

definition default_album_pid :: string where
  "default_album_pid = ''musicbrainz_albumid|albumartistid,album,albumversion,releasedate''"

section \<open>Which files share an id\<close>

lemma itoa_no_backslash: "bs \<notin> set (itoa n)"
proof -
  have "\<forall>d \<in> set [0..<10]. digit_char d \<noteq> bs" by code_simp
  then have "bs \<notin> set (show_base 10 k)" for k using show_base_set [of 10 k] by force
  then show ?thesis by (simp add: itoa_def show_int_def) (simp add: bs_def)
qed

lemma itoa_inject: "in_int64 m \<Longrightarrow> in_int64 n \<Longrightarrow> itoa m = itoa n \<longleftrightarrow> m = n"
  by (metis atoi_itoa option.inject)

lemma before_backslash:
  assumes "bs \<notin> set a" "bs \<notin> set b"
  shows "a @ bs # x = b @ bs # y \<longleftrightarrow> a = b \<and> x = y"
  by (metis Pair_inject assms option.inject split_first_absent)

lemma new_hash_no_backslash: "md5_bytes md5 \<Longrightarrow> bs \<notin> set (new_hash md5 ps)"
proof -
  assume "md5_bytes md5"
  moreover have "\<forall>d \<in> set [0..<62]. digit62 d \<noteq> bs" by code_simp
  ultimately show ?thesis using hash_shape(2) [of md5 ps] by force
qed

lemma new_hash_neq_Nil: "md5_bytes md5 \<Longrightarrow> new_hash md5 ps \<noteq> []"
  using hash_shape(1) [of md5 ps] by auto

text \<open>Attribute names of the default specification, as they are compared.\<close>

lemma default_attrs:
  "split_on (CHR ''|'') default_track_pid = [''musicbrainz_trackid'', ''albumid,discnumber,tracknumber,title'']"
  "split_on (CHR '','') ''musicbrainz_trackid'' = [''musicbrainz_trackid'']"
  "split_on (CHR '','') ''albumid,discnumber,tracknumber,title''
     = [''albumid'', ''discnumber'', ''tracknumber'', ''title'']"
  by code_simp+

lemma default_attr_values:
  "get_attr hash album mf md ''musicbrainz_trackid'' = md_string md ''musicbrainz_trackid''"
  "get_attr hash album mf md ''albumid'' = album"
  "get_attr hash album mf md ''discnumber'' = md_string md ''discnumber''"
  "get_attr hash album mf md ''tracknumber'' = md_string md ''tracknumber''"
  "get_attr hash album mf md ''title'' = mr_title mf"
proof -
  have "trim_space (to_lower ''musicbrainz_trackid'') = ''musicbrainz_trackid''"
    "trim_space (to_lower ''albumid'') = ''albumid''"
    "trim_space (to_lower ''discnumber'') = ''discnumber''"
    "trim_space (to_lower ''tracknumber'') = ''tracknumber''"
    "trim_space (to_lower ''title'') = ''title''" by code_simp+
  then show
    "get_attr hash album mf md ''musicbrainz_trackid'' = md_string md ''musicbrainz_trackid''"
    "get_attr hash album mf md ''albumid'' = album"
    "get_attr hash album mf md ''discnumber'' = md_string md ''discnumber''"
    "get_attr hash album mf md ''tracknumber'' = md_string md ''tracknumber''"
    "get_attr hash album mf md ''title'' = mr_title mf"
    by (simp_all add: get_attr_def)
qed

lemma get_pid_no_backslash:
  "md5_bytes md5 \<Longrightarrow> bs \<notin> set (get_pid (new_hash md5) album_spec mf md spec prepend_lib)"
  by (subst get_pid.simps) (simp add: Let_def new_hash_no_backslash)

lemma default_track_not_legacy:
  "default_track_pid \<noteq> ''track_legacy''" "default_track_pid \<noteq> ''album_legacy''"
  by code_simp+

text \<open>What identifies a track: its MusicBrainz id, or its album, two tags for numbers, and its title.\<close>

datatype track_key = Track_mbid string | Track_in_album string string string string

definition track_key_of ::
  "(string \<Rightarrow> nat list) \<Rightarrow> string \<Rightarrow> 'a file_base_scheme \<Rightarrow> metadata \<Rightarrow> track_key" where
  "track_key_of md5 album_spec mf md =
     (if md_string md ''musicbrainz_trackid'' \<noteq> [] then Track_mbid (md_string md ''musicbrainz_trackid'')
      else Track_in_album (get_pid (new_hash md5) album_spec mf md album_spec True)
             (md_string md ''discnumber'') (md_string md ''tracknumber'') (mr_title mf))"

fun key_text :: "track_key \<Rightarrow> string" where
  "key_text (Track_mbid m) = m"
| "key_text (Track_in_album a d n t) = a @ bs # d @ bs # n @ bs # t"

definition track_text ::
  "(string \<Rightarrow> nat list) \<Rightarrow> string \<Rightarrow> 'a file_base_scheme \<Rightarrow> metadata \<Rightarrow> string" where
  "track_text md5 album_spec mf md =
     itoa (mr_library_id mf) @ bs # key_text (track_key_of md5 album_spec mf md)"

text \<open>Only the title may have the separator of the parts.\<close>

definition parts_separable :: "metadata \<Rightarrow> bool" where
  "parts_separable md \<longleftrightarrow>
     (\<forall>t \<in> {''musicbrainz_trackid'', ''discnumber'', ''tracknumber''}. bs \<notin> set (md_string md t))"

lemma default_track_text:
  assumes "md5_bytes md5" "default_track_pid \<noteq> album_spec"
  shows "get_pid (new_hash md5) album_spec mf md default_track_pid True
         = new_hash md5 [track_text md5 album_spec mf md]"
proof -
  let ?a = "get_pid (new_hash md5) album_spec mf md album_spec True"
  have "?a \<noteq> []" by (subst get_pid.simps) (simp add: Let_def new_hash_neq_Nil [OF assms(1)])
  then show ?thesis
    using assms(2) by (subst get_pid.simps)
      (simp add: pid_text_def default_attrs default_attr_values track_text_def track_key_of_def Let_def)
qed

lemma key_text_inject:
  assumes "\<And>m. k = Track_mbid m \<or> k' = Track_mbid m \<Longrightarrow> bs \<notin> set m"
    and "\<And>a d n t. k = Track_in_album a d n t \<or> k' = Track_in_album a d n t \<Longrightarrow>
      bs \<notin> set a \<and> bs \<notin> set d \<and> bs \<notin> set n"
  shows "key_text k = key_text k' \<longleftrightarrow> k = k'"
proof (cases k; cases k')
  fix m a d n t assume "k = Track_mbid m" "k' = Track_in_album a d n t"
  with assms(1) [of m] show ?thesis by (auto simp: in_set_conv_decomp)
next
  fix m a d n t assume "k = Track_in_album a d n t" "k' = Track_mbid m"
  with assms(1) [of m] show ?thesis by (auto simp: in_set_conv_decomp)
next
  fix a d n t b e l u assume k: "k = Track_in_album a d n t" "k' = Track_in_album b e l u"
  with assms(2) have "bs \<notin> set a" "bs \<notin> set b" "bs \<notin> set d" "bs \<notin> set e" "bs \<notin> set n" "bs \<notin> set l" by blast+
  with k show ?thesis by (simp add: before_backslash)
qed auto

text \<open>
  C21. Under the default specification the id of a track is that of its library with its MusicBrainz
  track id or, if it has none, its album id, its tags \<open>discnumber\<close> and \<open>tracknumber\<close> and its title:
  two files have the same id exactly when they agree in these (as far as the MD5 sums of the two
  texts differ when the texts do, and no tag but the title has a backslash). Libraries never share
  an id.
\<close>

theorem default_track_ids:
  assumes "md5_bytes md5" "pid_track c = default_track_pid" "pid_album c \<noteq> default_track_pid"
    and "parts_separable md" "parts_separable md'"
    and "in_int64 (mr_library_id mf)" "in_int64 (mr_library_id mf')"
    and "inj_on (\<lambda>t. md5 (hashed_text [t]))
           {track_text md5 (pid_album c) mf md, track_text md5 (pid_album c) mf' md'}"
  shows "track_pid md5 c mf md = track_pid md5 c mf' md' \<longleftrightarrow>
    mr_library_id mf = mr_library_id mf' \<and>
    track_key_of md5 (pid_album c) mf md = track_key_of md5 (pid_album c) mf' md'"
proof -
  let ?t = "track_text md5 (pid_album c) mf md" and ?t' = "track_text md5 (pid_album c) mf' md'"
  have pid: "track_pid md5 c mf md = new_hash md5 [?t]" "track_pid md5 c mf' md' = new_hash md5 [?t']"
    using default_track_text [OF assms(1) assms(3) [symmetric]] assms(2)
    by (simp_all add: track_pid_def pid_of_spec_def default_track_not_legacy)
  have "track_pid md5 c mf md = track_pid md5 c mf' md' \<longleftrightarrow> ?t = ?t'"
    unfolding pid hash_inject [OF assms(1)] by (rule inj_on_eq_iff [OF assms(8)]) blast+
  also have "\<dots> \<longleftrightarrow> itoa (mr_library_id mf) = itoa (mr_library_id mf') \<and>
      key_text (track_key_of md5 (pid_album c) mf md) = key_text (track_key_of md5 (pid_album c) mf' md')"
    unfolding track_text_def by (rule before_backslash [OF itoa_no_backslash itoa_no_backslash])
  also have "itoa (mr_library_id mf) = itoa (mr_library_id mf') \<longleftrightarrow> mr_library_id mf = mr_library_id mf'"
    by (rule itoa_inject [OF assms(6,7)])
  also have "key_text (track_key_of md5 (pid_album c) mf md) = key_text (track_key_of md5 (pid_album c) mf' md')
      \<longleftrightarrow> track_key_of md5 (pid_album c) mf md = track_key_of md5 (pid_album c) mf' md'"
    by (rule key_text_inject)
      (use assms(4,5) in \<open>auto simp: track_key_of_def parts_separable_def get_pid_no_backslash [OF assms(1)] split: if_splits\<close>)
  finally show ?thesis .
qed


section \<open>Two discs\<close>

definition disc_metadata :: "string \<Rightarrow> metadata" where
  "disc_metadata disc =
     \<lparr>md_file_path = ''x.mp3'', md_mod_time = 0, md_birth_time = 0, md_size = 0,
      md_tags = [''title'' \<mapsto> [''Intro''], ''album'' \<mapsto> [''Live''], ''disc'' \<mapsto> [disc], ''track'' \<mapsto> [''1'']],
      md_audio_props = \<lparr>ap_duration_ms = 0, ap_bit_rate = 0, ap_bit_depth = 0, ap_sample_rate = 0,
        ap_channels = 0, ap_codec = []\<rparr>, md_has_picture = False\<rparr>"

definition disc_file :: "int \<Rightarrow> file_base" where
  "disc_file lib = \<lparr>mr_library_id = lib, mr_path = ''x.mp3'', mr_title = ''Intro'', mr_album_artist = ''Ann''\<rparr>"

definition default_pids :: pid_conf where
  "default_pids = \<lparr>pid_track = default_track_pid, pid_album = default_album_pid, group_album_releases = False\<rparr>"

lemma default_specs_differ: "default_album_pid \<noteq> default_track_pid"
  by code_simp

text \<open>
  The default mappings name the two tags \<open>disc\<close> and \<open>track\<close>: a file has none called \<open>discnumber\<close> or
  \<open>tracknumber\<close>, and the two parts of its text are empty.
\<close>

lemma md_string_disc:
  "md_string (disc_metadata d) ''musicbrainz_trackid'' = []"
  "md_string (disc_metadata d) ''discnumber'' = []" "md_string (disc_metadata d) ''tracknumber'' = []"
  by (simp_all add: md_string_def disc_metadata_def)

text \<open>The first tracks of two discs, which only differ in the number of the disc, share an id.\<close>

lemma discs_share_id:
  assumes "md5_bytes md5"
  shows "track_pid md5 default_pids (disc_file 1) (disc_metadata ''1'')
       = track_pid md5 default_pids (disc_file 1) (disc_metadata ''2'')"
proof -
  have a: "get_attr (new_hash md5) [] (disc_file 1) (disc_metadata ''1'') t
         = get_attr (new_hash md5) [] (disc_file 1) (disc_metadata ''2'') t" if "trim_space (to_lower t) \<noteq> ''disc''" for t
    using that by (simp add: get_attr_def Let_def md_string_def disc_metadata_def)
  have "\<forall>f \<in> set (split_on (CHR ''|'') default_album_pid). \<forall>t \<in> set (split_on (CHR '','') f).
      trim_space (to_lower t) \<noteq> ''disc''" by code_simp
  then have "first_field (get_attr (new_hash md5) [] (disc_file 1) (disc_metadata ''1'')) fs
      = first_field (get_attr (new_hash md5) [] (disc_file 1) (disc_metadata ''2'')) fs"
    if "set fs \<subseteq> set (split_on (CHR ''|'') default_album_pid)" for fs
    using that
  proof (induction fs)
    case (Cons f fs)
    then have m: "map (get_attr (new_hash md5) [] (disc_file 1) (disc_metadata ''1'')) (split_on (CHR '','') f)
       = map (get_attr (new_hash md5) [] (disc_file 1) (disc_metadata ''2'')) (split_on (CHR '','') f)"
      by (intro map_cong refl a) auto
    from Cons have IH: "first_field (get_attr (new_hash md5) [] (disc_file 1) (disc_metadata ''1'')) fs
      = first_field (get_attr (new_hash md5) [] (disc_file 1) (disc_metadata ''2'')) fs" by simp
    show ?case unfolding first_field.simps m IH by (rule refl)
  qed simp
  then have "get_pid (new_hash md5) default_album_pid (disc_file 1) (disc_metadata ''1'') default_album_pid True
      = get_pid (new_hash md5) default_album_pid (disc_file 1) (disc_metadata ''2'') default_album_pid True"
    by (subst (1 2) get_pid.simps) (simp add: pid_text_def Let_def)
  then have "track_text md5 default_album_pid (disc_file 1) (disc_metadata ''1'')
      = track_text md5 default_album_pid (disc_file 1) (disc_metadata ''2'')"
    by (simp add: track_text_def track_key_of_def md_string_disc)
  then show ?thesis
    using default_track_text [OF assms default_specs_differ [symmetric], of "disc_file 1"]
    by (simp add: track_pid_def pid_of_spec_def default_pids_def default_track_not_legacy)
qed

theorem default_track_ids_witness:
  "track_pid sample_md5 default_pids (disc_file 1) (disc_metadata ''1'')
   \<noteq> track_pid sample_md5 default_pids (disc_file 2) (disc_metadata ''1'')"
proof -
  have "take 16 (map of_char (CHR ''1'' # xs) @ replicate 16 (0 :: nat))
      \<noteq> take 16 (map of_char (CHR ''2'' # ys) @ replicate 16 0)" for xs ys by simp
  then have "sample_md5 (hashed_text [itoa 1 @ xs]) \<noteq> sample_md5 (hashed_text [itoa 2 @ ys])" for xs ys
    by (simp add: sample_md5_def hashed_text_def itoa_def show_int_def show_base.simps digit_char_def)
  then have "inj_on (\<lambda>t. sample_md5 (hashed_text [t]))
     {track_text sample_md5 (pid_album default_pids) (disc_file 1) (disc_metadata ''1''),
      track_text sample_md5 (pid_album default_pids) (disc_file 2) (disc_metadata ''1'')}"
    by (auto simp: inj_on_def track_text_def disc_file_def dest: sym)
  then show ?thesis
    using default_track_ids [of sample_md5 default_pids "disc_metadata ''1''" "disc_metadata ''1''"
        "disc_file 1" "disc_file 2"] sample_md5_bytes default_specs_differ md_string_disc
    by (simp add: default_pids_def in_int64_def disc_file_def parts_separable_def)
qed

text \<open>
  Within the specification of tracks the name \<open>album_legacy\<close> is taken for a tag: the part of the
  album is the same for all albums of a library.
\<close>

lemma legacy_album_lost:
  assumes "md_tags md ''album_legacy'' = None"
  shows "get_pid hash ''album_legacy'' mf md ''album_legacy'' True = hash [itoa (mr_library_id mf) @ [bs]]"
proof -
  have "split_on (CHR ''|'') ''album_legacy'' = [''album_legacy'']"
    "split_on (CHR '','') ''album_legacy'' = [''album_legacy'']"
    "trim_space (to_lower ''album_legacy'') = ''album_legacy''" by code_simp+
  with assms show ?thesis
    by (subst get_pid.simps) (simp add: pid_text_def get_attr_def md_string_def Let_def)
qed


end
