(* ===== verification/Participants.thy ===== *)
theory Participants
  imports Tags Slices
begin

text \<open>
  The people of a track or an album and their roles: \<open>model/participants.go\<close>. A \<open>Participants\<close>
  map is a partial function from roles to lists; a walk over it takes the roles in any order,
  which is an argument. Of an artist only the fields are here that the mapping of tags fills.
\<close>

section \<open>Roles\<close>

datatype role =
    Role_invalid | Role_artist | Role_album_artist | Role_composer | Role_conductor
  | Role_lyricist | Role_arranger | Role_producer | Role_director | Role_engineer | Role_mixer
  | Role_remixer | Role_dj_mixer | Role_performer | Role_main_credit

fun role_name :: "role \<Rightarrow> string" where
  "role_name Role_invalid = ''invalid''"
| "role_name Role_artist = ''artist''"
| "role_name Role_album_artist = ''albumartist''"
| "role_name Role_composer = ''composer''"
| "role_name Role_conductor = ''conductor''"
| "role_name Role_lyricist = ''lyricist''"
| "role_name Role_arranger = ''arranger''"
| "role_name Role_producer = ''producer''"
| "role_name Role_director = ''director''"
| "role_name Role_engineer = ''engineer''"
| "role_name Role_mixer = ''mixer''"
| "role_name Role_remixer = ''remixer''"
| "role_name Role_dj_mixer = ''djmixer''"
| "role_name Role_performer = ''performer''"
| "role_name Role_main_credit = ''maincredit''"

definition all_roles :: "role list" where
  "all_roles = [Role_artist, Role_album_artist, Role_composer, Role_conductor, Role_lyricist,
     Role_arranger, Role_producer, Role_director, Role_engineer, Role_mixer, Role_remixer,
     Role_dj_mixer, Role_performer, Role_main_credit]"

definition role_from_string :: "string \<Rightarrow> role" where
  "role_from_string s =
     (case map_of (map (\<lambda>r. (role_name r, r)) all_roles) s of None \<Rightarrow> Role_invalid | Some r \<Rightarrow> r)"

text \<open>\<open>UnmarshalText\<close>: \<open>None\<close> is the error.\<close>

definition unmarshal_role :: "string \<Rightarrow> role option" where
  "unmarshal_role s = (let r = role_from_string s in if r = Role_invalid then None else Some r)"

lemma role_round_trip: "r \<noteq> Role_invalid \<Longrightarrow> unmarshal_role (role_name r) = Some r"
  by (cases r) (simp_all add: unmarshal_role_def role_from_string_def all_roles_def)

section \<open>Participants\<close>

record model_artist =
  ar_id :: string
  ar_name :: string
  ar_sort_name :: string
  ar_order_name :: string
  ar_mbid :: string

definition no_artist :: model_artist where
  "no_artist = \<lparr>ar_id = [], ar_name = [], ar_sort_name = [], ar_order_name = [], ar_mbid = []\<rparr>"

record participant =
  pa_artist :: model_artist
  pa_sub_role :: string

type_synonym participants = "role \<rightharpoonup> participant list"

definition role_list :: "participants \<Rightarrow> role \<Rightarrow> participant list" where
  "role_list p r = (case p r of None \<Rightarrow> [] | Some l \<Rightarrow> l)"

definition part_key :: "participant \<Rightarrow> string" where
  "part_key a = ar_id (pa_artist a) @ pa_sub_role a"

text \<open>The loop of \<open>add\<close>, with the keys seen so far.\<close>

fun add_unseen :: "string set \<Rightarrow> participant list \<Rightarrow> participant list" where
  "add_unseen seen [] = []"
| "add_unseen seen (a # l) =
     (if part_key a \<in> seen then add_unseen seen l
      else a # add_unseen (insert (part_key a) seen) l)"

definition add_participants :: "role \<Rightarrow> participant list \<Rightarrow> participants \<Rightarrow> participants" where
  "add_participants r l p =
     (let new = add_unseen (part_key ` set (role_list p r)) l
      in if new = [] then p else p(r \<mapsto> role_list p r @ new))"

definition participants_add :: "role \<Rightarrow> model_artist list \<Rightarrow> participants \<Rightarrow> participants" where
  "participants_add r artists p =
     add_participants r (map (\<lambda>a. \<lparr>pa_artist = a, pa_sub_role = []\<rparr>) artists) p"

definition add_with_sub_role ::
  "role \<Rightarrow> string \<Rightarrow> model_artist list \<Rightarrow> participants \<Rightarrow> participants" where
  "add_with_sub_role r sub artists p =
     add_participants r (map (\<lambda>a. \<lparr>pa_artist = a, pa_sub_role = sub\<rparr>) artists) p"

definition first_artist :: "participants \<Rightarrow> role \<Rightarrow> model_artist" where
  "first_artist p r = (case role_list p r of [] \<Rightarrow> no_artist | a # _ \<Rightarrow> pa_artist a)"

definition participants_merge :: "role list \<Rightarrow> participants \<Rightarrow> participants \<Rightarrow> participants" where
  "participants_merge rs other p = fold (\<lambda>r. add_participants r (role_list other r)) rs p"

text \<open>\<open>slices.CompactFunc\<close>: of equal neighbours the first stays.\<close>

fun compact_by :: "('a \<Rightarrow> 'b) \<Rightarrow> 'a list \<Rightarrow> 'a list" where
  "compact_by f [] = []"
| "compact_by f [x] = [x]"
| "compact_by f (x # y # zs) =
     (if f x = f y then compact_by f (x # zs) else x # compact_by f (y # zs))"

definition all_artists :: "role list \<Rightarrow> participants \<Rightarrow> model_artist list" where
  "all_artists rs p =
     compact_by ar_id (sort_key ar_id (concat (map (\<lambda>r. map pa_artist (role_list p r)) rs)))"

definition all_artist_ids :: "role list \<Rightarrow> participants \<Rightarrow> string list" where
  "all_artist_ids rs p = map ar_id (all_artists rs p)"

definition all_artist_names :: "role list \<Rightarrow> participants \<Rightarrow> string list" where
  "all_artist_names rs p =
     slice_unique (concat (map (\<lambda>r. concat (map (\<lambda>a.
        ar_name (pa_artist a) # (if ar_sort_name (pa_artist a) \<noteq> [] then [ar_sort_name (pa_artist a)] else []))
        (role_list p r))) rs))"

definition participants_hash :: "(string \<Rightarrow> nat list) \<Rightarrow> role list \<Rightarrow> participants \<Rightarrow> nat list" where
  "participants_hash md5 rs p =
     md5 (join ''|'' (sort (map (\<lambda>r. role_name r @ '':'' @
       join ''/'' (sort (map (\<lambda>a. pa_sub_role a @ '':'' @ ar_id (pa_artist a)) (role_list p r)))) rs)))"

text \<open>\<open>ParticipantList.Join\<close>.\<close>

definition participants_join :: "string \<Rightarrow> participant list \<Rightarrow> string" where
  "participants_join sep l =
     join sep (map (\<lambda>a. if pa_sub_role a \<noteq> [] then ar_name (pa_artist a) @ '' ('' @ pa_sub_role a @ '')''
                        else ar_name (pa_artist a)) l)"

section \<open>What the operations keep\<close>

lemma role_list_upd [simp]: "role_list (p(r \<mapsto> l)) r = l" "r \<noteq> q \<Longrightarrow> role_list (p(r \<mapsto> l)) q = role_list p q"
  by (simp_all add: role_list_def)

lemma add_unseen_ok:
  "distinct (map part_key (add_unseen seen l))"
  "part_key ` set (add_unseen seen l) = part_key ` set l - seen"
  "set (add_unseen seen l) \<subseteq> set l"
  by (induction seen l rule: add_unseen.induct) auto

definition keys_distinct :: "participants \<Rightarrow> bool" where
  "keys_distinct p \<longleftrightarrow> (\<forall>r. distinct (map part_key (role_list p r)))"

lemma role_list_add:
  "role_list (add_participants r l p) q =
     (if q = r then role_list p r @ add_unseen (part_key ` set (role_list p r)) l else role_list p q)"
  by (auto simp: add_participants_def Let_def)

lemma keys_distinct_empty: "keys_distinct Map.empty"
  by (simp add: keys_distinct_def role_list_def)

lemma keys_distinct_add: "keys_distinct p \<Longrightarrow> keys_distinct (add_participants r l p)"
  using add_unseen_ok(1,2) [of "part_key ` set (role_list p r)" l]
  by (auto simp: keys_distinct_def role_list_add)

lemma keys_distinct_merge: "keys_distinct p \<Longrightarrow> keys_distinct (participants_merge rs other p)"
  unfolding participants_merge_def by (induction rs arbitrary: p) (simp_all add: keys_distinct_add)

lemma role_keys_add:
  "part_key ` set (role_list (add_participants r l p) q) =
     part_key ` set (role_list p q) \<union> (if q = r then part_key ` set l else {})"
  using add_unseen_ok(2) [of "part_key ` set (role_list p r)" l] by (auto simp: role_list_add)

text \<open>Merging is the union of the keys of every role, whatever the order of the roles.\<close>

lemma role_keys_merge:
  "part_key ` set (role_list (participants_merge rs other p) q) =
     part_key ` set (role_list p q) \<union> (if q \<in> set rs then part_key ` set (role_list other q) else {})"
  unfolding participants_merge_def by (induction rs arbitrary: p) (auto simp: role_keys_add)

lemma compact_by_hd: "xs \<noteq> [] \<Longrightarrow> compact_by f xs \<noteq> [] \<and> hd (compact_by f xs) = hd xs"
  by (induction f xs rule: compact_by.induct) auto

lemma compact_by_image: "f ` set (compact_by f xs) = f ` set xs"
  by (induction f xs rule: compact_by.induct) auto

lemma compact_by_strict:
  fixes f :: "'a \<Rightarrow> 'b :: linorder"
  shows "sorted (map f xs) \<Longrightarrow> sorted_wrt (<) (map f (compact_by f xs))"
proof (induction f xs rule: compact_by.induct)
  case (3 f x y zs)
  show ?case
  proof (cases "f x = f y")
    case False
    have "f x < f z" if "z \<in> set (compact_by f (y # zs))" for z
    proof -
      from that have "f z \<in> f ` set (y # zs)" using compact_by_image [of f "y # zs"] by blast
      with 3(3) False show ?thesis by auto
    qed
    with 3 False show ?thesis by auto
  qed (use 3 in auto)
qed auto

text \<open>The ids of all artists are listed once each, in their order.\<close>

lemma all_artist_ids_ok:
  "sorted_wrt (<) (all_artist_ids rs p)"
  "set (all_artist_ids rs p) = {ar_id (pa_artist a) | a r. r \<in> set rs \<and> a \<in> set (role_list p r)}"
proof -
  let ?l = "concat (map (\<lambda>r. map pa_artist (role_list p r)) rs)"
  show "sorted_wrt (<) (all_artist_ids rs p)"
    unfolding all_artist_ids_def all_artists_def by (rule compact_by_strict) simp
  show "set (all_artist_ids rs p) = {ar_id (pa_artist a) | a r. r \<in> set rs \<and> a \<in> set (role_list p r)}"
    using compact_by_image [of ar_id "sort_key ar_id ?l"]
    by (auto simp: all_artist_ids_def all_artists_def)
qed

end
