(* ===== verification/Lyrics.thy ===== *)
theory Lyrics
  imports Agents Metadata "HOL-Library.Multiset"
begin

text \<open>
  Lyrics: \<open>model/lyrics.go\<close> reads plain and time-stamped (LRC) texts, \<open>core/lyrics\<close> asks the
  configured sources in turn, which is an interpretation of \<open>first_answer\<close>. The sanitising of
  HTML (a third-party policy), the unmarshalling of stored lyrics and the sort of lines, which is
  not stable, are arguments. Regular expressions are written out as recursive matchers that try
  the alternatives in the order of Go's leftmost-first semantics.
\<close>

section \<open>Time stamps\<close>

text \<open>
  The expression \<open>\[([0-9]{1,2}:)?([0-9]{1,2}):([0-9]{1,2})(.[0-9]{1,3})?\]\<close> after its bracket.
  The dot is not escaped: it matches any character but a newline, which may take several bytes;
  a malformed byte is a character of its own.
\<close>

definition rune_length :: "string \<Rightarrow> nat" where
  "rune_length s = max 1 (utf8_width s)"

text \<open>The group of milliseconds with its first character, if it is there, and the rest.\<close>

definition match_millis :: "string \<Rightarrow> (string option \<times> string) option" where
  "match_millis s =
     (case s of
        [] \<Rightarrow> None
      | c # cs \<Rightarrow>
          (let r = drop (rune_length s) s; ds = takeWhile is_digit r; r2 = drop (length ds) r
           in if c \<noteq> nl \<and> 1 \<le> length ds \<and> length ds \<le> 3 \<and> r2 \<noteq> [] \<and> hd r2 = CHR '']''
              then Some (Some (take (rune_length s) s @ ds), tl r2)
              else if c = CHR '']'' then Some (None, cs) else None))"

text \<open>Seconds have one or two digits, two when what follows allows it.\<close>

definition match_seconds :: "string \<Rightarrow> (string \<times> string option \<times> string) option" where
  "match_seconds s =
     (let one = (case s of
            a # r \<Rightarrow> if is_digit a then map_option (\<lambda>(m, rest). ([a], m, rest)) (match_millis r) else None
          | [] \<Rightarrow> None)
      in case s of
           a # b # r \<Rightarrow>
             if is_digit a \<and> is_digit b
             then (case match_millis r of Some (m, rest) \<Rightarrow> Some ([a, b], m, rest) | None \<Rightarrow> one)
             else one
         | _ \<Rightarrow> one)"

text \<open>One or two digits and a colon.\<close>

definition match_colon :: "string \<Rightarrow> (string \<times> string) option" where
  "match_colon s =
     (let ds = takeWhile is_digit s; r = drop (length ds) s
      in if 1 \<le> length ds \<and> length ds \<le> 2 \<and> r \<noteq> [] \<and> hd r = CHR '':'' then Some (ds, tl r) else None)"

record time_match =
  tm_hours :: "string option"
  tm_minutes :: string
  tm_seconds :: string
  tm_millis :: "string option"

definition match_time :: "string \<Rightarrow> (time_match \<times> string) option" where
  "match_time s =
     (case match_colon s of
        None \<Rightarrow> None
      | Some (d1, r1) \<Rightarrow>
          (let without = map_option (\<lambda>(sec, ms, rest).
                 (\<lparr>tm_hours = None, tm_minutes = d1, tm_seconds = sec, tm_millis = ms\<rparr>, rest))
                 (match_seconds r1)
           in case match_colon r1 of
                None \<Rightarrow> without
              | Some (d2, r2) \<Rightarrow>
                  (case match_seconds r2 of
                     Some (sec, ms, rest) \<Rightarrow>
                       Some (\<lparr>tm_hours = Some d1, tm_minutes = d2, tm_seconds = sec, tm_millis = ms\<rparr>, rest)
                   | None \<Rightarrow> without)))"

lemma match_millis_rest: "match_millis s = Some (m, rest) \<Longrightarrow> length rest < length s"
  by (auto simp: match_millis_def Let_def split: list.splits if_splits)

lemma match_seconds_rest: "match_seconds s = Some (sec, m, rest) \<Longrightarrow> length rest < length s"
  by (auto simp: match_seconds_def Let_def dest!: match_millis_rest split: list.splits if_splits option.splits)

lemma match_colon_rest: "match_colon s = Some (d, rest) \<Longrightarrow> length rest < length s"
  by (auto simp: match_colon_def Let_def split: if_splits)

lemma match_time_rest: "match_time s = Some (m, rest) \<Longrightarrow> length rest < length s"
  by (auto simp: match_time_def Let_def split: option.splits
      dest!: match_colon_rest match_seconds_rest)

text \<open>\<open>FindAllStringSubmatchIndex\<close>: start, end and groups of the matches that do not overlap.\<close>

function find_times :: "nat \<Rightarrow> string \<Rightarrow> (nat \<times> nat \<times> time_match) list" where
  "find_times pos [] = []"
| "find_times pos (c # cs) =
     (if c = CHR ''['' then
        (case match_time cs of
           Some (m, rest) \<Rightarrow>
             (pos, pos + (Suc (length cs) - length rest), m)
               # find_times (pos + (Suc (length cs) - length rest)) rest
         | None \<Rightarrow> find_times (Suc pos) cs)
      else find_times (Suc pos) cs)"
  by pat_completeness auto
termination
  by (relation "measure (\<lambda>(pos, s). length s)") (auto dest: match_time_rest)

text \<open>The stamp is at the start of the text or of a line, after white space.\<close>

definition is_re_space :: "char \<Rightarrow> bool" where
  "is_re_space c \<longleftrightarrow> byte c \<in> {9, 10, 12, 13, 32}"

definition stamp_here :: "string \<Rightarrow> bool" where
  "stamp_here s =
     (case dropWhile is_re_space s of
        c # cs \<Rightarrow> c = CHR ''['' \<and> match_time cs \<noteq> None
      | [] \<Rightarrow> False)"

fun stamp_after_newline :: "string \<Rightarrow> bool" where
  "stamp_after_newline [] = False"
| "stamp_after_newline (c # cs) = (c = nl \<and> stamp_here cs \<or> stamp_after_newline cs)"

definition is_synced :: "string \<Rightarrow> bool" where
  "is_synced text \<longleftrightarrow> stamp_here text \<or> stamp_after_newline text"

text \<open>The value of a stamp; \<open>None\<close> is the error of \<open>ParseInt\<close>.\<close>

definition parse_time :: "time_match \<Rightarrow> int option" where
  "parse_time m =
     (case (case tm_hours m of None \<Rightarrow> Some 0 | Some h \<Rightarrow> atoi h, atoi (tm_minutes m), atoi (tm_seconds m),
            case tm_millis m of
              None \<Rightarrow> Some 0
            | Some g \<Rightarrow> map_option (\<lambda>n. if length g = 3 then n * 10 else if length g = 2 then n * 100 else n)
                (atoi (tl g))) of
        (Some h, Some mi, Some sec, Some ms) \<Rightarrow> Some (((h * 60 + mi) * 60 + sec) * 1000 + ms)
      | _ \<Rightarrow> None)"

section \<open>Identification tags\<close>

text \<open>The expression \<open>\[(ar|ti|offset|lang):([^]]+)]\<close>, at its leftmost match.\<close>

definition id_tag_at :: "string \<Rightarrow> string \<Rightarrow> string option" where
  "id_tag_at key s =
     (if has_prefix s (key @ '':'')
      then (let v = takeWhile (\<lambda>c. c \<noteq> CHR '']'') (drop (length key + 1) s)
            in if v \<noteq> [] \<and> length key + 1 + length v < length s then Some v else None)
      else None)"

fun id_tag :: "string \<Rightarrow> (string \<times> string) option" where
  "id_tag [] = None"
| "id_tag (c # cs) =
     (if c = CHR ''[''
      then (case id_tag_at ''ar'' cs of
              Some v \<Rightarrow> Some (''ar'', v)
            | None \<Rightarrow>
          (case id_tag_at ''ti'' cs of
             Some v \<Rightarrow> Some (''ti'', v)
           | None \<Rightarrow>
          (case id_tag_at ''offset'' cs of
             Some v \<Rightarrow> Some (''offset'', v)
           | None \<Rightarrow>
          (case id_tag_at ''lang'' cs of
             Some v \<Rightarrow> Some (''lang'', v)
           | None \<Rightarrow> id_tag cs))))
      else id_tag cs)"

section \<open>Reading lyrics\<close>

record lyric_line =
  ll_start :: "int option"
  ll_value :: string

record lyrics =
  ly_artist :: string
  ly_title :: string
  ly_lang :: string
  ly_lines :: "lyric_line list"
  ly_offset :: "int option"
  ly_synced :: bool

record lyric_state =
  ls_artist :: string
  ls_title :: string
  ls_lang :: string
  ls_offset :: "int option"
  ls_prior :: string
  ls_valid :: bool
  ls_repeated :: bool
  ls_stamps :: "int list"
  ls_lines :: "lyric_line list"

text \<open>The lines that the time stamps read last stand for.\<close>

definition flush_lines :: "lyric_state \<Rightarrow> lyric_state" where
  "flush_lines st =
     (if ls_valid st
      then st\<lparr>ls_lines := ls_lines st @
                 map (\<lambda>t. \<lparr>ll_start = Some t, ll_value = trim_space (ls_prior st)\<rparr>) (ls_stamps st)\<rparr>
      else st)"

definition take_id_tag :: "(string \<Rightarrow> string) \<Rightarrow> string \<times> string \<Rightarrow> lyric_state \<Rightarrow> lyric_state" where
  "take_id_tag sanitize kv st =
     (case kv of (k, v) \<Rightarrow>
        if k = ''ar'' then st\<lparr>ls_artist := sanitize (trim_space v)\<rparr>
        else if k = ''lang'' then st\<lparr>ls_lang := sanitize (trim_space v)\<rparr>
        else if k = ''offset'' then
          (case atoi (trim_space v) of None \<Rightarrow> st | Some n \<Rightarrow> st\<lparr>ls_offset := Some n\<rparr>)
        else st\<lparr>ls_title := sanitize (trim_space v)\<rparr>)"

text \<open>The stamps at the start of a line: those with nothing but white space between them.\<close>

fun leading_times :: "string \<Rightarrow> nat \<Rightarrow> (nat \<times> nat \<times> time_match) list \<Rightarrow> (int list \<times> nat) option" where
  "leading_times line end_pos [] = Some ([], end_pos)"
| "leading_times line end_pos ((a, b, m) # ms) =
     (if end_pos \<noteq> 0 \<and> trim_space (drop end_pos (take a line)) \<noteq> [] then Some ([], end_pos)
      else (case parse_time m of
              None \<Rightarrow> None
            | Some t \<Rightarrow> map_option (\<lambda>(ts, e). (t # ts, e)) (leading_times line b ms)))"

definition mark_repeated :: "(nat \<times> nat \<times> time_match) list \<Rightarrow> lyric_state \<Rightarrow> lyric_state" where
  "mark_repeated stamps st = (if length stamps > 1 then st\<lparr>ls_repeated := True\<rparr> else st)"

text \<open>A line that does not start with a stamp goes on with the text of the last one.\<close>

definition text_line :: "string \<Rightarrow> lyric_state \<Rightarrow> lyric_state" where
  "text_line line st = (if ls_valid st then st\<lparr>ls_prior := ls_prior st @ [nl] @ line\<rparr> else st)"

definition stamped_line ::
  "string \<Rightarrow> (nat \<times> nat \<times> time_match) list \<Rightarrow> lyric_state \<Rightarrow> lyric_state option" where
  "stamped_line line stamps st =
     (let st1 = (if ls_valid st then (flush_lines st)\<lparr>ls_stamps := []\<rparr> else st)
      in case leading_times line 0 stamps of
           None \<Rightarrow> None
         | Some (ts, e) \<Rightarrow>
             Some (st1\<lparr>ls_stamps := ls_stamps st1 @ ts,
                       ls_prior := (if length line \<le> e then [] else trim_space (drop e line)),
                       ls_valid := True\<rparr>))"

definition synced_line :: "(string \<Rightarrow> string) \<Rightarrow> string \<Rightarrow> lyric_state \<Rightarrow> lyric_state option" where
  "synced_line sanitize line st =
     (case id_tag line of
        Some kv \<Rightarrow> Some (take_id_tag sanitize kv st)
      | None \<Rightarrow>
          (let stamps = find_times 0 line; st1 = mark_repeated stamps st
           in if stamps = [] \<or> fst (hd stamps) \<noteq> 0 then Some (text_line line st1)
              else stamped_line line stamps st1))"

definition lyric_step :: "(string \<Rightarrow> string) \<Rightarrow> bool \<Rightarrow> string \<Rightarrow> lyric_state \<Rightarrow> lyric_state option" where
  "lyric_step sanitize synced raw st =
     (let line = trim_space raw
      in if line = [] then Some (if ls_valid st then st\<lparr>ls_prior := ls_prior st @ [nl]\<rparr> else st)
         else if synced then synced_line sanitize line st
         else Some (st\<lparr>ls_lines := ls_lines st @ [\<lparr>ll_start = None, ll_value = line\<rparr>]\<rparr>))"

fun lyric_loop ::
  "(string \<Rightarrow> string) \<Rightarrow> bool \<Rightarrow> string list \<Rightarrow> lyric_state \<Rightarrow> lyric_state option" where
  "lyric_loop sanitize synced [] st = Some st"
| "lyric_loop sanitize synced (l # ls) st =
     (case lyric_step sanitize synced l st of
        None \<Rightarrow> None
      | Some st1 \<Rightarrow> lyric_loop sanitize synced ls st1)"

definition to_lyrics ::
  "(string \<Rightarrow> string) \<Rightarrow> (lyric_line list \<Rightarrow> lyric_line list) \<Rightarrow> string \<Rightarrow> string \<Rightarrow> lyrics option"
where
  "to_lyrics sanitize sort_lines language text0 =
     (let text = sanitize text0; synced = is_synced text;
          st0 = \<lparr>ls_artist = [], ls_title = [], ls_lang = language, ls_offset = None, ls_prior = [],
                 ls_valid = False, ls_repeated = False, ls_stamps = [], ls_lines = []\<rparr>
      in case lyric_loop sanitize synced (split_on nl text) st0 of
           None \<Rightarrow> None
         | Some st \<Rightarrow>
             (let lines = ls_lines (flush_lines st)
              in Some \<lparr>ly_artist = ls_artist st, ly_title = ls_title st, ly_lang = ls_lang st,
                       ly_lines = (if ls_repeated st then sort_lines lines else lines),
                       ly_offset = ls_offset st, ly_synced = synced\<rparr>))"

definition lyrics_empty :: "lyrics \<Rightarrow> bool" where
  "lyrics_empty l \<longleftrightarrow> ly_lines l = []"

section \<open>What the result looks like\<close>













section \<open>Reading as a whole\<close>





lemma take_id_tag_keeps [simp]:
  "ls_lines (take_id_tag f kv st) = ls_lines st" "ls_stamps (take_id_tag f kv st) = ls_stamps st"
  "ls_valid (take_id_tag f kv st) = ls_valid st"
  by (cases kv; simp add: take_id_tag_def split: option.splits)+









subsection \<open>Text in ASCII\<close>


lemma set_tl_sub: "x \<in> set (tl xs) \<Longrightarrow> x \<in> set xs"
  by (cases xs) auto

lemma set_parts:
  "set (takeWhile P (drop k s)) \<subseteq> set s" "set (take k s) \<subseteq> set s" "set (tl (drop n s)) \<subseteq> set s"
  by (auto dest!: set_takeWhileD set_tl_sub dest: in_set_takeD in_set_dropD)












section \<open>Examples\<close>

definition sort_by_start :: "lyric_line list \<Rightarrow> lyric_line list" where
  "sort_by_start = sort_key (\<lambda>l. case ll_start l of None \<Rightarrow> 0 | Some t \<Rightarrow> t)"

definition read_lrc :: "string list \<Rightarrow> lyrics option" where
  "read_lrc ls = to_lyrics id sort_by_start ''xxx'' (join [nl] ls)"

lemma lrc_example:
  "map_option (\<lambda>l. map (\<lambda>x. (ll_start x, ll_value x)) (ly_lines l)) (read_lrc
     [''[ar: Ann ]'', ''[00:10.5][00:01] Hi'', ''there'', '''', ''[1:00:00.25]End''])
   = Some [(Some 1000, ''Hi'' @ [nl] @ ''there''), (Some 10500, ''Hi'' @ [nl] @ ''there''), (Some 3600250, ''End'')]"
  by code_simp



text \<open>
  A newline does not stand in for the dot: the text is not synced.
\<close>

lemma newline_for_dot:
  "map_option (\<lambda>l. (ly_synced l, map ll_value (ly_lines l))) (read_lrc [''[00:01'', ''50]Hi''])
     = Some (False, [''[00:01'', ''50]Hi''])"
  by code_simp

text \<open>
  Where the code goes astray: a separator of several bytes makes the whole text unreadable, any
  character of a line stands in for the dot, and a tag anywhere in a line makes the line disappear.
\<close>

lemma multibyte_separator: "read_lrc [''[00:01'' @ [CHR 0xC2, CHR 0xB7] @ ''50]Hi''] = None"
  by code_simp

lemma digit_for_dot:
  "map_option (\<lambda>l. map ll_start (ly_lines l)) (read_lrc [''[00:0123]Hi'']) = Some [Some 1300]"
  by code_simp

lemma tag_in_line_lost:
  "map_option (\<lambda>l. map ll_value (ly_lines l)) (read_lrc [''[00:01]Hi'', ''[00:02]by [ar:Ann]'']) = Some [''Hi'']"
  by code_simp

section \<open>The sources of lyrics\<close>

text \<open>
  \<open>GetLyrics\<close>: stored lyrics, a file beside the track, or a plugin. A source fails or gives a list
  (the error is logged and the next source asked). \<open>lf_read\<close> is the content of a file: \<open>None\<close> when it
  does not exist, \<open>Some None\<close> when it cannot be read.
\<close>

record lyric_file =
  lf_stored :: string
  lf_path :: string

record lyric_env =
  le_unmarshal :: "string \<Rightarrow> lyrics list option"
  le_read :: "string \<Rightarrow> string option option"
  le_plugins :: "(string \<Rightarrow> (lyric_file \<Rightarrow> lyrics list option) option) option"
  le_sanitize :: "string \<Rightarrow> string"
  le_sort :: "lyric_line list \<Rightarrow> lyric_line list"

definition from_embedded :: "lyric_env \<Rightarrow> lyric_file \<Rightarrow> lyrics list option" where
  "from_embedded e mf = (if lf_stored mf \<noteq> [] then le_unmarshal e (lf_stored mf) else Some [])"

text \<open>\<open>path.Ext\<close> is cut off and the suffix put in its place.\<close>

definition lyric_path :: "string \<Rightarrow> string \<Rightarrow> string" where
  "lyric_path p suf = take (length p - length (path_ext p)) p @ suf"

definition from_external_file :: "lyric_env \<Rightarrow> lyric_file \<Rightarrow> string \<Rightarrow> lyrics list option" where
  "from_external_file e mf suf =
     (case le_read e (lyric_path (lf_path mf) suf) of
        None \<Rightarrow> Some []
      | Some None \<Rightarrow> None
      | Some (Some text) \<Rightarrow> map_option (\<lambda>l. [l]) (to_lyrics (le_sanitize e) (le_sort e) ''xxx'' text))"

definition from_plugin :: "lyric_env \<Rightarrow> lyric_file \<Rightarrow> string \<Rightarrow> lyrics list option" where
  "from_plugin e mf name =
     (case le_plugins e of
        None \<Rightarrow> Some []
      | Some load \<Rightarrow> (case load name of None \<Rightarrow> Some [] | Some get \<Rightarrow> get mf))"

definition ask_lyric_source :: "lyric_env \<Rightarrow> lyric_file \<Rightarrow> string \<Rightarrow> lyrics list option" where
  "ask_lyric_source e mf pat0 =
     (let pat = trim_space pat0;
          r = (if equal_fold pat ''embedded'' then from_embedded e mf
               else if has_prefix pat ''.'' then from_external_file e mf (to_lower pat)
               else from_plugin e mf pat)
      in case r of Some (l # ls) \<Rightarrow> Some (l # ls) | _ \<Rightarrow> None)"

fun get_lyrics_loop :: "lyric_env \<Rightarrow> lyric_file \<Rightarrow> string list \<Rightarrow> lyrics list option" where
  "get_lyrics_loop e mf [] = None"
| "get_lyrics_loop e mf (p # ps) =
     (case ask_lyric_source e mf p of Some ls \<Rightarrow> Some ls | None \<Rightarrow> get_lyrics_loop e mf ps)"

definition get_lyrics :: "lyric_env \<Rightarrow> string \<Rightarrow> lyric_file \<Rightarrow> lyrics list" where
  "get_lyrics e priority mf =
     (case get_lyrics_loop e mf (split_on (CHR '','') priority) of None \<Rightarrow> [] | Some ls \<Rightarrow> ls)"

interpretation lyric_sources: first_answer "ask_lyric_source e mf" "get_lyrics_loop e mf" for e mf
  by unfold_locales simp_all

text \<open>The lyrics come from the first source in the configured order that has any.\<close>

lemma lyrics_from_first_source:
  "get_lyrics e priority mf = l # ls \<longleftrightarrow>
     (\<exists>xs p ys. split_on (CHR '','') priority = xs @ p # ys \<and> ask_lyric_source e mf p = Some (l # ls) \<and>
        (\<forall>x \<in> set xs. ask_lyric_source e mf x = None))"
  unfolding lyric_sources.walk_Some [symmetric] by (auto simp: get_lyrics_def split: option.splits)

text \<open>
  A file without any line still counts as found: lyrics with no lines are returned, and the
  sources after it are not asked.
\<close>

lemma empty_file_hides_embedded:
  assumes "le_read e (lyric_path (lf_path mf) ''.lrc'') = Some (Some [])" "le_sanitize e [] = []"
  shows "map ly_lines (get_lyrics e ''.lrc,embedded'' mf) = [[]]"
proof -
  have "split_on (CHR '','') ''.lrc,embedded'' = [''.lrc'', ''embedded'']" "trim_space ''.lrc'' = ''.lrc''"
    "\<not> equal_fold ''.lrc'' ''embedded''" "to_lower ''.lrc'' = ''.lrc''" "has_prefix ''.lrc'' ''.''" by code_simp+
  with assms show ?thesis
    by (simp add: get_lyrics_def ask_lyric_source_def from_external_file_def to_lyrics_def is_synced_def
        stamp_here_def lyric_step_def flush_lines_def Let_def)
qed


end
