(* ===== verification/MediaMapping.thy ===== *)
theory MediaMapping
  imports PersistentIds Participants Lyrics
begin

text \<open>
  From the metadata of a file to its row in the library: \<open>model/metadata/map_participants.go\<close> and
  \<open>map_mediafile.go\<close>. Who took part in which role is read from the tags of artists, roles and
  performers; the row is filled from the tags, the audio properties and the ids of theory
  \<open>PersistentIds\<close>. The title case of sub-roles and the JSON of lyrics are arguments.
\<close>

record scan_env = meta_env +
  sc_md5 :: "string \<Rightarrow> nat list"
  sc_pids :: pid_conf
  sc_accents :: "string \<Rightarrow> string"
  sc_ignored_articles :: string
  sc_joiner :: string
  sc_title_case :: "string \<Rightarrow> string"
  sc_sanitize :: "string \<Rightarrow> string"
  sc_sort_lines :: "lyric_line list \<Rightarrow> lyric_line list"
  sc_marshal :: "lyrics list \<Rightarrow> string option"

section \<open>Participants\<close>

text \<open>\<open>roleMappings\<close>: the tags of the names, the sort names (none: empty) and the MusicBrainz ids.\<close>

definition role_mappings :: "(role \<times> string \<times> string \<times> string) list" where
  "role_mappings =
     [(Role_composer, ''composer'', ''composersort'', ''musicbrainz_composerid''),
      (Role_lyricist, ''lyricist'', ''lyricistsort'', ''musicbrainz_lyricistid''),
      (Role_conductor, ''conductor'', [], ''musicbrainz_conductorid''),
      (Role_arranger, ''arranger'', [], ''musicbrainz_arrangerid''),
      (Role_director, ''director'', [], ''musicbrainz_directorid''),
      (Role_producer, ''producer'', [], ''musicbrainz_producerid''),
      (Role_engineer, ''engineer'', [], ''musicbrainz_engineerid''),
      (Role_mixer, ''mixer'', [], ''musicbrainz_mixerid''),
      (Role_remixer, ''remixer'', [], ''musicbrainz_remixerid''),
      (Role_dj_mixer, ''djmixer'', [], ''musicbrainz_djmixerid'')]"

definition main_conf :: "'a meta_env_scheme \<Rightarrow> string \<Rightarrow> tag_conf" where
  "main_conf e name = (case mc_main (me_conf e) name of None \<Rightarrow> no_tag_conf | Some c \<Rightarrow> c)"

text \<open>Splitting with the separators of the tag, or the common ones when it has none of its own.\<close>

definition split_by_conf :: "tag_conf \<Rightarrow> tag_conf \<Rightarrow> string list \<Rightarrow> string list" where
  "split_by_conf own common vs =
     (let c = (if tc_split own = None then common else own)
      in case tc_split c of
           Some (_ # _) \<Rightarrow> filter_duplicated_or_empty (split_tag_value c vs)
         | _ \<Rightarrow> vs)"

definition get_role_values :: "'a meta_env_scheme \<Rightarrow> metadata \<Rightarrow> string \<Rightarrow> string list" where
  "get_role_values e md name =
     (let vs = md_strings md name
      in if vs = [] then [] else split_by_conf (main_conf e name) (mc_roles (me_conf e)) vs)"

definition get_artist_values ::
  "'a meta_env_scheme \<Rightarrow> metadata \<Rightarrow> string \<Rightarrow> string \<Rightarrow> string list" where
  "get_artist_values e md single multi =
     (if md_strings md multi \<noteq> [] then md_strings md multi
      else if length (md_strings md single) \<noteq> 1 then md_strings md single
      else split_by_conf (main_conf e single) (mc_artists (me_conf e)) (md_strings md single))"

definition new_artist :: "scan_env \<Rightarrow> metadata \<Rightarrow> string \<Rightarrow> string \<Rightarrow> string \<Rightarrow> model_artist" where
  "new_artist e md name sort_name mbid =
     \<lparr>ar_id = artist_pid (sc_md5 e) (sc_pids e) md name, ar_name = name, ar_sort_name = sort_name,
      ar_order_name = sanitize_field_no_article (sc_accents e) (sc_ignored_articles e) name,
      ar_mbid = mbid\<rparr>"

text \<open>Sort names and ids belong to the name at the same position.\<close>

fun build_artists ::
  "scan_env \<Rightarrow> metadata \<Rightarrow> string list \<Rightarrow> string list \<Rightarrow> string list \<Rightarrow> model_artist list" where
  "build_artists e md [] ss ms = []"
| "build_artists e md (n # ns) ss ms =
     new_artist e md n (case ss of [] \<Rightarrow> [] | s # _ \<Rightarrow> s) (case ms of [] \<Rightarrow> [] | m # _ \<Rightarrow> m)
       # build_artists e md ns (tl ss) (tl ms)"

definition parse_artists ::
  "scan_env \<Rightarrow> metadata \<Rightarrow> string \<Rightarrow> string \<Rightarrow> string \<Rightarrow> string \<Rightarrow> string \<Rightarrow> model_artist list" where
  "parse_artists e md name names srt srts mbid =
     (let ns = get_artist_values e md name names
      in build_artists e md (if ns = [] then [unknown_artist] else ns)
           (get_artist_values e md srt srts) (md_strings md mbid))"

definition various_artists_mbid :: string where
  "various_artists_mbid = ''89ad4ac3-39f7-470e-963a-56509c546377''"

definition map_album_artists :: "scan_env \<Rightarrow> metadata \<Rightarrow> model_artist list \<Rightarrow> model_artist list" where
  "map_album_artists e md artists =
     (let l = parse_artists e md ''albumartist'' ''albumartists'' ''albumartistsort''
                ''albumartistssort'' ''musicbrainz_albumartistid''
      in if map ar_name l = [unknown_artist]
         then (if md_bool md ''compilation''
               then build_artists e md [various_artists] [] [various_artists_mbid] else artists)
         else l)"

definition add_role_artists :: "scan_env \<Rightarrow> metadata \<Rightarrow> role \<times> string \<times> string \<times> string \<Rightarrow> participants \<Rightarrow> participants" where
  "add_role_artists e md info p =
     (case info of (r, name, srt, mbid) \<Rightarrow>
        (let names = get_role_values e md name
         in if names = [] then p
            else participants_add r (build_artists e md names (md_strings md srt) (md_strings md mbid)) p))"

text \<open>The MusicBrainz ids of performers by sub-role, in the order of their tags.\<close>

definition build_role_mbid_maps :: "scan_env \<Rightarrow> metadata \<Rightarrow> string \<Rightarrow> string list" where
  "build_role_mbid_maps e md role =
     map pair_value (filter (\<lambda>p. sc_title_case e (pair_key p) = role)
       (md_strings md ''musicbrainz_performerid''))"

text \<open>The loop over the performers, with the number of ids used for each sub-role.\<close>

fun process_performers ::
  "scan_env \<Rightarrow> metadata \<Rightarrow> (string \<Rightarrow> nat) \<Rightarrow> string list \<Rightarrow> participants \<Rightarrow> participants" where
  "process_performers e md idx [] p = p"
| "process_performers e md idx (v # vs) p =
     (let sub = sc_title_case e (pair_key v); ids = build_role_mbid_maps e md sub;
          has = idx sub < length ids;
          a = new_artist e md (pair_value v) [] (if has then ids ! idx sub else [])
      in process_performers e md (if has then idx(sub := Suc (idx sub)) else idx) vs
           (add_with_sub_role Role_performer sub [a] p))"

text \<open>Later artists of the same name override earlier ones; album artists come last.\<close>

definition main_mbids :: "participants \<Rightarrow> string \<rightharpoonup> string" where
  "main_mbids p =
     map_of (rev (map (\<lambda>a. (ar_name (pa_artist a), ar_mbid (pa_artist a)))
       (filter (\<lambda>a. ar_mbid (pa_artist a) \<noteq> []) (role_list p Role_artist @ role_list p Role_album_artist))))"

definition fill_mbid :: "(string \<rightharpoonup> string) \<Rightarrow> participant \<Rightarrow> participant" where
  "fill_mbid ids a =
     (if ar_mbid (pa_artist a) = []
      then (case ids (ar_name (pa_artist a)) of
              None \<Rightarrow> a
            | Some m \<Rightarrow> a\<lparr>pa_artist := (pa_artist a)\<lparr>ar_mbid := m\<rparr>\<rparr>)
      else a)"

definition sync_missing_mbids :: "participants \<Rightarrow> participants" where
  "sync_missing_mbids p = (let ids = main_mbids p in (\<lambda>r. map_option (map (fill_mbid ids)) (p r)))"

definition map_participants :: "scan_env \<Rightarrow> metadata \<Rightarrow> participants" where
  "map_participants e md =
     (let artists = parse_artists e md ''artist'' ''artists'' ''artistsort'' ''artistssort''
                      ''musicbrainz_artistid'';
          p1 = participants_add Role_artist artists Map.empty;
          p2 = participants_add Role_album_artist (map_album_artists e md artists) p1;
          p3 = fold (add_role_artists e md) role_mappings p2;
          p4 = process_performers e md (\<lambda>_. 0) (md_strings md ''performer'') p3
      in sync_missing_mbids p4)"

definition map_display_name :: "scan_env \<Rightarrow> metadata \<Rightarrow> string \<Rightarrow> string \<Rightarrow> string" where
  "map_display_name e md single plural =
     (let s = join (sc_joiner e) (md_strings md single)
      in if s \<noteq> [] then s else join (sc_joiner e) (md_strings md plural))"

definition map_display_artist :: "scan_env \<Rightarrow> metadata \<Rightarrow> string" where
  "map_display_artist e md =
     (let s = map_display_name e md ''artist'' ''artists'' in if s \<noteq> [] then s else unknown_artist)"

definition map_display_album_artist :: "scan_env \<Rightarrow> metadata \<Rightarrow> participants \<Rightarrow> string" where
  "map_display_album_artist e md p =
     (let s = map_display_name e md ''albumartist'' ''albumartists'';
          n = ar_name (first_artist p Role_album_artist)
      in if s \<noteq> [] then s else if n \<noteq> [] then n
         else if md_bool md ''compilation'' then various_artists else unknown_artist)"

section \<open>The row of a file\<close>

record media_row = file_base +
  mr_folder_id :: string
  mr_tags :: tags
  mr_album :: string
  mr_sort_title :: string
  mr_sort_album_name :: string
  mr_order_title :: string
  mr_order_album_name :: string
  mr_compilation :: bool
  mr_track_number :: int
  mr_disc_number :: int
  mr_disc_subtitle :: string
  mr_catalog_num :: string
  mr_comment :: string
  mr_bpm :: int
  mr_lyrics :: string
  mr_explicit_status :: string
  mr_original_year :: int
  mr_original_date :: string
  mr_release_year :: int
  mr_release_date :: string
  mr_year :: int
  mr_date :: string
  mr_mbz_recording_id :: string
  mr_mbz_release_track_id :: string
  mr_mbz_album_id :: string
  mr_mbz_release_group_id :: string
  mr_mbz_album_type :: string
  mr_rg_album_peak :: "rat option"
  mr_rg_album_gain :: "rat option"
  mr_rg_track_peak :: "rat option"
  mr_rg_track_gain :: "rat option"
  mr_has_cover_art :: bool
  mr_duration :: rat
  mr_bit_rate :: int
  mr_sample_rate :: int
  mr_bit_depth :: int
  mr_channels :: int
  mr_codec :: string
  mr_suffix :: string
  mr_size :: int
  mr_birth_time :: go_time
  mr_updated_at :: go_time
  mr_participants :: participants
  mr_artist :: string
  mr_pid :: string
  mr_album_id :: string
  mr_artist_id :: string
  mr_album_artist_id :: string
  mr_order_artist_name :: string
  mr_order_album_artist_name :: string
  mr_sort_artist_name :: string
  mr_sort_album_artist_name :: string

text \<open>\<open>math.Round\<close> rounds halves away from zero.\<close>

definition round_away :: "rat \<Rightarrow> int" where
  "round_away q = (if 0 \<le> q then \<lfloor>q + 1 / 2\<rfloor> else \<lceil>q - 1 / 2\<rceil>)"

definition map_gain :: "'a meta_env_scheme \<Rightarrow> metadata \<Rightarrow> string \<Rightarrow> string \<Rightarrow> rat option" where
  "map_gain e md rg r128 =
     (case nullable_float e (trim_space (remove_first ''dB'' (md_string md rg))) of
        Some v \<Rightarrow> Some v
      | None \<Rightarrow>
          if md_string md r128 \<noteq> []
          then map_option (\<lambda>v. of_int v / 256 + 5) (atoi (md_string md r128)) else None)"

definition read_lyrics_pair :: "scan_env \<Rightarrow> string \<Rightarrow> lyrics list" where
  "read_lyrics_pair e raw =
     (case to_lyrics (sc_sanitize e) (sc_sort_lines e) (pair_key raw) (pair_value raw) of
        None \<Rightarrow> []
      | Some l \<Rightarrow> if lyrics_empty l then [] else [l])"

definition map_lyrics :: "scan_env \<Rightarrow> metadata \<Rightarrow> string" where
  "map_lyrics e md =
     (case sc_marshal e (concat (map (read_lyrics_pair e) (md_strings md ''lyrics''))) of
        None \<Rightarrow> [] | Some s \<Rightarrow> s)"

definition map_explicit_status :: "metadata \<Rightarrow> string" where
  "map_explicit_status md =
     (let v = md_string md ''explicitstatus''
      in if v = ''1'' \<or> v = ''4'' then ''e'' else if v = ''2'' then ''c'' else [])"

text \<open>Tags of the main section that are no album tags are not stored twice.\<close>

definition stored_tags :: "'a meta_env_scheme \<Rightarrow> tags \<Rightarrow> tags" where
  "stored_tags e t name =
     (case mc_main (me_conf e) name of
        Some c \<Rightarrow> if tc_album c then t name else None
      | None \<Rightarrow> t name)"

text \<open>\<open>ToMediaFile\<close>; \<open>None\<close> is the panic of \<open>Date.Year\<close>.\<close>

definition to_media_row :: "scan_env \<Rightarrow> metadata \<Rightarrow> int \<Rightarrow> string \<Rightarrow> media_row option" where
  "to_media_row e md lib_id folder_id =
     (let title = map_track_title md; album = map_album_name md; parts = map_participants e md;
          first = first_artist parts Role_artist; first_album = first_artist parts Role_album_artist;
          album_artist = map_display_album_artist e md parts; ap = md_audio_props md;
          base = \<lparr>mr_library_id = lib_id, mr_path = md_file_path md, mr_title = title,
                  mr_album_artist = album_artist\<rparr>
      in case map_dates md of (date, original, release) \<Rightarrow>
         (case (date_year date, date_year original, date_year release) of
            (Some y, Some oy, Some ry) \<Rightarrow>
              Some
               \<lparr>mr_library_id = lib_id, mr_path = md_file_path md, mr_title = title,
                mr_album_artist = album_artist, mr_folder_id = folder_id,
                mr_tags = stored_tags e (md_tags md), mr_album = album,
                mr_sort_title = md_string md ''titlesort'', mr_sort_album_name = md_string md ''albumsort'',
                mr_order_title = sanitize_field_for_sorting (sc_accents e) title,
                mr_order_album_name = sanitize_field_no_article (sc_accents e) (sc_ignored_articles e) album,
                mr_compilation = md_bool md ''compilation'',
                mr_track_number = fst (md_num_and_total md ''track''),
                mr_disc_number = fst (md_num_and_total md ''disc''),
                mr_disc_subtitle = md_string md ''discsubtitle'',
                mr_catalog_num = md_string md ''catalognumber'', mr_comment = md_string md ''comment'',
                mr_bpm = round_away (case nullable_float e (md_string md ''bpm'') of None \<Rightarrow> 0 | Some v \<Rightarrow> v),
                mr_lyrics = map_lyrics e md, mr_explicit_status = map_explicit_status md,
                mr_original_year = oy, mr_original_date = original, mr_release_year = ry,
                mr_release_date = release, mr_year = y, mr_date = date,
                mr_mbz_recording_id = md_string md ''musicbrainz_recordingid'',
                mr_mbz_release_track_id = md_string md ''musicbrainz_trackid'',
                mr_mbz_album_id = md_string md ''musicbrainz_albumid'',
                mr_mbz_release_group_id = md_string md ''musicbrainz_releasegroupid'',
                mr_mbz_album_type = md_string md ''releasetype'',
                mr_rg_album_peak = nullable_float e (md_string md ''replaygain_album_peak''),
                mr_rg_album_gain = map_gain e md ''replaygain_album_gain'' ''r128_album_gain'',
                mr_rg_track_peak = nullable_float e (md_string md ''replaygain_track_peak''),
                mr_rg_track_gain = map_gain e md ''replaygain_track_gain'' ''r128_track_gain'',
                mr_has_cover_art = md_has_picture md, mr_duration = md_length md,
                mr_bit_rate = ap_bit_rate ap, mr_sample_rate = ap_sample_rate ap,
                mr_bit_depth = ap_bit_depth ap, mr_channels = ap_channels ap, mr_codec = ap_codec ap,
                mr_suffix = md_suffix md, mr_size = md_size md, mr_birth_time = md_birth_time md,
                mr_updated_at = md_mod_time md, mr_participants = parts,
                mr_artist = map_display_artist e md,
                mr_pid = track_pid (sc_md5 e) (sc_pids e) base md,
                mr_album_id = album_pid (sc_md5 e) (sc_pids e) base md (pid_album (sc_pids e)),
                mr_artist_id = ar_id first, mr_album_artist_id = ar_id first_album,
                mr_order_artist_name = ar_order_name first,
                mr_order_album_artist_name = ar_order_name first_album,
                mr_sort_artist_name = ar_sort_name first,
                mr_sort_album_artist_name = ar_sort_name first_album\<rparr>
          | _ \<Rightarrow> None))"

section \<open>Who is credited\<close>

lemma build_artists_names [simp]: "map ar_name (build_artists e md ns ss ms) = ns"
  by (induction e md ns ss ms rule: build_artists.induct) (simp_all add: new_artist_def)

definition id_by_name :: "scan_env \<Rightarrow> metadata \<Rightarrow> model_artist \<Rightarrow> bool" where
  "id_by_name e md a \<longleftrightarrow> ar_id a = artist_pid (sc_md5 e) (sc_pids e) md (ar_name a)"

lemma id_by_name_new [simp]: "id_by_name e md (new_artist e md n s m)"
  by (simp add: id_by_name_def new_artist_def)

lemma build_artists_ids: "a \<in> set (build_artists e md ns ss ms) \<Longrightarrow> id_by_name e md a"
  by (induction e md ns ss ms rule: build_artists.induct) auto

lemma parse_artists_ok:
  "parse_artists e md n ns s ss m \<noteq> []" "a \<in> set (parse_artists e md n ns s ss m) \<Longrightarrow> id_by_name e md a"
proof -
  show "parse_artists e md n ns s ss m \<noteq> []"
    unfolding parse_artists_def Let_def
    by (metis build_artists_names list.simps(8) not_Cons_self2)
  show "a \<in> set (parse_artists e md n ns s ss m) \<Longrightarrow> id_by_name e md a"
    unfolding parse_artists_def Let_def by (rule build_artists_ids)
qed

lemma map_album_artists_ok:
  assumes "artists \<noteq> []" "\<forall>a \<in> set artists. id_by_name e md a"
  shows "map_album_artists e md artists \<noteq> []" "\<forall>a \<in> set (map_album_artists e md artists). id_by_name e md a"
proof -
  let ?l = "parse_artists e md ''albumartist'' ''albumartists'' ''albumartistsort''
                ''albumartistssort'' ''musicbrainz_albumartistid''"
  let ?v = "build_artists e md [various_artists] [] [various_artists_mbid]"
  have c: "map_album_artists e md artists \<in> {?l, ?v, artists}"
    unfolding map_album_artists_def Let_def by (simp del: build_artists.simps)
  have "?v \<noteq> []" by simp
  with c assms(1) parse_artists_ok(1) show "map_album_artists e md artists \<noteq> []" by (metis insertE empty_iff)
  from c assms(2) parse_artists_ok(2) build_artists_ids
  show "\<forall>a \<in> set (map_album_artists e md artists). id_by_name e md a" by (metis insertE empty_iff)
qed

text \<open>The invariant of the map while roles are added.\<close>

definition credits_ok :: "scan_env \<Rightarrow> metadata \<Rightarrow> participants \<Rightarrow> bool" where
  "credits_ok e md p \<longleftrightarrow> keys_distinct p \<and> (\<forall>r. \<forall>a \<in> set (role_list p r). id_by_name e md (pa_artist a))"

lemma credits_ok_add:
  assumes "credits_ok e md p" "\<forall>a \<in> set l. id_by_name e md (pa_artist a)"
  shows "credits_ok e md (add_participants r l p)"
  using assms keys_distinct_add [of p r l] add_unseen_ok(3) [of "part_key ` set (role_list p r)" l]
  by (auto simp: credits_ok_def role_list_add split: if_splits)

lemma credits_ok_participants_add:
  "credits_ok e md p \<Longrightarrow> \<forall>a \<in> set l. id_by_name e md a \<Longrightarrow> credits_ok e md (participants_add r l p)"
  unfolding participants_add_def by (rule credits_ok_add) auto

lemma credits_ok_roles: "credits_ok e md p \<Longrightarrow> credits_ok e md (fold (add_role_artists e md) infos p)"
proof (induction infos arbitrary: p)
  case (Cons info infos)
  have "credits_ok e md (add_role_artists e md info p)"
    using Cons.prems by (cases info) (auto simp: add_role_artists_def Let_def intro!: credits_ok_participants_add build_artists_ids)
  with Cons.IH show ?case by simp
qed simp

lemma credits_ok_performers: "credits_ok e md p \<Longrightarrow> credits_ok e md (process_performers e md idx vs p)"
proof (induction e md idx vs p rule: process_performers.induct)
  case (2 e md idx v vs p)
  have "credits_ok e md (add_with_sub_role Role_performer s [new_artist e md n [] m] p)" for s n m
    unfolding add_with_sub_role_def using 2(2) by (intro credits_ok_add) auto
  with 2(1) show ?case by (simp add: Let_def)
qed simp


lemma role_list_map [simp]: "role_list (\<lambda>r. map_option (map f) (p r)) r = map f (role_list p r)"
  by (simp add: role_list_def split: option.splits)

lemma fill_mbid_keeps [simp]:
  "ar_id (pa_artist (fill_mbid ids a)) = ar_id (pa_artist a)"
  "ar_name (pa_artist (fill_mbid ids a)) = ar_name (pa_artist a)"
  "pa_sub_role (fill_mbid ids a) = pa_sub_role a"
  by (simp_all add: fill_mbid_def split: option.splits)

lemma part_key_fill [simp]: "part_key (fill_mbid ids a) = part_key a"
  by (simp add: part_key_def)

lemma credits_ok_sync: "credits_ok e md p \<Longrightarrow> credits_ok e md (sync_missing_mbids p)"
  by (auto simp: credits_ok_def sync_missing_mbids_def Let_def keys_distinct_def id_by_name_def comp_def)

lemma role_list_performers:
  "r \<noteq> Role_performer \<Longrightarrow> role_list (process_performers e md idx vs p) r = role_list p r"
  by (induction e md idx vs p rule: process_performers.induct)
    (simp_all add: Let_def add_with_sub_role_def role_list_add)

lemma role_list_roles:
  "r \<notin> fst ` set infos \<Longrightarrow> role_list (fold (add_role_artists e md) infos p) r = role_list p r"
  by (induction infos arbitrary: p)
    (auto simp: add_role_artists_def Let_def participants_add_def role_list_add split: prod.splits)

lemma main_roles_apart: "Role_artist \<notin> fst ` set role_mappings" "Role_album_artist \<notin> fst ` set role_mappings"
  by (simp_all add: role_mappings_def)

lemma role_list_empty: "role_list Map.empty r = []"
  by (simp add: role_list_def)

lemma add_unseen_Nil: "add_unseen {} l = [] \<longleftrightarrow> l = []"
  by (cases l) auto

text \<open>\<open>syncMissingMbzIDs\<close> leaves no gap that an artist of the same name could fill.\<close>

definition mbids_synced :: "participants \<Rightarrow> bool" where
  "mbids_synced p \<longleftrightarrow>
     (\<forall>r. \<forall>a \<in> set (role_list p r). ar_mbid (pa_artist a) = [] \<longrightarrow>
        (\<forall>b \<in> set (role_list p Role_artist @ role_list p Role_album_artist).
           ar_name (pa_artist b) = ar_name (pa_artist a) \<longrightarrow> ar_mbid (pa_artist b) = []))"

lemma map_of_mem: "(k, v) \<in> set l \<Longrightarrow> \<exists>m. map_of l k = Some m \<and> (k, m) \<in> set l"
  by (induction l) auto

lemma main_mbids_some:
  assumes "b \<in> set (role_list p Role_artist @ role_list p Role_album_artist)" "ar_mbid (pa_artist b) \<noteq> []"
  obtains m where "main_mbids p (ar_name (pa_artist b)) = Some m" "m \<noteq> []"
proof -
  let ?l = "rev (map (\<lambda>a. (ar_name (pa_artist a), ar_mbid (pa_artist a)))
       (filter (\<lambda>a. ar_mbid (pa_artist a) \<noteq> []) (role_list p Role_artist @ role_list p Role_album_artist)))"
  have "(ar_name (pa_artist b), ar_mbid (pa_artist b)) \<in> set ?l" using assms by auto
  from map_of_mem [OF this] obtain m where
    m: "map_of ?l (ar_name (pa_artist b)) = Some m" "(ar_name (pa_artist b), m) \<in> set ?l" by blast
  from m(2) have "m \<noteq> []" by auto
  with m(1) that show thesis by (simp add: main_mbids_def)
qed

lemma sync_synced: "mbids_synced (sync_missing_mbids p)"
  unfolding mbids_synced_def
proof (intro allI ballI impI)
  fix r a b
  assume a: "a \<in> set (role_list (sync_missing_mbids p) r)" "ar_mbid (pa_artist a) = []"
    and b: "b \<in> set (role_list (sync_missing_mbids p) Role_artist @ role_list (sync_missing_mbids p) Role_album_artist)"
    and n: "ar_name (pa_artist b) = ar_name (pa_artist a)"
  from a(1) obtain a' where a': "a = fill_mbid (main_mbids p) a'"
    by (auto simp: sync_missing_mbids_def Let_def)
  from b obtain b' where b': "b = fill_mbid (main_mbids p) b'"
    "b' \<in> set (role_list p Role_artist @ role_list p Role_album_artist)"
    by (auto simp: sync_missing_mbids_def Let_def)
  have names: "ar_name (pa_artist a') = ar_name (pa_artist b')" using n a' b'(1) by simp
  have main: "main_mbids p (ar_name (pa_artist a')) = None"
  proof (rule ccontr)
    assume "main_mbids p (ar_name (pa_artist a')) \<noteq> None"
    then obtain m where m: "main_mbids p (ar_name (pa_artist a')) = Some m" by blast
    then have "m \<noteq> []" unfolding main_mbids_def by (auto dest!: map_of_SomeD)
    with m a(2) a' show False by (auto simp: fill_mbid_def split: if_splits)
  qed
  show "ar_mbid (pa_artist b) = []"
  proof (rule ccontr)
    assume ne: "ar_mbid (pa_artist b) \<noteq> []"
    have "ar_mbid (pa_artist b') \<noteq> []"
      using ne main names by (auto simp: b'(1) fill_mbid_def)
    from main_mbids_some [OF b'(2) this] main names show False by auto
  qed
qed

lemma participants_credited_ids:
  "role_list (map_participants e md) Role_artist \<noteq> [] \<and>
   role_list (map_participants e md) Role_album_artist \<noteq> [] \<and>
   keys_distinct (map_participants e md) \<and>
   (\<forall>r. pa_artist ` set (role_list (map_participants e md) r) \<subseteq> {a. id_by_name e md a}) \<and>
   mbids_synced (map_participants e md)"
proof -
  let ?artists = "parse_artists e md ''artist'' ''artists'' ''artistsort'' ''artistssort'' ''musicbrainz_artistid''"
  define p1 where "p1 = participants_add Role_artist ?artists Map.empty"
  define p2 where "p2 = participants_add Role_album_artist (map_album_artists e md ?artists) p1"
  define p4 where "p4 = process_performers e md (\<lambda>_. 0) (md_strings md ''performer'') (fold (add_role_artists e md) role_mappings p2)"
  have m: "map_participants e md = sync_missing_mbids p4"
    by (simp add: map_participants_def p1_def p2_def p4_def Let_def)
  have l: "?artists \<noteq> []" "\<forall>a \<in> set ?artists. id_by_name e md a"
    using parse_artists_ok(1) parse_artists_ok(2) [of _ e md] by blast+
  have ok1: "credits_ok e md p1"
    unfolding p1_def by (rule credits_ok_participants_add [OF _ l(2)])
      (simp add: credits_ok_def keys_distinct_empty, simp add: role_list_def)
  have "credits_ok e md p4"
    unfolding p4_def p2_def
    by (intro credits_ok_performers credits_ok_roles credits_ok_participants_add ok1 map_album_artists_ok l)
  from credits_ok_sync [OF this] have "credits_ok e md (map_participants e md)" by (simp add: m)
  moreover have "role_list p4 Role_artist = role_list p2 Role_artist"
    "role_list p4 Role_album_artist = role_list p2 Role_album_artist"
    by (simp_all add: p4_def role_list_performers role_list_roles main_roles_apart)
  moreover have "role_list p2 Role_artist \<noteq> []" "role_list p2 Role_album_artist \<noteq> []"
    using l(1) map_album_artists_ok(1) [OF l]
    by (simp_all add: p2_def p1_def participants_add_def role_list_add role_list_empty add_unseen_Nil)
  moreover have "role_list (sync_missing_mbids p4) r = [] \<longleftrightarrow> role_list p4 r = []" for r
    by (simp add: sync_missing_mbids_def Let_def)
  ultimately show ?thesis
    using sync_synced [of p4] by (auto simp: m credits_ok_def)
qed



section \<open>The row as a whole\<close>

lemma map_dates_cases:
  assumes "map_dates md = (date, original, release)"
  shows "{date, original, release} \<subseteq>
    {md_string md ''recordingdate'', md_string md ''originaldate'', md_string md ''releasedate''}"
  using assms by (auto simp: map_dates_def Let_def split: if_splits)

lemma first_artist_in: "role_list p r \<noteq> [] \<Longrightarrow> first_artist p r \<in> pa_artist ` set (role_list p r)"
  by (cases "role_list p r") (auto simp: first_artist_def)

text \<open>
  The row of a file exists whenever the three dates are mapped as dates, it names an artist and
  an album artist, and their ids are those of their names.
\<close>

lemma row_built:
  assumes md: "md = new_metadata (meta_env.truncate e) path info raw props pic"
    and dates: "\<And>n. n \<in> {''recordingdate'', ''originaldate'', ''releasedate''} \<Longrightarrow>
      \<exists>c. me_mappings e n = Some c \<and> tc_type c = Tag_type_date"
  obtains row where "to_media_row e md lib folder = Some row" "mr_artist row \<noteq> []" "mr_album_artist row \<noteq> []"
    "mr_artist_id row = artist_pid (sc_md5 e) (sc_pids e) md (ar_name (first_artist (mr_participants row) Role_artist))"
    "mr_album_artist_id row
       = artist_pid (sc_md5 e) (sc_pids e) md (ar_name (first_artist (mr_participants row) Role_album_artist))"
proof -
  have y: "date_year (md_string md n) \<noteq> None" if "n \<in> {''recordingdate'', ''originaldate'', ''releasedate''}" for n
    using cleaned_tags_ok [OF md] dates [OF that] by (auto simp: meta_env.truncate_def)
  obtain date original release where d: "map_dates md = (date, original, release)" by (metis prod_cases3)
  with map_dates_cases [OF d] y have "date_year date \<noteq> None" "date_year original \<noteq> None" "date_year release \<noteq> None"
    by auto
  then obtain row where row: "to_media_row e md lib folder = Some row"
    and parts: "mr_participants row = map_participants e md"
    "mr_artist_id row = ar_id (first_artist (map_participants e md) Role_artist)"
    "mr_album_artist_id row = ar_id (first_artist (map_participants e md) Role_album_artist)"
    "mr_artist row = map_display_artist e md"
    "mr_album_artist row = map_display_album_artist e md (map_participants e md)"
    by (auto simp: to_media_row_def d Let_def)
  have "mr_artist row \<noteq> []" "mr_album_artist row \<noteq> []"
    by (simp_all add: parts map_display_artist_def map_display_album_artist_def Let_def unknown_artist_def
        various_artists_def)
  moreover have "id_by_name e md (first_artist (map_participants e md) r)"
    if "r \<in> {Role_artist, Role_album_artist}" for r
    using that participants_credited_ids [of e md] first_artist_in [of "map_participants e md" r] by auto
  ultimately show thesis using row parts that by (simp add: id_by_name_def)
qed

text \<open>
  The ids of several artists are matched by position after empty ids were dropped: the id of the
  second artist goes to the first when the first has none.
\<close>

lemma mbid_shifted:
  "map ar_mbid (build_artists e md [''Ann'', ''Bob''] [] (filter_duplicated_or_empty ['''', ''id of Bob'']))
   = [''id of Bob'', '''']"
  by (simp add: filter_duplicated_or_empty_def new_artist_def)


end
