(* ===== verification/SearchFts.thy ===== *)
theory SearchFts
  imports GoStrings
begin

text \<open>
  Searching the library: \<open>persistence/sql_search_fts.go\<close>, \<open>sql_search.go\<close> and \<open>sql_search_like.go\<close>.
  What the user types is turned into an expression of SQLite's full-text search, or into LIKE
  filters where that search finds no words. The text is a list of code points here, because the
  regular expressions ask for letters and numbers of Unicode; these tables are an argument. A
  query that is built is a value of \<open>search_plan\<close>; what the database does with it is left out.
\<close>

type_synonym rune = int

definition runes :: "string \<Rightarrow> rune list" where
  "runes s = map of_char s"

record unicode =
  uc_letter :: "rune \<Rightarrow> bool"
  uc_number :: "rune \<Rightarrow> bool"
  uc_space :: "rune \<Rightarrow> bool"
  uc_cjk :: "rune \<Rightarrow> bool"

section \<open>Words\<close>

text \<open>\<open>strings.Fields\<close>, for any notion of a separator.\<close>

fun fields_from :: "('a \<Rightarrow> bool) \<Rightarrow> 'a list \<Rightarrow> 'a list \<Rightarrow> 'a list list" where
  "fields_from sep acc [] = (if acc = [] then [] else [acc])"
| "fields_from sep acc (c # cs) =
     (if sep c then (if acc = [] then [] else [acc]) @ fields_from sep [] cs
      else fields_from sep (acc @ [c]) cs)"

definition fields_by :: "('a \<Rightarrow> bool) \<Rightarrow> 'a list \<Rightarrow> 'a list list" where
  "fields_by sep s = fields_from sep [] s"

fun join_by :: "'a list \<Rightarrow> 'a list list \<Rightarrow> 'a list" where
  "join_by sep [] = []"
| "join_by sep [x] = x"
| "join_by sep (x # y # ys) = x @ sep @ join_by sep (y # ys)"

definition trim_by :: "('a \<Rightarrow> bool) \<Rightarrow> 'a list \<Rightarrow> 'a list" where
  "trim_by P s = rev (dropWhile P (rev (dropWhile P s)))"

definition starts_with :: "'a list \<Rightarrow> 'a list \<Rightarrow> bool" where
  "starts_with s p \<longleftrightarrow> take (length p) s = p"

section \<open>Characters of a query\<close>

definition alnum :: "unicode \<Rightarrow> rune \<Rightarrow> bool" where
  "alnum u c \<longleftrightarrow> uc_letter u c \<or> uc_number u c"

text \<open>The class \<open>\s\<close> of the regular expressions.\<close>

definition re_space :: "rune \<Rightarrow> bool" where
  "re_space c \<longleftrightarrow> c \<in> {9, 10, 12, 13, 32}"

definition star :: rune where "star = 42"
definition quote_rune :: rune where "quote_rune = 34"
definition blank :: rune where "blank = 32"

text \<open>\<open>fts5SpecialChars\<close>, each replaced by a blank, and \<open>fts5PunctStrip\<close>, removed.\<close>

definition special_char :: "unicode \<Rightarrow> rune \<Rightarrow> bool" where
  "special_char u c \<longleftrightarrow> \<not> (alnum u c \<or> re_space c \<or> c = star \<or> c = quote_rune \<or> c = 0)"

definition blank_specials :: "unicode \<Rightarrow> rune list \<Rightarrow> rune list" where
  "blank_specials u s = map (\<lambda>c. if special_char u c then blank else c) s"

definition punct_strip :: "unicode \<Rightarrow> rune list \<Rightarrow> rune list" where
  "punct_strip u s = filter (alnum u) s"

text \<open>\<open>strings.ToLower\<close> on ASCII.\<close>

definition lower_rune :: "rune \<Rightarrow> rune" where
  "lower_rune c = (if 65 \<le> c \<and> c \<le> 90 then c + 32 else c)"

text \<open>
  \<open>(?i)\b(AND|OR|NOT|NEAR)\b\<close>: a maximal run of the word characters of ASCII that is an operator
  in any case. \<open>lower_operators\<close> writes these runs in lower case.
\<close>

definition word_char :: "rune \<Rightarrow> bool" where
  "word_char c \<longleftrightarrow> (48 \<le> c \<and> c \<le> 57) \<or> (65 \<le> c \<and> c \<le> 90) \<or> (97 \<le> c \<and> c \<le> 122) \<or> c = 95"

definition fts_operators :: "rune list list" where
  "fts_operators = [runes ''AND'', runes ''OR'', runes ''NOT'', runes ''NEAR'']"

definition lower_operator :: "rune list \<Rightarrow> rune list" where
  "lower_operator w =
     (if map lower_rune w \<in> set (map (map lower_rune) fts_operators) then map lower_rune w else w)"

function lower_operators :: "rune list \<Rightarrow> rune list" where
  "lower_operators [] = []"
| "lower_operators (c # cs) =
     (if word_char c
      then lower_operator (c # takeWhile word_char cs) @ lower_operators (dropWhile word_char cs)
      else c # lower_operators cs)"
  by pat_completeness auto
termination
  by (relation "measure length") (auto simp: length_dropWhile_le le_imp_less_Suc)

section \<open>Building the expression\<close>

definition placeholder :: "nat \<Rightarrow> rune list" where
  "placeholder n = [0] @ runes ''PHRASE'' @ runes (itoa (int n)) @ [0]"

text \<open>
  The first loop: quoted phrases, from the left, become placeholders; a quote without a partner
  is dropped. \<open>n\<close> is the number of the next phrase.
\<close>

function extract_phrases :: "nat \<Rightarrow> rune list \<Rightarrow> rune list \<times> rune list list" where
  "extract_phrases n s =
     (let a = takeWhile (\<lambda>c. c \<noteq> quote_rune) s
      in case dropWhile (\<lambda>c. c \<noteq> quote_rune) s of
           [] \<Rightarrow> (a, [])
         | _ # b \<Rightarrow>
             (let p = takeWhile (\<lambda>c. c \<noteq> quote_rune) b
              in case dropWhile (\<lambda>c. c \<noteq> quote_rune) b of
                   [] \<Rightarrow> (a @ p, [])
                 | _ # r \<Rightarrow>
                     (case extract_phrases (Suc n) r of
                        (s', ps) \<Rightarrow> (a @ placeholder n @ s', ([quote_rune] @ p @ [quote_rune]) # ps))))"
  by pat_completeness auto
termination
proof (relation "measure (\<lambda>(n, s). length s)", simp, goal_cases)
  case (1 n s a x b p y r)
  have "length (x # b) \<le> length s" "length (y # r) \<le> length b"
    using length_dropWhile_le [of "\<lambda>c. c \<noteq> quote_rune" s] length_dropWhile_le [of "\<lambda>c. c \<noteq> quote_rune" b] 1(2,4)
    by simp_all
  then show ?case by simp
qed

declare extract_phrases.simps [simp del]

definition name_punctuation :: "rune set" where
  "name_punctuation = {45, 47, 46, 39}"

definition is_single_letter :: "unicode \<Rightarrow> rune list \<Rightarrow> bool" where
  "is_single_letter u t = (case t of [c] \<Rightarrow> uc_letter u c | _ \<Rightarrow> False)"

definition is_dotted_abbreviation :: "unicode \<Rightarrow> rune list \<Rightarrow> rune list list \<Rightarrow> bool" where
  "is_dotted_abbreviation u w subs \<longleftrightarrow>
     (\<forall>c \<in> set w. alnum u c \<or> c = 46) \<and> (\<forall>t \<in> set subs. is_single_letter u t)"

definition quoted :: "rune list \<Rightarrow> rune list" where
  "quoted s = [quote_rune] @ s @ [quote_rune]"

text \<open>What becomes of one word, given the number of the next phrase: the word and a new phrase.\<close>

definition process_word :: "unicode \<Rightarrow> nat \<Rightarrow> rune list \<Rightarrow> rune list \<times> rune list list" where
  "process_word u n w =
     (if starts_with w [0] \<or> star \<in> set w \<or> quote_rune \<in> set w \<or> set w \<inter> name_punctuation = {}
      then (w, [])
      else (let c = punct_strip u w
            in if c = [] \<or> c = w then (w, [])
               else (let subs = fields_by (uc_space u) (blank_specials u w)
                     in if length subs < 2 then (c, [])
                        else (placeholder n,
                              [if is_dotted_abbreviation u w subs then quoted (join_by [blank] subs)
                               else runes ''('' @ quoted (join_by [blank] subs) @ runes '' OR '' @ c
                                    @ [star] @ runes '')'']))))"

fun process_words :: "unicode \<Rightarrow> nat \<Rightarrow> rune list list \<Rightarrow> rune list list \<times> rune list list" where
  "process_words u n [] = ([], [])"
| "process_words u n (w # ws) =
     (let (w', p) = process_word u n w; (ws', ps) = process_words u (n + length p) ws
      in (w' # ws', p @ ps))"

text \<open>\<open>fts5LeadingStar\<close>: stars at the start and after white space go. \<open>b\<close>: is this such a place?\<close>

fun strip_stars :: "bool \<Rightarrow> rune list \<Rightarrow> rune list" where
  "strip_stars b [] = []"
| "strip_stars b (c # cs) =
     (if b \<and> c = star then strip_stars True cs else c # strip_stars (re_space c) cs)"

definition star_token :: "rune list \<Rightarrow> rune list" where
  "star_token t = (if starts_with t [0] \<or> (t \<noteq> [] \<and> last t = star) then t else t @ [star])"

text \<open>\<open>strings.ReplaceAll\<close> on code points.\<close>

function subst_all :: "'a list \<Rightarrow> 'a list \<Rightarrow> 'a list \<Rightarrow> 'a list" where
  "subst_all old new s =
     (if old = [] then s
      else if starts_with s old then new @ subst_all old new (drop (length old) s)
      else (case s of [] \<Rightarrow> [] | c # cs \<Rightarrow> c # subst_all old new cs))"
  by pat_completeness auto
termination
proof (relation "measure (\<lambda>(old, new, s). length s)", simp, goal_cases)
  case (1 old new s)
  then have "s \<noteq> []" by (auto simp: starts_with_def)
  with 1 show ?case by simp
qed simp

declare subst_all.simps [simp del]

fun fill_phrases :: "nat \<Rightarrow> rune list list \<Rightarrow> rune list \<Rightarrow> rune list" where
  "fill_phrases n [] s = s"
| "fill_phrases n (p # ps) s = fill_phrases (Suc n) ps (subst_all (placeholder n) p s)"

definition build_fts5_query :: "unicode \<Rightarrow> rune list \<Rightarrow> rune list" where
  "build_fts5_query u input =
     (let q = trim_by (uc_space u) input
      in if q = [] \<or> q = [quote_rune, quote_rune] then []
         else (let (r1, quoted_phrases) = extract_phrases 0 q;
                   (ws, more) = process_words u (length quoted_phrases)
                      (fields_by (uc_space u) (lower_operators r1));
                   r2 = strip_stars True (blank_specials u (join_by [blank] ws));
                   tokens = map star_token (fields_by (uc_space u) r2)
               in fill_phrases 0 (quoted_phrases @ more) (join_by (runes '' AND '') tokens)))"

section \<open>Choosing how to search\<close>

text \<open>Lengths are counted in bytes of UTF-8.\<close>

definition rune_bytes :: "rune \<Rightarrow> nat" where
  "rune_bytes c = (if c < 0x80 then 1 else if c < 0x800 then 2 else if c < 0x10000 then 3 else 4)"

definition byte_length :: "rune list \<Rightarrow> nat" where
  "byte_length s = sum_list (map rune_bytes s)"

text \<open>\<open>ftsQueryDegraded\<close>: do only very short words remain of a text that had other characters?\<close>

definition token_tells :: "unicode \<Rightarrow> rune list \<Rightarrow> bool" where
  "token_tells u t0 =
     (let t = (if t0 \<noteq> [] \<and> last t0 = star then butlast t0 else t0)
      in if starts_with t [0] \<or> starts_with t (runes ''('') then True
         else if starts_with t [quote_rune]
         then (\<exists>w \<in> set (fields_by (uc_space u)
                 (map (\<lambda>c. if alnum u c then c else blank) (trim_by (\<lambda>c. c = quote_rune) t))).
                 2 < byte_length w)
         else 2 < byte_length t)"

definition fts_query_degraded :: "unicode \<Rightarrow> rune list \<Rightarrow> rune list \<Rightarrow> bool" where
  "fts_query_degraded u original0 query =
     (let original = trim_by (uc_space u) original0; stripped = filter (\<lambda>c. c \<noteq> quote_rune) original
      in if original = [] \<or> query = [] then False
         else if byte_length (punct_strip u stripped) = byte_length stripped then False
         else \<not> (\<exists>t \<in> set (fields_by (uc_space u) query). token_tells u t))"

datatype search_filter =
    Like_filter string "rune list"
  | And_filter "search_filter list"
  | Or_filter "search_filter list"

datatype search_plan =
    Natural_order string
  | By_mbid "rune list" "string list"
  | No_results
  | Like_search search_filter "string list"
  | Fts_search "rune list" "rune list" "string list"

text \<open>The searched columns with the tenths of their weights.\<close>

definition fts_column_defs :: "string \<Rightarrow> (string \<times> nat) list" where
  "fts_column_defs table =
     (if table = ''media_file'' then
        [(''title'', 100), (''album'', 50), (''artist'', 30), (''album_artist'', 30), (''sort_title'', 10),
         (''sort_album_name'', 10), (''sort_artist_name'', 10), (''sort_album_artist_name'', 10),
         (''disc_subtitle'', 10), (''search_participants'', 20), (''search_normalized'', 10)]
      else if table = ''album'' then
        [(''name'', 100), (''sort_album_name'', 10), (''album_artist'', 30), (''search_participants'', 20),
         (''discs'', 10), (''catalog_num'', 10), (''album_version'', 10), (''search_normalized'', 10)]
      else if table = ''artist'' then
        [(''name'', 100), (''sort_artist_name'', 10), (''search_normalized'', 10)]
      else [])"

definition fts_column_filter :: "string \<Rightarrow> string" where
  "fts_column_filter table = ''{'' @ join '' '' (map fst (filter (\<lambda>c. 0 < snd c) (fts_column_defs table))) @ ''}''"

definition fts_weights :: "string \<Rightarrow> string" where
  "fts_weights table =
     join '', '' (map (\<lambda>c. itoa (int (snd c div 10)) @ ''.'' @ itoa (int (snd c mod 10))) (fts_column_defs table))"

definition like_search_columns :: "string \<Rightarrow> string list" where
  "like_search_columns table =
     (if table = ''media_file'' then [''title'', ''album'', ''artist'', ''album_artist'']
      else if table = ''album'' then [''name'', ''album_artist'']
      else if table = ''artist'' then [''name''] else [])"

definition like_search_expr :: "unicode \<Rightarrow> string \<Rightarrow> rune list \<Rightarrow> search_filter option" where
  "like_search_expr u table s0 =
     (let s = trim_by (uc_space u) s0
      in if s = [] \<or> like_search_columns table = [] then None
         else Some (And_filter (map (\<lambda>w. Or_filter (map (\<lambda>c.
                Like_filter (table @ ''.'' @ c) (runes ''%'' @ w @ runes ''%'')) (like_search_columns table)))
                (fields_by (uc_space u) s))))"

record search_env =
  se_unicode :: unicode
  se_legacy :: bool
  se_full_string :: bool
  se_sanitize :: "rune list \<Rightarrow> rune list"
  se_uuid_ok :: "rune list \<Rightarrow> bool"

fun split_at :: "'a \<Rightarrow> 'a list \<Rightarrow> 'a list list" where
  "split_at sep [] = [[]]"
| "split_at sep (c # cs) =
     (if c = sep then [] # split_at sep cs
      else (case split_at sep cs of [] \<Rightarrow> [[c]] | x # xs \<Rightarrow> (c # x) # xs))"

definition legacy_search_expr :: "search_env \<Rightarrow> string \<Rightarrow> rune list \<Rightarrow> search_filter option" where
  "legacy_search_expr e table s =
     (let q = se_sanitize e s; sep = (if se_full_string e then [] else [blank])
      in if q = [] then None
         else Some (And_filter (map (\<lambda>p. Like_filter (table @ ''.full_text'')
                (runes ''%'' @ sep @ p @ runes ''%'')) (split_at blank q))))"

record search_config =
  sf_natural_order :: string
  sf_order_by :: "string list"
  sf_mbid_fields :: "string list"

text \<open>\<open>qualifyOrderBy\<close>: the empty text for expressions that only the outer query can order by.\<close>

definition qualify_order_by :: "string \<Rightarrow> string \<Rightarrow> string" where
  "qualify_order_by table ob0 =
     (let ob = trim_space ob0
      in if ob = [] \<or> CHR ''('' \<in> set ob \<or> CHR '','' \<in> set ob then []
         else (case str_fields ob of
                 [] \<Rightarrow> []
               | p # ps \<Rightarrow> join '' '' ((if CHR ''.'' \<in> set p then p else table @ ''.'' @ p) # ps)))"

definition like_plan :: "search_config \<Rightarrow> search_filter option \<Rightarrow> search_plan" where
  "like_plan cfg f = (case f of None \<Rightarrow> No_results | Some flt \<Rightarrow> Like_search flt (sf_order_by cfg))"

definition new_fts_search :: "search_env \<Rightarrow> string \<Rightarrow> search_config \<Rightarrow> rune list \<Rightarrow> search_plan" where
  "new_fts_search e table cfg query =
     (let u = se_unicode e; q = build_fts5_query u query
      in if q = [] \<or> fts_query_degraded u query q
         then (let cleaned = trim_by (uc_space u) (filter (\<lambda>c. c \<noteq> quote_rune) query)
               in if cleaned \<noteq> [] then like_plan cfg (like_search_expr u table cleaned) else No_results)
         else (let known = (fts_column_defs table \<noteq> []);
                   fts = table @ ''_fts'';
                   rank = (if known then ''bm25('' @ fts @ '', '' @ fts_weights table @ '')'' else fts @ ''.rank'')
               in Fts_search
                    (if known then runes (fts_column_filter table @ '' : ('') @ q @ runes '')'' else q)
                    (runes rank) (filter (\<lambda>o'. o' \<noteq> []) (map (qualify_order_by table) (sf_order_by cfg)))))"

definition get_search_strategy :: "search_env \<Rightarrow> string \<Rightarrow> search_config \<Rightarrow> rune list \<Rightarrow> search_plan" where
  "get_search_strategy e table cfg query =
     (if se_legacy e \<or> se_full_string e then like_plan cfg (legacy_search_expr e table query)
      else if \<exists>c \<in> set query. uc_cjk (se_unicode e) c
      then like_plan cfg (like_search_expr (se_unicode e) table query)
      else new_fts_search e table cfg query)"

definition do_search :: "search_env \<Rightarrow> string \<Rightarrow> search_config \<Rightarrow> rune list \<Rightarrow> search_plan" where
  "do_search e table cfg q0 =
     (let q1 = trim_by (uc_space (se_unicode e)) q0;
          q = (if q1 \<noteq> [] \<and> last q1 = star then butlast q1 else q1)
      in if q = [] \<or> q = [quote_rune, quote_rune] then Natural_order (sf_natural_order cfg)
         else if se_uuid_ok e q \<and> sf_mbid_fields cfg \<noteq> []
         then By_mbid (map lower_rune q) (map (\<lambda>f. table @ ''.'' @ f) (sf_mbid_fields cfg))
         else if byte_length q < 2 then No_results
         else get_search_strategy e table cfg q)"

text \<open>\<open>normalizeForFTS\<close>, at index time: the words that change when punctuation is removed.\<close>

fun normalize_words :: "unicode \<Rightarrow> rune list set \<Rightarrow> rune list list \<Rightarrow> rune list list" where
  "normalize_words u seen [] = []"
| "normalize_words u seen (w # ws) =
     (let s = punct_strip u w; l = map lower_rune s
      in if s = [] \<or> s = w \<or> l \<in> seen then normalize_words u seen ws
         else s # normalize_words u (insert l seen) ws)"

definition normalize_for_fts :: "unicode \<Rightarrow> rune list list \<Rightarrow> rune list" where
  "normalize_for_fts u values =
     join_by [blank] (normalize_words u {} (concat (map (fields_by (uc_space u)) values)))"


section \<open>Words of a text\<close>

lemma fields_from_append:
  "sep x \<Longrightarrow> fields_from sep acc (a @ x # b) = fields_from sep acc a @ fields_by sep b"
  by (induction sep acc a rule: fields_from.induct) (simp_all add: fields_by_def)

lemma fields_append: "sep x \<Longrightarrow> fields_by sep (a @ x # b) = fields_by sep a @ fields_by sep b"
  unfolding fields_by_def [of sep "a @ x # b"] fields_by_def [of sep a] by (rule fields_from_append)

lemma fields_Nil [simp]: "fields_by sep [] = []"
  by (simp add: fields_by_def)

lemma fields_sep: "sep x \<Longrightarrow> fields_by sep (x # b) = fields_by sep b"
  using fields_append [of sep x "[]" b] by simp

lemma rune_fields_from_word: "\<forall>c \<in> set s. \<not> sep c \<Longrightarrow> fields_from sep acc s = (if acc @ s = [] then [] else [acc @ s])"
  by (induction s arbitrary: acc) auto

lemma fields_word: "\<forall>c \<in> set s. \<not> sep c \<Longrightarrow> s \<noteq> [] \<Longrightarrow> fields_by sep s = [s]"
  by (simp add: fields_by_def rune_fields_from_word)

lemma fields_word_append:
  assumes "\<forall>c \<in> set s. \<not> sep c" "s \<noteq> []" "post = [] \<or> sep (hd post)"
  shows "fields_by sep (s @ post) = s # fields_by sep post"
  using assms fields_append [of sep "hd post" s "tl post"] fields_word [OF assms(1,2)]
  by (cases post) (auto simp: fields_sep)

lemma concat_fields: "concat (fields_by sep s) = filter (\<lambda>c. \<not> sep c) s"
proof -
  have "concat (fields_from sep acc s) = acc @ filter (\<lambda>c. \<not> sep c) s" for acc
    by (induction sep acc s rule: fields_from.induct) auto
  then show ?thesis by (simp add: fields_by_def)
qed

lemma fields_from_in:
  assumes "t \<in> set (fields_from sep acc s)" "\<forall>c \<in> set acc. \<not> sep c"
  shows "t \<noteq> [] \<and> (\<forall>c \<in> set t. \<not> sep c) \<and> (\<exists>pre post. acc @ s = pre @ t @ post \<and>
     (pre = [] \<or> sep (last pre)) \<and> (post = [] \<or> sep (hd post)))"
  using assms
proof (induction sep acc s rule: fields_from.induct)
  case (1 sep acc)
  then have "t = acc" "acc \<noteq> []" by (auto split: if_splits)
  with 1 show ?case
    by (intro conjI exI [of _ "[]"] exI [of _ "[]"]) simp_all
next
  case (2 sep acc c cs)
  show ?case
  proof (cases "sep c")
    case True
    show ?thesis
    proof (cases "t \<in> set (fields_from sep [] cs)")
      case inr: True
      from 2(1) [OF True inr] obtain pre post where
        "t \<noteq> []" "\<forall>c \<in> set t. \<not> sep c" "cs = pre @ t @ post" "pre = [] \<or> sep (last pre)" "post = [] \<or> sep (hd post)"
        by auto
      with True show ?thesis
        by (intro conjI exI [of _ "acc @ c # pre"] exI [of _ post]) auto
    next
      case False
      with 2(3) True have "t = acc" "acc \<noteq> []" by (auto split: if_splits)
      with 2(4) True show ?thesis
        by (intro conjI exI [of _ "[]"] exI [of _ "c # cs"]) simp_all
    qed
  next
    case False
    with 2(2) [OF False] 2(3,4) show ?thesis by auto
  qed
qed

text \<open>The words are the maximal runs without a separator.\<close>

lemma fields_iff:
  "t \<in> set (fields_by sep s) \<longleftrightarrow> t \<noteq> [] \<and> (\<forall>c \<in> set t. \<not> sep c) \<and>
     (\<exists>pre post. s = pre @ t @ post \<and> (pre = [] \<or> sep (last pre)) \<and> (post = [] \<or> sep (hd post)))"
proof
  assume "t \<in> set (fields_by sep s)"
  then show "t \<noteq> [] \<and> (\<forall>c \<in> set t. \<not> sep c) \<and>
     (\<exists>pre post. s = pre @ t @ post \<and> (pre = [] \<or> sep (last pre)) \<and> (post = [] \<or> sep (hd post)))"
    using fields_from_in [of t sep "[]" s] by (simp add: fields_by_def)
next
  assume r: "t \<noteq> [] \<and> (\<forall>c \<in> set t. \<not> sep c) \<and>
     (\<exists>pre post. s = pre @ t @ post \<and> (pre = [] \<or> sep (last pre)) \<and> (post = [] \<or> sep (hd post)))"
  then obtain pre post where s: "s = pre @ t @ post" "pre = [] \<or> sep (last pre)" "post = [] \<or> sep (hd post)"
    by blast
  from r fields_word_append [of t sep post] s(3) have f: "t \<in> set (fields_by sep (t @ post))" by simp
  show "t \<in> set (fields_by sep s)"
  proof (cases pre rule: rev_cases)
    case (snoc p x)
    with s(1,2) have "s = p @ x # (t @ post)" "sep x" by auto
    with f fields_append [of sep x p "t @ post"] show ?thesis by simp
  qed (use f s(1) in simp)
qed

lemma fields_coarser:
  assumes "t \<in> set (fields_by sepA s)" "\<forall>c \<in> set s. sepA c \<longrightarrow> sepB c" "\<forall>c \<in> set t. \<not> sepB c"
  shows "t \<in> set (fields_by sepB s)"
proof -
  from assms(1) obtain pre post where s: "s = pre @ t @ post" "t \<noteq> []"
    "pre = [] \<or> sepA (last pre)" "post = [] \<or> sepA (hd post)" unfolding fields_iff by blast
  with assms(2) have "pre = [] \<or> sepB (last pre)" "post = [] \<or> sepB (hd post)"
    by (metis in_set_conv_decomp_last append_butlast_last_id append_assoc append_Cons, metis hd_in_set Un_iff set_append)
  with s assms(3) show ?thesis unfolding fields_iff by blast
qed

lemma fields_map:
  assumes "\<forall>c \<in> set s. sep (f c) \<longleftrightarrow> sep' c"
  shows "fields_by sep (map f s) = map (map f) (fields_by sep' s)"
proof -
  have "fields_from sep (map f acc) (map f s) = map (map f) (fields_from sep' acc s)" for acc
    using assms
  proof (induction s arbitrary: acc)
    case (Cons c s)
    from Cons.prems Cons.IH [of "[]"] Cons.IH [of "acc @ [c]"] show ?case by simp
  qed simp
  from this [of "[]"] show ?thesis by (simp add: fields_by_def)
qed

lemma fields_nested:
  assumes "\<And>c. space c \<Longrightarrow> sep c"
  shows "concat (map (fields_by sep) (fields_by space s)) = fields_by sep s"
proof -
  have "concat (map (fields_by sep) (fields_from space acc s)) = fields_by sep (acc @ s)" for acc
  proof (induction s arbitrary: acc)
    case (Cons c s)
    show ?case
    proof (cases "space c")
      case True
      with Cons [of "[]"] fields_append [of sep c acc s] assms show ?thesis by auto
    next
      case False
      with Cons [of "acc @ [c]"] show ?thesis by simp
    qed
  qed auto
  from this [of "[]"] show ?thesis by (simp add: fields_by_def)
qed

lemma rune_fields_join:
  assumes "sep x"
  shows "fields_by sep (join_by [x] ws) = concat (map (fields_by sep) ws)"
  using assms by (induction "[x]" ws rule: join_by.induct) (simp_all add: fields_append)


section \<open>Operators in lower case\<close>

lemma lower_operator_not: "lower_operator w \<notin> set fts_operators"
proof (cases "map lower_rune w \<in> set (map (map lower_rune) fts_operators)")
  case True
  then show ?thesis by (auto simp: lower_operator_def fts_operators_def runes_def lower_rune_def)
next
  case False
  then show ?thesis by (auto simp: lower_operator_def)
qed

lemma lower_rune_word: "word_char (lower_rune c) \<longleftrightarrow> word_char c"
  by (auto simp: word_char_def lower_rune_def)

lemma lower_operator_words: "(\<forall>c \<in> set w. word_char c) \<Longrightarrow> c \<in> set (lower_operator w) \<Longrightarrow> word_char c"
  by (auto simp: lower_operator_def lower_rune_word split: if_splits)

lemma lower_operator_Nil [simp]: "lower_operator w = [] \<longleftrightarrow> w = []"
  by (simp add: lower_operator_def)

text \<open>The runs of word characters are the runs of the text, each with \<open>lower_operator\<close>.\<close>

lemma word_runs_lowered:
  "fields_by (\<lambda>c. \<not> word_char c) (lower_operators s) = map lower_operator (fields_by (\<lambda>c. \<not> word_char c) s)"
proof (induction s rule: lower_operators.induct)
  case (2 c cs)
  show ?case
  proof (cases "word_char c")
    case True
    let ?w = "c # takeWhile word_char cs" and ?r = "dropWhile word_char cs"
    have w: "\<forall>x \<in> set ?w. word_char x" using True by (auto dest: set_takeWhileD)
    have r: "?r = [] \<or> \<not> word_char (hd ?r)" using hd_dropWhile by blast
    have "lower_operators ?r = [] \<or> \<not> word_char (hd (lower_operators ?r))"
      using r by (cases "dropWhile word_char cs") (simp_all del: dropWhile_eq_Nil_conv)
    then have "fields_by (\<lambda>c. \<not> word_char c) (lower_operator ?w @ lower_operators ?r) =
        lower_operator ?w # fields_by (\<lambda>c. \<not> word_char c) (lower_operators ?r)"
      using lower_operator_words [OF w] by (intro fields_word_append) auto
    moreover have "fields_by (\<lambda>c. \<not> word_char c) (?w @ ?r) = ?w # fields_by (\<lambda>c. \<not> word_char c) ?r"
      using w r by (intro fields_word_append) auto
    ultimately show ?thesis using True 2(1) by simp
  next
    case False
    with 2(2) show ?thesis by (simp add: fields_sep)
  qed
qed simp

lemma lower_operators_set: "c \<in> set (lower_operators s) \<Longrightarrow> c \<in> set s \<or> c \<in> lower_rune ` set s"
proof (induction s rule: lower_operators.induct)
  case (2 x xs)
  then show ?case
    by (fastforce simp: lower_operator_def split: if_splits dest: set_takeWhileD set_dropWhileD)
qed simp

lemma lower_operators_kept:
  assumes "x \<notin> set s" "x < 65 \<or> 122 < x \<or> x = 95"
  shows "x \<notin> set (lower_operators s)"
  using assms lower_operators_set [of x s] by (auto simp: lower_rune_def split: if_splits)

section \<open>Stars\<close>

lemma strip_stars_none: "star \<notin> set s \<Longrightarrow> strip_stars b s = s"
  by (induction s arbitrary: b) auto

section \<open>Placeholders\<close>

lemma runes_inj: "runes a = runes b \<longleftrightarrow> a = b"
  unfolding runes_def by (simp add: inj_map_eq_map inj_def)


lemma show_base_inj: "show_base 10 a = show_base 10 b \<Longrightarrow> a = b"
  using read_digits_show_base [of 10 a] read_digits_show_base [of 10 b] by simp

lemma digit_rune: "d < 10 \<Longrightarrow> of_char (digit_char d) = (48 + int d)"
proof -
  assume d: "d < 10"
  then have "(of_char (digit_char d) :: nat) = 48 + d" by (simp add: digit_char_def of_char_of)
  then have "int (of_char (digit_char d)) = 48 + int d" by simp
  then show ?thesis by (simp only: of_nat_of_char)
qed

lemma placeholder_digits:
  assumes "c \<in> set (runes (itoa (int n)))"
  shows "48 \<le> c \<and> c \<le> 57"
proof -
  from assms obtain x where x: "x \<in> set (show_base 10 n)" "c = of_char x"
    by (auto simp: runes_def itoa_def show_int_def)
  with show_base_set [of 10 n] obtain d where "d < 10" "x = digit_char d" by auto
  with x(2) digit_rune [of d] show ?thesis by simp
qed

definition placeholder_name :: "nat \<Rightarrow> rune list" where
  "placeholder_name n = runes ''PHRASE'' @ runes (itoa (int n))"

lemma placeholder_split: "placeholder n = [0] @ placeholder_name n @ [0]"
  by (simp add: placeholder_def placeholder_name_def)

lemma placeholder_name_alnum: "c \<in> set (placeholder_name n) \<Longrightarrow> word_char c \<and> c \<noteq> 95"
  using placeholder_digits [of c n] by (auto simp: placeholder_name_def word_char_def runes_def)

lemma placeholder_name_hd: "placeholder_name n = 80 # tl (placeholder_name n)"
  by (simp add: placeholder_name_def runes_def)

lemma placeholder_name_inj: "placeholder_name a = placeholder_name b \<longleftrightarrow> a = b"
  using show_base_inj [of a b] by (auto simp: placeholder_name_def runes_inj itoa_def show_int_def)

lemma starts_with_append [simp]: "starts_with (p @ s) p"
  by (simp add: starts_with_def)

lemma starts_with_sep: "x \<notin> set a \<Longrightarrow> x \<notin> set b \<Longrightarrow> starts_with (a @ x # s) (b @ [x]) \<longleftrightarrow> a = b"
proof (induction a arbitrary: b)
  case Nil
  then show ?case by (cases b) (auto simp: starts_with_def)
next
  case (Cons c a)
  then show ?case by (cases b) (auto simp: starts_with_def)
qed

lemma subst_all_step:
  "old \<noteq> [] \<Longrightarrow> \<not> starts_with (c # s) old \<Longrightarrow> subst_all old new (c # s) = c # subst_all old new s"
  by (simp add: subst_all.simps [of old new "c # s"])

lemma subst_all_skip:
  "0 \<notin> set a \<Longrightarrow> old \<noteq> [] \<Longrightarrow> hd old = 0 \<Longrightarrow> subst_all old new (a @ s) = a @ subst_all old new s"
proof (induction a)
  case (Cons c a)
  then show ?case
    by (cases old) (auto simp: subst_all_step starts_with_def)
qed simp

lemma placeholder_neq: "placeholder n \<noteq> []" "hd (placeholder n) = 0"
  by (simp_all add: placeholder_def)

lemma subst_placeholder: "subst_all (placeholder n) p (placeholder n @ s) = p @ subst_all (placeholder n) p s"
  by (simp add: subst_all.simps [of _ _ "placeholder n @ s"] placeholder_neq)

text \<open>Another placeholder is left alone, unless the text after it begins like one.\<close>

lemma subst_other:
  assumes "k \<noteq> n" "s = [] \<or> hd s \<noteq> 80"
  shows "subst_all (placeholder n) p (placeholder k @ s) = placeholder k @ subst_all (placeholder n) p s"
proof -
  have n0: "0 \<notin> set (placeholder_name m)" for m
    using placeholder_name_alnum [of 0 m] by (auto simp: word_char_def)
  have "\<not> starts_with (placeholder k @ s) (placeholder n)"
    using starts_with_sep [OF n0 n0, of k s n] assms(1)
    by (simp add: placeholder_split starts_with_def placeholder_name_inj)
  then have "subst_all (placeholder n) p (placeholder k @ s) =
      0 # subst_all (placeholder n) p (placeholder_name k @ 0 # s)"
    by (simp add: subst_all_step placeholder_split)
  also have "\<dots> = 0 # placeholder_name k @ subst_all (placeholder n) p (0 # s)"
    using n0 by (simp add: subst_all_skip placeholder_neq)
  also have "subst_all (placeholder n) p (0 # s) = 0 # subst_all (placeholder n) p s"
  proof -
    have "\<not> starts_with (0 # s) (placeholder n)"
      using assms(2) by (subst placeholder_split, subst placeholder_name_hd)
        (cases s; auto simp: starts_with_def)
    then show ?thesis by (simp add: subst_all_step placeholder_neq)
  qed
  finally show ?thesis by (simp add: placeholder_split)
qed

text \<open>Tokens are texts without NUL or placeholders; filling is done token by token.\<close>

type_synonym token = "rune list + nat"

primrec token_text :: "token \<Rightarrow> rune list" where
  "token_text (Inl t) = t"
| "token_text (Inr k) = placeholder k"

primrec token_filled :: "nat \<Rightarrow> rune list list \<Rightarrow> token \<Rightarrow> rune list" where
  "token_filled n ps (Inl t) = t"
| "token_filled n ps (Inr k) = ps ! (k - n)"


fun token_step :: "nat \<Rightarrow> rune list \<Rightarrow> token \<Rightarrow> token" where
  "token_step n p (Inl t) = Inl t"
| "token_step n p (Inr k) = (if k = n then Inl p else Inr k)"

lemma token_step_Inr: "token_step n p t = Inr k \<longleftrightarrow> t = Inr k \<and> k \<noteq> n"
  by (cases t) auto

definition token_clean :: "token \<Rightarrow> bool" where
  "token_clean t \<longleftrightarrow> (case t of Inl x \<Rightarrow> 0 \<notin> set x | Inr k \<Rightarrow> True)"

lemma subst_nil [simp]: "subst_all (placeholder n) p [] = []"
  by (simp add: subst_all.simps [of _ _ "[]"] starts_with_def placeholder_def)

lemma subst_token:
  "token_clean t \<Longrightarrow> s = [] \<or> hd s \<noteq> 80 \<Longrightarrow>
     subst_all (placeholder n) p (token_text t @ s) = token_text (token_step n p t) @ subst_all (placeholder n) p s"
  by (cases t) (auto simp: token_clean_def subst_all_skip placeholder_neq subst_placeholder subst_other)

lemma subst_tokens:
  assumes "\<forall>t \<in> set ts. token_clean t" "0 \<notin> set sep" "sep \<noteq> []" "hd sep \<noteq> 80"
  shows "subst_all (placeholder n) p (join_by sep (map token_text ts)) =
     join_by sep (map (\<lambda>t. token_text (token_step n p t)) ts)"
  using assms(1)
proof (induction ts rule: induct_list012)
  case 1
  then show ?case by simp
next
  case (2 t)
  with subst_token [of t "[]" n p] show ?case by simp
next
  case (3 t t' ts)
  let ?s = "join_by sep (map token_text (t' # ts))"
  have "subst_all (placeholder n) p (token_text t @ sep @ ?s) =
      token_text (token_step n p t) @ sep @ subst_all (placeholder n) p ?s"
    using subst_token [of t "sep @ ?s" n p] 3(3) assms(2-4) by (simp add: subst_all_skip placeholder_neq)
  with 3 show ?case by simp
qed

lemma fill_tokens:
  assumes "\<forall>t \<in> set ts. token_clean t" "\<forall>p \<in> set ps. 0 \<notin> set p"
    "\<And>k. Inr k \<in> set ts \<Longrightarrow> n \<le> k \<and> k < n + length ps"
    "0 \<notin> set sep" "sep \<noteq> []" "hd sep \<noteq> 80"
  shows "fill_phrases n ps (join_by sep (map token_text ts)) = join_by sep (map (token_filled n ps) ts)"
  using assms(1-3)
proof (induction ps arbitrary: n ts)
  case Nil
  then have "\<forall>t \<in> set ts. token_text t = token_filled n [] t"
    by (metis add.right_neutral linorder_not_less list.size(3) obj_sumE token_filled.simps(1) token_text.simps(1))
  then have "map token_text ts = map (token_filled n []) ts" by simp
  then show ?case by (simp only: fill_phrases.simps)
next
  case (Cons p ps)
  let ?ts = "map (token_step n p) ts"
  have "token_clean (token_step n p t)" if "t \<in> set ts" for t
    using Cons.prems(1,2) that by (cases t) (auto simp: token_clean_def)
  moreover have "Suc n \<le> k \<and> k < Suc n + length ps" if k: "Inr k \<in> set ?ts" for k
  proof -
    from k obtain t where "t \<in> set ts" "Inr k = token_step n p t" by auto
    then have "Inr k \<in> set ts \<and> k \<noteq> n" using token_step_Inr [of n p t k] by simp
    with Cons.prems(3) [of k] show ?thesis by simp
  qed
  ultimately have "fill_phrases (Suc n) ps (join_by sep (map token_text ?ts)) =
      join_by sep (map (token_filled (Suc n) ps) ?ts)"
    using Cons.prems(2) by (intro Cons.IH) auto
  moreover have "token_filled (Suc n) ps (token_step n p t) = token_filled n (p # ps) t" if "t \<in> set ts" for t
  proof (cases t)
    case (Inr k)
    with Cons.prems(3) [of k] that have "n \<le> k" by simp
    then have "k = n \<or> k - n = Suc (k - Suc n)" by linarith
    with Inr show ?thesis by auto
  qed simp
  then have "map (token_filled (Suc n) ps) ?ts = map (token_filled n (p # ps)) ts" by simp
  moreover have "subst_all (placeholder n) p (join_by sep (map token_text ts)) = join_by sep (map token_text ?ts)"
    using subst_tokens [OF Cons.prems(1) assms(4-6), of n p] by (simp add: comp_def)
  ultimately show ?case by (simp only: fill_phrases.simps)
qed


section \<open>What an expression means\<close>

text \<open>
  A well-formed expression is a conjunction of terms: a prefix, the phrase of a dotted
  abbreviation, or a phrase with its letters run together as the alternative.
\<close>

datatype fts_term =
    Prefix_term "rune list"
  | Phrase_term "rune list list"
  | Alt_term "rune list list" "rune list"

primrec print_term :: "fts_term \<Rightarrow> rune list" where
  "print_term (Prefix_term w) = w @ [star]"
| "print_term (Phrase_term ws) = quoted (join_by [blank] ws)"
| "print_term (Alt_term ws c) =
     runes ''('' @ quoted (join_by [blank] ws) @ runes '' OR '' @ c @ [star] @ runes '')''"

primrec term_words :: "fts_term \<Rightarrow> rune list list" where
  "term_words (Prefix_term w) = [w]"
| "term_words (Phrase_term ws) = ws"
| "term_words (Alt_term ws c) = ws"

definition fts_word :: "unicode \<Rightarrow> rune list \<Rightarrow> bool" where
  "fts_word u w \<longleftrightarrow> w \<noteq> [] \<and> (\<forall>c \<in> set w. alnum u c)"

definition term_ok :: "unicode \<Rightarrow> fts_term \<Rightarrow> bool" where
  "term_ok u t \<longleftrightarrow>
     (case t of
        Prefix_term w \<Rightarrow> fts_word u w \<and> w \<notin> set fts_operators
      | Phrase_term ws \<Rightarrow> list_all (fts_word u) ws
      | Alt_term ws c \<Rightarrow> list_all (fts_word u) ws \<and> c = concat ws \<and> c \<notin> set fts_operators)"

text \<open>Unicode's classes extend the ones of ASCII, and no letter or number is white space.\<close>

definition unicode_ok :: "unicode \<Rightarrow> bool" where
  "unicode_ok u \<longleftrightarrow>
     (\<forall>c. word_char c \<and> c \<noteq> 95 \<longrightarrow> alnum u c) \<and> (\<forall>c. alnum u c \<longrightarrow> \<not> uc_space u c) \<and>
     (\<forall>c. re_space c \<longrightarrow> uc_space u c) \<and> \<not> uc_space u 0"

text \<open>What the user types without the characters that mean something to the search.\<close>

definition plain_query :: "unicode \<Rightarrow> rune list \<Rightarrow> bool" where
  "plain_query u s \<longleftrightarrow>
     set s \<inter> {0, quote_rune, star, 95} = {} \<and>
     list_all (\<lambda>w. punct_strip u w \<notin> set fts_operators)
       (fields_by (uc_space u) (lower_operators (trim_by (uc_space u) s)))"

definition word_ast :: "unicode \<Rightarrow> rune list \<Rightarrow> fts_term list" where
  "word_ast u w =
     (let c = punct_strip u w; subs = fields_by (\<lambda>c. \<not> alnum u c) w
      in if set w \<inter> name_punctuation = {} \<or> c = [] \<or> c = w then map Prefix_term subs
         else if length subs < 2 then [Prefix_term c]
         else if is_dotted_abbreviation u w subs then [Phrase_term subs] else [Alt_term subs c])"

lemma alnum_words: "w \<in> set (fields_by (\<lambda>c. \<not> alnum u c) s) \<Longrightarrow> fts_word u w"
  unfolding fields_iff fts_word_def by blast

lemma concat_words: "concat (fields_by (\<lambda>c. \<not> alnum u c) s) = punct_strip u s"
  by (simp add: concat_fields punct_strip_def)

lemma one_word:
  assumes "length (fields_by (\<lambda>c. \<not> alnum u c) w) < 2" "punct_strip u w \<noteq> []"
  shows "fields_by (\<lambda>c. \<not> alnum u c) w = [punct_strip u w]"
proof (cases "fields_by (\<lambda>c. \<not> alnum u c) w")
  case Nil
  with concat_words [of u w] assms(2) show ?thesis by simp
next
  case (Cons x xs)
  with concat_words [of u w] assms(1) show ?thesis by simp
qed

lemma word_ast_words: "concat (map term_words (word_ast u w)) = fields_by (\<lambda>c. \<not> alnum u c) w"
  using one_word [of u w] by (simp add: word_ast_def Let_def comp_def)

lemma word_ast_ok:
  assumes "punct_strip u w \<notin> set fts_operators" "set (fields_by (\<lambda>c. \<not> alnum u c) w) \<inter> set fts_operators = {}"
  shows "list_all (term_ok u) (word_ast u w)"
proof -
  have "term_ok u (Prefix_term t)" if "t \<in> set (fields_by (\<lambda>c. \<not> alnum u c) w)" for t
    using assms(2) alnum_words [OF that] that by (auto simp: term_ok_def)
  moreover have "list_all (fts_word u) (fields_by (\<lambda>c. \<not> alnum u c) w)"
    by (simp add: list_all_iff alnum_words)
  ultimately show ?thesis
    using assms(1) one_word [of u w] concat_words [of u w]
    by (auto simp: word_ast_def Let_def term_ok_def list_all_iff)
qed


text \<open>One word: its tokens, filled with its own phrase, are its terms.\<close>

lemma word_separators:
  assumes "unicode_ok u" "set w \<inter> {0, quote_rune, star} = {}"
  shows "fields_by (uc_space u) (blank_specials u w) = fields_by (\<lambda>c. \<not> alnum u c) w"
proof -
  have b: "uc_space u blank" using assms(1) by (simp add: unicode_ok_def re_space_def blank_def)
  have "uc_space u (if special_char u c then blank else c) \<longleftrightarrow> \<not> alnum u c" if "c \<in> set w" for c
    using assms that b by (auto simp: unicode_ok_def special_char_def)
  then have "fields_by (uc_space u) (blank_specials u w) =
      map (map (\<lambda>c. if special_char u c then blank else c)) (fields_by (\<lambda>c. \<not> alnum u c) w)"
    unfolding blank_specials_def by (intro fields_map) simp
  moreover have "map (\<lambda>c. if special_char u c then blank else c) t = t" if "t \<in> set (fields_by (\<lambda>c. \<not> alnum u c) w)" for t
    using alnum_words [OF that] by (intro map_idI) (auto simp: fts_word_def special_char_def)
  ultimately show ?thesis by (simp cong: map_cong)
qed

lemma star_word: "star \<notin> set t \<Longrightarrow> 0 \<notin> set t \<Longrightarrow> star_token t = t @ [star]"
  by (cases t) (auto simp: star_token_def starts_with_def dest: last_in_set split: if_splits)

lemma placeholder_word:
  assumes "unicode_ok u"
  shows "fields_by (uc_space u) (blank_specials u (placeholder n)) = [placeholder n]" "star_token (placeholder n) = placeholder n"
proof -
  have a: "alnum u c \<or> c = 0" if "c \<in> set (placeholder n)" for c
    using that placeholder_name_alnum [of c n] assms by (auto simp: placeholder_split unicode_ok_def)
  then have "blank_specials u (placeholder n) = placeholder n"
    unfolding blank_specials_def by (intro map_idI) (auto simp: special_char_def)
  moreover have "\<forall>c \<in> set (placeholder n). \<not> uc_space u c" using a assms by (auto simp: unicode_ok_def)
  ultimately show "fields_by (uc_space u) (blank_specials u (placeholder n)) = [placeholder n]"
    by (simp add: fields_word placeholder_neq)
  show "star_token (placeholder n) = placeholder n" by (simp add: star_token_def placeholder_def starts_with_def)
qed

lemma star_words:
  assumes "set w \<inter> {0, star} = {}"
  shows "map star_token (fields_by (\<lambda>c. \<not> alnum u c) w) = map token_text (map (\<lambda>t. Inl (t @ [star])) (fields_by (\<lambda>c. \<not> alnum u c) w))"
proof -
  have "star_token t = t @ [star]" if "t \<in> set (fields_by (\<lambda>c. \<not> alnum u c) w)" for t
  proof (rule star_word)
    from that obtain pre post where "w = pre @ t @ post" unfolding fields_iff by blast
    with assms show "star \<notin> set t" "0 \<notin> set t" by auto
  qed
  then show ?thesis by (simp add: comp_def)
qed

definition word_tokens :: "unicode \<Rightarrow> nat \<Rightarrow> rune list \<Rightarrow> token list" where
  "word_tokens u n w =
     (let c = punct_strip u w; subs = fields_by (\<lambda>c. \<not> alnum u c) w
      in if set w \<inter> name_punctuation = {} \<or> c = [] \<or> c = w then map (\<lambda>t. Inl (t @ [star])) subs
         else if length subs < 2 then [Inl (c @ [star])] else [Inr n])"


lemma token_filled_append:
  "t \<noteq> Inr n \<Longrightarrow> p = [] \<or> (\<exists>x. p = [x]) \<Longrightarrow> (\<And>k. t = Inr k \<Longrightarrow> n + length p \<le> k) \<Longrightarrow>
     token_filled n (p @ ps) t = token_filled (n + length p) ps t"
  by (cases t) (auto simp: nth_append)

lemma not_zero_join: "0 \<notin> set sep \<Longrightarrow> \<forall>w \<in> set ws. 0 \<notin> set w \<Longrightarrow> 0 \<notin> set (join_by sep ws)" for sep :: "rune list"
  by (induction sep ws rule: join_by.induct) auto

lemma words_part: "t \<in> set (fields_by sep w) \<Longrightarrow> set t \<subseteq> set w"
  unfolding fields_iff by auto

lemma process_word_cases:
  assumes "unicode_ok u" "set w \<inter> {0, quote_rune, star} = {}"
  shows "process_word u n w =
     (let c = punct_strip u w; subs = fields_by (\<lambda>c. \<not> alnum u c) w
      in if set w \<inter> name_punctuation = {} \<or> c = [] \<or> c = w then (w, [])
         else if length subs < 2 then (c, []) else (placeholder n, map print_term (word_ast u w)))"
proof -
  have "\<not> starts_with w [0]" using assms(2) by (cases w) (auto simp: starts_with_def)
  with assms(2) show ?thesis
    by (auto simp: process_word_def word_separators [OF assms] word_ast_def Let_def)
qed

lemma process_word_tokens:
  assumes "unicode_ok u" "set w \<inter> {0, quote_rune, star} = {}" "process_word u n w = (w', p)"
  shows "map star_token (fields_by (uc_space u) (blank_specials u w')) = map token_text (word_tokens u n w)"
proof -
  let ?c = "punct_strip u w"
  have c: "set ?c \<inter> {0, quote_rune, star} = {}" "punct_strip u ?c = ?c"
    using assms(2) by (auto simp: punct_strip_def)
  have "fields_by (\<lambda>c. \<not> alnum u c) ?c = [?c]" if "?c \<noteq> []"
    using that by (intro fields_word) (auto simp: punct_strip_def)
  with star_words [of ?c u] c(1) have s: "map star_token [?c] = map token_text [Inl (?c @ [star])]" if "?c \<noteq> []"
    using that by fastforce
  show ?thesis
    using assms(3) word_separators [OF assms(1,2)] word_separators [OF assms(1) c(1)] star_words [of w u] assms(2) s
      \<open>?c \<noteq> [] \<Longrightarrow> fields_by (\<lambda>c. \<not> alnum u c) ?c = [?c]\<close>
    unfolding process_word_cases [OF assms(1,2)]
    by (auto simp: word_tokens_def Let_def placeholder_word [OF assms(1)] split: if_splits)
qed

lemma process_word_phrases:
  assumes "unicode_ok u" "set w \<inter> {0, quote_rune, star} = {}" "process_word u n w = (w', p)"
  shows "\<forall>x \<in> set p. 0 \<notin> set x" "(\<exists>k. Inr k \<in> set (word_tokens u n w)) \<longrightarrow> length p = 1"
    "Inr k \<in> set (word_tokens u n w) \<Longrightarrow> k = n"
    "map (token_filled n (p @ ps)) (word_tokens u n w) = map print_term (word_ast u w)"
proof -
  have z: "0 \<notin> set (punct_strip u w)" using assms(2) by (auto simp: punct_strip_def)
  have "0 \<notin> set t" if "t \<in> set (fields_by (\<lambda>c. \<not> alnum u c) w)" for t
    using words_part [OF that] assms(2) by auto
  then have "0 \<notin> set (join_by [blank] (fields_by (\<lambda>c. \<not> alnum u c) w))"
    by (intro not_zero_join) (auto simp: blank_def)
  then have "0 \<notin> set (print_term t)" if "t \<in> set (word_ast u w)" "length (word_ast u w) = 1" "0 \<notin> set (punct_strip u w)"
      "\<not> length (fields_by (\<lambda>c. \<not> alnum u c) w) < 2" "punct_strip u w \<noteq> []" "punct_strip u w \<noteq> w" "set w \<inter> name_punctuation \<noteq> {}" for t
    using that by (auto simp: word_ast_def Let_def quoted_def runes_def quote_rune_def star_def split: if_splits)
  with z show "\<forall>x \<in> set p. 0 \<notin> set x"
    using assms(3) unfolding process_word_cases [OF assms(1,2)]
    by (auto simp: Let_def word_ast_def split: if_splits)
  show "(\<exists>k. Inr k \<in> set (word_tokens u n w)) \<longrightarrow> length p = 1" "Inr k \<in> set (word_tokens u n w) \<Longrightarrow> k = n"
    "map (token_filled n (p @ ps)) (word_tokens u n w) = map print_term (word_ast u w)"
    using assms(3) unfolding process_word_cases [OF assms(1,2)]
    by (auto simp: word_tokens_def word_ast_def Let_def split: if_splits)
qed


fun query_tokens :: "unicode \<Rightarrow> nat \<Rightarrow> rune list list \<Rightarrow> token list" where
  "query_tokens u n [] = []"
| "query_tokens u n (w # ws) =
     word_tokens u n w @ query_tokens u (n + length (snd (process_word u n w))) ws"

lemma process_words_tokens:
  assumes "unicode_ok u" "\<forall>w \<in> set ws. set w \<inter> {0, quote_rune, star} = {}" "process_words u n ws = (ws', ps)"
  shows "map star_token (concat (map (\<lambda>w. fields_by (uc_space u) (blank_specials u w)) ws')) =
      map token_text (query_tokens u n ws)"
    and "\<forall>p \<in> set ps. 0 \<notin> set p"
    and "\<And>k. Inr k \<in> set (query_tokens u n ws) \<Longrightarrow> n \<le> k \<and> k < n + length ps"
    and "map (token_filled n ps) (query_tokens u n ws) = map print_term (concat (map (word_ast u) ws))"
proof -
  have "map star_token (concat (map (\<lambda>w. fields_by (uc_space u) (blank_specials u w)) ws')) =
        map token_text (query_tokens u n ws) \<and>
      (\<forall>p \<in> set ps. 0 \<notin> set p) \<and> (\<forall>k. Inr k \<in> set (query_tokens u n ws) \<longrightarrow> n \<le> k \<and> k < n + length ps) \<and>
      map (token_filled n ps) (query_tokens u n ws) = map print_term (concat (map (word_ast u) ws))"
    using assms(2,3)
  proof (induction ws arbitrary: n ws' ps)
    case (Cons w ws)
    obtain v p where v: "process_word u n w = (v, p)" by (cases "process_word u n w")
    obtain vs qs where vs: "process_words u (n + length p) ws = (vs, qs)"
      by (cases "process_words u (n + length p) ws")
    from Cons.prems(2) v vs have e: "ws' = v # vs" "ps = p @ qs" by auto
    from Cons.prems(1) have w: "set w \<inter> {0, quote_rune, star} = {}" by simp
    note one = process_word_tokens [OF assms(1) w v] process_word_phrases [OF assms(1) w v]
    from Cons.IH [OF _ vs] Cons.prems(1) have ih:
      "map star_token (concat (map (\<lambda>w. fields_by (uc_space u) (blank_specials u w)) vs)) =
        map token_text (query_tokens u (n + length p) ws)"
      "\<forall>p \<in> set qs. 0 \<notin> set p"
      "\<And>k. Inr k \<in> set (query_tokens u (n + length p) ws) \<Longrightarrow> n + length p \<le> k \<and> k < n + length p + length qs"
      "map (token_filled (n + length p) qs) (query_tokens u (n + length p) ws) = map print_term (concat (map (word_ast u) ws))"
      by (auto simp: Let_def)
    have p1: "p = [] \<or> (\<exists>x. p = [x])"
      using v unfolding process_word_cases [OF assms(1) w]
      by (auto simp: Let_def word_ast_def split: if_splits)
    have "token_filled n (p @ qs) t = token_filled (n + length p) qs t" if "t \<in> set (query_tokens u (n + length p) ws)" for t
    proof (cases t)
      case (Inr k)
      with ih(3) [of k] that show ?thesis by (auto simp: nth_append)
    qed simp
    then have "map (token_filled n (p @ qs)) (query_tokens u (n + length p) ws) =
        map (token_filled (n + length p) qs) (query_tokens u (n + length p) ws)" by (intro map_cong) simp_all
    note this [unfolded ih(4)]
    moreover have "n \<le> k \<and> k < n + length (p @ qs)" if "Inr k \<in> set (query_tokens u n (w # ws))" for k
      using that v one(3,4) ih(3) [of k] by fastforce
    ultimately show ?case using one(1,2,5) ih(1,2) e v by auto
  qed simp
  then show "map star_token (concat (map (\<lambda>w. fields_by (uc_space u) (blank_specials u w)) ws')) =
      map token_text (query_tokens u n ws)"
    "\<forall>p \<in> set ps. 0 \<notin> set p"
    "\<And>k. Inr k \<in> set (query_tokens u n ws) \<Longrightarrow> n \<le> k \<and> k < n + length ps"
    "map (token_filled n ps) (query_tokens u n ws) = map print_term (concat (map (word_ast u) ws))" by blast+
qed


lemma query_tokens_clean: "\<forall>w \<in> set ws. 0 \<notin> set w \<Longrightarrow> t \<in> set (query_tokens u n ws) \<Longrightarrow> token_clean t"
proof (induction ws arbitrary: n)
  case (Cons w ws)
  then have w: "0 \<notin> set w" by simp
  have "0 \<notin> set x" if "x \<in> set (fields_by (\<lambda>c. \<not> alnum u c) w)" for x
    using words_part [OF that] w by auto
  then have "token_clean t" if "t \<in> set (word_tokens u n w)"
    using that w by (auto simp: word_tokens_def Let_def token_clean_def punct_strip_def star_def split: if_splits)
  with Cons show ?case by auto
qed simp

text \<open>The whole expression.\<close>

lemma trim_by_subset: "set (trim_by P s) \<subseteq> set s"
  unfolding trim_by_def by (auto dest!: set_dropWhileD)

lemma lowered_plain:
  assumes "set s \<inter> {0, quote_rune, star, 95} = {}"
  shows "set (lower_operators (trim_by P s)) \<inter> {0, quote_rune, star, 95} = {}"
proof -
  have "x \<notin> set (lower_operators (trim_by P s))" if "x \<in> {0, quote_rune, star, 95}" for x
    using that assms trim_by_subset [of P s]
    by (intro lower_operators_kept) (auto simp: quote_rune_def star_def)
  then show ?thesis by auto
qed

lemma no_quote_no_phrase: "quote_rune \<notin> set s \<Longrightarrow> extract_phrases n s = (s, [])"
proof -
  assume "quote_rune \<notin> set s"
  then have "\<forall>c \<in> set s. c \<noteq> quote_rune" by auto
  then have t: "takeWhile (\<lambda>c. c \<noteq> quote_rune) s = s" and d: "dropWhile (\<lambda>c. c \<noteq> quote_rune) s = []"
    by (simp_all only: takeWhile_eq_all_conv dropWhile_eq_Nil_conv)
  show ?thesis unfolding extract_phrases.simps [of n s] t d by simp
qed

lemma no_operator_word:
  assumes "unicode_ok u" "95 \<notin> set (lower_operators s)"
    and t: "t \<in> set (fields_by (\<lambda>c. \<not> alnum u c) (lower_operators s))"
  shows "t \<notin> set fts_operators"
proof
  assume op: "t \<in> set fts_operators"
  then have "\<forall>c \<in> set t. word_char c" by (auto simp: fts_operators_def runes_def word_char_def)
  then have "t \<in> set (fields_by (\<lambda>c. \<not> word_char c) (lower_operators s))"
    using assms(1,2) by (intro fields_coarser [OF t]) (auto simp: unicode_ok_def)
  with lower_operator_not op show False by (auto simp: word_runs_lowered)
qed

lemma blank_join: "blank_specials u (join_by [blank] ws) = join_by [blank] (map (blank_specials u) ws)"
  by (induction "[blank]" ws rule: join_by.induct) (auto simp: blank_specials_def)

lemma blanked_no_star:
  assumes "unicode_ok u" "\<forall>w \<in> set ws. set w \<inter> {0, quote_rune, star} = {}" "\<not> alnum u star" "process_words u n ws = (ws', ps)"
  shows "star \<notin> set (blank_specials u (join_by [blank] ws'))"
proof -
  have one: "star \<notin> set v" if "process_word u n w = (v, p)" "set w \<inter> {0, quote_rune, star} = {}" for n w v p
    using that assms(3) placeholder_name_alnum [of star n] unfolding process_word_cases [OF assms(1) that(2)]
    by (auto simp: Let_def punct_strip_def placeholder_split star_def word_char_def split: if_splits)
  have "\<forall>v \<in> set ws'. star \<notin> set v"
    using assms(2,4)
  proof (induction ws arbitrary: n ws' ps)
    case (Cons w ws)
    then show ?case
      by (cases "process_word u n w"; cases "process_words u (n + length (snd (process_word u n w))) ws")
        (auto dest: one)
  qed simp
  then have "star \<notin> set (join_by [blank] ws')"
    by (induction "[blank]" ws' rule: join_by.induct) (auto simp: star_def blank_def)
  then show ?thesis by (auto simp: blank_specials_def star_def blank_def)
qed

lemma query_expression:
  assumes u: "unicode_ok u" and "\<not> alnum u star" and p: "plain_query u s"
  defines "L \<equiv> lower_operators (trim_by (uc_space u) s)"
  shows "build_fts5_query u s =
     join_by (runes '' AND '') (map print_term (concat (map (word_ast u) (fields_by (uc_space u) L))))"
proof -
  let ?q = "trim_by (uc_space u) s" and ?ws = "fields_by (uc_space u) L"
  have nq: "quote_rune \<notin> set ?q" using p trim_by_subset [of "uc_space u" s] by (auto simp: plain_query_def)
  have ws: "\<forall>w \<in> set ?ws. set w \<inter> {0, quote_rune, star} = {}"
    using lowered_plain [of s "uc_space u"] p words_part [of _ "uc_space u" L]
    unfolding L_def plain_query_def by blast
  obtain ws' ps where pw: "process_words u 0 ?ws = (ws', ps)" by (cases "process_words u 0 ?ws")
  note tok = process_words_tokens [OF u ws pw]
  have bl: "uc_space u blank" using u by (simp add: unicode_ok_def re_space_def blank_def)
  have "fields_by (uc_space u) (strip_stars True (blank_specials u (join_by [blank] ws'))) =
      concat (map (\<lambda>w. fields_by (uc_space u) (blank_specials u w)) ws')"
    using blanked_no_star [OF u ws assms(2) pw] bl
    by (simp add: strip_stars_none blank_join rune_fields_join comp_def)
  then have t: "map star_token (fields_by (uc_space u) (strip_stars True (blank_specials u (join_by [blank] ws')))) =
      map token_text (query_tokens u 0 ?ws)"
    using tok(1) by simp
  show ?thesis
  proof (cases "?q = []")
    case True
    then show ?thesis by (simp add: build_fts5_query_def L_def Let_def)
  next
    case False
    have "?q \<noteq> [quote_rune, quote_rune]" using nq by auto
    with False have "build_fts5_query u s =
        fill_phrases 0 ps (join_by (runes '' AND '') (map token_text (query_tokens u 0 ?ws)))"
      using pw t by (simp add: build_fts5_query_def no_quote_no_phrase [OF nq] L_def)
    also have "\<dots> = join_by (runes '' AND '') (map (token_filled 0 ps) (query_tokens u 0 ?ws))"
    proof (rule fill_tokens)
      show "\<forall>t \<in> set (query_tokens u 0 ?ws). token_clean t"
        using ws by (intro ballI, elim query_tokens_clean [rotated]) auto
    qed (use tok in \<open>auto simp: runes_def\<close>)
    finally show ?thesis using tok(4) by simp
  qed
qed


lemma concat_word_ast:
  "concat (map term_words (concat (map (word_ast u) ws))) = concat (map (fields_by (\<lambda>c. \<not> alnum u c)) ws)"
  by (induction ws) (simp_all add: word_ast_words)

text \<open>
  C8. A plain query becomes a well-formed expression of the full-text search: a conjunction of
  prefixes and phrases made of letters and numbers only, none of them a bare operator, and its
  words are the words of the query in their order, with the operators in lower case. So nothing
  that is typed is lost, and none of it is read as syntax.
\<close>

theorem plain_query_safe:
  assumes "unicode_ok u" "\<not> alnum u star" "plain_query u s"
  shows "\<exists>ts. build_fts5_query u s = join_by (runes '' AND '') (map print_term ts) \<and>
     list_all (term_ok u) ts \<and>
     concat (map term_words ts) =
       fields_by (\<lambda>c. \<not> alnum u c) (lower_operators (trim_by (uc_space u) s))"
proof -
  let ?L = "lower_operators (trim_by (uc_space u) s)"
  let ?ws = "fields_by (uc_space u) ?L"
  let ?ts = "concat (map (word_ast u) ?ws)"
  have n: "concat (map (fields_by (\<lambda>c. \<not> alnum u c)) ?ws) = fields_by (\<lambda>c. \<not> alnum u c) ?L"
    using assms(1) by (intro fields_nested) (auto simp: unicode_ok_def)
  have no95: "95 \<notin> set ?L"
    using assms(3) lowered_plain [of s "uc_space u"] by (auto simp: plain_query_def)
  have "list_all (term_ok u) (word_ast u w)" if w: "w \<in> set ?ws" for w
  proof (rule word_ast_ok)
    show "punct_strip u w \<notin> set fts_operators" using assms(3) w by (auto simp: plain_query_def list_all_iff)
    have "set (fields_by (\<lambda>c. \<not> alnum u c) w) \<subseteq> set (fields_by (\<lambda>c. \<not> alnum u c) ?L)"
      unfolding n [symmetric] using w by auto
    with no_operator_word [OF assms(1) no95] show "set (fields_by (\<lambda>c. \<not> alnum u c) w) \<inter> set fts_operators = {}"
      by blast
  qed
  then have "list_all (term_ok u) ?ts" by (auto simp: list_all_iff)
  moreover have "concat (map term_words ?ts) = fields_by (\<lambda>c. \<not> alnum u c) ?L"
    unfolding n [symmetric] by (rule concat_word_ast)
  ultimately show ?thesis using query_expression [OF assms] by blast
qed

text \<open>ASCII alone satisfies what is asked of the tables; the query is \<open>A-C OR d\<close>.\<close>

definition ascii_unicode :: unicode where
  "ascii_unicode = \<lparr>uc_letter = (\<lambda>c. (65 \<le> c \<and> c \<le> 90) \<or> (97 \<le> c \<and> c \<le> 122)),
     uc_number = (\<lambda>c. 48 \<le> c \<and> c \<le> 57), uc_space = re_space, uc_cjk = (\<lambda>c. 0x2E80 \<le> c)\<rparr>"

lemma ascii_unicode_ok: "unicode_ok ascii_unicode" "\<not> alnum ascii_unicode star"
  by (auto simp: unicode_ok_def ascii_unicode_def alnum_def re_space_def word_char_def star_def)

lemma plain_query_safe_witness:
  "(\<exists>ts. build_fts5_query ascii_unicode (runes ''A-C OR d'') = join_by (runes '' AND '') (map print_term ts) \<and>
     list_all (term_ok ascii_unicode) ts \<and>
     concat (map term_words ts) = map runes [''A'', ''C'', ''or'', ''d'']) \<and>
   build_fts5_query ascii_unicode (runes ''A-C OR d'') = runes ''(\"A C\" OR AC*) AND or* AND d*''"
proof -
  have p: "plain_query ascii_unicode (runes ''A-C OR d'')" by code_simp
  have w: "fields_by (\<lambda>c. \<not> alnum ascii_unicode c)
      (lower_operators (trim_by (uc_space ascii_unicode) (runes ''A-C OR d''))) =
      map runes [''A'', ''C'', ''or'', ''d'']" by code_simp
  have b: "build_fts5_query ascii_unicode (runes ''A-C OR d'') = runes ''(\"A C\" OR AC*) AND or* AND d*''"
    by code_simp
  show ?thesis using plain_query_safe [OF ascii_unicode_ok p] b unfolding w by simp
qed

section \<open>Queries that are not plain\<close>

text \<open>
  An operator that only appears once punctuation is removed is not lowered, and reaches the
  search as syntax: \<open>O'R\<close>, or a word between underscores, which count as word characters for
  \<open>\b\<close> but are blanked afterwards.
\<close>

lemma operator_from_punctuation:
  "build_fts5_query ascii_unicode (runes ''O'' @ [39] @ runes ''R'') = runes ''(\"O R\" OR OR*)''"
  "build_fts5_query ascii_unicode (runes ''_NOT_'') = runes ''NOT*''"
  by code_simp+

text \<open>Two stars at the end of a word stay, and the search rejects \<open>love**\<close>.\<close>

lemma double_star_kept: "build_fts5_query ascii_unicode (runes ''love**'') = runes ''love**''"
  by code_simp

text \<open>
  Phrases are restored by number, so a placeholder inside a word with a hyphen is taken apart and
  comes back as part of the new phrase: its quotes end the phrase early.
\<close>

lemma placeholder_in_phrase:
  "build_fts5_query ascii_unicode (runes ''a-\"b\"'') \<noteq> runes ''a* AND \"b\"''"
  by code_simp

text \<open>
  The connective counts as a word of three bytes, so a query of two or more words is never found
  degraded, although each of them may be a single letter.
\<close>

lemma never_degraded:
  "build_fts5_query ascii_unicode (runes ''C++ C#'') = runes ''C* AND C*''"
  "\<not> fts_query_degraded ascii_unicode (runes ''C++ C#'') (runes ''C* AND C*'')"
  "fts_query_degraded ascii_unicode (runes ''C++'') (runes ''C*'')"
  by code_simp+


end
