(* ===== verification/M3u.thy ===== *)
theory M3u
  imports Complex_Main Paths Slices
begin

text \<open>
  M3U playlists: \<open>core/playlists/parse_m3u.go\<close>, \<open>model/file_types.go\<close>, the export of
  \<open>model/mediafile.go\<close> and the playlist of \<open>model/playlist.go\<close> that it fills, and \<open>FindByPaths\<close> of
  \<open>persistence/mediafile_repository.go\<close>. The lines of a file are read in chunks, the entries of a
  chunk are resolved to libraries and looked up together. Unicode normalisation and case, and the
  table of MIME types, are arguments; a query of the table fails or gives rows.
\<close>

section \<open>Kinds of files\<close>

record m3u_env =
  mu_mime :: "string \<Rightarrow> string"
  mu_nfc :: "string \<Rightarrow> string"
  mu_nfd :: "string \<Rightarrow> string"
  mu_lower :: "string \<Rightarrow> string"
  mu_external_art :: bool

definition is_audio_file :: "m3u_env \<Rightarrow> string \<Rightarrow> bool" where
  "is_audio_file e f =
     (let ext = to_lower (path_ext f)
      in if ext = ''.strm'' then True
         else (let t = mu_mime e ext
               in t \<notin> {''audio/mpegurl'', ''audio/x-mpegurl'', ''audio/x-scpls''} \<and> has_prefix t ''audio/''))"

definition is_image_file :: "m3u_env \<Rightarrow> string \<Rightarrow> bool" where
  "is_image_file e f = has_prefix (mu_mime e (path_ext f)) ''image/''"

definition is_valid_playlist :: "string \<Rightarrow> bool" where
  "is_valid_playlist f = (to_lower (path_ext f) \<in> {''.m3u'', ''.m3u8'', ''.nsp''})"

section \<open>Rows and libraries\<close>

record song_row =
  so_id :: string
  so_library :: int
  so_library_path :: string
  so_path :: string
  so_title :: string
  so_artist :: string
  so_duration :: rat
  so_size :: int

record m3u_library =
  ml_id :: int
  ml_path :: string

definition song_path :: "song_row \<Rightarrow> string" where
  "song_path r = path_join [so_library_path r, so_path r]"

text \<open>\<open>newLibraryMatcher\<close>: the longest path first, as it is written; then the paths are cleaned.\<close>

definition new_library_matcher :: "m3u_library list \<Rightarrow> (m3u_library \<times> string) list" where
  "new_library_matcher libs =
     map (\<lambda>l. (l, path_clean (ml_path l))) (sort_key (\<lambda>l. - int (length (ml_path l))) libs)"

fun find_library_for_path :: "(m3u_library \<times> string) list \<Rightarrow> string \<Rightarrow> int \<times> string" where
  "find_library_for_path [] p = (0, [])"
| "find_library_for_path ((l, c) # ms) p =
     (if has_prefix p c \<and> (length p = length c \<or> p ! length c = CHR ''/'')
      then (ml_id l, c) else find_library_for_path ms p)"

definition find_in_libraries :: "(m3u_library \<times> string) list \<Rightarrow> string \<Rightarrow> (int \<times> string \<times> string) option" where
  "find_in_libraries ms p =
     (case find_library_for_path ms p of (i, c) \<Rightarrow> if i = 0 then None else Some (i, c, p))"

text \<open>The folder of the playlist is the argument; an uploaded playlist has none.\<close>

definition resolve_path ::
  "(m3u_library \<times> string) list \<Rightarrow> string option \<Rightarrow> string \<Rightarrow> (int \<times> string \<times> string) option" where
  "resolve_path ms folder line =
     find_in_libraries ms
       (case folder of
          Some f \<Rightarrow> if \<not> is_abs line then path_clean (path_join [f, line]) else path_clean line
        | None \<Rightarrow> path_clean line)"

text \<open>\<open>filepath.Rel\<close>, for a path in the folder.\<close>

definition rel_path :: "string \<Rightarrow> string \<Rightarrow> string" where
  "rel_path c p = (if p = c then ''.'' else drop (Suc (length c)) p)"

definition qualified_string :: "int \<times> string \<times> string \<Rightarrow> string" where
  "qualified_string r = (case r of (i, c, p) \<Rightarrow> itoa i @ '':'' @ rel_path c p)"

definition resolve_paths :: "(m3u_library \<times> string) list \<Rightarrow> string option \<Rightarrow> string list \<Rightarrow> string list" where
  "resolve_paths ms folder lines =
     List.map_filter (\<lambda>l. map_option qualified_string (resolve_path ms folder l)) lines"




section \<open>Lines\<close>

definition cut_prefix :: "string \<Rightarrow> string \<Rightarrow> string option" where
  "cut_prefix s p = (if has_prefix s p then Some (drop (length p) s) else None)"

text \<open>\<open>url.PathUnescape\<close>.\<close>

definition hex_val :: "char \<Rightarrow> int option" where
  "hex_val c = (case digit_val c of Some d \<Rightarrow> if d < 16 then Some d else None | None \<Rightarrow> None)"

fun path_unescape :: "string \<Rightarrow> string option" where
  "path_unescape [] = Some []"
| "path_unescape (c # cs) =
     (if c = CHR ''%'' then
        (case cs of
           a # b # r \<Rightarrow>
             (case (hex_val a, hex_val b) of
                (Some x, Some y) \<Rightarrow> map_option (\<lambda>s. char_of (nat (16 * x + y)) # s) (path_unescape r)
              | _ \<Rightarrow> None)
         | _ \<Rightarrow> None)
      else map_option (\<lambda>s. c # s) (path_unescape cs))"

datatype m3u_line =
    M3u_name string
  | M3u_image string
  | M3u_entry string
  | M3u_skip

text \<open>A \<open>file://\<close> entry that cannot be unescaped becomes the empty text, which is no audio file.\<close>

definition parse_m3u_line :: "m3u_env \<Rightarrow> string \<Rightarrow> m3u_line" where
  "parse_m3u_line e raw =
     (let line = trim_space raw
      in case cut_prefix line ''#PLAYLIST:'' of
           Some n \<Rightarrow> M3u_name n
         | None \<Rightarrow>
             (case cut_prefix line ''#EXTALBUMARTURL:'' of
                Some u \<Rightarrow> M3u_image u
              | None \<Rightarrow>
                  (if line = [] \<or> has_prefix line ''#'' then M3u_skip
                   else (let f = (case cut_prefix line ''file://'' of
                              Some a \<Rightarrow> (case path_unescape a of Some s \<Rightarrow> s | None \<Rightarrow> [])
                            | None \<Rightarrow> line)
                         in if is_audio_file e f then M3u_entry f else M3u_skip))))"

text \<open>The image of a playlist: an address, or a file in a library.\<close>

definition resolve_local_path :: "string \<Rightarrow> string option \<Rightarrow> string option" where
  "resolve_local_path v folder =
     (case cut_prefix v ''file://'' of
        Some a \<Rightarrow> map_option path_clean (path_unescape a)
      | None \<Rightarrow>
          (if is_abs v then Some (path_clean v)
           else map_option (\<lambda>f. path_clean (path_join [f, v])) folder))"

definition resolve_image_url ::
  "m3u_env \<Rightarrow> (m3u_library \<times> string) list \<Rightarrow> string option \<Rightarrow> string \<Rightarrow> string" where
  "resolve_image_url e ms folder v0 =
     (let v = trim_space v0
      in if v = [] then []
         else if has_prefix v ''http://'' \<or> has_prefix v ''https://''
         then (if mu_external_art e then v else [])
         else (case resolve_local_path v folder of
                 None \<Rightarrow> []
               | Some p \<Rightarrow> if fst (find_library_for_path ms p) = 0 then [] else p))"

section \<open>Reading a playlist\<close>

fun line_entry :: "m3u_line \<Rightarrow> string option" where
  "line_entry (M3u_entry f) = Some f"
| "line_entry _ = None"

definition lookup_candidates :: "m3u_env \<Rightarrow> string list \<Rightarrow> string list" where
  "lookup_candidates e paths =
     slice_unique (concat (map (\<lambda>p. [mu_nfc e p, mu_nfd e p, mu_lower e (mu_nfc e p), mu_lower e (mu_nfd e p)]) paths))"

definition row_key :: "m3u_env \<Rightarrow> song_row \<Rightarrow> string" where
  "row_key e r = itoa (so_library r) @ '':'' @ mu_lower e (mu_nfc e (so_path r))"

text \<open>The tracks of a chunk. Of rows with the same key the last one counts.\<close>

definition chunk_tracks ::
  "m3u_env \<Rightarrow> (string list \<Rightarrow> song_row list option) \<Rightarrow> string list \<Rightarrow> song_row list" where
  "chunk_tracks e find_paths paths =
     (case find_paths (lookup_candidates e paths) of
        None \<Rightarrow> []
      | Some found \<Rightarrow>
          (let existing = slice_to_map (\<lambda>r. (row_key e r, r)) found
           in List.map_filter (\<lambda>p. existing (mu_lower e (mu_nfc e p))) paths))"

record m3u_playlist =
  mp_name :: string
  mp_image :: string
  mp_tracks :: "song_row list"

definition apply_line ::
  "m3u_env \<Rightarrow> (m3u_library \<times> string) list \<Rightarrow> string option \<Rightarrow> m3u_playlist \<Rightarrow> m3u_line \<Rightarrow> m3u_playlist" where
  "apply_line e ms folder p l =
     (case l of
        M3u_name n \<Rightarrow> p\<lparr>mp_name := n\<rparr>
      | M3u_image u \<Rightarrow> p\<lparr>mp_image := resolve_image_url e ms folder u\<rparr>
      | _ \<Rightarrow> p)"

definition parse_chunk ::
  "m3u_env \<Rightarrow> (string list \<Rightarrow> song_row list option) \<Rightarrow> (m3u_library \<times> string) list \<Rightarrow> string option
    \<Rightarrow> m3u_playlist \<Rightarrow> string list \<Rightarrow> m3u_playlist" where
  "parse_chunk e find_paths ms folder p raw =
     (let ls = map (parse_m3u_line e) raw;
          p' = foldl (apply_line e ms folder) p ls
      in p'\<lparr>mp_tracks := mp_tracks p' @
              chunk_tracks e find_paths (resolve_paths ms folder (List.map_filter line_entry ls))\<rparr>)"

definition parse_m3u ::
  "m3u_env \<Rightarrow> (string list \<Rightarrow> song_row list option) \<Rightarrow> m3u_library list \<Rightarrow> string option \<Rightarrow> string
    \<Rightarrow> m3u_playlist \<Rightarrow> string \<Rightarrow> m3u_playlist" where
  "parse_m3u e find_paths libs folder now p0 text =
     (let p = foldl (parse_chunk e find_paths (new_library_matcher libs) folder) (p0\<lparr>mp_tracks := []\<rparr>)
                (collect_chunks 100 (lines_from text))
      in if mp_name p = [] then p\<lparr>mp_name := now\<rparr> else p)"

section \<open>The tracks of a playlist\<close>

record m3u_row =
  pr_position :: string
  pr_song :: song_row

record playlist_stats =
  st_count :: int
  st_duration :: rat
  st_size :: int

definition refresh_stats :: "m3u_row list \<Rightarrow> playlist_stats" where
  "refresh_stats ts =
     \<lparr>st_count = int (length ts), st_duration = sum_list (map (so_duration \<circ> pr_song) ts),
      st_size = sum_list (map (so_size \<circ> pr_song) ts)\<rparr>"

definition add_media_files :: "song_row list \<Rightarrow> m3u_row list \<Rightarrow> m3u_row list" where
  "add_media_files songs ts =
     ts @ map (\<lambda>(i, s). \<lparr>pr_position = itoa (int (length ts + i + 1)), pr_song = s\<rparr>) (enumerate 0 songs)"

definition remove_pls_tracks :: "int list \<Rightarrow> m3u_row list \<Rightarrow> m3u_row list" where
  "remove_pls_tracks idx ts = map snd (filter (\<lambda>(i, t). int i \<notin> set idx) (enumerate 0 ts))"

section \<open>Export\<close>

text \<open>\<open>%.f\<close>: the nearest whole number, to the even one in the middle.\<close>

definition round_even :: "rat \<Rightarrow> int" where
  "round_even x =
     (let n = \<lfloor>x\<rfloor>; d = x - of_int n
      in if d < 1 / 2 then n else if 1 / 2 < d then n + 1 else if even n then n else n + 1)"

definition m3u_header :: "string \<Rightarrow> string list" where
  "m3u_header title = [''#EXTM3U'', ''#PLAYLIST:'' @ title]"

definition m3u_song :: "bool \<Rightarrow> song_row \<Rightarrow> string list" where
  "m3u_song absolute r =
     [''#EXTINF:'' @ itoa (round_even (so_duration r)) @ '','' @ so_artist r @ '' - '' @ so_title r,
      if absolute then song_path r else so_path r]"

definition to_m3u8 :: "string \<Rightarrow> bool \<Rightarrow> song_row list \<Rightarrow> string" where
  "to_m3u8 title absolute rows =
     concat (map (\<lambda>l. l @ [lf]) (m3u_header title @ concat (map (m3u_song absolute) rows)))"

section \<open>The order of the tracks\<close>







text \<open>The row an entry stands for, as if it were looked up alone in the whole table.\<close>

definition row_of_path :: "song_row list \<Rightarrow> string \<Rightarrow> song_row option" where
  "row_of_path rows p =
     slice_to_map (\<lambda>r. (itoa (so_library r) @ '':'' @ to_lower (so_path r), r)) rows (to_lower p)"

definition m3u_paths :: "m3u_env \<Rightarrow> (m3u_library \<times> string) list \<Rightarrow> string option \<Rightarrow> string list \<Rightarrow> string list" where
  "m3u_paths e ms folder ls = resolve_paths ms folder (List.map_filter (line_entry \<circ> parse_m3u_line e) ls)"





lemma apply_line_tracks [simp]: "mp_tracks (apply_line e ms folder p l) = mp_tracks p"
  by (cases l) (simp_all add: apply_line_def)

lemma apply_lines_tracks [simp]: "mp_tracks (foldl (apply_line e ms folder) p ls) = mp_tracks p"
  by (induction ls arbitrary: p) simp_all

lemma apply_line_update: "apply_line e ms folder (p\<lparr>mp_tracks := t\<rparr>) l = (apply_line e ms folder p l)\<lparr>mp_tracks := t\<rparr>"
  by (cases l) (simp_all add: apply_line_def)

lemma apply_lines_update:
  "foldl (apply_line e ms folder) (p\<lparr>mp_tracks := t\<rparr>) ls = (foldl (apply_line e ms folder) p ls)\<lparr>mp_tracks := t\<rparr>"
  by (induction ls arbitrary: p) (simp_all add: apply_line_update)

lemma map_filter_comp: "List.map_filter f (map g xs) = List.map_filter (f \<circ> g) xs"
  by (induction xs) (auto simp: List.map_filter_simps split: option.splits)



text \<open>The chunks only matter to the queries.\<close>

lemma parse_chunks:
  "foldl (parse_chunk e find_paths ms folder) p chunks =
     (foldl (apply_line e ms folder) p (map (parse_m3u_line e) (concat chunks)))
       \<lparr>mp_tracks := mp_tracks p @ concat (map (\<lambda>raw. chunk_tracks e find_paths (m3u_paths e ms folder raw)) chunks)\<rparr>"
proof (induction chunks arbitrary: p)
  case Nil
  show ?case by simp
next
  case (Cons raw chunks)
  have "parse_chunk e find_paths ms folder p raw =
      (foldl (apply_line e ms folder) p (map (parse_m3u_line e) raw))
        \<lparr>mp_tracks := mp_tracks p @ chunk_tracks e find_paths (m3u_paths e ms folder raw)\<rparr>"
    by (simp add: parse_chunk_def m3u_paths_def map_filter_comp Let_def)
  with Cons show ?case by (simp add: apply_lines_update)
qed





section \<open>Export and import\<close>





lemma has_prefix_take: "has_prefix s p \<longleftrightarrow> take (length p) s = p"
  by (induction s p rule: has_prefix.induct) auto










section \<open>Boundaries\<close>

text \<open>A path inside a folder: below it, and, if it is absolute, without a double dot.\<close>

definition inside :: "string \<Rightarrow> string \<Rightarrow> bool" where
  "inside p folder \<longleftrightarrow>
     (p = folder \<or> (\<exists>s. p = folder @ ''/'' @ s)) \<and> (is_abs p \<longrightarrow> ''..'' \<notin> set (split_on (CHR ''/'') p))"

lemma library_found:
  assumes "find_library_for_path ms p = (i, c)" "i \<noteq> 0"
  shows "(\<exists>l. (l, c) \<in> set ms \<and> ml_id l = i) \<and> (p = c \<or> (\<exists>s. p = c @ ''/'' @ s))"
  using assms
proof (induction ms p rule: find_library_for_path.induct)
  case (2 l c' ms p)
  show ?case
  proof (cases "has_prefix p c' \<and> (length p = length c' \<or> p ! length c' = CHR ''/'')")
    case True
    then have "take (length c') p = c'" by (simp add: has_prefix_take)
    then have p: "p = c' @ drop (length c') p" by (metis append_take_drop_id)
    have "p = c' \<or> (\<exists>s. p = c' @ ''/'' @ s)"
    proof (cases "length p = length c'")
      case False
      then have "drop (length c') p = p ! length c' # drop (Suc (length c')) p"
        using p by (metis Cons_nth_drop_Suc append_Nil2 drop_all linorder_not_le)
      with True False p show ?thesis by (metis append_Cons append_Nil)
    qed (use p in simp)
    with True 2(2) show ?thesis by auto
  next
    case False
    with 2 show ?thesis by auto
  qed
qed simp

lemma clean_no_dots:
  assumes "is_abs (path_clean q)"
  shows "''..'' \<notin> set (split_on (CHR ''/'') (path_clean q))"
proof -
  have "is_abs q"
  proof (rule ccontr)
    assume n: "\<not> is_abs q"
    have ok: "\<forall>x \<in> set (clean_elements False [] (split_on (CHR ''/'') q)). element_ok False x"
      by (rule clean_elements_ok) (auto dest: split_on_no_sep)
    let ?es = "clean_elements False [] (split_on (CHR ''/'') q)"
    have "\<not> is_abs (join ''/'' ?es)"
    proof (cases ?es)
      case (Cons x xs)
      with ok have "x \<noteq> []" "CHR ''/'' \<notin> set x" by (auto simp: element_ok_def clean_element_def)
      with Cons show ?thesis by (cases x; cases xs) (auto simp: is_abs_def)
    qed (simp add: is_abs_def)
    moreover have "q = [] \<or> hd q \<noteq> CHR ''/''" using n by (simp add: is_abs_def)
    ultimately show False using assms
      by (auto simp: path_clean_def Let_def split: if_splits) (simp_all add: is_abs_def)
  qed
  then obtain es where es: "path_clean q = abs_path es" "\<forall>x \<in> set es. clean_element x \<and> x \<noteq> ''..''"
    by (rule path_clean_abs)
  show ?thesis
  proof (cases "es = []")
    case False
    with es split_on_join [of es "CHR ''/''"] show ?thesis by (auto simp: abs_path_def clean_element_def)
  qed (simp add: es abs_path_def)
qed


lemma resolved_inside:
  assumes "resolve_path (new_library_matcher libs) folder line = Some (i, c, p)"
  shows "\<exists>l \<in> set libs. ml_id l = i \<and> c = path_clean (ml_path l) \<and> inside p c"
proof -
  from assms obtain q where q: "p = path_clean q"
    by (auto simp: resolve_path_def find_in_libraries_def split: option.splits prod.splits if_splits)
  from assms have f: "find_library_for_path (new_library_matcher libs) p = (i, c)" "i \<noteq> 0"
    by (auto simp: resolve_path_def find_in_libraries_def split: prod.splits if_splits)
  from library_found [OF this] obtain l where
    "(l, c) \<in> set (new_library_matcher libs)" "ml_id l = i" "p = c \<or> (\<exists>s. p = c @ ''/'' @ s)" by blast
  with q clean_no_dots [of q] show ?thesis
    by (auto simp: new_library_matcher_def inside_def intro!: bexI [of _ l])
qed

text \<open>What may be stored as the image of a playlist.\<close>

definition image_allowed :: "m3u_env \<Rightarrow> m3u_library list \<Rightarrow> string \<Rightarrow> bool" where
  "image_allowed e libs u \<longleftrightarrow>
     u = [] \<or> ((has_prefix u ''http://'' \<or> has_prefix u ''https://'') \<and> mu_external_art e) \<or>
     (\<exists>l \<in> set libs. inside u (path_clean (ml_path l)))"

lemma resolve_image_allowed: "image_allowed e libs (resolve_image_url e (new_library_matcher libs) folder v)"
proof -
  let ?ms = "new_library_matcher libs"
  have "\<exists>l \<in> set libs. inside p (path_clean (ml_path l))"
    if "resolve_local_path w folder = Some p" "fst (find_library_for_path ?ms p) \<noteq> 0" for w p
  proof -
    from that(1) obtain q where q: "p = path_clean q"
      by (auto simp: resolve_local_path_def split: option.splits if_splits)
    obtain i c where f: "find_library_for_path ?ms p = (i, c)" by fastforce
    with that(2) have "i \<noteq> 0" by simp
    from library_found [OF f this] obtain l where
      "(l, c) \<in> set ?ms" "p = c \<or> (\<exists>s. p = c @ ''/'' @ s)" by blast
    with q clean_no_dots [of q] show ?thesis
      by (auto simp: new_library_matcher_def inside_def intro!: bexI [of _ l])
  qed
  then show ?thesis
    by (auto simp: resolve_image_url_def image_allowed_def Let_def split: option.splits)
qed

text \<open>
  C14. A playlist never leads out of the libraries: every entry that is resolved, and every image
  that is stored, lies in the folder of a library, and if the path is absolute no double dot is
  left in it; an address of the web is stored only if that is allowed. Otherwise the entry or the
  image is dropped, whatever the file says.
\<close>

theorem m3u_stays_inside:
  "(\<forall>line i c p. resolve_path (new_library_matcher libs) folder line = Some (i, c, p) \<longrightarrow>
      (\<exists>l \<in> set libs. ml_id l = i \<and> inside p (path_clean (ml_path l)))) \<and>
   (mp_image (parse_m3u e find_paths libs folder now p0 text) = mp_image p0 \<or>
    image_allowed e libs (mp_image (parse_m3u e find_paths libs folder now p0 text)))"
proof -
  have "mp_image (foldl (apply_line e (new_library_matcher libs) folder) q ls) = mp_image q \<or>
      image_allowed e libs (mp_image (foldl (apply_line e (new_library_matcher libs) folder) q ls))" for q ls
  proof (induction ls arbitrary: q)
    case (Cons l ls)
    show ?case
    proof (cases "\<exists>u. l = M3u_image u")
      case True
      with Cons [of "apply_line e (new_library_matcher libs) folder q l"] resolve_image_allowed [of e libs folder]
      show ?thesis by (auto simp: apply_line_def)
    next
      case False
      then have "mp_image (apply_line e (new_library_matcher libs) folder q l) = mp_image q"
        by (cases l) (auto simp: apply_line_def)
      with Cons [of "apply_line e (new_library_matcher libs) folder q l"] show ?thesis by simp
    qed
  qed simp
  moreover obtain ls where "mp_image (parse_m3u e find_paths libs folder now p0 text) =
      mp_image (foldl (apply_line e (new_library_matcher libs) folder) (p0\<lparr>mp_tracks := []\<rparr>) ls)"
    by (simp add: parse_m3u_def Let_def parse_chunks)
  ultimately have "mp_image (parse_m3u e find_paths libs folder now p0 text) = mp_image p0 \<or>
      image_allowed e libs (mp_image (parse_m3u e find_paths libs folder now p0 text))"
    by (metis m3u_playlist.select_convs(2) m3u_playlist.surjective m3u_playlist.update_convs(3))
  then show ?thesis using resolved_inside [of libs folder] by blast
qed

section \<open>Examples\<close>

definition sample_m3u_env :: m3u_env where
  "sample_m3u_env =
     \<lparr>mu_mime = (\<lambda>x. if x = ''.mp3'' then ''audio/mpeg'' else []), mu_nfc = (\<lambda>s. s), mu_nfd = (\<lambda>s. s),
      mu_lower = to_lower, mu_external_art = False\<rparr>"

definition sample_song :: "string \<Rightarrow> song_row" where
  "sample_song p =
     \<lparr>so_id = p, so_library = 1, so_library_path = ''/m'', so_path = p, so_title = ''T'', so_artist = ''A'',
      so_duration = 1, so_size = 1\<rparr>"

definition sample_libs :: "m3u_library list" where
  "sample_libs = [\<lparr>ml_id = 1, ml_path = ''/m''\<rparr>]"




theorem m3u_stays_inside_witness:
  "(\<exists>l \<in> set sample_libs. ml_id l = 1 \<and> inside ''/m/a.mp3'' (path_clean (ml_path l))) \<and>
   (let image = mp_image (parse_m3u sample_m3u_env (\<lambda>ps. Some []) sample_libs (Some ''/m/b'') ''now''
                  \<lparr>mp_name = [], mp_image = ''old'', mp_tracks = []\<rparr> (''#EXTALBUMARTURL:../../etc/x.png'' @ [lf]))
    in image = ''old'' \<or> image_allowed sample_m3u_env sample_libs image)"
proof -
  have "resolve_path (new_library_matcher sample_libs) (Some ''/m/b'') ''../a.mp3'' =
      Some (1, ''/m'', ''/m/a.mp3'')"
    by code_simp
  then show ?thesis
    using m3u_stays_inside [of sample_libs "Some ''/m/b''" sample_m3u_env "\<lambda>ps. Some []" "''now''"
        "\<lparr>mp_name = [], mp_image = ''old'', mp_tracks = []\<rparr>" "''#EXTALBUMARTURL:../../etc/x.png'' @ [lf]"]
    unfolding Let_def by (metis m3u_playlist.select_convs(2))
qed

text \<open>
  A library in the root folder contains nothing: after its path, the slash itself, no further
  slash follows. Libraries are sorted by their paths as they are written, so redundant slashes
  make an outer library win over an inner one.
\<close>

lemma root_library_empty:
  "find_library_for_path (new_library_matcher [\<lparr>ml_id = 1, ml_path = ''/''\<rparr>]) ''/a.mp3'' = (0, [])"
  by code_simp

lemma outer_library_wins:
  "find_library_for_path
     (new_library_matcher [\<lparr>ml_id = 1, ml_path = ''/m////''\<rparr>, \<lparr>ml_id = 2, ml_path = ''/m/b''\<rparr>]) ''/m/b/c.mp3''
   = (1, ''/m'')"
  by code_simp

text \<open>Of two files whose paths differ in case only, an entry finds the last one, whichever it names.\<close>

lemma case_confused:
  "row_of_path [sample_song ''a.mp3'', sample_song ''A.mp3''] ''1:a.mp3'' = Some (sample_song ''A.mp3'')"
  by code_simp

text \<open>A percent sign that is no escape makes a \<open>file://\<close> entry disappear.\<close>

lemma percent_dropped:
  "parse_m3u_line sample_m3u_env ''file:///m/100%.mp3'' = M3u_skip"
  by code_simp

text \<open>A line break in a title adds an entry to the exported playlist.\<close>

lemma title_adds_entry:
  "scan_lines (to_m3u8 ''Mix'' True [(sample_song ''a.mp3'')\<lparr>so_title := ''T'' @ [lf] @ ''b/c.mp3''\<rparr>]) =
     [''#EXTM3U'', ''#PLAYLIST:Mix'', ''#EXTINF:1,A - T'', ''b/c.mp3'', ''/m/a.mp3'']"
proof -
  let ?ls = "[''#EXTM3U'', ''#PLAYLIST:Mix'', ''#EXTINF:1,A - T'', ''b/c.mp3'', ''/m/a.mp3'']"
  have "round_even 1 = 1" "itoa 1 = ''1''" by (simp add: round_even_def) code_simp
  moreover have "song_path ((sample_song ''a.mp3'')\<lparr>so_title := ''T'' @ [lf] @ ''b/c.mp3''\<rparr>) = ''/m/a.mp3''" by code_simp
  ultimately have "to_m3u8 ''Mix'' True [(sample_song ''a.mp3'')\<lparr>so_title := ''T'' @ [lf] @ ''b/c.mp3''\<rparr>] =
      concat (map (\<lambda>l. l @ [lf]) ?ls)"
    by (simp add: to_m3u8_def m3u_header_def m3u_song_def) (simp add: sample_song_def)
  moreover have "scan_lines (concat (map (\<lambda>l. l @ [lf]) ?ls)) = ?ls"
    by (rule scan_lines_text) (simp add: cr_def lf_def)
  ultimately show ?thesis by simp
qed


end
