(* ===== verification/Albums.thy ===== *)
theory Albums
  imports Participants MediaFile "HOL-Library.Multiset"
begin

text \<open>
  An album is computed from its tracks: \<open>MediaFiles.ToAlbum\<close> and its helpers in
  \<open>model/mediafile.go\<close>, and \<open>model/album.go\<close>. Of a track there are the fields that are read. The
  walk over the tags of a track is a list of names; roles are walked in a fixed order, which does
  not matter as they are merged one by one. Durations are rational numbers.
\<close>

section \<open>Tracks and albums\<close>

record album_track =
  at_path :: string
  at_folder :: string
  at_library :: int
  at_album_id :: string
  at_album :: string
  at_album_artist :: string
  at_album_artist_id :: string
  at_sort_album :: string
  at_sort_album_artist :: string
  at_order_album :: string
  at_order_album_artist :: string
  at_mbz_album_artist :: string
  at_mbz_album :: string
  at_mbz_album_type :: string
  at_mbz_album_comment :: string
  at_mbz_release_group :: string
  at_catalog :: string
  at_compilation :: bool
  at_duration :: rat
  at_size :: int
  at_year :: int
  at_date :: string
  at_original_year :: int
  at_original_date :: string
  at_release_date :: string
  at_comment :: string
  at_disc :: int
  at_disc_subtitle :: string
  at_has_cover :: bool
  at_explicit :: string
  at_updated :: go_time
  at_birth :: go_time
  at_missing :: bool
  at_tag_walk :: "string list"
  at_tags :: tags
  at_participants :: participants

record album =
  al_id :: string
  al_library :: int
  al_name :: string
  al_artist :: string
  al_artist_id :: string
  al_sort_name :: string
  al_sort_artist :: string
  al_order_name :: string
  al_order_artist :: string
  al_mbz_artist :: string
  al_mbz_id :: string
  al_mbz_type :: string
  al_mbz_comment :: string
  al_mbz_release_group :: string
  al_catalog :: string
  al_compilation :: bool
  al_song_count :: int
  al_duration :: rat
  al_size :: int
  al_min_year :: int
  al_max_year :: int
  al_date :: string
  al_min_original_year :: int
  al_max_original_year :: int
  al_original_date :: string
  al_release_date :: string
  al_comment :: string
  al_discs :: "int \<rightharpoonup> string"
  al_embed_art :: string
  al_explicit :: string
  al_folders :: "string list"
  al_tags :: tags
  al_participants :: participants
  al_missing :: bool
  al_created :: go_time
  al_updated :: go_time

definition empty_album :: album where
  "empty_album =
     \<lparr>al_id = [], al_library = 0, al_name = [], al_artist = [], al_artist_id = [], al_sort_name = [],
      al_sort_artist = [], al_order_name = [], al_order_artist = [], al_mbz_artist = [], al_mbz_id = [],
      al_mbz_type = [], al_mbz_comment = [], al_mbz_release_group = [], al_catalog = [],
      al_compilation = False, al_song_count = 0, al_duration = 0, al_size = 0, al_min_year = 0,
      al_max_year = 0, al_date = [], al_min_original_year = 0, al_max_original_year = 0,
      al_original_date = [], al_release_date = [], al_comment = [], al_discs = Map.empty, al_embed_art = [],
      al_explicit = [], al_folders = [], al_tags = Map.empty, al_participants = Map.empty,
      al_missing = False, al_created = zero_time, al_updated = zero_time\<rparr>"

section \<open>Helpers\<close>

definition all_or_nothing :: "string list \<Rightarrow> string" where
  "all_or_nothing xs = (case slice_unique xs of [x] \<Rightarrow> x | _ \<Rightarrow> [])"

definition min_max_step :: "int \<times> int \<Rightarrow> int \<Rightarrow> int \<times> int" where
  "min_max_step m v =
     (case m of (mn, mx) \<Rightarrow> (if mn = 0 then v else if v > 0 then min mn v else mn, max mx v))"

text \<open>\<open>minMax\<close>, for a list that is not empty.\<close>

definition min_max :: "int list \<Rightarrow> int \<times> int" where
  "min_max xs = foldl min_max_step (hd xs, hd xs) xs"

definition newer_time :: "go_time \<Rightarrow> go_time \<Rightarrow> go_time" where
  "newer_time a b = (if a > b then a else b)"

definition older_time :: "go_time \<Rightarrow> go_time \<Rightarrow> go_time" where
  "older_time a b = (if a = zero_time then b else if a > b then b else a)"

definition first_art_path :: "string \<times> int \<Rightarrow> album_track \<Rightarrow> string \<times> int" where
  "first_art_path cur m =
     (case cur of (path, disc) \<Rightarrow>
        if \<not> at_has_cover m then cur
        else if disc = 0 \<or> (at_disc m < disc \<and> at_disc m > 0) then (at_path m, at_disc m)
        else if at_disc m = disc \<and> (at_path m < path \<or> path = []) then (at_path m, at_disc m)
        else cur)"

definition album_level_tags :: "tag_mappings \<Rightarrow> string set" where
  "album_level_tags m = {t. \<exists>c. m t = Some c \<and> tc_album c}"

definition album_tags :: "tag_mappings \<Rightarrow> tag list \<Rightarrow> tags" where
  "album_tags m l = group_by_frequency l |` album_level_tags m"

definition various_artists_id :: string where "various_artists_id = ''63sqASlAfjbGMuLP4JhnZU''"

definition fix_album_artist :: "album \<Rightarrow> album" where
  "fix_album_artist a =
     (if \<not> al_compilation a then
        (if al_artist_id a = [] then
           (let f = first_artist (al_participants a) Role_artist
            in a\<lparr>al_artist_id := ar_id f, al_artist := ar_name f\<rparr>)
         else a)
      else if length (slice_unique (map (ar_id \<circ> pa_artist) (role_list (al_participants a) Role_album_artist))) > 1
      then a\<lparr>al_artist := ''Various Artists'', al_artist_id := various_artists_id\<rparr>
      else a)"

definition explicit_step :: "string \<Rightarrow> string \<Rightarrow> string" where
  "explicit_step cur s = (if s = ''c'' \<and> cur \<noteq> ''e'' then ''c'' else if s = ''e'' then ''e'' else cur)"

section \<open>The loop\<close>

definition album_step :: "album \<Rightarrow> album_track \<Rightarrow> album" where
  "album_step a m = a\<lparr>
     al_id := at_album_id m, al_library := at_library m, al_name := at_album m,
     al_artist := at_album_artist m, al_artist_id := at_album_artist_id m, al_sort_name := at_sort_album m,
     al_sort_artist := at_sort_album_artist m, al_order_name := at_order_album m,
     al_order_artist := at_order_album_artist m, al_mbz_artist := at_mbz_album_artist m,
     al_mbz_type := at_mbz_album_type m, al_mbz_comment := at_mbz_album_comment m,
     al_catalog := at_catalog m, al_compilation := (al_compilation a \<or> at_compilation m),
     al_duration := al_duration a + at_duration m, al_size := al_size a + at_size m,
     al_discs := (if at_disc m > 0 then (al_discs a)(at_disc m \<mapsto> at_disc_subtitle m) else al_discs a),
     al_participants := participants_merge all_roles (at_participants m) (al_participants a),
     al_explicit := explicit_step (al_explicit a) (at_explicit m),
     al_updated := newer_time (al_updated a) (at_updated m),
     al_created := older_time (al_created a) (at_birth m),
     al_missing := (al_missing a \<and> at_missing m)\<rparr>"

definition to_album :: "(string \<Rightarrow> nat list) \<Rightarrow> tag_mappings \<Rightarrow> album_track list \<Rightarrow> album" where
  "to_album md5 maps mfs0 =
     (if mfs0 = [] then empty_album
      else (let mfs = sort_key at_path mfs0;
                a = foldl album_step
                      (empty_album\<lparr>al_song_count := int (length mfs), al_discs := [1 \<mapsto> []], al_missing := True\<rparr>) mfs;
                (mny, mxy) = min_max (map at_year mfs);
                (mno, mxo) = min_max (map at_original_year mfs)
            in fix_album_artist (a\<lparr>
                 al_embed_art := fst (foldl first_art_path ([], 0) mfs),
                 al_tags := album_tags maps (concat (map (\<lambda>m. flatten_all md5 (at_tag_walk m) (at_tags m)) mfs)),
                 al_folders := slice_unique (map at_folder mfs),
                 al_date := all_or_nothing (map at_date mfs),
                 al_original_date := all_or_nothing (map at_original_date mfs),
                 al_release_date := all_or_nothing (map at_release_date mfs),
                 al_min_year := mny, al_max_year := mxy,
                 al_min_original_year := mno, al_max_original_year := mxo,
                 al_comment := all_or_nothing (map at_comment mfs),
                 al_mbz_id := most_frequent [] (map at_mbz_album mfs),
                 al_mbz_release_group := most_frequent [] (map at_mbz_release_group mfs)\<rparr>)))"

definition full_album_name :: "bool \<Rightarrow> album \<Rightarrow> string" where
  "full_album_name append_version a =
     (case tags_values (al_tags a) ''albumversion'' of
        v # _ \<Rightarrow> if append_version then al_name a @ '' ('' @ v @ '')'' else al_name a
      | [] \<Rightarrow> al_name a)"


section \<open>What the loop computes\<close>

lemma foldl_sum:
  fixes f :: "'a \<Rightarrow> 'b \<Rightarrow> 'a" and g :: "'a \<Rightarrow> 'c :: comm_monoid_add"
  assumes "\<And>a m. g (f a m) = g a + h m"
  shows "g (foldl f a xs) = g a + sum_list (map h xs)"
  by (induction xs arbitrary: a) (simp_all add: assms add.assoc)

lemma album_sums:
  "al_duration (foldl album_step a mfs) = al_duration a + sum_list (map at_duration mfs)"
  "al_size (foldl album_step a mfs) = al_size a + sum_list (map at_size mfs)"
  by (rule foldl_sum, simp add: album_step_def)+

lemma album_flags:
  "al_missing (foldl album_step a mfs) \<longleftrightarrow> al_missing a \<and> (\<forall>m \<in> set mfs. at_missing m)"
  "al_compilation (foldl album_step a mfs) \<longleftrightarrow> al_compilation a \<or> (\<exists>m \<in> set mfs. at_compilation m)"
  "al_song_count (foldl album_step a mfs) = al_song_count a"
  by (induction mfs arbitrary: a) (auto simp: album_step_def)

lemma album_explicit:
  "al_explicit (foldl album_step a mfs) =
     (if ''e'' \<in> insert (al_explicit a) (at_explicit ` set mfs) then ''e''
      else if ''c'' \<in> at_explicit ` set mfs then ''c'' else al_explicit a)"
  by (induction mfs arbitrary: a) (auto simp: album_step_def explicit_step_def)

lemma album_discs:
  "dom (al_discs (foldl album_step a mfs)) = dom (al_discs a) \<union> {d \<in> at_disc ` set mfs. d > 0}"
  by (induction mfs arbitrary: a) (auto simp: album_step_def)

lemma album_participants:
  assumes "q \<in> set all_roles"
  shows "part_key ` set (role_list (al_participants (foldl album_step a mfs)) q) =
     part_key ` set (role_list (al_participants a) q) \<union>
     (\<Union>m \<in> set mfs. part_key ` set (role_list (at_participants m) q))"
proof (induction mfs arbitrary: a)
  case (Cons m mfs)
  have "al_participants (album_step a m) = participants_merge all_roles (at_participants m) (al_participants a)"
    by (simp add: album_step_def)
  with assms show ?case by (auto simp: Cons.IH role_keys_merge)
qed simp


text \<open>Years: the largest one, and the smallest one that is known (not 0).\<close>

definition least_known :: "int set \<Rightarrow> int" where
  "least_known ys = (let p = {y \<in> ys. y > 0} in if p = {} then 0 else Min p)"

lemma least_known_0 [simp]: "least_known (insert 0 ys) = least_known ys"
proof -
  have "{y \<in> insert 0 ys. y > 0} = {y \<in> ys. y > 0}" by auto
  then show ?thesis by (simp only: least_known_def)
qed

lemma least_known_min:
  assumes "finite ys" "0 < a" "0 < b"
  shows "least_known (insert (min a b) ys) = least_known (insert a (insert b ys))"
proof -
  define r where "r = {y \<in> ys. y > 0}"
  have "finite r" using assms(1) by (simp add: r_def)
  have "{y \<in> insert (min a b) ys. y > 0} = insert (min a b) r"
    "{y \<in> insert a (insert b ys). y > 0} = insert a (insert b r)"
    using assms by (auto simp: r_def min_def)
  moreover have "Min (insert (min a b) r) = Min (insert a (insert b r))"
    using \<open>finite r\<close> by (cases "r = {}") (simp_all add: min.assoc)
  ultimately show ?thesis by (simp add: least_known_def Let_def del: insert_Collect)
qed

lemma min_max_from:
  assumes "0 \<le> mn" "\<forall>y \<in> set xs. (0::int) \<le> y"
  shows "foldl min_max_step (mn, mx) xs = (least_known (insert mn (set xs)), Max (insert mx (set xs)))"
  using assms
proof (induction xs arbitrary: mn mx)
  case Nil
  then show ?case by (auto simp: least_known_def Let_def Collect_conv_if)
next
  case (Cons x xs)
  have mx: "Max (insert (max mx x) (set xs)) = Max (insert mx (insert x (set xs)))"
    by (cases "xs = []") (simp_all add: max.commute max.left_commute max.assoc)
  consider "mn = 0" | "mn > 0" "x = 0" | "mn > 0" "x > 0"
    using Cons.prems by force
  then show ?case
  proof cases
    case 1
    with Cons mx show ?thesis by (simp add: min_max_step_def)
  next
    case 2
    with Cons mx show ?thesis by (simp add: min_max_step_def insert_commute [of mn])
  next
    case 3
    with Cons mx least_known_min [of "set xs" mn x] show ?thesis by (simp add: min_max_step_def)
  qed
qed

lemma min_max_eq:
  assumes "xs \<noteq> []" "\<forall>y \<in> set xs. 0 \<le> y"
  shows "min_max xs = (least_known (set xs), Max (set xs))"
proof -
  have i: "insert (hd xs) (set xs) = set xs" using assms(1) by (simp add: insert_absorb)
  have "0 \<le> hd xs" using assms by simp
  from min_max_from [OF this assms(2), of "hd xs"] show ?thesis by (simp add: min_max_def i)
qed

section \<open>What an album says of its tracks\<close>

lemma fix_album_artist_keeps [simp]:
  "al_duration (fix_album_artist a) = al_duration a" "al_size (fix_album_artist a) = al_size a"
  "al_missing (fix_album_artist a) = al_missing a" "al_compilation (fix_album_artist a) = al_compilation a"
  "al_song_count (fix_album_artist a) = al_song_count a" "al_explicit (fix_album_artist a) = al_explicit a"
  "al_discs (fix_album_artist a) = al_discs a" "al_participants (fix_album_artist a) = al_participants a"
  "al_min_year (fix_album_artist a) = al_min_year a" "al_max_year (fix_album_artist a) = al_max_year a"
  "al_date (fix_album_artist a) = al_date a" "al_mbz_id (fix_album_artist a) = al_mbz_id a"
  "al_folders (fix_album_artist a) = al_folders a"
  by (simp_all add: fix_album_artist_def Let_def)

lemma sort_key_Nil: "sort_key k xs = [] \<longleftrightarrow> xs = []"
  by (metis length_0_conv length_sort)

lemma sum_sort_key: "sum_list (map f (sort_key k xs)) = sum_list (map (f :: _ \<Rightarrow> 'c :: comm_monoid_add) xs)"
  by (metis mset_map mset_sort sum_mset_sum_list)

lemma count_list_sort_key: "count_list (map f (sort_key k xs)) x = count_list (map f xs) x"
  by (metis count_mset mset_map mset_sort)

lemma to_album_counts:
  assumes "mfs \<noteq> []"
  shows "al_song_count (to_album md5 maps mfs) = int (length mfs)"
    and "al_duration (to_album md5 maps mfs) = sum_list (map at_duration mfs)"
    and "al_size (to_album md5 maps mfs) = sum_list (map at_size mfs)"
    and "al_missing (to_album md5 maps mfs) \<longleftrightarrow> (\<forall>m \<in> set mfs. at_missing m)"
    and "al_compilation (to_album md5 maps mfs) \<longleftrightarrow> (\<exists>m \<in> set mfs. at_compilation m)"
    and "al_explicit (to_album md5 maps mfs) =
           (if ''e'' \<in> at_explicit ` set mfs then ''e'' else if ''c'' \<in> at_explicit ` set mfs then ''c'' else [])"
    and "dom (al_discs (to_album md5 maps mfs)) = insert 1 {d \<in> at_disc ` set mfs. d > 0}"
    and "set (al_folders (to_album md5 maps mfs)) = at_folder ` set mfs"
  using assms
  by (simp_all add: to_album_def Let_def split_beta album_sums album_flags album_explicit album_discs
        sum_sort_key empty_album_def)

lemma to_album_participants:
  assumes "mfs \<noteq> []" "q \<in> set all_roles"
  shows "part_key ` set (role_list (al_participants (to_album md5 maps mfs)) q) =
           (\<Union>m \<in> set mfs. part_key ` set (role_list (at_participants m) q))"
  using assms
  by (simp add: to_album_def Let_def split_beta album_participants empty_album_def role_list_def [of Map.empty])

lemma album_keys_distinct:
  "keys_distinct (al_participants a) \<Longrightarrow> keys_distinct (al_participants (foldl album_step a mfs))"
  by (induction mfs arbitrary: a) (simp_all add: album_step_def keys_distinct_merge)

lemma to_album_keys_distinct: "keys_distinct (al_participants (to_album md5 maps mfs))"
  by (simp add: to_album_def Let_def split_beta album_keys_distinct keys_distinct_empty empty_album_def)

lemma to_album_years:
  assumes "mfs \<noteq> []" "\<forall>m \<in> set mfs. 0 \<le> at_year m"
  shows "al_max_year (to_album md5 maps mfs) = Max (at_year ` set mfs)"
    and "al_min_year (to_album md5 maps mfs) =
           least_known (at_year ` set mfs)"
proof -
  have "min_max (map at_year (sort_key at_path mfs)) = (least_known (at_year ` set mfs), Max (at_year ` set mfs))"
    using assms by (subst min_max_eq) (auto simp: sort_key_Nil)
  with assms(1) show "al_max_year (to_album md5 maps mfs) = Max (at_year ` set mfs)"
    "al_min_year (to_album md5 maps mfs) =
           least_known (at_year ` set mfs)"
    by (simp_all add: to_album_def Let_def split_beta)
qed

text \<open>A date is given when all tracks have it; the MusicBrainz id is the most frequent one.\<close>

lemma to_album_date:
  assumes "mfs \<noteq> []"
  shows "al_date (to_album md5 maps mfs) = d \<and> d \<noteq> [] \<longleftrightarrow> (\<forall>m \<in> set mfs. at_date m = d) \<and> d \<noteq> []"
proof -
  have "all_or_nothing xs = d \<and> d \<noteq> [] \<longleftrightarrow> slice_unique xs = [d] \<and> d \<noteq> []" for xs
    by (auto simp: all_or_nothing_def split: list.splits)
  then have one: "all_or_nothing xs = d \<and> d \<noteq> [] \<longleftrightarrow> (xs \<noteq> [] \<and> set xs = {d}) \<and> d \<noteq> []" for xs
    by (simp only: slice_unique_one)
  have "al_date (to_album md5 maps mfs) = all_or_nothing (map at_date (sort_key at_path mfs))"
    using assms by (simp add: to_album_def Let_def split_beta)
  moreover obtain m where "m \<in> set mfs" using assms by (cases mfs) auto
  ultimately show ?thesis
    by (simp add: one sort_key_Nil assms) (use \<open>m \<in> set mfs\<close> in \<open>auto simp: image_iff\<close>)
qed

lemma to_album_mbz_id:
  assumes "m \<in> set mfs" "at_mbz_album m \<noteq> []"
  shows "count_list (map at_mbz_album mfs) (at_mbz_album m) \<le>
     count_list (map at_mbz_album mfs) (al_mbz_id (to_album md5 maps mfs))"
  using most_frequent_max(2) [of "at_mbz_album m" "map at_mbz_album (sort_key at_path mfs)" "[]"] assms
  by (auto simp: to_album_def Let_def split_beta count_list_sort_key)

lemma to_album_order:
  assumes "mset mfs = mset mfs'" "distinct (map at_path mfs)"
  shows "to_album md5 maps mfs = to_album md5 maps mfs'"
proof -
  have "sort_key at_path mfs = sort_key at_path mfs'"
    using assms by (intro sort_key_inj_key_eq) (auto simp: distinct_map)
  moreover have "mfs = [] \<longleftrightarrow> mfs' = []" using assms(1) by (metis mset_zero_iff)
  ultimately show ?thesis by (simp add: to_album_def)
qed



text \<open>
  C12. What an album says is true of its tracks: it counts each once, adds up durations and sizes,
  is missing exactly when all its tracks are, is a compilation when one of them says so, and explicit
  as its most explicit track. Every role has exactly the people its tracks credit, each once. Its
  folders are those of the tracks, its date is one that all tracks share, its years span the years
  that are known, and its MusicBrainz id is one that no other is more frequent than.
\<close>

theorem album_of_its_tracks:
  assumes "mfs \<noteq> []"
  shows "al_song_count (to_album md5 maps mfs) = int (length mfs) \<and>
    al_duration (to_album md5 maps mfs) = sum_list (map at_duration mfs) \<and>
    al_size (to_album md5 maps mfs) = sum_list (map at_size mfs) \<and>
    (al_missing (to_album md5 maps mfs) \<longleftrightarrow> (\<forall>m \<in> set mfs. at_missing m)) \<and>
    (al_compilation (to_album md5 maps mfs) \<longleftrightarrow> (\<exists>m \<in> set mfs. at_compilation m)) \<and>
    al_explicit (to_album md5 maps mfs) =
      (if ''e'' \<in> at_explicit ` set mfs then ''e'' else if ''c'' \<in> at_explicit ` set mfs then ''c'' else []) \<and>
    set (al_folders (to_album md5 maps mfs)) = at_folder ` set mfs \<and>
    (\<forall>q \<in> set all_roles.
       part_key ` set (role_list (al_participants (to_album md5 maps mfs)) q) =
         (\<Union>m \<in> set mfs. part_key ` set (role_list (at_participants m) q)) \<and>
       distinct (map part_key (role_list (al_participants (to_album md5 maps mfs)) q))) \<and>
    (\<forall>d. al_date (to_album md5 maps mfs) = d \<and> d \<noteq> [] \<longleftrightarrow> (\<forall>m \<in> set mfs. at_date m = d) \<and> d \<noteq> []) \<and>
    ((\<forall>m \<in> set mfs. 0 \<le> at_year m) \<longrightarrow>
       al_max_year (to_album md5 maps mfs) = Max (at_year ` set mfs) \<and>
       al_min_year (to_album md5 maps mfs) = least_known (at_year ` set mfs)) \<and>
    (\<forall>m \<in> set mfs. at_mbz_album m \<noteq> [] \<longrightarrow>
       count_list (map at_mbz_album mfs) (at_mbz_album m) \<le>
         count_list (map at_mbz_album mfs) (al_mbz_id (to_album md5 maps mfs)))"
  using to_album_counts [OF assms, of md5 maps] to_album_participants [OF assms, of _ md5 maps]
    to_album_keys_distinct [of md5 maps mfs] to_album_date [OF assms, of md5 maps]
    to_album_years [OF assms, of md5 maps] to_album_mbz_id [of _ mfs md5 maps]
  by (intro conjI ballI allI impI) (simp_all add: keys_distinct_def)

text \<open>
  C25. The order in which the tracks are read does not matter, as long as no two have the same path.
\<close>

theorem album_order_irrelevant:
  assumes "mset mfs = mset mfs'" "distinct (map at_path mfs)"
  shows "to_album md5 maps mfs = to_album md5 maps mfs'"
  using assms by (rule to_album_order)

section \<open>An album of two tracks\<close>

definition demo_artist :: "string \<Rightarrow> participant" where
  "demo_artist n =
     \<lparr>pa_artist = \<lparr>ar_id = n, ar_name = n, ar_sort_name = n, ar_order_name = n, ar_mbid = []\<rparr>, pa_sub_role = []\<rparr>"

definition demo_track :: "string \<Rightarrow> int \<Rightarrow> bool \<Rightarrow> string \<Rightarrow> album_track" where
  "demo_track path year missing artist =
     \<lparr>at_path = path, at_folder = ''f'', at_library = 1, at_album_id = ''id'', at_album = ''Album'',
      at_album_artist = artist, at_album_artist_id = artist, at_sort_album = [], at_sort_album_artist = [],
      at_order_album = [], at_order_album_artist = [], at_mbz_album_artist = [], at_mbz_album = ''mb'',
      at_mbz_album_type = [], at_mbz_album_comment = [], at_mbz_release_group = [], at_catalog = [],
      at_compilation = False, at_duration = 180, at_size = 1000, at_year = year, at_date = ''1999'',
      at_original_year = 0, at_original_date = [], at_release_date = [], at_comment = [], at_disc = 0,
      at_disc_subtitle = [], at_has_cover = True, at_explicit = [], at_updated = zero_time,
      at_birth = zero_time, at_missing = missing, at_tag_walk = [], at_tags = Map.empty,
      at_participants = [Role_artist \<mapsto> [demo_artist artist]]\<rparr>"

lemma demo_track_fields [simp]:
  "at_duration (demo_track path year missing artist) = 180" "at_year (demo_track path year missing artist) = year"
  "at_missing (demo_track path year missing artist) = missing" "at_path (demo_track path year missing artist) = path"
  "role_list (at_participants (demo_track path year missing artist)) Role_artist = [demo_artist artist]"
  by (simp_all add: demo_track_def role_list_def)

theorem album_of_its_tracks_witness:
  "let a = to_album (\<lambda>_. []) Map.empty [demo_track ''b'' 1999 True ''x'', demo_track ''a'' 0 False ''y''] in
     al_song_count a = 2 \<and> al_duration a = 360 \<and> \<not> al_missing a \<and>
     part_key ` set (role_list (al_participants a) Role_artist) = {''x'', ''y''} \<and>
     al_min_year a = 1999 \<and> al_max_year a = 1999"
proof -
  let ?t = "[demo_track ''b'' 1999 True ''x'', demo_track ''a'' 0 False ''y'']"
  let ?a = "to_album (\<lambda>_. []) Map.empty ?t"
  note ok = album_of_its_tracks [of ?t "\<lambda>_. []" Map.empty, OF list.distinct(2)]
  have n: "al_song_count ?a = 2" "al_duration ?a = 360" "\<not> al_missing ?a" using ok by simp_all
  have "Role_artist \<in> set all_roles" by (simp add: all_roles_def)
  with ok have "part_key ` set (role_list (al_participants ?a) Role_artist) =
      (\<Union>m \<in> set ?t. part_key ` set (role_list (at_participants m) Role_artist))" by blast
  then have p: "part_key ` set (role_list (al_participants ?a) Role_artist) = {''x'', ''y''}"
    by (simp add: part_key_def demo_artist_def insert_commute)
  have "\<forall>m \<in> set ?t. 0 \<le> at_year m" by simp
  with ok have "al_max_year ?a = Max (at_year ` set ?t)" "al_min_year ?a = least_known (at_year ` set ?t)"
    by blast+
  moreover have "{y. (y = 1999 \<or> y = (0::int)) \<and> 0 < y} = {1999}" by auto
  ultimately have "al_min_year ?a = 1999" "al_max_year ?a = 1999" by (simp_all add: least_known_def Let_def)
  with n p show ?thesis by (simp add: Let_def)
qed

theorem album_order_irrelevant_witness:
  "to_album (\<lambda>_. []) Map.empty [demo_track ''b'' 1999 True ''x'', demo_track ''a'' 0 False ''y''] =
   to_album (\<lambda>_. []) Map.empty [demo_track ''a'' 0 False ''y'', demo_track ''b'' 1999 True ''x'']"
  by (rule album_order_irrelevant) (simp_all add: demo_track_def)

text \<open>
  Of tracks without a disc number the last one with a picture gives the picture of the album, not
  the one with the first path: the number 0 also stands for no track yet.
\<close>

lemma last_cover_wins:
  "al_embed_art (to_album (\<lambda>_. []) Map.empty [demo_track ''a'' 0 False ''x'', demo_track ''b'' 0 False ''x'']) = ''b''"
  by (simp add: to_album_def demo_track_def Let_def split_beta first_art_path_def fix_album_artist_def
      insort_key_def)

text \<open>Several album artists alone do not make an album one of various artists.\<close>

lemma several_album_artists:
  "al_artist (to_album (\<lambda>_. []) Map.empty
     [(demo_track ''a'' 0 False ''x'')\<lparr>at_participants := [Role_album_artist \<mapsto> [demo_artist ''x'', demo_artist ''y'']]\<rparr>]) = ''x''"
  by (simp add: to_album_def demo_track_def Let_def split_beta fix_album_artist_def album_step_def
      empty_album_def)

end
