(* ===== verification/FolderWalk.thy ===== *)
theory FolderWalk
  imports M3u PersistentIds "HOL-Library.AList"
begin

text \<open>
  How the first phase of a scan finds its folders: \<open>scanner/ignore_checker.go\<close>,
  \<open>scanner/walk_dir_tree.go\<close>, \<open>scanner/folder_entry.go\<close> and \<open>model/folder.go\<close>. A file system is a
  tree; a link carries what it points at, so a cycle of links is not covered. What is read of an
  \<open>.ndignore\<close> file, the matching of its patterns and of other patterns, MD5 and the printing of times
  are arguments. The scan is not cancelled.
\<close>

section \<open>Ignored paths\<close>

datatype ignore_file =
    No_file
  | Unreadable
  | Ignore_lines "string list" bool

definition load_patterns :: "(string \<Rightarrow> ignore_file) \<Rightarrow> string \<Rightarrow> string list" where
  "load_patterns read_file folder =
     (case read_file (path_join [folder, ''.ndignore'']) of
        No_file \<Rightarrow> []
      | Unreadable \<Rightarrow> []
      | Ignore_lines ls ok \<Rightarrow>
          (let ps = filter (\<lambda>l. l \<noteq> [] \<and> \<not> has_prefix l ''#'') (map trim_space ls)
           in if \<not> ok then ps else if ps = [] then [''**/*''] else ps))"

text \<open>The checker is its stack of patterns; the matcher is compiled from all of them.\<close>

type_synonym ignore_stack = "string list list"

definition ignore_push :: "(string \<Rightarrow> ignore_file) \<Rightarrow> string \<Rightarrow> ignore_stack \<Rightarrow> ignore_stack" where
  "ignore_push read_file folder st = st @ [load_patterns read_file folder]"

definition ignore_pop :: "ignore_stack \<Rightarrow> ignore_stack" where
  "ignore_pop st = (if st \<noteq> [] then butlast st else st)"

fun push_parts :: "(string \<Rightarrow> ignore_file) \<Rightarrow> string \<Rightarrow> string list \<Rightarrow> ignore_stack \<Rightarrow> ignore_stack" where
  "push_parts read_file cur [] st = st"
| "push_parts read_file cur (p # ps) st =
     (if p = ''.'' \<or> p = [] then push_parts read_file cur ps st
      else (let cur' = path_join [cur, p]
            in push_parts read_file cur' ps (st @ [load_patterns read_file cur'])))"

definition push_all_parents :: "(string \<Rightarrow> ignore_file) \<Rightarrow> string \<Rightarrow> ignore_stack \<Rightarrow> ignore_stack" where
  "push_all_parents read_file target st =
     (if target = ''.'' \<or> target = [] then ignore_push read_file ''.'' st
      else push_parts read_file ''.'' (split_on (CHR ''/'') (path_clean target))
             (st @ [load_patterns read_file ''.'']))"

definition should_ignore :: "(string list \<Rightarrow> string \<Rightarrow> bool) \<Rightarrow> ignore_stack \<Rightarrow> string \<Rightarrow> bool" where
  "should_ignore matches st rel =
     (if rel = [] \<or> rel = ''.'' then False
      else if concat st = [] then False
      else matches (concat st) rel)"

definition ignored_dirs :: "string list" where
  "ignored_dirs = [''$RECYCLE.BIN'', ''#snapshot'', ''@Recycle'', ''@Recently-Snapshot'', ''.streams'', ''lost+found'']"

definition is_entry_ignored :: "string \<Rightarrow> bool" where
  "is_entry_ignored name \<longleftrightarrow> has_prefix name ''.'' \<and> \<not> has_prefix name ''..''"

definition is_dir_ignored :: "string \<Rightarrow> bool" where
  "is_dir_ignored name =
     (if has_prefix name ''.'' \<and> \<not> has_prefix name ''..'' then True
      else if \<exists>d \<in> set ignored_dirs. equal_fold d name then True else False)"

section \<open>Files\<close>

record file_info =
  fi_modified :: go_time
  fi_size :: int
  fi_ok :: bool

text \<open>A directory with whether it can be opened; a link is broken if it points at nothing.\<close>

datatype fs_tree =
    Fs_dir file_info bool "(string \<times> fs_tree) list"
  | Fs_file file_info
  | Fs_link file_info "fs_tree option"

primrec tree_info :: "fs_tree \<Rightarrow> file_info" where
  "tree_info (Fs_dir i r es) = i"
| "tree_info (Fs_file i) = i"
| "tree_info (Fs_link i t) = i"

fun resolve_link :: "fs_tree \<Rightarrow> fs_tree option" where
  "resolve_link (Fs_link i None) = None"
| "resolve_link (Fs_link i (Some t)) = resolve_link t"
| "resolve_link t = Some t"

fun is_dir_or_link :: "bool \<Rightarrow> fs_tree \<Rightarrow> bool option" where
  "is_dir_or_link follow (Fs_dir i r es) = Some True"
| "is_dir_or_link follow (Fs_file i) = Some False"
| "is_dir_or_link follow (Fs_link i t) =
     (if \<not> follow then Some False
      else (case resolve_link (Fs_link i t) of
              None \<Rightarrow> None
            | Some (Fs_dir j r es) \<Rightarrow> Some True
            | Some _ \<Rightarrow> Some False))"

fun tree_readable :: "fs_tree \<Rightarrow> bool" where
  "tree_readable (Fs_dir i r es) = r"
| "tree_readable t = True"

fun tree_entries :: "fs_tree \<Rightarrow> (string \<times> fs_tree) list" where
  "tree_entries (Fs_dir i r es) = es"
| "tree_entries t = []"

text \<open>\<open>fs.Stat\<close> of a path in a tree; a path with an empty, a dot or a double dot element is invalid.\<close>

fun tree_at :: "fs_tree \<Rightarrow> string list \<Rightarrow> fs_tree option" where
  "tree_at t [] = resolve_link t"
| "tree_at t (e # es) =
     (if e = [] \<or> e = ''.'' \<or> e = ''..'' then None
      else (case resolve_link t of
              Some (Fs_dir i r xs) \<Rightarrow> (case map_of xs e of None \<Rightarrow> None | Some u \<Rightarrow> tree_at u es)
            | _ \<Rightarrow> None))"

definition fs_stat :: "fs_tree \<Rightarrow> string \<Rightarrow> fs_tree option" where
  "fs_stat base p = (if p = ''.'' then resolve_link base else tree_at base (split_on (CHR ''/'') p))"

section \<open>Folders\<close>

record scan_lib =
  sl_id :: int
  sl_path :: string
  sl_full_in_progress :: bool
  sl_scan_started :: go_time

definition folder_id :: "hash_fun \<Rightarrow> scan_lib \<Rightarrow> string \<Rightarrow> string" where
  "folder_id hash lib p0 =
     (let p1 = (if has_prefix p0 (sl_path lib) then drop (length (sl_path lib)) p0 else p0);
          p2 = (if has_prefix p1 ''/'' then drop 1 p1 else p1)
      in hash [itoa (sl_id lib) @ '':'' @ path_clean p2])"

record folder_row =
  fo_id :: string
  fo_library :: int
  fo_path :: string
  fo_name :: string
  fo_parent :: string
  fo_audio :: int
  fo_playlists :: int
  fo_images :: "string list"
  fo_images_at :: go_time
  fo_hash :: string
  fo_missing :: bool
  fo_updated :: go_time

definition path_split :: "string \<Rightarrow> string \<times> string" where
  "path_split p =
     (rev (dropWhile (\<lambda>c. c \<noteq> CHR ''/'') (rev p)), rev (takeWhile (\<lambda>c. c \<noteq> CHR ''/'') (rev p)))"

definition new_folder :: "hash_fun \<Rightarrow> scan_lib \<Rightarrow> string \<Rightarrow> go_time \<Rightarrow> folder_row" where
  "new_folder hash lib p now =
     (case path_split p of (d, name) \<Rightarrow>
        let dir = path_clean d; at_top = (dir = ''.'' \<and> name = ''.'')
        in \<lparr>fo_id = folder_id hash lib p, fo_library = sl_id lib, fo_path = (if at_top then [] else dir),
            fo_name = name, fo_parent = (if at_top then [] else folder_id hash lib dir), fo_audio = 0,
            fo_playlists = 0, fo_images = [], fo_images_at = zero_time, fo_hash = [], fo_missing = False,
            fo_updated = now\<rparr>)"

text \<open>What is known of a folder from its last scan.\<close>

record update_info =
  ui_updated :: go_time
  ui_hash :: string

record folder_entry =
  fe_id :: string
  fe_path :: string
  fe_modified :: go_time
  fe_updated :: go_time
  fe_audio :: "(string \<times> int \<times> go_time) list"
  fe_images :: "(string \<times> int \<times> go_time) list"
  fe_playlists :: int
  fe_sub_folders :: int
  fe_images_at :: go_time
  fe_prev_hash :: string

definition has_no_files :: "folder_entry \<Rightarrow> bool" where
  "has_no_files f \<longleftrightarrow> fe_audio f = [] \<and> fe_images f = [] \<and> fe_playlists f = 0"

definition folder_is_empty :: "folder_entry \<Rightarrow> bool" where
  "folder_is_empty f \<longleftrightarrow> has_no_files f \<and> fe_sub_folders f = 0"

definition is_new :: "folder_entry \<Rightarrow> bool" where
  "is_new f \<longleftrightarrow> fe_updated f = zero_time"

record walk_env =
  we_read_ignore :: "string \<Rightarrow> ignore_file"
  we_matches :: "string list \<Rightarrow> string \<Rightarrow> bool"
  we_follow :: bool
  we_files :: m3u_env
  we_hash :: hash_fun
  we_md5 :: "string \<Rightarrow> string"
  we_time :: "go_time \<Rightarrow> string"
  we_playlists_path :: "string list"
  we_glob :: "string \<Rightarrow> string \<Rightarrow> bool"
  we_info_ok :: "string \<Rightarrow> bool"

text \<open>
  After the walk \<open>Info\<close> is asked again for the files of a folder, and may then fail (\<open>we_info_ok\<close>, by the
  path): the hash has only the name of such a file.
\<close>

definition file_text :: "walk_env \<Rightarrow> string \<Rightarrow> string \<times> int \<times> go_time \<Rightarrow> string" where
  "file_text e dir f =
     (case f of (name, sz, modified) \<Rightarrow>
        name @ (if we_info_ok e (path_join [dir, name]) then '':'' @ itoa sz @ '':'' @ we_time e modified else []))"

definition folder_hash :: "walk_env \<Rightarrow> folder_entry \<Rightarrow> string" where
  "folder_hash e f =
     we_md5 e (we_time e (fe_modified f) @ '':'' @ itoa (fe_playlists f) @ '':'' @ itoa (fe_sub_folders f) @
       '':'' @ we_time e (fe_images_at f) @ concat (map (file_text e (fe_path f)) (sort_key fst (fe_audio f))) @
       concat (map (file_text e (fe_path f)) (sort_key fst (fe_images f))))"

definition is_outdated :: "walk_env \<Rightarrow> scan_lib \<Rightarrow> folder_entry \<Rightarrow> bool" where
  "is_outdated e lib f =
     (if sl_full_in_progress lib \<and> fe_updated f < sl_scan_started lib then True
      else fe_prev_hash f \<noteq> folder_hash e f)"

text \<open>\<open>playlists.InPath\<close>: no list of patterns means all folders.\<close>

definition in_path :: "walk_env \<Rightarrow> folder_row \<Rightarrow> bool" where
  "in_path e r =
     (if we_playlists_path e = [] then True
      else \<exists>p \<in> set (we_playlists_path e). we_glob e p (path_join [fo_path r, fo_name r]))"

definition to_folder :: "walk_env \<Rightarrow> scan_lib \<Rightarrow> go_time \<Rightarrow> folder_entry \<Rightarrow> folder_row" where
  "to_folder e lib now f =
     (let r = new_folder (we_hash e) lib (fe_path f) now
      in r\<lparr>fo_audio := int (length (fe_audio f)),
           fo_playlists := (if in_path e r then fe_playlists f else 0),
           fo_images := map fst (fe_images f), fo_images_at := fe_images_at f,
           fo_hash := folder_hash e f\<rparr>)"

section \<open>Walking\<close>

text \<open>What is known of a folder is taken out of the map: what stays was not found.\<close>

definition create_folder_entry ::
  "walk_env \<Rightarrow> scan_lib \<Rightarrow> string \<Rightarrow> (string \<rightharpoonup> update_info) \<Rightarrow> folder_entry \<times> (string \<rightharpoonup> update_info)" where
  "create_folder_entry e lib p upd =
     (let i = folder_id (we_hash e) lib p
      in (\<lparr>fe_id = i, fe_path = p, fe_modified = zero_time,
           fe_updated = (case upd i of None \<Rightarrow> zero_time | Some u \<Rightarrow> ui_updated u),
           fe_audio = [], fe_images = [], fe_playlists = 0, fe_sub_folders = 0, fe_images_at = zero_time,
           fe_prev_hash = (case upd i of None \<Rightarrow> [] | Some u \<Rightarrow> ui_hash u)\<rparr>, upd(i := None)))"

definition add_file :: "walk_env \<Rightarrow> string \<Rightarrow> file_info \<Rightarrow> folder_entry \<Rightarrow> folder_entry" where
  "add_file e name i f0 =
     (let f = (if fi_modified i > fe_modified f0 then f0\<lparr>fe_modified := fi_modified i\<rparr> else f0)
      in if is_audio_file (we_files e) name
         then f\<lparr>fe_audio := AList.update name (fi_size i, fi_modified i) (fe_audio f)\<rparr>
         else if is_valid_playlist name then f\<lparr>fe_playlists := fe_playlists f + 1\<rparr>
         else if is_image_file (we_files e) name
         then f\<lparr>fe_images := AList.update name (fi_size i, fi_modified i) (fe_images f),
                fe_images_at := max zero_time (max (fe_images_at f) (max (fi_modified i) (fe_modified f)))\<rparr>
         else f)"

datatype entry_kind =
    Skip_entry
  | Child_entry string fs_tree
  | File_entry file_info

definition classify_entry :: "walk_env \<Rightarrow> ignore_stack \<Rightarrow> string \<Rightarrow> string \<times> fs_tree \<Rightarrow> entry_kind" where
  "classify_entry e st dir x =
     (let p = path_join [dir, fst x]
      in if should_ignore (we_matches e) st p \<or> is_entry_ignored (fst x) then Skip_entry
         else (case (is_dir_or_link (we_follow e) (snd x), resolve_link (snd x)) of
                 (None, _) \<Rightarrow> Skip_entry
               | (Some True, Some u) \<Rightarrow>
                   (if \<not> is_dir_ignored (fst x) \<and> tree_readable u then Child_entry p u
                    else File_entry (tree_info (snd x)))
               | _ \<Rightarrow> File_entry (tree_info (snd x))))"

text \<open>The loop of \<open>loadDir\<close>: \<open>None\<close> is the error of a file whose information cannot be read.\<close>

fun load_entries ::
  "walk_env \<Rightarrow> ignore_stack \<Rightarrow> string \<Rightarrow> (string \<times> fs_tree) list \<Rightarrow> folder_entry \<Rightarrow> (string \<times> fs_tree) list
    \<Rightarrow> (folder_entry \<times> (string \<times> fs_tree) list) option"
where
  "load_entries e st dir [] f children = Some (f, children)"
| "load_entries e st dir (x # xs) f children =
     (case classify_entry e st dir x of
        Skip_entry \<Rightarrow> load_entries e st dir xs f children
      | Child_entry p u \<Rightarrow>
          load_entries e st dir xs (f\<lparr>fe_sub_folders := fe_sub_folders f + 1\<rparr>) (children @ [(p, u)])
      | File_entry i \<Rightarrow>
          if \<not> fi_ok i then None else load_entries e st dir xs (add_file e (fst x) i f) children)"

definition load_dir ::
  "walk_env \<Rightarrow> scan_lib \<Rightarrow> ignore_stack \<Rightarrow> string \<Rightarrow> fs_tree \<Rightarrow> (string \<rightharpoonup> update_info)
    \<Rightarrow> (folder_entry \<times> (string \<times> fs_tree) list) option \<times> (string \<rightharpoonup> update_info)"
where
  "load_dir e lib st dir t upd =
     (case create_folder_entry e lib dir upd of (f, upd') \<Rightarrow>
        (if \<not> tree_readable t then None
         else load_entries e st dir (sort_key fst (tree_entries t)) (f\<lparr>fe_modified := fi_modified (tree_info t)\<rparr>) [],
         upd'))"


primrec tree_nodes :: "fs_tree \<Rightarrow> nat" where
  "tree_nodes (Fs_dir i r es) = Suc (sum_list (map (\<lambda>p. snd p) (map (map_prod id tree_nodes) es)))"
| "tree_nodes (Fs_file i) = 1"
| "tree_nodes (Fs_link i t) = Suc (case map_option tree_nodes t of None \<Rightarrow> 0 | Some n \<Rightarrow> n)"

lemma resolve_link_nodes: "resolve_link t = Some u \<Longrightarrow> tree_nodes u \<le> tree_nodes t"
  by (induction t rule: resolve_link.induct) auto

definition list_nodes :: "(string \<times> fs_tree) list \<Rightarrow> nat" where
  "list_nodes es = sum_list (map (tree_nodes \<circ> snd) es)"

lemma list_nodes_simps [simp]:
  "list_nodes [] = 0" "list_nodes (x # xs) = tree_nodes (snd x) + list_nodes xs"
  "list_nodes (xs @ ys) = list_nodes xs + list_nodes ys"
  by (simp_all add: list_nodes_def)

lemma list_nodes_sort: "list_nodes (sort_key f es) = list_nodes es"
  by (simp add: list_nodes_def) (metis mset_map mset_sort sum_mset_sum_list)

lemma tree_nodes_pos [simp]: "0 < tree_nodes t"
  by (cases t) auto

lemma classify_child: "classify_entry e st dir x = Child_entry p u \<Longrightarrow> resolve_link (snd x) = Some u"
  by (auto simp: classify_entry_def Let_def split: if_splits option.splits bool.splits)

lemma load_entries_nodes:
  "load_entries e st dir es f children = Some (g, cs) \<Longrightarrow> list_nodes cs \<le> list_nodes children + list_nodes es"
proof (induction es arbitrary: f children)
  case (Cons x xs)
  show ?case
  proof (cases "classify_entry e st dir x")
    case (Child_entry p u)
    with Cons.prems Cons.IH [of _ "children @ [(p, u)]"] resolve_link_nodes [OF classify_child [OF Child_entry]]
    show ?thesis by fastforce
  qed (use Cons in \<open>fastforce split: if_splits\<close>)+
qed simp

lemma load_dir_nodes:
  assumes "load_dir e lib st dir t upd = (Some (f, cs), upd')"
  shows "list_nodes cs < tree_nodes t"
proof -
  from assms have "list_nodes cs \<le> list_nodes (tree_entries t)"
    using load_entries_nodes [where es = "sort_key fst (tree_entries t)" and children = "[]"]
    by (fastforce simp: load_dir_def list_nodes_sort split: prod.splits if_splits)
  also have "\<dots> < tree_nodes t"
    by (cases t) (simp_all add: list_nodes_def comp_def map_prod_def split_beta)
  finally show ?thesis .
qed

lemma load_dir_smaller:
  "(Some (f, cs), upd') = load_dir e lib st dir t upd \<Longrightarrow> Suc (2 * list_nodes cs) < 2 * tree_nodes t"
  using load_dir_nodes [of e lib st dir t upd f cs upd'] by simp

text \<open>
  \<open>walkFolder\<close>: the children before the folder; a folder that cannot be read is left out. The results
  come with the map of what was not found.
\<close>

function
  walk_folder :: "walk_env \<Rightarrow> scan_lib \<Rightarrow> string \<Rightarrow> fs_tree \<Rightarrow> ignore_stack \<Rightarrow> (string \<rightharpoonup> update_info)
    \<Rightarrow> folder_entry list \<times> (string \<rightharpoonup> update_info)" and
  walk_children :: "walk_env \<Rightarrow> scan_lib \<Rightarrow> (string \<times> fs_tree) list \<Rightarrow> ignore_stack \<Rightarrow> (string \<rightharpoonup> update_info)
    \<Rightarrow> folder_entry list \<times> (string \<rightharpoonup> update_info)"
where
  "walk_folder e lib cur t st upd =
     (let st' = ignore_push (we_read_ignore e) cur st
      in case load_dir e lib st' cur t upd of
           (None, upd1) \<Rightarrow> ([], upd1)
         | (Some (f, cs), upd1) \<Rightarrow>
             (case walk_children e lib cs st' upd1 of
                (fs, upd2) \<Rightarrow> (fs @ [f\<lparr>fe_path := path_clean cur\<rparr>], upd2)))"
| "walk_children e lib [] st upd = ([], upd)"
| "walk_children e lib (c # cs) st upd =
     (case walk_folder e lib (fst c) (snd c) st upd of
        (fs, upd1) \<Rightarrow> (case walk_children e lib cs st upd1 of (gs, upd2) \<Rightarrow> (fs @ gs, upd2)))"
  by pat_completeness auto
termination
  by (relation "measure (\<lambda>x. case x of
        Inl (e, lib, cur, t, st, upd) \<Rightarrow> 2 * tree_nodes t
      | Inr (e, lib, cs, st, upd) \<Rightarrow> 2 * list_nodes cs + 1)")
    (auto dest: load_dir_smaller)



text \<open>
  \<open>walkDirTree\<close>: no target means the folder at the top. A target is walked with the patterns of its
  parents, and of itself, which walking it adds once more.
\<close>

fun walk_targets :: "walk_env \<Rightarrow> scan_lib \<Rightarrow> fs_tree \<Rightarrow> string list \<Rightarrow> (string \<rightharpoonup> update_info)
    \<Rightarrow> folder_entry list \<times> (string \<rightharpoonup> update_info)"
where
  "walk_targets e lib base [] upd = ([], upd)"
| "walk_targets e lib base (p # ps) upd =
     (case fs_stat base p of
        None \<Rightarrow> walk_targets e lib base ps upd
      | Some t \<Rightarrow>
          (case walk_folder e lib p t (push_all_parents (we_read_ignore e) p []) upd of
             (fs, upd1) \<Rightarrow> (case walk_targets e lib base ps upd1 of (gs, upd2) \<Rightarrow> (fs @ gs, upd2))))"

definition walk_dir_tree :: "walk_env \<Rightarrow> scan_lib \<Rightarrow> fs_tree \<Rightarrow> string list \<Rightarrow> (string \<rightharpoonup> update_info)
    \<Rightarrow> folder_entry list \<times> (string \<rightharpoonup> update_info)"
where
  "walk_dir_tree e lib base targets upd =
     walk_targets e lib base (if targets = [] then [''.''] else targets) upd"

section \<open>What a walk depends on\<close>

text \<open>
  The ids of the folders that are visited, and the entry with what was known of its folder. If no two
  folders have the same id, a walk gives the same entries whatever was known, with that filled in, and
  takes out of the map exactly what it visits.
\<close>

definition bare_dir :: "walk_env \<Rightarrow> scan_lib \<Rightarrow> ignore_stack \<Rightarrow> string \<Rightarrow> fs_tree
    \<Rightarrow> (folder_entry \<times> (string \<times> fs_tree) list) option"
where
  "bare_dir e lib st dir t = fst (load_dir e lib st dir t Map.empty)"

definition fill_entry :: "(string \<rightharpoonup> update_info) \<Rightarrow> folder_entry \<Rightarrow> folder_entry" where
  "fill_entry upd f =
     f\<lparr>fe_updated := (case upd (fe_id f) of None \<Rightarrow> zero_time | Some u \<Rightarrow> ui_updated u),
       fe_prev_hash := (case upd (fe_id f) of None \<Rightarrow> [] | Some u \<Rightarrow> ui_hash u)\<rparr>"

lemma add_file_fill:
  "add_file e n i (fill_entry upd f) = fill_entry upd (add_file e n i f)"
  "fe_id (add_file e n i f) = fe_id f" "fe_path (add_file e n i f) = fe_path f"
  by (simp_all add: add_file_def fill_entry_def Let_def)

lemma load_entries_fill:
  "load_entries e st dir es (fill_entry upd f) cs =
     map_option (\<lambda>(g, ds). (fill_entry upd g, ds)) (load_entries e st dir es f cs)"
proof (induction es arbitrary: f cs)
  case (Cons x xs)
  have sub: "(fill_entry upd f)\<lparr>fe_sub_folders := n\<rparr> = fill_entry upd (f\<lparr>fe_sub_folders := n\<rparr>)" for n
    by (simp add: fill_entry_def)
  have n: "fe_sub_folders (fill_entry upd f) = fe_sub_folders f" by (simp add: fill_entry_def)
  show ?case by (simp add: Cons.IH sub n add_file_fill split: entry_kind.split)
qed simp

lemma load_entries_id:
  "load_entries e st dir es f cs = Some (g, ds) \<Longrightarrow> fe_id g = fe_id f"
  by (induction es arbitrary: f cs) (auto simp: add_file_fill split: entry_kind.splits if_splits)

lemma load_dir_eq:
  "load_dir e lib st dir t upd =
     (map_option (\<lambda>(g, ds). (fill_entry upd g, ds)) (bare_dir e lib st dir t),
      upd(folder_id (we_hash e) lib dir := None))"
proof -
  have "fst (create_folder_entry e lib dir upd) =
      fill_entry upd (fst (create_folder_entry e lib dir Map.empty))"
    by (simp add: create_folder_entry_def fill_entry_def Let_def)
  moreover have "(fill_entry upd f)\<lparr>fe_modified := m\<rparr> = fill_entry upd (f\<lparr>fe_modified := m\<rparr>)" for f m
    by (simp add: fill_entry_def)
  ultimately show ?thesis
    by (simp add: load_dir_def bare_dir_def split_beta load_entries_fill)
      (simp add: create_folder_entry_def Let_def)
qed

lemma bare_dir_id:
  "bare_dir e lib st dir t = Some (f, cs) \<Longrightarrow> fe_id f = folder_id (we_hash e) lib dir"
  by (auto simp: bare_dir_def load_dir_def create_folder_entry_def Let_def dest!: load_entries_id
      split: if_splits)

lemma fill_entry_path: "(fill_entry upd f)\<lparr>fe_path := p\<rparr> = fill_entry upd (f\<lparr>fe_path := p\<rparr>)"
  by (simp add: fill_entry_def)

text \<open>The ids that are visited, and the entries that are found, when nothing is known.\<close>

function
  folder_ids :: "walk_env \<Rightarrow> scan_lib \<Rightarrow> string \<Rightarrow> fs_tree \<Rightarrow> ignore_stack \<Rightarrow> string list" and
  children_ids :: "walk_env \<Rightarrow> scan_lib \<Rightarrow> (string \<times> fs_tree) list \<Rightarrow> ignore_stack \<Rightarrow> string list"
where
  "folder_ids e lib cur t st =
     (let st' = ignore_push (we_read_ignore e) cur st
      in folder_id (we_hash e) lib cur #
         (case bare_dir e lib st' cur t of None \<Rightarrow> [] | Some (f, cs) \<Rightarrow> children_ids e lib cs st'))"
| "children_ids e lib [] st = []"
| "children_ids e lib (c # cs) st = folder_ids e lib (fst c) (snd c) st @ children_ids e lib cs st"
  by pat_completeness auto
termination
proof (relation "measure (\<lambda>x. case x of
        Inl (e, lib, cur, t, st) \<Rightarrow> 2 * tree_nodes t
      | Inr (e, lib, cs, st) \<Rightarrow> 2 * list_nodes cs + 1)", simp, goal_cases)
  case (1 e lib cur t st st' x f cs)
  then have "load_dir e lib st' cur t Map.empty = (Some (f, cs), snd (load_dir e lib st' cur t Map.empty))"
    by (simp add: bare_dir_def prod_eq_iff)
  from load_dir_smaller [OF this [symmetric]] show ?case by simp
qed auto

definition bare_folder :: "walk_env \<Rightarrow> scan_lib \<Rightarrow> string \<Rightarrow> fs_tree \<Rightarrow> ignore_stack \<Rightarrow> folder_entry list" where
  "bare_folder e lib cur t st = fst (walk_folder e lib cur t st Map.empty)"

lemma fill_entry_cong: "upd (fe_id f) = upd' (fe_id f) \<Longrightarrow> fill_entry upd f = fill_entry upd' f"
  by (simp add: fill_entry_def)

lemma fill_fill: "fill_entry upd (fill_entry upd' f) = fill_entry upd f"
  by (simp add: fill_entry_def)

lemma fill_fields [simp]:
  "fe_id (fill_entry upd f) = fe_id f" "fe_path (fill_entry upd f) = fe_path f"
  "has_no_files (fill_entry upd f) = has_no_files f" "folder_hash e (fill_entry upd f) = folder_hash e f"
  by (simp_all add: fill_entry_def has_no_files_def folder_hash_def)

declare folder_ids.simps [simp del] walk_folder.simps [simp del]

lemma walk_folder_eq:
  "walk_folder e lib cur t st upd =
     (let st' = ignore_push (we_read_ignore e) cur st; upd' = upd(folder_id (we_hash e) lib cur := None)
      in case bare_dir e lib st' cur t of
           None \<Rightarrow> ([], upd')
         | Some (f, cs) \<Rightarrow>
             (fst (walk_children e lib cs st' upd') @ [fill_entry upd (f\<lparr>fe_path := path_clean cur\<rparr>)],
              snd (walk_children e lib cs st' upd')))"
  by (simp add: walk_folder.simps Let_def load_dir_eq split_beta fill_entry_path split: option.split)

lemma folder_ids_eq:
  "set (folder_ids e lib cur t st) =
     insert (folder_id (we_hash e) lib cur)
       (case bare_dir e lib (ignore_push (we_read_ignore e) cur st) cur t of None \<Rightarrow> {}
        | Some (f, cs) \<Rightarrow> set (children_ids e lib cs (ignore_push (we_read_ignore e) cur st)))"
  by (simp add: folder_ids.simps Let_def split: option.split)

text \<open>Induction over what is visited.\<close>

lemma walk_induct [consumes 0, case_names unread folder none more]:
  assumes unread: "\<And>cur t st. bare_dir e lib (ignore_push (we_read_ignore e) cur st) cur t = None \<Longrightarrow> P cur t st"
    and folder: "\<And>cur t st f cs. bare_dir e lib (ignore_push (we_read_ignore e) cur st) cur t = Some (f, cs)
        \<Longrightarrow> Q cs (ignore_push (we_read_ignore e) cur st) \<Longrightarrow> P cur t st"
    and none: "\<And>st. Q [] st"
    and more: "\<And>c cs st. P (fst c) (snd c) st \<Longrightarrow> Q cs st \<Longrightarrow> Q (c # cs) st"
  shows "P cur t st" "Q cs st"
proof -
  have "(e' = e \<longrightarrow> lib' = lib \<longrightarrow> P cur t st)" "(e' = e \<longrightarrow> lib' = lib \<longrightarrow> Q cs st)" for e' lib'
  proof (induction e' lib' cur t st and e' lib' cs st rule: folder_ids_children_ids.induct)
    case (1 e' lib' cur t st)
    then show ?case
      by (cases "bare_dir e lib (ignore_push (we_read_ignore e) cur st) cur t")
        (auto intro: unread folder)
  qed (auto intro: none more)
  then show "P cur t st" "Q cs st" by blast+
qed

lemma walk_ids:
  "\<forall>upd. fe_id ` set (fst (walk_folder e lib cur t st upd)) \<subseteq> set (folder_ids e lib cur t st)"
  "\<forall>upd. fe_id ` set (fst (walk_children e lib cs st upd)) \<subseteq> set (children_ids e lib cs st)"
proof (induction rule: walk_induct [of e lib])
  case (folder cur t st f cs)
  show ?case
  proof
    fix upd
    let ?st = "ignore_push (we_read_ignore e) cur st"
    have "fe_id ` set (fst (walk_children e lib cs ?st upd')) \<subseteq> set (children_ids e lib cs ?st)" for upd'
      using folder by blast
    with folder(1) show "fe_id ` set (fst (walk_folder e lib cur t st upd)) \<subseteq> set (folder_ids e lib cur t st)"
      by (auto simp: walk_folder_eq folder_ids_eq Let_def bare_dir_id)
  qed
next
  case (more c cs st)
  then show ?case by (simp add: split_beta image_Un) blast
qed (simp_all add: walk_folder_eq Let_def)

lemma walk_fill:
  "\<forall>upd. distinct (folder_ids e lib cur t st) \<longrightarrow>
     walk_folder e lib cur t st upd =
       (map (fill_entry upd) (fst (walk_folder e lib cur t st Map.empty)),
        upd |` (- set (folder_ids e lib cur t st)))"
  "\<forall>upd. distinct (children_ids e lib cs st) \<longrightarrow>
     walk_children e lib cs st upd =
       (map (fill_entry upd) (fst (walk_children e lib cs st Map.empty)),
        upd |` (- set (children_ids e lib cs st)))"
proof (induction rule: walk_induct [of e lib])
  case (unread cur t st)
  then show ?case
    by (auto simp: walk_folder_eq folder_ids_eq Let_def restrict_map_def fun_eq_iff)
next
  case (folder cur t st f cs)
  show ?case
  proof (intro allI impI)
    fix upd
    let ?st = "ignore_push (we_read_ignore e) cur st" and ?i = "folder_id (we_hash e) lib cur"
    assume d: "distinct (folder_ids e lib cur t st)"
    with folder(1) have d: "distinct (children_ids e lib cs ?st)" "?i \<notin> set (children_ids e lib cs ?st)"
      by (auto simp: folder_ids.simps Let_def)
    have all: "walk_children e lib cs ?st u =
        (map (fill_entry u) (fst (walk_children e lib cs ?st Map.empty)), u |` (- set (children_ids e lib cs ?st)))" for u
      using folder(2) d(1) by blast
    have "map (fill_entry (upd(?i := None))) fs = map (fill_entry upd) fs"
      if "fs = fst (walk_children e lib cs ?st Map.empty)" for fs
      using d(2) walk_ids(2) [of e lib cs ?st] unfolding that
      by (intro map_cong refl fill_entry_cong) (auto simp: image_subset_iff, metis)
    with folder(1) show "walk_folder e lib cur t st upd =
        (map (fill_entry upd) (fst (walk_folder e lib cur t st Map.empty)),
         upd |` (- set (folder_ids e lib cur t st)))"
      using all [of "upd(?i := None)"]
      by (auto simp: walk_folder_eq folder_ids_eq Let_def fill_fill restrict_map_def fun_eq_iff)
  qed
next
  case (none st)
  show ?case by (simp add: restrict_map_def)
next
  case (more c cs st)
  show ?case
  proof (intro allI impI)
    fix upd
    assume "distinct (children_ids e lib (c # cs) st)"
    then have d: "distinct (folder_ids e lib (fst c) (snd c) st)" "distinct (children_ids e lib cs st)"
      "set (folder_ids e lib (fst c) (snd c) st) \<inter> set (children_ids e lib cs st) = {}" by auto
    let ?I = "- set (folder_ids e lib (fst c) (snd c) st)"
    have f: "walk_folder e lib (fst c) (snd c) st u =
        (map (fill_entry u) (fst (walk_folder e lib (fst c) (snd c) st Map.empty)), u |` ?I)" for u
      using more(1) d(1) by blast
    have g: "walk_children e lib cs st u =
        (map (fill_entry u) (fst (walk_children e lib cs st Map.empty)), u |` (- set (children_ids e lib cs st)))" for u
      using more(2) d(2) by blast
    have "map (fill_entry (upd |` ?I)) fs = map (fill_entry upd) fs"
      if "fs = fst (walk_children e lib cs st Map.empty)" for fs
      using d(3) walk_ids(2) [of e lib cs st] unfolding that
      by (intro map_cong refl fill_entry_cong) (auto simp: restrict_map_def image_subset_iff)
    moreover have "snd (walk_folder e lib (fst c) (snd c) st Map.empty) = Map.empty"
      by (subst f) simp
    ultimately show "walk_children e lib (c # cs) st upd =
        (map (fill_entry upd) (fst (walk_children e lib (c # cs) st Map.empty)),
         upd |` (- set (children_ids e lib (c # cs) st)))"
      using f [of upd] g [of "upd |` ?I"] by (simp add: split_beta)
  qed
qed


section \<open>Ids and paths\<close>

lemma path_clean_ne: "path_clean p \<noteq> []"
  by (simp add: path_clean_def Let_def)

lemma load_entries_paths:
  assumes "load_entries e st dir es f cs = Some (g, ds)" "dir \<noteq> []"
    and "\<forall>c \<in> set cs. path_clean (fst c) = fst c"
  shows "\<forall>c \<in> set ds. path_clean (fst c) = fst c"
  using assms
proof (induction es arbitrary: f cs)
  case (Cons x xs)
  have j: "path_clean (path_join [dir, n]) = path_join [dir, n]" for n
    using Cons.prems(2) by (simp add: path_join_def Let_def)
  show ?case
  proof (cases "classify_entry e st dir x")
    case Skip_entry
    with Cons.prems(1) have "load_entries e st dir xs f cs = Some (g, ds)" by simp
    from Cons.IH [OF this Cons.prems(2,3)] show ?thesis .
  next
    case (Child_entry p u)
    then have p: "p = path_join [dir, fst x]"
      by (auto simp: classify_entry_def Let_def split: if_splits option.splits bool.splits)
    from Child_entry Cons.prems(1)
    have "load_entries e st dir xs (f\<lparr>fe_sub_folders := fe_sub_folders f + 1\<rparr>) (cs @ [(p, u)]) = Some (g, ds)"
      by simp
    from Cons.IH [OF this Cons.prems(2)] Cons.prems(3) p j show ?thesis by simp
  next
    case (File_entry i)
    with Cons.prems(1) have "load_entries e st dir xs (add_file e (fst x) i f) cs = Some (g, ds)"
      by (simp split: if_splits)
    from Cons.IH [OF this Cons.prems(2,3)] show ?thesis .
  qed
qed simp

lemma bare_dir_paths:
  assumes "bare_dir e lib st dir t = Some (f, cs)" "dir \<noteq> []"
  shows "\<forall>c \<in> set cs. path_clean (fst c) = fst c"
  using assms load_entries_paths [of e st dir "sort_key fst (tree_entries t)" _ "[]" f cs]
  by (auto simp: bare_dir_def load_dir_def split: prod.splits if_splits)

lemma walk_path_id:
  "path_clean cur = cur \<longrightarrow>
     (\<forall>upd. \<forall>f \<in> set (fst (walk_folder e lib cur t st upd)). folder_id (we_hash e) lib (fe_path f) = fe_id f)"
  "(\<forall>c \<in> set cs. path_clean (fst c) = fst c) \<longrightarrow>
     (\<forall>upd. \<forall>f \<in> set (fst (walk_children e lib cs st upd)). folder_id (we_hash e) lib (fe_path f) = fe_id f)"
proof (induction rule: walk_induct [of e lib])
  case (folder cur t st g cs)
  show ?case
  proof (intro impI allI)
    fix upd
    assume c: "path_clean cur = cur"
    with path_clean_ne [of cur] bare_dir_paths [OF folder(1)] have cs: "\<forall>c \<in> set cs. path_clean (fst c) = fst c"
      by simp
    show "\<forall>f \<in> set (fst (walk_folder e lib cur t st upd)). folder_id (we_hash e) lib (fe_path f) = fe_id f"
      using folder cs c by (auto simp: walk_folder_eq Let_def dest: bare_dir_id)
  qed
next
  case (more c cs st)
  then show ?case by (auto simp: split_beta)
qed (simp_all add: walk_folder_eq Let_def)

lemma distinct_map_append:
  assumes "f ` set xs \<subseteq> set us" "f ` set ys \<subseteq> set vs" "distinct (us @ vs)"
    "distinct (map f xs)" "distinct (map f ys)"
  shows "distinct (map f (xs @ ys))"
proof -
  have "f ` set xs \<inter> f ` set ys = {}" using assms(1-3) by auto
  with assms(4,5) show ?thesis by simp
qed

lemma walk_distinct:
  "distinct (folder_ids e lib cur t st) \<longrightarrow> distinct (map fe_id (fst (walk_folder e lib cur t st Map.empty)))"
  "distinct (children_ids e lib cs st) \<longrightarrow> distinct (map fe_id (fst (walk_children e lib cs st Map.empty)))"
proof (induction rule: walk_induct [of e lib])
  case (folder cur t st f cs)
  let ?st = "ignore_push (we_read_ignore e) cur st"
  have w: "fe_id ` set (fst (walk_children e lib cs ?st Map.empty)) \<subseteq> set (children_ids e lib cs ?st)"
    using walk_ids(2) [of e lib cs ?st] by (rule spec)
  have "distinct (folder_ids e lib cur t st) \<longleftrightarrow>
      folder_id (we_hash e) lib cur \<notin> set (children_ids e lib cs ?st) \<and> distinct (children_ids e lib cs ?st)"
    using folder(1) by (simp add: folder_ids.simps Let_def)
  moreover have "map fe_id (fst (walk_folder e lib cur t st Map.empty)) =
      map fe_id (fst (walk_children e lib cs ?st Map.empty)) @ [folder_id (we_hash e) lib cur]"
    using folder(1) bare_dir_id [OF folder(1)] by (simp add: walk_folder_eq Let_def)
  ultimately show ?case using folder(2) w by auto
next
  case (more c cs st)
  have w: "fe_id ` set (fst (walk_folder e lib (fst c) (snd c) st Map.empty)) \<subseteq> set (folder_ids e lib (fst c) (snd c) st)"
    "fe_id ` set (fst (walk_children e lib cs st Map.empty)) \<subseteq> set (children_ids e lib cs st)"
    by (rule walk_ids(1) [of e lib "fst c" "snd c" st, THEN spec], rule walk_ids(2) [of e lib cs st, THEN spec])
  show ?case
  proof
    assume d: "distinct (children_ids e lib (c # cs) st)"
    then have "walk_folder e lib (fst c) (snd c) st Map.empty =
        (map (fill_entry Map.empty) (fst (walk_folder e lib (fst c) (snd c) st Map.empty)),
         Map.empty |` (- set (folder_ids e lib (fst c) (snd c) st)))"
      using walk_fill(1) by (metis children_ids.simps(2) distinct_append)
    then have "snd (walk_folder e lib (fst c) (snd c) st Map.empty) = Map.empty"
      by (metis restrict_map_empty snd_conv)
    then have eq: "fst (walk_children e lib (c # cs) st Map.empty) =
        fst (walk_folder e lib (fst c) (snd c) st Map.empty) @ fst (walk_children e lib cs st Map.empty)"
      by (simp add: split_beta)
    from d have d: "distinct (folder_ids e lib (fst c) (snd c) st @ children_ids e lib cs st)" by simp
    show "distinct (map fe_id (fst (walk_children e lib (c # cs) st Map.empty)))"
      unfolding eq by (rule distinct_map_append [OF w d]) (use more d in simp_all)
  qed
qed (simp_all add: walk_folder_eq Let_def)


end
