(* ===== verification/FolderScan.thy ===== *)
theory FolderScan
  imports FolderWalk MissingTracks KVStore
begin

text \<open>
  The first phase of a scan: \<open>scanner/phase_1_folders.go\<close>, with the tables it uses
  (\<open>persistence/folder_repository.go\<close>, \<open>mediafile_repository.go\<close>, \<open>sql_base_repository.go\<close>). Folders that
  changed are read again, their tracks are put in the table or marked as missing, and folders that
  were not found are marked at the end. What a file's tags become, \<open>LIKE\<close>, random ids and
  the failing of a transaction are arguments. Of the tables there are the columns this phase
  depends on; tags, artists and the columns of albums that are taken from tracks are left out.
\<close>

section \<open>Tables\<close>

record scan_track =
  sk_id :: string
  sk_library :: int
  sk_folder :: string
  sk_path :: string
  sk_album :: string
  sk_updated :: go_time
  sk_missing :: bool

record scan_store =
  ss_folders :: "string \<rightharpoonup> folder_row"
  ss_tracks :: "scan_track list"
  ss_albums :: "string \<rightharpoonup> int"
  ss_annotations :: "annotation list"
  ss_touched :: "string list"

text \<open>\<open>GetFolderUpdateInfo\<close>: what is known of all folders, or of those in some folders.\<close>

definition update_info_where :: "(folder_row \<Rightarrow> bool) \<Rightarrow> (string \<rightharpoonup> folder_row) \<Rightarrow> string \<rightharpoonup> update_info" where
  "update_info_where p rows i =
     (case rows i of
        None \<Rightarrow> None
      | Some r \<Rightarrow> if p r then Some \<lparr>ui_updated = fo_updated r, ui_hash = fo_hash r\<rparr> else None)"

definition update_info_all :: "scan_lib \<Rightarrow> (string \<rightharpoonup> folder_row) \<Rightarrow> string \<rightharpoonup> update_info" where
  "update_info_all lib = update_info_where (\<lambda>r. fo_library r = sl_id lib \<and> \<not> fo_missing r)"

definition clean_target :: "string \<Rightarrow> string" where
  "clean_target p = path_clean (if has_prefix p ''/'' then drop 1 p else p)"

definition in_target :: "(string \<Rightarrow> string \<Rightarrow> bool) \<Rightarrow> hash_fun \<Rightarrow> scan_lib \<Rightarrow> string \<Rightarrow> folder_row \<Rightarrow> bool" where
  "in_target like hash lib target r \<longleftrightarrow>
     (let p = clean_target target
      in fo_id r = folder_id hash lib p \<or> fo_path r = p \<or> like (p @ ''/%'') (fo_path r))"

definition update_info_batch ::
  "(string \<Rightarrow> string \<Rightarrow> bool) \<Rightarrow> hash_fun \<Rightarrow> scan_lib \<Rightarrow> (string \<rightharpoonup> folder_row) \<Rightarrow> string list
    \<Rightarrow> string \<rightharpoonup> update_info" where
  "update_info_batch like hash lib rows targets =
     update_info_where
       (\<lambda>r. fo_library r = sl_id lib \<and> \<not> fo_missing r \<and> (\<exists>t \<in> set targets. in_target like hash lib t r)) rows"

definition folder_update_info ::
  "(string \<Rightarrow> string \<Rightarrow> bool) \<Rightarrow> hash_fun \<Rightarrow> scan_lib \<Rightarrow> (string \<rightharpoonup> folder_row) \<Rightarrow> string list
    \<Rightarrow> string \<rightharpoonup> update_info" where
  "folder_update_info like hash lib rows targets =
     (if targets = [] then update_info_all lib rows
      else if [] \<in> set targets \<or> ''.'' \<in> set targets then update_info_all lib rows
      else foldl (\<lambda>m batch. m ++ update_info_batch like hash lib rows batch) Map.empty
             (collect_chunks 100 targets))"

text \<open>\<open>Put\<close> of a track: the row with its path in its library is overwritten, or a new one added.\<close>

definition put_scan_track :: "(scan_track \<Rightarrow> string) \<Rightarrow> scan_track \<Rightarrow> scan_track list \<Rightarrow> scan_track list" where
  "put_scan_track fresh t rows =
     (case find (\<lambda>r. sk_path r = sk_path t \<and> sk_library r = sk_library t) rows of
        Some r \<Rightarrow> map (\<lambda>q. if sk_id q = sk_id r then t\<lparr>sk_id := sk_id r\<rparr> else q) rows
      | None \<Rightarrow> rows @ [t\<lparr>sk_id := fresh t\<rparr>])"

text \<open>\<open>MarkMissing\<close>: it stops when a chunk has no row in the table.\<close>

fun mark_chunks :: "go_time \<Rightarrow> string list list \<Rightarrow> scan_track list \<Rightarrow> scan_track list" where
  "mark_chunks now [] rows = rows"
| "mark_chunks now (c # cs) rows =
     (if \<exists>r \<in> set rows. sk_id r \<in> set c
      then mark_chunks now cs
             (map (\<lambda>r. if sk_id r \<in> set c then r\<lparr>sk_missing := True, sk_updated := now\<rparr> else r) rows)
      else rows)"

definition mark_tracks_missing :: "go_time \<Rightarrow> scan_track list \<Rightarrow> scan_track list \<Rightarrow> scan_track list" where
  "mark_tracks_missing now ms rows = mark_chunks now (collect_chunks 200 (map sk_id ms)) rows"

definition mark_missing_by_folder :: "go_time \<Rightarrow> (string \<Rightarrow> bool) \<Rightarrow> scan_track list \<Rightarrow> scan_track list" where
  "mark_missing_by_folder now gone rows =
     map (\<lambda>r. if gone (sk_folder r) \<and> \<not> sk_missing r then r\<lparr>sk_missing := True, sk_updated := now\<rparr> else r) rows"

definition mark_folders_missing :: "go_time \<Rightarrow> (string \<Rightarrow> bool) \<Rightarrow> (string \<rightharpoonup> folder_row) \<Rightarrow> string \<rightharpoonup> folder_row" where
  "mark_folders_missing now gone rows i =
     (if gone i then map_option (\<lambda>r. r\<lparr>fo_missing := True, fo_updated := now\<rparr>) (rows i) else rows i)"

section \<open>Processing a folder\<close>

definition folders_to_process :: "bool \<Rightarrow> walk_env \<Rightarrow> scan_lib \<Rightarrow> folder_entry list \<Rightarrow> folder_entry list" where
  "folders_to_process full e lib fs =
     filter (\<lambda>f. is_outdated e lib f \<and> (full \<or> \<not> (has_no_files f \<and> is_new f))) fs"

definition audio_path :: "folder_entry \<Rightarrow> string \<times> int \<times> go_time \<Rightarrow> string" where
  "audio_path f a = path_join [fe_path f, fst a]"

definition db_tracks :: "folder_entry \<Rightarrow> scan_track list \<Rightarrow> string \<rightharpoonup> scan_track" where
  "db_tracks f rows = slice_to_map (\<lambda>r. (sk_path r, r)) (filter (\<lambda>r. sk_folder r = fe_id f) rows)"

definition must_import :: "bool \<Rightarrow> (string \<rightharpoonup> scan_track) \<Rightarrow> folder_entry \<Rightarrow> string \<times> int \<times> go_time \<Rightarrow> bool" where
  "must_import full db f a =
     (case db (audio_path f a) of
        None \<Rightarrow> True
      | Some t \<Rightarrow> full \<or> snd (snd a) > sk_updated t \<or> sk_missing t)"

definition files_to_import ::
  "bool \<Rightarrow> (string \<rightharpoonup> scan_track) \<Rightarrow> folder_entry \<Rightarrow> (string \<times> scan_track option) list" where
  "files_to_import full db f =
     map (\<lambda>a. (audio_path f a, db (audio_path f a))) (filter (must_import full db f) (fe_audio f))"

definition gone_tracks :: "folder_entry \<Rightarrow> scan_track list \<Rightarrow> scan_track list" where
  "gone_tracks f rows =
     filter (\<lambda>r. db_tracks f rows (sk_path r) = Some r \<and> sk_path r \<notin> audio_path f ` set (fe_audio f)) rows"

text \<open>What the tags of a file give: its album, the album under the settings of the last scan, its time.\<close>

record file_meta =
  fm_album :: string
  fm_prev_album :: string
  fm_modified :: go_time

definition meta_track :: "scan_lib \<Rightarrow> folder_entry \<Rightarrow> string \<times> file_meta \<Rightarrow> scan_track" where
  "meta_track lib f x =
     \<lparr>sk_id = [], sk_library = sl_id lib, sk_folder = fe_id f, sk_path = fst x, sk_album = fm_album (snd x),
      sk_updated = fm_modified (snd x), sk_missing = False\<rparr>"

definition note_album :: "(string \<times> scan_track option) list \<Rightarrow> (string \<rightharpoonup> string) \<Rightarrow> string \<times> file_meta
    \<Rightarrow> string \<rightharpoonup> string" where
  "note_album imps m x =
     (let prev = (case map_of imps (fst x) of Some (Some t) \<Rightarrow> sk_album t | _ \<Rightarrow> fm_prev_album (snd x))
      in if prev \<noteq> fm_album (snd x) \<and> fm_album (snd x) \<notin> dom m then m(fm_album (snd x) \<mapsto> prev) else m)"

text \<open>\<open>loadTagsFromFiles\<close>, in chunks: \<open>None\<close> is the error of a chunk.\<close>

fun load_tags :: "(string list \<Rightarrow> (string \<times> file_meta) list option) \<Rightarrow> string list list
    \<Rightarrow> (string \<times> file_meta) list option" where
  "load_tags read_tags [] = Some []"
| "load_tags read_tags (c # cs) =
     (case read_tags c of
        None \<Rightarrow> None
      | Some ms \<Rightarrow> map_option (\<lambda>rest. ms @ rest) (load_tags read_tags cs))"

record processed =
  pd_tracks :: "scan_track list"
  pd_album_ids :: "string \<rightharpoonup> string"
  pd_gone :: "scan_track list"

text \<open>
  In a quick scan the time of a file that is in the table is asked for. When that fails nothing of the
  folder is processed, when the tags of a file cannot be read nothing of it is imported: both give a
  warning, and the folder is written all the same.
\<close>

definition info_fails ::
  "(string \<Rightarrow> bool) \<Rightarrow> bool \<Rightarrow> (string \<rightharpoonup> scan_track) \<Rightarrow> folder_entry \<Rightarrow> bool" where
  "info_fails info_ok full db f \<longleftrightarrow>
     \<not> full \<and> (\<exists>a \<in> set (fe_audio f). db (audio_path f a) \<noteq> None \<and> \<not> info_ok (audio_path f a))"

definition process_folder ::
  "(string \<Rightarrow> bool) \<Rightarrow> (string list \<Rightarrow> (string \<times> file_meta) list option) \<Rightarrow> bool \<Rightarrow> scan_lib \<Rightarrow> folder_entry
    \<Rightarrow> scan_track list \<Rightarrow> processed" where
  "process_folder info_ok read_tags full lib f rows =
     (let imps = files_to_import full (db_tracks f rows) f;
          gone = gone_tracks f rows
      in if info_fails info_ok full (db_tracks f rows) f
         then \<lparr>pd_tracks = [], pd_album_ids = Map.empty, pd_gone = []\<rparr>
         else case load_tags read_tags (collect_chunks 200 (map fst imps)) of
           None \<Rightarrow> \<lparr>pd_tracks = [], pd_album_ids = Map.empty, pd_gone = gone\<rparr>
         | Some ms \<Rightarrow>
             \<lparr>pd_tracks = map (meta_track lib f) ms, pd_album_ids = foldl (note_album imps) Map.empty ms,
              pd_gone = gone\<rparr>)"

section \<open>Writing the changes\<close>

text \<open>\<open>persistAlbum\<close>: the two statements after \<open>Put\<close> may fail, which is only logged.\<close>

definition persist_album ::
  "(string \<Rightarrow> int) \<Rightarrow> (string \<Rightarrow> bool \<times> bool) \<Rightarrow> (string \<rightharpoonup> string) \<Rightarrow> scan_store \<Rightarrow> string \<Rightarrow> scan_store" where
  "persist_album created oks ids st a =
     (let albums = (if ss_albums st a = None then (ss_albums st)(a \<mapsto> created a) else ss_albums st);
          st = st\<lparr>ss_albums := albums, ss_touched := a # ss_touched st\<rparr>;
          prev = (case ids a of None \<Rightarrow> [] | Some p \<Rightarrow> p)
      in if prev = [] then st
         else st\<lparr>ss_annotations := (if fst (oks a) then reassign_annotation prev a (ss_annotations st)
                                   else ss_annotations st),
                 ss_albums := (if snd (oks a) then copy_created_at prev a albums else albums)\<rparr>)"

record persist_env =
  pe_created :: "string \<Rightarrow> int"
  pe_album_oks :: "string \<Rightarrow> bool \<times> bool"
  pe_fresh :: "scan_track \<Rightarrow> string"

text \<open>\<open>persistChanges\<close>: one transaction; \<open>ok\<close> is false if a statement or the commit fails.\<close>

definition persist_changes ::
  "walk_env \<Rightarrow> persist_env \<Rightarrow> bool \<Rightarrow> go_time \<Rightarrow> scan_lib \<Rightarrow> folder_entry \<Rightarrow> processed \<Rightarrow> scan_store
    \<Rightarrow> bool \<times> scan_store" where
  "persist_changes e pe ok now lib f pd st =
     (if \<not> ok then (False, st)
      else
        (let row = to_folder e lib now f;
             st1 = st\<lparr>ss_folders := (ss_folders st)(fo_id row \<mapsto> row)\<rparr>;
             st2 = foldl (persist_album (pe_created pe) (pe_album_oks pe) (pd_album_ids pd)) st1
                     (slice_unique (map sk_album (pd_tracks pd)));
             st3 = st2\<lparr>ss_tracks := fold (put_scan_track (pe_fresh pe)) (pd_tracks pd) (ss_tracks st2)\<rparr>
         in (True,
             if pd_gone pd = [] then st3
             else st3\<lparr>ss_tracks := mark_tracks_missing now (pd_gone pd) (ss_tracks st3),
                      ss_touched := slice_unique (map sk_album (pd_gone pd)) @ ss_touched st3\<rparr>)))"

text \<open>The pipeline, a folder after the other; an error ends it. \<open>finalize\<close> runs in any case.\<close>

fun scan_folders ::
  "walk_env \<Rightarrow> persist_env \<Rightarrow> (string list \<Rightarrow> (string \<times> file_meta) list option) \<Rightarrow> (string \<Rightarrow> bool) \<Rightarrow> go_time
    \<Rightarrow> bool \<Rightarrow> scan_lib \<Rightarrow> folder_entry list \<Rightarrow> scan_store \<Rightarrow> bool \<times> scan_store" where
  "scan_folders e pe read_tags oks now full lib [] st = (True, st)"
| "scan_folders e pe read_tags oks now full lib (f # fs) st =
     (case persist_changes e pe (oks (fe_id f)) now lib f
             (process_folder (we_info_ok e) read_tags full lib f (ss_tracks st)) st of
        (True, st') \<Rightarrow> scan_folders e pe read_tags oks now full lib fs st'
      | (False, st') \<Rightarrow> (False, st'))"

definition finalize_folders :: "go_time \<Rightarrow> (string \<Rightarrow> bool) \<Rightarrow> scan_store \<Rightarrow> scan_store" where
  "finalize_folders now gone st =
     st\<lparr>ss_folders := mark_folders_missing now gone (ss_folders st),
        ss_tracks := mark_missing_by_folder now gone (ss_tracks st)\<rparr>"

definition scan_job :: "scan_lib \<Rightarrow> bool \<Rightarrow> scan_lib" where
  "scan_job lib full = lib\<lparr>sl_full_in_progress := (sl_full_in_progress lib \<or> full)\<rparr>"

definition scan_library ::
  "walk_env \<Rightarrow> (string \<Rightarrow> string \<Rightarrow> bool) \<Rightarrow> persist_env \<Rightarrow> (string list \<Rightarrow> (string \<times> file_meta) list option)
    \<Rightarrow> (string \<Rightarrow> bool) \<Rightarrow> go_time \<Rightarrow> bool \<Rightarrow> scan_lib \<Rightarrow> fs_tree \<Rightarrow> string list \<Rightarrow> scan_store
    \<Rightarrow> bool \<times> scan_store" where
  "scan_library e like pe read_tags oks now full lib0 base targets st =
     (let lib = scan_job lib0 full;
          (fs, left_over) = walk_dir_tree e lib base targets
             (folder_update_info like (we_hash e) lib (ss_folders st) targets);
          (ok, st') = scan_folders e pe read_tags oks now full lib (folders_to_process full e lib fs) st
      in (ok, finalize_folders now (\<lambda>i. left_over i \<noteq> None) st'))"

section \<open>The table of folders after a scan\<close>

lemma persist_album_folders [simp]:
  "ss_folders (persist_album c oks ids st a) = ss_folders st" "ss_tracks (persist_album c oks ids st a) = ss_tracks st"
  by (simp_all add: persist_album_def Let_def)

lemma persist_albums_keep [simp]:
  "ss_folders (foldl (persist_album c oks ids) st as1) = ss_folders st"
  "ss_tracks (foldl (persist_album c oks ids) st as1) = ss_tracks st"
  by (induction as1 arbitrary: st) simp_all

lemma persist_changes_folders:
  "persist_changes e pe ok now lib f pd st = (True, st') \<Longrightarrow>
     ss_folders st' = (ss_folders st)(fo_id (to_folder e lib now f) \<mapsto> to_folder e lib now f)"
  by (auto simp: persist_changes_def Let_def split: if_splits)

definition row_of :: "walk_env \<Rightarrow> scan_lib \<Rightarrow> go_time \<Rightarrow> folder_entry \<Rightarrow> string \<times> folder_row" where
  "row_of e lib now f = (fo_id (to_folder e lib now f), to_folder e lib now f)"

lemma scan_folders_rows:
  "scan_folders e pe read_tags oks now full lib fs st = (True, st') \<Longrightarrow>
     ss_folders st' = ss_folders st ++ map_of (rev (map (row_of e lib now) fs))"
proof (induction fs arbitrary: st)
  case (Cons f fs)
  then obtain st1 where st1:
      "persist_changes e pe (oks (fe_id f)) now lib f
         (process_folder (we_info_ok e) read_tags full lib f (ss_tracks st)) st = (True, st1)"
      "scan_folders e pe read_tags oks now full lib fs st1 = (True, st')"
    by (auto split: prod.splits bool.splits)
  have "ss_folders st' = ss_folders st1 ++ map_of (rev (map (row_of e lib now) fs))"
    by (rule Cons.IH [OF st1(2)])
  moreover have "ss_folders st1 = (ss_folders st)(fst (row_of e lib now f) \<mapsto> snd (row_of e lib now f))"
    using persist_changes_folders [OF st1(1)] by (simp add: row_of_def)
  ultimately show ?case
    by (cases "row_of e lib now f") (simp add: fun_eq_iff map_add_def split: option.split)
qed simp

lemma to_folder_fields:
  "fo_id (to_folder e lib now f) = folder_id (we_hash e) lib (fe_path f)"
  "fo_library (to_folder e lib now f) = sl_id lib" "fo_hash (to_folder e lib now f) = folder_hash e f"
  "\<not> fo_missing (to_folder e lib now f)" "fo_updated (to_folder e lib now f) = now"
  by (simp_all add: to_folder_def new_folder_def Let_def split_beta)

text \<open>A walk does not depend on whether a full scan is in progress.\<close>

lemma folder_id_flag [simp]: "folder_id h (lib\<lparr>sl_full_in_progress := b\<rparr>) p = folder_id h lib p"
  by (simp add: folder_id_def)

lemma load_dir_flag [simp]: "load_dir e (lib\<lparr>sl_full_in_progress := b\<rparr>) st dir t upd = load_dir e lib st dir t upd"
  by (simp add: load_dir_def create_folder_entry_def)

lemma walk_flag:
  "walk_folder e (lib\<lparr>sl_full_in_progress := b\<rparr>) cur t st upd = walk_folder e lib cur t st upd"
  "walk_children e (lib\<lparr>sl_full_in_progress := b\<rparr>) cs st upd = walk_children e lib cs st upd"
proof (induction e lib cur t st upd and e lib cs st upd rule: walk_folder_walk_children.induct)
  case (1 e lib cur t st upd)
  then show ?case
    by (subst (1 2) walk_folder.simps) (auto simp: Let_def split: prod.splits option.splits)
next
  case (3 e lib c cs st upd)
  then show ?case by (cases "walk_folder e lib (fst c) (snd c) st upd") simp
qed simp

lemma walk_dir_flag:
  "walk_dir_tree e (lib\<lparr>sl_full_in_progress := b\<rparr>) base ps upd = walk_dir_tree e lib base ps upd"
proof -
  have "walk_targets e (lib\<lparr>sl_full_in_progress := b\<rparr>) base qs u = walk_targets e lib base qs u" for qs u
    by (induction qs arbitrary: u) (simp_all add: walk_flag split: option.split prod.split)
  then show ?thesis by (simp add: walk_dir_tree_def)
qed

text \<open>The ids of the folders that a scan of a whole library visits.\<close>

definition visited_ids :: "walk_env \<Rightarrow> scan_lib \<Rightarrow> fs_tree \<Rightarrow> string list" where
  "visited_ids e lib base =
     (case fs_stat base ''.'' of
        None \<Rightarrow> []
      | Some t \<Rightarrow> folder_ids e lib ''.'' t (push_all_parents (we_read_ignore e) ''.'' []))"

definition found_folders :: "walk_env \<Rightarrow> scan_lib \<Rightarrow> fs_tree \<Rightarrow> folder_entry list" where
  "found_folders e lib base = fst (walk_dir_tree e lib base [] Map.empty)"

lemma walk_library:
  assumes "distinct (visited_ids e lib base)"
  shows "walk_dir_tree e lib base [] upd =
     (map (fill_entry upd) (found_folders e lib base), upd |` (- set (visited_ids e lib base)))"
    and "distinct (map fe_id (found_folders e lib base))"
    and "fe_id ` set (found_folders e lib base) \<subseteq> set (visited_ids e lib base)"
    and "\<forall>f \<in> set (found_folders e lib base). folder_id (we_hash e) lib (fe_path f) = fe_id f"
proof -
  let ?st = "push_all_parents (we_read_ignore e) ''.'' []"
  have all: "walk_dir_tree e lib base [] u =
      (case fs_stat base ''.'' of None \<Rightarrow> ([], u) | Some t \<Rightarrow> walk_folder e lib ''.'' t ?st u)" for u
    by (simp add: walk_dir_tree_def split: option.split prod.split)
  have clean: "path_clean ''.'' = ''.''" by code_simp
  show "walk_dir_tree e lib base [] upd =
     (map (fill_entry upd) (found_folders e lib base), upd |` (- set (visited_ids e lib base)))"
  proof (cases "fs_stat base ''.''")
    case None
    then show ?thesis by (simp add: all found_folders_def visited_ids_def restrict_map_def)
  next
    case (Some t)
    with assms have "distinct (folder_ids e lib ''.'' t ?st)" by (simp add: visited_ids_def)
    then have "walk_folder e lib ''.'' t ?st upd =
        (map (fill_entry upd) (fst (walk_folder e lib ''.'' t ?st Map.empty)),
         upd |` (- set (folder_ids e lib ''.'' t ?st)))"
      by (rule walk_fill(1) [THEN spec, THEN mp])
    then show ?thesis by (simp add: all found_folders_def visited_ids_def Some)
  qed
  have found: "found_folders e lib base =
      (case fs_stat base ''.'' of None \<Rightarrow> [] | Some t \<Rightarrow> fst (walk_folder e lib ''.'' t ?st Map.empty))"
    unfolding found_folders_def all by (simp split: option.split)
  show "distinct (map fe_id (found_folders e lib base))"
  proof (cases "fs_stat base ''.''")
    case (Some t)
    with assms have "distinct (folder_ids e lib ''.'' t ?st)" by (simp add: visited_ids_def)
    with walk_distinct(1) Some show ?thesis by (simp add: found)
  qed (simp add: found)
  show "fe_id ` set (found_folders e lib base) \<subseteq> set (visited_ids e lib base)"
  proof (cases "fs_stat base ''.''")
    case (Some t)
    show ?thesis
      unfolding found visited_ids_def Some option.case by (rule walk_ids(1) [THEN spec])
  qed (simp add: found)
  show "\<forall>f \<in> set (found_folders e lib base). folder_id (we_hash e) lib (fe_path f) = fe_id f"
  proof (cases "fs_stat base ''.''")
    case (Some t)
    show ?thesis
      unfolding found Some option.case by (rule walk_path_id(1) [THEN mp, THEN spec, OF clean])
  qed (simp add: found)
qed

lemma update_info_row:
  "rows i = rows' i \<Longrightarrow> update_info_where p rows i = update_info_where p rows' i"
  by (simp add: update_info_where_def)

lemma is_outdated_fill:
  "is_outdated e lib (fill_entry upd f) \<longleftrightarrow>
     (case upd (fe_id f) of
        None \<Rightarrow> sl_full_in_progress lib \<and> zero_time < sl_scan_started lib \<or> [] \<noteq> folder_hash e f
      | Some u \<Rightarrow> sl_full_in_progress lib \<and> ui_updated u < sl_scan_started lib \<or> ui_hash u \<noteq> folder_hash e f)"
  by (auto simp: is_outdated_def fill_entry_def folder_hash_def split: option.split)


lemma processed_row:
  assumes "distinct (map fe_id fs)" "\<forall>f \<in> set fs. folder_id (we_hash e) lib (fe_path f) = fe_id f"
  shows "map_of (rev (map (row_of e lib now) fs)) i =
     (case find (\<lambda>f. fe_id f = i) fs of None \<Rightarrow> None | Some f \<Rightarrow> Some (to_folder e lib now f))"
  using assms
proof (induction fs)
  case (Cons f fs)
  then have "find (\<lambda>f. fe_id f = fe_id g) fs = None" if "g = f" for g
    using that by (auto simp: find_None_iff) (metis imageI)
  with Cons show ?case
    by (auto simp: row_of_def to_folder_fields map_add_def split: option.split)
qed simp

text \<open>The table of folders after a whole library was scanned with success.\<close>

lemma scan_library_folders:
  assumes scan: "scan_library e like pe read_tags oks now full lib base [] st = (True, st')"
    and d: "distinct (visited_ids e lib base)" and f: "f \<in> set (found_folders e lib base)"
    and p: "p = fill_entry (update_info_all lib (ss_folders st)) f"
  shows "ss_folders st' (fe_id f) =
     (if p \<in> set (folders_to_process full e (scan_job lib full)
           (map (fill_entry (update_info_all lib (ss_folders st))) (found_folders e lib base)))
      then Some (to_folder e (scan_job lib full) now p) else ss_folders st (fe_id f))"
proof -
  let ?lib = "scan_job lib full" and ?info = "update_info_all lib (ss_folders st)"
  let ?ps = "folders_to_process full e ?lib (map (fill_entry ?info) (found_folders e lib base))"
  have info: "folder_update_info like (we_hash e) ?lib (ss_folders st) [] = ?info"
    by (simp add: folder_update_info_def update_info_all_def scan_job_def)
  have walk: "walk_dir_tree e ?lib base [] ?info =
      (map (fill_entry ?info) (found_folders e lib base), ?info |` (- set (visited_ids e lib base)))"
    using walk_library(1) [OF d] by (simp add: scan_job_def walk_dir_flag)
  from scan obtain st1 where st1: "scan_folders e pe read_tags oks now full ?lib ?ps st = (True, st1)"
      "st' = finalize_folders now (\<lambda>i. (?info |` (- set (visited_ids e lib base))) i \<noteq> None) st1"
    by (auto simp: scan_library_def info walk Let_def split: prod.splits)
  have "fe_id f \<in> set (visited_ids e lib base)" using walk_library(3) [OF d] f by auto
  then have keep: "ss_folders st' (fe_id f) = ss_folders st1 (fe_id f)"
    by (simp add: st1(2) finalize_folders_def mark_folders_missing_def)
  have dps: "distinct (map fe_id ?ps)"
    using walk_library(2) [OF d] by (auto simp: folders_to_process_def comp_def intro!: distinct_map_filter)
  have ids: "\<forall>q \<in> set ?ps. folder_id (we_hash e) ?lib (fe_path q) = fe_id q"
    using walk_library(4) [OF d] by (auto simp: folders_to_process_def scan_job_def)
  have "find (\<lambda>q. fe_id q = fe_id f) ?ps = (if p \<in> set ?ps then Some p else None)"
  proof -
    have same: "q = p" if "q \<in> set ?ps" "fe_id q = fe_id f" for q
    proof -
      from that(1) obtain g where g: "g \<in> set (found_folders e lib base)" "q = fill_entry ?info g"
        by (auto simp: folders_to_process_def)
      with that(2) f walk_library(2) [OF d] have "g = f" by (auto simp: distinct_map dest: inj_onD)
      with g p show ?thesis by simp
    qed
    have "fe_id p = fe_id f" by (simp add: p)
    show ?thesis
    proof (cases "find (\<lambda>q. fe_id q = fe_id f) ?ps")
      case None
      with \<open>fe_id p = fe_id f\<close> show ?thesis by (auto simp: find_None_iff)
    next
      case (Some q)
      then have "q \<in> set ?ps" "fe_id q = fe_id f" by (auto simp: find_Some_iff)
      with same Some show ?thesis by auto
    qed
  qed
  then show ?thesis
    unfolding keep scan_folders_rows [OF st1(1)] map_add_def
    by (subst processed_row [OF dps ids]) simp
qed

text \<open>
  C11. A scan is stable: after a scan of a library that succeeded, be it quick or full, a quick scan of
  the same files finds no folder to process. No two of the visited folders may have the same id.
\<close>

theorem rescan_finds_nothing:
  assumes scan: "scan_library e like pe read_tags oks now full lib base [] st = (True, st')"
    and d: "distinct (visited_ids e lib base)" and quick: "\<not> sl_full_in_progress lib"
  shows "folders_to_process False e lib
     (fst (walk_dir_tree e lib base [] (folder_update_info like (we_hash e) lib (ss_folders st') []))) = []"
proof -
  let ?info = "update_info_all lib (ss_folders st)" and ?info' = "update_info_all lib (ss_folders st')"
  have "\<not> (is_outdated e lib (fill_entry ?info' f) \<and>
           \<not> (has_no_files (fill_entry ?info' f) \<and> is_new (fill_entry ?info' f)))"
    if f: "f \<in> set (found_folders e lib base)" for f
  proof -
    define p where "p = fill_entry ?info f"
    note row = scan_library_folders [OF scan d f p_def]
    let ?ps = "folders_to_process full e (scan_job lib full) (map (fill_entry ?info) (found_folders e lib base))"
    show ?thesis
    proof (cases "p \<in> set ?ps")
      case True
      with row have "?info' (fe_id f) = Some \<lparr>ui_updated = now, ui_hash = folder_hash e f\<rparr>"
        by (simp add: update_info_all_def update_info_where_def to_folder_fields)
          (simp add: scan_job_def p_def)
      then show ?thesis using quick by (simp add: is_outdated_fill)
    next
      case False
      with row have "?info' (fe_id f) = ?info (fe_id f)"
        by (simp add: update_info_all_def update_info_where_def)
      then have same: "fill_entry ?info' f = p" unfolding p_def by (rule fill_entry_cong)
      have "p \<in> set (map (fill_entry ?info) (found_folders e lib base))" using f by (simp add: p_def)
      with False have np: "\<not> (is_outdated e (scan_job lib full) p \<and> (full \<or> \<not> (has_no_files p \<and> is_new p)))"
        by (auto simp: folders_to_process_def)
      show ?thesis
      proof (cases full)
        case True
        with np have "fe_prev_hash p = folder_hash e p" by (simp add: is_outdated_def split: if_splits)
        with same quick show ?thesis by (simp add: is_outdated_def)
      next
        case False
        with np quick have "\<not> (is_outdated e lib p \<and> \<not> (has_no_files p \<and> is_new p))"
          by (simp add: scan_job_def is_outdated_def)
        with same show ?thesis by simp
      qed
    qed
  qed
  then show ?thesis
    by (simp add: folders_to_process_def folder_update_info_def walk_library(1) [OF d] filter_empty_conv)
qed



section \<open>An example\<close>

definition demo_walk_env :: walk_env where
  "demo_walk_env =
     \<lparr>we_read_ignore = (\<lambda>_. No_file), we_matches = (\<lambda>_ _. False), we_follow = False, we_files = sample_m3u_env,
      we_hash = concat, we_md5 = (\<lambda>s. s), we_time = (\<lambda>t. if t = zero_time then ''0'' else itoa t), we_playlists_path = [], we_glob = (\<lambda>_ _. False),
      we_info_ok = (\<lambda>_. True)\<rparr>"

definition demo_scan_lib :: scan_lib where
  "demo_scan_lib = \<lparr>sl_id = 1, sl_path = ''/m'', sl_full_in_progress = False, sl_scan_started = 5\<rparr>"

definition scan_file :: "go_time \<Rightarrow> file_info" where
  "scan_file t = \<lparr>fi_modified = t, fi_size = 9, fi_ok = True\<rparr>"

definition demo_tree :: fs_tree where
  "demo_tree = Fs_dir (scan_file 1) True
     [(''b'', Fs_dir (scan_file 2) True [(''s.mp3'', Fs_file (scan_file 3)), (''.x'', Fs_file (scan_file 3))]),
      (''a'', Fs_dir (scan_file 2) True [])]"

definition demo_persist_env :: persist_env where
  "demo_persist_env = \<lparr>pe_created = (\<lambda>_. 0), pe_album_oks = (\<lambda>_. (True, True)), pe_fresh = sk_path\<rparr>"

definition demo_read_tags :: "string list \<Rightarrow> (string \<times> file_meta) list option" where
  "demo_read_tags ps = Some (map (\<lambda>p. (p, \<lparr>fm_album = ''al'', fm_prev_album = ''al'', fm_modified = 3\<rparr>)) ps)"

definition empty_store :: scan_store where
  "empty_store = \<lparr>ss_folders = Map.empty, ss_tracks = [], ss_albums = Map.empty, ss_annotations = [], ss_touched = []\<rparr>"

lemma scan_folders_ok:
  "(\<And>i. oks i) \<Longrightarrow> fst (scan_folders e pe read_tags oks now full lib fs st)"
  by (induction fs arbitrary: st) (simp_all add: persist_changes_def Let_def split: prod.split)

lemma scan_library_ok:
  "(\<And>i. oks i) \<Longrightarrow> fst (scan_library e like pe read_tags oks now full lib base ps st)"
  by (simp add: scan_library_def Let_def scan_folders_ok split_beta)

lemma demo_first_scan:
  "map fe_path (folders_to_process False demo_walk_env demo_scan_lib
     (fst (walk_dir_tree demo_walk_env demo_scan_lib demo_tree [] Map.empty))) = [''b'']"
  by code_simp

theorem rescan_finds_nothing_witness:
  "let st' = snd (scan_library demo_walk_env like_doc demo_persist_env demo_read_tags (\<lambda>_. True) 7 False
                    demo_scan_lib demo_tree [] empty_store)
   in folders_to_process False demo_walk_env demo_scan_lib
        (fst (walk_dir_tree demo_walk_env demo_scan_lib demo_tree []
           (folder_update_info like_doc (we_hash demo_walk_env) demo_scan_lib (ss_folders st') []))) = []"
proof -
  have "distinct (visited_ids demo_walk_env demo_scan_lib demo_tree)" by code_simp
  moreover have "\<not> sl_full_in_progress demo_scan_lib" by (simp add: demo_scan_lib_def)
  ultimately show ?thesis
    unfolding Let_def by (intro rescan_finds_nothing prod_eqI) (simp_all add: scan_library_ok)
qed



section \<open>The tracks of a folder after it was scanned\<close>

definition path_key :: "scan_track \<Rightarrow> int \<times> string" where
  "path_key r = (sk_library r, sk_path r)"

definition tracks_ok :: "scan_track list \<Rightarrow> bool" where
  "tracks_ok rows \<longleftrightarrow> distinct (map sk_id rows) \<and> distinct (map path_key rows)"

definition fresh_for :: "(scan_track \<Rightarrow> string) \<Rightarrow> scan_track list \<Rightarrow> scan_track list \<Rightarrow> bool" where
  "fresh_for fresh ts rows \<longleftrightarrow>
     (\<forall>t \<in> set ts. fresh t \<in> sk_id ` set rows \<longrightarrow> path_key t \<in> path_key ` set rows) \<and>
     (\<forall>t \<in> set ts. \<forall>u \<in> set ts. fresh t = fresh u \<longrightarrow> path_key t = path_key u)"

lemma key_find:
  "find (\<lambda>r. sk_path r = sk_path t \<and> sk_library r = sk_library t) rows = find (\<lambda>r. path_key r = path_key t) rows"
  by (rule arg_cong [where f = "\<lambda>p. find p rows"]) (auto simp: path_key_def)

lemma put_scan_track_set:
  assumes "tracks_ok rows" "fresh_for fresh (t # ts) rows"
  obtains i where "set (put_scan_track fresh t rows) = insert (t\<lparr>sk_id := i\<rparr>) {r \<in> set rows. path_key r \<noteq> path_key t}"
    and "tracks_ok (put_scan_track fresh t rows)" and "fresh_for fresh ts (put_scan_track fresh t rows)"
proof (cases "find (\<lambda>r. path_key r = path_key t) rows")
  case None
  then have new: "path_key t \<notin> path_key ` set rows" by (auto simp: find_None_iff)
  then have id: "fresh t \<notin> sk_id ` set rows" using assms(2) by (auto simp: fresh_for_def)
  have eq: "put_scan_track fresh t rows = rows @ [t\<lparr>sk_id := fresh t\<rparr>]"
    unfolding put_scan_track_def key_find None by simp
  have k: "path_key (t\<lparr>sk_id := i\<rparr>) = path_key t" for i by (simp add: path_key_def)
  show thesis
  proof (rule that [of "fresh t"])
    show "set (put_scan_track fresh t rows) = insert (t\<lparr>sk_id := fresh t\<rparr>) {r \<in> set rows. path_key r \<noteq> path_key t}"
      using new by (auto simp: eq) (metis imageI)
    show "tracks_ok (put_scan_track fresh t rows)"
      using assms(1) new id by (auto simp: eq tracks_ok_def k)
    show "fresh_for fresh ts (put_scan_track fresh t rows)"
    proof -
      have sets: "sk_id ` set (put_scan_track fresh t rows) = insert (fresh t) (sk_id ` set rows)"
        "path_key ` set (put_scan_track fresh t rows) = insert (path_key t) (path_key ` set rows)"
        by (simp_all add: eq k)
      have "path_key u \<in> insert (path_key t) (path_key ` set rows)"
        if "u \<in> set ts" "fresh u \<in> insert (fresh t) (sk_id ` set rows)" for u
        using assms(2) that unfolding fresh_for_def by (metis insert_iff list.set_intros)
      with assms(2) show ?thesis unfolding fresh_for_def sets by (metis list.set_intros(2))
    qed
  qed
next
  case (Some r)
  then have r: "r \<in> set rows" "path_key r = path_key t" by (auto simp: find_Some_iff)
  have eq: "put_scan_track fresh t rows = map (\<lambda>q. if q = r then t\<lparr>sk_id := sk_id r\<rparr> else q) rows"
    unfolding put_scan_track_def key_find Some option.case
    using assms(1) r(1) by (intro map_cong refl) (auto simp: tracks_ok_def distinct_map dest: inj_onD)
  have same: "q = r" if "q \<in> set rows" "path_key q = path_key t" for q
    using assms(1) r that unfolding tracks_ok_def distinct_map by (metis inj_onD)
  have ids: "map sk_id (put_scan_track fresh t rows) = map sk_id rows"
    and keys: "map path_key (put_scan_track fresh t rows) = map path_key rows"
    using r(2) by (auto simp: eq path_key_def)
  then have sets: "sk_id ` set (put_scan_track fresh t rows) = sk_id ` set rows"
    "path_key ` set (put_scan_track fresh t rows) = path_key ` set rows"
    by (metis set_map)+
  show thesis
  proof (rule that [of "sk_id r"])
    show "set (put_scan_track fresh t rows) = insert (t\<lparr>sk_id := sk_id r\<rparr>) {q \<in> set rows. path_key q \<noteq> path_key t}"
    proof -
      have id: "(\<lambda>q. if q = r then x else q) ` A = A" if "r \<notin> A" for A x
      proof -
        from that have "(\<lambda>q. if q = r then x else q) ` A = id ` A" by (intro image_cong) auto
        then show ?thesis by simp
      qed
      have "set rows = insert r {q \<in> set rows. path_key q \<noteq> path_key t}" using r same by blast
      then have "set (put_scan_track fresh t rows) =
          (\<lambda>q. if q = r then t\<lparr>sk_id := sk_id r\<rparr> else q) ` insert r {q \<in> set rows. path_key q \<noteq> path_key t}"
        unfolding eq set_map by simp
      also have "\<dots> = insert (t\<lparr>sk_id := sk_id r\<rparr>) {q \<in> set rows. path_key q \<noteq> path_key t}"
        unfolding image_insert using r by (subst id) auto
      finally show ?thesis .
    qed
    show "tracks_ok (put_scan_track fresh t rows)" using assms(1) by (simp add: tracks_ok_def ids keys)
    show "fresh_for fresh ts (put_scan_track fresh t rows)" 
      using assms(2) unfolding fresh_for_def sets by (meson list.set_intros(2))
  qed
qed

lemma put_scan_tracks:
  assumes "tracks_ok rows" "fresh_for fresh ts rows"
  defines "rows1 \<equiv> fold (put_scan_track fresh) ts rows"
  shows "tracks_ok rows1"
    and "{r \<in> set rows. path_key r \<notin> path_key ` set ts} \<subseteq> set rows1"
    and "\<forall>t \<in> set ts. \<exists>r \<in> set rows1. path_key r = path_key t"
    and "\<forall>r \<in> set rows1. (r \<in> set rows \<and> path_key r \<notin> path_key ` set ts) \<or>
           (\<exists>t \<in> set ts. \<exists>i. r = t\<lparr>sk_id := i\<rparr>)"
  using assms(1,2) unfolding rows1_def
proof (induction ts arbitrary: rows)
  case (Cons t ts)
  {
    case 1
    then show ?case using Cons.IH(1) by (auto elim: put_scan_track_set)
  next
    case 2
    from put_scan_track_set [OF 2] obtain i where
        s: "set (put_scan_track fresh t rows) = insert (t\<lparr>sk_id := i\<rparr>) {r \<in> set rows. path_key r \<noteq> path_key t}"
        "tracks_ok (put_scan_track fresh t rows)" "fresh_for fresh ts (put_scan_track fresh t rows)" .
    from Cons.IH(2) [OF s(2,3)] s(1) show ?case by auto
  next
    case 3
    from put_scan_track_set [OF 3] obtain i where
        s: "set (put_scan_track fresh t rows) = insert (t\<lparr>sk_id := i\<rparr>) {r \<in> set rows. path_key r \<noteq> path_key t}"
        "tracks_ok (put_scan_track fresh t rows)" "fresh_for fresh ts (put_scan_track fresh t rows)" .
    have "\<exists>r \<in> set (fold (put_scan_track fresh) ts (put_scan_track fresh t rows)). path_key r = path_key t"
    proof (cases "path_key t \<in> path_key ` set ts")
      case True
      with Cons.IH(3) [OF s(2,3)] show ?thesis by fastforce
    next
      case False
      have k: "path_key (t\<lparr>sk_id := i\<rparr>) = path_key t" by (simp add: path_key_def)
      with False s(1) Cons.IH(2) [OF s(2,3)] show ?thesis by (auto intro!: bexI [of _ "t\<lparr>sk_id := i\<rparr>"])
    qed
    with Cons.IH(3) [OF s(2,3)] show ?case by simp
  next
    case 4
    from put_scan_track_set [OF 4] obtain i where
        s: "set (put_scan_track fresh t rows) = insert (t\<lparr>sk_id := i\<rparr>) {r \<in> set rows. path_key r \<noteq> path_key t}"
        "tracks_ok (put_scan_track fresh t rows)" "fresh_for fresh ts (put_scan_track fresh t rows)" .
    from Cons.IH(4) [OF s(2,3)] show ?case by (auto simp: s(1))
  }
qed auto

lemma mark_chunks_all:
  assumes "\<forall>c \<in> set cs. \<exists>r \<in> set rows. sk_id r \<in> set c"
  shows "mark_chunks now cs rows =
     map (\<lambda>r. if sk_id r \<in> set (concat cs) then r\<lparr>sk_missing := True, sk_updated := now\<rparr> else r) rows"
  using assms
proof (induction cs arbitrary: rows)
  case (Cons c cs)
  let ?m = "\<lambda>r. if sk_id r \<in> set c then r\<lparr>sk_missing := True, sk_updated := now\<rparr> else r"
  have i: "sk_id (?m r) = sk_id r" for r by simp
  have "\<exists>r \<in> set (map ?m rows). sk_id r \<in> set d" if "d \<in> set cs" for d
  proof -
    from that Cons.prems obtain r where "r \<in> set rows" "sk_id r \<in> set d" by auto
    then have "?m r \<in> set (map ?m rows)" "sk_id (?m r) \<in> set d" by auto
    then show ?thesis by (rule rev_bexI)
  qed
  then have "\<forall>d \<in> set cs. \<exists>r \<in> set (map ?m rows). sk_id r \<in> set d" by blast
  from Cons.IH [OF this] Cons.prems show ?case by (auto simp: map_eq_conv)
qed simp

lemma chunks_ne: "c \<in> set (collect_chunks n xs) \<Longrightarrow> c \<noteq> [] \<and> set c \<subseteq> set xs"
proof (induction n xs rule: collect_chunks.induct)
  case (1 n xs)
  show ?case
  proof (cases "xs = []")
    case False
    with 1(2) have "c = take (max 1 n) xs \<or> c \<in> set (collect_chunks n (drop (max 1 n) xs))"
      by (subst (asm) collect_chunks.simps) simp
    with 1(1) False show ?thesis by (auto dest: in_set_takeD in_set_dropD)
  qed (use 1(2) in \<open>simp add: collect_chunks.simps\<close>)
qed

lemma mark_tracks_missing_eq:
  assumes "set ms \<subseteq> set rows"
  shows "mark_tracks_missing now ms rows =
     map (\<lambda>r. if sk_id r \<in> sk_id ` set ms then r\<lparr>sk_missing := True, sk_updated := now\<rparr> else r) rows"
proof -
  have "\<exists>r \<in> set rows. sk_id r \<in> set c" if c: "c \<in> set (collect_chunks 200 (map sk_id ms))" for c
  proof -
    from chunks_ne [OF c] obtain i where "i \<in> set c" "i \<in> sk_id ` set ms" by (cases c) auto
    with assms show ?thesis by auto
  qed
  then show ?thesis
    unfolding mark_tracks_missing_def by (subst mark_chunks_all) (auto simp: concat_chunks simp del: set_concat)
qed


text \<open>After marking, a table has the rows that are not meant, and the others as missing.\<close>

lemma mark_tracks_missing_set:
  assumes "tracks_ok rows" "set ms \<subseteq> set rows"
  shows "set (mark_tracks_missing now ms rows) =
     (set rows - set ms) \<union> (\<lambda>r. r\<lparr>sk_missing := True, sk_updated := now\<rparr>) ` set ms"
proof -
  have "sk_id r \<in> sk_id ` set ms \<longleftrightarrow> r \<in> set ms" if "r \<in> set rows" for r
  proof
    assume "sk_id r \<in> sk_id ` set ms"
    then obtain m where m: "m \<in> set ms" "sk_id r = sk_id m" by auto
    have "inj_on sk_id (set rows)" using assms(1) by (simp add: tracks_ok_def distinct_map)
    with m that assms(2) have "r = m" by (auto dest: inj_onD)
    with m show "r \<in> set ms" by simp
  qed simp
  then have "map (\<lambda>r. if sk_id r \<in> sk_id ` set ms then r\<lparr>sk_missing := True, sk_updated := now\<rparr> else r) rows =
      map (\<lambda>r. if r \<in> set ms then r\<lparr>sk_missing := True, sk_updated := now\<rparr> else r) rows"
    by (intro map_cong refl) simp
  then show ?thesis
    unfolding mark_tracks_missing_eq [OF assms(2)] using assms(2) by auto
qed

lemma load_tags_all:
  assumes "\<forall>ps. \<exists>ms. read_tags ps = Some ms \<and> fst ` set ms = set ps"
  shows "\<exists>ms. load_tags read_tags cs = Some ms \<and> fst ` set ms = set (concat cs)"
proof (induction cs)
  case (Cons c cs)
  then obtain ms where ms: "load_tags read_tags cs = Some ms" "fst ` set ms = set (concat cs)" by blast
  from assms obtain m where "read_tags c = Some m" "fst ` set m = set c" by blast
  with ms show ?case by (simp add: image_Un)
qed simp

text \<open>What \<open>process_folder\<close> gives when the times and the tags of all files can be read.\<close>

lemma processed_tracks:
  assumes read: "\<forall>ps. \<exists>ms. read_tags ps = Some ms \<and> fst ` set ms = set ps"
    and info: "\<forall>a \<in> set (fe_audio f). info_ok (audio_path f a)"
    and pd: "pd = process_folder info_ok read_tags full lib f rows"
  shows "pd_gone pd = gone_tracks f rows"
    and "sk_path ` set (pd_tracks pd) =
           audio_path f ` {a \<in> set (fe_audio f). must_import full (db_tracks f rows) f a}"
    and "t \<in> set (pd_tracks pd) \<Longrightarrow> sk_library t = sl_id lib \<and> sk_folder t = fe_id f \<and> \<not> sk_missing t"
proof -
  define imps where "imps = files_to_import full (db_tracks f rows) f"
  have "\<not> info_fails info_ok full (db_tracks f rows) f" using info by (simp add: info_fails_def)
  moreover obtain ms where "load_tags read_tags (collect_chunks 200 (map fst imps)) = Some ms"
      "fst ` set ms = set (concat (collect_chunks 200 (map fst imps)))"
    using load_tags_all [OF read] by blast
  ultimately have ms: "pd_tracks pd = map (meta_track lib f) ms" "fst ` set ms = fst ` set imps"
    and gone: "pd_gone pd = gone_tracks f rows"
    by (simp_all add: pd process_folder_def imps_def [symmetric] Let_def concat_chunks del: set_concat)
  show "pd_gone pd = gone_tracks f rows" by (rule gone)
  have "sk_path ` set (pd_tracks pd) = fst ` set ms"
    by (simp add: ms(1) image_image meta_track_def)
  also have "\<dots> = audio_path f ` {a \<in> set (fe_audio f). must_import full (db_tracks f rows) f a}"
    by (simp add: ms(2) imps_def files_to_import_def image_image)
  finally show "sk_path ` set (pd_tracks pd) =
      audio_path f ` {a \<in> set (fe_audio f). must_import full (db_tracks f rows) f a}" .
  show "sk_library t = sl_id lib \<and> sk_folder t = fe_id f \<and> \<not> sk_missing t" if "t \<in> set (pd_tracks pd)"
    using that by (auto simp: ms(1) meta_track_def)
qed

lemma db_tracks_Some: "db_tracks f rows p = Some r \<Longrightarrow> r \<in> set rows \<and> sk_folder r = fe_id f \<and> sk_path r = p"
  by (auto simp: db_tracks_def slice_to_map_eq dest!: map_of_SomeD)

lemma db_tracks_row:
  assumes "tracks_ok rows" "\<forall>r \<in> set rows. sk_folder r = fe_id f \<longrightarrow> sk_library r = L"
    and "r \<in> set rows" "sk_folder r = fe_id f"
  shows "db_tracks f rows (sk_path r) = Some r"
proof -
  let ?rs = "filter (\<lambda>r. sk_folder r = fe_id f) rows"
  have inj: "inj_on path_key (set rows)" and dist: "distinct rows"
    using assms(1) by (simp_all add: tracks_ok_def distinct_map)
  have "inj_on sk_path (set ?rs)"
  proof (rule inj_onI)
    fix x y assume xy: "x \<in> set ?rs" "y \<in> set ?rs" "sk_path x = sk_path y"
    with assms(2) have "path_key x = path_key y" by (simp add: path_key_def)
    with inj xy show "x = y" by (auto dest: inj_onD)
  qed
  with dist have "distinct (map sk_path ?rs)" by (simp add: distinct_map)
  with assms(3,4) show ?thesis
    unfolding db_tracks_def slice_to_map_eq
    by (subst map_of_eq_Some_iff) (simp_all add: rev_map [symmetric] comp_def)
qed

lemma gone_tracks_iff:
  assumes "tracks_ok rows" "\<forall>r \<in> set rows. sk_folder r = fe_id f \<longrightarrow> sk_library r = L"
  shows "r \<in> set (gone_tracks f rows) \<longleftrightarrow>
     r \<in> set rows \<and> sk_folder r = fe_id f \<and> sk_path r \<notin> audio_path f ` set (fe_audio f)"
  by (auto simp: gone_tracks_def dest: db_tracks_Some intro: db_tracks_row [OF assms])

text \<open>
  C10. After a folder was processed and its changes written, the tracks of the folder that are not
  missing are those of its audio files, each with its path, provided the time and the tags of every file
  could be read. Rows of other folders stay as they were. The table has one row for a path in a library,
  new ids are new, and files stay in their folders.
\<close>

theorem folder_tracks_exact:
  assumes ok: "tracks_ok (ss_tracks st)" "fresh_for (pe_fresh pe) (pd_tracks pd) (ss_tracks st)"
    and lib: "\<forall>r \<in> set (ss_tracks st). sk_folder r = fe_id f \<longrightarrow> sk_library r = sl_id lib"
    and here: "\<forall>r \<in> set (ss_tracks st). sk_library r = sl_id lib \<and> sk_path r \<in> audio_path f ` set (fe_audio f)
                 \<longrightarrow> sk_folder r = fe_id f"
    and read: "\<forall>ps. \<exists>ms. read_tags ps = Some ms \<and> fst ` set ms = set ps"
    and info: "\<forall>a \<in> set (fe_audio f). info_ok (audio_path f a)"
    and pd: "pd = process_folder info_ok read_tags full lib f (ss_tracks st)"
    and st': "persist_changes e pe True now lib f pd st = (True, st')"
  shows "{sk_path r | r. r \<in> set (ss_tracks st') \<and> sk_folder r = fe_id f \<and> \<not> sk_missing r} =
       audio_path f ` set (fe_audio f) \<and>
     {r \<in> set (ss_tracks st). sk_folder r \<noteq> fe_id f} \<subseteq> set (ss_tracks st')"
proof -
  let ?rows = "ss_tracks st" and ?P = "audio_path f ` set (fe_audio f)" and ?ts = "pd_tracks pd"
  let ?rows1 = "fold (put_scan_track (pe_fresh pe)) ?ts ?rows" and ?gone = "gone_tracks f ?rows"
  note ts = processed_tracks [OF read info pd] and put = put_scan_tracks [OF ok]
    and gone = gone_tracks_iff [OF ok(1) lib]
  have new_key: "path_key r \<in> path_key ` set ?ts \<longleftrightarrow> sk_library r = sl_id lib \<and> sk_path r \<in> sk_path ` set ?ts" for r
    using ts(3) by (auto simp: path_key_def image_iff)
  have in_P: "sk_path ` set ?ts \<subseteq> ?P" by (auto simp: ts(2))
  have kept: "r \<in> set ?rows1" if "r \<in> set ?rows" "path_key r \<notin> path_key ` set ?ts" for r
    using put(2) that by auto
  have gone_kept: "set ?gone \<subseteq> set ?rows1"
  proof
    fix r assume "r \<in> set ?gone"
    then have r: "r \<in> set ?rows" "sk_path r \<notin> ?P" by (simp_all add: gone)
    with in_P have "path_key r \<notin> path_key ` set ?ts" unfolding new_key by auto
    with r(1) show "r \<in> set ?rows1" by (rule kept)
  qed
  have none: "mark_tracks_missing now [] rows = rows" for rows
    by (simp add: mark_tracks_missing_def collect_chunks.simps)
  have "ss_tracks st' = mark_tracks_missing now ?gone ?rows1"
    using st' by (auto simp: persist_changes_def Let_def ts(1) none split: if_splits)
  then have rows': "set (ss_tracks st') =
      (set ?rows1 - set ?gone) \<union> (\<lambda>r. r\<lparr>sk_missing := True, sk_updated := now\<rparr>) ` set ?gone"
    by (simp add: mark_tracks_missing_set [OF put(1) gone_kept])
  have sub: "sk_path r \<in> ?P" if "r \<in> set ?rows1 - set ?gone" "sk_folder r = fe_id f" for r
    using put(4) that gone in_P by (fastforce simp: image_iff)
  have sup: "\<exists>r \<in> set ?rows1 - set ?gone. sk_path r = p \<and> sk_folder r = fe_id f \<and> \<not> sk_missing r"
    if p: "p \<in> ?P" for p
  proof (cases "p \<in> sk_path ` set ?ts")
    case True
    then obtain t where t: "t \<in> set ?ts" "sk_path t = p" by blast
    with put(3) obtain r where r: "r \<in> set ?rows1" "path_key r = path_key t" by blast
    then have "path_key r \<in> path_key ` set ?ts" using t(1) by auto
    with put(4) r(1) obtain u i where u: "u \<in> set ?ts" "r = u\<lparr>sk_id := i\<rparr>" by blast
    have "sk_path r = p" using r(2) t(2) by (simp add: path_key_def)
    with r(1) ts(3) [OF u(1)] u(2) p show ?thesis by (auto simp: gone intro!: bexI [of _ r])
  next
    case False
    from p obtain a where a: "a \<in> set (fe_audio f)" "audio_path f a = p" by auto
    with False ts(2) have "\<not> must_import full (db_tracks f ?rows) f a" by auto
    with a(2) obtain t where t: "db_tracks f ?rows p = Some t" "\<not> sk_missing t"
      by (auto simp: must_import_def split: option.splits)
    note t1 = db_tracks_Some [OF t(1)]
    with False have "path_key t \<notin> path_key ` set ?ts" unfolding new_key by auto
    with t1 have "t \<in> set ?rows1" by (intro kept) simp_all
    with t(2) t1 p show ?thesis by (auto simp: gone intro!: bexI [of _ t])
  qed
  have frame: "r \<in> set (ss_tracks st')" if "r \<in> set ?rows" "sk_folder r \<noteq> fe_id f" for r
  proof -
    have "path_key r \<notin> path_key ` set ?ts" using that here in_P unfolding new_key by auto
    with that have "r \<in> set ?rows1" by (intro kept)
    with that show ?thesis by (auto simp: rows' gone)
  qed
  show ?thesis
  proof (intro conjI subset_antisym subsetI)
    fix p assume "p \<in> ?P"
    from sup [OF this] obtain r where "r \<in> set (ss_tracks st')" "sk_path r = p" "sk_folder r = fe_id f" "\<not> sk_missing r"
      by (auto simp: rows')
    then show "p \<in> {sk_path r | r. r \<in> set (ss_tracks st') \<and> sk_folder r = fe_id f \<and> \<not> sk_missing r}" by blast
  qed (use sub frame in \<open>auto simp: rows'\<close>)
qed

section \<open>A folder, and a selective scan\<close>

definition demo_folder :: folder_entry where
  "demo_folder =
     \<lparr>fe_id = ''F'', fe_path = ''b'', fe_modified = 3, fe_updated = 1,
      fe_audio = [(''s.mp3'', 9, 3), (''n.mp3'', 9, 3)], fe_images = [], fe_playlists = 0, fe_sub_folders = 0,
      fe_images_at = 0, fe_prev_hash = ''h''\<rparr>"

definition demo_row :: "string \<Rightarrow> string \<Rightarrow> string \<Rightarrow> scan_track" where
  "demo_row i folder path =
     \<lparr>sk_id = i, sk_library = 1, sk_folder = folder, sk_path = path, sk_album = ''al'', sk_updated = 4, sk_missing = False\<rparr>"

definition folder_store :: scan_store where
  "folder_store = empty_store\<lparr>ss_tracks :=
     [demo_row ''1'' ''F'' ''b/s.mp3'', demo_row ''2'' ''F'' ''b/gone.mp3'', demo_row ''3'' ''G'' ''c/x.mp3'']\<rparr>"

definition demo_processed :: processed where
  "demo_processed =
     process_folder (we_info_ok demo_walk_env) demo_read_tags False demo_scan_lib demo_folder (ss_tracks folder_store)"

lemma demo_processed_tracks: "map sk_path (pd_tracks demo_processed) = [''b/n.mp3'']"
  by code_simp

lemma demo_paths: "map (audio_path demo_folder) (fe_audio demo_folder) = [''b/s.mp3'', ''b/n.mp3'']"
  by code_simp

theorem folder_tracks_exact_witness:
  "let st' = snd (persist_changes demo_walk_env demo_persist_env True 7 demo_scan_lib demo_folder demo_processed folder_store)
   in {sk_path r | r. r \<in> set (ss_tracks st') \<and> sk_folder r = ''F'' \<and> \<not> sk_missing r} = {''b/s.mp3'', ''b/n.mp3''}
    \<and> demo_row ''3'' ''G'' ''c/x.mp3'' \<in> set (ss_tracks st')"
proof -
  let ?st' = "snd (persist_changes demo_walk_env demo_persist_env True 7 demo_scan_lib demo_folder demo_processed folder_store)"
  have P: "audio_path demo_folder ` set (fe_audio demo_folder) = {''b/s.mp3'', ''b/n.mp3''}"
    by (metis demo_paths list.set_map list.simps(15) empty_set)
  have rows: "ss_tracks folder_store =
      [demo_row ''1'' ''F'' ''b/s.mp3'', demo_row ''2'' ''F'' ''b/gone.mp3'', demo_row ''3'' ''G'' ''c/x.mp3'']"
    by (simp add: folder_store_def)
  obtain t where t: "pd_tracks demo_processed = [t]" "sk_path t = ''b/n.mp3''"
    using demo_processed_tracks by auto
  have "{sk_path r | r. r \<in> set (ss_tracks ?st') \<and> sk_folder r = fe_id demo_folder \<and> \<not> sk_missing r} =
       audio_path demo_folder ` set (fe_audio demo_folder) \<and>
     {r \<in> set (ss_tracks folder_store). sk_folder r \<noteq> fe_id demo_folder} \<subseteq> set (ss_tracks ?st')"
  proof (rule folder_tracks_exact [OF _ _ _ _ _ _ demo_processed_def])
    show "\<forall>a \<in> set (fe_audio demo_folder). we_info_ok demo_walk_env (audio_path demo_folder a)"
      by (simp add: demo_walk_env_def)
    show "tracks_ok (ss_tracks folder_store)" by (simp add: rows tracks_ok_def demo_row_def path_key_def)
    show "fresh_for (pe_fresh demo_persist_env) (pd_tracks demo_processed) (ss_tracks folder_store)"
      by (simp add: fresh_for_def t rows demo_row_def demo_persist_env_def)
    show "\<forall>ps. \<exists>ms. demo_read_tags ps = Some ms \<and> fst ` set ms = set ps"
      by (simp add: demo_read_tags_def image_image)
    show "\<forall>r \<in> set (ss_tracks folder_store). sk_folder r = fe_id demo_folder \<longrightarrow> sk_library r = sl_id demo_scan_lib"
      by (simp add: rows demo_row_def demo_scan_lib_def)
    show "\<forall>r \<in> set (ss_tracks folder_store). sk_library r = sl_id demo_scan_lib \<and>
        sk_path r \<in> audio_path demo_folder ` set (fe_audio demo_folder) \<longrightarrow> sk_folder r = fe_id demo_folder"
      unfolding P by (simp add: rows demo_row_def demo_folder_def)
    show "persist_changes demo_walk_env demo_persist_env True 7 demo_scan_lib demo_folder demo_processed folder_store =
        (True, ?st')"
      by (simp add: persist_changes_def Let_def)
  qed
  moreover have "demo_row ''3'' ''G'' ''c/x.mp3'' \<in> {r \<in> set (ss_tracks folder_store). sk_folder r \<noteq> fe_id demo_folder}"
    by (simp add: rows demo_row_def demo_folder_def)
  moreover have "fe_id demo_folder = ''F''" by (simp add: demo_folder_def)
  ultimately show ?thesis unfolding P Let_def by auto
qed

text \<open>
  A folder that was skipped with a warning is not tried again: its row has the hash of its files, so
  until one of them changes it is up to date, although its tracks are not in the table.
\<close>

lemma skipped_folder_up_to_date:
  assumes "load_tags read_tags (collect_chunks 200 (map fst (files_to_import full (db_tracks f (ss_tracks st)) f))) = None"
    and "persist_changes e pe True now lib f (process_folder info_ok read_tags full lib f (ss_tracks st)) st = (True, st')"
    and "folder_id (we_hash e) lib (fe_path f) = fe_id f"
  shows "map sk_id (ss_tracks st') = map sk_id (ss_tracks st)"
    and "update_info_all lib (ss_folders st') (fe_id f) = Some \<lparr>ui_updated = now, ui_hash = folder_hash e f\<rparr>"
proof -
  let ?pd = "process_folder info_ok read_tags full lib f (ss_tracks st)"
  have ids: "map sk_id (mark_chunks now cs rows) = map sk_id rows" for cs rows
    by (induction cs arbitrary: rows) (simp_all add: comp_def if_distrib [of sk_id] cong: if_cong)
  have "pd_tracks ?pd = []" using assms(1) by (simp add: process_folder_def Let_def)
  with assms(2) show "map sk_id (ss_tracks st') = map sk_id (ss_tracks st)"
    by (auto simp: persist_changes_def Let_def mark_tracks_missing_def ids split: if_splits)
  from persist_changes_folders [OF assms(2)] assms(3)
  show "update_info_all lib (ss_folders st') (fe_id f) = Some \<lparr>ui_updated = now, ui_hash = folder_hash e f\<rparr>"
    by (simp add: update_info_all_def update_info_where_def to_folder_fields)
qed

text \<open>
  The folders below a target are found with \<open>LIKE\<close>, and the name of the target is not escaped: a scan of
  \<open>a_b\<close> takes folders below \<open>axb\<close> for its own, does not find them, and marks them and their tracks as
  missing although they are there.
\<close>

definition wild_tree :: fs_tree where
  "wild_tree = Fs_dir (scan_file 1) True
     [(''a_b'', Fs_dir (scan_file 2) True []),
      (''axb'', Fs_dir (scan_file 2) True
         [(''c'', Fs_dir (scan_file 2) True [(''d'', Fs_dir (scan_file 2) True [(''s.mp3'', Fs_file (scan_file 3))])])])]"

definition wild_store :: scan_store where
  "wild_store = empty_store\<lparr>
     ss_folders := [''1:axb/c/d'' \<mapsto> new_folder concat demo_scan_lib ''axb/c/d'' 1],
     ss_tracks := [demo_row ''1'' ''1:axb/c/d'' ''axb/c/d/s.mp3'']\<rparr>"

lemma wildcard_marks_missing:
  "map sk_missing (ss_tracks (snd (scan_library demo_walk_env like_doc demo_persist_env demo_read_tags (\<lambda>_. True) 7
     False demo_scan_lib wild_tree [''a_b''] wild_store))) = [True]"
  by code_simp

end
