(* ===== verification/SqlRepository.thy ===== *)
theory SqlRepository
  imports Slices Paths
begin

text \<open>
  What all repositories share: \<open>persistence/sql_base_repository.go\<close>, \<open>sql_restful.go\<close> and
  \<open>helpers.go\<close>. Names of columns in two styles, the order of results, the filters and sorting that
  the REST interface may ask for, and writing a record. Filters are kept as terms; their SQL is the
  query builder's. A walk over a Go map has its order as an argument.
\<close>

section \<open>Names\<close>

definition is_small :: "char \<Rightarrow> bool" where
  "is_small c \<longleftrightarrow> 97 \<le> byte c \<and> byte c \<le> 122"

definition upper_char :: "char \<Rightarrow> char" where
  "upper_char c = (if is_small c then char_of (of_char c - 32 :: nat) else c)"

text \<open>The two replacements of \<open>toSnakeCase\<close>: \<open>(.)([A-Z][a-z]+)\<close> and \<open>([a-z0-9])([A-Z])\<close>.\<close>

function snake_words :: "string \<Rightarrow> string" where
  "snake_words s =
     (case s of
        c # u # l # r \<Rightarrow>
          (if c \<noteq> CHR 0x0A \<and> is_upper u \<and> is_small l
           then c # CHR ''_'' # u # takeWhile is_small (l # r) @ snake_words (dropWhile is_small (l # r))
           else c # snake_words (u # l # r))
      | _ \<Rightarrow> s)"
  by pat_completeness auto
termination
proof (relation "measure length", simp, goal_cases)
  case (1 s c s' u s'' l r)
  have "length (dropWhile is_small (l # r)) \<le> length (l # r)" by (rule length_dropWhile_le)
  with 1 show ?case by auto
qed auto

declare snake_words.simps [simp del]

fun snake_caps :: "string \<Rightarrow> string" where
  "snake_caps (a # b # r) =
     (if (is_small a \<or> is_digit a) \<and> is_upper b then a # CHR ''_'' # b # snake_caps r
      else a # snake_caps (b # r))"
| "snake_caps s = s"

definition to_snake_case :: "string \<Rightarrow> string" where
  "to_snake_case s = to_lower (snake_caps (snake_words s))"

fun to_camel_case :: "string \<Rightarrow> string" where
  "to_camel_case (a # b # r) =
     (if a = CHR ''_'' \<and> (is_small b \<or> is_upper b) then upper_char b # to_camel_case r
      else a # to_camel_case (b # r))"
| "to_camel_case s = s"

lemma snake_examples:
  "to_snake_case ''camelCase'' = ''camel_case''" "to_snake_case ''PascalCase'' = ''pascal_case''"
  "to_snake_case ''ALLCAPS'' = ''allcaps''" "to_snake_case ''snake_case'' = ''snake_case''"
  "to_camel_case ''snake_case'' = ''snakeCase''" "to_camel_case ''ALLCAPS'' = ''ALLCAPS''"
  by code_simp+

text \<open>\<open>mapSortOrder\<close>: the columns \<open>order_...\<close> are replaced by expressions that prefer \<open>sort_...\<close>.\<close>

definition order_char :: "char \<Rightarrow> bool" where
  "order_char c \<longleftrightarrow> is_small c \<or> c = CHR ''_''"

function map_order_columns :: "string \<Rightarrow> string \<Rightarrow> string" where
  "map_order_columns t s =
     (case s of
        [] \<Rightarrow> []
      | c # r \<Rightarrow>
          (let name = takeWhile order_char (drop 6 s)
           in if has_prefix s ''order_'' \<and> name \<noteq> []
              then ''(coalesce(nullif('' @ t @ ''.sort_'' @ name @ '','' @ [CHR 0x27, CHR 0x27] @ ''),'' @ t @ ''.order_'' @ name @
                   '') collate nocase)'' @ map_order_columns t (dropWhile order_char (drop 6 s))
              else c # map_order_columns t r))"
  by pat_completeness auto
termination
proof (relation "measure (\<lambda>(t, s). length s)", simp, goal_cases)
  case (1 t s c r name)
  have "length (dropWhile order_char (drop 6 s)) \<le> length (drop 6 s)" by (rule length_dropWhile_le)
  with 1 show ?case by auto
qed auto

declare map_order_columns.simps [simp del]

definition map_sort_order :: "string \<Rightarrow> string \<Rightarrow> string" where
  "map_sort_order t order = map_order_columns t (to_lower order)"

definition set_sort_mappings :: "bool \<Rightarrow> string \<Rightarrow> (string \<times> string) list \<Rightarrow> (string \<times> string) list" where
  "set_sort_mappings prefer_sort_tags t m =
     (if prefer_sort_tags then map (\<lambda>(k, v). (k, map_sort_order t v)) m else m)"

section \<open>The order of results\<close>

definition sort_mapping :: "(string \<times> string) list \<Rightarrow> string \<Rightarrow> string" where
  "sort_mapping m s =
     (case map_of m s of
        Some v \<Rightarrow> v
      | None \<Rightarrow>
          (case map_of m (to_camel_case s) of
             Some v \<Rightarrow> v
           | None \<Rightarrow>
               (case map_of m (to_snake_case s) of Some v \<Rightarrow> v | None \<Rightarrow> to_snake_case s)))"

text \<open>
  \<open>strings.FieldsFunc\<close> with \<open>splitFunc\<close>: a delimiter within parentheses does not count. The function
  remembers how many are open, so it relies on being asked for every character once and in order.
\<close>

fun sort_fields_from :: "char \<Rightarrow> nat \<Rightarrow> string \<Rightarrow> string \<Rightarrow> string list" where
  "sort_fields_from d open cur [] = (if cur = [] then [] else [rev cur])"
| "sort_fields_from d open cur (c # cs) =
     (if c = CHR ''('' then sort_fields_from d (Suc open) (c # cur) cs
      else if open > 0 then sort_fields_from d (if c = CHR '')'' then open - 1 else open) (c # cur) cs
      else if c = d then (if cur = [] then sort_fields_from d open [] cs else rev cur # sort_fields_from d open [] cs)
      else sort_fields_from d open (c # cur) cs)"

definition sort_fields :: "char \<Rightarrow> string \<Rightarrow> string list" where
  "sort_fields d s = sort_fields_from d 0 [] s"

text \<open>\<open>None\<close> is the panic for an item of spaces only.\<close>

definition order_item :: "string \<Rightarrow> string \<Rightarrow> string \<Rightarrow> string option" where
  "order_item order reverse_order p =
     (case sort_fields (CHR '' '') p of
        [] \<Rightarrow> None
      | [f] \<Rightarrow> Some (join '' '' [f, order])
      | f # g # _ \<Rightarrow> Some (join '' '' [f, if g = ''asc'' then order else reverse_order]))"

fun order_items :: "string \<Rightarrow> string \<Rightarrow> string list \<Rightarrow> string list option" where
  "order_items o1 o2 [] = Some []"
| "order_items o1 o2 (p # ps) =
     (case order_item o1 o2 p of
        None \<Rightarrow> None
      | Some x \<Rightarrow> map_option (\<lambda>xs. x # xs) (order_items o1 o2 ps))"

definition build_sort_order :: "(string \<times> string) list \<Rightarrow> string \<Rightarrow> string \<Rightarrow> string option" where
  "build_sort_order m s order0 =
     (let order = to_lower (trim_space order0);
          dirs = (if order = ''desc'' then (order, ''asc'') else (''asc'', ''desc''))
      in map_option (join '', '') (order_items (fst dirs) (snd dirs) (sort_fields (CHR '','') (sort_mapping m s))))"

text \<open>What an order means: columns with their directions.\<close>

definition item_spec :: "string \<Rightarrow> (string \<times> bool) option" where
  "item_spec p =
     (case sort_fields (CHR '' '') p of
        [] \<Rightarrow> None
      | f # gs \<Rightarrow> Some (f, gs = [] \<or> hd gs = ''asc''))"

fun all_some :: "'a option list \<Rightarrow> 'a list option" where
  "all_some [] = Some []"
| "all_some (None # xs) = None"
| "all_some (Some x # xs) = map_option (\<lambda>ys. x # ys) (all_some xs)"

definition sort_spec :: "(string \<times> string) list \<Rightarrow> string \<Rightarrow> (string \<times> bool) list option" where
  "sort_spec m s = all_some (map item_spec (sort_fields (CHR '','') (sort_mapping m s)))"

definition print_spec :: "(string \<times> bool) list \<Rightarrow> string" where
  "print_spec cs = join '', '' (map (\<lambda>(c, up). c @ (if up then '' asc'' else '' desc'')) cs)"

lemma order_items_spec:
  "order_items (if down then ''desc'' else ''asc'') (if down then ''asc'' else ''desc'') ps =
     map_option (map (\<lambda>(c, up). c @ (if up = down then '' desc'' else '' asc''))) (all_some (map item_spec ps))"
proof (induction ps)
  case (Cons p ps)
  have "order_item (if down then ''desc'' else ''asc'') (if down then ''asc'' else ''desc'') p =
      map_option (\<lambda>(c, up). c @ (if up = down then '' desc'' else '' asc'')) (item_spec p)"
    by (auto simp: order_item_def item_spec_def split: list.split)
  with Cons show ?case by (cases "item_spec p"; cases "all_some (map item_spec ps)") auto
qed simp

text \<open>
  C40. Sorting in descending order is sorting in ascending order with every column reversed, and any
  other word for the order means ascending.
\<close>

theorem sort_order_reversed:
  "build_sort_order m s order =
     map_option (\<lambda>cs. print_spec (if to_lower (trim_space order) = ''desc''
                                  then map (\<lambda>(c, up). (c, \<not> up)) cs else cs)) (sort_spec m s)"
proof -
  have swap: "(if \<not> b then x else y) = (if b then y else x)" for b and x y :: string by simp
  show ?thesis
  proof (cases "to_lower (trim_space order) = ''desc''")
    case True
    then show ?thesis
      using order_items_spec [of True]
      by (simp add: build_sort_order_def sort_spec_def Let_def option.map_comp comp_def print_spec_def case_prod_beta' swap)
  next
    case False
    then show ?thesis
      using order_items_spec [of False]
      by (simp add: build_sort_order_def sort_spec_def Let_def option.map_comp comp_def print_spec_def case_prod_beta' swap)
  qed
qed

lemma sort_order_examples:
  "build_sort_order [] ''name, order_id desc'' ''DESC'' = Some ''name desc, order_id asc''"
  "build_sort_order [] ''(a desc, b) desc,c'' [] = Some ''(a desc, b) desc, c asc''"
  "build_sort_order [(''title'', ''order_title'')] ''Title'' ''up'' = Some ''order_title asc''"
  "build_sort_order [] ''a, ,b'' [] = None"
  by code_simp+

section \<open>Requests of the REST interface\<close>













section \<open>Writing a record\<close>

text \<open>
  A row gives the values of its columns. \<open>put\<close> updates the row with the record's id, or inserts a new
  one; \<open>update_ok\<close> and \<open>insert_ok\<close> say whether the statements succeed.
\<close>

type_synonym sql_row = "string \<rightharpoonup> string"

definition put_update :: "string \<Rightarrow> string list \<Rightarrow> sql_row \<Rightarrow> sql_row" where
  "put_update i cols vals k =
     (if k = ''created_at'' \<or> k = ''birth_time'' then None
      else if k = ''id'' then Some i
      else if cols = [] \<or> k \<in> to_snake_case ` set cols then vals k else None)"

definition sql_put :: "string \<Rightarrow> bool \<Rightarrow> bool \<Rightarrow> string \<Rightarrow> sql_row \<Rightarrow> string list \<Rightarrow> sql_row list
    \<Rightarrow> (string \<times> sql_row list) option" where
  "sql_put fresh update_ok insert_ok i vals cols rows =
     (if i \<noteq> [] \<and> \<not> update_ok then None
      else if i \<noteq> [] \<and> (\<exists>r \<in> set rows. r ''id'' = Some i)
      then Some (i, map (\<lambda>r. if r ''id'' = Some i then r ++ put_update i cols vals else r) rows)
      else if \<not> insert_ok then None
      else if i = [] then Some (fresh, rows @ [vals(''id'' \<mapsto> fresh)])
      else Some (i, rows @ [vals]))"

definition sql_put_by_match ::
  "(sql_row \<Rightarrow> bool) \<Rightarrow> string \<Rightarrow> bool \<Rightarrow> bool \<Rightarrow> bool \<Rightarrow> string \<Rightarrow> sql_row \<Rightarrow> string list \<Rightarrow> sql_row list
    \<Rightarrow> (string \<times> sql_row list) option" where
  "sql_put_by_match matches fresh query_ok update_ok insert_ok i vals cols rows =
     (if i \<noteq> [] then sql_put fresh update_ok insert_ok i vals cols rows
      else if \<not> query_ok then None
      else sql_put fresh update_ok insert_ok
             (case find matches rows of Some r \<Rightarrow> (case r ''id'' of Some j \<Rightarrow> j | None \<Rightarrow> []) | None \<Rightarrow> [])
             vals cols rows)"

lemma put_keeps_rows:
  assumes "sql_put fresh u o1 i vals cols rows = Some (j, rows')" "i \<noteq> []" "r \<in> set rows" "r ''id'' = Some i"
  shows "j = i" "length rows' = length rows"
    "\<And>n k. n < length rows \<Longrightarrow> k \<in> {''created_at'', ''birth_time'', ''id''} \<or>
       (rows ! n) ''id'' \<noteq> Some i \<or> cols \<noteq> [] \<and> k \<notin> to_snake_case ` set cols \<or> vals k = None
       \<Longrightarrow> (rows' ! n) k = (rows ! n) k"
  using assms by (auto simp: sql_put_def put_update_def map_add_def split: if_splits option.splits)

lemma sql_put_hit:
  "i \<noteq> [] \<Longrightarrow> r \<in> set rows \<Longrightarrow> r ''id'' = Some i \<Longrightarrow>
     sql_put fresh True o1 i vals cols rows =
       Some (i, map (\<lambda>r. if r ''id'' = Some i then r ++ put_update i cols vals else r) rows)"
  by (auto simp: sql_put_def)

text \<open>
  Putting a record is idempotent: when the record is put again under the id that the first time
  returned, with the same columns, no row is added, and the table stays as the first update left it.
\<close>

lemma put_idempotent:
  assumes "sql_put fresh u o1 i vals cols rows = Some (j, rows1)" "j \<noteq> []"
    and "vals ''id'' = Some j \<or> i = []"
    and "sql_put fresh True o2 j vals cols rows1 = Some (k, rows2)"
  shows "k = j \<and> length rows2 = length rows1 \<and>
     ((\<exists>r \<in> set rows. r ''id'' = Some i) \<and> i \<noteq> [] \<longrightarrow> rows2 = rows1)"
proof (cases "i \<noteq> [] \<and> (\<exists>r \<in> set rows. r ''id'' = Some i)")
  case True
  let ?f = "\<lambda>r. if r ''id'' = Some i then r ++ put_update i cols vals else r"
  from True assms(1) have j: "j = i" "rows1 = map ?f rows" by (auto simp: sql_put_def split: if_splits)
  have u: "(r ++ put_update i cols vals) ''id'' = Some i" for r :: sql_row
    by (simp add: map_add_def put_update_def)
  from True obtain r where r: "r \<in> set rows" "r ''id'' = Some i" by blast
  then have "?f r \<in> set rows1" "?f r ''id'' = Some j" by (auto simp: j u)
  then have "k = j \<and> rows2 = map ?f rows1"
    using sql_put_hit [OF assms(2), of "?f r" rows1 fresh o2 vals cols] assms(4) unfolding j(1) by auto
  moreover have "m ++ n ++ n = m ++ n" for m n :: sql_row
    by (simp add: map_add_def fun_eq_iff split: option.split)
  then have "?f (?f r) = ?f r" for r by (simp add: u)
  then have "map ?f rows1 = rows1" unfolding j by (simp only: map_map comp_def)
  ultimately show ?thesis by simp
next
  case False
  with assms(1,3) obtain v where v: "rows1 = rows @ [v]" "v ''id'' = Some j"
    by (auto simp: sql_put_def split: if_splits)
  with sql_put_hit [OF assms(2), of v rows1 fresh o2 vals cols] assms(4) False show ?thesis by auto
qed

lemma put_examples:
  "map (\<lambda>r. map r [''id'', ''name'', ''size'', ''created_at'']) (snd (the (sql_put ''x'' True True ''1''
      [''id'' \<mapsto> ''1'', ''name'' \<mapsto> ''new'', ''size'' \<mapsto> ''9'', ''created_at'' \<mapsto> ''today''] [''Name'']
      [[''id'' \<mapsto> ''1'', ''name'' \<mapsto> ''old'', ''size'' \<mapsto> ''3'', ''created_at'' \<mapsto> ''long ago'']]))) =
   [[Some ''1'', Some ''new'', Some ''3'', Some ''long ago'']]"
  by code_simp

lemma put_idempotent_witness:
  "\<exists>rows1. sql_put ''7'' True True [] [''name'' \<mapsto> ''a''] [] [] = Some (''7'', rows1) \<and>
     (\<exists>rows2. sql_put ''7'' True True ''7'' [''name'' \<mapsto> ''a''] [] rows1 = Some (''7'', rows2) \<and> length rows2 = 1)"
proof -
  let ?vals = "[''name'' \<mapsto> ''a'']" and ?rows = "[[''id'' \<mapsto> ''7'', ''name'' \<mapsto> ''a'']]"
  have one: "sql_put ''7'' True True [] ?vals [] [] = Some (''7'', ?rows)"
    by (simp add: sql_put_def fun_eq_iff)
  obtain k rows2 where two: "sql_put ''7'' True True ''7'' ?vals [] ?rows = Some (k, rows2)"
    by (simp add: sql_put_def)
  from put_idempotent [OF one _ _ two] have "k = ''7''" "length rows2 = 1" by simp_all
  with one two show ?thesis by blast
qed

end
