(* ===== verification/ScanTargets.thy ===== *)
theory ScanTargets
  imports Slices Paths
begin

text \<open>
  The folders that a scan is asked for: \<open>model/scanner.go\<close>, and their way to the process that scans
  (\<open>scanner/external.go\<close>, \<open>cmd/scan.go\<close>), as arguments or, when there are many, in a file. The parsing
  of flags is the command library's.
\<close>

section \<open>Targets as text\<close>

record scan_target =
  st_library :: int
  st_path :: string

definition target_string :: "scan_target \<Rightarrow> string" where
  "target_string t = itoa (st_library t) @ '':'' @ st_path t"

datatype target_error =
    Bad_target string
  | Bad_library_id string
  | No_valid_targets
  | Target_file_failed

definition parse_target :: "string \<Rightarrow> target_error + scan_target" where
  "parse_target part =
     (case cut (CHR '':'') part of
        None \<Rightarrow> Inl (Bad_target part)
      | Some (before, after) \<Rightarrow>
          (case atoi before of
             None \<Rightarrow> Inl (Bad_library_id before)
           | Some n \<Rightarrow> if n \<le> 0 then Inl (Bad_library_id before)
                       else Inr \<lparr>st_library = n, st_path = after\<rparr>))"

fun parse_each :: "string list \<Rightarrow> target_error + scan_target list" where
  "parse_each [] = Inr []"
| "parse_each (p # ps) =
     (if trim_space p = [] then parse_each ps
      else (case parse_target (trim_space p) of
              Inl e \<Rightarrow> Inl e
            | Inr t \<Rightarrow> (case parse_each ps of Inl e \<Rightarrow> Inl e | Inr ts \<Rightarrow> Inr (t # ts))))"

definition parse_targets :: "string list \<Rightarrow> target_error + scan_target list" where
  "parse_targets ps =
     (case parse_each ps of
        Inl e \<Rightarrow> Inl e
      | Inr ts \<Rightarrow> if ts = [] then Inl No_valid_targets else Inr ts)"

section \<open>To another process\<close>

definition estimate_arg_length :: "scan_target list \<Rightarrow> nat" where
  "estimate_arg_length ts = foldl (\<lambda>n t. n + (3 + length (target_string t) + 1)) 0 ts"

definition targets_file :: "scan_target list \<Rightarrow> string" where
  "targets_file ts = concat (map (\<lambda>t. target_string t @ [lf]) ts)"

text \<open>The arguments, and the text of the file if one is written under the given name.\<close>

definition target_arguments ::
  "bool \<Rightarrow> string \<Rightarrow> nat \<Rightarrow> scan_target list \<Rightarrow> target_error + string list \<times> string option" where
  "target_arguments write_ok name threshold ts =
     (if estimate_arg_length ts > threshold
      then if write_ok then Inr ([''--target-file'', name], Some (targets_file ts)) else Inl Target_file_failed
      else Inr (concat (map (\<lambda>t. [''-t'', target_string t]) ts), None))"

definition arg_length_threshold :: nat where "arg_length_threshold = 24 * 1024"

text \<open>\<open>bufio.Scanner\<close>: the lines of a text, without the ends of lines; a long line is an error.\<close>

fun file_lines :: "string list \<Rightarrow> string list" where
  "file_lines [] = []"
| "file_lines [l] = (if l = [] then [] else [if last l = cr then butlast l else l])"
| "file_lines (l # ls) = (if l \<noteq> [] \<and> last l = cr then butlast l else l) # file_lines ls"

definition read_lines :: "string \<Rightarrow> string list option" where
  "read_lines s =
     (if \<exists>l \<in> set (split_on lf s). length l \<ge> max_line then None else Some (file_lines (split_on lf s)))"

definition read_targets_from_file :: "string option \<Rightarrow> target_error + scan_target list" where
  "read_targets_from_file file =
     (case file of
        None \<Rightarrow> Inl Target_file_failed
      | Some s \<Rightarrow>
          (case read_lines s of
             None \<Rightarrow> Inl Target_file_failed
           | Some ls \<Rightarrow> parse_targets (filter (\<lambda>l. l \<noteq> []) (map trim_space ls))))"

text \<open>What \<open>runScanner\<close> makes of its two flags.\<close>

definition run_scanner_targets ::
  "(string \<Rightarrow> string option) \<Rightarrow> string \<Rightarrow> string list \<Rightarrow> target_error + scan_target list" where
  "run_scanner_targets files target_file targets =
     (if target_file \<noteq> [] then read_targets_from_file (files target_file)
      else if targets \<noteq> [] then parse_targets targets else Inr [])"

fun flag_values :: "string list \<Rightarrow> string \<times> string list" where
  "flag_values (a # v # r) =
     (let (f, ts) = flag_values r
      in if a = ''--target-file'' then (v, ts) else if a = ''-t'' then (f, v # ts) else (f, ts))"
| "flag_values r = ([], [])"

section \<open>Targets survive\<close>

definition plain_target :: "scan_target \<Rightarrow> bool" where
  "plain_target t \<longleftrightarrow> 0 < st_library t \<and> in_int64 (st_library t) \<and> lf \<notin> set (st_path t) \<and>
     (st_path t = [] \<or> \<not> is_space (last (st_path t))) \<and> length (target_string t) < max_line"

lemma itoa_digits:
  assumes "0 < n"
  shows "itoa n \<noteq> []" "\<forall>c \<in> set (itoa n). is_digit c"
proof -
  show "itoa n \<noteq> []" using assms by (simp add: itoa_def show_int_def)
  have "is_digit (digit_char d)" if "d < 10" for d
    using that by (simp add: digit_char_def is_digit_def byte_def of_char_of)
  with show_base_set [of 10 "nat n"] show "\<forall>c \<in> set (itoa n). is_digit c"
    using assms by (auto simp: itoa_def show_int_def)
qed

lemma digit_is_plain: "is_digit c \<Longrightarrow> \<not> is_space c \<and> c \<noteq> CHR '':'' \<and> c \<noteq> lf"
  by (auto simp: is_digit_def is_space_def byte_def lf_def)

lemma target_text:
  assumes "plain_target t"
  shows "trim_space (target_string t) = target_string t" "target_string t \<noteq> []"
    "lf \<notin> set (target_string t)" "last (target_string t) \<noteq> cr"
    "parse_target (target_string t) = Inr t"
proof -
  let ?s = "target_string t"
  have pos: "0 < st_library t" using assms by (simp add: plain_target_def)
  note d = itoa_digits [OF pos]
  show "?s \<noteq> []" by (simp add: target_string_def)
  have "hd ?s \<in> set (itoa (st_library t))" using d(1) by (simp add: target_string_def)
  with d(2) have hd: "\<not> is_space (hd ?s)" by (blast dest: digit_is_plain)
  have last: "\<not> is_space (last ?s)"
    using assms by (cases "st_path t = []") (auto simp: target_string_def plain_target_def is_space_def)
  from hd last show "trim_space ?s = ?s" by (rule trim_space_id)
  show "last ?s \<noteq> cr" using last by (auto simp: cr_def is_space_def)
  have "lf \<notin> set (itoa (st_library t))" using d(2) digit_is_plain by blast
  with assms show "lf \<notin> set ?s" by (auto simp: target_string_def plain_target_def lf_def)
  have "CHR '':'' \<notin> set (itoa (st_library t))" using d(2) digit_is_plain by blast
  then have "cut (CHR '':'') ?s = Some (itoa (st_library t), st_path t)"
    using cut_append by (simp add: target_string_def)
  with assms show "parse_target ?s = Inr t"
    by (simp add: parse_target_def atoi_itoa plain_target_def)
qed

lemma parse_plain_targets:
  "\<forall>t \<in> set ts. plain_target t \<Longrightarrow> parse_each (map target_string ts) = Inr ts"
  by (induction ts) (simp_all add: target_text)

lemma file_lines_text:
  "\<forall>l \<in> set ls. l \<noteq> [] \<longrightarrow> last l \<noteq> cr \<Longrightarrow> file_lines (ls @ [[]]) = ls"
proof (induction ls)
  case (Cons l ls)
  then show ?case by (cases "ls @ [[]]") auto
qed simp

lemma split_targets_file:
  "\<forall>t \<in> set ts. plain_target t \<Longrightarrow> split_on lf (targets_file ts) = map target_string ts @ [[]]"
proof (induction ts)
  case (Cons t ts)
  then show ?case
    using split_on_append [of lf "target_string t" "targets_file ts"] by (simp add: targets_file_def target_text)
qed (simp add: targets_file_def)

lemma flag_values_flags:
  "flag_values (concat (map (\<lambda>t. [''-t'', target_string t]) ts)) = ([], map target_string ts)"
  by (induction ts) simp_all

text \<open>
  The process that scans gets the targets it was started for, whether they are passed as flags or
  in a file: library ids are positive, and paths have no line break and no blank at their end.
\<close>

lemma targets_reach_the_scanner:
  assumes ts: "\<forall>t \<in> set ts. plain_target t" "ts \<noteq> []" and name: "name \<noteq> []"
    and args: "target_arguments True name threshold ts = Inr (args, file)"
  shows "(case flag_values args of (f, vs) \<Rightarrow> run_scanner_targets (\<lambda>n. if n = name then file else None) f vs) = Inr ts"
proof (cases "estimate_arg_length ts > threshold")
  case True
  with args have a: "args = [''--target-file'', name]" "file = Some (targets_file ts)"
    by (simp_all add: target_arguments_def)
  note split = split_targets_file [OF ts(1)]
  have "0 < max_line" by (simp add: max_line_def)
  then have "read_lines (targets_file ts) = Some (file_lines (map target_string ts @ [[]]))"
    using ts(1) by (auto simp: read_lines_def split plain_target_def)
  moreover have "file_lines (map target_string ts @ [[]]) = map target_string ts"
    using ts(1) target_text(4) by (intro file_lines_text) auto
  moreover have "filter (\<lambda>l. l \<noteq> []) (map trim_space (map target_string ts)) = map target_string ts"
    using ts(1) by (induction ts) (simp_all add: target_text)
  ultimately show ?thesis
    using name ts by (simp add: a run_scanner_targets_def read_targets_from_file_def parse_targets_def parse_plain_targets)
next
  case False
  with args have "args = concat (map (\<lambda>t. [''-t'', target_string t]) ts)"
    by (auto simp: target_arguments_def)
  with ts show ?thesis
    by (simp add: flag_values_flags run_scanner_targets_def parse_targets_def parse_plain_targets)
qed

text \<open>A name that ends with a blank does not arrive, and a comment in the file is an error.\<close>

lemma trailing_blank_lost:
  "parse_targets [target_string \<lparr>st_library = 1, st_path = ''a ''\<rparr>] = Inr [\<lparr>st_library = 1, st_path = ''a''\<rparr>]"
  by code_simp

lemma comment_is_an_error:
  "parse_targets (filter (\<lambda>l. l \<noteq> []) (map trim_space (file_lines (split_on lf (''# all'' @ [lf] @ ''1:a'')))))
     = Inl (Bad_target ''# all'')"
  by code_simp

lemma targets_reach_the_scanner_witness:
  "(case flag_values [''--target-file'', ''f''] of (f, vs) \<Rightarrow>
      run_scanner_targets (\<lambda>n. if n = ''f'' then Some (targets_file [\<lparr>st_library = 12, st_path = ''a b/c''\<rparr>]) else None) f vs)
     = Inr [\<lparr>st_library = 12, st_path = ''a b/c''\<rparr>]"
proof -
  have "target_string \<lparr>st_library = 12, st_path = ''a b/c''\<rparr> = ''12:a b/c''" by code_simp
  then have "\<forall>t \<in> set [\<lparr>st_library = 12, st_path = ''a b/c''\<rparr>]. plain_target t"
    and "target_arguments True ''f'' 0 [\<lparr>st_library = 12, st_path = ''a b/c''\<rparr>] =
      Inr ([''--target-file'', ''f''], Some (targets_file [\<lparr>st_library = 12, st_path = ''a b/c''\<rparr>]))"
    by (simp_all add: plain_target_def in_int64_def lf_def max_line_def is_space_def go_defs
        target_arguments_def estimate_arg_length_def)
  then show ?thesis by (intro targets_reach_the_scanner) simp_all
qed

end
