(* ===== verification/Spec2Isabelle.thy ===== *)
theory Spec2Isabelle
  imports StreamSafety Tokens MpvTrack FFmpeg TaskQueue KVStore PlayTracker PlaybackServer Natural
    JsonComments CriteriaRules PlaylistRefresh PlaylistService MissingTracks Authentication
    ExternalInfo ScheduleService EventBroker Ids Crontab MediaMapping SearchFts M3u Albums
    FolderScan SqlRepository ScanTargets
begin

text \<open>
  A verification library for the core of Navidrome, a music server in Go (\<open>src/navidrome/\<close>).

  \<^bold>\<open>What the program is, and what is modelled.\<close> A client asks which form of a track it can play; the
  server decides (\<open>core/stream\<close>), hands out a signed token for the decision, and later streams the
  file as it is or through ffmpeg (\<open>core/ffmpeg\<close>). In jukebox mode it plays the tracks itself, through
  mpv (\<open>core/playback\<close>). What is played is counted, shown to other users and sent to external services
  (\<open>core/scrobbler\<close>, \<open>persistence\<close>). Users log in, see libraries and edit playlists, some of which are
  filled by rules (\<open>server\<close>, \<open>core/playlists\<close>, \<open>model/criteria\<close>). The scanner walks the folders,
  reads what changed and follows files that were moved. Agents describe artists and albums and name songs, which are looked for in the library
  (\<open>core/agents\<close>, \<open>core/external\<close>). Browsers are told what changed (\<open>server/events\<close>). Plugins get task
  queues, a key-value store and a scheduler (\<open>plugins\<close>). Each of these is a group of theories here.

  \<^bold>\<open>Theories.\<close>
  \<^item> \<open>Prelude\<close>: Go strings as byte strings, the functions of \<open>strings\<close> and \<open>strconv\<close> that are called,
    lists and words; the collections \<open>go_defs\<close> and \<open>step_keeps\<close>. \<open>Steps\<close>: labelled steps, reachable
    states, and the locale \<open>invariant\<close> that the stateful components interpret.
  \<^item> \<open>MediaFile\<close> (\<open>model/mediafile.go\<close>): the fields that are read, and the codec of a file suffix.
  \<^item> \<open>StreamTypes\<close>, \<open>StreamLimits\<close>, \<open>StreamDecider\<close> (\<open>core/stream/types.go\<close>, \<open>aliases.go\<close>, \<open>codec.go\<close>,
    \<open>limitations.go\<close>, \<open>decider.go\<close>, \<open>legacy_client.go\<close>): the whole of \<open>MakeDecision\<close> and
    \<open>ResolveRequest\<close>, with the limits of clients, players and server; \<open>StreamSafety\<close> has their
    theorems: when a track is played directly, that a decision is exactly one of the three kinds, that
    a transcoded stream is one the server can make, within the caps and the upper limitations, and that
    a request of the older kind is always answered.
  \<^item> \<open>Tokens\<close> (\<open>core/auth\<close>, \<open>core/stream/token.go\<close>): claims, session tokens and the tokens of
    decisions; the library for JSON web tokens is a parameter, of which \<open>jwt_faithful\<close> states what its
    documentation says: a signed token gives back its claims, numbers through JSON, while the time is
    within its dates, for claims in UTF-8 with dates that are dates and numbers that floats hold;
    \<open>plain_jwt\<close> is a function that meets it. The round trips hold until the token expires, and a
    changed file makes its tokens stale.
  \<^item> \<open>PlayQueue\<close>, \<open>PlaybackDevice\<close>, \<open>PlaybackServer\<close>, \<open>MpvTrack\<close>, \<open>GoStrings\<close> (\<open>core/playback\<close>,
    \<open>utils/shellquote\<close>): the queue with its index, a device and its commands, the devices of the
    server, a track in mpv and its command line. \<open>track_contract\<close> is what a device needs of a track;
    \<open>mpv_process\<close> is what mpv documents of its properties, and gives \<open>track_contract\<close> for the
    methods of \<open>MpvTrack\<close> by a \<open>sublocale\<close>. Shown: the index stays in the queue and follows the
    current track, no sequence of commands and rounds of the switcher panics, a queue is played to its
    end, and the words of a command template arrive as arguments one for one. The code does not keep
    commands and the switcher apart: \<open>overlapping_start_panics\<close> is a panic of two that overlap.
  \<^item> \<open>FFmpeg\<close> (\<open>core/ffmpeg/ffmpeg.go\<close>): the argument lists, with a file path as one argument, the
    reading of ffprobe's answer, and the bounded buffer for error output.
  \<^item> \<open>ScrobbleBuffer\<close>, \<open>PlayTracker\<close> (\<open>core/scrobbler\<close>, \<open>persistence/scrobble_buffer_repository.go\<close>,
    \<open>sql_annotations.go\<close>, \<open>scrobble_repository.go\<close>): plays are counted in one transaction and put in the
    buffer of each service; a goroutine per service sends them. Its steps interleave with requests,
    timers, other services and deletions. Shown: a play counts as a whole or not at all and reaches
    the right services; no scrobble is lost, sent out of order or left without a wake-up.
  \<^item> \<open>TaskQueue\<close> (\<open>plugins/host_taskqueue.go\<close>): queues, workers, retries, cancellation, cleanup and
    restarts as steps over the table of tasks. Shown: the concurrency budget, the life of a task, the
    number of attempts, the backoff on 64 bits.
  \<^item> \<open>KVStore\<close> (\<open>plugins/host_kvstore.go\<close>, \<open>utils/slice\<close>): the table, its operations and its limit;
    \<open>map_store\<close> is the contract of a map that its reads and writes meet. \<open>engine_documented\<close> states
    what SQLite documents of \<open>LIKE\<close> and of adding seconds to a date. A set is three statements with a
    time each, and \<open>kv_change\<close> has them as steps: the limit holds when no two sets overlap and no
    value expires between its two reads; otherwise \<open>concurrent_sets_exceed_limit\<close> and
    \<open>lapse_exceeds_limit\<close> break it.
  \<^item> \<open>ScheduleService\<close> (\<open>plugins/host_scheduler.go\<close>): the table of schedules, timers, cron jobs and
    callbacks as steps, the lookup of a callback and its call being two. Shown: what is in the table
    stays pending, what was cancelled stays silent but for calls that had read their entry, and how a
    callback that schedules its successor loses it. \<open>Crontab\<close>
    (\<open>scheduler/crontab_schedule.go\<close>): random fields of cron expressions and their bounds.
  \<^item> \<open>Criteria\<close>, \<open>CriteriaRules\<close>, \<open>CriteriaJson\<close> (\<open>model/criteria\<close>): the rules of smart playlists, the
    conditions, joins and order they are translated to, and their JSON form. Shown: negated rules
    print the negated condition of their positive ones, every column has its join, and rules
    survive JSON. The printing of conditions (the query builder) and of dates is a parameter.
  \<^item> \<open>PlaylistRefresh\<close>, \<open>PlaylistTracks\<close>, \<open>PlaylistService\<close> (\<open>core/playlists\<close>,
    \<open>persistence/playlist_repository.go\<close>, \<open>playlist_track_repository.go\<close>): refreshing smart playlists
    that name each other, the table of tracks with its statements for adding, deleting and moving
    rows, and the operations with their permissions. The evaluation of a query is a parameter.
  \<^item> \<open>FolderWalk\<close> (\<open>scanner/ignore_checker.go\<close>, \<open>walk_dir_tree.go\<close>, \<open>folder_entry.go\<close>, \<open>model/folder.go\<close>):
    the walk over a tree of files, with the patterns of ignored files as a stack, and the hash by which
    a folder is compared with its last scan. \<open>FolderScan\<close> (\<open>scanner/phase_1_folders.go\<close>,
    \<open>persistence/folder_repository.go\<close>): folders that changed are read again and written, what was not
    found is marked as missing. Shown: a second scan finds nothing to do, and the tracks of a folder are
    its audio files when these can be read. \<open>ScanTargets\<close> (\<open>model/scanner.go\<close>, \<open>scanner/external.go\<close>, \<open>cmd/scan.go\<close>): the
    folders a scan is asked for reach the process that scans. \<open>SqlRepository\<close> (\<open>persistence/sql_base_repository.go\<close>, \<open>sql_restful.go\<close>): the order of
    results, what REST requests can ask for, and writing a record.
  \<^item> \<open>MissingTracks\<close> (\<open>scanner/phase_2_missing_tracks.go\<close>): files that disappeared are matched with
    new ones; no track is lost or used twice.
  \<^item> \<open>Accounts\<close>, \<open>NetAddr\<close>, \<open>Authentication\<close> (\<open>persistence/user_repository.go\<close>,
    \<open>library_repository.go\<close>, \<open>core/user.go\<close>, \<open>core/library.go\<close>, \<open>server/auth.go\<close>,
    \<open>server/subsonic/middlewares.go\<close>, \<open>server/public/handle_shares.go\<close>): users, their rights and
    passwords, network addresses of trusted proxies, and who is let in. The cipher of passwords and
    MD5 are parameters, with their documented laws as hypotheses.
  \<^item> \<open>Agents\<close> (\<open>core/agents/agents.go\<close>): which agents are enabled and how a request walks along
    them; the locale \<open>first_answer\<close> is the contract of such a walk. \<open>StrUtils\<close> (\<open>utils/str\<close>):
    normalised texts and common prefixes. \<open>SongMatching\<close> (\<open>core/external/provider_matching.go\<close>): the
    songs of an agent become tracks of the library, by identifier or by the best score; the
    identifier queries and the maps are interpretations of \<open>first_answer\<close>. \<open>WeightedChooser\<close>
    (\<open>utils/random/weighted_random_chooser.go\<close>) on 64-bit weights. \<open>ExternalSongs\<close>, \<open>ExternalInfo\<close>
    (\<open>core/external/provider.go\<close>): top and similar songs, similar artists, and the refresh of stored
    information with its queues. The agents, the similarity of texts and the random numbers are
    parameters.
  \<^item> \<open>EventBroker\<close> (\<open>server/events\<close>): subscriptions, messages and connections as steps over bounded
    channels. Shown: which events a connection receives and in which order, and when the listener
    cannot panic.
  \<^item> \<open>Tags\<close>, \<open>Metadata\<close>, \<open>Participants\<close>, \<open>PersistentIds\<close>, \<open>MediaMapping\<close> (\<open>model/tag.go\<close>,
    \<open>tag_mappings.go\<close>, \<open>participants.go\<close>, \<open>model/metadata\<close>): how the raw tags of a file become the row of
    a media file: the mappings, cleaned values, dates, the artists by role, and the persistent ids of
    tracks and albums. \<open>Albums\<close> (\<open>model/mediafile.go\<close>, \<open>model/album.go\<close>): albums are computed from
    their tracks. Shown: tags are typed, the artists of the tags are credited, what an id depends on,
    and that an album says what is true of its tracks, in whatever order they are read.
  \<^item> \<open>Lyrics\<close> (\<open>model/lyrics.go\<close>, \<open>core/lyrics\<close>): plain and timed lyrics and their sources, which are
    a walk with the contract \<open>first_answer\<close>. \<open>SearchFts\<close> (\<open>persistence/sql_search*.go\<close>): what is typed
    becomes an expression of the full-text search that has no operators but its own, or \<open>LIKE\<close> filters.
  \<^item> \<open>M3u\<close> (\<open>core/playlists/parse_m3u.go\<close>, \<open>model/playlist.go\<close>, \<open>ToM3U8\<close>, \<open>FindByPaths\<close>): a playlist
    file is read in chunks, its entries are resolved to libraries and looked up. Shown: an exported
    playlist reads back as it was, and no entry leads out of the libraries.
  \<^item> \<open>Ids\<close>, \<open>HashIds\<close> (\<open>utils/nanoid\<close>, \<open>model/id\<close>, \<open>model/artwork_id.go\<close>): random ids, hashed ids and
    artwork ids. \<open>Slices\<close>, \<open>Paths\<close> (\<open>utils/slice\<close>, \<open>utils/files.go\<close>): lists, and cleaned paths.
  \<^item> \<open>Natural\<close> (\<open>utils/natural/natural.go\<close>): the order of file names. \<open>JsonComments\<close>
    (\<open>utils/jsoncommentstrip\<close>): the reader that strips comments agrees with a one-pass specification.

  \<^bold>\<open>Conventions.\<close> A struct is a record, an error a value of a sum or option type, a Go panic an error of
  its own. A Go \<open>int\<close> that is only compared and copied is an \<open>int\<close>; where it can wrap (the shift of the
  backoff, the casts of sizes) it is a word or the wrap-around is written out. A \<open>float\<close> that is computed
  with is a rational number, so rounding of floats is not covered. Times are numbers. SQL statements and
  calls to other processes may fail: whether they do is an argument, so the theorems hold for every
  pattern of failures. Goroutines are step relations; what the code does under one lock, or in one
  SQL statement, is one step. Logging is left out. Strings are compared and folded as ASCII.

  \<^bold>\<open>Termination and bounds.\<close> Loops are structural recursion or functions with a measure: the length
  of the rest of the text (\<open>Split\<close>, \<open>Compare\<close>), the number of entries left (\<open>processUserQueue\<close>, chunks),
  the length of pattern and text (\<open>LIKE\<close>). Two groups may not end. The refresh of smart playlists
  takes fuel: \<open>PlaylistRefresh\<close> shows that more fuel than the depth of the references is enough, and
  that a playlist that depends on itself runs out of any fuel. The loops of \<open>ExternalSongs\<close> that
  follow references and pick songs are partial functions with the value \<open>None\<close> for not returning;
  \<open>similar_songs_returns\<close> shows that they return for counts up to \<open>2 ^ 20\<close>, and
  \<open>huge_count_never_returns\<close> that a huge count does not. The blocks of random bytes of \<open>Ids\<close> are
  given as a list.

  \<^bold>\<open>Not modelled.\<close> Running processes and sockets, the cache of transcoded streams, HTTP, JSON and SQL
  libraries, the expiry of caches of third-party code, goroutine scheduling below the steps named in
  the theories, and the components that \<open>PROJECT.json\<close> lists as not modelled, each with its reason: they are glue
  around files, processes, HTTP and SQL, generated bindings, or plain records. Of the
  scanner, the refresh of albums, the import of playlists, the controller and the watcher of files are
  left out; the two queries that run a full-text search belong to SQLite.
\<close>

end
